(* ===== verification/Prelude.thy ===== *)
theory Prelude
  imports Complex_Main "HOL-Library.Multiset" "HOL-Library.Sublist"
begin

text \<open>
  Shared ground of the development: the part of Go's standard library that the modelled
  components call (packages \<open>strings\<close>, \<open>bytes\<close> and \<open>strconv\<close>), the in-place
  insertion sort that three components hand-roll, and the generic lemmas about both.

  A Go \<open>string\<close> or \<open>[]byte\<close> is a list of bytes: HOL's \<^typ>\<open>char\<close> is an 8-bit
  character, so \<^typ>\<open>string\<close> is a byte string and \<^const>\<open>length\<close> is Go's \<open>len\<close>.
  Case folding and white space are the ASCII ones; Go's Unicode tables for bytes above 127 are
  not modelled.
\<close>

named_theorems golib "equations of the modelled Go library functions"

type_synonym bytes = string

section \<open>Byte strings: package strings\<close>

definition ascii_val :: "char \<Rightarrow> nat" where
  "ascii_val c = of_char c"

definition is_digit_char :: "char \<Rightarrow> bool" where
  "is_digit_char c \<longleftrightarrow> 48 \<le> ascii_val c \<and> ascii_val c \<le> 57"

definition digit_char :: "nat \<Rightarrow> char" where
  "digit_char d = char_of (48 + d)"

definition lower_char :: "char \<Rightarrow> char" where
  "lower_char c = (if 65 \<le> ascii_val c \<and> ascii_val c \<le> 90 then char_of (ascii_val c + 32) else c)"

definition upper_char :: "char \<Rightarrow> char" where
  "upper_char c = (if 97 \<le> ascii_val c \<and> ascii_val c \<le> 122 then char_of (ascii_val c - 32) else c)"

text \<open>\<open>strings.ToLower\<close>, \<open>strings.ToUpper\<close> and \<open>strings.EqualFold\<close>.\<close>

definition to_lower :: "string \<Rightarrow> string" where
  "to_lower = map lower_char"

definition to_upper :: "string \<Rightarrow> string" where
  "to_upper = map upper_char"

definition equal_fold :: "string \<Rightarrow> string \<Rightarrow> bool" where
  "equal_fold s t \<longleftrightarrow> to_lower s = to_lower t"

definition is_space_char :: "char \<Rightarrow> bool" where
  "is_space_char c \<longleftrightarrow> (9 \<le> ascii_val c \<and> ascii_val c \<le> 13) \<or> ascii_val c = 32"

text \<open>The line terminators, by name.\<close>

abbreviation nl :: char where "nl \<equiv> CHR 0x0A"
abbreviation cr :: char where "cr \<equiv> CHR 0x0D"
abbreviation tab :: char where "tab \<equiv> CHR 0x09"
abbreviation dquote :: char where "dquote \<equiv> CHR 0x22"
abbreviation backslash :: char where "backslash \<equiv> CHR 0x5C"

text \<open>\<open>strings.HasPrefix\<close>, \<open>HasSuffix\<close>, \<open>TrimPrefix\<close>, \<open>TrimSuffix\<close>.\<close>

definition has_prefix :: "string \<Rightarrow> string \<Rightarrow> bool" where
  "has_prefix s p \<longleftrightarrow> take (length p) s = p"

definition has_suffix :: "string \<Rightarrow> string \<Rightarrow> bool" where
  "has_suffix s p \<longleftrightarrow> length p \<le> length s \<and> drop (length s - length p) s = p"

definition trim_prefix :: "string \<Rightarrow> string \<Rightarrow> string" where
  "trim_prefix s p = (if has_prefix s p then drop (length p) s else s)"

definition trim_suffix :: "string \<Rightarrow> string \<Rightarrow> string" where
  "trim_suffix s p = (if has_suffix s p then take (length s - length p) s else s)"

text \<open>\<open>strings.TrimLeft\<close>, \<open>TrimRight\<close>, \<open>Trim\<close> (a cut set) and \<open>TrimSpace\<close>.\<close>

definition trim_left :: "string \<Rightarrow> string \<Rightarrow> string" where
  "trim_left s cs = dropWhile (\<lambda>c. c \<in> set cs) s"

definition trim_right :: "string \<Rightarrow> string \<Rightarrow> string" where
  "trim_right s cs = rev (dropWhile (\<lambda>c. c \<in> set cs) (rev s))"

definition trim_both :: "string \<Rightarrow> string \<Rightarrow> string" where
  "trim_both s cs = trim_right (trim_left s cs) cs"

definition trim_space :: "string \<Rightarrow> string" where
  "trim_space s = rev (dropWhile is_space_char (rev (dropWhile is_space_char s)))"

text \<open>\<open>strings.IndexByte\<close>, \<open>Index\<close>, \<open>LastIndex\<close> and \<open>Contains\<close>; \<open>-1\<close> is \<^const>\<open>None\<close>.\<close>

fun index_byte :: "char \<Rightarrow> string \<Rightarrow> nat option" where
  "index_byte c [] = None"
| "index_byte c (x # xs) = (if x = c then Some 0 else map_option Suc (index_byte c xs))"

fun index_str :: "string \<Rightarrow> string \<Rightarrow> nat option" where
  "index_str p [] = (if p = [] then Some 0 else None)"
| "index_str p (x # xs) =
     (if has_prefix (x # xs) p then Some 0 else map_option Suc (index_str p xs))"

fun last_index_byte :: "char \<Rightarrow> string \<Rightarrow> nat option" where
  "last_index_byte c [] = None"
| "last_index_byte c (x # xs) =
     (case last_index_byte c xs of
        Some i \<Rightarrow> Some (Suc i)
      | None \<Rightarrow> (if x = c then Some 0 else None))"

definition contains_str :: "string \<Rightarrow> string \<Rightarrow> bool" where
  "contains_str s p \<longleftrightarrow> index_str p s \<noteq> None"

text \<open>\<open>strings.Split\<close> on a one-byte separator, \<open>Join\<close>, and \<open>SplitN\<close> with a bound.\<close>

fun split_byte :: "char \<Rightarrow> string \<Rightarrow> string list" where
  "split_byte c [] = [[]]"
| "split_byte c (x # xs) =
     (if x = c then [] # split_byte c xs
      else (case split_byte c xs of w # ws \<Rightarrow> (x # w) # ws | [] \<Rightarrow> [[x]]))"

fun join_str :: "string list \<Rightarrow> string \<Rightarrow> string" where
  "join_str [] sep = []"
| "join_str [w] sep = w"
| "join_str (w # v # ws) sep = w @ sep @ join_str (v # ws) sep"

fun split_n :: "nat \<Rightarrow> char \<Rightarrow> string \<Rightarrow> string list" where
  "split_n 0 c s = []"
| "split_n (Suc 0) c s = [s]"
| "split_n (Suc (Suc n)) c s =
     (case index_byte c s of
        None \<Rightarrow> [s]
      | Some i \<Rightarrow> take i s # split_n (Suc n) c (drop (Suc i) s))"

text \<open>\<open>strings.Fields\<close>: the maximal runs of non-space bytes.\<close>

fun str_fields_acc :: "string \<Rightarrow> string \<Rightarrow> string list" where
  "str_fields_acc w [] = (if w = [] then [] else [rev w])"
| "str_fields_acc w (c # cs) =
     (if is_space_char c then (if w = [] then str_fields_acc [] cs else rev w # str_fields_acc [] cs)
      else str_fields_acc (c # w) cs)"

definition str_fields :: "string \<Rightarrow> string list" where
  "str_fields s = str_fields_acc [] s"

section \<open>Decimal numbers: package strconv\<close>

text \<open>\<open>strconv.Itoa\<close> on non-negative integers.\<close>

fun nat_digits :: "nat \<Rightarrow> string" where
  "nat_digits n = (if n < 10 then [digit_char n] else nat_digits (n div 10) @ [digit_char (n mod 10)])"

declare nat_digits.simps [simp del]

definition itoa :: "int \<Rightarrow> string" where
  "itoa i = (if i < 0 then CHR ''-'' # nat_digits (nat (- i)) else nat_digits (nat i))"

definition digits_value :: "string \<Rightarrow> nat" where
  "digits_value s = foldl (\<lambda>acc c. 10 * acc + (ascii_val c - 48)) 0 s"

abbreviation max_int64 :: int where "max_int64 \<equiv> 9223372036854775807"
abbreviation min_int64 :: int where "min_int64 \<equiv> - 9223372036854775808"

text \<open>
  \<open>strconv.ParseInt(s, 10, 64)\<close> and \<open>strconv.Atoi\<close> (an \<open>int\<close> has 64 bits): an optional sign
  and at least one digit. A syntax error and a value out of range are both errors; \<open>parse_int64\<close>
  is the value with the error, \<open>parse_int64_lax\<close> the value the call returns beside an error that
  the code discards: 0 on a syntax error and the nearest bound out of range.
\<close>

definition scan_int :: "string \<Rightarrow> int option" where
  "scan_int s =
     (let neg = (s \<noteq> [] \<and> hd s = CHR ''-'');
          ds = (if s \<noteq> [] \<and> (hd s = CHR ''-'' \<or> hd s = CHR ''+'') then tl s else s)
      in if ds \<noteq> [] \<and> list_all is_digit_char ds
         then Some (if neg then - int (digits_value ds) else int (digits_value ds))
         else None)"

definition parse_int64 :: "string \<Rightarrow> int option" where
  "parse_int64 s =
     (case scan_int s of
        None \<Rightarrow> None
      | Some i \<Rightarrow> if min_int64 \<le> i \<and> i \<le> max_int64 then Some i else None)"

definition parse_int64_lax :: "string \<Rightarrow> int" where
  "parse_int64_lax s =
     (case scan_int s of
        None \<Rightarrow> 0
      | Some i \<Rightarrow> max min_int64 (min max_int64 i))"

abbreviation atoi :: "string \<Rightarrow> int option" where "atoi \<equiv> parse_int64"
section \<open>Lemmas about the library functions\<close>

lemma has_prefix_iff: "has_prefix s p \<longleftrightarrow> (\<exists>t. s = p @ t)"
proof
  assume "has_prefix s p"
  then have "s = p @ drop (length p) s" by (metis append_take_drop_id has_prefix_def)
  then show "\<exists>t. s = p @ t" ..
qed (auto simp: has_prefix_def)

lemma has_prefix_append [simp]: "has_prefix (p @ t) p"
  by (simp add: has_prefix_def)

lemma trim_prefix_append [simp]: "trim_prefix (p @ t) p = t"
  by (simp add: trim_prefix_def)

lemma trim_prefix_eq_iff: "p \<noteq> [] \<Longrightarrow> trim_prefix s p = s \<longleftrightarrow> \<not> has_prefix s p"
  by (auto simp: trim_prefix_def has_prefix_iff)

lemma index_byte_SomeD:
  "index_byte c s = Some i \<Longrightarrow> i < length s \<and> s ! i = c \<and> c \<notin> set (take i s)"
  by (induction s arbitrary: i) (auto split: if_splits)

lemma index_byte_None [simp]: "index_byte c s = None \<longleftrightarrow> c \<notin> set s"
  by (induction s) auto

lemma index_byte_append: "c \<notin> set u \<Longrightarrow> index_byte c (u @ c # v) = Some (length u)"
  by (induction u) auto

lemma index_str_SomeD: "index_str p s = Some i \<Longrightarrow> i \<le> length s \<and> has_prefix (drop i s) p"
  by (induction s arbitrary: i) (auto simp: has_prefix_def split: if_splits)

lemma index_str_prefix [simp]: "index_str p (p @ v) = Some 0"
proof -
  have "has_prefix (p @ v) p" by simp
  then show ?thesis by (cases "p @ v") auto
qed

lemma index_str_append: "\<exists>i \<le> length u. index_str p (u @ p @ v) = Some i"
proof (induction u)
  case Nil
  show ?case by simp
next
  case (Cons x u)
  then obtain i where "i \<le> length u" "index_str p (u @ p @ v) = Some i" by blast
  then show ?case by (auto intro: exI [of _ "Suc i"])
qed

lemma split_byte_not_Nil [simp]: "split_byte c s \<noteq> []"
  by (cases s) (auto split: list.splits)

lemma join_Cons: "ws \<noteq> [] \<Longrightarrow> join_str (w # ws) sep = w @ sep @ join_str ws sep"
  by (cases ws) auto

lemma join_split: "join_str (split_byte c s) [c] = s"
proof (induction s)
  case (Cons x s)
  then show ?case
    by (cases "split_byte c s"; cases "tl (split_byte c s)") (auto simp: join_Cons)
qed simp

lemma split_byte_no_sep: "w \<in> set (split_byte c s) \<Longrightarrow> c \<notin> set w"
proof (induction s arbitrary: w)
  case (Cons x s)
  then show ?case by (cases "split_byte c s") (auto split: if_splits)
qed simp

lemma split_byte_append:
  "c \<notin> set u \<Longrightarrow> split_byte c (u @ c # v) = u # split_byte c v"
  by (induction u) (auto split: list.splits)

lemma split_byte_id: "c \<notin> set u \<Longrightarrow> split_byte c u = [u]"
  by (induction u) auto

lemma split_join:
  "ws \<noteq> [] \<Longrightarrow> (\<And>w. w \<in> set ws \<Longrightarrow> c \<notin> set w) \<Longrightarrow> split_byte c (join_str ws [c]) = ws"
proof (induction ws)
  case (Cons w ws)
  then show ?case
    by (cases "ws = []") (auto simp: join_Cons split_byte_append split_byte_id)
qed simp

lemma trim_right_Nil [simp]: "trim_right [] cs = []"
  by (simp add: trim_right_def)

lemma trim_right_no_trailing: "trim_right s cs = [] \<or> last (trim_right s cs) \<notin> set cs"
proof (cases "dropWhile (\<lambda>c. c \<in> set cs) (rev s)")
  case (Cons x xs)
  then have "x \<notin> set cs" by (metis dropWhile_eq_Cons_conv)
  with Cons show ?thesis by (simp add: trim_right_def)
qed (simp add: trim_right_def)

lemma trim_right_last: "s \<noteq> [] \<Longrightarrow> last s \<notin> set cs \<Longrightarrow> trim_right s cs = s"
  by (cases s rule: rev_cases) (auto simp: trim_right_def)

lemma trim_right_prefix: "\<exists>t. s = trim_right s cs @ t \<and> set t \<subseteq> set cs"
proof -
  let ?P = "\<lambda>c. c \<in> set cs"
  have "rev s = takeWhile ?P (rev s) @ dropWhile ?P (rev s)" by simp
  then have "s = rev (dropWhile ?P (rev s)) @ rev (takeWhile ?P (rev s))"
    by (metis rev_append rev_rev_ident)
  moreover have "set (rev (takeWhile ?P (rev s))) \<subseteq> set cs"
    by (auto dest: set_takeWhileD)
  ultimately show ?thesis unfolding trim_right_def by blast
qed

lemma trim_right_append: "set t \<subseteq> set cs \<Longrightarrow> trim_right (s @ t) cs = trim_right s cs"
  by (auto simp: trim_right_def dropWhile_append subset_iff)

subsection \<open>Decimal printing and parsing\<close>

lemma ascii_val_digit [simp]: "d < 10 \<Longrightarrow> ascii_val (digit_char d) = 48 + d"
  by (simp add: ascii_val_def digit_char_def)

lemma is_digit_digit [simp]: "d < 10 \<Longrightarrow> is_digit_char (digit_char d)"
  by (simp add: is_digit_char_def)

lemma nat_digits_all_digits: "list_all is_digit_char (nat_digits n)"
proof (induction n rule: nat_digits.induct)
  case (1 n)
  then show ?case by (subst nat_digits.simps) simp
qed

lemma nat_digits_not_Nil [simp]: "nat_digits n \<noteq> []"
  by (subst nat_digits.simps) simp

lemma digits_value_nat_digits: "digits_value (nat_digits n) = n"
proof (induction n rule: nat_digits.induct)
  case (1 n)
  show ?case
  proof (cases "n < 10")
    case True
    then show ?thesis by (subst nat_digits.simps) (simp add: digits_value_def)
  next
    case False
    then have "digits_value (nat_digits n) = 10 * digits_value (nat_digits (n div 10)) + n mod 10"
      by (subst nat_digits.simps) (simp add: digits_value_def)
    with "1.IH" False show ?thesis by simp
  qed
qed

lemma set_nat_digits: "c \<in> set (nat_digits n) \<Longrightarrow> is_digit_char c"
  using nat_digits_all_digits [of n] by (simp add: list_all_iff)

lemma hd_nat_digits: "hd (nat_digits n) \<noteq> CHR ''-'' \<and> hd (nat_digits n) \<noteq> CHR ''+''"
proof -
  have "is_digit_char (hd (nat_digits n))" by (rule set_nat_digits [of _ n]) simp
  then show ?thesis by (auto simp: is_digit_char_def ascii_val_def)
qed

text \<open>\<open>strconv.Atoi\<close> reads back what \<open>strconv.Itoa\<close> writes.\<close>

lemma scan_int_itoa: "scan_int (itoa i) = Some i"
  using hd_nat_digits [of "nat i"]
  by (auto simp: scan_int_def itoa_def Let_def nat_digits_all_digits digits_value_nat_digits)

lemma itoa_inj: "itoa i = itoa j \<Longrightarrow> i = j"
  by (drule arg_cong [where f = scan_int]) (simp add: scan_int_itoa)

lemma parse_int64_itoa [golib]:
  "min_int64 \<le> i \<Longrightarrow> i \<le> max_int64 \<Longrightarrow> parse_int64 (itoa i) = Some i"
  by (simp add: parse_int64_def scan_int_itoa)

lemma itoa_chars: "0 \<le> i \<Longrightarrow> c \<in> set (itoa i) \<Longrightarrow> is_digit_char c"
  by (auto simp: itoa_def intro: set_nat_digits)

lemma itoa_not_Nil [simp]: "itoa i \<noteq> []"
  by (simp add: itoa_def)

section \<open>Association lists\<close>

lemma map_of_filter_value:
  "distinct (map fst xs) \<Longrightarrow>
     map_of (filter (\<lambda>e. P (snd e)) xs) k
       = (case map_of xs k of Some v \<Rightarrow> if P v then Some v else None | None \<Rightarrow> None)"
  by (induction xs) (auto simp: map_of_eq_None_iff split: option.splits)

end
