(* ===== verification/GoAny.thy ===== *)
theory GoAny
  imports Prelude
begin

text \<open>
  Decoded configuration values: Go's \<open>any\<close> as the configuration store hands it out
  (\<open>internal/config\<close>): JSON numbers are \<open>float64\<close>, fresh defaults are \<open>int\<close>. A type switch on
  an \<open>any\<close> is a case distinction on the constructor. Also the 64-bit wrap-around of \<open>int64\<close>
  arithmetic and the conversion of a \<open>float64\<close> to an \<open>int64\<close>.

  A finite \<open>float64\<close> is the rational it denotes; \<open>NaN\<close> and the infinities are their own
  constructors.
\<close>

datatype float64 = NaN | PosInf | NegInf | Fin rat

datatype any =
    Nil_any
  | Bool_any bool
  | Str_any string
  | Float_any float64
  | Int_any int
  | Int64_any int
  | List_any "any list"
  | Map_any "string \<Rightarrow> any option"

text \<open>A \<open>map[string]any\<close>; a nil map reads like an empty one.\<close>

type_synonym amap = "string \<Rightarrow> any option"

definition aget :: "amap \<Rightarrow> string \<Rightarrow> any" where
  "aget m k = (case m k of None \<Rightarrow> Nil_any | Some v \<Rightarrow> v)"

lemma aget_upd [simp]: "aget (m(k \<mapsto> v)) k' = (if k' = k then v else aget m k')"
  by (simp add: aget_def)

text \<open>Two's complement wrap-around of a 64-bit integer.\<close>

definition wrap64 :: "int \<Rightarrow> int" where
  "wrap64 i = (i + 9223372036854775808) mod 18446744073709551616 - 9223372036854775808"

lemma wrap64_bounds: "min_int64 \<le> wrap64 i \<and> wrap64 i \<le> max_int64"
proof -
  have "0 \<le> (i + 9223372036854775808) mod 18446744073709551616"
    and "(i + 9223372036854775808) mod 18446744073709551616 < 18446744073709551616"
    by (rule pos_mod_sign, simp) (rule pos_mod_bound, simp)
  then show ?thesis unfolding wrap64_def by linarith
qed

lemma wrap64_id: "min_int64 \<le> i \<Longrightarrow> i \<le> max_int64 \<Longrightarrow> wrap64 i = i"
  by (simp add: wrap64_def)

text \<open>
  \<open>int64(f)\<close> truncates towards zero. Out of range (and for \<open>NaN\<close>) Go leaves the value to the
  implementation; on amd64 it is the smallest \<open>int64\<close>.
\<close>

definition trunc_rat :: "rat \<Rightarrow> int" where
  "trunc_rat r = (if r < 0 then - \<lfloor>- r\<rfloor> else \<lfloor>r\<rfloor>)"

fun float_to_int64 :: "float64 \<Rightarrow> int" where
  "float_to_int64 (Fin r) =
     (let i = trunc_rat r in if min_int64 \<le> i \<and> i \<le> max_int64 then i else min_int64)"
| "float_to_int64 _ = min_int64"

lemma trunc_rat_of_int [simp]: "trunc_rat (of_int i) = i"
  by (simp add: trunc_rat_def flip: of_int_minus)

text \<open>Go's integer division truncates towards zero; every divisor in the modelled code is positive.\<close>

definition tdiv :: "int \<Rightarrow> int \<Rightarrow> int" where
  "tdiv a b = sgn a * sgn b * (\<bar>a\<bar> div \<bar>b\<bar>)"

lemma tdiv_nonneg [simp]: "0 \<le> a \<Longrightarrow> 0 < b \<Longrightarrow> tdiv a b = a div b"
  by (cases "a = 0") (auto simp: tdiv_def)

lemma tdiv_mono: "a \<le> a' \<Longrightarrow> 0 < b \<Longrightarrow> tdiv a b \<le> tdiv a' b"
proof -
  assume le: "a \<le> a'" and b: "0 < b"
  have neg: "tdiv x b = - ((- x) div b)" if "x < 0" for x
    using that b by (simp add: tdiv_def)
  show ?thesis
  proof (cases "0 \<le> a")
    case True
    with le b show ?thesis by (simp add: zdiv_mono1)
  next
    case False
    then have "tdiv a b \<le> 0" using b by (simp add: neg pos_imp_zdiv_nonneg_iff)
    show ?thesis
    proof (cases "0 \<le> a'")
      case True
      with b \<open>tdiv a b \<le> 0\<close> show ?thesis
        by (metis dual_order.trans pos_imp_zdiv_nonneg_iff tdiv_nonneg)
    next
      case False
      with \<open>\<not> 0 \<le> a\<close> le b show ?thesis by (simp add: neg zdiv_mono1)
    qed
  qed
qed

lemma tdiv_le: "a \<le> b * c \<Longrightarrow> 0 < b \<Longrightarrow> 0 \<le> c \<Longrightarrow> tdiv a b \<le> c"
  using tdiv_mono [of a "b * c" b] by simp

end
