(* ===== verification/GoSort.thy ===== *)
theory GoSort
  imports Prelude
begin

text \<open>
  The in-place insertion sort that the repository hand-rolls in three places
  (\<open>sortAreasByIndex\<close>, \<open>sortFilesByIndex\<close>, \<open>sortCandidates\<close>):

  \<^verbatim>\<open>
  for i := 1; i < len(a); i++ {
      for j := i; j > 0 && less(a[j], a[j-1]); j-- { swap(a, j, j-1) }
  }
  \<close>

  \<open>sift\<close> is the inner loop and \<open>isort\<close> the outer one, on the list with its index updates. The
  locale \<open>go_less\<close> states what a comparison must satisfy (a strict weak order); in it the loop
  sorts, permutes and is stable. The components interpret it on their own comparisons.
\<close>

fun sift :: "('a \<Rightarrow> 'a \<Rightarrow> bool) \<Rightarrow> 'a list \<Rightarrow> nat \<Rightarrow> 'a list" where
  "sift lt a 0 = a"
| "sift lt a (Suc j) =
     (if lt (a ! Suc j) (a ! j) then sift lt (a[Suc j := a ! j, j := a ! Suc j]) j else a)"

definition isort :: "('a \<Rightarrow> 'a \<Rightarrow> bool) \<Rightarrow> 'a list \<Rightarrow> 'a list" where
  "isort lt a = foldl (sift lt) a [Suc 0..<length a]"

text \<open>
  One pass of the inner loop moves the element at \<open>j\<close> left past every larger neighbour:
  \<open>place\<close> is that on the reversed prefix.
\<close>

fun place :: "('a \<Rightarrow> 'a \<Rightarrow> bool) \<Rightarrow> 'a \<Rightarrow> 'a list \<Rightarrow> 'a list" where
  "place lt x [] = [x]"
| "place lt x (y # ys) = (if lt x y then y # place lt x ys else x # y # ys)"

lemma sift_place:
  "j < length a \<Longrightarrow> sift lt a j = rev (place lt (a ! j) (rev (take j a))) @ drop (Suc j) a"
proof (induction j arbitrary: a)
  case 0
  then show ?case by (cases a) auto
next
  case (Suc j)
  have tk: "take (Suc j) a = take j a @ [a ! j]"
    using Suc.prems by (simp add: take_Suc_conv_app_nth)
  show ?case
  proof (cases "lt (a ! Suc j) (a ! j)")
    case True
    let ?b = "a[Suc j := a ! j, j := a ! Suc j]"
    have "drop (Suc j) ?b = a ! j # drop (Suc (Suc j)) a"
      using Suc.prems by (simp add: drop_update_swap Cons_nth_drop_Suc [symmetric])
    moreover have "take j ?b = take j a" by simp
    ultimately show ?thesis
      using Suc.IH [of ?b] Suc.prems True by (simp add: tk)
  next
    case False
    then show ?thesis
      using Suc.prems by (simp add: tk) (metis Cons_nth_drop_Suc Suc_lessD append_take_drop_id)
  qed
qed

lemma mset_place: "mset (place lt x ys) = add_mset x (mset ys)"
  by (induction ys) auto

lemma set_place [simp]: "set (place lt x ys) = insert x (set ys)"
  by (induction ys) auto

lemma length_sift [simp]: "length (sift lt a j) = length a"
  by (induction j arbitrary: a) auto

lemma mset_sift: "j < length a \<Longrightarrow> mset (sift lt a j) = mset a"
proof -
  assume j: "j < length a"
  have "mset a = mset (take j a) + mset (a ! j # drop (Suc j) a)"
    using j by (metis append_take_drop_id Cons_nth_drop_Suc mset_append)
  with j show ?thesis by (simp add: sift_place mset_place)
qed

text \<open>The outer loop, one index at a time.\<close>

lemma isort_loop_inv:
  assumes "Suc 0 \<le> k" and "k \<le> length a"
  shows "mset (foldl (sift lt) a [Suc 0..<k]) = mset a
    \<and> length (foldl (sift lt) a [Suc 0..<k]) = length a"
  using assms
proof (induction k rule: nat_induct_at_least)
  case (Suc k)
  then show ?case by (simp add: mset_sift)
qed simp

lemma mset_isort [simp]: "mset (isort lt a) = mset a"
  using isort_loop_inv [of "length a" a lt]
  by (cases "a = []") (auto simp: isort_def Suc_le_eq)

lemma set_isort [simp]: "set (isort lt a) = set a"
  using mset_isort [of lt a] by (metis set_mset_mset)

lemma length_isort [simp]: "length (isort lt a) = length a"
  using mset_isort [of lt a] by (metis size_mset)

locale go_less =
  fixes lt :: "'a \<Rightarrow> 'a \<Rightarrow> bool"
  assumes asym: "lt x y \<Longrightarrow> \<not> lt y x"
    and neg_trans: "\<not> lt x y \<Longrightarrow> \<not> lt y z \<Longrightarrow> \<not> lt x z"
begin

text \<open>No element of the list is smaller than one before it.\<close>

abbreviation ordered :: "'a list \<Rightarrow> bool" where
  "ordered \<equiv> sorted_wrt (\<lambda>x y. \<not> lt y x)"

abbreviation equivalent :: "'a \<Rightarrow> 'a \<Rightarrow> bool" where
  "equivalent x y \<equiv> \<not> lt x y \<and> \<not> lt y x"

lemma place_ordered: "ordered (rev ys) \<Longrightarrow> ordered (rev (place lt x ys))"
proof (induction ys)
  case (Cons y ys)
  then show ?case by (auto simp: sorted_wrt_append dest: asym neg_trans)
qed simp

lemma place_stable:
  "ordered (rev ys) \<Longrightarrow> filter (equivalent z) (rev (place lt x ys)) = filter (equivalent z) (rev ys @ [x])"
proof (induction ys)
  case (Cons y ys)
  then show ?case by (auto simp: sorted_wrt_append dest: neg_trans)
qed simp

lemma isort_loop_ordered:
  assumes "Suc 0 \<le> k" and "k \<le> length a"
  shows "ordered (take k (foldl (sift lt) a [Suc 0..<k]))
    \<and> drop k (foldl (sift lt) a [Suc 0..<k]) = drop k a
    \<and> filter (equivalent z) (foldl (sift lt) a [Suc 0..<k]) = filter (equivalent z) a"
  using assms
proof (induction k rule: nat_induct_at_least)
  case base
  then show ?case by (cases a) auto
next
  case (Suc k)
  let ?b = "foldl (sift lt) a [Suc 0..<k]"
  have len: "length ?b = length a" using isort_loop_inv [of k a lt] Suc by simp
  have IH: "ordered (take k ?b)" "drop k ?b = drop k a"
      "filter (equivalent z) ?b = filter (equivalent z) a"
    using Suc by auto
  have eq: "sift lt ?b k = rev (place lt (?b ! k) (rev (take k ?b))) @ drop (Suc k) ?b"
    using sift_place [of k ?b] len Suc.prems by simp
  have lenp: "length (place lt (?b ! k) (rev (take k ?b))) = Suc k"
    using mset_place [of lt "?b ! k" "rev (take k ?b)"] len Suc.prems
    by (metis Suc_leD length_rev length_take min.absorb2 size_add_mset size_mset)
  have "ordered (rev (place lt (?b ! k) (rev (take k ?b))))"
    using IH(1) by (simp add: place_ordered)
  moreover have "drop (Suc k) ?b = drop (Suc k) a"
    using IH(2) by (metis drop_Suc drop_drop plus_1_eq_Suc tl_drop)
  moreover have "filter (equivalent z) (sift lt ?b k) = filter (equivalent z) ?b"
  proof -
    have "filter (equivalent z) (sift lt ?b k)
        = filter (equivalent z) (take k ?b @ [?b ! k]) @ filter (equivalent z) (drop (Suc k) ?b)"
      using place_stable [of "rev (take k ?b)" z "?b ! k"] IH(1) by (simp add: eq)
    also have "\<dots> = filter (equivalent z) (take k ?b @ ?b ! k # drop (Suc k) ?b)" by simp
    also have "take k ?b @ ?b ! k # drop (Suc k) ?b = ?b"
      using len Suc.prems by (simp add: id_take_nth_drop [symmetric])
    finally show ?thesis .
  qed
  ultimately show ?case
    using Suc.hyps IH(3) by (simp add: eq lenp)
qed

theorem isort_ordered: "ordered (isort lt a)"
  using isort_loop_ordered [of "length a" a undefined] isort_loop_inv [of "length a" a lt]
  by (cases "a = []") (auto simp: isort_def Suc_le_eq)

theorem isort_stable: "filter (equivalent z) (isort lt a) = filter (equivalent z) a"
  using isort_loop_ordered [of "length a" a z]
  by (cases "a = []") (auto simp: isort_def Suc_le_eq)

text \<open>A list already in order is left alone, so sorting twice changes nothing.\<close>

lemma place_noop: "ordered (rev ys @ [x]) \<Longrightarrow> place lt x ys = x # ys"
  by (cases ys) (auto simp: sorted_wrt_append)

lemma isort_noop:
  assumes "ordered a"
  shows "isort lt a = a"
proof -
  have "Suc 0 \<le> k \<Longrightarrow> k \<le> length a \<Longrightarrow> foldl (sift lt) a [Suc 0..<k] = a" for k
  proof (induction k rule: nat_induct_at_least)
    case (Suc k)
    have "ordered (take k a @ [a ! k])"
      using sorted_wrt_take [OF assms, of "Suc k"] Suc.prems by (simp add: take_Suc_conv_app_nth)
    with Suc show ?case
      by (simp add: sift_place place_noop id_take_nth_drop [symmetric])
  qed simp
  then show ?thesis by (cases "a = []") (auto simp: isort_def Suc_le_eq)
qed

end

text \<open>The comparison of two elements by an integer key.\<close>

definition key_less :: "('a \<Rightarrow> 'k::linorder) \<Rightarrow> 'a \<Rightarrow> 'a \<Rightarrow> bool" where
  "key_less f x y \<longleftrightarrow> f x < f y"

interpretation key_order: go_less "key_less f" for f :: "'a \<Rightarrow> 'k::linorder"
  by unfold_locales (auto simp: key_less_def)

lemma isort_key_sorted: "sorted (map f (isort (key_less f) a))"
  using key_order.isort_ordered [of f a] by (simp add: sorted_map key_less_def not_less)

end
