(* ===== verification/Swap.thy ===== *)
theory Swap
  imports GoAny GoSort
begin

text \<open>
  \<open>internal/system/swap/swap.go\<close> and the snapshot reader's parsers: the data types of the host
  swap manager, its configuration object, the ownership rule for swapfile names, and the parsers
  of \<open>/proc/meminfo\<close>, \<open>/proc/pressure/memory\<close> and \<open>/proc/swaps\<close>.

  Byte counts are \<open>int64\<close> in Go. The parsers scale what they read with wrap-around
  (\<^const>\<open>wrap64\<close>); the decision engine (theory \<open>SwapDecide\<close>) computes on unbounded integers
  and proves that nothing leaves the 64-bit range on a host below 2 to the power 50 bytes.
  The pressure figure is a \<open>float64\<close> that is only compared; it is the rational the text denotes.
\<close>

section \<open>Data\<close>

definition swapBasename :: string where
  "swapBasename = ''swapfile.odac.''"

abbreviation kib :: int where "kib \<equiv> 1024"
abbreviation mib :: int where "mib \<equiv> 1048576"
abbreviation gib :: int where "gib \<equiv> 1073741824"

definition swapPrefix :: "string \<Rightarrow> string" where
  "swapPrefix dir = trim_right dir ''/'' @ ''/'' @ swapBasename"

record area =
  area_path :: string
  area_size :: int
  area_used :: int

record disk_file =
  df_path :: string
  df_idx :: int
  df_size :: int

record snapshot =
  memTotal :: int
  memAvail :: int
  swapTotal :: int
  swapFree :: int
  freeDisk :: int
  psiSomeAvg10 :: rat
  areas :: "area list"
  snap_ok :: bool

record swap_config =
  AutoManage :: bool
  Persist :: bool
  MaxDiskPct :: int
  MaxIncrements :: int
  AllowShrink :: bool
  Dir :: string

section \<open>The configuration object\<close>

definition cfgStr :: "amap \<Rightarrow> string \<Rightarrow> string \<Rightarrow> string" where
  "cfgStr m key def = (case aget m key of Str_any v \<Rightarrow> if v \<noteq> [] then v else def | _ \<Rightarrow> def)"

definition cfgBool :: "amap \<Rightarrow> string \<Rightarrow> bool \<Rightarrow> bool" where
  "cfgBool m key def = (case aget m key of Bool_any v \<Rightarrow> v | _ \<Rightarrow> def)"

definition cfgInt64 :: "amap \<Rightarrow> string \<Rightarrow> int \<Rightarrow> int" where
  "cfgInt64 m key def =
     (case aget m key of
        Float_any v \<Rightarrow> float_to_int64 v
      | Int64_any v \<Rightarrow> v
      | Int_any v \<Rightarrow> v
      | _ \<Rightarrow> def)"

definition configFromMap :: "amap \<Rightarrow> swap_config" where
  "configFromMap m =
     \<lparr>AutoManage = cfgBool m ''autoManage'' True,
      Persist = cfgBool m ''persist'' True,
      MaxDiskPct = cfgInt64 m ''maxDiskPct'' 25,
      MaxIncrements = cfgInt64 m ''maxIncrements'' 8,
      AllowShrink = cfgBool m ''allowShrink'' True,
      Dir = cfgStr m ''dir'' ''''\<rparr>"

section \<open>Swapfile names\<close>

text \<open>The ownership rule: exactly \<open>swapfile.odac.<N>\<close> with \<open>N\<close> numeric.\<close>

definition incrementIndex :: "string \<Rightarrow> string option" where
  "incrementIndex name =
     (let idx = trim_prefix name swapBasename
      in if idx = name then None
         else if atoi idx = None then None
         else Some idx)"

definition indexOf :: "string \<Rightarrow> string \<Rightarrow> int" where
  "indexOf path pre = (case atoi (trim_prefix path pre) of None \<Rightarrow> -1 | Some n \<Rightarrow> n)"

definition sortAreasByIndex :: "area list \<Rightarrow> string \<Rightarrow> area list" where
  "sortAreasByIndex as pre = isort (key_less (\<lambda>a. indexOf (area_path a) pre)) as"

section \<open>The /proc parsers\<close>

text \<open>The variables of \<open>parseMeminfoBytes\<close>; \<open>mi_memAvail\<close> is \<^const>\<open>None\<close> until the field is seen.\<close>

record meminfo =
  mi_memTotal :: int
  mi_memAvail :: "int option"
  mi_swapTotal :: int
  mi_swapFree :: int
  mi_memFree :: int
  mi_buffers :: int
  mi_cached :: int

definition meminfo_line :: "meminfo \<Rightarrow> string \<Rightarrow> meminfo" where
  "meminfo_line m line =
     (case str_fields line of
        name # value # _ \<Rightarrow>
          (let v = wrap64 (parse_int64_lax value * kib)
           in if name = ''MemTotal:'' then m\<lparr>mi_memTotal := v\<rparr>
              else if name = ''MemFree:'' then m\<lparr>mi_memFree := v\<rparr>
              else if name = ''MemAvailable:'' then m\<lparr>mi_memAvail := Some v\<rparr>
              else if name = ''Buffers:'' then m\<lparr>mi_buffers := v\<rparr>
              else if name = ''Cached:'' then m\<lparr>mi_cached := v\<rparr>
              else if name = ''SwapTotal:'' then m\<lparr>mi_swapTotal := v\<rparr>
              else if name = ''SwapFree:'' then m\<lparr>mi_swapFree := v\<rparr>
              else m)
      | _ \<Rightarrow> m)"

definition parseMeminfoBytes :: "string \<Rightarrow> int \<times> int \<times> int \<times> int" where
  "parseMeminfoBytes raw =
     (let m = foldl meminfo_line
                \<lparr>mi_memTotal = 0, mi_memAvail = None, mi_swapTotal = 0, mi_swapFree = 0,
                 mi_memFree = 0, mi_buffers = 0, mi_cached = 0\<rparr> (split_byte nl raw)
      in (mi_memTotal m,
          (case mi_memAvail m of
             Some v \<Rightarrow> v
           | None \<Rightarrow> wrap64 (mi_memFree m + mi_buffers m + mi_cached m)),
          mi_swapTotal m, mi_swapFree m))"

text \<open>
  \<open>strconv.ParseFloat\<close> with its error discarded, on plain decimal notation (\<open>digits[.digits]\<close>,
  what the kernel prints). Signs, exponents, hexadecimal floats, \<open>inf\<close> and \<open>nan\<close> are not
  modelled: they read as 0 here.
\<close>

definition parse_decimal :: "string \<Rightarrow> rat" where
  "parse_decimal s =
     (case split_n 2 CHR ''.'' s of
        [w] \<Rightarrow> if w \<noteq> [] \<and> list_all is_digit_char w then of_nat (digits_value w) else 0
      | [w, f] \<Rightarrow>
          if w @ f \<noteq> [] \<and> list_all is_digit_char (w @ f)
          then of_nat (digits_value w) + of_nat (digits_value f) / 10 ^ length f else 0
      | _ \<Rightarrow> 0)"

fun avg10_field :: "string list \<Rightarrow> rat option" where
  "avg10_field [] = None"
| "avg10_field (f # fs) =
     (if has_prefix f ''avg10='' then Some (parse_decimal (trim_prefix f ''avg10=''))
      else avg10_field fs)"

fun pressure_lines :: "string list \<Rightarrow> rat" where
  "pressure_lines [] = 0"
| "pressure_lines (l # ls) =
     (if \<not> has_prefix l ''some '' then pressure_lines ls
      else (case avg10_field (str_fields l) of Some v \<Rightarrow> v | None \<Rightarrow> pressure_lines ls))"

definition parsePressureSomeAvg10 :: "string \<Rightarrow> rat" where
  "parsePressureSomeAvg10 raw = pressure_lines (split_byte nl raw)"

text \<open>\<open>filepath.Base\<close>.\<close>

definition path_base :: "string \<Rightarrow> string" where
  "path_base p =
     (if p = [] then ''.''
      else let q = trim_right p ''/'' in
        if q = [] then ''/''
        else (case last_index_byte CHR ''/'' q of None \<Rightarrow> q | Some i \<Rightarrow> drop (Suc i) q))"

definition swaps_row :: "string \<Rightarrow> string \<Rightarrow> area option" where
  "swaps_row pre line =
     (case str_fields line of
        name # _ # sz # used # _ \<Rightarrow>
          (case incrementIndex (path_base name) of
             None \<Rightarrow> None
           | Some idx \<Rightarrow>
               Some \<lparr>area_path = pre @ idx,
                     area_size = wrap64 (parse_int64_lax sz * kib),
                     area_used = wrap64 (parse_int64_lax used * kib)\<rparr>)
      | _ \<Rightarrow> None)"

definition parseSwaps :: "string \<Rightarrow> string \<Rightarrow> area list" where
  "parseSwaps raw pre =
     sortAreasByIndex (List.map_filter (swaps_row pre) (tl (split_byte nl raw))) pre"

text \<open>
  \<open>readSnapshot\<close> of \<open>swap_linux.go\<close>: the files it reads, each \<^const>\<open>None\<close> when unreadable, and the
  free bytes of the swap directory's filesystem are its arguments.
\<close>

definition readSnapshot ::
  "string option \<Rightarrow> string option \<Rightarrow> string option \<Rightarrow> int \<Rightarrow> string \<Rightarrow> snapshot" where
  "readSnapshot meminfo pressure swaps free dir =
     (case meminfo of
        None \<Rightarrow> \<lparr>memTotal = 0, memAvail = 0, swapTotal = 0, swapFree = 0, freeDisk = 0,
                 psiSomeAvg10 = 0, areas = [], snap_ok = False\<rparr>
      | Some raw \<Rightarrow>
          (let (mt, ma, st, sf) = parseMeminfoBytes raw
           in \<lparr>memTotal = mt, memAvail = ma, swapTotal = st, swapFree = sf, freeDisk = free,
               psiSomeAvg10 = (case pressure of None \<Rightarrow> 0 | Some r \<Rightarrow> parsePressureSomeAvg10 r),
               areas = (case swaps of None \<Rightarrow> [] | Some r \<Rightarrow> parseSwaps r (swapPrefix dir)),
               snap_ok = (0 < mt)\<rparr>))"

section \<open>What the parsers promise\<close>

lemma indexOf_prefix [simp]: "atoi idx = Some n \<Longrightarrow> indexOf (pre @ idx) pre = n"
  by (simp add: indexOf_def)

lemma atoi_bounds: "atoi s = Some n \<Longrightarrow> min_int64 \<le> n \<and> n \<le> max_int64"
  by (auto simp: parse_int64_def split: option.splits if_splits)

lemma indexOf_bounds: "min_int64 \<le> indexOf p pre \<and> indexOf p pre \<le> max_int64"
  by (auto simp: indexOf_def dest: atoi_bounds split: option.splits)

lemma incrementIndex_SomeD:
  "incrementIndex name = Some idx \<Longrightarrow> name = swapBasename @ idx \<and> (\<exists>n. atoi idx = Some n)"
  by (auto simp: incrementIndex_def Let_def trim_prefix_def has_prefix_iff split: if_splits)

lemma incrementIndex_basename:
  "atoi idx = Some n \<Longrightarrow> incrementIndex (swapBasename @ idx) = Some idx"
proof -
  have "swapBasename \<noteq> []" by (simp add: swapBasename_def)
  then have "idx \<noteq> swapBasename @ idx" by simp
  moreover assume "atoi idx = Some n"
  ultimately show ?thesis by (simp add: incrementIndex_def Let_def)
qed

lemma set_map_filter_iff: "y \<in> set (List.map_filter f xs) \<longleftrightarrow> (\<exists>x \<in> set xs. f x = Some y)"
  by (force simp: List.map_filter_def)

lemma set_parseSwaps:
  "a \<in> set (parseSwaps raw pre) \<longleftrightarrow> (\<exists>l \<in> set (tl (split_byte nl raw)). swaps_row pre l = Some a)"
  by (simp add: parseSwaps_def sortAreasByIndex_def set_map_filter_iff)

lemma swaps_row_path:
  "swaps_row pre l = Some a \<Longrightarrow> \<exists>idx n. area_path a = pre @ idx \<and> atoi idx = Some n
    \<and> incrementIndex (path_base (hd (str_fields l))) = Some idx"
  by (auto simp: swaps_row_def dest: incrementIndex_SomeD split: list.splits option.splits)

text \<open>
  Every area that \<open>parseSwaps\<close> returns is a row of \<open>/proc/swaps\<close> whose base name is
  \<open>swapfile.odac.<N>\<close> with \<open>N\<close> numeric, and its path is the one under the manager's own prefix
  with that \<open>N\<close>, whatever directory the kernel rendered: a user's swap is never in the list.
\<close>

theorem parseSwaps_owned:
  assumes "a \<in> set (parseSwaps raw pre)"
  shows "\<exists>l \<in> set (tl (split_byte nl raw)). \<exists>idx n.
    path_base (hd (str_fields l)) = swapBasename @ idx \<and> atoi idx = Some n \<and>
    area_path a = pre @ idx \<and> indexOf (area_path a) pre = n"
  using assms unfolding set_parseSwaps
  by (fastforce dest: swaps_row_path incrementIndex_SomeD)

theorem parseSwaps_owned_witness:
  "area_path (hd (parseSwaps (''Filename'' @ [nl] @ ''/x/swapfile.odac.2 file 64 8 -2'') ''/s/swapfile.odac.''))
     = ''/s/swapfile.odac.2'' \<and>
   (\<exists>l \<in> set (tl (split_byte nl (''Filename'' @ [nl] @ ''/x/swapfile.odac.2 file 64 8 -2''))). \<exists>idx n.
    path_base (hd (str_fields l)) = swapBasename @ idx \<and> atoi idx = Some n \<and>
    area_path (hd (parseSwaps (''Filename'' @ [nl] @ ''/x/swapfile.odac.2 file 64 8 -2'') ''/s/swapfile.odac.''))
      = ''/s/swapfile.odac.'' @ idx \<and>
    indexOf (area_path (hd (parseSwaps (''Filename'' @ [nl] @ ''/x/swapfile.odac.2 file 64 8 -2'')
      ''/s/swapfile.odac.''))) ''/s/swapfile.odac.'' = n)"
proof -
  let ?raw = "''Filename'' @ [nl] @ ''/x/swapfile.odac.2 file 64 8 -2''"
  let ?as = "parseSwaps ?raw ''/s/swapfile.odac.''"
  have p: "map area_path ?as = [''/s/swapfile.odac.2'']" by code_simp
  then have "hd ?as \<in> set ?as" by (cases ?as) auto
  from parseSwaps_owned [OF this] p show ?thesis by (cases ?as) auto
qed

lemma parseSwaps_sorted: "sorted (map (\<lambda>a. indexOf (area_path a) pre) (parseSwaps raw pre))"
  by (simp add: parseSwaps_def sortAreasByIndex_def isort_key_sorted)

text \<open>The defaults of the configuration reader, and its tolerance of JSON's \<open>float64\<close>.\<close>

lemma configFromMap_empty:
  "configFromMap Map.empty = \<lparr>AutoManage = True, Persist = True, MaxDiskPct = 25,
     MaxIncrements = 8, AllowShrink = True, Dir = []\<rparr>"
  by (simp add: configFromMap_def cfgBool_def cfgInt64_def cfgStr_def aget_def)

lemma cfgInt64_float:
  "min_int64 \<le> i \<Longrightarrow> i \<le> max_int64 \<Longrightarrow> cfgInt64 (m(k \<mapsto> Float_any (Fin (of_int i)))) k d = i"
  by (simp add: cfgInt64_def)

lemma readSnapshot_unreadable: "\<not> snap_ok (readSnapshot None p s f d)"
  by (simp add: readSnapshot_def)

end
