(* ===== verification/Runs.thy ===== *)
theory Runs
  imports Prelude
begin

text \<open>
  Runs of a deterministic component over a list of inputs, and the contract of a streak counter:
  a counter that a step raises by at most one while a condition holds and clears otherwise. The
  swap manager's two confirmation streaks are instances.
\<close>

fun run_steps :: "('t \<Rightarrow> 'st \<Rightarrow> 'st \<times> 'd) \<Rightarrow> 't list \<Rightarrow> 'st \<Rightarrow> 'st \<times> 'd list" where
  "run_steps f [] st = (st, [])"
| "run_steps f (t # ts) st =
     (case f t st of (st1, d) \<Rightarrow> (case run_steps f ts st1 of (st2, ds) \<Rightarrow> (st2, d # ds)))"

lemma run_steps_append:
  "run_steps f (ts @ us) st =
     (case run_steps f ts st of (st1, ds) \<Rightarrow>
        (case run_steps f us st1 of (st2, es) \<Rightarrow> (st2, ds @ es)))"
  by (induction ts arbitrary: st) (auto split: prod.splits)

lemma run_steps_snoc:
  "run_steps f (ts @ [t]) st =
     (case run_steps f ts st of (st1, ds) \<Rightarrow> (case f t st1 of (st2, d) \<Rightarrow> (st2, ds @ [d])))"
  by (simp add: run_steps_append split: prod.splits)

lemma length_run_steps [simp]: "length (snd (run_steps f ts st)) = length ts"
  by (induction ts arbitrary: st) (simp_all add: split_def)

lemma run_steps_invariant:
  assumes "I st" and "\<And>t st. I st \<Longrightarrow> I (fst (f t st))"
  shows "I (fst (run_steps f ts st))"
  using assms(1)
proof (induction ts arbitrary: st)
  case (Cons t ts)
  from Cons.prems have "I (fst (f t st))" by (rule assms(2))
  from Cons.IH [OF this] show ?case by (auto split: prod.splits)
qed simp

text \<open>The outputs of a run and of its prefixes agree.\<close>

lemma run_steps_output:
  assumes "i < length ts"
  shows "snd (run_steps f ts st) ! i = snd (f (ts ! i) (fst (run_steps f (take i ts) st)))"
  using assms
proof (induction ts arbitrary: i st)
  case (Cons t ts)
  then show ?case by (cases i) (simp_all add: split_def)
qed simp

text \<open>How many of the last inputs in a row satisfy a condition.\<close>

definition trailing :: "('t \<Rightarrow> bool) \<Rightarrow> 't list \<Rightarrow> nat" where
  "trailing P ts = length (takeWhile P (rev ts))"

lemma trailing_snoc [simp]: "trailing P (ts @ [t]) = (if P t then Suc (trailing P ts) else 0)"
  by (simp add: trailing_def)

lemma trailing_Nil [simp]: "trailing P [] = 0"
  by (simp add: trailing_def)

lemma trailing_last:
  assumes "n \<le> trailing P ts"
  shows "n \<le> length ts \<and> list_all P (drop (length ts - n) ts)"
proof
  have "trailing P ts \<le> length ts"
    by (metis length_rev length_takeWhile_le trailing_def)
  with assms show n: "n \<le> length ts" by simp
  have "take n (rev ts) = take n (takeWhile P (rev ts))"
    using assms unfolding trailing_def by (metis takeWhile_eq_take min.absorb1 take_take)
  then have "list_all P (take n (rev ts))"
    by (auto simp: list_all_iff dest: in_set_takeD set_takeWhileD)
  then show "list_all P (drop (length ts - n) ts)"
    using n by (simp add: take_rev)
qed

locale streak_counter =
  fixes step :: "'t \<Rightarrow> 'st \<Rightarrow> 'st \<times> 'd"
    and cnt :: "'st \<Rightarrow> int"
    and cond :: "'t \<Rightarrow> bool"
  assumes cnt_nonneg: "0 \<le> cnt st \<Longrightarrow> 0 \<le> cnt (fst (step t st))"
    and cnt_step: "0 \<le> cnt st \<Longrightarrow> cnt (fst (step t st)) \<le> (if cond t then cnt st + 1 else 0)"
begin

lemma cnt_run:
  assumes "cnt st = 0"
  shows "0 \<le> cnt (fst (run_steps step ts st))
    \<and> cnt (fst (run_steps step ts st)) \<le> int (trailing cond ts)"
proof (induction ts rule: rev_induct)
  case Nil
  with assms show ?case by simp
next
  case (snoc t ts)
  let ?st = "fst (run_steps step ts st)"
  have "fst (run_steps step (ts @ [t]) st) = fst (step t ?st)"
    by (simp add: run_steps_snoc split: prod.splits)
  with snoc cnt_nonneg [of ?st t] cnt_step [of ?st t] show ?case
    by (auto split: if_splits)
qed

lemma sustained:
  assumes "cnt st = 0" and "cond t" and "int n \<le> cnt (fst (run_steps step ts st)) + 1"
  shows "n \<le> length (ts @ [t]) \<and> list_all cond (drop (length (ts @ [t]) - n) (ts @ [t]))"
proof (rule trailing_last)
  from cnt_run [OF assms(1), of ts] assms(2,3) show "n \<le> trailing cond (ts @ [t])" by simp
qed

end

end
