(* ===== verification/SwapDecide.thy ===== *)
theory SwapDecide
  imports Swap Runs
begin

text \<open>
  \<open>internal/system/swap/decide.go\<close>: the decision engine of the host swap manager. One tick maps
  the snapshot, the configuration and the running streaks to one action; \<open>planReconcile\<close> decides
  about swapfiles a reboot left behind. Every helper is translated; the arithmetic is on
  unbounded integers and \<open>decide_int64\<close> bounds it.
\<close>

section \<open>Constants and data\<close>

abbreviation growHotPct :: int where "growHotPct \<equiv> 80"
abbreviation coolPct :: int where "coolPct \<equiv> 40"
abbreviation emptyPct :: int where "emptyPct \<equiv> 10"
abbreviation growPSIThreshold :: rat where "growPSIThreshold \<equiv> 20"
abbreviation shrinkPSIMax :: rat where "shrinkPSIMax \<equiv> 1"
abbreviation growStreakNeeded :: int where "growStreakNeeded \<equiv> 2"
abbreviation shrinkStreakNeeded :: int where "shrinkStreakNeeded \<equiv> 10"
abbreviation baselineFloor :: int where "baselineFloor \<equiv> 1"
abbreviation minIncrement :: int where "minIncrement \<equiv> gib"
abbreviation maxIncrementStep :: int where "maxIncrementStep \<equiv> 16 * gib"

datatype swap_action = Hold | Grow | Shrink

record decision =
  dec_action :: swap_action
  dec_size :: int
  dec_target :: string
  dec_reason :: string

record counters =
  growStreak :: int
  shrinkStreak :: int

definition hold_because :: "string \<Rightarrow> decision" where
  "hold_because why = \<lparr>dec_action = Hold, dec_size = 0, dec_target = [], dec_reason = why\<rparr>"

definition counters_reset :: "counters \<Rightarrow> counters" where
  "counters_reset st = st\<lparr>growStreak := 0, shrinkStreak := 0\<rparr>"

section \<open>Helpers\<close>

definition pct :: "int \<Rightarrow> int \<Rightarrow> int" where
  "pct v p = tdiv (v * p) 100"

definition clamp64 :: "int \<Rightarrow> int \<Rightarrow> int \<Rightarrow> int" where
  "clamp64 v lo hi = (if v < lo then lo else if v > hi then hi else v)"

definition min64 :: "int \<Rightarrow> int \<Rightarrow> int" where
  "min64 a b = (if a < b then a else b)"

definition clampMin64 :: "int \<Rightarrow> int \<Rightarrow> int" where
  "clampMin64 v lo = (if v < lo then lo else v)"

definition sumAreas :: "area list \<Rightarrow> int" where
  "sumAreas as = foldl (\<lambda>t a. t + area_size a) 0 as"

definition sumAreasUsed :: "area list \<Rightarrow> int" where
  "sumAreasUsed as = foldl (\<lambda>t a. t + area_used a) 0 as"

definition memUsedBytes :: "snapshot \<Rightarrow> int" where
  "memUsedBytes s = (let u = memTotal s - memAvail s in if u > 0 then u else 0)"

definition ramUsedPct :: "snapshot \<Rightarrow> int" where
  "ramUsedPct s = (if memTotal s \<le> 0 then 0 else tdiv (memUsedBytes s * 100) (memTotal s))"

definition areaFillPct :: "area \<Rightarrow> int" where
  "areaFillPct a = (if area_size a \<le> 0 then 0 else tdiv (area_used a * 100) (area_size a))"

definition swapFillPct :: "snapshot \<Rightarrow> int" where
  "swapFillPct s =
     (if swapTotal s \<le> 0 then 0 else tdiv ((swapTotal s - swapFree s) * 100) (swapTotal s))"

definition poolFillPct :: "snapshot \<Rightarrow> int" where
  "poolFillPct s =
     (let cap0 = memTotal s + sumAreas (areas s);
          cap = (if areas s \<noteq> [] then cap0 - area_size (last (areas s)) else cap0)
      in if cap \<le> 0 then 0
         else tdiv ((memUsedBytes s + sumAreasUsed (areas s)) * 100) cap)"

definition incrementStep :: "snapshot \<Rightarrow> int" where
  "incrementStep s = clamp64 (tdiv (memTotal s) 2) minIncrement maxIncrementStep"

lemma incrementStep_bounds: "minIncrement \<le> incrementStep s \<and> incrementStep s \<le> maxIncrementStep"
  by (simp add: incrementStep_def clamp64_def)

section \<open>How many increments are wanted\<close>

text \<open>The increment at position \<open>idx\<close> of the pool: its real size, or the nominal step.\<close>

definition loop_add :: "snapshot \<Rightarrow> int \<Rightarrow> int" where
  "loop_add s idx =
     (if idx < int (length (areas s)) \<and> area_size (areas s ! nat idx) > 0
      then area_size (areas s ! nat idx) else incrementStep s)"

lemma loop_add_pos: "0 < loop_add s i"
  using incrementStep_bounds [of s] by (auto simp: loop_add_def)

text \<open>The \<open>for workingCap < target\<close> loop.\<close>

function desired_loop :: "snapshot \<Rightarrow> int \<Rightarrow> int \<Rightarrow> int \<Rightarrow> int" where
  "desired_loop s target workingCap desired =
     (if workingCap < target
      then desired_loop s target (workingCap + loop_add s (desired - 1)) (desired + 1)
      else desired)"
  by pat_completeness auto
termination
proof (relation "measure (\<lambda>(s, target, workingCap, desired). nat (target - workingCap))")
  fix s target workingCap desired
  assume "workingCap < (target :: int)"
  then show "((s, target, workingCap + loop_add s (desired - 1), desired + 1), s, target,
      workingCap, desired) \<in> measure (\<lambda>(s, target, workingCap, desired). nat (target - workingCap))"
    using loop_add_pos [of s "desired - 1"] by simp
qed simp

declare desired_loop.simps [simp del]

definition poolTarget :: "snapshot \<Rightarrow> int \<Rightarrow> int" where
  "poolTarget s fillThreshold =
     tdiv ((memUsedBytes s + sumAreasUsed (areas s)) * 100) (clampMin64 fillThreshold 1)"

definition desiredBuffers :: "snapshot \<Rightarrow> int \<Rightarrow> rat \<Rightarrow> int" where
  "desiredBuffers s fillThreshold psiThreshold =
     (let target = poolTarget s fillThreshold;
          d0 = desired_loop s target (memTotal s) 1;
          d1 = (if d0 < baselineFloor then baselineFloor else d0);
          have = int (length (areas s))
      in if psiSomeAvg10 s > psiThreshold \<and> d1 < have + 1 then have + 1 else d1)"

section \<open>Planning one grow or shrink\<close>

definition plannedGrowSize :: "snapshot \<Rightarrow> swap_config \<Rightarrow> int \<Rightarrow> int option" where
  "plannedGrowSize s cfg totalOdac =
     (if int (length (areas s)) \<ge> MaxIncrements cfg then None
      else let maxTotal = pct (freeDisk s + totalOdac) (MaxDiskPct cfg);
               budget = maxTotal - totalOdac
           in if budget < minIncrement then None
              else Some (min64 (incrementStep s) budget))"

definition plannedShrinkTarget :: "snapshot \<Rightarrow> string option" where
  "plannedShrinkTarget s =
     (if int (length (areas s)) \<le> baselineFloor then None
      else let top = areas s ! (length (areas s) - 1)
           in if areaFillPct top > emptyPct then None
              else if area_used top \<ge> memAvail s then None
              else Some (area_path top))"

section \<open>One tick\<close>

definition decide :: "snapshot \<Rightarrow> swap_config \<Rightarrow> counters \<Rightarrow> counters \<times> decision" where
  "decide s cfg st =
     (if \<not> AutoManage cfg \<or> \<not> snap_ok s
      then (counters_reset st, hold_because ''auto-manage off or no snapshot'')
      else
        let have = int (length (areas s));
            wantGrow = desiredBuffers s growHotPct growPSIThreshold;
            wantCool = desiredBuffers s coolPct shrinkPSIMax
        in if have < wantGrow then
             let st1 = st\<lparr>shrinkStreak := 0, growStreak := growStreak st + 1\<rparr>
             in if growStreak st1 < growStreakNeeded
                then (st1, hold_because ''buffer low, confirming'')
                else (case plannedGrowSize s cfg (sumAreas (areas s)) of
                        Some sz \<Rightarrow>
                          (st1\<lparr>growStreak := 0\<rparr>,
                           \<lparr>dec_action = Grow, dec_size = sz, dec_target = [],
                            dec_reason = (if have = 0 then ''provision baseline swap''
                                          else ''add empty buffer ahead of frontier'')\<rparr>)
                      | None \<Rightarrow> (st1, hold_because ''grow wanted but disk/increment ceiling''))
           else
             let st0 = st\<lparr>growStreak := 0\<rparr>
             in if AllowShrink cfg \<and> have > wantCool \<and> have > baselineFloor then
                  let st1 = st0\<lparr>shrinkStreak := shrinkStreak st0 + 1\<rparr>
                  in if shrinkStreak st1 < shrinkStreakNeeded
                     then (st1, hold_because ''surplus buffer, cooling down'')
                     else (case plannedShrinkTarget s of
                             Some target \<Rightarrow>
                               (st1\<lparr>shrinkStreak := 0\<rparr>,
                                \<lparr>dec_action = Shrink, dec_size = 0, dec_target = target,
                                 dec_reason = ''reclaim idle spare''\<rparr>)
                           | None \<Rightarrow> (st1, hold_because ''surplus but top not safe to reclaim''))
                else (st0\<lparr>shrinkStreak := 0\<rparr>, hold_because ''steady''))"

section \<open>Reconciling what a reboot left behind\<close>

definition sortFilesByIndex :: "disk_file list \<Rightarrow> disk_file list" where
  "sortFilesByIndex fs = isort (key_less df_idx) fs"

text \<open>The second loop of \<open>planReconcile\<close>: adopt while the count allows, else discard.\<close>

fun plan_loop :: "swap_config \<Rightarrow> int \<Rightarrow> disk_file list \<Rightarrow> string list \<times> string list" where
  "plan_loop cfg cnt [] = ([], [])"
| "plan_loop cfg cnt (f # fs) =
     (if cnt \<ge> MaxIncrements cfg
      then (case plan_loop cfg cnt fs of (ad, di) \<Rightarrow> (ad, df_path f # di))
      else (case plan_loop cfg (cnt + 1) fs of (ad, di) \<Rightarrow> (df_path f # ad, di)))"

definition planReconcile ::
  "disk_file list \<Rightarrow> area list \<Rightarrow> swap_config \<Rightarrow> string list \<times> string list" where
  "planReconcile fs active cfg =
     (let live = set (map area_path active);
          candidates = sortFilesByIndex (filter (\<lambda>f. df_path f \<notin> live) fs)
      in plan_loop cfg (int (length active)) candidates)"

section \<open>The working pool\<close>

text \<open>
  The specification of the loop: \<open>workingCap s n\<close> is RAM plus the first \<open>n\<close> increments (those that
  do not exist yet at the nominal step).
\<close>

definition workingCap :: "snapshot \<Rightarrow> nat \<Rightarrow> int" where
  "workingCap s n = memTotal s + (\<Sum>i < n. loop_add s (int i))"

lemma workingCap_0 [simp]: "workingCap s 0 = memTotal s"
  by (simp add: workingCap_def)

lemma workingCap_Suc: "workingCap s (Suc n) = workingCap s n + loop_add s (int n)"
  by (simp add: workingCap_def)

lemma workingCap_strict: "m < n \<Longrightarrow> workingCap s m < workingCap s n"
proof (induction n)
  case (Suc n)
  then show ?case
    using loop_add_pos [of s "int n"] by (cases "m = n") (auto simp: workingCap_Suc)
qed simp

lemma workingCap_unbounded: "\<exists>n. t \<le> workingCap s n"
proof -
  have "memTotal s + int n \<le> workingCap s n" for n
  proof (induction n)
    case (Suc n)
    then show ?case using loop_add_pos [of s "int n"] by (simp add: workingCap_Suc)
  qed simp
  then have "t \<le> workingCap s (nat (t - memTotal s))"
    by (smt (verit) int_nat_eq)
  then show ?thesis ..
qed

lemma desired_loop_step:
  assumes "\<And>m. m < n \<Longrightarrow> workingCap s m < t"
  shows "desired_loop s t (workingCap s n) (int n + 1) = int (LEAST m. t \<le> workingCap s m) + 1"
proof -
  have "n \<le> (LEAST m. t \<le> workingCap s m)"
    using assms LeastI_ex [OF workingCap_unbounded [of t s]]
    by (meson not_le)
  then show ?thesis
  proof (induction n rule: inc_induct)
    case base
    have "t \<le> workingCap s (LEAST m. t \<le> workingCap s m)"
      by (rule LeastI_ex [OF workingCap_unbounded])
    then show ?case by (subst desired_loop.simps) simp
  next
    case (step n)
    then have "workingCap s n < t" using not_less_Least [of n "\<lambda>m. t \<le> workingCap s m"] by simp
    with step.IH show ?case
      by (subst desired_loop.simps) (simp add: workingCap_Suc algebra_simps)
  qed
qed

lemma desired_loop_least:
  "desired_loop s t (memTotal s) 1 = int (LEAST m. t \<le> workingCap s m) + 1"
  using desired_loop_step [of 0 s t] by simp

text \<open>
  \<open>desiredBuffers\<close> returns one more (the reserve) than the least number of increments with
  which RAM and swap hold the footprint at the fill threshold; pressure above its threshold
  raises that to one increment more than the host has, and never lowers it.
\<close>

theorem desiredBuffers_least:
  "desiredBuffers s fill psi =
     (let need = int (LEAST m. poolTarget s fill \<le> workingCap s m) + 1
      in if psiSomeAvg10 s > psi then max need (int (length (areas s)) + 1) else need)"
  by (simp add: desiredBuffers_def desired_loop_least Let_def)

lemma least_mono: "t \<le> t' \<Longrightarrow> (LEAST m. t \<le> workingCap s m) \<le> (LEAST m. t' \<le> workingCap s m)"
  by (rule Least_le) (rule order_trans [OF _ LeastI_ex [OF workingCap_unbounded]])

lemma poolTarget_antimono:
  assumes "0 \<le> sumAreasUsed (areas s)" and "f \<le> f'"
  shows "poolTarget s f' \<le> poolTarget s f"
proof -
  have "0 \<le> memUsedBytes s" by (simp add: memUsedBytes_def Let_def)
  with assms show ?thesis
    by (simp add: poolTarget_def clampMin64_def zdiv_mono2)
qed

text \<open>
  The two thresholds leave a hold band: the count wanted at the cool threshold is never below
  the count wanted at the hot threshold, so no snapshot is at once short of increments and in
  surplus.
\<close>

theorem wantGrow_le_wantCool:
  assumes "0 \<le> sumAreasUsed (areas s)"
  shows "desiredBuffers s growHotPct growPSIThreshold \<le> desiredBuffers s coolPct shrinkPSIMax"
proof -
  have "(LEAST m. poolTarget s growHotPct \<le> workingCap s m)
      \<le> (LEAST m. poolTarget s coolPct \<le> workingCap s m)"
    by (rule least_mono [OF poolTarget_antimono [OF assms]]) simp
  then show ?thesis by (auto simp: desiredBuffers_least Let_def)
qed

text \<open>A host for the witnesses: 8 GiB of RAM and one 4 GiB increment, tight or idle.\<close>

definition host_tight :: snapshot where
  "host_tight = \<lparr>memTotal = 8 * gib, memAvail = gib, swapTotal = 4 * gib, swapFree = gib,
     freeDisk = 100 * gib, psiSomeAvg10 = 3,
     areas = [\<lparr>area_path = ''/s/swapfile.odac.1'', area_size = 4 * gib, area_used = 3 * gib\<rparr>],
     snap_ok = True\<rparr>"

definition host_idle :: snapshot where
  "host_idle = \<lparr>memTotal = 8 * gib, memAvail = 7 * gib, swapTotal = 8 * gib, swapFree = 8 * gib,
     freeDisk = 100 * gib, psiSomeAvg10 = 0,
     areas = [\<lparr>area_path = ''/s/swapfile.odac.1'', area_size = 4 * gib, area_used = 0\<rparr>,
              \<lparr>area_path = ''/s/swapfile.odac.2'', area_size = 4 * gib, area_used = 0\<rparr>],
     snap_ok = True\<rparr>"

definition default_config :: swap_config where
  "default_config = configFromMap Map.empty"

lemmas host_defs = host_tight_def host_idle_def default_config_def configFromMap_empty

theorem wantGrow_le_wantCool_witness:
  "0 \<le> sumAreasUsed (areas host_tight) \<and>
   desiredBuffers host_tight growHotPct growPSIThreshold
     \<le> desiredBuffers host_tight coolPct shrinkPSIMax"
  using wantGrow_le_wantCool [of host_tight] by (simp add: host_defs sumAreasUsed_def)

section \<open>What an enacted decision guarantees\<close>

text \<open>The conditions \<open>decide\<close> tests.\<close>

definition managed :: "snapshot \<Rightarrow> swap_config \<Rightarrow> bool" where
  "managed s cfg \<longleftrightarrow> AutoManage cfg \<and> snap_ok s"

definition short :: "snapshot \<Rightarrow> swap_config \<Rightarrow> bool" where
  "short s cfg \<longleftrightarrow> managed s cfg
     \<and> int (length (areas s)) < desiredBuffers s growHotPct growPSIThreshold"

definition surplus :: "snapshot \<Rightarrow> swap_config \<Rightarrow> bool" where
  "surplus s cfg \<longleftrightarrow> managed s cfg \<and> \<not> short s cfg \<and> AllowShrink cfg
     \<and> int (length (areas s)) > desiredBuffers s coolPct shrinkPSIMax
     \<and> int (length (areas s)) > baselineFloor"

lemmas decide_conds = managed_def short_def surplus_def

lemma decide_GrowD:
  "decide s cfg st = (st', d) \<Longrightarrow> dec_action d = Grow \<Longrightarrow>
     short s cfg \<and> growStreakNeeded \<le> growStreak st + 1 \<and> growStreak st' = 0
     \<and> plannedGrowSize s cfg (sumAreas (areas s)) = Some (dec_size d)"
  by (auto simp: decide_def hold_because_def decide_conds Let_def
      split: if_splits option.splits)

lemma decide_ShrinkD:
  "decide s cfg st = (st', d) \<Longrightarrow> dec_action d = Shrink \<Longrightarrow>
     surplus s cfg \<and> shrinkStreakNeeded \<le> shrinkStreak st + 1 \<and> shrinkStreak st' = 0
     \<and> plannedShrinkTarget s = Some (dec_target d)"
  by (auto simp: decide_def hold_because_def decide_conds Let_def
      split: if_splits option.splits)

lemma plannedGrowSize_SomeD:
  "plannedGrowSize s cfg tot = Some sz \<Longrightarrow>
     int (length (areas s)) < MaxIncrements cfg \<and> minIncrement \<le> sz \<and> sz \<le> incrementStep s
     \<and> tot + sz \<le> pct (freeDisk s + tot) (MaxDiskPct cfg)"
  using incrementStep_bounds [of s]
  by (auto simp: plannedGrowSize_def Let_def min64_def split: if_splits)

text \<open>
  A grow never breaks a cap: it happens only below \<open>MaxIncrements\<close>, allocates at least 1 GiB
  and at most the nominal step (at most 16 GiB), and the manager's swap with the new increment
  stays within \<open>MaxDiskPct\<close> per cent of the disk it could use.
\<close>

theorem decide_grow_within_caps:
  assumes "decide s cfg st = (st', d)" and "dec_action d = Grow"
  shows "int (length (areas s)) < MaxIncrements cfg
    \<and> minIncrement \<le> dec_size d \<and> dec_size d \<le> maxIncrementStep
    \<and> sumAreas (areas s) + dec_size d
        \<le> pct (freeDisk s + sumAreas (areas s)) (MaxDiskPct cfg)"
  using decide_GrowD [OF assms] plannedGrowSize_SomeD incrementStep_bounds [of s]
  by (meson order_trans)

theorem decide_grow_within_caps_witness:
  "decide host_tight default_config \<lparr>growStreak = 1, shrinkStreak = 0\<rparr>
     = (\<lparr>growStreak = 0, shrinkStreak = 0\<rparr>,
        \<lparr>dec_action = Grow, dec_size = 4 * gib, dec_target = [],
         dec_reason = ''add empty buffer ahead of frontier''\<rparr>)
   \<and> 4 * gib + 4 * gib \<le> pct (104 * gib) 25"
proof -
  have d: "decide host_tight default_config \<lparr>growStreak = 1, shrinkStreak = 0\<rparr>
     = (\<lparr>growStreak = 0, shrinkStreak = 0\<rparr>,
        \<lparr>dec_action = Grow, dec_size = 4 * gib, dec_target = [],
         dec_reason = ''add empty buffer ahead of frontier''\<rparr>)"
    by code_simp
  from decide_grow_within_caps [OF d] d show ?thesis
    by (simp add: host_tight_def sumAreas_def default_config_def configFromMap_empty)
qed

lemma decide_shrink_target:
  assumes "decide s cfg st = (st', d)" and "dec_action d = Shrink"
  shows "dec_target d = area_path (last (areas s))"
proof -
  from decide_ShrinkD [OF assms] have p: "plannedShrinkTarget s = Some (dec_target d)" by simp
  then have "areas s \<noteq> []" by (auto simp: plannedShrinkTarget_def split: if_splits)
  with p show ?thesis
    by (auto simp: plannedShrinkTarget_def Let_def last_conv_nth split: if_splits)
qed

text \<open>
  C11. A shrink is safe: it is allowed by the configuration, never removes the last increment, and
  takes the top one (the end of the list, so the highest index), which is at most 10 per cent
  full and whose pages fit into the available memory.
\<close>

theorem decide_shrink_safe:
  assumes "decide s cfg st = (st', d)" and "dec_action d = Shrink"
  shows "AllowShrink cfg \<and> 1 < length (areas s)
    \<and> dec_target d = area_path (last (areas s))
    \<and> areaFillPct (last (areas s)) \<le> emptyPct
    \<and> area_used (last (areas s)) < memAvail s"
proof -
  from decide_ShrinkD [OF assms]
  have "AllowShrink cfg" and p: "plannedShrinkTarget s = Some (dec_target d)"
    by (auto simp: surplus_def)
  moreover from p have "1 < length (areas s)"
    by (auto simp: plannedShrinkTarget_def split: if_splits)
  moreover from this have "areas s ! (length (areas s) - 1) = last (areas s)"
    by (subst last_conv_nth) auto
  ultimately show ?thesis using decide_shrink_target [OF assms]
    by (auto simp: plannedShrinkTarget_def Let_def split: if_splits)
qed

theorem decide_shrink_safe_witness:
  "dec_action (snd (decide host_idle default_config \<lparr>growStreak = 0, shrinkStreak = 9\<rparr>)) = Shrink
   \<and> dec_target (snd (decide host_idle default_config \<lparr>growStreak = 0, shrinkStreak = 9\<rparr>))
       = area_path (last (areas host_idle))"
proof -
  let ?r = "decide host_idle default_config \<lparr>growStreak = 0, shrinkStreak = 9\<rparr>"
  have a: "dec_action (snd ?r) = Shrink" by code_simp
  moreover have "?r = (fst ?r, snd ?r)" by simp
  ultimately show ?thesis using decide_shrink_safe by blast
qed

section \<open>Only sustained conditions act\<close>

text \<open>
  A sequence of ticks: each gated \<open>Check\<close> reads a fresh snapshot and configuration and keeps the
  counters (\<open>Manager.st\<close>) between them.
\<close>

type_synonym tick = "snapshot \<times> swap_config"

definition decide_tick :: "tick \<Rightarrow> counters \<Rightarrow> counters \<times> decision" where
  "decide_tick t st = decide (fst t) (snd t) st"

definition decide_run :: "tick list \<Rightarrow> counters \<Rightarrow> counters \<times> decision list" where
  "decide_run = run_steps decide_tick"

abbreviation fresh_counters :: counters where
  "fresh_counters \<equiv> \<lparr>growStreak = 0, shrinkStreak = 0\<rparr>"

lemma decide_growStreak:
  "growStreak (fst (decide s cfg st)) \<in>
     (if short s cfg then {0, growStreak st + 1} else {0})"
  by (auto simp: decide_def decide_conds counters_reset_def Let_def split: option.splits)

lemma decide_shrinkStreak:
  "shrinkStreak (fst (decide s cfg st)) \<in>
     (if surplus s cfg then {0, shrinkStreak st + 1} else {0})"
  by (auto simp: decide_def decide_conds counters_reset_def Let_def split: option.splits)

interpretation grow_streak: streak_counter decide_tick growStreak "\<lambda>t. short (fst t) (snd t)"
proof
  fix st t
  show "0 \<le> growStreak st \<Longrightarrow> 0 \<le> growStreak (fst (decide_tick t st))"
    and "0 \<le> growStreak st \<Longrightarrow> growStreak (fst (decide_tick t st))
      \<le> (if short (fst t) (snd t) then growStreak st + 1 else 0)"
    using decide_growStreak [of "fst t" "snd t" st]
    by (auto simp: decide_tick_def split: if_splits)
qed

interpretation shrink_streak: streak_counter decide_tick shrinkStreak "\<lambda>t. surplus (fst t) (snd t)"
proof
  fix st t
  show "0 \<le> shrinkStreak st \<Longrightarrow> 0 \<le> shrinkStreak (fst (decide_tick t st))"
    and "0 \<le> shrinkStreak st \<Longrightarrow> shrinkStreak (fst (decide_tick t st))
      \<le> (if surplus (fst t) (snd t) then shrinkStreak st + 1 else 0)"
    using decide_shrinkStreak [of "fst t" "snd t" st]
    by (auto simp: decide_tick_def split: if_splits)
qed

lemma decide_run_last:
  assumes "i < length ts"
  shows "snd (decide_run ts st) ! i
    = snd (decide (fst (ts ! i)) (snd (ts ! i)) (fst (decide_run (take i ts) st)))"
  using run_steps_output [OF assms, of decide_tick st]
  by (simp add: decide_run_def decide_tick_def)

text \<open>
  A single spike never acts: when tick \<open>i\<close> of a run that starts with fresh counters grows, the
  host was short of increments on that tick and the one before; when it shrinks, the surplus had
  lasted for ten ticks in a row.
\<close>

theorem sustained_conditions:
  assumes "i < length ts" and "d = snd (decide_run ts fresh_counters) ! i"
  shows "(dec_action d = Grow \<longrightarrow> 2 \<le> Suc i \<and>
        list_all (\<lambda>t. short (fst t) (snd t)) (drop (Suc i - 2) (take (Suc i) ts)))
    \<and> (dec_action d = Shrink \<longrightarrow> 10 \<le> Suc i \<and>
        list_all (\<lambda>t. surplus (fst t) (snd t)) (drop (Suc i - 10) (take (Suc i) ts)))"
proof -
  let ?st = "fst (run_steps decide_tick (take i ts) fresh_counters)"
  have split: "take i ts @ [ts ! i] = take (Suc i) ts"
    using assms(1) by (simp add: take_Suc_conv_app_nth)
  have len: "length (take (Suc i) ts) = Suc i" using assms(1) by simp
  obtain st' where d: "decide (fst (ts ! i)) (snd (ts ! i)) ?st = (st', d)"
    using decide_run_last [OF assms(1), of fresh_counters] assms(2)
    by (metis decide_run_def prod.collapse)
  have "2 \<le> Suc i \<and> list_all (\<lambda>t. short (fst t) (snd t)) (drop (Suc i - 2) (take (Suc i) ts))"
    if "dec_action d = Grow"
    using grow_streak.sustained [of fresh_counters "ts ! i" 2 "take i ts"] decide_GrowD [OF d that]
    unfolding split len by simp
  moreover have "10 \<le> Suc i \<and>
      list_all (\<lambda>t. surplus (fst t) (snd t)) (drop (Suc i - 10) (take (Suc i) ts))"
    if "dec_action d = Shrink"
    using shrink_streak.sustained [of fresh_counters "ts ! i" 10 "take i ts"] decide_ShrinkD [OF d that]
    unfolding split len by simp
  ultimately show ?thesis by blast
qed

theorem sustained_conditions_witness:
  "dec_action (snd (decide_run (replicate 10 (host_idle, default_config)) fresh_counters) ! 9) = Shrink
   \<and> list_all (\<lambda>t. surplus (fst t) (snd t)) (replicate 10 (host_idle, default_config))"
proof -
  let ?ts = "replicate 10 (host_idle, default_config)"
  have a: "dec_action (snd (decide_run ?ts fresh_counters) ! 9) = Shrink" by code_simp
  with sustained_conditions [of 9 ?ts] show ?thesis by simp
qed

section \<open>The arithmetic stays within 64 bits\<close>

text \<open>A host whose byte counts are below 2 to the power 50 (a pebibyte).\<close>

definition plausible :: "snapshot \<Rightarrow> swap_config \<Rightarrow> bool" where
  "plausible s cfg \<longleftrightarrow>
     0 \<le> memTotal s \<and> memTotal s \<le> 2 ^ 50 \<and> 0 \<le> memAvail s \<and> memAvail s \<le> 2 ^ 50
     \<and> 0 \<le> freeDisk s \<and> freeDisk s \<le> 2 ^ 50
     \<and> 0 \<le> sumAreas (areas s) \<and> sumAreas (areas s) \<le> 2 ^ 50
     \<and> 0 \<le> sumAreasUsed (areas s) \<and> sumAreasUsed (areas s) \<le> 2 ^ 50
     \<and> list_all (\<lambda>a. area_size a \<le> 2 ^ 50) (areas s)
     \<and> 0 \<le> MaxDiskPct cfg \<and> MaxDiskPct cfg \<le> 100"

lemma loop_add_le: "list_all (\<lambda>a. area_size a \<le> 2 ^ 50) (areas s) \<Longrightarrow> loop_add s (int i) \<le> 2 ^ 50"
  using incrementStep_bounds [of s] by (auto simp: loop_add_def list_all_length)

lemma workingCap_le_least:
  assumes "list_all (\<lambda>a. area_size a \<le> 2 ^ 50) (areas s)" and "memTotal s \<le> 2 ^ 50"
    and "m \<le> (LEAST m. t \<le> workingCap s m)"
  shows "workingCap s m \<le> max 0 t + 2 ^ 50"
proof (cases m)
  case 0
  with assms(2) show ?thesis by simp
next
  case (Suc k)
  with assms(3) have "\<not> t \<le> workingCap s k"
    by (intro not_less_Least) simp
  with Suc loop_add_le [OF assms(1), of k] show ?thesis by (simp add: workingCap_Suc)
qed

text \<open>
  On a host below a pebibyte no intermediate value of a tick overflows an \<open>int64\<close>: neither the
  scaled footprint, nor the working capacity in any round of the loop, nor the scaled disk budget.
\<close>

theorem decide_int64:
  assumes "plausible s cfg" and "fill = growHotPct \<or> fill = coolPct"
    and "m \<le> (LEAST m. poolTarget s fill \<le> workingCap s m)"
  shows "(memUsedBytes s + sumAreasUsed (areas s)) * 100 \<le> max_int64
    \<and> workingCap s m \<le> max_int64
    \<and> (freeDisk s + sumAreas (areas s)) * MaxDiskPct cfg \<le> max_int64"
proof -
  have used: "0 \<le> memUsedBytes s" "memUsedBytes s \<le> 2 ^ 50"
    using assms(1) by (auto simp: plausible_def memUsedBytes_def Let_def)
  with assms(1) have foot: "(memUsedBytes s + sumAreasUsed (areas s)) * 100 \<le> 2 ^ 58"
    by (simp add: plausible_def)
  then have "tdiv ((memUsedBytes s + sumAreasUsed (areas s)) * 100) k \<le> 2 ^ 58" if "k \<in> {40, 80}" for k
    using that by (intro tdiv_le) auto
  then have "poolTarget s fill \<le> 2 ^ 58"
    using assms(2) by (auto simp: poolTarget_def clampMin64_def)
  moreover have "workingCap s m \<le> max 0 (poolTarget s fill) + 2 ^ 50"
    using assms(1,3) by (intro workingCap_le_least) (auto simp: plausible_def)
  moreover have "(freeDisk s + sumAreas (areas s)) * MaxDiskPct cfg \<le> 2 ^ 51 * 100"
    using assms(1) by (intro mult_mono) (auto simp: plausible_def)
  ultimately show ?thesis using foot by simp
qed

theorem decide_int64_witness:
  "plausible host_tight default_config \<and>
   (memUsedBytes host_tight + sumAreasUsed (areas host_tight)) * 100 \<le> max_int64"
proof -
  have "plausible host_tight default_config" by code_simp
  with decide_int64 [of host_tight default_config growHotPct 0] show ?thesis by simp
qed

section \<open>Reconciling after a reboot\<close>

lemma plan_loop_take:
  "plan_loop cfg n fs =
     (map df_path (take (nat (MaxIncrements cfg - n)) fs),
      map df_path (drop (nat (MaxIncrements cfg - n)) fs))"
proof (induction fs arbitrary: n)
  case (Cons f fs)
  show ?case
  proof (cases "MaxIncrements cfg \<le> n")
    case True
    then show ?thesis using Cons [of n] by simp
  next
    case False
    then have "nat (MaxIncrements cfg - n) = Suc (nat (MaxIncrements cfg - (n + 1)))" by simp
    then show ?thesis using False Cons [of "n + 1"] by simp
  qed
qed simp

text \<open>
  \<open>planReconcile\<close> splits exactly the inactive swapfiles: sorted by index (lowest first, so the
  baseline comes back first), as many are adopted as \<open>MaxIncrements\<close> leaves room for beside the
  active ones, and all the others are discarded; nothing active is ever touched.
\<close>

theorem planReconcile_split:
  "\<exists>cands. planReconcile fs active cfg =
       (map df_path (take (nat (MaxIncrements cfg - int (length active))) cands),
        map df_path (drop (nat (MaxIncrements cfg - int (length active))) cands))
     \<and> sorted (map df_idx cands)
     \<and> mset cands = {#f \<in># mset fs. df_path f \<notin> area_path ` set active#}"
  by (rule exI [of _ "sortFilesByIndex (filter (\<lambda>f. df_path f \<notin> area_path ` set active) fs)"])
    (simp add: planReconcile_def plan_loop_take sortFilesByIndex_def isort_key_sorted)

lemma planReconcile_inactive:
  "planReconcile fs active cfg = (ad, di) \<Longrightarrow> p \<in> set ad \<union> set di \<Longrightarrow>
     p \<in> df_path ` set fs \<and> p \<notin> area_path ` set active"
  by (fastforce simp: planReconcile_def plan_loop_take sortFilesByIndex_def
      dest!: in_set_takeD in_set_dropD intro: rev_image_eqI)

end
