(* ===== verification/SwapFstab.thy ===== *)
theory SwapFstab
  imports Prelude
begin

text \<open>
  The fstab editor of \<open>internal/system/swap/actuator.go\<close>: pure text functions that own one marked
  block of \<open>/etc/fstab\<close> and leave the user's lines alone.
\<close>

definition fstabBegin :: string where
  "fstabBegin = ''# >>> odac-managed swap (do not edit) >>>''"

definition fstabEnd :: string where
  "fstabEnd = ''# <<< odac-managed swap <<<''"

definition fstabOpts :: string where
  "fstabOpts = ''none swap sw,nofail 0 0''"

definition removeFstabBlock :: "string \<Rightarrow> string" where
  "removeFstabBlock s =
     (case index_str fstabBegin s of
        None \<Rightarrow> s
      | Some b \<Rightarrow>
          (let after = (case index_str fstabEnd (drop b s) of
                          None \<Rightarrow> []
                        | Some e \<Rightarrow>
                            (let end0 = b + e + length fstabEnd;
                                 end1 = (if end0 < length s \<and> s ! end0 = nl then end0 + 1 else end0)
                             in drop end1 s));
               before = trim_right (take b s) [nl]
           in if before \<noteq> [] \<and> after \<noteq> [] then before @ [nl] @ after else before @ after))"

definition fstab_line :: "string \<Rightarrow> string" where
  "fstab_line p = p @ '' '' @ fstabOpts @ [nl]"

definition updateFstabBlock :: "string \<Rightarrow> string list \<Rightarrow> string" where
  "updateFstabBlock existing paths =
     (let stripped = removeFstabBlock existing
      in if paths = [] then stripped
         else (let trimmed = trim_right stripped [nl]
               in (if trimmed \<noteq> [] then trimmed @ [nl] else [])
                  @ fstabBegin @ [nl] @ concat (map fstab_line paths) @ fstabEnd @ [nl]))"

section \<open>Finding the block\<close>

text \<open>The first occurrence of a marker that starts a line, in a text that does not contain it.\<close>

lemma index_str_next_line:
  assumes "p \<noteq> []" and "nl \<notin> set p" and "index_str p t = None"
  shows "index_str p (t @ nl # p @ v) = Some (Suc (length t))"
  using assms(3)
proof (induction t)
  case Nil
  have "index_str p (p @ v) = Some 0" by simp
  moreover have "\<not> has_prefix (nl # p @ v) p"
    using assms(1,2) by (cases p) (auto simp: has_prefix_def)
  ultimately show ?case by simp
next
  case (Cons x t)
  have "\<not> has_prefix ((x # t) @ nl # p @ v) p"
  proof
    assume h: "has_prefix ((x # t) @ nl # p @ v) p"
    then have "take (length p) ((x # t) @ nl # p @ v) = p" by (simp only: has_prefix_def)
    moreover from this assms(2) have "length p \<le> length (x # t)"
      by (metis append_eq_conv_conj in_set_conv_decomp linorder_le_less_linear take_all_iff
          take_append take_Cons' diff_is_0_eq not_le zero_less_diff)
    moreover from this have "take (length p) ((x # t) @ nl # p @ v) = take (length p) (x # t)"
      by (simp only: take_append) simp
    ultimately have "has_prefix (x # t) p" by (simp only: has_prefix_def)
    with Cons.prems show False by simp
  qed
  with Cons show ?case by (auto split: if_splits)
qed

lemma index_str_first_char:
  "p = c # q \<Longrightarrow> c \<notin> set u \<Longrightarrow> index_str p (u @ p @ v) = Some (length u)"
  by (induction u) (auto simp: has_prefix_def)

text \<open>A path as the manager writes it: no comment sign and no newline.\<close>

definition clean_path :: "string \<Rightarrow> bool" where
  "clean_path p \<longleftrightarrow> CHR ''#'' \<notin> set p \<and> nl \<notin> set p"

abbreviation fstab_block :: "string list \<Rightarrow> string" where
  "fstab_block ps \<equiv> fstabBegin @ [nl] @ concat (map fstab_line ps) @ fstabEnd @ [nl]"

lemma no_hash_lines:
  "list_all clean_path ps \<Longrightarrow> CHR ''#'' \<notin> set (tl fstabBegin @ [nl] @ concat (map fstab_line ps))"
  by (induction ps) (auto simp: fstabBegin_def fstab_line_def fstabOpts_def clean_path_def)

lemma fstabEnd_in_block:
  assumes "list_all clean_path ps"
  shows "index_str fstabEnd (fstab_block ps)
    = Some (length (fstabBegin @ [nl] @ concat (map fstab_line ps)))"
proof -
  let ?u = "tl fstabBegin @ [nl] @ concat (map fstab_line ps)"
  have "index_str fstabEnd (?u @ fstabEnd @ [nl]) = Some (length ?u)"
    by (rule index_str_first_char [of _ "CHR ''#''" "tl fstabEnd"])
      (use no_hash_lines [OF assms] in \<open>auto simp: fstabEnd_def\<close>)
  moreover have "fstabBegin = CHR ''#'' # tl fstabBegin" by (simp add: fstabBegin_def)
  moreover have "\<not> has_prefix (CHR ''#'' # tl fstabBegin @ w) fstabEnd" for w
    by (simp add: has_prefix_def fstabBegin_def fstabEnd_def)
  ultimately show ?thesis
    by (metis (no_types, lifting) append_Cons append_assoc index_str.simps(2) length_Cons
        option.simps(9))
qed

text \<open>Removing a block at the end of a text that holds no other marker leaves the text.\<close>

lemma remove_block:
  assumes "index_str fstabBegin t = None" and "trim_right t [nl] = t" and "list_all clean_path ps"
  shows "removeFstabBlock ((if t \<noteq> [] then t @ [nl] else []) @ fstab_block ps) = t"
proof -
  define pre where "pre = (if t \<noteq> [] then t @ [nl] else [])"
  define body where "body = fstabBegin @ [nl] @ concat (map fstab_line ps)"
  define s where "s = pre @ body @ fstabEnd @ [nl]"
  have ne: "fstabBegin \<noteq> []" "nl \<notin> set fstabBegin" by (auto simp: fstabBegin_def)
  have b: "index_str fstabBegin s = Some (length pre)"
  proof (cases "t = []")
    case True
    then show ?thesis by (simp add: s_def pre_def body_def)
  next
    case False
    then show ?thesis
      using index_str_next_line [OF ne assms(1)] by (simp add: s_def pre_def body_def)
  qed
  have e: "index_str fstabEnd (drop (length pre) s) = Some (length body)"
    using fstabEnd_in_block [OF assms(3)] by (simp add: s_def body_def)
  have end0: "length pre + length body + length fstabEnd < length s"
      "s ! (length pre + length body + length fstabEnd) = nl"
      "drop (Suc (length pre + length body + length fstabEnd)) s = []"
    by (simp_all add: s_def nth_append)
  have "trim_right (take (length pre) s) [nl] = t"
    using assms(2) trim_right_append [of "[nl]" "[nl]" t] by (simp add: s_def pre_def)
  with end0 have "removeFstabBlock s = t"
    by (simp add: removeFstabBlock_def b e Let_def)
  then show ?thesis by (simp add: s_def pre_def body_def)
qed

text \<open>
  Editing fstab is idempotent and the last edit wins: on a text with at most one managed block
  (nothing is left to remove once it is stripped) and paths without comment signs and newlines,
  writing one set of paths and then another gives what writing the second alone gives, and the
  text outside the block (trailing newlines apart) is what it was.
\<close>

theorem fstab_update_update:
  assumes "\<not> contains_str (removeFstabBlock e) fstabBegin" and "list_all clean_path ps"
    and "ps \<noteq> []" and "qs \<noteq> []"
  shows "updateFstabBlock (updateFstabBlock e ps) qs = updateFstabBlock e qs
    \<and> removeFstabBlock (updateFstabBlock e ps) = trim_right (removeFstabBlock e) [nl]"
proof -
  let ?t = "trim_right (removeFstabBlock e) [nl]"
  have "?t = [] \<or> last ?t \<notin> set [nl]" by (rule trim_right_no_trailing)
  then have tt: "trim_right ?t [nl] = ?t"
    by (cases "?t = []") (auto simp: trim_right_last trim_right_def)
  obtain w where w: "removeFstabBlock e = ?t @ w" using trim_right_prefix by blast
  have none: "index_str fstabBegin ?t = None"
  proof (rule ccontr)
    assume "index_str fstabBegin ?t \<noteq> None"
    then obtain i where i: "index_str fstabBegin ?t = Some i" by auto
    from index_str_SomeD [OF this] obtain v where "?t = take i ?t @ fstabBegin @ v"
      by (metis append_take_drop_id has_prefix_iff)
    then have "removeFstabBlock e = take i ?t @ fstabBegin @ v @ w"
      using w by (metis append.assoc)
    then show False
      using assms(1) index_str_append [of "take i ?t" fstabBegin "v @ w"]
      by (auto simp: contains_str_def)
  qed
  have "removeFstabBlock (updateFstabBlock e ps) = ?t"
    using remove_block [OF none tt assms(2)] assms(3) by (simp add: updateFstabBlock_def Let_def)
  moreover from this have "updateFstabBlock (updateFstabBlock e ps) qs = updateFstabBlock e qs"
    using assms(4) by (simp add: updateFstabBlock_def [of _ qs] Let_def tt)
  ultimately show ?thesis by blast
qed

theorem fstab_update_update_witness:
  "updateFstabBlock (updateFstabBlock ''/dev/sda1 / ext4'' [''/s/swapfile.odac.1'']) [''/s/swapfile.odac.1'']
     = updateFstabBlock ''/dev/sda1 / ext4'' [''/s/swapfile.odac.1'']"
proof -
  have "\<not> contains_str (removeFstabBlock ''/dev/sda1 / ext4'') fstabBegin" by code_simp
  moreover have "list_all clean_path [''/s/swapfile.odac.1'']" by code_simp
  ultimately show ?thesis
    using fstab_update_update [of "''/dev/sda1 / ext4''" "[''/s/swapfile.odac.1'']" "[''/s/swapfile.odac.1'']"]
    by simp
qed

text \<open>
  The restriction to one block is needed: on a text with two managed blocks the first edit removes
  the first block only, so a second edit with the same paths changes the text again.
\<close>

lemma fstab_two_blocks:
  "let e = fstab_block [''/a''] @ fstab_block [''/b''];
       once = updateFstabBlock e [''/a'']
   in updateFstabBlock once [''/a''] \<noteq> once"
  by code_simp

end
