(* ===== verification/SwapManager.thy ===== *)
theory SwapManager
  imports SwapDecide SwapFstab
begin

text \<open>
  \<open>internal/system/swap/manager.go\<close>: the manager that reads a snapshot, reconciles the swap
  directory, decides and enacts, over the \<open>controller\<close> interface of \<open>actuator.go\<close>. A Go interface
  value is a record of functions; each operation takes the host state \<open>'h\<close> and returns the new
  one with its error flag (\<^const>\<open>True\<close> is a nil error). Logging is left out.
\<close>

section \<open>The controller interface\<close>

record 'h controller =
  ctl_open :: "string \<Rightarrow> int \<Rightarrow> 'h \<Rightarrow> 'h \<times> bool"
  ctl_remove :: "string \<Rightarrow> 'h \<Rightarrow> 'h \<times> bool"
  ctl_scan :: "string \<Rightarrow> 'h \<Rightarrow> disk_file list option"
  ctl_activate :: "string \<Rightarrow> 'h \<Rightarrow> 'h \<times> bool"
  ctl_discard :: "string \<Rightarrow> 'h \<Rightarrow> 'h \<times> int option"
  ctl_syncFstab :: "string list \<Rightarrow> 'h \<Rightarrow> 'h \<times> bool"

text \<open>The controller of platforms without swap management.\<close>

definition noopController :: "'h controller" where
  "noopController =
     \<lparr>ctl_open = (\<lambda>p n h. (h, True)), ctl_remove = (\<lambda>p h. (h, True)),
      ctl_scan = (\<lambda>d h. Some []), ctl_activate = (\<lambda>p h. (h, True)),
      ctl_discard = (\<lambda>p h. (h, Some 0)), ctl_syncFstab = (\<lambda>ps h. (h, True))\<rparr>"

section \<open>Paths\<close>

definition pathsOf :: "area list \<Rightarrow> string list" where
  "pathsOf as = map area_path as"

definition path_without :: "string list \<Rightarrow> string \<Rightarrow> string list" where
  "path_without paths gone = filter (\<lambda>p. p \<noteq> gone) paths"

definition sumAreasExcept :: "area list \<Rightarrow> string \<Rightarrow> int" where
  "sumAreasExcept as gone = foldl (\<lambda>t a. if area_path a \<noteq> gone then t + area_size a else t) 0 as"

definition max_index :: "area list \<Rightarrow> string \<Rightarrow> int" where
  "max_index as pre =
     foldl (\<lambda>m a. let idx = indexOf (area_path a) pre in if idx > m then idx else m) 0 as"

definition nextPath :: "area list \<Rightarrow> string \<Rightarrow> string" where
  "nextPath as pre = pre @ itoa (wrap64 (max_index as pre + 1))"

definition swapDir :: "swap_config \<Rightarrow> string \<Rightarrow> string" where
  "swapDir cfg baseSwap = (if Dir cfg \<noteq> [] then Dir cfg else baseSwap)"

section \<open>The manager's steps\<close>

definition persist :: "'h controller \<Rightarrow> swap_config \<Rightarrow> string list \<Rightarrow> 'h \<Rightarrow> 'h" where
  "persist ctl cfg paths h = (if \<not> Persist cfg then h else fst (ctl_syncFstab ctl paths h))"

text \<open>
  The two loops of \<open>reconcile\<close>. The first threads the host, the discard list it may extend and the
  changed flag; the second the host and the flag.
\<close>

fun adopt_loop :: "'h controller \<Rightarrow> string list \<Rightarrow> 'h \<Rightarrow> string list \<Rightarrow> bool \<Rightarrow> 'h \<times> string list \<times> bool" where
  "adopt_loop ctl [] h di ch = (h, di, ch)"
| "adopt_loop ctl (p # ps) h di ch =
     (case ctl_activate ctl p h of
        (h1, True) \<Rightarrow> adopt_loop ctl ps h1 di True
      | (h1, False) \<Rightarrow> adopt_loop ctl ps h1 (di @ [p]) ch)"

fun discard_loop :: "'h controller \<Rightarrow> string list \<Rightarrow> 'h \<Rightarrow> bool \<Rightarrow> 'h \<times> bool" where
  "discard_loop ctl [] h ch = (h, ch)"
| "discard_loop ctl (p # ps) h ch =
     (case ctl_discard ctl p h of
        (h1, None) \<Rightarrow> discard_loop ctl ps h1 ch
      | (h1, Some n) \<Rightarrow> discard_loop ctl ps h1 True)"

definition reconcile :: "'h controller \<Rightarrow> swap_config \<Rightarrow> string \<Rightarrow> snapshot \<Rightarrow> 'h \<Rightarrow> 'h \<times> bool" where
  "reconcile ctl cfg dir s h =
     (if \<not> AutoManage cfg \<or> \<not> snap_ok s then (h, False)
      else (case ctl_scan ctl dir h of
              None \<Rightarrow> (h, False)
            | Some fs \<Rightarrow>
                (case planReconcile fs (areas s) cfg of
                   (ad, di) \<Rightarrow>
                     if ad = [] \<and> di = [] then (h, False)
                     else (case adopt_loop ctl ad h di False of
                             (h1, di1, ch) \<Rightarrow> discard_loop ctl di1 h1 ch))))"

text \<open>\<open>sync\<close>; \<open>snap\<close> is \<open>readSnapshot\<close> on the host.\<close>

definition swap_sync ::
  "'h controller \<Rightarrow> (string \<Rightarrow> 'h \<Rightarrow> snapshot) \<Rightarrow> swap_config \<Rightarrow> string \<Rightarrow> 'h \<Rightarrow> 'h \<times> snapshot" where
  "swap_sync ctl snap cfg dir h =
     (let s = snap dir h
      in case reconcile ctl cfg dir s h of
           (h1, False) \<Rightarrow> (h1, s)
         | (h1, True) \<Rightarrow> (let s2 = snap dir h1 in (persist ctl cfg (pathsOf (areas s2)) h1, s2)))"

definition enact ::
  "'h controller \<Rightarrow> decision \<Rightarrow> snapshot \<Rightarrow> swap_config \<Rightarrow> string \<Rightarrow> 'h \<Rightarrow> 'h" where
  "enact ctl d s cfg dir h =
     (case dec_action d of
        Grow \<Rightarrow>
          (let path = nextPath (areas s) (swapPrefix dir)
           in case ctl_open ctl path (dec_size d) h of
                (h1, False) \<Rightarrow> h1
              | (h1, True) \<Rightarrow> persist ctl cfg (pathsOf (areas s) @ [path]) h1)
      | Shrink \<Rightarrow>
          (case ctl_remove ctl (dec_target d) h of
             (h1, False) \<Rightarrow> h1
           | (h1, True) \<Rightarrow> persist ctl cfg (path_without (pathsOf (areas s)) (dec_target d)) h1)
      | Hold \<Rightarrow> h)"

text \<open>The manager's own state: the streaks, and the gate clock (\<^const>\<open>None\<close> is the zero time).\<close>

record manager =
  mgr_st :: counters
  mgr_gate :: int
  mgr_lastRun :: "int option"

definition checkGate :: int where
  "checkGate = 30000000000"

definition new_manager :: manager where
  "new_manager = \<lparr>mgr_st = \<lparr>growStreak = 0, shrinkStreak = 0\<rparr>, mgr_gate = checkGate, mgr_lastRun = None\<rparr>"

definition swap_check ::
  "'h controller \<Rightarrow> (string \<Rightarrow> 'h \<Rightarrow> snapshot) \<Rightarrow> amap \<Rightarrow> string \<Rightarrow> int \<Rightarrow> manager \<Rightarrow> 'h \<Rightarrow> manager \<times> 'h" where
  "swap_check ctl snap conf baseSwap now m h =
     (if (case mgr_lastRun m of None \<Rightarrow> False | Some t \<Rightarrow> now - t < mgr_gate m) then (m, h)
      else
        let m1 = m\<lparr>mgr_lastRun := Some now\<rparr>;
            cfg = configFromMap conf;
            dir = swapDir cfg baseSwap
        in case swap_sync ctl snap cfg dir h of
             (h1, s) \<Rightarrow>
               (case decide s cfg (mgr_st m1) of
                  (st', d) \<Rightarrow> (m1\<lparr>mgr_st := st'\<rparr>, enact ctl d s cfg dir h1)))"

definition swap_restore ::
  "'h controller \<Rightarrow> (string \<Rightarrow> 'h \<Rightarrow> snapshot) \<Rightarrow> amap \<Rightarrow> string \<Rightarrow> 'h \<Rightarrow> 'h" where
  "swap_restore ctl snap conf baseSwap h =
     (let cfg = configFromMap conf in fst (swap_sync ctl snap cfg (swapDir cfg baseSwap) h))"

section \<open>A new increment never collides\<close>

lemma fold_max:
  "m0 \<le> foldl (\<lambda>m a. let i = f a in if i > m then i else m) (m0 :: int) as
   \<and> (\<forall>a \<in> set as. f a \<le> foldl (\<lambda>m a. let i = f a in if i > m then i else m) m0 as)
   \<and> (m0 \<le> b \<longrightarrow> (\<forall>a \<in> set as. f a \<le> b) \<longrightarrow>
        foldl (\<lambda>m a. let i = f a in if i > m then i else m) m0 as \<le> b)"
proof (induction as arbitrary: m0)
  case (Cons a as)
  from Cons [of "max m0 (f a)"] show ?case by (auto simp: Let_def max_def split: if_splits)
qed simp

lemma max_index_ge: "a \<in> set as \<Longrightarrow> indexOf (area_path a) pre \<le> max_index as pre"
  unfolding max_index_def using fold_max [of 0 "\<lambda>a. indexOf (area_path a) pre" as 0] by blast

lemma max_index_nonneg: "0 \<le> max_index as pre"
  unfolding max_index_def using fold_max [of 0 "\<lambda>a. indexOf (area_path a) pre" as 0] by blast

lemma max_index_less:
  "(\<And>a. a \<in> set as \<Longrightarrow> indexOf (area_path a) pre < max_int64) \<Longrightarrow> max_index as pre < max_int64"
  unfolding max_index_def
  using fold_max [of 0 "\<lambda>a. indexOf (area_path a) pre" as "max_int64 - 1"] by fastforce

text \<open>
  \<open>nextPath\<close> names a fresh swapfile: its index is above every index in use, so its path differs
  from every active path (unless an index has reached the largest \<open>int64\<close>).
\<close>

theorem nextPath_fresh:
  assumes "\<And>a. a \<in> set as \<Longrightarrow> indexOf (area_path a) pre < max_int64"
  shows "indexOf (nextPath as pre) pre = max_index as pre + 1
    \<and> (\<forall>a \<in> set as. indexOf (area_path a) pre < indexOf (nextPath as pre) pre)
    \<and> nextPath as pre \<notin> set (pathsOf as)"
proof -
  have m: "0 \<le> max_index as pre" "max_index as pre < max_int64"
    using max_index_nonneg [of as pre] max_index_less [of as pre] assms by auto
  then have i: "indexOf (nextPath as pre) pre = max_index as pre + 1"
    by (simp add: nextPath_def wrap64_id parse_int64_itoa)
  moreover have "\<forall>a \<in> set as. indexOf (area_path a) pre < indexOf (nextPath as pre) pre"
    using max_index_ge [of _ as pre] i by fastforce
  ultimately show ?thesis by (auto simp: pathsOf_def)
qed

theorem nextPath_fresh_witness:
  "nextPath (areas host_idle) ''/s/swapfile.odac.'' = ''/s/swapfile.odac.3'' \<and>
   nextPath (areas host_idle) ''/s/swapfile.odac.'' \<notin> set (pathsOf (areas host_idle))"
proof -
  have "list_all (\<lambda>a. indexOf (area_path a) ''/s/swapfile.odac.'' < max_int64) (areas host_idle)"
    by code_simp
  then have "a \<in> set (areas host_idle) \<Longrightarrow> indexOf (area_path a) ''/s/swapfile.odac.'' < max_int64" for a
    by (simp add: list_all_iff)
  from nextPath_fresh [OF this] have "nextPath (areas host_idle) ''/s/swapfile.odac.''
      \<notin> set (pathsOf (areas host_idle))" by blast
  moreover have "nextPath (areas host_idle) ''/s/swapfile.odac.'' = ''/s/swapfile.odac.3''"
    by code_simp
  ultimately show ?thesis by blast
qed

section \<open>The gate\<close>

text \<open>The orchestrator's ticks are spaced by the gate: a tick inside it does nothing at all.\<close>

lemma swap_check_gated:
  "mgr_lastRun m = Some t \<Longrightarrow> now - t < mgr_gate m \<Longrightarrow> swap_check ctl snap conf base now m h = (m, h)"
  by (simp add: swap_check_def)

lemma swap_check_lastRun:
  "mgr_lastRun (fst (swap_check ctl snap conf base now m h)) \<in> {mgr_lastRun m, Some now}"
  by (auto simp: swap_check_def Let_def split: prod.splits)

section \<open>Live swap is never touched\<close>

text \<open>
  What the manager relies on: an operation of the controller on one path leaves what is observed
  of every other path, and editing fstab leaves all of it. \<open>view\<close> is the observation, e.g. whether
  the path is an active swap area and its file's size.
\<close>

locale framed_controller =
  fixes ctl :: "'h controller" and view :: "'h \<Rightarrow> string \<Rightarrow> 'v"
  assumes open_frame: "p \<noteq> q \<Longrightarrow> view (fst (ctl_open ctl q n h)) p = view h p"
    and remove_frame: "p \<noteq> q \<Longrightarrow> view (fst (ctl_remove ctl q h)) p = view h p"
    and activate_frame: "p \<noteq> q \<Longrightarrow> view (fst (ctl_activate ctl q h)) p = view h p"
    and discard_frame: "p \<noteq> q \<Longrightarrow> view (fst (ctl_discard ctl q h)) p = view h p"
    and fstab_frame: "view (fst (ctl_syncFstab ctl qs h)) p = view h p"
begin

lemma persist_view: "view (persist ctl cfg qs h) p = view h p"
  by (simp add: persist_def fstab_frame)

lemma adopt_loop_view:
  "p \<notin> set ad \<Longrightarrow> adopt_loop ctl ad h di ch = (h', di', ch') \<Longrightarrow>
     view h' p = view h p \<and> set di' \<subseteq> set di \<union> set ad"
proof (induction ad arbitrary: h di ch)
  case (Cons q ad)
  obtain h1 ok where a: "ctl_activate ctl q h = (h1, ok)" by force
  have "view h1 p = view h p" using activate_frame [of p q h] Cons.prems(1) a by simp
  moreover have "view h' p = view h1 p \<and> set di' \<subseteq> set di \<union> set (q # ad)"
  proof (cases ok)
    case True
    then have "adopt_loop ctl ad h1 di True = (h', di', ch')" using Cons.prems(2) a by simp
    from Cons.IH [OF _ this] Cons.prems(1) show ?thesis by auto
  next
    case False
    then have "adopt_loop ctl ad h1 (di @ [q]) ch = (h', di', ch')" using Cons.prems(2) a by simp
    from Cons.IH [OF _ this] Cons.prems(1) show ?thesis by auto
  qed
  ultimately show ?case by simp
qed simp

lemma discard_loop_view:
  "p \<notin> set di \<Longrightarrow> view (fst (discard_loop ctl di h ch)) p = view h p"
proof (induction di arbitrary: h ch)
  case (Cons q di)
  obtain h1 r where d: "ctl_discard ctl q h = (h1, r)" by force
  have "view h1 p = view h p" using discard_frame [of p q h] Cons.prems d by simp
  with Cons d show ?case by (cases r) auto
qed simp

lemma reconcile_view:
  assumes "p \<in> set (pathsOf (areas s))"
  shows "view (fst (reconcile ctl cfg dir s h)) p = view h p"
proof (cases "AutoManage cfg \<and> snap_ok s")
  case True
  show ?thesis
  proof (cases "ctl_scan ctl dir h")
    case (Some fs)
    obtain ad di where plan: "planReconcile fs (areas s) cfg = (ad, di)" by force
    have inactive: "q \<in> set ad \<union> set di \<Longrightarrow> q \<noteq> p" for q
      using planReconcile_inactive [OF plan] assms by (auto simp: pathsOf_def)
    obtain h1 di1 ch where ad: "adopt_loop ctl ad h di False = (h1, di1, ch)"
      by (cases "adopt_loop ctl ad h di False") auto
    have "view h1 p = view h p \<and> set di1 \<subseteq> set di \<union> set ad"
      by (rule adopt_loop_view [OF _ ad]) (use inactive in blast)
    moreover from this inactive have "p \<notin> set di1" by blast
    ultimately show ?thesis
      using True Some plan ad by (simp add: reconcile_def discard_loop_view)
  qed (use True in \<open>simp add: reconcile_def\<close>)
qed (auto simp: reconcile_def)

lemma enact_view:
  assumes "dec_action d = Grow \<Longrightarrow> p \<noteq> nextPath (areas s) (swapPrefix dir)"
    and "dec_action d = Shrink \<Longrightarrow> p \<noteq> dec_target d"
  shows "view (enact ctl d s cfg dir h) p = view h p"
proof (cases "dec_action d")
  case Grow
  obtain h1 ok where o: "ctl_open ctl (nextPath (areas s) (swapPrefix dir)) (dec_size d) h = (h1, ok)"
    by force
  have "view h1 p = view h p"
    using open_frame [of p "nextPath (areas s) (swapPrefix dir)" "dec_size d" h] assms(1) Grow o by simp
  with Grow o show ?thesis by (cases ok) (auto simp: enact_def persist_view)
next
  case Shrink
  obtain h1 ok where r: "ctl_remove ctl (dec_target d) h = (h1, ok)" by force
  have "view h1 p = view h p" using remove_frame [of p "dec_target d" h] assms(2) Shrink r by simp
  with Shrink r show ?thesis by (cases ok) (auto simp: enact_def persist_view)
qed (simp add: enact_def)

text \<open>One whole cycle: what is active before it stays as it is, the shrink target apart.\<close>

lemma cycle_view:
  assumes "swap_sync ctl snap cfg dir h = (h1, s)" and "decide s cfg st = (st', d)"
    and "p \<in> set (pathsOf (areas (snap dir h)))" and "p \<in> set (pathsOf (areas s))"
    and "\<And>a. a \<in> set (areas s) \<Longrightarrow> indexOf (area_path a) (swapPrefix dir) < max_int64"
    and "dec_action d = Shrink \<Longrightarrow> p \<noteq> area_path (last (areas s))"
  shows "view (enact ctl d s cfg dir h1) p = view h p"
proof -
  have "view h1 p = view h p"
    using reconcile_view [OF assms(3), of cfg dir h] assms(1)
    by (auto simp: swap_sync_def Let_def persist_view split: prod.splits bool.splits)
  moreover have "p \<noteq> nextPath (areas s) (swapPrefix dir)"
  proof
    assume "p = nextPath (areas s) (swapPrefix dir)"
    moreover from assms(4) obtain a where "a \<in> set (areas s)" "p = area_path a"
      by (auto simp: pathsOf_def)
    moreover have "max_index (areas s) (swapPrefix dir) < max_int64"
      using assms(5) by (rule max_index_less)
    ultimately show False
      using max_index_ge [of a "areas s" "swapPrefix dir"] max_index_nonneg [of "areas s" "swapPrefix dir"]
      by (simp add: nextPath_def wrap64_id parse_int64_itoa)
  qed
  moreover have "p \<noteq> dec_target d" if "dec_action d = Shrink"
    using decide_shrink_target [OF assms(2) that] assms(6) [OF that] by simp
  ultimately show ?thesis by (simp add: enact_view)
qed

end

interpretation noop_ctl: framed_controller noopController view for view :: "'h \<Rightarrow> string \<Rightarrow> 'v"
  by unfold_locales (simp_all add: noopController_def)

end
