(* ===== verification/SwapLinux.thy ===== *)
theory SwapLinux
  imports SwapManager
begin

text \<open>
  \<open>internal/system/swap/swap_linux.go\<close>: the Linux controller, as the sequence of host commands each
  operation issues, with every early return and every clean-up. The operating system is a
  parameter: \<open>os c h\<close> says whether command \<open>c\<close> succeeds in host state \<open>h\<close>, so every pattern of
  failures is covered. \<open>os_effect\<close> is the documented effect of a command that succeeds; a failed
  allocation may leave a partial file behind, modelled as an empty one.
\<close>

section \<open>The host and its commands\<close>

record host =
  h_disk :: "(string \<times> int) list"
  h_active :: "string list"
  h_fstab :: "string option"
  h_backup :: "string option"
  h_tmp :: "string option"

datatype os_cmd =
    MkdirAll string
  | Fallocate string int
  | DdZero string int
  | Chmod string
  | Mkswap string
  | Swapon string
  | Swapoff string
  | Unlink string
  | WriteBackup string
  | WriteTmp string
  | RenameTmp
  | RemoveTmp

definition disk_put :: "string \<Rightarrow> int \<Rightarrow> host \<Rightarrow> host" where
  "disk_put p n h = h\<lparr>h_disk := (p, n) # filter (\<lambda>e. fst e \<noteq> p) (h_disk h)\<rparr>"

fun os_effect :: "os_cmd \<Rightarrow> host \<Rightarrow> host" where
  "os_effect (Fallocate p n) h = disk_put p n h"
| "os_effect (DdZero p n) h = disk_put p (n * mib) h"
| "os_effect (Swapon p) h = h\<lparr>h_active := h_active h @ [p]\<rparr>"
| "os_effect (Swapoff p) h = h\<lparr>h_active := filter (\<lambda>q. q \<noteq> p) (h_active h)\<rparr>"
| "os_effect (Unlink p) h = h\<lparr>h_disk := filter (\<lambda>e. fst e \<noteq> p) (h_disk h)\<rparr>"
| "os_effect (WriteBackup t) h = h\<lparr>h_backup := Some t\<rparr>"
| "os_effect (WriteTmp t) h = h\<lparr>h_tmp := Some t\<rparr>"
| "os_effect RenameTmp h = h\<lparr>h_fstab := h_tmp h, h_tmp := None\<rparr>"
| "os_effect RemoveTmp h = h\<lparr>h_tmp := None\<rparr>"
| "os_effect _ h = h"

fun os_failure :: "os_cmd \<Rightarrow> host \<Rightarrow> host" where
  "os_failure (Fallocate p n) h =
     (if map_of (h_disk h) p = None then disk_put p 0 h else h)"
| "os_failure (DdZero p n) h =
     (if map_of (h_disk h) p = None then disk_put p 0 h else h)"
| "os_failure (WriteTmp t) h = h\<lparr>h_tmp := Some []\<rparr>"
| "os_failure _ h = h"

type_synonym os = "os_cmd \<Rightarrow> host \<Rightarrow> bool"

definition run_cmd :: "os \<Rightarrow> os_cmd \<Rightarrow> host \<Rightarrow> host \<times> bool" where
  "run_cmd os c h = (if os c h then (os_effect c h, True) else (os_failure c h, False))"

section \<open>The controller\<close>

text \<open>\<open>os.Remove\<close>; \<open>IsNotExist\<close> counts as success where the code says so.\<close>

definition unlink_ok :: "os \<Rightarrow> string \<Rightarrow> host \<Rightarrow> host \<times> bool" where
  "unlink_ok os p h = (if map_of (h_disk h) p = None then (h, True) else run_cmd os (Unlink p) h)"

definition drop_partial :: "os \<Rightarrow> string \<Rightarrow> host \<Rightarrow> host \<times> bool" where
  "drop_partial os p h = (fst (unlink_ok os p h), False)"

definition open_format :: "os \<Rightarrow> string \<Rightarrow> host \<Rightarrow> host \<times> bool" where
  "open_format os path h =
     (case run_cmd os (Chmod path) h of
        (h1, False) \<Rightarrow> drop_partial os path h1
      | (h1, True) \<Rightarrow>
         (case run_cmd os (Mkswap path) h1 of
            (h2, False) \<Rightarrow> drop_partial os path h2
          | (h2, True) \<Rightarrow>
             (case run_cmd os (Swapon path) h2 of
                (h3, False) \<Rightarrow> drop_partial os path h3
              | (h3, True) \<Rightarrow> (h3, True))))"

definition linux_open :: "os \<Rightarrow> string \<Rightarrow> int \<Rightarrow> host \<Rightarrow> host \<times> bool" where
  "linux_open os path sz h =
     (case run_cmd os (MkdirAll path) h of
        (h1, False) \<Rightarrow> (h1, False)
      | (h1, True) \<Rightarrow>
         (case run_cmd os (Fallocate path sz) h1 of
            (h2, True) \<Rightarrow> open_format os path h2
          | (h2, False) \<Rightarrow>
             (case run_cmd os (DdZero path (tdiv sz mib)) h2 of
                (h3, False) \<Rightarrow> drop_partial os path h3
              | (h3, True) \<Rightarrow> open_format os path h3)))"

definition linux_remove :: "os \<Rightarrow> string \<Rightarrow> host \<Rightarrow> host \<times> bool" where
  "linux_remove os path h =
     (case run_cmd os (Swapoff path) h of
        (h1, False) \<Rightarrow> (h1, False)
      | (h1, True) \<Rightarrow> unlink_ok os path h1)"

text \<open>A directory entry: a file of the host directly under \<open>dir\<close>, by its name there.\<close>

definition dir_entry :: "string \<Rightarrow> string \<times> int \<Rightarrow> disk_file option" where
  "dir_entry dir e =
     (let root = trim_right dir ''/'' @ ''/'';
          name = trim_prefix (fst e) root
      in if \<not> has_prefix (fst e) root then None
         else (case incrementIndex name of
                 None \<Rightarrow> None
               | Some idx \<Rightarrow>
                   Some \<lparr>df_path = swapPrefix dir @ idx,
                         df_idx = (case atoi idx of Some n \<Rightarrow> n | None \<Rightarrow> 0), df_size = snd e\<rparr>))"

definition linux_scan :: "string \<Rightarrow> host \<Rightarrow> disk_file list option" where
  "linux_scan dir h = Some (List.map_filter (dir_entry dir) (h_disk h))"

definition linux_activate :: "os \<Rightarrow> string \<Rightarrow> host \<Rightarrow> host \<times> bool" where
  "linux_activate os path h =
     (case run_cmd os (Chmod path) h of
        (h1, False) \<Rightarrow> (h1, False)
      | (h1, True) \<Rightarrow>
         (case run_cmd os (Swapon path) h1 of
            (h2, True) \<Rightarrow> (h2, True)
          | (h2, False) \<Rightarrow>
             (case run_cmd os (Mkswap path) h2 of
                (h3, False) \<Rightarrow> (h3, False)
              | (h3, True) \<Rightarrow> run_cmd os (Swapon path) h3)))"

definition linux_discard :: "os \<Rightarrow> string \<Rightarrow> host \<Rightarrow> host \<times> int option" where
  "linux_discard os path h =
     (let sz = (case map_of (h_disk h) path of None \<Rightarrow> 0 | Some n \<Rightarrow> n)
      in case unlink_ok os path h of
           (h1, True) \<Rightarrow> (h1, Some sz)
         | (h1, False) \<Rightarrow> (h1, None))"

definition linux_syncFstab :: "os \<Rightarrow> string list \<Rightarrow> host \<Rightarrow> host \<times> bool" where
  "linux_syncFstab os paths h =
     (case h_fstab h of
        None \<Rightarrow> (h, True)
      | Some raw \<Rightarrow>
          (let updated = updateFstabBlock raw paths
           in if updated = raw then (h, True)
              else (case run_cmd os (WriteBackup raw) h of
                      (h1, False) \<Rightarrow> (h1, False)
                    | (h1, True) \<Rightarrow>
                       (case run_cmd os (WriteTmp updated) h1 of
                          (h2, False) \<Rightarrow> (h2, False)
                        | (h2, True) \<Rightarrow>
                           (case run_cmd os RenameTmp h2 of
                              (h3, True) \<Rightarrow> (h3, True)
                            | (h3, False) \<Rightarrow> (fst (run_cmd os RemoveTmp h3), False))))))"

definition linuxController :: "os \<Rightarrow> host controller" where
  "linuxController os =
     \<lparr>ctl_open = linux_open os, ctl_remove = linux_remove os, ctl_scan = linux_scan,
      ctl_activate = linux_activate os, ctl_discard = linux_discard os,
      ctl_syncFstab = linux_syncFstab os\<rparr>"

section \<open>Framing\<close>

text \<open>What is observed of a path: the size of its file, and whether it is an active swap area.\<close>

definition path_view :: "host \<Rightarrow> string \<Rightarrow> int option \<times> bool" where
  "path_view h p = (map_of (h_disk h) p, p \<in> set (h_active h))"

fun touches :: "os_cmd \<Rightarrow> string set" where
  "touches (Fallocate p n) = {p}"
| "touches (DdZero p n) = {p}"
| "touches (Swapon p) = {p}"
| "touches (Swapoff p) = {p}"
| "touches (Unlink p) = {p}"
| "touches _ = {}"

lemma map_of_filter_other: "p \<noteq> q \<Longrightarrow> map_of (filter (\<lambda>e. fst e \<noteq> q) xs) p = map_of xs p"
  by (induction xs) auto

lemma map_of_filter_same [simp]: "map_of (filter (\<lambda>e. fst e \<noteq> p) xs) p = None"
  by (induction xs) auto

lemma run_cmd_view: "p \<notin> touches c \<Longrightarrow> path_view (fst (run_cmd os c h)) p = path_view h p"
  by (cases c) (auto simp: run_cmd_def path_view_def disk_put_def map_of_filter_other)

lemma unlink_view: "p \<noteq> q \<Longrightarrow> path_view (fst (unlink_ok os q h)) p = path_view h p"
  using run_cmd_view [of p "Unlink q" os h] by (simp add: unlink_ok_def)

lemma run_cmd_viewD:
  "run_cmd os c h = (h', ok) \<Longrightarrow> p \<notin> touches c \<Longrightarrow> path_view h' p = path_view h p"
  using run_cmd_view [of p c os h] by simp

lemma drop_partial_view: "p \<noteq> q \<Longrightarrow> path_view (fst (drop_partial os q h)) p = path_view h p"
  by (simp add: drop_partial_def unlink_view)

lemma open_format_view: "p \<noteq> q \<Longrightarrow> path_view (fst (open_format os q h)) p = path_view h p"
  by (auto simp: open_format_def drop_partial_view split: prod.splits bool.splits
      dest!: run_cmd_viewD [where p = p])

interpretation linux_ctl: framed_controller "linuxController os" path_view for os
proof
  fix p q :: string and n :: int and h :: host and qs :: "string list"
  {
    assume ne: "p \<noteq> q"
    show "path_view (fst (ctl_open (linuxController os) q n h)) p = path_view h p"
      using ne by (auto simp: linuxController_def linux_open_def drop_partial_view open_format_view
          split: prod.splits bool.splits dest!: run_cmd_viewD [where p = p])
    show "path_view (fst (ctl_remove (linuxController os) q h)) p = path_view h p"
      using ne by (auto simp: linuxController_def linux_remove_def unlink_view
          split: prod.splits bool.splits dest!: run_cmd_viewD [where p = p])
    show "path_view (fst (ctl_activate (linuxController os) q h)) p = path_view h p"
      using ne by (auto simp: linuxController_def linux_activate_def run_cmd_view
          split: prod.splits bool.splits dest!: run_cmd_viewD [where p = p])
    show "path_view (fst (ctl_discard (linuxController os) q h)) p = path_view h p"
      using ne unlink_view [of p q os h] by (auto simp: linuxController_def linux_discard_def Let_def
          split: prod.splits bool.splits)
  }
  show "path_view (fst (ctl_syncFstab (linuxController os) qs h)) p = path_view h p"
    by (auto simp: linuxController_def linux_syncFstab_def Let_def run_cmd_view
        split: prod.splits bool.splits option.splits dest!: run_cmd_viewD [where p = p])
qed

text \<open>
  C10. One whole cycle on Linux, whatever commands fail: a swapfile that is live when the cycle starts
  and still live when it decides keeps its file and stays an active swap area, unless it is the top
  increment of a shrink decision. Reconciling, growing and editing fstab never touch it.
\<close>

theorem cycle_keeps_live_swap:
  assumes "swap_sync (linuxController os) snap cfg dir h = (h1, s)" and "decide s cfg st = (st', d)"
    and "p \<in> set (pathsOf (areas (snap dir h)))" and "p \<in> set (pathsOf (areas s))"
    and "\<And>a. a \<in> set (areas s) \<Longrightarrow> indexOf (area_path a) (swapPrefix dir) < max_int64"
    and "dec_action d = Shrink \<Longrightarrow> p \<noteq> area_path (last (areas s))"
  shows "path_view (enact (linuxController os) d s cfg dir h1) p = path_view h p"
  using assms by (rule linux_ctl.cycle_view)

text \<open>A host with one live increment and one that the last boot left behind, and a reader of it.\<close>

definition demo_host :: host where
  "demo_host = \<lparr>h_disk = [(''/s/swapfile.odac.1'', 4 * gib), (''/s/swapfile.odac.2'', 4 * gib)],
     h_active = [''/s/swapfile.odac.1''], h_fstab = Some ''/dev/sda1 / ext4'', h_backup = None,
     h_tmp = None\<rparr>"

definition demo_snap :: "string \<Rightarrow> host \<Rightarrow> snapshot" where
  "demo_snap dir h = host_idle\<lparr>areas := map (\<lambda>p. \<lparr>area_path = p, area_size = 4 * gib, area_used = 0\<rparr>)
     (h_active h)\<rparr>"

abbreviation os_fine :: os where "os_fine \<equiv> \<lambda>c h. True"

theorem cycle_keeps_live_swap_witness:
  "path_view (fst (swap_sync (linuxController os_fine) demo_snap default_config ''/s'' demo_host))
     ''/s/swapfile.odac.1'' = (Some (4 * gib), True)"
proof -
  let ?r = "swap_sync (linuxController os_fine) demo_snap default_config ''/s'' demo_host"
  let ?d = "decide (snd ?r) default_config fresh_counters"
  have r: "?r = (fst ?r, snd ?r)" and d: "?d = (fst ?d, snd ?d)" by simp_all
  have hold: "dec_action (snd ?d) = Hold" by code_simp
  have p1: "''/s/swapfile.odac.1'' \<in> set (pathsOf (areas (demo_snap ''/s'' demo_host)))"
    by (simp add: demo_snap_def demo_host_def pathsOf_def)
  have paths: "pathsOf (areas (snd ?r)) = [''/s/swapfile.odac.1'', ''/s/swapfile.odac.2'']" by code_simp
  have "list_all (\<lambda>a. indexOf (area_path a) (swapPrefix ''/s'') < max_int64) (areas (snd ?r))"
    by code_simp
  then have idx: "a \<in> set (areas (snd ?r)) \<Longrightarrow> indexOf (area_path a) (swapPrefix ''/s'') < max_int64" for a
    by (simp add: list_all_iff)
  have "path_view (enact (linuxController os_fine) (snd ?d) (snd ?r) default_config ''/s'' (fst ?r))
      ''/s/swapfile.odac.1'' = path_view demo_host ''/s/swapfile.odac.1''"
    by (rule cycle_keeps_live_swap [OF r d p1 _ idx]) (simp_all add: paths hold)
  then show ?thesis by (simp add: enact_def hold) (simp add: path_view_def demo_host_def)
qed

section \<open>Opening and fstab are all or nothing\<close>

definition unlink_works :: "os \<Rightarrow> string \<Rightarrow> bool" where
  "unlink_works os p \<longleftrightarrow> (\<forall>h. os (Unlink p) h)"

lemma drop_partial_gone:
  "unlink_works os p \<Longrightarrow> drop_partial os p h = (h', ok) \<Longrightarrow>
     \<not> ok \<and> map_of (h_disk h') p = None \<and> h_active h' = h_active h"
  by (auto simp: drop_partial_def unlink_ok_def run_cmd_def unlink_works_def split: if_splits)

lemma open_format_result:
  assumes "unlink_works os p" and "open_format os p h = (h', ok)"
  shows "if ok then h_disk h' = h_disk h \<and> h_active h' = h_active h @ [p]
    else map_of (h_disk h') p = None \<and> h_active h' = h_active h"
  using assms(2) by (auto simp: open_format_def run_cmd_def split: if_splits
      dest!: drop_partial_gone [OF assms(1)])

text \<open>
  Provisioning an increment is all or nothing: on success the file has its size on disk and is
  an active swap area; on any failure (allocation with its fallback, permissions, format,
  activation) no partial file is left behind and the active areas are what they were.
\<close>

theorem linux_open_all_or_nothing:
  assumes "unlink_works os p" and "map_of (h_disk h) p = None"
    and "linux_open os p sz h = (h', ok)"
  shows "if ok then (map_of (h_disk h') p = Some sz \<or> map_of (h_disk h') p = Some (tdiv sz mib * mib))
        \<and> h_active h' = h_active h @ [p]
    else map_of (h_disk h') p = None \<and> h_active h' = h_active h"
  using assms(2,3)
  by (auto simp: linux_open_def run_cmd_def disk_put_def split: if_splits
      dest!: drop_partial_gone [OF assms(1)] open_format_result [OF assms(1)])

theorem linux_open_all_or_nothing_witness:
  "map_of (h_disk (fst (linux_open (\<lambda>c h. c \<noteq> Swapon ''/s/swapfile.odac.3'') ''/s/swapfile.odac.3'' gib demo_host)))
     ''/s/swapfile.odac.3'' = None"
proof -
  let ?os = "\<lambda>c (h :: host). c \<noteq> Swapon ''/s/swapfile.odac.3''"
  let ?r = "linux_open ?os ''/s/swapfile.odac.3'' gib demo_host"
  have "map_of (h_disk demo_host) ''/s/swapfile.odac.3'' = None" by (simp add: demo_host_def)
  moreover have "?r = (fst ?r, snd ?r)" by simp
  moreover have "\<not> snd ?r" by code_simp
  moreover have "unlink_works ?os ''/s/swapfile.odac.3''" by (simp add: unlink_works_def)
  ultimately show ?thesis
    using linux_open_all_or_nothing [of ?os "''/s/swapfile.odac.3''" demo_host gib "fst ?r" "snd ?r"]
    by simp
qed

text \<open>
  \<open>syncFstab\<close> never leaves a half-written fstab: whatever fails, \<open>/etc/fstab\<close> holds either the
  text from before or the complete updated text, and when the call succeeds it holds the latter.
\<close>

theorem linux_syncFstab_atomic:
  assumes "h_fstab h = Some raw" and "linux_syncFstab os ps h = (h', ok)"
  shows "h_fstab h' \<in> {Some raw, Some (updateFstabBlock raw ps)}
    \<and> (ok \<longrightarrow> h_fstab h' = Some (updateFstabBlock raw ps))"
  using assms by (auto simp: linux_syncFstab_def run_cmd_def Let_def split: if_splits)

theorem linux_syncFstab_atomic_witness:
  "h_fstab (fst (linux_syncFstab (\<lambda>c h. c \<noteq> RenameTmp) [''/s/swapfile.odac.1''] demo_host))
     = Some ''/dev/sda1 / ext4''"
proof -
  let ?r = "linux_syncFstab (\<lambda>c h. c \<noteq> RenameTmp) [''/s/swapfile.odac.1''] demo_host"
  have "h_fstab demo_host = Some ''/dev/sda1 / ext4''" by (simp add: demo_host_def)
  moreover have "?r = (fst ?r, snd ?r)" by simp
  ultimately have "h_fstab (fst ?r) \<in> {Some ''/dev/sda1 / ext4'',
      Some (updateFstabBlock ''/dev/sda1 / ext4'' [''/s/swapfile.odac.1''])}"
    using linux_syncFstab_atomic by blast
  moreover have "h_fstab (fst ?r) \<noteq> Some (updateFstabBlock ''/dev/sda1 / ext4'' [''/s/swapfile.odac.1''])"
    by code_simp
  ultimately show ?thesis by blast
qed

end
