(* ===== verification/Counting.thy ===== *)
theory Counting
  imports Runs
begin

text \<open>
  Two contracts that several protection components share.

  \<^item> Counter maps (\<open>map[K]int\<close> where a key at zero is deleted): the mail connection limiter keeps
    three of them, the HTTP firewall one. \<open>counts\<close> relates such a map to the multiset of live
    holders it is meant to count.
  \<^item> Fixed-window rate limits (a count and the start of the window per client): the DNS rate
    limiter and the HTTP firewall. The locale \<open>window_gate\<close> states what an event does to a client's
    record and when it is let through; in it, of the hits of one window exactly the first \<open>limit\<close>
    pass, whatever the other clients do in between.
\<close>

section \<open>Counter maps\<close>

type_synonym 'k cmap = "'k \<Rightarrow> int option"

text \<open>Reading \<open>m[k]\<close> (0 when absent), \<open>m[k]++\<close>, and the decrement that deletes at zero.\<close>

definition cget :: "'k cmap \<Rightarrow> 'k \<Rightarrow> int" where
  "cget m k = (case m k of None \<Rightarrow> 0 | Some n \<Rightarrow> n)"

definition cinc :: "'k cmap \<Rightarrow> 'k \<Rightarrow> 'k cmap" where
  "cinc m k = m(k \<mapsto> cget m k + 1)"

definition cdec :: "'k cmap \<Rightarrow> 'k \<Rightarrow> 'k cmap" where
  "cdec m k = (let n = cget m k - 1 in if n \<le> 0 then m(k := None) else m(k \<mapsto> n))"

definition counts :: "'k cmap \<Rightarrow> 'k multiset \<Rightarrow> bool" where
  "counts m M \<longleftrightarrow> (\<forall>k. m k = (if k \<in># M then Some (int (count M k)) else None))"

named_theorems counting "preservation of the counting relation"

lemma counts_empty [counting]: "counts Map.empty {#}"
  by (simp add: counts_def)

lemma counts_cget: "counts m M \<Longrightarrow> cget m k = int (count M k)"
  by (auto simp: counts_def cget_def not_in_iff)

lemma counts_cinc [counting]: "counts m M \<Longrightarrow> counts (cinc m k) (add_mset k M)"
  using counts_cget [of m M k] by (auto simp: counts_def cinc_def)

lemma counts_cdec [counting]: "counts m M \<Longrightarrow> k \<in># M \<Longrightarrow> counts (cdec m k) (M - {#k#})"
proof -
  assume c: "counts m M" and k: "k \<in># M"
  then obtain n where n: "count M k = Suc n" by (metis count_greater_zero_iff gr0_implies_Suc)
  have "cget m k - 1 = int n" using counts_cget [OF c, of k] n by simp
  with c n show ?thesis
    by (cases n) (auto simp: counts_def cdec_def Let_def in_diff_count)
qed

lemma counts_cdec_image [counting]:
  assumes "counts m (image_mset f M)" and "x \<in># M"
  shows "counts (cdec m (f x)) (image_mset f (M - {#x#}))"
proof -
  have "image_mset f (M - {#x#}) = image_mset f M - {#f x#}"
    using assms(2) by (simp add: image_mset_Diff)
  with counts_cdec [OF assms(1), of "f x"] assms(2) show ?thesis by simp
qed

lemma counts_dom: "counts m M \<Longrightarrow> dom m = set_mset M"
  by (auto simp: counts_def dom_def split: if_splits)

section \<open>Fixed windows\<close>

text \<open>
  A step of a server on an event: \<open>client\<close> is who is counted for it (nobody for a sweep or an exempt
  request), \<open>instant\<close> its time, \<open>passed\<close> whether its output lets the event through; \<open>fits\<close> is what the
  contract needs of the state (the configured window and limit, room in the table).
\<close>

locale window_gate =
  fixes step :: "'e \<Rightarrow> 's \<Rightarrow> 's \<times> 'o"
    and client :: "'e \<Rightarrow> 'k option"
    and instant :: "'e \<Rightarrow> int"
    and passed :: "'o \<Rightarrow> bool"
    and rec_of :: "'s \<Rightarrow> 'k \<Rightarrow> (int \<times> int) option"
    and fits :: "'s \<Rightarrow> bool"
    and window :: int
    and limit :: int
  assumes hit_new: "fits s \<Longrightarrow> client e = Some k \<Longrightarrow> rec_of s k = None \<Longrightarrow>
      rec_of (fst (step e s)) k = Some (1, instant e) \<and> (passed (snd (step e s)) \<longleftrightarrow> 1 \<le> limit)"
    and hit_expired: "fits s \<Longrightarrow> client e = Some k \<Longrightarrow> rec_of s k = Some (c, t) \<Longrightarrow>
      window < instant e - t \<Longrightarrow>
      rec_of (fst (step e s)) k = Some (1, instant e) \<and> (passed (snd (step e s)) \<longleftrightarrow> 1 \<le> limit)"
    and hit_within: "fits s \<Longrightarrow> client e = Some k \<Longrightarrow> rec_of s k = Some (c, t) \<Longrightarrow>
      instant e - t \<le> window \<Longrightarrow>
      rec_of (fst (step e s)) k = Some (c + 1, t) \<and> (passed (snd (step e s)) \<longleftrightarrow> c + 1 \<le> limit)"
    and other_new: "fits s \<Longrightarrow> client e \<noteq> Some k \<Longrightarrow> rec_of s k = None \<Longrightarrow>
      rec_of (fst (step e s)) k = None"
    and other_within: "fits s \<Longrightarrow> client e \<noteq> Some k \<Longrightarrow> rec_of s k = Some (c, t) \<Longrightarrow>
      instant e - t \<le> window \<Longrightarrow> rec_of (fst (step e s)) k = Some (c, t)"
begin

text \<open>Every state in which something happens fits.\<close>

fun fitting :: "'e list \<Rightarrow> 's \<Rightarrow> bool" where
  "fitting [] s \<longleftrightarrow> True"
| "fitting (e # es) s \<longleftrightarrow> fits s \<and> fitting es (fst (step e s))"

definition hits_of :: "'k \<Rightarrow> 'e list \<Rightarrow> nat" where
  "hits_of k es = length (filter (\<lambda>e. client e = Some k) es)"

definition passed_of :: "'k \<Rightarrow> 'e list \<Rightarrow> 's \<Rightarrow> nat" where
  "passed_of k es s =
     length (filter (\<lambda>p. client (fst p) = Some k \<and> passed (snd p)) (zip es (snd (run_steps step es s))))"

lemma hits_of_simps [simp]:
  "hits_of k [] = 0"
  "hits_of k (e # es) = (if client e = Some k then Suc (hits_of k es) else hits_of k es)"
  by (simp_all add: hits_of_def)

lemma passed_of_simps [simp]:
  "passed_of k [] s = 0"
  "passed_of k (e # es) s =
     (if client e = Some k \<and> passed (snd (step e s)) then 1 else 0) + passed_of k es (fst (step e s))"
  by (simp_all add: passed_of_def split_def)

lemma passed_within:
  assumes "fitting es s" and "rec_of s k = Some (c, t)"
    and "\<And>e. e \<in> set es \<Longrightarrow> instant e - t \<le> window"
  shows "passed_of k es s = min (nat (limit - c)) (hits_of k es)"
  using assms
proof (induction es arbitrary: s c)
  case (Cons e es)
  let ?s = "fst (step e s)"
  show ?case
  proof (cases "client e = Some k")
    case True
    have h: "rec_of ?s k = Some (c + 1, t)" "passed (snd (step e s)) \<longleftrightarrow> c + 1 \<le> limit"
      using hit_within [of s e k c t] Cons.prems True by auto
    have "passed_of k es ?s = min (nat (limit - (c + 1))) (hits_of k es)"
      using Cons.IH [of ?s "c + 1"] Cons.prems h(1) by simp
    with True h(2) show ?thesis by auto
  next
    case False
    with other_within [OF _ False, of s c t] Cons.prems Cons.IH [of ?s c] show ?thesis by simp
  qed
qed simp

text \<open>
  From a client without a record, in one window: the number that passes is the lesser of the limit
  and the number of hits.
\<close>

lemma passed_in_window:
  assumes "fitting es s" and "rec_of s k = None"
    and "\<And>e e'. e \<in> set es \<Longrightarrow> e' \<in> set es \<Longrightarrow> instant e - instant e' \<le> window"
  shows "passed_of k es s = min (nat limit) (hits_of k es)"
  using assms
proof (induction es arbitrary: s)
  case (Cons e es)
  let ?s = "fst (step e s)"
  show ?case
  proof (cases "client e = Some k")
    case True
    have h: "rec_of ?s k = Some (1, instant e)" "passed (snd (step e s)) \<longleftrightarrow> 1 \<le> limit"
      using hit_new [of s e k] Cons.prems True by auto
    have "passed_of k es ?s = min (nat (limit - 1)) (hits_of k es)"
      using passed_within [of es ?s k 1 "instant e"] Cons.prems h(1) by simp
    with True h(2) show ?thesis by auto
  next
    case False
    with other_new [OF _ False, of s] Cons.prems Cons.IH [of ?s] show ?thesis by simp
  qed
qed simp

lemma fitting_invariant:
  assumes "I s" and "\<And>s e. I s \<Longrightarrow> fits s \<and> I (fst (step e s))"
  shows "fitting es s"
  using assms(1) by (induction es arbitrary: s) (use assms(2) in auto)

end

end
