(* ===== verification/ConnLimits.thy ===== *)
theory ConnLimits
  imports Counting
begin

text \<open>
  \<open>internal/mail/limits/limiter.go\<close>: the hierarchical connection limiter of the IMAP and SMTP
  servers. The token bucket is \<open>golang.org/x/time/rate\<close>, which is not in this repository: a bucket
  is a value of type \<open>'b\<close>, with its constructor and its \<open>Allow\<close> as parameters. Go iterates a map
  in no particular order, so the order in which the rate map is pruned is a parameter too.

  Every method holds the limiter's mutex, so a run is a sequence of whole operations.
\<close>

section \<open>Data\<close>

record profile =
  MaxPerUserIP :: int
  MaxPerUser :: int
  MaxPerIP :: int
  MaxTotal :: int
  NewConnPerIP :: rat
  NewConnBurst :: int

definition IMAPProfile :: profile where
  "IMAPProfile = \<lparr>MaxPerUserIP = 20, MaxPerUser = 50, MaxPerIP = 500, MaxTotal = 10000,
     NewConnPerIP = 10, NewConnBurst = 20\<rparr>"

definition SMTPSubmissionProfile :: profile where
  "SMTPSubmissionProfile = \<lparr>MaxPerUserIP = 20, MaxPerUser = 50, MaxPerIP = 500, MaxTotal = 10000,
     NewConnPerIP = 10, NewConnBurst = 20\<rparr>"

definition SMTPInboundProfile :: profile where
  "SMTPInboundProfile = \<lparr>MaxPerUserIP = 0, MaxPerUser = 0, MaxPerIP = 200, MaxTotal = 10000,
     NewConnPerIP = 5, NewConnBurst = 10\<rparr>"

record 'b limiter =
  lim_profile :: profile
  lim_total :: int
  lim_perIP :: "string cmap"
  lim_perUser :: "string cmap"
  lim_perUserIP :: "(string \<times> string) cmap"
  lim_rates :: "(string \<times> 'b) list"

definition new_limiter :: "profile \<Rightarrow> 'b limiter" where
  "new_limiter p = \<lparr>lim_profile = p, lim_total = 0, lim_perIP = Map.empty, lim_perUser = Map.empty,
     lim_perUserIP = Map.empty, lim_rates = []\<rparr>"

datatype reason = ReasonOK | ReasonRate | ReasonPerIP | ReasonTotal | ReasonPerUser | ReasonPerUserIP

fun reason_string :: "reason \<Rightarrow> string" where
  "reason_string ReasonRate = ''new-connection rate exceeded''"
| "reason_string ReasonPerIP = ''per-IP connection limit exceeded''"
| "reason_string ReasonTotal = ''global connection limit exceeded''"
| "reason_string ReasonPerUser = ''per-user connection limit exceeded''"
| "reason_string ReasonPerUserIP = ''per-(user,IP) connection limit exceeded''"
| "reason_string ReasonOK = ''ok''"

record handle =
  hd_ip :: string
  hd_user :: string
  hd_closed :: bool

section \<open>The new-connection rate\<close>

text \<open>\<open>rate.NewLimiter\<close>, \<open>Allow\<close> at a time, and the order of the pruning loop.\<close>

record 'b bucket_ops =
  bk_new :: "rat \<Rightarrow> int \<Rightarrow> 'b"
  bk_allow :: "int \<Rightarrow> 'b \<Rightarrow> 'b \<times> bool"
  bk_order :: "string list \<Rightarrow> string list"

fun prune_loop :: "nat \<Rightarrow> string list \<Rightarrow> (string \<times> 'b) list \<Rightarrow> (string \<times> 'b) list" where
  "prune_loop keep [] rs = rs"
| "prune_loop keep (k # ks) rs =
     (let rs1 = filter (\<lambda>e. fst e \<noteq> k) rs
      in if length rs1 \<le> keep then rs1 else prune_loop keep ks rs1)"

definition put_rate :: "string \<Rightarrow> 'b \<Rightarrow> (string \<times> 'b) list \<Rightarrow> (string \<times> 'b) list" where
  "put_rate k b rs = map (\<lambda>e. if fst e = k then (k, b) else e) rs"

text \<open>
  \<open>Allow\<close> runs on the bucket after the mutex is released; it updates the bucket in the map when the
  pruning has not just dropped it.
\<close>

definition allowRate :: "'b bucket_ops \<Rightarrow> int \<Rightarrow> string \<Rightarrow> 'b limiter \<Rightarrow> 'b limiter \<times> bool" where
  "allowRate ops now ip l =
     (if NewConnPerIP (lim_profile l) \<le> 0 then (l, True)
      else
        let (b, rates) =
              (case map_of (lim_rates l) ip of
                 Some b \<Rightarrow> (b, lim_rates l)
               | None \<Rightarrow>
                   (let b = bk_new ops (NewConnPerIP (lim_profile l)) (NewConnBurst (lim_profile l));
                        rs = lim_rates l @ [(ip, b)]
                    in (b, if length rs > 65536
                           then prune_loop 32768 (bk_order ops (map fst rs)) rs else rs)));
            (b', ok) = bk_allow ops now b
        in (l\<lparr>lim_rates := put_rate ip b' rates\<rparr>, ok))"

section \<open>Acquire, BindUser, Release\<close>

definition acquire ::
  "'b bucket_ops \<Rightarrow> int \<Rightarrow> string \<Rightarrow> 'b limiter \<Rightarrow> 'b limiter \<times> handle option \<times> reason" where
  "acquire ops now ip l0 =
     (case allowRate ops now ip l0 of
        (l, False) \<Rightarrow> (l, None, ReasonRate)
      | (l, True) \<Rightarrow>
          if MaxTotal (lim_profile l) > 0 \<and> lim_total l \<ge> MaxTotal (lim_profile l)
          then (l, None, ReasonTotal)
          else if MaxPerIP (lim_profile l) > 0 \<and> cget (lim_perIP l) ip \<ge> MaxPerIP (lim_profile l)
          then (l, None, ReasonPerIP)
          else (l\<lparr>lim_total := lim_total l + 1, lim_perIP := cinc (lim_perIP l) ip\<rparr>,
                Some \<lparr>hd_ip = ip, hd_user = [], hd_closed = False\<rparr>, ReasonOK))"

text \<open>The receiver may be nil: \<^const>\<open>None\<close>.\<close>

definition bindUser ::
  "handle option \<Rightarrow> string \<Rightarrow> 'b limiter \<Rightarrow> 'b limiter \<times> handle option \<times> reason" where
  "bindUser ho user l =
     (case ho of
        None \<Rightarrow> (l, None, ReasonOK)
      | Some h \<Rightarrow>
          if hd_closed h \<or> user = [] then (l, Some h, ReasonOK)
          else let key = (user, hd_ip h) in
            if MaxPerUser (lim_profile l) > 0 \<and> cget (lim_perUser l) user \<ge> MaxPerUser (lim_profile l)
            then (l, Some h, ReasonPerUser)
            else if MaxPerUserIP (lim_profile l) > 0
                    \<and> cget (lim_perUserIP l) key \<ge> MaxPerUserIP (lim_profile l)
            then (l, Some h, ReasonPerUserIP)
            else (l\<lparr>lim_perUser := cinc (lim_perUser l) user,
                    lim_perUserIP := cinc (lim_perUserIP l) key\<rparr>,
                  Some (h\<lparr>hd_user := user\<rparr>), ReasonOK))"

definition release :: "handle option \<Rightarrow> 'b limiter \<Rightarrow> 'b limiter \<times> handle option" where
  "release ho l =
     (case ho of
        None \<Rightarrow> (l, None)
      | Some h \<Rightarrow>
          if hd_closed h then (l, Some h)
          else
            let t = lim_total l - 1;
                l1 = l\<lparr>lim_total := (if t < 0 then 0 else t), lim_perIP := cdec (lim_perIP l) (hd_ip h)\<rparr>;
                l2 = (if hd_user h \<noteq> []
                      then l1\<lparr>lim_perUser := cdec (lim_perUser l1) (hd_user h),
                              lim_perUserIP := cdec (lim_perUserIP l1) (hd_user h, hd_ip h)\<rparr>
                      else l1)
            in (l2, Some (h\<lparr>hd_closed := True\<rparr>)))"

definition snapshot_of :: "'b limiter \<Rightarrow> int \<times> nat \<times> nat" where
  "snapshot_of l = (lim_total l, card (dom (lim_perIP l)), card (dom (lim_perUser l)))"

section \<open>The connections of a server\<close>

text \<open>
  The handles a server has been given, in the order it accepted them. A step is one call: an
  arrival, a successful authentication (bound once per handle, as the contract of \<open>BindUser\<close> asks),
  a close. Releasing twice is a step too.
\<close>

record 'b conns =
  cn_lim :: "'b limiter"
  cn_handles :: "handle list"

inductive conn_step :: "'b bucket_ops \<Rightarrow> 'b conns \<Rightarrow> 'b conns \<Rightarrow> bool" for ops where
  accept: "acquire ops now ip (cn_lim s) = (l, Some h, r) \<Longrightarrow>
     conn_step ops s \<lparr>cn_lim = l, cn_handles = cn_handles s @ [h]\<rparr>"
| reject: "acquire ops now ip (cn_lim s) = (l, None, r) \<Longrightarrow>
     conn_step ops s (s\<lparr>cn_lim := l\<rparr>)"
| bind: "i < length (cn_handles s) \<Longrightarrow> hd_user (cn_handles s ! i) = [] \<Longrightarrow>
     bindUser (Some (cn_handles s ! i)) user (cn_lim s) = (l, Some h, r) \<Longrightarrow>
     conn_step ops s \<lparr>cn_lim = l, cn_handles = (cn_handles s)[i := h]\<rparr>"
| close: "i < length (cn_handles s) \<Longrightarrow>
     release (Some (cn_handles s ! i)) (cn_lim s) = (l, Some h) \<Longrightarrow>
     conn_step ops s \<lparr>cn_lim = l, cn_handles = (cn_handles s)[i := h]\<rparr>"

inductive conn_reachable :: "'b bucket_ops \<Rightarrow> profile \<Rightarrow> 'b conns \<Rightarrow> bool" for ops p where
  start: "conn_reachable ops p \<lparr>cn_lim = new_limiter p, cn_handles = []\<rparr>"
| step: "conn_reachable ops p s \<Longrightarrow> conn_step ops s t \<Longrightarrow> conn_reachable ops p t"

inductive_cases conn_stepE: "conn_step ops s t"

text \<open>The live handles, and those that carry a user.\<close>

definition live :: "handle list \<Rightarrow> handle multiset" where
  "live hs = filter_mset (\<lambda>h. \<not> hd_closed h) (mset hs)"

definition bound :: "handle list \<Rightarrow> handle multiset" where
  "bound hs = filter_mset (\<lambda>h. hd_user h \<noteq> []) (live hs)"

text \<open>Each counter counts exactly the live handles it is about, and no cap is exceeded.\<close>

definition counts_live :: "'b conns \<Rightarrow> bool" where
  "counts_live s \<longleftrightarrow>
     lim_total (cn_lim s) = int (size (live (cn_handles s)))
     \<and> counts (lim_perIP (cn_lim s)) (image_mset hd_ip (live (cn_handles s)))
     \<and> counts (lim_perUser (cn_lim s)) (image_mset hd_user (bound (cn_handles s)))
     \<and> counts (lim_perUserIP (cn_lim s))
         (image_mset (\<lambda>h. (hd_user h, hd_ip h)) (bound (cn_handles s)))"

definition within_caps :: "profile \<Rightarrow> 'b limiter \<Rightarrow> bool" where
  "within_caps p l \<longleftrightarrow>
     lim_profile l = p
     \<and> (MaxTotal p > 0 \<longrightarrow> lim_total l \<le> MaxTotal p)
     \<and> (MaxPerIP p > 0 \<longrightarrow> (\<forall>ip. cget (lim_perIP l) ip \<le> MaxPerIP p))
     \<and> (MaxPerUser p > 0 \<longrightarrow> (\<forall>u. cget (lim_perUser l) u \<le> MaxPerUser p))
     \<and> (MaxPerUserIP p > 0 \<longrightarrow> (\<forall>k. cget (lim_perUserIP l) k \<le> MaxPerUserIP p))"

section \<open>Exact counters\<close>

lemma allowRate_frame:
  "allowRate ops now ip l = (l', ok) \<Longrightarrow>
     lim_profile l' = lim_profile l \<and> lim_total l' = lim_total l \<and> lim_perIP l' = lim_perIP l
     \<and> lim_perUser l' = lim_perUser l \<and> lim_perUserIP l' = lim_perUserIP l"
  by (auto simp: allowRate_def Let_def split: if_splits prod.splits)

lemma acquire_None:
  "acquire ops now ip l = (l', None, r) \<Longrightarrow>
     lim_profile l' = lim_profile l \<and> lim_total l' = lim_total l \<and> lim_perIP l' = lim_perIP l
     \<and> lim_perUser l' = lim_perUser l \<and> lim_perUserIP l' = lim_perUserIP l \<and> r \<noteq> ReasonOK"
  by (auto simp: acquire_def dest!: allowRate_frame split: prod.splits bool.splits if_splits)

lemma acquire_Some:
  "acquire ops now ip l = (l', Some h, r) \<Longrightarrow>
     h = \<lparr>hd_ip = ip, hd_user = [], hd_closed = False\<rparr> \<and> r = ReasonOK
     \<and> lim_profile l' = lim_profile l \<and> lim_total l' = lim_total l + 1
     \<and> lim_perIP l' = cinc (lim_perIP l) ip
     \<and> lim_perUser l' = lim_perUser l \<and> lim_perUserIP l' = lim_perUserIP l
     \<and> (MaxTotal (lim_profile l) > 0 \<longrightarrow> lim_total l < MaxTotal (lim_profile l))
     \<and> (MaxPerIP (lim_profile l) > 0 \<longrightarrow> cget (lim_perIP l) ip < MaxPerIP (lim_profile l))"
  by (auto simp: acquire_def dest!: allowRate_frame split: prod.splits bool.splits if_splits)

lemma live_snoc: "live (hs @ [h]) = (if hd_closed h then live hs else add_mset h (live hs))"
  by (simp add: live_def)

lemma mset_update_nth:
  "i < length xs \<Longrightarrow> mset (xs[i := y]) = add_mset y (mset xs - {#xs ! i#})"
  by (rule mset_update)

lemma live_update:
  "i < length hs \<Longrightarrow> live (hs[i := h]) =
     (if hd_closed h then {#} else {#h#})
       + (live hs - (if hd_closed (hs ! i) then {#} else {#hs ! i#}))"
  by (auto simp: live_def mset_update_nth)

lemma nth_live: "i < length hs \<Longrightarrow> \<not> hd_closed (hs ! i) \<Longrightarrow> hs ! i \<in># live hs"
  by (simp add: live_def)

lemma counts_live_accept:
  assumes "counts_live s" and "acquire ops now ip (cn_lim s) = (l, Some h, r)"
  shows "counts_live \<lparr>cn_lim = l, cn_handles = cn_handles s @ [h]\<rparr>"
  using acquire_Some [OF assms(2)] assms(1)
  by (auto simp: counts_live_def live_snoc bound_def intro: counting)

lemma bindUser_Some:
  "bindUser (Some h0) user l = (l', Some h, r) \<Longrightarrow>
     l' = l \<and> h = h0
     \<or> \<not> hd_closed h0 \<and> user \<noteq> [] \<and> h = h0\<lparr>hd_user := user\<rparr>
       \<and> l' = l\<lparr>lim_perUser := cinc (lim_perUser l) user,
              lim_perUserIP := cinc (lim_perUserIP l) (user, hd_ip h0)\<rparr>"
  by (auto simp: bindUser_def Let_def split: if_splits)

lemma release_Some:
  "release (Some h0) l = (l', Some h) \<Longrightarrow>
     (if hd_closed h0 then l' = l \<and> h = h0
      else h = h0\<lparr>hd_closed := True\<rparr>
        \<and> lim_profile l' = lim_profile l
        \<and> lim_total l' = max 0 (lim_total l - 1)
        \<and> lim_perIP l' = cdec (lim_perIP l) (hd_ip h0)
        \<and> lim_perUser l' = (if hd_user h0 \<noteq> [] then cdec (lim_perUser l) (hd_user h0) else lim_perUser l)
        \<and> lim_perUserIP l' = (if hd_user h0 \<noteq> [] then cdec (lim_perUserIP l) (hd_user h0, hd_ip h0)
             else lim_perUserIP l))"
  by (auto simp: release_def Let_def split: if_splits)

lemma counts_live_bind:
  assumes "counts_live s" and i: "i < length (cn_handles s)" and "hd_user (cn_handles s ! i) = []"
    and b: "bindUser (Some (cn_handles s ! i)) user (cn_lim s) = (l, Some h, r)"
  shows "counts_live \<lparr>cn_lim = l, cn_handles = (cn_handles s)[i := h]\<rparr>"
proof (cases "l = cn_lim s \<and> h = cn_handles s ! i")
  case True
  with assms(1) show ?thesis by (simp add: counts_live_def)
next
  case False
  let ?h = "cn_handles s ! i"
  from False bindUser_Some [OF b] have new: "\<not> hd_closed ?h" "user \<noteq> []" "h = ?h\<lparr>hd_user := user\<rparr>"
      "l = (cn_lim s)\<lparr>lim_perUser := cinc (lim_perUser (cn_lim s)) user,
             lim_perUserIP := cinc (lim_perUserIP (cn_lim s)) (user, hd_ip ?h)\<rparr>"
    by auto
  have in_live: "?h \<in># live (cn_handles s)" using nth_live [OF i new(1)] .
  then have split: "live (cn_handles s) = add_mset ?h (live (cn_handles s) - {#?h#})" by simp
  have "live ((cn_handles s)[i := h]) = add_mset h (live (cn_handles s) - {#?h#})"
    using new by (simp add: live_update [OF i])
  moreover from this have "bound ((cn_handles s)[i := h]) = add_mset h (bound (cn_handles s))"
    using new assms(3) by (subst (2) bound_def, subst split) (simp add: bound_def)
  moreover have "size (add_mset h (live (cn_handles s) - {#?h#})) = size (live (cn_handles s))"
    by (subst (2) split) simp
  moreover have "image_mset hd_ip (add_mset h (live (cn_handles s) - {#?h#}))
      = image_mset hd_ip (live (cn_handles s))"
    by (subst (2) split) (simp add: new)
  ultimately show ?thesis
    using assms(1) new by (auto simp: counts_live_def intro: counting)
qed

lemma counts_live_close:
  assumes "counts_live s" and i: "i < length (cn_handles s)"
    and c: "release (Some (cn_handles s ! i)) (cn_lim s) = (l, Some h)"
  shows "counts_live \<lparr>cn_lim = l, cn_handles = (cn_handles s)[i := h]\<rparr>"
proof (cases "hd_closed (cn_handles s ! i)")
  case True
  with release_Some [OF c] have "l = cn_lim s" "h = cn_handles s ! i" by simp_all
  with assms(1) show ?thesis by (simp add: counts_live_def)
next
  case False
  let ?h = "cn_handles s ! i"
  have in_live: "?h \<in># live (cn_handles s)" using nth_live [OF i False] .
  from release_Some [OF c] False have
    h: "h = ?h\<lparr>hd_closed := True\<rparr>" and
    tot: "lim_total l = max 0 (lim_total (cn_lim s) - 1)" and
    ip: "lim_perIP l = cdec (lim_perIP (cn_lim s)) (hd_ip ?h)" and
    us: "lim_perUser l = (if hd_user ?h \<noteq> [] then cdec (lim_perUser (cn_lim s)) (hd_user ?h)
           else lim_perUser (cn_lim s))" and
    ui: "lim_perUserIP l = (if hd_user ?h \<noteq> [] then cdec (lim_perUserIP (cn_lim s)) (hd_user ?h, hd_ip ?h)
           else lim_perUserIP (cn_lim s))"
    by simp_all
  have lv: "live ((cn_handles s)[i := h]) = live (cn_handles s) - {#?h#}"
    using False by (simp add: live_update [OF i] h)
  have bd: "bound ((cn_handles s)[i := h])
      = bound (cn_handles s) - (if hd_user ?h \<noteq> [] then {#?h#} else {#})"
    by (simp add: bound_def lv)
  have in_bound: "?h \<in># bound (cn_handles s)" if "hd_user ?h \<noteq> []"
    using in_live that by (simp add: bound_def)
  have "size (live (cn_handles s)) = Suc (size (live (cn_handles s) - {#?h#}))"
    using in_live by (metis insert_DiffM size_add_mset)
  with tot assms(1) have "lim_total l = int (size (live (cn_handles s) - {#?h#}))"
    by (simp add: counts_live_def)
  moreover have "counts (lim_perIP l) (image_mset hd_ip (live (cn_handles s) - {#?h#}))"
    using assms(1) in_live by (simp add: ip counts_live_def counts_cdec_image)
  moreover have "counts (lim_perUser l) (image_mset hd_user (bound ((cn_handles s)[i := h])))"
    using assms(1) in_bound by (simp add: us bd counts_live_def counts_cdec_image)
  moreover have "counts (lim_perUserIP l)
      (image_mset (\<lambda>h. (hd_user h, hd_ip h)) (bound ((cn_handles s)[i := h])))"
    using assms(1) in_bound
      counts_cdec_image [of "lim_perUserIP (cn_lim s)" "\<lambda>h. (hd_user h, hd_ip h)" "bound (cn_handles s)" ?h]
    by (simp add: ui bd counts_live_def)
  ultimately show ?thesis by (simp add: counts_live_def lv)
qed

lemma conn_step_counts_live: "conn_step ops s t \<Longrightarrow> counts_live s \<Longrightarrow> counts_live t"
proof (erule conn_stepE)
  fix now ip l r
  assume "counts_live s" "t = s\<lparr>cn_lim := l\<rparr>" "acquire ops now ip (cn_lim s) = (l, None, r)"
  then show "counts_live t" using acquire_None [of ops now ip "cn_lim s" l r] by (simp add: counts_live_def)
qed (auto intro: counts_live_accept counts_live_bind counts_live_close)

lemma cget_cinc: "cget (cinc m k) k' = (if k' = k then cget m k + 1 else cget m k')"
  by (simp add: cget_def cinc_def)

lemma cget_cdec_le: "0 \<le> cget m k \<Longrightarrow> cget (cdec m k) k' \<le> cget m k'"
  by (auto simp: cget_def cdec_def Let_def)

lemma counts_live_nonneg:
  "counts_live s \<Longrightarrow> 0 \<le> cget (lim_perIP (cn_lim s)) k \<and> 0 \<le> cget (lim_perUser (cn_lim s)) u
     \<and> 0 \<le> cget (lim_perUserIP (cn_lim s)) q \<and> 0 \<le> lim_total (cn_lim s)"
  by (auto simp: counts_live_def counts_cget)

lemma bindUser_caps:
  assumes "within_caps p l" and "bindUser ho u l = (l', ho', r)"
  shows "within_caps p l'"
  using assms
  by (auto simp: bindUser_def within_caps_def Let_def cget_cinc split: option.splits if_splits)

lemma release_caps:
  assumes "counts_live s" and caps: "within_caps p (cn_lim s)"
    and r: "release (Some h0) (cn_lim s) = (l', Some h)"
  shows "within_caps p l'"
proof -
  note nn = counts_live_nonneg [OF assms(1)]
  have le: "cget (cdec (lim_perIP (cn_lim s)) k) k' \<le> cget (lim_perIP (cn_lim s)) k'"
      "cget (cdec (lim_perUser (cn_lim s)) k) k' \<le> cget (lim_perUser (cn_lim s)) k'"
      "cget (cdec (lim_perUserIP (cn_lim s)) q) q' \<le> cget (lim_perUserIP (cn_lim s)) q'" for k k' q q'
    by (rule cget_cdec_le, use nn in blast)+
  from release_Some [OF r] caps nn show ?thesis
    by (auto simp: within_caps_def split: if_splits intro: order_trans [OF le(1)]
        order_trans [OF le(2)] order_trans [OF le(3)])
qed

lemma conn_step_caps:
  assumes "conn_step ops s t" and "counts_live s" and "within_caps p (cn_lim s)"
  shows "within_caps p (cn_lim t)"
  using assms
proof (induction rule: conn_step.induct)
  case (accept now ip s l h r)
  with acquire_Some [OF accept(1)] show ?case by (auto simp: within_caps_def cget_cinc)
next
  case (reject now ip s l r)
  with acquire_None [OF reject(1)] show ?case by (auto simp: within_caps_def)
next
  case (bind i s user l h r)
  with bindUser_caps [OF _ bind(3)] show ?case by simp
next
  case (close i s l h)
  with release_caps [OF close(3,4,2)] show ?case by simp
qed

lemma reachable_inv: "conn_reachable ops p s \<Longrightarrow> counts_live s \<and> within_caps p (cn_lim s)"
proof (induction rule: conn_reachable.induct)
  case start
  show ?case
    by (auto simp: counts_live_def within_caps_def new_limiter_def live_def bound_def cget_def
        intro: counting)
next
  case (step s t)
  then show ?case using conn_step_counts_live conn_step_caps by blast
qed

section \<open>The guarantees\<close>

lemma within_caps_live:
  assumes "counts_live s" and "within_caps p (cn_lim s)"
  shows "(MaxTotal p > 0 \<longrightarrow> int (size (live (cn_handles s))) \<le> MaxTotal p)
    \<and> (MaxPerIP p > 0 \<longrightarrow>
         int (count (image_mset hd_ip (live (cn_handles s))) ip) \<le> MaxPerIP p)
    \<and> (MaxPerUser p > 0 \<longrightarrow>
         int (count (image_mset hd_user (bound (cn_handles s))) u) \<le> MaxPerUser p)
    \<and> (MaxPerUserIP p > 0 \<longrightarrow>
         int (count (image_mset (\<lambda>h. (hd_user h, hd_ip h)) (bound (cn_handles s))) (u, ip))
           \<le> MaxPerUserIP p)"
proof -
  from assms(1) have c: "lim_total (cn_lim s) = int (size (live (cn_handles s)))"
      "cget (lim_perIP (cn_lim s)) ip = int (count (image_mset hd_ip (live (cn_handles s))) ip)"
      "cget (lim_perUser (cn_lim s)) u = int (count (image_mset hd_user (bound (cn_handles s))) u)"
      "cget (lim_perUserIP (cn_lim s)) (u, ip)
        = int (count (image_mset (\<lambda>h. (hd_user h, hd_ip h)) (bound (cn_handles s))) (u, ip))"
    by (auto simp: counts_live_def intro: counts_cget)
  from assms(2) show ?thesis unfolding within_caps_def c [symmetric] by blast
qed

text \<open>
  C9. In every reachable state of a server, whatever the order of arrivals, logins and closes
  (repeated closes included), the live connections respect every configured cap: in total, per IP
  address, per user and per user and address.
\<close>

theorem live_connections_within_caps:
  assumes "conn_reachable ops p s"
  shows "(MaxTotal p > 0 \<longrightarrow> int (size (live (cn_handles s))) \<le> MaxTotal p)
    \<and> (MaxPerIP p > 0 \<longrightarrow>
         int (count (image_mset hd_ip (live (cn_handles s))) ip) \<le> MaxPerIP p)
    \<and> (MaxPerUser p > 0 \<longrightarrow>
         int (count (image_mset hd_user (bound (cn_handles s))) u) \<le> MaxPerUser p)
    \<and> (MaxPerUserIP p > 0 \<longrightarrow>
         int (count (image_mset (\<lambda>h. (hd_user h, hd_ip h)) (bound (cn_handles s))) (u, ip))
           \<le> MaxPerUserIP p)"
  using reachable_inv [OF assms] within_caps_live by blast

text \<open>A bucket that always allows, and a server with one connection of one user.\<close>

definition open_buckets :: "unit bucket_ops" where
  "open_buckets = \<lparr>bk_new = (\<lambda>r n. ()), bk_allow = (\<lambda>now b. (b, True)), bk_order = (\<lambda>ks. ks)\<rparr>"

definition demo_conns :: "unit conns" where
  "demo_conns =
     (case acquire open_buckets 0 ''10.0.0.1'' (new_limiter IMAPProfile) of
        (l, ho, r) \<Rightarrow>
          (case bindUser ho ''a@b.co'' l of
             (l2, Some h, r2) \<Rightarrow> \<lparr>cn_lim = l2, cn_handles = [h]\<rparr>
           | (l2, None, r2) \<Rightarrow> \<lparr>cn_lim = l2, cn_handles = []\<rparr>))"

lemma demo_reachable: "conn_reachable open_buckets IMAPProfile demo_conns"
proof -
  let ?s0 = "\<lparr>cn_lim = new_limiter IMAPProfile, cn_handles = []\<rparr> :: unit conns"
  let ?h = "\<lparr>hd_ip = ''10.0.0.1'', hd_user = [], hd_closed = False\<rparr>"
  define l where "l = fst (acquire open_buckets 0 ''10.0.0.1'' (new_limiter IMAPProfile))"
  have a: "acquire open_buckets 0 ''10.0.0.1'' (new_limiter IMAPProfile) = (l, Some ?h, ReasonOK)"
    by (simp add: l_def acquire_def allowRate_def new_limiter_def IMAPProfile_def open_buckets_def
        cget_def put_rate_def)
  define l2 h2 r2 where "l2 = fst (bindUser (Some ?h) ''a@b.co'' l)"
    and "h2 = the (fst (snd (bindUser (Some ?h) ''a@b.co'' l)))"
    and "r2 = snd (snd (bindUser (Some ?h) ''a@b.co'' l))"
  have b: "bindUser (Some ?h) ''a@b.co'' l = (l2, Some h2, r2)"
    by (simp add: l2_def h2_def r2_def bindUser_def Let_def)
  let ?s1 = "\<lparr>cn_lim = l, cn_handles = [?h]\<rparr>"
  have s1: "conn_step open_buckets ?s0 ?s1"
    using conn_step.accept [of open_buckets 0 "''10.0.0.1''" ?s0] a by simp
  have "conn_step open_buckets ?s1 \<lparr>cn_lim = l2, cn_handles = [h2]\<rparr>"
    using conn_step.bind [of 0 ?s1 "''a@b.co''" l2 h2 r2 open_buckets] b by simp
  then show ?thesis
    using conn_reachable.step [OF conn_reachable.step [OF conn_reachable.start s1]] a b
    by (simp add: demo_conns_def)
qed

lemma demo_live:
  "live (cn_handles demo_conns) = {#\<lparr>hd_ip = ''10.0.0.1'', hd_user = ''a@b.co'', hd_closed = False\<rparr>#}"
  by (simp add: demo_conns_def live_def acquire_def bindUser_def allowRate_def new_limiter_def
      IMAPProfile_def open_buckets_def cget_def put_rate_def)

theorem live_connections_within_caps_witness:
  "conn_reachable open_buckets IMAPProfile demo_conns \<and>
   live (cn_handles demo_conns) \<noteq> {#} \<and>
   int (count (image_mset hd_ip (live (cn_handles demo_conns))) ''10.0.0.1'') \<le> 500"
  using live_connections_within_caps [OF demo_reachable] demo_reachable
  by (simp add: IMAPProfile_def demo_live)

text \<open>
  No counter leaks: in every reachable state the four counters are exactly the numbers of live
  connections they are about, so once every handle has been released the limiter's counts are those
  of a fresh one, with no key left in any map.
\<close>

theorem counters_exact:
  assumes "conn_reachable ops p s"
  shows "counts_live s
    \<and> (list_all hd_closed (cn_handles s) \<longrightarrow>
         lim_total (cn_lim s) = 0 \<and> lim_perIP (cn_lim s) = Map.empty
         \<and> lim_perUser (cn_lim s) = Map.empty \<and> lim_perUserIP (cn_lim s) = Map.empty)"
proof (intro conjI impI)
  show c: "counts_live s" using reachable_inv [OF assms] by simp
  assume "list_all hd_closed (cn_handles s)"
  then have "live (cn_handles s) = {#}" by (simp add: live_def list_all_iff filter_mset_eq_mempty_iff)
  then show "lim_total (cn_lim s) = 0" and "lim_perIP (cn_lim s) = Map.empty"
    and "lim_perUser (cn_lim s) = Map.empty" and "lim_perUserIP (cn_lim s) = Map.empty"
    using c by (auto simp: counts_live_def bound_def counts_def fun_eq_iff)
qed

theorem counters_exact_witness:
  "conn_reachable open_buckets IMAPProfile demo_conns \<and> counts_live demo_conns"
  using counters_exact [OF demo_reachable] demo_reachable by blast

end
