(* ===== verification/MailFirewall.thy ===== *)
theory MailFirewall
  imports Counting
begin

text \<open>
  \<open>internal/mail/auth/firewall.go\<close>: the brute-force protection of the mail server. Times are
  nanoseconds since Go's zero time, one reading of the clock per call (the code reads it up to three
  times within a call). The two \<open>sync.Map\<close>s are maps; every call is one step, as
  \<open>HandleFailedAuth\<close> holds the mutex and the other calls touch a single key once or twice.
\<close>

section \<open>The firewall\<close>

definition maxFailedAttempts :: int where
  "maxFailedAttempts = 5"

definition blockDuration :: int where
  "blockDuration = 24 * 3600 * 10 ^ 9"

definition attemptResetAfter :: int where
  "attemptResetAfter = 3600 * 10 ^ 9"

record attemptRecord =
  at_attempts :: int
  at_last :: int

record mail_fw =
  fw_blocked :: "string \<Rightarrow> int option"
  fw_attempts :: "string \<Rightarrow> attemptRecord option"
  fw_enabled :: bool

definition new_firewall :: mail_fw where
  "new_firewall = \<lparr>fw_blocked = Map.empty, fw_attempts = Map.empty, fw_enabled = True\<rparr>"

text \<open>\<open>time.Since\<close> saturates at the bounds of \<open>time.Duration\<close>.\<close>

definition since :: "int \<Rightarrow> int \<Rightarrow> int" where
  "since now t = max min_int64 (min max_int64 (now - t))"

text \<open>\<open>LoadOrStore\<close>: an entry that is there is kept, an expired one too.\<close>

definition block_ip :: "int \<Rightarrow> string \<Rightarrow> mail_fw \<Rightarrow> mail_fw" where
  "block_ip now ip f =
     (case fw_blocked f ip of
        Some u \<Rightarrow> f
      | None \<Rightarrow> f\<lparr>fw_blocked := (fw_blocked f)(ip \<mapsto> now + blockDuration)\<rparr>)"

definition clearAttempts :: "string \<Rightarrow> mail_fw \<Rightarrow> mail_fw" where
  "clearAttempts ip f = f\<lparr>fw_attempts := (fw_attempts f)(ip := None)\<rparr>"

definition handleFailedAuth :: "int \<Rightarrow> string \<Rightarrow> mail_fw \<Rightarrow> mail_fw" where
  "handleFailedAuth now ip f =
     (if \<not> fw_enabled f then f
      else
        let r0 = (case fw_attempts f ip of Some r \<Rightarrow> r | None \<Rightarrow> \<lparr>at_attempts = 0, at_last = 0\<rparr>);
            n = (if since now (at_last r0) > attemptResetAfter then 0 else at_attempts r0) + 1;
            f1 = f\<lparr>fw_attempts := (fw_attempts f)(ip \<mapsto> \<lparr>at_attempts = n, at_last = now\<rparr>)\<rparr>
        in if n > maxFailedAttempts then clearAttempts ip (block_ip now ip f1) else f1)"

definition isBlocked :: "int \<Rightarrow> string \<Rightarrow> mail_fw \<Rightarrow> mail_fw \<times> bool" where
  "isBlocked now ip f =
     (if \<not> fw_enabled f then (f, False)
      else case fw_blocked f ip of
             None \<Rightarrow> (f, False)
           | Some u \<Rightarrow>
               if now > u then (f\<lparr>fw_blocked := (fw_blocked f)(ip := None)\<rparr>, False) else (f, True))"

section \<open>Runs\<close>

datatype fw_event = Failed string | Cleared string | Checked string

fun event_ip :: "fw_event \<Rightarrow> string" where
  "event_ip (Failed ip) = ip"
| "event_ip (Cleared ip) = ip"
| "event_ip (Checked ip) = ip"

fun fw_step :: "int \<times> fw_event \<Rightarrow> mail_fw \<Rightarrow> mail_fw" where
  "fw_step (now, Failed ip) f = handleFailedAuth now ip f"
| "fw_step (now, Cleared ip) f = clearAttempts ip f"
| "fw_step (now, Checked ip) f = fst (isBlocked now ip f)"

definition fw_run :: "(int \<times> fw_event) list \<Rightarrow> mail_fw \<Rightarrow> mail_fw" where
  "fw_run es f = fold fw_step es f"

text \<open>What the firewall holds about one address.\<close>

definition view :: "string \<Rightarrow> mail_fw \<Rightarrow> attemptRecord option \<times> int option" where
  "view ip f = (fw_attempts f ip, fw_blocked f ip)"

lemma fw_step_enabled [simp]: "fw_enabled (fw_step e f) = fw_enabled f"
  by (cases "(e, f)" rule: fw_step.cases)
    (auto simp: handleFailedAuth_def clearAttempts_def isBlocked_def block_ip_def Let_def
      split: option.splits)

lemma fw_run_enabled [simp]: "fw_enabled (fw_run es f) = fw_enabled f"
  by (induction es arbitrary: f) (simp_all add: fw_run_def)

lemma view_other: "event_ip (snd e) \<noteq> ip \<Longrightarrow> view ip (fw_step e f) = view ip f"
  by (cases "(e, f)" rule: fw_step.cases)
    (auto simp: view_def handleFailedAuth_def clearAttempts_def isBlocked_def block_ip_def Let_def
      split: option.splits)

lemma view_own:
  "event_ip (snd e) = ip \<Longrightarrow> view ip f = view ip g \<Longrightarrow> fw_enabled f = fw_enabled g \<Longrightarrow>
     view ip (fw_step e f) = view ip (fw_step e g)"
  by (cases "(e, f)" rule: fw_step.cases)
    (auto simp: view_def handleFailedAuth_def clearAttempts_def isBlocked_def block_ip_def Let_def
      split: option.splits)

lemma fw_run_Cons [simp]: "fw_run (e # es) f = fw_run es (fw_step e f)"
  by (simp add: fw_run_def)

lemma fw_run_Nil [simp]: "fw_run [] f = f"
  by (simp add: fw_run_def)

lemma fw_run_snoc [simp]: "fw_run (es @ [e]) f = fw_step e (fw_run es f)"
  by (simp add: fw_run_def)

lemma view_fw_run:
  "view ip f = view ip g \<Longrightarrow> fw_enabled f = fw_enabled g \<Longrightarrow>
     view ip (fw_run es f) = view ip (fw_run (filter (\<lambda>e. event_ip (snd e) = ip) es) g)"
proof (induction es arbitrary: f g)
  case (Cons e es)
  show ?case
  proof (cases "event_ip (snd e) = ip")
    case True
    with view_own [OF True Cons.prems] Cons.IH [of "fw_step e f" "fw_step e g"] Cons.prems(2)
    show ?thesis by simp
  next
    case False
    with view_other [OF False, of f] Cons.IH [of "fw_step e f" g] Cons.prems show ?thesis by simp
  qed
qed simp

text \<open>
  Addresses are isolated from each other: whatever other addresses fail, clear or check, what
  the firewall holds about one address is what it would hold had only that address been seen, so
  nobody can be blocked, or unblocked, by another address's behaviour.
\<close>

theorem addresses_isolated:
  "view ip (fw_run es f) = view ip (fw_run (filter (\<lambda>e. event_ip (snd e) = ip) es) f)"
  by (rule view_fw_run) simp_all

section \<open>When an address is blocked\<close>

definition fails_of :: "string \<Rightarrow> (int \<times> fw_event) list \<Rightarrow> int list" where
  "fails_of ip es = map fst (filter (\<lambda>e. snd e = Failed ip) es)"

text \<open>
  An attack: every event within a day of the start, no successful login of the address, and the
  failures of the address in order, at most an hour apart.
\<close>

definition attack :: "int \<Rightarrow> string \<Rightarrow> (int \<times> fw_event) list \<Rightarrow> bool" where
  "attack t0 ip es \<longleftrightarrow>
     (\<forall>e \<in> set es. t0 \<le> fst e \<and> fst e \<le> t0 + blockDuration \<and> snd e \<noteq> Cleared ip)
     \<and> successively (\<lambda>a b. a \<le> b \<and> b - a \<le> attemptResetAfter) (fails_of ip es)"

definition after_fails :: "int \<Rightarrow> string \<Rightarrow> int list \<Rightarrow> mail_fw \<Rightarrow> bool" where
  "after_fails t0 ip ts f \<longleftrightarrow>
     fw_attempts f ip =
       (if length ts mod 6 = 0 then None
        else Some \<lparr>at_attempts = int (length ts mod 6), at_last = last ts\<rparr>)
     \<and> (case fw_blocked f ip of None \<Rightarrow> length ts < 6
        | Some u \<Rightarrow> 6 \<le> length ts \<and> t0 + blockDuration \<le> u)"

lemma fails_of_snoc:
  "fails_of ip (es @ [e]) = fails_of ip es @ (if snd e = Failed ip then [fst e] else [])"
  by (simp add: fails_of_def)

lemma mod6: "Suc n mod 6 = (if n mod 6 = 5 then 0 else Suc (n mod 6))"
  by (simp add: mod_Suc)

lemma since_recent: "a \<le> b \<Longrightarrow> b - a \<le> attemptResetAfter \<Longrightarrow> since b a \<le> attemptResetAfter"
  by (simp add: since_def attemptResetAfter_def)

lemma handle_first:
  "fw_attempts f ip = None \<Longrightarrow> fw_enabled f \<Longrightarrow>
     handleFailedAuth now ip f = f\<lparr>fw_attempts := (fw_attempts f)(ip \<mapsto> \<lparr>at_attempts = 1, at_last = now\<rparr>)\<rparr>"
  by (simp add: handleFailedAuth_def maxFailedAttempts_def Let_def)

lemma handle_next:
  "fw_attempts f ip = Some r \<Longrightarrow> fw_enabled f \<Longrightarrow> since now (at_last r) \<le> attemptResetAfter \<Longrightarrow>
     handleFailedAuth now ip f =
       (let f1 = f\<lparr>fw_attempts := (fw_attempts f)
                     (ip \<mapsto> \<lparr>at_attempts = at_attempts r + 1, at_last = now\<rparr>)\<rparr>
        in if 5 \<le> at_attempts r then clearAttempts ip (block_ip now ip f1) else f1)"
  by (simp add: handleFailedAuth_def maxFailedAttempts_def)

lemma after_fails_step:
  assumes "after_fails t0 ip ts f" and "fw_enabled f" and "t0 \<le> now"
    and "ts \<noteq> [] \<Longrightarrow> last ts \<le> now \<and> now - last ts \<le> attemptResetAfter"
  shows "after_fails t0 ip (ts @ [now]) (handleFailedAuth now ip f)"
proof (cases "length ts mod 6 = 0")
  case True
  with assms(1) have "fw_attempts f ip = None" by (simp add: after_fails_def)
  with True handle_first [of f ip now] assms(1,2) show ?thesis
    by (auto simp: after_fails_def mod6 dest: dvd_imp_le split: option.splits)
next
  case False
  then have "ts \<noteq> []" by auto
  with assms(4) have recent: "since now (last ts) \<le> attemptResetAfter" by (simp add: since_recent)
  from False assms(1) have "fw_attempts f ip = Some \<lparr>at_attempts = int (length ts mod 6), at_last = last ts\<rparr>"
    by (simp add: after_fails_def)
  note h = handle_next [OF this assms(2), of now]
  show ?thesis
  proof (cases "length ts mod 6 = 5")
    case True
    then have "5 \<le> length ts" by presburger
    with h True recent assms(1,3) show ?thesis
      by (auto simp: after_fails_def mod6 block_ip_def clearAttempts_def split: option.splits)
  next
    case no5: False
    have "\<not> 5 \<le> length ts mod 6" using no5 by presburger
    moreover have "6 \<le> Suc (length ts) \<longleftrightarrow> 6 \<le> length ts" using no5 by presburger
    ultimately show ?thesis using h recent assms(1) no5 False
      by (auto simp: after_fails_def mod6 split: option.splits)
  qed
qed

lemma attack_after_fails:
  assumes "attack t0 ip es" and "view ip f = (None, None)" and "fw_enabled f"
  shows "after_fails t0 ip (fails_of ip es) (fw_run es f)"
  using assms
proof (induction es rule: rev_induct)
  case Nil
  then show ?case by (simp add: after_fails_def view_def fails_of_def)
next
  case (snoc e es)
  have att: "attack t0 ip es"
    using snoc.prems(1) by (auto simp: attack_def fails_of_snoc successively_append_iff)
  then have IH: "after_fails t0 ip (fails_of ip es) (fw_run es f)" using snoc by blast
  have t: "t0 \<le> fst e" "fst e \<le> t0 + blockDuration" "snd e \<noteq> Cleared ip"
    using snoc.prems(1) by (auto simp: attack_def)
  show ?case
  proof (cases "snd e")
    case (Failed ip')
    show ?thesis
    proof (cases "ip' = ip")
      case True
      with snoc.prems(1) Failed
      have "fails_of ip es \<noteq> [] \<Longrightarrow> last (fails_of ip es) \<le> fst e
          \<and> fst e - last (fails_of ip es) \<le> attemptResetAfter"
        by (auto simp: attack_def fails_of_snoc successively_append_iff)
      with after_fails_step [OF IH _ t(1)] snoc.prems(3) Failed True show ?thesis
        by (cases e) (simp add: fails_of_snoc)
    next
      case False
      with Failed view_other [of e ip "fw_run es f"] IH show ?thesis
        by (simp add: fails_of_snoc after_fails_def view_def)
    qed
  next
    case (Cleared ip')
    with t(3) view_other [of e ip "fw_run es f"] IH show ?thesis
      by (simp add: fails_of_snoc after_fails_def view_def)
  next
    case (Checked ip')
    with t(2) view_other [of e ip "fw_run es f"] IH show ?thesis
      by (cases e; cases "ip' = ip")
        (auto simp: fails_of_snoc after_fails_def view_def isBlocked_def split: option.splits)
  qed
qed

text \<open>
  An attacked address is blocked exactly from its sixth consecutive failure on: from a clean
  record, with any traffic of other addresses and any checks in between, an address whose failures
  are at most an hour apart is reported blocked if and only if it has failed at least six times, and
  stays so for the rest of the day.
\<close>

theorem blocked_from_sixth_failure:
  assumes "attack t0 ip es" and "view ip f = (None, None)" and "fw_enabled f"
    and "now \<le> t0 + blockDuration"
  shows "snd (isBlocked now ip (fw_run es f)) \<longleftrightarrow> 6 \<le> length (fails_of ip es)"
  using attack_after_fails [OF assms(1-3)] assms(3,4)
  by (auto simp: after_fails_def isBlocked_def split: option.splits)

definition demo_attack :: "(int \<times> fw_event) list" where
  "demo_attack = map (\<lambda>i. (int i * 10 ^ 9, Failed ''6.6.6.6'')) [0..<6] @ [(9, Failed ''8.8.8.8'')]"

theorem blocked_from_sixth_failure_witness:
  "snd (isBlocked (10 ^ 12) ''6.6.6.6'' (fw_run demo_attack new_firewall))
   \<and> \<not> snd (isBlocked (10 ^ 12) ''6.6.6.6'' (fw_run (tl demo_attack) new_firewall))"
proof -
  have a: "attack 0 ''6.6.6.6'' demo_attack" "attack 0 ''6.6.6.6'' (tl demo_attack)"
    by (simp_all add: attack_def demo_attack_def fails_of_def blockDuration_def
        attemptResetAfter_def upt_rec)
  have n: "length (fails_of ''6.6.6.6'' demo_attack) = 6"
      "length (fails_of ''6.6.6.6'' (tl demo_attack)) = 5"
    by (simp_all add: demo_attack_def fails_of_def upt_rec)
  show ?thesis
    using blocked_from_sixth_failure [OF a(1), of new_firewall "10 ^ 12"]
      blocked_from_sixth_failure [OF a(2), of new_firewall "10 ^ 12"] n
    by (simp add: new_firewall_def view_def blockDuration_def)
qed

text \<open>
  A successful login restores the whole budget: after it the address needs six more failures, as
  \<open>clearAttempts\<close> leaves it without a record.
\<close>

lemma cleared_is_clean: "fw_blocked f ip = None \<Longrightarrow> view ip (clearAttempts ip f) = (None, None)"
  by (simp add: view_def clearAttempts_def)

text \<open>
  An expired block that no check has removed is not renewed: \<open>LoadOrStore\<close> keeps the old entry, and
  the six failures that led to the call are forgotten.
\<close>

lemma stale_block_not_renewed:
  assumes "fw_blocked f ip = Some u" and "u < now"
  shows "snd (isBlocked now ip (block_ip now ip f)) = False"
  using assms by (simp add: block_ip_def isBlocked_def)

end
