(* ===== verification/GoNet.thy ===== *)
theory GoNet
  imports Prelude
begin

text \<open>
  Package \<open>net\<close>, as far as the program uses it: \<open>net.SplitHostPort\<close>, \<open>net.ParseIP\<close> (through
  \<open>netip.ParseAddr\<close>) and \<open>IP.To4\<close>. An address is a list of 16 byte values, as in Go, whose IPv4
  addresses are mapped under \<open>::ffff:0:0/96\<close>.
\<close>

section \<open>SplitHostPort\<close>

text \<open>Every error is \<^const>\<open>None\<close>: no caller looks at which one it is.\<close>

definition split_host_port :: "string \<Rightarrow> (string \<times> string) option" where
  "split_host_port hp =
     (case last_index_byte CHR '':'' hp of
        None \<Rightarrow> None
      | Some i \<Rightarrow>
          if hd hp = CHR ''['' then
            (case index_byte CHR '']'' hp of
               None \<Rightarrow> None
             | Some e \<Rightarrow>
                 if e + 1 \<noteq> i then None
                 else if index_byte CHR ''['' (drop 1 hp) \<noteq> None then None
                 else if index_byte CHR '']'' (drop (e + 1) hp) \<noteq> None then None
                 else Some (take (e - 1) (drop 1 hp), drop (i + 1) hp))
          else if index_byte CHR '':'' (take i hp) \<noteq> None then None
          else if index_byte CHR ''['' hp \<noteq> None then None
          else if index_byte CHR '']'' hp \<noteq> None then None
          else Some (take i hp, drop (i + 1) hp))"

section \<open>ParseIP\<close>

text \<open>A dotted quad: four decimal octets without leading zeros.\<close>

definition parse_octet :: "string \<Rightarrow> nat option" where
  "parse_octet s =
     (if s \<noteq> [] \<and> list_all is_digit_char s \<and> (hd s = CHR ''0'' \<longrightarrow> length s = 1)
         \<and> digits_value s \<le> 255
      then Some (digits_value s) else None)"

definition parse_ipv4_fields :: "string \<Rightarrow> nat list option" where
  "parse_ipv4_fields s =
     (case map parse_octet (split_byte CHR ''.'' s) of
        [Some a, Some b, Some c, Some d] \<Rightarrow> Some [a, b, c, d]
      | _ \<Rightarrow> None)"

definition hex_val :: "char \<Rightarrow> nat option" where
  "hex_val c =
     (let n = ascii_val c in
      if 48 \<le> n \<and> n \<le> 57 then Some (n - 48)
      else if 97 \<le> n \<and> n \<le> 102 then Some (n - 87)
      else if 65 \<le> n \<and> n \<le> 70 then Some (n - 55)
      else None)"

definition is_hex :: "char \<Rightarrow> bool" where
  "is_hex c \<longleftrightarrow> hex_val c \<noteq> None"

definition hex_value :: "string \<Rightarrow> nat" where
  "hex_value s = foldl (\<lambda>acc c. 16 * acc + (case hex_val c of Some d \<Rightarrow> d | None \<Rightarrow> 0)) 0 s"

text \<open>
  The groups of an IPv6 address. The first argument is how many 16-bit groups still fit, \<open>ip\<close> the
  bytes read so far, \<open>el\<close> the position of the ellipsis; the result is the bytes and the ellipsis.
\<close>

fun ipv6_groups :: "nat \<Rightarrow> string \<Rightarrow> nat list \<Rightarrow> nat option \<Rightarrow> (nat list \<times> nat option) option" where
  "ipv6_groups 0 s ip el = (if s = [] then Some (ip, el) else None)"
| "ipv6_groups (Suc n) s ip el =
     (let g = takeWhile is_hex s; rest = drop (length g) s in
      if g = [] \<or> 4 < length g then None
      else if rest \<noteq> [] \<and> hd rest = CHR ''.'' then
        (if el = None \<and> length ip \<noteq> 12 then None
         else if 16 < length ip + 4 then None
         else map_option (\<lambda>q. (ip @ q, el)) (parse_ipv4_fields s))
      else
        let ip' = ip @ [hex_value g div 256, hex_value g mod 256] in
        if rest = [] then Some (ip', el)
        else if hd rest \<noteq> CHR '':'' \<or> length rest = 1 then None
        else
          let s' = tl rest in
          let double = (hd s' = CHR '':'') in
          if double \<and> el \<noteq> None then None
          else if double \<and> tl s' = [] then Some (ip', Some (length ip'))
          else ipv6_groups n (if double then tl s' else s') ip' (if double then Some (length ip') else el))"

definition expand_ellipsis :: "nat list \<times> nat option \<Rightarrow> nat list option" where
  "expand_ellipsis r =
     (case r of
        (ip, None) \<Rightarrow> if length ip = 16 then Some ip else None
      | (ip, Some e) \<Rightarrow>
          if length ip = 16 then None
          else Some (take e ip @ replicate (16 - length ip) 0 @ drop e ip))"

text \<open>A zone makes \<open>ParseIP\<close> fail, whatever it is.\<close>

definition parse_ipv6 :: "string \<Rightarrow> nat list option" where
  "parse_ipv6 s =
     (if CHR ''%'' \<in> set s then None
      else if has_prefix s ''::'' then
        (if drop 2 s = [] then Some (replicate 16 0)
         else Option.bind (ipv6_groups 8 (drop 2 s) [] (Some 0)) expand_ellipsis)
      else Option.bind (ipv6_groups 8 s [] None) expand_ellipsis)"

text \<open>The first of the bytes \<open>.\<close>, \<open>:\<close> and \<open>%\<close> decides which grammar is used.\<close>

definition parse_ip :: "string \<Rightarrow> nat list option" where
  "parse_ip s =
     (case dropWhile (\<lambda>c. c \<notin> set ''.:%'') s of
        [] \<Rightarrow> None
      | c # cs \<Rightarrow>
          if c = CHR ''.'' then map_option (\<lambda>q. replicate 10 0 @ [255, 255] @ q) (parse_ipv4_fields s)
          else if c = CHR '':'' then parse_ipv6 s
          else None)"

definition to4 :: "nat list \<Rightarrow> nat list option" where
  "to4 ip =
     (if length ip = 4 then Some ip
      else if length ip = 16 \<and> take 12 ip = replicate 10 0 @ [255, 255] then Some (drop 12 ip)
      else None)"

section \<open>Addresses are 16 bytes\<close>

definition is_bytes :: "nat list \<Rightarrow> bool" where
  "is_bytes bs \<longleftrightarrow> list_all (\<lambda>b. b < 256) bs"

lemma is_bytes_append [simp]: "is_bytes (xs @ ys) \<longleftrightarrow> is_bytes xs \<and> is_bytes ys"
  by (simp add: is_bytes_def)

lemma is_bytes_take_drop: "is_bytes xs \<Longrightarrow> is_bytes (take n xs) \<and> is_bytes (drop n xs)"
  by (metis append_take_drop_id is_bytes_append)

lemma bytes_zeros [simp]: "list_all (\<lambda>b. b < 256) (replicate n (0 :: nat))"
  by (induction n) simp_all

lemma parse_octet_byte: "parse_octet s = Some n \<Longrightarrow> n < 256"
  by (auto simp: parse_octet_def split: if_splits)

lemma parse_ipv4_fields_bytes:
  "parse_ipv4_fields s = Some q \<Longrightarrow> length q = 4 \<and> is_bytes q"
  by (auto simp: parse_ipv4_fields_def is_bytes_def map_eq_Cons_conv dest!: parse_octet_byte
      split: list.splits option.splits)

lemma hex_val_lt: "hex_val c = Some d \<Longrightarrow> d < 16"
  by (auto simp: hex_val_def Let_def split: if_splits)

lemma hex_value_snoc:
  "hex_value (s @ [c]) = 16 * hex_value s + (case hex_val c of Some d \<Rightarrow> d | None \<Rightarrow> 0)"
  by (simp add: hex_value_def)

lemma hex_value_bound: "hex_value s < 16 ^ length s"
proof (induction s rule: rev_induct)
  case (snoc c s)
  have "(case hex_val c of Some d \<Rightarrow> d | None \<Rightarrow> 0) < 16" by (auto split: option.splits dest: hex_val_lt)
  with snoc show ?case by (simp add: hex_value_snoc)
qed (simp add: hex_value_def)

lemma hex_value_16bit: "length s \<le> 4 \<Longrightarrow> hex_value s < 65536"
  using hex_value_bound [of s] power_increasing [of "length s" 4 "16 :: nat"] by simp

lemma ipv6_groups_bytes:
  "ipv6_groups n s ip el = Some (ip', el') \<Longrightarrow> is_bytes ip \<Longrightarrow> length ip + 2 * n = 16 \<Longrightarrow>
     (case el of None \<Rightarrow> True | Some e \<Rightarrow> e \<le> length ip) \<Longrightarrow>
     is_bytes ip' \<and> length ip' \<le> 16 \<and> (case el' of None \<Rightarrow> True | Some e \<Rightarrow> e \<le> length ip')"
proof (induction n s ip el rule: ipv6_groups.induct)
  case (1 s ip el)
  then show ?case by (auto split: if_splits)
next
  case (2 n s ip el)
  let ?g = "takeWhile is_hex s"
  have b: "is_bytes [hex_value ?g div 256, hex_value ?g mod 256]" if "length ?g \<le> 4"
    using hex_value_16bit [OF that] by (simp add: is_bytes_def)
  show ?case
  proof (cases "?g = [] \<or> 4 < length ?g")
    case True
    with "2.prems" show ?thesis by simp
  next
    case ok: False
    show ?thesis
    proof (cases "drop (length ?g) s \<noteq> [] \<and> hd (drop (length ?g) s) = CHR ''.''")
      case True
      with "2.prems" ok show ?thesis
        by (auto simp: Let_def dest!: parse_ipv4_fields_bytes split: if_splits option.splits)
    next
      case dot: False
      show ?thesis
        using "2.prems" ok dot b "2.IH" [OF refl refl ok dot refl _ _ refl refl]
        by (auto simp: Let_def is_bytes_def split: if_splits option.splits)
    qed
  qed
qed

lemma expand_ellipsis_bytes:
  "expand_ellipsis (ip, el) = Some r \<Longrightarrow> is_bytes ip \<Longrightarrow> length ip \<le> 16 \<Longrightarrow>
     (case el of None \<Rightarrow> True | Some e \<Rightarrow> e \<le> length ip) \<Longrightarrow> length r = 16 \<and> is_bytes r"
  using is_bytes_take_drop [of ip]
  by (auto simp: expand_ellipsis_def is_bytes_def split: option.splits if_splits)

lemma parse_ip_bytes: "parse_ip s = Some ip \<Longrightarrow> length ip = 16 \<and> is_bytes ip"
proof -
  have six: "length r = 16 \<and> is_bytes r"
    if "ipv6_groups 8 t [] el = Some (ip', el')" "expand_ellipsis (ip', el') = Some r"
      "el = None \<or> el = Some 0" for t el ip' el' r
  proof -
    have "is_bytes ip' \<and> length ip' \<le> 16 \<and> (case el' of None \<Rightarrow> True | Some e \<Rightarrow> e \<le> length ip')"
      by (rule ipv6_groups_bytes [OF that(1)]) (use that(3) in \<open>auto simp: is_bytes_def\<close>)
    with expand_ellipsis_bytes [OF that(2)] show ?thesis by simp
  qed
  have "length r = 16 \<and> is_bytes r" if "parse_ipv6 t = Some r" for t r
    using that unfolding parse_ipv6_def
    by (auto simp: bind_eq_Some_conv is_bytes_def split: if_splits dest: six [unfolded is_bytes_def])
  then show "parse_ip s = Some ip \<Longrightarrow> length ip = 16 \<and> is_bytes ip"
    by (auto simp: parse_ip_def is_bytes_def dest!: parse_ipv4_fields_bytes
        split: list.splits if_splits)
qed

lemma to4_bytes: "parse_ip s = Some ip \<Longrightarrow> to4 ip = Some q \<Longrightarrow> length q = 4 \<and> is_bytes q"
  using parse_ip_bytes [of s ip] is_bytes_take_drop [of ip 12]
  by (auto simp: to4_def split: if_splits)

end
