(* ===== verification/DnsRate.thy ===== *)
theory DnsRate
  imports Counting GoNet "HOL-Library.AList"
begin

text \<open>
  \<open>internal/dns/resolver/ratelimit.go\<close>: the per-address rate limiter in front of the DNS resolver.
  The \<open>sync.Map\<close> of counters is an association list with distinct keys (its order, that of
  \<open>Range\<close>, is never observed); each call of \<open>ServeDNS\<close> and each cleanup is one step. Times are the
  milliseconds of \<open>UnixMilli\<close>. The cleanup goroutine is a step of its own that may happen at any
  point of a run; a forced one is reported by the step that starts it.
\<close>

section \<open>The limiter\<close>

definition defaultRateLimit :: int where
  "defaultRateLimit = 2500"

definition defaultWindowMs :: int where
  "defaultWindowMs = 60000"

definition maxTrackedIPs :: int where
  "maxTrackedIPs = 100000"

record ipCounter =
  ic_count :: int
  ic_firstReqMs :: int

record rate_limiter =
  rl_counts :: "(string \<times> ipCounter) list"
  rl_limit :: int
  rl_totalIPs :: int
  rl_windowMs :: int

definition newRateLimiter :: rate_limiter where
  "newRateLimiter = \<lparr>rl_counts = [], rl_limit = defaultRateLimit, rl_totalIPs = 0,
     rl_windowMs = defaultWindowMs\<rparr>"

text \<open>\<open>extractIP\<close>: the address of a \<open>net.Addr\<close>, which may be nil; given by its \<open>String()\<close>.\<close>

definition extractIP :: "string option \<Rightarrow> string" where
  "extractIP addr =
     (case addr of
        None \<Rightarrow> ''unknown''
      | Some a \<Rightarrow> (case split_host_port a of None \<Rightarrow> a | Some (host, port) \<Rightarrow> host))"

definition is_local :: "string \<Rightarrow> bool" where
  "is_local ip \<longleftrightarrow> ip = ''127.0.0.1'' \<or> ip = ''::1'' \<or> ip = ''localhost''"

text \<open>The three ways a request meets its counter.\<close>

datatype hit_kind = New_entry | Window_reset | Counted int

definition count_request :: "int \<Rightarrow> string \<Rightarrow> rate_limiter \<Rightarrow> rate_limiter \<times> hit_kind" where
  "count_request now ip rl =
     (case map_of (rl_counts rl) ip of
        None \<Rightarrow>
          (rl\<lparr>rl_counts := AList.update ip \<lparr>ic_count = 1, ic_firstReqMs = now\<rparr> (rl_counts rl),
             rl_totalIPs := rl_totalIPs rl + 1\<rparr>, New_entry)
      | Some c \<Rightarrow>
          if now - ic_firstReqMs c > rl_windowMs rl
          then (rl\<lparr>rl_counts := AList.update ip \<lparr>ic_count = 1, ic_firstReqMs = now\<rparr> (rl_counts rl)\<rparr>,
                Window_reset)
          else (rl\<lparr>rl_counts := AList.update ip (c\<lparr>ic_count := ic_count c + 1\<rparr>) (rl_counts rl)\<rparr>,
                Counted (ic_count c + 1)))"

text \<open>\<open>ServeDNS\<close>: the query is forwarded or refused; the flag tells that a cleanup is started.\<close>

datatype verdict = Forward | Refuse

definition serve_rate ::
  "int \<Rightarrow> string option \<Rightarrow> rate_limiter \<Rightarrow> rate_limiter \<times> verdict \<times> bool" where
  "serve_rate now addr rl =
     (let clientIP = extractIP addr in
      if is_local clientIP then (rl, Forward, False)
      else case count_request now clientIP rl of
             (rl', New_entry) \<Rightarrow> (rl', Forward, rl_totalIPs rl' > maxTrackedIPs)
           | (rl', Window_reset) \<Rightarrow> (rl', Forward, False)
           | (rl', Counted n) \<Rightarrow> (rl', if n > rl_limit rl then Refuse else Forward, False))"

definition rate_cleanup :: "int \<Rightarrow> rate_limiter \<Rightarrow> rate_limiter" where
  "rate_cleanup now rl =
     (let kept = filter (\<lambda>e. \<not> now - ic_firstReqMs (snd e) > rl_windowMs rl) (rl_counts rl);
          evicted = int (length (rl_counts rl)) - int (length kept)
      in rl\<lparr>rl_counts := kept, rl_totalIPs := rl_totalIPs rl - evicted\<rparr>)"

text \<open>A run: queries with the peer's address, and cleanups.\<close>

datatype rate_event = Query "string option" | Cleanup

fun rate_step :: "int \<times> rate_event \<Rightarrow> rate_limiter \<Rightarrow> rate_limiter \<times> verdict option" where
  "rate_step (now, Query a) rl = (case serve_rate now a rl of (rl', v, force) \<Rightarrow> (rl', Some v))"
| "rate_step (now, Cleanup) rl = (rate_cleanup now rl, None)"

section \<open>At most the limit per window\<close>

definition rate_rec :: "rate_limiter \<Rightarrow> string \<Rightarrow> (int \<times> int) option" where
  "rate_rec rl ip = map_option (\<lambda>c. (ic_count c, ic_firstReqMs c)) (map_of (rl_counts rl) ip)"

text \<open>Who is counted for an event: nobody for a cleanup and for a local query.\<close>

definition rate_client :: "int \<times> rate_event \<Rightarrow> string option" where
  "rate_client e =
     (case snd e of
        Query a \<Rightarrow> if is_local (extractIP a) then None else Some (extractIP a)
      | Cleanup \<Rightarrow> None)"

definition rate_ok :: "int \<Rightarrow> int \<Rightarrow> rate_limiter \<Rightarrow> bool" where
  "rate_ok w n rl \<longleftrightarrow>
     rl_windowMs rl = w \<and> rl_limit rl = n \<and> 1 \<le> n \<and> distinct (map fst (rl_counts rl))"

lemma rate_cleanup_map:
  "rate_ok w n rl \<Longrightarrow> map_of (rl_counts (rate_cleanup now rl)) ip =
     (case map_of (rl_counts rl) ip of
        Some c \<Rightarrow> if now - ic_firstReqMs c > w then None else Some c | None \<Rightarrow> None)"
  using map_of_filter_value [of "rl_counts rl" "\<lambda>c. \<not> now - ic_firstReqMs c > w" ip]
  by (auto simp: rate_cleanup_def Let_def rate_ok_def split: option.splits)

lemma rate_step_ok: "rate_ok w n rl \<Longrightarrow> rate_ok w n (fst (rate_step e rl))"
  by (cases "(e, rl)" rule: rate_step.cases)
    (auto simp: serve_rate_def count_request_def rate_cleanup_def rate_ok_def Let_def distinct_update
      distinct_map_filter split: option.splits hit_kind.splits prod.splits)

lemma serve_rate_counted:
  "rate_client (now, v) = Some ip \<Longrightarrow>
     \<exists>a. v = Query a \<and> rate_step (now, v) rl =
       (case count_request now ip rl of (rl', h) \<Rightarrow>
          (rl', Some (case h of Counted n \<Rightarrow> if n > rl_limit rl then Refuse else Forward | _ \<Rightarrow> Forward)))"
  by (auto simp: rate_client_def serve_rate_def Let_def
      split: rate_event.splits if_splits prod.splits hit_kind.splits)

lemma count_request_rec:
  "rate_rec (fst (count_request now ip rl)) ip' =
     (if ip' \<noteq> ip then rate_rec rl ip'
      else case rate_rec rl ip of
             None \<Rightarrow> Some (1, now)
           | Some (c, t) \<Rightarrow> if now - t > rl_windowMs rl then Some (1, now) else Some (c + 1, t))"
  by (auto simp: rate_rec_def count_request_def update_conv' split: option.splits)

lemma count_request_kind:
  "snd (count_request now ip rl) =
     (case rate_rec rl ip of
        None \<Rightarrow> New_entry
      | Some (c, t) \<Rightarrow> if now - t > rl_windowMs rl then Window_reset else Counted (c + 1))"
  by (auto simp: rate_rec_def count_request_def split: option.splits)

lemma rate_step_other:
  assumes "rate_ok w n rl" and "rate_client e \<noteq> Some ip"
  shows "rate_rec (fst (rate_step e rl)) ip = rate_rec rl ip
    \<or> (\<exists>c t. rate_rec rl ip = Some (c, t) \<and> fst e - t > w \<and> rate_rec (fst (rate_step e rl)) ip = None)"
proof (cases "(e, rl)" rule: rate_step.cases)
  case (1 now a rl')
  with assms(2) show ?thesis
    by (auto simp: rate_client_def serve_rate_def count_request_rec
        Let_def split_def split: if_splits hit_kind.split)
next
  case (2 now rl')
  with rate_cleanup_map [OF assms(1), of now ip] show ?thesis
    by (auto simp: rate_rec_def split: option.splits)
qed

interpretation dns_gate: window_gate rate_step rate_client fst "\<lambda>v. v = Some Forward" rate_rec
  "rate_ok w n" w n for w n
proof
  fix s e k c t
  assume ok: "rate_ok w n s"
  show "rate_rec (fst (rate_step e s)) k = Some (1, fst e) \<and> (snd (rate_step e s) = Some Forward \<longleftrightarrow> 1 \<le> n)"
    if "rate_client e = Some k" "rate_rec s k = None"
    using serve_rate_counted [of "fst e" "snd e" k s] ok that
      count_request_rec [of "fst e" k s k] count_request_kind [of "fst e" k s]
    by (auto simp: split_def rate_ok_def)
  show "rate_rec (fst (rate_step e s)) k = Some (1, fst e) \<and> (snd (rate_step e s) = Some Forward \<longleftrightarrow> 1 \<le> n)"
    if "rate_client e = Some k" "rate_rec s k = Some (c, t)" "w < fst e - t"
    using serve_rate_counted [of "fst e" "snd e" k s] ok that
      count_request_rec [of "fst e" k s k] count_request_kind [of "fst e" k s]
    by (auto simp: split_def rate_ok_def)
  show "rate_rec (fst (rate_step e s)) k = Some (c + 1, t)
      \<and> (snd (rate_step e s) = Some Forward \<longleftrightarrow> c + 1 \<le> n)"
    if "rate_client e = Some k" "rate_rec s k = Some (c, t)" "fst e - t \<le> w"
    using serve_rate_counted [of "fst e" "snd e" k s] ok that
      count_request_rec [of "fst e" k s k] count_request_kind [of "fst e" k s]
    by (auto simp: split_def rate_ok_def)
  show "rate_rec (fst (rate_step e s)) k = None" if "rate_client e \<noteq> Some k" "rate_rec s k = None"
    using rate_step_other [OF ok that(1)] that(2) by simp
  show "rate_rec (fst (rate_step e s)) k = Some (c, t)"
    if "rate_client e \<noteq> Some k" "rate_rec s k = Some (c, t)" "fst e - t \<le> w"
    using rate_step_other [OF ok that(1)] that(2,3) by auto
qed

definition rate_run :: "(int \<times> rate_event) list \<Rightarrow> rate_limiter \<Rightarrow> rate_limiter \<times> verdict option list" where
  "rate_run = run_steps rate_step"

definition queries_of :: "string \<Rightarrow> (int \<times> rate_event) list \<Rightarrow> nat" where
  "queries_of ip es = length (filter (\<lambda>e. rate_client e = Some ip) es)"

definition forwarded_of :: "string \<Rightarrow> (int \<times> rate_event) list \<Rightarrow> rate_limiter \<Rightarrow> nat" where
  "forwarded_of ip es rl =
     length (filter (\<lambda>p. rate_client (fst p) = Some ip \<and> snd p = Some Forward)
       (zip es (snd (rate_run es rl))))"

text \<open>
  Within one window, of the queries of an address that is not local, from whatever ports they
  come and whatever other addresses and cleanups do in between, exactly the first \<open>limit\<close> are
  forwarded and the others refused: the number forwarded is the lesser of the limit and the number
  of queries.
\<close>

theorem dns_rate_window:
  assumes "rate_ok w n rl" and "map_of (rl_counts rl) ip = None"
    and "\<And>e e'. e \<in> set es \<Longrightarrow> e' \<in> set es \<Longrightarrow> fst e - fst e' \<le> w"
  shows "forwarded_of ip es rl = min (nat n) (queries_of ip es)"
proof -
  have f: "dns_gate.fitting w n es rl"
    by (rule dns_gate.fitting_invariant [of "rate_ok w n"]) (auto intro: assms(1) rate_step_ok)
  have r: "rate_rec rl ip = None" using assms(2) by (simp add: rate_rec_def)
  from dns_gate.passed_in_window [OF f r assms(3)] show ?thesis
    by (simp add: forwarded_of_def queries_of_def rate_run_def dns_gate.passed_of_def dns_gate.hits_of_def)
qed

theorem dns_rate_window_witness:
  "forwarded_of ''9.9.9.9'' [(5, Query (Some ''9.9.9.9:53'')), (6, Cleanup), (7, Query (Some ''9.9.9.9:99'')),
     (8, Query (Some ''[::1]:53'')), (60005, Query (Some ''9.9.9.9:53''))]
     (newRateLimiter\<lparr>rl_limit := 2\<rparr>) = 2"
  by (subst dns_rate_window [of 60000 2])
    (auto simp: rate_ok_def newRateLimiter_def defaultWindowMs_def is_local_def queries_of_def
      rate_client_def extractIP_def split_host_port_def)

section \<open>The size of the table\<close>

lemma length_update_alist:
  "length (AList.update k v xs) = (if map_of xs k = None then Suc (length xs) else length xs)"
  by (induction xs) auto

definition rate_inv :: "rate_limiter \<Rightarrow> bool" where
  "rate_inv rl \<longleftrightarrow> rl_totalIPs rl = int (length (rl_counts rl)) \<and> distinct (map fst (rl_counts rl))"

lemma rate_step_inv: "rate_inv rl \<Longrightarrow> rate_inv (fst (rate_step e rl))"
  by (cases "(e, rl)" rule: rate_step.cases)
    (auto simp: rate_inv_def serve_rate_def count_request_def rate_cleanup_def Let_def
      length_update_alist distinct_update distinct_map_filter split: option.splits hit_kind.splits prod.splits)

text \<open>
  The counter that guards the table's memory is exact: after any run it is the number of
  addresses the table holds, each once, so the memory guard compares its cap with the true size.
\<close>

theorem totalIPs_exact:
  "rate_inv (fst (rate_run es newRateLimiter))"
  unfolding rate_run_def
  by (rule run_steps_invariant) (simp add: rate_inv_def newRateLimiter_def, rule rate_step_inv)

end
