(* ===== verification/HttpFirewall.thy ===== *)
theory HttpFirewall
  imports Counting GoNet "HOL-Library.AList"
begin

text \<open>
  \<open>internal/proxy/proxy/firewall.go\<close>: the firewall of the reverse proxy. \<open>Check\<close> wraps the handler
  of a request, which may run for as long as a WebSocket lives, so it is two steps here: what happens
  up to the call of the wrapped handler, and the deferred release when that call returns. Each holds
  the mutex where the code does; the request table is an association list with distinct keys.
\<close>

section \<open>Configuration and state\<close>

record rate_limit_cfg =
  rc_enabled :: bool
  rc_windowMs :: int
  rc_max :: int

record fw_config =
  fc_enabled :: bool
  fc_rateLimit :: rate_limit_cfg
  fc_maxWSPerIP :: int
  fc_requestTimeout :: int
  fc_blacklist :: "string list"
  fc_whitelist :: "string list"

record requestRecord =
  rq_count :: int
  rq_timestamp :: int

record http_fw =
  hf_config :: fw_config
  hf_blacklist :: "string set"
  hf_whitelist :: "string set"
  hf_requests :: "(string \<times> requestRecord) list"
  hf_ws :: "string cmap"

text \<open>\<open>sliceToMap\<close>: the set of the entries.\<close>

definition sliceToMap :: "string list \<Rightarrow> string set" where
  "sliceToMap xs = set xs"

definition newFirewall :: "fw_config \<Rightarrow> http_fw" where
  "newFirewall cfg = \<lparr>hf_config = cfg, hf_blacklist = sliceToMap (fc_blacklist cfg),
     hf_whitelist = sliceToMap (fc_whitelist cfg), hf_requests = [], hf_ws = Map.empty\<rparr>"

definition firewall_updateConfig :: "fw_config \<Rightarrow> http_fw \<Rightarrow> http_fw" where
  "firewall_updateConfig cfg f = f\<lparr>hf_config := cfg, hf_blacklist := sliceToMap (fc_blacklist cfg),
     hf_whitelist := sliceToMap (fc_whitelist cfg)\<rparr>"

definition getRequestTimeout :: "http_fw \<Rightarrow> int" where
  "getRequestTimeout f = fc_requestTimeout (hf_config f)"

definition fw_cleanup :: "int \<Rightarrow> http_fw \<Rightarrow> http_fw" where
  "fw_cleanup now f =
     (let w = rc_windowMs (fc_rateLimit (hf_config f)) in
      if w = 0 then f
      else f\<lparr>hf_requests := filter (\<lambda>e. \<not> now - rq_timestamp (snd e) > w) (hf_requests f)\<rparr>)"

section \<open>Check\<close>

text \<open>The address of the peer, without its port and without the IPv4-mapped prefix.\<close>

definition client_ip :: "string \<Rightarrow> string" where
  "client_ip remoteAddr =
     (let ip = (case split_host_port remoteAddr of Some (host, port) \<Rightarrow> host | None \<Rightarrow> remoteAddr)
      in if has_prefix ip ''::ffff:'' then drop 7 ip else ip)"

text \<open>The rate-limited section under the lock: the table after it and the count.\<close>

definition count_http :: "int \<Rightarrow> string \<Rightarrow> rate_limit_cfg \<Rightarrow> http_fw \<Rightarrow> http_fw \<times> int" where
  "count_http now ip rl f0 =
     (let f = (if length (hf_requests f0) > 20000 then f0\<lparr>hf_requests := []\<rparr> else f0);
          r = (case map_of (hf_requests f) ip of
                 None \<Rightarrow> \<lparr>rq_count = 1, rq_timestamp = now\<rparr>
               | Some r \<Rightarrow>
                   if now - rq_timestamp r > rc_windowMs rl then \<lparr>rq_count = 1, rq_timestamp = now\<rparr>
                   else r\<lparr>rq_count := rq_count r + 1\<rparr>)
      in (f\<lparr>hf_requests := AList.update ip r (hf_requests f)\<rparr>, rq_count r))"

text \<open>
  What \<open>Check\<close> does with a request: call the wrapped handler, with or without a release when it
  returns, or answer with an error.
\<close>

datatype outcome =
  Next
| Next_ws string
| Forbidden
| Too_many_requests
| Too_many_websockets

definition check_ws :: "string \<Rightarrow> string \<Rightarrow> http_fw \<Rightarrow> http_fw \<times> outcome" where
  "check_ws ip upgrade f =
     (if to_lower upgrade = ''websocket'' \<and> fc_maxWSPerIP (hf_config f) > 0
      then if cget (hf_ws f) ip \<ge> fc_maxWSPerIP (hf_config f) then (f, Too_many_websockets)
           else (f\<lparr>hf_ws := cinc (hf_ws f) ip\<rparr>, Next_ws ip)
      else (f, Next))"

definition check :: "int \<Rightarrow> string \<Rightarrow> string \<Rightarrow> http_fw \<Rightarrow> http_fw \<times> outcome" where
  "check now remoteAddr upgrade f =
     (if \<not> fc_enabled (hf_config f) then (f, Next)
      else
        let ip = client_ip remoteAddr; rl = fc_rateLimit (hf_config f) in
        if ip \<in> hf_whitelist f then (f, Next)
        else if ip \<in> hf_blacklist f then (f, Forbidden)
        else if rc_enabled rl
        then (case count_http now ip rl f of (f', n) \<Rightarrow>
                if n > rc_max rl then (f', Too_many_requests) else check_ws ip upgrade f')
        else check_ws ip upgrade f)"

definition release_ws :: "string \<Rightarrow> http_fw \<Rightarrow> http_fw" where
  "release_ws ip f = f\<lparr>hf_ws := cdec (hf_ws f) ip\<rparr>"

lemma check_fields [simp]:
  "hf_config (fst (check now a u f)) = hf_config f"
  "hf_blacklist (fst (check now a u f)) = hf_blacklist f"
  "hf_whitelist (fst (check now a u f)) = hf_whitelist f"
  by (simp_all add: check_def check_ws_def count_http_def Let_def)

section \<open>The lists\<close>

lemma last_index_byte_append: "c \<notin> set t \<Longrightarrow> last_index_byte c (s @ c # t) = Some (length s)"
proof (induction s)
  case Nil
  have "last_index_byte c t = None" if "c \<notin> set t" for t using that by (induction t) auto
  with Nil show ?case by simp
next
  case (Cons a s)
  then show ?case by simp
qed

definition plain_addr :: "string \<Rightarrow> bool" where
  "plain_addr s \<longleftrightarrow> CHR '':'' \<notin> set s \<and> CHR ''['' \<notin> set s \<and> CHR '']'' \<notin> set s"

lemma client_ip_plain:
  assumes "plain_addr ip" and "plain_addr port" and "ip \<noteq> []"
  shows "client_ip (ip @ '':'' @ port) = ip"
proof -
  have l: "last_index_byte CHR '':'' (ip @ CHR '':'' # port) = Some (length ip)"
    using assms(2) by (simp add: plain_addr_def last_index_byte_append)
  have h: "hd (ip @ CHR '':'' # port) \<noteq> CHR ''[''"
    using assms(1,3) by (cases ip) (auto simp: plain_addr_def)
  have "split_host_port (ip @ CHR '':'' # port) = Some (ip, port)"
    using assms l h by (simp add: split_host_port_def plain_addr_def)
  moreover have "\<not> has_prefix ip ''::ffff:''"
    using assms(1,3) by (auto simp: has_prefix_iff plain_addr_def)
  ultimately show ?thesis by (simp add: client_ip_def)
qed

lemma client_ip_mapped:
  assumes "plain_addr ip" and "plain_addr port"
  shows "client_ip (''[::ffff:'' @ ip @ '']:'' @ port) = ip"
proof -
  let ?a = "''[::ffff:'' @ ip @ '']:'' @ port"
  have l: "last_index_byte CHR '':'' ?a = Some (9 + length ip)"
    using last_index_byte_append [of "CHR '':''" port "''[::ffff:'' @ ip @ '']''"] assms(2)
    by (simp add: plain_addr_def)
  have e: "index_byte CHR '']'' ?a = Some (8 + length ip)"
    using index_byte_append [of "CHR '']''" "''[::ffff:'' @ ip" "'':'' @ port"] assms(1)
    by (simp add: plain_addr_def)
  have "split_host_port ?a = Some (''::ffff:'' @ ip, port)"
    unfolding split_host_port_def l option.case using e assms
    by (simp add: plain_addr_def numeral_eq_Suc)
  then show ?thesis by (simp add: client_ip_def Let_def has_prefix_def)
qed

text \<open>
  The lists and limits cannot be evaded by the way an address is written: a connection from the
  IPv4-mapped form \<open>[::ffff:ip]:port\<close> is treated, in every state, exactly as one from \<open>ip:port'\<close>,
  whatever the ports.
\<close>

theorem mapped_form_same_verdict:
  assumes "plain_addr ip" and "ip \<noteq> []" and "plain_addr port" and "plain_addr port'"
  shows "check now (''[::ffff:'' @ ip @ '']:'' @ port) upgrade f = check now (ip @ '':'' @ port') upgrade f"
  by (simp add: check_def client_ip_plain [OF assms(1,4,2)] client_ip_mapped [OF assms(1,3)]
      del: append.simps)

definition demo_cfg :: fw_config where
  "demo_cfg = \<lparr>fc_enabled = True, fc_rateLimit = \<lparr>rc_enabled = True, rc_windowMs = 1000, rc_max = 2\<rparr>,
     fc_maxWSPerIP = 1, fc_requestTimeout = 30, fc_blacklist = [''6.6.6.6''], fc_whitelist = []\<rparr>"

theorem mapped_form_same_verdict_witness:
  "snd (check 0 ''[::ffff:6.6.6.6]:8080'' [] (newFirewall demo_cfg)) = Forbidden"
proof -
  have "check 0 ''[::ffff:6.6.6.6]:8080'' [] (newFirewall demo_cfg)
      = check 0 ''6.6.6.6:1'' [] (newFirewall demo_cfg)"
    using mapped_form_same_verdict [of "''6.6.6.6''" "''8080''" "''1''" 0 "[]" "newFirewall demo_cfg"]
    by (simp add: plain_addr_def)
  moreover have "client_ip ''6.6.6.6:1'' = ''6.6.6.6''"
    using client_ip_plain [of "''6.6.6.6''" "''1''"] by (simp add: plain_addr_def)
  ultimately show ?thesis
    by (simp add: check_def newFirewall_def demo_cfg_def sliceToMap_def Let_def)
qed

section \<open>The request rate\<close>

datatype http_event = Request string string | Sweep

fun http_step :: "int \<times> http_event \<Rightarrow> http_fw \<Rightarrow> http_fw \<times> outcome" where
  "http_step (now, Request a u) f = check now a u f"
| "http_step (now, Sweep) f = (fw_cleanup now f, Next)"

definition http_client :: "fw_config \<Rightarrow> int \<times> http_event \<Rightarrow> string option" where
  "http_client cfg e =
     (case snd e of
        Request a u \<Rightarrow>
          if client_ip a \<in> set (fc_whitelist cfg) \<or> client_ip a \<in> set (fc_blacklist cfg) then None
          else Some (client_ip a)
      | Sweep \<Rightarrow> None)"

definition http_rec :: "http_fw \<Rightarrow> string \<Rightarrow> (int \<times> int) option" where
  "http_rec f ip = map_option (\<lambda>r. (rq_count r, rq_timestamp r)) (map_of (hf_requests f) ip)"

text \<open>A limiting configuration in force, and room in the table.\<close>

definition http_ok :: "fw_config \<Rightarrow> nat \<Rightarrow> http_fw \<Rightarrow> bool" where
  "http_ok cfg n f \<longleftrightarrow>
     hf_config f = cfg \<and> hf_whitelist f = set (fc_whitelist cfg) \<and> hf_blacklist f = set (fc_blacklist cfg)
     \<and> fc_enabled cfg \<and> rc_enabled (fc_rateLimit cfg) \<and> distinct (map fst (hf_requests f))
     \<and> length (hf_requests f) + n \<le> 20000"

lemma fw_cleanup_rec:
  "http_ok cfg n f \<Longrightarrow> http_rec (fw_cleanup now f) ip =
     (case http_rec f ip of
        Some (c, t) \<Rightarrow>
          if rc_windowMs (fc_rateLimit cfg) \<noteq> 0 \<and> now - t > rc_windowMs (fc_rateLimit cfg) then None
          else Some (c, t)
      | None \<Rightarrow> None)"
  using map_of_filter_value [of "hf_requests f" "\<lambda>r. \<not> now - rq_timestamp r > rc_windowMs (fc_rateLimit cfg)" ip]
  by (auto simp: http_rec_def fw_cleanup_def Let_def http_ok_def split: option.splits)

lemma check_ws_requests [simp]: "hf_requests (fst (check_ws ip u f)) = hf_requests f"
  by (simp add: check_ws_def)

lemma check_ws_outcome [simp]: "snd (check_ws ip u f) \<noteq> Too_many_requests"
  by (simp add: check_ws_def)

lemma count_http_rec:
  "length (hf_requests f) \<le> 20000 \<Longrightarrow>
   http_rec (fst (count_http now ip rl f)) ip' =
     (if ip' \<noteq> ip then http_rec f ip'
      else case http_rec f ip of
             None \<Rightarrow> Some (1, now)
           | Some (c, t) \<Rightarrow> if now - t > rc_windowMs rl then Some (1, now) else Some (c + 1, t))"
  by (auto simp: http_rec_def count_http_def update_conv' Let_def split: option.splits)

lemma count_http_value:
  "length (hf_requests f) \<le> 20000 \<Longrightarrow>
   snd (count_http now ip rl f) =
     (case http_rec f ip of
        None \<Rightarrow> 1 | Some (c, t) \<Rightarrow> if now - t > rc_windowMs rl then 1 else c + 1)"
  by (auto simp: http_rec_def count_http_def Let_def split: option.splits)

lemma http_rec_requests: "hf_requests f = hf_requests g \<Longrightarrow> http_rec f = http_rec g"
  by (simp add: http_rec_def fun_eq_iff)

lemma check_counted:
  assumes "http_ok cfg n f" and "http_client cfg (now, Request a u) = Some ip"
  shows "hf_requests (fst (check now a u f))
      = hf_requests (fst (count_http now ip (fc_rateLimit cfg) f))
    \<and> (snd (check now a u f) \<noteq> Too_many_requests
        \<longleftrightarrow> snd (count_http now ip (fc_rateLimit cfg) f) \<le> rc_max (fc_rateLimit cfg))"
  using assms by (auto simp: check_def http_ok_def http_client_def split_def Let_def split: if_splits)

lemma check_exempt:
  assumes "http_ok cfg n f" and "http_client cfg (now, Request a u) = None"
  shows "hf_requests (fst (check now a u f)) = hf_requests f"
  using assms by (auto simp: check_def http_ok_def http_client_def Let_def split: if_splits)

lemma http_step_other:
  assumes ok: "http_ok cfg n f" and "http_client cfg e \<noteq> Some ip"
  shows "http_rec (fst (http_step e f)) ip = http_rec f ip
    \<or> (\<exists>c t. http_rec f ip = Some (c, t) \<and> fst e - t > rc_windowMs (fc_rateLimit cfg)
         \<and> http_rec (fst (http_step e f)) ip = None)"
proof (cases "(e, f)" rule: http_step.cases)
  case (1 now a u f')
  show ?thesis
  proof (cases "http_client cfg e")
    case None
    with 1 have "hf_requests (fst (check now a u f)) = hf_requests f"
      by (intro check_exempt [OF ok]) simp
    from http_rec_requests [OF this] 1 show ?thesis by simp
  next
    case (Some ip')
    with 1 assms(2) check_counted [OF ok] have "http_rec (fst (check now a u f))
        = http_rec (fst (count_http now ip' (fc_rateLimit cfg) f))"
      by (intro http_rec_requests) auto
    moreover have "length (hf_requests f) \<le> 20000" using ok by (simp add: http_ok_def)
    ultimately show ?thesis using 1 Some assms(2) count_http_rec [of f now ip' _ ip] by auto
  qed
next
  case (2 now f')
  with fw_cleanup_rec [OF ok, of now ip] show ?thesis by (auto split: option.splits)
qed

lemma http_step_ok:
  assumes "http_ok cfg (Suc n) f"
  shows "http_ok cfg n (fst (http_step e f))"
proof (cases "(e, f)" rule: http_step.cases)
  case (1 now a u f')
  have u: "length (AList.update k v xs) \<le> Suc (length xs)" for k and v :: requestRecord and xs
    by (induction xs) auto
  have "distinct (map fst (hf_requests (fst (check now a u f))))
      \<and> length (hf_requests (fst (check now a u f))) \<le> Suc (length (hf_requests f))"
    using assms by (auto simp: http_ok_def check_def count_http_def Let_def distinct_update u
        split: option.splits)
  with assms 1 show ?thesis by (auto simp: http_ok_def)
next
  case (2 now f')
  with assms show ?thesis
    by (auto simp: http_ok_def fw_cleanup_def Let_def distinct_map_filter
        intro: order_trans [OF add_right_mono [OF length_filter_le]])
qed

interpretation http_gate: window_gate http_step "http_client cfg" fst "\<lambda>v. v \<noteq> Too_many_requests"
  http_rec "http_ok cfg 0" "rc_windowMs (fc_rateLimit cfg)" "rc_max (fc_rateLimit cfg)" for cfg
proof
  fix e s k c t
  assume ok: "http_ok cfg 0 s"
  have len: "length (hf_requests s) \<le> 20000" using ok by (simp add: http_ok_def)
  have req: "http_rec (fst (http_step e s)) k = (case http_rec s k of
            None \<Rightarrow> Some (1, fst e)
          | Some (c, t) \<Rightarrow> if fst e - t > rc_windowMs (fc_rateLimit cfg) then Some (1, fst e) else Some (c + 1, t))
      \<and> (snd (http_step e s) \<noteq> Too_many_requests \<longleftrightarrow> (case http_rec s k of
            None \<Rightarrow> 1
          | Some (c, t) \<Rightarrow> if fst e - t > rc_windowMs (fc_rateLimit cfg) then 1 else c + 1)
             \<le> rc_max (fc_rateLimit cfg))"
    if cl: "http_client cfg e = Some k"
  proof -
    from cl obtain now a u where e: "e = (now, Request a u)"
      by (cases e) (auto simp: http_client_def split: http_event.splits)
    from check_counted [OF ok, of now a u k] cl e
    have "http_rec (fst (check now a u s)) = http_rec (fst (count_http now k (fc_rateLimit cfg) s))"
      by (intro http_rec_requests) simp
    with check_counted [OF ok, of now a u k] cl show ?thesis
      unfolding e fst_conv by (simp add: count_http_rec [OF len] count_http_value [OF len])
  qed
  show "http_rec (fst (http_step e s)) k = Some (1, fst e)
      \<and> (snd (http_step e s) \<noteq> Too_many_requests \<longleftrightarrow> 1 \<le> rc_max (fc_rateLimit cfg))"
    if "http_client cfg e = Some k" "http_rec s k = None"
    using req that by simp
  show "http_rec (fst (http_step e s)) k = Some (1, fst e)
      \<and> (snd (http_step e s) \<noteq> Too_many_requests \<longleftrightarrow> 1 \<le> rc_max (fc_rateLimit cfg))"
    if "http_client cfg e = Some k" "http_rec s k = Some (c, t)" "rc_windowMs (fc_rateLimit cfg) < fst e - t"
    using req that by simp
  show "http_rec (fst (http_step e s)) k = Some (c + 1, t)
      \<and> (snd (http_step e s) \<noteq> Too_many_requests \<longleftrightarrow> c + 1 \<le> rc_max (fc_rateLimit cfg))"
    if "http_client cfg e = Some k" "http_rec s k = Some (c, t)" "fst e - t \<le> rc_windowMs (fc_rateLimit cfg)"
    using req that by simp
  show "http_rec (fst (http_step e s)) k = None" if "http_client cfg e \<noteq> Some k" "http_rec s k = None"
    using http_step_other [OF ok that(1)] that(2) by simp
  show "http_rec (fst (http_step e s)) k = Some (c, t)"
    if "http_client cfg e \<noteq> Some k" "http_rec s k = Some (c, t)" "fst e - t \<le> rc_windowMs (fc_rateLimit cfg)"
    using http_step_other [OF ok that(1)] that(2,3) by auto
qed

lemma http_fitting: "http_ok cfg (length es) f \<Longrightarrow> http_gate.fitting cfg es f"
proof (induction es arbitrary: f)
  case (Cons e es)
  then have "http_ok cfg (length es) (fst (http_step e f))" using http_step_ok by simp
  moreover have "http_ok cfg 0 f" using Cons.prems by (simp add: http_ok_def)
  ultimately show ?case using Cons.IH by simp
qed simp

definition http_run :: "(int \<times> http_event) list \<Rightarrow> http_fw \<Rightarrow> http_fw \<times> outcome list" where
  "http_run = run_steps http_step"

definition requests_of :: "fw_config \<Rightarrow> string \<Rightarrow> (int \<times> http_event) list \<Rightarrow> nat" where
  "requests_of cfg ip es = length (filter (\<lambda>e. http_client cfg e = Some ip) es)"

definition admitted_of :: "fw_config \<Rightarrow> string \<Rightarrow> (int \<times> http_event) list \<Rightarrow> http_fw \<Rightarrow> nat" where
  "admitted_of cfg ip es f =
     length (filter (\<lambda>p. http_client cfg (fst p) = Some ip \<and> snd p \<noteq> Too_many_requests)
       (zip es (snd (http_run es f))))"

text \<open>
  Within one window of the configured limit, of the requests of an address that is on no list,
  from whatever ports, with any requests of other addresses and any sweeps in between, exactly
  \<open>max\<close> (or all, if they are fewer) get past the rate limit, as long as the run leaves room in the
  table for every client (it is cleared when it passes 20000).
\<close>

theorem http_rate_window:
  assumes "http_ok cfg (length es) f" and "map_of (hf_requests f) ip = None"
    and "\<And>e e'. e \<in> set es \<Longrightarrow> e' \<in> set es \<Longrightarrow> fst e - fst e' \<le> rc_windowMs (fc_rateLimit cfg)"
  shows "admitted_of cfg ip es f = min (nat (rc_max (fc_rateLimit cfg))) (requests_of cfg ip es)"
proof -
  have r: "http_rec f ip = None" using assms(2) by (simp add: http_rec_def)
  from http_gate.passed_in_window [OF http_fitting [OF assms(1)] r assms(3)] show ?thesis
    by (simp add: admitted_of_def requests_of_def http_run_def http_gate.passed_of_def
        http_gate.hits_of_def)
qed

theorem http_rate_window_witness:
  "admitted_of demo_cfg ''9.9.9.9'' [(5, Request ''9.9.9.9:1'' []), (6, Request ''[::ffff:9.9.9.9]:7'' []),
     (7, Sweep), (8, Request ''9.9.9.9:2'' [])] (newFirewall demo_cfg) = 2"
proof -
  have c: "client_ip ''9.9.9.9:1'' = ''9.9.9.9''" "client_ip ''9.9.9.9:2'' = ''9.9.9.9''"
      "client_ip ''[::ffff:9.9.9.9]:7'' = ''9.9.9.9''"
    using client_ip_plain [of "''9.9.9.9''" "''1''"] client_ip_plain [of "''9.9.9.9''" "''2''"]
      client_ip_mapped [of "''9.9.9.9''" "''7''"] by (simp_all add: plain_addr_def)
  show ?thesis
    by (subst http_rate_window)
      (auto simp: http_ok_def newFirewall_def demo_cfg_def sliceToMap_def requests_of_def
        http_client_def c)
qed

section \<open>Concurrent WebSockets\<close>

text \<open>
  The firewall with the WebSockets whose handler is running and that were counted. A request may
  come at any time, a running handler may return at any time, and the configuration may change.
\<close>

record ws_state =
  wss_fw :: http_fw
  wss_open :: "string multiset"

inductive ws_step :: "int \<Rightarrow> ws_state \<Rightarrow> ws_state \<Rightarrow> bool" for cap where
  serve: "check now a u (wss_fw s) = (f, v) \<Longrightarrow>
     ws_step cap s \<lparr>wss_fw = f,
       wss_open = (case v of Next_ws ip \<Rightarrow> add_mset ip (wss_open s) | _ \<Rightarrow> wss_open s)\<rparr>"
| return: "ip \<in># wss_open s \<Longrightarrow>
     ws_step cap s \<lparr>wss_fw = release_ws ip (wss_fw s), wss_open = wss_open s - {#ip#}\<rparr>"
| sweep: "ws_step cap s (s\<lparr>wss_fw := fw_cleanup now (wss_fw s)\<rparr>)"
| reconfigure: "fc_maxWSPerIP cfg \<le> cap \<Longrightarrow> ws_step cap s (s\<lparr>wss_fw := firewall_updateConfig cfg (wss_fw s)\<rparr>)"

inductive ws_reachable :: "int \<Rightarrow> ws_state \<Rightarrow> bool" for cap where
  start: "fc_maxWSPerIP cfg \<le> cap \<Longrightarrow> ws_reachable cap \<lparr>wss_fw = newFirewall cfg, wss_open = {#}\<rparr>"
| step: "ws_reachable cap s \<Longrightarrow> ws_step cap s t \<Longrightarrow> ws_reachable cap t"

definition ws_inv :: "int \<Rightarrow> ws_state \<Rightarrow> bool" where
  "ws_inv cap s \<longleftrightarrow> counts (hf_ws (wss_fw s)) (wss_open s)
     \<and> (\<forall>ip. 0 < count (wss_open s) ip \<longrightarrow> int (count (wss_open s) ip) \<le> cap)
     \<and> fc_maxWSPerIP (hf_config (wss_fw s)) \<le> cap"

lemma check_ws_effect:
  "(hf_ws (fst (check now a u f)) = hf_ws f \<and> (\<forall>ip. snd (check now a u f) \<noteq> Next_ws ip))
   \<or> (\<exists>ip. snd (check now a u f) = Next_ws ip \<and> hf_ws (fst (check now a u f)) = cinc (hf_ws f) ip
        \<and> cget (hf_ws f) ip < fc_maxWSPerIP (hf_config f))"
proof -
  have "hf_ws (fst (count_http now ip rl f)) = hf_ws f"
      "hf_config (fst (count_http now ip rl f)) = hf_config f" for ip rl
    by (simp_all add: count_http_def Let_def)
  then show ?thesis by (auto simp: check_def check_ws_def Let_def split_def)
qed

lemma ws_step_inv: "ws_step cap s t \<Longrightarrow> ws_inv cap s \<Longrightarrow> ws_inv cap t"
proof (induction rule: ws_step.induct)
  case (serve now a u s f v)
  have f: "f = fst (check now a u (wss_fw s))" and v: "v = snd (check now a u (wss_fw s))"
    using serve(1) by simp_all
  from check_ws_effect [of now a u "wss_fw s"] show ?case
  proof (elim disjE exE conjE)
    assume "hf_ws (fst (check now a u (wss_fw s))) = hf_ws (wss_fw s)"
      and "\<forall>ip. snd (check now a u (wss_fw s)) \<noteq> Next_ws ip"
    with serve(2) f v show ?thesis by (auto simp: ws_inv_def split: outcome.split)
  next
    fix ip
    assume n: "snd (check now a u (wss_fw s)) = Next_ws ip"
      and w: "hf_ws (fst (check now a u (wss_fw s))) = cinc (hf_ws (wss_fw s)) ip"
      and lt: "cget (hf_ws (wss_fw s)) ip < fc_maxWSPerIP (hf_config (wss_fw s))"
    have "int (count (wss_open s) ip) < cap"
      using lt serve(2) counts_cget [of "hf_ws (wss_fw s)" "wss_open s" ip] by (simp add: ws_inv_def)
    with n w serve(2) f v counts_cinc [of "hf_ws (wss_fw s)" "wss_open s" ip] show ?thesis
      by (auto simp: ws_inv_def)
  qed
next
  case (return ip s)
  have le: "int (count (wss_open s - {#ip#}) ip') \<le> cap" if "0 < count (wss_open s - {#ip#}) ip'" for ip'
  proof -
    have le: "count (wss_open s - {#ip#}) ip' \<le> count (wss_open s) ip'" by simp
    with that have "0 < count (wss_open s) ip'" by linarith
    with return(2) have "int (count (wss_open s) ip') \<le> cap" by (simp add: ws_inv_def)
    with le show ?thesis by linarith
  qed
  with return counts_cdec [of "hf_ws (wss_fw s)" "wss_open s" ip] show ?case
    by (auto simp: ws_inv_def release_ws_def)
next
  case (sweep s now)
  then show ?case by (simp add: ws_inv_def fw_cleanup_def Let_def)
next
  case (reconfigure cfg s)
  then show ?case by (simp add: ws_inv_def firewall_updateConfig_def)
qed

lemma ws_reachable_inv: "ws_reachable cap s \<Longrightarrow> ws_inv cap s"
proof (induction rule: ws_reachable.induct)
  case (start cfg)
  then show ?case by (simp add: ws_inv_def newFirewall_def counts_empty)
qed (rule ws_step_inv)

text \<open>
  In every reachable state the WebSocket counter of an address is the number of its counted
  WebSockets whose handler is still running, and that number never exceeds the largest limit that
  was ever configured; an address without one has no entry.
\<close>

theorem websockets_exact_and_capped:
  assumes "ws_reachable cap s"
  shows "hf_ws (wss_fw s) ip = (if ip \<in># wss_open s then Some (int (count (wss_open s) ip)) else None)
    \<and> (ip \<in># wss_open s \<longrightarrow> int (count (wss_open s) ip) \<le> cap)"
  using ws_reachable_inv [OF assms] by (auto simp: ws_inv_def counts_def)

theorem websockets_exact_and_capped_witness:
  "let f = fst (check 0 ''9.9.9.9:1'' ''WebSocket'' (newFirewall demo_cfg)) in
   ws_reachable 1 \<lparr>wss_fw = f, wss_open = {#''9.9.9.9''#}\<rparr> \<and> hf_ws f ''9.9.9.9'' = Some 1"
proof -
  have c: "client_ip ''9.9.9.9:1'' = ''9.9.9.9''"
    using client_ip_plain [of "''9.9.9.9''" "''1''"] by (simp add: plain_addr_def)
  have l: "to_lower ''WebSocket'' = ''websocket''" by code_simp
  let ?c = "check 0 ''9.9.9.9:1'' ''WebSocket'' (newFirewall demo_cfg)"
  have v: "snd ?c = Next_ws ''9.9.9.9''"
    by (simp add: check_def check_ws_def count_http_def newFirewall_def demo_cfg_def sliceToMap_def c
        cget_def l Let_def)
  let ?s = "\<lparr>wss_fw = newFirewall demo_cfg, wss_open = {#}\<rparr>"
  have e: "check 0 ''9.9.9.9:1'' ''WebSocket'' (wss_fw ?s) = (fst ?c, Next_ws ''9.9.9.9'')"
    by (simp add: prod_eq_iff v)
  have "ws_reachable 1 ?s" by (rule ws_reachable.start) (simp add: demo_cfg_def)
  from ws_reachable.step [OF this ws_step.serve [OF e]]
  have r: "ws_reachable 1 \<lparr>wss_fw = fst ?c, wss_open = {#''9.9.9.9''#}\<rparr>" by simp
  from websockets_exact_and_capped [OF r, of "''9.9.9.9''"] r show ?thesis by simp
qed

end
