(* ===== verification/Dns.thy ===== *)
theory Dns
  imports GoNet "HOL-Library.Word"
begin

text \<open>
  \<open>internal/dns/resolver/{resolver,records}.go\<close> with the data of \<open>internal/dns/config/config.go\<close>:
  the authoritative DNS resolver. Package \<open>miekg/dns\<close> is not in this repository: what the resolver
  takes from it is \<open>dns.Fqdn\<close>, a parameter, and the resource records, a datatype with the fields the
  code fills in. Query types are those the resolver distinguishes, every other one is \<open>TypeOther\<close>.

  A configuration lists its zones in the order Go's map iteration happens to take; a JSON \<open>int\<close> is an
  \<^typ>\<open>int\<close> and becomes a word where the code converts it.
\<close>

section \<open>Configuration\<close>

record ip_entry =
  ie_address :: string
  ie_ptr :: string
  ie_public :: bool

record ip_config =
  ips_ipv4 :: "ip_entry list"
  ips_ipv6 :: "ip_entry list"
  ips_primary :: string

record soa_record =
  soa_email :: string
  soa_expire :: int
  soa_minimum :: int
  soa_primary :: string
  soa_refresh :: int
  soa_retry :: int
  soa_serial :: int
  soa_ttl :: int

record dns_record =
  dr_id :: string
  dr_name :: string
  dr_priority :: int
  dr_ttl :: int
  dr_type :: string
  dr_value :: string

record zone =
  zn_records :: "dns_record list"
  zn_soa :: soa_record

record dns_config =
  dc_ips :: ip_config
  dc_zones :: "(string \<times> zone) list"

section \<open>Messages\<close>

type_synonym uint32 = "32 word"

record rr_header =
  rr_name :: string
  rr_ttl :: uint32

datatype rr =
  RR_A rr_header "nat list"
| RR_AAAA rr_header "nat list"
| RR_CNAME rr_header string
| RR_MX rr_header "16 word" string
| RR_TXT rr_header "string list"
| RR_NS rr_header string
| RR_SOA rr_header string string uint32 uint32 uint32 uint32 uint32
| RR_CAA rr_header "8 word" string string

datatype qtype = TypeA | TypeAAAA | TypeCNAME | TypeMX | TypeTXT | TypeNS | TypeSOA | TypeCAA
  | TypeANY | TypeOther

datatype rcode = RcodeSuccess | RcodeFormatError | RcodeNameError

text \<open>The reply \<open>SetReply\<close> makes of the request, as far as the resolver changes it.\<close>

record msg =
  m_rcode :: rcode
  m_authoritative :: bool
  m_answer :: "rr list"
  m_ns :: "rr list"

definition new_reply :: msg where
  "new_reply = \<lparr>m_rcode = RcodeSuccess, m_authoritative = True, m_answer = [], m_ns = []\<rparr>"

definition add_answer :: "rr list \<Rightarrow> msg \<Rightarrow> msg" where
  "add_answer rs m = m\<lparr>m_answer := m_answer m @ rs\<rparr>"

section \<open>The zone database\<close>

record zone_data =
  zd_domain :: string
  zd_names :: "string set"
  zd_records :: "string \<times> string \<Rightarrow> dns_record list option"
  zd_soa :: soa_record
  zd_wildcards :: "string \<Rightarrow> string option"

record resolver =
  rs_ips :: ip_config
  rs_zones :: "string \<Rightarrow> zone_data option"

definition newResolver :: resolver where
  "newResolver = \<lparr>rs_ips = \<lparr>ips_ipv4 = [], ips_ipv6 = [], ips_primary = []\<rparr>, rs_zones = Map.empty\<rparr>"

definition index_record :: "dns_record \<Rightarrow> zone_data \<Rightarrow> zone_data" where
  "index_record rec zd =
     (let name = to_lower (dr_name rec);
          key = (name, to_upper (dr_type rec));
          old = (case zd_records zd key of Some rs \<Rightarrow> rs | None \<Rightarrow> []);
          zd1 = zd\<lparr>zd_records := (zd_records zd)(key \<mapsto> old @ [rec]),
                   zd_names := insert name (zd_names zd)\<rparr>
      in if has_prefix name ''*.''
         then zd1\<lparr>zd_wildcards := (zd_wildcards zd1)(drop 2 name \<mapsto> name)\<rparr> else zd1)"

definition build_zone :: "string \<Rightarrow> zone \<Rightarrow> zone_data" where
  "build_zone domain z =
     fold index_record (zn_records z)
       \<lparr>zd_domain = to_lower domain, zd_names = {}, zd_records = Map.empty, zd_soa = zn_soa z,
        zd_wildcards = Map.empty\<rparr>"

definition updateConfig :: "dns_config \<Rightarrow> resolver \<Rightarrow> resolver" where
  "updateConfig cfg r =
     r\<lparr>rs_zones := fold (\<lambda>(domain, z) zs. let zd = build_zone domain z in zs(zd_domain zd \<mapsto> zd))
          (dc_zones cfg) Map.empty,
       rs_ips := dc_ips cfg\<rparr>"

section \<open>Finding the zone and the name\<close>

text \<open>The walk up the tree: \<open>a.b.c\<close>, \<open>b.c\<close>, \<open>c\<close>.\<close>

function resolveZone_from :: "(string \<Rightarrow> zone_data option) \<Rightarrow> string \<Rightarrow> (zone_data \<times> string) option" where
  "resolveZone_from zones domain =
     (case zones domain of
        Some z \<Rightarrow> Some (z, domain)
      | None \<Rightarrow>
          (case index_byte CHR ''.'' domain of
             None \<Rightarrow> None
           | Some i \<Rightarrow> resolveZone_from zones (drop (i + 1) domain)))"
  by pat_completeness auto
termination
  by (relation "measure (\<lambda>(zones, d). length d)") (auto dest: index_byte_SomeD)

declare resolveZone_from.simps [simp del]

definition resolveZone :: "resolver \<Rightarrow> string \<Rightarrow> (zone_data \<times> string) option" where
  "resolveZone r qName = resolveZone_from (rs_zones r) qName"

text \<open>The wildcard loop over \<open>parts[i:]\<close>, from \<open>i = 1\<close>.\<close>

fun wildcard_loop :: "zone_data \<Rightarrow> string \<Rightarrow> string list \<Rightarrow> string option" where
  "wildcard_loop zd domain [] = None"
| "wildcard_loop zd domain (p # ps) =
     (let sub = join_str (p # ps) ''.'' in
      case zd_wildcards zd sub of
        Some w \<Rightarrow> Some w
      | None \<Rightarrow> if sub = domain then None else wildcard_loop zd domain ps)"

definition matchName :: "zone_data \<Rightarrow> string \<Rightarrow> string \<Rightarrow> string option" where
  "matchName zd qName domain =
     (if qName = domain then Some qName
      else if qName \<in> zd_names zd then Some qName
      else wildcard_loop zd domain (tl (split_byte CHR ''.'' qName)))"

section \<open>Record handlers\<close>

definition ttl_of :: "int \<Rightarrow> uint32" where
  "ttl_of n = (let t = word_of_int n in if t = 0 then 3600 else t)"

fun first_public :: "ip_entry list \<Rightarrow> string" where
  "first_public [] = []"
| "first_public (e # es) = (if ie_public e then ie_address e else first_public es)"

definition ptr_matches :: "string \<Rightarrow> string \<Rightarrow> bool" where
  "ptr_matches domainLower ptrLower \<longleftrightarrow>
     ptrLower = domainLower
     \<or> has_suffix domainLower (CHR ''.'' # ptrLower) \<or> has_suffix ptrLower (CHR ''.'' # domainLower)"

fun ptr_loop :: "string \<Rightarrow> ip_entry list \<Rightarrow> string \<Rightarrow> string" where
  "ptr_loop domainLower [] def = def"
| "ptr_loop domainLower (e # es) def =
     (if ie_ptr e = [] then ptr_loop domainLower es def
      else if ptr_matches domainLower (to_lower (ie_ptr e)) then ie_address e
      else ptr_loop domainLower es def)"

definition resolveIPByPTR :: "string \<Rightarrow> string \<Rightarrow> ip_config \<Rightarrow> string" where
  "resolveIPByPTR domain ipType ips =
     (let ipList = (if ipType = ''ipv6'' then ips_ipv6 ips else ips_ipv4 ips);
          d0 = first_public ipList;
          def = (if d0 = [] \<and> ipType = ''ipv4'' then ips_primary ips else d0)
      in ptr_loop (to_lower domain) ipList def)"

definition a_address :: "string \<Rightarrow> string \<Rightarrow> string \<Rightarrow> ip_config \<Rightarrow> string \<Rightarrow> string" where
  "a_address placeholder ipType qName ips value =
     (if value = placeholder \<or> value = []
      then let resolved = resolveIPByPTR qName ipType ips in if resolved \<noteq> [] then resolved else value
      else value)"

definition a_record :: "string \<Rightarrow> string \<Rightarrow> ip_config \<Rightarrow> dns_record \<Rightarrow> rr list" where
  "a_record qName fqdn ips rec =
     (case parse_ip (a_address ''127.0.0.1'' ''ipv4'' qName ips (dr_value rec)) of
        None \<Rightarrow> []
      | Some ip \<Rightarrow>
          (case to4 ip of None \<Rightarrow> []
           | Some q \<Rightarrow> [RR_A \<lparr>rr_name = fqdn, rr_ttl = ttl_of (dr_ttl rec)\<rparr> q]))"

definition aaaa_record :: "string \<Rightarrow> string \<Rightarrow> ip_config \<Rightarrow> dns_record \<Rightarrow> rr list" where
  "aaaa_record qName fqdn ips rec =
     (case parse_ip (a_address ''::1'' ''ipv6'' qName ips (dr_value rec)) of
        None \<Rightarrow> []
      | Some ip \<Rightarrow>
          if to4 ip \<noteq> None then [] else [RR_AAAA \<lparr>rr_name = fqdn, rr_ttl = ttl_of (dr_ttl rec)\<rparr> ip])"

text \<open>\<open>zone.records[key]\<close>, empty when absent: no handler treats the two differently.\<close>

definition lookup_rr :: "zone_data \<Rightarrow> string \<Rightarrow> string \<Rightarrow> dns_record list" where
  "lookup_rr zd name rtype = (case zd_records zd (name, rtype) of Some rs \<Rightarrow> rs | None \<Rightarrow> [])"

definition processA :: "zone_data \<Rightarrow> string \<Rightarrow> string \<Rightarrow> ip_config \<Rightarrow> msg \<Rightarrow> msg" where
  "processA zd qName fqdn ips m =
     add_answer (concat (map (a_record qName fqdn ips) (lookup_rr zd qName ''A''))) m"

definition processAAAA :: "zone_data \<Rightarrow> string \<Rightarrow> string \<Rightarrow> ip_config \<Rightarrow> msg \<Rightarrow> msg" where
  "processAAAA zd qName fqdn ips m =
     add_answer (concat (map (aaaa_record qName fqdn ips) (lookup_rr zd qName ''AAAA''))) m"

definition processCNAME :: "(string \<Rightarrow> string) \<Rightarrow> dns_record list \<Rightarrow> string \<Rightarrow> msg \<Rightarrow> msg" where
  "processCNAME Fqdn records qName m =
     add_answer (map (\<lambda>rec. RR_CNAME \<lparr>rr_name = Fqdn qName, rr_ttl = ttl_of (dr_ttl rec)\<rparr>
        (Fqdn (dr_value rec))) records) m"

definition parseCAA :: "string \<Rightarrow> string \<Rightarrow> int \<Rightarrow> rr option" where
  "parseCAA value fqdn ttl =
     (case split_n 3 CHR '' '' value of
        [flags, tag, val] \<Rightarrow>
          Some (RR_CAA \<lparr>rr_name = fqdn, rr_ttl = ttl_of ttl\<rparr> (if flags = ''128'' then 128 else 0) tag val)
      | _ \<Rightarrow> None)"

definition addDefaultCAARecords :: "string \<Rightarrow> msg \<Rightarrow> msg" where
  "addDefaultCAARecords fqdn m =
     add_answer [RR_CAA \<lparr>rr_name = fqdn, rr_ttl = 3600\<rparr> 0 ''issue'' ''letsencrypt.org'',
                 RR_CAA \<lparr>rr_name = fqdn, rr_ttl = 3600\<rparr> 0 ''issuewild'' ''letsencrypt.org''] m"

definition processCAA :: "zone_data \<Rightarrow> string \<Rightarrow> string \<Rightarrow> msg \<Rightarrow> msg" where
  "processCAA zd qName fqdn m =
     (let records = lookup_rr zd qName ''CAA'' in
      if records \<noteq> []
      then add_answer (concat (map (\<lambda>rec. case parseCAA (dr_value rec) fqdn (dr_ttl rec) of
                                      Some c \<Rightarrow> [c] | None \<Rightarrow> []) records)) m
      else addDefaultCAARecords fqdn m)"

definition processMX :: "(string \<Rightarrow> string) \<Rightarrow> zone_data \<Rightarrow> string \<Rightarrow> string \<Rightarrow> msg \<Rightarrow> msg" where
  "processMX Fqdn zd qName fqdn m =
     add_answer (map (\<lambda>rec. let p = word_of_int (dr_priority rec) in
         RR_MX \<lparr>rr_name = fqdn, rr_ttl = ttl_of (dr_ttl rec)\<rparr> (if p = 0 then 10 else p) (Fqdn (dr_value rec)))
       (lookup_rr zd qName ''MX'')) m"

definition processNS :: "(string \<Rightarrow> string) \<Rightarrow> zone_data \<Rightarrow> string \<Rightarrow> string \<Rightarrow> msg \<Rightarrow> msg" where
  "processNS Fqdn zd qName fqdn m =
     (case zd_records zd (qName, ''NS'') of
        None \<Rightarrow> m
      | Some records \<Rightarrow>
          m\<lparr>m_authoritative := True,
            m_ns := m_ns m @ map (\<lambda>rec. RR_NS \<lparr>rr_name = fqdn, rr_ttl = ttl_of (dr_ttl rec)\<rparr>
              (Fqdn (dr_value rec))) records\<rparr>)"

definition soa_rr :: "(string \<Rightarrow> string) \<Rightarrow> zone_data \<Rightarrow> string \<Rightarrow> rr" where
  "soa_rr Fqdn zd domain =
     (let soa = zd_soa zd in
      RR_SOA \<lparr>rr_name = Fqdn domain, rr_ttl = ttl_of (soa_ttl soa)\<rparr> (Fqdn (soa_primary soa))
        (Fqdn (soa_email soa)) (word_of_int (soa_serial soa)) (word_of_int (soa_refresh soa))
        (word_of_int (soa_retry soa)) (word_of_int (soa_expire soa)) (ttl_of (soa_minimum soa)))"

definition processSOA :: "(string \<Rightarrow> string) \<Rightarrow> zone_data \<Rightarrow> string \<Rightarrow> msg \<Rightarrow> msg" where
  "processSOA Fqdn zd domain m = add_answer [soa_rr Fqdn zd domain] m"

definition addSOAAuthority :: "(string \<Rightarrow> string) \<Rightarrow> zone_data \<Rightarrow> string \<Rightarrow> msg \<Rightarrow> msg" where
  "addSOAAuthority Fqdn zd domain m = m\<lparr>m_ns := m_ns m @ [soa_rr Fqdn zd domain]\<rparr>"

function txt_chunks :: "string \<Rightarrow> string list" where
  "txt_chunks value =
     (if value = [] then [] else take 255 value # txt_chunks (drop 255 value))"
  by pat_completeness auto
termination
  by (relation "measure length") (auto simp: length_greater_0_conv)

declare txt_chunks.simps [simp del]

definition splitTXT :: "string \<Rightarrow> string list" where
  "splitTXT value = (if length value \<le> 255 then [value] else txt_chunks value)"

definition processTXT :: "zone_data \<Rightarrow> string \<Rightarrow> string \<Rightarrow> msg \<Rightarrow> msg" where
  "processTXT zd qName fqdn m =
     add_answer (map (\<lambda>rec. RR_TXT \<lparr>rr_name = fqdn, rr_ttl = ttl_of (dr_ttl rec)\<rparr> (splitTXT (dr_value rec)))
       (lookup_rr zd qName ''TXT'')) m"

section \<open>CNAME chains and the dispatch\<close>

definition cname_target :: "string \<Rightarrow> string" where
  "cname_target value = to_lower (trim_suffix value ''.'')"

fun chase_loop ::
  "(string \<Rightarrow> string) \<Rightarrow> nat \<Rightarrow> zone_data \<Rightarrow> dns_record list \<Rightarrow> qtype \<Rightarrow> ip_config \<Rightarrow> msg \<Rightarrow> msg" where
  "chase_loop Fqdn 0 zd cs qType ips m = m"
| "chase_loop Fqdn (Suc n) zd [] qType ips m = m"
| "chase_loop Fqdn (Suc n) zd (c # cs) qType ips m =
     (let target = cname_target (dr_value c); next_rs = lookup_rr zd target ''CNAME'' in
      if next_rs \<noteq> []
      then chase_loop Fqdn n zd next_rs qType ips (processCNAME Fqdn next_rs target m)
      else if qType = TypeA then processA zd target (Fqdn target) ips m
      else if qType = TypeAAAA then processAAAA zd target (Fqdn target) ips m
      else m)"

definition chaseCNAME ::
  "(string \<Rightarrow> string) \<Rightarrow> zone_data \<Rightarrow> dns_record list \<Rightarrow> qtype \<Rightarrow> ip_config \<Rightarrow> msg \<Rightarrow> msg" where
  "chaseCNAME Fqdn zd cs qType ips m =
     (if qType \<noteq> TypeA \<and> qType \<noteq> TypeAAAA then m else chase_loop Fqdn 8 zd cs qType ips m)"

definition serveDNS :: "(string \<Rightarrow> string) \<Rightarrow> (string \<times> qtype) list \<Rightarrow> resolver \<Rightarrow> msg" where
  "serveDNS Fqdn question r =
     (case question of
        [] \<Rightarrow> new_reply\<lparr>m_rcode := RcodeFormatError\<rparr>
      | (q, qType) # _ \<Rightarrow>
          let qName = to_lower (trim_suffix q ''.''); ips = rs_ips r in
          (case resolveZone r qName of
             None \<Rightarrow> new_reply\<lparr>m_rcode := RcodeNameError\<rparr>
           | Some (zd, domain) \<Rightarrow>
               (case matchName zd qName domain of
                  None \<Rightarrow> addSOAAuthority Fqdn zd domain (new_reply\<lparr>m_rcode := RcodeNameError\<rparr>)
                | Some name \<Rightarrow>
                    if qType = TypeANY then processSOA Fqdn zd domain new_reply
                    else
                      let cs = lookup_rr zd name ''CNAME''; fqdn = Fqdn qName in
                      if cs \<noteq> []
                      then chaseCNAME Fqdn zd cs qType ips (processCNAME Fqdn cs qName new_reply)
                      else (case qType of
                              TypeA \<Rightarrow> processA zd name fqdn ips new_reply
                            | TypeAAAA \<Rightarrow> processAAAA zd name fqdn ips new_reply
                            | TypeCNAME \<Rightarrow> processCNAME Fqdn cs qName new_reply
                            | TypeMX \<Rightarrow> processMX Fqdn zd name fqdn new_reply
                            | TypeTXT \<Rightarrow> processTXT zd name fqdn new_reply
                            | TypeNS \<Rightarrow> processNS Fqdn zd name fqdn new_reply
                            | TypeSOA \<Rightarrow> processSOA Fqdn zd domain new_reply
                            | TypeCAA \<Rightarrow> processCAA zd name fqdn new_reply
                            | TypeANY \<Rightarrow> new_reply
                            | TypeOther \<Rightarrow> new_reply))))"

section \<open>The index of a zone\<close>

definition records_of :: "zone \<Rightarrow> string \<Rightarrow> string \<Rightarrow> dns_record list" where
  "records_of z name rtype =
     filter (\<lambda>rec. to_lower (dr_name rec) = name \<and> to_upper (dr_type rec) = rtype) (zn_records z)"

lemma index_fold:
  "lookup_rr (fold index_record rs zd) n t
     = lookup_rr zd n t @ filter (\<lambda>rec. to_lower (dr_name rec) = n \<and> to_upper (dr_type rec) = t) rs
   \<and> zd_names (fold index_record rs zd) = zd_names zd \<union> (to_lower \<circ> dr_name) ` set rs
   \<and> zd_soa (fold index_record rs zd) = zd_soa zd
   \<and> zd_domain (fold index_record rs zd) = zd_domain zd"
proof (induction rs arbitrary: zd)
  case (Cons r rs)
  have "lookup_rr (index_record r zd) n t = lookup_rr zd n t
      @ (if to_lower (dr_name r) = n \<and> to_upper (dr_type r) = t then [r] else [])"
    by (auto simp: index_record_def lookup_rr_def Let_def)
  moreover have "zd_names (index_record r zd) = insert (to_lower (dr_name r)) (zd_names zd)"
      "zd_soa (index_record r zd) = zd_soa zd" "zd_domain (index_record r zd) = zd_domain zd"
    by (simp_all add: index_record_def Let_def)
  ultimately show ?case using Cons.IH [of "index_record r zd"] by auto
qed simp

lemma wildcard_fold:
  "zd_wildcards (fold index_record rs zd) p =
     (if \<exists>rec \<in> set rs. to_lower (dr_name rec) = ''*.'' @ p then Some (''*.'' @ p) else zd_wildcards zd p)"
proof (induction rs arbitrary: zd)
  case (Cons r rs)
  have "zd_wildcards (index_record r zd) p =
      (if to_lower (dr_name r) = ''*.'' @ p then Some (''*.'' @ p) else zd_wildcards zd p)"
    by (auto simp: index_record_def Let_def has_prefix_iff)
  with Cons.IH [of "index_record r zd"] show ?case by simp
qed simp

text \<open>
  The index of a zone is the zone: looking up a name and a type gives the records of the zone
  with that name and type, in their order, whatever their letter case; the name set is exactly the
  names of its records, and a wildcard is indexed exactly under the parent it covers.
\<close>

theorem build_zone_index:
  "lookup_rr (build_zone d z) n t = records_of z n t
   \<and> zd_names (build_zone d z) = (to_lower \<circ> dr_name) ` set (zn_records z)
   \<and> zd_wildcards (build_zone d z) p =
       (if list_ex (\<lambda>rec. to_lower (dr_name rec) = ''*.'' @ p) (zn_records z) then Some (''*.'' @ p) else None)"
  using index_fold [of "zn_records z" _ n t] wildcard_fold [of "zn_records z" _ p]
  by (simp add: build_zone_def records_of_def lookup_rr_def list_ex_iff)

section \<open>The zone of a name\<close>

definition label_suffix :: "string \<Rightarrow> string \<Rightarrow> bool" where
  "label_suffix d q \<longleftrightarrow> d = q \<or> has_suffix q (CHR ''.'' # d)"

lemma has_suffix_iff: "has_suffix s p \<longleftrightarrow> (\<exists>t. s = t @ p)"
proof
  assume "has_suffix s p"
  then have "s = take (length s - length p) s @ p"
    unfolding has_suffix_def by (metis append_take_drop_id)
  then show "\<exists>t. s = t @ p" ..
qed (auto simp: has_suffix_def)

lemma label_suffix_step:
  assumes "index_byte CHR ''.'' q = Some i"
  shows "label_suffix d q \<longleftrightarrow> d = q \<or> label_suffix d (drop (i + 1) q)"
proof -
  from index_byte_SomeD [OF assms] have i: "i < length q" "q ! i = CHR ''.''" "CHR ''.'' \<notin> set (take i q)"
    by simp_all
  have q: "q = take i q @ CHR ''.'' # drop (i + 1) q" using i id_take_nth_drop [of i q] by simp
  have "t @ CHR ''.'' # d = q \<Longrightarrow> length t = i \<or> (\<exists>u. drop (i + 1) q = u @ CHR ''.'' # d)" for t
  proof -
    assume t: "t @ CHR ''.'' # d = q"
    have "\<not> length t < i"
    proof
      assume "length t < i"
      then have "q ! length t \<in> set (take i q)" using i(1) by (auto simp: in_set_conv_nth)
      with t i(3) show False by auto
    qed
    then consider "length t = i" | "i < length t" by linarith
    then show "length t = i \<or> (\<exists>u. drop (i + 1) q = u @ CHR ''.'' # d)"
    proof cases
      case 2
      then have "drop (i + 1) q = drop (i + 1) t @ CHR ''.'' # d" using t by (auto simp flip: t)
      then show ?thesis by blast
    qed simp
  qed
  then have "has_suffix q (CHR ''.'' # d) \<Longrightarrow> label_suffix d (drop (i + 1) q)"
    by (fastforce simp: has_suffix_iff label_suffix_def)
  moreover have "label_suffix d (drop (i + 1) q) \<Longrightarrow> has_suffix q (CHR ''.'' # d)"
    using q by (auto simp: has_suffix_iff label_suffix_def intro: exI [of _ "take i q @ CHR ''.'' # t" for t])
  ultimately show ?thesis by (auto simp: label_suffix_def)
qed

lemma label_suffix_no_dot: "index_byte CHR ''.'' q = None \<Longrightarrow> label_suffix d q \<longleftrightarrow> d = q"
  by (auto simp: label_suffix_def has_suffix_iff)

lemma label_suffix_length: "label_suffix d q \<Longrightarrow> length d \<le> length q"
  by (auto simp: label_suffix_def has_suffix_iff)

lemma resolveZone_from_spec:
  "case resolveZone_from zones q of
     Some (z, d) \<Rightarrow> zones d = Some z \<and> label_suffix d q
       \<and> (\<forall>d'. label_suffix d' q \<and> zones d' \<noteq> None \<longrightarrow> length d' \<le> length d)
   | None \<Rightarrow> \<forall>d'. label_suffix d' q \<longrightarrow> zones d' = None"
proof (induction zones q rule: resolveZone_from.induct)
  case (1 zones q)
  show ?case
  proof (cases "zones q")
    case (Some z)
    then show ?thesis
      by (subst resolveZone_from.simps) (auto simp: label_suffix_length, simp add: label_suffix_def)
  next
    case None
    show ?thesis
    proof (cases "index_byte CHR ''.'' q")
      case no: None
      with None show ?thesis
        by (subst resolveZone_from.simps) (simp add: label_suffix_no_dot [OF no] no del: index_byte_None)
    next
      case (Some i)
      with None "1.IH" [OF None Some] show ?thesis
        by (subst resolveZone_from.simps) (auto simp: label_suffix_step [OF Some] split: option.splits)
    qed
  qed
qed

text \<open>
  A query is answered from the most specific zone: the zone found is the one with the longest
  name among those that end the query name at a label boundary, and none is found only if there is
  no such zone.
\<close>

theorem resolveZone_longest:
  "case resolveZone r q of
     Some (z, d) \<Rightarrow> rs_zones r d = Some z \<and> label_suffix d q
       \<and> (\<nexists>d'. label_suffix d' q \<and> rs_zones r d' \<noteq> None \<and> length d < length d')
   | None \<Rightarrow> (\<nexists>d'. label_suffix d' q \<and> rs_zones r d' \<noteq> None)"
  using resolveZone_from_spec [where zones = "rs_zones r" and q = q]
  by (auto simp: resolveZone_def not_less split: option.splits)

section \<open>Names that do not exist\<close>

text \<open>The wildcards that apply to a name: those at its proper ancestors, down to the zone's domain.\<close>

definition covers :: "string \<Rightarrow> string \<Rightarrow> string \<Rightarrow> bool" where
  "covers domain q p \<longleftrightarrow> has_suffix q (CHR ''.'' # p) \<and> label_suffix domain p"

lemma index_byte_split:
  assumes "index_byte c s = Some i"
  shows "s = take i s @ c # drop (i + 1) s" and "split_byte c s = take i s # split_byte c (drop (i + 1) s)"
proof -
  from index_byte_SomeD [OF assms] have i: "i < length s" "s ! i = c" "c \<notin> set (take i s)" by simp_all
  then show s: "s = take i s @ c # drop (i + 1) s" using id_take_nth_drop [of i s] by simp
  show "split_byte c s = take i s # split_byte c (drop (i + 1) s)"
    by (subst (1) s) (rule split_byte_append [OF i(3)])
qed

lemma index_byte_rest: "index_byte c s = Some i \<Longrightarrow> length (drop (i + 1) s) < length s"
  using index_byte_SomeD [of c s i] by (simp, linarith)

lemma label_suffix_refl [simp]: "label_suffix d d"
  by (simp add: label_suffix_def)

lemma wildcard_loop_finds:
  "label_suffix domain s \<Longrightarrow>
     wildcard_loop zd domain (split_byte CHR ''.'' s) \<noteq> None
       \<longleftrightarrow> (\<exists>p. label_suffix p s \<and> label_suffix domain p \<and> zd_wildcards zd p \<noteq> None)"
proof (induction "length s" arbitrary: s rule: less_induct)
  case less
  show ?case
  proof (cases "index_byte CHR ''.'' s")
    case None
    then have "split_byte CHR ''.'' s = [s]" by (simp add: split_byte_id)
    with less.prems show ?thesis by (auto simp: label_suffix_no_dot [OF None] Let_def split: option.splits)
  next
    case (Some i)
    let ?v = "drop (i + 1) s"
    have len: "length ?v < length s" by (rule index_byte_rest [OF Some])
    have join: "join_str (take i s # split_byte CHR ''.'' ?v) ''.'' = s"
      using join_split [of "CHR ''.''" s] index_byte_split(2) [OF Some] by simp
    have loop: "wildcard_loop zd domain (split_byte CHR ''.'' s) =
        (case zd_wildcards zd s of Some w \<Rightarrow> Some w
         | None \<Rightarrow> if s = domain then None else wildcard_loop zd domain (split_byte CHR ''.'' ?v))"
      unfolding index_byte_split(2) [OF Some] wildcard_loop.simps Let_def join ..
    note step = label_suffix_step [OF Some]
    show ?thesis
    proof (cases "zd_wildcards zd s")
      case None
      show ?thesis
      proof (cases "s = domain")
        case True
        have "\<not> label_suffix domain p" if "label_suffix p ?v" for p
          using label_suffix_length [OF that] label_suffix_length [of domain p] len True by auto
        with None True show ?thesis unfolding loop step by auto
      next
        case False
        with less.prems have "label_suffix domain ?v" using step by auto
        from less.hyps [OF len this] None False show ?thesis unfolding loop step by auto
      qed
    next
      case (Some w)
      with less.prems show ?thesis unfolding loop by (auto intro: exI [of _ s])
    qed
  qed
qed

lemma covers_iff:
  assumes "index_byte CHR ''.'' q = Some i"
  shows "covers domain q p \<longleftrightarrow> label_suffix p (drop (i + 1) q) \<and> label_suffix domain p"
proof -
  have "label_suffix p (drop (i + 1) q) \<Longrightarrow> length p < length q"
    using label_suffix_length [of p "drop (i + 1) q"] index_byte_rest [OF assms] by linarith
  then have "has_suffix q (CHR ''.'' # p) \<longleftrightarrow> label_suffix p (drop (i + 1) q)"
    using label_suffix_step [OF assms, of p] by (auto simp: label_suffix_def has_suffix_iff)
  then show ?thesis by (simp add: covers_def)
qed

lemma matchName_iff:
  assumes "label_suffix domain q"
  shows "matchName zd q domain \<noteq> None
    \<longleftrightarrow> q = domain \<or> q \<in> zd_names zd \<or> (\<exists>p. covers domain q p \<and> zd_wildcards zd p \<noteq> None)"
proof (cases "q = domain \<or> q \<in> zd_names zd")
  case True
  then show ?thesis by (auto simp: matchName_def)
next
  case False
  then obtain i where i: "index_byte CHR ''.'' q = Some i"
    using assms label_suffix_no_dot [of q domain] by (cases "index_byte CHR ''.'' q") auto
  have "label_suffix domain (drop (i + 1) q)" using assms False label_suffix_step [OF i] by auto
  from wildcard_loop_finds [OF this, of zd] False show ?thesis
    by (simp add: matchName_def index_byte_split(2) [OF i] covers_iff [OF i] conj_assoc)
qed

named_theorems replies "what a handler leaves of a reply"

lemma handlers_rcode [replies]:
  "m_rcode (processA zd n f ips m) = m_rcode m" "m_rcode (processAAAA zd n f ips m) = m_rcode m"
  "m_rcode (processCNAME F cs q m) = m_rcode m" "m_rcode (processCAA zd n f m) = m_rcode m"
  "m_rcode (processMX F zd n f m) = m_rcode m" "m_rcode (processTXT zd n f m) = m_rcode m"
  "m_rcode (processNS F zd n f m) = m_rcode m" "m_rcode (processSOA F zd d m) = m_rcode m"
  "m_rcode (addSOAAuthority F zd d m) = m_rcode m"
  by (simp_all add: processA_def processAAAA_def processCNAME_def processCAA_def processMX_def
      processTXT_def processNS_def processSOA_def addSOAAuthority_def addDefaultCAARecords_def
      add_answer_def Let_def split: option.split)

lemma chase_loop_rcode [replies]: "m_rcode (chase_loop F n zd cs t ips m) = m_rcode m"
  by (induction F n zd cs t ips m rule: chase_loop.induct) (simp_all add: replies Let_def)

lemma chaseCNAME_rcode [replies]: "m_rcode (chaseCNAME F zd cs t ips m) = m_rcode m"
  by (simp add: chaseCNAME_def replies)

text \<open>
  C39. In a zone built from a configuration, a name is denied (NXDOMAIN) exactly when it is not the
  zone's own name, no record of the zone has it, and no wildcard record sits at one of its proper
  ancestors within the zone; every other query of the zone gets a success code.
\<close>

theorem nxdomain_iff:
  assumes "resolveZone r q = Some (build_zone d z, domain)" and "q = to_lower (trim_suffix name ''.'')"
  shows "m_rcode (serveDNS Fqdn [(name, t)] r) =
    (if q \<noteq> domain
        \<and> \<not> (\<exists>rec \<in> set (zn_records z). to_lower (dr_name rec) = q
              \<or> (\<exists>p. to_lower (dr_name rec) = ''*.'' @ p \<and> covers domain q p))
     then RcodeNameError else RcodeSuccess)"
proof -
  have suf: "label_suffix domain q"
    using resolveZone_from_spec [where zones = "rs_zones r" and q = q] assms(1)
    by (simp add: resolveZone_def)
  have idx: "zd_names (build_zone d z) = (to_lower \<circ> dr_name) ` set (zn_records z)"
      "zd_wildcards (build_zone d z) p \<noteq> None \<longleftrightarrow> (\<exists>rec \<in> set (zn_records z). to_lower (dr_name rec) = ''*.'' @ p)"
    for p
    using index_fold [of "zn_records z"] wildcard_fold [of "zn_records z" _ p]
    by (auto simp: build_zone_def)
  have ex: "matchName (build_zone d z) q domain \<noteq> None \<longleftrightarrow> q = domain
      \<or> (\<exists>rec \<in> set (zn_records z). to_lower (dr_name rec) = q
              \<or> (\<exists>p. to_lower (dr_name rec) = ''*.'' @ p \<and> covers domain q p))"
    unfolding matchName_iff [OF suf] idx by auto
  show ?thesis
  proof (cases "matchName (build_zone d z) q domain")
    case None
    with ex assms show ?thesis by (auto simp: serveDNS_def Let_def replies)
  next
    case (Some n)
    have "m_rcode (serveDNS Fqdn [(name, t)] r) = RcodeSuccess"
      using assms Some by (cases t) (simp_all add: serveDNS_def Let_def replies new_reply_def)
    moreover have "\<not> (q \<noteq> domain
        \<and> \<not> (\<exists>rec \<in> set (zn_records z). to_lower (dr_name rec) = q
              \<or> (\<exists>p. to_lower (dr_name rec) = ''*.'' @ p \<and> covers domain q p)))"
      using Some ex by auto
    ultimately show ?thesis by (simp only: if_False)
  qed
qed

definition mk_record :: "string \<Rightarrow> string \<Rightarrow> string \<Rightarrow> dns_record" where
  "mk_record name rtype value = \<lparr>dr_id = [], dr_name = name, dr_priority = 0, dr_ttl = 0,
     dr_type = rtype, dr_value = value\<rparr>"

definition demo_zone :: zone where
  "demo_zone = \<lparr>zn_records = [mk_record ''WWW.ex.co'' ''cname'' ''ex.co.'', mk_record ''ex.co'' ''a'' ''10.0.0.1'',
       mk_record ''*.w.ex.co'' ''TXT'' ''hi'', mk_record ''a.b.ex.co'' ''A'' ''10.0.0.2''],
     zn_soa = \<lparr>soa_email = ''e'', soa_expire = 0, soa_minimum = 0, soa_primary = ''p'', soa_refresh = 0,
       soa_retry = 0, soa_serial = 1, soa_ttl = 0\<rparr>\<rparr>"

definition demo_resolver :: resolver where
  "demo_resolver = updateConfig \<lparr>dc_ips = \<lparr>ips_ipv4 = [], ips_ipv6 = [], ips_primary = []\<rparr>,
     dc_zones = [(''Ex.co'', demo_zone)]\<rparr> newResolver"

lemma demo_zone_found:
  assumes "label_suffix ''ex.co'' q"
  shows "resolveZone demo_resolver q = Some (build_zone ''Ex.co'' demo_zone, ''ex.co'')"
proof -
  have l: "to_lower ''Ex.co'' = ''ex.co''" by code_simp
  have "rs_zones demo_resolver = Map.empty(''ex.co'' \<mapsto> build_zone ''Ex.co'' demo_zone)"
    using index_fold [of "zn_records demo_zone"]
    by (simp add: demo_resolver_def updateConfig_def Let_def build_zone_def l)
  with resolveZone_from_spec [where zones = "rs_zones demo_resolver" and q = q] assms
  show ?thesis by (auto simp: resolveZone_def split: option.splits if_splits)
qed

text \<open>
  An empty non-terminal is denied: \<open>a.b.ex.co\<close> exists, so \<open>b.ex.co\<close> is a name of the zone in the sense
  of RFC 8020, yet the answer for it is NXDOMAIN.
\<close>

theorem nxdomain_iff_witness:
  "m_rcode (serveDNS (\<lambda>s. s) [(''B.ex.co.'', TypeA)] demo_resolver) = RcodeNameError"
proof -
  have q: "to_lower (trim_suffix ''B.ex.co.'' ''.'') = ''b.ex.co''" by code_simp
  have n: "map (to_lower \<circ> dr_name) (zn_records demo_zone) = [''www.ex.co'', ''ex.co'', ''*.w.ex.co'', ''a.b.ex.co'']"
    by code_simp
  have r: "resolveZone demo_resolver ''b.ex.co'' = Some (build_zone ''Ex.co'' demo_zone, ''ex.co'')"
    by (rule demo_zone_found) (simp add: label_suffix_def has_suffix_def)
  have c: "\<not> covers ''ex.co'' ''b.ex.co'' ''w.ex.co''" by code_simp
  have "\<not> (\<exists>rec \<in> set (zn_records demo_zone). to_lower (dr_name rec) = ''b.ex.co''
              \<or> (\<exists>p. to_lower (dr_name rec) = ''*.'' @ p \<and> covers ''ex.co'' ''b.ex.co'' p))"
  proof
    assume "\<exists>rec \<in> set (zn_records demo_zone). to_lower (dr_name rec) = ''b.ex.co''
              \<or> (\<exists>p. to_lower (dr_name rec) = ''*.'' @ p \<and> covers ''ex.co'' ''b.ex.co'' p)"
    then obtain nm where "nm \<in> set (map (to_lower \<circ> dr_name) (zn_records demo_zone))"
      and "nm = ''b.ex.co'' \<or> (\<exists>p. nm = ''*.'' @ p \<and> covers ''ex.co'' ''b.ex.co'' p)"
      by auto
    with c show False unfolding n by auto
  qed
  with nxdomain_iff [OF r q [symmetric]] show ?thesis by simp
qed

section \<open>Every answer is well-formed\<close>

definition rr_ok :: "rr \<Rightarrow> bool" where
  "rr_ok x =
     (case x of
        RR_A h q \<Rightarrow> rr_ttl h \<noteq> 0 \<and> length q = 4 \<and> is_bytes q
      | RR_AAAA h q \<Rightarrow> rr_ttl h \<noteq> 0 \<and> length q = 16 \<and> is_bytes q \<and> to4 q = None
      | RR_TXT h cs \<Rightarrow> rr_ttl h \<noteq> 0 \<and> cs \<noteq> [] \<and> list_all (\<lambda>c. length c \<le> 255) cs
      | RR_MX h p t \<Rightarrow> rr_ttl h \<noteq> 0 \<and> p \<noteq> 0
      | RR_SOA h a b s r t e n \<Rightarrow> rr_ttl h \<noteq> 0 \<and> n \<noteq> 0
      | RR_CNAME h t \<Rightarrow> rr_ttl h \<noteq> 0
      | RR_NS h t \<Rightarrow> rr_ttl h \<noteq> 0
      | RR_CAA h f t v \<Rightarrow> rr_ttl h \<noteq> 0 \<and> (f = 0 \<or> f = 128))"

definition msg_ok :: "msg \<Rightarrow> bool" where
  "msg_ok m \<longleftrightarrow> list_all rr_ok (m_answer m) \<and> list_all rr_ok (m_ns m)"

lemma ttl_of_nonzero [simp]: "ttl_of n \<noteq> 0"
  by (simp add: ttl_of_def Let_def)

lemma txt_chunks_ok: "concat (txt_chunks v) = v \<and> list_all (\<lambda>c. length c \<le> 255) (txt_chunks v)"
proof (induction v rule: txt_chunks.induct)
  case (1 v)
  show ?case
  proof (cases "v = []")
    case True
    then show ?thesis by (simp add: txt_chunks.simps [of "[]"])
  next
    case False
    with 1 show ?thesis by (simp add: txt_chunks.simps [of v])
  qed
qed

lemma splitTXT_facts:
  "concat (splitTXT v) = v" "list_all (\<lambda>c. length c \<le> 255) (splitTXT v)" "splitTXT v \<noteq> []"
  using txt_chunks_ok [of v] by (auto simp: splitTXT_def txt_chunks.simps [of v])

lemma a_record_ok: "list_all rr_ok (a_record n f ips rec)"
  by (auto simp: a_record_def rr_ok_def dest: to4_bytes split: option.split)

lemma aaaa_record_ok: "list_all rr_ok (aaaa_record n f ips rec)"
  by (auto simp: aaaa_record_def rr_ok_def dest: parse_ip_bytes split: option.split)

lemma parseCAA_ok:
  "parseCAA v f t = Some c \<Longrightarrow> \<exists>h fl tag val. c = RR_CAA h fl tag val \<and> rr_ttl h \<noteq> 0 \<and> (fl = 0 \<or> fl = 128)"
  by (auto simp: parseCAA_def split: list.splits if_splits)

lemma list_all_concat_map: "(\<And>x. list_all P (f x)) \<Longrightarrow> list_all P (concat (map f xs))"
  by (induction xs) simp_all

lemma handlers_ok [replies]:
  assumes "msg_ok m"
  shows "msg_ok (processA zd n f ips m)" "msg_ok (processAAAA zd n f ips m)"
    "msg_ok (processCNAME F cs q m)" "msg_ok (processCAA zd n f m)" "msg_ok (processMX F zd n f m)"
    "msg_ok (processTXT zd n f m)" "msg_ok (processNS F zd n f m)" "msg_ok (processSOA F zd d m)"
    "msg_ok (addSOAAuthority F zd d m)"
  using assms
  by (auto simp: msg_ok_def processA_def processAAAA_def processCNAME_def processCAA_def processMX_def
      processTXT_def processNS_def processSOA_def addSOAAuthority_def addDefaultCAARecords_def
      soa_rr_def add_answer_def Let_def list_all_iff [of _ "map _ _"] rr_ok_def
      a_record_ok aaaa_record_ok list_all_concat_map splitTXT_facts dest!: parseCAA_ok
      intro!: list_all_concat_map split: option.split)

lemma chase_loop_ok [replies]: "msg_ok m \<Longrightarrow> msg_ok (chase_loop F n zd cs t ips m)"
  by (induction F n zd cs t ips m rule: chase_loop.induct) (simp_all add: replies Let_def)

text \<open>
  Whatever the configuration holds, everything the resolver puts in a reply is well-formed: no
  record has TTL 0, A data is four bytes and AAAA data sixteen that are not an IPv4 address, every
  TXT record has at least one string and none longer than 255 bytes, MX preferences are not 0, and a
  CAA flag is 0 or critical.
\<close>

theorem replies_well_formed: "msg_ok (serveDNS Fqdn question r)"
proof -
  have "msg_ok new_reply" "msg_ok (new_reply\<lparr>m_rcode := c\<rparr>)" for c
    by (simp_all add: msg_ok_def new_reply_def)
  then show ?thesis
    by (auto simp: serveDNS_def Let_def chaseCNAME_def replies split: list.split option.split qtype.split)
qed

text \<open>
  Splitting a TXT value loses nothing: the character-strings joined are the value, there is at
  least one, and none is longer than the 255 bytes of a DNS string.
\<close>

theorem splitTXT_roundtrip:
  "concat (splitTXT v) = v \<and> splitTXT v \<noteq> [] \<and> list_all (\<lambda>c. length c \<le> 255) (splitTXT v)"
  using splitTXT_facts [of v] by simp

section \<open>CNAME chains\<close>

text \<open>
  The names a chain of first CNAME records goes through, starting from the records of a name, and
  ending in a name that has none.
\<close>

fun cname_chain :: "zone_data \<Rightarrow> dns_record list \<Rightarrow> string list \<Rightarrow> bool" where
  "cname_chain zd (c # cs) [t] \<longleftrightarrow> cname_target (dr_value c) = t \<and> lookup_rr zd t ''CNAME'' = []"
| "cname_chain zd (c # cs) (t # ts) \<longleftrightarrow>
     cname_target (dr_value c) = t \<and> lookup_rr zd t ''CNAME'' \<noteq> []
     \<and> cname_chain zd (lookup_rr zd t ''CNAME'') ts"
| "cname_chain zd cs ts \<longleftrightarrow> False"

definition cname_rrs :: "(string \<Rightarrow> string) \<Rightarrow> zone_data \<Rightarrow> string \<Rightarrow> rr list" where
  "cname_rrs Fqdn zd t = m_answer (processCNAME Fqdn (lookup_rr zd t ''CNAME'') t new_reply)"

definition a_rrs :: "(string \<Rightarrow> string) \<Rightarrow> zone_data \<Rightarrow> ip_config \<Rightarrow> string \<Rightarrow> rr list" where
  "a_rrs Fqdn zd ips t = m_answer (processA zd t (Fqdn t) ips new_reply)"

lemma chase_loop_chain:
  "cname_chain zd cs ts \<Longrightarrow> length ts \<le> n \<Longrightarrow>
     m_answer (chase_loop Fqdn n zd cs TypeA ips m)
       = m_answer m @ concat (map (cname_rrs Fqdn zd) (butlast ts)) @ a_rrs Fqdn zd ips (last ts)"
proof (induction zd cs ts arbitrary: n m rule: cname_chain.induct)
  case (1 zd c cs t)
  then show ?case
    by (cases n) (auto simp: Let_def a_rrs_def processA_def add_answer_def new_reply_def)
next
  case (2 zd c cs t t' ts)
  from 2(3) obtain k where "n = Suc k" by (cases n) auto
  with 2 show ?case
    by (auto simp: Let_def cname_rrs_def processCNAME_def add_answer_def new_reply_def)
qed simp_all

text \<open>
  A CNAME chain of up to eight names is followed to its end: an address query gets, after the
  CNAME records of the name itself, those of every name on the chain in order and then the A records
  of the last one.
\<close>

theorem chase_reaches_end:
  assumes "cname_chain zd cs ts" and "length ts \<le> 8"
  shows "m_answer (chaseCNAME Fqdn zd cs TypeA ips m)
    = m_answer m @ concat (map (cname_rrs Fqdn zd) (butlast ts)) @ a_rrs Fqdn zd ips (last ts)"
  using chase_loop_chain [OF assms] by (simp add: chaseCNAME_def)

theorem chase_reaches_end_witness:
  "m_answer (chaseCNAME (\<lambda>s. s @ ''.'') (build_zone ''ex.co'' demo_zone)
     (lookup_rr (build_zone ''ex.co'' demo_zone) ''www.ex.co'' ''CNAME'') TypeA (rs_ips demo_resolver) new_reply)
   = [RR_A \<lparr>rr_name = ''ex.co.'', rr_ttl = 3600\<rparr> [10, 0, 0, 1]]"
proof -
  have c: "cname_chain (build_zone ''ex.co'' demo_zone)
      (lookup_rr (build_zone ''ex.co'' demo_zone) ''www.ex.co'' ''CNAME'') [''ex.co'']" by code_simp
  have a: "a_rrs (\<lambda>s. s @ ''.'') (build_zone ''ex.co'' demo_zone) (rs_ips demo_resolver) ''ex.co''
      = [RR_A \<lparr>rr_name = ''ex.co.'', rr_ttl = 3600\<rparr> [10, 0, 0, 1]]" by code_simp
  show ?thesis using chase_reaches_end [OF c, of "\<lambda>s. s @ ''.''" "rs_ips demo_resolver" new_reply] a
    by (simp add: new_reply_def)
qed

section \<open>The server's own addresses\<close>

text \<open>
  The entries are tried in their order, each for an exact match and for a match of subdomains: an
  earlier entry that merely shares a parent wins over a later exact one.
\<close>

lemma subdomain_match_wins:
  "resolveIPByPTR ''ex.co'' ''ipv4''
     \<lparr>ips_ipv4 = [\<lparr>ie_address = ''1.1.1.1'', ie_ptr = ''mail.ex.co'', ie_public = True\<rparr>,
                 \<lparr>ie_address = ''2.2.2.2'', ie_ptr = ''ex.co'', ie_public = True\<rparr>],
      ips_ipv6 = [], ips_primary = []\<rparr> = ''1.1.1.1''"
  by code_simp

end
