(* ===== verification/MimeTree.thy ===== *)
theory MimeTree
  imports Prelude
begin

text \<open>
  \<open>internal/mail/mimetree/{parse,section,attachments}.go\<close>: the MIME part tree of a message, with the
  byte offsets of every part, the IMAP section specifiers that address its parts, and the list of its
  attachments. A message is a byte string and an offset a \<^typ>\<open>nat\<close>.

  The header reader \<open>textproto.ReadMIMEHeader\<close> (with \<open>MIMEHeader.Get\<close>) and \<open>mime.ParseMediaType\<close> are
  parameters: nothing here depends on what they return.
\<close>

section \<open>Parts\<close>

definition MaxDepth :: nat where
  "MaxDepth = 20"

definition MaxParts :: int where
  "MaxParts = 1000"

text \<open>A parameter map; a key that is absent reads as the empty string.\<close>

type_synonym params = "(string \<times> string) list"

definition getp :: "params \<Rightarrow> string \<Rightarrow> string" where
  "getp ps k = (case map_of ps k of Some v \<Rightarrow> v | None \<Rightarrow> [])"

record part_info =
  pi_type :: string
  pi_subtype :: string
  pi_params :: params
  pi_contentID :: string
  pi_description :: string
  pi_encoding :: string
  pi_disposition :: string
  pi_dispParams :: params
  pi_header :: params
  pi_headerStart :: nat
  pi_bodyStart :: nat
  pi_bodyEnd :: nat

datatype part = Part (pinfo: part_info) (children: "part list") (nested: "part option")

text \<open>
  What the parser takes from the standard library: the header of a block, read by canonical name, and
  the media type, the parameters and whether there was no error.
\<close>

record mime_lib =
  ml_header :: "bytes \<Rightarrow> params"
  ml_media :: "string \<Rightarrow> string \<times> params \<times> bool"

definition is_multipart :: "part \<Rightarrow> bool" where
  "is_multipart p \<longleftrightarrow> pi_type (pinfo p) = ''multipart'' \<and> children p \<noteq> []"

definition is_message :: "part \<Rightarrow> bool" where
  "is_message p \<longleftrightarrow> nested p \<noteq> None"

definition is_text :: "part \<Rightarrow> bool" where
  "is_text p \<longleftrightarrow> pi_type (pinfo p) = ''text''"

definition filename :: "part \<Rightarrow> string" where
  "filename p =
     (let v = getp (pi_dispParams (pinfo p)) ''filename'' in
      if v \<noteq> [] then v else getp (pi_params (pinfo p)) ''name'')"

definition is_attachment :: "part \<Rightarrow> bool" where
  "is_attachment p \<longleftrightarrow>
     (if pi_type (pinfo p) = ''multipart'' then False
      else if pi_disposition (pinfo p) = ''attachment'' then True
      else if pi_disposition (pinfo p) = ''inline'' then filename p \<noteq> [] \<and> \<not> is_text p
      else \<not> is_text p \<and> nested p = None)"

section \<open>Lines\<close>

definition slice :: "bytes \<Rightarrow> nat \<Rightarrow> nat \<Rightarrow> bytes" where
  "slice raw i j = take (j - i) (drop i raw)"

text \<open>The end of the line at \<open>i\<close>, and whether a line feed ends it.\<close>

definition line_end :: "bytes \<Rightarrow> nat \<Rightarrow> nat \<Rightarrow> nat \<times> bool" where
  "line_end raw i e =
     (case index_byte nl (slice raw i e) of None \<Rightarrow> (e, False) | Some k \<Rightarrow> (i + k + 1, True))"

lemma line_end_bounds: "i < e \<Longrightarrow> i < fst (line_end raw i e) \<and> fst (line_end raw i e) \<le> e"
  using index_byte_SomeD [of nl "slice raw i e"]
  by (fastforce simp: line_end_def slice_def split: option.split)

lemma line_end_step: "(l, f) = line_end raw i e \<Longrightarrow> i < e \<Longrightarrow> i < l \<and> l \<le> e"
  using line_end_bounds [of i e raw] by (metis fst_conv)

function header_end :: "bytes \<Rightarrow> nat \<Rightarrow> nat \<Rightarrow> nat" where
  "header_end raw e i =
     (if i < e then
        (case line_end raw i e of
           (lineEnd, found) \<Rightarrow>
             if trim_both (slice raw i lineEnd) [cr, nl] = [] then lineEnd
             else if \<not> found then e
             else header_end raw e lineEnd)
      else e)"
  by pat_completeness auto
termination
  by (relation "measure (\<lambda>(raw, e, i). e - i)") (auto dest!: line_end_step)

declare header_end.simps [simp del]

section \<open>Splitting a multipart body\<close>

record mark =
  mk_start :: nat
  mk_end :: nat
  mk_closing :: bool

text \<open>Whether a line is a delimiter, and if so whether it is the closing one.\<close>

definition delimiter :: "bytes \<Rightarrow> bytes \<Rightarrow> bool option" where
  "delimiter delim line =
     (if \<not> has_prefix line delim then None
      else
        let rest = drop (length delim) line;
            closing = has_prefix rest ''--'';
            rest' = (if closing then drop 2 rest else rest)
        in if trim_left rest' [CHR '' '', tab] = [] then Some closing else None)"

function find_marks :: "bytes \<Rightarrow> bytes \<Rightarrow> nat \<Rightarrow> nat \<Rightarrow> mark list" where
  "find_marks raw delim e i =
     (if i < e then
        (case line_end raw i e of
           (lineEnd, found) \<Rightarrow>
             (case delimiter delim (trim_right (slice raw i lineEnd) [cr, nl]) of
                Some True \<Rightarrow> [\<lparr>mk_start = i, mk_end = lineEnd, mk_closing = True\<rparr>]
              | Some False \<Rightarrow> \<lparr>mk_start = i, mk_end = lineEnd, mk_closing = False\<rparr>
                  # (if found then find_marks raw delim e lineEnd else [])
              | None \<Rightarrow> if found then find_marks raw delim e lineEnd else []))
      else [])"
  by pat_completeness auto
termination
  by (relation "measure (\<lambda>(raw, delim, e, i). e - i)") (auto dest!: line_end_step)

declare find_marks.simps [simp del]

text \<open>A part ends before the line break that belongs to the next delimiter.\<close>

definition cut_crlf :: "bytes \<Rightarrow> nat \<Rightarrow> nat \<Rightarrow> nat" where
  "cut_crlf raw ps pe =
     (let pe1 = (if pe > ps \<and> raw ! (pe - 1) = nl then pe - 1 else pe);
          pe2 = (if pe1 > ps \<and> raw ! (pe1 - 1) = cr then pe1 - 1 else pe1)
      in if pe2 < ps then ps else pe2)"

fun span_loop :: "bytes \<Rightarrow> mark list \<Rightarrow> (nat \<times> nat) list" where
  "span_loop raw (m # m' # ms) =
     (if mk_closing m then []
      else (mk_end m, cut_crlf raw (mk_end m) (mk_start m')) # span_loop raw (m' # ms))"
| "span_loop raw ms = []"

definition split_parts :: "bytes \<Rightarrow> nat \<Rightarrow> nat \<Rightarrow> bytes \<Rightarrow> (nat \<times> nat) list" where
  "split_parts raw start e boundary =
     (let marks = find_marks raw (''--'' @ boundary) e start
      in span_loop raw marks
           @ (if marks \<noteq> [] \<and> \<not> mk_closing (last marks) then [(mk_end (last marks), e)] else []))"

section \<open>Parsing\<close>

definition media_type :: "mime_lib \<Rightarrow> bool \<Rightarrow> string \<Rightarrow> string \<times> params" where
  "media_type lib inDigest ct =
     (case ml_media lib ct of
        (mt, ps, ok) \<Rightarrow>
          if \<not> ok \<or> ct = []
          then (let default = (if inDigest then ''message/rfc822'' else ''text/plain'');
                    bare = trim_space (hd (split_n 2 CHR '';'' ct))
                in (if ct \<noteq> [] \<and> CHR ''/'' \<in> set bare then to_lower bare else default, []))
          else (mt, ps))"

definition lower_keys :: "params \<Rightarrow> params" where
  "lower_keys ps = map (\<lambda>(k, v). (to_lower k, v)) ps"

text \<open>The fields of an entity that its header determines.\<close>

definition entity_info :: "mime_lib \<Rightarrow> bytes \<Rightarrow> nat \<Rightarrow> nat \<Rightarrow> bool \<Rightarrow> part_info" where
  "entity_info lib raw start e inDigest =
     (let bodyStart = header_end raw e start;
          h = (if bodyStart > start then ml_header lib (slice raw start bodyStart) else []);
          hdr = getp h;
          (mt, ps) = media_type lib inDigest (hdr ''Content-Type'');
          (ty, sub) = (case index_byte CHR ''/'' mt of
                         Some k \<Rightarrow> if k > 0 then (take k mt, drop (k + 1) mt) else (''text'', ''plain'')
                       | None \<Rightarrow> (''text'', ''plain''));
          enc = trim_space (hdr ''Content-Transfer-Encoding'');
          cd = hdr ''Content-Disposition'';
          (disp, dps) =
            (if cd = [] then ([], [])
             else (case ml_media lib cd of
                     (d, dparams, ok) \<Rightarrow>
                       (to_lower (if ok then d else to_lower (trim_space (hd (split_n 2 CHR '';'' cd)))),
                        lower_keys dparams)))
      in \<lparr>pi_type = ty, pi_subtype = sub, pi_params = lower_keys ps,
          pi_contentID = trim_space (hdr ''Content-Id''),
          pi_description = trim_space (hdr ''Content-Description''),
          pi_encoding = (if enc \<noteq> [] then to_lower enc else ''7bit''),
          pi_disposition = disp, pi_dispParams = dps, pi_header = h,
          pi_headerStart = start, pi_bodyStart = bodyStart, pi_bodyEnd = e\<rparr>)"

text \<open>The loop over the child entities, which stops when the budget of parts is spent.\<close>

fun children_loop ::
  "(nat \<Rightarrow> nat \<Rightarrow> int \<Rightarrow> part \<times> int) \<Rightarrow> (nat \<times> nat) list \<Rightarrow> int \<Rightarrow> part list \<times> int" where
  "children_loop f [] b = ([], b)"
| "children_loop f ((s, e) # rs) b =
     (if b \<le> 0 then ([], b)
      else (case f s e (b - 1) of
              (c, b1) \<Rightarrow> (case children_loop f rs b1 of (cs, b2) \<Rightarrow> (c # cs, b2))))"

text \<open>\<open>parseEntity\<close>; the first number is how many levels are left before \<open>MaxDepth\<close>.\<close>

primrec parse_entity ::
  "nat \<Rightarrow> mime_lib \<Rightarrow> bytes \<Rightarrow> nat \<Rightarrow> nat \<Rightarrow> int \<Rightarrow> bool \<Rightarrow> part \<times> int" where
  "parse_entity 0 lib raw start e budget inDigest =
     (Part (entity_info lib raw start e inDigest) [] None, budget)"
| "parse_entity (Suc d) lib raw start e budget inDigest =
     (let i = entity_info lib raw start e inDigest in
      if budget \<le> 0 then (Part i [] None, budget)
      else if pi_type i = ''multipart'' then
        (let boundary = getp (pi_params i) ''boundary'' in
         if boundary = [] then (Part i [] None, budget)
         else (case children_loop (\<lambda>s e' b. parse_entity d lib raw s e' b (pi_subtype i = ''digest''))
                      (split_parts raw (pi_bodyStart i) (pi_bodyEnd i) boundary) budget of
                 (cs, b) \<Rightarrow> (Part i cs None, b)))
      else if pi_type i = ''message'' \<and> (pi_subtype i = ''rfc822'' \<or> pi_subtype i = ''global'') then
        (if pi_bodyEnd i > pi_bodyStart i
         then (case parse_entity d lib raw (pi_bodyStart i) (pi_bodyEnd i) (budget - 1) False of
                 (m, b) \<Rightarrow> (Part i [] (Some m), b))
         else (Part i [] None, budget))
      else (Part i [] None, budget))"

definition parse_message :: "mime_lib \<Rightarrow> bytes \<Rightarrow> part" where
  "parse_message lib raw = fst (parse_entity MaxDepth lib raw 0 (length raw) MaxParts False)"

section \<open>Sections\<close>

datatype kind = KindMessage | KindBody | KindHeader | KindText | KindMIME

fun part_child :: "part \<Rightarrow> int \<Rightarrow> part option" where
  "part_child (Part i cs m) n =
     (if n < 1 then None
      else if pi_type i = ''multipart''
      then (if n \<le> int (length cs) then Some (cs ! nat (n - 1)) else None)
      else (case m of
              Some q \<Rightarrow> part_child q n
            | None \<Rightarrow> if n = 1 then Some (Part i cs m) else None))"

definition message_entity :: "part \<Rightarrow> part" where
  "message_entity p = (case nested p of Some m \<Rightarrow> m | None \<Rightarrow> p)"

text \<open>The loop over the numeric fields: the part reached and the fields that are left.\<close>

fun descend :: "part \<Rightarrow> string list \<Rightarrow> (part \<times> string list) option" where
  "descend cur [] = Some (cur, [])"
| "descend cur (f # fs) =
     (case atoi f of
        None \<Rightarrow> Some (cur, f # fs)
      | Some n \<Rightarrow> (case part_child cur n of None \<Rightarrow> None | Some c \<Rightarrow> descend c fs))"

text \<open>
  \<open>Resolve\<close>. The code compares pointers in \<open>cur == p\<close>; a node of a finite tree that equals the root
  is the root.
\<close>

definition resolve :: "part \<Rightarrow> string \<Rightarrow> (part \<times> kind) option" where
  "resolve p spec0 =
     (let spec = trim_space spec0 in
      if spec = [] then Some (p, KindMessage)
      else
        let head = (case index_byte CHR ''('' spec of Some k \<Rightarrow> trim_space (take k spec) | None \<Rightarrow> spec) in
        (case descend p (split_byte CHR ''.'' head) of
           None \<Rightarrow> None
         | Some (cur, fs) \<Rightarrow>
             let rest = to_upper (join_str fs ''.'') in
             if rest = [] then Some (cur, KindBody)
             else if rest = ''MIME'' then (if cur = p then None else Some (cur, KindMIME))
             else if rest = ''HEADER'' \<or> has_prefix rest ''HEADER.FIELDS''
             then Some (message_entity cur, KindHeader)
             else if rest = ''TEXT'' then Some (message_entity cur, KindText)
             else None))"

definition part_range :: "part \<Rightarrow> kind \<Rightarrow> nat \<times> nat" where
  "part_range p k =
     (case k of
        KindHeader \<Rightarrow> (pi_headerStart (pinfo p), pi_bodyStart (pinfo p))
      | KindMIME \<Rightarrow> (pi_headerStart (pinfo p), pi_bodyStart (pinfo p))
      | KindMessage \<Rightarrow> (pi_headerStart (pinfo p), pi_bodyEnd (pinfo p))
      | _ \<Rightarrow> (pi_bodyStart (pinfo p), pi_bodyEnd (pinfo p)))"

definition body_size :: "part \<Rightarrow> int" where
  "body_size p = int (pi_bodyEnd (pinfo p)) - int (pi_bodyStart (pinfo p))"

definition raw_body :: "part \<Rightarrow> bytes \<Rightarrow> bytes" where
  "raw_body p raw =
     (if pi_bodyEnd (pinfo p) > length raw \<or> pi_bodyEnd (pinfo p) < pi_bodyStart (pinfo p) then []
      else slice raw (pi_bodyStart (pinfo p)) (pi_bodyEnd (pinfo p)))"

definition body_lines :: "part \<Rightarrow> bytes \<Rightarrow> nat" where
  "body_lines p raw =
     (if pi_bodyEnd (pinfo p) \<le> pi_bodyStart (pinfo p) \<or> pi_bodyEnd (pinfo p) > length raw then 0
      else
        let body = slice raw (pi_bodyStart (pinfo p)) (pi_bodyEnd (pinfo p)) in
        length (filter (\<lambda>c. c = nl) body) + (if body \<noteq> [] \<and> last body \<noteq> nl then 1 else 0))"

section \<open>Attachments\<close>

definition child_path :: "string \<Rightarrow> nat \<Rightarrow> string" where
  "child_path pre n = (if pre = [] then itoa (int n) else pre @ ''.'' @ itoa (int n))"

text \<open>\<open>collect_list\<close> is the loop over the children, numbered from \<open>k\<close>.\<close>

function (sequential)
  collect :: "part \<Rightarrow> string \<Rightarrow> bool \<Rightarrow> (string \<times> part) list" and
  collect_list :: "part list \<Rightarrow> string \<Rightarrow> nat \<Rightarrow> (string \<times> part) list" where
  "collect (Part i cs m) path isRoot =
     (if pi_type i = ''multipart'' then collect_list cs path 1
      else (case m of
              Some (Part j ds q) \<Rightarrow>
                (if \<not> isRoot then [(path, Part i cs m)] else [])
                @ (if pi_type j = ''multipart'' then collect_list ds path 1
                   else collect (Part j ds q) (child_path path 1) False)
            | None \<Rightarrow>
                if \<not> is_attachment (Part i cs m) then []
                else [(if isRoot then ''1'' else path, Part i cs m)]))"
| "collect_list [] path k = []"
| "collect_list (c # cs) path k = collect c (child_path path k) False @ collect_list cs path (k + 1)"
  by pat_completeness auto
termination
  by (relation "measure (case_sum (\<lambda>(p, _). size p) (\<lambda>(cs, _). size_list size cs))") auto

definition attachments :: "part \<Rightarrow> (string \<times> part) list" where
  "attachments p = collect p [] True"

section \<open>The spans of a multipart body\<close>

text \<open>Ranges that follow each other without overlap inside \<open>[s, e]\<close>.\<close>

fun spans_ok :: "nat \<Rightarrow> nat \<Rightarrow> (nat \<times> nat) list \<Rightarrow> bool" where
  "spans_ok s e [] \<longleftrightarrow> s \<le> e"
| "spans_ok s e ((a, b) # rs) \<longleftrightarrow> s \<le> a \<and> a \<le> b \<and> b \<le> e \<and> spans_ok b e rs"

fun marks_ok :: "nat \<Rightarrow> nat \<Rightarrow> mark list \<Rightarrow> bool" where
  "marks_ok s e [] \<longleftrightarrow> s \<le> e"
| "marks_ok s e (m # ms) \<longleftrightarrow> s \<le> mk_start m \<and> mk_start m \<le> mk_end m \<and> mk_end m \<le> e \<and> marks_ok (mk_end m) e ms"

lemma marks_ok_mono: "marks_ok s e ms \<Longrightarrow> s' \<le> s \<Longrightarrow> marks_ok s' e ms"
  by (cases ms) auto

lemma spans_ok_mono: "spans_ok s e rs \<Longrightarrow> s' \<le> s \<Longrightarrow> spans_ok s' e rs"
  by (cases rs) auto

lemma marks_ok_last: "marks_ok s e ms \<Longrightarrow> ms \<noteq> [] \<Longrightarrow> s \<le> mk_end (last ms) \<and> mk_end (last ms) \<le> e"
proof (induction ms arbitrary: s)
  case (Cons m ms)
  then show ?case by (cases "ms = []") fastforce+
qed simp

lemma find_marks_ok: "i \<le> e \<Longrightarrow> marks_ok i e (find_marks raw delim e i)"
proof (induction raw delim e i rule: find_marks.induct)
  case (1 raw delim e i)
  obtain le found where l: "line_end raw i e = (le, found)" by fastforce
  show ?case
  proof (cases "i < e")
    case True
    then have b: "i < le" "le \<le> e" using line_end_bounds [of i e raw] l by auto
    let ?del = "delimiter delim (trim_right (slice raw i le) [cr, nl])"
    have IH: "marks_ok le e (find_marks raw delim e le)" if "found" "?del \<noteq> Some True"
      using "1.IH" [OF True l [symmetric]] b that by (cases ?del) auto
    then show ?thesis using b True
      by (subst find_marks.simps)
        (auto simp: l intro: marks_ok_mono [OF IH] split: option.split bool.split)
  next
    case False
    with "1.prems" show ?thesis by (subst find_marks.simps) simp
  qed
qed

lemma cut_crlf_bounds: "ps \<le> pe \<Longrightarrow> ps \<le> cut_crlf raw ps pe \<and> cut_crlf raw ps pe \<le> pe"
  by (auto simp: cut_crlf_def Let_def)

lemma span_loop_ok:
  "marks_ok s e ms \<Longrightarrow>
     spans_ok s e (span_loop raw ms)
     \<and> (ms \<noteq> [] \<longrightarrow> \<not> mk_closing (last ms) \<longrightarrow> spans_ok s e (span_loop raw ms @ [(mk_end (last ms), e)]))"
proof (induction raw ms arbitrary: s rule: span_loop.induct)
  case (1 raw m m' ms)
  then have m: "mk_end m \<le> mk_start m'" "mk_start m' \<le> mk_end m'" "mk_end m' \<le> e"
      "s \<le> mk_end m" "marks_ok (mk_end m) e (m' # ms)" "marks_ok (mk_start m') e (m' # ms)"
    by auto
  note c = cut_crlf_bounds [OF m(1), of raw]
  show ?case
  proof (cases "mk_closing m")
    case True
    have "s \<le> mk_end (last (m' # ms))" "mk_end (last (m' # ms)) \<le> e"
      using marks_ok_last [OF m(5)] m(4) by auto
    with True m show ?thesis by auto
  next
    case False
    have "marks_ok (cut_crlf raw (mk_end m) (mk_start m')) e (m' # ms)"
      using m c by auto
    from "1.IH" [OF False this] False m c show ?thesis by auto
  qed
qed (auto split: if_splits)

lemma split_parts_ok: "start \<le> e \<Longrightarrow> spans_ok start e (split_parts raw start e boundary)"
proof -
  assume "start \<le> e"
  then have "marks_ok start e (find_marks raw (''--'' @ boundary) e start)" by (rule find_marks_ok)
  from span_loop_ok [OF this, of raw] show ?thesis by (simp add: split_parts_def Let_def)
qed

section \<open>The tree\<close>

definition part_span :: "part \<Rightarrow> nat \<times> nat" where
  "part_span p = (pi_headerStart (pinfo p), pi_bodyEnd (pinfo p))"

text \<open>
  Every part's header precedes its body; the children of a multipart lie in its body, in order and
  disjoint; an embedded message is exactly the body of its part.
\<close>

fun tree_ok :: "part \<Rightarrow> bool" where
  "tree_ok (Part i cs m) \<longleftrightarrow>
     pi_headerStart i \<le> pi_bodyStart i \<and> pi_bodyStart i \<le> pi_bodyEnd i
     \<and> spans_ok (pi_bodyStart i) (pi_bodyEnd i) (map part_span cs) \<and> (\<forall>c \<in> set cs. tree_ok c)
     \<and> (case m of None \<Rightarrow> True
        | Some q \<Rightarrow> part_span q = (pi_bodyStart i, pi_bodyEnd i) \<and> tree_ok q)"

lemma header_end_bounds: "i \<le> e \<Longrightarrow> i \<le> header_end raw e i \<and> header_end raw e i \<le> e"
proof (induction raw e i rule: header_end.induct)
  case (1 raw e i)
  obtain le found where l: "line_end raw i e = (le, found)" by fastforce
  show ?case
  proof (cases "i < e")
    case True
    then have b: "i < le" "le \<le> e" using line_end_bounds [of i e raw] l by auto
    with "1.IH" [OF True l [symmetric]] True show ?thesis
      by (subst (1 2) header_end.simps) (auto simp: l)
  next
    case False
    with "1.prems" show ?thesis by (subst (1 2) header_end.simps) simp
  qed
qed

lemma entity_info_offsets [simp]:
  "pi_headerStart (entity_info lib raw s e g) = s" "pi_bodyEnd (entity_info lib raw s e g) = e"
  "pi_bodyStart (entity_info lib raw s e g) = header_end raw e s"
  by (simp_all add: entity_info_def Let_def split_def)

lemma children_loop_ok:
  assumes "\<And>s e b. s \<le> e \<Longrightarrow> tree_ok (fst (f s e b)) \<and> part_span (fst (f s e b)) = (s, e)"
  shows "spans_ok s0 e0 rs \<Longrightarrow>
    spans_ok s0 e0 (map part_span (fst (children_loop f rs b))) \<and> (\<forall>c \<in> set (fst (children_loop f rs b)). tree_ok c)"
proof (induction rs arbitrary: s0 b)
  case (Cons r rs)
  obtain s e where r: "r = (s, e)" by (cases r)
  have s: "s0 \<le> e0" if "spans_ok s0 e0 qs" for s0 qs
    using that by (cases qs) auto
  from Cons.prems r have "spans_ok e e0 rs" "s \<le> e" by simp_all
  with Cons.IH [of e "snd (f s e (b - 1))"] assms [of s e "b - 1"] Cons.prems s [OF Cons.prems] r
  show ?case by (auto simp: split_def)
qed simp

lemma parse_entity_ok:
  "s \<le> e \<Longrightarrow> tree_ok (fst (parse_entity d lib raw s e b g)) \<and> part_span (fst (parse_entity d lib raw s e b g)) = (s, e)"
proof (induction d arbitrary: s e b g)
  case 0
  then show ?case using header_end_bounds [of s e raw] by (simp add: part_span_def)
next
  case (Suc d)
  let ?i = "entity_info lib raw s e g"
  note h = header_end_bounds [OF Suc.prems, of raw]
  let ?cs = "children_loop (\<lambda>s e' b. parse_entity d lib raw s e' b (pi_subtype ?i = ''digest''))
      (split_parts raw (header_end raw e s) e (getp (pi_params ?i) ''boundary'')) b"
  have "spans_ok (header_end raw e s) e (split_parts raw (header_end raw e s) e (getp (pi_params ?i) ''boundary''))"
    using split_parts_ok h by simp
  from children_loop_ok [OF _ this, of "\<lambda>s e' b. parse_entity d lib raw s e' b (pi_subtype ?i = ''digest'')" b]
  have c: "spans_ok (header_end raw e s) e (map part_span (fst ?cs)) \<and> (\<forall>c \<in> set (fst ?cs). tree_ok c)"
    using Suc.IH by blast
  have n: "tree_ok (fst (parse_entity d lib raw (header_end raw e s) e (b - 1) False))
      \<and> part_span (fst (parse_entity d lib raw (header_end raw e s) e (b - 1) False)) = (header_end raw e s, e)"
    using Suc.IH h by blast
  show ?case using h c n by (simp add: Let_def split_def part_span_def)
qed

text \<open>
  C35. Whatever the message, its part tree describes it: within the message every part is a header
  followed by a body, the parts of a multipart lie in its body one after the other without overlap,
  and an embedded message is exactly the body of the part that carries it.
\<close>

theorem parse_tree_ok:
  "tree_ok (parse_message lib raw) \<and> part_span (parse_message lib raw) = (0, length raw)"
  unfolding parse_message_def by (rule parse_entity_ok) simp

section \<open>The size of the tree\<close>

fun part_count :: "part \<Rightarrow> nat" where
  "part_count (Part i cs m) =
     Suc (sum_list (map part_count cs) + (case m of None \<Rightarrow> 0 | Some q \<Rightarrow> part_count q))"

fun part_depth :: "part \<Rightarrow> nat" where
  "part_depth (Part i cs m) =
     (let d = (case m of None \<Rightarrow> 0 | Some q \<Rightarrow> Suc (part_depth q))
      in foldr (\<lambda>c n. max (Suc (part_depth c)) n) cs d)"

lemma foldr_max_le:
  "foldr (\<lambda>c n. max (f c) n) cs (d :: nat) \<le> k \<longleftrightarrow> d \<le> k \<and> (\<forall>c \<in> set cs. f c \<le> k)"
  by (induction cs) auto

lemma children_loop_count:
  assumes "\<And>s e b. 0 \<le> b \<Longrightarrow> 0 \<le> snd (f s e b) \<and> int (part_count (fst (f s e b))) = 1 + b - snd (f s e b)"
  shows "0 \<le> b \<Longrightarrow> 0 \<le> snd (children_loop f rs b)
    \<and> int (sum_list (map part_count (fst (children_loop f rs b)))) = b - snd (children_loop f rs b)"
proof (induction rs arbitrary: b)
  case (Cons r rs)
  obtain s e where r: "r = (s, e)" by (cases r)
  show ?case
  proof (cases "b \<le> 0")
    case False
    with assms [of "b - 1" s e] have "0 \<le> snd (f s e (b - 1))"
        "int (part_count (fst (f s e (b - 1)))) = b - snd (f s e (b - 1))" by simp_all
    with Cons.IH [of "snd (f s e (b - 1))"] False show ?thesis by (simp add: r split_def)
  qed (use Cons.prems in \<open>simp add: r\<close>)
qed simp

lemma parse_entity_count:
  "0 \<le> b \<Longrightarrow> 0 \<le> snd (parse_entity d lib raw s e b g)
     \<and> int (part_count (fst (parse_entity d lib raw s e b g))) = 1 + b - snd (parse_entity d lib raw s e b g)"
proof (induction d arbitrary: s e b g)
  case (Suc d)
  let ?i = "entity_info lib raw s e g"
  have c: "0 \<le> snd (children_loop (\<lambda>s e' b. parse_entity d lib raw s e' b q) rs b)
    \<and> int (sum_list (map part_count (fst (children_loop (\<lambda>s e' b. parse_entity d lib raw s e' b q) rs b))))
       = b - snd (children_loop (\<lambda>s e' b. parse_entity d lib raw s e' b q) rs b)" for q rs
    by (rule children_loop_count [OF Suc.IH Suc.prems])
  show ?case
  proof (cases "b \<le> 0")
    case False
    with Suc.IH [of "b - 1"] c show ?thesis by (simp add: Let_def split_def)
  qed (use Suc.prems in \<open>simp add: Let_def\<close>)
qed simp

lemma children_loop_set: "c \<in> set (fst (children_loop f rs b)) \<Longrightarrow> \<exists>s e b'. c = fst (f s e b')"
proof (induction rs arbitrary: b)
  case (Cons r rs)
  then show ?case by (cases r) (fastforce simp: split_def split: if_splits)
qed simp

lemma parse_entity_depth: "part_depth (fst (parse_entity d lib raw s e b g)) \<le> d"
proof (induction d arbitrary: s e b g)
  case (Suc d)
  have "part_depth c \<le> d" if "c \<in> set (fst (children_loop (\<lambda>s e' b. parse_entity d lib raw s e' b q) rs b))" for c q rs
    using children_loop_set [OF that] Suc.IH by auto
  with Suc.IH show ?case by (simp add: Let_def split_def foldr_max_le)
qed simp

text \<open>
  No message drives the parser beyond its limits: a tree has at most 1001 parts (the message
  and \<open>MaxParts\<close> others) and is at most \<open>MaxDepth\<close> levels deep.
\<close>

theorem parse_bounded:
  "part_count (parse_message lib raw) \<le> 1001 \<and> part_depth (parse_message lib raw) \<le> MaxDepth"
  using parse_entity_count [of MaxParts MaxDepth lib raw 0 "length raw" False]
    parse_entity_depth [of MaxDepth lib raw 0 "length raw" MaxParts False]
  by (simp add: parse_message_def MaxParts_def)

section \<open>Sections are byte ranges of the message\<close>

lemma spans_ok_mem: "spans_ok s e rs \<Longrightarrow> r \<in> set rs \<Longrightarrow> s \<le> fst r \<and> fst r \<le> snd r \<and> snd r \<le> e"
  by (induction s e rs rule: spans_ok.induct) auto

definition inside :: "part \<Rightarrow> part \<Rightarrow> bool" where
  "inside q p \<longleftrightarrow> tree_ok q \<and> fst (part_span p) \<le> fst (part_span q) \<and> snd (part_span q) \<le> snd (part_span p)"

lemma inside_trans: "inside r q \<Longrightarrow> inside q p \<Longrightarrow> inside r p"
  by (auto simp: inside_def)

lemma inside_child: "tree_ok p \<Longrightarrow> c \<in> set (children p) \<Longrightarrow> inside c p"
  by (cases p) (auto simp: inside_def part_span_def dest: spans_ok_mem [where r = "part_span c"])

lemma inside_nested: "tree_ok p \<Longrightarrow> nested p = Some q \<Longrightarrow> inside q p"
  by (cases p) (auto simp: inside_def part_span_def)

lemma inside_refl: "tree_ok p \<Longrightarrow> inside p p"
  by (simp add: inside_def)

lemma part_child_inside: "part_child p n = Some q \<Longrightarrow> tree_ok p \<Longrightarrow> inside q p"
proof (induction p n rule: part_child.induct)
  case (1 i cs m n)
  show ?case
  proof (cases "pi_type i = ''multipart''")
    case True
    with 1 have "q \<in> set (children (Part i cs m))" by (auto split: if_splits)
    with inside_child "1.prems"(2) show ?thesis by blast
  next
    case False
    show ?thesis
    proof (cases m)
      case None
      with False 1 show ?thesis by (auto intro: inside_refl split: if_splits)
    next
      case (Some r)
      then have r: "inside r (Part i cs m)" using inside_nested "1.prems"(2) by fastforce
      from False Some "1.prems" have "n \<ge> 1" "part_child r n = Some q" by (auto split: if_splits)
      with "1.IH" [OF _ False Some] r have "inside q r" by (simp add: inside_def)
      with r show ?thesis by (rule inside_trans [rotated])
    qed
  qed
qed

lemma descend_inside: "descend p fs = Some (q, rest) \<Longrightarrow> tree_ok p \<Longrightarrow> inside q p"
proof (induction p fs rule: descend.induct)
  case (2 cur f fs)
  then show ?case
    by (fastforce intro: inside_refl inside_trans dest: part_child_inside simp: inside_def
        split: option.splits)
qed (simp add: inside_refl)

lemma message_entity_inside: "tree_ok p \<Longrightarrow> inside (message_entity p) p"
  by (auto simp: message_entity_def intro: inside_refl inside_nested split: option.split)

lemma resolve_SomeD:
  "resolve p spec = Some (q, k) \<Longrightarrow>
     q = p \<or> (\<exists>fs cur rest. descend p fs = Some (cur, rest) \<and> (q = cur \<or> q = message_entity cur))"
  unfolding resolve_def Let_def by (auto split: if_splits option.splits) blast+

lemma resolve_inside:
  assumes "resolve p spec = Some (q, k)" and "tree_ok p"
  shows "inside q p"
  using resolve_SomeD [OF assms(1)]
proof (elim disjE exE conjE)
  fix fs cur rest
  assume d: "descend p fs = Some (cur, rest)"
  have c: "inside cur p" using descend_inside [OF d assms(2)] .
  then have "tree_ok cur" by (simp add: inside_def)
  from inside_trans [OF message_entity_inside [OF this] c] have "inside (message_entity cur) p" .
  with c show "q = cur \<Longrightarrow> inside q p" "q = message_entity cur \<Longrightarrow> inside q p" by simp_all
qed (use assms(2) inside_refl in simp)

lemma part_range_inside: "tree_ok q \<Longrightarrow> part_range q k = (a, b) \<Longrightarrow>
    fst (part_span q) \<le> a \<and> a \<le> b \<and> b \<le> snd (part_span q)"
  by (cases q; cases k) (auto simp: part_range_def part_span_def)

text \<open>
  Whatever section a client asks for, what is resolved is a byte range of the message: the
  range starts before it ends and ends within the message, so no request can read outside it.
\<close>

theorem section_in_bounds:
  "case resolve (parse_message lib raw) spec of
     None \<Rightarrow> True
   | Some (q, k) \<Rightarrow> (case part_range q k of (a, b) \<Rightarrow> a \<le> b \<and> b \<le> length raw)"
proof (cases "resolve (parse_message lib raw) spec")
  case (Some r)
  obtain q k where r: "r = (q, k)" by (cases r)
  have t: "tree_ok (parse_message lib raw) \<and> part_span (parse_message lib raw) = (0, length raw)"
    unfolding parse_message_def by (rule parse_entity_ok) simp
  with resolve_inside [of "parse_message lib raw" spec q k] Some r
  have "tree_ok q" "snd (part_span q) \<le> length raw" by (auto simp: inside_def)
  with part_range_inside [of q k] Some r show ?thesis by (auto split: prod.split)
qed simp

section \<open>Attachment paths resolve\<close>

fun walk :: "part \<Rightarrow> nat list \<Rightarrow> part option" where
  "walk p [] = Some p"
| "walk p (n # ns) = (case part_child p (int n) of None \<Rightarrow> None | Some c \<Rightarrow> walk c ns)"

definition path_str :: "nat list \<Rightarrow> string" where
  "path_str ns = join_str (map (itoa \<circ> int) ns) ''.''"

lemma join_str_snoc: "join_str (ws @ [w]) sep = (if ws = [] then w else join_str ws sep @ sep @ w)"
  by (induction ws sep rule: join_str.induct) auto

lemma path_str_Nil [simp]: "path_str ns = [] \<longleftrightarrow> ns = []"
  by (cases ns rule: rev_cases) (simp_all add: path_str_def join_str_snoc)

lemma child_path_str: "child_path (path_str ns) k = path_str (ns @ [k])"
  by (cases "ns = []") (simp_all add: child_path_def, simp_all add: path_str_def join_str_snoc)

lemma path_str_chars: "c \<in> set (path_str ns) \<Longrightarrow> is_digit_char c \<or> c = CHR ''.''"
  by (induction ns rule: rev_induct)
    (auto simp: path_str_def join_str_snoc dest: itoa_chars [rotated] split: if_splits)

lemma digit_not_space: "is_digit_char c \<Longrightarrow> \<not> is_space_char c \<and> c \<noteq> CHR ''.'' \<and> c \<noteq> CHR ''(''"
  by (auto simp: is_digit_char_def is_space_char_def ascii_val_def)

lemma dropWhile_none: "(\<And>c. c \<in> set s \<Longrightarrow> \<not> P c) \<Longrightarrow> dropWhile P s = s"
  by (cases s) auto

lemma path_str_clean: "trim_space (path_str ns) = path_str ns" "index_byte CHR ''('' (path_str ns) = None"
proof -
  have sp: "\<not> is_space_char c" if "c \<in> set (path_str ns)" for c
    using path_str_chars [OF that] digit_not_space [of c] by (auto simp: is_space_char_def ascii_val_def)
  have "dropWhile is_space_char (path_str ns) = path_str ns"
      "dropWhile is_space_char (rev (path_str ns)) = rev (path_str ns)"
    by (rule dropWhile_none, use sp in simp)+
  then show "trim_space (path_str ns) = path_str ns" by (simp add: trim_space_def)
  show "index_byte CHR ''('' (path_str ns) = None"
    using path_str_chars [of "CHR ''(''" ns] digit_not_space by auto
qed

lemma split_path_str: "ns \<noteq> [] \<Longrightarrow> split_byte CHR ''.'' (path_str ns) = map (itoa \<circ> int) ns"
  unfolding path_str_def
  by (rule split_join) (auto dest: itoa_chars [rotated] digit_not_space)

lemma descend_walk:
  "(\<And>n. n \<in> set ns \<Longrightarrow> n \<le> 1002) \<Longrightarrow>
     descend p (map (itoa \<circ> int) ns) = map_option (\<lambda>q. (q, [])) (walk p ns)"
proof (induction ns arbitrary: p)
  case (Cons n ns)
  have "n \<le> 1002" using Cons.prems by simp
  then have "atoi (itoa (int n)) = Some (int n)" by (intro parse_int64_itoa) auto
  with Cons show ?case by (simp split: option.split)
qed simp

lemma resolve_path:
  assumes "walk p ns = Some q" and "ns \<noteq> []" and "\<And>n. n \<in> set ns \<Longrightarrow> n \<le> 1002"
  shows "resolve p (path_str ns) = Some (q, KindBody)"
  using assms descend_walk [of ns p]
  by (simp add: resolve_def path_str_clean split_path_str to_upper_def Let_def)

text \<open>No embedded message is, directly, another embedded message.\<close>

fun no_direct :: "part \<Rightarrow> bool" where
  "no_direct (Part i cs m) \<longleftrightarrow>
     (\<forall>c \<in> set cs. no_direct c)
     \<and> (case m of None \<Rightarrow> True
        | Some q \<Rightarrow> no_direct q \<and> (nested q = None \<or> pi_type (pinfo q) = ''multipart''))"

lemma part_count_pos [simp]: "0 < part_count p"
  by (cases p) simp

lemma collect_walk:
  "(pq \<in> set (collect p path isRoot) \<Longrightarrow> path = path_str ns \<Longrightarrow> (isRoot \<Longrightarrow> ns = []) \<Longrightarrow> no_direct p \<Longrightarrow> part_count p \<le> 1001 \<Longrightarrow>
      \<exists>ms. fst pq = path_str (ns @ ms) \<and> walk p ms = Some (snd pq) \<and> (isRoot \<longrightarrow> ms \<noteq> [])
         \<and> (\<forall>n \<in> set ms. n \<le> 1002))"
  "(pq \<in> set (collect_list cs path k) \<Longrightarrow> path = path_str ns \<Longrightarrow> (\<forall>c \<in> set cs. no_direct c) \<Longrightarrow> 1 \<le> k \<Longrightarrow>
      k + sum_list (map part_count cs) \<le> 1002 \<Longrightarrow>
      \<exists>j ms. j < length cs \<and> fst pq = path_str (ns @ (k + j) # ms) \<and> walk (cs ! j) ms = Some (snd pq)
         \<and> k + j \<le> 1002 \<and> (\<forall>n \<in> set ms. n \<le> 1002))"
proof (induction p path isRoot and cs path k arbitrary: ns and ns rule: collect_collect_list.induct)
  case (1 i cs m path isRoot)
  show ?case
  proof (cases "pi_type i = ''multipart''")
    case True
    with "1.prems"(1) have "pq \<in> set (collect_list cs path 1)" by simp
    from "1.IH"(1) [OF True this "1.prems"(2)] "1.prems"(4,5) obtain j ms where
      "j < length cs" "fst pq = path_str (ns @ (1 + j) # ms)" "walk (cs ! j) ms = Some (snd pq)"
      "1 + j \<le> 1002" "\<forall>n \<in> set ms. n \<le> 1002"
      by auto
    with True show ?thesis by (intro exI [of _ "(1 + j) # ms"]) simp
  next
    case False
    show ?thesis
    proof (cases m)
      case None
      have one: "''1'' = path_str [1]" by code_simp
      show ?thesis
      proof (cases isRoot)
        case True
        with None False "1.prems"(1-3) one show ?thesis
          by (intro exI [of _ "[1]"]) (auto split: if_splits)
      next
        case nonroot: False
        with None False "1.prems"(1,2) show ?thesis
          by (intro exI [of _ "[]"]) (auto split: if_splits)
      qed
    next
      case (Some r)
      obtain j ds q where r: "r = Part j ds q" by (cases r)
      note m = Some [unfolded r]
      have "pq \<in> set ((if \<not> isRoot then [(path, Part i cs m)] else [])
            @ (if pi_type j = ''multipart'' then collect_list ds path 1
               else collect (Part j ds q) (child_path path 1) False))"
        using "1.prems"(1)
        by (simp only: collect.simps(1) [of i cs "Some (Part j ds q)" path isRoot] m False if_False option.case part.case)
      then consider (self) "\<not> isRoot" "pq = (path, Part i cs m)"
        | (kids) "pi_type j = ''multipart''" "pq \<in> set (collect_list ds path 1)"
        | (single) "pi_type j \<noteq> ''multipart''" "pq \<in> set (collect r (child_path path 1) False)"
        unfolding r by (cases isRoot; cases "pi_type j = ''multipart''") (auto simp del: collect.simps)
      then show ?thesis
      proof cases
        case self
        with "1.prems"(2) show ?thesis by (intro exI [of _ "[]"]) simp
      next
        case kids
        from "1.IH"(2) [OF False m refl kids(1) kids(2) "1.prems"(2)] "1.prems"(4,5) m obtain l ms where
          "l < length ds" "fst pq = path_str (ns @ (1 + l) # ms)" "walk (ds ! l) ms = Some (snd pq)"
          "1 + l \<le> 1002" "\<forall>n \<in> set ms. n \<le> 1002"
          by auto
        with False kids m show ?thesis by (intro exI [of _ "(1 + l) # ms"]) simp
      next
        case single
        have nd: "no_direct r" "part_count r \<le> 1001" "nested r = None"
          using "1.prems"(4,5) Some r single(1) by auto
        from single(2) r have "pq \<in> set (collect (Part j ds q) (child_path path 1) False)" by simp
        from "1.IH"(3) [OF False m refl single(1) this, of "ns @ [1]"] nd r "1.prems"(2)
        obtain ms where ms: "fst pq = path_str (ns @ 1 # ms)" "walk r ms = Some (snd pq)"
            "\<forall>n \<in> set ms. n \<le> 1002"
          by (auto simp: child_path_str)
        have "part_child (Part i cs m) 1 = Some r"
          using False m r nd(3) single(1) by simp
        with ms show ?thesis by (intro exI [of _ "1 # ms"]) simp
      qed
    qed
  qed
next
  case (2 path k)
  then show ?case by simp
next
  case (3 c cs path k)
  show ?case
  proof (cases "pq \<in> set (collect c (child_path path k) False)")
    case True
    with "3.IH"(1) [OF True, of "ns @ [k]"] "3.prems"(2-5) obtain ms where
      "fst pq = path_str (ns @ k # ms)" "walk c ms = Some (snd pq)" "\<forall>n \<in> set ms. n \<le> 1002"
      by (auto simp: child_path_str)
    with "3.prems"(5) show ?thesis by (intro exI [of _ 0] exI [of _ ms]) simp
  next
    case False
    have "k + 1 + sum_list (map part_count cs) \<le> 1002"
      using part_count_pos [of c] "3.prems"(5) unfolding list.map sum_list.Cons by linarith
    with False "3.IH"(2) [of ns] "3.prems" obtain j ms where
      "j < length cs" "fst pq = path_str (ns @ (k + 1 + j) # ms)" "walk (cs ! j) ms = Some (snd pq)"
      "k + 1 + j \<le> 1002" "\<forall>n \<in> set ms. n \<le> 1002"
      by auto
    then show ?thesis by (intro exI [of _ "Suc j"] exI [of _ ms]) simp
  qed
qed

lemma attachments_resolve:
  assumes "no_direct (parse_message lib raw)"
  shows "list_all (\<lambda>(path, q). resolve (parse_message lib raw) path = Some (q, KindBody))
    (attachments (parse_message lib raw))"
  unfolding list_all_iff
proof
  fix pq
  assume "pq \<in> set (attachments (parse_message lib raw))"
  then have mem: "pq \<in> set (collect (parse_message lib raw) (path_str []) True)"
    by (simp add: attachments_def path_str_def)
  have "part_count (parse_message lib raw) \<le> 1001"
    using parse_entity_count [of MaxParts MaxDepth lib raw 0 "length raw" False]
    by (simp add: parse_message_def MaxParts_def)
  with collect_walk(1) [OF mem refl] assms obtain ms where "fst pq = path_str ms" "walk (parse_message lib raw) ms = Some (snd pq)"
      "ms \<noteq> []" "\<forall>n \<in> set ms. n \<le> 1002"
    by auto
  with resolve_path show "case pq of (path, q) \<Rightarrow>
      resolve (parse_message lib raw) path = Some (q, KindBody)"
    by (simp add: split_def)
qed

text \<open>
  Attachment identifiers round-trip: whenever no embedded message of the message is directly
  another embedded message, the path listed with an attachment is a section specifier that resolves
  to exactly that part, so a stored part id can be used as \<open>BODY[...]\<close>.
\<close>

theorem attachment_paths_resolve:
  assumes "no_direct (parse_message lib raw)"
  shows "list_all (\<lambda>(path, q). resolve (parse_message lib raw) path = Some (q, KindBody))
    (attachments (parse_message lib raw))"
  using assms by (rule attachments_resolve)

text \<open>
  A header reader for messages whose header is one line, the content type, and a media type parser
  that knows one boundary, on which messages can be evaluated.
\<close>

definition demo_lib :: mime_lib where
  "demo_lib = \<lparr>ml_header = (\<lambda>block. [(''Content-Type'', takeWhile (\<lambda>c. c \<noteq> nl) block)]),
     ml_media = (\<lambda>s. (s, if s = ''multipart/m'' then [(''boundary'', ''b'')] else [], True))\<rparr>"

definition demo_message :: bytes where
  "demo_message = ''multipart/m'' @ [nl, nl] @ ''--b'' @ [nl] @ ''message/rfc822'' @ [nl, nl] @ ''a/b'' @ [nl, nl] @ ''x'' @ [nl] @ ''--b--''"

definition nested_message :: bytes where
  "nested_message = ''message/rfc822'' @ [nl, nl] @ ''message/rfc822'' @ [nl, nl] @ ''text/p'' @ [nl, nl] @ ''hi''"

lemma demo_tree: "no_direct (parse_message demo_lib demo_message)"
  "map fst (attachments (parse_message demo_lib demo_message)) = [''1'', ''1.1'']"
  by code_simp+

theorem attachment_paths_resolve_witness:
  "map fst (attachments (parse_message demo_lib demo_message)) = [''1'', ''1.1'']
   \<and> list_all (\<lambda>(path, q). resolve (parse_message demo_lib demo_message) path = Some (q, KindBody))
       (attachments (parse_message demo_lib demo_message))"
  using attachment_paths_resolve [OF demo_tree(1)] demo_tree(2) by simp

text \<open>
  Without the hypothesis the round trip fails: in a message whose embedded message is itself an
  embedded message, the inner one (bytes 16 to 42) is listed under the path \<open>1\<close>, which resolves to
  the text (bytes 32 to 42) inside it.
\<close>

lemma nested_attachment_path_wrong:
  "map (\<lambda>(path, q). (path, part_span q)) (attachments (parse_message demo_lib nested_message))
     = [(''1'', (16, 42))]
   \<and> map_option (\<lambda>(q, k). part_span q) (resolve (parse_message demo_lib nested_message) ''1'')
     = Some (32, 42)"
  by code_simp

end
