(* ===== verification/Ports.thy ===== *)
theory Ports
  imports GoAny
begin

text \<open>
  \<open>internal/ports/ports.go\<close>: how an app's port entry is exposed. An entry is a decoded JSON object,
  \<^const>\<open>None\<close> the nil map that a failed type assertion yields. \<open>Normalize\<close> writes the entries in
  place; no two elements of a decoded list share a map, so it is a function of the list.
\<close>

type_synonym entry = "amap option"

definition Proxy :: string where
  "Proxy = ''proxy''"

definition Loopback :: string where
  "Loopback = ''127.0.0.1''"

definition AllInterfaces :: string where
  "AllInterfaces = []"

fun hostFalsy :: "any \<Rightarrow> bool" where
  "hostFalsy Nil_any = True"
| "hostFalsy (Bool_any x) = (\<not> x)"
| "hostFalsy (Str_any x) = (x = [])"
| "hostFalsy (Float_any x) = (x = Fin 0 \<or> x = NaN)"
| "hostFalsy (Int_any x) = (x = 0)"
| "hostFalsy _ = False"

text \<open>Comparing an \<open>any\<close> with a string or a boolean constant compares the dynamic types too.\<close>

fun is_str :: "any \<Rightarrow> string \<Rightarrow> bool" where
  "is_str (Str_any s) t = (s = t)"
| "is_str _ t = False"

fun is_true :: "any \<Rightarrow> bool" where
  "is_true (Bool_any b) = b"
| "is_true _ = False"

definition isProxy :: "entry \<Rightarrow> bool" where
  "isProxy e = (case e of None \<Rightarrow> False | Some m \<Rightarrow> hostFalsy (aget m ''host'') \<or> is_str (aget m ''host'') Proxy)"

definition isPublished :: "entry \<Rightarrow> bool" where
  "isPublished e \<longleftrightarrow> e \<noteq> None \<and> \<not> isProxy e"

definition isPublic :: "entry \<Rightarrow> bool" where
  "isPublic e = (case e of None \<Rightarrow> False | Some m \<Rightarrow> isPublished e \<and> is_true (aget m ''public''))"

definition bindIP :: "entry \<Rightarrow> string" where
  "bindIP e = (if isPublic e then AllInterfaces else Loopback)"

definition isAuto :: "entry \<Rightarrow> bool" where
  "isAuto e = (case e of None \<Rightarrow> False | Some m \<Rightarrow> is_true (aget m ''auto''))"

text \<open>\<open>p.(map[string]any)\<close>, nil when it fails.\<close>

fun as_map :: "any \<Rightarrow> entry" where
  "as_map (Map_any m) = Some m"
| "as_map _ = None"

fun primary_loop :: "any list \<Rightarrow> entry option" where
  "primary_loop [] = None"
| "primary_loop (p # ps) = (if isProxy (as_map p) then Some (as_map p) else primary_loop ps)"

definition primary :: "any list \<Rightarrow> entry" where
  "primary ps =
     (case primary_loop ps of
        Some e \<Rightarrow> e
      | None \<Rightarrow> (case ps of [] \<Rightarrow> None | p # _ \<Rightarrow> as_map p))"

definition discovered :: "int \<Rightarrow> amap" where
  "discovered containerPort =
     Map.empty(''host'' \<mapsto> Str_any Proxy, ''container'' \<mapsto> Float_any (Fin (of_int containerPort)),
               ''auto'' \<mapsto> Bool_any True)"

fun parsePublic :: "any \<Rightarrow> bool \<times> bool" where
  "parsePublic Nil_any = (False, True)"
| "parsePublic (Bool_any b) = (b, True)"
| "parsePublic (Str_any s) =
     (if s = [] then (False, True)
      else if s = ''true'' then (True, True)
      else if s = ''false'' then (False, True)
      else (False, False))"
| "parsePublic _ = (False, False)"

definition normalize_entry :: "any \<Rightarrow> any" where
  "normalize_entry p =
     (case as_map p of
        Some m \<Rightarrow>
          if hostFalsy (aget m ''host'')
          then Map_any (m(''host'' \<mapsto> Str_any Proxy, ''auto'' \<mapsto> Bool_any True)) else p
      | None \<Rightarrow> p)"

definition normalize :: "any list \<Rightarrow> any list" where
  "normalize portList = map normalize_entry portList"

section \<open>Exposure\<close>

text \<open>What the rest of the program sees of an entry.\<close>

definition exposure :: "any \<Rightarrow> bool \<times> bool \<times> bool \<times> string" where
  "exposure p = (isProxy (as_map p), isPublished (as_map p), isPublic (as_map p), bindIP (as_map p))"

lemma as_map_SomeD: "as_map p = Some m \<Longrightarrow> p = Map_any m"
  by (cases p) simp_all

lemma exposure_normalize: "exposure (normalize_entry p) = exposure p"
proof (cases "as_map p")
  case (Some m)
  then show ?thesis
    by (auto simp: exposure_def normalize_entry_def isProxy_def isPublished_def isPublic_def bindIP_def
        Proxy_def dest: as_map_SomeD)
qed (simp add: normalize_entry_def)

lemma normalize_entry_idem: "normalize_entry (normalize_entry p) = normalize_entry p"
  by (cases "as_map p") (auto simp: normalize_entry_def Proxy_def)

lemma container_normalize:
  "map_option (\<lambda>m. aget m ''container'') (as_map (normalize_entry p))
     = map_option (\<lambda>m. aget m ''container'') (as_map p)"
  by (cases "as_map p") (auto simp: normalize_entry_def)

lemma primary_loop_normalize:
  "map_option (map_option (\<lambda>m. aget m ''container'')) (primary_loop (normalize ps))
     = map_option (map_option (\<lambda>m. aget m ''container'')) (primary_loop ps)"
proof (induction ps)
  case (Cons p ps)
  then show ?case
    using exposure_normalize [of p] container_normalize [of p]
    by (simp add: normalize_def exposure_def)
qed (simp add: normalize_def)

text \<open>
  Migrating old entries changes nothing that is exposed: \<open>Normalize\<close> is idempotent, keeps for
  every entry whether it is proxied, published or public and which address it binds, and keeps the
  container port that the proxy routes to.
\<close>

theorem normalize_keeps_exposure:
  "normalize (normalize ps) = normalize ps
   \<and> map exposure (normalize ps) = map exposure ps
   \<and> map_option (\<lambda>m. aget m ''container'') (primary (normalize ps))
       = map_option (\<lambda>m. aget m ''container'') (primary ps)"
proof (intro conjI)
  show "normalize (normalize ps) = normalize ps"
    by (simp add: normalize_def normalize_entry_idem)
  show "map exposure (normalize ps) = map exposure ps"
    by (simp add: normalize_def exposure_normalize)
  show "map_option (\<lambda>m. aget m ''container'') (primary (normalize ps))
      = map_option (\<lambda>m. aget m ''container'') (primary ps)"
    using primary_loop_normalize [of ps] container_normalize [of "hd ps"]
    by (cases ps; cases "primary_loop (normalize ps)"; cases "primary_loop ps")
      (auto simp: primary_def normalize_def simp del: primary_loop.simps)
qed

text \<open>
  Nothing is exposed to the internet by default: an entry is bound to every interface only if
  it is a published one whose \<open>public\<close> is the boolean \<open>true\<close>, and an entry that ODAC guessed itself is
  routed by the proxy, marked as a guess, and never public.
\<close>

theorem public_only_on_request:
  "(bindIP e = AllInterfaces \<longleftrightarrow>
      (\<exists>m. e = Some m \<and> m ''public'' = Some (Bool_any True) \<and> \<not> isProxy e))
   \<and> isProxy (Some (discovered p)) \<and> isAuto (Some (discovered p)) \<and> bindIP (Some (discovered p)) = Loopback"
proof -
  have "is_true v \<longleftrightarrow> v = Bool_any True" for v by (cases v) auto
  moreover have "aget m k = Bool_any True \<longleftrightarrow> m k = Some (Bool_any True)" for m k
    by (simp add: aget_def split: option.split)
  ultimately show ?thesis
    by (cases e)
      (auto simp: bindIP_def isPublic_def isPublished_def isProxy_def isAuto_def discovered_def
        AllInterfaces_def Loopback_def Proxy_def)
qed

end
