(* ===== verification/Supervise.thy ===== *)
theory Supervise
  imports Prelude
begin

text \<open>
  \<open>internal/supervise/supervise.go\<close>: the supervisor of a detached data-plane process. The host is its
  files, the live processes and their command lines; what a call cannot know beforehand (whether the
  binary is there, which pid a start gets, whether a write works) is in the environment it is given.
  \<open>os.Remove\<close> of an existing file succeeds, and \<open>RunDir\<close> is a clean path.

  \<open>Ensure\<close> and \<open>Stop\<close> hold the supervisor's mutex, so each is one step (the tail of \<open>Stop\<close>, outside the
  mutex, touches the process it took from the slot). The exit watcher clears the slot under the mutex
  but removes the PID file outside it; its steps are separate.
\<close>

section \<open>State\<close>

record options =
  op_name :: string
  op_binary :: string
  op_runDir :: string
  op_instance :: string
  op_hasSync :: bool

datatype file_st = Readable string | Unreadable

record world =
  w_files :: "string \<Rightarrow> file_st option"
  w_alive :: "int \<Rightarrow> bool"
  w_cmdline :: "int \<Rightarrow> string option"

record env =
  e_update :: bool
  e_prev :: string
  e_mkdir :: bool
  e_bin :: bool
  e_start :: "int option"
  e_write :: bool

text \<open>The managed process: its pid, and whether it is our child (\<open>cmd\<close> set) or an adopted orphan.\<close>

record supervisor =
  sp_proc :: "(int \<times> bool) option"
  sp_sync :: bool
  sp_cleanup :: "string option"

definition new_supervisor :: supervisor where
  "new_supervisor = \<lparr>sp_proc = None, sp_sync = False, sp_cleanup = None\<rparr>"

datatype sup_event = Adopted int | Spawned int | Signalled int

definition instanceID :: "string \<Rightarrow> string" where
  "instanceID v = (if v \<noteq> [] then v else ''default'')"

definition pidFile :: "options \<Rightarrow> string" where
  "pidFile opts = op_runDir opts @ ''/'' @ op_name opts @ ''-'' @ instanceID (op_instance opts) @ ''.pid''"

definition socketPath :: "options \<Rightarrow> string" where
  "socketPath opts = op_runDir opts @ ''/'' @ op_name opts @ ''-'' @ instanceID (op_instance opts) @ ''.sock''"

definition running :: "supervisor \<Rightarrow> bool" where
  "running s \<longleftrightarrow> sp_proc s \<noteq> None"

definition managed_pid :: "supervisor \<Rightarrow> int" where
  "managed_pid s = (case sp_proc s of None \<Rightarrow> 0 | Some (pid, child) \<Rightarrow> pid)"

section \<open>Operations\<close>

definition remove_file :: "string \<Rightarrow> world \<Rightarrow> world" where
  "remove_file p w = w\<lparr>w_files := (w_files w)(p := None)\<rparr>"

definition owns_pid_file :: "string \<Rightarrow> int \<Rightarrow> world \<Rightarrow> bool" where
  "owns_pid_file p pid w \<longleftrightarrow>
     (case w_files w p of Some (Readable raw) \<Rightarrow> trim_space raw = itoa pid | _ \<Rightarrow> False)"

definition removePidFileIfOwn :: "string \<Rightarrow> int \<Rightarrow> world \<Rightarrow> world" where
  "removePidFileIfOwn p pid w = (if owns_pid_file p pid w then remove_file p w else w)"

datatype claim = Claimed | Exists | WriteFailed

definition claimPidFile :: "bool \<Rightarrow> string \<Rightarrow> int \<Rightarrow> bool \<Rightarrow> world \<Rightarrow> world \<times> claim" where
  "claimPidFile writable p pid update w =
     (if \<not> update \<and> w_files w p \<noteq> None then (w, Exists)
      else if \<not> writable then (w, WriteFailed)
      else (w\<lparr>w_files := (w_files w)(p \<mapsto> Readable (itoa pid))\<rparr>, Claimed))"

definition scheduleSync :: "options \<Rightarrow> supervisor \<Rightarrow> supervisor" where
  "scheduleSync opts s = s\<lparr>sp_sync := op_hasSync opts\<rparr>"

definition scheduleCleanup :: "string \<Rightarrow> supervisor \<Rightarrow> supervisor" where
  "scheduleCleanup prev s = s\<lparr>sp_cleanup := Some prev\<rparr>"

text \<open>The three checks on an orphan; \<^const>\<open>None\<close> leaves the files alone, \<open>Some False\<close> is a stale file.\<close>

definition orphan_check :: "options \<Rightarrow> world \<Rightarrow> int \<Rightarrow> bool" where
  "orphan_check opts w pid \<longleftrightarrow>
     pid > 0 \<and> w_alive w pid \<and> w_files w (socketPath opts) \<noteq> None
     \<and> (case w_cmdline w pid of None \<Rightarrow> True | Some c \<Rightarrow> contains_str c (op_binary opts))"

definition adoptLocked :: "options \<Rightarrow> supervisor \<Rightarrow> world \<Rightarrow> supervisor \<times> world \<times> int option" where
  "adoptLocked opts s w =
     (case w_files w (pidFile opts) of
        None \<Rightarrow> (s, w, None)
      | Some Unreadable \<Rightarrow> (s, remove_file (pidFile opts) w, None)
      | Some (Readable raw) \<Rightarrow>
          (case atoi (trim_space raw) of
             None \<Rightarrow> (s, remove_file (pidFile opts) w, None)
           | Some pid \<Rightarrow>
               if pid \<le> 0 \<or> \<not> w_alive w pid then (s, remove_file (pidFile opts) w, None)
               else if w_files w (socketPath opts) = None then (s, remove_file (pidFile opts) w, None)
               else if (case w_cmdline w pid of None \<Rightarrow> False | Some c \<Rightarrow> \<not> contains_str c (op_binary opts))
               then (s, remove_file (pidFile opts) w, None)
               else (scheduleSync opts (s\<lparr>sp_proc := Some (pid, False)\<rparr>), w, Some pid)))"

definition spawnLocked :: "options \<Rightarrow> env \<Rightarrow> supervisor \<Rightarrow> world \<Rightarrow> supervisor \<times> world \<times> sup_event list" where
  "spawnLocked opts e s w =
     (if \<not> e_bin e then (s, w, [])
      else (case e_start e of
              None \<Rightarrow> (s, w, [])
            | Some pid \<Rightarrow>
                let w1 = w\<lparr>w_alive := (w_alive w)(pid := True)\<rparr> in
                (case claimPidFile (e_write e) (pidFile opts) pid (e_update e) w1 of
                   (w2, Exists) \<Rightarrow> (s, w2, [Spawned pid, Signalled pid])
                 | (w2, c) \<Rightarrow>
                     let s1 = scheduleSync opts (s\<lparr>sp_proc := Some (pid, True)\<rparr>) in
                     (if e_prev e \<noteq> [] then scheduleCleanup (e_prev e) s1 else s1, w2, [Spawned pid]))))"

definition ensure_free :: "options \<Rightarrow> env \<Rightarrow> supervisor \<Rightarrow> world \<Rightarrow> supervisor \<times> world \<times> sup_event list" where
  "ensure_free opts e s w =
     (if \<not> e_mkdir e then (s, w, [])
      else if e_update e then spawnLocked opts e s w
      else (case adoptLocked opts s w of
              (s1, w1, Some pid) \<Rightarrow> (s1, w1, [Adopted pid])
            | (s1, w1, None) \<Rightarrow> spawnLocked opts e s1 w1))"

definition ensure :: "options \<Rightarrow> env \<Rightarrow> supervisor \<Rightarrow> world \<Rightarrow> supervisor \<times> world \<times> sup_event list" where
  "ensure opts e s w =
     (case sp_proc s of
        Some (pid, child) \<Rightarrow>
          if child \<or> w_alive w pid then (s, w, [])
          else ensure_free opts e (s\<lparr>sp_proc := None\<rparr>) (removePidFileIfOwn (pidFile opts) pid w)
      | None \<Rightarrow> ensure_free opts e s w)"

definition stop :: "options \<Rightarrow> supervisor \<Rightarrow> world \<Rightarrow> supervisor \<times> world \<times> sup_event list" where
  "stop opts s w =
     (let s1 = \<lparr>sp_proc = None, sp_sync = False, sp_cleanup = None\<rparr> in
      case sp_proc s of
        None \<Rightarrow> (s1, w, [])
      | Some (pid, child) \<Rightarrow> (s1, remove_file (socketPath opts) w, [Signalled pid]))"

text \<open>The first half of the exit watcher: clear the slot if it still holds this child.\<close>

definition clear_slot :: "int \<Rightarrow> supervisor \<Rightarrow> supervisor" where
  "clear_slot pid s = (if sp_proc s = Some (pid, True) then s\<lparr>sp_proc := None\<rparr> else s)"

definition run_cleanup :: "options \<Rightarrow> string \<Rightarrow> world \<Rightarrow> world" where
  "run_cleanup opts prev w =
     remove_file (op_runDir opts @ ''/'' @ op_name opts @ ''-'' @ prev @ ''.sock'')
       (remove_file (op_runDir opts @ ''/'' @ op_name opts @ ''-'' @ prev @ ''.pid'') w)"

section \<open>Runs\<close>

text \<open>
  A run with its events. A child is reaped by its watcher exactly once, after it was spawned; the
  watcher then clears the slot and, at any later point, removes the PID file if it is its own. The
  pid of a start is one that no earlier child of the run had, and writing the PID file works. The rest
  of the host may change processes and other files, not the PID file.
\<close>

record sup_state =
  ss_sup :: supervisor
  ss_world :: world
  ss_trace :: "sup_event list"
  ss_late :: "int set"

inductive sup_step :: "options \<Rightarrow> sup_state \<Rightarrow> sup_state \<Rightarrow> bool" for opts where
  ensures: "ensure opts e (ss_sup t) (ss_world t) = (s, w, ev) \<Longrightarrow>
     e_write e \<Longrightarrow>
     (\<And>pid. e_start e = Some pid \<Longrightarrow> 0 < pid \<and> Spawned pid \<notin> set (ss_trace t)) \<Longrightarrow>
     sup_step opts t (t\<lparr>ss_sup := s, ss_world := w, ss_trace := ss_trace t @ ev\<rparr>)"
| stops: "stop opts (ss_sup t) (ss_world t) = (s, w, ev) \<Longrightarrow>
     sup_step opts t (t\<lparr>ss_sup := s, ss_world := w, ss_trace := ss_trace t @ ev\<rparr>)"
| exits: "Spawned pid \<in> set (ss_trace t) \<Longrightarrow>
     sup_step opts t (t\<lparr>ss_sup := clear_slot pid (ss_sup t), ss_late := insert pid (ss_late t),
        ss_world := (ss_world t)\<lparr>w_alive := (w_alive (ss_world t))(pid := False)\<rparr>\<rparr>)"
| unlinks: "pid \<in> ss_late t \<Longrightarrow>
     sup_step opts t (t\<lparr>ss_world := removePidFileIfOwn (pidFile opts) pid (ss_world t),
        ss_late := ss_late t - {pid}\<rparr>)"
| outside: "w_files w (pidFile opts) = w_files (ss_world t) (pidFile opts) \<Longrightarrow>
     sup_step opts t (t\<lparr>ss_world := w\<rparr>)"

inductive sup_reachable :: "options \<Rightarrow> sup_state \<Rightarrow> bool" for opts where
  start: "sup_reachable opts \<lparr>ss_sup = new_supervisor, ss_world = w, ss_trace = [], ss_late = {}\<rparr>"
| step: "sup_reachable opts t \<Longrightarrow> sup_step opts t u \<Longrightarrow> sup_reachable opts u"

section \<open>Adoption\<close>

lemma adoptLocked_cases:
  "adoptLocked opts s w = (s', w', r) \<Longrightarrow>
     (case r of
        None \<Rightarrow> s' = s \<and> (w' = w \<and> w_files w (pidFile opts) = None \<or> w' = remove_file (pidFile opts) w)
      | Some pid \<Rightarrow> orphan_check opts w pid \<and> w' = w \<and> sp_proc s' = Some (pid, False)
          \<and> (\<exists>raw. w_files w (pidFile opts) = Some (Readable raw) \<and> atoi (trim_space raw) = Some pid))"
  by (auto simp: adoptLocked_def orphan_check_def scheduleSync_def
      split: option.splits file_st.splits if_splits)

lemma spawn_events:
  "spawnLocked opts e s w = (s', w', ev) \<Longrightarrow>
     (ev = [] \<and> s' = s \<and> w' = w)
     \<or> (\<exists>pid. e_start e = Some pid \<and> ev = [Spawned pid, Signalled pid] \<and> s' = s
          \<and> w_files w' = w_files w)
     \<or> (\<exists>pid. e_start e = Some pid \<and> ev = [Spawned pid] \<and> sp_proc s' = Some (pid, True)
          \<and> (w_files w' = (w_files w)(pidFile opts \<mapsto> Readable (itoa pid)) \<or> w_files w' = w_files w))"
  by (auto simp: spawnLocked_def claimPidFile_def scheduleSync_def scheduleCleanup_def Let_def
      split: if_splits option.splits)

text \<open>What an event of \<open>Ensure\<close> tells about the host it started from and the supervisor it left.\<close>

definition event_ok :: "options \<Rightarrow> env \<Rightarrow> world \<Rightarrow> supervisor \<Rightarrow> sup_event \<Rightarrow> bool" where
  "event_ok opts e w s' x =
     (case x of
        Adopted pid \<Rightarrow> orphan_check opts w pid \<and> sp_proc s' = Some (pid, False) \<and> \<not> e_update e
      | Spawned pid \<Rightarrow> e_start e = Some pid
      | Signalled pid \<Rightarrow> e_start e = Some pid)"

lemma ensure_free_events:
  "ensure_free opts e s w = (s', w', ev) \<Longrightarrow> list_all (event_ok opts e w s') ev"
  unfolding ensure_free_def
  by (auto simp: event_ok_def split: if_splits prod.splits option.splits
      dest!: adoptLocked_cases spawn_events)

lemma event_ok_own:
  "event_ok opts e (removePidFileIfOwn (pidFile opts) p w) s x \<Longrightarrow> event_ok opts e w s x"
  by (auto simp: event_ok_def orphan_check_def removePidFileIfOwn_def remove_file_def
      split: sup_event.splits if_splits)

text \<open>
  A process is taken over only after the three checks: whenever \<open>Ensure\<close> adopts a process, it is
  not in update mode, the process is alive, the control socket exists and the command line, where it
  can be read, contains the binary's name; and the only process it ever signals is the redundant
  child it has just started.
\<close>

theorem ensure_adopts_checked:
  "case ensure opts e s w of (s', w', ev) \<Rightarrow> list_all (event_ok opts e w s') ev"
proof -
  obtain s' w' ev where r: "ensure opts e s w = (s', w', ev)" by (cases "ensure opts e s w")
  have "list_all (event_ok opts e w s') ev"
  proof (cases "\<exists>pid. sp_proc s = Some (pid, False) \<and> \<not> w_alive w pid")
    case True
    with r obtain pid where
      "ensure_free opts e (s\<lparr>sp_proc := None\<rparr>) (removePidFileIfOwn (pidFile opts) pid w) = (s', w', ev)"
      by (auto simp: ensure_def)
    from ensure_free_events [OF this] show ?thesis
      by (auto simp: list_all_iff intro: event_ok_own)
  next
    case False
    show ?thesis
    proof (cases "sp_proc s")
      case None
      with r have "ensure_free opts e s w = (s', w', ev)" by (simp add: ensure_def)
      then show ?thesis by (rule ensure_free_events)
    next
      case (Some q)
      then obtain pid child where "sp_proc s = Some (pid, child)" by (cases q) simp
      with False r have "ev = []" by (cases child) (simp_all add: ensure_def)
      then show ?thesis by simp
    qed
  qed
  with r show ?thesis by simp
qed

section \<open>The PID file\<close>

lemma trim_itoa:
  assumes "0 < pid"
  shows "trim_space (itoa pid) = itoa pid"
proof -
  have sp: "\<not> is_space_char c" if "c \<in> set (itoa pid)" for c
    using itoa_chars [OF _ that] assms by (auto simp: is_digit_char_def is_space_char_def)
  have "dropWhile is_space_char xs = xs" if "set xs \<subseteq> set (itoa pid)" for xs
    using that sp by (cases xs) auto
  from this [of "itoa pid"] this [of "rev (itoa pid)"] show ?thesis by (simp add: trim_space_def)
qed

lemma paths_differ: "socketPath opts \<noteq> pidFile opts"
  by (simp add: socketPath_def pidFile_def)

definition sup_inv :: "options \<Rightarrow> sup_state \<Rightarrow> bool" where
  "sup_inv opts t \<longleftrightarrow>
     (\<forall>pid. sp_proc (ss_sup t) = Some (pid, True) \<longrightarrow>
        0 < pid \<and> Spawned pid \<in> set (ss_trace t) \<and> pid \<notin> ss_late t
        \<and> w_files (ss_world t) (pidFile opts) = Some (Readable (itoa pid)))
     \<and> (\<forall>pid \<in> ss_late t. Spawned pid \<in> set (ss_trace t))"

lemma spawn_managed:
  assumes "spawnLocked opts e s w = (s', w', ev)" and "sp_proc s = None" and "e_write e"
    and "sp_proc s' = Some (pid, c)"
  shows "c \<and> e_start e = Some pid \<and> Spawned pid \<in> set ev
    \<and> w_files w' (pidFile opts) = Some (Readable (itoa pid))"
  using assms
  by (auto simp: spawnLocked_def claimPidFile_def scheduleSync_def scheduleCleanup_def Let_def
      split: if_splits option.splits)

lemma ensure_free_managed:
  assumes "ensure_free opts e s w = (s', w', ev)" and "sp_proc s = None" and "e_write e"
    and "sp_proc s' = Some (pid, True)"
  shows "e_start e = Some pid \<and> Spawned pid \<in> set ev
    \<and> w_files w' (pidFile opts) = Some (Readable (itoa pid))"
proof -
  consider "spawnLocked opts e s w = (s', w', ev)"
    | w1 where "spawnLocked opts e s w1 = (s', w', ev)"
    using assms adoptLocked_cases [of opts s w]
    by (fastforce simp: ensure_free_def split: if_splits prod.splits option.splits)
  then show ?thesis by cases (use spawn_managed [OF _ assms(2,3,4)] in blast)+
qed

lemma ensure_managed:
  assumes "ensure opts e s w = (s', w', ev)" and "e_write e" and "sp_proc s' = Some (pid, True)"
  shows "sp_proc s = Some (pid, True) \<and> w' = w \<and> ev = []
    \<or> e_start e = Some pid \<and> Spawned pid \<in> set ev
      \<and> w_files w' (pidFile opts) = Some (Readable (itoa pid))"
proof (cases "\<exists>q. sp_proc s = Some q \<and> (snd q \<or> w_alive w (fst q))")
  case True
  with assms show ?thesis by (auto simp: ensure_def)
next
  case False
  then consider "ensure_free opts e s w = (s', w', ev)" "sp_proc s = None"
    | q where "ensure_free opts e (s\<lparr>sp_proc := None\<rparr>) (removePidFileIfOwn (pidFile opts) q w) = (s', w', ev)"
    using assms(1) by (auto simp: ensure_def split: option.splits)
  then show ?thesis
    by cases (use ensure_free_managed [OF _ _ assms(2,3)] in fastforce)+
qed

lemma sup_step_inv: "sup_step opts t u \<Longrightarrow> sup_inv opts t \<Longrightarrow> sup_inv opts u"
proof (induction rule: sup_step.induct)
  case (ensures e t s w ev)
  show ?case unfolding sup_inv_def
  proof (intro conjI allI impI ballI)
    fix pid
    assume "sp_proc (ss_sup (t\<lparr>ss_sup := s, ss_world := w, ss_trace := ss_trace t @ ev\<rparr>)) = Some (pid, True)"
    then have p: "sp_proc s = Some (pid, True)" by simp
    from ensure_managed [OF ensures(1,2) p] ensures(3,4)
    show "0 < pid" "pid \<notin> ss_late (t\<lparr>ss_sup := s, ss_world := w, ss_trace := ss_trace t @ ev\<rparr>)"
      "Spawned pid \<in> set (ss_trace (t\<lparr>ss_sup := s, ss_world := w, ss_trace := ss_trace t @ ev\<rparr>))"
      "w_files (ss_world (t\<lparr>ss_sup := s, ss_world := w, ss_trace := ss_trace t @ ev\<rparr>)) (pidFile opts)
        = Some (Readable (itoa pid))"
      by (auto simp: sup_inv_def)
  qed (use ensures(4) in \<open>auto simp: sup_inv_def\<close>)
next
  case (stops t s w ev)
  then show ?case by (auto simp: sup_inv_def stop_def Let_def split: option.splits)
next
  case (exits pid t)
  then show ?case by (auto simp: sup_inv_def clear_slot_def)
next
  case (unlinks pid t)
  have "\<not> owns_pid_file (pidFile opts) pid (ss_world t)" if p: "sp_proc (ss_sup t) = Some (q, True)" for q
  proof
    assume own: "owns_pid_file (pidFile opts) pid (ss_world t)"
    from p unlinks(2) have q: "0 < q" "q \<notin> ss_late t"
        "w_files (ss_world t) (pidFile opts) = Some (Readable (itoa q))"
      by (auto simp: sup_inv_def)
    with own have "itoa q = itoa pid" by (simp add: owns_pid_file_def trim_itoa)
    with itoa_inj q(2) unlinks(1) show False by auto
  qed
  with unlinks show ?case by (auto simp: sup_inv_def removePidFileIfOwn_def)
next
  case (outside w t)
  then show ?case by (simp add: sup_inv_def)
qed

text \<open>
  The PID file always names the managed child: whatever ensures, stops, exits and late exit
  handlers are interleaved, while a child is managed the PID file holds its pid, so a handler of an
  earlier child never removes its successor's file.
\<close>

theorem pid_file_names_child:
  assumes "sup_reachable opts t" and "sp_proc (ss_sup t) = Some (pid, True)"
  shows "w_files (ss_world t) (pidFile opts) = Some (Readable (itoa pid))"
proof -
  have "sup_inv opts t" using assms(1)
    by (induction rule: sup_reachable.induct)
      (simp add: sup_inv_def new_supervisor_def, blast intro: sup_step_inv)
  with assms(2) show ?thesis by (simp add: sup_inv_def)
qed

definition demo_opts :: options where
  "demo_opts = \<lparr>op_name = ''proxy'', op_binary = ''odac-proxy'', op_runDir = ''/run'', op_instance = [],
     op_hasSync = True\<rparr>"

definition demo_env :: "int \<Rightarrow> env" where
  "demo_env pid = \<lparr>e_update = False, e_prev = [], e_mkdir = True, e_bin = True, e_start = Some pid,
     e_write = True\<rparr>"

definition demo_world :: world where
  "demo_world = \<lparr>w_files = Map.empty, w_alive = (\<lambda>p. False), w_cmdline = (\<lambda>p. None)\<rparr>"

theorem pid_file_names_child_witness:
  "let r = ensure demo_opts (demo_env 8) new_supervisor demo_world in
   sp_proc (fst r) = Some (8, True) \<and> w_files (fst (snd r)) (pidFile demo_opts) = Some (Readable (itoa 8))"
proof -
  let ?r = "ensure demo_opts (demo_env 8) new_supervisor demo_world"
  let ?t = "\<lparr>ss_sup = new_supervisor, ss_world = demo_world, ss_trace = [], ss_late = {}\<rparr>"
  have p: "sp_proc (fst ?r) = Some (8, True)"
    by (simp add: ensure_def new_supervisor_def ensure_free_def demo_env_def demo_world_def
        adoptLocked_def spawnLocked_def claimPidFile_def scheduleSync_def Let_def)
  have "ensure demo_opts (demo_env 8) (ss_sup ?t) (ss_world ?t) = (fst ?r, fst (snd ?r), snd (snd ?r))"
    by simp
  from sup_reachable.step [OF sup_reachable.start sup_step.ensures [OF this]]
  have "sup_reachable demo_opts (?t\<lparr>ss_sup := fst ?r, ss_world := fst (snd ?r), ss_trace := snd (snd ?r)\<rparr>)"
    by (simp add: demo_env_def)
  from pid_file_names_child [OF this] p show ?thesis by (simp add: Let_def)
qed

text \<open>
  The exit handler reads the PID file and removes it in two system calls outside the mutex. Between
  them an \<open>Ensure\<close> can replace the dead child: the handler of 7 has seen its own pid, the successor 8
  claims the file, and the handler then removes it.
\<close>

lemma late_handler_race:
  "let w0 = demo_world\<lparr>w_files := Map.empty(pidFile demo_opts \<mapsto> Readable ''7'')\<rparr>;
       r = ensure demo_opts (demo_env 8) new_supervisor w0
   in owns_pid_file (pidFile demo_opts) 7 w0 \<and> sp_proc (fst r) = Some (8, True)
      \<and> w_files (remove_file (pidFile demo_opts) (fst (snd r))) (pidFile demo_opts) = None"
proof -
  have "trim_space ''7'' = ''7''" "atoi ''7'' = Some 7" "itoa 7 = ''7''" by code_simp+
  then show ?thesis
    by (simp add: ensure_def new_supervisor_def ensure_free_def demo_env_def demo_world_def
        adoptLocked_def spawnLocked_def claimPidFile_def scheduleSync_def owns_pid_file_def
        remove_file_def Let_def)
qed

end
