(* ===== verification/ProxyCache.thy ===== *)
theory ProxyCache
  imports GoSort "HOL-Library.AList" "HOL-Library.Word"
begin

text \<open>
  \<open>internal/proxy/proxy/cache.go\<close>: the adaptive cache of static assets in the reverse proxy. The
  \<open>sync.Map\<close>s are association lists with distinct keys in the order \<open>Range\<close> would take; each call is
  one step, as are the background evictions. The scores are \<open>float64\<close>s in the code and exact rationals
  here; none of them is a NaN or an infinity, as an elapsed time is at least a second. Times are
  nanoseconds, one reading of the clock per call.
\<close>

section \<open>Constants and data\<close>

definition cacheMaxFileSize :: int where
  "cacheMaxFileSize = 5 * 1024 * 1024"

definition cacheDefaultTTL :: int where
  "cacheDefaultTTL = 120 * 10 ^ 9"

definition cacheMinFrequency :: rat where
  "cacheMinFrequency = 1 / 5"

definition cacheHighFrequency :: rat where
  "cacheHighFrequency = 2"

definition cacheRevalidateInterval :: int where
  "cacheRevalidateInterval = 10 ^ 9"

definition memoryFloorPercent :: rat where
  "memoryFloorPercent = 20"

definition memoryCeilingPercent :: rat where
  "memoryCeilingPercent = 15"

definition memoryPressurePercent :: rat where
  "memoryPressurePercent = 30"

type_synonym headers = "(string \<times> string) list"

text \<open>\<open>Header.Get\<close> by canonical name.\<close>

definition hget :: "headers \<Rightarrow> string \<Rightarrow> string" where
  "hget h k = (case map_of h k of Some v \<Rightarrow> v | None \<Rightarrow> [])"

record response =
  rs_status :: int
  rs_header :: headers

record cache_entry =
  ce_body :: bytes
  ce_contentType :: string
  ce_etag :: string
  ce_headers :: headers
  ce_lastAccess :: int
  ce_lastMod :: string
  ce_size :: int
  ce_status :: int
  ce_hitCount :: int
  ce_createdAt :: int
  ce_revalidating :: bool
  ce_lastRevalidated :: int

record freq_record =
  fq_firstSeen :: int
  fq_count :: int

record cache =
  cm_entries :: "(string \<times> cache_entry) list"
  cm_frequency :: "(string \<times> freq_record) list"
  cm_totalSize :: int
  cm_maxSize :: int
  cm_enabled :: bool
  cm_underPressure :: bool

definition newCacheManager :: cache where
  "newCacheManager = \<lparr>cm_entries = [], cm_frequency = [], cm_totalSize = 0,
     cm_maxSize = 64 * 1024 * 1024, cm_enabled = True, cm_underPressure = False\<rparr>"

section \<open>Frequencies and revalidation\<close>

definition elapsed_seconds :: "int \<Rightarrow> int \<Rightarrow> rat" where
  "elapsed_seconds now t = (let s = of_int (now - t) / 10 ^ 9 in if s < 1 then 1 else s)"

definition entry_frequency :: "int \<Rightarrow> cache_entry \<Rightarrow> rat" where
  "entry_frequency now e = of_int (ce_hitCount e) / elapsed_seconds now (ce_createdAt e)"

definition record_frequency :: "int \<Rightarrow> freq_record \<Rightarrow> rat" where
  "record_frequency now r = of_int (fq_count r) / elapsed_seconds now (fq_firstSeen r)"

definition shouldRevalidate :: "int \<Rightarrow> cache_entry \<Rightarrow> cache_entry \<times> bool" where
  "shouldRevalidate now e =
     (if now - ce_lastRevalidated e < cacheRevalidateInterval then (e, False)
      else if ce_revalidating e then (e, False)
      else (e\<lparr>ce_revalidating := True\<rparr>, True))"

definition finishRevalidation :: "int \<Rightarrow> cache_entry \<Rightarrow> cache_entry" where
  "finishRevalidation now e = e\<lparr>ce_lastRevalidated := now, ce_revalidating := False\<rparr>"

section \<open>What may be cached\<close>

definition cacheKey :: "string \<Rightarrow> string \<Rightarrow> string" where
  "cacheKey host urlPath = host @ urlPath"

text \<open>\<open>path.Ext\<close>: from the last dot of the last path element.\<close>

definition path_ext :: "string \<Rightarrow> string" where
  "path_ext p =
     (let tail = takeWhile (\<lambda>c. c \<noteq> CHR ''/'' \<and> c \<noteq> CHR ''.'') (rev p); rest = drop (length tail) (rev p)
      in if rest \<noteq> [] \<and> hd rest = CHR ''.'' then CHR ''.'' # rev tail else [])"

definition cacheableExtension :: "string \<Rightarrow> bool" where
  "cacheableExtension ext \<longleftrightarrow> ext \<in> set
     [''.avif'', ''.bmp'', ''.css'', ''.eot'', ''.gif'', ''.ico'', ''.jpeg'', ''.jpg'', ''.js'', ''.map'',
      ''.mjs'', ''.otf'', ''.png'', ''.svg'', ''.ttf'', ''.webp'', ''.woff'', ''.woff2'']"

definition isCacheable :: "string \<Rightarrow> headers \<Rightarrow> string \<Rightarrow> string \<Rightarrow> bool" where
  "isCacheable meth hdr rawQuery urlPath \<longleftrightarrow>
     (meth = ''GET'' \<or> meth = ''HEAD'') \<and> hget hdr ''Authorization'' = [] \<and> rawQuery = []
     \<and> cacheableExtension (to_lower (path_ext urlPath))"

definition assetPriority :: "string \<Rightarrow> rat" where
  "assetPriority urlPath =
     (let ext = to_lower (path_ext urlPath) in
      if ext \<in> set [''.css'', ''.js'', ''.mjs''] then 3
      else if ext \<in> set [''.woff'', ''.woff2'', ''.ttf'', ''.eot'', ''.otf''] then 5 / 2
      else if ext \<in> set [''.svg'', ''.ico''] then 2
      else if ext \<in> set [''.webp'', ''.avif'', ''.png'', ''.jpg'', ''.jpeg'', ''.gif'', ''.bmp''] then 1
      else if ext = ''.map'' then 3 / 10
      else 1)"

definition cacheableContentType :: "string \<Rightarrow> bool" where
  "cacheableContentType ct0 =
     (let ct = trim_space (to_lower (case index_byte CHR '';'' ct0 of Some k \<Rightarrow> take k ct0 | None \<Rightarrow> ct0))
      in list_ex (has_prefix ct) [''text/css'', ''text/javascript'', ''application/javascript'',
           ''application/json'', ''image/'', ''font/'', ''application/font'', ''application/x-font'']
         \<or> ct = ''application/octet-stream'' \<or> ct = ''image/svg+xml'' \<or> ct = ''application/wasm'')"

definition private_control :: "string \<Rightarrow> bool" where
  "private_control cc \<longleftrightarrow> contains_str cc ''no-store'' \<or> contains_str cc ''private''"

definition private_vary :: "string \<Rightarrow> bool" where
  "private_vary v0 =
     (let vary = to_lower v0 in
      vary \<noteq> [] \<and> (contains_str vary ''*'' \<or> contains_str vary ''cookie'' \<or> contains_str vary ''authorization''))"

definition isCacheableResponse :: "response \<Rightarrow> bool" where
  "isCacheableResponse r \<longleftrightarrow>
     rs_status r = 200 \<and> cacheableContentType (hget (rs_header r) ''Content-Type'')
     \<and> \<not> private_control (hget (rs_header r) ''Cache-Control'')
     \<and> hget (rs_header r) ''Set-Cookie'' = [] \<and> \<not> private_vary (hget (rs_header r) ''Vary'')"

section \<open>Eviction\<close>

definition size_sum :: "(string \<times> cache_entry) list \<Rightarrow> int" where
  "size_sum es = sum_list (map (\<lambda>e. ce_size (snd e)) es)"

text \<open>A \<open>Range\<close> that deletes the entries with a property and takes their sizes off the total.\<close>

definition drop_where :: "(string \<Rightarrow> cache_entry \<Rightarrow> bool) \<Rightarrow> cache \<Rightarrow> cache" where
  "drop_where P cm =
     cm\<lparr>cm_entries := filter (\<lambda>e. \<not> P (fst e) (snd e)) (cm_entries cm),
        cm_totalSize := cm_totalSize cm - size_sum (filter (\<lambda>e. P (fst e) (snd e)) (cm_entries cm))\<rparr>"

definition of_host :: "string \<Rightarrow> string \<Rightarrow> bool" where
  "of_host host k \<longleftrightarrow> k = host \<or> has_prefix k (host @ ''/'')"

definition purge :: "string \<Rightarrow> cache \<Rightarrow> cache \<times> nat" where
  "purge host cm =
     ((drop_where (\<lambda>k e. of_host host k) cm)
        \<lparr>cm_frequency := filter (\<lambda>f. \<not> of_host host (fst f)) (cm_frequency cm)\<rparr>,
      length (filter (\<lambda>e. of_host host (fst e)) (cm_entries cm)))"

definition purgeAll :: "cache \<Rightarrow> cache \<times> nat" where
  "purgeAll cm = ((drop_where (\<lambda>k e. True) cm)\<lparr>cm_frequency := []\<rparr>, length (cm_entries cm))"

definition evictExpired :: "int \<Rightarrow> cache \<Rightarrow> cache" where
  "evictExpired now cm =
     (let cm1 = drop_where (\<lambda>k e. now - ce_lastAccess e > cacheDefaultTTL) cm
      in cm1\<lparr>cm_frequency := filter (\<lambda>f. \<not> (now - fq_firstSeen (snd f) > 2 * cacheDefaultTTL
                                          \<and> map_of (cm_entries cm1) (fst f) = None)) (cm_frequency cm1)\<rparr>)"

definition evictUnderPressure :: "int \<Rightarrow> cache \<Rightarrow> cache" where
  "evictUnderPressure now cm =
     (if \<not> cm_underPressure cm then cm
      else drop_where (\<lambda>k e. entry_frequency now e * assetPriority k < cacheHighFrequency) cm)"

record candidate =
  ca_key :: string
  ca_lastAccess :: int
  ca_score :: rat
  ca_size :: int

definition candidate_less :: "candidate \<Rightarrow> candidate \<Rightarrow> bool" where
  "candidate_less x y \<longleftrightarrow>
     ca_score x < ca_score y \<or> (ca_score x = ca_score y \<and> ca_lastAccess x < ca_lastAccess y)"

definition sortCandidates :: "candidate list \<Rightarrow> candidate list" where
  "sortCandidates = isort candidate_less"

definition candidate_of :: "int \<Rightarrow> string \<times> cache_entry \<Rightarrow> candidate" where
  "candidate_of now e = \<lparr>ca_key = fst e, ca_lastAccess = ce_lastAccess (snd e),
     ca_score = entry_frequency now (snd e) * assetPriority (fst e), ca_size = ce_size (snd e)\<rparr>"

fun evict_loop :: "int \<Rightarrow> int \<Rightarrow> candidate list \<Rightarrow> cache \<Rightarrow> cache" where
  "evict_loop needed freed [] cm = cm"
| "evict_loop needed freed (c # cs) cm =
     (if freed \<ge> needed then cm
      else (case map_of (cm_entries cm) (ca_key c) of
              None \<Rightarrow> evict_loop needed freed cs cm
            | Some e \<Rightarrow> evict_loop needed (freed + ce_size e) cs (drop_where (\<lambda>k x. k = ca_key c) cm)))"

definition evictLRU :: "int \<Rightarrow> int \<Rightarrow> cache \<Rightarrow> cache" where
  "evictLRU now needed cm =
     evict_loop needed 0 (sortCandidates (map (candidate_of now) (cm_entries cm))) cm"

section \<open>Lookup and admission\<close>

definition recordFrequency :: "int \<Rightarrow> string \<Rightarrow> cache \<Rightarrow> cache" where
  "recordFrequency now key cm =
     (case map_of (cm_frequency cm) key of
        Some r \<Rightarrow> cm\<lparr>cm_frequency := AList.update key (r\<lparr>fq_count := fq_count r + 1\<rparr>) (cm_frequency cm)\<rparr>
      | None \<Rightarrow> cm\<lparr>cm_frequency := AList.update key \<lparr>fq_firstSeen = now, fq_count = 1\<rparr> (cm_frequency cm)\<rparr>)"

definition cache_get :: "int \<Rightarrow> string \<Rightarrow> string \<Rightarrow> cache \<Rightarrow> cache \<times> cache_entry option" where
  "cache_get now host urlPath cm0 =
     (let key = cacheKey host urlPath; cm = recordFrequency now key cm0 in
      if \<not> cm_enabled cm then (cm, None)
      else (case map_of (cm_entries cm) key of
              None \<Rightarrow> (cm, None)
            | Some e0 \<Rightarrow>
                let e = e0\<lparr>ce_lastAccess := now, ce_hitCount := ce_hitCount e0 + 1\<rparr>
                in (cm\<lparr>cm_entries := AList.update key e (cm_entries cm)\<rparr>, Some e)))"

definition shouldAdmit :: "int \<Rightarrow> string \<Rightarrow> string \<Rightarrow> int \<Rightarrow> cache \<Rightarrow> cache \<times> bool" where
  "shouldAdmit now key urlPath sz cm0 =
     (let over = (cm_totalSize cm0 + sz > cm_maxSize cm0);
          cm = (if over then evictLRU now sz cm0 else cm0)
      in if over \<and> cm_totalSize cm + sz > cm_maxSize cm then (cm, False)
         else (case map_of (cm_frequency cm) key of
                 None \<Rightarrow> (cm, False)
               | Some r \<Rightarrow>
                   let score = record_frequency now r * assetPriority urlPath
                   in (cm, if cm_underPressure cm then score \<ge> cacheHighFrequency
                           else score \<ge> cacheMinFrequency)))"

definition kept_headers :: "response \<Rightarrow> headers" where
  "kept_headers r =
     filter (\<lambda>h. snd h \<noteq> [])
       (map (\<lambda>k. (k, hget (rs_header r) k)) [''Cache-Control'', ''Content-Type'', ''ETag'', ''Last-Modified'', ''Vary''])"

definition put_entry :: "string \<Rightarrow> cache_entry \<Rightarrow> cache \<Rightarrow> cache" where
  "put_entry key e cm =
     (let cm1 = drop_where (\<lambda>k x. k = key) cm
      in cm1\<lparr>cm_entries := cm_entries cm1 @ [(key, e)], cm_totalSize := cm_totalSize cm1 + ce_size e\<rparr>)"

definition cache_put :: "int \<Rightarrow> string \<Rightarrow> string \<Rightarrow> response \<Rightarrow> bytes \<Rightarrow> cache \<Rightarrow> cache" where
  "cache_put now host urlPath resp body cm =
     (if \<not> cm_enabled cm then cm
      else if int (length body) > cacheMaxFileSize \<or> length body = 0 then cm
      else if \<not> cacheableContentType (hget (rs_header resp) ''Content-Type'') then cm
      else if rs_status resp \<noteq> 200 then cm
      else if private_control (hget (rs_header resp) ''Cache-Control'') then cm
      else if hget (rs_header resp) ''Set-Cookie'' \<noteq> [] then cm
      else if private_vary (hget (rs_header resp) ''Vary'') then cm
      else
        let key = cacheKey host urlPath in
        case shouldAdmit now key urlPath (int (length body)) cm of
          (cm1, False) \<Rightarrow> cm1
        | (cm1, True) \<Rightarrow>
            put_entry key
              \<lparr>ce_body = body, ce_contentType = hget (rs_header resp) ''Content-Type'',
               ce_etag = hget (rs_header resp) ''ETag'', ce_headers = kept_headers resp,
               ce_lastAccess = now, ce_lastMod = hget (rs_header resp) ''Last-Modified'',
               ce_size = int (length body), ce_status = rs_status resp, ce_hitCount = 1,
               ce_createdAt = now, ce_revalidating = False, ce_lastRevalidated = 0\<rparr> cm1)"

section \<open>Memory\<close>

definition updateMemory :: "64 word \<Rightarrow> 64 word \<Rightarrow> cache \<Rightarrow> cache" where
  "updateMemory memTotal memUsed cm =
     (if memTotal = 0 then cm
      else
        let available = (if memUsed > memTotal then 0 else memTotal - memUsed);
            av = (of_nat (unat available) :: rat);
            freePercent = av / of_nat (unat memTotal) * 100
        in if freePercent < memoryFloorPercent
           then (if cm_enabled cm then fst (purgeAll (cm\<lparr>cm_enabled := False\<rparr>)) else cm)
           else
             let newMax = \<lfloor>av * memoryCeilingPercent / 100\<rfloor>
             in cm\<lparr>cm_enabled := True, cm_underPressure := freePercent < memoryPressurePercent,
                   cm_maxSize := (if newMax < 16 * 1024 * 1024 then 16 * 1024 * 1024 else newMax)\<rparr>)"

section \<open>Serving\<close>

text \<open>The status, the headers set beside the preserved ones, and the body if one is written.\<close>

definition serveFromCache :: "int \<Rightarrow> string \<Rightarrow> headers \<Rightarrow> cache_entry \<Rightarrow> int \<times> headers \<times> bytes option" where
  "serveFromCache now meth hdr e =
     (let age = itoa ((now - ce_createdAt e) div 10 ^ 9);
          hs = ce_headers e @ [(''Age'', age), (''X-Odac-Cache'', ''HIT''), (''Server'', ''ODAC'')]
      in if ce_etag e \<noteq> [] \<and> hget hdr ''If-None-Match'' = ce_etag e then (304, hs, None)
         else if ce_lastMod e \<noteq> [] \<and> hget hdr ''If-Modified-Since'' = ce_lastMod e then (304, hs, None)
         else
           let hs' = hs @ [(''Content-Length'', itoa (ce_size e))]
           in if meth = ''HEAD'' then (ce_status e, hs', None) else (ce_status e, hs', Some (ce_body e)))"

section \<open>Accounting\<close>

text \<open>An entry the cache may hold.\<close>

definition entry_ok :: "cache_entry \<Rightarrow> bool" where
  "entry_ok e \<longleftrightarrow>
     ce_size e = int (length (ce_body e)) \<and> 0 < ce_size e \<and> ce_size e \<le> cacheMaxFileSize
     \<and> ce_status e = 200 \<and> cacheableContentType (ce_contentType e)
     \<and> \<not> private_control (hget (ce_headers e) ''Cache-Control'') \<and> \<not> private_vary (hget (ce_headers e) ''Vary'')"

definition cache_inv :: "cache \<Rightarrow> bool" where
  "cache_inv cm \<longleftrightarrow>
     distinct (map fst (cm_entries cm)) \<and> cm_totalSize cm = size_sum (cm_entries cm)
     \<and> (\<forall>e \<in> set (cm_entries cm). entry_ok (snd e))"

datatype cache_op =
  Get int string string
| Put int string string response bytes
| Purge string
| PurgeAll
| Expire int
| Relieve int
| Memory "64 word" "64 word"
| Revalidate int string
| Revalidated int string

text \<open>Revalidation flags live in the entry itself.\<close>

definition on_entry :: "string \<Rightarrow> (cache_entry \<Rightarrow> cache_entry) \<Rightarrow> cache \<Rightarrow> cache" where
  "on_entry key f cm =
     (case map_of (cm_entries cm) key of
        None \<Rightarrow> cm
      | Some e \<Rightarrow> cm\<lparr>cm_entries := AList.update key (f e) (cm_entries cm)\<rparr>)"

fun cache_step :: "cache_op \<Rightarrow> cache \<Rightarrow> cache" where
  "cache_step (Get now h p) cm = fst (cache_get now h p cm)"
| "cache_step (Put now h p r b) cm = cache_put now h p r b cm"
| "cache_step (Purge h) cm = fst (purge h cm)"
| "cache_step PurgeAll cm = fst (purgeAll cm)"
| "cache_step (Expire now) cm = evictExpired now cm"
| "cache_step (Relieve now) cm = evictUnderPressure now cm"
| "cache_step (Memory t u) cm = updateMemory t u cm"
| "cache_step (Revalidate now k) cm = on_entry k (\<lambda>e. fst (shouldRevalidate now e)) cm"
| "cache_step (Revalidated now k) cm = on_entry k (finishRevalidation now) cm"

lemma size_sum_simps [simp]:
  "size_sum [] = 0" "size_sum (e # es) = ce_size (snd e) + size_sum es"
  "size_sum (es @ fs) = size_sum es + size_sum fs"
  by (simp_all add: size_sum_def)

lemma size_sum_split: "size_sum es = size_sum (filter P es) + size_sum (filter (\<lambda>e. \<not> P e) es)"
  by (induction es) auto

lemma drop_where_inv: "cache_inv cm \<Longrightarrow> cache_inv (drop_where P cm)"
  using size_sum_split [of "cm_entries cm" "\<lambda>e. P (fst e) (snd e)"]
  by (auto simp: cache_inv_def drop_where_def distinct_map_filter)

lemma inv_frame:
  "cm_entries cm' = cm_entries cm \<Longrightarrow> cm_totalSize cm' = cm_totalSize cm \<Longrightarrow> cache_inv cm \<Longrightarrow> cache_inv cm'"
  by (simp add: cache_inv_def)

lemma evict_loop_inv: "cache_inv cm \<Longrightarrow> cache_inv (evict_loop needed freed cs cm)"
  by (induction needed freed cs cm rule: evict_loop.induct) (auto intro: drop_where_inv split: option.split)

lemma shouldAdmit_inv: "shouldAdmit now key p sz cm = (cm', ok) \<Longrightarrow> cache_inv cm \<Longrightarrow> cache_inv cm'"
  by (auto simp: shouldAdmit_def Let_def evictLRU_def split: if_splits option.splits intro: evict_loop_inv)

lemma set_update_alist: "set (AList.update k v xs) \<subseteq> insert (k, v) (set xs)"
  by (induction xs) auto

lemma size_sum_update:
  "map_of es key = Some e \<Longrightarrow> distinct (map fst es) \<Longrightarrow> ce_size e' = ce_size e \<Longrightarrow>
     size_sum (AList.update key e' es) = size_sum es"
  by (induction es) (auto split: if_splits)

lemma update_entry_inv:
  assumes "cache_inv cm" and "map_of (cm_entries cm) key = Some e" and "ce_size e' = ce_size e"
    and "entry_ok e \<Longrightarrow> entry_ok e'"
  shows "cache_inv (cm\<lparr>cm_entries := AList.update key e' (cm_entries cm)\<rparr>)"
proof -
  have "entry_ok e'" using assms(1,4) map_of_SomeD [OF assms(2)] by (force simp: cache_inv_def)
  with assms set_update_alist [of key e' "cm_entries cm"] size_sum_update [of "cm_entries cm" key e e']
  show ?thesis by (auto simp: cache_inv_def distinct_update)
qed

lemma on_entry_inv:
  "cache_inv cm \<Longrightarrow> (\<And>e. ce_size (f e) = ce_size e) \<Longrightarrow> (\<And>e. entry_ok e \<Longrightarrow> entry_ok (f e)) \<Longrightarrow>
     cache_inv (on_entry key f cm)"
  by (auto simp: on_entry_def intro: update_entry_inv split: option.split)

lemma hget_collected:
  "k \<in> set ks \<Longrightarrow>
     hget (filter (\<lambda>kv. snd kv \<noteq> []) (map (\<lambda>k. (k, f k)) ks)) k = f k"
proof (induction ks)
  case (Cons x ks)
  have none: "hget (filter (\<lambda>kv. snd kv \<noteq> []) (map (\<lambda>k. (k, f k)) zs)) k = []" if "k \<notin> set zs" for zs
    using that by (induction zs) (auto simp: hget_def)
  show ?case using Cons none [of ks] by (cases "k \<in> set ks") (auto simp: hget_def)
qed simp

lemma kept_headers_get:
  "k \<in> set [''Cache-Control'', ''Content-Type'', ''ETag'', ''Last-Modified'', ''Vary''] \<Longrightarrow>
     hget (kept_headers r) k = hget (rs_header r) k"
  unfolding kept_headers_def by (rule hget_collected)

lemma put_entry_inv: "cache_inv cm \<Longrightarrow> entry_ok e \<Longrightarrow> cache_inv (put_entry key e cm)"
  using drop_where_inv [of cm "\<lambda>k x. k = key"]
  by (auto simp: cache_inv_def put_entry_def Let_def drop_where_def)

lemma cache_put_inv:
  assumes "cache_inv cm"
  shows "cache_inv (cache_put now h p r b cm)"
proof (cases "shouldAdmit now (cacheKey h p) p (int (length b)) cm")
  case (Pair cm1 ok)
  have "cache_inv cm1" using shouldAdmit_inv [OF Pair assms] .
  then show ?thesis using assms Pair
    by (auto simp: cache_put_def Let_def entry_ok_def kept_headers_get split: bool.split
        intro!: put_entry_inv)
qed

lemma purgeAll_inv: "cache_inv cm \<Longrightarrow> cache_inv (fst (purgeAll cm))"
  by (rule inv_frame [of _ "drop_where (\<lambda>k e. True) cm"]) (auto simp: purgeAll_def Let_def intro: drop_where_inv)

lemma updateMemory_inv:
  assumes "cache_inv cm"
  shows "cache_inv (updateMemory t u cm)"
proof -
  have "cache_inv (cm\<lparr>cm_enabled := False\<rparr>)" using assms by (rule inv_frame [rotated 2]) simp_all
  then show ?thesis using assms
    by (simp add: updateMemory_def Let_def purgeAll_inv) (simp add: cache_inv_def)
qed

lemma cache_step_inv: "cache_inv cm \<Longrightarrow> cache_inv (cache_step x cm)"
proof (cases "(x, cm)" rule: cache_step.cases)
  case (1 now h p cm')
  have r: "cache_inv (recordFrequency now k cm)" if "cache_inv cm" for k
    using that by (auto simp: recordFrequency_def intro: inv_frame split: option.split)
  assume "cache_inv cm"
  with 1 r show ?thesis
    by (auto simp: cache_get_def Let_def intro!: update_entry_inv split: option.split)
      (auto simp: entry_ok_def)
next
  case (2 now h p r b cm')
  then show "cache_inv cm \<Longrightarrow> ?thesis" by (simp add: cache_put_inv)
next
  case (7 t u cm')
  then show "cache_inv cm \<Longrightarrow> ?thesis"
    by (simp add: updateMemory_inv)
next
  case (8 now k cm')
  then show "cache_inv cm \<Longrightarrow> ?thesis"
    by (auto intro!: on_entry_inv simp: shouldRevalidate_def entry_ok_def)
next
  case (9 now k cm')
  then show "cache_inv cm \<Longrightarrow> ?thesis"
    by (auto intro!: on_entry_inv simp: finishRevalidation_def entry_ok_def)
qed (auto simp: purge_def purgeAll_def evictExpired_def evictUnderPressure_def Let_def
    intro: inv_frame [OF _ _ drop_where_inv] drop_where_inv)


section \<open>The size limit\<close>

lemma entry_ok_pos: "entry_ok e \<Longrightarrow> 0 < ce_size e"
  unfolding entry_ok_def by blast

lemma size_sum_nonneg: "(\<forall>e \<in> set es. entry_ok (snd e)) \<Longrightarrow> 0 \<le> size_sum es"
  by (induction es) (auto dest: entry_ok_pos)

lemma drop_where_total_le: "cache_inv cm \<Longrightarrow> cm_totalSize (drop_where P cm) \<le> cm_totalSize cm"
  using size_sum_nonneg [of "filter (\<lambda>e. P (fst e) (snd e)) (cm_entries cm)"]
  by (auto simp: drop_where_def cache_inv_def)

lemma evict_loop_total_le:
  "cache_inv cm \<Longrightarrow> cm_totalSize (evict_loop needed freed cs cm) \<le> cm_totalSize cm"
proof (induction needed freed cs cm rule: evict_loop.induct)
  case (2 needed freed c cs cm)
  then show ?case
    using drop_where_total_le [OF 2(3), of "\<lambda>k x. k = ca_key c"] drop_where_inv [OF 2(3)]
    by (fastforce split: option.split)
qed simp

lemma evict_loop_max [simp]: "cm_maxSize (evict_loop needed freed cs cm) = cm_maxSize cm"
  by (induction needed freed cs cm rule: evict_loop.induct) (auto simp: drop_where_def split: option.split)

lemma shouldAdmit_limit:
  assumes "shouldAdmit now key p sz cm = (cm', ok)" and "cache_inv cm"
  shows "cm_totalSize cm' \<le> cm_totalSize cm \<and> cm_maxSize cm' = cm_maxSize cm
    \<and> (ok \<longrightarrow> cm_totalSize cm' + sz \<le> cm_maxSize cm')"
proof -
  have "cm_totalSize (evictLRU now sz cm) \<le> cm_totalSize cm" "cm_maxSize (evictLRU now sz cm) = cm_maxSize cm"
    by (simp_all add: evictLRU_def evict_loop_total_le assms(2))
  with assms(1) show ?thesis by (auto simp: shouldAdmit_def Let_def split: if_splits option.splits)
qed

text \<open>
  A store never pushes the cache over its limit: afterwards the total is within the maximum, or
  no larger than it already was.
\<close>

theorem put_within_limit:
  assumes "cache_inv cm"
  shows "cm_totalSize (cache_put now h p r b cm) \<le> max (cm_totalSize cm) (cm_maxSize cm)"
proof (cases "shouldAdmit now (cacheKey h p) p (int (length b)) cm")
  case (Pair cm1 ok)
  note lim = shouldAdmit_limit [OF Pair assms]
  have d: "cm_totalSize (drop_where (\<lambda>k x. k = cacheKey h p) cm1) \<le> cm_totalSize cm1"
    using shouldAdmit_inv [OF Pair assms] by (rule drop_where_total_le)
  show ?thesis using lim d Pair
    by (auto simp: cache_put_def put_entry_def Let_def le_max_iff_disj split: bool.split)
qed

theorem put_within_limit_witness:
  "cm_totalSize (cache_put 0 ''a.co'' ''/x.css'' \<lparr>rs_status = 200, rs_header = [(''Content-Type'', ''text/css'')]\<rparr>
     ''body'' (fst (cache_get 0 ''a.co'' ''/x.css'' newCacheManager))) \<le> 64 * 1024 * 1024"
proof -
  have i: "cache_inv (fst (cache_get 0 ''a.co'' ''/x.css'' newCacheManager))"
    by (simp add: cache_get_def recordFrequency_def newCacheManager_def cache_inv_def Let_def)
  have m: "cm_maxSize (fst (cache_get 0 ''a.co'' ''/x.css'' newCacheManager)) = 64 * 1024 * 1024"
      "cm_totalSize (fst (cache_get 0 ''a.co'' ''/x.css'' newCacheManager)) = 0"
    by (simp_all add: cache_get_def recordFrequency_def newCacheManager_def Let_def)
  from put_within_limit [OF i] m show ?thesis by (metis max_def zero_le_numeral mult_nonneg_nonneg)
qed

section \<open>Least valuable first\<close>

interpretation candidate_order: go_less candidate_less
  by unfold_locales (auto simp: candidate_less_def)

text \<open>\<open>evict_loop\<close> removes a prefix of its candidates, as short as the need allows.\<close>

lemma evict_loop_prefix:
  assumes "distinct (map ca_key cs)" and "\<forall>c \<in> set cs. \<exists>e. map_of (cm_entries cm) (ca_key c) = Some e \<and> ce_size e = ca_size c"
  shows "\<exists>n. cm_entries (evict_loop needed freed cs cm)
        = filter (\<lambda>e. fst e \<notin> ca_key ` set (take n cs)) (cm_entries cm)
      \<and> (needed \<le> freed + sum_list (map ca_size (take n cs)) \<or> n = length cs)"
  using assms
proof (induction cs arbitrary: freed cm)
  case Nil
  then show ?case by (intro exI [of _ 0]) simp
next
  case (Cons c cs)
  show ?case
  proof (cases "freed \<ge> needed")
    case True
    then show ?thesis by (intro exI [of _ 0]) simp
  next
    case False
    let ?cm = "drop_where (\<lambda>k x. k = ca_key c) cm"
    from Cons.prems(2) obtain e where e: "map_of (cm_entries cm) (ca_key c) = Some e" "ce_size e = ca_size c"
      by auto
    have other: "map_of (cm_entries ?cm) k = map_of (cm_entries cm) k" if "k \<noteq> ca_key c" for k
    proof -
      have "map_of (filter (\<lambda>e. fst e \<noteq> ca_key c) xs) k = map_of xs k" for xs :: "(string \<times> cache_entry) list"
        using that by (induction xs) auto
      then show ?thesis by (simp add: drop_where_def)
    qed
    have "\<forall>x \<in> set cs. \<exists>e. map_of (cm_entries ?cm) (ca_key x) = Some e \<and> ce_size e = ca_size x"
    proof
      fix x
      assume x: "x \<in> set cs"
      with Cons.prems(1) have "ca_key x \<noteq> ca_key c" by (metis distinct.simps(2) image_eqI image_set list.simps(9))
      with x Cons.prems(2) other show "\<exists>e. map_of (cm_entries ?cm) (ca_key x) = Some e \<and> ce_size e = ca_size x"
        by simp
    qed
    with Cons.IH [of ?cm "freed + ce_size e"] Cons.prems(1) obtain n where
      n: "cm_entries (evict_loop needed (freed + ce_size e) cs ?cm)
          = filter (\<lambda>e. fst e \<notin> ca_key ` set (take n cs)) (cm_entries ?cm)"
        "needed \<le> freed + ce_size e + sum_list (map ca_size (take n cs)) \<or> n = length cs"
      by auto
    then show ?thesis using False e
      by (intro exI [of _ "Suc n"]) (auto simp: drop_where_def intro!: filter_cong)
  qed
qed

lemma candidate_fields [simp]: "ca_key (candidate_of now e) = fst e" "ca_size (candidate_of now e) = ce_size (snd e)"
  by (simp_all add: candidate_of_def)

lemma candidate_inj: "inj_on fst X \<Longrightarrow> inj_on (candidate_of now) X"
  by (metis candidate_fields(1) inj_onD inj_onI)

text \<open>So an eviction cuts the sorted candidates in two: the first part goes, the second stays.\<close>

lemma evictLRU_cut:
  assumes "cache_inv cm"
  obtains T R where "T @ R = sortCandidates (map (candidate_of now) (cm_entries cm))"
    and "distinct T" and "set T \<union> set R = candidate_of now ` set (cm_entries cm)"
    and "cm_entries (evictLRU now needed cm) = filter (\<lambda>e. candidate_of now e \<notin> set T) (cm_entries cm)"
    and "needed \<le> sum_list (map ca_size T) \<or> R = []"
proof -
  let ?es = "cm_entries cm"
  let ?cs = "sortCandidates (map (candidate_of now) ?es)"
  have keys: "mset (map ca_key ?cs) = mset (map fst ?es)"
    unfolding mset_map by (simp add: sortCandidates_def multiset.map_comp comp_def)
  have dist: "distinct (map ca_key ?cs)" "distinct (map fst ?es)"
    using assms mset_eq_imp_distinct_iff [OF keys] by (simp_all add: cache_inv_def)
  have mem: "set ?cs = candidate_of now ` set ?es" by (simp add: sortCandidates_def)
  have found: "\<forall>c \<in> set ?cs. \<exists>e. map_of ?es (ca_key c) = Some e \<and> ce_size e = ca_size c"
    unfolding mem using map_of_is_SomeI [OF dist(2)] by auto
  obtain n where n: "cm_entries (evictLRU now needed cm) = filter (\<lambda>e. fst e \<notin> ca_key ` set (take n ?cs)) ?es"
      "needed \<le> sum_list (map ca_size (take n ?cs)) \<or> n = length ?cs"
    using evict_loop_prefix [OF dist(1) found, of needed 0] by (auto simp: evictLRU_def)
  have key_of: "fst e \<in> ca_key ` set (take n ?cs) \<longleftrightarrow> candidate_of now e \<in> set (take n ?cs)"
    if e: "e \<in> set ?es" for e
  proof -
    have "candidate_of now e \<in> set ?cs" using e mem by simp
    moreover have "inj_on ca_key (set ?cs)" using dist(1) unfolding distinct_map by simp
    ultimately have "ca_key (candidate_of now e) \<in> ca_key ` set (take n ?cs) \<longleftrightarrow> candidate_of now e \<in> set (take n ?cs)"
      using set_take_subset by (intro inj_on_image_mem_iff)
    then show ?thesis unfolding candidate_fields .
  qed
  then have "cm_entries (evictLRU now needed cm) = filter (\<lambda>e. candidate_of now e \<notin> set (take n ?cs)) ?es"
    unfolding n(1) by (simp cong: filter_cong)
  moreover have "set (take n ?cs) \<union> set (drop n ?cs) = candidate_of now ` set ?es"
    unfolding mem [symmetric] set_append [symmetric] append_take_drop_id ..
  moreover have "distinct (take n ?cs)" using dist(1) unfolding distinct_map by (simp add: distinct_take)
  ultimately show ?thesis using n(2) by (intro that [of "take n ?cs" "drop n ?cs"]) auto
qed

lemma freed_is_sum:
  assumes "distinct (map fst es)" and "distinct T" and "set T \<subseteq> candidate_of now ` set es"
  shows "size_sum es - size_sum (filter (\<lambda>e. candidate_of now e \<notin> set T) es) = sum_list (map ca_size T)"
proof -
  let ?out = "{e \<in> set es. candidate_of now e \<in> set T}"
  have inj: "inj_on (candidate_of now) ?out"
    using assms(1) by (intro candidate_inj) (auto simp: distinct_map intro: inj_on_subset)
  have T: "set T = candidate_of now ` ?out" using assms(3) by auto
  have "size_sum es - size_sum (filter (\<lambda>e. candidate_of now e \<notin> set T) es)
      = size_sum (filter (\<lambda>e. candidate_of now e \<in> set T) es)"
    using size_sum_split [of es "\<lambda>e. candidate_of now e \<in> set T"] by simp
  also have "\<dots> = (\<Sum>e \<in> ?out. ce_size (snd e))"
    using assms(1) unfolding size_sum_def
    by (subst sum_list_distinct_conv_sum_set) (auto simp: distinct_map)
  also have "\<dots> = (\<Sum>c \<in> set T. ca_size c)"
    by (subst T, subst sum.reindex [OF inj]) simp
  also have "\<dots> = sum_list (map ca_size T)"
    using assms(2) by (rule sum_list_distinct_conv_sum_set [symmetric])
  finally show ?thesis .
qed

text \<open>
  An eviction takes the least valuable entries: no entry that is evicted has a higher score than
  one that is kept (nor, at the same score, a later access), and either enough bytes were freed or
  the cache is empty.
\<close>

theorem evictLRU_least_valuable:
  assumes "cache_inv cm"
  shows "(\<forall>e k. e \<in> set (cm_entries cm) - set (cm_entries (evictLRU now needed cm)) \<and>
             k \<in> set (cm_entries (evictLRU now needed cm)) \<longrightarrow>
             \<not> candidate_less (candidate_of now k) (candidate_of now e))
    \<and> (needed \<le> cm_totalSize cm - cm_totalSize (evictLRU now needed cm) \<or> cm_entries (evictLRU now needed cm) = [])"
proof -
  let ?new = "evictLRU now needed cm"
  obtain T R where cut: "T @ R = sortCandidates (map (candidate_of now) (cm_entries cm))" "distinct T"
      "set T \<union> set R = candidate_of now ` set (cm_entries cm)"
      "cm_entries ?new = filter (\<lambda>e. candidate_of now e \<notin> set T) (cm_entries cm)"
      "needed \<le> sum_list (map ca_size T) \<or> R = []"
    using evictLRU_cut [OF assms] by metis
  have "sorted_wrt (\<lambda>x y. \<not> candidate_less y x) (T @ R)"
    using candidate_order.isort_ordered by (simp add: cut(1) sortCandidates_def)
  then have order: "\<not> candidate_less y x" if "x \<in> set T" "y \<in> set R" for x y
    using that unfolding sorted_wrt_append by blast
  have "cache_inv ?new" using assms by (simp add: evictLRU_def evict_loop_inv)
  then have "cm_totalSize cm - cm_totalSize ?new = sum_list (map ca_size T)"
    using assms cut(2,3) freed_is_sum [of "cm_entries cm" T now] by (auto simp: cache_inv_def cut(4))
  moreover have "cm_entries ?new = []" if "R = []"
    using cut(3,4) that by (auto simp: filter_empty_conv)
  moreover have "candidate_of now e \<in> set T \<and> candidate_of now k \<in> set R"
    if "e \<in> set (cm_entries cm) - set (cm_entries ?new)" "k \<in> set (cm_entries ?new)" for e k
    using that cut(3,4) by auto
  ultimately show ?thesis using cut(5) order by simp metis
qed

theorem evictLRU_least_valuable_witness:
  "cm_totalSize newCacheManager = 0 \<and> cm_entries (evictLRU 0 1 newCacheManager) = []"
proof -
  have "cache_inv newCacheManager" by (simp add: cache_inv_def newCacheManager_def)
  from evictLRU_least_valuable [OF this, of 1 0] show ?thesis
    by (auto simp: newCacheManager_def evictLRU_def sortCandidates_def isort_def)
qed

text \<open>
  The room is made before the frequency is looked at: a store that is then refused has still evicted
  entries that were worth keeping.
\<close>

lemma refused_store_evicts:
  "cache_put (10 * 10 ^ 9) ''a'' ''/y.png'' \<lparr>rs_status = 200, rs_header = [(''Content-Type'', ''image/png'')]\<rparr> ''b''
     \<lparr>cm_entries = [(''a/x.css'',
        \<lparr>ce_body = ''c'', ce_contentType = ''text/css'', ce_etag = [], ce_headers = [], ce_lastAccess = 0, ce_lastMod = [],
         ce_size = 1, ce_status = 200, ce_hitCount = 1000, ce_createdAt = 0, ce_revalidating = False, ce_lastRevalidated = 0\<rparr>)],
      cm_frequency = [(''a/y.png'', \<lparr>fq_firstSeen = 0, fq_count = 1\<rparr>)], cm_totalSize = 1, cm_maxSize = 1,
      cm_enabled = True, cm_underPressure = False\<rparr>
   = \<lparr>cm_entries = [], cm_frequency = [(''a/y.png'', \<lparr>fq_firstSeen = 0, fq_count = 1\<rparr>)], cm_totalSize = 0, cm_maxSize = 1,
      cm_enabled = True, cm_underPressure = False\<rparr>"
  by code_simp

end
