(* ===== verification/Docker.thy ===== *)
theory Docker
  imports Prelude
begin

text \<open>
  \<open>internal/updater/docker.go\<close>: the updater's view of the Docker daemon. The daemon is outside the
  repository: \<open>docker\<close> is the interface, the locale \<open>docker_engine\<close> what its documentation promises of
  the calls that change containers (a call that fails changes nothing, not-found means what it says),
  and \<open>engine\<close> an instance whose calls may fail at any time.
\<close>

section \<open>The interface\<close>

record mount_point =
  mp_name :: string
  mp_source :: string
  mp_destination :: string

record log_config =
  lc_type :: string
  lc_config :: "(string \<times> string) list"

record container_info =
  ci_id :: string
  ci_name :: string
  ci_env :: "string list"
  ci_binds :: "string list"
  ci_restartPolicy :: string
  ci_running :: bool
  ci_image :: string
  ci_portBindings :: "(string \<times> string list) list"
  ci_mounts :: "mount_point list"
  ci_logConfig :: log_config
  ci_runtime :: string
  ci_deviceRequests :: "string list"

record create_options =
  co_name :: string
  co_image :: string
  co_env :: "string list"
  co_cmd :: "string list"
  co_binds :: "string list"
  co_privileged :: bool
  co_capAdd :: "string list"
  co_restartPolicy :: string
  co_tty :: bool
  co_networkMode :: string
  co_pidMode :: string
  co_autoRemove :: bool
  co_portBindings :: "(string \<times> string list) list"
  co_logConfig :: log_config
  co_runtime :: string
  co_deviceRequests :: "string list"

text \<open>\<open>isNotFound\<close> tells the first kind of error from the others.\<close>

datatype docker_error = Not_found | Failure

definition isNotFound :: "docker_error \<Rightarrow> bool" where
  "isNotFound e \<longleftrightarrow> e = Not_found"

text \<open>Calls that change containers return the error, if any; reading calls the result, if any.\<close>

record 'w docker =
  dk_inspect :: "string \<Rightarrow> 'w \<Rightarrow> 'w \<times> (docker_error + container_info)"
  dk_create :: "create_options \<Rightarrow> 'w \<Rightarrow> 'w \<times> (docker_error + string)"
  dk_start :: "string \<Rightarrow> 'w \<Rightarrow> 'w \<times> docker_error option"
  dk_stop :: "string \<Rightarrow> 'w \<Rightarrow> 'w \<times> docker_error option"
  dk_rename :: "string \<Rightarrow> string \<Rightarrow> 'w \<Rightarrow> 'w \<times> docker_error option"
  dk_remove :: "string \<Rightarrow> bool \<Rightarrow> 'w \<Rightarrow> 'w \<times> docker_error option"
  dk_policy :: "string \<Rightarrow> string \<Rightarrow> 'w \<Rightarrow> 'w \<times> docker_error option"
  dk_pull :: "string \<Rightarrow> 'w \<Rightarrow> 'w \<times> docker_error option"
  dk_imageID :: "string \<Rightarrow> 'w \<Rightarrow> 'w \<times> (docker_error + string)"

section \<open>What the updater relies on\<close>

text \<open>A container as far as the handover goes, and the containers by name.\<close>

record ctr =
  ct_id :: string
  ct_policy :: string
  ct_running :: bool

type_synonym ctrs = "string \<Rightarrow> ctr option"

locale docker_engine =
  fixes dk :: "'w docker" and cts :: "'w \<Rightarrow> ctrs"
  assumes inspect_pure: "dk_inspect dk n w = (w', r) \<Longrightarrow> cts w' = cts w"
    and inspect_name: "dk_inspect dk n w = (w', Inr i) \<Longrightarrow> cts w n = Some c \<Longrightarrow>
      ci_restartPolicy i = ct_policy c \<and> ci_running i = ct_running c"
    and inspect_id: "dk_inspect dk n w = (w', Inr i) \<Longrightarrow> cts w n = None \<Longrightarrow>
      \<exists>m c. cts w m = Some c \<and> has_prefix (ct_id c) n \<and> ci_name i = CHR ''/'' # m"
    and inspect_missing: "dk_inspect dk n w = (w', Inl Not_found) \<Longrightarrow> cts w n = None"
    and rename: "dk_rename dk a b w = (w', e) \<Longrightarrow>
      (if e = None then cts w' = (cts w)(a := None, b := cts w a) else cts w' = cts w)"
    and rename_free: "dk_rename dk a b w = (w', None) \<Longrightarrow> cts w b = None"
    and rename_missing: "dk_rename dk a b w = (w', Some Not_found) \<Longrightarrow> cts w a = None"
    and remove: "dk_remove dk n f w = (w', e) \<Longrightarrow>
      (if e = None then cts w' = (cts w)(n := None) else cts w' = cts w)"
    and remove_missing: "dk_remove dk n f w = (w', Some Not_found) \<Longrightarrow> cts w n = None"
    and policy: "dk_policy dk n p w = (w', e) \<Longrightarrow>
      (if e = None then cts w' = (cts w)(n := map_option (ct_policy_update (\<lambda>_. p)) (cts w n))
       else cts w' = cts w)"
    and policy_missing: "dk_policy dk n p w = (w', Some Not_found) \<Longrightarrow> cts w n = None"

text \<open>A daemon that answers: a call fails only for a reason.\<close>

locale reliable_engine = docker_engine +
  assumes inspect_answers: "cts w n \<noteq> None \<Longrightarrow> \<exists>i. snd (dk_inspect dk n w) = Inr i"
    and inspect_absent: "cts w n = None \<Longrightarrow> \<forall>m c. cts w m = Some c \<longrightarrow> \<not> has_prefix (ct_id c) n \<Longrightarrow>
      snd (dk_inspect dk n w) = Inl Not_found"
    and inspect_by_id: "cts w m = Some c \<Longrightarrow> has_prefix (ct_id c) n \<Longrightarrow> \<exists>i. snd (dk_inspect dk n w) = Inr i"
    and rename_answers: "cts w a \<noteq> None \<Longrightarrow> cts w b = None \<Longrightarrow> snd (dk_rename dk a b w) = None"
    and remove_answers: "cts w n \<noteq> None \<Longrightarrow> snd (dk_remove dk n True w) = None"
    and policy_answers: "cts w n \<noteq> None \<Longrightarrow> snd (dk_policy dk n p w) = None"

section \<open>An engine whose calls may fail\<close>

text \<open>
  The containers by name, the image each tag names, and the number of calls so far; \<open>ok\<close> says which
  calls the daemon answers.
\<close>

record dworld =
  dw_cts :: "(string \<times> container_info) list"
  dw_images :: "(string \<times> string) list"
  dw_calls :: nat

type_synonym dora = "nat \<Rightarrow> bool"

definition ctr_of :: "container_info \<Rightarrow> ctr" where
  "ctr_of i = \<lparr>ct_id = ci_id i, ct_policy = ci_restartPolicy i, ct_running = ci_running i\<rparr>"

definition world_ctrs :: "dworld \<Rightarrow> ctrs" where
  "world_ctrs w n = map_option ctr_of (map_of (dw_cts w) n)"

definition tick :: "dworld \<Rightarrow> dworld" where
  "tick w = w\<lparr>dw_calls := dw_calls w + 1\<rparr>"

definition put_ctr :: "string \<Rightarrow> container_info option \<Rightarrow> dworld \<Rightarrow> dworld" where
  "put_ctr n i w = w\<lparr>dw_cts := (case i of Some x \<Rightarrow> [(n, x)] | None \<Rightarrow> []) @ filter (\<lambda>e. fst e \<noteq> n) (dw_cts w)\<rparr>"

text \<open>A container is addressed by its name, or by its id or the first characters of it.\<close>

definition find_ctr :: "dworld \<Rightarrow> string \<Rightarrow> (string \<times> container_info) option" where
  "find_ctr w n =
     (case map_of (dw_cts w) n of
        Some i \<Rightarrow> Some (n, i)
      | None \<Rightarrow>
          (case find (\<lambda>m. has_prefix (ci_id (the (map_of (dw_cts w) m))) n) (map fst (dw_cts w)) of
             None \<Rightarrow> None
           | Some m \<Rightarrow> Some (m, the (map_of (dw_cts w) m))))"

definition on_ctr :: "dora \<Rightarrow> string \<Rightarrow> (container_info \<Rightarrow> dworld \<Rightarrow> dworld \<times> docker_error option)
    \<Rightarrow> dworld \<Rightarrow> dworld \<times> docker_error option" where
  "on_ctr ok n f w =
     (if \<not> ok (dw_calls w) then (tick w, Some Failure)
      else case map_of (dw_cts w) n of
             None \<Rightarrow> (tick w, Some Not_found)
           | Some i \<Rightarrow> f i (tick w))"

definition info_of :: "create_options \<Rightarrow> string \<Rightarrow> container_info" where
  "info_of c img =
     \<lparr>ci_id = ''id-'' @ co_name c, ci_name = CHR ''/'' # co_name c, ci_env = co_env c, ci_binds = co_binds c,
      ci_restartPolicy = co_restartPolicy c, ci_running = False, ci_image = img,
      ci_portBindings = co_portBindings c, ci_mounts = [], ci_logConfig = co_logConfig c,
      ci_runtime = co_runtime c, ci_deviceRequests = co_deviceRequests c\<rparr>"

definition engine :: "dora \<Rightarrow> dworld docker" where
  "engine ok =
     \<lparr>dk_inspect = (\<lambda>n w.
        (tick w, if \<not> ok (dw_calls w) then Inl Failure
                 else case find_ctr w n of None \<Rightarrow> Inl Not_found
                      | Some (m, i) \<Rightarrow> Inr (i\<lparr>ci_name := CHR ''/'' # m\<rparr>))),
      dk_create = (\<lambda>c w.
        if \<not> ok (dw_calls w) \<or> map_of (dw_cts w) (co_name c) \<noteq> None then (tick w, Inl Failure)
        else case map_of (dw_images w) (co_image c) of
               None \<Rightarrow> (tick w, Inl Not_found)
             | Some img \<Rightarrow> (put_ctr (co_name c) (Some (info_of c img)) (tick w), Inr (''id-'' @ co_name c))),
      dk_start = (\<lambda>n. on_ctr ok n (\<lambda>i w. (put_ctr n (Some (i\<lparr>ci_running := True\<rparr>)) w, None))),
      dk_stop = (\<lambda>n. on_ctr ok n (\<lambda>i w. (put_ctr n (Some (i\<lparr>ci_running := False\<rparr>)) w, None))),
      dk_rename = (\<lambda>a b. on_ctr ok a (\<lambda>i w.
        if map_of (dw_cts w) b \<noteq> None then (w, Some Failure)
        else (put_ctr b (Some i) (put_ctr a None w), None))),
      dk_remove = (\<lambda>n force. on_ctr ok n (\<lambda>i w.
        if ci_running i \<and> \<not> force then (w, Some Failure) else (put_ctr n None w, None))),
      dk_policy = (\<lambda>n p. on_ctr ok n (\<lambda>i w. (put_ctr n (Some (i\<lparr>ci_restartPolicy := p\<rparr>)) w, None))),
      dk_pull = (\<lambda>i w. (tick w, if ok (dw_calls w) then None else Some Failure)),
      dk_imageID = (\<lambda>i w.
        (tick w, if \<not> ok (dw_calls w) then Inl Failure
                 else case map_of (dw_images w) i of None \<Rightarrow> Inl Not_found | Some x \<Rightarrow> Inr x))\<rparr>"

lemma tick_frame [simp]: "dw_cts (tick w) = dw_cts w" "world_ctrs (tick w) = world_ctrs w"
  by (simp_all add: tick_def world_ctrs_def fun_eq_iff)

lemma map_of_without: "map_of (filter (\<lambda>e. fst e \<noteq> n) xs) m = (if m = n then None else map_of xs m)"
  by (induction xs) auto

lemma world_put [simp]: "world_ctrs (put_ctr n i w) = (world_ctrs w)(n := map_option ctr_of i)"
  by (auto simp: world_ctrs_def put_ctr_def map_of_without fun_eq_iff split: option.split)

lemma map_of_put [simp]: "map_of (dw_cts (put_ctr n i w)) m = (if m = n then i else map_of (dw_cts w) m)"
  by (auto simp: put_ctr_def map_of_without split: option.split)

lemma world_None [simp]: "world_ctrs w n = None \<longleftrightarrow> map_of (dw_cts w) n = None"
  by (simp add: world_ctrs_def)

lemma ctr_of_fields [simp]: "ct_policy (ctr_of i) = ci_restartPolicy i" "ct_running (ctr_of i) = ci_running i"
    "ct_id (ctr_of i) = ci_id i"
  by (simp_all add: ctr_of_def)

lemma ctr_of_policy [simp]: "ctr_of (i\<lparr>ci_restartPolicy := p\<rparr>) = (ctr_of i)\<lparr>ct_policy := p\<rparr>"
  by (simp add: ctr_of_def)

lemma find_SomeD: "find P xs = Some x \<Longrightarrow> x \<in> set xs \<and> P x"
  by (induction xs) (auto split: if_splits)

interpretation daemon: docker_engine "engine ok" world_ctrs for ok
proof (unfold_locales, goal_cases)
  case (1 n w w' r)
  then show ?case by (auto simp: engine_def)
next
  case (2 n w w' i c)
  then show ?case
    by (auto simp: engine_def find_ctr_def world_ctrs_def split: if_splits option.splits)
next
  case (3 n w w' i)
  then obtain m where m: "find_ctr w n = Some (m, the (map_of (dw_cts w) m))" "ci_name i = CHR ''/'' # m"
      "has_prefix (ci_id (the (map_of (dw_cts w) m))) n" "m \<in> fst ` set (dw_cts w)"
    by (auto simp: engine_def find_ctr_def dest!: find_SomeD split: if_splits option.splits)
  then obtain x where "map_of (dw_cts w) m = Some x" by (metis not_None_eq map_of_eq_None_iff)
  with m show ?case by (auto simp: world_ctrs_def)
next
  case (4 n w w')
  then show ?case
    by (auto simp: engine_def find_ctr_def world_ctrs_def split: if_splits option.splits)
next
  case (5 a b w w' r)
  then show ?case
    by (auto simp: engine_def on_ctr_def world_ctrs_def split: if_splits option.splits)
next
  case (6 a b w w')
  then show ?case
    by (auto simp: engine_def on_ctr_def world_ctrs_def split: if_splits option.splits)
next
  case (7 a b w w')
  then show ?case
    by (auto simp: engine_def on_ctr_def world_ctrs_def split: if_splits option.splits)
next
  case (8 n f w w' r)
  then show ?case
    by (auto simp: engine_def on_ctr_def split: if_splits option.splits)
next
  case (9 n f w w')
  then show ?case
    by (auto simp: engine_def on_ctr_def world_ctrs_def split: if_splits option.splits)
next
  case (10 n p w w' r)
  then show ?case
    by (auto simp: engine_def on_ctr_def world_ctrs_def split: if_splits option.splits)
next
  case (11 n p w w')
  then show ?case
    by (auto simp: engine_def on_ctr_def world_ctrs_def split: if_splits option.splits)
qed

text \<open>The engine that answers every call.\<close>

abbreviation all_answered :: dora where "all_answered \<equiv> \<lambda>n. True"

interpretation answering: reliable_engine "engine all_answered" world_ctrs
proof (unfold_locales, goal_cases)
  case (1 w n)
  then show ?case by (auto simp: engine_def find_ctr_def split: option.split)
next
  case (2 w n)
  have "find (\<lambda>m. has_prefix (ci_id (the (map_of (dw_cts w) m))) n) (map fst (dw_cts w)) = None"
  proof (rule ccontr)
    assume "find (\<lambda>m. has_prefix (ci_id (the (map_of (dw_cts w) m))) n) (map fst (dw_cts w)) \<noteq> None"
    then obtain m where m: "m \<in> fst ` set (dw_cts w)" "has_prefix (ci_id (the (map_of (dw_cts w) m))) n"
      by (auto dest!: find_SomeD)
    then obtain x where "map_of (dw_cts w) m = Some x" by (metis not_None_eq map_of_eq_None_iff)
    with m 2 show False by (force simp: world_ctrs_def)
  qed
  with 2 show ?case by (simp add: engine_def find_ctr_def)
next
  case (3 w m c n)
  then obtain x where x: "map_of (dw_cts w) m = Some x" "has_prefix (ci_id x) n"
    by (auto simp: world_ctrs_def)
  then have "find (\<lambda>m. has_prefix (ci_id (the (map_of (dw_cts w) m))) n) (map fst (dw_cts w)) \<noteq> None"
    unfolding find_None_iff by (auto intro!: bexI [of _ m] simp: map_of_SomeD image_iff dest: map_of_SomeD) (metis fst_conv map_of_SomeD option.sel)
  with x show ?case by (auto simp: engine_def find_ctr_def split: option.split)
qed (auto simp: engine_def on_ctr_def split: option.split)

end
