(* ===== verification/Updater.thy ===== *)
theory Updater
  imports Docker
begin

text \<open>
  \<open>internal/updater/{updater,execute,handshake,listener}.go\<close>: what the self-update does to the
  containers. The running container \<open>odac\<close> creates \<open>odac-update\<close>; the new one, once acknowledged, takes
  over the name and the restart policy step by step, leaving the old one as \<open>odac-backup\<close>; if it dies
  before the handover is complete, the old one rolls back. The messages between them are in
  \<open>Handover\<close>. Every call of the daemon may fail; log lines are dropped.
\<close>

section \<open>Names and environment\<close>

definition containerName :: string where "containerName = ''odac''"
definition updateContainerName :: string where "updateContainerName = ''odac-update''"
definition backupContainerName :: string where "backupContainerName = ''odac-backup''"

definition updateEnvKeys :: "string list" where
  "updateEnvKeys = [''ODAC_UPDATE_MODE'', ''ODAC_INSTANCE_ID'', ''ODAC_PREVIOUS_INSTANCE_ID'',
     ''ODAC_UPDATE_SOCKET_PATH'', ''ODAC_LOG_NAME'', ''ODAC_PREVIOUS_CONTAINER_NAME'']"

text \<open>What the updater reads of its process: fields, environment variables, files and the random id.\<close>

record uenv =
  ue_image :: string
  ue_platform :: string
  ue_hostname :: string
  ue_mountinfo :: "string option"
  ue_cgroup :: "string option"
  ue_inContainer :: bool
  ue_channel :: string
  ue_instanceID :: string
  ue_previousName :: string
  ue_socketPath :: string
  ue_uuid :: string

definition channel :: "uenv \<Rightarrow> string" where
  "channel e = (if ue_channel e \<noteq> [] then ue_channel e else ''stable'')"

definition isBuildMode :: "uenv \<Rightarrow> bool" where
  "isBuildMode e \<longleftrightarrow> channel e \<noteq> ''stable'' \<and> channel e \<noteq> ''latest''"

definition targetBranch :: "uenv \<Rightarrow> string" where
  "targetBranch e = (if channel e = ''beta'' then ''dev'' else channel e)"

section \<open>Who am I\<close>

definition is_hex_char :: "char \<Rightarrow> bool" where
  "is_hex_char c \<longleftrightarrow> is_digit_char c \<or> (97 \<le> ascii_val c \<and> ascii_val c \<le> 102)"

text \<open>The three regular expressions: \<open>^[0-9a-f]{12}$\<close>, and the first match of the other two.\<close>

definition shortIDPattern :: "string \<Rightarrow> bool" where
  "shortIDPattern s \<longleftrightarrow> length s = 12 \<and> list_all is_hex_char s"

definition hex64 :: "string \<Rightarrow> string option" where
  "hex64 s = (if length (takeWhile is_hex_char s) \<ge> 64 then Some (take 64 s) else None)"

definition mountinfoPattern :: "string \<Rightarrow> string option" where
  "mountinfoPattern s = (if has_prefix s ''/docker/containers/'' then hex64 (drop 19 s) else None)"

definition dash_or_slash :: "string \<Rightarrow> bool" where
  "dash_or_slash s \<longleftrightarrow> s \<noteq> [] \<and> (hd s = CHR ''-'' \<or> hd s = CHR ''/'')"

definition cgroupPattern :: "string \<Rightarrow> string option" where
  "cgroupPattern s =
     (if dash_or_slash s \<and> has_prefix (tl s) ''docker'' \<and> dash_or_slash (drop 7 s) then hex64 (drop 8 s) else None)"

fun find_submatch :: "(string \<Rightarrow> string option) \<Rightarrow> string \<Rightarrow> string option" where
  "find_submatch p [] = None"
| "find_submatch p (c # cs) = (case p (c # cs) of Some m \<Rightarrow> Some m | None \<Rightarrow> find_submatch p cs)"

definition name_by_id :: "'w docker \<Rightarrow> string \<Rightarrow> 'w \<Rightarrow> 'w \<times> string option" where
  "name_by_id dk i w =
     (case dk_inspect dk i w of
        (w', Inr info) \<Rightarrow> (w', Some (trim_prefix (ci_name info) ''/''))
      | (w', Inl e) \<Rightarrow> (w', None))"

text \<open>The probes of files, in order; a file that cannot be read or has no match is skipped.\<close>

fun probe_files :: "'w docker \<Rightarrow> string option list \<Rightarrow> 'w \<Rightarrow> 'w \<times> string option" where
  "probe_files dk [] w = (w, None)"
| "probe_files dk (None # ps) w = probe_files dk ps w"
| "probe_files dk (Some i # ps) w =
     (case name_by_id dk i w of
        (w', Some n) \<Rightarrow> (w', Some n)
      | (w', None) \<Rightarrow> probe_files dk ps w')"

fun probe_running :: "'w docker \<Rightarrow> string list \<Rightarrow> 'w \<Rightarrow> 'w \<times> string" where
  "probe_running dk [] w = (w, [])"
| "probe_running dk (n # ns) w =
     (case dk_inspect dk n w of
        (w', Inr i) \<Rightarrow> if ci_running i then (w', n) else probe_running dk ns w'
      | (w', Inl e) \<Rightarrow> probe_running dk ns w')"

definition self_ids :: "uenv \<Rightarrow> string option list" where
  "self_ids e =
     [if shortIDPattern (ue_hostname e) then Some (ue_hostname e) else None,
      Option.bind (ue_mountinfo e) (find_submatch mountinfoPattern),
      Option.bind (ue_cgroup e) (find_submatch cgroupPattern)]"

definition resolveSelfName :: "'w docker \<Rightarrow> uenv \<Rightarrow> 'w \<Rightarrow> 'w \<times> string" where
  "resolveSelfName dk e w =
     (case probe_files dk (self_ids e) w of
        (w', Some n) \<Rightarrow> (w', n)
      | (w', None) \<Rightarrow> probe_running dk [containerName, backupContainerName, updateContainerName] w')"

section \<open>Self-healing\<close>

definition ensureIdentity :: "'w docker \<Rightarrow> uenv \<Rightarrow> 'w \<Rightarrow> 'w" where
  "ensureIdentity dk e w =
     (if \<not> ue_inContainer e then w
      else (case dk_inspect dk containerName w of
              (w1, Inr i) \<Rightarrow> w1
            | (w1, Inl err) \<Rightarrow>
                if \<not> isNotFound err then w1
                else (case resolveSelfName dk e w1 of
                        (w2, selfName) \<Rightarrow>
                          if selfName = [] \<or> selfName = containerName then w2
                          else fst (dk_rename dk selfName containerName w2))))"

definition ensureRestartPolicy :: "'w docker \<Rightarrow> uenv \<Rightarrow> 'w \<Rightarrow> 'w" where
  "ensureRestartPolicy dk e w =
     (if \<not> ue_inContainer e then w
      else (case dk_inspect dk containerName w of
              (w1, Inl err) \<Rightarrow> w1
            | (w1, Inr i) \<Rightarrow>
                if ci_restartPolicy i \<noteq> [] \<and> ci_restartPolicy i \<noteq> ''no'' then w1
                else fst (dk_policy dk containerName ''unless-stopped'' w1)))"

text \<open>\<open>Init\<close> without an update socket: the normal start, which a rollback goes through again.\<close>

definition init_normal :: "'w docker \<Rightarrow> uenv \<Rightarrow> 'w \<Rightarrow> 'w" where
  "init_normal dk e w = ensureRestartPolicy dk e (ensureIdentity dk e w)"

section \<open>Taking over\<close>

definition previousName :: "uenv \<Rightarrow> string" where
  "previousName e = (if ue_previousName e = [] then containerName else ue_previousName e)"

text \<open>The numbered steps of \<open>takeOver\<close>.\<close>

definition takeover_clear :: "'w docker \<Rightarrow> uenv \<Rightarrow> 'w \<Rightarrow> 'w" where
  "takeover_clear dk e w =
     (if previousName e \<noteq> backupContainerName then fst (dk_remove dk backupContainerName True w)
      else fst (dk_remove dk containerName True w))"

definition takeover_backup :: "'w docker \<Rightarrow> uenv \<Rightarrow> 'w \<Rightarrow> 'w" where
  "takeover_backup dk e w =
     (if previousName e \<noteq> backupContainerName then
        (case dk_rename dk (previousName e) backupContainerName w of
           (w1, None) \<Rightarrow> w1
         | (w1, Some err) \<Rightarrow> if isNotFound err then w1 else fst (dk_remove dk (previousName e) True w1))
      else w)"

definition takeover_revoke :: "'w docker \<Rightarrow> 'w \<Rightarrow> 'w" where
  "takeover_revoke dk w = fst (dk_policy dk backupContainerName ''no'' w)"

definition takeover_claim :: "'w docker \<Rightarrow> 'w \<Rightarrow> 'w \<times> bool" where
  "takeover_claim dk w =
     (case dk_rename dk updateContainerName containerName w of (w1, r) \<Rightarrow> (w1, r = None))"

text \<open>The containers before and after each step, and at the end.\<close>

definition takeover_trace :: "'w docker \<Rightarrow> uenv \<Rightarrow> 'w \<Rightarrow> 'w list" where
  "takeover_trace dk e w =
     (let w1 = takeover_clear dk e w;
          w2 = takeover_backup dk e w1;
          w3 = takeover_revoke dk w2;
          (w4, claimed) = takeover_claim dk w3
      in [w, w1, w2, w3, w4, if claimed then ensureRestartPolicy dk e w4 else w4])"

definition takeOver :: "'w docker \<Rightarrow> uenv \<Rightarrow> 'w \<Rightarrow> 'w" where
  "takeOver dk e w = last (takeover_trace dk e w)"

section \<open>Rolling back\<close>

text \<open>
  \<open>rollbackSteps\<close> of the old instance. \<open>System.Init\<close> starts the services and runs \<open>Updater.Init\<close> again,
  with the socket already removed; a run that has restarted the services does not do it twice.
\<close>

definition rollbackSteps :: "'w docker \<Rightarrow> uenv \<Rightarrow> bool \<Rightarrow> 'w \<Rightarrow> 'w" where
  "rollbackSteps dk e restarted w =
     (case resolveSelfName dk e w of
        (w1, selfName) \<Rightarrow>
          let failedName = (if selfName = backupContainerName then containerName else updateContainerName);
              w2 = (if restarted then w1 else init_normal dk e w1);
              w3 = fst (dk_remove dk failedName True w2);
              w4 = fst (dk_rename dk backupContainerName containerName w3)
          in ensureRestartPolicy dk e w4)"

definition selfDestruct :: "'w docker \<Rightarrow> 'w \<Rightarrow> 'w" where
  "selfDestruct dk w = fst (dk_policy dk backupContainerName ''no'' w)"

section \<open>Starting an update\<close>

definition stale_env :: "string \<Rightarrow> bool" where
  "stale_env v \<longleftrightarrow> list_ex (\<lambda>k. has_prefix v (k @ ''='')) updateEnvKeys"

definition handover_env :: "uenv \<Rightarrow> string \<Rightarrow> string list" where
  "handover_env e containerID =
     [''ODAC_UPDATE_MODE=true'', ''ODAC_INSTANCE_ID='' @ ue_uuid e,
      ''ODAC_PREVIOUS_INSTANCE_ID='' @ (if ue_instanceID e = [] then ''default'' else ue_instanceID e),
      ''ODAC_PREVIOUS_CONTAINER_NAME='' @ containerID,
      ''ODAC_UPDATE_SOCKET_PATH='' @ ue_socketPath e,
      ''ODAC_LOG_NAME=.'' @ updateContainerName]"

definition defaultLogConfig :: log_config where
  "defaultLogConfig = \<lparr>lc_type = ''json-file'', lc_config = [(''max-size'', ''10m''), (''max-file'', ''3'')]\<rparr>"

definition inheritLogConfig :: "log_config \<Rightarrow> log_config" where
  "inheritLogConfig old =
     (if lc_config old = [] \<and> (lc_type old = [] \<or> lc_type old = ''json-file'') then defaultLogConfig else old)"

definition base_options :: "uenv \<Rightarrow> container_info \<Rightarrow> create_options" where
  "base_options e info =
     \<lparr>co_name = updateContainerName, co_image = ue_image e,
      co_env = filter (\<lambda>v. \<not> stale_env v) (ci_env info), co_cmd = [], co_binds = ci_binds info,
      co_privileged = True, co_capAdd = [''NET_ADMIN'', ''NET_BIND_SERVICE''],
      co_restartPolicy = ''unless-stopped'', co_tty = True, co_networkMode = [], co_pidMode = [],
      co_autoRemove = False, co_portBindings = [], co_logConfig = inheritLogConfig (ci_logConfig info),
      co_runtime = ci_runtime info, co_deviceRequests = ci_deviceRequests info\<rparr>"

definition update_options :: "uenv \<Rightarrow> string \<Rightarrow> container_info \<Rightarrow> create_options" where
  "update_options e containerID info =
     (let o1 = base_options e info in
      if ue_platform e = ''linux''
      then o1\<lparr>co_env := co_env o1 @ handover_env e containerID, co_networkMode := ''host'',
              co_pidMode := ''host'', co_restartPolicy := ''no''\<rparr>
      else if ci_portBindings info \<noteq> [] then o1\<lparr>co_portBindings := ci_portBindings info\<rparr> else o1)"

datatype exec_result = Waiting | Swapped | Exec_failed

text \<open>
  \<open>executeInner\<close> on Linux up to the point where it waits for the handover; \<open>listening\<close> says whether the
  update socket could be opened.
\<close>

definition execute_launch :: "'w docker \<Rightarrow> uenv \<Rightarrow> bool \<Rightarrow> 'w \<Rightarrow> 'w \<times> exec_result" where
  "execute_launch dk e listening w =
     (case resolveSelfName dk e w of
        (w1, selfName) \<Rightarrow>
          let containerID = (if selfName = [] then containerName else selfName) in
          (case dk_inspect dk containerID w1 of
             (w2, Inl err) \<Rightarrow> (w2, Exec_failed)
           | (w2, Inr info) \<Rightarrow>
               let w3 = fst (dk_remove dk updateContainerName True w2) in
               if \<not> listening then (w3, Exec_failed)
               else (case dk_create dk (update_options e containerID info) w3 of
                       (w4, Inl err) \<Rightarrow> (w4, Exec_failed)
                     | (w4, Inr i) \<Rightarrow>
                         (case dk_start dk updateContainerName w4 of
                            (w5, None) \<Rightarrow> (w5, Waiting)
                          | (w5, Some err) \<Rightarrow> (w5, Exec_failed)))))"

text \<open>What follows when the handover has failed.\<close>

definition execute_failed :: "'w docker \<Rightarrow> 'w \<Rightarrow> 'w" where
  "execute_failed dk w =
     fst (dk_remove dk updateContainerName False (fst (dk_stop dk updateContainerName w)))"

text \<open>Elsewhere the swap is left to a helper container.\<close>

definition swap_command :: "string \<Rightarrow> string" where
  "swap_command containerID =
     ''sleep 5 && docker stop '' @ containerID @ '' && docker rm '' @ containerID @ '' && docker rename ''
       @ updateContainerName @ '' '' @ containerName @ '' && docker start '' @ containerName"

definition runner_options :: "string \<Rightarrow> create_options" where
  "runner_options containerID =
     \<lparr>co_name = [], co_image = ''docker:cli'', co_env = [], co_cmd = [''sh'', ''-c'', swap_command containerID],
      co_binds = [''/var/run/docker.sock:/var/run/docker.sock''], co_privileged = False, co_capAdd = [],
      co_restartPolicy = [], co_tty = False, co_networkMode = [], co_pidMode = [], co_autoRemove = True,
      co_portBindings = [], co_logConfig = \<lparr>lc_type = [], lc_config = []\<rparr>, co_runtime = [],
      co_deviceRequests = []\<rparr>"

definition execute_swap :: "'w docker \<Rightarrow> uenv \<Rightarrow> 'w \<Rightarrow> 'w \<times> exec_result" where
  "execute_swap dk e w =
     (case resolveSelfName dk e w of
        (w1, selfName) \<Rightarrow>
          let containerID = (if selfName = [] then containerName else selfName) in
          (case dk_inspect dk containerID w1 of
             (w2, Inl err) \<Rightarrow> (w2, Exec_failed)
           | (w2, Inr info) \<Rightarrow>
               let w3 = fst (dk_remove dk updateContainerName True w2) in
               (case dk_create dk (update_options e containerID info) w3 of
                  (w4, Inl err) \<Rightarrow> (w4, Exec_failed)
                | (w4, Inr i) \<Rightarrow>
                    (case dk_pull dk ''docker:cli'' w4 of
                       (w5, Some err) \<Rightarrow> (w5, Exec_failed)
                     | (w5, None) \<Rightarrow>
                         (case dk_create dk (runner_options containerID) w5 of
                            (w6, Inl err) \<Rightarrow> (w6, Exec_failed)
                          | (w6, Inr rid) \<Rightarrow>
                              (case dk_start dk rid w6 of
                                 (w7, None) \<Rightarrow> (w7, Swapped)
                               | (w7, Some err) \<Rightarrow> (w7, Exec_failed)))))))"

definition executeInner :: "'w docker \<Rightarrow> uenv \<Rightarrow> bool \<Rightarrow> 'w \<Rightarrow> 'w \<times> exec_result" where
  "executeInner dk e listening w =
     (if ue_platform e = ''linux'' then execute_launch dk e listening w else execute_swap dk e w)"

section \<open>Is there an update\<close>

definition getLocalImageID :: "'w docker \<Rightarrow> uenv \<Rightarrow> 'w \<Rightarrow> 'w \<times> string" where
  "getLocalImageID dk e w =
     (case resolveSelfName dk e w of
        (w1, selfName) \<Rightarrow>
          (case dk_inspect dk (if selfName = [] then containerName else selfName) w1 of
             (w2, Inl err) \<Rightarrow> (w2, [])
           | (w2, Inr i) \<Rightarrow> (w2, ci_image i)))"

definition getRemoteImageID :: "'w docker \<Rightarrow> uenv \<Rightarrow> 'w \<Rightarrow> 'w \<times> string" where
  "getRemoteImageID dk e w =
     (case dk_imageID dk (ue_image e) w of (w1, Inl err) \<Rightarrow> (w1, []) | (w1, Inr i) \<Rightarrow> (w1, i))"

text \<open>\<^const>\<open>None\<close> is the error of a failed pull.\<close>

definition checkForUpdates :: "'w docker \<Rightarrow> uenv \<Rightarrow> 'w \<Rightarrow> 'w \<times> bool option" where
  "checkForUpdates dk e w =
     (if isBuildMode e then (w, Some True)
      else (case getLocalImageID dk e w of
              (w1, localID) \<Rightarrow>
                (case dk_pull dk (ue_image e) w1 of
                   (w2, Some err) \<Rightarrow> (w2, None)
                 | (w2, None) \<Rightarrow>
                     (case getRemoteImageID dk e w2 of
                        (w3, remoteID) \<Rightarrow>
                          (w3, Some (localID \<noteq> [] \<and> remoteID \<noteq> [] \<and> localID \<noteq> remoteID))))))"

datatype start_result = Already_running | Check_failed | Up_to_date | Started

text \<open>\<open>Start\<close> up to the detached run: the \<open>updating\<close> latch before and after it.\<close>

definition start_update :: "'w docker \<Rightarrow> uenv \<Rightarrow> bool \<Rightarrow> 'w \<Rightarrow> 'w \<times> bool \<times> start_result" where
  "start_update dk e updating w =
     (if updating then (w, True, Already_running)
      else (case checkForUpdates dk e w of
              (w1, None) \<Rightarrow> (w1, False, Check_failed)
            | (w1, Some False) \<Rightarrow> (w1, False, Up_to_date)
            | (w1, Some True) \<Rightarrow> (w1, True, Started)))"

section \<open>At most one container restarts by itself\<close>

definition persistent :: "ctr \<Rightarrow> bool" where
  "persistent c \<longleftrightarrow> ct_policy c \<noteq> [] \<and> ct_policy c \<noteq> ''no''"

text \<open>The containers of the update cycle that Docker would start again after a reboot.\<close>

definition autostarts :: "ctrs \<Rightarrow> string set" where
  "autostarts cs = {n. n \<in> {containerName, updateContainerName, backupContainerName}
     \<and> (\<exists>c. cs n = Some c \<and> persistent c)}"

definition single :: "ctrs \<Rightarrow> bool" where
  "single cs \<longleftrightarrow> (\<exists>n. autostarts cs \<subseteq> {n})"

text \<open>The daemon answers when the restart policy of the backup is revoked (by a yes or a not-found).\<close>

definition revoke_answered :: "'w docker \<Rightarrow> 'w \<Rightarrow> bool" where
  "revoke_answered dk w \<longleftrightarrow> snd (dk_policy dk backupContainerName ''no'' w) \<noteq> Some Failure"

lemmas cycle_names = containerName_def updateContainerName_def backupContainerName_def

lemma names_distinct [simp]:
  "containerName \<noteq> updateContainerName" "containerName \<noteq> backupContainerName"
  "updateContainerName \<noteq> backupContainerName" "updateContainerName \<noteq> containerName"
  "backupContainerName \<noteq> containerName" "backupContainerName \<noteq> updateContainerName"
  by (simp_all add: cycle_names)

context docker_engine
begin

lemma inspect_fst [simp]: "cts (fst (dk_inspect dk n w)) = cts w"
  by (metis inspect_pure prod.collapse)

lemma remove_cases:
  obtains "cts (fst (dk_remove dk n f w)) = cts w" | "cts (fst (dk_remove dk n f w)) = (cts w)(n := None)"
  using remove [of n f w "fst (dk_remove dk n f w)" "snd (dk_remove dk n f w)"] by (auto split: if_splits)

lemma rename_ok:
  "snd (dk_rename dk a b w) = None \<Longrightarrow>
     cts w b = None \<and> cts (fst (dk_rename dk a b w)) = (cts w)(a := None, b := cts w a)"
  using rename [of a b w "fst (dk_rename dk a b w)" None] rename_free [of a b w "fst (dk_rename dk a b w)"]
  by (metis prod.collapse)

lemma rename_err: "snd (dk_rename dk a b w) \<noteq> None \<Longrightarrow> cts (fst (dk_rename dk a b w)) = cts w"
  using rename [of a b w "fst (dk_rename dk a b w)" "snd (dk_rename dk a b w)"] by (simp split: if_splits)

lemma rename_gone: "snd (dk_rename dk a b w) = Some Not_found \<Longrightarrow> cts w a = None"
  using rename_missing [of a b w "fst (dk_rename dk a b w)"] by (metis prod.collapse)

lemma policy_cases:
  obtains "cts (fst (dk_policy dk n p w)) = cts w"
  | "cts (fst (dk_policy dk n p w)) = (cts w)(n := map_option (ct_policy_update (\<lambda>_. p)) (cts w n))"
  using policy [of n p w "fst (dk_policy dk n p w)" "snd (dk_policy dk n p w)"] by (auto split: if_splits)

lemma clear_autostarts:
  "autostarts (cts (takeover_clear dk e w)) \<subseteq> autostarts (cts w)
   \<and> cts (takeover_clear dk e w) updateContainerName = cts w updateContainerName"
  unfolding takeover_clear_def
  by (rule remove_cases [of backupContainerName True w]; rule remove_cases [of containerName True w])
    (auto simp: autostarts_def split: if_splits)

lemma backup_autostarts:
  assumes "previousName e \<in> {containerName, backupContainerName}" and "autostarts (cts w) \<subseteq> {previousName e}"
  shows "(autostarts (cts (takeover_backup dk e w)) \<subseteq> {containerName}
      \<or> autostarts (cts (takeover_backup dk e w)) \<subseteq> {backupContainerName})
   \<and> cts (takeover_backup dk e w) updateContainerName = cts w updateContainerName"
proof (cases "previousName e = backupContainerName")
  case True
  with assms show ?thesis by (simp add: takeover_backup_def)
next
  case False
  then have prev: "previousName e = containerName" using assms(1) by simp
  obtain w1 r where r: "dk_rename dk containerName backupContainerName w = (w1, r)" by fastforce
  show ?thesis
  proof (cases r)
    case None
    with rename_ok [of containerName backupContainerName w] r assms(2) show ?thesis
      by (auto simp: takeover_backup_def prev autostarts_def split: if_splits)
  next
    case (Some err)
    then have "cts w1 = cts w" using rename_err [of containerName backupContainerName w] r by simp
    with Some r assms(2) show ?thesis
      by (cases rule: remove_cases [of containerName True w1])
        (auto simp: takeover_backup_def prev autostarts_def split: if_splits)
  qed
qed

lemma revoke_autostarts:
  assumes "revoke_answered dk w"
  shows "autostarts (cts (takeover_revoke dk w)) = autostarts (cts w) - {backupContainerName}
    \<and> cts (takeover_revoke dk w) updateContainerName = cts w updateContainerName"
proof -
  obtain w1 r where r: "dk_policy dk backupContainerName ''no'' w = (w1, r)" by fastforce
  with assms have "r = Some err \<Longrightarrow> err = Not_found" for err by (cases err) (auto simp: revoke_answered_def)
  with r show ?thesis using policy [OF r] policy_missing [of backupContainerName "''no''" w w1]
    by (cases r) (auto simp: takeover_revoke_def autostarts_def persistent_def split: if_splits)
qed

lemma claim_autostarts:
  assumes "autostarts (cts w) \<subseteq> {containerName}"
    and "\<And>c. cts w updateContainerName = Some c \<Longrightarrow> \<not> persistent c"
  shows "autostarts (cts (fst (takeover_claim dk w))) \<subseteq> {containerName}"
  using assms rename_ok [of updateContainerName containerName w] rename_err [of updateContainerName containerName w]
  by (cases "snd (dk_rename dk updateContainerName containerName w)")
    (auto simp: takeover_claim_def autostarts_def split_def split: if_splits)

lemma ensure_policy_autostarts:
  "autostarts (cts (ensureRestartPolicy dk e w)) \<subseteq> insert containerName (autostarts (cts w))"
proof -
  obtain w1 r where i: "dk_inspect dk containerName w = (w1, r)" by fastforce
  then have "cts w1 = cts w" by (metis fst_conv inspect_fst)
  with i show ?thesis
    by (cases rule: policy_cases [of containerName "''unless-stopped''" w1])
      (auto simp: ensureRestartPolicy_def autostarts_def split: sum.split if_splits)
qed

lemma takeover_single:
  assumes "previousName e \<in> {containerName, backupContainerName}" and "autostarts (cts w) \<subseteq> {previousName e}"
    and "revoke_answered dk (takeover_backup dk e (takeover_clear dk e w))"
    and "x \<in> set (takeover_trace dk e w)"
  shows "single (cts x)"
proof -
  have upd: "cts w updateContainerName = Some c \<Longrightarrow> \<not> persistent c" for c
    using assms(1,2) by (auto simp: autostarts_def)
  note s1 = clear_autostarts [of e w]
  note s2 = backup_autostarts [OF assms(1), of "takeover_clear dk e w"]
  note s3 = revoke_autostarts [OF assms(3)]
  note s4 = claim_autostarts [of "takeover_revoke dk (takeover_backup dk e (takeover_clear dk e w))"]
  have a1: "autostarts (cts (takeover_clear dk e w)) \<subseteq> {previousName e}" using s1 assms(2) by blast
  with s2 s3 have a3: "autostarts (cts (takeover_revoke dk (takeover_backup dk e (takeover_clear dk e w)))) \<subseteq> {containerName}"
    by blast
  with s1 s2 s3 s4 a1 upd have a4: "autostarts (cts (fst (takeover_claim dk
      (takeover_revoke dk (takeover_backup dk e (takeover_clear dk e w)))))) \<subseteq> {containerName}" by auto
  show ?thesis using assms(2,4) a1 s2 a3 a4 ensure_policy_autostarts
    by (auto simp: takeover_trace_def Let_def single_def split_def split: if_splits) blast+
qed

end

section \<open>A rollback and the container it runs in\<close>

text \<open>
  The old instance runs in the container with id \<open>me\<close>, under the name \<open>n\<close>, and whatever id it finds
  about itself is its own.
\<close>

definition knows_itself :: "uenv \<Rightarrow> ctrs \<Rightarrow> string \<Rightarrow> string \<Rightarrow> bool" where
  "knows_itself e cs me n \<longleftrightarrow>
     (\<exists>c. cs n = Some c \<and> ct_id c = me)
     \<and> (\<forall>m c. cs m = Some c \<and> ct_id c = me \<longrightarrow> m = n)
     \<and> (\<forall>i. Some i \<in> set (self_ids e) \<longrightarrow>
          cs i = None \<and> (\<forall>m c. cs m = Some c \<and> has_prefix (ct_id c) i \<longrightarrow> ct_id c = me))"

definition alive_in :: "ctrs \<Rightarrow> string \<Rightarrow> bool" where
  "alive_in cs me \<longleftrightarrow> (\<exists>n c. cs n = Some c \<and> ct_id c = me)"

text \<open>No other container runs under the name of the backup (which is no container's id).\<close>

definition backup_is_mine :: "ctrs \<Rightarrow> string \<Rightarrow> bool" where
  "backup_is_mine cs me \<longleftrightarrow> (\<forall>c. cs backupContainerName = Some c \<and> ct_running c \<longrightarrow> ct_id c = me)
     \<and> (\<forall>m c. cs m = Some c \<longrightarrow> \<not> has_prefix (ct_id c) backupContainerName)"

text \<open>Changing a policy keeps every container where it is.\<close>

definition same_place :: "ctrs \<Rightarrow> ctrs \<Rightarrow> bool" where
  "same_place cs cs' \<longleftrightarrow> (\<forall>n. map_option ct_id (cs' n) = map_option ct_id (cs n))"

lemma same_place_alive: "same_place cs cs' \<Longrightarrow> alive_in cs' me \<longleftrightarrow> alive_in cs me"
  unfolding same_place_def alive_in_def by (metis (no_types, lifting) map_option_eq_Some)

context docker_engine
begin

lemma name_by_id_pure: "name_by_id dk i w = (w', r) \<Longrightarrow> cts w' = cts w"
  by (auto simp: name_by_id_def dest: inspect_pure split: prod.splits sum.splits)

lemma probe_files_pure: "probe_files dk ps w = (w', r) \<Longrightarrow> cts w' = cts w"
proof (induction ps arbitrary: w w' r)
  case (Cons p ps)
  show ?case
  proof (cases p)
    case (Some i)
    obtain w1 q where q: "name_by_id dk i w = (w1, q)" by fastforce
    with Cons Some name_by_id_pure [OF q] show ?thesis by (cases q) auto
  qed (use Cons in simp)
qed simp

lemma probe_running_pure: "probe_running dk ns w = (w', r) \<Longrightarrow> cts w' = cts w"
proof (induction ns arbitrary: w w' r)
  case (Cons n ns)
  then show ?case by (auto dest!: inspect_pure split: prod.splits sum.splits if_splits)
qed simp

lemma resolve_pure: "resolveSelfName dk e w = (w', r) \<Longrightarrow> cts w' = cts w"
  by (auto simp: resolveSelfName_def simp del: probe_running.simps
      dest!: probe_files_pure probe_running_pure split: prod.splits option.splits)

text \<open>What the probes can answer.\<close>

lemma probe_running_found:
  "probe_running dk ns w = (w', r) \<Longrightarrow> r \<noteq> [] \<Longrightarrow>
     \<exists>v v' i. cts v = cts w \<and> dk_inspect dk r v = (v', Inr i) \<and> ci_running i"
proof (induction ns arbitrary: w)
  case (Cons n ns)
  obtain w1 q where q: "dk_inspect dk n w = (w1, q)" by fastforce
  have "cts w1 = cts w" using inspect_pure [OF q] .
  with Cons.IH [of w1] Cons.prems q show ?case by (cases q) (auto split: if_splits)
qed simp

lemma name_by_id_own:
  assumes "name_by_id dk i w = (w', Some r)" and "knows_itself e (cts w) me n" and "Some i \<in> set (self_ids e)"
  shows "r = n"
proof -
  from assms(1) obtain info where info: "dk_inspect dk i w = (w', Inr info)" "r = trim_prefix (ci_name info) ''/''"
    by (auto simp: name_by_id_def split: prod.splits sum.splits)
  from assms(2,3) have none: "cts w i = None" by (auto simp: knows_itself_def)
  from inspect_id [OF info(1) none] obtain m c where
    m: "cts w m = Some c" "has_prefix (ct_id c) i" "ci_name info = CHR ''/'' # m" by auto
  with assms(2,3) have "m = n" by (auto simp: knows_itself_def)
  with info m show ?thesis by (simp add: trim_prefix_def has_prefix_def)
qed

lemma probe_files_own:
  assumes "probe_files dk ps w = (w', Some r)" and "knows_itself e (cts w) me n" and "set ps \<subseteq> set (self_ids e)"
  shows "r = n"
  using assms
proof (induction ps arbitrary: w)
  case (Cons p ps)
  show ?case
  proof (cases p)
    case (Some i)
    obtain w1 q where q: "name_by_id dk i w = (w1, q)" by fastforce
    have "cts w1 = cts w" using name_by_id_pure [OF q] .
    with Cons Some q name_by_id_own [of i w w1] show ?thesis by (cases q) auto
  qed (use Cons in auto)
qed simp

lemma resolve_backup:
  assumes "resolveSelfName dk e w = (w', backupContainerName)" and "knows_itself e (cts w) me n"
    and "backup_is_mine (cts w) me"
  shows "n = backupContainerName"
proof -
  obtain w1 q where q: "probe_files dk (self_ids e) w = (w1, q)" by fastforce
  show ?thesis
  proof (cases q)
    case (Some r)
    with assms(1) q probe_files_own [OF _ assms(2), of "self_ids e" w1 r] show ?thesis
      by (simp add: resolveSelfName_def)
  next
    case None
    have "cts w1 = cts w" using probe_files_pure [OF q] .
    moreover have "probe_running dk [containerName, backupContainerName, updateContainerName] w1 = (w', backupContainerName)"
      using assms(1) None q by (simp add: resolveSelfName_def del: probe_running.simps)
    ultimately obtain v v' i where v: "cts v = cts w" "dk_inspect dk backupContainerName v = (v', Inr i)" "ci_running i"
      using probe_running_found [of _ w1] by (metis cycle_names(3) list.distinct(1))
    show ?thesis
    proof (cases "cts w backupContainerName")
      case (Some c)
      with v inspect_name [of backupContainerName v v' i c] have "ct_running c" by simp
      with Some assms(2,3) show ?thesis by (auto simp: backup_is_mine_def knows_itself_def)
    next
      case None
      with inspect_id [OF v(2)] v(1) assms(3) show ?thesis by (auto simp: backup_is_mine_def)
    qed
  qed
qed

text \<open>The normal start inside a rollback, when the name \<open>odac\<close> is taken.\<close>

lemma ensure_policy_cases:
  obtains "cts (ensureRestartPolicy dk e w) = cts w"
  | "cts (ensureRestartPolicy dk e w)
       = (cts w)(containerName := map_option (ct_policy_update (\<lambda>_. ''unless-stopped'')) (cts w containerName))"
proof -
  obtain w1 r where i: "dk_inspect dk containerName w = (w1, r)" by fastforce
  have "cts w1 = cts w" using inspect_pure [OF i] .
  with i have "cts (ensureRestartPolicy dk e w) = cts w \<or> cts (ensureRestartPolicy dk e w)
      = (cts w)(containerName := map_option (ct_policy_update (\<lambda>_. ''unless-stopped'')) (cts w containerName))"
    by (cases r; cases rule: policy_cases [of containerName "''unless-stopped''" w1])
      (auto simp: ensureRestartPolicy_def)
  with that show thesis by blast
qed

lemma ensure_identity_taken:
  assumes "cts w containerName \<noteq> None"
  shows "cts (ensureIdentity dk e w) = cts w"
proof -
  obtain w1 r where i: "dk_inspect dk containerName w = (w1, r)" by fastforce
  have "cts w1 = cts w" using inspect_pure [OF i] .
  with i inspect_missing [of containerName w w1] assms show ?thesis
    by (cases r) (auto simp: ensureIdentity_def isNotFound_def)
qed

lemma ensure_policy_place: "same_place (cts w) (cts (ensureRestartPolicy dk e w))"
  by (cases rule: ensure_policy_cases [of e w]) (auto simp: same_place_def option.map_comp comp_def)

lemma init_normal_place:
  "cts w containerName \<noteq> None \<Longrightarrow> same_place (cts w) (cts (init_normal dk e w))"
  using ensure_policy_place [of "ensureIdentity dk e w" e] by (simp add: init_normal_def ensure_identity_taken)

lemma rollback_alive:
  assumes "knows_itself e (cts w) me n" and "backup_is_mine (cts w) me"
    and "n = containerName \<or> n = backupContainerName \<and> cts w containerName \<noteq> None"
  shows "alive_in (cts (rollbackSteps dk e restarted w)) me"
proof -
  obtain w1 self where r: "resolveSelfName dk e w = (w1, self)" by fastforce
  define failed where "failed = (if self = backupContainerName then containerName else updateContainerName)"
  define w2 where "w2 = (if restarted then w1 else init_normal dk e w1)"
  define w3 where "w3 = fst (dk_remove dk failed True w2)"
  define w4 where "w4 = fst (dk_rename dk backupContainerName containerName w3)"
  have w1: "cts w1 = cts w" using resolve_pure [OF r] .
  have fn: "failed \<noteq> n"
    using resolve_backup [OF _ assms(1,2)] r assms(3) by (auto simp: failed_def)
  have "cts w containerName \<noteq> None" using assms(1,3) by (auto simp: knows_itself_def)
  then have "same_place (cts w) (cts w2)"
    using init_normal_place [of w1 e] w1 by (auto simp: w2_def same_place_def)
  with assms(1) obtain c2 where c2: "cts w2 n = Some c2" "ct_id c2 = me"
    unfolding same_place_def knows_itself_def by (metis (no_types, lifting) map_option_eq_Some)
  with fn have c3: "cts w3 n = Some c2"
    by (cases rule: remove_cases [of failed True w2]) (auto simp: w3_def)
  have "alive_in (cts w4) me"
  proof (cases "snd (dk_rename dk backupContainerName containerName w3)")
    case None
    with rename_ok [OF None] c3 assms(3) have "cts w4 containerName = Some c2" by (auto simp: w4_def)
    with c2(2) show ?thesis by (auto simp: alive_in_def)
  next
    case (Some err)
    with rename_err [of backupContainerName containerName w3] c3 c2(2) show ?thesis
      by (auto simp: w4_def alive_in_def)
  qed
  then show ?thesis using ensure_policy_place [of w4 e] same_place_alive
    by (simp add: rollbackSteps_def r Let_def flip: failed_def w2_def w3_def w4_def)
qed

end

context reliable_engine
begin

lemma probe_files_finds:
  assumes "knows_itself e (cts w) me n" and "set ps \<subseteq> set (self_ids e)"
    and "Some i \<in> set ps" and "has_prefix me i"
  shows "snd (probe_files dk ps w) = Some n"
  using assms
proof (induction ps arbitrary: w)
  case (Cons p ps)
  show ?case
  proof (cases p)
    case None
    with Cons show ?thesis by simp
  next
    case (Some j)
    obtain w1 q where q: "name_by_id dk j w = (w1, q)" by fastforce
    show ?thesis
    proof (cases q)
      case None
      have "j \<noteq> i"
      proof
        assume "j = i"
        from Cons.prems(1) obtain c where "cts w n = Some c" "ct_id c = me" by (auto simp: knows_itself_def)
        with Cons.prems(4) inspect_by_id [of w n c i] obtain x where "snd (dk_inspect dk i w) = Inr x" by auto
        with q None \<open>j = i\<close> show False by (auto simp: name_by_id_def split: prod.splits sum.splits)
      qed
      with None Some q Cons name_by_id_pure [OF q] show ?thesis by simp
    next
      case (Some r)
      have "r = n" using name_by_id_own [of j w w1 r, OF _ Cons.prems(1)] q Some \<open>p = Some j\<close> Cons.prems(2) by simp
      with Some q \<open>p = Some j\<close> show ?thesis by simp
    qed
  qed
qed simp

lemma resolve_finds:
  assumes "knows_itself e (cts w) me n" and "Some i \<in> set (self_ids e)" and "has_prefix me i"
  shows "snd (resolveSelfName dk e w) = n"
  using probe_files_finds [OF assms(1) order_refl assms(2,3)]
  by (cases "probe_files dk (self_ids e) w") (auto simp: resolveSelfName_def)

lemma policy_ensured:
  assumes "ue_inContainer e" and "cts w containerName = Some c"
  shows "\<exists>d. cts (ensureRestartPolicy dk e w) = (cts w)(containerName \<mapsto> d) \<and> ct_id d = ct_id c \<and> persistent d"
proof -
  obtain w1 r where r: "dk_inspect dk containerName w = (w1, r)" by fastforce
  with inspect_answers [of w containerName] assms(2) obtain i where i: "r = Inr i" by auto
  have w1: "cts w1 = cts w" using inspect_pure [OF r] .
  have pol: "ci_restartPolicy i = ct_policy c" using inspect_name [of containerName w w1 i c] r i assms(2) by simp
  obtain w2 q where q: "dk_policy dk containerName ''unless-stopped'' w1 = (w2, q)" by fastforce
  with policy_answers [of w1 containerName "''unless-stopped''"] w1 assms(2) have "q = None" by simp
  with policy [OF q] w1 have "cts w2 = (cts w)(containerName := map_option (ct_policy_update (\<lambda>_. ''unless-stopped'')) (cts w containerName))"
    by simp
  then show ?thesis using assms r i q pol
    by (cases "persistent c"; intro exI [of _ "if persistent c then c else c\<lparr>ct_policy := ''unless-stopped''\<rparr>"])
      (auto simp: ensureRestartPolicy_def persistent_def fun_upd_idem w1)
qed

lemma rollback_outcome:
  assumes "knows_itself e (cts w) me n" and "Some i \<in> set (self_ids e)" and "has_prefix me i"
    and "ue_inContainer e"
    and "n = containerName \<or> n = backupContainerName \<and> cts w containerName \<noteq> None \<and> cts w updateContainerName = None"
  shows "(\<exists>c. cts (rollbackSteps dk e False w) containerName = Some c \<and> ct_id c = me \<and> persistent c)
    \<and> cts (rollbackSteps dk e False w) updateContainerName = None"
proof -
  obtain w1 where r: "resolveSelfName dk e w = (w1, n)" using resolve_finds [OF assms(1-3)] by (metis prod.collapse)
  define failed where "failed = (if n = backupContainerName then containerName else updateContainerName)"
  define w2 where "w2 = init_normal dk e w1"
  define w3 where "w3 = fst (dk_remove dk failed True w2)"
  define w4 where "w4 = fst (dk_rename dk backupContainerName containerName w3)"
  from assms(1,5) obtain c b where c: "cts w n = Some c" "ct_id c = me" "cts w containerName = Some b"
    by (auto simp: knows_itself_def)
  obtain d where d: "cts w2 = (cts w)(containerName \<mapsto> d)" "ct_id d = ct_id b"
    using policy_ensured [OF assms(4), of "ensureIdentity dk e w1" b] ensure_identity_taken [of w1 e]
      resolve_pure [OF r] c(3) by (auto simp: w2_def init_normal_def)
  have w3: "cts w3 = (cts w2)(failed := None)"
    using remove_answers [of w2 failed] remove [of failed True w2 "fst (dk_remove dk failed True w2)"]
    by (cases "cts w2 failed"; cases "dk_remove dk failed True w2"; cases rule: remove_cases [of failed True w2])
      (auto simp: w3_def fun_upd_idem)
  have "(\<exists>a. cts w4 containerName = Some a \<and> ct_id a = me) \<and> cts w4 updateContainerName = None"
  proof (cases "n = backupContainerName")
    case True
    with c d w3 assms(5) have "cts w3 containerName = None" "cts w3 backupContainerName = Some c"
        "cts w3 updateContainerName = None" by (auto simp: failed_def)
    with rename_answers [of w3 backupContainerName containerName] rename_ok [of backupContainerName containerName w3] c(2)
    show ?thesis by (simp add: w4_def)
  next
    case False
    with c d w3 assms(5) have "cts w3 containerName = Some d" "ct_id d = me" "cts w3 updateContainerName = None"
      by (auto simp: failed_def)
    with rename_ok [of backupContainerName containerName w3] rename_err [of backupContainerName containerName w3]
    show ?thesis by (cases "snd (dk_rename dk backupContainerName containerName w3)") (auto simp: w4_def)
  qed
  then obtain a where a: "cts w4 containerName = Some a" "ct_id a = me" "cts w4 updateContainerName = None" by auto
  have "rollbackSteps dk e False w = ensureRestartPolicy dk e w4"
    by (simp add: rollbackSteps_def r Let_def flip: failed_def w2_def w3_def w4_def)
  with policy_ensured [OF assms(4) a(1)] a show ?thesis by auto
qed

end

section \<open>Properties\<close>

text \<open>A host in the middle of an update: the old container, the new one and a leftover.\<close>

definition demo_ctr :: "string \<Rightarrow> string \<Rightarrow> bool \<Rightarrow> container_info" where
  "demo_ctr i pol run = \<lparr>ci_id = i, ci_name = [], ci_env = [], ci_binds = [], ci_restartPolicy = pol,
     ci_running = run, ci_image = [], ci_portBindings = [], ci_mounts = [],
     ci_logConfig = \<lparr>lc_type = [], lc_config = []\<rparr>, ci_runtime = [], ci_deviceRequests = []\<rparr>"

definition demo_env :: "string \<Rightarrow> uenv" where
  "demo_env host = \<lparr>ue_image = [], ue_platform = ''linux'', ue_hostname = host, ue_mountinfo = None,
     ue_cgroup = None, ue_inContainer = True, ue_channel = [], ue_instanceID = [], ue_previousName = [],
     ue_socketPath = [], ue_uuid = []\<rparr>"

definition demo_world :: dworld where
  "demo_world = \<lparr>dw_cts = [(''odac'', demo_ctr ''aaaaaaaaaaaa11'' ''always'' True),
     (''odac-update'', demo_ctr ''bbbbbbbbbbbb22'' ''no'' True)], dw_images = [], dw_calls = 0\<rparr>"

text \<open>
  No split brain after a reboot: at every step of a take-over at most one container of the update
  cycle carries a restart policy that Docker would start it with, whichever calls of the daemon fail,
  provided the call that revokes the old container's policy gets an answer.
\<close>

theorem takeover_one_autostart:
  assumes "revoke_answered (engine ok) (takeover_backup (engine ok) e (takeover_clear (engine ok) e w))" and "previousName e \<in> {containerName, backupContainerName}"
    and "autostarts (world_ctrs w) \<subseteq> {previousName e}" and "x \<in> set (takeover_trace (engine ok) e w)"
  shows "single (world_ctrs x)"
  using assms(2,3,1,4) by (rule daemon.takeover_single)

theorem takeover_one_autostart_witness:
  "list_all (\<lambda>x. single (world_ctrs x)) (takeover_trace (engine (\<lambda>n. n \<noteq> 0)) (demo_env []) demo_world)"
proof -
  have "revoke_answered (engine (\<lambda>n. n \<noteq> 0)) (takeover_backup (engine (\<lambda>n. n \<noteq> 0)) (demo_env [])
      (takeover_clear (engine (\<lambda>n. n \<noteq> 0)) (demo_env []) demo_world))"
    by code_simp
  moreover have "autostarts (world_ctrs demo_world) \<subseteq> {previousName (demo_env [])}"
    by (auto simp: autostarts_def demo_world_def world_ctrs_def persistent_def previousName_def demo_env_def
        cycle_names demo_ctr_def)
  ultimately show ?thesis
    using takeover_one_autostart [of "\<lambda>n. n \<noteq> 0" "demo_env []" demo_world]
    by (simp add: list_all_iff) (simp add: previousName_def demo_env_def)
qed

text \<open>
  When only that call fails the error is logged and the take-over goes on: both containers then
  restart by themselves.
\<close>

lemma failed_revoke_splits:
  "let w = takeOver (engine (\<lambda>n. n \<noteq> 2)) (demo_env []) demo_world
   in map_option ct_policy (world_ctrs w containerName) = Some ''unless-stopped''
     \<and> map_option ct_policy (world_ctrs w backupContainerName) = Some ''always''"
  by code_simp

text \<open>
  C33. A rollback never removes the container it runs in, whichever calls of the daemon fail, if that
  container is \<open>odac\<close>, or is \<open>odac-backup\<close> and the new one holds the name \<open>odac\<close>.
\<close>

theorem rollback_keeps_self:
  assumes "knows_itself e (world_ctrs w) me n" and "backup_is_mine (world_ctrs w) me"
    and "n = containerName \<or> n = backupContainerName \<and> world_ctrs w containerName \<noteq> None"
  shows "alive_in (world_ctrs (rollbackSteps (engine ok) e restarted w)) me"
  using assms by (rule daemon.rollback_alive)

lemma demo_knows_itself: "knows_itself (demo_env ''aaaaaaaaaaaa'') (world_ctrs demo_world) ''aaaaaaaaaaaa11'' ''odac''"
proof -
  have ids: "set (self_ids (demo_env ''aaaaaaaaaaaa'')) = {Some ''aaaaaaaaaaaa'', None}" by code_simp
  show ?thesis unfolding knows_itself_def ids
    by (auto simp: world_ctrs_def demo_world_def demo_ctr_def has_prefix_def split: if_splits)
qed

theorem rollback_keeps_self_witness:
  "alive_in (world_ctrs (rollbackSteps (engine (\<lambda>n. n \<noteq> 3)) (demo_env ''aaaaaaaaaaaa'') False demo_world)) ''aaaaaaaaaaaa11''"
proof -
  have "backup_is_mine (world_ctrs demo_world) ''aaaaaaaaaaaa11''"
    by (auto simp: backup_is_mine_def world_ctrs_def demo_world_def demo_ctr_def cycle_names has_prefix_def split: if_splits)
  from rollback_keeps_self [OF demo_knows_itself this] show ?thesis by (simp add: containerName_def)
qed

text \<open>
  Between the second and the fourth step of the take-over (or when the fourth fails) no container is
  called \<open>odac\<close>. A rollback then reclaims the name in the restart of the services and next
  force-removes the container of that name: its own.
\<close>

lemma rollback_removes_self:
  "let w = takeover_trace (engine all_answered) (demo_env []) demo_world ! 3;
       w' = rollbackSteps (engine all_answered) (demo_env ''aaaaaaaaaaaa'') False w
   in map_of (dw_cts w) ''odac-backup'' = Some (demo_ctr ''aaaaaaaaaaaa11'' ''no'' True)
     \<and> map fst (dw_cts w') = [''odac-update'']"
  by code_simp



text \<open>Updates do not pile up: the variables of an earlier handover are dropped before the new ones are added.\<close>

lemma update_env_once:
  "filter stale_env (co_env (update_options e cid info)) = (if ue_platform e = ''linux'' then handover_env e cid else [])"
  "filter (\<lambda>v. \<not> stale_env v) (co_env (update_options e cid info)) = filter (\<lambda>v. \<not> stale_env v) (ci_env info)"
proof -
  have "list_all stale_env (handover_env e cid)"
    by (simp add: handover_env_def stale_env_def updateEnvKeys_def has_prefix_def)
  then show "filter stale_env (co_env (update_options e cid info)) = (if ue_platform e = ''linux'' then handover_env e cid else [])"
    "filter (\<lambda>v. \<not> stale_env v) (co_env (update_options e cid info)) = filter (\<lambda>v. \<not> stale_env v) (ci_env info)"
    by (simp_all add: update_options_def base_options_def Let_def list_all_iff filter_id_conv filter_empty_conv)
qed

text \<open>The latch is set exactly while an update runs, so a failed check does not block the next one.\<close>

lemma start_latch:
  "start_update dk e updating w = (w', latched, r) \<Longrightarrow> latched \<longleftrightarrow> r = Started \<or> r = Already_running"
  by (auto simp: start_update_def split: if_splits prod.splits option.splits bool.splits)

end
