(* ===== verification/Handover.thy ===== *)
theory Handover
  imports Updater
begin

text \<open>
  \<open>internal/updater/{listener,handshake}.go\<close>: the messages of a zero-downtime update, on both sides
  of the update socket. The old instance is the listener, the new one connects. A step delivers one
  message, lets one side act on its own, crashes the new instance at any moment, or (if the relation
  allows it) fires a timeout. The containers themselves are in \<open>Updater\<close>; here only whether the new
  instance still carries the name \<open>odac-update\<close> matters. \<open>core\<close> are the services that cannot overlap
  (mail, API, hub, the check tick), \<open>web\<close> the proxy and the DNS server.
\<close>

section \<open>State\<close>

datatype message =
  HANDSHAKE_READY | HANDSHAKE_ACK | WEB_READY | TAKEOVER_COMPLETE | HANDOVER_COMPLETE | HANDOVER_FAILED

datatype rollback_stage = No_rollback | Restarted | Rolled_back

text \<open>
  The old instance (\<open>handover\<close> with its services, and what \<open>completion\<close> delivers to \<open>execute\<close>), the
  new instance (how far \<open>onHandshakeAck\<close> has come, and the result of \<open>performHandshake\<close>), and the
  connection: open, and the messages on their way.
\<close>

record handover =
  ol_core :: bool
  ol_web :: bool
  ol_listening :: bool
  ol_completed :: bool
  ol_stage :: rollback_stage
  ol_result :: "bool option"
  ol_exited :: bool
  nw_alive :: bool
  nw_core :: bool
  nw_web :: bool
  nw_acked :: bool
  nw_started :: bool
  nw_signalled :: bool
  nw_ready :: bool
  nw_stable :: bool
  nw_result :: "bool option"
  hs_open :: bool
  hs_to_old :: "message list"
  hs_to_new :: "message list"

text \<open>The new instance has connected and written its first message.\<close>

definition connected :: handover where
  "connected = \<lparr>ol_core = True, ol_web = True, ol_listening = True, ol_completed = False,
     ol_stage = No_rollback, ol_result = None, ol_exited = False,
     nw_alive = True, nw_core = False, nw_web = False, nw_acked = False, nw_started = False,
     nw_signalled = False, nw_ready = False, nw_stable = False, nw_result = None,
     hs_open = True, hs_to_old = [HANDSHAKE_READY], hs_to_new = []\<rparr>"

section \<open>The old instance\<close>

text \<open>\<open>complete\<close> delivers the first result only.\<close>

definition complete :: "bool \<Rightarrow> handover \<Rightarrow> handover" where
  "complete r s = (if ol_result s = None then s\<lparr>ol_result := Some r\<rparr> else s)"

definition send_new :: "message \<Rightarrow> handover \<Rightarrow> handover" where
  "send_new m s = (if hs_open s then s\<lparr>hs_to_new := hs_to_new s @ [m]\<rparr> else s)"

definition handleMessage :: "message \<Rightarrow> handover \<Rightarrow> handover" where
  "handleMessage m s =
     (case m of
        HANDSHAKE_READY \<Rightarrow> send_new HANDSHAKE_ACK (s\<lparr>ol_core := False\<rparr>)
      | WEB_READY \<Rightarrow> s\<lparr>ol_web := False\<rparr>
      | TAKEOVER_COMPLETE \<Rightarrow>
          (if hs_open s then complete True (send_new HANDOVER_COMPLETE (s\<lparr>ol_completed := True\<rparr>))
           else complete False (s\<lparr>ol_completed := True\<rparr>))
      | _ \<Rightarrow> s)"

text \<open>The two halves of \<open>rollback\<close>: the services restart, then the failed container is removed.\<close>

definition rollback_restart :: "handover \<Rightarrow> handover" where
  "rollback_restart s = s\<lparr>ol_listening := False, ol_stage := Restarted, ol_core := True, ol_web := True\<rparr>"

definition remove_new :: "handover \<Rightarrow> handover" where
  "remove_new s = s\<lparr>nw_alive := False, nw_core := False, nw_web := False, hs_open := False\<rparr>"

definition rollback_finish :: "handover \<Rightarrow> handover" where
  "rollback_finish s = complete False ((remove_new s)\<lparr>ol_stage := Rolled_back\<rparr>)"

definition self_destruct :: "handover \<Rightarrow> handover" where
  "self_destruct s = s\<lparr>ol_web := False, ol_core := False, ol_listening := False, ol_exited := True, hs_open := False\<rparr>"

text \<open>The global timeout of the listener; \<open>execute\<close> then removes the container \<open>odac-update\<close>, if any.\<close>

definition global_timeout :: "handover \<Rightarrow> handover" where
  "global_timeout s =
     (let s1 = complete False (s\<lparr>ol_listening := False\<rparr>)
      in if ol_result s = None \<and> \<not> nw_started s then remove_new s1 else s1)"

section \<open>The new instance\<close>

definition deliver :: "bool \<Rightarrow> handover \<Rightarrow> handover" where
  "deliver r s = (if nw_result s = None then s\<lparr>nw_result := Some r\<rparr> else s)"

definition send_old :: "message \<Rightarrow> handover \<Rightarrow> handover" where
  "send_old m s = (if hs_open s then s\<lparr>hs_to_old := hs_to_old s @ [m]\<rparr> else s)"

text \<open>The read loop of \<open>performHandshake\<close>.\<close>

definition new_message :: "message \<Rightarrow> handover \<Rightarrow> handover" where
  "new_message m s =
     (case m of
        HANDSHAKE_ACK \<Rightarrow> s\<lparr>nw_acked := True\<rparr>
      | HANDOVER_COMPLETE \<Rightarrow> deliver True (s\<lparr>hs_open := False\<rparr>)
      | HANDOVER_FAILED \<Rightarrow> deliver False (s\<lparr>hs_open := False\<rparr>)
      | _ \<Rightarrow> s)"

text \<open>
  \<open>onHandshakeAck\<close>: take over and start the services, signal once they are ready or ten seconds have
  passed, and after the stability delay report completion.
\<close>

definition start_services :: "handover \<Rightarrow> handover" where
  "start_services s = s\<lparr>nw_started := True, nw_core := True, nw_web := True\<rparr>"

definition signal_web :: "bool \<Rightarrow> handover \<Rightarrow> handover" where
  "signal_web ready s =
     (let s1 = s\<lparr>nw_signalled := True, nw_ready := ready\<rparr>
      in if hs_open s then send_old WEB_READY s1 else deliver False s1)"

definition report_stable :: "handover \<Rightarrow> handover" where
  "report_stable s = send_old TAKEOVER_COMPLETE (s\<lparr>nw_stable := True\<rparr>)"

text \<open>A handshake that has failed closes the connection and goes on as a normal start.\<close>

definition handshake_failed :: "handover \<Rightarrow> handover" where
  "handshake_failed s = deliver False (s\<lparr>hs_open := False, nw_core := True, nw_web := True\<rparr>)"

definition crash_new :: "handover \<Rightarrow> handover" where
  "crash_new s = s\<lparr>nw_alive := False, nw_core := False, nw_web := False, hs_open := False\<rparr>"

section \<open>Steps\<close>

text \<open>The parameters say whether timeouts may fire, and whether the new instance may crash.\<close>

inductive hstep :: "bool \<Rightarrow> bool \<Rightarrow> handover \<Rightarrow> handover \<Rightarrow> bool" for timeouts crashes where
  old_reads: "hs_to_old s = m # ms \<Longrightarrow> \<not> ol_exited s \<Longrightarrow> hstep timeouts crashes s (handleMessage m (s\<lparr>hs_to_old := ms\<rparr>))"
| old_sees_close: "\<not> hs_open s \<Longrightarrow> hs_to_old s = [] \<Longrightarrow> \<not> ol_completed s \<Longrightarrow> ol_stage s = No_rollback \<Longrightarrow>
    hstep timeouts crashes s (rollback_restart s)"
| old_rolls_back: "ol_stage s = Restarted \<Longrightarrow> hstep timeouts crashes s (rollback_finish s)"
| old_leaves: "ol_completed s \<Longrightarrow> \<not> ol_exited s \<Longrightarrow> hstep timeouts crashes s (self_destruct s)"
| old_timeout: "timeouts \<Longrightarrow> ol_result s = None \<Longrightarrow> ol_listening s \<Longrightarrow> hstep timeouts crashes s (global_timeout s)"
| new_reads: "nw_alive s \<Longrightarrow> nw_result s = None \<Longrightarrow> hs_to_new s = m # ms \<Longrightarrow>
    hstep timeouts crashes s (new_message m (s\<lparr>hs_to_new := ms\<rparr>))"
| new_sees_close: "nw_alive s \<Longrightarrow> nw_result s = None \<Longrightarrow> \<not> hs_open s \<Longrightarrow> hs_to_new s = [] \<Longrightarrow>
    hstep timeouts crashes s (handshake_failed s)"
| new_starts: "nw_alive s \<Longrightarrow> nw_acked s \<Longrightarrow> \<not> nw_started s \<Longrightarrow> hstep timeouts crashes s (start_services s)"
| new_signals: "nw_alive s \<Longrightarrow> nw_started s \<Longrightarrow> \<not> nw_signalled s \<Longrightarrow> hstep timeouts crashes s (signal_web ready s)"
| new_stable: "nw_alive s \<Longrightarrow> nw_signalled s \<Longrightarrow> \<not> nw_stable s \<Longrightarrow> hstep timeouts crashes s (report_stable s)"
| new_crashes: "crashes \<Longrightarrow> nw_alive s \<Longrightarrow> hstep timeouts crashes s (crash_new s)"
| new_timeout: "timeouts \<Longrightarrow> nw_alive s \<Longrightarrow> nw_result s = None \<Longrightarrow> hs_open s \<Longrightarrow>
    hstep timeouts crashes s (handshake_failed s)"

inductive hreach :: "bool \<Rightarrow> bool \<Rightarrow> handover \<Rightarrow> bool" for timeouts crashes where
  hreach_init: "hreach timeouts crashes connected"
| hreach_step: "hreach timeouts crashes s \<Longrightarrow> hstep timeouts crashes s s' \<Longrightarrow> hreach timeouts crashes s'"

lemmas handover_defs = complete_def send_new_def handleMessage_def rollback_restart_def remove_new_def
  rollback_finish_def self_destruct_def global_timeout_def deliver_def send_old_def new_message_def
  start_services_def signal_web_def report_stable_def handshake_failed_def crash_new_def Let_def

section \<open>What holds without timeouts\<close>

text \<open>The invariant, in layers: each needs only those before it.\<close>

definition inv_chain :: "handover \<Rightarrow> bool" where
  "inv_chain s \<longleftrightarrow> (nw_started s \<longrightarrow> nw_acked s) \<and> (nw_signalled s \<longrightarrow> nw_started s)
     \<and> (nw_stable s \<longrightarrow> nw_signalled s)"

definition inv_msgs :: "handover \<Rightarrow> bool" where
  "inv_msgs s \<longleftrightarrow> distinct (hs_to_old s) \<and> (WEB_READY \<in> set (hs_to_old s) \<longrightarrow> nw_signalled s)
     \<and> (TAKEOVER_COMPLETE \<in> set (hs_to_old s) \<longrightarrow> nw_stable s \<and> \<not> ol_completed s)
     \<and> (ol_completed s \<longrightarrow> nw_stable s)"

definition inv_conn :: "handover \<Rightarrow> bool" where
  "inv_conn s \<longleftrightarrow> (\<not> hs_open s \<and> nw_alive s \<longrightarrow> ol_completed s) \<and> (hs_open s \<longrightarrow> nw_alive s \<and> \<not> ol_exited s)
     \<and> HANDOVER_FAILED \<notin> set (hs_to_new s) \<and> (HANDOVER_COMPLETE \<in> set (hs_to_new s) \<longrightarrow> ol_completed s)
     \<and> (nw_alive s \<and> ol_completed s \<longrightarrow> HANDOVER_COMPLETE \<in> set (hs_to_new s) \<or> nw_result s = Some True)
     \<and> (nw_result s = Some True \<longrightarrow> ol_completed s) \<and> (nw_result s = Some False \<longrightarrow> \<not> nw_alive s)"

definition inv_stage :: "handover \<Rightarrow> bool" where
  "inv_stage s \<longleftrightarrow> (ol_stage s \<noteq> No_rollback \<longrightarrow>
       \<not> nw_alive s \<and> \<not> ol_completed s \<and> \<not> hs_open s \<and> hs_to_old s = [] \<and> ol_core s \<and> ol_web s)
     \<and> (ol_exited s \<longrightarrow> ol_completed s)"

definition inv_services :: "handover \<Rightarrow> bool" where
  "inv_services s \<longleftrightarrow> nw_core s = (nw_alive s \<and> nw_started s) \<and> nw_web s = (nw_alive s \<and> nw_started s)"

definition inv_web :: "handover \<Rightarrow> bool" where
  "inv_web s \<longleftrightarrow> (ol_web s \<or> ol_exited s \<or> nw_signalled s)"

definition inv_hello :: "handover \<Rightarrow> bool" where
  "inv_hello s \<longleftrightarrow> distinct (hs_to_new s) \<and> (HANDSHAKE_ACK \<in> set (hs_to_new s) \<longrightarrow> \<not> nw_acked s)
     \<and> (HANDSHAKE_READY \<in> set (hs_to_old s) \<longrightarrow> \<not> nw_acked s \<and> HANDSHAKE_ACK \<notin> set (hs_to_new s))
     \<and> ((nw_acked s \<or> HANDSHAKE_ACK \<in> set (hs_to_new s)) \<and> ol_stage s = No_rollback \<longrightarrow> \<not> ol_core s)"

definition inv_result :: "handover \<Rightarrow> bool" where
  "inv_result s \<longleftrightarrow> (ol_stage s = Rolled_back \<longrightarrow> ol_result s = Some False)
     \<and> (ol_result s = Some True \<longrightarrow> ol_completed s)
     \<and> (ol_result s = Some False \<longrightarrow> ol_completed s \<or> ol_stage s = Rolled_back)"

definition inv_talk :: "handover \<Rightarrow> bool" where
  "inv_talk s \<longleftrightarrow> (hs_open s \<and> \<not> ol_completed s \<longrightarrow>
     HANDSHAKE_READY \<in> set (hs_to_old s) \<or> HANDSHAKE_ACK \<in> set (hs_to_new s) \<or> nw_acked s \<and> \<not> nw_stable s
     \<or> TAKEOVER_COMPLETE \<in> set (hs_to_old s))"

lemma inv_chain_step: "hstep t c s s' \<Longrightarrow> inv_chain s \<Longrightarrow> inv_chain s'"
  by (erule hstep.cases) (auto simp: inv_chain_def handover_defs split: message.splits)

lemma inv_msgs_step: "hstep t c s s' \<Longrightarrow> inv_chain s \<Longrightarrow> inv_msgs s \<Longrightarrow> inv_msgs s'"
  by (erule hstep.cases) (auto simp: inv_chain_def inv_msgs_def handover_defs split: message.splits)

lemma inv_conn_step:
  "hstep False c s s' \<Longrightarrow> inv_chain s \<Longrightarrow> inv_msgs s \<Longrightarrow> inv_conn s \<Longrightarrow> inv_conn s'"
  by (erule hstep.cases) (auto simp: inv_chain_def inv_msgs_def inv_conn_def handover_defs split: message.splits)

lemma inv_stage_step:
  "hstep False c s s' \<Longrightarrow> inv_conn s \<Longrightarrow> inv_stage s \<Longrightarrow> inv_stage s'"
  by (erule hstep.cases) (auto simp: inv_conn_def inv_stage_def handover_defs split: message.splits)

lemma conn_not_lost:
  "inv_conn s \<Longrightarrow> nw_alive s \<Longrightarrow> nw_result s = None \<Longrightarrow> hs_to_new s = [] \<Longrightarrow> \<not> hs_open s \<Longrightarrow> False"
  by (simp add: inv_conn_def)

lemma inv_services_step:
  "hstep False c s s' \<Longrightarrow> inv_conn s \<Longrightarrow> inv_services s \<Longrightarrow> inv_services s'"
  by (erule hstep.cases) (auto simp: inv_services_def handover_defs split: message.splits dest: conn_not_lost)

lemma inv_web_step: "hstep False c s s' \<Longrightarrow> inv_msgs s \<Longrightarrow> inv_web s \<Longrightarrow> inv_web s'"
  by (erule hstep.cases) (auto simp: inv_msgs_def inv_web_def handover_defs split: message.splits)

lemma inv_hello_step:
  "hstep False c s s' \<Longrightarrow> inv_msgs s \<Longrightarrow> inv_conn s \<Longrightarrow> inv_stage s \<Longrightarrow> inv_hello s \<Longrightarrow> inv_hello s'"
  by (erule hstep.cases)
    (auto simp: inv_msgs_def inv_conn_def inv_stage_def inv_hello_def handover_defs split: message.splits)

lemma inv_result_step: "hstep False c s s' \<Longrightarrow> inv_stage s \<Longrightarrow> inv_result s \<Longrightarrow> inv_result s'"
  by (cases "ol_result s"; cases "the (ol_result s)"; erule hstep.cases)
    (auto simp: inv_stage_def inv_result_def handover_defs split: message.splits)

lemma inv_talk_step:
  "hstep False c s s' \<Longrightarrow> inv_chain s \<Longrightarrow> inv_hello s \<Longrightarrow> inv_talk s \<Longrightarrow> inv_talk s'"
  by (erule hstep.cases) (auto simp: inv_chain_def inv_hello_def inv_talk_def handover_defs split: message.splits)

definition hinv :: "handover \<Rightarrow> bool" where
  "hinv s \<longleftrightarrow> inv_chain s \<and> inv_msgs s \<and> inv_conn s \<and> inv_stage s \<and> inv_services s \<and> inv_web s
     \<and> inv_hello s \<and> inv_result s \<and> inv_talk s"

lemmas hinv_defs = hinv_def inv_chain_def inv_msgs_def inv_conn_def inv_stage_def inv_services_def inv_web_def
  inv_hello_def inv_result_def inv_talk_def

lemma hreach_inv: "hreach False c s \<Longrightarrow> hinv s"
proof (induction rule: hreach.induct)
  case hreach_init
  then show ?case by (simp add: hinv_defs connected_def)
next
  case (hreach_step s s')
  then show ?case unfolding hinv_def
    by (blast intro: inv_chain_step inv_msgs_step inv_conn_step inv_stage_step inv_services_step inv_web_step
        inv_hello_step inv_result_step inv_talk_step)
qed

section \<open>Properties\<close>

text \<open>Somebody serves the web: the old instance, or the new one, confirmed ready.\<close>

definition web_served :: "handover \<Rightarrow> bool" where
  "web_served s \<longleftrightarrow> ol_web s \<or> nw_alive s \<and> nw_web s \<and> nw_ready s"


text \<open>The normal course of a handover, message by message.\<close>

definition served_alone :: handover where
  "served_alone = connected\<lparr>ol_core := False, ol_web := False, nw_core := True, nw_web := True, nw_acked := True,
     nw_started := True, nw_signalled := True, nw_ready := True, hs_to_old := []\<rparr>"

lemma served_alone_reached: "hreach False c served_alone"
proof -
  note go = hreach_step [of False c]
  have "hreach False c connected" by (rule hreach_init)
  note this [THEN go, OF old_reads [where m = HANDSHAKE_READY and ms = "[]"]]
  then have "hreach False c (connected\<lparr>hs_to_old := [], ol_core := False, hs_to_new := [HANDSHAKE_ACK]\<rparr>)"
    by (simp add: connected_def handover_defs)
  note this [THEN go, OF new_reads [where m = HANDSHAKE_ACK and ms = "[]"]]
  then have "hreach False c (connected\<lparr>hs_to_old := [], ol_core := False, nw_acked := True\<rparr>)"
    by (simp add: connected_def handover_defs)
  note this [THEN go, OF new_starts]
  then have "hreach False c (connected\<lparr>hs_to_old := [], ol_core := False, nw_acked := True, nw_started := True,
      nw_core := True, nw_web := True\<rparr>)"
    by (simp add: connected_def handover_defs)
  note this [THEN go, OF new_signals [where ready = True]]
  then have "hreach False c (connected\<lparr>hs_to_old := [WEB_READY], ol_core := False, nw_acked := True, nw_started := True,
      nw_core := True, nw_web := True, nw_signalled := True, nw_ready := True\<rparr>)"
    by (simp add: connected_def handover_defs)
  note this [THEN go, OF old_reads [where m = WEB_READY and ms = "[]"]]
  then show ?thesis by (simp add: connected_def served_alone_def handover_defs)
qed


text \<open>
  The sixty seconds of the new side are the exception: it closes the connection and goes on as a normal
  start; the old instance takes that for a crash and restarts its services before it removes the other.
\<close>

lemma timeout_overlap: "\<exists>s. hreach True False s \<and> ol_core s \<and> nw_core s \<and> ol_stage s = Restarted"
proof -
  note go = hreach_step [of True False]
  have "hreach True False connected" by (rule hreach_init)
  note this [THEN go, OF new_timeout]
  then have "hreach True False (connected\<lparr>nw_result := Some False, hs_open := False, nw_core := True, nw_web := True\<rparr>)"
    by (simp add: connected_def handover_defs)
  note this [THEN go, OF old_reads [where m = HANDSHAKE_READY and ms = "[]"]]
  then have "hreach True False (connected\<lparr>nw_result := Some False, hs_open := False, nw_core := True, nw_web := True,
      ol_core := False, hs_to_old := []\<rparr>)"
    by (simp add: connected_def handover_defs)
  note this [THEN go, OF old_sees_close]
  then have "hreach True False (connected\<lparr>nw_result := Some False, hs_open := False, nw_core := True, nw_web := True,
      hs_to_old := [], ol_listening := False, ol_stage := Restarted\<rparr>)"
    by (simp add: connected_def handover_defs)
  then show ?thesis by (intro exI conjI) (assumption, simp_all add: connected_def)
qed

section \<open>Every handover ends\<close>

fun msg_weight :: "message \<Rightarrow> nat" where
  "msg_weight HANDSHAKE_READY = 20"
| "msg_weight HANDSHAKE_ACK = 15"
| "msg_weight TAKEOVER_COMPLETE = 4"
| "msg_weight m = 1"

definition hmeasure :: "handover \<Rightarrow> nat" where
  "hmeasure s =
     sum_list (map msg_weight (hs_to_old s)) + sum_list (map msg_weight (hs_to_new s))
     + (if nw_acked s \<and> \<not> nw_started s then 14 else 0) + (if nw_started s \<and> \<not> nw_signalled s then 12 else 0)
     + (if nw_signalled s \<and> \<not> nw_stable s then 8 else 0) + (if ol_exited s then 0 else 1)
     + (if nw_alive s then 1 else 0) + (if nw_result s = None then 1 else 0)
     + (case ol_stage s of No_rollback \<Rightarrow> 2 | Restarted \<Rightarrow> 1 | Rolled_back \<Rightarrow> 0)"

lemma hstep_decreases:
  assumes "hstep False c s s'" and "inv_chain s" and "inv_hello s"
  shows "hmeasure s' < hmeasure s"
  using assms
proof (cases rule: hstep.cases)
  case (old_reads m ms)
  then show ?thesis by (cases m) (auto simp: hmeasure_def handover_defs split: rollback_stage.split)
next
  case (new_reads m ms)
  then show ?thesis using assms(2,3)
    by (cases m) (auto simp: hmeasure_def inv_chain_def inv_hello_def handover_defs split: rollback_stage.split)
qed (use assms(2) in \<open>auto simp: hmeasure_def inv_chain_def handover_defs split: rollback_stage.split\<close>)

text \<open>Where a handover may end: taken over, or rolled back with the old instance serving everything.\<close>

definition handover_ended :: "handover \<Rightarrow> bool" where
  "handover_ended s \<longleftrightarrow>
     (ol_exited s \<and> (nw_alive s \<longrightarrow> nw_result s = Some True \<and> nw_core s \<and> nw_web s))
     \<or> (ol_stage s = Rolled_back \<and> ol_result s = Some False \<and> ol_core s \<and> ol_web s \<and> \<not> nw_alive s)"

lemma stuck_ended:
  assumes "hinv s" and "\<And>s'. \<not> hstep False False s s'"
  shows "handover_ended s"
proof -
  have inv: "inv_chain s" "inv_conn s" "inv_stage s" "inv_services s" "inv_result s" "inv_talk s" "inv_msgs s"
    using assms(1) by (auto simp: hinv_def)
  note stuck = assms(2)
  have sent: "hs_to_old s = [] \<or> ol_exited s" using stuck old_reads by (metis neq_Nil_conv)
  have stage: "ol_stage s \<noteq> Restarted" using stuck old_rolls_back by blast
  have left: "ol_completed s \<longrightarrow> ol_exited s" using stuck old_leaves by blast
  have read: "nw_alive s \<Longrightarrow> nw_result s = None \<Longrightarrow> hs_to_new s = []" using stuck new_reads by (metis neq_Nil_conv)
  have new: "nw_alive s \<Longrightarrow> nw_acked s \<Longrightarrow> nw_started s" "nw_alive s \<Longrightarrow> nw_started s \<Longrightarrow> nw_signalled s"
      "nw_alive s \<Longrightarrow> nw_signalled s \<Longrightarrow> nw_stable s"
    using stuck new_starts new_signals new_stable by blast+
  show ?thesis
  proof (cases "ol_completed s")
    case True
    with left inv(1,2,4,7) read show ?thesis
      by (cases "nw_result s")
        (auto simp: handover_ended_def inv_conn_def inv_services_def inv_chain_def inv_msgs_def)
  next
    case False
    then have "\<not> ol_exited s" using inv(3) by (auto simp: inv_stage_def)
    with sent have old: "hs_to_old s = []" by simp
    have "hs_open s \<Longrightarrow> False"
    proof -
      assume "hs_open s"
      with False inv(2) have a: "nw_alive s" "nw_result s = None"
        by (cases "nw_result s"; cases "the (nw_result s)"; auto simp: inv_conn_def)+
      with \<open>hs_open s\<close> False old read new inv(6) show False by (auto simp: inv_talk_def)
    qed
    then have "ol_stage s \<noteq> No_rollback" using stuck old_sees_close [of s] old False by blast
    with stage inv(3,5) show ?thesis
      by (cases "ol_stage s") (auto simp: handover_ended_def inv_stage_def inv_result_def)
  qed
qed


text \<open>The run above, continued: a state of rest that a crash-free handover reaches.\<close>

definition taken_over :: handover where
  "taken_over = served_alone\<lparr>nw_stable := True, ol_completed := True, ol_result := Some True,
     ol_listening := False, ol_exited := True, hs_open := False, nw_result := Some True\<rparr>"

lemma handover_completes: "hreach False c taken_over"
proof -
  note go = hreach_step [of False c]
  note served_alone_reached [THEN go, OF new_stable]
  then have "hreach False c (served_alone\<lparr>nw_stable := True, hs_to_old := [TAKEOVER_COMPLETE]\<rparr>)"
    by (simp add: served_alone_def connected_def handover_defs)
  note this [THEN go, OF old_reads [where m = TAKEOVER_COMPLETE and ms = "[]"]]
  then have "hreach False c (served_alone\<lparr>nw_stable := True, ol_completed := True, ol_result := Some True,
      hs_to_new := [HANDOVER_COMPLETE]\<rparr>)"
    by (simp add: served_alone_def connected_def handover_defs)
  note this [THEN go, OF new_reads [where m = HANDOVER_COMPLETE and ms = "[]"]]
  then have "hreach False c (served_alone\<lparr>nw_stable := True, ol_completed := True, ol_result := Some True,
      hs_open := False, nw_result := Some True\<rparr>)"
    by (simp add: served_alone_def connected_def handover_defs)
  note this [THEN go, OF old_leaves]
  then show ?thesis by (simp add: taken_over_def served_alone_def connected_def handover_defs)
qed


end
