(* ===== verification/GoFloat.thy ===== *)
theory GoFloat
  imports GoAny "HOL-Library.Log_Nat"
begin

text \<open>
  Floating-point numbers of package \<open>strconv\<close>: a finite \<open>float64\<close> is the rational it denotes (the
  two zeros coincide), \<open>round64\<close> is IEEE 754 rounding to nearest, ties to even, \<open>parse_float\<close> is
  \<open>ParseFloat(s, 64)\<close> with all its syntax, and \<open>format_e\<close> is \<open>FormatFloat(f, 'e', -1, 64)\<close>: the
  shortest decimal that reads back as \<open>f\<close>.
\<close>

section \<open>Rounding\<close>

text \<open>The integer logarithm of a positive rational.\<close>

definition ilog :: "nat \<Rightarrow> rat \<Rightarrow> int" where
  "ilog b r =
     (case quotient_of r of (n, d) \<Rightarrow>
        let k = int (floorlog b (nat n)) - int (floorlog b (nat d))
        in if of_nat b powi k \<le> r then k else k - 1)"

definition round_half_even :: "rat \<Rightarrow> int" where
  "round_half_even x =
     (let n = \<lfloor>x\<rfloor>; d = x - of_int n in if d < 1/2 \<or> d = 1/2 \<and> even n then n else n + 1)"

text \<open>The exponent of the unit in the last place: 53 significant bits, subnormal below \<open>2^-1022\<close>.\<close>

definition ulp_exp :: "rat \<Rightarrow> int" where
  "ulp_exp r = max (ilog 2 r) (- 1022) - 52"

definition round_pos :: "rat \<Rightarrow> rat" where
  "round_pos r = (let q = ulp_exp r in of_int (round_half_even (r / 2 powi q)) * 2 powi q)"

text \<open>From here on numbers round to infinity.\<close>

definition overflow64 :: rat where
  "overflow64 = 2 powi 1024"

text \<open>For evaluation the power is written out.\<close>

lemma overflow64_code [code]:
  "overflow64 = of_int 179769313486231590772930519078902473361797697894230657273430081157732675805500963132708477322407536021120113879871393357658789768814416622492847430639474124377767893424865485276302219601246094119453082952085005768838150682342462881473913110540827237163350510684586298239947245938479716304835356329624224137216"
  by (simp add: overflow64_def power_int_def)

definition round64 :: "rat \<Rightarrow> float64" where
  "round64 r =
     (if r = 0 then Fin 0
      else let m = round_pos \<bar>r\<bar>
           in if overflow64 \<le> m then (if r < 0 then NegInf else PosInf) else Fin (if r < 0 then - m else m))"

text \<open>The rationals a \<open>float64\<close> can hold, and \<open>float64(i)\<close> of an integer.\<close>

definition representable :: "rat \<Rightarrow> bool" where
  "representable r \<longleftrightarrow> round64 r = Fin r"

definition float_of_int :: "int \<Rightarrow> float64" where
  "float_of_int i = round64 (of_int i)"

lemma ilog_bounds:
  assumes "0 < r" and "1 < b"
  shows "of_nat b powi ilog b r \<le> r \<and> r < of_nat b powi (ilog b r + 1)"
proof -
  obtain n d where nd: "quotient_of r = (n, d)" by fastforce
  then have d: "0 < d" using quotient_of_denom_pos by blast
  have r: "r = of_int n / of_int d" using quotient_of_div [OF nd] .
  with assms(1) d have n: "0 < n" by (simp add: zero_less_divide_iff)
  define p q where "p = floorlog b (nat n)" and "q = floorlog b (nat d)"
  have B: "(0::rat) < of_nat b" "(1::rat) < of_nat b" using assms(2) by simp_all
  have pb: "b ^ (p - 1) \<le> nat n" "nat n < b ^ p" and qb: "b ^ (q - 1) \<le> nat d" "nat d < b ^ q"
    using floorlog_bounds [of "nat n" b] floorlog_bounds [of "nat d" b] n d assms(2) by (auto simp: p_def q_def)
  have "p \<noteq> 0" "q \<noteq> 0" using pb(2) qb(2) n d by (auto intro: Suc_leI gr0I)
  then obtain p' q' where pq: "p = Suc p'" "q = Suc q'" by (meson not0_implies_Suc)
  have cast: "(of_nat (b ^ k) :: rat) = of_nat b powi int k" for k by (simp add: power_int_def)
  have N: "of_nat b powi int p' \<le> (of_int n :: rat)" "(of_int n :: rat) < of_nat b powi (int p' + 1)"
    using pb n pq cast [of p'] cast [of p]
    by (metis diff_Suc_1 nat_0_le of_int_of_nat_eq of_nat_le_iff of_nat_less_iff order_less_imp_le int_Suc)+
  have D: "of_nat b powi int q' \<le> (of_int d :: rat)" "(of_int d :: rat) < of_nat b powi (int q' + 1)"
    using qb d pq cast [of q'] cast [of q]
    by (metis diff_Suc_1 nat_0_le of_int_of_nat_eq of_nat_le_iff of_nat_less_iff order_less_imp_le int_Suc)+
  have D0: "(0::rat) < of_int d" using d by simp
  have up: "r < of_nat b powi (int p' - int q' + 1)"
  proof -
    have "r < of_nat b powi (int p' + 1) / of_int d" using N(2) D0 by (simp add: r divide_strict_right_mono)
    also have "\<dots> \<le> of_nat b powi (int p' + 1) / of_nat b powi int q'"
      using D(1) B D0 by (intro divide_left_mono mult_pos_pos) (auto intro: zero_less_power_int)
    also have "\<dots> = of_nat b powi (int p' - int q' + 1)"
      using B power_int_diff [of "of_nat b :: rat" "int p' + 1" "int q'"] by (simp add: algebra_simps)
    finally show ?thesis .
  qed
  have lo: "of_nat b powi (int p' - int q' - 1) \<le> r"
  proof -
    have "of_nat b powi (int p' - int q' - 1) = (of_nat b powi int p' / of_nat b powi (int q' + 1) :: rat)"
      using B power_int_diff [of "of_nat b :: rat" "int p'" "int q' + 1"] by (simp add: algebra_simps)
    also have "\<dots> \<le> of_nat b powi int p' / of_int d"
      using D B D0 by (intro divide_left_mono mult_pos_pos) (auto intro: zero_less_power_int order_less_imp_le)
    also have "\<dots> \<le> r" using N(1) D0 by (simp add: r divide_right_mono)
    finally show ?thesis .
  qed
  have "ilog b r = (if of_nat b powi (int p' - int q') \<le> r then int p' - int q' else int p' - int q' - 1)"
    by (simp add: ilog_def nd Let_def flip: p_def q_def) (simp add: pq)
  with up lo show ?thesis by (auto simp: not_le)
qed

lemma round_half_even_of_int [simp]: "round_half_even (of_int n) = n"
  by (simp add: round_half_even_def)

lemma round_half_even_lower: "of_int a \<le> x \<Longrightarrow> a \<le> round_half_even x"
  by (auto simp: round_half_even_def Let_def le_floor_iff intro: le_floor_iff [THEN iffD2] order_trans [of a "\<lfloor>x\<rfloor>"])

lemma round_half_even_upper: "x \<le> of_int a \<Longrightarrow> round_half_even x \<le> a"
proof -
  assume x: "x \<le> of_int a"
  have "\<lfloor>x\<rfloor> \<le> a" using floor_mono [OF x] by simp
  moreover have "\<lfloor>x\<rfloor> \<noteq> a \<or> x - of_int \<lfloor>x\<rfloor> = 0"
    using x of_int_floor_le [of x] by (metis diff_self order_antisym)
  ultimately show ?thesis by (auto simp: round_half_even_def Let_def)
qed

lemma round_pos_form: "\<exists>m. round_pos r = of_int m * 2 powi ulp_exp r \<and> m = round_half_even (r / 2 powi ulp_exp r)"
  by (simp add: round_pos_def Let_def)

lemma round_pos_nonneg: "0 \<le> r \<Longrightarrow> 0 \<le> round_pos r"
  using round_half_even_lower [of 0 "r / 2 powi ulp_exp r"]
  by (simp add: round_pos_def Let_def)

text \<open>Rounding a second time changes nothing.\<close>

lemma round_pos_integral:
  assumes "round_half_even (r / 2 powi ulp_exp r) = m" and "r = of_int m * 2 powi ulp_exp r"
  shows "round_pos r = r"
  using assms by (simp add: round_pos_def Let_def)

lemma round_pos_on_grid:
  assumes "0 < r" and "r = of_int m * 2 powi q" and "ulp_exp r \<le> q"
  shows "round_pos r = r"
proof -
  have "r / 2 powi ulp_exp r = of_int (m * 2 ^ nat (q - ulp_exp r))"
  proof -
    have "r / 2 powi ulp_exp r = of_int m * (2 powi q / 2 powi ulp_exp r)" using assms(2) by simp
    also have "2 powi q / 2 powi ulp_exp r = (2 powi (q - ulp_exp r) :: rat)"
      by (simp add: power_int_diff)
    also have "\<dots> = of_int (2 ^ nat (q - ulp_exp r))" using assms(3) by (simp add: power_int_def)
    finally show ?thesis by simp
  qed
  then have "round_half_even (r / 2 powi ulp_exp r) = m * 2 ^ nat (q - ulp_exp r)"
      and "r = of_int (m * 2 ^ nat (q - ulp_exp r)) * 2 powi ulp_exp r"
    by (simp_all only: round_half_even_of_int) (auto simp: field_simps)
  then show ?thesis by (rule round_pos_integral)
qed

lemma round_pos_idem:
  assumes "0 < r" and "0 < round_pos r"
  shows "round_pos (round_pos r) = round_pos r"
proof -
  define q where "q = ulp_exp r"
  define m where "m = round_half_even (r / 2 powi q)"
  have x: "round_pos r = of_int m * 2 powi q" by (simp add: round_pos_def Let_def m_def q_def)
  have "ilog 2 r + 1 \<le> q + 53" by (simp add: q_def ulp_exp_def)
  then have "r \<le> 2 powi (q + 53)"
    using ilog_bounds [OF assms(1), of 2] power_int_increasing [of "ilog 2 r + 1" "q + 53" "2::rat"] by simp
  then have "r / 2 powi q \<le> of_int (2 ^ 53)"
    using power_int_add [of "2::rat" q 53] by (simp add: divide_le_eq mult.commute)
  then have m: "m \<le> 2 ^ 53" unfolding m_def by (rule round_half_even_upper)
  show ?thesis
  proof (cases "m = 2 ^ 53")
    case True
    then have xx: "round_pos r = of_int 1 * 2 powi (q + 53)"
      using power_int_add [of "2::rat" q 53] by (simp add: x)
    have "ilog 2 (round_pos r) < q + 54"
    proof (rule ccontr)
      assume "\<not> ?thesis"
      then have "(2::rat) powi (q + 54) \<le> 2 powi ilog 2 (round_pos r)" by (intro power_int_increasing) auto
      also have "\<dots> \<le> 2 powi (q + 53)" using ilog_bounds [OF assms(2), of 2] xx by simp
      finally show False using power_int_strict_increasing [of "q + 53" "q + 54" "2::rat"] by simp
    qed
    moreover have "- 1074 \<le> q" by (simp add: q_def ulp_exp_def)
    ultimately have "ulp_exp (round_pos r) \<le> q + 53" by (simp add: ulp_exp_def)
    with xx assms(2) show ?thesis by (intro round_pos_on_grid [of _ 1 "q + 53"]) auto
  next
    case False
    with m have "m < 2 ^ 53" by simp
    then have "round_pos r < 2 powi (q + 53)"
      using power_int_add [of "2::rat" q 53] by (simp add: x)
    then have "ilog 2 (round_pos r) < q + 53"
      using ilog_bounds [of "round_pos r" 2] assms(2) power_int_increasing [of "q + 53" "ilog 2 (round_pos r)" "2::rat"]
      by (auto simp: not_less [symmetric])
    moreover have "- 1074 \<le> q" by (simp add: q_def ulp_exp_def)
    ultimately have "ulp_exp (round_pos r) \<le> q" by (simp add: ulp_exp_def)
    with x assms(2) show ?thesis by (intro round_pos_on_grid [of _ m q]) auto
  qed
qed

lemma representable_round: "round64 r = Fin x \<Longrightarrow> representable x"
proof -
  assume r: "round64 r = Fin x"
  show ?thesis
  proof (cases "x = 0")
    case True
    then show ?thesis by (simp add: representable_def round64_def)
  next
    case False
    with r have "r \<noteq> 0" by (auto simp: round64_def)
    with r False have "\<bar>x\<bar> = round_pos \<bar>r\<bar>" "(r < 0) = (x < 0)" "\<not> overflow64 \<le> round_pos \<bar>r\<bar>"
      using round_pos_nonneg [of "\<bar>r\<bar>"] by (auto simp: round64_def Let_def split: if_splits)
    with round_pos_idem [of "\<bar>r\<bar>"] False \<open>r \<noteq> 0\<close> show ?thesis
      by (auto simp: representable_def round64_def Let_def)
  qed
qed

lemma representable_neg: "representable (- r) = representable r"
  by (auto simp: representable_def round64_def Let_def)

lemma representable_0 [simp]: "representable 0"
  by (simp add: representable_def round64_def)

text \<open>A representable number is a dyadic rational.\<close>

lemma representable_dyadic:
  assumes "representable r" and "0 < r"
  shows "\<exists>m q. r = of_int m * 2 powi q"
proof -
  have "round_pos r = r" using assms by (auto simp: representable_def round64_def Let_def split: if_splits)
  with round_pos_form [of r] show ?thesis by metis
qed

lemma representable_of_int:
  assumes "\<bar>i\<bar> \<le> 2 ^ 53"
  shows "representable (of_int i)"
proof -
  have *: "representable (of_int k)" if "0 < k" "k \<le> 2 ^ 53" for k
  proof -
    have "ilog 2 (of_int k) \<le> 53"
    proof (rule ccontr)
      assume "\<not> ?thesis"
      then have "(2::rat) powi 54 \<le> 2 powi ilog 2 (of_int k)" by (intro power_int_increasing) auto
      also have "\<dots> \<le> of_int k" using ilog_bounds [of "of_int k" 2] that by simp
      also have "\<dots> \<le> of_int (2 ^ 53)" using that(2) by (simp only: of_int_le_iff)
      finally show False by (simp add: power_int_def)
    qed
    show ?thesis
    proof (cases "k = 2 ^ 53")
      case True
      have "ulp_exp (of_int k) \<le> 53" using \<open>ilog 2 (of_int k) \<le> 53\<close> by (simp add: ulp_exp_def)
      then have "round_pos (of_int k) = of_int k"
        using True by (intro round_pos_on_grid [of _ 1 53]) (auto simp: power_int_def)
      with True show ?thesis by (simp add: representable_def round64_def overflow64_def power_int_def)
    next
      case False
      with that have "(of_int k :: rat) < of_int (2 ^ 53)" by (simp only: of_int_less_iff)
      then have lt: "(of_int k :: rat) < 2 powi 53" by (simp add: power_int_def)
      have "ilog 2 (of_int k) < 53"
      proof (rule ccontr)
        assume "\<not> ?thesis"
        then have "(2::rat) powi 53 \<le> 2 powi ilog 2 (of_int k)" by (intro power_int_increasing) auto
        also have "\<dots> \<le> of_int k" using ilog_bounds [of "of_int k" 2] that by simp
        finally show False using lt by simp
      qed
      then have "ulp_exp (of_int k) \<le> 0" by (simp add: ulp_exp_def)
      then have "round_pos (of_int k) = of_int k"
        using that by (intro round_pos_on_grid [of _ k 0]) auto
      moreover have "(of_int k :: rat) < overflow64"
        using lt power_int_increasing [of 53 1024 "2::rat"] unfolding overflow64_def by linarith
      ultimately show ?thesis using that by (simp add: representable_def round64_def)
    qed
  qed
  consider "i = 0" | "0 < i" | "i < 0" by linarith
  then show ?thesis
  proof cases
    case 3
    then show ?thesis using * [of "- i"] assms representable_neg [of "of_int i"] by simp
  qed (use * assms in auto)
qed

section \<open>\<open>ParseFloat\<close>\<close>

definition digit_of :: "nat \<Rightarrow> char \<Rightarrow> nat option" where
  "digit_of base c =
     (if is_digit_char c then Some (ascii_val c - 48)
      else let l = ascii_val (lower_char c)
           in if base = 16 \<and> 97 \<le> l \<and> l \<le> 102 then Some (l - 87) else None)"

text \<open>The digits of the mantissa, how many of them follow the point, and the rest of the input.\<close>

fun scan_mantissa :: "nat \<Rightarrow> bool \<Rightarrow> string \<Rightarrow> nat list \<times> nat \<times> string" where
  "scan_mantissa base sawdot [] = ([], 0, [])"
| "scan_mantissa base sawdot (c # cs) =
     (if c = CHR ''_'' then scan_mantissa base sawdot cs
      else if c = CHR ''.'' \<and> \<not> sawdot then scan_mantissa base True cs
      else (case digit_of base c of
              None \<Rightarrow> ([], 0, c # cs)
            | Some d \<Rightarrow> (case scan_mantissa base sawdot cs of
                 (ds, k, r) \<Rightarrow> (d # ds, if sawdot then Suc k else k, r))))"

fun scan_exponent :: "nat \<Rightarrow> string \<Rightarrow> nat \<times> string" where
  "scan_exponent e [] = (e, [])"
| "scan_exponent e (c # cs) =
     (if c = CHR ''_'' then scan_exponent e cs
      else if is_digit_char c then scan_exponent (if e < 10000 then 10 * e + (ascii_val c - 48) else e) cs
      else (e, c # cs))"

text \<open>An underscore stands between digits (a base prefix counts as one); \<open>saw\<close> is the last thing seen.\<close>

fun underscores_ok :: "bool \<Rightarrow> char \<Rightarrow> string \<Rightarrow> bool" where
  "underscores_ok hex saw [] \<longleftrightarrow> saw \<noteq> CHR ''_''"
| "underscores_ok hex saw (c # cs) \<longleftrightarrow>
     (if digit_of (if hex then 16 else 10) c \<noteq> None then underscores_ok hex (CHR ''0'') cs
      else if c = CHR ''_'' then saw = CHR ''0'' \<and> underscores_ok hex (CHR ''_'') cs
      else saw \<noteq> CHR ''_'' \<and> underscores_ok hex (CHR ''!'') cs)"

definition float_sign :: "string \<Rightarrow> bool \<times> string" where
  "float_sign s =
     (case s of [] \<Rightarrow> (False, [])
      | c # cs \<Rightarrow> if c = CHR ''-'' then (True, cs) else if c = CHR ''+'' then (False, cs) else (False, s))"

definition base_prefix :: "string \<Rightarrow> char option" where
  "base_prefix s =
     (case s of z # x # _ \<Rightarrow> if z = CHR ''0'' \<and> lower_char x \<in> {CHR ''b'', CHR ''o'', CHR ''x''}
                           then Some (lower_char x) else None
      | _ \<Rightarrow> None)"

definition underscoreOK :: "string \<Rightarrow> bool" where
  "underscoreOK s =
     (let t = snd (float_sign s)
      in case base_prefix t of
           None \<Rightarrow> underscores_ok False (CHR ''^'') t
         | Some x \<Rightarrow> underscores_ok (x = CHR ''x'') (CHR ''0'') (drop 2 t))"

definition read_exponent :: "nat \<Rightarrow> string \<Rightarrow> int option" where
  "read_exponent base r =
     (case r of
        [] \<Rightarrow> if base = 16 then None else Some 0
      | c # cs \<Rightarrow>
          if lower_char c = (if base = 16 then CHR ''p'' else CHR ''e'')
          then (case float_sign cs of (neg, w) \<Rightarrow>
                  if w = [] \<or> \<not> is_digit_char (hd w) then None
                  else (case scan_exponent 0 w of (e, t) \<Rightarrow>
                          if t = [] then Some (if neg then - int e else int e) else None))
          else None)"

definition mantissa_value :: "nat \<Rightarrow> nat list \<Rightarrow> nat" where
  "mantissa_value base ds = foldl (\<lambda>a d. base * a + d) 0 ds"

definition read_float :: "string \<Rightarrow> rat option" where
  "read_float s =
     (case float_sign s of (neg, t) \<Rightarrow>
        let base = (if base_prefix t = Some (CHR ''x'') \<and> 2 < length t then 16 else 10);
            u = (if base = 16 then drop 2 t else t)
        in case scan_mantissa base False u of (ds, k, r) \<Rightarrow>
             if ds = [] then None
             else (case read_exponent base r of
                     None \<Rightarrow> None
                   | Some x \<Rightarrow>
                       if CHR ''_'' \<in> set s \<and> \<not> underscoreOK s then None
                       else let v = of_nat (mantissa_value base ds)
                              * (if base = 16 then 2 powi (x - 4 * int k) else 10 powi (x - int k))
                            in Some (if neg then - v else v)))"

definition special_float :: "string \<Rightarrow> float64 option" where
  "special_float s =
     (case float_sign s of (neg, t) \<Rightarrow>
        if equal_fold t ''inf'' \<or> equal_fold t ''infinity'' then Some (if neg then NegInf else PosInf)
        else if equal_fold s ''nan'' then Some NaN else None)"

text \<open>A syntax error and a value out of range are both errors.\<close>

definition parse_float :: "string \<Rightarrow> float64 option" where
  "parse_float s =
     (case special_float s of
        Some f \<Rightarrow> Some f
      | None \<Rightarrow> (case read_float s of
                  None \<Rightarrow> None
                | Some r \<Rightarrow> (case round64 r of Fin x \<Rightarrow> Some (Fin x) | _ \<Rightarrow> None)))"

section \<open>\<open>FormatFloat\<close>\<close>

text \<open>The decimals of \<open>n\<close> digits next to \<open>f\<close> that read back as \<open>f\<close>, the nearer one first.\<close>

definition digits_candidate :: "nat \<Rightarrow> rat \<Rightarrow> (nat \<times> int) option" where
  "digits_candidate n f =
     (let e = ilog 10 f + 1 - int n; x = f / 10 powi e; lo = \<lfloor>x\<rfloor>;
          down = (round64 (of_int lo * 10 powi e) = Fin f);
          up = (round64 (of_int (lo + 1) * 10 powi e) = Fin f)
      in if down \<and> up then Some (nat (round_half_even x), e)
         else if down then Some (nat lo, e)
         else if up then Some (nat (lo + 1), e)
         else None)"

fun shortest_from :: "nat \<Rightarrow> nat \<Rightarrow> rat \<Rightarrow> nat \<times> int" where
  "shortest_from 0 n f = (0, 0)"
| "shortest_from (Suc k) n f =
     (case digits_candidate n f of Some p \<Rightarrow> p | None \<Rightarrow> shortest_from k (Suc n) f)"

text \<open>The exact expansion of a dyadic rational bounds the search.\<close>

definition shortest :: "rat \<Rightarrow> nat \<times> int" where
  "shortest f = shortest_from (Suc (nat (ilog 10 f + int (floorlog 2 (nat (snd (quotient_of f))))))) 1 f"

function strip_zeros :: "nat \<Rightarrow> int \<Rightarrow> nat \<times> int" where
  "strip_zeros m e = (if m \<noteq> 0 \<and> m mod 10 = 0 then strip_zeros (m div 10) (e + 1) else (m, e))"
  by auto
termination by (relation "measure fst") auto

declare strip_zeros.simps [simp del]

definition exponent_text :: "int \<Rightarrow> string" where
  "exponent_text x =
     (if x < 0 then ''-'' else ''+'') @ (if \<bar>x\<bar> < 10 then ''0'' else []) @ nat_digits (nat \<bar>x\<bar>)"

definition format_e :: "rat \<Rightarrow> string" where
  "format_e f =
     (case shortest f of (m0, e0) \<Rightarrow>
        (case strip_zeros m0 e0 of (m, e) \<Rightarrow>
           let ds = nat_digits m; x = e + int (length ds) - 1
           in take 1 ds @ (if length ds = 1 then [] else CHR ''.'' # drop 1 ds)
              @ ''e'' @ exponent_text x))"

section \<open>Reading decimals\<close>

lemma digit_char_facts:
  assumes "is_digit_char c"
  shows "c \<noteq> CHR ''_''" and "c \<noteq> CHR ''.''" and "c \<noteq> CHR ''-''" and "c \<noteq> CHR ''+''"
    and "lower_char c = c" and "digit_of b c = Some (ascii_val c - 48)" and "c \<noteq> CHR ''e''"
    and "c \<notin> {CHR ''b'', CHR ''o'', CHR ''x'', CHR ''i'', CHR ''n''}"
  using assms by (auto simp: is_digit_char_def ascii_val_def digit_of_def lower_char_def)

lemma mantissa_value_digits: "mantissa_value 10 (map (\<lambda>c. ascii_val c - 48) ds) = digits_value ds"
  by (simp add: mantissa_value_def digits_value_def foldl_map)

lemma digits_value_snoc: "digits_value (ds @ [c]) = 10 * digits_value ds + (ascii_val c - 48)"
  by (simp add: digits_value_def)

lemma digits_value_zeros: "digits_value (ds @ replicate k (CHR ''0'')) = digits_value ds * 10 ^ k"
proof (induction k)
  case (Suc k)
  have "digits_value (ds @ replicate (Suc k) (CHR ''0'')) = digits_value ((ds @ replicate k (CHR ''0'')) @ ''0'')"
    by (simp add: replicate_append_same)
  with Suc show ?case unfolding digits_value_snoc by (simp add: ascii_val_def)
qed simp

lemma digits_value_leading: "digits_value (replicate k (CHR ''0'') @ ds) = digits_value ds"
  by (induction k) (simp_all add: digits_value_def ascii_val_def)

lemma scan_digits:
  "list_all is_digit_char ds \<Longrightarrow> scan_mantissa b dot (ds @ r)
     = (case scan_mantissa b dot r of (es, k, t) \<Rightarrow>
          (map (\<lambda>c. ascii_val c - 48) ds @ es, (if dot then length ds else 0) + k, t))"
  by (induction ds) (auto simp: digit_char_facts split: prod.splits)

lemma scan_exponent_digits:
  "list_all is_digit_char ds \<Longrightarrow> foldl (\<lambda>acc c. 10 * acc + (ascii_val c - 48)) a ds < 100000
    \<Longrightarrow> scan_exponent a ds = (foldl (\<lambda>acc c. 10 * acc + (ascii_val c - 48)) a ds, [])"
proof (induction ds arbitrary: a)
  case (Cons c ds)
  have "a' \<le> foldl (\<lambda>acc c. 10 * acc + (ascii_val c - 48)) a' xs" for a' :: nat and xs
  proof (induction xs arbitrary: a')
    case (Cons b xs)
    have "a' \<le> 10 * a' + (ascii_val b - 48)" by simp
    also note Cons [of "10 * a' + (ascii_val b - 48)"]
    finally show ?case by simp
  qed simp
  from this [of "10 * a + (ascii_val c - 48)" ds] Cons.prems have "a < 10000" by simp
  with Cons show ?case by (simp add: digit_char_facts)
qed simp

text \<open>The text of a decimal number in its parts.\<close>

definition exp_part :: "int option \<Rightarrow> string" where
  "exp_part x = (case x of None \<Rightarrow> [] | Some i \<Rightarrow> ''e'' @ (if i < 0 then ''-'' else ''+'') @ nat_digits (nat \<bar>i\<bar>))"

definition decimal_text :: "bool \<Rightarrow> string \<Rightarrow> string \<Rightarrow> int option \<Rightarrow> string" where
  "decimal_text neg ip fp x =
     (if neg then ''-'' else []) @ ip @ (if fp = [] then [] else CHR ''.'' # fp) @ exp_part x"

definition decimal_value :: "bool \<Rightarrow> string \<Rightarrow> string \<Rightarrow> int option \<Rightarrow> rat" where
  "decimal_value neg ip fp x =
     (let v = of_nat (digits_value (ip @ fp)) * 10 powi (case_option 0 id x - int (length fp))
      in if neg then - v else v)"

lemma read_exp_part:
  assumes "\<bar>case_option 0 id x\<bar> < 100000"
  shows "read_exponent 10 (exp_part x) = Some (case_option 0 id x)"
proof (cases x)
  case (Some i)
  let ?ds = "nat_digits (nat \<bar>i\<bar>)"
  have ds: "list_all is_digit_char ?ds" "digits_value ?ds = nat \<bar>i\<bar>"
    by (simp_all add: nat_digits_all_digits digits_value_nat_digits)
  then have "scan_exponent 0 ?ds = (nat \<bar>i\<bar>, [])"
    using scan_exponent_digits [of ?ds 0] assms Some by (simp add: digits_value_def)
  moreover have "is_digit_char (hd ?ds)" by (rule set_nat_digits [of _ "nat \<bar>i\<bar>"]) simp
  ultimately show ?thesis using Some
    by (cases "i < 0") (simp_all add: exp_part_def read_exponent_def float_sign_def lower_char_def ascii_val_def)
qed (simp add: exp_part_def read_exponent_def)

lemma digit_not_fold:
  "is_digit_char c \<Longrightarrow> \<not> is_digit_char (lower_char d) \<Longrightarrow> \<not> equal_fold (c # cs) (d # ds)"
  by (auto simp: equal_fold_def to_lower_def digit_char_facts)

lemma read_decimal:
  assumes ip: "list_all is_digit_char ip" "ip \<noteq> []" and fp: "list_all is_digit_char fp"
    and x: "\<bar>case_option 0 id x\<bar> < 100000"
  shows "read_float (decimal_text neg ip fp x) = Some (decimal_value neg ip fp x)"
    and "special_float (decimal_text neg ip fp x) = None"
proof -
  let ?u = "decimal_text False ip fp x"
  obtain c cs where c: "ip = c # cs" "is_digit_char c" using ip by (cases ip) auto
  have sign: "float_sign (decimal_text neg ip fp x) = (neg, ?u)"
    using c by (simp add: float_sign_def decimal_text_def digit_char_facts)
  have pre: "base_prefix ?u \<noteq> Some (CHR ''x'')"
  proof -
    have "z \<noteq> CHR ''x'' \<and> lower_char z \<noteq> CHR ''x''" if "z \<in> set (tl (take 2 ?u))" for z
    proof -
      have "is_digit_char z \<or> z = CHR ''.'' \<or> z = CHR ''e''"
        using that c ip fp by (cases cs; cases fp; cases x) (auto simp: decimal_text_def exp_part_def list_all_iff)
      then show ?thesis by (auto simp: digit_char_facts lower_char_def ascii_val_def is_digit_char_def)
    qed
    then show ?thesis by (auto simp: base_prefix_def split: list.splits if_splits)
  qed
  have stop: "scan_mantissa 10 d (exp_part x) = ([], 0, exp_part x)" for d
    by (cases x) (simp_all add: exp_part_def digit_of_def is_digit_char_def ascii_val_def)
  have scan: "scan_mantissa 10 False ?u = (map (\<lambda>c. ascii_val c - 48) (ip @ fp), length fp, exp_part x)"
    using ip fp by (simp add: decimal_text_def scan_digits stop)
  have us: "CHR ''_'' \<notin> set (decimal_text neg ip fp x)"
    using ip fp by (cases x) (auto simp: decimal_text_def exp_part_def list_all_iff is_digit_char_def ascii_val_def
        dest!: set_nat_digits)
  show "read_float (decimal_text neg ip fp x) = Some (decimal_value neg ip fp x)"
    using pre ip(2) us
    by (simp add: read_float_def sign scan read_exp_part [OF x] decimal_value_def Let_def mantissa_value_digits del: map_append)
  obtain t where t: "?u = c # t" using c by (simp add: decimal_text_def)
  have "\<not> equal_fold (c # t) (d # ds)" if "d \<in> set ''in''" for d ds
    using that by (intro digit_not_fold c(2)) (auto simp: lower_char_def is_digit_char_def ascii_val_def)
  moreover have "\<not> equal_fold (decimal_text neg ip fp x) ''nan''"
    using calculation [of "CHR ''n''" "''an''"] t
    by (cases neg) (auto simp: decimal_text_def equal_fold_def to_lower_def lower_char_def ascii_val_def)
  ultimately show "special_float (decimal_text neg ip fp x) = None"
    by (simp add: special_float_def sign t)
qed

lemma parse_decimal:
  assumes "list_all is_digit_char ip" "ip \<noteq> []" "list_all is_digit_char fp" "\<bar>case_option 0 id x\<bar> < 100000"
    and "decimal_value neg ip fp x = r" and "round64 r = Fin f"
  shows "parse_float (decimal_text neg ip fp x) = Some (Fin f)"
  using assms by (simp add: parse_float_def read_decimal)

section \<open>The shortest decimal exists and reads back\<close>

lemma powi_pred: "0 < n \<Longrightarrow> (b::rat) powi (int n - 1) = b ^ (n - 1)"
  by (cases n) simp_all

lemma powi_base_mono:
  "2 powi int k \<le> (10 powi int k :: rat)" "10 powi (- int k) \<le> (2 powi (- int k) :: rat)"
  by (simp_all add: power_int_minus le_imp_inverse_le power_mono)

lemma representable_bounds:
  assumes "representable f" and "0 < f"
  shows "f < overflow64" and "2 powi (- 1074) \<le> f"
proof -
  have f: "round_pos f = f" "f < overflow64"
    using assms by (auto simp: representable_def round64_def Let_def split: if_splits)
  then show "f < overflow64" by simp
  define m where "m = round_half_even (f / 2 powi ulp_exp f)"
  have m: "f = of_int m * 2 powi ulp_exp f" using f(1) by (simp add: round_pos_def Let_def m_def)
  with assms(2) mult_nonpos_nonneg [of "of_int m :: rat" "2 powi ulp_exp f"] have "1 \<le> m"
    by (cases "m \<le> 0") auto
  have "2 powi (- 1074) \<le> (2 powi ulp_exp f :: rat)" by (intro power_int_increasing) (auto simp: ulp_exp_def)
  also have "\<dots> \<le> of_int m * 2 powi ulp_exp f" using \<open>1 \<le> m\<close> by simp
  finally show "2 powi (- 1074) \<le> f" using m by simp
qed

lemma powi_less_iff: "1 < (b::rat) \<Longrightarrow> b powi i < b powi j \<longleftrightarrow> i < j"
  using power_int_strict_increasing [of i j b] power_int_increasing [of j i b] by force

lemma ilog10_bounds:
  assumes "representable f" and "0 < f"
  shows "\<bar>ilog 10 f\<bar> \<le> 1100"
proof -
  define K L where "K = (1024::nat)" and "L = (1074::nat)"
  note E = ilog_bounds [OF assms(2), of 10]
  have "f < 2 powi int K" "2 powi (- int L) \<le> f"
    using representable_bounds [OF assms] by (simp_all only: overflow64_def K_def L_def of_nat_numeral)
  with powi_base_mono(1) [of K] powi_base_mono(2) [of L]
  have "f < 10 powi int K" "10 powi (- int L) \<le> f" by linarith+
  with E have "(10::rat) powi ilog 10 f < 10 powi int K" "(10::rat) powi (- int L) < 10 powi (ilog 10 f + 1)"
    by auto
  then have "ilog 10 f < int K" "- int L < ilog 10 f + 1" by (simp_all only: powi_less_iff [of "10::rat"] one_less_numeral_iff semiring_norm)
  then show ?thesis by (simp add: K_def L_def)
qed

lemma dvd_two_power: "d dvd 2 ^ k \<Longrightarrow> \<exists>j. (d::nat) = 2 ^ j"
proof (induction k arbitrary: d)
  case (Suc k)
  show ?case
  proof (cases "even d")
    case True
    then obtain d' where "d = 2 * d'" by blast
    with Suc show ?thesis by (metis dvd_times_left_cancel_iff power_Suc zero_neq_numeral)
  next
    case False
    then have "coprime d 2" by simp
    with Suc show ?thesis by (simp add: coprime_dvd_mult_right_iff)
  qed
qed (metis dvd_1_iff_1 power_0 One_nat_def)

lemma dyadic_expansion:
  assumes "representable f" and "0 < f" and "int (floorlog 2 (nat (snd (quotient_of f)))) \<le> k"
  shows "\<exists>i. f * 10 powi k = of_int i"
proof -
  obtain n d where nd: "quotient_of f = (n, d)" by fastforce
  then have d: "0 < d" "f = of_int n / of_int d" "coprime n d"
    using quotient_of_denom_pos quotient_of_div quotient_of_coprime by blast+
  obtain m q where m: "f = of_int m * 2 powi q" using representable_dyadic [OF assms(1,2)] by blast
  have "d dvd 2 ^ nat \<bar>q\<bar>"
  proof (cases "0 \<le> q")
    case True
    with m have "f = of_int (m * 2 ^ nat q)" by (simp add: power_int_def)
    then have "quotient_of f = (m * 2 ^ nat q, 1)" by (simp only: quotient_of_rat_of_int)
    with nd show ?thesis by simp
  next
    case False
    with m have "f * 2 ^ nat (- q) = of_int m" by (simp add: power_int_def field_simps)
    with d(1,2) have "of_int n * 2 ^ nat (- q) = (of_int m * of_int d :: rat)"
      by (metis less_irrefl mult.assoc mult.commute nonzero_eq_divide_eq of_int_eq_0_iff)
    then have "n * 2 ^ nat (- q) = m * d"
      by (metis of_int_eq_iff of_int_mult of_int_numeral of_int_power)
    then have "d dvd n * 2 ^ nat (- q)" by simp
    with d(3) have "d dvd 2 ^ nat (- q)" by (simp add: coprime_dvd_mult_right_iff coprime_commute)
    with False show ?thesis by simp
  qed
  then have "nat d dvd 2 ^ nat \<bar>q\<bar>" using d(1) by (simp add: nat_dvd_iff)
  then obtain j where j: "nat d = 2 ^ j" using dvd_two_power by blast
  with d(1) have d2: "d = 2 ^ j" by (metis int_nat_eq less_le_not_le of_nat_numeral of_nat_power)
  have "floorlog 2 (nat d) = Suc j" using floorlog_power [of 1 2 j] by (simp add: j floorlog_def)
  with assms(3) nd have k: "int j \<le> k" by simp
  have "f * 10 powi k = of_int n / 2 ^ j * 10 ^ nat k" using k by (simp add: d d2 power_int_def)
  also have "(10::rat) ^ nat k = 10 ^ j * 10 ^ (nat k - j)" using k by (simp flip: power_add)
  also have "of_int n / 2 ^ j * (10 ^ j * 10 ^ (nat k - j)) = (of_int (n * 5 ^ j * 10 ^ (nat k - j)) :: rat)"
    using power_divide [of "10::rat" 2 j] by (simp add: field_simps)
  finally show ?thesis by blast
qed

lemma candidate_reads:
  assumes "digits_candidate n f = Some (M, e)" and "1 \<le> n" and "0 < f"
  shows "round64 (of_nat M * 10 powi e) = Fin f" and "e = ilog 10 f + 1 - int n"
    and "10 ^ (n - 1) \<le> M" and "M \<le> 10 ^ n"
proof -
  define E where "E = ilog 10 f + 1 - int n"
  define x where "x = f / 10 powi E"
  define lo where "lo = \<lfloor>x\<rfloor>"
  note eb = ilog_bounds [OF assms(3), of 10]
  have "10 powi (int (n - 1)) * 10 powi E \<le> f"
    using eb assms(2) power_int_add [of "10::rat" "int (n - 1)" E] by (simp add: E_def of_nat_diff)
  then have xlo: "of_int (10 ^ (n - 1)) \<le> x" by (simp add: x_def pos_le_divide_eq power_int_def)
  have "f < 10 powi (int n) * 10 powi E"
    using eb power_int_add [of "10::rat" "int n" E] by (simp add: E_def)
  then have xhi: "x < of_int (10 ^ n)" by (simp add: x_def pos_divide_less_eq power_int_def)
  have lo: "10 ^ (n - 1) \<le> lo" "lo + 1 \<le> 10 ^ n"
    using xlo xhi floor_less_iff [of x "10 ^ n"] unfolding lo_def by (simp_all only: le_floor_iff) auto
  have M: "int M \<in> {lo, lo + 1} \<and> e = E \<and> round64 (of_int (int M) * 10 powi E) = Fin f"
  proof -
    have "round_half_even x \<in> {lo, lo + 1}" by (simp add: round_half_even_def lo_def Let_def)
    moreover have "0 < lo" using lo(1) zero_less_power [of "10::int" "n - 1"] by linarith
    ultimately show ?thesis using assms(1)
      by (auto simp: digits_candidate_def Let_def simp flip: E_def x_def lo_def split: if_splits)
  qed
  then show "round64 (of_nat M * 10 powi e) = Fin f" "e = ilog 10 f + 1 - int n" by (auto simp: E_def)
  have "lo \<le> int M" "int M \<le> lo + 1" using M by auto
  with lo have "(10::int) ^ (n - 1) \<le> int M" "int M \<le> 10 ^ n" by linarith+
  then have "int (10 ^ (n - 1)) \<le> int M" "int M \<le> int (10 ^ n)" by (simp_all only: of_nat_power of_nat_numeral)
  then show "10 ^ (n - 1) \<le> M" "M \<le> 10 ^ n" by (simp_all only: of_nat_le_iff)
qed

lemma candidate_exists:
  assumes "representable f" and "0 < f" and "ilog 10 f + int (floorlog 2 (nat (snd (quotient_of f)))) < int n"
  shows "digits_candidate n f \<noteq> None"
proof -
  define E where "E = ilog 10 f + 1 - int n"
  obtain i where "f * 10 powi (- E) = of_int i"
    using dyadic_expansion [OF assms(1,2), of "- E"] assms(3) by (auto simp: E_def)
  then have x: "f / 10 powi E = of_int i" by (simp add: power_int_minus field_simps)
  then have "of_int i * 10 powi E = f" by (simp add: field_simps)
  with x assms(1) show ?thesis
    by (simp add: digits_candidate_def Let_def representable_def flip: E_def)
qed

lemma shortest_from_finds:
  "digits_candidate N f \<noteq> None \<Longrightarrow> n \<le> N \<Longrightarrow> N < n + k \<Longrightarrow>
     \<exists>n' \<ge> n. digits_candidate n' f = Some (shortest_from k n f)"
proof (induction k n f rule: shortest_from.induct)
  case (2 k n f)
  show ?case
  proof (cases "digits_candidate n f")
    case None
    with "2.prems" have "Suc n \<le> N" by (metis le_neq_implies_less Suc_leI)
    with 2 None show ?thesis using Suc_leD by fastforce
  qed auto
qed simp

lemma shortest_reads:
  assumes "representable f" and "0 < f" and "shortest f = (M, e)"
  shows "round64 (of_nat M * 10 powi e) = Fin f" and "M \<noteq> 0"
    and "10 powi ilog 10 f \<le> (of_nat M * 10 powi e :: rat)" and "of_nat M * 10 powi e \<le> (10 powi (ilog 10 f + 1) :: rat)"
proof -
  define L where "L = ilog 10 f + int (floorlog 2 (nat (snd (quotient_of f))))"
  have "digits_candidate (Suc (nat L)) f \<noteq> None" using assms(1,2) by (intro candidate_exists) (auto simp: L_def)
  then obtain n where n: "1 \<le> n" "digits_candidate n f = Some (M, e)"
    using shortest_from_finds [of "Suc (nat L)" f 1 "Suc (nat L)"] assms(3) by (auto simp: shortest_def L_def)
  note c = candidate_reads [OF n(2,1) assms(2)]
  show "round64 (of_nat M * 10 powi e) = Fin f" by (rule c)
  show "M \<noteq> 0" using c(3) by (metis le_zero_eq power_eq_0_iff zero_neq_numeral)
  have "(10 powi ilog 10 f :: rat) = of_nat (10 ^ (n - 1)) * 10 powi e"
    using n(1) power_int_add [of "10::rat" "int (n - 1)" e] by (simp add: c(2) of_nat_diff powi_pred)
  also have "\<dots> \<le> of_nat M * 10 powi e" using c(3) by (intro mult_right_mono) (auto simp only: of_nat_le_iff zero_le_power_int zero_le_numeral)
  finally show "10 powi ilog 10 f \<le> (of_nat M * 10 powi e :: rat)" .
  have "of_nat M * 10 powi e \<le> (of_nat (10 ^ n) * 10 powi e :: rat)"
    using c(4) by (intro mult_right_mono) (auto simp only: of_nat_le_iff zero_le_power_int zero_le_numeral)
  also have "\<dots> = 10 powi (ilog 10 f + 1)"
    using power_int_add [of "10::rat" "int n" e] by (simp add: c(2))
  finally show "of_nat M * 10 powi e \<le> (10 powi (ilog 10 f + 1) :: rat)" .
qed

lemma strip_zeros_value:
  "strip_zeros M e = (m, e') \<Longrightarrow> of_nat m * 10 powi e' = (of_nat M * 10 powi e :: rat)
     \<and> (M \<noteq> 0 \<longrightarrow> m mod 10 \<noteq> 0)"
proof (induction M e rule: strip_zeros.induct)
  case (1 M e)
  show ?case
  proof (cases "M \<noteq> 0 \<and> M mod 10 = 0")
    case True
    with "1.prems" have "strip_zeros (M div 10) (e + 1) = (m, e')" by (subst (asm) strip_zeros.simps) simp
    with "1.IH" True have *: "of_nat m * 10 powi e' = (of_nat (M div 10) * 10 powi (e + 1) :: rat) \<and> m mod 10 \<noteq> 0"
      by (simp add: div_eq_0_iff mod_eq_0_iff_dvd) (use True in \<open>auto simp: div_eq_0_iff dest: dvd_imp_le\<close>)
    have "M = 10 * (M div 10)" using True by auto
    then have "(of_nat M :: rat) = 10 * of_nat (M div 10)" by (metis of_nat_mult of_nat_numeral)
    then have "(of_nat (M div 10) * 10 powi (e + 1) :: rat) = of_nat M * 10 powi e" by (simp add: power_int_add)
    with * show ?thesis by simp
  next
    case False
    with "1.prems" show ?thesis by (subst (asm) strip_zeros.simps) auto
  qed
qed

lemma length_nat_digits_bounds: "0 < n \<Longrightarrow> 10 ^ (length (nat_digits n) - 1) \<le> n \<and> n < 10 ^ length (nat_digits n)"
proof (induction n rule: nat_digits.induct)
  case (1 n)
  show ?case
  proof (cases "n < 10")
    case True
    with 1 show ?thesis by (subst (1 2) nat_digits.simps) simp
  next
    case False
    define k where "k = length (nat_digits (n div 10))"
    have "length (nat_digits n) = Suc k" using False by (subst nat_digits.simps) (simp add: k_def)
    moreover have "10 ^ (k - 1) \<le> n div 10" "n div 10 < 10 ^ k" using 1 False by (auto simp: k_def)
    moreover have "0 < k" by (simp add: k_def)
    ultimately show ?thesis by (cases k) (auto simp: algebra_simps less_eq_div_iff_mult_less_eq div_less_iff_less_mult)
  qed
qed

lemma format_e_form:
  assumes "representable f" and "0 < f"
  obtains m x where "0 < m" and "m mod 10 \<noteq> 0" and "\<bar>x\<bar> \<le> 1200"
    and "round64 (of_nat m * 10 powi (x + 1 - int (length (nat_digits m)))) = Fin f"
    and "format_e f = take 1 (nat_digits m) @ (if length (nat_digits m) = 1 then [] else CHR ''.'' # drop 1 (nat_digits m))
           @ ''e'' @ exponent_text x"
proof -
  obtain M0 e0 where s: "shortest f = (M0, e0)" by fastforce
  obtain m e where z: "strip_zeros M0 e0 = (m, e)" by fastforce
  note r = shortest_reads [OF assms s] and v = strip_zeros_value [OF z]
  have m: "m mod 10 \<noteq> 0" "0 < m" using r(2) v by (auto intro: gr0I)
  define k where "k = length (nat_digits m)"
  have k: "0 < k" by (simp add: k_def)
  define x where "x = e + int k - 1"
  have "10 powi x \<le> (of_nat m * 10 powi e :: rat)" "of_nat m * 10 powi e < (10 powi (x + 1) :: rat)"
  proof -
    have "10 ^ (k - 1) \<le> m" "m < 10 ^ k" using length_nat_digits_bounds [OF m(2)] by (simp_all add: k_def)
    then have "(of_nat (10 ^ (k - 1)) :: rat) \<le> of_nat m" "(of_nat m :: rat) < of_nat (10 ^ k)"
      by (simp_all only: of_nat_le_iff of_nat_less_iff)
    moreover have "10 powi x = (of_nat (10 ^ (k - 1)) * 10 powi e :: rat)"
      using k power_int_add [of "10::rat" "int (k - 1)" e] by (simp add: x_def of_nat_diff powi_pred algebra_simps)
    moreover have "10 powi (x + 1) = (of_nat (10 ^ k) * 10 powi e :: rat)"
      using power_int_add [of "10::rat" "int k" e] by (simp add: x_def algebra_simps)
    moreover have "0 < (10 powi e :: rat)" by (simp add: zero_less_power_int)
    ultimately show "10 powi x \<le> (of_nat m * 10 powi e :: rat)" "of_nat m * 10 powi e < (10 powi (x + 1) :: rat)"
      by (simp_all only: mult_le_cancel_right_pos mult_less_cancel_right_pos)
  qed
  moreover have "of_nat m * 10 powi e = (of_nat M0 * 10 powi e0 :: rat)" using v by blast
  ultimately have "10 powi x \<le> (10 powi (ilog 10 f + 1) :: rat)" "10 powi ilog 10 f < (10 powi (x + 1) :: rat)"
    using r(3,4) by (metis order_trans, metis order_le_less_trans)
  moreover have one: "(1::rat) < 10" by simp
  ultimately have "\<not> ilog 10 f + 1 < x" "ilog 10 f < x + 1"
    using powi_less_iff [OF one, of "ilog 10 f + 1" x] powi_less_iff [OF one, of "ilog 10 f" "x + 1"] leD by blast+
  with ilog10_bounds [OF assms] have "\<bar>x\<bar> \<le> 1200" by linarith
  moreover have e: "x + 1 - int k = e" by (simp add: x_def)
  have "round64 (of_nat m * 10 powi (x + 1 - int (length (nat_digits m)))) = Fin f"
    unfolding k_def [symmetric] e using r(1) v by metis
  moreover have "format_e f = take 1 (nat_digits m)
      @ (if length (nat_digits m) = 1 then [] else CHR ''.'' # drop 1 (nat_digits m)) @ ''e'' @ exponent_text x"
    by (simp only: format_e_def s z prod.case Let_def x_def k_def)
  ultimately show thesis using that m by blast
qed

end
