(* ===== verification/GoJson.thy ===== *)
theory GoJson
  imports GoFloat
begin

text \<open>
  The part of package \<open>encoding/json\<close> that the canonical encoder, the request signer and the
  configuration store call: the lexical grammar (strings with their escapes, numbers, literals), the
  unquoting of strings with its replacement of malformed UTF-8, and the token stream of a \<open>Decoder\<close>
  with its state machine. Package \<open>unicode/utf8\<close>, as far as that needs it.
\<close>

section \<open>UTF-8\<close>

abbreviation in_range :: "nat \<Rightarrow> nat \<Rightarrow> char \<Rightarrow> bool" where
  "in_range a b c \<equiv> a \<le> ascii_val c \<and> ascii_val c \<le> b"

text \<open>The length of the encoded rune at the start of the bytes; \<^const>\<open>None\<close> is \<open>RuneError\<close> of width one.\<close>

fun rune_len :: "string \<Rightarrow> nat option" where
  "rune_len [] = None"
| "rune_len (c # cs) =
     (if in_range 0 127 c then Some 1
      else if in_range 0xC2 0xDF c then
        (case cs of c1 # _ \<Rightarrow> if in_range 0x80 0xBF c1 then Some 2 else None | _ \<Rightarrow> None)
      else if in_range 0xE0 0xEF c then
        (case cs of c1 # c2 # _ \<Rightarrow>
           if in_range (if ascii_val c = 0xE0 then 0xA0 else 0x80) (if ascii_val c = 0xED then 0x9F else 0xBF) c1
              \<and> in_range 0x80 0xBF c2 then Some 3 else None | _ \<Rightarrow> None)
      else if in_range 0xF0 0xF4 c then
        (case cs of c1 # c2 # c3 # _ \<Rightarrow>
           if in_range (if ascii_val c = 0xF0 then 0x90 else 0x80) (if ascii_val c = 0xF4 then 0x8F else 0xBF) c1
              \<and> in_range 0x80 0xBF c2 \<and> in_range 0x80 0xBF c3 then Some 4 else None | _ \<Rightarrow> None)
      else None)"

definition byte :: "nat \<Rightarrow> char" where
  "byte n = char_of n"

definition replacement :: string where
  "replacement = [CHR 0xEF, CHR 0xBF, CHR 0xBD]"

declare rune_len.simps [simp del]

text \<open>\<open>utf8.EncodeRune\<close>.\<close>

definition encode_rune :: "nat \<Rightarrow> string" where
  "encode_rune r =
     (if r < 0x80 then [byte r]
      else if r < 0x800 then [byte (0xC0 + r div 64), byte (0x80 + r mod 64)]
      else if r > 0x10FFFF \<or> 0xD800 \<le> r \<and> r \<le> 0xDFFF then replacement
      else if r < 0x10000 then [byte (0xE0 + r div 4096), byte (0x80 + r div 64 mod 64), byte (0x80 + r mod 64)]
      else [byte (0xF0 + r div 262144), byte (0x80 + r div 4096 mod 64), byte (0x80 + r div 64 mod 64),
            byte (0x80 + r mod 64)])"

text \<open>Well-formed strings are sequences of encoded runes.\<close>

inductive utf8 :: "string \<Rightarrow> bool" where
  utf8_Nil: "utf8 []"
| utf8_rune: "rune_len s = Some (length s) \<Longrightarrow> utf8 t \<Longrightarrow> utf8 (s @ t)"

lemma rune_len_bounds: "rune_len s = Some n \<Longrightarrow> 1 \<le> n \<and> n \<le> 4 \<and> n \<le> length s"
  by (cases s) (auto simp: rune_len.simps split: if_splits list.splits)

lemma rune_len_take: "rune_len s = Some n \<Longrightarrow> rune_len (take n s) = Some n"
  by (cases s) (auto simp: rune_len.simps split: if_splits list.splits)

lemma rune_len_append: "rune_len s = Some n \<Longrightarrow> rune_len (s @ t) = Some n"
  by (cases s) (auto simp: rune_len.simps split: if_splits list.splits)

lemma rune_high:
  assumes "rune_len (c # cs) = Some (length (c # cs))" and "d \<in> set cs"
  shows "127 < ascii_val c \<and> 127 < ascii_val d"
  using assms by (auto simp: rune_len.simps split: if_splits list.splits)

lemma utf8_single: "rune_len s = Some (length s) \<Longrightarrow> utf8 s"
  using utf8_rune [OF _ utf8_Nil] by simp

lemma utf8_append: "utf8 s \<Longrightarrow> utf8 t \<Longrightarrow> utf8 (s @ t)"
  by (induction rule: utf8.induct) (auto intro: utf8_rune)

lemma ascii_byte [simp]: "n < 256 \<Longrightarrow> ascii_val (byte n) = n"
  by (simp add: ascii_val_def byte_def)

lemma rune_len_ascii: "ascii_val c < 128 \<Longrightarrow> rune_len (c # cs) = Some 1"
  by (simp add: rune_len.simps)

lemma replacement_utf8: "utf8 replacement"
  by (rule utf8_single) (simp add: replacement_def ascii_val_def rune_len.simps)

lemma encode_rune_utf8: "utf8 (encode_rune r)"
proof -
  define a b c e f g where "a = r div 64" and "b = r mod 64" and "c = a mod 64" and "e = a div 64"
    and "f = e mod 64" and "g = e div 64"
  have r: "r = 64 * a + b" "a = 64 * e + c" "e = 64 * g + f" and lt: "b < 64" "c < 64" "f < 64"
    by (simp_all add: a_def b_def c_def e_def f_def g_def)
  have "r div 4096 = e" "r div 262144 = g"
    using div_mult2_eq [of r 64 64] div_mult2_eq [of r 64 4096] div_mult2_eq [of a 64 64]
    by (simp_all add: a_def e_def g_def)
  then have form: "encode_rune r =
     (if r < 0x80 then [byte r]
      else if r < 0x800 then [byte (0xC0 + a), byte (0x80 + b)]
      else if r > 0x10FFFF \<or> 0xD800 \<le> r \<and> r \<le> 0xDFFF then replacement
      else if r < 0x10000 then [byte (0xE0 + e), byte (0x80 + c), byte (0x80 + b)]
      else [byte (0xF0 + g), byte (0x80 + f), byte (0x80 + c), byte (0x80 + b)])"
    by (simp add: encode_rune_def a_def b_def c_def f_def)
  consider "r < 0x80" | "0x80 \<le> r" "r < 0x800" | "r > 0x10FFFF \<or> 0xD800 \<le> r \<and> r \<le> 0xDFFF"
    | "0x800 \<le> r" "r < 0x10000" "\<not> (0xD800 \<le> r \<and> r \<le> 0xDFFF)" | "0x10000 \<le> r" "r \<le> 0x10FFFF" by linarith
  then show ?thesis
  proof cases
    case 2
    with r lt have "2 \<le> a" "a < 32" by auto
    with 2 lt show ?thesis by (auto simp: form rune_len.simps intro!: utf8_single)
  next
    case 3
    then show ?thesis by (auto simp: form replacement_utf8)
  next
    case 4
    with r(1,2) lt have "e < 16" "e = 0 \<longrightarrow> 32 \<le> c" "e = 13 \<longrightarrow> c < 32" by auto
    with 4 lt show ?thesis by (auto simp: form rune_len.simps intro!: utf8_single)
  next
    case 5
    with r lt have "g \<le> 4" "g = 0 \<longrightarrow> 16 \<le> f" "g = 4 \<longrightarrow> f < 16" by auto
    with 5 lt show ?thesis by (auto simp: form rune_len.simps intro!: utf8_single)
  qed (simp add: form rune_len.simps utf8_single)
qed

section \<open>Strings\<close>

abbreviation is_hex :: "char \<Rightarrow> bool" where
  "is_hex c \<equiv> digit_of 16 c \<noteq> None"

definition hex_value :: "string \<Rightarrow> nat" where
  "hex_value s = foldl (\<lambda>a c. 16 * a + (case digit_of 16 c of Some d \<Rightarrow> d | None \<Rightarrow> 0)) 0 s"

text \<open>The body of a string literal after its opening quote, as it stands, and what follows the closing one.\<close>

function lex_string :: "string \<Rightarrow> (string \<times> string) option" where
  "lex_string s =
     (case s of
        [] \<Rightarrow> None
      | c # cs \<Rightarrow>
          if c = dquote then Some ([], cs)
          else if c = backslash then
            (case cs of
               [] \<Rightarrow> None
             | e # es \<Rightarrow>
                 if e \<in> set ''bfnrt/'' \<or> e = backslash \<or> e = dquote
                 then map_option (\<lambda>(b, r). (c # e # b, r)) (lex_string es)
                 else if e = CHR ''u'' \<and> 4 \<le> length es \<and> list_all is_hex (take 4 es)
                 then map_option (\<lambda>(b, r). (c # e # take 4 es @ b, r)) (lex_string (drop 4 es))
                 else None)
          else if ascii_val c < 32 then None
          else map_option (\<lambda>(b, r). (c # b, r)) (lex_string cs))"
  by pat_completeness auto
termination by (relation "measure length") auto

declare lex_string.simps [simp del]

text \<open>\<open>getu4\<close>: the value of a \<open>\uXXXX\<close> escape at the start.\<close>

definition getu4 :: "string \<Rightarrow> nat option" where
  "getu4 s =
     (if length s < 6 \<or> s ! 0 \<noteq> backslash \<or> s ! 1 \<noteq> CHR ''u'' \<or> \<not> list_all is_hex (take 4 (drop 2 s)) then None
      else Some (hex_value (take 4 (drop 2 s))))"

text \<open>\<open>utf16.DecodeRune\<close> of a pair; \<^const>\<open>None\<close> is the replacement character.\<close>

definition decode_pair :: "nat \<Rightarrow> nat option \<Rightarrow> nat option" where
  "decode_pair hi lo =
     (case lo of
        None \<Rightarrow> None
      | Some l \<Rightarrow> if 0xD800 \<le> hi \<and> hi < 0xDC00 \<and> 0xDC00 \<le> l \<and> l < 0xE000
                 then Some ((hi - 0xD800) * 1024 + (l - 0xDC00) + 0x10000) else None)"

definition simple_escape :: "char \<Rightarrow> char" where
  "simple_escape e =
     (if e = CHR ''b'' then CHR 0x08 else if e = CHR ''f'' then CHR 0x0C else if e = CHR ''n'' then nl
      else if e = CHR ''r'' then cr else if e = CHR ''t'' then tab else e)"

function unquote :: "string \<Rightarrow> string" where
  "unquote s =
     (case s of
        [] \<Rightarrow> []
      | c # cs \<Rightarrow>
          if c = backslash then
            (case getu4 s of
               Some r \<Rightarrow>
                 if 0xD800 \<le> r \<and> r < 0xE000 then
                   (case decode_pair r (getu4 (drop 6 s)) of
                      Some p \<Rightarrow> encode_rune p @ unquote (drop 12 s)
                    | None \<Rightarrow> replacement @ unquote (drop 6 s))
                 else encode_rune r @ unquote (drop 6 s)
             | None \<Rightarrow> (case cs of [] \<Rightarrow> [] | e # es \<Rightarrow> simple_escape e # unquote es))
          else (case rune_len s of
                  Some n \<Rightarrow> take n s @ unquote (drop n s)
                | None \<Rightarrow> replacement @ unquote cs))"
  by pat_completeness auto
termination
  by (relation "measure length") (auto dest: rune_len_bounds)

declare unquote.simps [simp del]

lemma lex_string_shorter: "lex_string s = Some (b, r) \<Longrightarrow> length r < length s"
proof (induction "length s" arbitrary: s b r rule: less_induct)
  case less
  have IH: "lex_string t = Some (b', r') \<Longrightarrow> length t < length s \<Longrightarrow> length r' < length s" for t b' r'
    using less.hyps [of t b' r'] by simp
  from less.prems show ?case
    by (subst (asm) lex_string.simps) (auto split: list.splits if_splits dest: IH)
qed

lemma unquote_rune: "rune_len s = Some n \<Longrightarrow> s \<noteq> [] \<Longrightarrow> hd s \<noteq> backslash \<Longrightarrow> unquote s = take n s @ unquote (drop n s)"
  by (subst unquote.simps) (auto split: list.splits)

lemma unquote_Nil [simp]: "unquote [] = []"
  by (subst unquote.simps) simp

text \<open>The bodies of string literals, as the scanner accepts them.\<close>

inductive str_body :: "string \<Rightarrow> bool" where
  body_Nil: "str_body []"
| body_plain: "c \<noteq> dquote \<Longrightarrow> c \<noteq> backslash \<Longrightarrow> 32 \<le> ascii_val c \<Longrightarrow> str_body b \<Longrightarrow> str_body (c # b)"
| body_escape: "e \<in> set ''bfnrt/'' \<or> e = backslash \<or> e = dquote \<Longrightarrow> str_body b \<Longrightarrow> str_body (backslash # e # b)"
| body_unicode: "length h = 4 \<Longrightarrow> list_all is_hex h \<Longrightarrow> str_body b \<Longrightarrow> str_body (backslash # CHR ''u'' # h @ b)"

lemma lex_string_body: "lex_string s = Some (b, r) \<Longrightarrow> str_body b \<and> s = b @ dquote # r"
proof (induction "length s" arbitrary: s b r rule: less_induct)
  case less
  have IH: "lex_string t = Some (b', r') \<Longrightarrow> length t < length s \<Longrightarrow> str_body b' \<and> t = b' @ dquote # r'" for t b' r'
    using less.hyps [of t b' r'] by simp
  show ?case
  proof (cases s)
    case Nil
    with less.prems show ?thesis by (subst (asm) lex_string.simps) simp
  next
    case (Cons c cs)
    consider "c = dquote" | "c = backslash" | "c \<noteq> dquote" "c \<noteq> backslash" by blast
    then show ?thesis
    proof cases
      case 1
      with less.prems Cons show ?thesis by (subst (asm) lex_string.simps) (auto intro: body_Nil)
    next
      case 2
      with less.prems Cons obtain e es where es: "cs = e # es"
        by (subst (asm) lex_string.simps) (auto split: list.splits)
      show ?thesis
      proof (cases "e \<in> set ''bfnrt/'' \<or> e = backslash \<or> e = dquote")
        case True
        with less.prems Cons 2 es obtain b' where "lex_string es = Some (b', r)" "b = c # e # b'"
          by (subst (asm) lex_string.simps) auto
        with IH [of es b' r] True Cons 2 es show ?thesis by (auto intro: body_escape)
      next
        case False
        with less.prems Cons 2 es obtain b' where b': "lex_string (drop 4 es) = Some (b', r)" "b = c # e # take 4 es @ b'"
            and u: "e = CHR ''u''" "4 \<le> length es" "list_all is_hex (take 4 es)"
          by (subst (asm) lex_string.simps) (auto split: if_splits)
        with IH [of "drop 4 es" b' r] Cons es have "str_body b'" "drop 4 es = b' @ dquote # r" by auto
        moreover from this have "es = take 4 es @ b' @ dquote # r" by (metis append_take_drop_id)
        ultimately show ?thesis using body_unicode [of "take 4 es" b'] u b' Cons 2 es by auto
      qed
    next
      case 3
      with less.prems Cons obtain b' where "lex_string cs = Some (b', r)" "b = c # b'" "32 \<le> ascii_val c"
        by (subst (asm) lex_string.simps) (auto split: if_splits)
      with IH [of cs b' r] Cons 3 show ?thesis by (auto intro: body_plain)
    qed
  qed
qed

lemma lex_string_accepts: "str_body b \<Longrightarrow> lex_string (b @ dquote # r) = Some (b, r)"
proof (induction rule: str_body.induct)
  case body_Nil
  show ?case by (subst lex_string.simps) simp
next
  case (body_plain c b)
  then show ?case by (subst lex_string.simps) simp
next
  case (body_escape e b)
  then show ?case by (subst lex_string.simps) auto
next
  case (body_unicode h b)
  then show ?case by (subst lex_string.simps) auto
qed

lemma str_body_backslash:
  assumes "str_body (backslash # b)"
  obtains (simple) e t where "b = e # t" "e \<in> set ''bfnrt/'' \<or> e = backslash \<or> e = dquote" "str_body t"
  | (unicode) h t where "b = CHR ''u'' # h @ t" "length h = 4" "list_all is_hex h" "str_body t"
  using assms by (cases rule: str_body.cases) blast+

lemma str_body_tl: "str_body (c # b) \<Longrightarrow> c \<noteq> backslash \<Longrightarrow> str_body b"
  by (cases rule: str_body.cases) auto

lemma str_body_drop: "str_body b \<Longrightarrow> backslash \<notin> set (take n b) \<Longrightarrow> str_body (drop n b)"
proof (induction n arbitrary: b)
  case (Suc n)
  then show ?case by (cases b) (auto dest: str_body_tl)
qed simp

lemma getu4_unicode: "length h = 4 \<Longrightarrow> list_all is_hex h \<Longrightarrow> getu4 (backslash # CHR ''u'' # h @ t) = Some (hex_value h)"
  by (simp add: getu4_def)

lemma simple_escape_ascii:
  "e \<in> set ''bfnrt/'' \<or> e = backslash \<or> e = dquote \<Longrightarrow> ascii_val (simple_escape e) < 128"
proof -
  have "list_all (\<lambda>e. ascii_val (simple_escape e) < 128) (''bfnrt/'' @ [backslash, dquote])" by code_simp
  then show "e \<in> set ''bfnrt/'' \<or> e = backslash \<or> e = dquote \<Longrightarrow> ascii_val (simple_escape e) < 128"
    by (auto simp only: list_all_iff set_append set_simps)
qed

lemma getu4_body:
  assumes "str_body b" and "getu4 b = Some r"
  shows "str_body (drop 6 b)"
proof -
  from assms(2) obtain b' where b: "b = backslash # CHR ''u'' # b'"
    by (cases b; cases "tl b") (simp_all add: getu4_def split: if_split_asm)
  with assms(1) have "str_body (backslash # CHR ''u'' # b')" by simp
  then show ?thesis
  proof (cases rule: str_body_backslash)
    case (unicode h t)
    with b show ?thesis by simp
  qed auto
qed

lemma unquote_utf8: "str_body b \<Longrightarrow> utf8 (unquote b)"
proof (induction "length b" arbitrary: b rule: less_induct)
  case less
  have IH: "str_body t \<Longrightarrow> length t < length b \<Longrightarrow> utf8 (unquote t)" for t using less.hyps by simp
  show ?case
  proof (cases b)
    case (Cons c cs)
    show ?thesis
    proof (cases "c = backslash")
      case True
      show ?thesis
      proof (cases "getu4 b")
        case None
        from less.prems Cons True have "str_body (backslash # cs)" by simp
        then obtain e es where e: "cs = e # es" "str_body es" "ascii_val (simple_escape e) < 128"
        proof (cases rule: str_body_backslash)
          case (simple e es)
          with simple_escape_ascii that show thesis by blast
        next
          case (unicode h es)
          with None Cons True getu4_unicode [of h es] show thesis by simp
        qed
        with None Cons True have "unquote b = [simple_escape e] @ unquote es" by (subst unquote.simps) simp
        moreover have "utf8 [simple_escape e]" using e(3) by (intro utf8_single) (simp add: rune_len_ascii)
        ultimately show ?thesis using e IH [of es] Cons by (metis utf8_append length_Cons lessI less_Suc_eq)
      next
        case (Some r)
        have d6: "str_body (drop 6 b)" using getu4_body [OF less.prems Some] .
        have len: "6 \<le> length b" using Some by (auto simp: getu4_def split: if_splits)
        have u6: "utf8 (unquote (drop 6 b))" using IH [OF d6] len by simp
        show ?thesis
        proof (cases "0xD800 \<le> r \<and> r < 0xE000 \<and> decode_pair r (getu4 (drop 6 b)) \<noteq> None")
          case True
          then obtain l p where "getu4 (drop 6 b) = Some l" "decode_pair r (Some l) = Some p"
            by (auto simp: decode_pair_def split: option.splits if_splits)
          moreover from this have "str_body (drop 6 (drop 6 b))" using getu4_body [OF d6] by blast
          then have "utf8 (unquote (drop 12 b))" using IH [of "drop 12 b"] len by simp
          ultimately show ?thesis using Some Cons \<open>c = backslash\<close> True
            by (subst unquote.simps) (auto intro!: utf8_append encode_rune_utf8)
        next
          case False
          with Some Cons \<open>c = backslash\<close> u6 show ?thesis
            by (subst unquote.simps) (auto intro!: utf8_append encode_rune_utf8 replacement_utf8)
        qed
      qed
    next
      case False
      show ?thesis
      proof (cases "rune_len b")
        case None
        have "str_body cs" using less.prems Cons False by (auto dest: str_body_tl)
        with None Cons False IH [of cs] show ?thesis
          by (subst unquote.simps) (auto intro!: utf8_append replacement_utf8)
      next
        case (Some n)
        have n: "1 \<le> n" "n \<le> length b" using rune_len_bounds [OF Some] by auto
        have "rune_len (take n b) = Some (length (take n b))" using rune_len_take [OF Some] n by simp
        moreover from this have "backslash \<notin> set (take n b)"
          using rune_high [of c "take (n - 1) cs" backslash] Cons False n by (cases n) (auto simp: ascii_val_def)
        then have "str_body (drop n b)" using str_body_drop less.prems by blast
        then have "utf8 (unquote (drop n b))" using IH [of "drop n b"] n Cons by simp
        ultimately show ?thesis using unquote_rune [OF Some] Cons False by (auto intro: utf8_rune)
      qed
    qed
  qed (auto intro: utf8_Nil)
qed

section \<open>Numbers\<close>

text \<open>The states of the scanner inside a number, named as in \<open>scanner.go\<close>.\<close>

datatype num_state = stateNeg | state0 | state1 | stateDot | stateDot0 | stateE | stateESign | stateE0

fun num_next :: "num_state \<Rightarrow> char \<Rightarrow> num_state option" where
  "num_next stateNeg c = (if c = CHR ''0'' then Some state0 else if is_digit_char c then Some state1 else None)"
| "num_next state1 c =
     (if is_digit_char c then Some state1
      else if c = CHR ''.'' then Some stateDot
      else if c = CHR ''e'' \<or> c = CHR ''E'' then Some stateE else None)"
| "num_next state0 c =
     (if c = CHR ''.'' then Some stateDot else if c = CHR ''e'' \<or> c = CHR ''E'' then Some stateE else None)"
| "num_next stateDot c = (if is_digit_char c then Some stateDot0 else None)"
| "num_next stateDot0 c =
     (if is_digit_char c then Some stateDot0
      else if c = CHR ''e'' \<or> c = CHR ''E'' then Some stateE else None)"
| "num_next stateE c =
     (if c = CHR ''+'' \<or> c = CHR ''-'' then Some stateESign else if is_digit_char c then Some stateE0 else None)"
| "num_next stateESign c = (if is_digit_char c then Some stateE0 else None)"
| "num_next stateE0 c = (if is_digit_char c then Some stateE0 else None)"

definition num_complete :: "num_state \<Rightarrow> bool" where
  "num_complete st \<longleftrightarrow> st \<in> {state0, state1, stateDot0, stateE0}"

text \<open>The longest number from a state on: at a byte that does not continue it, it must be complete.\<close>

fun lex_number :: "num_state \<Rightarrow> string \<Rightarrow> (string \<times> string) option" where
  "lex_number st [] = (if num_complete st then Some ([], []) else None)"
| "lex_number st (c # cs) =
     (case num_next st c of
        Some st' \<Rightarrow> map_option (\<lambda>(n, r). (c # n, r)) (lex_number st' cs)
      | None \<Rightarrow> if num_complete st then Some ([], c # cs) else None)"

definition number_start :: "char \<Rightarrow> num_state option" where
  "number_start c =
     (if c = CHR ''-'' then Some stateNeg else if c = CHR ''0'' then Some state0
      else if is_digit_char c then Some state1 else None)"

lemma lex_number_split: "lex_number st s = Some (n, r) \<Longrightarrow> s = n @ r"
  by (induction st s arbitrary: n r rule: lex_number.induct) (auto split: option.splits if_splits)

section \<open>The token stream of a decoder\<close>

datatype token_state = tokenTopValue | tokenArrayStart | tokenArrayValue | tokenArrayComma | tokenObjectStart
  | tokenObjectKey | tokenObjectColon | tokenObjectValue | tokenObjectComma

datatype token = Delim char | Str_token string | Number_token string | Bool_token bool | Nil_token

record decoder =
  dec_rest :: string
  dec_state :: token_state
  dec_stack :: "token_state list"

definition new_decoder :: "string \<Rightarrow> decoder" where
  "new_decoder raw = \<lparr>dec_rest = raw, dec_state = tokenTopValue, dec_stack = []\<rparr>"

definition tokenValueAllowed :: "token_state \<Rightarrow> bool" where
  "tokenValueAllowed st \<longleftrightarrow> st \<in> {tokenTopValue, tokenArrayStart, tokenArrayValue, tokenObjectValue}"

definition tokenValueEnd :: "token_state \<Rightarrow> token_state" where
  "tokenValueEnd st =
     (if st = tokenArrayStart \<or> st = tokenArrayValue then tokenArrayComma
      else if st = tokenObjectValue then tokenObjectComma else st)"

definition json_space :: "char \<Rightarrow> bool" where
  "json_space c \<longleftrightarrow> c = CHR '' '' \<or> c = tab \<or> c = nl \<or> c = cr"

abbreviation skip_space :: "string \<Rightarrow> string" where
  "skip_space \<equiv> dropWhile json_space"

lemma skip_shorter: "skip_space s = c # cs \<Longrightarrow> length cs < length s"
  using length_dropWhile_le [of json_space s] by simp

text \<open>\<open>Decode\<close> of a scalar into an \<open>any\<close>, numbers as \<open>json.Number\<close>.\<close>

definition scalar :: "string \<Rightarrow> (token \<times> string) option" where
  "scalar s =
     (case s of
        [] \<Rightarrow> None
      | c # cs \<Rightarrow>
          if c = dquote then map_option (\<lambda>(b, r). (Str_token (unquote b), r)) (lex_string cs)
          else if has_prefix s ''true'' then Some (Bool_token True, drop 4 s)
          else if has_prefix s ''false'' then Some (Bool_token False, drop 5 s)
          else if has_prefix s ''null'' then Some (Nil_token, drop 4 s)
          else (case number_start c of
                  Some st \<Rightarrow> map_option (\<lambda>(n, r). (Number_token (c # n), r)) (lex_number st cs)
                | None \<Rightarrow> None))"

definition close_token :: "token_state list \<Rightarrow> string \<Rightarrow> decoder" where
  "close_token stack rest = \<lparr>dec_rest = rest, dec_state = tokenValueEnd (hd stack), dec_stack = tl stack\<rparr>"

text \<open>\<open>Decoder.Token\<close>; an error and the end of the input are \<^const>\<open>None\<close>.\<close>

function next_token :: "decoder \<Rightarrow> (token \<times> decoder) option" where
  "next_token d =
     (let st = dec_state d; stack = dec_stack d
      in case skip_space (dec_rest d) of
           [] \<Rightarrow> None
         | c # cs \<Rightarrow>
             if c = CHR ''['' then
               if tokenValueAllowed st
               then Some (Delim c, \<lparr>dec_rest = cs, dec_state = tokenArrayStart, dec_stack = st # stack\<rparr>) else None
             else if c = CHR '']'' then
               if st = tokenArrayStart \<or> st = tokenArrayComma
               then Some (Delim c, close_token stack cs) else None
             else if c = CHR ''{'' then
               if tokenValueAllowed st
               then Some (Delim c, \<lparr>dec_rest = cs, dec_state = tokenObjectStart, dec_stack = st # stack\<rparr>) else None
             else if c = CHR ''}'' then
               if st = tokenObjectStart \<or> st = tokenObjectComma
               then Some (Delim c, close_token stack cs) else None
             else if c = CHR '':'' then
               if st = tokenObjectColon
               then next_token (d\<lparr>dec_rest := cs, dec_state := tokenObjectValue\<rparr>) else None
             else if c = CHR '','' then
               if st = tokenArrayComma then next_token (d\<lparr>dec_rest := cs, dec_state := tokenArrayValue\<rparr>)
               else if st = tokenObjectComma then next_token (d\<lparr>dec_rest := cs, dec_state := tokenObjectKey\<rparr>)
               else None
             else if c = dquote \<and> (st = tokenObjectStart \<or> st = tokenObjectKey) then
               map_option (\<lambda>(b, r). (Str_token (unquote b), d\<lparr>dec_rest := r, dec_state := tokenObjectColon\<rparr>))
                 (lex_string cs)
             else if tokenValueAllowed st then
               map_option (\<lambda>(t, r). (t, d\<lparr>dec_rest := r, dec_state := tokenValueEnd st\<rparr>)) (scalar (c # cs))
             else None)"
  by pat_completeness auto
termination
  by (relation "measure (\<lambda>d. length (dec_rest d))") (auto dest: skip_shorter)

declare next_token.simps [simp del]

text \<open>\<open>Decoder.More\<close>.\<close>

definition more_tokens :: "decoder \<Rightarrow> bool" where
  "more_tokens d \<longleftrightarrow> (case skip_space (dec_rest d) of [] \<Rightarrow> False | c # _ \<Rightarrow> c \<noteq> CHR '']'' \<and> c \<noteq> CHR ''}'')"

lemma scalar_shorter: "scalar s = Some (t, r) \<Longrightarrow> length r < length s"
  by (auto simp: scalar_def dest!: lex_string_shorter lex_number_split split: list.splits if_splits option.splits)

lemma next_token_shorter: "next_token d = Some (t, d') \<Longrightarrow> length (dec_rest d') < length (dec_rest d)"
proof (induction "length (dec_rest d)" arbitrary: d t d' rule: less_induct)
  case less
  have IH: "next_token e = Some (u, e') \<Longrightarrow> length (dec_rest e) < length (dec_rest d)
      \<Longrightarrow> length (dec_rest e') < length (dec_rest d)" for e u e'
    using less.hyps [of e u e'] by simp
  show ?case
  proof (cases "skip_space (dec_rest d)")
    case Nil
    with less.prems show ?thesis by (subst (asm) next_token.simps) simp
  next
    case (Cons c cs)
    with less.prems skip_shorter [OF Cons] show ?thesis
      by (subst (asm) next_token.simps)
        (auto simp: close_token_def Let_def split: if_splits dest!: lex_string_shorter scalar_shorter dest: IH)
  qed
qed

end
