(* ===== verification/JsCanon.thy ===== *)
theory JsCanon
  imports GoJson "HOL-Library.AList" "HOL-Library.List_Lexorder" "HOL-Library.Char_ord"
begin

text \<open>
  \<open>internal/jscanon/jscanon.go\<close>: JSON text as JavaScript's \<open>JSON.stringify\<close> prints it, over which
  the messages of the hub protocol are signed. The functions append to a buffer that they do not read;
  the model returns the text they append, or \<^const>\<open>None\<close> for an error.
\<close>

section \<open>Values\<close>

text \<open>
  The kinds of values \<open>Append\<close> and \<open>appendReflect\<close> tell apart. Every integer type is \<open>J_int\<close>, every
  slice but \<open>[]byte\<close> is \<open>J_list\<close>; a map lists its entries in some order; \<open>J_unsupported\<close> is any
  value of another type.
\<close>

datatype jval =
    J_nil
  | J_bool bool
  | J_str string
  | J_float float64
  | J_int int
  | J_number string
  | J_raw string
  | J_obj "(string \<times> jval) list"
  | J_map "(string \<times> jval) list"
  | J_list "jval list"
  | J_unsupported

section \<open>Decoding\<close>

function decodeTree :: "decoder \<Rightarrow> (jval \<times> decoder) option"
  and decodeTreeToken :: "decoder \<Rightarrow> token \<Rightarrow> (jval \<times> decoder) option"
  and decode_members :: "decoder \<Rightarrow> (string \<times> jval) list \<Rightarrow> (jval \<times> decoder) option"
  and decode_elements :: "decoder \<Rightarrow> jval list \<Rightarrow> (jval \<times> decoder) option" where
  "decodeTree d = (case next_token d of None \<Rightarrow> None | Some (tok, d1) \<Rightarrow> decodeTreeToken d1 tok)"
| "decodeTreeToken d tok =
     (case tok of
        Delim c \<Rightarrow>
          if c = CHR ''{'' then decode_members d []
          else if c = CHR ''['' then decode_elements d []
          else None
      | Str_token s \<Rightarrow> Some (J_str s, d)
      | Number_token s \<Rightarrow> Some (J_number s, d)
      | Bool_token b \<Rightarrow> Some (J_bool b, d)
      | Nil_token \<Rightarrow> Some (J_nil, d))"
| "decode_members d obj =
     (if more_tokens d then
        (case next_token d of
           Some (Str_token key, d1) \<Rightarrow>
             (case decodeTree d1 of
                None \<Rightarrow> None
              | Some (val, d2) \<Rightarrow> decode_members d2 (AList.update key val obj))
         | _ \<Rightarrow> None)
      else (case next_token d of None \<Rightarrow> None | Some (_, d1) \<Rightarrow> Some (J_obj obj, d1)))"
| "decode_elements d list =
     (if more_tokens d then
        (case decodeTree d of
           None \<Rightarrow> None
         | Some (val, d1) \<Rightarrow> decode_elements d1 (list @ [val]))
      else (case next_token d of None \<Rightarrow> None | Some (_, d1) \<Rightarrow> Some (J_list list, d1)))"
  by pat_completeness auto

text \<open>The loops continue from where the value before them ended; every value takes up input.\<close>

lemma decode_shorter_partial:
  "decodeTree_decodeTreeToken_decode_members_decode_elements_dom (Inl (Inl d)) \<Longrightarrow>
     \<forall>v d'. decodeTree d = Some (v, d') \<longrightarrow> length (dec_rest d') < length (dec_rest d)"
  "decodeTree_decodeTreeToken_decode_members_decode_elements_dom (Inl (Inr (d, tok))) \<Longrightarrow>
     \<forall>v d'. decodeTreeToken d tok = Some (v, d') \<longrightarrow> length (dec_rest d') \<le> length (dec_rest d)"
  "decodeTree_decodeTreeToken_decode_members_decode_elements_dom (Inr (Inl (d, obj))) \<Longrightarrow>
     \<forall>v d'. decode_members d obj = Some (v, d') \<longrightarrow> length (dec_rest d') \<le> length (dec_rest d)"
  "decodeTree_decodeTreeToken_decode_members_decode_elements_dom (Inr (Inr (d, list))) \<Longrightarrow>
     \<forall>v d'. decode_elements d list = Some (v, d') \<longrightarrow> length (dec_rest d') \<le> length (dec_rest d)"
proof (induction d and d tok and d obj and d list
    rule: decodeTree_decodeTreeToken_decode_members_decode_elements.pinduct)
  case (1 d)
  show ?case
  proof (cases "next_token d")
    case (Some p)
    with 1 next_token_shorter [of d "fst p" "snd p"] show ?thesis
      by (cases p) (fastforce simp: decodeTree.psimps)
  qed (use 1 in \<open>simp add: decodeTree.psimps\<close>)
next
  case (2 d tok)
  then show ?case
    by (auto simp: decodeTreeToken.psimps split: token.splits if_splits)
next
  case (3 d obj)
  then show ?case
    by (fastforce simp: decode_members.psimps dest: next_token_shorter split: option.splits prod.splits token.splits if_splits)
next
  case (4 d list)
  then show ?case
    by (fastforce simp: decode_elements.psimps dest: next_token_shorter split: option.splits prod.splits if_splits)
qed

termination decodeTree
  by (relation "measure (case_sum (case_sum (\<lambda>d. 3 * length (dec_rest d)) (\<lambda>(d, _). 3 * length (dec_rest d) + 2))
        (case_sum (\<lambda>(d, _). 3 * length (dec_rest d) + 1) (\<lambda>(d, _). 3 * length (dec_rest d) + 1)))")
    (auto dest!: next_token_shorter dest: decode_shorter_partial [rule_format])

lemmas decode_simps = decodeTree.simps decodeTreeToken.simps decode_members.simps decode_elements.simps
declare decode_simps [simp del]

text \<open>\<open>appendRaw\<close> up to the printing: one value, and no token after it.\<close>

definition decode_raw :: "string \<Rightarrow> jval option" where
  "decode_raw raw =
     (case decodeTree (new_decoder raw) of
        None \<Rightarrow> None
      | Some (tree, d) \<Rightarrow> if more_tokens d then None else Some tree)"

section \<open>Printing numbers\<close>

text \<open>\<open>strings.Cut\<close> at a byte, and \<open>strings.Replace(s, ".", "", 1)\<close>.\<close>

definition cut_byte :: "char \<Rightarrow> string \<Rightarrow> string \<times> string" where
  "cut_byte c s = (case index_byte c s of None \<Rightarrow> (s, []) | Some i \<Rightarrow> (take i s, drop (Suc i) s))"

definition delete_first :: "char \<Rightarrow> string \<Rightarrow> string" where
  "delete_first c s = remove1 c s"

text \<open>The layout of the shortest digits by the decimal point position \<open>n\<close>.\<close>

definition number_layout :: "string \<Rightarrow> int \<Rightarrow> string" where
  "number_layout digits n =
     (let k = int (length digits)
      in if k \<le> n \<and> n \<le> 21 then digits @ replicate (nat (n - k)) (CHR ''0'')
         else if 0 < n \<and> n \<le> 21 then take (nat n) digits @ ''.'' @ drop (nat n) digits
         else if - 6 < n \<and> n \<le> 0 then ''0.'' @ replicate (nat (- n)) (CHR ''0'') @ digits
         else
           let sign = (if n - 1 < 0 then ''-'' else ''+''); e = (if n - 1 < 0 then - (n - 1) else n - 1)
           in if k = 1 then digits @ ''e'' @ sign @ itoa e
              else take 1 digits @ ''.'' @ drop 1 digits @ ''e'' @ sign @ itoa e)"

definition NumberToString :: "rat \<Rightarrow> string" where
  "NumberToString f =
     (if f = 0 then ''0''
      else
        let (mantissa, expPart) = cut_byte (CHR ''e'') (format_e \<bar>f\<bar>);
            exp10 = parse_int64_lax expPart;
            digits = delete_first (CHR ''.'') mantissa;
            out = number_layout digits (exp10 + 1)
        in if f < 0 then ''-'' @ out else out)"

definition appendNumber :: "float64 \<Rightarrow> string" where
  "appendNumber f = (case f of Fin r \<Rightarrow> NumberToString r | _ \<Rightarrow> ''null'')"

section \<open>Printing strings\<close>

definition hex_digit :: "nat \<Rightarrow> char" where
  "hex_digit d = ''0123456789abcdef'' ! d"

definition escape_char :: "char \<Rightarrow> string" where
  "escape_char b =
     (if 32 \<le> ascii_val b \<and> b \<noteq> dquote \<and> b \<noteq> backslash then [b]
      else if b = dquote then [backslash, dquote]
      else if b = backslash then [backslash, backslash]
      else if b = CHR 0x08 then [backslash, CHR ''b'']
      else if b = tab then [backslash, CHR ''t'']
      else if b = nl then [backslash, CHR ''n'']
      else if b = CHR 0x0C then [backslash, CHR ''f'']
      else if b = cr then [backslash, CHR ''r'']
      else [backslash, CHR ''u'', CHR ''0'', CHR ''0'', hex_digit (ascii_val b div 16), hex_digit (ascii_val b mod 16)])"

definition appendString :: "string \<Rightarrow> string" where
  "appendString s = [dquote] @ concat (map escape_char s) @ [dquote]"

section \<open>Printing values\<close>

definition isArrayIndex :: "string \<Rightarrow> bool" where
  "isArrayIndex key \<longleftrightarrow>
     (if key = [] \<or> 10 < length key then False
      else if key = ''0'' then True
      else if hd key = CHR ''0'' then False
      else list_all is_digit_char key \<and> int (digits_value key) < 4294967295)"

text \<open>Index keys first, in ascending order, then the others as they came.\<close>

definition order_fields :: "(string \<times> 'a) list \<Rightarrow> (string \<times> 'a) list" where
  "order_fields obj =
     sort_key (\<lambda>f. digits_value (fst f)) (filter (\<lambda>f. isArrayIndex (fst f)) obj)
     @ filter (\<lambda>f. \<not> isArrayIndex (fst f)) obj"

definition object_text :: "(string \<times> string option) list \<Rightarrow> string option" where
  "object_text fs =
     map_option (\<lambda>ts. ''{'' @ join_str ts '','' @ ''}'')
       (those (map (\<lambda>(k, t). map_option (\<lambda>t. appendString k @ '':'' @ t) t) fs))"

definition array_text :: "string option list \<Rightarrow> string option" where
  "array_text ts = map_option (\<lambda>ts. ''['' @ join_str ts '','' @ '']'') (those ts)"

fun raws :: "jval \<Rightarrow> nat" where
  "raws (J_raw r) = 1"
| "raws (J_obj fs) = sum_list (map (\<lambda>(k, v). raws v) fs)"
| "raws (J_map fs) = sum_list (map (\<lambda>(k, v). raws v) fs)"
| "raws (J_list vs) = sum_list (map raws vs)"
| "raws _ = 0"

lemma set_order_fields [simp]: "set (order_fields fs) = set fs"
  by (auto simp: order_fields_def)

lemma decode_no_raws:
  "decodeTree d = Some (v, d') \<Longrightarrow> raws v = 0"
  "decodeTreeToken d tok = Some (v, d') \<Longrightarrow> raws v = 0"
  "decode_members d obj = Some (v, d') \<Longrightarrow> list_all (\<lambda>(k, v). raws v = 0) obj \<Longrightarrow> raws v = 0"
  "decode_elements d list = Some (v, d') \<Longrightarrow> list_all (\<lambda>v. raws v = 0) list \<Longrightarrow> raws v = 0"
proof (induction d and d tok and d obj and d list arbitrary: v d' and v d' and v d' and v d'
    rule: decodeTree_decodeTreeToken_decode_members_decode_elements.induct)
  case (1 d)
  then show ?case by (auto simp: decodeTree.simps split: option.splits prod.splits)
next
  case (2 d tok)
  then show ?case by (auto simp: decodeTreeToken.simps split: token.splits if_splits)
next
  case (3 d obj)
  have *: "list_all (\<lambda>(k, v). raws v = 0) (AList.update key val obj)" if "raws val = 0" for key val
    using that "3.prems"(2) by (induction obj) auto
  show ?case
  proof (cases "more_tokens d")
    case True
    with "3.prems"(1) obtain key d1 val d2 where t: "next_token d = Some (Str_token key, d1)"
        "decodeTree d1 = Some (val, d2)" "decode_members d2 (AList.update key val obj) = Some (v, d')"
      by (subst (asm) decode_members.simps) (auto split: option.splits prod.splits token.splits)
    note step = True t(1) refl refl t(2)
    show ?thesis by (rule "3.IH"(2) [OF step refl t(3) * [OF "3.IH"(1) [OF step]]])
  next
    case False
    with "3.prems" show ?thesis
      by (subst (asm) decode_members.simps) (auto split: option.splits simp: list_all_iff sum_list_eq_0_iff)
  qed
next
  case (4 d list)
  show ?case
  proof (cases "more_tokens d")
    case True
    with "4.prems"(1) obtain val d1 where "decodeTree d = Some (val, d1)" "decode_elements d1 (list @ [val]) = Some (v, d')"
      by (subst (asm) decode_elements.simps) (auto split: option.splits prod.splits)
    with True 4 show ?thesis by simp
  next
    case False
    with "4.prems" show ?thesis
      by (subst (asm) decode_elements.simps) (auto split: option.splits simp: list_all_iff sum_list_eq_0_iff)
  qed
qed

lemma decode_raw_no_raws: "decode_raw raw = Some t \<Longrightarrow> raws t = 0"
  by (auto simp: decode_raw_def dest: decode_no_raws split: option.splits if_splits)

lemma raws_member: "(k, v) \<in> set fs \<Longrightarrow> raws v \<le> sum_list (map (\<lambda>(k, v). raws v) fs)"
  by (induction fs) auto

lemma raws_element: "v \<in> set vs \<Longrightarrow> raws v \<le> sum_list (map raws vs)"
  by (induction vs) auto

lemma size_member: "(k, v) \<in> set fs \<Longrightarrow> size v < Suc (size_list (size_prod (\<lambda>x. 0) size) fs)"
  by (induction fs) auto

lemma size_element: "(v :: jval) \<in> set vs \<Longrightarrow> size v < Suc (size_list size vs)"
  by (induction vs) auto

function append_any :: "jval \<Rightarrow> string option" where
  "append_any J_nil = Some ''null''"
| "append_any (J_bool b) = Some (if b then ''true'' else ''false'')"
| "append_any (J_str s) = Some (appendString s)"
| "append_any (J_float f) = Some (appendNumber f)"
| "append_any (J_int i) = Some (appendNumber (float_of_int i))"
| "append_any (J_number s) = map_option appendNumber (parse_float s)"
| "append_any (J_raw raw) = (case decode_raw raw of None \<Rightarrow> None | Some tree \<Rightarrow> append_any tree)"
| "append_any (J_obj obj) = object_text (map (\<lambda>(k, v). (k, append_any v)) (order_fields obj))"
| "append_any (J_map obj) = object_text (map (\<lambda>(k, v). (k, append_any v)) (order_fields (sort_key fst obj)))"
| "append_any (J_list vs) = array_text (map append_any vs)"
| "append_any J_unsupported = None"
  by pat_completeness auto
termination
proof (relation "inv_image (less_than <*lex*> less_than) (\<lambda>v. (raws v, size v))")
  show "decode_raw raw = Some tree \<Longrightarrow> (tree, J_raw raw) \<in> inv_image (less_than <*lex*> less_than) (\<lambda>v. (raws v, size v))"
    for raw tree by (simp add: decode_raw_no_raws)
qed (auto dest: raws_member raws_element size_member size_element simp: le_less)

definition Marshal :: "jval \<Rightarrow> string option" where
  "Marshal v = append_any v"

definition Canon :: "string \<Rightarrow> string option" where
  "Canon raw = append_any (J_raw raw)"

section \<open>Numbers read back\<close>

text \<open>The parts of a decimal text that is also a JSON number.\<close>

definition json_decimal :: "string \<Rightarrow> string \<Rightarrow> int option \<Rightarrow> bool" where
  "json_decimal ip fp x \<longleftrightarrow> list_all is_digit_char ip \<and> ip \<noteq> [] \<and> (hd ip = CHR ''0'' \<longrightarrow> ip = ''0'')
     \<and> list_all is_digit_char fp \<and> \<bar>case_option 0 id x\<bar> < 100000"

lemma hd_nat_digits_nonzero: "0 < m \<Longrightarrow> hd (nat_digits m) \<noteq> CHR ''0''"
proof (induction m rule: nat_digits.induct)
  case (1 m)
  show ?case
  proof (cases "m < 10")
    case True
    with 1 have "ascii_val (digit_char m) \<noteq> ascii_val (CHR ''0'')" by (simp add: ascii_val_def [of "CHR ''0''"])
    with True show ?thesis by (subst nat_digits.simps) (metis list.sel(1))
  next
    case False
    with 1 show ?thesis by (subst nat_digits.simps) simp
  qed
qed

lemma exI3: "P a b c \<Longrightarrow> \<exists>a b c. P a b c"
  by blast

lemma layout_decimal:
  assumes "0 < m" and "\<bar>n\<bar> < 90000"
  shows "\<exists>ip fp x. number_layout (nat_digits m) n = decimal_text False ip fp x \<and> json_decimal ip fp x
    \<and> decimal_value False ip fp x = of_nat m * 10 powi (n - int (length (nat_digits m)))"
proof -
  define ds where "ds = nat_digits m"
  have ds: "list_all is_digit_char ds" "ds \<noteq> []" "digits_value ds = m" "hd ds \<noteq> CHR ''0''"
    using hd_nat_digits_nonzero [OF assms(1)]
    by (simp_all add: ds_def nat_digits_all_digits digits_value_nat_digits)
  then have k: "1 \<le> length ds" by (cases ds) auto
  have zeros: "list_all is_digit_char (replicate j (CHR ''0''))" for j
    by (simp add: list_all_iff is_digit_char_def ascii_val_def)
  note defs = number_layout_def decimal_text_def json_decimal_def decimal_value_def exp_part_def Let_def
  consider "int (length ds) \<le> n" "n \<le> 21" | "n < int (length ds)" "0 < n" "n \<le> 21" | "- 6 < n" "n \<le> 0"
    | "\<not> (int (length ds) \<le> n \<and> n \<le> 21)" "\<not> (0 < n \<and> n \<le> 21)" "\<not> (- 6 < n \<and> n \<le> 0)" by linarith
  then have "\<exists>ip fp x. number_layout ds n = decimal_text False ip fp x \<and> json_decimal ip fp x
    \<and> decimal_value False ip fp x = of_nat m * 10 powi (n - int (length ds))"
  proof cases
    case 1
    have "(of_nat m * 10 ^ nat (n - int (length ds)) :: rat) = of_nat m * 10 powi (n - int (length ds))"
      using 1 by (simp add: power_int_def)
    with 1 ds zeros show ?thesis
      by (intro exI3 [where a = "ds @ replicate (nat (n - int (length ds))) (CHR ''0'')" and b = "[]" and c = None])
        (simp add: defs digits_value_zeros)
  next
    case 2
    then have n: "nat n < length ds" "take (nat n) ds \<noteq> []" "drop (nat n) ds \<noteq> []" "hd (take (nat n) ds) = hd ds"
      using ds(2) by (auto simp: hd_take)
    moreover have "list_all is_digit_char (take (nat n) ds)" "list_all is_digit_char (drop (nat n) ds)"
      using ds(1) by (auto simp: list_all_iff dest: in_set_takeD in_set_dropD)
    moreover have "- int (length ds - nat n) = n - int (length ds)" using 2 n(1) by simp
    ultimately show ?thesis using 2 ds
      by (intro exI3 [where a = "take (nat n) ds" and b = "drop (nat n) ds" and c = None]) (simp add: defs)
  next
    case 3
    have "digits_value (CHR ''0'' # replicate (nat (- n)) (CHR ''0'') @ ds) = m"
      using digits_value_leading [of "Suc (nat (- n))" ds] ds by simp
    moreover have "is_digit_char (CHR ''0'')" by (simp add: is_digit_char_def ascii_val_def)
    moreover have "- int (nat (- n) + length ds) = n - int (length ds)" using 3 by simp
    ultimately show ?thesis using 3 ds zeros k
      by (intro exI3 [where a = "''0''" and b = "replicate (nat (- n)) (CHR ''0'') @ ds" and c = None])
        (simp add: defs)
  next
    case 4
    obtain d es where d: "ds = d # es" using ds(2) by (cases ds) auto
    have "itoa \<bar>n - 1\<bar> = nat_digits (nat \<bar>n - 1\<bar>)" by (simp add: itoa_def)
    moreover have "(if n - 1 < 0 then - (n - 1) else n - 1) = \<bar>n - 1\<bar>" by simp
    ultimately show ?thesis using 4 ds assms(2)
      by (intro exI3 [where a = "[d]" and b = es and c = "Some (n - 1)"])
        (auto simp add: defs d diff_diff_eq)
  qed
  then show ?thesis by (simp only: ds_def)
qed

lemma exponent_text_reads: "\<bar>x\<bar> \<le> 1200 \<Longrightarrow> parse_int64_lax (exponent_text x) = x"
proof -
  assume x: "\<bar>x\<bar> \<le> 1200"
  define ds where "ds = (if \<bar>x\<bar> < 10 then ''0'' else []) @ nat_digits (nat \<bar>x\<bar>)"
  have "list_all is_digit_char ds" "ds \<noteq> []"
    by (simp_all add: ds_def nat_digits_all_digits is_digit_char_def ascii_val_def)
  moreover have "digits_value ds = nat \<bar>x\<bar>"
    using digits_value_leading [of 1 "nat_digits (nat \<bar>x\<bar>)"] by (simp add: ds_def digits_value_nat_digits)
  moreover have "exponent_text x = (if x < 0 then CHR ''-'' else CHR ''+'') # ds"
    by (simp add: exponent_text_def ds_def)
  ultimately have "scan_int (exponent_text x) = Some x" by (simp add: scan_int_def Let_def)
  with x show ?thesis by (simp add: parse_int64_lax_def)
qed

lemma number_text:
  assumes "representable r" and "r \<noteq> 0"
  obtains ip fp x where "NumberToString r = decimal_text (r < 0) ip fp x" and "json_decimal ip fp x"
    and "round64 (decimal_value (r < 0) ip fp x) = Fin r"
proof -
  have "representable \<bar>r\<bar>" "0 < \<bar>r\<bar>" using assms representable_neg [of r] by (auto simp: abs_if)
  then obtain m y where m: "0 < m" "\<bar>y\<bar> \<le> 1200"
      and val: "round64 (of_nat m * 10 powi (y + 1 - int (length (nat_digits m)))) = Fin \<bar>r\<bar>"
      and fmt: "format_e \<bar>r\<bar> = take 1 (nat_digits m) @ (if length (nat_digits m) = 1 then [] else CHR ''.'' # drop 1 (nat_digits m))
           @ ''e'' @ exponent_text y"
    by (rule format_e_form)
  define ds where "ds = nat_digits m"
  have ds: "ds \<noteq> []" "CHR ''e'' \<notin> set ds" "CHR ''.'' \<notin> set ds"
    by (auto simp: ds_def dest!: set_nat_digits simp: is_digit_char_def ascii_val_def)
  obtain d es where d: "ds = d # es" using ds(1) by (cases ds) auto
  define mant where "mant = take 1 ds @ (if length ds = 1 then [] else CHR ''.'' # drop 1 ds)"
  have "CHR ''e'' \<notin> set mant" using ds(2) by (auto simp: mant_def d)
  moreover have "format_e \<bar>r\<bar> = mant @ CHR ''e'' # exponent_text y" by (simp add: fmt mant_def ds_def)
  ultimately have cut: "cut_byte (CHR ''e'') (format_e \<bar>r\<bar>) = (mant, exponent_text y)"
    by (simp add: cut_byte_def index_byte_append)
  have del: "delete_first (CHR ''.'') mant = ds" using ds(3) by (auto simp: delete_first_def mant_def d)
  have "\<bar>y + 1\<bar> < 90000" using m(2) by linarith
  then obtain ip fp x where l: "number_layout ds (y + 1) = decimal_text False ip fp x" "json_decimal ip fp x"
      "decimal_value False ip fp x = of_nat m * 10 powi (y + 1 - int (length ds))"
    using layout_decimal [OF m(1)] unfolding ds_def by blast
  have shown: "NumberToString r = decimal_text (r < 0) ip fp x"
    using assms(2) l(1) by (simp add: NumberToString_def cut exponent_text_reads [OF m(2)] del decimal_text_def)
  have "decimal_value (r < 0) ip fp x = (if r < 0 then - decimal_value False ip fp x else decimal_value False ip fp x)"
    by (simp add: decimal_value_def Let_def)
  moreover have "round64 (- z) = Fin r" if "round64 z = Fin (- r)" "r < 0" for z
    using that by (cases "z = 0") (auto simp: round64_def Let_def split: if_splits)
  ultimately have "round64 (decimal_value (r < 0) ip fp x) = Fin r"
    using l(3) val by (auto simp: ds_def abs_if split: if_splits)
  with shown l(2) that show thesis by blast
qed

lemma number_reads:
  assumes "representable r"
  shows "parse_float (NumberToString r) = Some (Fin r)"
proof (cases "r = 0")
  case True
  have "decimal_text False ''0'' [] None = ''0''" by (simp add: decimal_text_def exp_part_def)
  moreover have "parse_float (decimal_text False ''0'' [] None) = Some (Fin 0)"
    by (rule parse_decimal [where r = 0])
      (simp_all add: is_digit_char_def ascii_val_def decimal_value_def digits_value_def round64_def)
  ultimately show ?thesis using True by (simp add: NumberToString_def)
next
  case False
  with number_text [OF assms] parse_decimal show ?thesis unfolding json_decimal_def by metis
qed

text \<open>A number ends where a byte follows that no number goes on with.\<close>

definition delimited :: "string \<Rightarrow> bool" where
  "delimited r \<longleftrightarrow> r = [] \<or> hd r = CHR '','' \<or> hd r = CHR '']'' \<or> hd r = CHR ''}''"

lemma delimited_stops: "delimited r \<Longrightarrow> num_complete st \<Longrightarrow> lex_number st r = Some ([], r)"
  by (cases r; cases st) (auto simp: delimited_def num_complete_def is_digit_char_def ascii_val_def)

lemma lex_digits:
  assumes "list_all is_digit_char ds" and "\<And>c. is_digit_char c \<Longrightarrow> num_next st c = Some st"
    and "lex_number st s = Some (n, r)"
  shows "lex_number st (ds @ s) = Some (ds @ n, r)"
  using assms by (induction ds) auto

lemma lex_exponent:
  assumes "delimited r" and "num_complete st" and "num_next st (CHR ''e'') = Some stateE"
  shows "lex_number st (exp_part x @ r) = Some (exp_part x, r)"
proof (cases x)
  case None
  with assms delimited_stops show ?thesis by (simp add: exp_part_def)
next
  case (Some i)
  obtain d es where d: "nat_digits (nat \<bar>i\<bar>) = d # es" by (cases "nat_digits (nat \<bar>i\<bar>)") auto
  have "list_all is_digit_char (d # es)" unfolding d [symmetric] by (rule nat_digits_all_digits)
  moreover have "lex_number stateE0 (es @ r) = Some (es @ [], r)"
    using calculation delimited_stops [OF assms(1)] by (intro lex_digits) (auto simp: num_complete_def)
  ultimately show ?thesis using Some assms(3) d by (simp add: exp_part_def)
qed

lemma lex_decimal:
  assumes "json_decimal ip fp x" and "delimited r"
  shows "\<exists>c cs st. decimal_text neg ip fp x = c # cs \<and> number_start c = Some st
    \<and> lex_number st (cs @ r) = Some (cs, r) \<and> c \<noteq> dquote \<and> c \<notin> set ''tfn{}[],: '' \<and> \<not> json_space c"
proof -
  obtain d es where d: "ip = d # es" "is_digit_char d" "list_all is_digit_char es" "d = CHR ''0'' \<longrightarrow> es = []"
    using assms(1) by (cases ip) (auto simp: json_decimal_def)
  define st where "st = (if d = CHR ''0'' then state0 else state1)"
  have frac: "lex_number st ((if fp = [] then [] else CHR ''.'' # fp) @ exp_part x @ r)
      = Some ((if fp = [] then [] else CHR ''.'' # fp) @ exp_part x, r)"
  proof (cases fp)
    case Nil
    with lex_exponent [OF assms(2)] show ?thesis by (simp add: st_def num_complete_def is_digit_char_def ascii_val_def)
  next
    case (Cons f fs)
    with assms(1) have f: "is_digit_char f" "list_all is_digit_char fs" by (auto simp: json_decimal_def)
    have "lex_number stateDot0 (fs @ exp_part x @ r) = Some (fs @ exp_part x, r)"
      using f(2) lex_exponent [OF assms(2), of stateDot0 x]
      by (intro lex_digits) (auto simp: num_complete_def is_digit_char_def ascii_val_def)
    with f(1) Cons show ?thesis by (simp add: st_def is_digit_char_def ascii_val_def)
  qed
  have int: "lex_number st (es @ (if fp = [] then [] else CHR ''.'' # fp) @ exp_part x @ r)
      = Some (es @ (if fp = [] then [] else CHR ''.'' # fp) @ exp_part x, r)"
  proof (cases "d = CHR ''0''")
    case True
    with frac d show ?thesis by simp
  next
    case False
    then show ?thesis by (intro lex_digits [OF d(3) _ frac]) (simp add: st_def)
  qed
  have start: "number_start d = Some st" "num_next stateNeg d = Some st"
    using d(2) by (auto simp: number_start_def st_def is_digit_char_def ascii_val_def)
  have plain: "c \<noteq> dquote \<and> c \<notin> set ''tfn{}[],: '' \<and> \<not> json_space c" if "is_digit_char c \<or> c = CHR ''-''" for c
    using that by (auto simp: is_digit_char_def ascii_val_def json_space_def)
  show ?thesis
  proof (cases neg)
    case True
    then show ?thesis using int start plain [of "CHR ''-''"]
      by (intro exI3 [where a = "CHR ''-''" and b = "decimal_text False ip fp x" and c = stateNeg])
        (simp add: decimal_text_def d(1) number_start_def)
  next
    case False
    then show ?thesis using int start plain [of d] d(2)
      by (intro exI3 [where a = d and b = "es @ (if fp = [] then [] else CHR ''.'' # fp) @ exp_part x" and c = st])
        (simp add: decimal_text_def d(1))
  qed
qed

section \<open>Strings read back\<close>

lemma hex_digit_value: "k < 16 \<Longrightarrow> digit_of 16 (hex_digit k) = Some k"
proof -
  have "list_all (\<lambda>k. digit_of 16 (hex_digit k) = Some k) [0..<16]" by code_simp
  then show "k < 16 \<Longrightarrow> digit_of 16 (hex_digit k) = Some k" by (simp only: list_all_iff set_upt) auto
qed

lemma byte_ascii [simp]: "byte (ascii_val c) = c"
  by (simp add: byte_def ascii_val_def)

text \<open>The escape of a byte, by cases.\<close>

lemma escape_cases:
  obtains (plain) "32 \<le> ascii_val b" "b \<noteq> dquote" "b \<noteq> backslash" "escape_char b = [b]"
  | (simple) e where "e \<in> set ''bfnrt/'' \<or> e = backslash \<or> e = dquote" "simple_escape e = b" "e \<noteq> CHR ''u''"
      "escape_char b = [backslash, e]" "ascii_val b < 128"
  | (control) h where "length h = 4" "list_all is_hex h" "hex_value h = ascii_val b" "ascii_val b < 32"
      "escape_char b = backslash # CHR ''u'' # h"
proof -
  consider "32 \<le> ascii_val b" "b \<noteq> dquote" "b \<noteq> backslash" | "b = dquote" | "b = backslash" | "b = CHR 0x08"
    | "b = tab" | "b = nl" | "b = CHR 0x0C" | "b = cr"
    | "ascii_val b < 32" "b \<notin> {dquote, backslash, CHR 0x08, tab, nl, CHR 0x0C, cr}" by force
  then show thesis
  proof cases
    case 1
    then show ?thesis by (intro plain) (auto simp: escape_char_def)
  next
    case 2
    then show ?thesis by (intro simple [of dquote]) (auto simp: escape_char_def simple_escape_def ascii_val_def)
  next
    case 3
    then show ?thesis by (intro simple [of backslash]) (auto simp: escape_char_def simple_escape_def ascii_val_def)
  next
    case 4
    then show ?thesis by (intro simple [of "CHR ''b''"]) (auto simp: escape_char_def simple_escape_def ascii_val_def)
  next
    case 5
    then show ?thesis by (intro simple [of "CHR ''t''"]) (auto simp: escape_char_def simple_escape_def ascii_val_def)
  next
    case 6
    then show ?thesis by (intro simple [of "CHR ''n''"]) (auto simp: escape_char_def simple_escape_def ascii_val_def)
  next
    case 7
    then show ?thesis by (intro simple [of "CHR ''f''"]) (auto simp: escape_char_def simple_escape_def ascii_val_def)
  next
    case 8
    then show ?thesis by (intro simple [of "CHR ''r''"]) (auto simp: escape_char_def simple_escape_def ascii_val_def)
  next
    case 9
    have "digit_of 16 (CHR ''0'') = Some 0" by (simp add: digit_of_def is_digit_char_def ascii_val_def)
    with 9 show ?thesis
      by (intro control [of "[CHR ''0'', CHR ''0'', hex_digit (ascii_val b div 16), hex_digit (ascii_val b mod 16)]"])
        (auto simp: escape_char_def hex_value_def hex_digit_value)
  qed
qed

lemma escape_body: "str_body (concat (map escape_char s))"
proof (induction s)
  case (Cons b s)
  show ?case
  proof (cases rule: escape_cases [of b])
    case plain
    with Cons show ?thesis by (auto intro: body_plain)
  next
    case (simple e)
    with Cons show ?thesis by (auto intro: body_escape)
  next
    case (control h)
    with Cons body_unicode [of h] show ?thesis by auto
  qed
qed (simp add: body_Nil)

lemma unquote_escape_ascii:
  assumes "ascii_val b < 128"
  shows "unquote (escape_char b @ t) = b # unquote t"
proof (cases rule: escape_cases [of b])
  case plain
  with assms unquote_rune [of "b # t" 1] show ?thesis by (simp add: rune_len_ascii)
next
  case (simple e)
  then have "getu4 (backslash # e # t) = None" by (simp add: getu4_def)
  with simple show ?thesis by (subst unquote.simps) simp
next
  case (control h)
  then have "\<not> (0xD800 \<le> hex_value h \<and> hex_value h < 0xE000)" "encode_rune (hex_value h) = [b]"
    by (simp_all add: encode_rune_def)
  with control getu4_unicode [of h t] show ?thesis by (subst unquote.simps) simp
qed

lemma unquote_escape: "utf8 s \<Longrightarrow> unquote (concat (map escape_char s)) = s"
proof (induction rule: utf8.induct)
  case (utf8_rune s t)
  obtain c cs where c: "s = c # cs" using rune_len_bounds [OF utf8_rune(1)] by (cases s) auto
  show ?case
  proof (cases "ascii_val c < 128")
    case True
    with utf8_rune(1) c have "cs = []" by (simp add: rune_len_ascii)
    with True c utf8_rune unquote_escape_ascii show ?thesis by simp
  next
    case False
    with utf8_rune(1) c rune_high [of c cs] have high: "list_all (\<lambda>d. 127 < ascii_val d) s"
      by (auto simp: list_all_iff)
    then have "escape_char d = [d]" if "d \<in> set s" for d
      using that by (cases rule: escape_cases [of d]) (auto simp: list_all_iff)
    then have "concat (map escape_char s) = concat (map (\<lambda>d. [d]) s)" by (simp cong: map_cong)
    then have "concat (map escape_char s) = s" by simp
    moreover have "c \<noteq> backslash" using False by (auto simp: ascii_val_def)
    ultimately show ?thesis
      using utf8_rune unquote_rune [OF rune_len_append [OF utf8_rune(1)], of "concat (map escape_char t)"] c
      by (simp only: map_append concat_append) simp
  qed
qed simp

text \<open>A printed string as the decoder meets it.\<close>

lemma appendString_form: "appendString s = dquote # concat (map escape_char s) @ [dquote]"
  by (simp add: appendString_def)

lemma lex_appendString:
  "utf8 s \<Longrightarrow> lex_string (concat (map escape_char s) @ dquote # r) = Some (concat (map escape_char s), r)"
  by (rule lex_string_accepts [OF escape_body])

section \<open>Values read back\<close>

definition at_state :: "string \<Rightarrow> token_state \<Rightarrow> token_state list \<Rightarrow> decoder" where
  "at_state rest st stack = \<lparr>dec_rest = rest, dec_state = st, dec_stack = stack\<rparr>"

lemma at_state_simps [simp]:
  "dec_rest (at_state r st k) = r" "dec_state (at_state r st k) = st" "dec_stack (at_state r st k) = k"
  "(at_state r st k)\<lparr>dec_rest := r', dec_state := st'\<rparr> = at_state r' st' k"
  "at_state r st k\<lparr>dec_state := st'\<rparr> = at_state r st' k"
  "\<lparr>dec_rest = r, dec_state = st, dec_stack = k\<rparr> = at_state r st k"
  by (simp_all add: at_state_def)

text \<open>Wherever a value may stand, the decoder reads the text \<open>s\<close> as the tree \<open>t\<close>.\<close>

definition reads_as :: "string \<Rightarrow> jval \<Rightarrow> bool" where
  "reads_as s t \<longleftrightarrow>
     (\<exists>c cs. s = c # cs \<and> c \<notin> set '']},:'' \<and> \<not> json_space c)
     \<and> (\<forall>r st stack. delimited r \<longrightarrow> tokenValueAllowed st \<longrightarrow>
          decodeTree (at_state (s @ r) st stack) = Some (t, at_state r (tokenValueEnd st) stack))"

lemma reads_as_start: "reads_as s t \<Longrightarrow> \<exists>c cs. s = c # cs \<and> c \<notin> set '']},:'' \<and> \<not> json_space c"
  by (simp add: reads_as_def)

lemma reads_as_decode:
  "reads_as s t \<Longrightarrow> delimited r \<Longrightarrow> tokenValueAllowed st \<Longrightarrow>
     decodeTree (at_state (s @ r) st stack) = Some (t, at_state r (tokenValueEnd st) stack)"
  by (simp add: reads_as_def)

lemma allowed_states [simp]:
  "tokenValueAllowed tokenTopValue" "tokenValueAllowed tokenArrayStart" "tokenValueAllowed tokenArrayValue"
  "tokenValueAllowed tokenObjectValue" "tokenValueEnd tokenArrayStart = tokenArrayComma"
  "tokenValueEnd tokenArrayValue = tokenArrayComma" "tokenValueEnd tokenObjectValue = tokenObjectComma"
  "tokenValueEnd tokenTopValue = tokenTopValue"
  by (simp_all add: tokenValueAllowed_def tokenValueEnd_def)

lemma not_allowed:
  "tokenValueAllowed st \<Longrightarrow> st \<notin> {tokenObjectStart, tokenObjectKey, tokenObjectColon, tokenObjectComma, tokenArrayComma}"
  by (auto simp: tokenValueAllowed_def)

subsection \<open>Scalars\<close>

lemma next_scalar:
  assumes "scalar (c # cs) = Some (tok, r)" and "c \<notin> set ''[]{}:,''" and "\<not> json_space c" and "tokenValueAllowed st"
  shows "next_token (at_state (c # cs) st stack) = Some (tok, at_state r (tokenValueEnd st) stack)"
  using assms not_allowed [OF assms(4)] by (subst next_token.simps) auto

lemma reads_scalar:
  assumes "s = c # cs" and "c \<notin> set ''[]{}:,''" and "\<not> json_space c"
    and "\<And>r. delimited r \<Longrightarrow> scalar (s @ r) = Some (tok, r)"
    and "\<And>d. decodeTreeToken d tok = Some (t, d)"
  shows "reads_as s t"
  using assms next_scalar [of c] by (auto simp: reads_as_def decodeTree.simps)

lemma reads_literals:
  "reads_as ''null'' J_nil" "reads_as ''true'' (J_bool True)" "reads_as ''false'' (J_bool False)"
proof -
  have plain: "c \<notin> set ''[]{}:,'' \<and> \<not> json_space c" if "c \<in> set ''ntf''" for c
    using that by (auto simp: json_space_def)
  show "reads_as ''null'' J_nil"
    by (rule reads_scalar [where tok = Nil_token, OF refl])
      (simp_all add: plain scalar_def has_prefix_def decodeTreeToken.simps)
  show "reads_as ''true'' (J_bool True)"
    by (rule reads_scalar [where tok = "Bool_token True", OF refl])
      (simp_all add: plain scalar_def has_prefix_def decodeTreeToken.simps)
  show "reads_as ''false'' (J_bool False)"
    by (rule reads_scalar [where tok = "Bool_token False", OF refl])
      (simp_all add: plain scalar_def has_prefix_def decodeTreeToken.simps)
qed

lemma reads_string: "utf8 s \<Longrightarrow> reads_as (appendString s) (J_str s)"
  by (rule reads_scalar [where tok = "Str_token s", OF appendString_form])
    (simp_all add: json_space_def scalar_def lex_appendString unquote_escape decodeTreeToken.simps appendString_form)

lemma reads_decimal: "json_decimal ip fp x \<Longrightarrow> reads_as (decimal_text neg ip fp x) (J_number (decimal_text neg ip fp x))"
proof -
  assume j: "json_decimal ip fp x"
  obtain c cs st where c: "decimal_text neg ip fp x = c # cs" "number_start c = Some st" "c \<noteq> dquote"
      "c \<notin> set ''tfn{}[],: ''" "\<not> json_space c"
    using lex_decimal [OF j, of "[]" neg] by (auto simp: delimited_def)
  have "scalar (decimal_text neg ip fp x @ r) = Some (Number_token (decimal_text neg ip fp x), r)" if "delimited r" for r
    using lex_decimal [OF j that, of neg] c by (auto simp: scalar_def has_prefix_def)
  then show ?thesis
    using c by (intro reads_scalar [where tok = "Number_token (decimal_text neg ip fp x)", OF c(1)])
      (auto simp: decodeTreeToken.simps)
qed

lemma reads_number:
  assumes "representable r"
  shows "reads_as (NumberToString r) (J_number (NumberToString r))"
proof (cases "r = 0")
  case True
  have "json_decimal ''0'' [] None" by (simp add: json_decimal_def is_digit_char_def ascii_val_def)
  from reads_decimal [OF this, of False] True show ?thesis
    by (simp add: decimal_text_def exp_part_def NumberToString_def)
next
  case False
  with number_text [OF assms] reads_decimal show ?thesis by metis
qed

subsection \<open>Lists\<close>

lemma decode_comma: "decodeTree (at_state (CHR '','' # x) tokenArrayComma k) = decodeTree (at_state x tokenArrayValue k)"
proof -
  have "next_token (at_state (CHR '','' # x) tokenArrayComma k) = next_token (at_state x tokenArrayValue k)"
    by (subst next_token.simps) (simp add: json_space_def)
  then show ?thesis by (simp add: decodeTree.simps)
qed

lemma decode_colon: "decodeTree (at_state (CHR '':'' # x) tokenObjectColon k) = decodeTree (at_state x tokenObjectValue k)"
proof -
  have "next_token (at_state (CHR '':'' # x) tokenObjectColon k) = next_token (at_state x tokenObjectValue k)"
    by (subst next_token.simps) (simp add: json_space_def)
  then show ?thesis by (simp add: decodeTree.simps)
qed

lemma close_list:
  "st = tokenArrayStart \<or> st = tokenArrayComma \<Longrightarrow>
     decode_elements (at_state (CHR '']'' # r) st (s0 # k)) acc = Some (J_list acc, at_state r (tokenValueEnd s0) k)"
  by (subst decode_elements.simps, subst next_token.simps)
    (auto simp: more_tokens_def json_space_def close_token_def)

definition tail_text :: "string list \<Rightarrow> string" where
  "tail_text ts = concat (map (\<lambda>t. '','' @ t) ts)"

lemma join_tail: "join_str (t # ts) '','' = t @ tail_text ts"
  by (induction ts arbitrary: t) (auto simp: tail_text_def)

lemma delimited_tail: "delimited (tail_text ts @ c # r)" if "c = CHR '']'' \<or> c = CHR ''}''"
  using that by (cases ts) (auto simp: tail_text_def delimited_def)

lemma decode_list_tail:
  "list_all2 reads_as ss ts \<Longrightarrow>
     decode_elements (at_state (tail_text ss @ CHR '']'' # r) tokenArrayComma (s0 # k)) acc
       = Some (J_list (acc @ ts), at_state r (tokenValueEnd s0) k)"
proof (induction ss arbitrary: ts acc)
  case Nil
  then show ?case by (simp add: tail_text_def close_list)
next
  case (Cons s ss)
  then obtain t ts' where t: "ts = t # ts'" "reads_as s t" "list_all2 reads_as ss ts'"
    by (auto simp: list_all2_Cons1)
  have "decodeTree (at_state (tail_text (s # ss) @ CHR '']'' # r) tokenArrayComma (s0 # k))
      = Some (t, at_state (tail_text ss @ CHR '']'' # r) tokenArrayComma (s0 # k))"
    using reads_as_decode [OF t(2) delimited_tail [of "CHR '']''" ss r], of tokenArrayValue "s0 # k"]
    by (simp add: tail_text_def decode_comma)
  moreover have "more_tokens (at_state (tail_text (s # ss) @ CHR '']'' # r) tokenArrayComma (s0 # k))"
    by (simp add: tail_text_def more_tokens_def json_space_def)
  ultimately show ?case using Cons.IH [OF t(3)] t(1) by (subst decode_elements.simps) simp
qed

lemma reads_list:
  assumes "list_all2 reads_as ss ts"
  shows "reads_as (''['' @ join_str ss '','' @ '']'') (J_list ts)"
proof -
  have "decode_elements (at_state (join_str ss '','' @ CHR '']'' # r) tokenArrayStart (st # k)) []
      = Some (J_list ts, at_state r (tokenValueEnd st) k)" for r st k
  proof (cases ss)
    case Nil
    with assms show ?thesis by (simp add: close_list)
  next
    case (Cons s ss')
    with assms obtain t ts' where t: "ts = t # ts'" "reads_as s t" "list_all2 reads_as ss' ts'"
      by (auto simp: list_all2_Cons1)
    have "decodeTree (at_state (s @ tail_text ss' @ CHR '']'' # r) tokenArrayStart (st # k))
        = Some (t, at_state (tail_text ss' @ CHR '']'' # r) tokenArrayComma (st # k))"
      using reads_as_decode [OF t(2) delimited_tail [of "CHR '']''" ss' r], of tokenArrayStart "st # k"] by simp
    moreover have "more_tokens (at_state (s @ tail_text ss' @ CHR '']'' # r) tokenArrayStart (st # k))"
      using reads_as_start [OF t(2)] by (auto simp: more_tokens_def)
    ultimately show ?thesis using decode_list_tail [OF t(3)] t(1)
      by (subst decode_elements.simps) (simp add: Cons join_tail)
  qed
  moreover have "next_token (at_state (CHR ''['' # x) st k) = Some (Delim (CHR ''[''), at_state x tokenArrayStart (st # k))"
    if "tokenValueAllowed st" for x st k
    using that by (subst next_token.simps) (simp add: json_space_def)
  ultimately show ?thesis
    by (auto simp: reads_as_def decodeTree.simps decodeTreeToken.simps json_space_def)
qed

subsection \<open>Objects\<close>

definition member_text :: "string \<Rightarrow> string \<Rightarrow> string" where
  "member_text k s = appendString k @ '':'' @ s"

lemma update_new: "k \<notin> set (map fst ps) \<Longrightarrow> AList.update k v ps = ps @ [(k, v)]"
  by (induction ps) auto

lemma next_key:
  assumes "utf8 key" and "st = tokenObjectStart \<or> st = tokenObjectKey"
  shows "next_token (at_state (appendString key @ x) st k) = Some (Str_token key, at_state x tokenObjectColon k)"
  using assms by (subst next_token.simps) (auto simp: appendString_form json_space_def lex_appendString unquote_escape)

lemma close_object:
  "st = tokenObjectStart \<or> st = tokenObjectComma \<Longrightarrow>
     decode_members (at_state (CHR ''}'' # r) st (s0 # k)) acc = Some (J_obj acc, at_state r (tokenValueEnd s0) k)"
  by (subst decode_members.simps, subst next_token.simps)
    (auto simp: more_tokens_def json_space_def close_token_def)

text \<open>One member, read in the state in which its key stands.\<close>

lemma decode_member:
  assumes "utf8 key" and "reads_as s t" and "delimited r" and "key \<notin> set (map fst acc)"
    and "st = tokenObjectStart \<and> d = at_state (member_text key s @ r) st k
      \<or> st = tokenObjectComma \<and> d = at_state (CHR '','' # member_text key s @ r) st k"
  shows "decode_members d acc = decode_members (at_state r tokenObjectComma k) (acc @ [(key, t)])"
proof -
  have "next_token (at_state (CHR '','' # x) tokenObjectComma k) = next_token (at_state x tokenObjectKey k)" for x
    by (subst next_token.simps) (simp add: json_space_def)
  then have "next_token d = Some (Str_token key, at_state (CHR '':'' # s @ r) tokenObjectColon k)"
    using assms(1,5) by (auto simp: member_text_def next_key)
  moreover have "more_tokens d"
    using assms(5) by (auto simp: more_tokens_def member_text_def appendString_form json_space_def)
  moreover have "decodeTree (at_state (CHR '':'' # s @ r) tokenObjectColon k) = Some (t, at_state r tokenObjectComma k)"
    using reads_as_decode [OF assms(2,3), of tokenObjectValue k] by (simp add: decode_colon)
  ultimately show ?thesis using assms(4) by (subst decode_members.simps) (simp add: update_new)
qed

abbreviation member_reads :: "string \<times> string \<Rightarrow> string \<times> jval \<Rightarrow> bool" where
  "member_reads p q \<equiv> fst q = fst p \<and> utf8 (fst p) \<and> reads_as (snd p) (snd q)"

lemma decode_object_tail:
  "list_all2 member_reads ps qs \<Longrightarrow> distinct (map fst acc @ map fst ps) \<Longrightarrow>
     decode_members (at_state (tail_text (map (\<lambda>(k, s). member_text k s) ps) @ CHR ''}'' # r) tokenObjectComma (s0 # k)) acc
       = Some (J_obj (acc @ qs), at_state r (tokenValueEnd s0) k)"
proof (induction ps arbitrary: qs acc)
  case Nil
  then show ?case by (simp add: tail_text_def close_object)
next
  case (Cons p ps)
  obtain key s where p: "p = (key, s)" by (cases p)
  with Cons.prems(1) obtain t qs' where t: "qs = (key, t) # qs'" "utf8 key" "reads_as s t" "list_all2 member_reads ps qs'"
    by (auto simp: list_all2_Cons1)
  define rest where "rest = tail_text (map (\<lambda>(k, s). member_text k s) ps) @ CHR ''}'' # r"
  have "delimited rest" unfolding rest_def by (rule delimited_tail) simp
  with decode_member [OF t(2,3) this, of acc tokenObjectComma "at_state (CHR '','' # member_text key s @ rest) tokenObjectComma (s0 # k)" "s0 # k"]
  have "decode_members (at_state (CHR '','' # member_text key s @ rest) tokenObjectComma (s0 # k)) acc
      = decode_members (at_state rest tokenObjectComma (s0 # k)) (acc @ [(key, t)])"
    using Cons.prems(2) by (simp add: p)
  also have "\<dots> = Some (J_obj ((acc @ [(key, t)]) @ qs'), at_state r (tokenValueEnd s0) k)"
    using Cons.IH [OF t(4), of "acc @ [(key, t)]"] Cons.prems(2) by (simp add: p rest_def)
  finally show ?case by (simp add: p t(1) tail_text_def rest_def)
qed

lemma reads_object:
  assumes "list_all2 member_reads ps qs" and "distinct (map fst ps)"
  shows "reads_as (''{'' @ join_str (map (\<lambda>(k, s). member_text k s) ps) '','' @ ''}'') (J_obj qs)"
proof -
  have "decode_members (at_state (join_str (map (\<lambda>(k, s). member_text k s) ps) '','' @ CHR ''}'' # r) tokenObjectStart (st # k)) []
      = Some (J_obj qs, at_state r (tokenValueEnd st) k)" for r st k
  proof (cases ps)
    case Nil
    with assms show ?thesis by (simp add: close_object)
  next
    case (Cons p ps')
    obtain key s where p: "p = (key, s)" by (cases p)
    with Cons assms(1) obtain t qs' where t: "qs = (key, t) # qs'" "utf8 key" "reads_as s t" "list_all2 member_reads ps' qs'"
      by (auto simp: list_all2_Cons1)
    define rest where "rest = tail_text (map (\<lambda>(k, s). member_text k s) ps') @ CHR ''}'' # r"
    have "delimited rest" unfolding rest_def by (rule delimited_tail) simp
    with decode_member [OF t(2,3) this, of "[]" tokenObjectStart "at_state (member_text key s @ rest) tokenObjectStart (st # k)" "st # k"]
    have "decode_members (at_state (member_text key s @ rest) tokenObjectStart (st # k)) []
        = decode_members (at_state rest tokenObjectComma (st # k)) [(key, t)]" by simp
    also have "\<dots> = Some (J_obj ([(key, t)] @ qs'), at_state r (tokenValueEnd st) k)"
      using decode_object_tail [OF t(4), of "[(key, t)]"] assms(2) by (simp add: Cons p rest_def)
    finally show ?thesis by (simp add: Cons p t(1) join_tail rest_def)
  qed
  moreover have "next_token (at_state (CHR ''{'' # x) st k) = Some (Delim (CHR ''{''), at_state x tokenObjectStart (st # k))"
    if "tokenValueAllowed st" for x st k
    using that by (subst next_token.simps) (simp add: json_space_def)
  ultimately show ?thesis
    by (auto simp: reads_as_def decodeTree.simps decodeTreeToken.simps json_space_def)
qed

subsection \<open>The order of members\<close>

lemma order_fields_map: "order_fields (map (\<lambda>(k, v). (k, f v)) fs) = map (\<lambda>(k, v). (k, f v)) (order_fields fs)"
proof -
  have "sort_key (\<lambda>p. digits_value (fst p)) (map (\<lambda>(k, v). (k, f v)) xs)
      = map (\<lambda>(k, v). (k, f v)) (sort_key (\<lambda>p. digits_value (fst p)) xs)" for xs
  proof (induction xs)
    case (Cons x xs)
    have "insort_key (\<lambda>p. digits_value (fst p)) (case x of (k, v) \<Rightarrow> (k, f v)) (map (\<lambda>(k, v). (k, f v)) ys)
        = map (\<lambda>(k, v). (k, f v)) (insort_key (\<lambda>p. digits_value (fst p)) x ys)" for ys
      by (induction ys) (auto split: prod.splits)
    with Cons show ?case by simp
  qed simp
  then show ?thesis by (simp add: order_fields_def filter_map comp_def case_prod_beta)
qed

lemma sort_key_sorted: "sorted (map f xs) \<Longrightarrow> sort_key f xs = xs"
  by (induction xs) (simp_all add: insort_is_Cons)

lemma order_fields_idem: "order_fields (order_fields fs) = order_fields fs"
  by (simp add: order_fields_def filter_sort sort_key_sorted)

lemma distinct_order_fields: "distinct (map fst fs) \<Longrightarrow> distinct (map fst (order_fields fs))"
proof -
  have "mset (order_fields fs) = mset fs" by (simp add: order_fields_def flip: multiset_partition)
  then have "mset (map fst (order_fields fs)) = mset (map fst fs)" by simp
  then show "distinct (map fst fs) \<Longrightarrow> distinct (map fst (order_fields fs))" by (metis mset_eq_imp_distinct_iff)
qed

section \<open>The fixed point\<close>

text \<open>
  Values whose text means what the value says: well-formed strings, \<open>float64\<close> numbers, no key twice
  in an object.
\<close>

fun well_formed :: "jval \<Rightarrow> bool" where
  "well_formed (J_str s) = utf8 s"
| "well_formed (J_float f) = (case f of Fin r \<Rightarrow> representable r | _ \<Rightarrow> True)"
| "well_formed (J_obj fs) = (distinct (map fst fs) \<and> list_all (\<lambda>(k, v). utf8 k \<and> well_formed v) fs)"
| "well_formed (J_map fs) = (distinct (map fst fs) \<and> list_all (\<lambda>(k, v). utf8 k \<and> well_formed v) fs)"
| "well_formed (J_list vs) = list_all well_formed vs"
| "well_formed _ = True"

lemma next_token_utf8: "next_token d = Some (Str_token s, d') \<Longrightarrow> utf8 s"
proof (induction "length (dec_rest d)" arbitrary: d s d' rule: less_induct)
  case less
  have IH: "next_token e = Some (Str_token u, e') \<Longrightarrow> length (dec_rest e) < length (dec_rest d) \<Longrightarrow> utf8 u" for e u e'
    using less.hyps [of e u e'] by simp
  have str: "lex_string cs = Some (b, r) \<Longrightarrow> utf8 (unquote b)" for cs b r
    using lex_string_body unquote_utf8 by blast
  show ?case
  proof (cases "skip_space (dec_rest d)")
    case Nil
    with less.prems show ?thesis by (subst (asm) next_token.simps) simp
  next
    case (Cons c cs)
    have sc: "scalar t = Some (Str_token u, r) \<Longrightarrow> utf8 u" for t u r
      by (auto simp: scalar_def intro: str split: list.splits if_splits option.splits)
    from less.prems Cons skip_shorter [OF Cons] show ?thesis
      by (subst (asm) next_token.simps)
        (auto simp: close_token_def Let_def split: if_splits dest: IH sc intro: str)
  qed
qed

lemma decode_well_formed:
  "decodeTree d = Some (v, d') \<Longrightarrow> well_formed v"
  "decodeTreeToken d tok = Some (v, d') \<Longrightarrow> (\<And>s. tok = Str_token s \<Longrightarrow> utf8 s) \<Longrightarrow> well_formed v"
  "decode_members d obj = Some (v, d') \<Longrightarrow> well_formed (J_obj obj) \<Longrightarrow> well_formed v"
  "decode_elements d list = Some (v, d') \<Longrightarrow> well_formed (J_list list) \<Longrightarrow> well_formed v"
proof (induction d and d tok and d obj and d list arbitrary: v d' and v d' and v d' and v d'
    rule: decodeTree_decodeTreeToken_decode_members_decode_elements.induct)
  case (1 d)
  from "1.prems" obtain tok d1 where "next_token d = Some (tok, d1)" "decodeTreeToken d1 tok = Some (v, d')"
    by (auto simp: decodeTree.simps split: option.splits)
  with "1.IH" next_token_utf8 show ?case by blast
next
  case (2 d tok)
  then show ?case by (auto simp: decodeTreeToken.simps split: token.splits if_splits)
next
  case (3 d obj)
  have *: "well_formed (J_obj (AList.update key val obj))" if "utf8 key" "well_formed val" for key val
    using that "3.prems"(2)
    by (auto simp: distinct_update) (induction obj; auto)
  show ?case
  proof (cases "more_tokens d")
    case True
    with "3.prems"(1) obtain key d1 val d2 where t: "next_token d = Some (Str_token key, d1)"
        "decodeTree d1 = Some (val, d2)" "decode_members d2 (AList.update key val obj) = Some (v, d')"
      by (subst (asm) decode_members.simps) (auto split: option.splits prod.splits token.splits)
    note step = True t(1) refl refl t(2)
    show ?thesis by (rule "3.IH"(2) [OF step refl t(3) * [OF next_token_utf8 [OF t(1)] "3.IH"(1) [OF step]]])
  next
    case False
    with "3.prems" show ?thesis by (subst (asm) decode_members.simps) (auto split: option.splits)
  qed
next
  case (4 d list)
  show ?case
  proof (cases "more_tokens d")
    case True
    with "4.prems"(1) obtain val d1 where "decodeTree d = Some (val, d1)" "decode_elements d1 (list @ [val]) = Some (v, d')"
      by (subst (asm) decode_elements.simps) (auto split: option.splits prod.splits)
    with True 4 show ?thesis by simp
  next
    case False
    with "4.prems" show ?thesis by (subst (asm) decode_elements.simps) (auto split: option.splits)
  qed
qed

lemma decode_raw_well_formed: "decode_raw raw = Some t \<Longrightarrow> well_formed t"
  by (auto simp: decode_raw_def dest: decode_well_formed split: option.splits if_splits)

lemma parse_float_representable: "parse_float s = Some (Fin r) \<Longrightarrow> representable r"
  by (auto simp: parse_float_def special_float_def dest: representable_round split: option.splits prod.splits float64.splits if_splits)

lemma number_canonical:
  assumes "\<And>r. f = Fin r \<Longrightarrow> representable r"
  shows "\<exists>t. reads_as (appendNumber f) t \<and> append_any t = Some (appendNumber f)"
proof (cases f)
  case (Fin r)
  with assms have "representable r" by blast
  then show ?thesis using reads_number [of r] number_reads [of r] Fin
    by (intro exI [of _ "J_number (NumberToString r)"]) (simp add: appendNumber_def)
qed (use reads_literals(1) in \<open>auto simp: appendNumber_def intro!: exI [of _ J_nil]\<close>)

lemma those_Some: "those xs = Some ys \<longleftrightarrow> list_all2 (\<lambda>x y. x = Some y) xs ys"
  by (induction xs arbitrary: ys) (auto simp: list_all2_Cons1 split: option.splits)

text \<open>What is printed is read, and printed the same again.\<close>

definition canonical :: "string \<Rightarrow> bool" where
  "canonical s \<longleftrightarrow> (\<exists>t. reads_as s t \<and> append_any t = Some s)"

lemma object_text_Some:
  "object_text (map (\<lambda>(k, v). (k, f v)) xs) = Some s \<longleftrightarrow>
     (\<forall>(k, v) \<in> set xs. f v \<noteq> None)
     \<and> s = ''{'' @ join_str (map (\<lambda>(k, v). member_text k (the (f v))) xs) '','' @ ''}''"
proof -
  have "those (map (\<lambda>(k, t). map_option (\<lambda>t. appendString k @ '':'' @ t) t) (map (\<lambda>(k, v). (k, f v)) xs))
      = (if \<forall>(k, v) \<in> set xs. f v \<noteq> None then Some (map (\<lambda>(k, v). member_text k (the (f v))) xs) else None)"
    by (induction xs) (auto simp: member_text_def split: option.splits)
  then show ?thesis unfolding object_text_def by (auto simp del: map_map)
qed

lemma array_text_Some:
  "array_text (map f xs) = Some s \<longleftrightarrow>
     (\<forall>v \<in> set xs. f v \<noteq> None) \<and> s = ''['' @ join_str (map (\<lambda>v. the (f v)) xs) '','' @ '']''"
proof -
  have "those (map f xs) = (if \<forall>v \<in> set xs. f v \<noteq> None then Some (map (\<lambda>v. the (f v)) xs) else None)"
    by (induction xs) (auto split: option.splits)
  then show ?thesis by (auto simp: array_text_def)
qed

lemma canonical_object:
  assumes "object_text (map (\<lambda>(k, v). (k, append_any v)) (order_fields fs)) = Some s"
    and "distinct (map fst fs)" and "list_all (\<lambda>(k, v). utf8 k) fs"
    and "\<And>k v s'. (k, v) \<in> set fs \<Longrightarrow> append_any v = Some s' \<Longrightarrow> canonical s'"
  shows "canonical s"
proof -
  define S where "S v = the (append_any v)" for v
  define T where "T v = (SOME t. reads_as (S v) t \<and> append_any t = Some (S v))" for v
  from assms(1) have some: "\<forall>(k, v) \<in> set (order_fields fs). append_any v \<noteq> None"
      and s: "s = ''{'' @ join_str (map (\<lambda>(k, v). member_text k (S v)) (order_fields fs)) '','' @ ''}''"
    unfolding object_text_Some S_def by auto
  have T: "reads_as (S v) (T v) \<and> append_any (T v) = Some (S v)" if "(k, v) \<in> set fs" for k v
  proof -
    have "append_any v = Some (S v)" using some that by (auto simp: S_def)
    then show ?thesis using assms(4) [OF that] unfolding canonical_def T_def by (metis (mono_tags, lifting) someI_ex)
  qed
  let ?ps = "map (\<lambda>(k, v). (k, S v)) (order_fields fs)" and ?qs = "map (\<lambda>(k, v). (k, T v)) (order_fields fs)"
  have "list_all2 member_reads ?ps ?qs"
    using T assms(3) by (auto simp: list_all2_map1 list_all2_map2 list_all2_same list_all_iff)
  moreover have "distinct (map fst ?ps)"
    using distinct_order_fields [OF assms(2)] by (simp add: comp_def case_prod_beta)
  moreover have "map (\<lambda>(k, s). member_text k s) ?ps = map (\<lambda>(k, v). member_text k (S v)) (order_fields fs)"
    by (simp add: comp_def case_prod_beta)
  ultimately have "reads_as s (J_obj ?qs)"
    unfolding s using reads_object [of ?ps ?qs] by metis
  moreover have "append_any (J_obj ?qs) = Some s"
  proof -
    have "append_any (J_obj ?qs) = object_text (map (\<lambda>(k, v). (k, append_any (T v))) (order_fields fs))"
      by (simp add: order_fields_map order_fields_idem comp_def) (simp add: case_prod_unfold)
    also have "\<dots> = Some s"
      unfolding object_text_Some s using T by (auto simp: intro!: arg_cong [of _ _ "\<lambda>x. join_str x _"])
    finally show ?thesis .
  qed
  ultimately show ?thesis by (auto simp: canonical_def)
qed

lemma canonical_list:
  assumes "array_text (map append_any vs) = Some s"
    and "\<And>v s'. v \<in> set vs \<Longrightarrow> append_any v = Some s' \<Longrightarrow> canonical s'"
  shows "canonical s"
proof -
  define S where "S v = the (append_any v)" for v
  define T where "T v = (SOME t. reads_as (S v) t \<and> append_any t = Some (S v))" for v
  from assms(1) have some: "\<forall>v \<in> set vs. append_any v \<noteq> None"
      and s: "s = ''['' @ join_str (map S vs) '','' @ '']''"
    unfolding array_text_Some S_def by auto
  have T: "reads_as (S v) (T v) \<and> append_any (T v) = Some (S v)" if "v \<in> set vs" for v
  proof -
    have "append_any v = Some (S v)" using some that by (auto simp: S_def)
    then show ?thesis using assms(2) [OF that] unfolding canonical_def T_def by (metis (mono_tags, lifting) someI_ex)
  qed
  have "list_all2 reads_as (map S vs) (map T vs)"
    using T by (auto simp: list_all2_map1 list_all2_map2 list_all2_same)
  moreover have "append_any (J_list (map T vs)) = Some s"
  proof -
    have "append_any (J_list (map T vs)) = array_text (map (\<lambda>v. append_any (T v)) vs)" by (simp add: comp_def)
    also have "\<dots> = Some s"
      unfolding array_text_Some s using T by (auto simp: intro!: arg_cong [of _ _ "\<lambda>x. join_str x _"])
    finally show ?thesis .
  qed
  ultimately show ?thesis using reads_list [of "map S vs" "map T vs"] unfolding canonical_def s by blast
qed

lemma append_canonical: "append_any v = Some s \<Longrightarrow> well_formed v \<Longrightarrow> canonical s"
proof (induction v arbitrary: s rule: append_any.induct)
  case 1
  then show ?case using reads_literals by (auto simp: canonical_def)
next
  case (2 b)
  then show ?case using reads_literals by (cases b) (force simp: canonical_def)+
next
  case (3 s s')
  then show ?case using reads_string [of s] by (auto simp: canonical_def intro!: exI [of _ "J_str s"])
next
  case (4 f)
  then have "\<And>r. f = Fin r \<Longrightarrow> representable r" by simp
  with 4 number_canonical [of f] show ?case by (auto simp: canonical_def)
next
  case (5 i)
  then show ?case using number_canonical [of "float_of_int i"]
    by (auto simp: canonical_def float_of_int_def dest: representable_round)
next
  case (6 n)
  then obtain f where f: "parse_float n = Some f" "s = appendNumber f" by auto
  then have "\<And>r. f = Fin r \<Longrightarrow> representable r" using parse_float_representable by simp
  with f number_canonical [of f] show ?case by (auto simp: canonical_def)
next
  case (7 raw)
  then show ?case by (auto dest: decode_raw_well_formed split: option.splits)
next
  case (8 fs)
  then show ?case
    by (intro canonical_object [of fs s]) (auto simp: list_all_iff)
next
  case (9 fs)
  have "distinct (map fst (sort_key fst fs))"
    using 9 by (metis mset_map mset_sort mset_eq_imp_distinct_iff well_formed.simps(4))
  with 9 show ?case by (intro canonical_object [of "sort_key fst fs" s]) (auto simp: list_all_iff)
next
  case (10 vs)
  then show ?case by (intro canonical_list [of vs s]) (auto simp: list_all_iff)
qed simp

lemma canonical_Canon: "canonical s \<Longrightarrow> Canon s = Some s"
proof -
  assume "canonical s"
  then obtain t where t: "reads_as s t" "append_any t = Some s" by (auto simp: canonical_def)
  have "decodeTree (new_decoder s) = Some (t, at_state [] tokenTopValue [])"
    using reads_as_decode [OF t(1), of "[]" tokenTopValue "[]"] by (simp add: new_decoder_def delimited_def)
  with t(2) show ?thesis by (simp add: Canon_def decode_raw_def more_tokens_def)
qed

text \<open>The fixed point as the package comment demands it of everything that is signed.\<close>

lemma Canon_idempotent: "Canon raw = Some s \<Longrightarrow> Canon s = Some s"
  using append_canonical [of "J_raw raw" s] canonical_Canon by (simp add: Canon_def)

section \<open>Properties\<close>

text \<open>
  What \<open>Marshal\<close> signs survives the peer: the text of a value (raw JSON included) is a fixed point of
  parsing and printing again.
\<close>

theorem marshal_fixed_point:
  assumes "Marshal v = Some s" and "well_formed v"
  shows "Canon s = Some s"
  using assms by (auto simp: Marshal_def intro: canonical_Canon append_canonical)

theorem marshal_fixed_point_witness: "Canon ''{\"7\":[],\"a\":[true,\"x\"]}'' = Some ''{\"7\":[],\"a\":[true,\"x\"]}''"
proof -
  define v where "v = J_obj [(''a'', J_list [J_bool True, J_str ''x'']), (''7'', J_list [])]"
  have "Marshal v = Some ''{\"7\":[],\"a\":[true,\"x\"]}''" unfolding v_def by code_simp
  moreover have "well_formed v"
    by (simp add: v_def utf8_single rune_len_ascii ascii_val_def)
  ultimately show ?thesis by (rule marshal_fixed_point)
qed

text \<open>
  Numbers survive: the text of a \<open>float64\<close> reads back as that number.
\<close>

theorem number_roundtrip:
  assumes "representable r"
  shows "parse_float (NumberToString r) = Some (Fin r)"
  using assms by (rule number_reads)

theorem number_roundtrip_witness: "parse_float (NumberToString (1/4)) = Some (Fin (1/4))"
proof -
  have "representable (1/4)" by code_simp
  then show ?thesis by (rule number_roundtrip)
qed

text \<open>
  \<open>More\<close> also answers no at a closing bracket, so the check against trailing garbage lets one pass.
\<close>

lemma trailing_bracket_accepted: "Canon ''true]x'' = Some ''true'' \<and> Canon ''true x'' = None"
  by code_simp

end
