(* ===== verification/HubSigner.thy ===== *)
theory HubSigner
  imports JsCanon
begin

text \<open>
  \<open>internal/hub/signer.go\<close> and \<open>sendSignedMessage\<close> of \<open>hub.go\<close>: how messages to and from the hub are
  signed. Outgoing messages are printed canonically; of incoming ones the raw values are cut out of the
  bytes, joined again and compared with the signature. HMAC-SHA256 in hexadecimal is the parameter
  \<open>hmac\<close>. The scanner's position is the input that is left.
\<close>

section \<open>The scanner\<close>

abbreviation nul :: char where "nul \<equiv> CHR 0x00"

text \<open>At the end of the input \<open>peek\<close> is the zero byte.\<close>

definition peek :: "string \<Rightarrow> char" where
  "peek s = (case s of [] \<Rightarrow> nul | c # _ \<Rightarrow> c)"

definition expect_char :: "char \<Rightarrow> string \<Rightarrow> string option" where
  "expect_char c s = (case s of [] \<Rightarrow> None | x # xs \<Rightarrow> if x = c then Some xs else None)"

text \<open>\<open>scanString\<close> behind the opening quote.\<close>

fun scan_quoted :: "string \<Rightarrow> (string \<times> string) option" where
  "scan_quoted [] = None"
| "scan_quoted (c # cs) =
     (if c = backslash then
        (case cs of [] \<Rightarrow> None | e # es \<Rightarrow> map_option (\<lambda>(b, r). (c # e # b, r)) (scan_quoted es))
      else if c = dquote then Some ([c], cs)
      else map_option (\<lambda>(b, r). (c # b, r)) (scan_quoted cs))"

definition scanString :: "string \<Rightarrow> (string \<times> string) option" where
  "scanString s =
     (case expect_char dquote s of
        None \<Rightarrow> None
      | Some cs \<Rightarrow> map_option (\<lambda>(b, r). (dquote # b, r)) (scan_quoted cs))"

definition value_end :: "char \<Rightarrow> bool" where
  "value_end c \<longleftrightarrow> c = CHR '','' \<or> c = CHR ''}'' \<or> c = CHR '']'' \<or> json_space c"

text \<open>Numbers and literals are not looked at, only delimited.\<close>

definition scan_bare :: "string \<Rightarrow> (string \<times> string) option" where
  "scan_bare s =
     (let tok = takeWhile (\<lambda>c. \<not> value_end c) s
      in if tok = [] then None else Some (tok, drop (length tok) s))"

text \<open>A key and its colon, inside an object.\<close>

definition scan_key :: "string \<Rightarrow> (string \<times> string) option" where
  "scan_key s =
     (case scanString (skip_space s) of
        None \<Rightarrow> None
      | Some (key, s1) \<Rightarrow> map_option (\<lambda>s2. (key @ '':'', s2)) (expect_char (CHR '':'') (skip_space s1)))"

function scanValue :: "string \<Rightarrow> (string \<times> string) option"
  and scan_items :: "char \<Rightarrow> char \<Rightarrow> string \<Rightarrow> string \<Rightarrow> (string \<times> string) option" where
  "scanValue s0 =
     (case skip_space s0 of
        [] \<Rightarrow> None
      | c # cs \<Rightarrow>
          if c = nul then None
          else if c = dquote then scanString (c # cs)
          else if c = CHR ''{'' \<or> c = CHR ''['' then
            (let close = (if c = CHR ''['' then CHR '']'' else CHR ''}'')
             in if peek (skip_space cs) = close then Some ([c, close], tl (skip_space cs))
                else scan_items c close [c] (skip_space cs))
          else scan_bare (c # cs))"
| "scan_items opn close out s =
     (case (if opn = CHR ''{'' then scan_key s else Some ([], skip_space s)) of
        None \<Rightarrow> None
      | Some (key, s1) \<Rightarrow>
          (case scanValue s1 of
             None \<Rightarrow> None
           | Some (inner, s2) \<Rightarrow>
               (case skip_space s2 of
                  [] \<Rightarrow> None
                | c # s3 \<Rightarrow>
                    if c = CHR '','' then scan_items opn close (out @ key @ inner @ '','') s3
                    else if c = close then Some (out @ key @ inner @ [close], s3)
                    else None)))"
  by pat_completeness auto

lemma scan_quoted_split: "scan_quoted s = Some (b, r) \<Longrightarrow> s = b @ r \<and> b \<noteq> []"
  by (induction s arbitrary: b r rule: scan_quoted.induct) (auto split: if_splits list.splits)

lemma scanString_split: "scanString s = Some (b, r) \<Longrightarrow> s = b @ r \<and> b \<noteq> []"
  by (auto simp: scanString_def expect_char_def dest!: scan_quoted_split split: option.splits list.splits if_splits)

lemma scan_bare_split: "scan_bare s = Some (b, r) \<Longrightarrow> s = b @ r \<and> b \<noteq> []"
  by (auto simp: scan_bare_def Let_def takeWhile_eq_take [symmetric] split: if_splits) (metis append_take_drop_id takeWhile_eq_take)

lemma skip_le: "length (skip_space s) \<le> length s"
  by (rule length_dropWhile_le)

lemma scan_key_shorter: "scan_key s = Some (b, r) \<Longrightarrow> length r < length s"
  using skip_le [of s]
  by (auto simp: scan_key_def expect_char_def dest!: scanString_split skip_shorter split: option.splits prod.splits list.splits if_splits)

lemma scan_shorter_partial:
  "scanValue_scan_items_dom (Inl s) \<Longrightarrow> \<forall>v r. scanValue s = Some (v, r) \<longrightarrow> length r < length s"
  "scanValue_scan_items_dom (Inr (opn, close, out, s)) \<Longrightarrow>
     \<forall>v r. scan_items opn close out s = Some (v, r) \<longrightarrow> length r < length s"
proof (induction s and opn close out s rule: scanValue_scan_items.pinduct)
  case (1 s)
  show ?case
  proof (intro allI impI)
    fix v r
    assume v: "scanValue s = Some (v, r)"
    show "length r < length s"
    proof (cases "skip_space s")
      case Nil
      with 1 v show ?thesis by (simp add: scanValue.psimps)
    next
      case (Cons c cs)
      have cs: "length cs < length s" using skip_shorter [OF Cons] .
      have cs': "length (skip_space cs) \<le> length cs" by (rule skip_le)
      consider "c = dquote" | "c = CHR ''{'' \<or> c = CHR ''[''" | "c \<noteq> dquote" "c \<noteq> CHR ''{''" "c \<noteq> CHR ''[''" by blast
      then show ?thesis
      proof cases
        case 1
        with \<open>scanValue_scan_items_dom (Inl s)\<close> v Cons have "scanString (c # cs) = Some (v, r)"
          by (simp add: scanValue.psimps)
        from scanString_split [OF this] cs show ?thesis by (auto simp: Cons_eq_append_conv)
      next
        case 2
        define close where "close = (if c = CHR ''['' then CHR '']'' else CHR ''}'')"
        have "c \<noteq> nul" "c \<noteq> dquote" "close \<noteq> nul" using 2 by (auto simp: close_def)
        show ?thesis
        proof (cases "peek (skip_space cs) = close")
          case True
          with \<open>close \<noteq> nul\<close> obtain xs where "skip_space cs = close # xs"
            by (auto simp: peek_def split: list.splits)
          moreover have "r = tl (skip_space cs)"
            using True 2 \<open>scanValue_scan_items_dom (Inl s)\<close> v Cons by (auto simp: scanValue.psimps close_def)
          ultimately show ?thesis using cs cs' by simp
        next
          case False
          then have "scan_items c close [c] (skip_space cs) = Some (v, r)"
            using 2 \<open>scanValue_scan_items_dom (Inl s)\<close> v Cons by (auto simp: scanValue.psimps close_def)
          then have "length r < length (skip_space cs)"
            using "1.IH" [OF Cons \<open>c \<noteq> nul\<close> \<open>c \<noteq> dquote\<close> 2 close_def False] by blast
          with cs cs' show ?thesis by simp
        qed
      next
        case 3
        with \<open>scanValue_scan_items_dom (Inl s)\<close> v Cons have "scan_bare (c # cs) = Some (v, r)"
          by (simp add: scanValue.psimps split: if_splits)
        from scan_bare_split [OF this] cs show ?thesis by (auto simp: Cons_eq_append_conv)
      qed
    qed
  qed
next
  case (2 opn close out s)
  show ?case
  proof (intro allI impI)
    fix v r
    assume v: "scan_items opn close out s = Some (v, r)"
    then obtain key s1 inner s2 c s3 where p:
        "(if opn = CHR ''{'' then scan_key s else Some ([], skip_space s)) = Some (key, s1)"
        "scanValue s1 = Some (inner, s2)" "skip_space s2 = c # s3"
        "c = CHR '','' \<and> scan_items opn close (out @ key @ inner @ '','') s3 = Some (v, r)
          \<or> c \<noteq> CHR '','' \<and> r = s3"
      using "2.hyps" by (auto simp: scan_items.psimps split: option.splits list.splits if_splits)
    have "length s1 \<le> length s" using p(1) scan_key_shorter [of s key s1] skip_le [of s] by (auto split: if_splits)
    moreover have "length s2 < length s1" using "2.IH"(1) [OF p(1) refl] p(2) by blast
    moreover have "length s3 < length s2" using skip_shorter [OF p(3)] .
    moreover have "length r \<le> length s3"
      using p(4) "2.IH"(2) [OF p(1) refl p(2) refl p(3)] by (auto intro: less_imp_le)
    ultimately show "length r < length s" by simp
  qed
qed

lemma scan_dom: "All scanValue_scan_items_dom"
proof (rule "scanValue_scan_items.termination" [of "measure (case_sum (\<lambda>s. 2 * length s) (\<lambda>(_, _, _, s). 2 * length s + 1))"], goal_cases)
  case 1
  show ?case by simp
next
  case (2 s c cs close)
  then show ?case using skip_shorter [of s c cs] skip_le [of cs] by simp
next
  case (3 opn close out s x key s1)
  then show ?case using scan_key_shorter [of s key s1] skip_le [of s] by (auto split: if_splits)
next
  case (4 opn close out s x key s1 y inner s2 c s3)
  then have "length s2 < length s1" "length s3 < length s2"
    using scan_shorter_partial(1) skip_shorter by auto
  with 4 show ?case using scan_key_shorter [of s key s1] skip_le [of s] by (auto split: if_splits)
qed

termination scanValue
  by (rule scan_dom)

lemmas scanValue_shorter = scan_shorter_partial(1) [OF scan_dom [THEN spec], rule_format]

declare scanValue.simps [simp del] scan_items.simps [simp del]

section \<open>Cutting a message into its members\<close>

text \<open>\<open>json.Unmarshal\<close> of raw bytes into a \<open>string\<close>.\<close>

definition unmarshal_string :: "string \<Rightarrow> string option" where
  "unmarshal_string raw =
     (if raw = ''null'' then Some []
      else case expect_char dquote raw of
             None \<Rightarrow> None
           | Some cs \<Rightarrow> (case lex_string cs of
                 None \<Rightarrow> None
               | Some (b, r) \<Rightarrow> if skip_space r = [] then Some (unquote b) else None))"

type_synonym raw_members = "string \<Rightarrow> string option"

function splice_members :: "raw_members \<Rightarrow> string \<Rightarrow> raw_members option" where
  "splice_members flds s =
     (case scanString (skip_space s) of
        None \<Rightarrow> None
      | Some (keyRaw, s1) \<Rightarrow>
          (case unmarshal_string keyRaw of
             None \<Rightarrow> None
           | Some key \<Rightarrow>
               (case expect_char (CHR '':'') (skip_space s1) of
                  None \<Rightarrow> None
                | Some s2 \<Rightarrow>
                    (case scanValue s2 of
                       None \<Rightarrow> None
                     | Some (val, s3) \<Rightarrow>
                         (case skip_space s3 of
                            [] \<Rightarrow> None
                          | c # s4 \<Rightarrow>
                              if c = CHR '','' then splice_members (flds(key \<mapsto> val)) s4
                              else if c = CHR ''}'' \<and> skip_space s4 = [] then Some (flds(key \<mapsto> val))
                              else None)))))"
  by pat_completeness auto
termination
proof (relation "measure (\<lambda>(_, s). length s)", goal_cases)
  case (2 flds s x keyRaw s1 key s2 y val s3 c s4)
  then have "length s2 < length s1" "length s3 < length s2" "length s4 < length s3"
    using scanValue_shorter [of s2 val s3] skip_shorter [of s3 c s4] skip_le [of s1]
    by (auto simp: expect_char_def split: list.splits if_splits)
  moreover have "length s1 < length s"
    using 2 scanString_split [of "skip_space s" keyRaw s1] skip_le [of s] by (cases keyRaw) auto
  ultimately show ?case by simp
qed simp

declare splice_members.simps [simp del]

definition spliceTopLevel :: "string \<Rightarrow> raw_members option" where
  "spliceTopLevel raw =
     (case expect_char (CHR ''{'') (skip_space raw) of
        None \<Rightarrow> None
      | Some s1 \<Rightarrow>
          if peek (skip_space s1) = CHR ''}''
          then if skip_space (tl (skip_space s1)) = [] then Some Map.empty else None
          else splice_members Map.empty s1)"

section \<open>Signing\<close>

definition jsTruthy :: "jval \<Rightarrow> bool" where
  "jsTruthy v =
     (case v of
        J_nil \<Rightarrow> False
      | J_bool b \<Rightarrow> b
      | J_str s \<Rightarrow> s \<noteq> []
      | J_float f \<Rightarrow> f \<noteq> Fin 0 \<and> f \<noteq> NaN
      | J_int i \<Rightarrow> i \<noteq> 0
      | _ \<Rightarrow> True)"

text \<open>The outer \<^const>\<open>None\<close> is an error; the empty signature stands for none.\<close>

definition sign_message :: "(string \<Rightarrow> string \<Rightarrow> string) \<Rightarrow> jval \<Rightarrow> string \<Rightarrow> jval \<Rightarrow> int \<Rightarrow> string \<Rightarrow> string option" where
  "sign_message hmac i msgType data timestamp secret =
     (if secret = [] then Some []
      else map_option (hmac secret)
        (Marshal (J_obj ((if jsTruthy i then [(''id'', i)] else [])
           @ [(''type'', J_str msgType), (''data'', data), (''timestamp'', J_int timestamp)]))))"

text \<open>\<open>sendSignedMessage\<close> up to the sending.\<close>

definition signed_message :: "(string \<Rightarrow> string \<Rightarrow> string) \<Rightarrow> string \<Rightarrow> jval \<Rightarrow> int \<Rightarrow> string \<Rightarrow> string option" where
  "signed_message hmac msgType content timestamp secret =
     (case sign_message hmac J_nil msgType content timestamp secret of
        None \<Rightarrow> None
      | Some signature \<Rightarrow>
          Marshal (J_obj [(''type'', J_str msgType), (''data'', content), (''timestamp'', J_int timestamp),
            (''signature'', if signature \<noteq> [] then J_str signature else J_nil)]))"

section \<open>Verification\<close>

definition rawTruthy :: "string \<Rightarrow> bool" where
  "rawTruthy raw =
     (if raw \<in> {''null'', ''false'', [dquote, dquote]} then False
      else case parse_float raw of Some f \<Rightarrow> f \<noteq> Fin 0 | None \<Rightarrow> True)"

definition maxMessageAge :: rat where
  "maxMessageAge = 300"

text \<open>\<open>math.Abs(float64(now.Unix())-ts) > maxMessageAge\<close>, in floating point.\<close>

definition out_of_window :: "int \<Rightarrow> float64 \<Rightarrow> bool" where
  "out_of_window now ts =
     (case ts of
        NaN \<Rightarrow> False
      | Fin t \<Rightarrow>
          (case float_of_int now of
             Fin n \<Rightarrow> (case round64 (n - t) of Fin d \<Rightarrow> \<bar>d\<bar> > maxMessageAge | _ \<Rightarrow> True)
           | _ \<Rightarrow> True)
      | _ \<Rightarrow> True)"

definition append_part :: "string \<Rightarrow> string \<times> string \<Rightarrow> string" where
  "append_part payload p =
     payload @ (if 1 < length payload then '','' else []) @ [dquote] @ fst p @ [dquote] @ '':'' @ snd p"

definition signed_parts :: "raw_members \<Rightarrow> (string \<times> string) list" where
  "signed_parts flds =
     (case flds ''id'' of Some v \<Rightarrow> if rawTruthy v then [(''id'', v)] else [] | None \<Rightarrow> [])
     @ (case flds ''type'' of Some v \<Rightarrow> [(''type'', v)] | None \<Rightarrow> [])
     @ (case flds ''data'' of Some v \<Rightarrow> [(''data'', v)] | None \<Rightarrow> [])
     @ (case flds ''timestamp'' of Some v \<Rightarrow> [(''timestamp'', v)] | None \<Rightarrow> [])"

definition signed_payload :: "raw_members \<Rightarrow> string" where
  "signed_payload flds = foldl append_part ''{'' (signed_parts flds) @ ''}''"

datatype verdict = Verified | Unparseable | Missing | Too_old | Bad_signature

definition verifyWire :: "(string \<Rightarrow> string \<Rightarrow> string) \<Rightarrow> string \<Rightarrow> string \<Rightarrow> int \<Rightarrow> verdict" where
  "verifyWire hmac raw secret now =
     (case spliceTopLevel raw of
        None \<Rightarrow> Unparseable
      | Some flds \<Rightarrow>
          (case (flds ''signature'', flds ''timestamp'') of
             (Some sigRaw, Some tsRaw) \<Rightarrow>
               if \<not> rawTruthy sigRaw \<or> \<not> rawTruthy tsRaw then Missing
               else
                 (case unmarshal_string sigRaw of
                    None \<Rightarrow> Missing
                  | Some signature \<Rightarrow>
                      (case parse_float tsRaw of
                         None \<Rightarrow> Missing
                       | Some ts \<Rightarrow>
                           if out_of_window now ts then Too_old
                           else if signature \<noteq> hmac secret (signed_payload flds) then Bad_signature
                           else Verified))
           | _ \<Rightarrow> Missing))"

section \<open>What the scanner returns, it reads again\<close>

text \<open>A slice that is scanned back as it is, wherever it is put.\<close>

definition rescans :: "string \<Rightarrow> bool" where
  "rescans v \<longleftrightarrow>
     (\<exists>c cs. v = c # cs \<and> \<not> value_end c)
     \<and> (\<forall>r. delimited r \<longrightarrow> scanValue (v @ r) = Some (v, r))"

lemma value_end_facts: "\<not> value_end c \<Longrightarrow> \<not> json_space c \<and> c \<notin> set ''],}''"
  by (auto simp: value_end_def)

lemma rescans_start: "rescans v \<Longrightarrow> \<exists>c cs. v = c # cs \<and> \<not> value_end c"
  by (simp add: rescans_def)

lemma rescans_scan: "rescans v \<Longrightarrow> delimited r \<Longrightarrow> scanValue (v @ r) = Some (v, r)"
  by (simp add: rescans_def)

lemma skip_start: "\<not> value_end c \<Longrightarrow> skip_space (c # s) = c # s"
  by (simp add: value_end_def)

lemma scan_quoted_again: "scan_quoted s = Some (b, r) \<Longrightarrow> scan_quoted (b @ r') = Some (b, r')"
  by (induction s arbitrary: b r rule: scan_quoted.induct) (auto split: if_splits list.splits)

lemma scanString_again:
  assumes "scanString s = Some (b, r)"
  shows "scanString (b @ r') = Some (b, r')" and "\<exists>t. b = dquote # t"
proof -
  from assms obtain cs b' where b: "scan_quoted cs = Some (b', r)" "b = dquote # b'"
    by (auto simp: scanString_def split: option.splits)
  from scan_quoted_again [OF b(1)] b(2) show "scanString (b @ r') = Some (b, r')"
    by (simp add: scanString_def expect_char_def)
  show "\<exists>t. b = dquote # t" using b by simp
qed

lemma delimited_end: "delimited r \<Longrightarrow> r = [] \<or> value_end (hd r)"
  by (auto simp: delimited_def value_end_def)

lemma scan_bare_again: "scan_bare s = Some (b, r) \<Longrightarrow> delimited r' \<Longrightarrow> scan_bare (b @ r') = Some (b, r')"
proof -
  assume b: "scan_bare s = Some (b, r)" and r: "delimited r'"
  then have tok: "b = takeWhile (\<lambda>c. \<not> value_end c) s" "b \<noteq> []" by (auto simp: scan_bare_def Let_def split: if_splits)
  then have "\<forall>c \<in> set b. \<not> value_end c" by (auto dest: set_takeWhileD)
  then have "takeWhile (\<lambda>c. \<not> value_end c) (b @ r') = b @ takeWhile (\<lambda>c. \<not> value_end c) r'"
    by (simp add: takeWhile_append2)
  also have "takeWhile (\<lambda>c. \<not> value_end c) r' = []" using delimited_end [OF r] by (cases r') auto
  finally show ?thesis using tok(2) by (simp add: scan_bare_def)
qed

lemma scan_key_again:
  assumes "scan_key s = Some (key, r)" and "\<not> value_end c"
  shows "scan_key (key @ c # r') = Some (key, c # r')" and "\<exists>t. key = dquote # t"
proof -
  from assms(1) obtain k s1 where k: "scanString (skip_space s) = Some (k, s1)" "key = k @ '':''"
    by (auto simp: scan_key_def split: option.splits)
  from scanString_again [OF k(1)] obtain t where t: "k = dquote # t" "\<And>r. scanString (k @ r) = Some (k, r)" by blast
  then show "scan_key (key @ c # r') = Some (key, c # r')" "\<exists>t. key = dquote # t"
    using k(2) by (auto simp: scan_key_def expect_char_def json_space_def)
qed

text \<open>The same for the members between two brackets.\<close>

definition rescans_items :: "char \<Rightarrow> char \<Rightarrow> string \<Rightarrow> bool" where
  "rescans_items opn close body \<longleftrightarrow>
     (\<exists>c cs. body = c # cs \<and> \<not> value_end c)
     \<and> (\<forall>out r. scan_items opn close out (body @ r) = Some (out @ body, r))"

lemma rescans_items_step:
  assumes "(if opn = CHR ''{'' then scan_key s else Some ([], skip_space s)) = Some (key, s1)"
    and "rescans inner" and "(opn, close) \<in> {(CHR ''{'', CHR ''}''), (CHR ''['', CHR '']'')}"
    and "rest = [close] \<or> (\<exists>body. rest = CHR '','' # body \<and> rescans_items opn close body)"
  shows "rescans_items opn close (key @ inner @ rest)"
proof -
  obtain c cs where c: "inner = c # cs" "\<not> value_end c" using rescans_start [OF assms(2)] by blast
  have del: "delimited (rest @ r)" for r using assms(3,4) by (auto simp: delimited_def)
  have key: "(if opn = CHR ''{'' then scan_key (key @ inner @ x) else Some ([], skip_space (key @ inner @ x))) = Some (key, inner @ x)" for x
    using assms(1) scan_key_again(1) [of s key s1 c] c value_end_facts [OF c(2)] by (auto split: if_splits)
  have start: "\<exists>d ds. key @ inner @ rest = d # ds \<and> \<not> value_end d"
    using assms(1) scan_key_again(2) [of s key s1 c] c by (auto simp: value_end_def json_space_def split: if_splits)
  have "scan_items opn close out ((key @ inner @ rest) @ r) = Some (out @ key @ inner @ rest, r)" for out r
  proof -
    have "scanValue (inner @ rest @ r) = Some (inner, rest @ r)" by (rule rescans_scan [OF assms(2) del])
    then have "scan_items opn close out ((key @ inner @ rest) @ r)
        = (case skip_space (rest @ r) of [] \<Rightarrow> None
           | c # s3 \<Rightarrow> if c = CHR '','' then scan_items opn close (out @ key @ inner @ '','') s3
                       else if c = close then Some (out @ key @ inner @ [close], s3) else None)"
      by (subst scan_items.simps) (simp only: append_assoc key option.case prod.case)
    then show ?thesis using assms(3,4) by (auto simp: json_space_def rescans_items_def)
  qed
  with start show ?thesis by (simp add: rescans_items_def)
qed

lemma rescans_brackets:
  assumes "rescans_items opn close body" and "(opn, close) \<in> {(CHR ''{'', CHR ''}''), (CHR ''['', CHR '']'')}"
  shows "rescans (opn # body)"
proof -
  obtain c cs where c: "body = c # cs" "\<not> value_end c" using assms(1) by (auto simp: rescans_items_def)
  have "peek (skip_space (body @ r)) \<noteq> close" "skip_space (body @ r) = body @ r" for r
    using c assms(2) value_end_facts [OF c(2)] by (auto simp: peek_def skip_start)
  then have "scanValue ((opn # body) @ r) = Some (opn # body, r)" for r
    using assms by (subst scanValue.simps) (auto simp: json_space_def rescans_items_def)
  moreover have "\<not> value_end opn" using assms(2) by (auto simp: value_end_def json_space_def)
  ultimately show ?thesis by (simp add: rescans_def)
qed

lemma rescans_empty:
  "(opn, close) \<in> {(CHR ''{'', CHR ''}''), (CHR ''['', CHR '']'')} \<Longrightarrow> rescans [opn, close]"
proof -
  assume oc: "(opn, close) \<in> {(CHR ''{'', CHR ''}''), (CHR ''['', CHR '']'')}"
  have "scanValue (opn # close # r) = Some ([opn, close], r)" for r
    using oc by (subst scanValue.simps) (elim insertE; simp add: json_space_def peek_def)
  with oc show ?thesis by (auto simp: rescans_def value_end_def json_space_def)
qed

lemma rescans_string: "scanString s = Some (b, r) \<Longrightarrow> rescans b"
proof -
  assume s: "scanString s = Some (b, r)"
  obtain t where t: "b = dquote # t" using scanString_again(2) [OF s] by blast
  have "scanValue (b @ r') = Some (b, r')" for r'
    using scanString_again(1) [OF s, of r'] t by (subst scanValue.simps) (simp add: json_space_def)
  with t show ?thesis by (simp add: rescans_def value_end_def json_space_def)
qed

lemma rescans_bare:
  assumes "scan_bare (c # cs) = Some (b, r)" and "c \<notin> {nul, dquote, CHR ''{'', CHR ''[''}"
  shows "rescans b"
proof -
  have "\<not> value_end c" "\<exists>t. b = c # t"
    using assms(1) by (auto simp: scan_bare_def Let_def split: if_splits)
  then obtain t where t: "b = c # t" "\<not> value_end c" by blast
  have "scanValue (b @ r') = Some (b, r')" if "delimited r'" for r'
    using scan_bare_again [OF assms(1) that] t assms(2) value_end_facts [OF t(2)]
    by (subst scanValue.simps) simp
  with t show ?thesis by (simp add: rescans_def)
qed

lemma scan_rescans:
  "scanValue s = Some (v, r) \<Longrightarrow> rescans v"
  "scan_items opn close out s = Some (v, r) \<Longrightarrow> (opn, close) \<in> {(CHR ''{'', CHR ''}''), (CHR ''['', CHR '']'')}
     \<Longrightarrow> \<exists>body. v = out @ body \<and> rescans_items opn close body"
proof (induction s and opn close out s arbitrary: v r and v r rule: scanValue_scan_items.induct)
  case (1 s)
  obtain c cs where c: "skip_space s = c # cs" "c \<noteq> nul"
    using "1.prems" by (subst (asm) scanValue.simps) (auto split: list.splits if_splits)
  consider "c = dquote" | "c \<noteq> dquote" "c = CHR ''{'' \<or> c = CHR ''[''" | "c \<noteq> dquote" "c \<noteq> CHR ''{''" "c \<noteq> CHR ''[''" by blast
  then show ?case
  proof cases
    case 1
    with "1.prems" c have "scanString (c # cs) = Some (v, r)" by (subst (asm) scanValue.simps) simp
    then show ?thesis by (rule rescans_string)
  next
    case 2
    define close where "close = (if c = CHR ''['' then CHR '']'' else CHR ''}'')"
    have oc: "(c, close) \<in> {(CHR ''{'', CHR ''}''), (CHR ''['', CHR '']'')}" using 2 by (auto simp: close_def)
    show ?thesis
    proof (cases "peek (skip_space cs) = close")
      case True
      with "1.prems" c 2 have "v = [c, close]" by (subst (asm) scanValue.simps) (auto simp: close_def)
      with rescans_empty [OF oc] show ?thesis by simp
    next
      case False
      with "1.prems" c 2 have "scan_items c close [c] (skip_space cs) = Some (v, r)"
        by (subst (asm) scanValue.simps) (auto simp: close_def)
      from "1.IH" [OF c 2 close_def False this oc] rescans_brackets [OF _ oc] show ?thesis by auto
    qed
  next
    case 3
    with "1.prems" c have "scan_bare (c # cs) = Some (v, r)" by (subst (asm) scanValue.simps) simp
    then show ?thesis using 3 c(2) by (intro rescans_bare) auto
  qed
next
  case (2 opn close out s)
  obtain key s1 inner s2 c s3 where p:
      "(if opn = CHR ''{'' then scan_key s else Some ([], skip_space s)) = Some (key, s1)"
      "scanValue s1 = Some (inner, s2)" "skip_space s2 = c # s3"
      "c = CHR '','' \<and> scan_items opn close (out @ key @ inner @ '','') s3 = Some (v, r)
        \<or> c \<noteq> CHR '','' \<and> c = close \<and> v = out @ key @ inner @ [close]"
    using "2.prems"(1) by (subst (asm) scan_items.simps) (auto split: option.splits list.splits if_splits)
  have inner: "rescans inner" using "2.IH"(1) [OF p(1) refl p(2)] .
  from p(4) show ?case
  proof
    assume more: "c = CHR '','' \<and> scan_items opn close (out @ key @ inner @ '','') s3 = Some (v, r)"
    with "2.IH"(2) [OF p(1) refl p(2) refl p(3)] "2.prems"(2)
    obtain body where "v = (out @ key @ inner @ '','') @ body" "rescans_items opn close body" by blast
    then show ?thesis using rescans_items_step [OF p(1) inner "2.prems"(2), of "CHR '','' # body"] by auto
  next
    assume "c \<noteq> CHR '','' \<and> c = close \<and> v = out @ key @ inner @ [close]"
    then show ?thesis using rescans_items_step [OF p(1) inner "2.prems"(2), of "[close]"] by auto
  qed
qed

section \<open>Printed members are cut out as they are\<close>

text \<open>Keys that no escape touches.\<close>

definition plain_key :: "string \<Rightarrow> bool" where
  "plain_key k \<longleftrightarrow> list_all (\<lambda>c. c \<noteq> dquote \<and> c \<noteq> backslash \<and> 32 \<le> ascii_val c \<and> ascii_val c < 128) k"

lemma plain_keys:
  "plain_key ''id''" "plain_key ''type''" "plain_key ''data''" "plain_key ''timestamp''" "plain_key ''signature''"
  by (simp_all add: plain_key_def ascii_val_def)

lemma plain_key_scan: "plain_key k \<Longrightarrow> scanString (dquote # k @ dquote # r) = Some (dquote # k @ [dquote], r)"
proof -
  assume k: "plain_key k"
  then have "scan_quoted (k @ dquote # r) = Some (k @ [dquote], r)"
    by (induction k) (auto simp: plain_key_def)
  then show ?thesis by (simp add: scanString_def expect_char_def)
qed

lemma plain_key_unmarshal: "plain_key k \<Longrightarrow> unmarshal_string (dquote # k @ [dquote]) = Some k"
proof -
  assume k: "plain_key k"
  then have "str_body k" by (induction k) (auto simp: plain_key_def intro: body_Nil body_plain)
  moreover have "unquote k = k" using k
  proof (induction k)
    case (Cons c k)
    then have "unquote (c # k) = take 1 (c # k) @ unquote (drop 1 (c # k))"
      by (intro unquote_rune) (auto simp: plain_key_def rune_len_ascii)
    with Cons show ?case by (simp add: plain_key_def)
  qed simp
  ultimately show ?thesis
    using lex_string_accepts [of k "[]"] by (simp add: unmarshal_string_def expect_char_def)
qed

lemma plain_key_append: "plain_key k \<Longrightarrow> appendString k = dquote # k @ [dquote]"
proof -
  assume "plain_key k"
  then have "concat (map escape_char k) = k"
    by (induction k) (auto simp: plain_key_def escape_char_def)
  then show ?thesis by (simp add: appendString_form)
qed

definition part_text :: "string \<times> string \<Rightarrow> string" where
  "part_text p = [dquote] @ fst p @ [dquote] @ '':'' @ snd p"

definition parts_ok :: "(string \<times> string) list \<Rightarrow> bool" where
  "parts_ok ps \<longleftrightarrow> list_all (\<lambda>(k, v). plain_key k \<and> rescans v) ps"

primrec add_parts :: "raw_members \<Rightarrow> (string \<times> string) list \<Rightarrow> raw_members" where
  "add_parts f [] = f"
| "add_parts f (p # ps) = add_parts (f(fst p \<mapsto> snd p)) ps"

lemma splice_part:
  assumes "plain_key k" and "rescans v" and "delimited (c # r)"
  shows "splice_members f (part_text (k, v) @ c # r)
    = (if c = CHR '','' then splice_members (f(k \<mapsto> v)) r
       else if c = CHR ''}'' \<and> skip_space r = [] then Some (f(k \<mapsto> v)) else None)"
proof -
  have "json_space c = False" using assms(3) by (auto simp: delimited_def json_space_def)
  then show ?thesis
    using plain_key_scan [OF assms(1)] plain_key_unmarshal [OF assms(1)] rescans_scan [OF assms(2,3)]
    by (subst splice_members.simps) (simp add: part_text_def json_space_def expect_char_def)
qed

lemma splice_tail:
  "parts_ok ps \<Longrightarrow> plain_key k \<Longrightarrow> rescans v \<Longrightarrow>
     splice_members f (part_text (k, v) @ tail_text (map part_text ps) @ ''}'')
       = Some (add_parts (f(k \<mapsto> v)) ps)"
proof (induction ps arbitrary: k v f)
  case Nil
  have "tail_text (map part_text []) @ ''}'' = CHR ''}'' # []" by (simp add: tail_text_def)
  moreover have "splice_members f (part_text (k, v) @ CHR ''}'' # []) = Some (f(k \<mapsto> v))"
    using Nil splice_part [of k v "CHR ''}''" "[]" f] by (simp add: delimited_def)
  ultimately show ?case by (simp only: add_parts.simps)
next
  case (Cons p ps)
  obtain k' v' where p: "p = (k', v')" by (cases p)
  define rest where "rest = tail_text (map part_text ps) @ ''}''"
  have "tail_text (map part_text (p # ps)) @ ''}'' = CHR '','' # part_text (k', v') @ rest"
    by (simp add: tail_text_def rest_def p)
  moreover have "splice_members f (part_text (k, v) @ CHR '','' # part_text (k', v') @ rest)
      = splice_members (f(k \<mapsto> v)) (part_text (k', v') @ rest)"
    using Cons.prems splice_part [of k v "CHR '',''" "part_text (k', v') @ rest" f] by (simp add: delimited_def)
  moreover have "splice_members (f(k \<mapsto> v)) (part_text (k', v') @ rest) = Some (add_parts ((f(k \<mapsto> v))(k' \<mapsto> v')) ps)"
    unfolding rest_def using Cons.prems by (intro Cons.IH) (auto simp: p parts_ok_def)
  ultimately show ?case by (simp only: add_parts.simps p fst_conv snd_conv)
qed

lemma splice_parts:
  assumes "parts_ok ps" and "ps \<noteq> []"
  shows "spliceTopLevel (''{'' @ join_str (map part_text ps) '','' @ ''}'') = Some (add_parts Map.empty ps)"
proof -
  obtain k v qs where ps: "ps = (k, v) # qs" using assms(2) by (cases ps) auto
  have "peek (skip_space (part_text (k, v) @ tail_text (map part_text qs) @ ''}'')) = dquote"
    by (simp add: part_text_def peek_def json_space_def)
  moreover have "splice_members Map.empty (part_text (k, v) @ tail_text (map part_text qs) @ ''}'')
      = Some (add_parts (Map.empty(k \<mapsto> v)) qs)"
    using assms(1) by (intro splice_tail) (auto simp: ps parts_ok_def)
  ultimately show ?thesis
    by (simp add: ps spliceTopLevel_def expect_char_def json_space_def join_tail)
qed

lemma payload_join: "signed_parts f \<noteq> [] \<Longrightarrow> signed_payload f = ''{'' @ join_str (map part_text (signed_parts f)) '','' @ ''}''"
proof -
  have step: "1 < length pre \<Longrightarrow> foldl append_part pre ps = pre @ tail_text (map part_text ps)" for pre ps
    by (induction ps arbitrary: pre) (auto simp: append_part_def tail_text_def part_text_def)
  have "foldl append_part ''{'' (p # ps) = ''{'' @ part_text p @ tail_text (map part_text ps)" for p ps
    by (simp add: append_part_def part_text_def step)
  then show "signed_parts f \<noteq> [] \<Longrightarrow> ?thesis"
    unfolding signed_payload_def by (cases "signed_parts f") (simp_all add: join_tail)
qed

text \<open>The members that the signature covers.\<close>

definition signed_part :: "raw_members \<Rightarrow> raw_members" where
  "signed_part f k =
     (if k \<in> {''type'', ''data'', ''timestamp''} then f k
      else if k = ''id'' then (case f k of Some v \<Rightarrow> if rawTruthy v then Some v else None | None \<Rightarrow> None)
      else None)"

lemma splice_members_rescans:
  "splice_members f s = Some g \<Longrightarrow> (\<And>k v. f k = Some v \<Longrightarrow> rescans v) \<Longrightarrow> g k = Some v \<Longrightarrow> rescans v"
proof (induction f s arbitrary: g k v rule: splice_members.induct)
  case (1 f s)
  obtain keyRaw s1 key s2 val s3 c s4 where p: "scanString (skip_space s) = Some (keyRaw, s1)"
      "unmarshal_string keyRaw = Some key" "expect_char (CHR '':'') (skip_space s1) = Some s2"
      "scanValue s2 = Some (val, s3)" "skip_space s3 = c # s4"
      "c = CHR '','' \<and> splice_members (f(key \<mapsto> val)) s4 = Some g \<or> c \<noteq> CHR '','' \<and> g = f(key \<mapsto> val)"
    using "1.prems"(1) by (subst (asm) splice_members.simps) (auto split: option.splits list.splits if_splits)
  have upd: "(f(key \<mapsto> val)) k' = Some v' \<Longrightarrow> rescans v'" for k' v'
    using "1.prems"(2) scan_rescans(1) [OF p(4)] by (auto split: if_splits)
  from p(6) show ?case
  proof
    assume more: "c = CHR '','' \<and> splice_members (f(key \<mapsto> val)) s4 = Some g"
    then have "splice_members (f(key \<mapsto> val)) s4 = Some g" "c = CHR '',''" by auto
    from "1.IH" [OF p(1) refl p(2,3,4) refl p(5) this(2,1)] upd "1.prems"(3) show ?thesis by blast
  qed (use upd "1.prems"(3) in auto)
qed

lemma splice_rescans: "spliceTopLevel raw = Some f \<Longrightarrow> f k = Some v \<Longrightarrow> rescans v"
  by (auto simp: spliceTopLevel_def dest: splice_members_rescans split: option.splits if_splits)

lemma payload_splices:
  assumes "spliceTopLevel raw = Some f" and "f ''timestamp'' = Some ts"
  shows "spliceTopLevel (signed_payload f) = Some (signed_part f)"
proof -
  have ok: "parts_ok (signed_parts f)"
    using splice_rescans [OF assms(1)] by (auto simp: parts_ok_def signed_parts_def plain_keys split: option.splits)
  have ne: "signed_parts f \<noteq> []" using assms(2) by (simp add: signed_parts_def)
  have "add_parts Map.empty (signed_parts f) = signed_part f"
    by (rule ext) (auto simp: signed_parts_def signed_part_def split: option.splits)
  with splice_parts [OF ok ne] payload_join [OF ne] show ?thesis by simp
qed

section \<open>Printed values are cut out as they are\<close>

lemma rescans_plain:
  assumes "s = c # cs" and "\<And>d. d \<in> set s \<Longrightarrow> \<not> value_end d" and "c \<notin> {nul, dquote, CHR ''{'', CHR ''[''}"
  shows "rescans s"
proof -
  have "takeWhile (\<lambda>d. \<not> value_end d) s = s" using assms(2) by (simp add: takeWhile_eq_all_conv)
  then have "scan_bare (c # cs) = Some (s, [])" using assms(1) by (simp add: scan_bare_def)
  then show ?thesis using assms(3) by (rule rescans_bare)
qed

lemma rescans_literals: "rescans ''null''" "rescans ''true''" "rescans ''false''"
  by (rule rescans_plain, rule refl, auto simp: value_end_def json_space_def)+

lemma rescans_number:
  assumes "representable r"
  shows "rescans (NumberToString r)"
proof -
  have digit: "is_digit_char c \<Longrightarrow> \<not> value_end c \<and> c \<notin> {nul, dquote, CHR ''{'', CHR ''[''}" for c
    by (auto simp: is_digit_char_def value_end_def json_space_def ascii_val_def)
  have "\<exists>neg ip fp x. NumberToString r = decimal_text neg ip fp x \<and> json_decimal ip fp x"
  proof (cases "r = 0")
    case True
    then show ?thesis
      by (intro exI [of _ False] exI3 [where a = "''0''" and b = "[]" and c = None])
        (simp add: NumberToString_def decimal_text_def exp_part_def json_decimal_def is_digit_char_def ascii_val_def)
  next
    case False
    with number_text [OF assms] show ?thesis by metis
  qed
  then obtain neg ip fp x where n: "NumberToString r = decimal_text neg ip fp x" "json_decimal ip fp x" by blast
  then obtain d es where d: "ip = d # es" "is_digit_char d" "list_all is_digit_char es" "list_all is_digit_char fp"
    by (cases ip) (auto simp: json_decimal_def)
  have "is_digit_char c \<or> c \<in> set ''.e+-''" if "c \<in> set (NumberToString r)" for c
    using that d by (cases x) (auto simp: n(1) decimal_text_def exp_part_def list_all_iff dest: set_nat_digits split: if_splits)
  moreover have "\<not> value_end c" if "c \<in> set ''.e+-''" for c using that by (auto simp: value_end_def json_space_def)
  ultimately have "\<not> value_end c" if "c \<in> set (NumberToString r)" for c using that digit by blast
  moreover have "NumberToString r = (if neg then CHR ''-'' else d) # (if neg then decimal_text False ip fp x else tl (decimal_text False ip fp x))"
    by (simp add: n(1) decimal_text_def d(1))
  moreover have "(if neg then CHR ''-'' else d) \<notin> {nul, dquote, CHR ''{'', CHR ''[''}" using digit [OF d(2)] by auto
  ultimately show ?thesis by (intro rescans_plain)
qed

lemma scan_quoted_body: "str_body b \<Longrightarrow> scan_quoted (b @ dquote # r) = Some (b @ [dquote], r)"
proof (induction rule: str_body.induct)
  case (body_unicode h b)
  have "c \<noteq> dquote \<and> c \<noteq> backslash" if "is_hex c" for c
    using that by (auto simp: digit_of_def is_digit_char_def ascii_val_def lower_char_def)
  with body_unicode(2) have "scan_quoted t = Some (b', r') \<Longrightarrow> scan_quoted (h @ t) = Some (h @ b', r')" for t b' r'
    by (induction h) auto
  from this [OF body_unicode(4)] show ?case by simp
qed auto

lemma scan_appendString: "scanString (appendString s @ r) = Some (appendString s, r)"
  using scan_quoted_body [OF escape_body, of s r] by (simp add: appendString_form scanString_def expect_char_def)

lemma rescans_list:
  assumes "list_all rescans ss" and "ss \<noteq> []"
  shows "rescans_items (CHR ''['') (CHR '']'') (join_str ss '','' @ '']'')"
  using assms
proof (induction ss rule: induct_list012)
  case (2 s)
  then show ?case using rescans_items_step [of "CHR ''[''" "[]" "[]" "[]" s "CHR '']''" "'']''"] by simp
next
  case (3 s t ss)
  then show ?case
    using rescans_items_step [of "CHR ''[''" "[]" "[]" "[]" s "CHR '']''" "CHR '','' # join_str (t # ss) '','' @ '']''"] by simp
qed simp

lemma rescans_object:
  assumes "list_all (\<lambda>(k, s). rescans s) ps" and "ps \<noteq> []"
  shows "rescans_items (CHR ''{'') (CHR ''}'') (join_str (map (\<lambda>(k, s). member_text k s) ps) '','' @ ''}'')"
  using assms
proof (induction ps rule: induct_list012)
  have key: "scan_key (appendString k @ '':'') = Some (appendString k @ '':'', [])" for k
    using scan_appendString [of k "'':''"] by (simp add: scan_key_def appendString_form json_space_def expect_char_def)
  {
    case (2 p)
    then show ?case
      using rescans_items_step [of "CHR ''{''" "appendString (fst p) @ '':''" "appendString (fst p) @ '':''" "[]" "snd p" "CHR ''}''" "''}''"]
        key [of "fst p"] by (cases p) (simp add: member_text_def)
  next
    case (3 p q ps)
    then show ?case
      using rescans_items_step [of "CHR ''{''" "appendString (fst p) @ '':''" "appendString (fst p) @ '':''" "[]" "snd p" "CHR ''}''"
          "CHR '','' # join_str (map (\<lambda>(k, s). member_text k s) (q # ps)) '','' @ ''}''"]
        key [of "fst p"] by (cases p; cases q) (simp add: member_text_def)
  }
qed simp

lemma rescans_object_text:
  assumes "object_text (map (\<lambda>(k, v). (k, f v)) xs) = Some s"
    and "\<And>k v s'. (k, v) \<in> set xs \<Longrightarrow> f v = Some s' \<Longrightarrow> rescans s'"
  shows "rescans s"
proof -
  let ?ps = "map (\<lambda>(k, v). (k, the (f v))) xs"
  have "map (\<lambda>(k, s). member_text k s) ?ps = map (\<lambda>(k, v). member_text k (the (f v))) xs" by auto
  with assms(1) have s: "s = ''{'' @ join_str (map (\<lambda>(k, s). member_text k s) ?ps) '','' @ ''}''"
    unfolding object_text_Some by (simp only:)
  have "list_all (\<lambda>(k, s). rescans s) ?ps"
    using assms by (fastforce simp: object_text_Some list_all_iff)
  then show ?thesis using rescans_object [of ?ps] rescans_brackets rescans_empty [of "CHR ''{''" "CHR ''}''"]
    by (cases "?ps = []") (auto simp: s)
qed

lemma append_rescans: "append_any v = Some s \<Longrightarrow> well_formed v \<Longrightarrow> rescans s"
proof (induction v arbitrary: s rule: append_any.induct)
  case (4 f)
  then show ?case using rescans_number rescans_literals by (auto simp: appendNumber_def split: float64.splits)
next
  case (5 i)
  then show ?case using rescans_number rescans_literals representable_round
    by (auto simp: appendNumber_def float_of_int_def split: float64.splits)
next
  case (6 n)
  then obtain f where "parse_float n = Some f" "s = appendNumber f" by auto
  then show ?case using rescans_number rescans_literals parse_float_representable
    by (cases f) (auto simp: appendNumber_def)
next
  case (7 raw)
  then show ?case by (auto dest: decode_raw_well_formed split: option.splits)
next
  case (8 fs)
  show ?case by (rule rescans_object_text [of append_any "order_fields fs"]) (use 8 in \<open>auto simp: list_all_iff\<close>)
next
  case (9 fs)
  show ?case
    by (rule rescans_object_text [of append_any "order_fields (sort_key fst fs)"]) (use 9 in \<open>auto simp: list_all_iff\<close>)
next
  case (10 vs)
  let ?ss = "map (\<lambda>v. the (append_any v)) vs"
  have s: "s = ''['' @ join_str ?ss '','' @ '']''" using "10.prems"(1) by (simp add: array_text_Some)
  have "list_all rescans ?ss" using 10 by (auto simp: array_text_Some list_all_iff)
  then show ?case using rescans_list [of ?ss] rescans_brackets rescans_empty [of "CHR ''[''" "CHR '']''"]
    by (cases "?ss = []") (auto simp: s)
qed (use rescans_literals rescans_string scan_appendString [of _ "[]"] in \<open>auto split: if_splits\<close>)

section \<open>What is signed verifies\<close>

lemma number_of_int: "\<bar>i\<bar> \<le> 2 ^ 53 \<Longrightarrow> append_any (J_int i) = Some (NumberToString (of_int i))"
  using representable_of_int [of i] by (simp add: float_of_int_def appendNumber_def representable_def)

lemma quoted_no_number: "parse_float (dquote # s) = None"
  by (simp add: parse_float_def special_float_def read_float_def float_sign_def equal_fold_def to_lower_def
      lower_char_def ascii_val_def base_prefix_def digit_of_def is_digit_char_def split: list.splits)

lemma truthy_string: "s \<noteq> [] \<Longrightarrow> rawTruthy (appendString s)"
proof -
  assume "s \<noteq> []"
  moreover have "escape_char c \<noteq> []" for c by (cases rule: escape_cases [of c]) auto
  ultimately have "concat (map escape_char s) \<noteq> []" by (cases s) auto
  then show ?thesis by (simp add: rawTruthy_def appendString_form quoted_no_number)
qed

lemma truthy_number:
  assumes "representable r" and "r \<noteq> 0"
  shows "rawTruthy (NumberToString r)"
proof -
  have p: "parse_float (NumberToString r) = Some (Fin r)" by (rule number_reads [OF assms(1)])
  moreover have "parse_float ''null'' = None" "parse_float ''false'' = None" by code_simp+
  ultimately have "NumberToString r \<notin> {''null'', ''false'', [dquote, dquote]}" using quoted_no_number by auto
  with p assms(2) show ?thesis by (simp add: rawTruthy_def)
qed

lemma unmarshal_appendString: "utf8 s \<Longrightarrow> unmarshal_string (appendString s) = Some s"
  using lex_appendString [of s "[]"]
  by (simp add: unmarshal_string_def appendString_form expect_char_def unquote_escape)

lemma in_window:
  assumes "\<bar>now\<bar> \<le> 2 ^ 53" and "\<bar>now - ts\<bar> \<le> 300"
  shows "\<not> out_of_window now (Fin (of_int ts))"
proof -
  have "representable (of_int (now - ts))" using assms(2) by (intro representable_of_int) simp
  moreover have "\<bar>(of_int (now - ts) :: rat)\<bar> \<le> of_int 300"
    using assms(2) by (simp only: of_int_abs [symmetric] of_int_le_iff)
  ultimately show ?thesis using representable_of_int [OF assms(1)]
    by (simp add: out_of_window_def float_of_int_def representable_def maxMessageAge_def)
qed

definition message_fields :: "string \<Rightarrow> jval \<Rightarrow> int \<Rightarrow> (string \<times> jval) list" where
  "message_fields typ data ts = [(''type'', J_str typ), (''data'', data), (''timestamp'', J_int ts)]"

lemma marshal_plain:
  assumes "Marshal (J_obj fs) = Some t" and "list_all (\<lambda>(k, v). plain_key k \<and> \<not> isArrayIndex k) fs"
  shows "t = ''{'' @ join_str (map part_text (map (\<lambda>(k, v). (k, the (append_any v))) fs)) '','' @ ''}''"
proof -
  have "filter (\<lambda>f. isArrayIndex (fst f)) fs = []" "filter (\<lambda>f. \<not> isArrayIndex (fst f)) fs = fs"
    using assms(2) by (auto simp: list_all_iff filter_id_conv filter_empty_conv)
  then have "order_fields fs = fs" by (simp add: order_fields_def)
  then have "t = ''{'' @ join_str (map (\<lambda>(k, v). member_text k (the (append_any v))) fs) '','' @ ''}''"
    using assms(1) by (simp add: Marshal_def object_text_Some)
  moreover have "map (\<lambda>(k, v). member_text k (the (append_any v))) fs
      = map part_text (map (\<lambda>(k, v). (k, the (append_any v))) fs)"
    using assms(2) by (auto simp: member_text_def part_text_def plain_key_append list_all_iff)
  ultimately show ?thesis by simp
qed

lemma message_keys:
  "\<not> isArrayIndex ''type''" "\<not> isArrayIndex ''data''" "\<not> isArrayIndex ''timestamp''" "\<not> isArrayIndex ''signature''"
  by code_simp+

lemma signed_wire_verifies:
  assumes payload: "Marshal (J_obj (message_fields typ data ts)) = Some m"
    and wire: "Marshal (J_obj (message_fields typ data ts @ [(''signature'', J_str (hmac secret m))])) = Some w"
    and wf: "utf8 typ" "well_formed data" and sig: "hmac secret m \<noteq> []" "utf8 (hmac secret m)"
    and time: "\<bar>now\<bar> \<le> 2 ^ 53" "\<bar>ts\<bar> \<le> 2 ^ 53" "ts \<noteq> 0" "\<bar>now - ts\<bar> \<le> 300"
  shows "verifyWire hmac w secret now = Verified"
proof -
  obtain D where D: "append_any data = Some D"
    using payload by (auto simp: Marshal_def message_fields_def object_text_Some)
  define N where "N = NumberToString (of_int ts)"
  have N: "append_any (J_int ts) = Some N" using number_of_int [OF time(2)] by (simp add: N_def)
  have rep: "representable (of_int ts)" using representable_of_int [OF time(2)] .
  define S where "S = appendString (hmac secret m)"
  let ?ps = "[(''type'', appendString typ), (''data'', D), (''timestamp'', N)]"
  have m: "m = ''{'' @ join_str (map part_text ?ps) '','' @ ''}''"
    using marshal_plain [OF payload] by (simp add: message_fields_def plain_keys message_keys D N del: append_any.simps(5))
  have w: "w = ''{'' @ join_str (map part_text (?ps @ [(''signature'', S)])) '','' @ ''}''"
    using marshal_plain [OF wire] by (simp add: message_fields_def plain_keys message_keys D N S_def del: append_any.simps(5))
  have "rescans (appendString typ)" "rescans D" "rescans N" "rescans S"
    using append_rescans [of "J_str typ"] append_rescans [OF D] append_rescans [OF N] append_rescans [of "J_str (hmac secret m)"]
      wf sig(2) by (auto simp: S_def)
  then have ok: "parts_ok (?ps @ [(''signature'', S)])" by (simp add: parts_ok_def plain_keys)
  define f where "f = add_parts Map.empty (?ps @ [(''signature'', S)])"
  have f: "f ''id'' = None" "f ''type'' = Some (appendString typ)" "f ''data'' = Some D" "f ''timestamp'' = Some N"
      "f ''signature'' = Some S" by (simp_all add: f_def)
  have "spliceTopLevel w = Some f" unfolding w f_def by (rule splice_parts [OF ok]) simp
  moreover have "signed_payload f = m" using payload_join [of f] by (simp add: signed_parts_def f m)
  moreover have "rawTruthy S" using truthy_string sig(1) by (simp add: S_def)
  moreover have "rawTruthy N" using truthy_number [OF rep] time(3) by (simp add: N_def)
  moreover have "unmarshal_string S = Some (hmac secret m)" using unmarshal_appendString [OF sig(2)] by (simp add: S_def)
  moreover have "parse_float N = Some (Fin (of_int ts))" using number_reads [OF rep] by (simp add: N_def)
  ultimately show ?thesis using in_window [OF time(1,4)] by (simp add: verifyWire_def f)
qed

lemma ascii_utf8: "list_all (\<lambda>c. ascii_val c < 128) s \<Longrightarrow> utf8 s"
proof (induction s)
  case (Cons c s)
  then have "utf8 [c]" by (intro utf8_single) (simp add: rune_len_ascii)
  with Cons utf8_append [of "[c]" s] show ?case by simp
qed (rule utf8_Nil)

lemma hex_utf8: "list_all is_hex s \<Longrightarrow> utf8 s"
  by (intro ascii_utf8) (erule list.pred_mono_strong,
    auto simp: digit_of_def is_digit_char_def lower_char_def ascii_val_def Let_def split: if_splits)

text \<open>Rounding does not carry a difference over an integer bound.\<close>

lemma round_pos_ge:
  assumes "of_int k \<le> r" and "0 \<le> k" and "k \<le> 2 ^ 52" and "0 < r"
  shows "of_int k \<le> round_pos r"
proof (cases "ulp_exp r \<le> 0")
  case True
  define j where "j = nat (- ulp_exp r)"
  have u: "2 powi ulp_exp r = (1 / 2 ^ j :: rat)" using True by (simp add: j_def power_int_def inverse_eq_divide power_one_over)
  have "of_int (k * 2 ^ j) \<le> r / 2 powi ulp_exp r" using assms(1) by (simp add: u mult_right_mono)
  then have "k * 2 ^ j \<le> round_half_even (r / 2 powi ulp_exp r)" by (rule round_half_even_lower)
  then have "(of_int (k * 2 ^ j) :: rat) \<le> of_int (round_half_even (r / 2 powi ulp_exp r))" by (simp only: of_int_le_iff)
  then have "of_int (k * 2 ^ j) * (1 / 2 ^ j) \<le> round_pos r"
    unfolding round_pos_def Let_def u by (intro mult_right_mono) auto
  then show ?thesis by simp
next
  case False
  define q where "q = ulp_exp r"
  have q: "0 < q" "ilog 2 r = q + 52" using False by (auto simp: q_def ulp_exp_def)
  have "of_int (2 ^ 52) * 2 powi q \<le> r"
    using ilog_bounds [OF assms(4), of 2] power_int_add [of "2::rat" q 52] by (simp add: q(2))
  then have "of_int (2 ^ 52) \<le> r / 2 powi q" by (simp add: pos_le_divide_eq)
  then have "2 ^ 52 \<le> round_half_even (r / 2 powi q)" by (rule round_half_even_lower)
  with assms(3) have "k \<le> round_half_even (r / 2 powi q)" by linarith
  then have "(of_int k :: rat) \<le> of_int (round_half_even (r / 2 powi q))" by simp
  moreover have "(1::rat) \<le> 2 powi q" using q(1) by (intro one_le_power_int) auto
  then have "of_int (round_half_even (r / 2 powi q)) * 1 \<le> (of_int (round_half_even (r / 2 powi q)) * 2 powi q :: rat)"
    using \<open>k \<le> round_half_even (r / 2 powi q)\<close> assms(2) by (intro mult_left_mono) auto
  ultimately have "of_int k \<le> (of_int (round_half_even (r / 2 powi q)) * 2 powi q :: rat)" by simp
  then show ?thesis by (simp add: round_pos_def Let_def q_def)
qed

lemma window_bound:
  assumes "\<not> out_of_window now (Fin t)" and "\<bar>now\<bar> \<le> 2 ^ 53"
  shows "\<bar>of_int now - t\<bar> < 301"
proof (rule ccontr)
  assume "\<not> ?thesis"
  then have ge: "of_int 301 \<le> \<bar>of_int now - t\<bar>" "of_int now - t \<noteq> 0" by auto
  then have "of_int 301 \<le> round_pos \<bar>of_int now - t\<bar>" by (intro round_pos_ge) auto
  with ge assms representable_of_int [OF assms(2)] show False
    by (auto simp: out_of_window_def float_of_int_def representable_def maxMessageAge_def round64_def Let_def split: if_splits)
qed

lemma hex_digits: "is_hex (hex_digit (n mod 16))"
proof -
  have "list_all (\<lambda>k. is_hex (hex_digit k)) [0..<16]" by code_simp
  then show ?thesis by (auto simp: list_all_iff)
qed

section \<open>Properties\<close>

text \<open>
  C32. What this server signs its peer accepts: a message that \<open>sendSignedMessage\<close> sends (any type and payload,
  raw JSON included) passes \<open>verifyWire\<close> under the same secret, for as long as it is at most 300 seconds old.
\<close>

theorem signed_message_verifies:
  assumes "signed_message hmac msgType data ts secret = Some w" and "secret \<noteq> []"
    and "utf8 msgType" "well_formed data"
    and "\<And>k m. hmac k m \<noteq> [] \<and> list_all is_hex (hmac k m)"
    and "\<bar>now\<bar> \<le> 2 ^ 53" "\<bar>ts\<bar> \<le> 2 ^ 53" "ts \<noteq> 0" "\<bar>now - ts\<bar> \<le> 300"
  shows "verifyWire hmac w secret now = Verified"
proof -
  obtain m where m: "Marshal (J_obj (message_fields msgType data ts)) = Some m"
    and w: "Marshal (J_obj (message_fields msgType data ts @ [(''signature'', J_str (hmac secret m))])) = Some w"
    using assms(1,2,5) by (auto simp: signed_message_def sign_message_def jsTruthy_def message_fields_def split: option.splits)
  show ?thesis
    by (rule signed_wire_verifies [where hmac = hmac, OF m w assms(3,4) _ _ assms(6-9)]) (use assms(5) in \<open>auto intro: hex_utf8\<close>)
qed

theorem signed_message_verifies_witness:
  "verifyWire (\<lambda>k m. [hex_digit ((length k + length m) mod 16)])
     ''{\"type\":\"ping\",\"data\":null,\"timestamp\":12,\"signature\":\"d\"}'' ''key'' 312 = Verified"
proof (rule signed_message_verifies [where msgType = "''ping''" and data = J_nil and ts = 12])
  show "signed_message (\<lambda>k m. [hex_digit ((length k + length m) mod 16)]) ''ping'' J_nil 12 ''key''
      = Some ''{\"type\":\"ping\",\"data\":null,\"timestamp\":12,\"signature\":\"d\"}''" by code_simp
  show "[hex_digit ((length k + length m) mod 16)] \<noteq> [] \<and> list_all is_hex [hex_digit ((length k + length m) mod 16)]" for k m :: string
    using hex_digits by simp
qed (auto intro: ascii_utf8 simp: ascii_val_def)



text \<open>
  Without a secret nothing is signed, but a message is still checked, against the keyed hash under the empty key,
  which everybody can compute: it is accepted.
\<close>

lemma empty_secret_forged:
  assumes "payload_hash = hmac [] ''{\"type\":\"disconnect\",\"timestamp\":12}''" and "payload_hash = ''ab''"
  shows "verifyWire hmac ''{\"type\":\"disconnect\",\"timestamp\":12,\"signature\":\"ab\"}'' [] 12 = Verified"
proof -
  have "map_option (\<lambda>f. (f ''id'', f ''type'', f ''data'', f ''timestamp'', f ''signature''))
      (spliceTopLevel ''{\"type\":\"disconnect\",\"timestamp\":12,\"signature\":\"ab\"}'')
    = Some (None, Some ''\"disconnect\"'', None, Some ''12'', Some ''\"ab\"'')" by code_simp
  then obtain flds where splice: "spliceTopLevel ''{\"type\":\"disconnect\",\"timestamp\":12,\"signature\":\"ab\"}'' = Some flds"
    and f: "flds ''id'' = None" "flds ''type'' = Some ''\"disconnect\"''" "flds ''data'' = None"
      "flds ''timestamp'' = Some ''12''" "flds ''signature'' = Some ''\"ab\"''" by auto
  then have "signed_payload flds = ''{\"type\":\"disconnect\",\"timestamp\":12}''"
    by (simp add: signed_payload_def signed_parts_def append_part_def)
  moreover have "rawTruthy ''\"ab\"''" "rawTruthy ''12''" "unmarshal_string ''\"ab\"'' = Some ''ab''"
      "parse_float ''12'' = Some (Fin 12)" "\<not> out_of_window 12 (Fin 12)" by code_simp+
  ultimately show ?thesis using assms splice f by (simp add: verifyWire_def)
qed

text \<open>A timestamp that Go reads as not a number is never too old.\<close>

lemma nan_never_expires: "parse_float ''NaN'' = Some NaN" "\<not> out_of_window now NaN" "rawTruthy ''NaN''"
  by (code_simp, simp add: out_of_window_def, code_simp)

end
