(* ===== verification/FileSys.thy ===== *)
theory FileSys
  imports Prelude
begin

text \<open>
  Files under faults: what the calls of the packages \<open>os\<close> and \<open>io\<close> that the server's components make do
  to the files, when each of them may fail or be the last thing the process does. The coming calls meet
  the faults of a list, in order, and all is well when it is used up. A process that has died makes no
  more calls: in the model they run on without an effect, so the files at the end are those it left.
  A crash of the process is meant; what a power failure does to data that was not synced is not modelled.
\<close>

section \<open>Calls and faults\<close>

text \<open>\<open>Fails n\<close> and \<open>Dies n\<close>: the call stops early; a write has then done \<open>n\<close> parts of its work.\<close>

datatype fault = Works | Fails nat | Dies nat

type_synonym files = "string \<Rightarrow> string option"

record disk =
  d_files :: files
  d_faults :: "fault list"
  d_dead :: bool

abbreviation (input) healthy :: "files \<Rightarrow> disk" where
  "healthy fs \<equiv> \<lparr>d_files = fs, d_faults = [], d_dead = False\<rparr>"

text \<open>The effect is given the progress: all of it, or that many parts.\<close>

definition file_call :: "(nat option \<Rightarrow> files \<Rightarrow> files) \<Rightarrow> disk \<Rightarrow> disk \<times> bool" where
  "file_call eff d =
     (if d_dead d then (d, False)
      else case d_faults d of
             [] \<Rightarrow> (d\<lparr>d_files := eff None (d_files d)\<rparr>, True)
           | Works # fs \<Rightarrow> (d\<lparr>d_files := eff None (d_files d), d_faults := fs\<rparr>, True)
           | Fails n # fs \<Rightarrow> (d\<lparr>d_files := eff (Some n) (d_files d), d_faults := fs\<rparr>, False)
           | Dies n # fs \<Rightarrow> (d\<lparr>d_files := eff (Some n) (d_files d), d_faults := fs, d_dead := True\<rparr>, False))"

text \<open>
  \<open>os.WriteFile\<close> truncates the file and writes it: stopped early it has done nothing, or left the
  beginning. Appending leaves a beginning of what was to be added. Renaming and removing are atomic.
\<close>

definition write_effect :: "string \<Rightarrow> string \<Rightarrow> nat option \<Rightarrow> files \<Rightarrow> files" where
  "write_effect p s progress fs =
     (case progress of None \<Rightarrow> fs(p \<mapsto> s) | Some 0 \<Rightarrow> fs | Some (Suc n) \<Rightarrow> fs(p \<mapsto> take n s))"

definition writeFile :: "string \<Rightarrow> string \<Rightarrow> disk \<Rightarrow> disk \<times> bool" where
  "writeFile p s = file_call (write_effect p s)"

definition file_text :: "files \<Rightarrow> string \<Rightarrow> string" where
  "file_text fs p = (case fs p of None \<Rightarrow> [] | Some s \<Rightarrow> s)"

definition append_effect :: "string \<Rightarrow> string \<Rightarrow> nat option \<Rightarrow> files \<Rightarrow> files" where
  "append_effect p s progress fs =
     (case progress of
        None \<Rightarrow> fs(p \<mapsto> file_text fs p @ s)
      | Some 0 \<Rightarrow> fs
      | Some (Suc n) \<Rightarrow> fs(p \<mapsto> file_text fs p @ take n s))"

definition append_call :: "string \<Rightarrow> string \<Rightarrow> disk \<Rightarrow> disk \<times> bool" where
  "append_call p s = file_call (append_effect p s)"

definition rename_call :: "string \<Rightarrow> string \<Rightarrow> disk \<Rightarrow> disk \<times> bool" where
  "rename_call p q d =
     (if d_files d p = None then (fst (file_call (\<lambda>_ fs. fs) d), False)
      else file_call (\<lambda>progress fs. if progress = None then (fs(q := fs p))(p := None) else fs) d)"

definition remove_call :: "string \<Rightarrow> disk \<Rightarrow> disk \<times> bool" where
  "remove_call p d =
     (case file_call (\<lambda>progress fs. if progress = None then fs(p := None) else fs) d of
        (d', ok) \<Rightarrow> (d', ok \<and> d_files d p \<noteq> None))"

text \<open>\<open>os.MkdirAll\<close>, \<open>os.Stat\<close>, \<open>os.ReadFile\<close>: no file changes.\<close>

definition mkdir_call :: "disk \<Rightarrow> disk \<times> bool" where
  "mkdir_call = file_call (\<lambda>_ fs. fs)"

definition stat_call :: "string \<Rightarrow> disk \<Rightarrow> disk \<times> bool" where
  "stat_call p d = (case file_call (\<lambda>_ fs. fs) d of (d', ok) \<Rightarrow> (d', ok \<and> d_files d p \<noteq> None))"

datatype read_result = Not_exist | Read_error | Content string

definition readFile :: "string \<Rightarrow> disk \<Rightarrow> disk \<times> read_result" where
  "readFile p d =
     (case file_call (\<lambda>_ fs. fs) d of
        (d', ok) \<Rightarrow>
          (d', if \<not> ok then Read_error
               else case d_files d p of None \<Rightarrow> Not_exist | Some s \<Rightarrow> Content s))"

text \<open>\<open>copyFile\<close>, written out in several packages: open, create, \<open>io.Copy\<close>.\<close>

definition copyFile :: "string \<Rightarrow> string \<Rightarrow> disk \<Rightarrow> disk \<times> bool" where
  "copyFile src dst d =
     (case readFile src d of
        (d1, Content s) \<Rightarrow> writeFile dst s d1
      | (d1, _) \<Rightarrow> (d1, False))"

section \<open>Frames\<close>

text \<open>A call that touches only the files it names.\<close>

named_theorems frames "files that a call leaves alone"

lemma file_call_frame: "(\<And>x fs. eff x fs p = fs p) \<Longrightarrow> d_files (fst (file_call eff d)) p = d_files d p"
  by (auto simp: file_call_def split: list.split fault.split)

lemma file_call_none: "d_files (fst (file_call (\<lambda>_ fs. fs) d)) = d_files d"
  by (auto simp: file_call_def split: list.split fault.split)

lemma writeFile_frame [frames]: "p \<noteq> q \<Longrightarrow> d_files (fst (writeFile q s d)) p = d_files d p"
  unfolding writeFile_def by (rule file_call_frame) (simp add: write_effect_def split: option.split nat.split)

lemma append_call_frame [frames]: "p \<noteq> q \<Longrightarrow> d_files (fst (append_call q s d)) p = d_files d p"
  unfolding append_call_def by (rule file_call_frame) (simp add: append_effect_def split: option.split nat.split)

lemma rename_call_frame [frames]: "p \<noteq> a \<Longrightarrow> p \<noteq> b \<Longrightarrow> d_files (fst (rename_call a b d)) p = d_files d p"
  by (simp add: rename_call_def file_call_none) (intro impI file_call_frame, simp)

lemma remove_call_frame [frames]: "p \<noteq> q \<Longrightarrow> d_files (fst (remove_call q d)) p = d_files d p"
  using file_call_frame [of "\<lambda>progress fs. if progress = None then fs(q := None) else fs" p d]
  by (auto simp: remove_call_def split: prod.split)

lemma mkdir_call_frame [frames]: "d_files (fst (mkdir_call d)) = d_files d"
  by (simp add: mkdir_call_def file_call_none)

lemma stat_call_frame [frames]: "d_files (fst (stat_call q d)) = d_files d"
  using file_call_none [of d] by (auto simp: stat_call_def split: prod.split)

lemma readFile_frame [frames]: "d_files (fst (readFile q d)) = d_files d"
  using file_call_none [of d] by (auto simp: readFile_def split: prod.split)

lemma copyFile_frame [frames]: "p \<noteq> dst \<Longrightarrow> d_files (fst (copyFile src dst d)) p = d_files d p"
  using readFile_frame [of src d]
  by (auto simp: copyFile_def writeFile_frame split: prod.split read_result.split dest: arg_cong [where f = "\<lambda>h. h p"])

section \<open>What a call that succeeds has done\<close>

lemma file_call_ok:
  "file_call eff d = (d', True) \<Longrightarrow> d_files d' = eff None (d_files d) \<and> \<not> d_dead d \<and> \<not> d_dead d'"
  by (auto simp: file_call_def split: list.splits fault.splits if_splits)

lemma writeFile_ok: "writeFile p s d = (d', True) \<Longrightarrow> d_files d' = (d_files d)(p \<mapsto> s)"
  by (auto simp: writeFile_def write_effect_def dest: file_call_ok)

lemma rename_call_cases:
  "rename_call a b d = (d', ok) \<Longrightarrow>
     d_files d' = d_files d \<or> d_files d' = (d_files d)(b := d_files d a, a := None)"
  by (auto simp: rename_call_def file_call_def split: list.splits fault.splits if_splits)

lemma rename_call_ok:
  "rename_call a b d = (d', True) \<Longrightarrow> d_files d a \<noteq> None
     \<Longrightarrow> d_files d' = (d_files d)(b := d_files d a, a := None)"
  by (auto simp: rename_call_def split: if_splits dest: file_call_ok)

lemma readFile_Content: "readFile p d = (d', Content s) \<Longrightarrow> d_files d p = Some s"
  by (auto simp: readFile_def split: prod.splits if_splits option.splits)

text \<open>The dead do nothing.\<close>

named_theorems dead "calls of a dead process"

lemma file_call_dead [dead]: "d_dead d \<Longrightarrow> file_call eff d = (d, False)"
  by (simp add: file_call_def)

lemma calls_dead [dead]:
  assumes "d_dead d"
  shows "writeFile p s d = (d, False)" "append_call p s d = (d, False)" "rename_call p q d = (d, False)"
    "remove_call p d = (d, False)" "mkdir_call d = (d, False)" "stat_call p d = (d, False)"
    "readFile p d = (d, Read_error)" "copyFile p q d = (d, False)"
  using assms
  by (simp_all add: writeFile_def append_call_def rename_call_def remove_call_def mkdir_call_def stat_call_def
      readFile_def copyFile_def dead)

text \<open>Without faults everything works.\<close>

named_theorems healthy_calls "calls without faults"

lemma file_call_healthy [healthy_calls]: "file_call eff (healthy fs) = (healthy (eff None fs), True)"
  by (simp add: file_call_def)

lemma calls_healthy [healthy_calls]:
  "writeFile p s (healthy fs) = (healthy (fs(p \<mapsto> s)), True)"
  "append_call p s (healthy fs) = (healthy (fs(p \<mapsto> file_text fs p @ s)), True)"
  "mkdir_call (healthy fs) = (healthy fs, True)"
  "stat_call p (healthy fs) = (healthy fs, fs p \<noteq> None)"
  "remove_call p (healthy fs) = (healthy (fs(p := None)), fs p \<noteq> None)"
  "readFile p (healthy fs) = (healthy fs, case fs p of None \<Rightarrow> Not_exist | Some s \<Rightarrow> Content s)"
  by (simp_all add: writeFile_def append_call_def mkdir_call_def stat_call_def readFile_def remove_call_def
      write_effect_def append_effect_def file_call_def)

lemma rename_healthy [healthy_calls]:
  "fs p \<noteq> None \<Longrightarrow> rename_call p q (healthy fs) = (healthy (fs(q := fs p, p := None)), True)"
  by (auto simp: rename_call_def file_call_def)

lemma copy_healthy [healthy_calls]:
  "copyFile p q (healthy fs) = (case fs p of None \<Rightarrow> (healthy fs, False) | Some s \<Rightarrow> (healthy (fs(q \<mapsto> s)), True))"
  by (simp add: copyFile_def healthy_calls split: option.split)

end
