(* ===== verification/ConfigStore.thy ===== *)
theory ConfigStore
  imports FileSys GoAny
begin

text \<open>
  \<open>internal/config/config.go\<close>: the configuration as one JSON file per module, with dirty tracking,
  backups and recovery, over files whose calls may fail or be the last one (\<open>FileSys\<close>).
  \<open>json.MarshalIndent\<close> and \<open>json.Unmarshal\<close> are the parameter \<open>json_codec\<close>. Go iterates over a map in
  any order: the order is an argument of what iterates. The mutexes make an operation one step.
\<close>

section \<open>Modules\<close>

definition moduleKeys :: "(string \<times> string list) list" where
  "moduleKeys =
     [(''api'', [''api'']), (''app'', [''apps'', ''app'']), (''dns'', [''dns'']), (''domain'', [''domains'']),
      (''firewall'', [''firewall'']), (''hub'', [''hub'']), (''mail'', [''mail'']), (''proxy'', [''tunnels'']),
      (''server'', [''server'']), (''service'', [''services'']), (''ssl'', [''ssl'']), (''system'', [''swap''])]"

definition modules :: "string list" where
  "modules = map fst moduleKeys"

definition keys_of :: "string \<Rightarrow> string list" where
  "keys_of m = (case map_of moduleKeys m of None \<Rightarrow> [] | Some ks \<Rightarrow> ks)"

definition all_keys :: "string list" where
  "all_keys = concat (map snd moduleKeys)"

record json_codec =
  jc_marshal :: "amap \<Rightarrow> string option"
  jc_unmarshal :: "string \<Rightarrow> amap option"

record store =
  st_base :: string
  st_data :: amap
  st_dirty :: "string \<Rightarrow> bool"

definition configDir :: "string \<Rightarrow> string" where "configDir base = base @ ''/config''"
definition bakDir :: "string \<Rightarrow> string" where "bakDir base = base @ ''/.bak''"

definition main_file :: "string \<Rightarrow> string \<Rightarrow> string" where
  "main_file base m = configDir base @ ''/'' @ m @ ''.json''"

definition tmp_file :: "string \<Rightarrow> string \<Rightarrow> string" where
  "tmp_file base m = main_file base m @ ''.tmp''"

definition backup_file :: "string \<Rightarrow> string \<Rightarrow> string" where
  "backup_file base m = bakDir base @ ''/'' @ m @ ''.json.bak''"

section \<open>Reading and changing the values\<close>

definition markDirty :: "string \<Rightarrow> store \<Rightarrow> store" where
  "markDirty key s =
     (case List.find (\<lambda>(_, ks). key \<in> set ks) moduleKeys of
        None \<Rightarrow> s
      | Some (m, _) \<Rightarrow> s\<lparr>st_dirty := (st_dirty s)(m := True)\<rparr>)"

definition get_value :: "string \<Rightarrow> store \<Rightarrow> any" where
  "get_value key s = aget (st_data s) key"

definition get_map :: "string \<Rightarrow> store \<Rightarrow> amap option" where
  "get_map key s = (case get_value key s of Map_any m \<Rightarrow> Some m | _ \<Rightarrow> None)"

definition set_value :: "string \<Rightarrow> any \<Rightarrow> store \<Rightarrow> store" where
  "set_value key v s = markDirty key (s\<lparr>st_data := (st_data s)(key \<mapsto> v)\<rparr>)"

definition delete_value :: "string \<Rightarrow> store \<Rightarrow> store" where
  "delete_value key s = markDirty key (s\<lparr>st_data := (st_data s)(key := None)\<rparr>)"

definition touch :: "string \<Rightarrow> store \<Rightarrow> store" where
  "touch key s = markDirty key s"

section \<open>Saving\<close>

definition module_content :: "store \<Rightarrow> string \<Rightarrow> amap" where
  "module_content s m = (\<lambda>k. if k \<in> set (keys_of m) then st_data s k else None)"

definition backup_previous :: "string \<Rightarrow> string \<Rightarrow> disk \<Rightarrow> disk" where
  "backup_previous base m d =
     (case stat_call (main_file base m) d of
        (d1, False) \<Rightarrow> d1
      | (d1, True) \<Rightarrow>
          (case mkdir_call d1 of
             (d2, False) \<Rightarrow> d2
           | (d2, True) \<Rightarrow> fst (copyFile (main_file base m) (backup_file base m) d2)))"

definition writeModule :: "json_codec \<Rightarrow> store \<Rightarrow> string \<Rightarrow> disk \<Rightarrow> disk \<times> bool" where
  "writeModule cj s m d =
     (case jc_marshal cj (module_content s m) of
        None \<Rightarrow> (d, False)
      | Some payload \<Rightarrow>
          (case writeFile (tmp_file (st_base s) m) payload d of
             (d1, False) \<Rightarrow> (d1, False)
           | (d1, True) \<Rightarrow>
               (case rename_call (tmp_file (st_base s) m) (main_file (st_base s) m) (backup_previous (st_base s) m d1) of
                  (d2, True) \<Rightarrow> (d2, True)
                | (d2, False) \<Rightarrow> (fst (remove_call (tmp_file (st_base s) m) d2), False))))"

text \<open>The list is the order of the iteration over the dirty map; the modules that failed are the result.\<close>

fun saveDirty :: "json_codec \<Rightarrow> string list \<Rightarrow> store \<Rightarrow> disk \<Rightarrow> store \<times> disk \<times> string list" where
  "saveDirty cj [] s d = (s, d, [])"
| "saveDirty cj (m # ms) s d =
     (if \<not> st_dirty s m then saveDirty cj ms s d
      else case writeModule cj s m d of
             (d1, False) \<Rightarrow> (case saveDirty cj ms s d1 of (s2, d2, errs) \<Rightarrow> (s2, d2, m # errs))
           | (d1, True) \<Rightarrow> saveDirty cj ms (s\<lparr>st_dirty := (st_dirty s)(m := False)\<rparr>) d1)"

definition forceSave :: "json_codec \<Rightarrow> string list \<Rightarrow> store \<Rightarrow> disk \<Rightarrow> store \<times> disk \<times> string list" where
  "forceSave cj ms s d = saveDirty cj ms (s\<lparr>st_dirty := (\<lambda>m. m \<in> set modules \<or> st_dirty s m)\<rparr>) d"

section \<open>Loading\<close>

definition parse_raw :: "json_codec \<Rightarrow> string \<Rightarrow> amap option" where
  "parse_raw cj raw = (if 2 \<le> length raw then jc_unmarshal cj raw else None)"

definition recoverFromBackup :: "json_codec \<Rightarrow> string \<Rightarrow> string \<Rightarrow> disk \<Rightarrow> disk \<times> amap option" where
  "recoverFromBackup cj base m d =
     (let mainFile = main_file base m; backupFile = backup_file base m; corruptedFile = mainFile @ ''.corrupted'';
          (d1, r) = readFile backupFile d
      in case (case r of Content raw \<Rightarrow> map_option (Pair raw) (parse_raw cj raw) | _ \<Rightarrow> None) of
           None \<Rightarrow>
             let d2 = fst (copyFile mainFile corruptedFile d1);
                 d3 = fst (copyFile backupFile (backupFile @ ''.corrupted'') d2)
             in (d3, None)
         | Some (raw, parsed) \<Rightarrow>
             let d2 = fst (copyFile mainFile corruptedFile d1);
                 d3 = fst (writeFile mainFile raw d2)
             in (d3, Some parsed))"

definition loadModuleFile :: "json_codec \<Rightarrow> string \<Rightarrow> string \<Rightarrow> disk \<Rightarrow> disk \<times> amap option" where
  "loadModuleFile cj base m d =
     (case readFile (main_file base m) d of
        (d1, Not_exist) \<Rightarrow> (d1, None)
      | (d1, Read_error) \<Rightarrow> recoverFromBackup cj base m d1
      | (d1, Content raw) \<Rightarrow>
          (case parse_raw cj raw of Some parsed \<Rightarrow> (d1, Some parsed) | None \<Rightarrow> recoverFromBackup cj base m d1))"

definition merge_module :: "string \<Rightarrow> amap option \<Rightarrow> amap \<Rightarrow> amap" where
  "merge_module m content merged =
     (case content of
        None \<Rightarrow> merged
      | Some c \<Rightarrow> (\<lambda>k. if k \<in> set (keys_of m) \<and> c k \<noteq> None then c k else merged k))"

fun load_modules :: "json_codec \<Rightarrow> string \<Rightarrow> string list \<Rightarrow> amap \<Rightarrow> disk \<Rightarrow> amap \<times> disk" where
  "load_modules cj base [] merged d = (merged, d)"
| "load_modules cj base (m # ms) merged d =
     (case loadModuleFile cj base m d of
        (d1, content) \<Rightarrow> load_modules cj base ms (merge_module m content merged) d1)"

definition default_value :: "string \<Rightarrow> any" where
  "default_value k =
     (if k = ''server'' then Map_any [''pid'' \<mapsto> Nil_any, ''started'' \<mapsto> Nil_any, ''watchdog'' \<mapsto> Nil_any]
      else if k = ''apps'' then List_any []
      else if k = ''firewall'' then
        Map_any [''enabled'' \<mapsto> Bool_any True, ''blacklist'' \<mapsto> List_any [], ''whitelist'' \<mapsto> List_any [],
          ''rateLimit'' \<mapsto> Map_any [''enabled'' \<mapsto> Bool_any True, ''windowMs'' \<mapsto> Int_any 60000, ''max'' \<mapsto> Int_any 1000]]
      else if k = ''swap'' then
        Map_any [''autoManage'' \<mapsto> Bool_any True, ''persist'' \<mapsto> Bool_any True, ''maxDiskPct'' \<mapsto> Int_any 25,
          ''maxIncrements'' \<mapsto> Int_any 8, ''allowShrink'' \<mapsto> Bool_any True]
      else Map_any Map.empty)"

definition applyDefaults :: "amap \<Rightarrow> amap" where
  "applyDefaults c = (\<lambda>k. if c k = None \<and> k \<in> set all_keys then Some (default_value k) else c k)"

definition load_store :: "json_codec \<Rightarrow> string list \<Rightarrow> store \<Rightarrow> disk \<Rightarrow> store \<times> disk" where
  "load_store cj ms s d =
     (case load_modules cj (st_base s) ms Map.empty d of
        (merged, d1) \<Rightarrow> (s\<lparr>st_data := applyDefaults merged\<rparr>, d1))"

definition open_store :: "json_codec \<Rightarrow> string list \<Rightarrow> string \<Rightarrow> disk \<Rightarrow> store option \<times> disk" where
  "open_store cj ms base d =
     (case mkdir_call d of
        (d1, False) \<Rightarrow> (None, d1)
      | (d1, True) \<Rightarrow>
          (case load_store cj ms \<lparr>st_base = base, st_data = Map.empty, st_dirty = (\<lambda>_. False)\<rparr> d1 of
             (s, d2) \<Rightarrow> (Some s, d2)))"

definition reload_store :: "json_codec \<Rightarrow> string list \<Rightarrow> store \<Rightarrow> disk \<Rightarrow> store \<times> disk" where
  "reload_store cj ms s d = (case load_store cj ms s d of (s1, d1) \<Rightarrow> (s1\<lparr>st_dirty := (\<lambda>_. False)\<rparr>, d1))"

text \<open>The autosave loop: a save per tick, until it is stopped.\<close>

fun autoSave :: "json_codec \<Rightarrow> string list list \<Rightarrow> store \<Rightarrow> disk \<Rightarrow> store \<times> disk" where
  "autoSave cj [] s d = (s, d)"
| "autoSave cj (ms # ticks) s d = (case saveDirty cj ms s d of (s1, d1, _) \<Rightarrow> autoSave cj ticks s1 d1)"

section \<open>What is stored, abstractly\<close>

text \<open>The content of a module that a load without faults finds.\<close>

definition parsed_file :: "json_codec \<Rightarrow> files \<Rightarrow> string \<Rightarrow> amap option" where
  "parsed_file cj fs p = (case fs p of None \<Rightarrow> None | Some raw \<Rightarrow> parse_raw cj raw)"

definition persisted :: "json_codec \<Rightarrow> string \<Rightarrow> files \<Rightarrow> string \<Rightarrow> amap option" where
  "persisted cj base fs m =
     (if fs (main_file base m) = None then None
      else case parsed_file cj fs (main_file base m) of
             Some c \<Rightarrow> Some c
           | None \<Rightarrow> parsed_file cj fs (backup_file base m))"

definition intact :: "json_codec \<Rightarrow> string \<Rightarrow> files \<Rightarrow> string \<Rightarrow> bool" where
  "intact cj base fs m \<longleftrightarrow> fs (main_file base m) = None \<or> parsed_file cj fs (main_file base m) \<noteq> None"

text \<open>What saving a module is to store.\<close>

definition saved_content :: "json_codec \<Rightarrow> store \<Rightarrow> string \<Rightarrow> amap option" where
  "saved_content cj s m = Option.bind (jc_marshal cj (module_content s m)) (parse_raw cj)"

definition reads_back :: "json_codec \<Rightarrow> bool" where
  "reads_back cj \<longleftrightarrow> (\<forall>c p. jc_marshal cj c = Some p \<longrightarrow> parse_raw cj p \<noteq> None)"

section \<open>Paths are distinct\<close>

lemma main_file_eq [simp]: "main_file b m = main_file b m' \<longleftrightarrow> m = m'"
  by (simp add: main_file_def)

lemma tmp_file_eq [simp]: "tmp_file b m = tmp_file b m' \<longleftrightarrow> m = m'"
  by (simp add: tmp_file_def)

lemma last_chars:
  "last (main_file b m) = CHR ''n''" "last (tmp_file b m) = CHR ''p''" "last (backup_file b m) = CHR ''k''"
  "last (p @ ''.corrupted'') = CHR ''d''"
  by (simp_all add: main_file_def tmp_file_def backup_file_def)

lemma files_distinct [simp]:
  "main_file b m \<noteq> tmp_file b' m'" "tmp_file b m \<noteq> main_file b' m'" "main_file b m \<noteq> backup_file b' m'"
  "backup_file b m \<noteq> main_file b' m'" "tmp_file b m \<noteq> backup_file b' m'" "backup_file b m \<noteq> tmp_file b' m'"
  "main_file b m \<noteq> p @ ''.corrupted''" "backup_file b m \<noteq> p @ ''.corrupted''"
  by (auto dest!: arg_cong [where f = last] simp: last_chars)

section \<open>Saving refines an atomic replacement\<close>

lemma backup_previous_frame:
  "p \<noteq> backup_file b m \<Longrightarrow> d_files (backup_previous b m d) p = d_files d p"
  using stat_call_frame [of "main_file b m" d]
  by (auto simp: backup_previous_def split: prod.split bool.split)
    (metis (no_types) copyFile_frame fst_conv mkdir_call_frame)+

text \<open>Only the files of the module are touched, and its main file by the renaming only.\<close>

lemma writeModule_other:
  assumes "p \<noteq> main_file (st_base s) m" "p \<noteq> tmp_file (st_base s) m" "p \<noteq> backup_file (st_base s) m"
  shows "d_files (fst (writeModule cj s m d)) p = d_files d p"
proof -
  let ?b = "st_base s"
  have w: "d_files (fst (writeFile (tmp_file ?b m) x d)) p = d_files d p" for x
    using assms by (intro frames)
  have r: "d_files (fst (rename_call (tmp_file ?b m) (main_file ?b m) (backup_previous ?b m d1))) p = d_files d1 p" for d1
    using assms by (simp add: rename_call_frame backup_previous_frame)
  have u: "d_files (fst (remove_call (tmp_file ?b m) d1)) p = d_files d1 p" for d1
    using assms by (intro frames)
  show ?thesis unfolding writeModule_def
    using w r u by (auto split: option.split prod.split bool.split) (metis fst_conv)+
qed

lemma writeModule_main:
  assumes "writeModule cj s m d = (d', ok)"
  shows "if ok then \<exists>payload. jc_marshal cj (module_content s m) = Some payload
             \<and> d_files d' (main_file (st_base s) m) = Some payload
         else d_files d' (main_file (st_base s) m) = d_files d (main_file (st_base s) m)"
proof -
  let ?b = "st_base s" and ?main = "main_file (st_base s) m" and ?tmp = "tmp_file (st_base s) m"
  show ?thesis
  proof (cases "jc_marshal cj (module_content s m)")
    case None
    with assms show ?thesis by (auto simp: writeModule_def)
  next
    case (Some payload)
    obtain d1 ok1 where w: "writeFile ?tmp payload d = (d1, ok1)" by fastforce
    have w': "d_files d1 ?main = d_files d ?main" using writeFile_frame [of ?main ?tmp payload d] w by simp
    obtain d2 ok2 where r: "rename_call ?tmp ?main (backup_previous ?b m d1) = (d2, ok2)" by fastforce
    have keep: "d_files (backup_previous ?b m d1) ?main = d_files d1 ?main"
      "d_files (backup_previous ?b m d1) ?tmp = d_files d1 ?tmp" by (simp_all add: backup_previous_frame)
    show ?thesis
    proof (cases "ok1 \<and> ok2")
      case True
      with w writeFile_ok have "d_files d1 ?tmp = Some payload" by fastforce
      with r True keep rename_call_ok [of ?tmp ?main _ d2] have "d_files d2 ?main = Some payload" by simp
      with assms Some w r True show ?thesis by (auto simp: writeModule_def)
    next
      case False
      have "d_files d2 ?main = d_files d ?main" if "ok1" "\<not> ok2"
      proof -
        from that have "\<not> ok2" by simp
        with r have "d_files d2 = d_files (backup_previous ?b m d1)"
          by (auto simp: rename_call_def file_call_def split: list.splits fault.splits if_splits)
        then show ?thesis using keep w' by simp
      qed
      with False assms Some w w' r remove_call_frame [of ?main ?tmp d2] show ?thesis
        by (auto simp: writeModule_def split: bool.splits)
    qed
  qed
qed

text \<open>For a module whose main file is intact the backup does not matter.\<close>

lemma persisted_intact:
  "intact cj b fs m \<Longrightarrow> fs' (main_file b m) = fs (main_file b m)
     \<Longrightarrow> persisted cj b fs' m = persisted cj b fs m \<and> intact cj b fs' m"
  by (auto simp: intact_def persisted_def parsed_file_def)

lemma writeModule_refines:
  assumes "writeModule cj s m d = (d', ok)" and "reads_back cj" and "\<forall>m. intact cj (st_base s) (d_files d) m"
  shows "persisted cj (st_base s) (d_files d')
      = (if ok then (persisted cj (st_base s) (d_files d))(m := saved_content cj s m) else persisted cj (st_base s) (d_files d))"
    and "intact cj (st_base s) (d_files d') m'"
proof -
  let ?b = "st_base s"
  have others: "persisted cj ?b (d_files d') m1 = persisted cj ?b (d_files d) m1 \<and> intact cj ?b (d_files d') m1"
    if "m1 \<noteq> m \<or> \<not> ok" for m1
  proof (rule persisted_intact)
    show "intact cj ?b (d_files d) m1" using assms(3) by simp
    show "d_files d' (main_file ?b m1) = d_files d (main_file ?b m1)"
      using that writeModule_main [OF assms(1)] writeModule_other [of "main_file ?b m1" s m cj d] assms(1)
      by (cases "m1 = m") auto
  qed
  have own: "persisted cj ?b (d_files d') m = saved_content cj s m \<and> intact cj ?b (d_files d') m" if "ok"
  proof -
    from that writeModule_main [OF assms(1)] obtain payload where
      p: "jc_marshal cj (module_content s m) = Some payload" "d_files d' (main_file ?b m) = Some payload" by auto
    moreover from p(1) assms(2) have "parse_raw cj payload \<noteq> None" by (simp add: reads_back_def)
    ultimately show ?thesis by (auto simp: persisted_def intact_def saved_content_def parsed_file_def)
  qed
  show "persisted cj ?b (d_files d') = (if ok then (persisted cj ?b (d_files d))(m := saved_content cj s m) else persisted cj ?b (d_files d))"
    (is "_ = ?r")
  proof (rule ext)
    fix k
    show "persisted cj ?b (d_files d') k = ?r k"
      using others [of k] own by (cases ok; cases "k = m") simp_all
  qed
  show "intact cj ?b (d_files d') m'"
    using others [of m'] own by (cases ok; cases "m' = m") simp_all
qed

lemma module_content_dirty [simp]: "module_content (s\<lparr>st_dirty := x\<rparr>) = module_content s"
  by (simp add: fun_eq_iff module_content_def)

lemma saved_content_dirty [simp]: "saved_content cj (s\<lparr>st_dirty := x\<rparr>) = saved_content cj s"
  by (simp add: fun_eq_iff saved_content_def module_content_def cong: if_cong)

lemma saveDirty_frame:
  "saveDirty cj ms s d = (s', d', errs) \<Longrightarrow> \<exists>dirt. s' = s\<lparr>st_dirty := dirt\<rparr> \<and> (\<forall>m. dirt m \<longrightarrow> st_dirty s m)
     \<and> (\<forall>m. m \<notin> set ms \<longrightarrow> dirt m = st_dirty s m)"
proof (induction ms arbitrary: s d s' d' errs)
  case Nil
  then show ?case by (intro exI [where x = "st_dirty s"]) simp
next
  case (Cons m ms)
  show ?case
  proof (cases "st_dirty s m")
    case False
    with Cons.IH [of s d] Cons.prems show ?thesis by fastforce
  next
    case True
    obtain d1 ok where w: "writeModule cj s m d = (d1, ok)" by fastforce
    show ?thesis
    proof (cases ok)
      case True
      with w \<open>st_dirty s m\<close> Cons.prems have "saveDirty cj ms (s\<lparr>st_dirty := (st_dirty s)(m := False)\<rparr>) d1 = (s', d', errs)" by simp
      from Cons.IH [OF this] obtain dirt where "s' = s\<lparr>st_dirty := dirt\<rparr>"
        "\<forall>k. dirt k \<longrightarrow> ((st_dirty s)(m := False)) k" "\<forall>k. k \<notin> set ms \<longrightarrow> dirt k = ((st_dirty s)(m := False)) k" by auto
      then show ?thesis by (intro exI [where x = dirt]) (auto split: if_splits)
    next
      case False
      with w \<open>st_dirty s m\<close> Cons.prems obtain e where "saveDirty cj ms s d1 = (s', d', e)" by (auto split: prod.splits)
      with Cons.IH [OF this] show ?thesis by fastforce
    qed
  qed
qed

lemma saveDirty_refines:
  assumes "saveDirty cj ms s d = (s', d', errs)" and "reads_back cj" and "\<forall>m. intact cj (st_base s) (d_files d) m" and "distinct ms"
  shows "persisted cj (st_base s) (d_files d')
      = (\<lambda>m. if st_dirty s m \<and> \<not> st_dirty s' m then saved_content cj s m else persisted cj (st_base s) (d_files d) m)
    \<and> (\<forall>m. intact cj (st_base s) (d_files d') m) \<and> set errs = {m \<in> set ms. st_dirty s' m}"
  using assms
proof (induction ms arbitrary: s d s' d' errs)
  case Nil
  then show ?case by simp
next
  case (Cons m ms)
  note run = Cons.prems(1) and rb = Cons.prems(2) and ok = Cons.prems(3) and dist = Cons.prems(4)
  show ?case
  proof (cases "st_dirty s m")
    case False
    with run have r: "saveDirty cj ms s d = (s', d', errs)" by simp
    obtain dirt where "s' = s\<lparr>st_dirty := dirt\<rparr>" "\<forall>k. dirt k \<longrightarrow> st_dirty s k" using saveDirty_frame [OF r] by blast
    with Cons.IH [OF r rb ok] dist False show ?thesis by auto
  next
    case True
    obtain d1 w where w: "writeModule cj s m d = (d1, w)" by fastforce
    note ref = writeModule_refines [OF w rb ok]
    show ?thesis
    proof (cases w)
      case True
      let ?s = "s\<lparr>st_dirty := (st_dirty s)(m := False)\<rparr>"
      from True w \<open>st_dirty s m\<close> run have r: "saveDirty cj ms ?s d1 = (s', d', errs)" by simp
      obtain dirt where dirt: "s' = ?s\<lparr>st_dirty := dirt\<rparr>" "\<forall>k. dirt k \<longrightarrow> st_dirty ?s k"
          "\<forall>k. k \<notin> set ms \<longrightarrow> dirt k = st_dirty ?s k" using saveDirty_frame [OF r] by blast
      then have "\<not> st_dirty s' m" using dist by auto
      moreover have "persisted cj (st_base s) (d_files d')
          = (\<lambda>k. if st_dirty ?s k \<and> \<not> st_dirty s' k then saved_content cj s k else persisted cj (st_base s) (d_files d1) k)"
        "\<forall>k. intact cj (st_base s) (d_files d') k" "set errs = {k \<in> set ms. st_dirty s' k}"
        using Cons.IH [OF r rb] ref(2) dist by auto
      ultimately show ?thesis using ref(1) True \<open>st_dirty s m\<close> by (auto simp: fun_eq_iff)
    next
      case False
      from False w \<open>st_dirty s m\<close> run obtain e where r: "saveDirty cj ms s d1 = (s', d', e)" and e: "errs = m # e"
        by (auto split: prod.splits)
      obtain dirt where dirt: "s' = s\<lparr>st_dirty := dirt\<rparr>" "\<forall>k. k \<notin> set ms \<longrightarrow> dirt k = st_dirty s k"
        using saveDirty_frame [OF r] by blast
      then have "st_dirty s' m" using dist \<open>st_dirty s m\<close> by auto
      moreover have "\<forall>m. intact cj (st_base s) (d_files d1) m" using ref(2) by blast
      note Cons.IH [OF r rb this]
      ultimately show ?thesis using ref(1) False e dist by auto
    qed
  qed
qed

lemma saved_was_marshalled:
  "saveDirty cj ms s d = (s', d', errs) \<Longrightarrow> st_dirty s m \<Longrightarrow> \<not> st_dirty s' m \<Longrightarrow> jc_marshal cj (module_content s m) \<noteq> None"
proof (induction ms arbitrary: s d s' d' errs)
  case Nil
  then show ?case by simp
next
  case (Cons a ms)
  show ?case
  proof (cases "st_dirty s a")
    case False
    with Cons show ?thesis by simp
  next
    case True
    obtain d1 w where w: "writeModule cj s a d = (d1, w)" by fastforce
    show ?thesis
    proof (cases w)
      case True
      with w have "jc_marshal cj (module_content s a) \<noteq> None" by (auto simp: writeModule_def split: option.splits)
      with True w \<open>st_dirty s a\<close> Cons.prems Cons.IH [of "s\<lparr>st_dirty := (st_dirty s)(a := False)\<rparr>" d1 s' d' errs]
      show ?thesis by (cases "m = a") simp_all
    next
      case False
      with w \<open>st_dirty s a\<close> Cons.prems(1) obtain e where "saveDirty cj ms s d1 = (s', d', e)" by (auto split: prod.splits)
      with Cons.IH Cons.prems show ?thesis by blast
    qed
  qed
qed

section \<open>Loading without faults\<close>

lemma recover_healthy:
  "\<exists>fs'. recoverFromBackup cj b m (healthy fs) = (healthy fs', parsed_file cj fs (backup_file b m))
     \<and> (\<forall>m'. fs' (backup_file b m') = fs (backup_file b m'))
     \<and> (\<forall>m'. m' \<noteq> m \<longrightarrow> fs' (main_file b m') = fs (main_file b m'))
     \<and> (parsed_file cj fs (backup_file b m) \<noteq> None \<longrightarrow> intact cj b fs' m)"
  by (auto simp: recoverFromBackup_def parsed_file_def intact_def healthy_calls Let_def split: option.split)

lemma load_file_healthy:
  "\<exists>fs'. loadModuleFile cj b m (healthy fs) = (healthy fs', persisted cj b fs m)
     \<and> (\<forall>m'. m' \<noteq> m \<longrightarrow> persisted cj b fs' m' = persisted cj b fs m')
     \<and> (persisted cj b fs m \<noteq> None \<longrightarrow> intact cj b fs' m)"
proof -
  obtain fs' where r: "recoverFromBackup cj b m (healthy fs) = (healthy fs', parsed_file cj fs (backup_file b m))"
    "\<forall>m'. fs' (backup_file b m') = fs (backup_file b m')" "\<forall>m'. m' \<noteq> m \<longrightarrow> fs' (main_file b m') = fs (main_file b m')"
    "parsed_file cj fs (backup_file b m) \<noteq> None \<longrightarrow> intact cj b fs' m"
    using recover_healthy by blast
  show ?thesis
  proof (cases "intact cj b fs m")
    case True
    then have "loadModuleFile cj b m (healthy fs) = (healthy fs, persisted cj b fs m)"
      by (auto simp: loadModuleFile_def intact_def persisted_def parsed_file_def healthy_calls split: option.splits)
    with True show ?thesis by blast
  next
    case False
    then obtain raw where "fs (main_file b m) = Some raw" "parse_raw cj raw = None"
      by (auto simp: intact_def parsed_file_def)
    then have "loadModuleFile cj b m (healthy fs) = (healthy fs', persisted cj b fs m)"
      and "persisted cj b fs m = parsed_file cj fs (backup_file b m)"
      using r(1) by (simp_all add: loadModuleFile_def persisted_def parsed_file_def healthy_calls)
    moreover have "persisted cj b fs' m' = persisted cj b fs m'" if "m' \<noteq> m" for m'
      using r(2,3) that by (simp add: persisted_def parsed_file_def cong: option.case_cong)
    ultimately show ?thesis using r(4) by (intro exI [where x = fs']) simp
  qed
qed

lemma load_modules_healthy:
  assumes "distinct ms"
  shows "\<exists>fs'. load_modules cj b ms merged (healthy fs)
    = (foldl (\<lambda>acc m. merge_module m (persisted cj b fs m) acc) merged ms, healthy fs')"
  using assms
proof (induction ms arbitrary: merged fs)
  case (Cons m ms)
  obtain fs1 where l: "loadModuleFile cj b m (healthy fs) = (healthy fs1, persisted cj b fs m)"
    "\<forall>m'. m' \<noteq> m \<longrightarrow> persisted cj b fs1 m' = persisted cj b fs m'"
    using load_file_healthy by blast
  have "foldl (\<lambda>acc m. merge_module m (persisted cj b fs1 m) acc) x ms
      = foldl (\<lambda>acc m. merge_module m (persisted cj b fs m) acc) x ms" for x
    using l(2) Cons.prems by (intro foldl_cong) auto
  with Cons.IH [of "merge_module m (persisted cj b fs m) merged" fs1] Cons.prems l(1) show ?case by simp
qed simp

text \<open>Every key belongs to one module.\<close>

lemma keys_disjoint: "m \<in> set modules \<Longrightarrow> m' \<in> set modules \<Longrightarrow> k \<in> set (keys_of m) \<Longrightarrow> k \<in> set (keys_of m') \<Longrightarrow> m = m'"
proof -
  have "list_all (\<lambda>m. list_all (\<lambda>m'. m = m' \<or> list_all (\<lambda>k. k \<notin> set (keys_of m')) (keys_of m)) modules) modules"
    by code_simp
  then show "m \<in> set modules \<Longrightarrow> m' \<in> set modules \<Longrightarrow> k \<in> set (keys_of m) \<Longrightarrow> k \<in> set (keys_of m') \<Longrightarrow> m = m'"
    by (auto simp: list_all_iff)
qed

lemma foldl_at:
  assumes "\<And>a x. a \<in> set ms \<Longrightarrow> a \<noteq> m \<Longrightarrow> f x a k = x k" and "\<And>x. f x m k = (if v \<noteq> None then v else x k)"
  shows "foldl f x ms k = (if m \<in> set ms \<and> v \<noteq> None then v else x k)"
  using assms(1)
proof (induction ms arbitrary: x)
  case (Cons a ms)
  then have "foldl f (f x a) ms k = (if m \<in> set ms \<and> v \<noteq> None then v else f x a k)" by simp
  with Cons.prems [of a x] assms(2) [of x] show ?case by (cases "a = m"; cases "v = None") simp_all
qed simp

lemma merged_value:
  assumes "set ms \<subseteq> set modules" and "m \<in> set modules" and "k \<in> set (keys_of m)"
  shows "foldl (\<lambda>acc m. merge_module m (c m) acc) x ms k
    = (if m \<in> set ms \<and> Option.bind (c m) (\<lambda>a. a k) \<noteq> None then Option.bind (c m) (\<lambda>a. a k) else x k)"
proof (rule foldl_at)
  show "merge_module a (c a) y k = y k" if "a \<in> set ms" "a \<noteq> m" for a y
    using keys_disjoint [of a m k] assms that by (auto simp: merge_module_def split: option.split)
  show "merge_module m (c m) y k = (if Option.bind (c m) (\<lambda>a. a k) \<noteq> None then Option.bind (c m) (\<lambda>a. a k) else y k)" for y
    using assms(3) by (simp add: merge_module_def split: option.split)
qed

lemma merged_unowned: "(\<And>m. k \<notin> set (keys_of m)) \<Longrightarrow> foldl (\<lambda>acc m. merge_module m (c m) acc) x ms k = x k"
  by (induction ms arbitrary: x) (auto simp: merge_module_def split: option.split)

lemma owner_exists: "k \<in> set all_keys \<Longrightarrow> \<exists>m \<in> set modules. k \<in> set (keys_of m)"
proof -
  have "list_all (\<lambda>k. list_ex (\<lambda>m. k \<in> set (keys_of m)) modules) all_keys" by code_simp
  then show "k \<in> set all_keys \<Longrightarrow> \<exists>m \<in> set modules. k \<in> set (keys_of m)" by (auto simp: list_all_iff list_ex_iff)
qed

lemma keys_owned:
  assumes "k \<in> set (keys_of m)"
  shows "m \<in> set modules \<and> k \<in> set all_keys"
proof -
  obtain ks where "map_of moduleKeys m = Some ks" "k \<in> set ks"
    using assms by (cases "map_of moduleKeys m") (auto simp: keys_of_def)
  then have "(m, ks) \<in> set moduleKeys" by (blast dest: map_of_SomeD)
  with \<open>k \<in> set ks\<close> show ?thesis by (auto simp: modules_def all_keys_def image_iff intro: bexI [where x = "(m, ks)"])
qed

text \<open>What opening yields, module by module.\<close>

lemma open_healthy:
  assumes "set ms = set modules" and "distinct ms"
  shows "\<exists>s fs'. open_store cj ms b (healthy fs) = (Some s, healthy fs')
    \<and> (\<forall>m\<in>set modules. \<forall>k\<in>set (keys_of m).
         st_data s k = (case Option.bind (persisted cj b fs m) (\<lambda>c. c k) of None \<Rightarrow> Some (default_value k) | Some v \<Rightarrow> Some v))"
proof -
  obtain fs' where l: "load_modules cj b ms Map.empty (healthy fs)
      = (foldl (\<lambda>acc m. merge_module m (persisted cj b fs m) acc) Map.empty ms, healthy fs')"
    using load_modules_healthy [OF assms(2)] by blast
  have "applyDefaults (foldl (\<lambda>acc m. merge_module m (persisted cj b fs m) acc) Map.empty ms) k
      = (case Option.bind (persisted cj b fs m) (\<lambda>c. c k) of None \<Rightarrow> Some (default_value k) | Some v \<Rightarrow> Some v)"
    if "m \<in> set modules" "k \<in> set (keys_of m)" for m k
    using merged_value [of ms m k "persisted cj b fs" Map.empty] that assms keys_owned [of k m]
    by (auto simp: applyDefaults_def split: option.split)
  with l show ?thesis by (simp add: open_store_def load_store_def healthy_calls)
qed

section \<open>Saving without faults\<close>

lemma backup_healthy: "\<exists>fs'. backup_previous b m (healthy fs) = healthy fs' \<and> (\<forall>p. p \<noteq> backup_file b m \<longrightarrow> fs' p = fs p)"
  by (auto simp: backup_previous_def healthy_calls split: bool.split option.split)

lemma writeModule_healthy:
  assumes "jc_marshal cj (module_content s m) \<noteq> None"
  shows "\<exists>fs'. writeModule cj s m (healthy fs) = (healthy fs', True)"
proof -
  obtain payload where p: "jc_marshal cj (module_content s m) = Some payload" using assms by auto
  obtain fs1 where "backup_previous (st_base s) m (healthy (fs(tmp_file (st_base s) m \<mapsto> payload))) = healthy fs1"
    "\<forall>p. p \<noteq> backup_file (st_base s) m \<longrightarrow> fs1 p = (fs(tmp_file (st_base s) m \<mapsto> payload)) p"
    using backup_healthy by blast
  then show ?thesis using p by (simp add: writeModule_def healthy_calls)
qed

lemma saveDirty_healthy:
  assumes "\<forall>m\<in>set ms. st_dirty s m \<longrightarrow> jc_marshal cj (module_content s m) \<noteq> None"
  shows "\<exists>fs'. saveDirty cj ms s (healthy fs) = (s\<lparr>st_dirty := (\<lambda>m. st_dirty s m \<and> m \<notin> set ms)\<rparr>, healthy fs', [])"
  using assms
proof (induction ms arbitrary: s fs)
  case Nil
  then show ?case by simp
next
  case (Cons m ms)
  show ?case
  proof (cases "st_dirty s m")
    case False
    moreover obtain fs' where "saveDirty cj ms s (healthy fs) = (s\<lparr>st_dirty := (\<lambda>m. st_dirty s m \<and> m \<notin> set ms)\<rparr>, healthy fs', [])"
      using Cons.IH [of s fs] Cons.prems by auto
    moreover have "(\<lambda>k. st_dirty s k \<and> k \<notin> set ms) = (\<lambda>k. st_dirty s k \<and> k \<notin> set (m # ms))" using False by auto
    ultimately show ?thesis by simp
  next
    case True
    with Cons.prems writeModule_healthy obtain fs1 where w: "writeModule cj s m (healthy fs) = (healthy fs1, True)" by fastforce
    let ?s = "s\<lparr>st_dirty := (st_dirty s)(m := False)\<rparr>"
    have "\<forall>k\<in>set ms. st_dirty ?s k \<longrightarrow> jc_marshal cj (module_content ?s k) \<noteq> None" using Cons.prems by simp
    from Cons.IH [OF this, of fs1]
    obtain fs' where "saveDirty cj ms ?s (healthy fs1) = (?s\<lparr>st_dirty := (\<lambda>m. st_dirty ?s m \<and> m \<notin> set ms)\<rparr>, healthy fs', [])"
      by blast
    moreover have "(\<lambda>k. st_dirty ?s k \<and> k \<notin> set ms) = (\<lambda>k. st_dirty s k \<and> k \<notin> set (m # ms))" by auto
    ultimately show ?thesis using True w by simp
  qed
qed

section \<open>Properties\<close>

text \<open>A codec for examples, of two contents.\<close>

definition demo_codec :: json_codec where
  "demo_codec =
     \<lparr>jc_marshal = (\<lambda>c. if c = Map.empty then Some ''{}''
         else if c = [''hub'' \<mapsto> Str_any ''t''] then Some ''{\"hub\":\"t\"}'' else None),
      jc_unmarshal = (\<lambda>p. if p = ''{}'' then Some Map.empty
         else if p = ''{\"hub\":\"t\"}'' then Some [''hub'' \<mapsto> Str_any ''t''] else None)\<rparr>"

lemma demo_codec_reads: "jc_marshal demo_codec c = Some p \<Longrightarrow> parse_raw demo_codec p = Some c"
  by (auto simp: demo_codec_def parse_raw_def split: if_splits)

lemma demo_reads_back: "reads_back demo_codec"
  using demo_codec_reads by (auto simp: reads_back_def)

definition demo_store :: store where
  "demo_store = \<lparr>st_base = ''/o'', st_data = [''hub'' \<mapsto> Str_any ''t''], st_dirty = (\<lambda>m. m = ''hub'')\<rparr>"

lemma demo_content: "module_content demo_store m = (if m = ''hub'' then [''hub'' \<mapsto> Str_any ''t''] else Map.empty)"
proof -
  have "''hub'' \<in> set (keys_of m) \<longleftrightarrow> m = ''hub''"
    by (auto simp: keys_of_def moduleKeys_def split: option.splits if_splits)
  then show ?thesis by (auto simp: module_content_def demo_store_def fun_eq_iff)
qed

lemma demo_marshals: "jc_marshal demo_codec (module_content demo_store m) \<noteq> None"
  by (simp add: demo_content) (simp add: demo_codec_def)

text \<open>
  C13. Saving refines an atomic replacement per module: whatever file operation of \<open>SaveDirty\<close> fails, stops half
  way or is the last one before a crash, what a load finds afterwards is the new content of exactly the modules that
  are not dirty any more, and the old content of all others.
\<close>

theorem save_refines_replacement:
  assumes "saveDirty cj ms s d = (s', d', errs)" and "reads_back cj"
    and "\<forall>m. intact cj (st_base s) (d_files d) m" and "distinct ms"
  shows "persisted cj (st_base s) (d_files d')
      = (\<lambda>m. if st_dirty s m \<and> \<not> st_dirty s' m then saved_content cj s m else persisted cj (st_base s) (d_files d) m)
    \<and> (\<forall>m. intact cj (st_base s) (d_files d') m)"
  using saveDirty_refines [OF assms] by blast

theorem save_refines_replacement_witness:
  "\<exists>s' d' errs. saveDirty demo_codec [''hub''] demo_store \<lparr>d_files = Map.empty, d_faults = [Works, Works, Dies 0], d_dead = False\<rparr>
       = (s', d', errs)
     \<and> persisted demo_codec ''/o'' (d_files d')
       = (\<lambda>m. if st_dirty demo_store m \<and> \<not> st_dirty s' m then saved_content demo_codec demo_store m
           else persisted demo_codec ''/o'' Map.empty m)
     \<and> (\<forall>m. intact demo_codec ''/o'' (d_files d') m)"
proof -
  let ?d = "\<lparr>d_files = Map.empty, d_faults = [Works, Works, Dies 0], d_dead = False\<rparr>"
  obtain s' d' errs where run: "saveDirty demo_codec [''hub''] demo_store ?d = (s', d', errs)" by (metis prod_cases3)
  have "\<forall>m. intact demo_codec (st_base demo_store) (d_files ?d) m" by (simp add: intact_def)
  moreover have "st_base demo_store = ''/o''" "d_files ?d = Map.empty" by (simp_all add: demo_store_def)
  ultimately show ?thesis using save_refines_replacement [OF run demo_reads_back] run by auto
qed

text \<open>
  C38. A module that cannot be written is reported and stays dirty, and nothing else is reported; its stored content
  is the old one. Once a tick of the autosave loop meets no fault, every module of that tick is saved.
\<close>

theorem failed_saves_reported:
  assumes "saveDirty cj ms s d = (s', d', errs)" and "reads_back cj"
    and "\<forall>m. intact cj (st_base s) (d_files d) m" and "distinct ms"
  shows "set errs = {m \<in> set ms. st_dirty s' m}
    \<and> (\<forall>m\<in>set errs. persisted cj (st_base s) (d_files d') m = persisted cj (st_base s) (d_files d) m)
    \<and> (\<forall>ms'. (\<forall>m\<in>set ms'. st_dirty s' m \<longrightarrow> jc_marshal cj (module_content s' m) \<noteq> None) \<longrightarrow>
         (\<exists>s2 fs. autoSave cj [ms'] s' (healthy (d_files d')) = (s2, healthy fs) \<and> (\<forall>m\<in>set ms'. \<not> st_dirty s2 m)))"
proof (intro conjI allI impI)
  note ref = saveDirty_refines [OF assms]
  show "set errs = {m \<in> set ms. st_dirty s' m}" using ref by blast
  then show "\<forall>m\<in>set errs. persisted cj (st_base s) (d_files d') m = persisted cj (st_base s) (d_files d) m" using ref by auto
  fix ms'
  assume "\<forall>m\<in>set ms'. st_dirty s' m \<longrightarrow> jc_marshal cj (module_content s' m) \<noteq> None"
  from saveDirty_healthy [OF this, of "d_files d'"]
  show "\<exists>s2 fs. autoSave cj [ms'] s' (healthy (d_files d')) = (s2, healthy fs) \<and> (\<forall>m\<in>set ms'. \<not> st_dirty s2 m)" by auto
qed

theorem failed_saves_reported_witness:
  "\<exists>s' d'. saveDirty demo_codec [''hub''] demo_store \<lparr>d_files = Map.empty, d_faults = [Fails 2], d_dead = False\<rparr> = (s', d', [''hub''])
     \<and> set [''hub''] = {m \<in> set [''hub'']. st_dirty s' m}"
proof -
  let ?d = "\<lparr>d_files = Map.empty, d_faults = [Fails 2], d_dead = False\<rparr>"
  obtain s' d' errs where run: "saveDirty demo_codec [''hub''] demo_store ?d = (s', d', errs)" by (metis prod_cases3)
  have "errs = [''hub'']" using run demo_marshals [of "''hub''"]
    by (auto simp: writeModule_def writeFile_def file_call_def demo_store_def split: option.splits prod.splits)
  moreover have "\<forall>m. intact demo_codec (st_base demo_store) (d_files ?d) m" by (simp add: intact_def)
  ultimately show ?thesis using failed_saves_reported [OF run demo_reads_back] run by auto
qed

text \<open>
  C14. A crash during a save costs at most that save: opened again, every module has all of its old values or all
  of its new ones.
\<close>

definition reading :: "amap option \<Rightarrow> string \<Rightarrow> any option" where
  "reading content k = (case Option.bind content (\<lambda>c. c k) of None \<Rightarrow> Some (default_value k) | Some v \<Rightarrow> Some v)"

theorem crash_old_or_new:
  assumes "saveDirty cj ms s d = (s', d', errs)" and "reads_back cj"
    and "\<forall>m. intact cj (st_base s) (d_files d) m" and "distinct ms" and "set ms' = set modules" "distinct ms'"
  shows "\<exists>s2 d2. open_store cj ms' (st_base s) (healthy (d_files d')) = (Some s2, d2)
    \<and> (\<forall>m\<in>set modules.
         (\<forall>k\<in>set (keys_of m). st_data s2 k = reading (persisted cj (st_base s) (d_files d) m) k)
       \<or> (\<forall>k\<in>set (keys_of m). st_data s2 k = reading (saved_content cj s m) k))"
proof -
  obtain s2 fs2 where o: "open_store cj ms' (st_base s) (healthy (d_files d')) = (Some s2, healthy fs2)"
    and v: "\<forall>m\<in>set modules. \<forall>k\<in>set (keys_of m). st_data s2 k = reading (persisted cj (st_base s) (d_files d') m) k"
    using open_healthy [OF assms(5,6), of cj "st_base s" "d_files d'"] unfolding reading_def by blast
  have "persisted cj (st_base s) (d_files d') m = saved_content cj s m
      \<or> persisted cj (st_base s) (d_files d') m = persisted cj (st_base s) (d_files d) m" for m
    using saveDirty_refines [OF assms(1-4)] by auto
  with v have "\<forall>m\<in>set modules.
         (\<forall>k\<in>set (keys_of m). st_data s2 k = reading (persisted cj (st_base s) (d_files d) m) k)
       \<or> (\<forall>k\<in>set (keys_of m). st_data s2 k = reading (saved_content cj s m) k)" by metis
  with o show ?thesis by blast
qed

theorem crash_old_or_new_witness:
  "\<exists>s' d' errs s2 d2. saveDirty demo_codec [''hub''] demo_store \<lparr>d_files = Map.empty, d_faults = [Works, Dies 1], d_dead = False\<rparr> = (s', d', errs)
     \<and> open_store demo_codec modules ''/o'' (healthy (d_files d')) = (Some s2, d2)
     \<and> (list_all (\<lambda>k. st_data s2 k = reading (persisted demo_codec ''/o'' Map.empty ''hub'') k) (keys_of ''hub'')
       \<or> list_all (\<lambda>k. st_data s2 k = reading (saved_content demo_codec demo_store ''hub'') k) (keys_of ''hub''))"
proof -
  let ?d = "\<lparr>d_files = Map.empty, d_faults = [Works, Dies 1], d_dead = False\<rparr>"
  obtain s' d' errs where run: "saveDirty demo_codec [''hub''] demo_store ?d = (s', d', errs)" by (metis prod_cases3)
  have i: "\<forall>m. intact demo_codec (st_base demo_store) (d_files ?d) m" by (simp add: intact_def)
  have m: "distinct modules" "''hub'' \<in> set modules" "distinct [''hub'']" by code_simp+
  from crash_old_or_new [OF run demo_reads_back i m(3) refl m(1)] m(2)
  obtain s2 d2 where o: "open_store demo_codec modules (st_base demo_store) (healthy (d_files d')) = (Some s2, d2)"
    and c: "(\<forall>k\<in>set (keys_of ''hub''). st_data s2 k = reading (persisted demo_codec (st_base demo_store) (d_files ?d) ''hub'') k)
      \<or> (\<forall>k\<in>set (keys_of ''hub''). st_data s2 k = reading (saved_content demo_codec demo_store ''hub'') k)"
    by blast
  have "st_base demo_store = ''/o''" by (simp add: demo_store_def)
  with run o c show ?thesis unfolding list_all_iff by (metis disk.select_convs(1))
qed

text \<open>
  What \<open>ForceSave\<close> reports as saved is there after a restart: every value that the codec reads back as
  \<open>f v\<close> is loaded as that, and every key without a value has its default.
\<close>

theorem force_save_reload:
  assumes "forceSave cj ms s d = (s', d', [])" and "set ms = set modules" "distinct ms"
    and codec: "\<And>c p. jc_marshal cj c = Some p \<Longrightarrow> parse_raw cj p = Some (map_option f \<circ> c)"
    and "\<forall>m. intact cj (st_base s) (d_files d) m" and "set ms' = set modules" "distinct ms'"
  shows "\<exists>s2 d2. open_store cj ms' (st_base s) (healthy (d_files d')) = (Some s2, d2)
    \<and> (\<forall>k\<in>set all_keys. st_data s2 k = (case st_data s k of None \<Rightarrow> Some (default_value k) | Some v \<Rightarrow> Some (f v)))"
proof -
  let ?s = "s\<lparr>st_dirty := (\<lambda>m. m \<in> set modules \<or> st_dirty s m)\<rparr>"
  from codec have rb: "reads_back cj" by (simp add: reads_back_def)
  from assms(1) have run: "saveDirty cj ms ?s d = (s', d', [])" by (simp add: forceSave_def)
  note ref = saveDirty_refines [OF run rb _ assms(3)]
  have stored: "persisted cj (st_base s) (d_files d') m = saved_content cj s m" and clean: "\<not> st_dirty s' m"
    if "m \<in> set modules" for m using ref assms(2,5) that by auto
  have saved: "saved_content cj s m = Some (map_option f \<circ> module_content s m)" if "m \<in> set modules" for m
  proof -
    have "jc_marshal cj (module_content ?s m) \<noteq> None"
      using saved_was_marshalled [OF run] that clean by simp
    then show ?thesis by (auto simp: saved_content_def dest: codec)
  qed
  obtain s2 fs2 where o: "open_store cj ms' (st_base s) (healthy (d_files d')) = (Some s2, healthy fs2)"
    and v: "\<forall>m\<in>set modules. \<forall>k\<in>set (keys_of m). st_data s2 k = reading (persisted cj (st_base s) (d_files d') m) k"
    using open_healthy [OF assms(6,7), of cj "st_base s" "d_files d'"] unfolding reading_def by blast
  have "st_data s2 k = (case st_data s k of None \<Rightarrow> Some (default_value k) | Some v \<Rightarrow> Some (f v))" if key: "k \<in> set all_keys" for k
  proof -
    obtain m where "m \<in> set modules" "k \<in> set (keys_of m)" using owner_exists [OF key] by blast
    with v stored saved show ?thesis by (auto simp: reading_def module_content_def split: option.split)
  qed
  with o show ?thesis by blast
qed

theorem force_save_reload_witness:
  "\<exists>s2 d2 s' d'. forceSave demo_codec modules demo_store (healthy Map.empty) = (s', d', [])
     \<and> open_store demo_codec modules ''/o'' (healthy (d_files d')) = (Some s2, d2) \<and> st_data s2 ''hub'' = Some (Str_any ''t'')
     \<and> st_data s2 ''apps'' = Some (List_any [])"
proof -
  have m: "distinct modules" "''hub'' \<in> set all_keys" "''apps'' \<in> set all_keys" by code_simp+
  obtain s' fs where run: "forceSave demo_codec modules demo_store (healthy Map.empty) = (s', healthy fs, [])"
    using saveDirty_healthy [of modules "demo_store\<lparr>st_dirty := (\<lambda>m. m \<in> set modules \<or> st_dirty demo_store m)\<rparr>" demo_codec Map.empty]
      demo_marshals by (auto simp: forceSave_def)
  have "\<exists>s2 d2. open_store demo_codec modules (st_base demo_store) (healthy (d_files (healthy fs))) = (Some s2, d2)
    \<and> (\<forall>k\<in>set all_keys. st_data s2 k = (case st_data demo_store k of None \<Rightarrow> Some (default_value k) | Some v \<Rightarrow> Some (id v)))"
  proof (rule force_save_reload [where f = id, OF run])
    show "parse_raw demo_codec p = Some (map_option id \<circ> c)" if "jc_marshal demo_codec c = Some p" for c p
      using demo_codec_reads [OF that] by (simp add: option.map_id comp_def id_def option.map_ident)
  qed (simp_all add: m intact_def)
  then obtain s2 d2 where o: "open_store demo_codec modules (st_base demo_store) (healthy (d_files (healthy fs))) = (Some s2, d2)"
    and v: "\<forall>k\<in>set all_keys. st_data s2 k = (case st_data demo_store k of None \<Rightarrow> Some (default_value k) | Some v \<Rightarrow> Some (id v))"
    by blast
  have "st_base demo_store = ''/o''" "st_data demo_store ''hub'' = Some (Str_any ''t'')" "st_data demo_store ''apps'' = None"
    by (simp_all add: demo_store_def)
  with v m have "st_data s2 ''hub'' = Some (Str_any ''t'')" "st_data s2 ''apps'' = Some (List_any [])"
    by (simp_all add: default_value_def)
  with run o \<open>st_base demo_store = ''/o''\<close> show ?thesis by metis
qed

text \<open>
  Two ways in which recovery loses what is stored. A read of the main file that fails for another reason than the
  file's absence (an I/O error, no file descriptors left) rolls the module back to its backup, for good.
\<close>

lemma read_error_rolls_back:
  assumes "fs (main_file b m) = Some new" "fs (backup_file b m) = Some old" "parse_raw cj old = Some c"
  shows "\<exists>d'. loadModuleFile cj b m \<lparr>d_files = fs, d_faults = [Fails 0], d_dead = False\<rparr> = (d', Some c)
    \<and> d_files d' (main_file b m) = Some old"
  using assms
  by (simp add: loadModuleFile_def recoverFromBackup_def readFile_def file_call_def copyFile_def writeFile_def
      write_effect_def Let_def)

text \<open>
  When the main file is broken and restoring it fails (a full disk), the broken file is still there; the next save
  copies it over the good backup, and a crash before the renaming leaves neither.
\<close>

lemma failed_restore_destroys_backup:
  assumes "fs (main_file b m) = Some bad" "parse_raw cj bad = None" "fs (backup_file b m) = Some good" "parse_raw cj good = Some c"
    and "st_base s = b" "jc_marshal cj (module_content s m) = Some payload"
  shows "\<exists>d1 d2. loadModuleFile cj b m \<lparr>d_files = fs, d_faults = [Works, Works, Works, Works, Fails 0], d_dead = False\<rparr> = (d1, Some c)
    \<and> writeModule cj s m (d1\<lparr>d_faults := [Works, Works, Works, Works, Works, Dies 0]\<rparr>) = (d2, False)
    \<and> persisted cj b (d_files d2) m = None"
  using assms
  by (simp add: loadModuleFile_def recoverFromBackup_def readFile_def file_call_def copyFile_def writeFile_def
      write_effect_def Let_def writeModule_def backup_previous_def stat_call_def mkdir_call_def rename_call_def
      remove_call_def persisted_def parsed_file_def)

end
