(* ===== verification/Watchdog.thy ===== *)
theory Watchdog
  imports ConfigStore "HOL-Library.Sublist"
begin

text \<open>
  \<open>internal/watchdog/watchdog.go\<close>: the process that keeps the server running. Its log buffers and their
  files (over the faults of \<open>FileSys\<close>), the budget of restarts, the loop of \<open>Run\<close> over the ends of the
  server, and the startup checks over the configuration store. The clock's text, the names of processes
  and the ends of the child are inputs.
\<close>

section \<open>Log streams\<close>

definition maxRestartsInWindow :: int where "maxRestartsInWindow = 100"

text \<open>Five minutes in nanoseconds.\<close>

definition restartWindow :: int where "restartWindow = 300000000000"

definition maxLines :: nat where "maxLines = 2000"
definition trimLines :: nat where "trimLines = 1000"

record stream =
  s_buf :: string
  s_flushed :: int
  s_dirty :: bool

definition new_stream :: stream where
  "new_stream = \<lparr>s_buf = [], s_flushed = -1, s_dirty = False\<rparr>"

definition trim_lines :: "string \<Rightarrow> string" where
  "trim_lines buf =
     (let ls = split_byte nl buf
      in if trimLines < length ls then join_str (drop (length ls - trimLines) ls) [nl] else buf)"

definition flush :: "string \<Rightarrow> stream \<Rightarrow> disk \<Rightarrow> stream \<times> disk \<times> bool" where
  "flush path st d =
     (if \<not> s_dirty st then (st, d, True)
      else
        let rewrite = (s_flushed st < 0 \<or> maxLines < length (split_byte nl (s_buf st)));
            buf = (if rewrite then trim_lines (s_buf st) else s_buf st);
            payload = (if rewrite then buf else drop (nat (s_flushed st)) buf);
            (d', ok) = (if rewrite then writeFile path payload d
                        else if payload \<noteq> [] then append_call path payload d
                        else (d, True))
        in if ok then (\<lparr>s_buf = buf, s_flushed = int (length buf), s_dirty = False\<rparr>, d', True)
           else (\<lparr>s_buf = buf, s_flushed = (if rewrite then -1 else s_flushed st), s_dirty = True\<rparr>, d', False))"

definition add_entry :: "string \<Rightarrow> stream \<Rightarrow> stream" where
  "add_entry entry st = st\<lparr>s_buf := s_buf st @ entry, s_dirty := True\<rparr>"

section \<open>The watchdog\<close>

record watchdog =
  wd_logDir :: string
  wd_logS :: stream
  wd_errS :: stream
  wd_logName :: string
  wd_restartCount :: int
  wd_lastRestart :: int

text \<open>The zero time lies far before any clock reading.\<close>

definition new_watchdog :: "string \<Rightarrow> string option \<Rightarrow> watchdog" where
  "new_watchdog base logNameEnv =
     \<lparr>wd_logDir = base @ ''/logs'', wd_logS = new_stream, wd_errS = new_stream,
      wd_logName = (case logNameEnv of None \<Rightarrow> ''.odac'' | Some n \<Rightarrow> if n = [] then ''.odac'' else n),
      wd_restartCount = 0, wd_lastRestart = -62135596800000000000\<rparr>"

definition log_file :: "watchdog \<Rightarrow> string" where
  "log_file w = wd_logDir w @ ''/'' @ wd_logName w @ ''.log''"

definition err_file :: "watchdog \<Rightarrow> string" where
  "err_file w = wd_logDir w @ ''/'' @ wd_logName w @ ''_err.log''"

text \<open>One chunk read from the child: first the command to switch logs, then the entry.\<close>

definition switch_logs :: "watchdog \<Rightarrow> watchdog" where
  "switch_logs w =
     w\<lparr>wd_logName := ''.odac'', wd_logS := (wd_logS w)\<lparr>s_flushed := -1\<rparr>,
       wd_errS := (wd_errS w)\<lparr>s_flushed := -1, s_dirty := True\<rparr>\<rparr>"

definition chunk_entry :: "bool \<Rightarrow> string \<Rightarrow> string \<Rightarrow> string" where
  "chunk_entry isErr now chunk = (if isErr then ''[ERR]'' else ''[LOG]'') @ ''['' @ now @ ''] '' @ chunk"

definition add_chunk :: "bool \<Rightarrow> string \<Rightarrow> watchdog \<Rightarrow> watchdog" where
  "add_chunk isErr entry w =
     (let w1 = w\<lparr>wd_logS := add_entry entry (wd_logS w)\<rparr>
      in if isErr then w1\<lparr>wd_errS := add_entry entry (wd_errS w1)\<rparr> else w1)"

definition consume_chunk :: "bool \<Rightarrow> string \<Rightarrow> string \<Rightarrow> watchdog \<Rightarrow> watchdog" where
  "consume_chunk isErr now chunk w =
     (let w1 = (if \<not> isErr \<and> contains_str chunk ''ODAC_CMD:SWITCH_LOGS'' then switch_logs w else w)
      in if chunk = [] then w else add_chunk isErr (chunk_entry isErr now chunk) w1)"

definition err_line :: "string \<Rightarrow> string \<Rightarrow> string" where
  "err_line now msg = ''[ERR]['' @ now @ ''] '' @ msg @ [nl]"

definition appendErrLine :: "string \<Rightarrow> string \<Rightarrow> watchdog \<Rightarrow> watchdog" where
  "appendErrLine now msg w = w\<lparr>wd_errS := add_entry (err_line now msg) (wd_errS w)\<rparr>"

definition flushAll :: "watchdog \<Rightarrow> disk \<Rightarrow> watchdog \<times> disk" where
  "flushAll w d =
     (if \<not> s_dirty (wd_logS w) \<and> \<not> s_dirty (wd_errS w) then (w, d)
      else case mkdir_call d of
             (d1, False) \<Rightarrow> (w, d1)
           | (d1, True) \<Rightarrow>
               (case flush (log_file w) (wd_logS w) d1 of
                  (logS, d2, _) \<Rightarrow>
                    (case flush (err_file w) (wd_errS w) d2 of
                       (errS, d3, _) \<Rightarrow> (w\<lparr>wd_logS := logS, wd_errS := errS\<rparr>, d3))))"

section \<open>Restarts\<close>

definition registerCrash :: "int \<Rightarrow> watchdog \<Rightarrow> watchdog \<times> bool" where
  "registerCrash now w =
     (let n = (if restartWindow < now - wd_lastRestart w then 0 else wd_restartCount w) + 1
      in (w\<lparr>wd_restartCount := n, wd_lastRestart := now\<rparr>, n < maxRestartsInWindow))"

section \<open>Startup checks\<close>

definition intVal :: "any \<Rightarrow> int" where
  "intVal v = (case v of Float_any f \<Rightarrow> float_to_int64 f | Int_any n \<Rightarrow> n | _ \<Rightarrow> 0)"

text \<open>The processes the checks look at, in this order.\<close>

definition app_pids :: "any \<Rightarrow> int list" where
  "app_pids v =
     (case v of
        List_any apps \<Rightarrow> concat (map (\<lambda>a. case a of
            Map_any app \<Rightarrow> if 0 < intVal (aget app ''pid'') then [intVal (aget app ''pid'')] else []
          | _ \<Rightarrow> []) apps)
      | _ \<Rightarrow> [])"

definition stale_pids :: "int \<Rightarrow> store \<Rightarrow> int list" where
  "stale_pids self s =
     (let srv = (case get_map ''server'' s of None \<Rightarrow> Map.empty | Some m \<Rightarrow> m);
          wpid = intVal (aget srv ''watchdog''); spid = intVal (aget srv ''pid'')
      in (if 0 < wpid \<and> wpid \<noteq> self then [wpid] else [])
         @ (if 0 < spid then [spid] else [])
         @ app_pids (get_value ''apps'' s))"

text \<open>\<open>stopSupervised\<close> sends a signal only to what looks like one of ours.\<close>

definition is_ours :: "string \<Rightarrow> bool" where
  "is_ours name \<longleftrightarrow> name = ''node'' \<or> has_prefix name ''odac-''"

definition stopSupervised :: "(int \<Rightarrow> string) \<Rightarrow> int \<Rightarrow> int list" where
  "stopSupervised processName pid = (if is_ours (processName pid) then [pid] else [])"

text \<open>The result: the processes signalled, the store and the files after it.\<close>

definition startupChecks ::
  "json_codec \<Rightarrow> string list \<Rightarrow> (int \<Rightarrow> string) \<Rightarrow> int \<Rightarrow> bool \<Rightarrow> int \<Rightarrow> store \<Rightarrow> disk \<Rightarrow> int list \<times> store \<times> disk" where
  "startupChecks cj ms processName self updateMode nowMs s d =
     (let s1 = (case get_map ''server'' s of None \<Rightarrow> set_value ''server'' (Map_any Map.empty) s | Some _ \<Rightarrow> s);
          signalled = (if updateMode then [] else concat (map (stopSupervised processName) (stale_pids self s1)));
          srv = the (get_map ''server'' s1);
          srv' = srv(''watchdog'' \<mapsto> Int_any self, ''started'' \<mapsto> Int64_any nowMs);
          s2 = touch ''server'' (s1\<lparr>st_data := (st_data s1)(''server'' \<mapsto> Map_any srv')\<rparr>)
      in case forceSave cj ms s2 d of (s3, d', _) \<Rightarrow> (signalled, s3, d'))"

text \<open>After the start of the child its process number is recorded.\<close>

definition record_child :: "json_codec \<Rightarrow> string list \<Rightarrow> int \<Rightarrow> store \<Rightarrow> disk \<Rightarrow> store \<times> disk" where
  "record_child cj ms pid s d =
     (case get_map ''server'' s of
        None \<Rightarrow> (s, d)
      | Some srv \<Rightarrow>
          (case saveDirty cj ms (touch ''server'' (s\<lparr>st_data := (st_data s)(''server'' \<mapsto> Map_any (srv(''pid'' \<mapsto> Int_any pid)))\<rparr>)) d of
             (s1, d1, _) \<Rightarrow> (s1, d1)))"

section \<open>Running the server\<close>

text \<open>
  One run of the child as its environment decides it: the process number or a failed start, the exit code or a
  failed wait, what the server does to the files meanwhile, and the clock when it is over.
\<close>

record server_run =
  sr_spawned :: "int option"
  sr_code :: int
  sr_waitFailed :: bool
  sr_effect :: "disk \<Rightarrow> disk"
  sr_startMs :: int
  sr_time :: int
  sr_stamp :: string

text \<open>What the watchdog is started with.\<close>

record wd_env =
  we_codec :: json_codec
  we_order :: "string list"
  we_names :: "int \<Rightarrow> string"
  we_self :: int
  we_update :: bool

text \<open>The result: the signalled processes, the store, the files, the code and whether there was an error.\<close>

definition runServerOnce :: "wd_env \<Rightarrow> server_run \<Rightarrow> store \<Rightarrow> disk \<Rightarrow> int list \<times> store \<times> disk \<times> int \<times> bool" where
  "runServerOnce we r s d =
     (case startupChecks (we_codec we) (we_order we) (we_names we) (we_self we) (we_update we) (sr_startMs r) s d of
        (signalled, s1, d1) \<Rightarrow>
          (case mkdir_call d1 of
             (d2, False) \<Rightarrow> (signalled, s1, d2, -1, True)
           | (d2, True) \<Rightarrow>
               (case sr_spawned r of
                  None \<Rightarrow> (signalled, s1, d2, -1, True)
                | Some pid \<Rightarrow>
                    (case record_child (we_codec we) (we_order we) pid s1 d2 of
                       (s2, d3) \<Rightarrow>
                         (signalled, s2, sr_effect r d3, if sr_waitFailed r then -1 else sr_code r, sr_waitFailed r)))))"

datatype run_state = Running watchdog store disk | Shut_down int watchdog disk

definition shutdown :: "int \<Rightarrow> watchdog \<Rightarrow> disk \<Rightarrow> run_state" where
  "shutdown code w d = (case flushAll w d of (w', d') \<Rightarrow> Shut_down code w' d')"

fun run_loop :: "wd_env \<Rightarrow> watchdog \<Rightarrow> store \<Rightarrow> disk \<Rightarrow> server_run list \<Rightarrow> run_state" where
  "run_loop we w s d [] = Running w s d"
| "run_loop we w s d (r # rs) =
     (case runServerOnce we r s d of
        (_, s1, d1, code, err) \<Rightarrow>
          if code = 0 \<and> \<not> err then shutdown 0 w d1
          else
            (case reload_store (we_codec we) (we_order we) s1 d1 of
               (s2, d2) \<Rightarrow>
                 (case registerCrash (sr_time r) (appendErrLine (sr_stamp r) (''Process closed with code '' @ itoa code) w) of
                    (w1, False) \<Rightarrow> shutdown 1 w1 d2
                  | (w1, True) \<Rightarrow> run_loop we w1 s2 d2 rs)))"

section \<open>Runs of the log buffers\<close>

datatype log_event = Chunk bool string string | Crash_line string string | Flush_tick

fun log_step :: "log_event \<Rightarrow> watchdog \<times> disk \<Rightarrow> watchdog \<times> disk" where
  "log_step (Chunk isErr now chunk) (w, d) = (consume_chunk isErr now chunk w, d)"
| "log_step (Crash_line now msg) (w, d) = (appendErrLine now msg w, d)"
| "log_step Flush_tick (w, d) = flushAll w d"

fun log_run :: "log_event list \<Rightarrow> watchdog \<times> disk \<Rightarrow> watchdog \<times> disk" where
  "log_run [] wd = wd"
| "log_run (e # es) wd = log_run es (log_step e wd)"

text \<open>Everything that was ever logged, to the log and to the error log.\<close>

fun logged :: "log_event \<Rightarrow> string" where
  "logged (Chunk isErr now chunk) = (if chunk = [] then [] else chunk_entry isErr now chunk)"
| "logged _ = []"

fun err_logged :: "log_event \<Rightarrow> string" where
  "err_logged (Chunk isErr now chunk) = (if chunk = [] \<or> \<not> isErr then [] else chunk_entry isErr now chunk)"
| "err_logged (Crash_line now msg) = err_line now msg"
| "err_logged Flush_tick = []"

abbreviation line_count :: "string \<Rightarrow> nat" where
  "line_count s \<equiv> length (split_byte nl s)"

lemma line_count_newlines: "line_count s = Suc (count_list s nl)"
  by (induction s) (auto split: list.splits)

lemma line_count_append: "line_count s \<le> line_count (s @ t)"
  by (simp add: line_count_newlines)

lemma join_drop: "n < length ls \<Longrightarrow> suffix (join_str (drop n ls) sep) (join_str ls sep)"
proof (induction ls arbitrary: n)
  case (Cons w ls)
  show ?case
  proof (cases n)
    case (Suc k)
    with Cons.prems have "ls \<noteq> []" "k < length ls" by auto
    with Cons.IH [of k] Suc show ?thesis by (simp add: join_Cons suffix_appendI)
  qed simp
qed simp

lemma trim_lines_suffix: "suffix (trim_lines buf) buf"
  using join_drop [of "line_count buf - trimLines" "split_byte nl buf" "[nl]"]
  by (auto simp: trim_lines_def Let_def join_split trimLines_def)

lemma trim_lines_count: "line_count (trim_lines buf) = min trimLines (line_count buf)"
proof (cases "trimLines < line_count buf")
  case True
  let ?ls = "drop (line_count buf - trimLines) (split_byte nl buf)"
  have "split_byte nl (join_str ?ls [nl]) = ?ls"
  proof (rule split_join)
    show "?ls \<noteq> []" using True by (simp add: trimLines_def)
    show "nl \<notin> set w" if "w \<in> set ?ls" for w using that split_byte_no_sep in_set_dropD by metis
  qed
  with True show ?thesis by (simp add: trim_lines_def Let_def)
qed (simp add: trim_lines_def Let_def)

text \<open>
  A stream and its file: the buffer is what was logged, less an old part when at least \<open>trimLines\<close> lines
  are left; the file holds the flushed part of the buffer.
\<close>

definition buffer_ok :: "stream \<Rightarrow> string \<Rightarrow> bool" where
  "buffer_ok st hist \<longleftrightarrow> (\<exists>p. hist = p @ s_buf st \<and> (p = [] \<or> trimLines \<le> line_count (s_buf st)))"

definition file_ok :: "stream \<Rightarrow> string option \<Rightarrow> bool" where
  "file_ok st content \<longleftrightarrow>
     (s_flushed st < 0 \<or> s_flushed st \<le> int (length (s_buf st)) \<and> content = Some (take (nat (s_flushed st)) (s_buf st)))
     \<and> (\<not> s_dirty st \<and> 0 \<le> s_flushed st \<longrightarrow> s_flushed st = int (length (s_buf st)) \<and> line_count (s_buf st) \<le> maxLines)"

text \<open>Faults under which an append that fails has added nothing.\<close>

definition whole_writes :: "disk \<Rightarrow> bool" where
  "whole_writes d \<longleftrightarrow> list_all (\<lambda>f. case f of Fails n \<Rightarrow> n = 0 | _ \<Rightarrow> True) (d_faults d)"

lemma file_call_whole: "whole_writes d \<Longrightarrow> whole_writes (fst (file_call eff d))"
  by (auto simp: whole_writes_def file_call_def split: list.split fault.split)

lemma file_call_alive: "\<not> d_dead (fst (file_call eff d)) \<Longrightarrow> \<not> d_dead d"
  by (auto simp: file_call_def split: if_splits)

lemma file_call_failed:
  "file_call eff d = (d', False) \<Longrightarrow> whole_writes d \<Longrightarrow> \<not> d_dead d' \<Longrightarrow> d_files d' = eff (Some 0) (d_files d)"
  by (auto simp: file_call_def whole_writes_def split: list.splits fault.splits if_splits)

lemma add_entry_buffer:
  assumes "buffer_ok st hist"
  shows "buffer_ok (add_entry e st) (hist @ e)"
proof -
  obtain p where "hist = p @ s_buf st" "p = [] \<or> trimLines \<le> line_count (s_buf st)"
    using assms by (auto simp: buffer_ok_def)
  moreover have "line_count (s_buf st) \<le> line_count (s_buf st @ e)" by (rule line_count_append)
  ultimately show ?thesis by (auto simp: buffer_ok_def add_entry_def)
qed

lemma add_entry_file: "file_ok st content \<Longrightarrow> file_ok (add_entry e st) content"
  by (auto simp: file_ok_def add_entry_def)

lemma trimmed_ok:
  assumes "buffer_ok st hist" and "s_buf st' = trim_lines (s_buf st)"
  shows "buffer_ok st' hist"
proof -
  obtain p where p: "hist = p @ s_buf st" "p = [] \<or> trimLines \<le> line_count (s_buf st)"
    using assms(1) by (auto simp: buffer_ok_def)
  obtain q where q: "s_buf st = q @ trim_lines (s_buf st)" using trim_lines_suffix by (auto simp: suffix_def)
  have "p @ q = [] \<or> trimLines \<le> line_count (trim_lines (s_buf st))"
  proof (cases "trimLines < line_count (s_buf st)")
    case False
    then have "trim_lines (s_buf st) = s_buf st" by (simp add: trim_lines_def)
    with q p False show ?thesis by auto
  qed (simp add: trim_lines_count)
  with p(1) q assms(2) show ?thesis by (auto simp: buffer_ok_def intro!: exI [where x = "p @ q"])
qed

lemma flush_ok:
  assumes "flush path st d = (st', d', ok)" and "buffer_ok st hist" and "file_ok st (d_files d path)"
    and "whole_writes d" and "\<not> d_dead d'"
  shows "buffer_ok st' hist \<and> file_ok st' (d_files d' path)"
proof (cases "s_dirty st")
  case False
  with assms show ?thesis by (simp add: flush_def)
next
  case dirty: True
  show ?thesis
  proof (cases "s_flushed st < 0 \<or> maxLines < line_count (s_buf st)")
    case True
    obtain d1 ok1 where w: "writeFile path (trim_lines (s_buf st)) d = (d1, ok1)" by fastforce
    from True dirty w assms(1) have st': "s_buf st' = trim_lines (s_buf st)" "d' = d1" "ok = ok1"
        "s_flushed st' = (if ok1 then int (length (trim_lines (s_buf st))) else -1)" "s_dirty st' = (\<not> ok1)"
      by (auto simp: flush_def Let_def split: if_splits)
    have "d_files d' path = Some (trim_lines (s_buf st))" if ok1
      using w that st'(2) by (auto dest: writeFile_ok)
    moreover have "line_count (trim_lines (s_buf st)) \<le> maxLines"
      by (simp add: trim_lines_count trimLines_def maxLines_def)
    ultimately have "file_ok st' (d_files d' path)" using st' by (auto simp: file_ok_def split: if_splits)
    moreover have "buffer_ok st' hist" by (rule trimmed_ok [OF assms(2) st'(1)])
    ultimately show ?thesis by blast
  next
    case False
    let ?rest = "drop (nat (s_flushed st)) (s_buf st)"
    obtain d1 ok1 where a: "(if ?rest \<noteq> [] then append_call path ?rest d else (d, True)) = (d1, ok1)" by fastforce
    from False dirty a assms(1) have st': "s_buf st' = s_buf st" "d' = d1" "ok = ok1"
        "s_flushed st' = (if ok1 then int (length (s_buf st)) else s_flushed st)" "s_dirty st' = (\<not> ok1)"
      by (auto simp: flush_def Let_def split: if_splits prod.splits)
    have f: "0 \<le> s_flushed st" "s_flushed st \<le> int (length (s_buf st))"
        "d_files d path = Some (take (nat (s_flushed st)) (s_buf st))"
      using assms(3) False by (auto simp: file_ok_def)
    have "d_files d' path = (if ok1 then Some (s_buf st) else d_files d path)"
    proof (cases "?rest = []")
      case True
      with a st'(2) f show ?thesis by auto
    next
      case nonempty: False
      show ?thesis
      proof (cases ok1)
        case True
        with a nonempty st'(2) have "d_files d' = append_effect path ?rest None (d_files d)"
          by (auto simp: append_call_def dest: file_call_ok)
        with True f show ?thesis by (simp add: append_effect_def file_text_def)
      next
        case False
        with a nonempty st'(2) assms(4,5) have "d_files d' = append_effect path ?rest (Some 0) (d_files d)"
          by (auto simp: append_call_def dest: file_call_failed)
        with False show ?thesis by (simp add: append_effect_def)
      qed
    qed
    then have "file_ok st' (d_files d' path)" using st' f False by (auto simp: file_ok_def)
    moreover have "buffer_ok st' hist" using assms(2) st'(1) by (simp add: buffer_ok_def)
    ultimately show ?thesis by blast
  qed
qed

lemma flush_frame: "p \<noteq> path \<Longrightarrow> flush path st d = (st', d', ok) \<Longrightarrow> d_files d' p = d_files d p"
  using writeFile_frame [of p path] append_call_frame [of p path]
  by (auto simp: flush_def Let_def split: if_splits prod.splits) (metis fst_conv)+

lemma flush_disk: "flush path st d = (st', d', ok) \<Longrightarrow> whole_writes d \<Longrightarrow> whole_writes d'"
  "flush path st d = (st', d', ok) \<Longrightarrow> \<not> d_dead d' \<Longrightarrow> \<not> d_dead d"
  using file_call_whole [of d] file_call_alive [of _ d]
  by (auto simp: flush_def Let_def writeFile_def append_call_def split: if_splits prod.splits) (metis fst_conv)+

definition logs_ok :: "watchdog \<Rightarrow> files \<Rightarrow> string \<Rightarrow> string \<Rightarrow> bool" where
  "logs_ok w fs hist errHist \<longleftrightarrow>
     buffer_ok (wd_logS w) hist \<and> file_ok (wd_logS w) (fs (log_file w))
     \<and> buffer_ok (wd_errS w) errHist \<and> file_ok (wd_errS w) (fs (err_file w))"

lemma log_files_differ [simp]: "log_file w \<noteq> err_file w"
  by (simp add: log_file_def err_file_def)

lemma flushAll_ok:
  assumes "logs_ok w (d_files d) h eh" and "whole_writes d" and "flushAll w d = (w', d')" and "\<not> d_dead d'"
  shows "logs_ok w' (d_files d') h eh \<and> whole_writes d'"
proof (cases "s_dirty (wd_logS w) \<or> s_dirty (wd_errS w)")
  case False
  with assms show ?thesis by (simp add: flushAll_def)
next
  case True
  obtain d1 ok1 where m: "mkdir_call d = (d1, ok1)" by fastforce
  have same: "d_files d1 = d_files d" "whole_writes d1"
    using m mkdir_call_frame [of d] file_call_whole [OF assms(2), of "\<lambda>_ fs. fs"] by (simp_all add: mkdir_call_def)
  show ?thesis
  proof (cases ok1)
    case False
    with True m assms same show ?thesis by (auto simp: flushAll_def)
  next
    case ok: True
    obtain logS d2 o2 where l: "flush (log_file w) (wd_logS w) d1 = (logS, d2, o2)" by (metis prod_cases3)
    obtain errS d3 o3 where e: "flush (err_file w) (wd_errS w) d2 = (errS, d3, o3)" by (metis prod_cases3)
    have w': "w' = w\<lparr>wd_logS := logS, wd_errS := errS\<rparr>" "d' = d3"
      using True m ok l e assms(3) by (auto simp: flushAll_def)
    have whole: "whole_writes d2" "whole_writes d3" using flush_disk(1) l e same(2) by blast+
    have alive: "\<not> d_dead d3" "\<not> d_dead d2" using flush_disk(2) [OF e] w'(2) assms(4) by auto
    have f2: "d_files d2 (err_file w) = d_files d1 (err_file w)" using flush_frame [OF _ l] log_files_differ by metis
    have f3: "d_files d3 (log_file w) = d_files d2 (log_file w)" using flush_frame [OF _ e] log_files_differ by metis
    have "buffer_ok logS h \<and> file_ok logS (d_files d2 (log_file w))"
      using flush_ok [OF l, of h] assms(1) same alive by (simp add: logs_ok_def)
    moreover have "buffer_ok errS eh \<and> file_ok errS (d_files d3 (err_file w))"
      using flush_ok [OF e, of eh] assms(1) same f2 whole alive by (simp add: logs_ok_def)
    ultimately show ?thesis using w' whole f3 by (simp add: logs_ok_def log_file_def err_file_def)
  qed
qed

lemma switch_logs_ok: "logs_ok w fs h eh \<Longrightarrow> logs_ok (switch_logs w) fs h eh"
  by (auto simp: logs_ok_def switch_logs_def buffer_ok_def file_ok_def)

lemma add_chunk_ok: "logs_ok w fs h eh \<Longrightarrow> logs_ok (add_chunk isErr e w) fs (h @ e) (if isErr then eh @ e else eh)"
  by (auto simp: logs_ok_def add_chunk_def Let_def log_file_def err_file_def intro: add_entry_buffer add_entry_file)

lemma log_step_ok:
  assumes "logs_ok w (d_files d) h eh" and "whole_writes d" and "log_step ev (w, d) = (w', d')" and "\<not> d_dead d'"
  shows "logs_ok w' (d_files d') (h @ logged ev) (eh @ err_logged ev) \<and> whole_writes d'"
proof (cases ev)
  case (Chunk isErr now chunk)
  define w1 where "w1 = (if \<not> isErr \<and> contains_str chunk ''ODAC_CMD:SWITCH_LOGS'' then switch_logs w else w)"
  have "logs_ok w1 (d_files d) h eh" using assms(1) switch_logs_ok by (simp add: w1_def)
  note ok = add_chunk_ok [OF this, of isErr "chunk_entry isErr now chunk"]
  have "consume_chunk isErr now chunk w = (if chunk = [] then w else add_chunk isErr (chunk_entry isErr now chunk) w1)"
    by (simp add: consume_chunk_def w1_def)
  with Chunk assms ok show ?thesis by (cases "chunk = []"; cases isErr) auto
next
  case (Crash_line now msg)
  with assms show ?thesis
    by (auto simp: appendErrLine_def logs_ok_def log_file_def err_file_def intro: add_entry_buffer add_entry_file)
next
  case Flush_tick
  with assms(3) have "flushAll w d = (w', d')" by simp
  from flushAll_ok [OF assms(1,2) this assms(4)] Flush_tick show ?thesis by simp
qed

lemma log_step_alive: "\<not> d_dead (snd (log_step ev (w, d))) \<Longrightarrow> \<not> d_dead d"
proof (cases ev)
  case Flush_tick
  assume "\<not> d_dead (snd (log_step ev (w, d)))"
  with Flush_tick show ?thesis
    by (cases "d_dead d") (auto simp: flushAll_def dead split: if_splits)
qed auto

lemma log_run_alive: "\<not> d_dead (snd (log_run evs wd)) \<Longrightarrow> \<not> d_dead (snd wd)"
  by (induction evs wd rule: log_run.induct) (auto dest: log_step_alive)

lemma log_run_ok:
  assumes "log_run evs (w, d) = (w', d')" and "logs_ok w (d_files d) h eh" and "whole_writes d" and "\<not> d_dead d'"
  shows "logs_ok w' (d_files d') (h @ concat (map logged evs)) (eh @ concat (map err_logged evs)) \<and> whole_writes d'"
  using assms
proof (induction evs arbitrary: w d h eh)
  case (Cons ev evs)
  obtain w1 d1 where s: "log_step ev (w, d) = (w1, d1)" by fastforce
  with Cons.prems(1) have r: "log_run evs (w1, d1) = (w', d')" by simp
  with Cons.prems(4) log_run_alive [of evs "(w1, d1)"] have "\<not> d_dead d1" by simp
  with log_step_ok [OF Cons.prems(2,3) s] have "logs_ok w1 (d_files d1) (h @ logged ev) (eh @ err_logged ev)" "whole_writes d1" by auto
  from Cons.IH [OF r this Cons.prems(4)] show ?case by simp
qed simp

lemma new_watchdog_ok: "logs_ok (new_watchdog base env) fs [] []"
  by (simp add: logs_ok_def new_watchdog_def new_stream_def buffer_ok_def file_ok_def)

section \<open>The restart budget\<close>

text \<open>A run that does not end with code 0.\<close>

definition run_fails :: "server_run \<Rightarrow> bool" where
  "run_fails r \<longleftrightarrow> sr_spawned r = None \<or> sr_waitFailed r \<or> sr_code r \<noteq> 0"

text \<open>Failed runs in close succession, the last crash before them at \<open>t\<close>.\<close>

fun close_runs :: "int \<Rightarrow> server_run list \<Rightarrow> bool" where
  "close_runs t [] = True"
| "close_runs t (r # rs) \<longleftrightarrow> run_fails r \<and> sr_time r - t \<le> restartWindow \<and> close_runs (sr_time r) rs"

definition restarts_left :: "watchdog \<Rightarrow> int" where
  "restarts_left w = maxRestartsInWindow - wd_restartCount w"

definition given_up :: "run_state \<Rightarrow> bool" where
  "given_up st \<longleftrightarrow> (case st of Shut_down code _ _ \<Rightarrow> code = 1 | _ \<Rightarrow> False)"

definition still_running :: "run_state \<Rightarrow> bool" where
  "still_running st \<longleftrightarrow> (case st of Running _ _ _ \<Rightarrow> True | _ \<Rightarrow> False)"

lemma appendErrLine_budget [simp]:
  "wd_lastRestart (appendErrLine now msg w) = wd_lastRestart w" "wd_restartCount (appendErrLine now msg w) = wd_restartCount w"
  by (simp_all add: appendErrLine_def)

lemma registerCrash_spec:
  assumes "registerCrash now w = (w1, ok)"
  shows "wd_lastRestart w1 = now"
    and "\<not> restartWindow < now - wd_lastRestart w \<Longrightarrow> restarts_left w1 = restarts_left w - 1"
    and "ok \<longleftrightarrow> restartWindow < now - wd_lastRestart w \<or> 1 < restarts_left w"
  using assms
  by (cases "restartWindow < now - wd_lastRestart w";
      auto simp: registerCrash_def restarts_left_def Let_def maxRestartsInWindow_def)+

lemma failed_run:
  assumes "run_fails r"
  obtains w1 s2 d2 x where "run_loop we w s d (r # rs)
      = (if restartWindow < sr_time r - wd_lastRestart w \<or> 1 < restarts_left w then run_loop we w1 s2 d2 rs else shutdown 1 w1 d2)"
    and "wd_lastRestart w1 = sr_time r"
    and "\<not> restartWindow < sr_time r - wd_lastRestart w \<Longrightarrow> restarts_left w1 = restarts_left w - 1"
proof -
  obtain sg s1 d1 code err where run: "runServerOnce we r s d = (sg, s1, d1, code, err)" by (metis prod_cases5)
  then have fails: "\<not> (code = 0 \<and> \<not> err)"
    using assms by (auto simp: runServerOnce_def run_fails_def split: prod.splits bool.splits option.splits if_splits)
  obtain s2 d2 where load: "reload_store (we_codec we) (we_order we) s1 d1 = (s2, d2)" by fastforce
  let ?w = "appendErrLine (sr_stamp r) (''Process closed with code '' @ itoa code) w"
  obtain w1 ok where reg: "registerCrash (sr_time r) ?w = (w1, ok)" by fastforce
  note reg' = registerCrash_spec [OF reg]
  have w1: "wd_lastRestart w1 = sr_time r"
    "\<not> restartWindow < sr_time r - wd_lastRestart w \<Longrightarrow> restarts_left w1 = restarts_left w - 1"
    "ok \<longleftrightarrow> restartWindow < sr_time r - wd_lastRestart w \<or> 1 < restarts_left w"
    using reg' by (simp_all add: restarts_left_def)
  have "run_loop we w s d (r # rs) = (if ok then run_loop we w1 s2 d2 rs else shutdown 1 w1 d2)"
    using run fails load reg by auto
  with w1 that show thesis by simp
qed

lemma given_up_shutdown [simp]: "given_up (shutdown c w d) \<longleftrightarrow> c = 1"
  by (simp add: given_up_def shutdown_def split: prod.split)

lemma crash_loop:
  assumes "close_runs (wd_lastRestart w) rs" and "0 < restarts_left w"
  shows "given_up (run_loop we w s d rs) \<longleftrightarrow> restarts_left w \<le> int (length rs)"
  using assms
proof (induction rs arbitrary: w s d)
  case (Cons r rs)
  then have close: "run_fails r" "\<not> restartWindow < sr_time r - wd_lastRestart w" by auto
  from failed_run [OF close(1)] obtain w1 s2 d2 where
    step: "run_loop we w s d (r # rs)
      = (if restartWindow < sr_time r - wd_lastRestart w \<or> 1 < restarts_left w then run_loop we w1 s2 d2 rs else shutdown 1 w1 d2)"
    and w1: "wd_lastRestart w1 = sr_time r" "\<not> restartWindow < sr_time r - wd_lastRestart w \<Longrightarrow> restarts_left w1 = restarts_left w - 1"
    by metis
  show ?case
  proof (cases "1 < restarts_left w")
    case True
    have "given_up (run_loop we w1 s2 d2 rs) \<longleftrightarrow> restarts_left w1 \<le> int (length rs)"
      using Cons.IH [of w1] Cons.prems w1 True close(2) by simp
    with step w1(2) [OF close(2)] True show ?thesis by (simp del: run_loop.simps) linarith
  next
    case False
    with step close(2) Cons.prems(2) show ?thesis by (simp del: run_loop.simps)
  qed
qed (simp add: given_up_def)

lemma spaced_crashes:
  assumes "\<And>r. r \<in> set rs \<Longrightarrow> run_fails r"
    and "sorted_wrt (\<lambda>a b. restartWindow < b - a) (wd_lastRestart w # map sr_time rs)"
  shows "still_running (run_loop we w s d rs)"
  using assms
proof (induction rs arbitrary: w s d)
  case (Cons r rs)
  then have "run_fails r" "restartWindow < sr_time r - wd_lastRestart w" by auto
  with failed_run [of r we w s d rs] obtain w1 s2 d2 where
    step: "run_loop we w s d (r # rs) = run_loop we w1 s2 d2 rs" and w1: "wd_lastRestart w1 = sr_time r"
    by (metis (no_types, lifting))
  have "still_running (run_loop we w1 s2 d2 rs)" using Cons.prems w1 by (intro Cons.IH) auto
  with step show ?case by metis
qed (simp add: still_running_def)

section \<open>Properties\<close>



text \<open>
  A crash loop ends: a server that keeps crashing, every time within five minutes of the time before, is
  restarted 99 times and given up at the hundredth crash, not before; crashes further apart are never given up.
\<close>

theorem crash_loop_ends:
  assumes "close_runs (wd_lastRestart w) rs" and "wd_restartCount w = 0"
    and "\<forall>r\<in>set far. run_fails r"
    and "sorted_wrt (\<lambda>a b. restartWindow < b - a) (wd_lastRestart w # map sr_time far)"
  shows "(given_up (run_loop we w s d rs) \<longleftrightarrow> 100 \<le> length rs) \<and> still_running (run_loop we w s d far)"
  using crash_loop [OF assms(1)] assms(2) spaced_crashes [OF _ assms(4)] assms(3)
  by (auto simp: restarts_left_def maxRestartsInWindow_def)

theorem crash_loop_ends_witness:
  "given_up (run_loop \<lparr>we_codec = demo_codec, we_order = modules, we_names = (\<lambda>_. ''sh''), we_self = 1, we_update = False\<rparr>
     ((new_watchdog ''/o'' None)\<lparr>wd_lastRestart := 0\<rparr>) demo_store (healthy Map.empty)
     (replicate 100 \<lparr>sr_spawned = Some 7, sr_code = 1, sr_waitFailed = False, sr_effect = id, sr_startMs = 0, sr_time = 5, sr_stamp = ''t''\<rparr>))"
proof -
  let ?r = "\<lparr>sr_spawned = Some 7, sr_code = 1, sr_waitFailed = False, sr_effect = id, sr_startMs = 0, sr_time = 5, sr_stamp = ''t''\<rparr>"
  have close: "close_runs t (replicate n ?r)" if "5 - t \<le> restartWindow" for t n
    using that by (induction n arbitrary: t) (auto simp: restartWindow_def run_fails_def)
  show ?thesis
    using crash_loop_ends [of "(new_watchdog ''/o'' None)\<lparr>wd_lastRestart := 0\<rparr>" "replicate 100 ?r" "[]"]
    by (simp add: close restartWindow_def new_watchdog_def)
qed

text \<open>
  The startup checks signal only processes that look like the server's own, nothing in update mode, and never
  the watchdog itself through its own record.
\<close>

theorem startup_signals_ours:
  assumes "startupChecks cj ms processName self updateMode nowMs s d = (signalled, s', d')"
  shows "(\<forall>pid\<in>set signalled. is_ours (processName pid) \<and> 0 < pid \<and> \<not> updateMode)
    \<and> (self \<in> set signalled \<longrightarrow>
        (\<exists>srv. get_map ''server'' s = Some srv \<and> intVal (aget srv ''pid'') = self) \<or> self \<in> set (app_pids (get_value ''apps'' s)))"
proof -
  define s1 where "s1 = (case get_map ''server'' s of None \<Rightarrow> set_value ''server'' (Map_any Map.empty) s | Some _ \<Rightarrow> s)"
  have sig: "signalled = (if updateMode then [] else concat (map (stopSupervised processName) (stale_pids self s1)))"
    using assms by (auto simp: startupChecks_def s1_def Let_def split: prod.splits)
  have apps: "0 < pid" if "pid \<in> set (app_pids v)" for pid v
    using that by (auto simp: app_pids_def split: any.splits if_splits)
  have same: "get_value ''apps'' s1 = get_value ''apps'' s"
    by (simp add: s1_def get_value_def set_value_def markDirty_def aget_def split: option.split prod.split)
  have "\<And>pid. pid \<in> set (stale_pids self s1) \<Longrightarrow> 0 < pid"
    using apps by (auto simp: stale_pids_def Let_def split: if_splits)
  moreover have "(\<exists>srv. get_map ''server'' s = Some srv \<and> intVal (aget srv ''pid'') = self) \<or> self \<in> set (app_pids (get_value ''apps'' s))"
    if "self \<in> set (stale_pids self s1)"
  proof (cases "get_map ''server'' s")
    case None
    then have "get_map ''server'' s1 = Some Map.empty"
      by (simp add: s1_def get_map_def get_value_def set_value_def markDirty_def aget_def split: option.split prod.split)
    with that same show ?thesis by (auto simp: stale_pids_def Let_def intVal_def aget_def split: if_splits)
  next
    case (Some srv)
    then have "s1 = s" by (simp add: s1_def)
    with that Some show ?thesis by (auto simp: stale_pids_def Let_def split: if_splits)
  qed
  ultimately show ?thesis unfolding sig
    by (auto simp: stopSupervised_def split: if_splits)
qed

theorem startup_signals_ours_witness:
  "list_all (\<lambda>pid. is_ours (if pid = 7 then ''odac-server'' else ''sh''))
     (fst (startupChecks demo_codec [''server''] (\<lambda>p. if p = 7 then ''odac-server'' else ''sh'') 1 False 0
       (demo_store\<lparr>st_data := [''server'' \<mapsto> Map_any [''pid'' \<mapsto> Int_any 7, ''watchdog'' \<mapsto> Int_any 9]]\<rparr>) (healthy Map.empty)))"
proof -
  let ?c = "startupChecks demo_codec [''server''] (\<lambda>p. if p = 7 then ''odac-server'' else ''sh'') 1 False 0
       (demo_store\<lparr>st_data := [''server'' \<mapsto> Map_any [''pid'' \<mapsto> Int_any 7, ''watchdog'' \<mapsto> Int_any 9]]\<rparr>) (healthy Map.empty)"
  obtain sg s' d' where "?c = (sg, s', d')" by (metis prod_cases3)
  from startup_signals_ours [OF this] this show ?thesis by (auto simp: list_all_iff)
qed

text \<open>
  The record of the server's process number is not guarded like the watchdog's: when the number has been reused for
  the watchdog itself, the watchdog signals itself.
\<close>

lemma own_pid_signalled:
  assumes "get_map ''server'' s = Some srv" "intVal (aget srv ''pid'') = self" "0 < self" "processName self = ''odac-watchdog''"
  shows "self \<in> set (fst (startupChecks cj ms processName self False nowMs s d))"
  using assms
  by (simp add: startupChecks_def Let_def stale_pids_def stopSupervised_def is_ours_def has_prefix_def split: prod.split)

text \<open>An append that fails half way is repeated in full: the bytes that got through are in the file twice.\<close>

lemma partial_append_duplicates:
  "\<exists>d1 d2 st1 st2. flush ''f'' \<lparr>s_buf = ''abcd'', s_flushed = 2, s_dirty = True\<rparr>
       \<lparr>d_files = [''f'' \<mapsto> ''ab''], d_faults = [Fails 2], d_dead = False\<rparr> = (st1, d1, False)
     \<and> flush ''f'' st1 d1 = (st2, d2, True) \<and> d_files d2 ''f'' = Some ''abccd''"
proof -
  have "split_byte nl ''abcd'' = [''abcd'']" by code_simp
  then show ?thesis
    by (simp add: flush_def maxLines_def append_call_def append_effect_def file_call_def file_text_def numeral_2_eq_2)
qed

end
