(* ===== verification/ImapText.thy ===== *)
theory ImapText
  imports GoJson GoAny
begin

text \<open>
  The text level of the IMAP server (\<open>internal/mail/imap/\<close>): what \<open>helpers.go\<close>, \<open>raw.go\<close> and the helpers of
  \<open>commands.go\<close> do to names, arguments, sequence sets, section selectors and header blocks. Go ranges over the
  runes of a string; a byte that is not UTF-8 is a rune of its own and is written as U+FFFD. The case tables
  beyond ASCII are a parameter.
\<close>

section \<open>Runes\<close>

text \<open>\<^const>\<open>None\<close>: a byte that begins no rune.\<close>

function runes :: "string \<Rightarrow> string option list" where
  "runes s =
     (if s = [] then []
      else case rune_len s of
             Some n \<Rightarrow> Some (take n s) # runes (drop n s)
           | None \<Rightarrow> None # runes (tl s))"
  by auto
termination runes
  by (relation "measure length") (auto dest: rune_len_bounds)

declare runes.simps [simp del]

definition write_rune :: "string option \<Rightarrow> string" where
  "write_rune r = (case r of None \<Rightarrow> replacement | Some w \<Rightarrow> w)"

definition isControlRune :: "string option \<Rightarrow> bool" where
  "isControlRune r \<longleftrightarrow> (case r of Some [c] \<Rightarrow> ascii_val c < 0x20 \<or> ascii_val c = 0x7F | _ \<Rightarrow> False)"

text \<open>\<open>strings.ToUpper\<close> and \<open>strings.ToLower\<close>: bytes when all are ASCII, otherwise rune by rune.\<close>

definition go_case :: "(char \<Rightarrow> char) \<Rightarrow> (string \<Rightarrow> string) \<Rightarrow> string \<Rightarrow> string" where
  "go_case ascii beyond s =
     (if list_all (\<lambda>c. ascii_val c < 0x80) s then map ascii s
      else concat (map (\<lambda>r. case r of None \<Rightarrow> replacement | Some [c] \<Rightarrow> [ascii c] | Some w \<Rightarrow> beyond w) (runes s)))"

section \<open>Quoted strings\<close>

definition maxMailboxNameLen :: nat where "maxMailboxNameLen = 512"

definition quote_rune :: "string option \<Rightarrow> string" where
  "quote_rune r =
     (if r = Some [dquote] \<or> r = Some [backslash] then backslash # write_rune r
      else if isControlRune r then [] else write_rune r)"

definition quoteString :: "string \<Rightarrow> string" where
  "quoteString s = [dquote] @ concat (map quote_rune (runes s)) @ [dquote]"

definition hasControlChars :: "string \<Rightarrow> bool" where
  "hasControlChars s \<longleftrightarrow> list_ex isControlRune (runes s)"

definition valid_string :: "string \<Rightarrow> bool" where
  "valid_string s \<longleftrightarrow> None \<notin> set (runes s)"

definition validMailboxName :: "string \<Rightarrow> bool" where
  "validMailboxName s \<longleftrightarrow>
     \<not> (s = [] \<or> maxMailboxNameLen < length s) \<and> \<not> hasControlChars s \<and> valid_string s"

definition escapeIMAPString :: "string \<Rightarrow> string" where
  "escapeIMAPString s = concat (map (\<lambda>c. if c = backslash \<or> c = dquote then [backslash, c] else [c]) s)"

section \<open>Arguments\<close>

fun split_args_loop :: "string \<Rightarrow> bool \<Rightarrow> bool \<Rightarrow> string option list \<Rightarrow> string list" where
  "split_args_loop cur inQuote escaped [] = (if cur \<noteq> [] then [cur] else [])"
| "split_args_loop cur inQuote escaped (r # rs) =
     (if escaped then split_args_loop (cur @ write_rune r) inQuote False rs
      else if r = Some [backslash] \<and> inQuote then split_args_loop (cur @ write_rune r) inQuote True rs
      else if r = Some [dquote] then split_args_loop (cur @ write_rune r) (\<not> inQuote) False rs
      else if r = Some '' '' \<and> \<not> inQuote
      then (if cur \<noteq> [] then cur # split_args_loop [] inQuote False rs else split_args_loop cur inQuote False rs)
      else split_args_loop (cur @ write_rune r) inQuote False rs)"

definition splitArgs :: "string \<Rightarrow> string list" where
  "splitArgs s = split_args_loop [] False False (runes s)"

text \<open>The closing quote is the last byte when no rune follows it.\<close>

fun unquote_loop :: "string \<Rightarrow> bool \<Rightarrow> string \<Rightarrow> string option list \<Rightarrow> string" where
  "unquote_loop s escaped b [] = s"
| "unquote_loop s escaped b (r # rs) =
     (if escaped then unquote_loop s False (b @ write_rune r) rs
      else if r = Some [backslash] then unquote_loop s True b rs
      else if r = Some [dquote] then (if rs = [] then b else s)
      else unquote_loop s False (b @ write_rune r) rs)"

definition unquote_arg :: "string \<Rightarrow> string" where
  "unquote_arg s = (if length s < 2 \<or> s ! 0 \<noteq> dquote then s else unquote_loop s False [] (runes (tl s)))"

definition flag_group_from :: "string list \<Rightarrow> string list" where
  "flag_group_from ps =
     (let first = takeWhile (\<lambda>p. \<not> has_suffix p '')'') ps
      in take (min (length ps) (length first + 1)) ps)"

definition appendFlagGroup :: "string list \<Rightarrow> string list" where
  "appendFlagGroup parts =
     (case dropWhile (\<lambda>p. \<not> has_prefix p ''('') parts of
        [] \<Rightarrow> []
      | ps \<Rightarrow> str_fields (trim_both (join_str (flag_group_from ps) '' '') ''()''))"

section \<open>Sequence sets\<close>

text \<open>\<open>sort.Search\<close>: the least index at which a monotone predicate holds.\<close>

function sort_search :: "(nat \<Rightarrow> bool) \<Rightarrow> nat \<Rightarrow> nat \<Rightarrow> nat" where
  "sort_search f i j =
     (if i < j then (let h = (i + j) div 2 in if \<not> f h then sort_search f (h + 1) j else sort_search f i h)
      else i)"
  by auto
termination sort_search
  by (relation "measure (\<lambda>(_, i, j). j - i)") auto

declare sort_search.simps [simp del]

definition seq_num :: "string \<Rightarrow> int \<Rightarrow> int" where
  "seq_num s final = (if s = ''*'' then final else parse_int64_lax s)"

definition seq_range :: "string \<Rightarrow> int \<Rightarrow> int \<times> int" where
  "seq_range part final =
     (if contains_str part '':''
      then (let bounds = split_n 2 CHR '':'' part;
                lo = seq_num (bounds ! 0) final; hi = seq_num (bounds ! 1) final
            in if hi < lo then (hi, lo) else (lo, hi))
      else (seq_num part final, seq_num part final))"

definition part_uids :: "string \<Rightarrow> int list \<Rightarrow> bool \<Rightarrow> int list" where
  "part_uids part allUIDs isUID =
     (if isUID
      then (case seq_range part (last allUIDs) of
              (lo, hi) \<Rightarrow>
                let startIdx = sort_search (\<lambda>i. lo \<le> allUIDs ! i) 0 (length allUIDs);
                    endIdx = sort_search (\<lambda>i. hi < allUIDs ! i) 0 (length allUIDs)
                in if startIdx < endIdx then take (endIdx - startIdx) (drop startIdx allUIDs) else [])
      else (case seq_range part (int (length allUIDs)) of
              (lo0, hi0) \<Rightarrow>
                let lo = (if lo0 < 1 then 1 else lo0);
                    hi = (if int (length allUIDs) < hi0 then int (length allUIDs) else hi0)
                in if lo \<le> hi then take (nat (hi - (lo - 1))) (drop (nat (lo - 1)) allUIDs) else []))"

definition seqSetToUIDs :: "string \<Rightarrow> int list \<Rightarrow> bool \<Rightarrow> int list" where
  "seqSetToUIDs seqSet allUIDs isUID =
     (if allUIDs = [] then []
      else concat (map (\<lambda>part. part_uids part allUIDs isUID) (split_byte CHR '','' seqSet)))"

section \<open>Section selectors\<close>

text \<open>
  The offsets are those of the upper-case text, the slices those of the text itself: \<^const>\<open>None\<close> is a slice out of
  range, which panics.
\<close>

datatype selector_step = Sel_end | Sel_panic | Sel nat nat

definition selector_stop :: "string \<Rightarrow> nat \<Rightarrow> nat" where
  "selector_stop items close =
     (if close < length items \<and> items ! close = CHR ''<''
      then (case index_byte CHR ''>'' (drop close items) of
              Some g \<Rightarrow> if 0 < g then close + g + 1 else close
            | None \<Rightarrow> close)
      else close)"

definition bracket_part :: "string \<Rightarrow> nat \<Rightarrow> selector_step" where
  "bracket_part items start =
     (if length items < start then Sel_panic
      else
        (case index_byte CHR ''['' (drop start items) of
           None \<Rightarrow> Sel_end
         | Some k \<Rightarrow>
             let bracket = start + k
             in (case index_byte CHR '']'' (drop (bracket + 1) items) of
                   None \<Rightarrow> Sel_end
                 | Some c \<Rightarrow> Sel start (selector_stop items (bracket + 1 + c + 1)))))"

definition next_selector :: "string \<Rightarrow> string \<Rightarrow> nat \<Rightarrow> selector_step" where
  "next_selector upper items i =
     (if length upper < i then Sel_panic
      else
        (case (index_str ''BODY['' (drop i upper), index_str ''BODY.PEEK['' (drop i upper)) of
           (None, None) \<Rightarrow> Sel_end
         | (Some x, None) \<Rightarrow> bracket_part items (i + x)
         | (None, Some y) \<Rightarrow> bracket_part items (i + y)
         | (Some x, Some y) \<Rightarrow> bracket_part items (i + (if x < y then x else y))))"

lemma selector_stop_ge: "close \<le> selector_stop items close"
  by (simp add: selector_stop_def split: option.split)

lemma bracket_part_Sel:
  assumes "bracket_part items start = Sel a b"
  shows "a = start \<and> start < b"
proof -
  obtain k c where "a = start" "b = selector_stop items (start + k + 1 + c + 1)"
    using assms by (auto simp: bracket_part_def Let_def split: if_splits option.splits)
  with selector_stop_ge [of "start + k + 1 + c + 1" items] show ?thesis by simp
qed

lemma next_selector_Sel: "next_selector upper items i = Sel a b \<Longrightarrow> i \<le> a \<and> a < b"
  by (auto simp: next_selector_def dest!: bracket_part_Sel split: if_splits option.splits)

function find_selectors :: "string \<Rightarrow> string \<Rightarrow> nat \<Rightarrow> string list option" where
  "find_selectors upper items i =
     (if \<not> i < length items then Some []
      else case next_selector upper items i of
             Sel_end \<Rightarrow> Some []
           | Sel_panic \<Rightarrow> None
           | Sel start stop \<Rightarrow>
               map_option (\<lambda>out. take (stop - start) (drop start items) # out) (find_selectors upper items stop))"
  by auto
termination find_selectors
  by (relation "measure (\<lambda>(_, items, i). length items - i)") (auto dest: next_selector_Sel)

declare find_selectors.simps [simp del]

definition findBodySelectors :: "(string \<Rightarrow> string) \<Rightarrow> string \<Rightarrow> string list option" where
  "findBodySelectors upper items = find_selectors (upper items) items 0"

text \<open>The partial range of a selector: \<open>BODY[section]<origin.count>\<close>.\<close>

definition selector_partial :: "string \<Rightarrow> (int \<times> int) option" where
  "selector_partial items =
     (case last_index_byte CHR '']'' items of
        None \<Rightarrow> None
      | Some k \<Rightarrow>
          let rest = drop (k + 1) items
          in if \<not> k < length items - 1 \<or> \<not> (has_prefix rest ''<'' \<and> has_suffix rest ''>'') then None
             else
               let partial = take (length rest - 2) (drop 1 rest)
               in case index_byte CHR ''.'' partial of
                    None \<Rightarrow> None
                  | Some dot \<Rightarrow>
                      (case (parse_int64 (take dot partial), parse_int64 (drop (dot + 1) partial)) of
                         (Some origin, Some cnt) \<Rightarrow> if 0 \<le> origin \<and> 0 \<le> cnt then Some (origin, cnt) else None
                       | _ \<Rightarrow> None))"

definition selector_section :: "string \<Rightarrow> string" where
  "selector_section items =
     (case (index_byte CHR ''['' items, last_index_byte CHR '']'' items) of
        (Some a, Some b) \<Rightarrow> if a < b then take (b - (a + 1)) (drop (a + 1) items) else []
      | _ \<Rightarrow> [])"

text \<open>The end of the range wraps around for an absurd count. \<^const>\<open>None\<close>: a slice out of range.\<close>

definition partial_bytes :: "int \<Rightarrow> int \<Rightarrow> string \<Rightarrow> string option" where
  "partial_bytes origin cnt content =
     (let total = int (length content)
      in if total \<le> origin then Some []
         else
           let e = wrap64 (origin + cnt);
               stop = (if total < e \<or> e < origin then total else e)
           in if origin < 0 \<or> stop < origin \<or> total < stop then None
              else Some (take (nat (stop - origin)) (drop (nat origin) content)))"

definition literal :: "string \<Rightarrow> string" where
  "literal s = ''{'' @ itoa (int (length s)) @ ''}'' @ [cr, nl] @ s"

definition writeSectionResult :: "string \<Rightarrow> string \<Rightarrow> (int \<times> int) option \<Rightarrow> string option" where
  "writeSectionResult sec content partial =
     (case partial of
        None \<Rightarrow> Some (''BODY['' @ sec @ ''] '' @ literal content @ '' '')
      | Some (origin, cnt) \<Rightarrow>
          map_option (\<lambda>s. ''BODY['' @ sec @ '']<'' @ itoa origin @ ''> '' @ literal s @ '' '')
            (partial_bytes origin cnt content))"

section \<open>Header blocks\<close>

definition parseFieldList :: "(string \<Rightarrow> string) \<Rightarrow> string \<Rightarrow> string list" where
  "parseFieldList lower spec =
     (case (index_byte CHR ''('' spec, last_index_byte CHR '')'' spec) of
        (Some a, Some b) \<Rightarrow>
          if a < b
          then map lower (filter (\<lambda>f. f \<noteq> []) (map (\<lambda>f. trim_both f [dquote]) (str_fields (take (b - (a + 1)) (drop (a + 1) spec)))))
          else []
      | _ \<Rightarrow> [])"

definition header_name :: "(string \<Rightarrow> string) \<Rightarrow> string \<Rightarrow> string" where
  "header_name lower line =
     (case index_byte CHR '':'' line of
        Some k \<Rightarrow> if 0 < k then lower (trim_space (take k line)) else []
      | None \<Rightarrow> [])"

function filter_header_lines :: "(string \<Rightarrow> bool) \<Rightarrow> bool \<Rightarrow> string \<Rightarrow> string" where
  "filter_header_lines keep keeping block =
     (if block = [] then []
      else
        let line = (case index_byte nl block of None \<Rightarrow> block | Some k \<Rightarrow> take (Suc k) block)
        in if trim_both line [cr, nl] = [] then []
           else
             let k = (if hd line = CHR '' '' \<or> hd line = tab then keeping else keep line)
             in (if k then line else []) @ filter_header_lines keep k (drop (length line) block))"
  by auto
termination filter_header_lines
  by (relation "measure (\<lambda>(_, _, block). length block)") (auto simp: Let_def split: option.splits)

declare filter_header_lines.simps [simp del]

definition filterRawHeaders :: "(string \<Rightarrow> string) \<Rightarrow> string \<Rightarrow> string list \<Rightarrow> bool \<Rightarrow> string" where
  "filterRawHeaders lower block flds exclude =
     filter_header_lines (\<lambda>line. (header_name lower line \<in> set flds) \<noteq> exclude) False block @ [cr, nl]"

section \<open>Mailbox attributes and lines\<close>

definition mailboxFlags :: "(string \<Rightarrow> string) \<Rightarrow> string \<Rightarrow> string" where
  "mailboxFlags lower box =
     (let b = lower box
      in backslash # ''HasNoChildren'' @
         (if b = ''sent'' \<or> b = ''sent messages'' then CHR '' '' # backslash # ''Sent''
          else if b = ''drafts'' then CHR '' '' # backslash # ''Drafts''
          else if b = ''trash'' \<or> b = ''deleted messages'' then CHR '' '' # backslash # ''Trash''
          else if b = ''junk'' \<or> b = ''spam'' then CHR '' '' # backslash # ''Junk''
          else if b = ''archive'' then CHR '' '' # backslash # ''Archive''
          else []))"

definition countLines :: "string \<Rightarrow> int" where
  "countLines s =
     (if s = [] then 0
      else int (length (filter (\<lambda>c. c = nl) s)) + (if has_suffix s [nl] then 0 else 1))"

section \<open>Runes of what is written\<close>

lemma write_rune_Some [simp]: "write_rune (Some w) = w"
  by (simp add: write_rune_def)

lemma runes_Nil [simp]: "runes [] = []"
  by (simp add: runes.simps)

lemma runes_app: "rune_len w = Some (length w) \<Longrightarrow> runes (w @ t) = Some w # runes t"
  using rune_len_bounds [of w "length w"] rune_len_append [of w "length w" t] by (subst runes.simps) auto

lemma runes_ascii: "ascii_val c < 128 \<Longrightarrow> runes (c # t) = Some [c] # runes t"
  using runes_app [of "[c]" t] rune_len_ascii [of c "[]"] by simp

lemma runes_valid: "Some w \<in> set (runes s) \<Longrightarrow> rune_len w = Some (length w)"
proof (induction s rule: runes.induct)
  case (1 s)
  show ?case
  proof (cases "s = [] \<or> rune_len s = None")
    case True
    with 1 show ?thesis by (subst (asm) (3) runes.simps) (auto split: if_splits)
  next
    case False
    then obtain n where n: "s \<noteq> []" "rune_len s = Some n" by auto
    then have "runes s = Some (take n s) # runes (drop n s)" by (subst runes.simps) simp
    with 1 n rune_len_take [OF n(2)] rune_len_bounds [OF n(2)] show ?thesis by (auto simp: min_def)
  qed
qed

lemma runes_concat: "list_all (\<lambda>w. rune_len w = Some (length w)) ws \<Longrightarrow> runes (concat ws @ t) = map Some ws @ runes t"
  by (induction ws) (auto simp: runes_app)

lemma concat_runes: "valid_string s \<Longrightarrow> concat (map write_rune (runes s)) = s"
proof (induction s rule: runes.induct)
  case (1 s)
  show ?case
  proof (cases "s = []")
    case False
    have r: "runes s = (case rune_len s of Some n \<Rightarrow> Some (take n s) # runes (drop n s) | None \<Rightarrow> None # runes (tl s))"
      using False by (subst runes.simps) simp
    with 1(3) obtain n where n: "rune_len s = Some n" by (cases "rune_len s") (auto simp: valid_string_def)
    with r 1(3) have "valid_string (drop n s)" by (simp add: valid_string_def)
    with 1(1,2) False n have "concat (map write_rune (runes (drop n s))) = drop n s" by auto
    with r n show ?thesis by simp
  qed simp
qed

lemma rune_len_replacement: "rune_len replacement = Some (length replacement)"
  by (simp add: replacement_def ascii_val_def rune_len.simps)

lemma write_rune_valid: "r \<in> set (runes s) \<Longrightarrow> rune_len (write_rune r) = Some (length (write_rune r))"
  using runes_valid by (cases r) (auto simp: write_rune_def rune_len_replacement)

text \<open>The pieces that quoting writes for a rune.\<close>

definition quote_pieces :: "string option \<Rightarrow> string list" where
  "quote_pieces r =
     (if r = Some [dquote] \<or> r = Some [backslash] then [[backslash], write_rune r]
      else if isControlRune r then [] else [write_rune r])"

lemma quote_rune_pieces: "quote_rune r = concat (quote_pieces r)"
  by (simp add: quote_rune_def quote_pieces_def)

lemma rune_len_backslash: "rune_len [backslash] = Some 1"
  by (rule rune_len_ascii) (simp add: ascii_val_def)

lemma quote_pieces_valid:
  assumes "r \<in> set (runes s)" and "w \<in> set (quote_pieces r)"
  shows "rune_len w = Some (length w)"
proof -
  have "w = [backslash] \<or> w = write_rune r" using assms(2) by (simp add: quote_pieces_def split: if_splits)
  with write_rune_valid [OF assms(1)] rune_len_backslash show ?thesis by auto
qed

lemma quote_runes_pieces: "concat (map quote_rune rs) = concat (concat (map quote_pieces rs))"
  by (induction rs) (simp_all add: quote_rune_pieces)

lemma runes_quoted:
  "runes (concat (map quote_rune (runes s)) @ t) = map Some (concat (map quote_pieces (runes s))) @ runes t"
proof -
  have "list_all (\<lambda>w. rune_len w = Some (length w)) (concat (map quote_pieces (runes s)))"
    unfolding list_all_iff set_concat using quote_pieces_valid by auto
  from runes_concat [OF this] show ?thesis by (simp only: quote_runes_pieces)
qed

text \<open>A rune that is one of the two specials or the space is that byte.\<close>

lemma unquote_quoted:
  assumes "None \<notin> set rs" and "\<not> list_ex isControlRune rs" and "us \<noteq> []"
  shows "unquote_loop s False b (map Some (concat (map quote_pieces rs)) @ us) = unquote_loop s False (b @ concat (map write_rune rs)) us"
  using assms
proof (induction rs arbitrary: b)
  case (Cons r rs)
  then obtain w where w: "r = Some w" by (cases r) auto
  have pieces: "quote_pieces r = (if w = [dquote] \<or> w = [backslash] then [[backslash], w] else [w])"
    using Cons.prems w by (simp add: quote_pieces_def)
  have IH: "unquote_loop s False (b @ w) (map Some (concat (map quote_pieces rs)) @ us)
      = unquote_loop s False ((b @ w) @ concat (map write_rune rs)) us"
    using Cons.IH [of "b @ w"] Cons.prems by auto
  show ?case
  proof (cases "w = [dquote] \<or> w = [backslash]")
    case True
    then have "quote_pieces r = [[backslash], w]" by (simp add: pieces)
    with IH w show ?thesis by (simp add: write_rune_Some)
  next
    case False
    then have "quote_pieces r = [w]" by (simp add: pieces)
    with IH w False show ?thesis by simp
  qed
qed simp

lemma split_args_quoted:
  assumes "None \<notin> set rs" and "\<not> list_ex isControlRune rs"
  shows "split_args_loop cur True False (map Some (concat (map quote_pieces rs)) @ us)
    = split_args_loop (cur @ concat (map quote_rune rs)) True False us"
  using assms
proof (induction rs arbitrary: cur)
  case (Cons r rs)
  then obtain w where w: "r = Some w" by (cases r) auto
  have pieces: "quote_pieces r = (if w = [dquote] \<or> w = [backslash] then [[backslash], w] else [w])"
    using Cons.prems w by (simp add: quote_pieces_def)
  have IH: "split_args_loop c True False (map Some (concat (map quote_pieces rs)) @ us)
      = split_args_loop (c @ concat (map quote_rune rs)) True False us" for c
    using Cons.IH [of c] Cons.prems by auto
  show ?case
  proof (cases "w = [dquote] \<or> w = [backslash]")
    case True
    then have p: "quote_pieces r = [[backslash], w]" by (simp add: pieces)
    then have "quote_rune r = backslash # w" by (simp add: quote_rune_pieces)
    with IH p show ?thesis by simp
  next
    case False
    then have p: "quote_pieces r = [w]" by (simp add: pieces)
    then have "quote_rune r = w" by (simp add: quote_rune_pieces)
    with IH p False show ?thesis by simp
  qed
qed simp

section \<open>No control byte leaves a quoted string\<close>

lemma rune_bytes:
  assumes "rune_len w = Some (length w)" and "c \<in> set w"
  shows "w = [c] \<or> 128 \<le> ascii_val c"
  using assms by (cases w) (auto simp: rune_len.simps split: if_splits list.splits)

lemma quote_rune_bytes:
  assumes "r \<in> set (runes s)" and "c \<in> set (quote_rune r)"
  shows "0x20 \<le> ascii_val c \<and> ascii_val c \<noteq> 0x7F"
proof -
  have "c \<in> set (write_rune r) \<and> \<not> isControlRune r \<or> c = backslash \<or> c = dquote"
    using assms(2) by (auto simp: quote_rune_def split: if_splits)
  moreover have "0x20 \<le> ascii_val c \<and> ascii_val c \<noteq> 0x7F" if "c \<in> set (write_rune r)" "\<not> isControlRune r"
  proof (cases r)
    case None
    with that show ?thesis by (auto simp: write_rune_def replacement_def ascii_val_def)
  next
    case (Some w)
    with rune_bytes [OF write_rune_valid [OF assms(1)] that(1)] that show ?thesis
      by (auto simp: isControlRune_def)
  qed
  ultimately show ?thesis by (auto simp: ascii_val_def)
qed

lemma quoteString_bytes: "c \<in> set (quoteString s) \<Longrightarrow> 0x20 \<le> ascii_val c \<and> ascii_val c \<noteq> 0x7F"
  using quote_rune_bytes by (auto simp: quoteString_def ascii_val_def)

section \<open>Binary search\<close>

lemma sort_search_least:
  assumes "i \<le> j" and "\<And>a b. a \<le> b \<Longrightarrow> b < n \<Longrightarrow> f a \<Longrightarrow> f b" and "j \<le> n"
    and "\<And>k. k < i \<Longrightarrow> \<not> f k" and "\<And>k. j \<le> k \<Longrightarrow> k < n \<Longrightarrow> f k"
  shows "sort_search f i j \<le> n \<and> (\<forall>k < n. f k \<longleftrightarrow> sort_search f i j \<le> k)"
  using assms
proof (induction f i j rule: sort_search.induct)
  case (1 f i j)
  show ?case
  proof (cases "i < j")
    case True
    define h where "h = (i + j) div 2"
    have h: "i \<le> h" "h < j" using True by (auto simp: h_def)
    show ?thesis
    proof (cases "f h")
      case True
      have "sort_search f i j = sort_search f i h" using h True by (subst sort_search.simps) (simp add: h_def [symmetric])
      moreover have "sort_search f i h \<le> n \<and> (\<forall>k < n. f k \<longleftrightarrow> sort_search f i h \<le> k)"
        by (rule "1.IH" (2) [OF \<open>i < j\<close> h_def]) (use True h "1.prems" in auto)
      ultimately show ?thesis by simp
    next
      case False
      have "sort_search f i j = sort_search f (h + 1) j" using h False by (subst sort_search.simps) (simp add: h_def [symmetric])
      moreover have "sort_search f (h + 1) j \<le> n \<and> (\<forall>k < n. f k \<longleftrightarrow> sort_search f (h + 1) j \<le> k)"
      proof (rule "1.IH" (1) [OF \<open>i < j\<close> h_def])
        show "\<not> f k" if "k < h + 1" for k using that False h "1.prems"(2) [of k h] "1.prems"(3) by auto
      qed (use False h "1.prems" in auto)
      ultimately show ?thesis by simp
    qed
  next
    case False
    then have "sort_search f i j = i" by (subst sort_search.simps) simp
    moreover have "f k \<longleftrightarrow> i \<le> k" if "k < n" for k
      using "1.prems"(4) [of k] "1.prems"(5) [of k] "1.prems"(1) that False by (cases "i \<le> k") auto
    ultimately show ?thesis using "1.prems"(1,3) by auto
  qed
qed

section \<open>Ranges as filters\<close>

lemma filter_index:
  assumes "\<And>k. k < length xs \<Longrightarrow> P (xs ! k) \<longleftrightarrow> a \<le> k \<and> k < b"
  shows "filter P xs = take (b - a) (drop a xs)"
proof -
  have split: "xs = take a xs @ take (b - a) (drop a xs) @ drop (b - a) (drop a xs)" by (simp only: append_take_drop_id)
  have "filter P (take a xs) = []" using assms by (auto simp: filter_empty_conv in_set_conv_nth)
  moreover have "filter P (take (b - a) (drop a xs)) = take (b - a) (drop a xs)"
    using assms by (auto simp: filter_id_conv in_set_conv_nth)
  moreover have "filter P (drop (b - a) (drop a xs)) = []"
    using assms by (auto simp: filter_empty_conv in_set_conv_nth)
  ultimately show ?thesis by (subst split) (simp only: filter_append append_Nil append_Nil2)
qed

lemma part_uids_uid:
  assumes "sorted uids" and "seq_range part (last uids) = (lo, hi)"
  shows "part_uids part uids True = filter (\<lambda>u. lo \<le> u \<and> u \<le> hi) uids"
proof -
  let ?a = "sort_search (\<lambda>i. lo \<le> uids ! i) 0 (length uids)" and ?b = "sort_search (\<lambda>i. hi < uids ! i) 0 (length uids)"
  have mono: "a \<le> b \<Longrightarrow> b < length uids \<Longrightarrow> uids ! a \<le> uids ! b" for a b using assms(1) by (rule sorted_nth_mono)
  have a: "\<forall>k < length uids. lo \<le> uids ! k \<longleftrightarrow> ?a \<le> k"
    by (rule conjunct2, rule sort_search_least [where n = "length uids"]) (use mono in \<open>auto intro: order_trans\<close>)
  have b: "\<forall>k < length uids. hi < uids ! k \<longleftrightarrow> ?b \<le> k"
    by (rule conjunct2, rule sort_search_least [where n = "length uids"]) (use mono in \<open>auto intro: less_le_trans\<close>)
  have "filter (\<lambda>u. lo \<le> u \<and> u \<le> hi) uids = take (?b - ?a) (drop ?a uids)"
  proof (rule filter_index)
    fix k
    assume "k < length uids"
    with a b show "(lo \<le> uids ! k \<and> uids ! k \<le> hi) \<longleftrightarrow> ?a \<le> k \<and> k < ?b" by (metis linorder_not_le)
  qed
  then show ?thesis using assms(2) by (simp add: part_uids_def Let_def)
qed

lemma part_uids_seq:
  assumes "seq_range part (int (length uids)) = (lo, hi)"
  shows "part_uids part uids False = map snd (filter (\<lambda>(i, u). lo \<le> i \<and> i \<le> hi) (zip [1..int (length uids)] uids))"
proof -
  let ?n = "int (length uids)" and ?l = "if lo < 1 then 1 else lo"
  let ?h = "if ?n < hi then ?n else hi"
  have "filter (\<lambda>(i, u). lo \<le> i \<and> i \<le> hi) (zip [1..?n] uids)
      = take (nat ?h - nat (?l - 1)) (drop (nat (?l - 1)) (zip [1..?n] uids))"
    by (rule filter_index) auto
  also have "map snd \<dots> = take (nat ?h - nat (?l - 1)) (drop (nat (?l - 1)) uids)"
    by (simp add: take_map [symmetric] drop_map [symmetric])
  also have "nat ?h - nat (?l - 1) = nat (?h - (?l - 1))" by auto
  finally show ?thesis using assms by (simp add: part_uids_def Let_def)
qed

section \<open>Properties\<close>

text \<open>
  A mailbox name that the server accepts comes back from its quoted form, alone or as an argument followed by
  others, whatever quotes, backslashes and spaces it holds; and no quoted string, of any bytes, holds a line
  break or another control character that could end a response line.
\<close>

theorem quoted_name_returns:
  assumes "validMailboxName s"
  shows "unquote_arg (quoteString s) = s
    \<and> splitArgs (quoteString s @ '' '' @ rest) = quoteString s # splitArgs rest \<and> splitArgs (quoteString s) = [quoteString s]
    \<and> (\<forall>t. \<forall>c\<in>set (quoteString t). 0x20 \<le> ascii_val c \<and> ascii_val c \<noteq> 0x7F)"
proof -
  have v: "None \<notin> set (runes s)" "\<not> list_ex isControlRune (runes s)" "valid_string s"
    using assms by (auto simp: validMailboxName_def hasControlChars_def valid_string_def)
  have q: "runes (dquote # t) = Some [dquote] # runes t" for t by (rule runes_ascii) (simp add: ascii_val_def)
  have sp: "runes (CHR '' '' # t) = Some '' '' # runes t" for t by (rule runes_ascii) (simp add: ascii_val_def)
  let ?body = "concat (map quote_rune (runes s))"
  have body: "runes (?body @ dquote # t) = map Some (concat (map quote_pieces (runes s))) @ Some [dquote] # runes t" for t
    by (simp add: runes_quoted q)
  have "unquote_arg (quoteString s) = unquote_loop (quoteString s) False [] (map Some (concat (map quote_pieces (runes s))) @ [Some [dquote]])"
    using body [of "[]"] by (simp add: unquote_arg_def quoteString_def)
  also have "\<dots> = s" by (subst unquote_quoted) (use v concat_runes in auto)
  finally have un: "unquote_arg (quoteString s) = s" .
  have split: "splitArgs (quoteString s @ t) = split_args_loop (quoteString s) False False (runes t)" for t
  proof -
    have "runes (quoteString s @ t) = Some [dquote] # map Some (concat (map quote_pieces (runes s))) @ Some [dquote] # runes t"
      using body [of t] by (simp add: quoteString_def q)
    then show ?thesis by (simp add: splitArgs_def split_args_quoted [OF v(1,2)]) (simp add: quoteString_def)
  qed
  have ne: "quoteString s \<noteq> []" by (simp add: quoteString_def)
  have "splitArgs (quoteString s @ '' '' @ rest) = quoteString s # splitArgs rest"
    using split [of "'' '' @ rest"] ne by (simp add: sp splitArgs_def)
  moreover have "splitArgs (quoteString s) = [quoteString s]" using split [of "[]"] ne by simp
  ultimately show ?thesis using un quoteString_bytes by blast
qed

theorem quoted_name_returns_witness:
  "unquote_arg (quoteString [CHR ''a'', dquote, backslash, CHR '' '', CHR ''b'']) = [CHR ''a'', dquote, backslash, CHR '' '', CHR ''b'']"
proof -
  have "runes [CHR ''a'', dquote, backslash, CHR '' '', CHR ''b''] = map (\<lambda>c. Some [c]) [CHR ''a'', dquote, backslash, CHR '' '', CHR ''b'']"
    by (simp add: runes_ascii ascii_val_def)
  then have "validMailboxName [CHR ''a'', dquote, backslash, CHR '' '', CHR ''b'']"
    by (simp add: validMailboxName_def maxMailboxNameLen_def hasControlChars_def valid_string_def isControlRune_def ascii_val_def)
  from quoted_name_returns [OF this] show ?thesis by blast
qed

text \<open>
  The two binary searches and the clipped slices of \<open>seqSetToUIDs\<close> give exactly the messages in the ranges of the
  set, in the order of the set: by UID, or by position.
\<close>

theorem seq_set_ranges:
  assumes "sorted uids"
  shows "seqSetToUIDs seqSet uids True
      = concat (map (\<lambda>part. filter (\<lambda>u. fst (seq_range part (last uids)) \<le> u \<and> u \<le> snd (seq_range part (last uids))) uids) (split_byte CHR '','' seqSet))
    \<and> seqSetToUIDs seqSet uids False
      = concat (map (\<lambda>part. map snd (filter (\<lambda>(i, u). fst (seq_range part (int (length uids))) \<le> i \<and> i \<le> snd (seq_range part (int (length uids))))
          (zip [1..int (length uids)] uids))) (split_byte CHR '','' seqSet))"
proof (cases "uids = []")
  case False
  with part_uids_uid [OF assms prod.collapse [symmetric]] part_uids_seq [OF prod.collapse [symmetric]] show ?thesis
    by (simp add: seqSetToUIDs_def cong: map_cong)
qed (simp add: seqSetToUIDs_def)

theorem seq_set_ranges_witness: "seqSetToUIDs ''9,2:*'' [1, 4, 9] True = [9, 4, 9]"
proof -
  have "sorted [1, 4, 9::int]" by simp
  from conjunct1 [OF seq_set_ranges [OF this, of "''9,2:*''"]] show ?thesis by code_simp
qed

text \<open>
  A selector's partial range never slices out of bounds: the answer announces and carries exactly the bytes of the
  range that exist, also where origin plus count does not fit an \<open>int64\<close>, and without a well-formed range everything.
\<close>

theorem partial_exact:
  assumes "int (length content) \<le> max_int64"
  shows "writeSectionResult sec content (selector_partial sel) =
    Some (case selector_partial sel of
            None \<Rightarrow> ''BODY['' @ sec @ ''] '' @ literal content @ '' ''
          | Some (origin, cnt) \<Rightarrow> ''BODY['' @ sec @ '']<'' @ itoa origin @ ''> '' @ literal (take (nat cnt) (drop (nat origin) content)) @ '' '')"
proof (cases "selector_partial sel")
  case (Some r)
  obtain origin cnt where r: "r = (origin, cnt)" by fastforce
  have range: "parse_int64 t = Some i \<Longrightarrow> i \<le> max_int64" for t i by (auto simp: parse_int64_def split: option.splits if_splits)
  have b: "0 \<le> origin" "origin \<le> max_int64" "0 \<le> cnt" "cnt \<le> max_int64"
    using Some r range by (auto simp: selector_partial_def Let_def split: option.splits if_splits)
  have "partial_bytes origin cnt content = Some (take (nat cnt) (drop (nat origin) content))"
  proof (cases "int (length content) \<le> origin")
    case True
    then have "length content \<le> nat origin" by linarith
    with True show ?thesis by (simp add: partial_bytes_def)
  next
    case False
    show ?thesis
    proof (cases "origin + cnt \<le> max_int64")
      case True
      then have w: "wrap64 (origin + cnt) = origin + cnt" using b by (intro wrap64_id) auto
      show ?thesis
      proof (cases "int (length content) < origin + cnt")
        case True
        then have "take (nat cnt) (drop (nat origin) content) = drop (nat origin) content" by (intro take_all) (use b in auto)
        with True w b False show ?thesis by (simp add: partial_bytes_def Let_def)
      qed (use w b False in \<open>simp add: partial_bytes_def Let_def\<close>)
    next
      case over: False
      then have "wrap64 (origin + cnt) = origin + cnt - 18446744073709551616"
        unfolding wrap64_def
        by (subst minus_mod_self2 [symmetric], subst mod_pos_pos_trivial) (use b over in auto)
      then have "wrap64 (origin + cnt) < origin" using b by linarith
      moreover have "take (nat cnt) (drop (nat origin) content) = drop (nat origin) content"
        by (intro take_all) (use b over assms in auto)
      ultimately show ?thesis using b False by (simp add: partial_bytes_def Let_def)
    qed
  qed
  with Some r show ?thesis by (simp add: writeSectionResult_def)
qed (simp add: writeSectionResult_def)

theorem partial_exact_witness:
  "writeSectionResult ''1'' ''hello'' (Some (2, 9)) = Some (''BODY[1]<2> {3}'' @ [cr, nl] @ ''llo '')"
proof -
  have "selector_partial ''BODY[1]<2.9>'' = Some (2, 9)" by code_simp
  moreover have "int (length ''hello'') \<le> max_int64" by simp
  moreover have "char_of (50 :: nat) = CHR ''2''" "char_of (51 :: nat) = CHR ''3''" by code_simp+
  ultimately show ?thesis
    using partial_exact [of "''hello''" "''1''" "''BODY[1]<2.9>''"]
    by (simp add: literal_def itoa_def nat_digits.simps digit_char_def numeral_2_eq_2 numeral_3_eq_3)
qed

section \<open>Selectors in text that is not ASCII\<close>

lemma go_case_ascii: "list_all (\<lambda>c. ascii_val c < 0x80) s \<Longrightarrow> length (go_case ascii beyond s) = length s"
  by (simp add: go_case_def)

lemma bracket_part_panic: "bracket_part items start = Sel_panic \<longleftrightarrow> length items < start"
  by (simp add: bracket_part_def Let_def split: option.split)

lemma next_selector_no_panic:
  assumes "length upper = length items" and "i < length items"
  shows "next_selector upper items i \<noteq> Sel_panic"
proof -
  have "i + x \<le> length items" if "index_str p (drop i upper) = Some x" for p x
    using index_str_SomeD [OF that] assms by auto
  then show ?thesis using assms
    by (auto simp: next_selector_def bracket_part_panic not_less split: option.splits)
qed

text \<open>A selector list in ASCII is read without a panic.\<close>

lemma ascii_selectors:
  assumes "list_all (\<lambda>c. ascii_val c < 0x80) items"
  shows "findBodySelectors (go_case upper_char beyond) items \<noteq> None"
proof -
  have "length upper = length items \<Longrightarrow> find_selectors upper items i \<noteq> None" for upper i
  proof (induction upper items i rule: find_selectors.induct)
    case (1 upper items i)
    then show ?case using next_selector_no_panic [of upper items i]
      by (subst find_selectors.simps) (auto split: selector_step.split)
  qed
  then show ?thesis unfolding findBodySelectors_def using go_case_ascii [OF assms] by blast
qed

text \<open>
  The offsets are taken in the upper-case text, in which a byte that is not UTF-8 takes three bytes: ten such
  bytes before a selector make the slice of the text itself go out of range.
\<close>

lemma selector_panic:
  "findBodySelectors (go_case upper_char beyond) (replicate 10 (CHR 0xFF) @ ''BODY[]'') = None"
proof -
  let ?u = "concat (replicate 10 replacement) @ ''BODY[]''"
  have bad: "rune_len (CHR 0xFF # t) = None" for t by (simp add: rune_len.simps ascii_val_def)
  have "runes (CHR 0xFF # t) = None # runes t" for t by (subst runes.simps) (simp add: bad)
  then have ff: "runes (replicate n (CHR 0xFF) @ t) = replicate n None @ runes t" for n t by (induction n) auto
  have body: "runes ''BODY[]'' = map (\<lambda>c. Some [c]) ''BODY[]''" by (simp add: runes_ascii ascii_val_def)
  have up: "map upper_char ''BODY[]'' = ''BODY[]''" by code_simp
  have "\<not> list_all (\<lambda>c. ascii_val c < 0x80) (replicate 10 (CHR 0xFF) @ ''BODY[]'')" by code_simp
  then have "go_case upper_char beyond (replicate 10 (CHR 0xFF) @ ''BODY[]'')
      = concat (replicate 10 replacement) @ concat (map (\<lambda>c. [upper_char c]) ''BODY[]'')"
    unfolding go_case_def ff body by (simp only: if_False map_append map_replicate option.case concat_append map_map comp_def list.case)
  also have "concat (map (\<lambda>c. [upper_char c]) ''BODY[]'') = ''BODY[]''" using up by simp
  finally have "go_case upper_char beyond (replicate 10 (CHR 0xFF) @ ''BODY[]'') = ?u" .
  moreover have "next_selector ?u (replicate 10 (CHR 0xFF) @ ''BODY[]'') 0 = Sel_panic" by code_simp
  ultimately show ?thesis by (simp add: findBodySelectors_def find_selectors.simps)
qed

end
