(* ===== verification/BodyStructure.thy ===== *)
theory BodyStructure
  imports MimeTree ImapText "HOL-Library.List_Lexorder" "HOL-Library.Char_ord"
begin

text \<open>
  \<open>internal/mail/mimetree/bodystructure.go\<close>: the BODYSTRUCTURE text of a part tree, and what a client that reads
  IMAP lists finds in it. \<open>mail.ParseAddressList\<close> and the reading of a date with its formatting are parameters.
\<close>

section \<open>Rendering\<close>

record struct_lib =
  st_addresses :: "string \<Rightarrow> (string \<times> string) list option"
  st_date :: "string \<Rightarrow> string option"

definition quoted :: "string \<Rightarrow> string" where
  "quoted s = dquote # concat (map (\<lambda>c. if c = dquote \<or> c = backslash then [backslash, c] else [c]) s) @ [dquote]"

definition needs_literal :: "char \<Rightarrow> bool" where
  "needs_literal c \<longleftrightarrow> 0x80 \<le> ascii_val c \<or> c = cr \<or> c = nl \<or> ascii_val c = 0"

definition astring :: "string \<Rightarrow> string" where
  "astring s = (if s = [] then ''NIL'' else if list_ex needs_literal s then literal s else quoted s)"

definition param_keys :: "params \<Rightarrow> string list" where
  "param_keys ps = sort (filter (\<lambda>k. k = ''boundary'' \<or> getp ps k \<noteq> []) (remdups (map fst ps)))"

definition paramList :: "params \<Rightarrow> string" where
  "paramList ps =
     (if ps = [] \<or> param_keys ps = [] then ''NIL''
      else ''('' @ join_str (map (\<lambda>k. astring (to_upper k) @ '' '' @ astring (getp ps k)) (param_keys ps)) '' '' @ '')'')"

definition disp_params :: "part \<Rightarrow> (string \<times> params) option" where
  "disp_params p =
     (if pi_disposition (pinfo p) \<noteq> [] then Some (pi_disposition (pinfo p), pi_dispParams (pinfo p))
      else let name = getp (pi_params (pinfo p)) ''name''
           in if name \<noteq> [] \<and> \<not> is_text p then Some (''attachment'', [(''filename'', name)]) else None)"

definition dispField :: "part \<Rightarrow> string" where
  "dispField p =
     (case disp_params p of
        None \<Rightarrow> ''NIL''
      | Some (disp, ps) \<Rightarrow> ''('' @ astring (to_upper disp) @ '' '' @ paramList ps @ '')'')"

definition langField :: "part \<Rightarrow> string" where
  "langField p = astring (trim_space (getp (pi_header (pinfo p)) ''Content-Language''))"

definition envelopeDate :: "struct_lib \<Rightarrow> string \<Rightarrow> string" where
  "envelopeDate lib v0 =
     (let v = trim_space v0
      in if v = [] then [] else case st_date lib v of Some t \<Rightarrow> t | None \<Rightarrow> v)"

text \<open>The mailbox and host of an address, split at the last \<open>@\<close>.\<close>

definition split_address :: "string \<times> string \<Rightarrow> (string \<times> string \<times> string) option" where
  "split_address a = map_option (\<lambda>k. (fst a, take k (snd a), drop (k + 1) (snd a))) (last_index_byte CHR ''@'' (snd a))"

definition address_entries :: "struct_lib \<Rightarrow> string \<Rightarrow> (string \<times> string \<times> string) list" where
  "address_entries lib v0 =
     (let v = trim_space v0
      in if v = [] then [] else case st_addresses lib v of None \<Rightarrow> [] | Some addrs \<Rightarrow> List.map_filter split_address addrs)"

definition addrList :: "struct_lib \<Rightarrow> string \<Rightarrow> string" where
  "addrList lib v =
     (if address_entries lib v = [] then ''NIL''
      else ''('' @ concat (map (\<lambda>(name, box, host). ''('' @ astring name @ '' NIL '' @ astring box @ '' '' @ astring host @ '')'')
              (address_entries lib v)) @ '')'')"

definition Envelope :: "struct_lib \<Rightarrow> part \<Rightarrow> string" where
  "Envelope lib p =
     (let h = getp (pi_header (pinfo p));
          from = addrList lib (h ''From'');
          sender = (if addrList lib (h ''Sender'') = ''NIL'' then from else addrList lib (h ''Sender''));
          replyTo = (if addrList lib (h ''Reply-To'') = ''NIL'' then from else addrList lib (h ''Reply-To''))
      in ''('' @ join_str [astring (envelopeDate lib (h ''Date'')), astring (h ''Subject''), from, sender, replyTo,
           addrList lib (h ''To''), addrList lib (h ''Cc''), addrList lib (h ''Bcc''),
           astring (h ''In-Reply-To''), astring (h ''Message-Id'')] '' '' @ '')'')"

text \<open>The fields that a message, a text and a basic part have in common.\<close>

definition basic_fields :: "string \<Rightarrow> part \<Rightarrow> string list" where
  "basic_fields type p =
     [astring type, astring (to_upper (pi_subtype (pinfo p))), paramList (pi_params (pinfo p)), astring (pi_contentID (pinfo p)),
      astring (pi_description (pinfo p)), astring (to_upper (pi_encoding (pinfo p))), itoa (body_size p)]"

function writeStructure :: "struct_lib \<Rightarrow> bytes \<Rightarrow> part \<Rightarrow> string" where
  "writeStructure lib raw (Part i cs m) =
     (let p = Part i cs m
      in if is_multipart p
         then ''('' @ concat (map (writeStructure lib raw) cs) @ '' ''
              @ join_str [astring (to_upper (pi_subtype i)), paramList (pi_params i), dispField p, langField p] '' '' @ '')''
         else case m of
                Some q \<Rightarrow>
                  ''('' @ join_str (basic_fields (to_upper (pi_type i)) p) '' '' @ '' '' @ Envelope lib q @ '' '' @ writeStructure lib raw q
                  @ '' '' @ join_str [itoa (int (body_lines p raw)), ''NIL'', dispField p, langField p] '' '' @ '')''
              | None \<Rightarrow>
                  if is_text p
                  then ''('' @ join_str (basic_fields ''TEXT'' p @ [itoa (int (body_lines p raw)), ''NIL'', dispField p, langField p]) '' '' @ '')''
                  else ''('' @ join_str (basic_fields (to_upper (pi_type i)) p @ [''NIL'', dispField p, langField p]) '' '' @ '')'')"
  by pat_completeness auto
termination writeStructure
  by (relation "measure (\<lambda>(_, _, p). size p)") (auto simp: less_Suc_eq_le trans_le_add1 size_list_estimation')

declare writeStructure.simps [simp del]

definition bodyStructure :: "struct_lib \<Rightarrow> bytes \<Rightarrow> part \<Rightarrow> string" where
  "bodyStructure lib raw p = writeStructure lib raw p"

section \<open>Reading IMAP lists\<close>

datatype sexp = S_nil | S_str string | S_num nat | S_list "sexp list"

text \<open>A reader in the way of RFC 3501: quoted strings, literals, numbers, NIL and lists whose items may be spaced.\<close>

fun read_quoted :: "string \<Rightarrow> (string \<times> string) option" where
  "read_quoted [] = None"
| "read_quoted (c # cs) =
     (if c = dquote then Some ([], cs)
      else if c = backslash
      then (case cs of [] \<Rightarrow> None | d # ds \<Rightarrow> map_option (\<lambda>(s, r). (d # s, r)) (read_quoted ds))
      else map_option (\<lambda>(s, r). (c # s, r)) (read_quoted cs))"

definition read_literal :: "string \<Rightarrow> (string \<times> string) option" where
  "read_literal s =
     (let ds = takeWhile is_digit_char s; n = digits_value ds; r = drop (length ds) s
      in if take 3 r = [CHR ''}'', cr, nl] \<and> n \<le> length (drop 3 r) then Some (take n (drop 3 r), drop n (drop 3 r)) else None)"

fun read_sexp :: "nat \<Rightarrow> string \<Rightarrow> (sexp \<times> string) option" and
  read_items :: "nat \<Rightarrow> string \<Rightarrow> (sexp list \<times> string) option" where
  "read_sexp 0 s = None"
| "read_sexp (Suc n) s =
     (case s of
        [] \<Rightarrow> None
      | c # cs \<Rightarrow>
          if c = CHR ''('' then map_option (\<lambda>(xs, r). (S_list xs, r)) (read_items n cs)
          else if c = dquote then map_option (\<lambda>(t, r). (S_str t, r)) (read_quoted cs)
          else if c = CHR ''{'' then map_option (\<lambda>(t, r). (S_str t, r)) (read_literal cs)
          else if has_prefix s ''NIL'' then Some (S_nil, drop 3 s)
          else if is_digit_char c
          then Some (S_num (digits_value (takeWhile is_digit_char s)), dropWhile is_digit_char s)
          else None)"
| "read_items 0 s = None"
| "read_items (Suc n) s =
     (case s of
        [] \<Rightarrow> None
      | c # cs \<Rightarrow>
          if c = CHR '')'' then Some ([], cs)
          else if c = CHR '' '' then read_items n cs
          else (case read_sexp n s of
                  None \<Rightarrow> None
                | Some (x, r) \<Rightarrow> map_option (\<lambda>(xs, r'). (x # xs, r')) (read_items n r)))"

text \<open>What follows an item. With fuel enough, the text is read as the value and the rest is left.\<close>

definition ends :: "string \<Rightarrow> bool" where
  "ends r \<longleftrightarrow> r = [] \<or> hd r = CHR '' '' \<or> hd r = CHR '')'' \<or> hd r = CHR ''(''"

definition reads :: "string \<Rightarrow> sexp \<Rightarrow> bool" where
  "reads w x \<longleftrightarrow> (\<exists>n. \<forall>m\<ge>n. \<forall>r. ends r \<longrightarrow> read_sexp m (w @ r) = Some (x, r))"

definition reads_items :: "string \<Rightarrow> sexp list \<Rightarrow> bool" where
  "reads_items w xs \<longleftrightarrow> (\<exists>n. \<forall>m\<ge>n. \<forall>r. read_items m (w @ CHR '')'' # r) = Some (xs, r))"

named_theorems reading "texts that are read as a value"

lemma reads_from:
  assumes "\<And>m r. n \<le> m \<Longrightarrow> ends r \<Longrightarrow> read_sexp (Suc m) (w @ r) = Some (x, r)"
  shows "reads w x"
  unfolding reads_def
proof (rule exI [of _ "Suc n"], intro allI impI)
  fix m r
  assume "Suc n \<le> m" "ends r"
  then show "read_sexp m (w @ r) = Some (x, r)" using assms by (cases m) auto
qed

lemmas readsI = reads_from [of 0]

lemma items_from:
  assumes "\<And>m r. n \<le> m \<Longrightarrow> read_items (Suc m) (w @ CHR '')'' # r) = Some (xs, r)"
  shows "reads_items w xs"
  unfolding reads_items_def
proof (rule exI [of _ "Suc n"], intro allI impI)
  fix m r
  assume "Suc n \<le> m"
  then show "read_items m (w @ CHR '')'' # r) = Some (xs, r)" using assms by (cases m) auto
qed

lemma items_Nil: "reads_items [] []"
  by (rule items_from [of 0]) simp

lemma items_space:
  assumes "reads_items w xs"
  shows "reads_items (CHR '' '' # w) xs"
proof -
  obtain n where n: "\<And>m r. n \<le> m \<Longrightarrow> read_items m (w @ CHR '')'' # r) = Some (xs, r)" using assms by (auto simp: reads_items_def)
  show ?thesis by (rule items_from [of n]) (simp add: n)
qed

lemma reads_start:
  assumes "reads w x"
  shows "w \<noteq> [] \<and> hd w \<noteq> CHR '')'' \<and> hd w \<noteq> CHR '' ''"
proof -
  obtain n where "\<forall>m\<ge>n. \<forall>r. ends r \<longrightarrow> read_sexp m (w @ r) = Some (x, r)" using assms by (auto simp: reads_def)
  then have "read_sexp (Suc n) w = Some (x, [])" by (auto simp: ends_def dest!: spec [of _ "Suc n"] spec [of _ "[]"])
  then show ?thesis by (cases w) (auto simp: has_prefix_def is_digit_char_def ascii_val_def split: if_splits)
qed

lemma items_Cons:
  assumes v: "reads v x" and w: "reads_items w xs" and sep: "w = [] \<or> hd w = CHR '' '' \<or> hd w = CHR ''(''"
  shows "reads_items (v @ w) (x # xs)"
proof -
  obtain n where n: "\<And>m r. n \<le> m \<Longrightarrow> ends r \<Longrightarrow> read_sexp m (v @ r) = Some (x, r)" using v by (auto simp: reads_def)
  obtain k where k: "\<And>m r. k \<le> m \<Longrightarrow> read_items m (w @ CHR '')'' # r) = Some (xs, r)" using w by (auto simp: reads_items_def)
  have "read_items (Suc m) ((v @ w) @ CHR '')'' # r) = Some (x # xs, r)" if m: "max n k \<le> m" for m r
  proof -
    have "ends (w @ CHR '')'' # r)" using sep by (cases w) (auto simp: ends_def)
    then have "read_sexp m (v @ w @ CHR '')'' # r) = Some (x, w @ CHR '')'' # r)" using n m by simp
    with k m reads_start [OF v] show ?thesis by (cases v) auto
  qed
  then show ?thesis by (rule items_from)
qed

lemma reads_parens [reading]:
  assumes "reads_items w xs"
  shows "reads (''('' @ w @ '')'') (S_list xs)"
proof -
  obtain n where n: "\<And>m r. n \<le> m \<Longrightarrow> read_items m (w @ CHR '')'' # r) = Some (xs, r)" using assms by (auto simp: reads_items_def)
  show ?thesis by (rule reads_from [of n]) (simp add: n)
qed

lemma items_concat:
  assumes "list_all2 reads ws xs" and "\<forall>w\<in>set ws. hd w = CHR ''(''" and "reads_items w ys" and "w = [] \<or> hd w = CHR '' ''"
  shows "reads_items (concat ws @ w) (xs @ ys)"
  using assms
proof (induction ws xs rule: list_all2_induct)
  case (Cons v vs x xs)
  have "concat vs @ w = [] \<or> hd (concat vs @ w) = CHR '' '' \<or> hd (concat vs @ w) = CHR ''(''"
  proof (cases vs)
    case (Cons u us)
    moreover from Cons Cons.hyps obtain y where "reads u y" by (auto simp: list_all2_Cons1)
    ultimately show ?thesis using reads_start [of u y] Cons.prems(1) by simp
  qed (use Cons.prems in auto)
  with Cons show ?case by (simp add: items_Cons)
qed simp

lemma items_join:
  assumes "list_all2 reads ws xs"
  shows "reads_items (join_str ws '' '') xs"
  using assms
proof (induction ws xs rule: list_all2_induct)
  case (Cons v vs x xs)
  show ?case
  proof (cases "vs = []")
    case True
    with Cons have "xs = []" by simp
    with True Cons.hyps items_Cons [OF _ items_Nil, of v x] show ?thesis by simp
  next
    case False
    with items_Cons [OF Cons.hyps(1) items_space [OF Cons.IH]] show ?thesis by (simp add: join_Cons)
  qed
qed (simp add: items_Nil)

section \<open>Atoms\<close>

lemma digit_start:
  assumes "is_digit_char c"
  shows "c \<noteq> CHR ''('' \<and> c \<noteq> dquote \<and> c \<noteq> CHR ''{'' \<and> \<not> has_prefix (c # cs) ''NIL''"
  using assms by (auto simp: is_digit_char_def ascii_val_def has_prefix_def)

lemma digits_end:
  assumes "r = [] \<or> \<not> is_digit_char (hd r)"
  shows "takeWhile is_digit_char (nat_digits n @ r) = nat_digits n" "dropWhile is_digit_char (nat_digits n @ r) = r"
proof -
  have d: "\<forall>c\<in>set (nat_digits n). is_digit_char c" using set_nat_digits by blast
  show "takeWhile is_digit_char (nat_digits n @ r) = nat_digits n"
    using d assms by (cases r) (simp_all add: takeWhile_tail)
  show "dropWhile is_digit_char (nat_digits n @ r) = r"
    using d assms by (cases r) (simp_all add: dropWhile_append)
qed

lemma reads_num [reading]: "reads (itoa (int n)) (S_num n)"
proof (rule readsI)
  fix m r
  assume "ends r"
  then have r: "r = [] \<or> \<not> is_digit_char (hd r)" by (auto simp: ends_def is_digit_char_def ascii_val_def)
  obtain c cs where c: "nat_digits n = c # cs" by (cases "nat_digits n") auto
  then have "is_digit_char c" using set_nat_digits [of c n] by simp
  with digit_start [of c "cs @ r"] digits_end [OF r, of n] digits_value_nat_digits [of n] c
  show "read_sexp (Suc m) (itoa (int n) @ r) = Some (S_num n, r)" by (simp add: itoa_def)
qed

lemma reads_nil [reading]: "reads ''NIL'' S_nil"
  by (rule readsI) (simp add: has_prefix_def)

lemma read_quoted_quoted: "read_quoted (concat (map (\<lambda>c. if c = dquote \<or> c = backslash then [backslash, c] else [c]) s) @ dquote # r) = Some (s, r)"
  by (induction s) auto

lemma reads_quoted: "reads (quoted s) (S_str s)"
  by (rule readsI) (simp add: quoted_def read_quoted_quoted)

lemma reads_literal: "reads (literal s) (S_str s)"
proof (rule readsI)
  fix m r
  have "takeWhile is_digit_char (nat_digits (length s) @ CHR ''}'' # cr # nl # s @ r) = nat_digits (length s)"
    by (rule digits_end) (simp add: is_digit_char_def ascii_val_def)
  then have "read_literal (nat_digits (length s) @ CHR ''}'' # cr # nl # s @ r) = Some (s, r)"
    by (simp add: read_literal_def digits_value_nat_digits numeral_3_eq_3)
  then show "read_sexp (Suc m) (literal s @ r) = Some (S_str s, r)" by (simp add: literal_def itoa_def)
qed

section \<open>The structure as a value\<close>

definition str_sexp :: "string \<Rightarrow> sexp" where
  "str_sexp s = (if s = [] then S_nil else S_str s)"

definition params_sexp :: "params \<Rightarrow> sexp" where
  "params_sexp ps =
     (if param_keys ps = [] then S_nil
      else S_list (concat (map (\<lambda>k. [str_sexp (to_upper k), str_sexp (getp ps k)]) (param_keys ps))))"

definition disp_sexp :: "part \<Rightarrow> sexp" where
  "disp_sexp p = (case disp_params p of None \<Rightarrow> S_nil | Some (d, ps) \<Rightarrow> S_list [str_sexp (to_upper d), params_sexp ps])"

definition lang_sexp :: "part \<Rightarrow> sexp" where
  "lang_sexp p = str_sexp (trim_space (getp (pi_header (pinfo p)) ''Content-Language''))"

definition address_sexp :: "(string \<times> string \<times> string) list \<Rightarrow> sexp" where
  "address_sexp as =
     (if as = [] then S_nil
      else S_list (map (\<lambda>(name, box, host). S_list [str_sexp name, S_nil, str_sexp box, str_sexp host]) as))"

definition envelope_sexp :: "struct_lib \<Rightarrow> part \<Rightarrow> sexp" where
  "envelope_sexp lib p =
     (let h = getp (pi_header (pinfo p));
          as = (\<lambda>k. address_entries lib (h k));
          or_from = (\<lambda>k. if as k = [] then as ''From'' else as k)
      in S_list [str_sexp (envelopeDate lib (h ''Date'')), str_sexp (h ''Subject''),
           address_sexp (as ''From''), address_sexp (or_from ''Sender''), address_sexp (or_from ''Reply-To''),
           address_sexp (as ''To''), address_sexp (as ''Cc''), address_sexp (as ''Bcc''),
           str_sexp (h ''In-Reply-To''), str_sexp (h ''Message-Id'')])"

definition basic_sexps :: "string \<Rightarrow> part \<Rightarrow> sexp list" where
  "basic_sexps type p =
     [str_sexp type, str_sexp (to_upper (pi_subtype (pinfo p))), params_sexp (pi_params (pinfo p)), str_sexp (pi_contentID (pinfo p)),
      str_sexp (pi_description (pinfo p)), str_sexp (to_upper (pi_encoding (pinfo p))), S_num (nat (body_size p))]"

function structure_sexp :: "struct_lib \<Rightarrow> bytes \<Rightarrow> part \<Rightarrow> sexp" where
  "structure_sexp lib raw (Part i cs m) =
     (let p = Part i cs m
      in S_list
        (if is_multipart p
         then map (structure_sexp lib raw) cs @ [str_sexp (to_upper (pi_subtype i)), params_sexp (pi_params i), disp_sexp p, lang_sexp p]
         else case m of
                Some q \<Rightarrow>
                  basic_sexps (to_upper (pi_type i)) p @ [envelope_sexp lib q, structure_sexp lib raw q,
                    S_num (body_lines p raw), S_nil, disp_sexp p, lang_sexp p]
              | None \<Rightarrow>
                  if is_text p then basic_sexps ''TEXT'' p @ [S_num (body_lines p raw), S_nil, disp_sexp p, lang_sexp p]
                  else basic_sexps (to_upper (pi_type i)) p @ [S_nil, disp_sexp p, lang_sexp p]))"
  by pat_completeness auto
termination structure_sexp
  by (relation "measure (\<lambda>(_, _, p). size p)") (auto simp: less_Suc_eq_le trans_le_add1 size_list_estimation')

declare structure_sexp.simps [simp del]

section \<open>Every field is read as its value\<close>

lemma reads_astring [reading]: "reads (astring s) (str_sexp s)"
  using reads_nil reads_literal reads_quoted by (simp add: astring_def str_sexp_def)

lemma join_pairs:
  "join_str (map (\<lambda>k. f k @ CHR '' '' # g k) ks) '' '' = join_str (concat (map (\<lambda>k. [f k, g k]) ks)) '' ''"
proof (induction ks)
  case (Cons k ks)
  then show ?case by (cases "ks = []") (simp_all add: join_Cons)
qed simp

lemma reads_params [reading]: "reads (paramList ps) (params_sexp ps)"
proof (cases "param_keys ps = []")
  case False
  then have "ps \<noteq> []" by (auto simp: param_keys_def)
  have "list_all2 reads (concat (map (\<lambda>k. [astring (to_upper k), astring (getp ps k)]) ks))
      (concat (map (\<lambda>k. [str_sexp (to_upper k), str_sexp (getp ps k)]) ks))" for ks
    by (induction ks) (simp_all add: reading)
  from reads_parens [OF items_join [OF this]] False \<open>ps \<noteq> []\<close> show ?thesis
    by (simp add: paramList_def params_sexp_def join_pairs)
qed (simp add: paramList_def params_sexp_def reading)

lemma reads_disp [reading]: "reads (dispField p) (disp_sexp p)"
proof (cases "disp_params p")
  case (Some dp)
  obtain d ps where "dp = (d, ps)" by fastforce
  with Some reads_parens [OF items_join [of "[astring (to_upper d), paramList ps]" "[str_sexp (to_upper d), params_sexp ps]"]]
  show ?thesis by (simp add: dispField_def disp_sexp_def reading)
qed (simp add: dispField_def disp_sexp_def reading)

lemma reads_lang [reading]: "reads (langField p) (lang_sexp p)"
  by (simp add: langField_def lang_sexp_def reading)

lemma reads_addresses [reading]: "reads (addrList lib v) (address_sexp (address_entries lib v))"
proof (cases "address_entries lib v = []")
  case False
  define show_a where "show_a = (\<lambda>(name, box, host). ''('' @ astring name @ '' NIL '' @ astring box @ '' '' @ astring host @ '')'')"
  define val where "val = (\<lambda>(name, box, host). S_list [str_sexp name, S_nil, str_sexp box, str_sexp host])"
  have one: "reads (show_a a) (val a)" for a
    using reads_parens [OF items_join [of "[astring (fst a), ''NIL'', astring (fst (snd a)), astring (snd (snd a))]"
        "[str_sexp (fst a), S_nil, str_sexp (fst (snd a)), str_sexp (snd (snd a))]"]]
    by (simp add: reading show_a_def val_def split_def)
  have "list_all2 reads (map show_a es) (map val es)" for es by (induction es) (simp_all add: one)
  from reads_parens [OF items_concat [OF this _ items_Nil]] have "reads (''('' @ concat (map show_a es) @ '')'') (S_list (map val es))" for es
    by (auto simp: show_a_def split_def)
  with False show ?thesis by (simp add: addrList_def address_sexp_def show_a_def val_def)
qed (simp add: addrList_def address_sexp_def reading)

lemma addrList_nil: "addrList lib v = ''NIL'' \<longleftrightarrow> address_entries lib v = []"
  by (simp add: addrList_def)

lemma reads_envelope [reading]: "reads (Envelope lib p) (envelope_sexp lib p)"
  unfolding Envelope_def envelope_sexp_def Let_def addrList_nil
  by (rule reads_parens, rule items_join) (simp add: reading)

lemma reads_basic:
  assumes "0 \<le> body_size p"
  shows "list_all2 reads (basic_fields t p) (basic_sexps t p)"
  using assms reads_num [of "nat (body_size p)"] by (simp add: basic_fields_def basic_sexps_def reading)

lemma join_append: "us \<noteq> [] \<Longrightarrow> vs \<noteq> [] \<Longrightarrow> join_str (us @ vs) sep = join_str us sep @ sep @ join_str vs sep"
proof (induction us)
  case (Cons u us)
  then show ?case by (cases "us = []") (simp_all add: join_Cons)
qed simp

lemma tree_ok_size: "tree_ok p \<Longrightarrow> 0 \<le> body_size p"
  by (cases p) (simp add: body_size_def)

lemma structure_paren: "hd (writeStructure lib raw p) = CHR ''(''"
  by (cases p) (simp add: writeStructure.simps Let_def split: option.split)

lemma structure_reads: "tree_ok p \<Longrightarrow> reads (writeStructure lib raw p) (structure_sexp lib raw p)"
proof (induction lib raw p rule: writeStructure.induct)
  case (1 lib raw i cs m)
  let ?p = "Part i cs m"
  have size: "0 \<le> body_size ?p" using "1.prems" by (rule tree_ok_size)
  have child: "tree_ok c" if "c \<in> set cs" for c using "1.prems" that by simp
  have nest: "tree_ok q" if "m = Some q" for q using "1.prems" that by simp
  show ?case
  proof (cases "is_multipart ?p")
    case True
    then have IH: "c \<in> set cs \<Longrightarrow> reads (writeStructure lib raw c) (structure_sexp lib raw c)" for c
      using "1.IH"(1) [OF refl] child by blast
    then have "list_all2 reads (map (writeStructure lib raw) cs) (map (structure_sexp lib raw) cs)"
      by (simp add: list.rel_map list.rel_refl_strong)
    moreover have "reads_items (CHR '' '' # join_str [astring (to_upper (pi_subtype i)), paramList (pi_params i), dispField ?p, langField ?p] '' '')
        [str_sexp (to_upper (pi_subtype i)), params_sexp (pi_params i), disp_sexp ?p, lang_sexp ?p]"
      by (rule items_space, rule items_join) (simp add: reading)
    moreover have "\<forall>w\<in>set (map (writeStructure lib raw) cs). hd w = CHR ''(''" by (auto simp: structure_paren)
    ultimately have "reads_items (concat (map (writeStructure lib raw) cs) @ CHR '' '' # join_str [astring (to_upper (pi_subtype i)), paramList (pi_params i), dispField ?p, langField ?p] '' '')
        (map (structure_sexp lib raw) cs @ [str_sexp (to_upper (pi_subtype i)), params_sexp (pi_params i), disp_sexp ?p, lang_sexp ?p])"
      by (intro items_concat) simp_all
    from reads_parens [OF this] True show ?thesis by (simp add: writeStructure.simps structure_sexp.simps Let_def)
  next
    case single: False
    show ?thesis
    proof (cases m)
      case (Some q)
      have IH: "reads (writeStructure lib raw q) (structure_sexp lib raw q)"
        using "1.IH"(2) [OF refl single Some] nest [OF Some] .
      let ?ws = "basic_fields (to_upper (pi_type i)) ?p @ [Envelope lib q, writeStructure lib raw q, itoa (int (body_lines ?p raw)), ''NIL'', dispField ?p, langField ?p]"
      have "list_all2 reads ?ws (basic_sexps (to_upper (pi_type i)) ?p @ [envelope_sexp lib q, structure_sexp lib raw q,
          S_num (body_lines ?p raw), S_nil, disp_sexp ?p, lang_sexp ?p])"
        by (rule list_all2_appendI [OF reads_basic [OF size]]) (simp add: reading IH)
      from reads_parens [OF items_join [OF this]] single Some show ?thesis
        by (simp add: writeStructure.simps structure_sexp.simps Let_def join_append basic_fields_def)
    next
      case None
      have textual: "list_all2 reads (basic_fields ''TEXT'' ?p @ [itoa (int (body_lines ?p raw)), ''NIL'', dispField ?p, langField ?p])
          (basic_sexps ''TEXT'' ?p @ [S_num (body_lines ?p raw), S_nil, disp_sexp ?p, lang_sexp ?p])"
        by (rule list_all2_appendI [OF reads_basic [OF size]]) (simp add: reading)
      have basic: "list_all2 reads (basic_fields (to_upper (pi_type i)) ?p @ [''NIL'', dispField ?p, langField ?p])
          (basic_sexps (to_upper (pi_type i)) ?p @ [S_nil, disp_sexp ?p, lang_sexp ?p])"
        by (rule list_all2_appendI [OF reads_basic [OF size]]) (simp add: reading)
      show ?thesis
      proof (cases "is_text ?p")
        case True
        with reads_parens [OF items_join [OF textual]] single None show ?thesis
          by (simp only: writeStructure.simps structure_sexp.simps Let_def if_False if_True option.case)
      next
        case False
        with reads_parens [OF items_join [OF basic]] single None show ?thesis
          by (simp only: writeStructure.simps structure_sexp.simps Let_def if_False if_True option.case)
      qed
    qed
  qed
qed

section \<open>Properties\<close>


definition demo_struct :: struct_lib where
  "demo_struct = \<lparr>st_addresses = (\<lambda>_. None), st_date = (\<lambda>_. None)\<rparr>"


end
