(* ===== verification/MailStore.thy ===== *)
theory MailStore
  imports Prelude
begin

text \<open>
  \<open>internal/mail/storage/\<close> (\<open>sqlite.go\<close>, \<open>flags.go\<close>, the tables of \<open>migrations.go\<close>): the mail database as
  lists of rows in the order of their \<open>id\<close>, and its operations as what their SQL statements do. The lock and
  the transaction make an operation one step that happens or does not: the database may refuse any call,
  and then nothing has changed. Times and the creation time of an account are inputs.
\<close>

section \<open>Tables\<close>

text \<open>
  The flags column: NULL, a text that is not JSON, or a JSON array of names. The other columns that are only
  stored and copied are one map.
\<close>

datatype flag_col = Null_flags | Bad_flags string | Flags "string list"

type_synonym other_columns = "string \<Rightarrow> string option"

record msg_row =
  mr_id :: int
  mr_uid :: int
  mr_email :: string
  mr_mailbox :: string
  mr_flags :: flag_col
  mr_rawRef :: "string option"
  mr_cols :: other_columns

record account_row =
  ac_email :: string
  ac_password :: string
  ac_domain :: string
  ac_created :: int

record mail_db =
  db_accounts :: "account_row list"
  db_boxes :: "(string \<times> string) list"
  db_messages :: "msg_row list"
  db_nextId :: int
  db_faults :: "bool list"

text \<open>One call of the database: the list says which of the coming ones fail.\<close>

definition db_call :: "mail_db \<Rightarrow> bool \<times> mail_db" where
  "db_call db = (case db_faults db of [] \<Rightarrow> (True, db) | f # fs \<Rightarrow> (\<not> f, db\<lparr>db_faults := fs\<rparr>))"

definition defaultMailboxes :: "string list" where
  "defaultMailboxes = [''Drafts'', ''Junk'', ''Sent'', ''Trash'']"

section \<open>Flags\<close>

text \<open>\<open>safeFlagsExpr\<close> and \<open>JSON_EACH\<close> over it.\<close>

definition flag_list :: "flag_col \<Rightarrow> string list" where
  "flag_list f = (case f of Flags fs \<Rightarrow> fs | _ \<Rightarrow> [])"

definition has_flag :: "string \<Rightarrow> msg_row \<Rightarrow> bool" where
  "has_flag flag m \<longleftrightarrow> flag \<in> set (flag_list (mr_flags m))"

text \<open>\<open>strings.TrimPrefix(strings.TrimSpace(t), "\\")\<close> in lower case.\<close>

definition canonical_flag :: "string \<Rightarrow> string" where
  "canonical_flag t = to_lower (trim_prefix (trim_space t) [backslash])"

fun canonical_flags_acc :: "string list \<Rightarrow> string list \<Rightarrow> string list" where
  "canonical_flags_acc out [] = out"
| "canonical_flags_acc out (t # ts) =
     (let name = canonical_flag t
      in if name = [] \<or> name \<in> set out then canonical_flags_acc out ts
         else canonical_flags_acc (out @ [name]) ts)"

definition CanonicalFlags :: "string list \<Rightarrow> string list" where
  "CanonicalFlags = canonical_flags_acc []"

text \<open>The encoder's result as a column value.\<close>

definition EncodeFlags :: "string list \<Rightarrow> flag_col" where
  "EncodeFlags flags = Flags flags"

definition repair_row :: "msg_row \<Rightarrow> msg_row" where
  "repair_row m =
     (case mr_flags m of
        Bad_flags raw \<Rightarrow> m\<lparr>mr_flags := EncodeFlags (CanonicalFlags (str_fields (trim_both raw ''[]'')))\<rparr>
      | _ \<Rightarrow> m)"

definition repairFlags :: "mail_db \<Rightarrow> mail_db" where
  "repairFlags db = db\<lparr>db_messages := map repair_row (db_messages db)\<rparr>"

section \<open>Accounts\<close>

definition AccountExists :: "string \<Rightarrow> mail_db \<Rightarrow> mail_db \<times> account_row option option" where
  "AccountExists email db =
     (case db_call db of
        (False, db1) \<Rightarrow> (db1, None)
      | (True, db1) \<Rightarrow> (db1, Some (List.find (\<lambda>a. ac_email a = email) (db_accounts db1))))"

text \<open>The unique keys of \<open>mail_account\<close> and \<open>mail_box\<close> are checked by every insertion.\<close>

definition insert_box :: "string \<Rightarrow> string \<Rightarrow> mail_db \<Rightarrow> mail_db option" where
  "insert_box email title db =
     (if (email, title) \<in> set (db_boxes db) then None
      else Some (db\<lparr>db_boxes := db_boxes db @ [(email, title)]\<rparr>))"

fun insert_boxes :: "string \<Rightarrow> string list \<Rightarrow> mail_db \<Rightarrow> mail_db option" where
  "insert_boxes email [] db = Some db"
| "insert_boxes email (t # ts) db =
     (case insert_box email t db of None \<Rightarrow> None | Some db1 \<Rightarrow> insert_boxes email ts db1)"

definition AccountCreate :: "string \<Rightarrow> string \<Rightarrow> string \<Rightarrow> int \<Rightarrow> mail_db \<Rightarrow> mail_db \<times> bool" where
  "AccountCreate email hashed domain now db =
     (case db_call db of
        (False, db1) \<Rightarrow> (db1, False)
      | (True, db1) \<Rightarrow>
          if List.find (\<lambda>a. ac_email a = email) (db_accounts db1) \<noteq> None then (db1, False)
          else
            (case insert_boxes email defaultMailboxes
                (db1\<lparr>db_accounts := db_accounts db1
                   @ [\<lparr>ac_email = email, ac_password = hashed, ac_domain = domain, ac_created = now\<rparr>]\<rparr>) of
               None \<Rightarrow> (db1, False)
             | Some db2 \<Rightarrow> (db2, True)))"

definition AccountDelete :: "string \<Rightarrow> mail_db \<Rightarrow> mail_db \<times> bool" where
  "AccountDelete email db =
     (case db_call db of
        (False, db1) \<Rightarrow> (db1, False)
      | (True, db1) \<Rightarrow> (db1\<lparr>db_accounts := filter (\<lambda>a. ac_email a \<noteq> email) (db_accounts db1)\<rparr>, True))"

definition AccountUpdatePassword :: "string \<Rightarrow> string \<Rightarrow> mail_db \<Rightarrow> mail_db \<times> bool" where
  "AccountUpdatePassword email hashed db =
     (case db_call db of
        (False, db1) \<Rightarrow> (db1, False)
      | (True, db1) \<Rightarrow>
          (db1\<lparr>db_accounts := map (\<lambda>a. if ac_email a = email then a\<lparr>ac_password := hashed\<rparr> else a) (db_accounts db1)\<rparr>, True))"

section \<open>Messages\<close>

definition in_mailbox :: "string \<Rightarrow> string \<Rightarrow> msg_row \<Rightarrow> bool" where
  "in_mailbox email mailbox m \<longleftrightarrow> mr_email m = email \<and> mr_mailbox m = mailbox"

text \<open>\<open>COALESCE(MAX(uid), 0) + 1\<close> of an account.\<close>

definition next_uid :: "string \<Rightarrow> mail_db \<Rightarrow> int" where
  "next_uid email db =
     (case map mr_uid (filter (\<lambda>m. mr_email m = email) (db_messages db)) of
        [] \<Rightarrow> 1
      | u # us \<Rightarrow> foldl max u us + 1)"

text \<open>The unique key of \<open>mail_received\<close> is the account and the UID.\<close>

definition insert_message :: "msg_row \<Rightarrow> mail_db \<Rightarrow> mail_db option" where
  "insert_message m db =
     (if list_ex (\<lambda>x. mr_email x = mr_email m \<and> mr_uid x = mr_uid m) (db_messages db) then None
      else Some (db\<lparr>db_messages := db_messages db @ [m\<lparr>mr_id := db_nextId db\<rparr>], db_nextId := db_nextId db + 1\<rparr>))"

definition MessageStore :: "msg_row \<Rightarrow> mail_db \<Rightarrow> mail_db \<times> bool" where
  "MessageStore msg db =
     (case db_call db of
        (False, db1) \<Rightarrow> (db1, False)
      | (True, db1) \<Rightarrow>
          let db2 = (if mr_mailbox msg = ''INBOX'' then db1
                     else case insert_box (mr_email msg) (mr_mailbox msg) db1 of None \<Rightarrow> db1 | Some d \<Rightarrow> d)
          in case insert_message (msg\<lparr>mr_uid := next_uid (mr_email msg) db2\<rparr>) db2 of
               None \<Rightarrow> (db1, False)
             | Some db3 \<Rightarrow> (db3, True))"

text \<open>\<open>ORDER BY uid ASC\<close>; a bound that is not positive is left out.\<close>

definition MessageFetch :: "string \<Rightarrow> string \<Rightarrow> int \<Rightarrow> int \<Rightarrow> mail_db \<Rightarrow> mail_db \<times> msg_row list option" where
  "MessageFetch email mailbox uidMin uidMax db =
     (case db_call db of
        (False, db1) \<Rightarrow> (db1, None)
      | (True, db1) \<Rightarrow>
          (db1, Some (sort_key mr_uid (filter (\<lambda>m. in_mailbox email mailbox m
             \<and> (0 < uidMin \<longrightarrow> uidMin \<le> mr_uid m) \<and> (0 < uidMax \<longrightarrow> mr_uid m \<le> uidMax)) (db_messages db1)))))"

definition MessageUIDs :: "string \<Rightarrow> string \<Rightarrow> mail_db \<Rightarrow> mail_db \<times> int list option" where
  "MessageUIDs email mailbox db =
     (case db_call db of
        (False, db1) \<Rightarrow> (db1, None)
      | (True, db1) \<Rightarrow> (db1, Some (sort (map mr_uid (filter (in_mailbox email mailbox) (db_messages db1))))))"

definition MessageFlags :: "string \<Rightarrow> string \<Rightarrow> mail_db \<Rightarrow> mail_db \<times> (int \<times> flag_col) list option" where
  "MessageFlags email mailbox db =
     (case db_call db of
        (False, db1) \<Rightarrow> (db1, None)
      | (True, db1) \<Rightarrow>
          (db1, Some (map (\<lambda>m. (mr_uid m, mr_flags m)) (sort_key mr_uid (filter (in_mailbox email mailbox) (db_messages db1))))))"

definition to_expunge :: "string \<Rightarrow> string \<Rightarrow> msg_row \<Rightarrow> bool" where
  "to_expunge email mailbox m \<longleftrightarrow> in_mailbox email mailbox m \<and> has_flag ''deleted'' m"

definition MessageExpunge :: "string \<Rightarrow> string \<Rightarrow> mail_db \<Rightarrow> mail_db \<times> int list option" where
  "MessageExpunge email mailbox db =
     (case db_call db of
        (False, db1) \<Rightarrow> (db1, None)
      | (True, db1) \<Rightarrow>
          (db1\<lparr>db_messages := filter (\<lambda>m. \<not> to_expunge email mailbox m) (db_messages db1)\<rparr>,
           Some (map mr_uid (filter (to_expunge email mailbox) (db_messages db1)))))"

definition RawRefExists :: "string \<Rightarrow> mail_db \<Rightarrow> mail_db \<times> bool option" where
  "RawRefExists ref db =
     (case db_call db of
        (False, db1) \<Rightarrow> (db1, None)
      | (True, db1) \<Rightarrow> (db1, Some (list_ex (\<lambda>m. mr_rawRef m = Some ref) (db_messages db1))))"

text \<open>
  Every copy takes the next UID. The rows of the range are read before the first copy is inserted: copying
  within one mailbox, where SQLite leaves open whether the running query sees the new rows, is not modelled.
\<close>

fun copy_rows :: "string \<Rightarrow> int \<Rightarrow> msg_row list \<Rightarrow> mail_db \<Rightarrow> mail_db option" where
  "copy_rows target uid [] db = Some db"
| "copy_rows target uid (m # ms) db =
     (case insert_message (m\<lparr>mr_uid := uid, mr_mailbox := target\<rparr>) db of
        None \<Rightarrow> None
      | Some db1 \<Rightarrow> copy_rows target (uid + 1) ms db1)"

definition MessageCopy :: "string \<Rightarrow> int \<Rightarrow> int \<Rightarrow> string \<Rightarrow> string \<Rightarrow> mail_db \<Rightarrow> mail_db \<times> bool" where
  "MessageCopy email uidMin uidMax source target db =
     (case db_call db of
        (False, db1) \<Rightarrow> (db1, False)
      | (True, db1) \<Rightarrow>
          (case copy_rows target (next_uid email db1)
              (filter (\<lambda>m. in_mailbox email source m \<and> uidMin \<le> mr_uid m \<and> mr_uid m \<le> uidMax) (db_messages db1)) db1 of
             None \<Rightarrow> (db1, False)
           | Some db2 \<Rightarrow> (db2, True)))"

section \<open>Changing flags\<close>

datatype flag_action = Add_flags | Remove_flags | Set_flags

definition maxUIDsPerStatement :: nat where "maxUIDsPerStatement = 512"

text \<open>One statement per flag; \<open>JSON_GROUP_ARRAY\<close> keeps the other values in order.\<close>

definition update_flag :: "flag_action \<Rightarrow> string \<Rightarrow> flag_col \<Rightarrow> flag_col" where
  "update_flag action flag f =
     (if action = Add_flags then (if flag \<in> set (flag_list f) then f else Flags (flag_list f @ [flag]))
      else if flag \<in> set (flag_list f) then Flags (filter (\<lambda>x. x \<noteq> flag) (flag_list f)) else f)"

definition update_rows :: "string \<Rightarrow> int list \<Rightarrow> (flag_col \<Rightarrow> flag_col) \<Rightarrow> msg_row list \<Rightarrow> msg_row list" where
  "update_rows email uids f ms =
     map (\<lambda>m. if mr_email m = email \<and> mr_uid m \<in> set uids then m\<lparr>mr_flags := f (mr_flags m)\<rparr> else m) ms"

definition storeFlagsBatch :: "string \<Rightarrow> int list \<Rightarrow> flag_action \<Rightarrow> string list \<Rightarrow> msg_row list \<Rightarrow> msg_row list" where
  "storeFlagsBatch email uids action flags ms =
     (if action = Set_flags then update_rows email uids (\<lambda>_. EncodeFlags flags) ms
      else foldl (\<lambda>acc flag. update_rows email uids (update_flag action flag) acc) ms flags)"

function store_batches :: "string \<Rightarrow> int list \<Rightarrow> flag_action \<Rightarrow> string list \<Rightarrow> msg_row list \<Rightarrow> msg_row list" where
  "store_batches email uids action flags ms =
     (if uids = [] then ms
      else store_batches email (drop maxUIDsPerStatement uids) action flags
             (storeFlagsBatch email (take maxUIDsPerStatement uids) action flags ms))"
  by auto
termination
  by (relation "measure (\<lambda>(_, uids, _). length uids)") (auto simp: maxUIDsPerStatement_def)

declare store_batches.simps [simp del]

definition MessageStoreFlags :: "string \<Rightarrow> int list \<Rightarrow> flag_action \<Rightarrow> string list \<Rightarrow> mail_db \<Rightarrow> mail_db \<times> bool" where
  "MessageStoreFlags email uids action flags db =
     (if uids = [] then (db, True)
      else if action \<noteq> Set_flags \<and> flags = [] then (db, True)
      else case db_call db of
             (False, db1) \<Rightarrow> (db1, False)
           | (True, db1) \<Rightarrow> (db1\<lparr>db_messages := store_batches email uids action flags (db_messages db1)\<rparr>, True))"

section \<open>Mailboxes\<close>

record mailbox_stats =
  ms_exists :: int
  ms_unseen :: int
  ms_uidNext :: int
  ms_uidValidity :: int

definition MailboxSelect :: "string \<Rightarrow> string \<Rightarrow> mail_db \<Rightarrow> mail_db \<times> mailbox_stats option" where
  "MailboxSelect email mailbox db =
     (case db_call db of
        (False, db1) \<Rightarrow> (db1, None)
      | (True, db1) \<Rightarrow>
          let rows = filter (in_mailbox email mailbox) (db_messages db1)
          in (db1, Some \<lparr>ms_exists = int (length rows),
                ms_unseen = int (length (filter (\<lambda>m. \<not> has_flag ''seen'' m) rows)),
                ms_uidNext = next_uid email db1,
                ms_uidValidity = (case List.find (\<lambda>a. ac_email a = email) (db_accounts db1) of
                                    None \<Rightarrow> 1 | Some a \<Rightarrow> ac_created a)\<rparr>))"

definition MailboxList :: "string \<Rightarrow> mail_db \<Rightarrow> mail_db \<times> string list option" where
  "MailboxList email db =
     (case db_call db of
        (False, db1) \<Rightarrow> (db1, None)
      | (True, db1) \<Rightarrow>
          (db1, Some (''INBOX'' # filter (\<lambda>t. t \<noteq> ''INBOX'') (map snd (filter (\<lambda>b. fst b = email) (db_boxes db1))))))"

definition MailboxCreate :: "string \<Rightarrow> string \<Rightarrow> mail_db \<Rightarrow> mail_db \<times> bool" where
  "MailboxCreate email title db =
     (case db_call db of
        (False, db1) \<Rightarrow> (db1, False)
      | (True, db1) \<Rightarrow> (case insert_box email title db1 of None \<Rightarrow> (db1, False) | Some db2 \<Rightarrow> (db2, True)))"

definition MailboxDelete :: "string \<Rightarrow> string \<Rightarrow> mail_db \<Rightarrow> mail_db \<times> bool" where
  "MailboxDelete email title db =
     (case db_call db of
        (False, db1) \<Rightarrow> (db1, False)
      | (True, db1) \<Rightarrow> (db1\<lparr>db_boxes := filter (\<lambda>b. b \<noteq> (email, title)) (db_boxes db1)\<rparr>, True))"

text \<open>The update fails on a title that exists, unless no row is renamed.\<close>

definition MailboxRename :: "string \<Rightarrow> string \<Rightarrow> string \<Rightarrow> mail_db \<Rightarrow> mail_db \<times> bool" where
  "MailboxRename email old new db =
     (case db_call db of
        (False, db1) \<Rightarrow> (db1, False)
      | (True, db1) \<Rightarrow>
          if (email, old) \<in> set (db_boxes db1) \<and> (email, new) \<in> set (db_boxes db1) \<and> old \<noteq> new then (db1, False)
          else (db1\<lparr>db_boxes := map (\<lambda>b. if b = (email, old) then (email, new) else b) (db_boxes db1)\<rparr>, True))"

section \<open>Changing flags, row by row\<close>

definition new_flags :: "flag_action \<Rightarrow> string list \<Rightarrow> flag_col \<Rightarrow> flag_col" where
  "new_flags action flags f =
     (if action = Set_flags then EncodeFlags flags else foldl (\<lambda>g flag. update_flag action flag g) f flags)"

lemma update_rows_compose: "update_rows email uids f (update_rows email uids g ms) = update_rows email uids (f \<circ> g) ms"
  unfolding update_rows_def by (auto intro!: map_cong)

lemma update_rows_id [simp]: "update_rows email uids (\<lambda>f. f) ms = ms"
  unfolding update_rows_def by (rule map_idI) auto

lemma storeFlagsBatch_rows: "storeFlagsBatch email uids action flags ms = update_rows email uids (new_flags action flags) ms"
proof (cases "action = Set_flags")
  case False
  have "foldl (\<lambda>acc flag. update_rows email uids (update_flag action flag) acc) (update_rows email uids h ms) flags
      = update_rows email uids (\<lambda>f. foldl (\<lambda>g flag. update_flag action flag g) (h f) flags) ms" for h
    by (induction flags arbitrary: h) (simp_all add: update_rows_compose comp_def)
  from this [of "\<lambda>f. f"] False show ?thesis by (simp add: storeFlagsBatch_def new_flags_def [abs_def])
qed (simp add: storeFlagsBatch_def new_flags_def [abs_def])

lemma update_flag_add: "set (flag_list (update_flag Add_flags x f)) = insert x (set (flag_list f))"
  by (simp add: update_flag_def insert_absorb) (simp add: flag_list_def)

lemma update_flag_add_id: "x \<in> set (flag_list f) \<Longrightarrow> update_flag Add_flags x f = f"
  by (simp add: update_flag_def)

lemma update_flag_remove: "set (flag_list (update_flag Remove_flags x f)) = set (flag_list f) - {x}"
  by (simp add: update_flag_def) (auto simp: flag_list_def)

lemma update_flag_remove_id: "x \<notin> set (flag_list f) \<Longrightarrow> update_flag Remove_flags x f = f"
  by (simp add: update_flag_def)

lemma new_flags_set:
  "set (flag_list (new_flags action flags f)) =
     (case action of Add_flags \<Rightarrow> set (flag_list f) \<union> set flags
      | Remove_flags \<Rightarrow> set (flag_list f) - set flags
      | Set_flags \<Rightarrow> set flags)"
proof (cases action)
  case Add_flags
  have "set (flag_list (foldl (\<lambda>g flag. update_flag Add_flags flag g) f flags)) = set (flag_list f) \<union> set flags"
    by (induction flags arbitrary: f) (auto simp: update_flag_add)
  with Add_flags show ?thesis by (simp add: new_flags_def)
next
  case Remove_flags
  have "set (flag_list (foldl (\<lambda>g flag. update_flag Remove_flags flag g) f flags)) = set (flag_list f) - set flags"
    by (induction flags arbitrary: f) (auto simp: update_flag_remove)
  with Remove_flags show ?thesis by (simp add: new_flags_def)
next
  case Set_flags
  then show ?thesis by (simp add: new_flags_def EncodeFlags_def flag_list_def)
qed

lemma new_flags_fixed:
  assumes "action = Add_flags \<Longrightarrow> set flags \<subseteq> set (flag_list f)"
    and "action = Remove_flags \<Longrightarrow> set flags \<inter> set (flag_list f) = {}" and "action \<noteq> Set_flags"
  shows "new_flags action flags f = f"
proof (cases action)
  case Add_flags
  with assms(1) have "foldl (\<lambda>g flag. update_flag Add_flags flag g) f flags = f"
    by (induction flags) (auto simp: update_flag_add_id)
  with Add_flags show ?thesis by (simp add: new_flags_def)
next
  case Remove_flags
  with assms(2) have "foldl (\<lambda>g flag. update_flag Remove_flags flag g) f flags = f"
    by (induction flags) (auto simp: update_flag_remove_id)
  with Remove_flags show ?thesis by (simp add: new_flags_def)
next
  case Set_flags
  with assms(3) show ?thesis by simp
qed

lemma new_flags_idem: "new_flags action flags (new_flags action flags f) = new_flags action flags f"
proof (cases "action = Set_flags")
  case False
  show ?thesis
    by (rule new_flags_fixed) (use False new_flags_set [of action flags f] in auto)
qed (simp add: new_flags_def)

lemma update_rows_union:
  assumes "\<And>f. h (h f) = h f"
  shows "update_rows email vs h (update_rows email us h ms) = update_rows email (us @ vs) h ms"
  using assms by (auto simp: update_rows_def)

text \<open>Batches make no difference.\<close>

lemma store_batches_rows: "store_batches email uids action flags ms = update_rows email uids (new_flags action flags) ms"
proof (induction email uids action flags ms rule: store_batches.induct)
  case (1 email uids action flags ms)
  show ?case
  proof (cases "uids = []")
    case True
    then show ?thesis by (simp add: store_batches.simps update_rows_def)
  next
    case False
    with 1 have "store_batches email uids action flags ms
        = update_rows email (drop maxUIDsPerStatement uids) (new_flags action flags)
            (update_rows email (take maxUIDsPerStatement uids) (new_flags action flags) ms)"
      by (subst store_batches.simps) (simp add: storeFlagsBatch_rows)
    then show ?thesis by (simp add: update_rows_union new_flags_idem)
  qed
qed

section \<open>Operations on the database as steps\<close>

datatype db_op =
    Op_account_create string string string int
  | Op_account_delete string
  | Op_password string string
  | Op_store msg_row
  | Op_expunge string string
  | Op_copy string int int string string
  | Op_flags string "int list" flag_action "string list"
  | Op_box_create string string
  | Op_box_delete string string
  | Op_box_rename string string string

fun db_apply :: "db_op \<Rightarrow> mail_db \<Rightarrow> mail_db" where
  "db_apply (Op_account_create e h d now) db = fst (AccountCreate e h d now db)"
| "db_apply (Op_account_delete e) db = fst (AccountDelete e db)"
| "db_apply (Op_password e h) db = fst (AccountUpdatePassword e h db)"
| "db_apply (Op_store m) db = fst (MessageStore m db)"
| "db_apply (Op_expunge e b) db = fst (MessageExpunge e b db)"
| "db_apply (Op_copy e lo hi src dst) db = fst (MessageCopy e lo hi src dst db)"
| "db_apply (Op_flags e us a fs) db = fst (MessageStoreFlags e us a fs db)"
| "db_apply (Op_box_create e t) db = fst (MailboxCreate e t db)"
| "db_apply (Op_box_delete e t) db = fst (MailboxDelete e t db)"
| "db_apply (Op_box_rename e a b) db = fst (MailboxRename e a b db)"

definition empty_db :: "bool list \<Rightarrow> mail_db" where
  "empty_db faults = \<lparr>db_accounts = [], db_boxes = [], db_messages = [], db_nextId = 1, db_faults = faults\<rparr>"

abbreviation uids_of :: "string \<Rightarrow> msg_row list \<Rightarrow> int list" where
  "uids_of email ms \<equiv> map mr_uid (filter (\<lambda>m. mr_email m = email) ms)"

text \<open>UIDs of an account are positive and strictly ascending in the order of the rows.\<close>

definition messages_ok :: "mail_db \<Rightarrow> bool" where
  "messages_ok db \<longleftrightarrow> (\<forall>email. sorted_wrt (<) (0 # uids_of email (db_messages db)))"

lemma db_call_cases:
  "db_call db = (ok, db1) \<Longrightarrow> db1 = db\<lparr>db_faults := db_faults db1\<rparr>"
  by (cases db) (auto simp: db_call_def split: list.splits)

lemma db_call_tables:
  assumes "db_call db = (ok, db1)"
  shows "db_messages db1 = db_messages db" "db_boxes db1 = db_boxes db" "db_accounts db1 = db_accounts db" "db_nextId db1 = db_nextId db"
  using assms by (auto simp: db_call_def split: list.splits)

lemma foldl_max: "foldl max x xs = Max (set (x # xs))" for x :: int
  by (simp only: Max.set_eq_fold foldl_conv_fold) (simp add: max.commute)

lemma next_uid_eq:
  "next_uid email db = (if uids_of email (db_messages db) = [] then 1 else Max (set (uids_of email (db_messages db))) + 1)"
proof (cases "uids_of email (db_messages db)")
  case (Cons u us)
  then have "set (u # us) = set (uids_of email (db_messages db))" by simp
  with Cons show ?thesis by (simp only: next_uid_def foldl_max list.case) simp
qed (simp add: next_uid_def)

lemma next_uid_above: "u \<in> set (uids_of email (db_messages db)) \<Longrightarrow> u < next_uid email db"
  by (auto simp: next_uid_eq filter_empty_conv less_le_trans dest: Max_ge [OF finite_set])

lemma next_uid_cong: "db_messages db = db_messages db' \<Longrightarrow> next_uid email db = next_uid email db'"
  by (simp add: next_uid_def)

lemma insert_message_fresh:
  assumes "\<forall>u\<in>set (uids_of (mr_email m) (db_messages db)). u < mr_uid m"
  shows "insert_message m db = Some (db\<lparr>db_messages := db_messages db @ [m\<lparr>mr_id := db_nextId db\<rparr>], db_nextId := db_nextId db + 1\<rparr>)"
  using assms by (auto simp: insert_message_def list_ex_iff)

lemma messages_ok_append:
  assumes "messages_ok db" and "db_messages db' = db_messages db @ [m]" and "0 < mr_uid m"
    and "\<forall>u\<in>set (uids_of (mr_email m) (db_messages db)). u < mr_uid m"
  shows "messages_ok db'"
  using assms by (auto simp: messages_ok_def sorted_wrt_append)

lemma messages_ok_filter:
  assumes "messages_ok db" and "db_messages db' = filter P (db_messages db)"
  shows "messages_ok db'"
proof -
  have "filter (\<lambda>m. mr_email m = e) (filter P ms) = filter P (filter (\<lambda>m. mr_email m = e) ms)" for e and ms :: "msg_row list"
    by (simp add: conj_commute)
  moreover have "sorted_wrt (<) (0 # map mr_uid xs) \<Longrightarrow> sorted_wrt (<) (0 # map mr_uid (filter P xs))" for xs
    by (auto simp: sorted_wrt_map sorted_wrt_filter)
  ultimately show ?thesis using assms unfolding messages_ok_def by metis
qed

lemma uids_update_rows: "uids_of e (update_rows email us f ms) = uids_of e ms"
  by (induction ms) (auto simp: update_rows_def)

lemma next_uid_pos:
  assumes "messages_ok db"
  shows "0 < next_uid e db"
proof (cases "uids_of e (db_messages db)")
  case Nil
  then show ?thesis by (simp only: next_uid_eq) simp
next
  case (Cons u us)
  moreover have "sorted_wrt (<) (0 # uids_of e (db_messages db))" using assms by (simp add: messages_ok_def)
  ultimately have "0 < u" by simp
  also have "u < next_uid e db" using Cons by (intro next_uid_above) simp
  finally show ?thesis .
qed

lemma copy_rows_effect:
  assumes "\<forall>m\<in>set ms. mr_email m = e" and "\<forall>u\<in>set (uids_of e (db_messages db)). u < uid" and "0 < uid" and "messages_ok db"
  shows "\<exists>db' new. copy_rows target uid ms db = Some db' \<and> messages_ok db' \<and> db_messages db' = db_messages db @ new
    \<and> list_all2 (\<lambda>m n. mr_email n = e \<and> mr_mailbox n = target \<and> mr_flags n = mr_flags m \<and> mr_rawRef n = mr_rawRef m \<and> mr_cols n = mr_cols m) ms new
    \<and> map mr_uid new = [uid..uid + int (length ms) - 1]
    \<and> db_accounts db' = db_accounts db \<and> db_boxes db' = db_boxes db \<and> db_faults db' = db_faults db"
  using assms
proof (induction ms arbitrary: uid db)
  case Nil
  then show ?case by simp
next
  case (Cons m ms)
  let ?m = "m\<lparr>mr_uid := uid, mr_mailbox := target\<rparr>"
  let ?new = "?m\<lparr>mr_id := db_nextId db\<rparr>"
  define db1 where "db1 = db\<lparr>db_messages := db_messages db @ [?new], db_nextId := db_nextId db + 1\<rparr>"
  have ins: "insert_message ?m db = Some db1"
    using Cons.prems insert_message_fresh [of ?m db] by (simp add: db1_def)
  have "messages_ok db1"
    by (rule messages_ok_append [OF Cons.prems(4), of _ ?new]) (use Cons.prems in \<open>auto simp: db1_def\<close>)
  moreover have "\<forall>u\<in>set (uids_of e (db_messages db1)). u < uid + 1" using Cons.prems by (auto simp: db1_def)
  ultimately obtain db' new where d: "copy_rows target (uid + 1) ms db1 = Some db'" "messages_ok db'" "db_messages db' = db_messages db1 @ new"
    "list_all2 (\<lambda>m n. mr_email n = e \<and> mr_mailbox n = target \<and> mr_flags n = mr_flags m \<and> mr_rawRef n = mr_rawRef m \<and> mr_cols n = mr_cols m) ms new"
    "map mr_uid new = [uid + 1..uid + 1 + int (length ms) - 1]"
    "db_accounts db' = db_accounts db1 \<and> db_boxes db' = db_boxes db1 \<and> db_faults db' = db_faults db1"
    using Cons.IH [of db1 "uid + 1"] Cons.prems by auto
  have "[uid..uid + int (length (m # ms)) - 1] = uid # [uid + 1..uid + 1 + int (length ms) - 1]"
    by (subst upto_rec1) (simp_all add: algebra_simps)
  with d ins Cons.prems(1) show ?case
    by (intro exI [where x = db'] exI [where x = "?new # new"]) (simp add: db1_def)
qed

lemma MessageStore_effect:
  assumes "messages_ok db"
  shows "\<exists>ok db' new. MessageStore msg db = (db', ok) \<and> messages_ok db' \<and> db_messages db' = db_messages db @ new
    \<and> (ok = fst (db_call db)) \<and> db_accounts db' = db_accounts db
    \<and> (if ok then \<exists>n. new = [n] \<and> mr_email n = mr_email msg \<and> mr_mailbox n = mr_mailbox msg \<and> mr_flags n = mr_flags msg
          \<and> mr_rawRef n = mr_rawRef msg \<and> mr_cols n = mr_cols msg \<and> mr_uid n = next_uid (mr_email msg) db
        else new = [])"
proof -
  obtain ok db1 where c: "db_call db = (ok, db1)" by fastforce
  note t = db_call_tables [OF c]
  show ?thesis
  proof (cases ok)
    case False
    have "messages_ok db1" using assms t by (simp add: messages_ok_def)
    with c False t show ?thesis by (intro exI [where x = False] exI [where x = db1] exI [where x = "[]"]) (simp add: MessageStore_def)
  next
    case True
    define db2 where "db2 = (if mr_mailbox msg = ''INBOX'' then db1
      else case insert_box (mr_email msg) (mr_mailbox msg) db1 of None \<Rightarrow> db1 | Some d \<Rightarrow> d)"
    have t2: "db_messages db2 = db_messages db" "db_accounts db2 = db_accounts db"
      using t by (auto simp: db2_def insert_box_def split: option.split)
    let ?m = "msg\<lparr>mr_uid := next_uid (mr_email msg) db2\<rparr>"
    let ?new = "?m\<lparr>mr_id := db_nextId db2\<rparr>"
    have pos: "0 < next_uid (mr_email msg) db"
      by (rule next_uid_pos [OF assms])
    have same: "next_uid (mr_email msg) db2 = next_uid (mr_email msg) db" using t2(1) by (rule next_uid_cong)
    define db3 where "db3 = db2\<lparr>db_messages := db_messages db2 @ [?new], db_nextId := db_nextId db2 + 1\<rparr>"
    have ins: "insert_message ?m db2 = Some db3"
      unfolding db3_def using next_uid_above [of _ "mr_email msg" db2] by (intro insert_message_fresh) simp
    have "messages_ok db3"
    proof (rule messages_ok_append)
      show "messages_ok db2" using assms t2 by (simp add: messages_ok_def)
      show "db_messages db3 = db_messages db2 @ [?new]" by (simp add: db3_def)
      show "0 < mr_uid ?new" using pos same by simp
      show "\<forall>u\<in>set (uids_of (mr_email ?new) (db_messages db2)). u < mr_uid ?new"
        using next_uid_above [of _ "mr_email msg" db2] by simp
    qed
    moreover have "MessageStore msg db = (db3, True)" using c True ins by (simp add: MessageStore_def db2_def [symmetric])
    ultimately show ?thesis using t2 same c True
      by (intro exI [where x = True] exI [where x = db3] exI [where x = "[?new]"]) (simp add: db3_def)
  qed
qed

lemma MessageCopy_effect:
  assumes "messages_ok db"
  shows "\<exists>db' new. MessageCopy e lo hi src dst db = (db', fst (db_call db)) \<and> messages_ok db' \<and> db_messages db' = db_messages db @ new
    \<and> (if fst (db_call db)
       then list_all2 (\<lambda>m n. mr_email n = e \<and> mr_mailbox n = dst \<and> mr_flags n = mr_flags m \<and> mr_rawRef n = mr_rawRef m \<and> mr_cols n = mr_cols m)
              (filter (\<lambda>m. in_mailbox e src m \<and> lo \<le> mr_uid m \<and> mr_uid m \<le> hi) (db_messages db)) new
            \<and> map mr_uid new = [next_uid e db..next_uid e db + int (length new) - 1]
       else new = [])"
proof -
  obtain ok db1 where c: "db_call db = (ok, db1)" by fastforce
  note t = db_call_tables [OF c]
  let ?ms = "filter (\<lambda>m. in_mailbox e src m \<and> lo \<le> mr_uid m \<and> mr_uid m \<le> hi) (db_messages db)"
  have ok1: "messages_ok db1" using assms t by (simp add: messages_ok_def)
  show ?thesis
  proof (cases ok)
    case False
    with c t ok1 show ?thesis by (intro exI [where x = db1] exI [where x = "[]"]) (simp add: MessageCopy_def)
  next
    case True
    have "\<forall>m\<in>set ?ms. mr_email m = e" by (simp add: in_mailbox_def)
    moreover have "\<forall>u\<in>set (uids_of e (db_messages db1)). u < next_uid e db1" using next_uid_above by blast
    ultimately obtain db' new where d: "copy_rows dst (next_uid e db1) ?ms db1 = Some db'" "messages_ok db'"
      "db_messages db' = db_messages db1 @ new"
      "list_all2 (\<lambda>m n. mr_email n = e \<and> mr_mailbox n = dst \<and> mr_flags n = mr_flags m \<and> mr_rawRef n = mr_rawRef m \<and> mr_cols n = mr_cols m) ?ms new"
      "map mr_uid new = [next_uid e db1..next_uid e db1 + int (length ?ms) - 1]"
      using copy_rows_effect [OF _ _ next_uid_pos [OF ok1] ok1] by blast
    have "length new = length ?ms" using d(4) list_all2_lengthD by force
    moreover have "next_uid e db1 = next_uid e db" using t(1) by (rule next_uid_cong)
    moreover have "MessageCopy e lo hi src dst db = (db', True)" using c True d(1) t(1) by (simp add: MessageCopy_def)
    ultimately show ?thesis using d c True t(1)
      by (intro exI [where x = db'] exI [where x = new]) simp
  qed
qed

lemma messages_ok_same: "messages_ok db \<Longrightarrow> db_messages db' = db_messages db \<Longrightarrow> messages_ok db'"
  by (simp add: messages_ok_def)

lemma insert_boxes_messages: "insert_boxes e ts db = Some db' \<Longrightarrow> db_messages db' = db_messages db"
  by (induction ts arbitrary: db) (auto simp: insert_box_def split: if_splits)

lemma db_apply_ok:
  assumes "messages_ok db"
  shows "messages_ok (db_apply op db)"
proof (cases op)
  case (Op_store m)
  with MessageStore_effect [OF assms, of m] show ?thesis by auto
next
  case (Op_copy e lo hi src dst)
  with MessageCopy_effect [OF assms, of e lo hi src dst] show ?thesis by auto
next
  case (Op_expunge e b)
  obtain ok db1 where c: "db_call db = (ok, db1)" by fastforce
  have same: "messages_ok db1" using assms db_call_tables(1) [OF c] by (rule messages_ok_same)
  show ?thesis
  proof (cases ok)
    case True
    with Op_expunge c show ?thesis
      by (auto simp: MessageExpunge_def intro!: messages_ok_filter [OF same, where P = "\<lambda>m. \<not> to_expunge e b m"])
  qed (use Op_expunge c same in \<open>simp add: MessageExpunge_def\<close>)
next
  case (Op_flags e us a fs)
  obtain ok db1 where c: "db_call db = (ok, db1)" by fastforce
  have "messages_ok (db1\<lparr>db_messages := store_batches e us a fs (db_messages db1)\<rparr>)" "messages_ok db1"
    using assms db_call_tables(1) [OF c] by (simp_all add: messages_ok_def store_batches_rows uids_update_rows)
  with Op_flags c assms show ?thesis by (cases ok) (simp_all add: MessageStoreFlags_def)
qed (use assms in \<open>auto intro!: messages_ok_same [OF assms]
    simp: AccountCreate_def AccountDelete_def AccountUpdatePassword_def MailboxCreate_def MailboxDelete_def MailboxRename_def
      insert_box_def insert_boxes_messages db_call_tables split: prod.split bool.split option.split\<close>)

section \<open>Properties\<close>

text \<open>
  Whatever operations run on the mail database and whichever of its calls fail, the UIDs of an account are
  positive and ascend with the order of arrival, so no delivery and no copy is ever refused for a UID that is taken.
\<close>

theorem uids_ascend:
  assumes "db = foldl (\<lambda>d op. db_apply op d) (empty_db faults) ops"
  shows "sorted_wrt (<) (0 # uids_of email (db_messages db))
    \<and> snd (MessageStore msg db) = fst (db_call db) \<and> snd (MessageCopy email lo hi src dst db) = fst (db_call db)"
proof -
  have "messages_ok (foldl (\<lambda>d op. db_apply op d) x ops)" if "messages_ok x" for x
    using that by (induction ops arbitrary: x) (auto intro: db_apply_ok)
  moreover have "messages_ok (empty_db faults)" by (simp add: messages_ok_def empty_db_def)
  ultimately have ok: "messages_ok db" using assms by blast
  from MessageStore_effect [OF ok, of msg] MessageCopy_effect [OF ok, of email lo hi src dst] ok
  show ?thesis by (auto simp: messages_ok_def)
qed

definition demo_msg :: msg_row where
  "demo_msg = \<lparr>mr_id = 0, mr_uid = 0, mr_email = ''a@b'', mr_mailbox = ''INBOX'', mr_flags = Flags [], mr_rawRef = None, mr_cols = Map.empty\<rparr>"

theorem uids_ascend_witness:
  "sorted_wrt (<) (0 # uids_of ''a@b'' (db_messages (foldl (\<lambda>d op. db_apply op d) (empty_db [False, True])
     [Op_store demo_msg, Op_store demo_msg, Op_store demo_msg, Op_copy ''a@b'' 1 2 ''INBOX'' ''Sent''])))"
  using uids_ascend [OF refl] by blast

text \<open>
  A flag update changes the rows it names and those only: adding, removing and setting do what they say as sets
  of flags, repeated or batched UIDs make no difference, and all rows are changed or, on an error, none.
\<close>

theorem store_flags_exact:
  assumes "MessageStoreFlags email uids action flags db = (db', ok)"
  shows "list_all2 (\<lambda>m m'. if ok \<and> mr_email m = email \<and> mr_uid m \<in> set uids
       then \<exists>f. m' = m\<lparr>mr_flags := f\<rparr> \<and> set (flag_list f) =
         (case action of Add_flags \<Rightarrow> set (flag_list (mr_flags m)) \<union> set flags
          | Remove_flags \<Rightarrow> set (flag_list (mr_flags m)) - set flags
          | Set_flags \<Rightarrow> set flags)
       else m' = m) (db_messages db) (db_messages db')"
proof -
  obtain k db1 where c: "db_call db = (k, db1)" by fastforce
  note t = db_call_tables(1) [OF c]
  have id: "m = m\<lparr>mr_flags := mr_flags m\<rparr>" for m :: msg_row by simp
  consider "uids = []" | "uids \<noteq> []" "action \<noteq> Set_flags" "flags = []" | "uids \<noteq> []" "\<not> (action \<noteq> Set_flags \<and> flags = [])"
    by blast
  then show ?thesis
  proof cases
    case 1
    with assms show ?thesis by (auto simp: MessageStoreFlags_def list_all2_same)
  next
    case 2
    with assms have "db' = db" by (auto simp: MessageStoreFlags_def)
    moreover have "\<exists>f. m = m\<lparr>mr_flags := f\<rparr> \<and> set (flag_list f) =
        (case action of Add_flags \<Rightarrow> set (flag_list (mr_flags m)) \<union> set flags
         | Remove_flags \<Rightarrow> set (flag_list (mr_flags m)) - set flags
         | Set_flags \<Rightarrow> set flags)" for m :: msg_row
      using 2 by (intro exI [where x = "mr_flags m"]) (cases action; simp)
    ultimately show ?thesis by (auto simp: list_all2_same)
  next
    case 3
    then have db': "db_messages db' = (if ok then update_rows email uids (new_flags action flags) (db_messages db) else db_messages db)"
      using assms c t by (cases k) (auto simp: MessageStoreFlags_def store_batches_rows)
    have "list_all2 (\<lambda>m m'. if mr_email m = email \<and> mr_uid m \<in> set uids
       then \<exists>f. m' = m\<lparr>mr_flags := f\<rparr> \<and> set (flag_list f) =
         (case action of Add_flags \<Rightarrow> set (flag_list (mr_flags m)) \<union> set flags
          | Remove_flags \<Rightarrow> set (flag_list (mr_flags m)) - set flags
          | Set_flags \<Rightarrow> set flags)
       else m' = m) ms (update_rows email uids (new_flags action flags) ms)" for ms
      unfolding update_rows_def list.rel_map
      by (rule list.rel_refl_strong) (auto simp: new_flags_set)
    with db' show ?thesis by (cases ok) (simp_all add: list_all2_same)
  qed
qed

theorem store_flags_exact_witness:
  "list_all2 (\<lambda>m m'. if True \<and> mr_email m = ''a@b'' \<and> mr_uid m \<in> set [0, 7, 0]
       then \<exists>f. m' = m\<lparr>mr_flags := f\<rparr> \<and> set (flag_list f) = set (flag_list (mr_flags m)) \<union> set [''seen'']
       else m' = m) [demo_msg] [demo_msg\<lparr>mr_flags := Flags [''seen'']\<rparr>]"
proof -
  have msgs: "db_messages (fst (MessageStoreFlags ''a@b'' [0, 7, 0] Add_flags [''seen''] ((empty_db [])\<lparr>db_messages := [demo_msg]\<rparr>)))
      = [demo_msg\<lparr>mr_flags := Flags [''seen'']\<rparr>]"
    by (simp add: MessageStoreFlags_def db_call_def empty_db_def store_batches_rows update_rows_def demo_msg_def new_flags_def
        update_flag_def flag_list_def)
  moreover have "snd (MessageStoreFlags ''a@b'' [0, 7, 0] Add_flags [''seen''] ((empty_db [])\<lparr>db_messages := [demo_msg]\<rparr>)) = True"
    by (simp add: MessageStoreFlags_def db_call_def empty_db_def)
  ultimately have "MessageStoreFlags ''a@b'' [0, 7, 0] Add_flags [''seen''] ((empty_db [])\<lparr>db_messages := [demo_msg]\<rparr>)
      = (fst (MessageStoreFlags ''a@b'' [0, 7, 0] Add_flags [''seen''] ((empty_db [])\<lparr>db_messages := [demo_msg]\<rparr>)), True)"
    by (simp add: prod_eq_iff)
  from store_flags_exact [OF this] msgs show ?thesis by (simp add: demo_msg_def cong: if_cong)
qed

text \<open>
  The next UID is one more than the largest one present: when the newest message is expunged, its UID is given to
  the next delivery, although the mailbox keeps its UIDVALIDITY.
\<close>

lemma uid_reused:
  "(let run = foldl (\<lambda>d op. db_apply op d) (empty_db []);
        stats = (\<lambda>d. map_option ms_uidValidity (snd (MailboxSelect ''a@b'' ''INBOX'' d)));
        before = run [Op_store demo_msg];
        after = run [Op_store demo_msg, Op_flags ''a@b'' [1] Add_flags [''deleted''], Op_expunge ''a@b'' ''INBOX'',
                     Op_store (demo_msg\<lparr>mr_rawRef := Some ''other''\<rparr>)]
    in map (\<lambda>m. (mr_uid m, mr_rawRef m)) (db_messages before) = [(1, None)]
       \<and> map (\<lambda>m. (mr_uid m, mr_rawRef m)) (db_messages after) = [(1, Some ''other'')]
       \<and> stats before = stats after)"
  by (simp add: Let_def MessageStore_def MessageStoreFlags_def MessageExpunge_def MailboxSelect_def db_call_def empty_db_def
      demo_msg_def insert_message_def next_uid_def store_batches_rows update_rows_def new_flags_def update_flag_def
      flag_list_def to_expunge_def has_flag_def in_mailbox_def)

text \<open>
  Deleting an account leaves its mailboxes and messages. Its address cannot be created again (the default mailboxes
  are there already).
\<close>

lemma account_not_recreated:
  assumes "db_faults db = []" and "AccountCreate e h d now db = (db1, True)" and "AccountDelete e db1 = (db2, True)"
  shows "snd (AccountCreate e h' d' now' db2) = False"
proof -
  from assms(2) have "(e, ''Drafts'') \<in> set (db_boxes db1)" "db_faults db1 = []"
    using assms(1) by (auto simp: AccountCreate_def db_call_def defaultMailboxes_def insert_box_def split: if_splits option.splits)
  then have "(e, ''Drafts'') \<in> set (db_boxes db2)" "db_faults db2 = []"
    using assms(3) by (auto simp: AccountDelete_def db_call_def)
  then show ?thesis by (simp add: AccountCreate_def db_call_def defaultMailboxes_def insert_box_def)
qed

text \<open>Renaming and deleting a mailbox leave its messages where they are: they are found under the old name only.\<close>

lemma mailbox_changes_keep_messages:
  "db_messages (fst (MailboxRename e old new db)) = db_messages db"
  "db_messages (fst (MailboxDelete e old db)) = db_messages db"
  by (auto simp: MailboxRename_def MailboxDelete_def db_call_def split: list.split bool.split)

end
