(* ===== verification/BlobStore.thy ===== *)
theory BlobStore
  imports FileSys MailStore GoAny
begin

text \<open>
  \<open>internal/mail/blob/\<close>: the content-addressed store of raw messages (\<open>store.go\<close>) over the failing file
  operations of \<open>FileSys\<close>, and the sweeper that collects what no message refers to (\<open>sweeper.go\<close>) over the
  mail database of \<open>MailStore\<close>. The hexadecimal SHA-256 is the parameter \<open>sha\<close>.
\<close>

section \<open>Addresses\<close>

definition refLen :: nat where "refLen = 64"

definition validRef :: "string \<Rightarrow> bool" where
  "validRef ref \<longleftrightarrow>
     length ref = refLen \<and> list_all (\<lambda>c. is_digit_char c \<or> ascii_val (CHR ''a'') \<le> ascii_val c \<and> ascii_val c \<le> ascii_val (CHR ''f'')) ref"

definition blob_path :: "string \<Rightarrow> string \<Rightarrow> string option" where
  "blob_path base ref =
     (if validRef ref then Some (base @ ''/'' @ take 2 ref @ ''/'' @ take 2 (drop 2 ref) @ ''/'' @ ref) else None)"

section \<open>Operations of the store\<close>

text \<open>\<open>Sync\<close>, \<open>Close\<close> and \<open>Chmod\<close> change no content.\<close>

definition quiet_call :: "disk \<Rightarrow> disk \<times> bool" where
  "quiet_call = file_call (\<lambda>_ fs. fs)"

definition fill_temp :: "string \<Rightarrow> string \<Rightarrow> disk \<Rightarrow> disk \<times> bool" where
  "fill_temp tmp data d =
     (case writeFile tmp data d of
        (d1, False) \<Rightarrow> (d1, False)
      | (d1, True) \<Rightarrow>
          (case quiet_call d1 of
             (d2, False) \<Rightarrow> (d2, False)
           | (d2, True) \<Rightarrow>
               (case quiet_call d2 of
                  (d3, False) \<Rightarrow> (d3, False)
                | (d3, True) \<Rightarrow> quiet_call d3)))"

text \<open>The temporary name is fresh; the deferred removal runs on every path after its creation.\<close>

definition blob_put :: "(string \<Rightarrow> string) \<Rightarrow> string \<Rightarrow> string \<Rightarrow> string \<Rightarrow> disk \<Rightarrow> disk \<times> string option" where
  "blob_put sha base tmp data d =
     (let ref = sha data
      in case blob_path base ref of
           None \<Rightarrow> (d, None)
         | Some dst \<Rightarrow>
             (case stat_call dst d of
                (d1, True) \<Rightarrow> (d1, Some ref)
              | (d1, False) \<Rightarrow>
                  (case mkdir_call d1 of
                     (d2, False) \<Rightarrow> (d2, None)
                   | (d2, True) \<Rightarrow>
                       (case writeFile tmp [] d2 of
                          (d3, False) \<Rightarrow> (d3, None)
                        | (d3, True) \<Rightarrow>
                            (case fill_temp tmp data d3 of
                               (d4, False) \<Rightarrow> (fst (remove_call tmp d4), None)
                             | (d4, True) \<Rightarrow>
                                 (case rename_call tmp dst d4 of
                                    (d5, False) \<Rightarrow> (fst (remove_call tmp d5), None)
                                  | (d5, True) \<Rightarrow> (fst (remove_call tmp d5), Some ref)))))))"

definition blob_get :: "string \<Rightarrow> string \<Rightarrow> disk \<Rightarrow> disk \<times> string option" where
  "blob_get base ref d =
     (case blob_path base ref of
        None \<Rightarrow> (d, None)
      | Some p \<Rightarrow> (case readFile p d of (d1, Content s) \<Rightarrow> (d1, Some s) | (d1, _) \<Rightarrow> (d1, None)))"

definition blob_has :: "string \<Rightarrow> string \<Rightarrow> disk \<Rightarrow> disk \<times> bool" where
  "blob_has base ref d = (case blob_path base ref of None \<Rightarrow> (d, False) | Some p \<Rightarrow> stat_call p d)"

definition blob_size :: "string \<Rightarrow> string \<Rightarrow> disk \<Rightarrow> disk \<times> int option" where
  "blob_size base ref d =
     (case blob_path base ref of
        None \<Rightarrow> (d, None)
      | Some p \<Rightarrow>
          (case stat_call p d of
             (d1, ok) \<Rightarrow> (d1, if ok then map_option (\<lambda>s. int (length s)) (d_files d p) else None)))"

text \<open>A missing blob is not an error.\<close>

definition blob_delete :: "string \<Rightarrow> string \<Rightarrow> disk \<Rightarrow> disk \<times> bool" where
  "blob_delete base ref d =
     (case blob_path base ref of
        None \<Rightarrow> (d, False)
      | Some p \<Rightarrow> (case remove_call p d of (d1, ok) \<Rightarrow> (d1, ok \<or> d_files d p = None \<and> \<not> d_dead d1)))"

text \<open>
  A byte range of a blob: an error, the bytes, or a panic of \<open>make\<close> when the length is beyond what is there
  although it was not clamped, because the sum has wrapped around.
\<close>

datatype range_result = Range_error | Range_bytes string | Range_panic

definition blob_range :: "int \<Rightarrow> int \<Rightarrow> string \<Rightarrow> range_result" where
  "blob_range offset len content =
     (let size = int (length content)
      in if offset < 0 \<or> len < 0 then Range_error
         else if size \<le> offset then Range_bytes []
         else
           let len' = (if size < wrap64 (offset + len) then size - offset else len)
           in if size < offset + len' then Range_panic
              else Range_bytes (take (nat len') (drop (nat offset) content)))"

section \<open>The sweeper\<close>

text \<open>Seconds.\<close>

definition defaultGrace :: int where "defaultGrace = 86400"

text \<open>What a walk reports of a blob.\<close>

record blob_entry =
  be_ref :: string
  be_size :: int
  be_mtime :: int

text \<open>The result: the blobs that are left, the database, how many were removed and their bytes.\<close>

fun sweep_walk :: "int \<Rightarrow> (string \<Rightarrow> bool) \<Rightarrow> blob_entry list \<Rightarrow> mail_db \<Rightarrow> blob_entry list \<times> mail_db \<times> int \<times> int" where
  "sweep_walk cutoff deletable [] db = ([], db, 0, 0)"
| "sweep_walk cutoff deletable (b # bs) db =
     (let keep = (\<lambda>db1. case sweep_walk cutoff deletable bs db1 of (bs', db2, n, freed) \<Rightarrow> (b # bs', db2, n, freed))
      in if cutoff < be_mtime b then keep db
         else
           (case RawRefExists (be_ref b) db of
              (db1, None) \<Rightarrow> keep db1
            | (db1, Some True) \<Rightarrow> keep db1
            | (db1, Some False) \<Rightarrow>
                if \<not> deletable (be_ref b) then keep db1
                else (case sweep_walk cutoff deletable bs db1 of (bs', db2, n, freed) \<Rightarrow> (bs', db2, n + 1, freed + be_size b))))"

definition Sweep :: "int \<Rightarrow> (string \<Rightarrow> bool) \<Rightarrow> blob_entry list \<Rightarrow> mail_db \<Rightarrow> blob_entry list \<times> mail_db \<times> int \<times> int" where
  "Sweep now deletable bs db = sweep_walk (now - defaultGrace) deletable bs db"

section \<open>Every visible blob is complete\<close>

definition addressed :: "(string \<Rightarrow> string) \<Rightarrow> string \<Rightarrow> files \<Rightarrow> bool" where
  "addressed sha base fs \<longleftrightarrow> (\<forall>ref p s. blob_path base ref = Some p \<longrightarrow> fs p = Some s \<longrightarrow> sha s = ref)"

definition temp_name :: "string \<Rightarrow> string \<Rightarrow> string" where
  "temp_name base n = base @ ''/tmp/put-'' @ n"

lemma blob_path_suffix: "blob_path base ref = Some p \<Longrightarrow> drop (length p - 64) p = ref"
  by (auto simp: blob_path_def validRef_def refLen_def split: if_splits)

lemma blob_path_inj: "blob_path base ref = Some p \<Longrightarrow> blob_path base ref' = Some p \<Longrightarrow> ref = ref'"
  using blob_path_suffix by blast

lemma blob_path_not_temp:
  assumes "blob_path base ref = Some p"
  shows "p \<noteq> temp_name base n"
proof
  have l: "length (take 2 ref) = 2" using assms by (auto simp: blob_path_def validRef_def refLen_def split: if_splits)
  assume "p = temp_name base n"
  with assms have "''/'' @ take 2 ref @ ''/'' @ take 2 (drop 2 ref) @ ''/'' @ ref = ''/tmp/put-'' @ n"
    by (auto simp: blob_path_def temp_name_def split: if_splits)
  from arg_cong [OF this, where f = "\<lambda>s. hd (drop 3 s)"] l show False by (simp add: numeral_3_eq_3)
qed

lemma addressed_frame:
  assumes "addressed sha base fs" and "\<And>ref p. blob_path base ref = Some p \<Longrightarrow> fs' p = fs p \<or> (\<exists>s. fs' p = Some s \<and> sha s = ref) \<or> fs' p = None"
  shows "addressed sha base fs'"
  unfolding addressed_def
proof (intro allI impI)
  fix ref p s
  assume p: "blob_path base ref = Some p" "fs' p = Some s"
  with assms(2) [OF p(1)] assms(1) show "sha s = ref" by (auto simp: addressed_def)
qed

lemma quiet_files [simp]: "d_files (fst (quiet_call d)) = d_files d"
  by (simp add: quiet_call_def file_call_none)

lemma fill_temp_effect:
  assumes "fill_temp tmp data d = (d', ok)"
  shows "p \<noteq> tmp \<Longrightarrow> d_files d' p = d_files d p" and "ok \<Longrightarrow> d_files d' tmp = Some data"
proof -
  obtain d1 o1 where w: "writeFile tmp data d = (d1, o1)" by fastforce
  have "d' \<in> {d1, fst (quiet_call d1), fst (quiet_call (fst (quiet_call d1))), fst (quiet_call (fst (quiet_call (fst (quiet_call d1)))))}"
    using assms w by (auto simp: fill_temp_def split: prod.splits bool.splits)
  then have q: "d_files d' = d_files d1" by auto
  show "p \<noteq> tmp \<Longrightarrow> d_files d' p = d_files d p" using writeFile_frame [of p tmp data d] w q by simp
  assume ok
  with assms w have "o1" by (auto simp: fill_temp_def split: bool.splits)
  with w q writeFile_ok show "d_files d' tmp = Some data" by fastforce
qed


lemma writeFile_disk: "d_files (fst (writeFile q s d)) p = d_files d p \<or> p = q"
  using writeFile_frame by blast

lemma remove_files: "d_files (fst (remove_call q d)) p = d_files d p \<or> p = q"
  using remove_call_frame by blast

text \<open>What a \<open>Put\<close> does to the files other than its temporary one, whatever fails.\<close>

lemma blob_put_effect:
  assumes "blob_put sha base tmp data d = (d', r)" and "blob_path base (sha data) = Some dst" and "dst \<noteq> tmp"
  shows "(\<forall>p. p \<noteq> tmp \<longrightarrow> d_files d' p = d_files d p) \<or> (\<forall>p. p \<noteq> tmp \<longrightarrow> d_files d' p = ((d_files d)(dst \<mapsto> data)) p)"
    and "r \<noteq> None \<Longrightarrow> r = Some (sha data) \<and> (d_files d dst \<noteq> None \<and> d_files d' = d_files d
           \<or> (\<forall>p. p \<noteq> tmp \<longrightarrow> d_files d' p = ((d_files d)(dst \<mapsto> data)) p))"
proof -
  obtain d1 o1 where 1: "stat_call dst d = (d1, o1)" by fastforce
  obtain d2 o2 where 2: "mkdir_call d1 = (d2, o2)" by fastforce
  obtain d3 o3 where 3: "writeFile tmp [] d2 = (d3, o3)" by fastforce
  obtain d4 o4 where 4: "fill_temp tmp data d3 = (d4, o4)" by fastforce
  obtain d5 o5 where 5: "rename_call tmp dst d4 = (d5, o5)" by fastforce
  have f1: "d_files d1 = d_files d" using stat_call_frame [of dst d] 1 by simp
  have f2: "d_files d2 = d_files d" using mkdir_call_frame [of d1] 2 f1 by simp
  have f3: "p \<noteq> tmp \<Longrightarrow> d_files d3 p = d_files d p" for p using writeFile_frame [of p tmp "[]" d2] 3 f2 by simp
  have f4: "p \<noteq> tmp \<Longrightarrow> d_files d4 p = d_files d p" for p using fill_temp_effect(1) [OF 4] f3 by simp
  have rem: "p \<noteq> tmp \<Longrightarrow> d_files (fst (remove_call tmp x)) p = d_files x p" for p x by (rule remove_call_frame)
  have put: "(d', r) =
      (if o1 then (d1, Some (sha data)) else if \<not> o2 then (d2, None) else if \<not> o3 then (d3, None)
       else if \<not> o4 then (fst (remove_call tmp d4), None)
       else (fst (remove_call tmp d5), if o5 then Some (sha data) else None))"
    using assms(1,2) 1 2 3 4 5 by (auto simp: blob_put_def split: bool.split)
  have whole: "\<forall>p. p \<noteq> tmp \<longrightarrow> d_files d5 p = ((d_files d)(dst \<mapsto> data)) p" if "o4" "d_files d5 \<noteq> d_files d4"
    using that rename_call_cases [OF 5] fill_temp_effect(2) [OF 4] f4 by auto
  show "(\<forall>p. p \<noteq> tmp \<longrightarrow> d_files d' p = d_files d p) \<or> (\<forall>p. p \<noteq> tmp \<longrightarrow> d_files d' p = ((d_files d)(dst \<mapsto> data)) p)"
  proof (cases "\<not> o1 \<and> o2 \<and> o3 \<and> o4")
    case True
    with put have d': "d' = fst (remove_call tmp d5)" by simp
    show ?thesis
    proof (cases "d_files d5 = d_files d4")
      case same: True
      then show ?thesis using d' rem f4 by simp
    qed (use d' rem whole True in simp)
  qed (use put f1 f2 f3 f4 rem in \<open>auto split: if_splits\<close>)
  assume r: "r \<noteq> None"
  show "r = Some (sha data) \<and> (d_files d dst \<noteq> None \<and> d_files d' = d_files d
           \<or> (\<forall>p. p \<noteq> tmp \<longrightarrow> d_files d' p = ((d_files d)(dst \<mapsto> data)) p))"
  proof (cases o1)
    case True
    with put 1 f1 show ?thesis by (auto simp: stat_call_def split: prod.splits)
  next
    case False
    with put r have ok: "o2" "o3" "o4" "o5" and d': "d' = fst (remove_call tmp d5)" and ref: "r = Some (sha data)"
      by (auto split: if_splits)
    have "d_files d4 tmp \<noteq> None" using fill_temp_effect(2) [OF 4] ok by simp
    with rename_call_ok [of tmp dst d4 d5] 5 ok fill_temp_effect(2) [OF 4] f4
    have "\<forall>p. p \<noteq> tmp \<longrightarrow> d_files d5 p = ((d_files d)(dst \<mapsto> data)) p" by auto
    with d' rem ref show ?thesis by simp
  qed
qed

section \<open>Properties\<close>

text \<open>
  C29. Whatever call of \<open>Put\<close> fails and wherever the process dies in it, every blob under its address is whole:
  its hash is its name. A reference that \<open>Put\<close> returns is the hash of the data, and reading it gives a content with
  that hash, the data itself unless SHA-256 has a collision; no other blob changes.
\<close>

theorem put_whole_or_absent:
  assumes "addressed sha base (d_files d)" and "\<And>x. validRef (sha x)" and "blob_put sha base (temp_name base n) data d = (d', r)"
  shows "addressed sha base (d_files d')
    \<and> (\<forall>ref. r = Some ref \<longrightarrow> ref = sha data \<and> (\<exists>s. blob_get base ref (healthy (d_files d')) = (healthy (d_files d'), Some s) \<and> sha s = sha data))
    \<and> (\<forall>ref p. blob_path base ref = Some p \<longrightarrow> ref \<noteq> sha data \<longrightarrow> d_files d' p = d_files d p)"
proof -
  obtain dst where dst: "blob_path base (sha data) = Some dst" using assms(2) by (simp add: blob_path_def)
  note ne = blob_path_not_temp [of base _ _ n]
  note effect = blob_put_effect [OF assms(3) dst ne [OF dst]]
  have other: "d_files d' p = d_files d p" if "blob_path base ref = Some p" "ref \<noteq> sha data" for ref p
    using effect(1) ne [OF that(1)] blob_path_inj [of base _ p] that dst by auto
  have own: "d_files d' dst = d_files d dst \<or> d_files d' dst = Some data" using effect(1) ne [OF dst] by auto
  have "addressed sha base (d_files d')"
  proof (rule addressed_frame [OF assms(1)])
    fix ref p
    assume p: "blob_path base ref = Some p"
    show "d_files d' p = d_files d p \<or> (\<exists>s. d_files d' p = Some s \<and> sha s = ref) \<or> d_files d' p = None"
      using other [OF p] own p dst by (cases "ref = sha data") auto
  qed
  moreover have "\<exists>s. blob_get base (sha data) (healthy (d_files d')) = (healthy (d_files d'), Some s) \<and> sha s = sha data" if "r \<noteq> None"
  proof -
    from effect(2) [OF that] ne [OF dst] obtain s where s: "d_files d' dst = Some s" by auto
    moreover have "sha s = sha data" using calculation \<open>addressed sha base (d_files d')\<close> dst by (auto simp: addressed_def)
    ultimately show ?thesis using dst by (simp add: blob_get_def healthy_calls)
  qed
  ultimately show ?thesis using effect(2) other by auto
qed

definition demo_sha :: "string \<Rightarrow> string" where
  "demo_sha s = replicate 64 (if s = ''Hello'' then CHR ''a'' else CHR ''b'')"

theorem put_whole_or_absent_witness:
  "addressed demo_sha ''/b'' (d_files (fst (blob_put demo_sha ''/b'' (temp_name ''/b'' ''1'') ''Hello''
     \<lparr>d_files = Map.empty, d_faults = [Works, Works, Works, Dies 3], d_dead = False\<rparr>)))"
proof -
  have "addressed demo_sha ''/b'' (d_files \<lparr>d_files = Map.empty, d_faults = [Works, Works, Works, Dies 3], d_dead = False\<rparr>)"
    by (simp add: addressed_def)
  moreover have "validRef (demo_sha x)" for x
    by (simp add: demo_sha_def validRef_def refLen_def list_all_iff ascii_val_def is_digit_char_def)
  ultimately show ?thesis using put_whole_or_absent by (metis prod.collapse)
qed

text \<open>What a sweep may collect, and what it must collect when every lookup works.\<close>

definition live :: "mail_db \<Rightarrow> string \<Rightarrow> bool" where
  "live db ref \<longleftrightarrow> (\<exists>m\<in>set (db_messages db). mr_rawRef m = Some ref)"

definition collected ::
    "(blob_entry \<Rightarrow> bool) \<Rightarrow> bool \<Rightarrow> blob_entry list \<Rightarrow> blob_entry list \<Rightarrow> int \<Rightarrow> int \<Rightarrow> bool" where
  "collected garbage all bs left n freed \<longleftrightarrow>
     (\<exists>gone. bs \<in> shuffles left gone \<and> n = int (length gone) \<and> freed = sum_list (map be_size gone)
        \<and> (\<forall>b\<in>set gone. garbage b)) \<and> (all \<longrightarrow> (\<forall>b\<in>set left. \<not> garbage b))"

lemma collected_Nil: "collected garbage all [] [] 0 0"
  by (simp add: collected_def)

lemma collected_keep:
  assumes "collected garbage all bs left n freed" and "all \<Longrightarrow> \<not> garbage b"
  shows "collected garbage all (b # bs) (b # left) n freed"
  using assms by (auto simp: collected_def intro: Cons_in_shuffles_leftI)

lemma collected_gone:
  assumes "collected garbage all bs left n freed" and "garbage b"
  shows "collected garbage all (b # bs) left (n + 1) (freed + be_size b)"
proof -
  from assms(1) obtain gone where "bs \<in> shuffles left gone" "n = int (length gone)" "freed = sum_list (map be_size gone)"
    "\<forall>b\<in>set gone. garbage b" by (auto simp: collected_def)
  with assms show ?thesis
    by (auto simp: collected_def intro!: exI [where x = "b # gone"] Cons_in_shuffles_rightI)
qed

lemma RawRefExists_live:
  assumes "RawRefExists ref db = (db1, r)"
  shows "db_messages db1 = db_messages db" "r \<noteq> None \<Longrightarrow> r = Some (live db ref)"
    "db_faults db = [] \<Longrightarrow> db_faults db1 = [] \<and> r \<noteq> None"
  using assms by (auto simp: RawRefExists_def db_call_def live_def list_ex_iff split: prod.splits bool.splits list.splits)

lemma sweep_walk_effect:
  assumes "sweep_walk cutoff deletable bs db = (left, db', n, freed)"
  shows "db_messages db' = db_messages db
    \<and> collected (\<lambda>b. be_mtime b \<le> cutoff \<and> deletable (be_ref b) \<and> \<not> live db (be_ref b)) (db_faults db = []) bs left n freed"
  using assms
proof (induction bs arbitrary: db left n freed)
  case Nil
  then show ?case by (simp add: collected_Nil)
next
  case (Cons b bs)
  obtain db1 r where look: "RawRefExists (be_ref b) db = (db1, r)" by fastforce
  note r = RawRefExists_live [OF look]
  let ?g = "\<lambda>b. be_mtime b \<le> cutoff \<and> deletable (be_ref b) \<and> \<not> live db (be_ref b)"
  have rest: "db_messages db' = db_messages db \<and> collected ?g (db_faults db = []) bs left1 n1 freed1"
    if "sweep_walk cutoff deletable bs db1 = (left1, db', n1, freed1)" for left1 n1 freed1
  proof -
    have "live db1 = live db" using r(1) by (simp add: live_def fun_eq_iff)
    with Cons.IH [OF that] r(1,3) show ?thesis by (auto simp: collected_def)
  qed
  consider (young) "cutoff < be_mtime b" | (keep) "\<not> cutoff < be_mtime b" "r \<noteq> Some False \<or> \<not> deletable (be_ref b)"
    | (gone) "\<not> cutoff < be_mtime b" "r = Some False" "deletable (be_ref b)" by blast
  then show ?case
  proof cases
    case young
    with Cons.prems obtain left1 where run: "sweep_walk cutoff deletable bs db = (left1, db', n, freed)" and left: "left = b # left1"
      by (auto split: prod.splits)
    from Cons.IH [OF run] young show ?thesis unfolding left by (auto intro!: collected_keep)
  next
    case keep
    with Cons.prems look obtain left1 where run: "sweep_walk cutoff deletable bs db1 = (left1, db', n, freed)" and left: "left = b # left1"
      by (auto split: prod.splits option.splits bool.splits if_splits)
    have "db_faults db = [] \<Longrightarrow> \<not> ?g b" using keep r by auto
    with rest [OF run] show ?thesis unfolding left by (auto intro!: collected_keep)
  next
    case gone
    with Cons.prems look obtain n1 freed1 where run: "sweep_walk cutoff deletable bs db1 = (left, db', n1, freed1)"
      and nums: "n = n1 + 1" "freed = freed1 + be_size b"
      by (auto split: prod.splits)
    have "?g b" using gone r(2) by auto
    with rest [OF run] show ?thesis unfolding nums by (auto intro!: collected_gone)
  qed
qed

text \<open>
  C30. A sweep removes no blob that a message refers to, none younger than the grace period and none whose lookup
  failed, it changes no message, and its two numbers are those of the blobs that are gone; when all lookups
  work, everything old and deletable that no message refers to is gone.
\<close>

theorem sweep_collects_garbage:
  assumes "Sweep now deletable bs db = (left, db', n, freed)"
  shows "db_messages db' = db_messages db
    \<and> (\<exists>gone. bs \<in> shuffles left gone \<and> n = int (length gone) \<and> freed = sum_list (map be_size gone)
        \<and> (\<forall>b\<in>set gone. be_mtime b \<le> now - 24 * 60 * 60 \<and> \<not> (\<exists>m\<in>set (db_messages db). mr_rawRef m = Some (be_ref b))))
    \<and> (db_faults db = [] \<longrightarrow> (\<forall>b\<in>set left. be_mtime b \<le> now - 24 * 60 * 60 \<longrightarrow> deletable (be_ref b)
        \<longrightarrow> (\<exists>m\<in>set (db_messages db). mr_rawRef m = Some (be_ref b))))"
  using sweep_walk_effect [OF assms [unfolded Sweep_def]]
  by (fastforce simp: collected_def live_def defaultGrace_def)

theorem sweep_collects_garbage_witness:
  "let db = empty_db [True]; e = (\<lambda>r t. \<lparr>be_ref = r, be_size = 5, be_mtime = t\<rparr>)
   in Sweep 100000 (\<lambda>_. True) [e ''a'' 0, e ''b'' 50000, e ''c'' 1] db = ([e ''a'' 0, e ''b'' 50000], empty_db [], 1, 5)
      \<and> db_messages (empty_db []) = db_messages db"
proof -
  have "Sweep 100000 (\<lambda>_. True) [\<lparr>be_ref = ''a'', be_size = 5, be_mtime = 0\<rparr>, \<lparr>be_ref = ''b'', be_size = 5, be_mtime = 50000\<rparr>,
      \<lparr>be_ref = ''c'', be_size = 5, be_mtime = 1\<rparr>] (empty_db [True])
    = ([\<lparr>be_ref = ''a'', be_size = 5, be_mtime = 0\<rparr>, \<lparr>be_ref = ''b'', be_size = 5, be_mtime = 50000\<rparr>], empty_db [], 1, 5)"
    by (simp add: Sweep_def defaultGrace_def RawRefExists_def db_call_def empty_db_def)
  with sweep_collects_garbage [OF this] show ?thesis by (simp add: Let_def)
qed

text \<open>
  A blob that is old and no longer referred to is not made younger by a \<open>Put\<close> of the same content: a sweep before the
  row of the new delivery is committed takes it, although the sweeper's grace period is there to prevent that.
\<close>

lemma sweep_takes_pending:
  assumes "blob_path base (sha data) = Some dst" and "fs dst = Some data" and "\<not> live db (sha data)" and "db_faults db = []"
    and "be_ref b = sha data" and "be_mtime b \<le> now - defaultGrace"
  shows "blob_put sha base tmp data (healthy fs) = (healthy fs, Some (sha data)) \<and> fst (Sweep now (\<lambda>_. True) [b] db) = []"
  using assms
  by (simp add: blob_put_def healthy_calls Sweep_def RawRefExists_def db_call_def live_def list_ex_iff)

text \<open>A range of a blob: what is there of it, as long as its end is an \<open>int64\<close>; beyond, nothing is clamped.\<close>

lemma blob_range_bytes:
  assumes "0 \<le> offset" and "0 \<le> len" and "offset + len \<le> max_int64"
  shows "blob_range offset len content = Range_bytes (take (nat len) (drop (nat offset) content))"
proof -
  have "wrap64 (offset + len) = offset + len" using assms by (intro wrap64_id) auto
  moreover have "take (nat (int (length content) - offset)) (drop (nat offset) content) = take (nat len) (drop (nat offset) content)"
    if "int (length content) < offset + len"
    using that assms by (intro trans [OF take_all take_all [symmetric]]) auto
  ultimately show ?thesis using assms by (auto simp: blob_range_def Let_def)
qed

lemma blob_range_overflow: "blob_range 1 max_int64 ''ab'' = Range_panic"
  by (simp add: blob_range_def wrap64_def)

end
