(* ===== verification/MailPassword.thy ===== *)
theory MailPassword
  imports Prelude
begin

text \<open>
  \<open>internal/mail/auth/password.go\<close>: the stored form of a mail password and its check. The key derivation of
  package \<open>scrypt\<close> (password, salt, cost; it can refuse a cost) and the random salt are parameters.
\<close>

section \<open>Hexadecimal: package hex\<close>

definition hex_char :: "nat \<Rightarrow> char" where
  "hex_char n = (if n < 10 then char_of (48 + n) else char_of (87 + n))"

definition hex_digit :: "char \<Rightarrow> nat option" where
  "hex_digit c =
     (if is_digit_char c then Some (ascii_val c - 48)
      else if 97 \<le> ascii_val c \<and> ascii_val c \<le> 102 then Some (ascii_val c - 87)
      else if 65 \<le> ascii_val c \<and> ascii_val c \<le> 70 then Some (ascii_val c - 55)
      else None)"

definition hex_encode :: "string \<Rightarrow> string" where
  "hex_encode s = concat (map (\<lambda>c. [hex_char (ascii_val c div 16), hex_char (ascii_val c mod 16)]) s)"

fun hex_decode :: "string \<Rightarrow> string option" where
  "hex_decode [] = Some []"
| "hex_decode [c] = None"
| "hex_decode (a # b # cs) =
     (case (hex_digit a, hex_digit b) of
        (Some x, Some y) \<Rightarrow> map_option ((#) (char_of (16 * x + y))) (hex_decode cs)
      | _ \<Rightarrow> None)"

section \<open>Hashes\<close>

definition keyLen :: nat where "keyLen = 64"
definition saltLen :: nat where "saltLen = 16"
definition scryptN :: int where "scryptN = 32768"
definition scryptNLegacy :: int where "scryptNLegacy = 16384"

type_synonym kdf = "string \<Rightarrow> string \<Rightarrow> int \<Rightarrow> string option"

text \<open>\<^const>\<open>None\<close> for the salt: the random source has failed.\<close>

definition HashPassword :: "kdf \<Rightarrow> string option \<Rightarrow> string \<Rightarrow> string option" where
  "HashPassword kdf salt password =
     (case salt of
        None \<Rightarrow> None
      | Some s \<Rightarrow>
          map_option (\<lambda>key. ''scrypt$'' @ itoa scryptN @ ''$'' @ hex_encode s @ ''$'' @ hex_encode key) (kdf password s scryptN))"

definition parseHash :: "string \<Rightarrow> (int \<times> string \<times> string) option" where
  "parseHash storedHash =
     (case split_n 4 CHR ''$'' storedHash of
        [_, salt, key] \<Rightarrow>
          (case (hex_decode salt, hex_decode key) of
             (Some s, Some k) \<Rightarrow> Some (scryptNLegacy, s, k)
           | _ \<Rightarrow> None)
      | [_, n, salt, key] \<Rightarrow>
          (case (atoi n, hex_decode salt, hex_decode key) of
             (Some i, Some s, Some k) \<Rightarrow> Some (i, s, k)
           | _ \<Rightarrow> None)
      | _ \<Rightarrow> None)"

text \<open>\<^const>\<open>None\<close>: an error.\<close>

definition ComparePassword :: "kdf \<Rightarrow> string \<Rightarrow> string \<Rightarrow> bool option" where
  "ComparePassword kdf password storedHash =
     (if \<not> has_prefix storedHash ''scrypt$'' then Some False
      else
        (case parseHash storedHash of
           None \<Rightarrow> None
         | Some (n, salt, storedKey) \<Rightarrow>
             (case kdf password salt n of
                None \<Rightarrow> None
              | Some derivedKey \<Rightarrow>
                  Some (if length derivedKey \<noteq> length storedKey then False else derivedKey = storedKey))))"

definition NeedsRehash :: "string \<Rightarrow> bool" where
  "NeedsRehash storedHash =
     (if \<not> has_prefix storedHash ''scrypt$'' then True
      else
        let parts = split_n 4 CHR ''$'' storedHash
        in if length parts = 3 then True
           else if length parts = 4 then (case atoi (parts ! 1) of None \<Rightarrow> True | Some n \<Rightarrow> n < scryptN)
           else True)"

section \<open>Encoding and decoding\<close>

lemma ascii_val_hex: "n < 16 \<Longrightarrow> ascii_val (hex_char n) = (if n < 10 then 48 + n else 87 + n)"
  by (simp add: hex_char_def ascii_val_def)

lemma hex_digit_char: "n < 16 \<Longrightarrow> hex_digit (hex_char n) = Some n"
  by (simp add: hex_digit_def is_digit_char_def ascii_val_hex)

lemma ascii_val_halves: "ascii_val c div 16 < 16" "ascii_val c mod 16 < 16"
proof -
  have "ascii_val c < 256" by (simp add: ascii_val_def)
  then show "ascii_val c div 16 < 16" by (simp add: less_mult_imp_div_less)
qed simp

lemma char_of_ascii_val: "char_of (ascii_val c) = c"
  by (simp add: ascii_val_def)

lemma hex_decode_encode: "hex_decode (hex_encode s) = Some s"
proof (induction s)
  case (Cons c s)
  then show ?case
    by (simp add: hex_encode_def hex_digit_char ascii_val_halves char_of_ascii_val)
qed (simp add: hex_encode_def)

lemma hex_char_dollar: "n < 16 \<Longrightarrow> hex_char n \<noteq> CHR ''$''"
  by (drule ascii_val_hex) (auto simp: ascii_val_def split: if_splits)

lemma hex_encode_dollar: "CHR ''$'' \<notin> set (hex_encode s)"
  using hex_char_dollar [OF ascii_val_halves(1)] hex_char_dollar [OF ascii_val_halves(2)]
  by (auto simp: hex_encode_def) metis+

lemma itoa_dollar: "0 \<le> i \<Longrightarrow> CHR ''$'' \<notin> set (itoa i)"
  by (auto dest!: itoa_chars simp: is_digit_char_def ascii_val_def)

lemma split_hash:
  assumes "CHR ''$'' \<notin> set n" and "CHR ''$'' \<notin> set s"
  shows "split_n 4 CHR ''$'' (''scrypt$'' @ n @ ''$'' @ s @ ''$'' @ k) = [''scrypt'', n, s, k]"
proof -
  have "index_byte CHR ''$'' (''scrypt'' @ CHR ''$'' # n @ CHR ''$'' # s @ CHR ''$'' # k) = Some 6"
    using index_byte_append [of "CHR ''$''" "''scrypt''"] by simp
  moreover have "index_byte CHR ''$'' (n @ CHR ''$'' # t) = Some (length n)" "index_byte CHR ''$'' (s @ CHR ''$'' # t) = Some (length s)" for t
    using assms by (simp_all add: index_byte_append)
  ultimately show ?thesis by (simp add: eval_nat_numeral)
qed

section \<open>Properties\<close>

text \<open>
  A password hash that was made is accepted for its password and needs no rehash; for another password the check
  says whether the derived keys are equal, so it is accepted only if the key derivation collides; a stored value
  that no hash of the two formats is never accepted.
\<close>

theorem password_check_exact:
  assumes "HashPassword kdf salt password = Some h"
  shows "ComparePassword kdf password h = Some True \<and> \<not> NeedsRehash h
    \<and> (\<forall>other. ComparePassword kdf other h = Some True \<longrightarrow> kdf other (the salt) scryptN = kdf password (the salt) scryptN)
    \<and> (\<forall>stored. parseHash stored = None \<longrightarrow> ComparePassword kdf password stored \<noteq> Some True)"
proof -
  obtain s key where s: "salt = Some s" "kdf password s scryptN = Some key"
    and h: "h = ''scrypt$'' @ itoa scryptN @ ''$'' @ hex_encode s @ ''$'' @ hex_encode key"
    using assms by (auto simp: HashPassword_def split: option.splits)
  have pre: "has_prefix h ''scrypt$''" unfolding h by (rule has_prefix_append)
  have sp: "split_n 4 CHR ''$'' h = [''scrypt'', itoa scryptN, hex_encode s, hex_encode key]"
    unfolding h by (rule split_hash) (simp_all add: itoa_dollar hex_encode_dollar scryptN_def)
  have n: "atoi (itoa scryptN) = Some scryptN" by (rule parse_int64_itoa) (simp_all add: scryptN_def)
  have parse: "parseHash h = Some (scryptN, s, key)" using sp n by (simp add: parseHash_def hex_decode_encode)
  have "ComparePassword kdf other h = Some True \<longleftrightarrow> kdf other s scryptN = Some key" for other
    using pre parse by (auto simp: ComparePassword_def split: option.split)
  moreover have "\<not> NeedsRehash h" using pre sp n by (simp add: NeedsRehash_def)
  moreover have "parseHash stored = None \<Longrightarrow> ComparePassword kdf password stored \<noteq> Some True" for stored
    by (simp add: ComparePassword_def)
  ultimately show ?thesis using s by simp
qed

theorem password_check_exact_witness:
  "ComparePassword (\<lambda>p s n. Some (p @ s)) ''pw''
     (''scrypt$'' @ itoa scryptN @ ''$'' @ hex_encode ''salt'' @ ''$'' @ hex_encode ''pwsalt'') = Some True"
proof -
  have "HashPassword (\<lambda>p s n. Some (p @ s)) (Some ''salt'') ''pw''
      = Some (''scrypt$'' @ itoa scryptN @ ''$'' @ hex_encode ''salt'' @ ''$'' @ hex_encode ''pwsalt'')"
    by (simp add: HashPassword_def)
  from password_check_exact [OF this] show ?thesis by blast
qed

end
