(* ===== verification/ImapFetch.thy ===== *)
theory ImapFetch
  imports ImapText BodyStructure BlobStore MailPassword
begin

text \<open>
  What a FETCH answers for one message (\<open>internal/mail/imap/raw.go\<close> and the second half of \<open>commands.go\<close>): from
  the verbatim bytes in the blob store when they are there, otherwise from the columns of the row.
\<close>

text \<open>
  The parameters of the server: the case tables and the title casing of \<open>golang.org/x/text\<close>, the key
  derivation, SHA-256, the MIME and JSON readers, the formatting of dates, \<open>message.Parse\<close> with \<open>Apply\<close>, the
  configured limit, and the directory of the blob store, if there is one.
\<close>

record imap_env =
  ev_upper :: "string \<Rightarrow> string"
  ev_lower :: "string \<Rightarrow> string"
  ev_title :: "string \<Rightarrow> string"
  ev_kdf :: kdf
  ev_sha :: "string \<Rightarrow> string"
  ev_blobs :: "string option"
  ev_mime :: mime_lib
  ev_struct :: struct_lib
  ev_headerLines :: "string \<Rightarrow> (string \<times> string) list option"
  ev_addressList :: "string \<Rightarrow> (string \<times> string) list option"
  ev_internalDate :: "string \<Rightarrow> string"
  ev_envelopeDate :: "string \<Rightarrow> string"
  ev_columns :: "string \<Rightarrow> other_columns"
  ev_maxMessage :: int

definition upper :: "imap_env \<Rightarrow> string \<Rightarrow> string" where
  "upper E = go_case upper_char (ev_upper E)"

definition lower :: "imap_env \<Rightarrow> string \<Rightarrow> string" where
  "lower E = go_case lower_char (ev_lower E)"

section \<open>The raw view of a message\<close>

record raw_view =
  rv_ref :: string
  rv_checked :: bool
  rv_present :: bool
  rv_size :: int
  rv_bytesRead :: bool
  rv_raw :: "string option"

type_synonym view_state = "raw_view \<times> disk"

definition newRawView :: "msg_row \<Rightarrow> raw_view" where
  "newRawView m =
     \<lparr>rv_ref = (case mr_rawRef m of None \<Rightarrow> [] | Some r \<Rightarrow> trim_space r), rv_checked = False, rv_present = False,
      rv_size = 0, rv_bytesRead = False, rv_raw = None\<rparr>"

definition rv_available :: "imap_env \<Rightarrow> view_state \<Rightarrow> bool \<times> view_state" where
  "rv_available E v =
     (case v of
        (rv, d) \<Rightarrow>
          if rv_checked rv then (rv_present rv, (rv, d))
          else
            (case ev_blobs E of
               None \<Rightarrow> (False, (rv\<lparr>rv_checked := True\<rparr>, d))
             | Some base \<Rightarrow>
                 if rv_ref rv = [] then (False, (rv\<lparr>rv_checked := True\<rparr>, d))
                 else (case blob_size base (rv_ref rv) d of
                         (d1, None) \<Rightarrow> (False, (rv\<lparr>rv_checked := True\<rparr>, d1))
                       | (d1, Some n) \<Rightarrow> (True, (rv\<lparr>rv_checked := True, rv_size := n, rv_present := True\<rparr>, d1)))))"

definition octets :: "imap_env \<Rightarrow> view_state \<Rightarrow> int \<times> view_state" where
  "octets E v = (case rv_available E v of (ok, v1) \<Rightarrow> (if ok then rv_size (fst v1) else 0, v1))"

definition bytesAll :: "imap_env \<Rightarrow> view_state \<Rightarrow> string option \<times> view_state" where
  "bytesAll E v =
     (case rv_available E v of
        (False, v1) \<Rightarrow> (None, v1)
      | (True, (rv, d)) \<Rightarrow>
          if rv_bytesRead rv then (rv_raw rv, (rv, d))
          else
            (case blob_get (case ev_blobs E of None \<Rightarrow> [] | Some base \<Rightarrow> base) (rv_ref rv) d of
               (d1, None) \<Rightarrow> (None, (rv\<lparr>rv_bytesRead := True, rv_present := False\<rparr>, d1))
             | (d1, Some s) \<Rightarrow> (Some s, (rv\<lparr>rv_bytesRead := True, rv_raw := Some s\<rparr>, d1))))"

definition parts :: "imap_env \<Rightarrow> view_state \<Rightarrow> part option \<times> view_state" where
  "parts E v = (case bytesAll E v of (raw, v1) \<Rightarrow> (map_option (parse_message (ev_mime E)) raw, v1))"

definition section_of :: "imap_env \<Rightarrow> string \<Rightarrow> part \<Rightarrow> string \<Rightarrow> string option" where
  "section_of E raw tree spec =
     (case resolve tree spec of
        None \<Rightarrow> None
      | Some (p, kind) \<Rightarrow>
          (case part_range p kind of
             (start, stop) \<Rightarrow>
               if length raw < stop \<or> stop < start then None
               else
                 let up = upper E spec
                 in if contains_str up ''HEADER.FIELDS''
                    then Some (filterRawHeaders (lower E) (slice raw start stop) (parseFieldList (lower E) spec)
                           (contains_str up ''HEADER.FIELDS.NOT''))
                    else Some (slice raw start stop)))"

definition view_section :: "imap_env \<Rightarrow> string \<Rightarrow> view_state \<Rightarrow> string option \<times> view_state" where
  "view_section E spec v =
     (case bytesAll E v of
        (None, v1) \<Rightarrow> (None, v1)
      | (Some raw, v1) \<Rightarrow> (section_of E raw (parse_message (ev_mime E) raw) spec, v1))"

section \<open>Content made from the columns\<close>

definition col :: "msg_row \<Rightarrow> string \<Rightarrow> string" where
  "col m k = (case mr_cols m k of None \<Rightarrow> [] | Some s \<Rightarrow> s)"

definition hasHTML :: "msg_row \<Rightarrow> bool" where
  "hasHTML m \<longleftrightarrow> mr_cols m ''html'' \<noteq> None \<and> col m ''html'' \<noteq> [] \<and> col m ''html'' \<noteq> ''0''"

definition hasText :: "msg_row \<Rightarrow> bool" where
  "hasText m \<longleftrightarrow> mr_cols m ''text'' \<noteq> None \<and> col m ''text'' \<noteq> [] \<and> col m ''text'' \<noteq> ''0''"

abbreviation crlf :: string where "crlf \<equiv> [cr, nl]"

definition boundary_of :: "msg_row \<Rightarrow> string" where
  "boundary_of m = ''----=_ODAC_'' @ itoa (mr_uid m)"

text \<open>\<open>strings.Split(s, "\r\n")\<close>.\<close>

fun split_crlf :: "string \<Rightarrow> string list" where
  "split_crlf [] = [[]]"
| "split_crlf [c] = [[c]]"
| "split_crlf (c # d # cs) =
     (if c = cr \<and> d = nl then [] # split_crlf cs
      else (case split_crlf (d # cs) of [] \<Rightarrow> [[c]] | w # ws \<Rightarrow> (c # w) # ws))"

definition header_lines :: "imap_env \<Rightarrow> msg_row \<Rightarrow> (string \<times> string) list" where
  "header_lines E m =
     (if col m ''headerLines'' = [] then []
      else case ev_headerLines E (col m ''headerLines'') of None \<Rightarrow> [] | Some ls \<Rightarrow> ls)"

definition buildRawHeaders :: "imap_env \<Rightarrow> msg_row \<Rightarrow> string" where
  "buildRawHeaders E m = concat (map (\<lambda>(key, line). line @ crlf) (header_lines E m))"

fun header_copy :: "imap_env \<Rightarrow> bool \<Rightarrow> string list \<Rightarrow> string" where
  "header_copy E skipping [] = []"
| "header_copy E skipping (line # lines) =
     (if line = [] then header_copy E skipping lines
      else if has_prefix (lower E line) ''content-type:'' \<or> has_prefix (lower E line) ''content-transfer-encoding:''
      then header_copy E True lines
      else if skipping \<and> (hd line = CHR '' '' \<or> hd line = tab) then header_copy E skipping lines
      else line @ crlf @ header_copy E False lines)"

definition writeHeadersWithContentType :: "imap_env \<Rightarrow> string \<Rightarrow> string \<Rightarrow> string" where
  "writeHeadersWithContentType E rawHeaders contentType =
     header_copy E False (split_crlf rawHeaders) @ ''Content-Type: '' @ contentType @ crlf"

definition utf8_type :: "string \<Rightarrow> string" where
  "utf8_type t = t @ ''; charset='' @ [dquote] @ ''UTF-8'' @ [dquote]"

definition alternative_type :: "msg_row \<Rightarrow> string" where
  "alternative_type m = ''multipart/alternative; boundary='' @ [dquote] @ boundary_of m @ [dquote]"

definition part_header :: "string \<Rightarrow> string" where
  "part_header t = ''Content-Type: '' @ utf8_type t @ crlf @ ''Content-Transfer-Encoding: 8bit'' @ crlf @ crlf"

definition alternative_body :: "msg_row \<Rightarrow> string" where
  "alternative_body m =
     ''--'' @ boundary_of m @ crlf @ part_header ''text/plain'' @ col m ''text'' @ crlf
     @ ''--'' @ boundary_of m @ crlf @ part_header ''text/html'' @ col m ''html'' @ crlf @ ''--'' @ boundary_of m @ ''--'' @ crlf"

definition isRawMessage :: "imap_env \<Rightarrow> string \<Rightarrow> bool" where
  "isRawMessage E content =
     (let firstLine = trim_space (case index_byte nl content of Some k \<Rightarrow> if 0 < k then take k content else content | None \<Rightarrow> content)
      in list_ex (has_prefix (lower E firstLine))
           [''received:'', ''from:'', ''to:'', ''subject:'', ''date:'', ''mime-version:'', ''content-type:'',
            ''dkim-signature:'', ''message-id:'', ''return-path:'', ''delivered-to:''])"

definition buildFullBody :: "imap_env \<Rightarrow> msg_row \<Rightarrow> string" where
  "buildFullBody E m =
     (if hasHTML m \<and> \<not> hasText m \<and> isRawMessage E (col m ''html'') then col m ''html''
      else if hasText m \<and> \<not> hasHTML m \<and> isRawMessage E (col m ''text'') then col m ''text''
      else
        let rawHeaders = buildRawHeaders E m
        in if hasHTML m \<and> hasText m
           then writeHeadersWithContentType E rawHeaders (alternative_type m) @ crlf @ alternative_body m
           else if hasHTML m
           then writeHeadersWithContentType E rawHeaders (utf8_type ''text/html'') @ crlf @ col m ''html''
           else if hasText m
           then writeHeadersWithContentType E rawHeaders (utf8_type ''text/plain'') @ crlf @ col m ''text''
           else rawHeaders @ crlf)"

fun filtered_lines :: "imap_env \<Rightarrow> string set \<Rightarrow> bool \<Rightarrow> (string \<times> string) list \<Rightarrow> string" where
  "filtered_lines E want skipping [] = []"
| "filtered_lines E want skipping ((key, line) # ls) =
     (let k = lower E key
      in if k = ''content-type'' \<or> k = ''content-transfer-encoding'' then filtered_lines E want True ls
         else if skipping \<and> (has_prefix line '' '' \<or> has_prefix line [tab]) then filtered_lines E want skipping ls
         else (if k \<in> want then line @ crlf else []) @ filtered_lines E want False ls)"

definition buildFilteredHeaders :: "imap_env \<Rightarrow> msg_row \<Rightarrow> string list \<Rightarrow> string" where
  "buildFilteredHeaders E m wantFields =
     (if col m ''headerLines'' = [] \<or> ev_headerLines E (col m ''headerLines'') = None then []
      else
        let want = lower E ` set wantFields
        in filtered_lines E want False (header_lines E m)
           @ (if ''content-type'' \<in> want
              then ''Content-Type: '' @ (if hasHTML m \<and> hasText m then alternative_type m
                     else if hasHTML m then utf8_type ''text/html'' else utf8_type ''text/plain'') @ crlf
              else []))"

text \<open>The sections of a message without verbatim bytes.\<close>

definition made_section :: "imap_env \<Rightarrow> msg_row \<Rightarrow> string \<Rightarrow> string" where
  "made_section E m sec =
     (let s = upper E sec
      in if has_prefix s ''HEADER.FIELDS''
         then buildFilteredHeaders E m
                (case (index_byte CHR ''('' s, index_byte CHR '')'' s) of
                   (Some a, Some b) \<Rightarrow> if a < b then str_fields (take (b - (a + 1)) (drop (a + 1) s)) else []
                 | _ \<Rightarrow> []) @ crlf
         else if s = ''HEADER''
         then writeHeadersWithContentType E (buildRawHeaders E m)
                (if hasHTML m \<and> hasText m then alternative_type m
                 else if hasHTML m then utf8_type ''text/html'' else utf8_type ''text/plain'') @ crlf
         else if s = ''TEXT''
         then (if hasHTML m \<and> hasText m then alternative_body m
               else if hasHTML m then col m ''html'' else if hasText m then col m ''text'' else [])
         else if s = ''1'' then (if hasText m then col m ''text'' else if hasHTML m then col m ''html'' else [])
         else if s = ''2'' then (if hasHTML m \<and> hasText m then col m ''html'' else [])
         else if s = ''1.MIME''
         then (if hasText m then part_header ''text/plain'' else if hasHTML m then part_header ''text/html'' else [])
         else if s = ''2.MIME'' then (if hasHTML m \<and> hasText m then part_header ''text/html'' else [])
         else buildFullBody E m)"

definition writeBodySection :: "imap_env \<Rightarrow> string \<Rightarrow> msg_row \<Rightarrow> view_state \<Rightarrow> string option \<times> view_state" where
  "writeBodySection E items m v =
     (let sec = selector_section items; partial = selector_partial items
      in (case rv_available E v of
            (True, v1) \<Rightarrow>
              (case view_section E sec v1 of
                 (Some data, v2) \<Rightarrow> (writeSectionResult sec data partial, v2)
               | (None, v2) \<Rightarrow> (writeSectionResult sec [] partial, v2))
          | (False, v1) \<Rightarrow> (writeSectionResult sec (made_section E m sec) partial, v1)))"

section \<open>Envelope, structure, flags\<close>

definition quoted_text :: "string \<Rightarrow> string" where
  "quoted_text s = dquote # s @ [dquote]"

text \<open>Mailbox and host of an address, split at the first \<open>@\<close>; they are not escaped.\<close>

definition mailbox_entry :: "string \<times> string \<Rightarrow> string option" where
  "mailbox_entry e =
     (case split_n 2 CHR ''@'' (fst e) of
        [box, host] \<Rightarrow>
          Some (''('' @ quoted_text (escapeIMAPString (snd e)) @ '' NIL '' @ quoted_text box @ '' '' @ quoted_text host @ '')'')
      | _ \<Rightarrow> None)"

definition parseMailboxJSON :: "imap_env \<Rightarrow> string \<Rightarrow> string" where
  "parseMailboxJSON E js =
     (if js = [] then ''NIL''
      else
        (case ev_addressList E js of
           None \<Rightarrow>
             if contains_str js ''@''
             then (case split_n 2 CHR ''@'' js of
                     [box, host] \<Rightarrow> ''(('' @ quoted_text [] @ '' NIL '' @ quoted_text box @ '' '' @ quoted_text host @ ''))''
                   | _ \<Rightarrow> ''NIL'')
             else ''NIL''
         | Some entries \<Rightarrow>
             let addrs = List.map_filter mailbox_entry entries
             in if addrs = [] then ''NIL'' else ''('' @ concat addrs @ '')''))"

definition writeEnvelope :: "imap_env \<Rightarrow> msg_row \<Rightarrow> string" where
  "writeEnvelope E m =
     (let from = parseMailboxJSON E (col m ''from'')
      in ''ENVELOPE ('' @ quoted_text (ev_envelopeDate E (col m ''date'')) @ '' '' @ quoted_text (escapeIMAPString (col m ''subject''))
         @ '' '' @ from @ '' '' @ from @ '' '' @ from @ '' '' @ parseMailboxJSON E (col m ''to'') @ '' NIL NIL NIL ''
         @ quoted_text (escapeIMAPString (col m ''messageId'')) @ '') '')"

definition text_structure :: "string \<Rightarrow> string \<Rightarrow> string" where
  "text_structure subtype s =
     ''('' @ quoted_text ''TEXT'' @ '' '' @ quoted_text subtype @ '' ('' @ quoted_text ''CHARSET'' @ '' '' @ quoted_text ''UTF-8'' @ '') NIL NIL ''
     @ quoted_text ''8BIT'' @ '' '' @ itoa (int (length s)) @ '' '' @ itoa (countLines s) @ '' NIL NIL NIL)''"

definition made_structure :: "msg_row \<Rightarrow> string" where
  "made_structure m =
     (if hasText m \<and> hasHTML m
      then ''('' @ text_structure ''PLAIN'' (col m ''text'') @ text_structure ''HTML'' (col m ''html'') @ '' '' @ quoted_text ''ALTERNATIVE''
           @ '' ('' @ quoted_text ''BOUNDARY'' @ '' '' @ quoted_text (boundary_of m) @ '') NIL NIL)''
      else if hasHTML m then text_structure ''HTML'' (col m ''html'')
      else text_structure ''PLAIN'' (if hasText m then col m ''text'' else []))"

definition writeBodyStructure :: "imap_env \<Rightarrow> msg_row \<Rightarrow> view_state \<Rightarrow> string \<times> view_state" where
  "writeBodyStructure E m v =
     (case rv_available E v of
        (True, v1) \<Rightarrow>
          (case bytesAll E v1 of
             (Some raw, v2) \<Rightarrow> (''BODYSTRUCTURE '' @ bodyStructure (ev_struct E) raw (parse_message (ev_mime E) raw) @ '' '', v2)
           | (None, v2) \<Rightarrow> (''BODYSTRUCTURE '' @ made_structure m @ '' '', v2))
      | (False, v1) \<Rightarrow> (''BODYSTRUCTURE '' @ made_structure m @ '' '', v1))"

definition parseJSONFlags :: "imap_env \<Rightarrow> flag_col \<Rightarrow> string list" where
  "parseJSONFlags E f = map (\<lambda>x. backslash # ev_title E x) (flag_list f)"

section \<open>The items of a FETCH\<close>

text \<open>What is written before a panic has been sent: the text, and whether all went well.\<close>

fun write_selectors :: "imap_env \<Rightarrow> string list \<Rightarrow> msg_row \<Rightarrow> view_state \<Rightarrow> string \<times> bool \<times> view_state" where
  "write_selectors E [] m v = ([], True, v)"
| "write_selectors E (sel # sels) m v =
     (case writeBodySection E sel m v of
        (None, v1) \<Rightarrow> ([], False, v1)
      | (Some t, v1) \<Rightarrow> (case write_selectors E sels m v1 of (u, ok, v2) \<Rightarrow> (t @ u, ok, v2)))"

definition size_item :: "imap_env \<Rightarrow> msg_row \<Rightarrow> view_state \<Rightarrow> string \<times> view_state" where
  "size_item E m v =
     (case rv_available E v of
        (True, v1) \<Rightarrow> (case octets E v1 of (n, v2) \<Rightarrow> (''RFC822.SIZE '' @ itoa n @ '' '', v2))
      | (False, v1) \<Rightarrow> (''RFC822.SIZE '' @ itoa (int (length (buildFullBody E m))) @ '' '', v1))"

definition full_item :: "imap_env \<Rightarrow> msg_row \<Rightarrow> view_state \<Rightarrow> string \<times> view_state" where
  "full_item E m v =
     (case bytesAll E v of
        (raw, v1) \<Rightarrow> (''RFC822 '' @ literal (case raw of None \<Rightarrow> buildFullBody E m | Some s \<Rightarrow> s), v1))"

definition writeFetchItems :: "imap_env \<Rightarrow> string \<Rightarrow> msg_row \<Rightarrow> bool \<Rightarrow> view_state \<Rightarrow> string \<times> bool \<times> view_state" where
  "writeFetchItems E items m isUID v0 =
     (let up = upper E items; has = contains_str up;
          uid = (if isUID \<or> has ''UID'' then ''UID '' @ itoa (mr_uid m) @ '' '' else []);
          flags = (if has ''FLAGS'' then ''FLAGS ('' @ join_str (parseJSONFlags E (mr_flags m)) '' '' @ '') '' else []);
          date = (if has ''INTERNALDATE'' then ''INTERNALDATE '' @ quoted_text (ev_internalDate E (col m ''date'')) @ '' '' else []);
          (sz, v1) = (if has ''RFC822.SIZE'' \<or> has ''RFC822'' then size_item E m v0 else ([], v0));
          env = (if has ''ENVELOPE'' then writeEnvelope E m else []);
          (str, v2) = (if has ''BODYSTRUCTURE'' then writeBodyStructure E m v1 else ([], v1));
          (full, v3) = (if has ''RFC822'' \<and> \<not> has ''RFC822.SIZE'' \<and> \<not> has ''RFC822.HEADER'' then full_item E m v2 else ([], v2));
          before = uid @ flags @ date @ sz @ env @ str @ full
      in if has ''BODY['' \<or> has ''BODY.PEEK[''
         then (case findBodySelectors (upper E) items of
                 None \<Rightarrow> (before, False, v3)
               | Some sels \<Rightarrow> (case write_selectors E sels m v3 of (u, ok, v4) \<Rightarrow> (before @ u, ok, v4)))
         else (before, True, v3))"

end
