(* ===== verification/GoBase64.thy ===== *)
theory GoBase64
  imports Prelude
begin

text \<open>
  Package \<open>encoding/base64\<close> as the source uses it: the standard encoding, its decoder, and the one without padding.
\<close>

section \<open>Decoding\<close>

text \<open>\<open>base64.StdEncoding\<close>: line breaks are skipped, the padding must be there and end the text.\<close>

definition base64_digit :: "char \<Rightarrow> nat option" where
  "base64_digit c =
     (let n = ascii_val c
      in if 65 \<le> n \<and> n \<le> 90 then Some (n - 65) else if 97 \<le> n \<and> n \<le> 122 then Some (n - 71)
         else if 48 \<le> n \<and> n \<le> 57 then Some (n + 4) else if n = 43 then Some 62 else if n = 47 then Some 63 else None)"

fun base64_groups :: "string \<Rightarrow> string option" where
  "base64_groups [] = Some []"
| "base64_groups (a # b # c # d # cs) =
     (case (base64_digit a, base64_digit b, base64_digit c, base64_digit d) of
        (Some w, Some x, Some y, Some z) \<Rightarrow>
          map_option (\<lambda>out. char_of (w * 4 + x div 16) # char_of (x mod 16 * 16 + y div 4) # char_of (y mod 4 * 64 + z) # out)
            (base64_groups cs)
      | (Some w, Some x, Some y, None) \<Rightarrow>
          if d = CHR ''='' \<and> cs = [] then Some [char_of (w * 4 + x div 16), char_of (x mod 16 * 16 + y div 4)] else None
      | (Some w, Some x, None, None) \<Rightarrow>
          if c = CHR ''='' \<and> d = CHR ''='' \<and> cs = [] then Some [char_of (w * 4 + x div 16)] else None
      | _ \<Rightarrow> None)"
| "base64_groups _ = None"

definition base64_decode :: "string \<Rightarrow> string option" where
  "base64_decode s = base64_groups (filter (\<lambda>c. c \<noteq> cr \<and> c \<noteq> nl) s)"

text \<open>\<open>base64.RawStdEncoding\<close>: no padding, a last group of two or three.\<close>

fun base64_unpadded :: "string \<Rightarrow> string option" where
  "base64_unpadded (a # b # c # d # cs) =
     (case (base64_digit a, base64_digit b, base64_digit c, base64_digit d) of
        (Some w, Some x, Some y, Some z) \<Rightarrow>
          map_option (\<lambda>out. char_of (w * 4 + x div 16) # char_of (x mod 16 * 16 + y div 4) # char_of (y mod 4 * 64 + z) # out)
            (base64_unpadded cs)
      | _ \<Rightarrow> None)"
| "base64_unpadded [a, b, c] =
     (case (base64_digit a, base64_digit b, base64_digit c) of
        (Some w, Some x, Some y) \<Rightarrow> Some [char_of (w * 4 + x div 16), char_of (x mod 16 * 16 + y div 4)]
      | _ \<Rightarrow> None)"
| "base64_unpadded [a, b] =
     (case (base64_digit a, base64_digit b) of
        (Some w, Some x) \<Rightarrow> Some [char_of (w * 4 + x div 16)]
      | _ \<Rightarrow> None)"
| "base64_unpadded [a] = None"
| "base64_unpadded [] = Some []"

section \<open>Encoding\<close>

definition base64_char :: "nat \<Rightarrow> char" where
  "base64_char n =
     (if n < 26 then char_of (65 + n) else if n < 52 then char_of (71 + n) else if n < 62 then char_of (n - 4)
      else if n = 62 then CHR ''+'' else CHR ''/'')"

fun base64_encode :: "string \<Rightarrow> string" where
  "base64_encode [] = []"
| "base64_encode [a] = [base64_char (ascii_val a div 4), base64_char (ascii_val a mod 4 * 16), CHR ''='', CHR ''='']"
| "base64_encode [a, b] =
     [base64_char (ascii_val a div 4), base64_char (ascii_val a mod 4 * 16 + ascii_val b div 16),
      base64_char (ascii_val b mod 16 * 4), CHR ''='']"
| "base64_encode (a # b # c # cs) =
     base64_char (ascii_val a div 4) # base64_char (ascii_val a mod 4 * 16 + ascii_val b div 16)
     # base64_char (ascii_val b mod 16 * 4 + ascii_val c div 64) # base64_char (ascii_val c mod 64) # base64_encode cs"

lemma base64_digit_char: "n < 64 \<Longrightarrow> base64_digit (base64_char n) = Some n"
  by (auto simp: base64_char_def base64_digit_def ascii_val_def Let_def)

lemma base64_digit_pad [simp]: "base64_digit CHR ''='' = None"
  by (simp add: base64_digit_def ascii_val_def)

lemma ascii_val_less: "ascii_val c < 256"
  by (simp add: ascii_val_def)

lemma char_of_ascii: "char_of (ascii_val c) = c"
  by (simp add: ascii_val_def)

lemma byte_div: "a div 4 < 64" "a div 16 < 16" "a div 64 < 4" if "a < 256" for a :: nat
  using that by (simp_all add: less_mult_imp_div_less)

lemma join_div: "(x * k + y) div k = x" and join_mod: "(x * k + y) mod k = y" if "y < k" for x y k :: nat
  using that by simp_all

lemma join_less: "x * k + y < m * k" if "x < m" and "y < k" for x y k m :: nat
proof -
  have "x * k + y < x * k + k" using that by simp
  also have "\<dots> = Suc x * k" by simp
  also have "\<dots> \<le> m * k" using that by (simp only: mult_le_mono1 Suc_leI)
  finally show ?thesis .
qed

lemma base64_groups4:
  assumes "w < 64" and "x < 64" and "y < 64" and "z < 64"
  shows "base64_groups (base64_char w # base64_char x # base64_char y # base64_char z # cs)
    = map_option (\<lambda>out. char_of (w * 4 + x div 16) # char_of (x mod 16 * 16 + y div 4) # char_of (y mod 4 * 64 + z) # out)
        (base64_groups cs)"
  using assms by (simp add: base64_digit_char)

lemma base64_groups3:
  assumes "w < 64" and "x < 64" and "y < 64"
  shows "base64_groups [base64_char w, base64_char x, base64_char y, CHR ''='']
    = Some [char_of (w * 4 + x div 16), char_of (x mod 16 * 16 + y div 4)]"
  using assms by (simp add: base64_digit_char)

lemma base64_groups2:
  assumes "w < 64" and "x < 64"
  shows "base64_groups [base64_char w, base64_char x, CHR ''='', CHR ''=''] = Some [char_of (w * 4 + x div 16)]"
  using assms by (simp add: base64_digit_char)

lemma encode_less:
  "ascii_val a div 4 < 64" "ascii_val a mod 4 * 16 + ascii_val b div 16 < 64"
  "ascii_val b mod 16 * 4 + ascii_val c div 64 < 64" "ascii_val c mod 64 < 64"
  "ascii_val a mod 4 * 16 < 64" "ascii_val b mod 16 * 4 < 64"
proof -
  show "ascii_val a div 4 < 64" using ascii_val_less [of a] by simp
  show "ascii_val a mod 4 * 16 + ascii_val b div 16 < 64"
    using join_less [of "ascii_val a mod 4" 4 "ascii_val b div 16" 16] ascii_val_less [of b] by simp
  show "ascii_val b mod 16 * 4 + ascii_val c div 64 < 64"
    using join_less [of "ascii_val b mod 16" 16 "ascii_val c div 64" 4] ascii_val_less [of c] by simp
  show "ascii_val c mod 64 < 64" by simp
  show "ascii_val a mod 4 * 16 < 64" using mod_less_divisor [of 4 "ascii_val a"] by simp
  show "ascii_val b mod 16 * 4 < 64" using mod_less_divisor [of 16 "ascii_val b"] by simp
qed

lemma encode_back:
  "ascii_val a div 4 * 4 + (ascii_val a mod 4 * 16 + ascii_val b div 16) div 16 = ascii_val a"
  "(ascii_val a mod 4 * 16 + ascii_val b div 16) mod 16 * 16 + (ascii_val b mod 16 * 4 + ascii_val c div 64) div 4 = ascii_val b"
  "(ascii_val b mod 16 * 4 + ascii_val c div 64) mod 4 * 64 + ascii_val c mod 64 = ascii_val c"
  "ascii_val a div 4 * 4 + ascii_val a mod 4 * 16 div 16 = ascii_val a"
  "(ascii_val a mod 4 * 16 + ascii_val b div 16) mod 16 * 16 + ascii_val b mod 16 * 4 div 4 = ascii_val b"
  using byte_div [OF ascii_val_less [of b]] byte_div [OF ascii_val_less [of c]]
  by (simp_all only: join_div join_mod div_mult_mod_eq) simp_all

lemma base64_groups_encode: "base64_groups (base64_encode s) = Some s"
proof (induction s rule: base64_encode.induct)
  case (2 a)
  show ?case
    by (simp only: base64_encode.simps base64_groups2 [OF encode_less(1) encode_less(5)] encode_back(4) char_of_ascii)
next
  case (3 a b)
  show ?case
    by (simp only: base64_encode.simps base64_groups3 [OF encode_less(1) encode_less(2) encode_less(6)] encode_back(1,5) char_of_ascii)
next
  case (4 a b c cs)
  show ?case
    by (simp only: base64_encode.simps base64_groups4 [OF encode_less(1-4)] 4 encode_back(1-3) char_of_ascii option.map)
qed simp

lemma base64_char_plain: "base64_char n \<noteq> cr" "base64_char n \<noteq> nl" "base64_char n \<noteq> CHR ''.''" if "n < 64"
  using base64_digit_char [OF that] by (auto simp: base64_digit_def ascii_val_def Let_def split: if_splits)

lemma base64_encode_chars: "c \<in> set (base64_encode s) \<Longrightarrow> c \<noteq> cr \<and> c \<noteq> nl \<and> c \<noteq> CHR ''.''"
proof (induction s rule: base64_encode.induct)
  case (2 a)
  then have "c \<in> {base64_char (ascii_val a div 4), base64_char (ascii_val a mod 4 * 16), CHR ''=''}" by auto
  then show ?case using base64_char_plain [OF encode_less(1)] base64_char_plain [OF encode_less(5)] by auto
next
  case (3 a b)
  then have "c \<in> {base64_char (ascii_val a div 4), base64_char (ascii_val a mod 4 * 16 + ascii_val b div 16),
      base64_char (ascii_val b mod 16 * 4), CHR ''=''}" by auto
  then show ?case
    using base64_char_plain [OF encode_less(1)] base64_char_plain [OF encode_less(2)] base64_char_plain [OF encode_less(6)] by auto
next
  case (4 a b c' cs)
  then consider "c \<in> set (base64_encode cs)" | "c \<in> {base64_char (ascii_val a div 4), base64_char (ascii_val a mod 4 * 16 + ascii_val b div 16),
      base64_char (ascii_val b mod 16 * 4 + ascii_val c' div 64), base64_char (ascii_val c' mod 64)}" by auto
  then show ?case
  proof cases
    case 1
    then show ?thesis by (rule 4(1))
  next
    case 2
    then show ?thesis
      using base64_char_plain [OF encode_less(1)] base64_char_plain [OF encode_less(2)] base64_char_plain [OF encode_less(3)]
        base64_char_plain [OF encode_less(4)] by (elim insertE emptyE) simp_all
  qed
qed simp

lemma base64_decode_encode: "base64_decode (base64_encode s) = Some s"
proof -
  have "filter (\<lambda>c. c \<noteq> cr \<and> c \<noteq> nl) (base64_encode s) = base64_encode s"
    by (rule filter_True) (auto dest: base64_encode_chars)
  then show ?thesis by (simp add: base64_decode_def base64_groups_encode)
qed

lemma base64_encode_Nil [simp]: "base64_encode s = [] \<longleftrightarrow> s = []"
  by (cases s rule: base64_encode.cases) auto

end
