(* ===== verification/ImapSession.thy ===== *)
theory ImapSession
  imports ImapFetch MailFirewall ConnLimits GoBase64
begin

text \<open>
  The IMAP sessions (\<open>internal/mail/imap/connection.go\<close>, the commands of \<open>commands.go\<close> and \<open>handleConnection\<close> of
  \<open>server.go\<close>) over the mail database, the blob store, the firewall and the connection limiter. A command takes
  the connection and the world and returns both with the text it has sent.
\<close>

section \<open>Connections\<close>

text \<open>
  The reader: what is buffered, the segments that the network will bring, and those of the TLS connection that a
  STARTTLS would negotiate, if the handshake succeeds. IDLE is a mode: its reader waits while the ticker polls.
\<close>

datatype conn_mode = Ready | Idling string | Ended | Panicked

record imap_conn =
  ic_auth :: string
  ic_tls :: bool
  ic_tlsConfig :: bool
  ic_mailbox :: string
  ic_lastExists :: int
  ic_lastUnseen :: int
  ic_ip :: string
  ic_handle :: "handle option"
  ic_buf :: string
  ic_net :: "string list"
  ic_tlsNet :: "string list option"
  ic_shut :: bool
  ic_mode :: conn_mode

text \<open>The pending rehashes are goroutines that have not run yet.\<close>

record 'b world =
  wd_db :: mail_db
  wd_disk :: disk
  wd_fw :: mail_fw
  wd_lim :: "'b limiter"
  wd_now :: int
  wd_fresh :: nat
  wd_rehash :: "(string \<times> string) list"

type_synonym 'b reply = "imap_conn \<times> 'b world \<times> string"

text \<open>\<open>ReadString('\n')\<close> and \<open>io.ReadFull\<close>.\<close>

fun read_line :: "string \<Rightarrow> string list \<Rightarrow> (string \<times> string \<times> string list) option" where
  "read_line buf [] =
     (case index_byte nl buf of Some i \<Rightarrow> Some (take (Suc i) buf, drop (Suc i) buf, []) | None \<Rightarrow> None)"
| "read_line buf (s # ss) =
     (case index_byte nl buf of Some i \<Rightarrow> Some (take (Suc i) buf, drop (Suc i) buf, s # ss) | None \<Rightarrow> read_line (buf @ s) ss)"

fun read_full :: "nat \<Rightarrow> string \<Rightarrow> string list \<Rightarrow> (string \<times> string \<times> string list) option" where
  "read_full n buf [] = (if n \<le> length buf then Some (take n buf, drop n buf, []) else None)"
| "read_full n buf (s # ss) = (if n \<le> length buf then Some (take n buf, drop n buf, s # ss) else read_full n (buf @ s) ss)"

definition conn_line :: "imap_conn \<Rightarrow> (string \<times> imap_conn) option" where
  "conn_line c = map_option (\<lambda>(line, buf, net). (line, c\<lparr>ic_buf := buf, ic_net := net\<rparr>)) (read_line (ic_buf c) (ic_net c))"

definition conn_bytes :: "nat \<Rightarrow> imap_conn \<Rightarrow> (string \<times> imap_conn) option" where
  "conn_bytes n c = map_option (\<lambda>(s, buf, net). (s, c\<lparr>ic_buf := buf, ic_net := net\<rparr>)) (read_full n (ic_buf c) (ic_net c))"

definition line_of :: "string \<Rightarrow> string" where
  "line_of s = s @ crlf"

definition tagged :: "string \<Rightarrow> string \<Rightarrow> string" where
  "tagged tag s = line_of (tag @ '' '' @ s)"

section \<open>Commands without a mailbox\<close>

definition capabilityString :: "imap_conn \<Rightarrow> string" where
  "capabilityString c =
     (if ic_tls c then ''IMAP4rev1 AUTH=PLAIN AUTH=LOGIN IDLE NAMESPACE SPECIAL-USE LIST-EXTENDED UIDPLUS ENABLE''
      else ''IMAP4rev1 STARTTLS LOGINDISABLED IDLE NAMESPACE SPECIAL-USE LIST-EXTENDED UIDPLUS ENABLE'')"

definition cmdCapability :: "string \<Rightarrow> imap_conn \<Rightarrow> string" where
  "cmdCapability tag c = line_of (''* CAPABILITY '' @ capabilityString c) @ tagged tag ''OK CAPABILITY completed''"

definition pushMailboxUpdates :: "imap_conn \<Rightarrow> 'b world \<Rightarrow> 'b reply" where
  "pushMailboxUpdates c w =
     (if ic_mailbox c = [] then (c, w, [])
      else
        (case MailboxSelect (ic_auth c) (ic_mailbox c) (wd_db w) of
           (db1, None) \<Rightarrow> (c, w\<lparr>wd_db := db1\<rparr>, [])
         | (db1, Some st) \<Rightarrow>
             (c\<lparr>ic_lastExists := ms_exists st, ic_lastUnseen := ms_unseen st\<rparr>, w\<lparr>wd_db := db1\<rparr>,
              (if ms_exists st \<noteq> ic_lastExists c then line_of (''* '' @ itoa (ms_exists st) @ '' EXISTS'') else [])
              @ (if ms_unseen st \<noteq> ic_lastUnseen c then line_of (''* '' @ itoa (ms_unseen st) @ '' RECENT'') else []))))"

definition cmdStartTLS :: "string \<Rightarrow> imap_conn \<Rightarrow> imap_conn \<times> string" where
  "cmdStartTLS tag c =
     (if ic_tls c then (c, tagged tag ''NO TLS already active'')
      else if \<not> ic_tlsConfig c then (c, tagged tag ''NO STARTTLS not configured'')
      else if ic_buf c \<noteq> [] then (c\<lparr>ic_mode := Ended\<rparr>, tagged tag ''BAD Unexpected pipelined data before TLS handshake'')
      else
        (case ic_tlsNet c of
           None \<Rightarrow> (c\<lparr>ic_mode := Ended\<rparr>, tagged tag ''OK Begin TLS negotiation now'')
         | Some net \<Rightarrow>
             (c\<lparr>ic_buf := [], ic_net := net, ic_tls := True, ic_auth := [], ic_mailbox := []\<rparr>,
              tagged tag ''OK Begin TLS negotiation now'')))"

definition cmdLogout :: "string \<Rightarrow> string" where
  "cmdLogout tag = line_of ''* BYE IMAP4rev1 Server logging out'' @ tagged tag ''OK LOGOUT completed''"

definition auth_failed :: "string \<Rightarrow> imap_conn \<Rightarrow> 'b world \<Rightarrow> 'b reply" where
  "auth_failed tag c w =
     (c, w\<lparr>wd_fw := handleFailedAuth (wd_now w) (ic_ip c) (wd_fw w)\<rparr>, tagged tag ''NO Authentication failed'')"

text \<open>Over the limit the connection is closed: the network brings nothing more, but what is buffered is still read.\<close>

definition authenticateUser :: "imap_env \<Rightarrow> string \<Rightarrow> string \<Rightarrow> string \<Rightarrow> imap_conn \<Rightarrow> 'b world \<Rightarrow> 'b reply" where
  "authenticateUser E tag username password c w =
     (if username = [] \<or> hasControlChars username then auth_failed tag c w
      else
        (case AccountExists username (wd_db w) of
           (db1, None) \<Rightarrow> auth_failed tag c (w\<lparr>wd_db := db1\<rparr>)
         | (db1, Some None) \<Rightarrow> auth_failed tag c (w\<lparr>wd_db := db1\<rparr>)
         | (db1, Some (Some account)) \<Rightarrow>
             if ComparePassword (ev_kdf E) password (ac_password account) \<noteq> Some True then auth_failed tag c (w\<lparr>wd_db := db1\<rparr>)
             else
               (case bindUser (ic_handle c) username (wd_lim w) of
                  (l, h, r) \<Rightarrow>
                    if r \<noteq> ReasonOK
                    then (c\<lparr>ic_handle := h, ic_net := [], ic_shut := True\<rparr>, w\<lparr>wd_db := db1, wd_lim := l\<rparr>,
                          line_of ''* BYE [LIMIT] Too many connections for user'' @ tagged tag ''NO [LIMIT] Too many connections for user'')
                    else
                      (c\<lparr>ic_handle := h, ic_auth := username\<rparr>,
                       w\<lparr>wd_db := db1, wd_lim := l, wd_fw := clearAttempts (ic_ip c) (wd_fw w),
                         wd_rehash := (if NeedsRehash (ac_password account) then wd_rehash w @ [(username, password)] else wd_rehash w)\<rparr>,
                       tagged tag ''OK Authentication successful''))))"

definition cmdLogin :: "imap_env \<Rightarrow> string \<Rightarrow> string \<Rightarrow> imap_conn \<Rightarrow> 'b world \<Rightarrow> 'b reply" where
  "cmdLogin E tag args c w =
     (if \<not> ic_tls c
      then (c, w, tagged tag (''NO [PRIVACYREQUIRED] LOGIN requires TLS '' @ [CHR 0xE2, CHR 0x80, CHR 0x94] @ '' use STARTTLS or connect on port 993''))
      else
        (case splitArgs args of
           a # b # _ \<Rightarrow> authenticateUser E tag (unquote_arg a) (unquote_arg b) c w
         | _ \<Rightarrow> (c, w, tagged tag ''NO Invalid arguments'')))"

definition cmdAuthenticate :: "imap_env \<Rightarrow> string \<Rightarrow> string \<Rightarrow> imap_conn \<Rightarrow> 'b world \<Rightarrow> 'b reply" where
  "cmdAuthenticate E tag args c w =
     (if \<not> ic_tls c
      then (c, w, tagged tag (''NO [PRIVACYREQUIRED] AUTHENTICATE requires TLS '' @ [CHR 0xE2, CHR 0x80, CHR 0x94] @ '' use STARTTLS or connect on port 993''))
      else
        let mech = upper E (trim_space args)
        in if mech \<noteq> ''PLAIN'' \<and> mech \<noteq> ''LOGIN'' then (c, w, tagged tag ''NO Unsupported authentication mechanism'')
           else
             (case conn_line c of
                None \<Rightarrow> (c\<lparr>ic_buf := [], ic_net := []\<rparr>, w, line_of ''+ '' @ tagged tag ''NO Authentication timeout'')
              | Some (raw, c1) \<Rightarrow>
                  let line = trim_right raw crlf
                  in if line = ''*'' then (c1, w, line_of ''+ '' @ tagged tag ''BAD Authentication cancelled'')
                     else
                       (case base64_decode line of
                          None \<Rightarrow> (c1, w, line_of ''+ '' @ tagged tag ''NO Authentication data invalid'')
                        | Some decoded \<Rightarrow>
                            (case split_n 3 (CHR 0x00) decoded of
                               [_, user, pass] \<Rightarrow>
                                 if user = [] \<or> pass = [] then (c1, w, line_of ''+ '' @ tagged tag ''NO Authentication failed'')
                                 else (case authenticateUser E tag user pass c1 w of (c2, w2, out) \<Rightarrow> (c2, w2, line_of ''+ '' @ out))
                             | _ \<Rightarrow> (c1, w, line_of ''+ '' @ tagged tag ''NO Authentication failed'')))))"

section \<open>Guards\<close>

definition need_auth :: "string \<Rightarrow> imap_conn \<Rightarrow> 'b world \<Rightarrow> 'b reply \<Rightarrow> 'b reply" where
  "need_auth tag c w body = (if ic_auth c = [] then (c, w, tagged tag ''NO Authentication required'') else body)"

definition need_mailbox :: "string \<Rightarrow> imap_conn \<Rightarrow> 'b world \<Rightarrow> 'b reply \<Rightarrow> 'b reply" where
  "need_mailbox tag c w body =
     need_auth tag c w (if ic_mailbox c = [] then (c, w, tagged tag ''NO Mailbox required'') else body)"

definition need_name :: "string \<Rightarrow> string \<Rightarrow> imap_conn \<Rightarrow> 'b world \<Rightarrow> 'b reply \<Rightarrow> 'b reply" where
  "need_name tag name c w body = (if \<not> validMailboxName name then (c, w, tagged tag ''NO Invalid mailbox name'') else body)"

section \<open>Mailboxes\<close>

definition flagsList :: "string list" where
  "flagsList = map ((#) backslash) [''Answered'', ''Flagged'', ''Deleted'', ''Seen'', ''Draft'']"

definition permanentFlags :: "string list" where
  "permanentFlags = flagsList @ [[backslash, CHR ''*'']]"

definition select_lines :: "mailbox_stats \<Rightarrow> string" where
  "select_lines st =
     line_of (''* FLAGS ('' @ join_str flagsList '' '' @ '')'')
     @ line_of (''* OK [PERMANENTFLAGS ('' @ join_str permanentFlags '' '' @ '')] Flags permitted'')
     @ line_of (''* '' @ itoa (ms_exists st) @ '' EXISTS'')
     @ line_of (''* '' @ itoa (ms_unseen st) @ '' RECENT'')
     @ (if 0 < ms_unseen st
        then line_of (''* OK [UNSEEN '' @ itoa (ms_unseen st) @ ''] Message '' @ itoa (ms_unseen st) @ '' is first unseen'') else [])
     @ line_of (''* OK [UIDVALIDITY '' @ itoa (ms_uidValidity st) @ ''] UIDs valid'')
     @ line_of (''* OK [UIDNEXT '' @ itoa (ms_uidNext st) @ ''] Predicted next UID'')"

definition select_box :: "string \<Rightarrow> string \<Rightarrow> string \<Rightarrow> string \<Rightarrow> imap_conn \<Rightarrow> 'b world \<Rightarrow> 'b reply" where
  "select_box verb access tag args c w =
     need_auth tag c w
       (let box = unquote_arg (trim_space args)
        in need_name tag box c w
             (let c1 = c\<lparr>ic_mailbox := box\<rparr>
              in (case MailboxSelect (ic_auth c) box (wd_db w) of
                    (db1, None) \<Rightarrow> (c1, w\<lparr>wd_db := db1\<rparr>, tagged tag (''NO '' @ verb @ '' failed''))
                  | (db1, Some st) \<Rightarrow>
                      (c1\<lparr>ic_lastExists := ms_exists st, ic_lastUnseen := ms_unseen st\<rparr>, w\<lparr>wd_db := db1\<rparr>,
                       select_lines st @ tagged tag (''OK ['' @ access @ ''] '' @ verb @ '' completed'')))))"

definition cmdSelect :: "string \<Rightarrow> string \<Rightarrow> imap_conn \<Rightarrow> 'b world \<Rightarrow> 'b reply" where
  "cmdSelect = select_box ''SELECT'' ''READ-WRITE''"

definition cmdExamine :: "string \<Rightarrow> string \<Rightarrow> imap_conn \<Rightarrow> 'b world \<Rightarrow> 'b reply" where
  "cmdExamine = select_box ''EXAMINE'' ''READ-ONLY''"

text \<open>The selection options in front of a LIST: whether SPECIAL-USE is among them, and the rest.\<close>

definition list_options :: "imap_env \<Rightarrow> string \<Rightarrow> bool \<times> string" where
  "list_options E args =
     (let rest = trim_left args '' ''
      in if has_prefix rest ''(''
         then (case index_byte CHR '')'' rest of
                 Some e \<Rightarrow>
                   if 0 < e then (contains_str (upper E (take (e - 1) (drop 1 rest))) ''SPECIAL-USE'', trim_left (drop (e + 1) rest) '' '')
                   else (False, rest)
               | None \<Rightarrow> (False, rest))
         else (False, rest))"

definition special_use :: "string \<Rightarrow> bool" where
  "special_use flags \<longleftrightarrow>
     list_ex (\<lambda>f. contains_str flags (backslash # f)) [''Sent'', ''Drafts'', ''Trash'', ''Junk'', ''Archive'', ''All'', ''Flagged'']"

definition list_line :: "imap_env \<Rightarrow> string \<Rightarrow> string \<Rightarrow> string" where
  "list_line E verb box =
     line_of (''* '' @ verb @ '' ('' @ mailboxFlags (lower E) box @ '') '' @ quoted_text ''/'' @ '' '' @ quoteString box)"

definition cmdList :: "imap_env \<Rightarrow> string \<Rightarrow> string \<Rightarrow> imap_conn \<Rightarrow> 'b world \<Rightarrow> 'b reply" where
  "cmdList E tag args c w =
     need_auth tag c w
       (case list_options E args of
          (specialUseOnly, rest) \<Rightarrow>
            let listArgs = splitArgs rest
            in if 2 \<le> length listArgs \<and> unquote_arg (listArgs ! 1) = [] \<and> \<not> specialUseOnly
               then (c, w, line_of (''* LIST ('' @ backslash # ''Noselect) '' @ quoted_text ''/'' @ '' '' @ quoted_text []) @ tagged tag ''OK LIST completed'')
               else
                 (case MailboxList (ic_auth c) (wd_db w) of
                    (db1, None) \<Rightarrow> (c, w\<lparr>wd_db := db1\<rparr>, tagged tag ''NO LIST failed'')
                  | (db1, Some boxes) \<Rightarrow>
                      (c, w\<lparr>wd_db := db1\<rparr>,
                       concat (map (list_line E ''LIST'') (filter (\<lambda>b. \<not> (specialUseOnly \<and> \<not> special_use (mailboxFlags (lower E) b))) boxes))
                       @ tagged tag ''OK LIST completed'')))"

definition cmdLsub :: "imap_env \<Rightarrow> string \<Rightarrow> imap_conn \<Rightarrow> 'b world \<Rightarrow> 'b reply" where
  "cmdLsub E tag c w =
     need_auth tag c w
       (case MailboxList (ic_auth c) (wd_db w) of
          (db1, None) \<Rightarrow> (c, w\<lparr>wd_db := db1\<rparr>, tagged tag ''NO LSUB failed'')
        | (db1, Some boxes) \<Rightarrow> (c, w\<lparr>wd_db := db1\<rparr>, concat (map (list_line E ''LSUB'') boxes) @ tagged tag ''OK LSUB completed''))"

definition status_items :: "string \<Rightarrow> mailbox_stats \<Rightarrow> string list" where
  "status_items wanted st =
     map (\<lambda>(k, n). k @ '' '' @ itoa n)
       (filter (\<lambda>(k, n). contains_str wanted k)
          [(''MESSAGES'', ms_exists st), (''RECENT'', ms_unseen st), (''UIDNEXT'', ms_uidNext st),
           (''UIDVALIDITY'', ms_uidValidity st), (''UNSEEN'', ms_unseen st)])"

definition cmdStatus :: "imap_env \<Rightarrow> string \<Rightarrow> string \<Rightarrow> imap_conn \<Rightarrow> 'b world \<Rightarrow> 'b reply" where
  "cmdStatus E tag args c w =
     need_auth tag c w
       (let ps = split_n 2 CHR '' '' args; mailbox = unquote_arg (hd ps)
        in need_name tag mailbox c w
             (case MailboxSelect (ic_auth c) mailbox (wd_db w) of
                (db1, None) \<Rightarrow> (c, w\<lparr>wd_db := db1\<rparr>, tagged tag ''NO STATUS failed'')
              | (db1, Some st) \<Rightarrow>
                  (c, w\<lparr>wd_db := db1\<rparr>,
                   line_of (''* STATUS '' @ quoteString mailbox @ '' (''
                     @ join_str (status_items (if 1 < length ps then upper E (ps ! 1) else ''MESSAGES RECENT UIDNEXT UIDVALIDITY UNSEEN'') st) '' '' @ '')'')
                   @ tagged tag ''OK STATUS completed'')))"

definition done_or_failed :: "string \<Rightarrow> string \<Rightarrow> imap_conn \<Rightarrow> 'b world \<Rightarrow> mail_db \<times> bool \<Rightarrow> 'b reply" where
  "done_or_failed tag verb c w r =
     (case r of (db1, ok) \<Rightarrow> (c, w\<lparr>wd_db := db1\<rparr>, tagged tag (if ok then ''OK '' @ verb @ '' completed'' else ''NO '' @ verb @ '' failed'')))"

definition cmdCreate :: "string \<Rightarrow> string \<Rightarrow> imap_conn \<Rightarrow> 'b world \<Rightarrow> 'b reply" where
  "cmdCreate tag args c w =
     need_auth tag c w
       (let mailbox = unquote_arg (trim_space args)
        in need_name tag mailbox c w (done_or_failed tag ''CREATE'' c w (MailboxCreate (ic_auth c) mailbox (wd_db w))))"

definition cmdDelete :: "string \<Rightarrow> string \<Rightarrow> imap_conn \<Rightarrow> 'b world \<Rightarrow> 'b reply" where
  "cmdDelete tag args c w =
     need_auth tag c w
       (let mailbox = unquote_arg (trim_space args)
        in need_name tag mailbox c w (done_or_failed tag ''DELETE'' c w (MailboxDelete (ic_auth c) mailbox (wd_db w))))"

definition cmdRename :: "string \<Rightarrow> string \<Rightarrow> imap_conn \<Rightarrow> 'b world \<Rightarrow> 'b reply" where
  "cmdRename tag args c w =
     need_auth tag c w
       (case splitArgs args of
          a # b # _ \<Rightarrow>
            need_name tag (unquote_arg a) c w
              (need_name tag (unquote_arg b) c w
                 (done_or_failed tag ''RENAME'' c w (MailboxRename (ic_auth c) (unquote_arg a) (unquote_arg b) (wd_db w))))
        | _ \<Rightarrow> (c, w, tagged tag ''NO Invalid arguments''))"

section \<open>Messages\<close>

text \<open>The position of a UID: the map keeps the last one, and 0 for a UID that is not there.\<close>

definition seq_of :: "int list \<Rightarrow> int \<Rightarrow> int" where
  "seq_of uids uid = int (length uids - length (takeWhile (\<lambda>u. u \<noteq> uid) (rev uids)))"

fun fetch_loop :: "imap_env \<Rightarrow> string \<Rightarrow> bool \<Rightarrow> int list \<Rightarrow> imap_conn \<Rightarrow> int list \<Rightarrow> 'b world \<Rightarrow> 'b world \<times> string \<times> bool" where
  "fetch_loop E items isUID allUIDs c [] w = (w, [], True)"
| "fetch_loop E items isUID allUIDs c (uid # uids) w =
     (case MessageFetch (ic_auth c) (ic_mailbox c) uid uid (wd_db w) of
        (db1, r) \<Rightarrow>
          (case r of
             Some (m # ms) \<Rightarrow>
               (case writeFetchItems E items m isUID (newRawView m, wd_disk w) of
                  (t, ok, v) \<Rightarrow>
                    let w1 = w\<lparr>wd_db := db1, wd_disk := snd v\<rparr>;
                        out = ''* '' @ itoa (seq_of allUIDs uid) @ '' FETCH ('' @ t
                    in if \<not> ok then (w1, out, False)
                       else (case fetch_loop E items isUID allUIDs c uids w1 of
                               (w2, rest, ok2) \<Rightarrow> (w2, out @ line_of '')'' @ rest, ok2)))
           | _ \<Rightarrow> fetch_loop E items isUID allUIDs c uids (w\<lparr>wd_db := db1\<rparr>)))"

definition cmdFetch :: "imap_env \<Rightarrow> string \<Rightarrow> string \<Rightarrow> bool \<Rightarrow> imap_conn \<Rightarrow> 'b world \<Rightarrow> 'b reply" where
  "cmdFetch E tag args isUID c w =
     need_mailbox tag c w
       (case split_n 2 CHR '' '' args of
          [seqSet, items] \<Rightarrow>
            (case MessageUIDs (ic_auth c) (ic_mailbox c) (wd_db w) of
               (db1, None) \<Rightarrow> (c, w\<lparr>wd_db := db1\<rparr>, tagged tag ''NO FETCH failed'')
             | (db1, Some allUIDs) \<Rightarrow>
                 (case fetch_loop E items isUID allUIDs c (seqSetToUIDs seqSet allUIDs isUID) (w\<lparr>wd_db := db1\<rparr>) of
                    (w1, out, True) \<Rightarrow> (c, w1, out @ tagged tag ''OK FETCH completed'')
                  | (w1, out, False) \<Rightarrow> (c\<lparr>ic_mode := Panicked\<rparr>, w1, out)))
        | _ \<Rightarrow> (c, w, tagged tag ''NO Invalid FETCH arguments''))"

definition store_action :: "string \<Rightarrow> flag_action option" where
  "store_action item =
     (if has_prefix item ''+FLAGS'' then Some Add_flags
      else if has_prefix item ''-FLAGS'' then Some Remove_flags
      else if has_prefix item ''FLAGS'' then Some Set_flags else None)"

definition cmdStore :: "imap_env \<Rightarrow> string \<Rightarrow> string \<Rightarrow> bool \<Rightarrow> imap_conn \<Rightarrow> 'b world \<Rightarrow> 'b reply" where
  "cmdStore E tag args isUID c w =
     need_mailbox tag c w
       (case split_n 3 CHR '' '' args of
          [seqSet, item, flagStr] \<Rightarrow>
            (case store_action (upper E item) of
               None \<Rightarrow> (c, w, tagged tag ''NO Unknown STORE data item'')
             | Some action \<Rightarrow>
                 let flags = CanonicalFlags (str_fields (trim_both flagStr ''()''))
                 in (case MessageUIDs (ic_auth c) (ic_mailbox c) (wd_db w) of
                       (db1, None) \<Rightarrow> (c, w\<lparr>wd_db := db1\<rparr>, tagged tag ''NO STORE failed'')
                     | (db1, Some allUIDs) \<Rightarrow>
                         done_or_failed tag ''STORE'' c w
                           (MessageStoreFlags (ic_auth c) (seqSetToUIDs seqSet allUIDs isUID) action flags db1)))
        | _ \<Rightarrow> (c, w, tagged tag ''NO Invalid STORE arguments''))"

definition cmdExpunge :: "string \<Rightarrow> imap_conn \<Rightarrow> 'b world \<Rightarrow> 'b reply" where
  "cmdExpunge tag c w =
     need_mailbox tag c w
       (case MessageExpunge (ic_auth c) (ic_mailbox c) (wd_db w) of
          (db1, None) \<Rightarrow> (c, w\<lparr>wd_db := db1\<rparr>, tagged tag ''NO EXPUNGE failed'')
        | (db1, Some uids) \<Rightarrow>
            (c, w\<lparr>wd_db := db1\<rparr>, concat (map (\<lambda>u. line_of (''* '' @ itoa u @ '' EXPUNGE'')) uids) @ tagged tag ''OK EXPUNGE completed''))"

definition cmdClose :: "string \<Rightarrow> imap_conn \<Rightarrow> 'b world \<Rightarrow> 'b reply" where
  "cmdClose tag c w =
     need_mailbox tag c w
       (c\<lparr>ic_mailbox := []\<rparr>, w\<lparr>wd_db := fst (MessageExpunge (ic_auth c) (ic_mailbox c) (wd_db w))\<rparr>, tagged tag ''OK CLOSE completed'')"

text \<open>
  \<open>strings.Contains\<close> on the text of the flags column. The encoder leaves letters as they are and puts other bytes
  between flags and for escapes, so a word of letters is in the text if and only if it is in a flag.
\<close>

definition flags_mention :: "string \<Rightarrow> flag_col \<Rightarrow> bool" where
  "flags_mention word f =
     (case f of Null_flags \<Rightarrow> False | Bad_flags s \<Rightarrow> contains_str s word | Flags fs \<Rightarrow> list_ex (\<lambda>x. contains_str x word) fs)"

definition search_match :: "string \<Rightarrow> flag_col \<Rightarrow> bool" where
  "search_match criteria f \<longleftrightarrow>
     \<not> (contains_str criteria ''UNSEEN'' \<and> flags_mention ''seen'' f)
     \<and> \<not> (contains_str criteria ''SEEN'' \<and> \<not> contains_str criteria ''UNSEEN'' \<and> \<not> flags_mention ''seen'' f)
     \<and> \<not> (contains_str criteria ''DELETED'' \<and> \<not> flags_mention ''deleted'' f)"

definition cmdSearch :: "imap_env \<Rightarrow> string \<Rightarrow> string \<Rightarrow> imap_conn \<Rightarrow> 'b world \<Rightarrow> 'b reply" where
  "cmdSearch E tag args c w =
     need_mailbox tag c w
       (case MessageFlags (ic_auth c) (ic_mailbox c) (wd_db w) of
          (db1, None) \<Rightarrow> (c, w\<lparr>wd_db := db1\<rparr>, tagged tag ''NO SEARCH failed'')
        | (db1, Some ms) \<Rightarrow>
            (c, w\<lparr>wd_db := db1\<rparr>,
             line_of (''* SEARCH '' @ join_str (map (\<lambda>(uid, f). itoa uid) (filter (\<lambda>(uid, f). search_match (upper E args) f) ms)) '' '')
             @ tagged tag ''OK SEARCH completed''))"

definition cmdIdle :: "string \<Rightarrow> imap_conn \<Rightarrow> 'b world \<Rightarrow> 'b reply" where
  "cmdIdle tag c w = need_mailbox tag c w (c\<lparr>ic_mode := Idling tag\<rparr>, w, line_of ''+ idling'')"

definition copy_range :: "string \<Rightarrow> int \<times> int" where
  "copy_range seqSet =
     (if contains_str seqSet '':''
      then (let ps = split_n 2 CHR '':'' seqSet;
                hi = (if ps ! 1 \<noteq> ''*'' then parse_int64_lax (ps ! 1) else 0)
            in (parse_int64_lax (ps ! 0), if hi = 0 then max_int64 else hi))
      else (let uid = parse_int64_lax seqSet in (uid, if uid = 0 then max_int64 else uid)))"

fun copy_loop :: "string \<Rightarrow> string \<Rightarrow> string \<Rightarrow> int list \<Rightarrow> mail_db \<Rightarrow> mail_db \<times> bool" where
  "copy_loop email source target [] db = (db, True)"
| "copy_loop email source target (uid # uids) db =
     (case MessageCopy email uid uid source target db of
        (db1, False) \<Rightarrow> (db1, False)
      | (db1, True) \<Rightarrow> copy_loop email source target uids db1)"

definition cmdCopy :: "imap_env \<Rightarrow> string \<Rightarrow> string \<Rightarrow> bool \<Rightarrow> imap_conn \<Rightarrow> 'b world \<Rightarrow> 'b reply" where
  "cmdCopy E tag args isUID c w =
     need_mailbox tag c w
       (case splitArgs args of
          seqSet # target0 # _ \<Rightarrow>
            let target = unquote_arg target0
            in need_name tag target c w
                 (if isUID
                  then done_or_failed tag ''COPY'' c w
                         (MessageCopy (ic_auth c) (fst (copy_range seqSet)) (snd (copy_range seqSet)) (ic_mailbox c) target (wd_db w))
                  else
                    (case MessageUIDs (ic_auth c) (ic_mailbox c) (wd_db w) of
                       (db1, None) \<Rightarrow> (c, w\<lparr>wd_db := db1\<rparr>, tagged tag ''NO COPY failed'')
                     | (db1, Some allUIDs) \<Rightarrow>
                         done_or_failed tag ''COPY'' c w
                           (copy_loop (ic_auth c) (ic_mailbox c) target (seqSetToUIDs seqSet allUIDs False) db1)))
        | _ \<Rightarrow> (c, w, tagged tag ''NO Invalid COPY arguments''))"

text \<open>The size of the literal: the last argument in braces.\<close>

definition literal_size :: "string list \<Rightarrow> int" where
  "literal_size ps =
     foldl (\<lambda>n p. if has_prefix p ''{'' \<and> has_suffix p ''}'' then parse_int64_lax (take (length p - 2) (drop 1 p)) else n) 0 ps"

text \<open>The name of the temporary file is fresh; a failed write stores no reference.\<close>

definition storeRaw :: "imap_env \<Rightarrow> string \<Rightarrow> 'b world \<Rightarrow> 'b world \<times> string option" where
  "storeRaw E raw w =
     (case ev_blobs E of
        None \<Rightarrow> (w, None)
      | Some base \<Rightarrow>
          (case blob_put (ev_sha E) base (temp_name base (itoa (int (wd_fresh w)))) raw (wd_disk w) of
             (d1, ref) \<Rightarrow> (w\<lparr>wd_disk := d1, wd_fresh := wd_fresh w + 1\<rparr>, if ref = Some [] then None else ref)))"

definition append_row :: "imap_env \<Rightarrow> string \<Rightarrow> string \<Rightarrow> flag_col \<Rightarrow> string option \<Rightarrow> string \<Rightarrow> msg_row" where
  "append_row E email mailbox flags ref raw =
     \<lparr>mr_id = 0, mr_uid = 0, mr_email = email, mr_mailbox = mailbox, mr_flags = flags, mr_rawRef = ref, mr_cols = ev_columns E raw\<rparr>"

definition cmdAppend :: "imap_env \<Rightarrow> string \<Rightarrow> string \<Rightarrow> imap_conn \<Rightarrow> 'b world \<Rightarrow> 'b reply" where
  "cmdAppend E tag args c w =
     need_auth tag c w
       (case splitArgs args of
          box0 # p # ps \<Rightarrow>
            let mailbox = unquote_arg box0
            in need_name tag mailbox c w
                 (let flags = EncodeFlags (CanonicalFlags (appendFlagGroup (p # ps)));
                      size = literal_size (p # ps)
                  in if size \<le> 0 \<or> ev_maxMessage E < size
                     then (c, w, tagged tag (''NO APPEND literal size invalid or exceeds '' @ itoa (ev_maxMessage E) @ '' bytes''))
                     else
                       (case conn_bytes (nat size) c of
                          None \<Rightarrow> (c\<lparr>ic_buf := [], ic_net := []\<rparr>, w, line_of ''+ Ready for literal data'' @ tagged tag ''NO APPEND failed'')
                        | Some (raw, c1) \<Rightarrow>
                            (case storeRaw E raw w of
                               (w1, ref) \<Rightarrow>
                                 (case MessageStore (append_row E (ic_auth c) mailbox flags ref raw) (wd_db w1) of
                                    (db1, ok) \<Rightarrow>
                                      (c1, w1\<lparr>wd_db := db1\<rparr>,
                                       line_of ''+ Ready for literal data''
                                       @ tagged tag (if ok then ''OK APPEND completed'' else ''NO APPEND failed''))))))
        | _ \<Rightarrow> (c, w, tagged tag ''NO Invalid APPEND arguments''))"

section \<open>Serving\<close>

definition maxCommandSize :: nat where "maxCommandSize = 8192"
definition maxLineSize :: nat where "maxLineSize = 65536"

definition cmdUID :: "imap_env \<Rightarrow> string \<Rightarrow> string \<Rightarrow> imap_conn \<Rightarrow> 'b world \<Rightarrow> 'b reply" where
  "cmdUID E tag args c w =
     (case split_n 2 CHR '' '' args of
        [sub, subArgs] \<Rightarrow>
          let subCmd = upper E sub
          in if subCmd = ''FETCH'' then cmdFetch E tag subArgs True c w
             else if subCmd = ''STORE'' then cmdStore E tag subArgs True c w
             else if subCmd = ''SEARCH'' then cmdSearch E tag subArgs c w
             else if subCmd = ''COPY'' then cmdCopy E tag subArgs True c w
             else (c, w, tagged tag ''BAD Unknown UID command'')
      | _ \<Rightarrow> (c, w, tagged tag ''BAD Invalid UID command''))"

text \<open>The commands that need neither the database nor the reader.\<close>

definition simple_command :: "string \<Rightarrow> string \<Rightarrow> imap_conn \<Rightarrow> (imap_conn \<times> string) option" where
  "simple_command cmd tag c =
     (if cmd = ''CAPABILITY'' then Some (c, cmdCapability tag c)
      else if cmd = ''LOGOUT'' then Some (c\<lparr>ic_mode := Ended\<rparr>, cmdLogout tag)
      else if cmd = ''NAMESPACE''
      then Some (c, line_of (''* NAMESPACE (('' @ quoted_text [] @ '' '' @ quoted_text ''/'' @ '')) NIL NIL'') @ tagged tag ''OK NAMESPACE completed'')
      else if cmd = ''ID''
      then Some (c, line_of (''* ID ('' @ quoted_text ''name'' @ '' '' @ quoted_text ''ODAC'' @ '' '' @ quoted_text ''version'' @ '' '' @ quoted_text ''1.0'' @ '')'')
             @ tagged tag ''OK ID completed'')
      else if cmd = ''ENABLE'' then Some (c, tagged tag ''OK ENABLE completed'')
      else if cmd = ''CHECK'' then Some (c, tagged tag ''OK CHECK completed'')
      else if cmd = ''UNSELECT''
      then Some (c\<lparr>ic_mailbox := [], ic_lastExists := 0, ic_lastUnseen := 0\<rparr>, tagged tag ''OK UNSELECT completed'')
      else if cmd = ''STARTTLS'' then Some (cmdStartTLS tag c)
      else None)"

definition mail_command :: "imap_env \<Rightarrow> string \<Rightarrow> string \<Rightarrow> string \<Rightarrow> imap_conn \<Rightarrow> 'b world \<Rightarrow> 'b reply" where
  "mail_command E cmd tag args c w =
     (if cmd = ''NOOP'' then (case pushMailboxUpdates c w of (c1, w1, out) \<Rightarrow> (c1, w1, out @ tagged tag ''OK NOOP completed''))
      else if cmd = ''SELECT'' then cmdSelect tag args c w
      else if cmd = ''EXAMINE'' then cmdExamine tag args c w
      else if cmd = ''LIST'' then cmdList E tag args c w
      else if cmd = ''LSUB'' then cmdLsub E tag c w
      else if cmd = ''STATUS'' then cmdStatus E tag args c w
      else if cmd = ''CREATE'' then cmdCreate tag args c w
      else if cmd = ''DELETE'' then cmdDelete tag args c w
      else if cmd = ''RENAME'' then cmdRename tag args c w
      else if cmd = ''FETCH'' then cmdFetch E tag args False c w
      else if cmd = ''STORE'' then cmdStore E tag args False c w
      else if cmd = ''COPY'' then cmdCopy E tag args False c w
      else if cmd = ''APPEND'' then cmdAppend E tag args c w
      else if cmd = ''EXPUNGE'' then cmdExpunge tag c w
      else if cmd = ''CLOSE'' then cmdClose tag c w
      else if cmd = ''SEARCH'' then cmdSearch E tag args c w
      else if cmd = ''UID'' then cmdUID E tag args c w
      else if cmd = ''IDLE'' then cmdIdle tag c w
      else (c, w, tagged tag ''BAD Unknown command''))"

definition serve_command :: "imap_env \<Rightarrow> string \<Rightarrow> string \<Rightarrow> string \<Rightarrow> imap_conn \<Rightarrow> 'b world \<Rightarrow> 'b reply" where
  "serve_command E cmd tag args c w =
     (if cmd = ''LOGIN'' then cmdLogin E tag args c w
      else if cmd = ''AUTHENTICATE'' then cmdAuthenticate E tag args c w
      else case simple_command cmd tag c of
             Some (c1, out) \<Rightarrow> (c1, w, out)
           | None \<Rightarrow> mail_command E cmd tag args c w)"

definition serve_line :: "imap_env \<Rightarrow> string \<Rightarrow> imap_conn \<Rightarrow> 'b world \<Rightarrow> 'b reply" where
  "serve_line E raw c w =
     (if maxLineSize < length raw then (c\<lparr>ic_mode := Ended\<rparr>, w, line_of ''* BAD Line too long'')
      else
        let line = trim_right raw crlf
        in if line = [] then (c, w, [])
           else if maxCommandSize < length line
           then (c, w,
                 (case index_byte CHR '' '' line of
                    Some k \<Rightarrow> if 0 < k \<and> k < 20 then tagged (take k line) ''BAD Command too long'' else line_of ''* BAD Command too long''
                  | None \<Rightarrow> line_of ''* BAD Command too long''))
           else
             (case split_n 3 CHR '' '' line of
                tag # cmd # ps \<Rightarrow> serve_command E (upper E cmd) tag (case ps of [] \<Rightarrow> [] | args # _ \<Rightarrow> args) c w
              | _ \<Rightarrow> (c, w, [])))"

text \<open>The deferred release runs when \<open>Serve\<close> returns.\<close>

definition end_conn :: "'b reply \<Rightarrow> 'b reply" where
  "end_conn r =
     (case r of
        (c, w, out) \<Rightarrow>
          if ic_mode c = Ended
          then (case release (ic_handle c) (wd_lim w) of (l, h) \<Rightarrow> (c\<lparr>ic_handle := h\<rparr>, w\<lparr>wd_lim := l\<rparr>, out))
          else r)"

datatype net_event = Input | Tick

definition idle_input :: "imap_env \<Rightarrow> string \<Rightarrow> imap_conn \<Rightarrow> 'b world \<Rightarrow> 'b reply" where
  "idle_input E tag c w =
     (case conn_line c of
        None \<Rightarrow> (c\<lparr>ic_buf := [], ic_net := [], ic_mode := Ready\<rparr>, w, [])
      | Some (raw, c1) \<Rightarrow>
          (c1\<lparr>ic_mode := Ready\<rparr>, w, if upper E (trim_space raw) = ''DONE'' then tagged tag ''OK IDLE terminated'' else []))"

definition conn_event :: "imap_env \<Rightarrow> net_event \<Rightarrow> imap_conn \<Rightarrow> 'b world \<Rightarrow> 'b reply" where
  "conn_event E ev c w =
     (case ic_mode c of
        Ready \<Rightarrow>
          (case ev of
             Tick \<Rightarrow> (c, w, [])
           | Input \<Rightarrow>
               end_conn (case conn_line c of
                           None \<Rightarrow> (c\<lparr>ic_buf := [], ic_net := [], ic_mode := Ended\<rparr>, w, [])
                         | Some (raw, c1) \<Rightarrow> serve_line E raw c1 w))
      | Idling tag \<Rightarrow> (case ev of Tick \<Rightarrow> pushMailboxUpdates c w | Input \<Rightarrow> idle_input E tag c w)
      | _ \<Rightarrow> (c, w, []))"

text \<open>What the client sees of it.\<close>

definition conn_run :: "imap_env \<Rightarrow> net_event \<Rightarrow> imap_conn \<Rightarrow> 'b world \<Rightarrow> 'b reply" where
  "conn_run E ev c w = (case conn_event E ev c w of (c1, w1, out) \<Rightarrow> (c1, w1, if ic_shut c then [] else out))"

text \<open>A connection comes in.\<close>

definition handleConnection :: "'b bucket_ops \<Rightarrow> bool \<Rightarrow> bool \<Rightarrow> string \<Rightarrow> string list \<Rightarrow> string list option \<Rightarrow> 'b world \<Rightarrow> imap_conn option \<times> 'b world \<times> string" where
  "handleConnection ops tls tlsConfig ip net tlsNet w =
     (case isBlocked (wd_now w) ip (wd_fw w) of
        (fw1, True) \<Rightarrow> (None, w\<lparr>wd_fw := fw1\<rparr>, line_of ''* BYE Your IP is blocked'')
      | (fw1, False) \<Rightarrow>
          (case acquire ops (wd_now w) ip (wd_lim w) of
             (l, h, r) \<Rightarrow>
               let w1 = w\<lparr>wd_fw := fw1, wd_lim := l\<rparr>
               in if r \<noteq> ReasonOK then (None, w1, line_of ''* BYE [LIMIT] Too many connections'')
                  else
                    let c = \<lparr>ic_auth = [], ic_tls = tls, ic_tlsConfig = tlsConfig, ic_mailbox = [], ic_lastExists = 0, ic_lastUnseen = 0,
                             ic_ip = ip, ic_handle = h, ic_buf = [], ic_net = net, ic_tlsNet = tlsNet, ic_shut = False, ic_mode = Ready\<rparr>
                    in (Some c, w1, line_of (''* OK [CAPABILITY '' @ capabilityString c @ ''] IMAP4rev1 Server Ready''))))"

section \<open>A small server\<close>

text \<open>An environment, a TLS connection with a text to read and a world, on which sessions can be evaluated.\<close>

definition demo_env :: imap_env where
  "demo_env = \<lparr>ev_upper = (\<lambda>s. s), ev_lower = (\<lambda>s. s), ev_title = (\<lambda>s. s), ev_kdf = (\<lambda>p s n. Some (p @ s)), ev_sha = demo_sha,
     ev_blobs = Some ''/b'', ev_mime = demo_lib, ev_struct = demo_struct, ev_headerLines = (\<lambda>_. None), ev_addressList = (\<lambda>_. None),
     ev_internalDate = (\<lambda>s. s), ev_envelopeDate = (\<lambda>s. s), ev_columns = (\<lambda>raw. [''text'' \<mapsto> raw]), ev_maxMessage = 100\<rparr>"

definition demo_conn :: "string \<Rightarrow> imap_conn" where
  "demo_conn input = \<lparr>ic_auth = [], ic_tls = True, ic_tlsConfig = True, ic_mailbox = [], ic_lastExists = 0, ic_lastUnseen = 0,
     ic_ip = ''10.0.0.1'', ic_handle = None, ic_buf = [], ic_net = [input], ic_tlsNet = None, ic_shut = False, ic_mode = Ready\<rparr>"

definition demo_world :: "unit world" where
  "demo_world = \<lparr>wd_db = (empty_db [])\<lparr>db_boxes := [(''a@b'', ''Sent'')], db_messages := [demo_msg\<lparr>mr_uid := 5\<rparr>]\<rparr>,
     wd_disk = healthy Map.empty, wd_fw = new_firewall, wd_lim = new_limiter IMAPProfile, wd_now = 0, wd_fresh = 0, wd_rehash = []\<rparr>"

end
