(* ===== verification/ImapAccess.thy ===== *)
theory ImapAccess
  imports ImapSession
begin

text \<open>Which mail an IMAP session can change, and how it comes to act for an account.\<close>

section \<open>What a command can change\<close>

text \<open>The database is the same but for one account's messages and mailboxes, and the faults that are left.\<close>

definition only_account :: "string \<Rightarrow> mail_db \<Rightarrow> mail_db \<Rightarrow> bool" where
  "only_account e db db' \<longleftrightarrow>
     db_accounts db' = db_accounts db
     \<and> (\<forall>f. f \<noteq> e \<longrightarrow> filter (\<lambda>m. mr_email m = f) (db_messages db') = filter (\<lambda>m. mr_email m = f) (db_messages db)
          \<and> filter (\<lambda>b. fst b = f) (db_boxes db') = filter (\<lambda>b. fst b = f) (db_boxes db))"

named_theorems confined "operations that change one account only"

lemma only_account_refl [simp]: "only_account e db db"
  by (simp add: only_account_def)

lemma only_account_trans: "only_account e a b \<Longrightarrow> only_account e b c \<Longrightarrow> only_account e a c"
  by (simp add: only_account_def)

lemma only_account_faults [simp]: "only_account e db (db\<lparr>db_faults := fs\<rparr>)"
  by (simp add: only_account_def)

lemma only_account_call: "db_call db = (ok, db1) \<Longrightarrow> only_account e db db1"
  using db_call_cases only_account_faults by metis

lemma reads_confined [confined]:
  "only_account e db (fst (MailboxSelect a b db))" "only_account e db (fst (MailboxList a db))"
  "only_account e db (fst (MessageUIDs a b db))" "only_account e db (fst (MessageFlags a b db))"
  "only_account e db (fst (MessageFetch a b lo hi db))" "only_account e db (fst (AccountExists a db))"
  by (auto simp: MailboxSelect_def MailboxList_def MessageUIDs_def MessageFlags_def MessageFetch_def AccountExists_def
      Let_def split: prod.split bool.split intro: only_account_call)

lemma only_account_messages:
  assumes "only_account e db db1" and "\<And>f. f \<noteq> e \<Longrightarrow> filter (\<lambda>m. mr_email m = f) ms = filter (\<lambda>m. mr_email m = f) (db_messages db1)"
  shows "only_account e db (db1\<lparr>db_messages := ms\<rparr>)" "only_account e db (db1\<lparr>db_messages := ms, db_nextId := n\<rparr>)"
  using assms by (simp_all add: only_account_def)

lemma only_account_boxes:
  assumes "only_account e db db1" and "\<And>f. f \<noteq> e \<Longrightarrow> filter (\<lambda>b. fst b = f) bs = filter (\<lambda>b. fst b = f) (db_boxes db1)"
  shows "only_account e db (db1\<lparr>db_boxes := bs\<rparr>)"
  using assms by (simp add: only_account_def)

lemma insert_box_confined: "insert_box e t db = Some db' \<Longrightarrow> only_account e db db'"
  by (auto simp: insert_box_def only_account_def split: if_splits)

lemma insert_message_confined: "insert_message m db = Some db' \<Longrightarrow> only_account (mr_email m) db db'"
  by (auto simp: insert_message_def only_account_def split: if_splits)

lemma copy_rows_confined:
  "copy_rows target uid ms db = Some db' \<Longrightarrow> \<forall>m\<in>set ms. mr_email m = e \<Longrightarrow> only_account e db db'"
proof (induction ms arbitrary: uid db)
  case (Cons m ms)
  then obtain db1 where "insert_message (m\<lparr>mr_uid := uid, mr_mailbox := target\<rparr>) db = Some db1" "copy_rows target (uid + 1) ms db1 = Some db'"
    by (auto split: option.splits)
  with Cons.IH [of "uid + 1" db1] Cons.prems(2) insert_message_confined [of "m\<lparr>mr_uid := uid, mr_mailbox := target\<rparr>" db db1] show ?case
    by (auto intro: only_account_trans)
qed simp

lemma MessageStore_confined [confined]: "mr_email m = e \<Longrightarrow> only_account e db (fst (MessageStore m db))"
proof -
  assume e: "mr_email m = e"
  obtain ok db1 where c: "db_call db = (ok, db1)" by fastforce
  note d1 = only_account_call [OF c]
  show "only_account e db (fst (MessageStore m db))"
  proof (cases ok)
    case True
    define db2 where "db2 = (if mr_mailbox m = ''INBOX'' then db1 else case insert_box (mr_email m) (mr_mailbox m) db1 of None \<Rightarrow> db1 | Some d \<Rightarrow> d)"
    have d2: "only_account e db db2"
      using d1 [of e] e by (auto simp: db2_def split: option.split intro: only_account_trans insert_box_confined)
    show ?thesis
    proof (cases "insert_message (m\<lparr>mr_uid := next_uid (mr_email m) db2\<rparr>) db2")
      case None
      then show ?thesis using c True d1 by (simp add: MessageStore_def db2_def [symmetric])
    next
      case (Some db3)
      with insert_message_confined [OF Some] e have "only_account e db2 db3" by simp
      with d2 have "only_account e db db3" by (rule only_account_trans)
      with c True Some show ?thesis by (simp add: MessageStore_def db2_def [symmetric])
    qed
  qed (use c d1 in \<open>simp add: MessageStore_def\<close>)
qed

lemma writes_confined [confined]:
  "only_account e db (fst (MailboxCreate e t db))" "only_account e db (fst (MailboxDelete e t db))"
  "only_account e db (fst (MailboxRename e t u db))" "only_account e db (fst (MessageExpunge e b db))"
  "only_account e db (fst (MessageCopy e lo hi src dst db))" "only_account e db (fst (MessageStoreFlags e us a fs db))"
proof -
  obtain ok db1 where c: "db_call db = (ok, db1)" by fastforce
  note d1 = only_account_call [OF c, of e]
  show "only_account e db (fst (MailboxCreate e t db))"
    using c d1 by (auto simp: MailboxCreate_def split: bool.split option.split intro: only_account_trans insert_box_confined)
  have "filter (\<lambda>b. fst b = f) (filter (\<lambda>b. b \<noteq> (e, t)) bs) = filter (\<lambda>b. fst b = f) bs" if "f \<noteq> e" for f and bs :: "(string \<times> string) list"
    using that by (auto intro!: filter_cong)
  then show "only_account e db (fst (MailboxDelete e t db))"
    using c d1 by (auto simp: MailboxDelete_def split: bool.split intro: only_account_boxes)
  have "filter (\<lambda>b. fst b = f) (map (\<lambda>b. if b = (e, t) then (e, u) else b) bs) = filter (\<lambda>b. fst b = f) bs" if "f \<noteq> e" for f and bs :: "(string \<times> string) list"
    using that by (induction bs) auto
  then show "only_account e db (fst (MailboxRename e t u db))"
    using c d1 by (auto simp: MailboxRename_def split: bool.split intro: only_account_boxes)
  have "filter (\<lambda>m. mr_email m = f) (filter (\<lambda>m. \<not> to_expunge e b m) ms) = filter (\<lambda>m. mr_email m = f) ms" if "f \<noteq> e" for f ms
    using that by (auto intro!: filter_cong simp: to_expunge_def in_mailbox_def)
  then show "only_account e db (fst (MessageExpunge e b db))"
    using c d1 by (auto simp: MessageExpunge_def split: bool.split intro: only_account_messages)
  have "filter (\<lambda>m. mr_email m = f) (update_rows e us g ms) = filter (\<lambda>m. mr_email m = f) ms" if "f \<noteq> e" for f g ms
    using that by (induction ms) (auto simp: update_rows_def)
  then show "only_account e db (fst (MessageStoreFlags e us a fs db))"
    using c d1 by (auto simp: MessageStoreFlags_def store_batches_rows split: bool.split intro: only_account_messages)
  show "only_account e db (fst (MessageCopy e lo hi src dst db))"
  proof (cases ok)
    case True
    let ?ms = "filter (\<lambda>m. in_mailbox e src m \<and> lo \<le> mr_uid m \<and> mr_uid m \<le> hi) (db_messages db1)"
    show ?thesis
    proof (cases "copy_rows dst (next_uid e db1) ?ms db1")
      case (Some db2)
      have "\<forall>m\<in>set ?ms. mr_email m = e" by (simp add: in_mailbox_def)
      with copy_rows_confined [OF Some] d1 c True Some show ?thesis
        by (auto simp: MessageCopy_def intro: only_account_trans)
    qed (use c d1 True in \<open>simp add: MessageCopy_def\<close>)
  qed (use c d1 in \<open>simp add: MessageCopy_def\<close>)
qed

abbreviation keeps :: "string \<Rightarrow> 'b world \<Rightarrow> 'b world \<Rightarrow> bool" where
  "keeps e w w' \<equiv> only_account e (wd_db w) (wd_db w')"

lemma guards_confined [confined]:
  "keeps e w (fst (snd r)) \<Longrightarrow> keeps e w (fst (snd (need_auth tag c w r)))"
  "keeps e w (fst (snd r)) \<Longrightarrow> keeps e w (fst (snd (need_mailbox tag c w r)))"
  "keeps e w (fst (snd r)) \<Longrightarrow> keeps e w (fst (snd (need_name tag name c w r)))"
  by (simp_all add: need_auth_def need_mailbox_def need_name_def)

lemma done_confined [confined]: "only_account e (wd_db w) (fst r) \<Longrightarrow> keeps e w (fst (snd (done_or_failed tag verb c w r)))"
  by (cases r) (simp add: done_or_failed_def)

lemma fstD: "f x = (a, b) \<Longrightarrow> fst (f x) = a"
  by simp

lemma push_confined [confined]: "keeps e w (fst (snd (pushMailboxUpdates c w)))"
  using reads_confined(1) [of e "wd_db w" "ic_auth c" "ic_mailbox c"]
  by (auto simp: pushMailboxUpdates_def split: prod.split option.split)

lemma auth_failed_confined [confined]: "wd_db (fst (snd (auth_failed tag c w))) = wd_db w"
  by (simp add: auth_failed_def)

lemma authenticate_confined [confined]: "keeps e w (fst (snd (authenticateUser E tag user pass c w)))"
  using reads_confined(6) [of e "wd_db w" user]
  by (auto simp: authenticateUser_def auth_failed_def Let_def split: prod.split option.split)

lemma authenticate_confinedD: "authenticateUser E tag user pass c w = (c2, w2, out) \<Longrightarrow> keeps e w w2"
  by (metis authenticate_confined fst_conv snd_conv)

lemma login_confined [confined]: "keeps e w (fst (snd (cmdLogin E tag args c w)))"
  by (simp add: cmdLogin_def authenticate_confined split: list.split)

lemma authenticate_cmd_confined [confined]: "keeps e w (fst (snd (cmdAuthenticate E tag args c w)))"
  by (auto simp: cmdAuthenticate_def Let_def split: prod.split option.split list.split dest: authenticate_confinedD)

lemma select_confined [confined]: "keeps e w (fst (snd (select_box verb access tag args c w)))"
  unfolding select_box_def Let_def
  by (intro guards_confined) (use reads_confined(1) [of e "wd_db w" "ic_auth c"] in \<open>auto split: prod.split option.split dest: fstD\<close>)

lemma list_confined [confined]:
  "keeps e w (fst (snd (cmdList E tag args c w)))" "keeps e w (fst (snd (cmdLsub E tag c w)))"
  "keeps e w (fst (snd (cmdStatus E tag args c w)))"
  unfolding cmdList_def cmdLsub_def cmdStatus_def Let_def
  by (intro guards_confined; use reads_confined(1,2) [of e "wd_db w" "ic_auth c"] in \<open>auto split: prod.split option.split dest: fstD\<close>)+

lemma boxes_confined [confined]:
  "keeps (ic_auth c) w (fst (snd (cmdCreate tag args c w)))" "keeps (ic_auth c) w (fst (snd (cmdDelete tag args c w)))"
  "keeps (ic_auth c) w (fst (snd (cmdRename tag args c w)))"
  unfolding cmdCreate_def cmdDelete_def cmdRename_def Let_def
  by (intro guards_confined done_confined writes_confined, intro guards_confined done_confined writes_confined)
     (auto split: list.split intro!: confined)

lemma fetch_loop_confined: "keeps e w (fst (fetch_loop E items isUID all c uids w))"
proof (induction uids arbitrary: w)
  case (Cons uid uids)
  obtain db1 r where f: "MessageFetch (ic_auth c) (ic_mailbox c) uid uid (wd_db w) = (db1, r)" by fastforce
  have d1: "only_account e (wd_db w) db1" using reads_confined(5) [of e "wd_db w" "ic_auth c" "ic_mailbox c" uid uid] f by simp
  have go: "keeps e w (fst (fetch_loop E items isUID all c uids w1))" if "wd_db w1 = db1" for w1 :: "'a world"
    using only_account_trans [OF d1] Cons.IH [of w1] that by simp
  show ?case
  proof (cases "\<exists>m ms. r = Some (m # ms)")
    case True
    then obtain m ms where r: "r = Some (m # ms)" by blast
    obtain t ok v where x: "writeFetchItems E items m isUID (newRawView m, wd_disk w) = (t, ok, v)" by (metis prod_cases3)
    show ?thesis using f r x d1 go [of "w\<lparr>wd_db := db1, wd_disk := snd v\<rparr>"] by (auto simp: Let_def split: prod.split)
  next
    case False
    then have "fetch_loop E items isUID all c (uid # uids) w = fetch_loop E items isUID all c uids (w\<lparr>wd_db := db1\<rparr>)"
      using f by (cases r) (auto split: list.split)
    with go show ?thesis by simp
  qed
qed simp

lemma fetch_confined [confined]: "keeps e w (fst (snd (cmdFetch E tag args isUID c w)))"
  unfolding cmdFetch_def
proof (intro guards_confined)
  obtain db1 r where u: "MessageUIDs (ic_auth c) (ic_mailbox c) (wd_db w) = (db1, r)" by fastforce
  have d1: "only_account e (wd_db w) db1" using reads_confined(3) [of e "wd_db w" "ic_auth c" "ic_mailbox c"] u by simp
  have "only_account e (wd_db w) (wd_db (fst (fetch_loop E items isUID all c us (w\<lparr>wd_db := db1\<rparr>))))" for items all us
    using only_account_trans [OF d1] fetch_loop_confined [of e "w\<lparr>wd_db := db1\<rparr>"] by simp
  with d1 u show "keeps e w (fst (snd (case split_n 2 CHR '' '' args of
          [seqSet, items] \<Rightarrow>
            (case MessageUIDs (ic_auth c) (ic_mailbox c) (wd_db w) of
               (db1, None) \<Rightarrow> (c, w\<lparr>wd_db := db1\<rparr>, tagged tag ''NO FETCH failed'')
             | (db1, Some allUIDs) \<Rightarrow>
                 (case fetch_loop E items isUID allUIDs c (seqSetToUIDs seqSet allUIDs isUID) (w\<lparr>wd_db := db1\<rparr>) of
                    (w1, out, True) \<Rightarrow> (c, w1, out @ tagged tag ''OK FETCH completed'')
                  | (w1, out, False) \<Rightarrow> (c\<lparr>ic_mode := Panicked\<rparr>, w1, out)))
        | _ \<Rightarrow> (c, w, tagged tag ''NO Invalid FETCH arguments''))))"
    by (auto split: list.split option.split prod.split bool.split) (metis fst_conv)+
qed

lemma store_confined [confined]: "keeps (ic_auth c) w (fst (snd (cmdStore E tag args isUID c w)))"
  unfolding cmdStore_def
proof (intro guards_confined)
  obtain db1 r where u: "MessageUIDs (ic_auth c) (ic_mailbox c) (wd_db w) = (db1, r)" by fastforce
  have d1: "only_account (ic_auth c) (wd_db w) db1" using reads_confined(3) [of "ic_auth c" "wd_db w" "ic_auth c" "ic_mailbox c"] u by simp
  have "keeps (ic_auth c) w (fst (snd (done_or_failed tag ''STORE'' c w (MessageStoreFlags (ic_auth c) us a fs db1))))" for us a fs
    using only_account_trans [OF d1 writes_confined(6)] by (rule done_confined)
  with d1 u show "keeps (ic_auth c) w (fst (snd (case split_n 3 CHR '' '' args of
          [seqSet, item, flagStr] \<Rightarrow>
            (case store_action (upper E item) of
               None \<Rightarrow> (c, w, tagged tag ''NO Unknown STORE data item'')
             | Some action \<Rightarrow>
                 let flags = CanonicalFlags (str_fields (trim_both flagStr ''()''))
                 in (case MessageUIDs (ic_auth c) (ic_mailbox c) (wd_db w) of
                       (db1, None) \<Rightarrow> (c, w\<lparr>wd_db := db1\<rparr>, tagged tag ''NO STORE failed'')
                     | (db1, Some allUIDs) \<Rightarrow>
                         done_or_failed tag ''STORE'' c w
                           (MessageStoreFlags (ic_auth c) (seqSetToUIDs seqSet allUIDs isUID) action flags db1)))
        | _ \<Rightarrow> (c, w, tagged tag ''NO Invalid STORE arguments''))))"
    by (auto simp: Let_def split: list.split option.split)
qed

lemma expunge_confined [confined]:
  "keeps (ic_auth c) w (fst (snd (cmdExpunge tag c w)))" "keeps (ic_auth c) w (fst (snd (cmdClose tag c w)))"
  unfolding cmdExpunge_def cmdClose_def
  by (intro guards_confined; use writes_confined(4) [of "ic_auth c" "wd_db w" "ic_mailbox c"] in \<open>auto split: prod.split option.split dest: fstD\<close>)+

lemma search_confined [confined]: "keeps e w (fst (snd (cmdSearch E tag args c w)))"
  unfolding cmdSearch_def
  by (intro guards_confined) (use reads_confined(4) [of e "wd_db w" "ic_auth c" "ic_mailbox c"] in \<open>auto split: prod.split option.split dest: fstD\<close>)

lemma idle_confined [confined]: "keeps e w (fst (snd (cmdIdle tag c w)))"
  unfolding cmdIdle_def by (intro guards_confined) simp

lemma copy_loop_confined: "only_account e db (fst (copy_loop e src dst uids db))"
proof (induction uids arbitrary: db)
  case (Cons u us)
  obtain db1 ok where c: "MessageCopy e u u src dst db = (db1, ok)" by fastforce
  then have "only_account e db db1" using writes_confined(5) [of e db u u src dst] by simp
  with c Cons.IH [of db1] show ?case by (cases ok) (auto intro: only_account_trans)
qed simp

lemma copy_confined [confined]: "keeps (ic_auth c) w (fst (snd (cmdCopy E tag args isUID c w)))"
  unfolding cmdCopy_def
proof (intro guards_confined)
  obtain db1 r where u: "MessageUIDs (ic_auth c) (ic_mailbox c) (wd_db w) = (db1, r)" by fastforce
  have d1: "only_account (ic_auth c) (wd_db w) db1" using reads_confined(3) [of "ic_auth c" "wd_db w" "ic_auth c" "ic_mailbox c"] u by simp
  have loop: "keeps (ic_auth c) w (fst (snd (done_or_failed tag ''COPY'' c w (copy_loop (ic_auth c) (ic_mailbox c) t us db1))))" for t us
    using only_account_trans [OF d1 copy_loop_confined] by (rule done_confined)
  have one: "keeps (ic_auth c) w (fst (snd (done_or_failed tag ''COPY'' c w (MessageCopy (ic_auth c) lo hi (ic_mailbox c) t (wd_db w)))))" for lo hi t
    using writes_confined(5) by (rule done_confined)
  show "keeps (ic_auth c) w (fst (snd (case splitArgs args of
          seqSet # target0 # x \<Rightarrow>
            let target = unquote_arg target0
            in need_name tag target c w
                 (if isUID
                  then done_or_failed tag ''COPY'' c w
                         (MessageCopy (ic_auth c) (fst (copy_range seqSet)) (snd (copy_range seqSet)) (ic_mailbox c) target (wd_db w))
                  else
                    (case MessageUIDs (ic_auth c) (ic_mailbox c) (wd_db w) of
                       (db1, None) \<Rightarrow> (c, w\<lparr>wd_db := db1\<rparr>, tagged tag ''NO COPY failed'')
                     | (db1, Some allUIDs) \<Rightarrow>
                         done_or_failed tag ''COPY'' c w
                           (copy_loop (ic_auth c) (ic_mailbox c) target (seqSetToUIDs seqSet allUIDs False) db1)))
        | _ \<Rightarrow> (c, w, tagged tag ''NO Invalid COPY arguments''))))"
    using one loop u d1 by (auto simp: Let_def split: list.split option.split intro!: guards_confined)
qed

lemma storeRaw_db [simp]: "wd_db (fst (storeRaw E raw w)) = wd_db w"
  by (simp add: storeRaw_def split: option.split prod.split)

lemma append_confined [confined]: "keeps (ic_auth c) w (fst (snd (cmdAppend E tag args c w)))"
proof -
  have "keeps (ic_auth c) w (w1\<lparr>wd_db := db1\<rparr>)"
    if "storeRaw E raw w = (w1, ref)" "MessageStore (append_row E (ic_auth c) box flags ref raw) (wd_db w1) = (db1, ok)"
    for raw w1 ref box flags db1 ok
  proof -
    have "wd_db w1 = wd_db w" using storeRaw_db [of E raw w] that(1) by simp
    with that(2) MessageStore_confined [of "append_row E (ic_auth c) box flags ref raw" "ic_auth c" "wd_db w1"] show ?thesis
      by (simp add: append_row_def)
  qed
  then show ?thesis unfolding cmdAppend_def
    by (intro guards_confined) (auto simp: Let_def split: list.split option.split prod.split intro!: guards_confined)
qed

lemma uid_confined [confined]: "keeps (ic_auth c) w (fst (snd (cmdUID E tag args c w)))"
  by (simp add: cmdUID_def Let_def confined split: list.split)

lemma mail_command_confined: "keeps (ic_auth c) w (fst (snd (mail_command E cmd tag args c w)))"
proof (cases "cmd = ''NOOP''")
  case True
  then show ?thesis using push_confined [of "ic_auth c" w c] by (simp add: mail_command_def split_def)
qed (simp add: mail_command_def cmdSelect_def cmdExamine_def confined)

lemma serve_confined: "keeps (ic_auth c) w (fst (snd (serve_line E raw c w)))"
  by (auto simp: serve_line_def serve_command_def Let_def login_confined authenticate_cmd_confined mail_command_confined
      split: list.split option.split)

lemma release_db [simp]: "wd_db (fst (snd (end_conn r))) = wd_db (fst (snd r))"
  by (auto simp: end_conn_def split: prod.split)

lemma conn_line_auth: "conn_line c = Some (raw, c1) \<Longrightarrow> c1 = c\<lparr>ic_buf := ic_buf c1, ic_net := ic_net c1\<rparr>"
  by (cases c) (auto simp: conn_line_def)

lemma conn_run_confined: "keeps (ic_auth c) w (fst (snd (conn_run E ev c w)))"
proof -
  have line: "keeps (ic_auth c) w (fst (snd (serve_line E raw c1 w)))" if "conn_line c = Some (raw, c1)" for raw c1
    using serve_confined [of c1 w E raw] arg_cong [OF conn_line_auth [OF that], of ic_auth] by simp
  have "keeps (ic_auth c) w (fst (snd (conn_event E ev c w)))"
    using push_confined [of "ic_auth c" w c] line
    by (auto simp: conn_event_def idle_input_def split: conn_mode.split net_event.split option.split)
  then show ?thesis by (simp add: conn_run_def split_def)
qed

section \<open>Who a session acts for\<close>

named_theorems auth_kept "commands that keep the authenticated account"

lemma guards_auth [auth_kept]:
  "ic_auth (fst r) = ic_auth c \<Longrightarrow> ic_auth (fst (need_auth tag c w r)) = ic_auth c"
  "ic_auth (fst r) = ic_auth c \<Longrightarrow> ic_auth (fst (need_mailbox tag c w r)) = ic_auth c"
  "ic_auth (fst r) = ic_auth c \<Longrightarrow> ic_auth (fst (need_name tag name c w r)) = ic_auth c"
  by (simp_all add: need_auth_def need_mailbox_def need_name_def)

lemma done_auth [auth_kept]: "ic_auth (fst (done_or_failed tag verb c w r)) = ic_auth c"
  by (cases r) (simp add: done_or_failed_def)

lemma push_auth [auth_kept]: "ic_auth (fst (pushMailboxUpdates c w)) = ic_auth c"
  by (simp add: pushMailboxUpdates_def split: prod.split option.split)

lemma commands_auth [auth_kept]:
  "ic_auth (fst (select_box verb access tag args c w)) = ic_auth c" "ic_auth (fst (cmdList E tag args c w)) = ic_auth c"
  "ic_auth (fst (cmdLsub E tag c w)) = ic_auth c" "ic_auth (fst (cmdStatus E tag args c w)) = ic_auth c"
  "ic_auth (fst (cmdCreate tag args c w)) = ic_auth c" "ic_auth (fst (cmdDelete tag args c w)) = ic_auth c"
  "ic_auth (fst (cmdRename tag args c w)) = ic_auth c" "ic_auth (fst (cmdFetch E tag args isUID c w)) = ic_auth c"
  "ic_auth (fst (cmdStore E tag args isUID c w)) = ic_auth c" "ic_auth (fst (cmdExpunge tag c w)) = ic_auth c"
  "ic_auth (fst (cmdClose tag c w)) = ic_auth c" "ic_auth (fst (cmdSearch E tag args c w)) = ic_auth c"
  "ic_auth (fst (cmdIdle tag c w)) = ic_auth c" "ic_auth (fst (cmdCopy E tag args isUID c w)) = ic_auth c"
  unfolding select_box_def cmdList_def cmdLsub_def cmdStatus_def cmdCreate_def cmdDelete_def cmdRename_def cmdFetch_def cmdStore_def
    cmdExpunge_def cmdClose_def cmdSearch_def cmdIdle_def cmdCopy_def Let_def
  by (intro guards_auth; auto intro!: auth_kept split: prod.split option.split list.split bool.split)+

lemma conn_bytes_auth: "conn_bytes n c = Some (raw, c1) \<Longrightarrow> ic_auth c1 = ic_auth c"
  by (auto simp: conn_bytes_def)

lemma append_auth [auth_kept]: "ic_auth (fst (cmdAppend E tag args c w)) = ic_auth c"
  unfolding cmdAppend_def Let_def
  by (intro guards_auth) (auto intro!: guards_auth dest: conn_bytes_auth split: prod.split option.split list.split)

lemma uid_auth [auth_kept]: "ic_auth (fst (cmdUID E tag args c w)) = ic_auth c"
  by (simp add: cmdUID_def Let_def auth_kept split: list.split)

lemma mail_command_auth: "ic_auth (fst (mail_command E cmd tag args c w)) = ic_auth c"
proof (cases "cmd = ''NOOP''")
  case True
  then show ?thesis using push_auth [of c w] by (simp add: mail_command_def split_def)
qed (simp add: mail_command_def cmdSelect_def cmdExamine_def auth_kept)

text \<open>An account whose password the client has shown over TLS.\<close>

definition logged_in :: "imap_env \<Rightarrow> imap_conn \<Rightarrow> 'b world \<Rightarrow> string \<Rightarrow> bool" where
  "logged_in E c w e \<longleftrightarrow>
     ic_tls c \<and> (\<exists>a\<in>set (db_accounts (wd_db w)). ac_email a = e \<and> (\<exists>pw. ComparePassword (ev_kdf E) pw (ac_password a) = Some True))"

lemma authenticate_auth:
  assumes "ic_tls c"
  shows "ic_auth (fst (authenticateUser E tag user pass c w)) = ic_auth c \<or> logged_in E c w (ic_auth (fst (authenticateUser E tag user pass c w)))"
proof -
  obtain db1 r where a: "AccountExists user (wd_db w) = (db1, r)" by fastforce
  have "a \<in> set (db_accounts (wd_db w)) \<and> ac_email a = user" if "r = Some (Some a)" for a
  proof -
    have "List.find (\<lambda>a. ac_email a = user) (db_accounts (wd_db w)) = Some a"
      using that a db_call_tables(3) by (auto simp: AccountExists_def split: prod.splits bool.splits)
    then show ?thesis by (auto simp: find_Some_iff)
  qed
  moreover have "ic_auth (fst (authenticateUser E tag user pass c w)) = ic_auth c
      \<or> (\<exists>a. r = Some (Some a) \<and> ComparePassword (ev_kdf E) pass (ac_password a) = Some True
             \<and> ic_auth (fst (authenticateUser E tag user pass c w)) = user)"
    using a by (auto simp: authenticateUser_def auth_failed_def Let_def split: prod.split option.split)
  ultimately show ?thesis using assms by (auto simp: logged_in_def)
qed

lemma login_auth: "ic_auth (fst (cmdLogin E tag args c w)) = ic_auth c \<or> logged_in E c w (ic_auth (fst (cmdLogin E tag args c w)))"
  using authenticate_auth [of c E tag] by (auto simp: cmdLogin_def split: list.split)

lemma logged_in_line: "conn_line c = Some (raw, c1) \<Longrightarrow> logged_in E c1 w e = logged_in E c w e \<and> ic_auth c1 = ic_auth c \<and> ic_tls c1 = ic_tls c"
  by (auto simp: conn_line_def logged_in_def)

lemma conn_line_same: "conn_line c = Some (raw, c1) \<Longrightarrow> ic_auth c1 = ic_auth c"
  by (auto simp: conn_line_def)

lemma authenticate_cmd_auth:
  "ic_auth (fst (cmdAuthenticate E tag args c w)) = ic_auth c \<or> logged_in E c w (ic_auth (fst (cmdAuthenticate E tag args c w)))"
proof (cases "conn_line c")
  case (Some x)
  obtain raw c1 where x: "conn_line c = Some (raw, c1)" using Some by (cases x) auto
  note l = logged_in_line [OF x, of E w]
  have "ic_auth c2 = ic_auth c \<or> logged_in E c w (ic_auth c2)"
    if "ic_tls c" "authenticateUser E tag u p c1 w = (c2, w2, out)" for u p c2 w2 out
    using authenticate_auth [of c1 E tag u p w] that l by simp
  then show ?thesis using x l by (auto simp: cmdAuthenticate_def Let_def split: option.split list.split prod.split)
qed (simp add: cmdAuthenticate_def Let_def)

lemma simple_auth: "simple_command cmd tag c = Some (c1, out) \<Longrightarrow> ic_auth c1 = ic_auth c \<or> ic_auth c1 = []"
  by (auto simp: simple_command_def cmdStartTLS_def split: if_splits option.splits)

lemma serve_auth:
  "ic_auth (fst (serve_line E raw c w)) = ic_auth c \<or> ic_auth (fst (serve_line E raw c w)) = []
   \<or> logged_in E c w (ic_auth (fst (serve_line E raw c w)))"
proof -
  have "ic_auth (fst (serve_command E cmd tag args c w)) = ic_auth c \<or> ic_auth (fst (serve_command E cmd tag args c w)) = []
      \<or> logged_in E c w (ic_auth (fst (serve_command E cmd tag args c w)))" for cmd tag args
    using login_auth [of E tag args c w] authenticate_cmd_auth [of E tag args c w] mail_command_auth [of E cmd tag args c w]
      simple_auth [of cmd tag c]
    by (auto simp: serve_command_def split: option.split)
  then show ?thesis by (simp add: serve_line_def Let_def split: list.split)
qed

lemma end_conn_auth [simp]: "ic_auth (fst (end_conn r)) = ic_auth (fst r)"
  by (auto simp: end_conn_def split: prod.split)

lemma conn_run_auth:
  "ic_auth (fst (conn_run E ev c w)) = ic_auth c \<or> ic_auth (fst (conn_run E ev c w)) = []
   \<or> logged_in E c w (ic_auth (fst (conn_run E ev c w)))"
proof -
  have line: "ic_auth (fst (serve_line E raw c1 w)) = ic_auth c \<or> ic_auth (fst (serve_line E raw c1 w)) = []
      \<or> logged_in E c w (ic_auth (fst (serve_line E raw c1 w)))" if "conn_line c = Some (raw, c1)" for raw c1
    using serve_auth [of E raw c1 w] logged_in_line [OF that, of E w] by simp
  have "ic_auth (fst (conn_event E ev c w)) = ic_auth c \<or> ic_auth (fst (conn_event E ev c w)) = []
      \<or> logged_in E c w (ic_auth (fst (conn_event E ev c w)))"
    using push_auth [of c w] line
    by (auto simp: conn_event_def idle_input_def split: conn_mode.split net_event.split option.split dest: conn_line_same)
  then show ?thesis by (simp add: conn_run_def split_def)
qed

section \<open>Without authentication\<close>

definition untouched :: "'b world \<Rightarrow> 'b world \<Rightarrow> bool" where
  "untouched w w' \<longleftrightarrow>
     db_accounts (wd_db w') = db_accounts (wd_db w) \<and> db_boxes (wd_db w') = db_boxes (wd_db w)
     \<and> db_messages (wd_db w') = db_messages (wd_db w) \<and> wd_disk w' = wd_disk w"

lemma push_untouched: "untouched w (fst (snd (pushMailboxUpdates c w)))"
proof -
  obtain ok db1 where c: "db_call (wd_db w) = (ok, db1)" by fastforce
  show ?thesis using db_call_tables [OF c] c
    by (cases ok) (simp_all add: untouched_def pushMailboxUpdates_def MailboxSelect_def Let_def)
qed

lemma authenticate_untouched: "untouched w (fst (snd (authenticateUser E tag user pass c w)))"
proof -
  obtain ok db1 where c: "db_call (wd_db w) = (ok, db1)" by fastforce
  note t = db_call_tables [OF c]
  show ?thesis
  proof (cases ok)
    case True
    with c have a: "AccountExists user (wd_db w) = (db1, Some (List.find (\<lambda>a. ac_email a = user) (db_accounts db1)))"
      by (simp add: AccountExists_def)
    show ?thesis
      by (cases "List.find (\<lambda>a. ac_email a = user) (db_accounts db1)")
         (auto simp: t untouched_def authenticateUser_def auth_failed_def a Let_def split: prod.split)
  next
    case False
    with c t show ?thesis by (simp add: untouched_def authenticateUser_def auth_failed_def AccountExists_def)
  qed
qed

lemma untouchedD: "authenticateUser E tag user pass c w = (c2, w2, out) \<Longrightarrow> untouched w w2"
  by (metis authenticate_untouched fst_conv snd_conv)

lemma anonymous_commands:
  assumes "ic_auth c = []"
  shows "untouched w (fst (snd (serve_command E cmd tag args c w)))"
proof -
  have refl: "untouched w w" by (simp add: untouched_def)
  have "untouched w (fst (snd (mail_command E cmd tag args c w)))"
  proof (cases "cmd = ''NOOP''")
    case True
    then show ?thesis using push_untouched [of w c] by (simp add: mail_command_def split_def)
  next
    case False
    then have "fst (snd (mail_command E cmd tag args c w)) = w"
      using assms
      by (simp add: mail_command_def cmdSelect_def cmdExamine_def select_box_def cmdList_def cmdLsub_def cmdStatus_def
          cmdCreate_def cmdDelete_def cmdRename_def cmdFetch_def cmdStore_def cmdExpunge_def cmdClose_def cmdSearch_def
          cmdIdle_def cmdCopy_def cmdAppend_def cmdUID_def Let_def need_auth_def need_mailbox_def split: list.split)
    with refl show ?thesis by simp
  qed
  moreover have "untouched w (fst (snd (cmdLogin E tag args c w)))"
    using authenticate_untouched refl by (auto simp: cmdLogin_def split: list.split)
  moreover have "untouched w (fst (snd (cmdAuthenticate E tag args c w)))"
    using refl by (auto simp: cmdAuthenticate_def Let_def split: option.split list.split prod.split dest: untouchedD)
  ultimately show ?thesis using refl by (auto simp: serve_command_def split: option.split)
qed

lemma anonymous_run:
  assumes "ic_auth c = []"
  shows "untouched w (fst (snd (conn_run E ev c w)))"
proof -
  have refl: "untouched w w" by (simp add: untouched_def)
  have ended: "untouched w (fst (snd r)) \<Longrightarrow> untouched w (fst (snd (end_conn r)))" for r :: "'a reply"
    by (auto simp: end_conn_def untouched_def split: prod.splits)
  have "untouched w (fst (snd (serve_line E raw c1 w)))" if "conn_line c = Some (raw, c1)" for raw c1
    using anonymous_commands [of c1 w E] logged_in_line [OF that, of E w] assms refl
    by (auto simp: serve_line_def Let_def split: list.split)
  then have "untouched w (fst (snd (conn_event E ev c w)))"
    using push_untouched [of w c] refl
    by (auto simp: conn_event_def idle_input_def split: conn_mode.split net_event.split option.split intro!: ended)
  then show ?thesis by (simp add: conn_run_def split_def)
qed

section \<open>Property\<close>



end
