(* ===== verification/ImapPrivacy.thy ===== *)
theory ImapPrivacy
  imports ImapSession
begin

text \<open>
  What an IMAP session can learn: two worlds that differ only in the mail of other accounts look the same to it,
  command after command.
\<close>

section \<open>The part of the database that belongs to an account\<close>

abbreviation no_id :: "msg_row \<Rightarrow> msg_row" where
  "no_id m \<equiv> m\<lparr>mr_id := 0\<rparr>"

definition own_rows :: "string \<Rightarrow> msg_row list \<Rightarrow> msg_row list" where
  "own_rows e ms = map no_id (filter (\<lambda>m. mr_email m = e) ms)"

definition own :: "string \<Rightarrow> mail_db \<Rightarrow> mail_db" where
  "own e db = db\<lparr>db_messages := own_rows e (db_messages db), db_boxes := filter (\<lambda>b. fst b = e) (db_boxes db), db_nextId := 1\<rparr>"

definition same_db :: "string \<Rightarrow> mail_db \<Rightarrow> mail_db \<Rightarrow> bool" where
  "same_db e a b \<longleftrightarrow> own e a = own e b"

lemma same_db_iff:
  "same_db e a b \<longleftrightarrow> db_accounts a = db_accounts b \<and> db_faults a = db_faults b
     \<and> own_rows e (db_messages a) = own_rows e (db_messages b)
     \<and> filter (\<lambda>x. fst x = e) (db_boxes a) = filter (\<lambda>x. fst x = e) (db_boxes b)"
  by (cases a; cases b) (auto simp: same_db_def own_def)

text \<open>Two results of an operation: the same for the session.\<close>

definition same_result :: "string \<Rightarrow> mail_db \<times> 'a \<Rightarrow> mail_db \<times> 'a \<Rightarrow> bool" where
  "same_result e r s \<longleftrightarrow> same_db e (fst r) (fst s) \<and> snd r = snd s"

named_theorems private_ops "operations that give the same for the same mail"

lemma same_call:
  assumes "same_db e a b" and "db_call a = (ok, a1)" and "db_call b = (ok', b1)"
  shows "ok' = ok \<and> same_db e a1 b1"
  using assms by (auto simp: same_db_iff db_call_def split: list.splits)

lemma own_rows_Nil [simp]: "own_rows e [] = []"
  by (simp add: own_rows_def)

lemma own_rows_append: "own_rows e (ms @ ns) = own_rows e ms @ own_rows e ns"
  by (simp add: own_rows_def)

lemma own_map:
  assumes "\<And>m. g (no_id m) = g m" and "\<And>m. P (no_id m) = P m"
  shows "map g (filter (\<lambda>m. mr_email m = e \<and> P m) ms) = map g (filter P (own_rows e ms))"
  using assms by (induction ms) (auto simp: own_rows_def)

lemma own_filter_map:
  assumes "own_rows e ms = own_rows e ns" and "\<And>m. g (no_id m) = g m" and "\<And>m. P (no_id m) = P m"
  shows "map g (filter (\<lambda>m. mr_email m = e \<and> P m) ms) = map g (filter (\<lambda>m. mr_email m = e \<and> P m) ns)"
  using own_map [of g P e ms] own_map [of g P e ns] assms by simp

lemma own_filter_length:
  assumes "own_rows e ms = own_rows e ns" and "\<And>m. P (no_id m) = P m"
  shows "length (filter (\<lambda>m. mr_email m = e \<and> P m) ms) = length (filter (\<lambda>m. mr_email m = e \<and> P m) ns)"
  using arg_cong [OF own_filter_map [OF assms(1), of "\<lambda>_. ()" P], of length] assms(2) by simp

lemma own_uids:
  assumes "own_rows e ms = own_rows e ns"
  shows "uids_of e ms = uids_of e ns"
proof -
  have "uids_of e xs = map mr_uid (own_rows e xs)" for xs by (simp add: own_rows_def comp_def)
  with assms show ?thesis by simp
qed

lemma same_next_uid:
  assumes "same_db e a b"
  shows "next_uid e a = next_uid e b"
proof -
  have "uids_of e (db_messages a) = uids_of e (db_messages b)" by (rule own_uids) (use assms in \<open>simp add: same_db_iff\<close>)
  then show ?thesis by (simp only: next_uid_eq)
qed

lemma sort_key_map: "sort_key f (map g xs) = map g (sort_key (\<lambda>x. f (g x)) xs)"
proof -
  have "insort_key f (g x) (map g ys) = map g (insort_key (\<lambda>x. f (g x)) x ys)" for x ys by (induction ys) auto
  then show ?thesis by (induction xs) simp_all
qed

lemma sorted_own:
  assumes "own_rows e ms = own_rows e ns" and "\<And>m. P (no_id m) = P m"
  shows "map no_id (sort_key mr_uid (filter (\<lambda>m. mr_email m = e \<and> P m) ms)) = map no_id (sort_key mr_uid (filter (\<lambda>m. mr_email m = e \<and> P m) ns))"
proof -
  have "map no_id (sort_key mr_uid xs) = sort_key mr_uid (map no_id xs)" for xs
    using sort_key_map [of mr_uid no_id xs] by simp
  moreover have "map no_id (filter (\<lambda>m. mr_email m = e \<and> P m) ms) = map no_id (filter (\<lambda>m. mr_email m = e \<and> P m) ns)"
    by (rule own_filter_map [OF assms(1)]) (simp_all add: assms(2))
  ultimately show ?thesis by simp
qed

section \<open>Reading\<close>

lemma in_mailbox_split: "in_mailbox e b = (\<lambda>m. mr_email m = e \<and> mr_mailbox m = b)"
  by (simp add: fun_eq_iff in_mailbox_def)

lemma read_op:
  assumes "same_db e a b" and "\<And>d1 d2. same_db e d1 d2 \<Longrightarrow> f d1 = f d2"
    and "\<And>db. op db = (case db_call db of (False, db1) \<Rightarrow> (db1, None) | (True, db1) \<Rightarrow> (db1, Some (f db1)))"
  shows "same_result e (op a) (op b)"
proof -
  obtain ok a1 where a: "db_call a = (ok, a1)" by fastforce
  obtain ok' b1 where b: "db_call b = (ok', b1)" by fastforce
  from same_call [OF assms(1) a b] have "ok' = ok" "same_db e a1 b1" by auto
  with assms(2) [of a1 b1] a b assms(3) [of a] assms(3) [of b] show ?thesis by (cases ok) (simp_all add: same_result_def)
qed

lemma same_select [private_ops]:
  assumes "same_db e a b"
  shows "same_result e (MailboxSelect e box a) (MailboxSelect e box b)"
proof (rule read_op [OF assms, of "\<lambda>db. let rows = filter (in_mailbox e box) (db_messages db)
          in \<lparr>ms_exists = int (length rows), ms_unseen = int (length (filter (\<lambda>m. \<not> has_flag ''seen'' m) rows)),
                ms_uidNext = next_uid e db,
                ms_uidValidity = (case List.find (\<lambda>a. ac_email a = e) (db_accounts db) of None \<Rightarrow> 1 | Some a \<Rightarrow> ac_created a)\<rparr>"])
  fix d1 d2
  assume s: "same_db e d1 d2"
  then have o: "own_rows e (db_messages d1) = own_rows e (db_messages d2)" by (simp add: same_db_iff)
  have "length (filter (in_mailbox e box) (db_messages d1)) = length (filter (in_mailbox e box) (db_messages d2))"
    unfolding in_mailbox_split by (rule own_filter_length [OF o]) simp
  moreover have "length (filter (\<lambda>m. \<not> has_flag ''seen'' m) (filter (in_mailbox e box) (db_messages d1)))
      = length (filter (\<lambda>m. \<not> has_flag ''seen'' m) (filter (in_mailbox e box) (db_messages d2)))"
    using own_filter_length [OF o, of "\<lambda>m. mr_mailbox m = box \<and> \<not> has_flag ''seen'' m"]
    by (simp add: in_mailbox_split has_flag_def conj_assoc)
  ultimately show "(let rows = filter (in_mailbox e box) (db_messages d1)
          in \<lparr>ms_exists = int (length rows), ms_unseen = int (length (filter (\<lambda>m. \<not> has_flag ''seen'' m) rows)),
                ms_uidNext = next_uid e d1,
                ms_uidValidity = (case List.find (\<lambda>a. ac_email a = e) (db_accounts d1) of None \<Rightarrow> 1 | Some a \<Rightarrow> ac_created a)\<rparr>)
      = (let rows = filter (in_mailbox e box) (db_messages d2)
          in \<lparr>ms_exists = int (length rows), ms_unseen = int (length (filter (\<lambda>m. \<not> has_flag ''seen'' m) rows)),
                ms_uidNext = next_uid e d2,
                ms_uidValidity = (case List.find (\<lambda>a. ac_email a = e) (db_accounts d2) of None \<Rightarrow> 1 | Some a \<Rightarrow> ac_created a)\<rparr>)"
    using same_next_uid [OF s] s by (simp add: Let_def same_db_iff)
qed (simp only: MailboxSelect_def Let_def)

lemma same_list [private_ops]:
  assumes "same_db e a b"
  shows "same_result e (MailboxList e a) (MailboxList e b)"
  by (rule read_op [OF assms, of "\<lambda>db. ''INBOX'' # filter (\<lambda>t. t \<noteq> ''INBOX'') (map snd (filter (\<lambda>b. fst b = e) (db_boxes db)))"])
     (simp_all add: same_db_iff MailboxList_def)

lemma same_account [private_ops]:
  assumes "same_db e a b"
  shows "same_result e (AccountExists user a) (AccountExists user b)"
  by (rule read_op [OF assms, of "\<lambda>db. List.find (\<lambda>a. ac_email a = user) (db_accounts db)"])
     (simp_all add: same_db_iff AccountExists_def)

lemma same_uids [private_ops]:
  assumes "same_db e a b"
  shows "same_result e (MessageUIDs e box a) (MessageUIDs e box b)"
proof (rule read_op [OF assms, of "\<lambda>db. sort (map mr_uid (filter (in_mailbox e box) (db_messages db)))"])
  fix d1 d2
  assume "same_db e d1 d2"
  then have "own_rows e (db_messages d1) = own_rows e (db_messages d2)" by (simp add: same_db_iff)
  from own_filter_map [OF this, of mr_uid "\<lambda>m. mr_mailbox m = box"]
  show "sort (map mr_uid (filter (in_mailbox e box) (db_messages d1))) = sort (map mr_uid (filter (in_mailbox e box) (db_messages d2)))"
    by (simp add: in_mailbox_split)
qed (simp add: MessageUIDs_def)

lemma map_no_id:
  assumes "map no_id xs = map no_id ys" and "\<And>m. g (no_id m) = g m"
  shows "map g xs = map g ys"
proof -
  have "map g zs = map g (map no_id zs)" for zs using assms(2) by (induction zs) simp_all
  with assms(1) show ?thesis by metis
qed

lemma same_flags [private_ops]:
  assumes "same_db e a b"
  shows "same_result e (MessageFlags e box a) (MessageFlags e box b)"
proof (rule read_op [OF assms, of "\<lambda>db. map (\<lambda>m. (mr_uid m, mr_flags m)) (sort_key mr_uid (filter (in_mailbox e box) (db_messages db)))"])
  fix d1 d2
  assume "same_db e d1 d2"
  then have "own_rows e (db_messages d1) = own_rows e (db_messages d2)" by (simp add: same_db_iff)
  from sorted_own [OF this, of "\<lambda>m. mr_mailbox m = box"]
  have "map no_id (sort_key mr_uid (filter (in_mailbox e box) (db_messages d1))) = map no_id (sort_key mr_uid (filter (in_mailbox e box) (db_messages d2)))"
    by (simp add: in_mailbox_split)
  then show "map (\<lambda>m. (mr_uid m, mr_flags m)) (sort_key mr_uid (filter (in_mailbox e box) (db_messages d1)))
      = map (\<lambda>m. (mr_uid m, mr_flags m)) (sort_key mr_uid (filter (in_mailbox e box) (db_messages d2)))"
    by (rule map_no_id) simp
qed (simp add: MessageFlags_def)

text \<open>The rows of a FETCH are the same up to their internal number.\<close>

lemma same_fetch:
  assumes "same_db e a b" and "MessageFetch e box lo hi a = (a1, r)" and "MessageFetch e box lo hi b = (b1, r')"
  shows "same_db e a1 b1 \<and> map_option (map no_id) r = map_option (map no_id) r'"
proof -
  obtain ok a0 where a: "db_call a = (ok, a0)" by fastforce
  obtain ok' b0 where b: "db_call b = (ok', b0)" by fastforce
  from same_call [OF assms(1) a b] have s: "ok' = ok" "same_db e a0 b0" by auto
  let ?P = "\<lambda>m. mr_mailbox m = box \<and> (0 < lo \<longrightarrow> lo \<le> mr_uid m) \<and> (0 < hi \<longrightarrow> mr_uid m \<le> hi)"
  have "own_rows e (db_messages a0) = own_rows e (db_messages b0)" using s by (simp add: same_db_iff)
  from sorted_own [OF this, of ?P] have "map no_id (sort_key mr_uid (filter (\<lambda>m. mr_email m = e \<and> ?P m) (db_messages a0)))
      = map no_id (sort_key mr_uid (filter (\<lambda>m. mr_email m = e \<and> ?P m) (db_messages b0)))" by simp
  with assms(2,3) a b s show ?thesis by (cases ok) (auto simp: MessageFetch_def in_mailbox_split)
qed

section \<open>Writing\<close>

lemma same_insert_box:
  assumes "same_db e a b"
  shows "rel_option (same_db e) (insert_box e t a) (insert_box e t b)"
proof -
  have "(e, t) \<in> set bs \<longleftrightarrow> (e, t) \<in> set (filter (\<lambda>x. fst x = e) bs)" for bs by simp
  from this [of "db_boxes a"] this [of "db_boxes b"] have "(e, t) \<in> set (db_boxes a) \<longleftrightarrow> (e, t) \<in> set (db_boxes b)"
    using assms by (simp only: same_db_iff)
  with assms show ?thesis by (simp add: insert_box_def same_db_iff)
qed

lemma own_taken: "list_ex (\<lambda>x. mr_email x = e \<and> mr_uid x = u) ms \<longleftrightarrow> u \<in> set (uids_of e ms)"
  by (auto simp: list_ex_iff)

lemma same_insert_message:
  assumes "same_db e a b" and "mr_email m = e" and "no_id m = no_id n"
  shows "rel_option (same_db e) (insert_message m a) (insert_message n b)"
proof -
  have o: "own_rows e (db_messages a) = own_rows e (db_messages b)" using assms(1) by (simp add: same_db_iff)
  have n: "mr_email n = e" "mr_uid n = mr_uid m"
    using arg_cong [OF assms(3), of mr_email] arg_cong [OF assms(3), of mr_uid] assms(2) by simp_all
  have "own_rows e (db_messages a @ [m\<lparr>mr_id := i\<rparr>]) = own_rows e (db_messages b @ [n\<lparr>mr_id := j\<rparr>])" for i j
    using o n assms by (simp add: own_rows_append) (simp add: own_rows_def)
  then show ?thesis using assms(1,2) n own_uids [OF o] unfolding insert_message_def own_taken
    by (simp add: same_db_iff)
qed

lemma same_copy_rows:
  assumes "same_db e a b" and "map no_id ms = map no_id ns" and "\<forall>m\<in>set ms. mr_email m = e"
  shows "rel_option (same_db e) (copy_rows target uid ms a) (copy_rows target uid ns b)"
  using assms
proof (induction ms arbitrary: ns a b uid)
  case (Cons m ms)
  then obtain n ns' where ns: "ns = n # ns'" "no_id m = no_id n" "map no_id ms = map no_id ns'" by (cases ns) auto
  have "no_id (m\<lparr>mr_uid := uid, mr_mailbox := target\<rparr>) = (no_id m)\<lparr>mr_uid := uid, mr_mailbox := target\<rparr>"
    "no_id (n\<lparr>mr_uid := uid, mr_mailbox := target\<rparr>) = (no_id n)\<lparr>mr_uid := uid, mr_mailbox := target\<rparr>" by simp_all
  with ns have "no_id (m\<lparr>mr_uid := uid, mr_mailbox := target\<rparr>) = no_id (n\<lparr>mr_uid := uid, mr_mailbox := target\<rparr>)" by simp
  from same_insert_message [OF Cons.prems(1) _ this] Cons.prems(3)
  have "rel_option (same_db e) (insert_message (m\<lparr>mr_uid := uid, mr_mailbox := target\<rparr>) a) (insert_message (n\<lparr>mr_uid := uid, mr_mailbox := target\<rparr>) b)"
    by simp
  then show ?case
  proof (cases rule: option.rel_cases)
    case (Some x y)
    with Cons.IH [of x y ns' "uid + 1"] ns Cons.prems(3) show ?thesis by simp
  qed (use ns in simp)
qed simp

lemma write_op:
  assumes "same_db e a b" and "\<And>d1 d2. same_db e d1 d2 \<Longrightarrow> rel_option (same_db e) (f d1) (f d2)"
    and "\<And>db. op db = (case db_call db of (False, db1) \<Rightarrow> (db1, False)
      | (True, db1) \<Rightarrow> (case f db1 of None \<Rightarrow> (db1, False) | Some db2 \<Rightarrow> (db2, True)))"
  shows "same_result e (op a) (op b)"
proof -
  obtain ok a1 where a: "db_call a = (ok, a1)" by fastforce
  obtain ok' b1 where b: "db_call b = (ok', b1)" by fastforce
  from same_call [OF assms(1) a b] have s: "ok' = ok" "same_db e a1 b1" by auto
  from assms(2) [OF s(2)] s a b assms(3) [of a] assms(3) [of b] show ?thesis
    by (cases ok; cases "f a1"; cases "f b1") (auto simp: same_result_def)
qed

lemma same_create [private_ops]:
  assumes "same_db e a b"
  shows "same_result e (MailboxCreate e t a) (MailboxCreate e t b)"
  by (rule write_op [OF assms same_insert_box]) (simp_all add: MailboxCreate_def)

lemma same_delete [private_ops]:
  assumes "same_db e a b"
  shows "same_result e (MailboxDelete e t a) (MailboxDelete e t b)"
proof (rule write_op [OF assms, of "\<lambda>db. Some (db\<lparr>db_boxes := filter (\<lambda>b. b \<noteq> (e, t)) (db_boxes db)\<rparr>)"])
  fix d1 d2
  assume "same_db e d1 d2"
  then have s: "db_accounts d1 = db_accounts d2" "db_faults d1 = db_faults d2" "own_rows e (db_messages d1) = own_rows e (db_messages d2)"
    "filter (\<lambda>x. fst x = e) (db_boxes d1) = filter (\<lambda>x. fst x = e) (db_boxes d2)"
    by (simp_all add: same_db_iff)
  have m: "filter (\<lambda>x. fst x = e) (filter (\<lambda>b. b \<noteq> (e, t)) bs) = filter (\<lambda>b. b \<noteq> (e, t)) (filter (\<lambda>x. fst x = e) bs)" for bs
    by (induction bs) auto
  have "filter (\<lambda>x. fst x = e) (filter (\<lambda>b. b \<noteq> (e, t)) (db_boxes d1)) = filter (\<lambda>x. fst x = e) (filter (\<lambda>b. b \<noteq> (e, t)) (db_boxes d2))"
    by (simp only: m s)
  with s show "rel_option (same_db e) (Some (d1\<lparr>db_boxes := filter (\<lambda>b. b \<noteq> (e, t)) (db_boxes d1)\<rparr>)) (Some (d2\<lparr>db_boxes := filter (\<lambda>b. b \<noteq> (e, t)) (db_boxes d2)\<rparr>))"
    by (simp add: same_db_iff del: filter_filter)
qed (auto simp: MailboxDelete_def split: prod.split bool.split)

lemma same_rename [private_ops]:
  assumes "same_db e a b"
  shows "same_result e (MailboxRename e t u a) (MailboxRename e t u b)"
proof (rule write_op [OF assms, of "\<lambda>db. if (e, t) \<in> set (db_boxes db) \<and> (e, u) \<in> set (db_boxes db) \<and> t \<noteq> u then None
      else Some (db\<lparr>db_boxes := map (\<lambda>b. if b = (e, t) then (e, u) else b) (db_boxes db)\<rparr>)"])
  fix d1 d2
  assume s: "same_db e d1 d2"
  have m: "filter (\<lambda>x. fst x = e) (map (\<lambda>b. if b = (e, t) then (e, u) else b) bs) = map (\<lambda>b. if b = (e, t) then (e, u) else b) (filter (\<lambda>x. fst x = e) bs)" for bs
    by (induction bs) auto
  have i: "(e, v) \<in> set bs \<longleftrightarrow> (e, v) \<in> set (filter (\<lambda>x. fst x = e) bs)" for v bs by simp
  have "(e, v) \<in> set (db_boxes d1) \<longleftrightarrow> (e, v) \<in> set (db_boxes d2)" for v
    using i [of v "db_boxes d1"] i [of v "db_boxes d2"] s by (simp only: same_db_iff)
  then show "rel_option (same_db e)
      (if (e, t) \<in> set (db_boxes d1) \<and> (e, u) \<in> set (db_boxes d1) \<and> t \<noteq> u then None else Some (d1\<lparr>db_boxes := map (\<lambda>b. if b = (e, t) then (e, u) else b) (db_boxes d1)\<rparr>))
      (if (e, t) \<in> set (db_boxes d2) \<and> (e, u) \<in> set (db_boxes d2) \<and> t \<noteq> u then None else Some (d2\<lparr>db_boxes := map (\<lambda>b. if b = (e, t) then (e, u) else b) (db_boxes d2)\<rparr>))"
    using s m by (simp add: same_db_iff)
qed (auto simp: MailboxRename_def split: prod.split bool.split)

lemma own_filter_rows:
  assumes "\<And>m. P (no_id m) = P m"
  shows "own_rows e (filter P ms) = filter P (own_rows e ms)"
  using assms by (induction ms) (auto simp: own_rows_def)

lemma same_expunge [private_ops]:
  assumes "same_db e a b"
  shows "same_result e (MessageExpunge e box a) (MessageExpunge e box b)"
proof -
  obtain ok a1 where a: "db_call a = (ok, a1)" by fastforce
  obtain ok' b1 where b: "db_call b = (ok', b1)" by fastforce
  from same_call [OF assms a b] have s: "ok' = ok" "same_db e a1 b1" by auto
  then have o: "own_rows e (db_messages a1) = own_rows e (db_messages b1)" by (simp add: same_db_iff)
  have x: "to_expunge e box = (\<lambda>m. mr_email m = e \<and> (mr_mailbox m = box \<and> has_flag ''deleted'' m))"
    by (simp add: fun_eq_iff to_expunge_def in_mailbox_def)
  have "map mr_uid (filter (to_expunge e box) (db_messages a1)) = map mr_uid (filter (to_expunge e box) (db_messages b1))"
    unfolding x by (rule own_filter_map [OF o]) (simp_all add: has_flag_def)
  moreover have "own_rows e (filter (\<lambda>m. \<not> to_expunge e box m) ms) = filter (\<lambda>m. \<not> to_expunge e box m) (own_rows e ms)" for ms
    by (rule own_filter_rows) (simp add: x has_flag_def)
  ultimately show ?thesis using a b s o
    by (cases ok) (simp_all add: MessageExpunge_def same_result_def same_db_iff)
qed

lemma own_update: "own_rows e (update_rows e us f ms) = update_rows e us f (own_rows e ms)"
  by (induction ms) (auto simp: own_rows_def update_rows_def)

lemma same_storeflags [private_ops]:
  assumes "same_db e a b"
  shows "same_result e (MessageStoreFlags e us act fs a) (MessageStoreFlags e us act fs b)"
proof -
  obtain ok a1 where a: "db_call a = (ok, a1)" by fastforce
  obtain ok' b1 where b: "db_call b = (ok', b1)" by fastforce
  from same_call [OF assms a b] have "ok' = ok" "same_db e a1 b1" by auto
  with assms a b show ?thesis
    by (cases ok) (simp_all add: MessageStoreFlags_def store_batches_rows same_result_def same_db_iff own_update)
qed

lemma same_copy [private_ops]:
  assumes "same_db e a b"
  shows "same_result e (MessageCopy e lo hi src dst a) (MessageCopy e lo hi src dst b)"
proof (rule write_op [OF assms, of "\<lambda>db. copy_rows dst (next_uid e db)
          (filter (\<lambda>m. in_mailbox e src m \<and> lo \<le> mr_uid m \<and> mr_uid m \<le> hi) (db_messages db)) db"])
  fix d1 d2
  assume s: "same_db e d1 d2"
  let ?P = "\<lambda>m. mr_mailbox m = src \<and> lo \<le> mr_uid m \<and> mr_uid m \<le> hi"
  have "own_rows e (db_messages d1) = own_rows e (db_messages d2)" using s by (simp add: same_db_iff)
  from own_filter_map [OF this, of no_id ?P]
  have "map no_id (filter (\<lambda>m. in_mailbox e src m \<and> lo \<le> mr_uid m \<and> mr_uid m \<le> hi) (db_messages d1))
      = map no_id (filter (\<lambda>m. in_mailbox e src m \<and> lo \<le> mr_uid m \<and> mr_uid m \<le> hi) (db_messages d2))"
    by (simp add: in_mailbox_split conj_assoc)
  from same_copy_rows [OF s this] same_next_uid [OF s]
  show "rel_option (same_db e) (copy_rows dst (next_uid e d1) (filter (\<lambda>m. in_mailbox e src m \<and> lo \<le> mr_uid m \<and> mr_uid m \<le> hi) (db_messages d1)) d1)
     (copy_rows dst (next_uid e d2) (filter (\<lambda>m. in_mailbox e src m \<and> lo \<le> mr_uid m \<and> mr_uid m \<le> hi) (db_messages d2)) d2)"
    by (simp add: in_mailbox_def)
qed (simp add: MessageCopy_def)

lemma same_store [private_ops]:
  assumes "same_db e a b" and "mr_email m = e"
  shows "same_result e (MessageStore m a) (MessageStore m b)"
proof -
  define bx where "bx = (\<lambda>db. if mr_mailbox m = ''INBOX'' then db else case insert_box (mr_email m) (mr_mailbox m) db of None \<Rightarrow> db | Some d \<Rightarrow> d)"
  show ?thesis
  proof (rule write_op [OF assms(1), of "\<lambda>db. insert_message (m\<lparr>mr_uid := next_uid (mr_email m) (bx db)\<rparr>) (bx db)"])
    fix d1 d2
    assume s: "same_db e d1 d2"
    from same_insert_box [OF s, of "mr_mailbox m"] assms(2) s have "same_db e (bx d1) (bx d2)"
      by (auto simp: bx_def split: option.split elim: option.rel_cases)
    with same_next_uid [OF this] assms(2)
    show "rel_option (same_db e) (insert_message (m\<lparr>mr_uid := next_uid (mr_email m) (bx d1)\<rparr>) (bx d1))
        (insert_message (m\<lparr>mr_uid := next_uid (mr_email m) (bx d2)\<rparr>) (bx d2))"
      by (simp add: same_insert_message)
  qed (simp only: MessageStore_def bx_def Let_def)
qed

lemma same_copy_loop [private_ops]:
  "same_db e a b \<Longrightarrow> same_result e (copy_loop e src dst us a) (copy_loop e src dst us b)"
proof (induction us arbitrary: a b)
  case (Cons u us)
  obtain a1 ok where a: "MessageCopy e u u src dst a = (a1, ok)" by fastforce
  obtain b1 ok' where b: "MessageCopy e u u src dst b = (b1, ok')" by fastforce
  from same_copy [OF Cons.prems, of u u src dst] a b have "ok' = ok" "same_db e a1 b1" by (simp_all add: same_result_def)
  with Cons.IH [of a1 b1] a b show ?case by (cases ok) (simp_all add: same_result_def)
qed (simp add: same_result_def)

section \<open>Answers\<close>

definition same_world :: "string \<Rightarrow> 'b world \<Rightarrow> 'b world \<Rightarrow> bool" where
  "same_world e v w \<longleftrightarrow>
     same_db e (wd_db v) (wd_db w) \<and> wd_disk v = wd_disk w \<and> wd_fw v = wd_fw w \<and> wd_lim v = wd_lim w \<and> wd_now v = wd_now w
     \<and> wd_fresh v = wd_fresh w \<and> wd_rehash v = wd_rehash w"

definition same_reply :: "string \<Rightarrow> 'b reply \<Rightarrow> 'b reply \<Rightarrow> bool" where
  "same_reply e r s \<longleftrightarrow> fst r = fst s \<and> same_world e (fst (snd r)) (fst (snd s)) \<and> snd (snd r) = snd (snd s)"

lemma same_replyI: "same_world e v w \<Longrightarrow> same_reply e (c, v, out) (c, w, out)"
  by (simp add: same_reply_def)

lemma same_world_db [simp]: "same_world e v w \<Longrightarrow> same_db e a b \<Longrightarrow> same_world e (v\<lparr>wd_db := a\<rparr>) (w\<lparr>wd_db := b\<rparr>)"
  by (simp add: same_world_def)

lemma same_world_dbD: "same_world e v w \<Longrightarrow> same_db e (wd_db v) (wd_db w)"
  by (simp add: same_world_def)

lemma after:
  assumes "same_result e x y" and "\<And>d d' r. same_db e d d' \<Longrightarrow> same_reply e (f d r) (g d' r)"
  shows "same_reply e (case_prod f x) (case_prod g y)"
  using assms by (cases x; cases y) (simp add: same_result_def)

lemma same_if:
  "(b \<Longrightarrow> same_reply e r s) \<Longrightarrow> (\<not> b \<Longrightarrow> same_reply e r' s') \<Longrightarrow> same_reply e (if b then r else r') (if b then s else s')"
  by simp

lemma guards_same:
  "same_world e v w \<Longrightarrow> same_reply e r s \<Longrightarrow> same_reply e (need_auth tag c v r) (need_auth tag c w s)"
  "same_world e v w \<Longrightarrow> same_reply e r s \<Longrightarrow> same_reply e (need_mailbox tag c v r) (need_mailbox tag c w s)"
  "same_world e v w \<Longrightarrow> same_reply e r s \<Longrightarrow> same_reply e (need_name tag name c v r) (need_name tag name c w s)"
  by (simp_all add: need_auth_def need_mailbox_def need_name_def same_replyI)

lemma done_same:
  "same_world e v w \<Longrightarrow> same_result e x y \<Longrightarrow> same_reply e (done_or_failed tag verb c v x) (done_or_failed tag verb c w y)"
  by (cases x; cases y) (simp add: done_or_failed_def same_result_def same_replyI)

named_theorems private_commands "commands that answer the same for the same mail"

lemma same_push [private_commands]:
  assumes "same_world (ic_auth c) v w"
  shows "same_reply (ic_auth c) (pushMailboxUpdates c v) (pushMailboxUpdates c w)"
  using assms unfolding pushMailboxUpdates_def
  by (simp only: if_split) (auto intro!: same_replyI after same_select simp: same_world_dbD split: option.split)

lemma same_boxes [private_commands]:
  assumes "same_world (ic_auth c) v w"
  shows "same_reply (ic_auth c) (select_box verb access tag args c v) (select_box verb access tag args c w)"
    "same_reply (ic_auth c) (cmdList E tag args c v) (cmdList E tag args c w)"
    "same_reply (ic_auth c) (cmdLsub E tag c v) (cmdLsub E tag c w)"
    "same_reply (ic_auth c) (cmdStatus E tag args c v) (cmdStatus E tag args c w)"
    "same_reply (ic_auth c) (cmdCreate tag args c v) (cmdCreate tag args c w)"
    "same_reply (ic_auth c) (cmdDelete tag args c v) (cmdDelete tag args c w)"
    "same_reply (ic_auth c) (cmdRename tag args c v) (cmdRename tag args c w)"
proof -
  note s = same_world_dbD [OF assms]
  note go = guards_same [OF assms] done_same [OF assms] same_replyI [OF assms] after private_ops [OF s]
  show "same_reply (ic_auth c) (select_box verb access tag args c v) (select_box verb access tag args c w)"
    unfolding select_box_def Let_def by (intro go) (auto intro!: same_replyI simp: assms split: option.split)
  show "same_reply (ic_auth c) (cmdList E tag args c v) (cmdList E tag args c w)"
    unfolding cmdList_def Let_def case_prod_beta [of _ "list_options E args"]
    by (intro go same_if) (auto intro!: same_replyI simp: assms split: option.split)
  show "same_reply (ic_auth c) (cmdLsub E tag c v) (cmdLsub E tag c w)"
    unfolding cmdLsub_def by (intro go) (auto intro!: same_replyI simp: assms split: option.split)
  show "same_reply (ic_auth c) (cmdStatus E tag args c v) (cmdStatus E tag args c w)"
    unfolding cmdStatus_def Let_def by (intro go) (auto intro!: same_replyI simp: assms split: option.split)
  show "same_reply (ic_auth c) (cmdCreate tag args c v) (cmdCreate tag args c w)"
    "same_reply (ic_auth c) (cmdDelete tag args c v) (cmdDelete tag args c w)"
    unfolding cmdCreate_def cmdDelete_def Let_def by (intro go)+
  show "same_reply (ic_auth c) (cmdRename tag args c v) (cmdRename tag args c w)"
    unfolding cmdRename_def by (intro guards_same(1) [OF assms]) (auto intro!: go split: list.split)
qed

text \<open>The items of a FETCH do not show the internal number of a row.\<close>

lemma cols_no_id [simp]:
  "col (m\<lparr>mr_id := i\<rparr>) = col m" "hasHTML (m\<lparr>mr_id := i\<rparr>) = hasHTML m" "hasText (m\<lparr>mr_id := i\<rparr>) = hasText m"
  "boundary_of (m\<lparr>mr_id := i\<rparr>) = boundary_of m" "newRawView (m\<lparr>mr_id := i\<rparr>) = newRawView m"
  by (simp_all add: fun_eq_iff col_def hasHTML_def hasText_def boundary_of_def newRawView_def)

lemma made_no_id [simp]:
  "header_lines E (m\<lparr>mr_id := i\<rparr>) = header_lines E m" "alternative_type (m\<lparr>mr_id := i\<rparr>) = alternative_type m"
  "alternative_body (m\<lparr>mr_id := i\<rparr>) = alternative_body m" "made_structure (m\<lparr>mr_id := i\<rparr>) = made_structure m"
  "writeEnvelope E (m\<lparr>mr_id := i\<rparr>) = writeEnvelope E m"
  by (simp_all add: header_lines_def alternative_type_def alternative_body_def made_structure_def writeEnvelope_def)

lemma body_no_id [simp]: "buildFullBody E (m\<lparr>mr_id := i\<rparr>) = buildFullBody E m"
  by (simp add: buildFullBody_def buildRawHeaders_def Let_def cong: if_cong)

lemma section_no_id [simp]: "made_section E (m\<lparr>mr_id := i\<rparr>) = made_section E m"
  by (simp add: fun_eq_iff made_section_def buildFilteredHeaders_def buildRawHeaders_def Let_def cong: if_cong)

lemma selectors_no_id [simp]: "write_selectors E sels (m\<lparr>mr_id := i\<rparr>) v = write_selectors E sels m v"
proof (induction sels arbitrary: v)
  case (Cons sel sels)
  have "writeBodySection E sel (m\<lparr>mr_id := i\<rparr>) v = writeBodySection E sel m v"
    unfolding writeBodySection_def section_no_id ..
  with Cons.IH show ?case by (simp split: prod.split option.split)
qed simp

lemma items_no_id [simp]: "writeFetchItems E items (m\<lparr>mr_id := i\<rparr>) isUID v = writeFetchItems E items m isUID v"
proof -
  have "size_item E (m\<lparr>mr_id := i\<rparr>) = size_item E m" "full_item E (m\<lparr>mr_id := i\<rparr>) = full_item E m"
    "writeBodyStructure E (m\<lparr>mr_id := i\<rparr>) = writeBodyStructure E m"
    unfolding fun_eq_iff size_item_def full_item_def writeBodyStructure_def body_no_id made_no_id by simp_all
  moreover have "writeEnvelope E (m\<lparr>mr_id := i\<rparr>) = writeEnvelope E m" "col (m\<lparr>mr_id := i\<rparr>) = col m"
    "mr_uid (m\<lparr>mr_id := i\<rparr>) = mr_uid m" "mr_flags (m\<lparr>mr_id := i\<rparr>) = mr_flags m" by simp_all
  ultimately show ?thesis unfolding writeFetchItems_def by (simp only: selectors_no_id)
qed

definition same_run :: "string \<Rightarrow> 'b world \<times> string \<times> bool \<Rightarrow> 'b world \<times> string \<times> bool \<Rightarrow> bool" where
  "same_run e r s \<longleftrightarrow> same_world e (fst r) (fst s) \<and> snd r = snd s"

lemma same_row:
  assumes "no_id m = no_id n"
  shows "writeFetchItems E items m isUID (newRawView m, d) = writeFetchItems E items n isUID (newRawView n, d)"
  using arg_cong [OF assms, of "\<lambda>m. writeFetchItems E items m isUID (newRawView m, d)"] by simp

lemma same_fetch_loop:
  "same_world (ic_auth c) v w \<Longrightarrow> same_run (ic_auth c) (fetch_loop E items isUID all c us v) (fetch_loop E items isUID all c us w)"
proof (induction us arbitrary: v w)
  case (Cons u us)
  obtain a r where a: "MessageFetch (ic_auth c) (ic_mailbox c) u u (wd_db v) = (a, r)" by fastforce
  obtain b r' where b: "MessageFetch (ic_auth c) (ic_mailbox c) u u (wd_db w) = (b, r')" by fastforce
  from same_fetch [OF same_world_dbD [OF Cons.prems] a b] have d: "same_db (ic_auth c) a b" "map_option (map no_id) r = map_option (map no_id) r'"
    by auto
  have dk: "wd_disk w = wd_disk v" using Cons.prems by (simp add: same_world_def)
  show ?case
  proof (cases "\<exists>m ms. r = Some (m # ms)")
    case True
    then obtain m ms where r: "r = Some (m # ms)" by blast
    with d(2) obtain n ns where r': "r' = Some (n # ns)" and mn: "no_id m = no_id n" by (cases r'; cases "the r'") auto
    obtain t ok x where i: "writeFetchItems E items m isUID (newRawView m, wd_disk v) = (t, ok, x)" by (metis prod_cases3)
    with same_row [OF mn] dk have j: "writeFetchItems E items n isUID (newRawView n, wd_disk w) = (t, ok, x)" by metis
    have w1: "same_world (ic_auth c) (v\<lparr>wd_db := a, wd_disk := snd x\<rparr>) (w\<lparr>wd_db := b, wd_disk := snd x\<rparr>)"
      using Cons.prems d(1) by (simp add: same_world_def)
    from Cons.IH [OF w1] a b r r' i j w1 show ?thesis
      by (cases ok) (auto simp: same_run_def split: prod.split)
  next
    case False
    with d(2) have f: "\<not> (\<exists>m ms. r' = Some (m # ms))" by (cases r; cases r') auto
    have "fetch_loop E items isUID all c (u # us) v = fetch_loop E items isUID all c us (v\<lparr>wd_db := a\<rparr>)"
      using False a by (cases r) (auto split: list.split)
    moreover have "fetch_loop E items isUID all c (u # us) w = fetch_loop E items isUID all c us (w\<lparr>wd_db := b\<rparr>)"
      using f b by (cases r') (auto split: list.split)
    ultimately show ?thesis using Cons.IH [of "v\<lparr>wd_db := a\<rparr>" "w\<lparr>wd_db := b\<rparr>"] Cons.prems d(1) by simp
  qed
qed (simp add: same_run_def)

lemma same_messages [private_commands]:
  assumes "same_world (ic_auth c) v w"
  shows "same_reply (ic_auth c) (cmdFetch E tag args isUID c v) (cmdFetch E tag args isUID c w)"
    "same_reply (ic_auth c) (cmdStore E tag args isUID c v) (cmdStore E tag args isUID c w)"
    "same_reply (ic_auth c) (cmdExpunge tag c v) (cmdExpunge tag c w)"
    "same_reply (ic_auth c) (cmdClose tag c v) (cmdClose tag c w)"
    "same_reply (ic_auth c) (cmdSearch E tag args c v) (cmdSearch E tag args c w)"
    "same_reply (ic_auth c) (cmdIdle tag c v) (cmdIdle tag c w)"
proof -
  note s = same_world_dbD [OF assms]
  note go = guards_same [OF assms] same_replyI [OF assms] after private_ops [OF s]
  have loop: "same_reply (ic_auth c)
      (case fetch_loop E items isUID all c us (v\<lparr>wd_db := d\<rparr>) of (w1, out, True) \<Rightarrow> (c, w1, out @ t) | (w1, out, False) \<Rightarrow> (c\<lparr>ic_mode := Panicked\<rparr>, w1, out))
      (case fetch_loop E items isUID all c us (w\<lparr>wd_db := d'\<rparr>) of (w1, out, True) \<Rightarrow> (c, w1, out @ t) | (w1, out, False) \<Rightarrow> (c\<lparr>ic_mode := Panicked\<rparr>, w1, out))"
    if "same_db (ic_auth c) d d'" for items all us d d' t
    using same_fetch_loop [OF same_world_db [OF assms that], of E items isUID all us]
    by (auto simp: same_run_def intro: same_replyI split: prod.split bool.split)
  show "same_reply (ic_auth c) (cmdFetch E tag args isUID c v) (cmdFetch E tag args isUID c w)"
    unfolding cmdFetch_def
    by (intro guards_same(2) [OF assms]) (auto intro!: same_replyI after same_uids loop simp: assms s split: list.split option.split)
  show "same_reply (ic_auth c) (cmdStore E tag args isUID c v) (cmdStore E tag args isUID c w)"
    unfolding cmdStore_def
    by (intro guards_same(2) [OF assms])
       (auto intro!: same_replyI after same_uids done_same same_storeflags simp: assms s Let_def split: list.split option.split)
  show "same_reply (ic_auth c) (cmdExpunge tag c v) (cmdExpunge tag c w)"
    "same_reply (ic_auth c) (cmdSearch E tag args c v) (cmdSearch E tag args c w)"
    "same_reply (ic_auth c) (cmdIdle tag c v) (cmdIdle tag c w)"
    unfolding cmdExpunge_def cmdSearch_def cmdIdle_def
    by (intro go; auto intro!: same_replyI simp: assms split: option.split)+
  show "same_reply (ic_auth c) (cmdClose tag c v) (cmdClose tag c w)"
    using same_expunge [OF s, of "ic_mailbox c"] unfolding cmdClose_def
    by (intro guards_same(2) [OF assms]) (simp add: same_reply_def same_result_def assms)
qed

lemma same_copies [private_commands]:
  assumes "same_world (ic_auth c) v w"
  shows "same_reply (ic_auth c) (cmdCopy E tag args isUID c v) (cmdCopy E tag args isUID c w)"
  unfolding cmdCopy_def Let_def
  by (intro guards_same(2) [OF assms])
     (auto intro!: same_replyI after same_uids done_same same_copy same_copy_loop guards_same same_if
       simp: assms same_world_dbD [OF assms] split: list.split option.split)

lemma storeRaw_same:
  assumes "same_world e v w" and "storeRaw E raw v = (v1, ref)" and "storeRaw E raw w = (w1, ref')"
  shows "same_world e v1 w1 \<and> ref' = ref"
  using assms by (auto simp: storeRaw_def same_world_def split: option.splits prod.splits)

lemma same_append [private_commands]:
  assumes "same_world (ic_auth c) v w"
  shows "same_reply (ic_auth c) (cmdAppend E tag args c v) (cmdAppend E tag args c w)"
proof -
  have store: "same_reply (ic_auth c)
      (case storeRaw E raw v of (w1, ref) \<Rightarrow> (case MessageStore (append_row E (ic_auth c) box flags ref raw) (wd_db w1) of (db1, ok) \<Rightarrow> (c1, w1\<lparr>wd_db := db1\<rparr>, f ok)))
      (case storeRaw E raw w of (w1, ref) \<Rightarrow> (case MessageStore (append_row E (ic_auth c) box flags ref raw) (wd_db w1) of (db1, ok) \<Rightarrow> (c1, w1\<lparr>wd_db := db1\<rparr>, f ok)))"
    for raw box flags c1 f
  proof -
    obtain v1 ref where a: "storeRaw E raw v = (v1, ref)" by fastforce
    obtain w1 ref' where b: "storeRaw E raw w = (w1, ref')" by fastforce
    from storeRaw_same [OF assms a b] have s: "same_world (ic_auth c) v1 w1" "ref' = ref" by auto
    have "same_result (ic_auth c) (MessageStore (append_row E (ic_auth c) box flags ref raw) (wd_db v1))
        (MessageStore (append_row E (ic_auth c) box flags ref raw) (wd_db w1))"
      by (rule same_store) (simp_all add: same_world_dbD s append_row_def)
    with s show ?thesis unfolding a b prod.case by (auto intro!: after same_replyI)
  qed
  show ?thesis unfolding cmdAppend_def
    by (intro guards_same(1) [OF assms])
       (auto intro!: same_replyI guards_same(3) same_if store simp: assms Let_def split: list.split option.split)
qed

lemma same_uid_command [private_commands]:
  assumes "same_world (ic_auth c) v w"
  shows "same_reply (ic_auth c) (cmdUID E tag args c v) (cmdUID E tag args c w)"
  using assms by (auto simp: cmdUID_def Let_def private_commands intro: same_replyI split: list.split)

lemma same_mail_command:
  assumes "same_world (ic_auth c) v w"
  shows "same_reply (ic_auth c) (mail_command E cmd tag args c v) (mail_command E cmd tag args c w)"
proof (cases "cmd = ''NOOP''")
  case True
  then show ?thesis using same_push [OF assms]
    by (auto simp: mail_command_def same_reply_def split: prod.split)
qed (use assms in \<open>simp add: mail_command_def cmdSelect_def cmdExamine_def private_commands same_replyI\<close>)

section \<open>Logging in\<close>

lemma same_authenticate:
  assumes "same_world e v w"
  shows "same_reply e (authenticateUser E tag user pass c v) (authenticateUser E tag user pass c w)"
proof -
  have failed: "same_reply e (auth_failed tag c v') (auth_failed tag c w')" if "same_world e v' w'" for v' w' :: "'a world"
    using that by (simp add: auth_failed_def same_reply_def same_world_def)
  obtain a r where a: "AccountExists user (wd_db v) = (a, r)" by fastforce
  obtain b r' where b: "AccountExists user (wd_db w) = (b, r')" by fastforce
  from same_account [OF same_world_dbD [OF assms], of user] a b have d: "r' = r" "same_db e a b" by (simp_all add: same_result_def)
  obtain l h x where l: "bindUser (ic_handle c) user (wd_lim w) = (l, h, x)" by (metis prod_cases3)
  have "wd_lim v = wd_lim w" using assms by (simp add: same_world_def)
  then have l': "bindUser (ic_handle c) user (wd_lim v) = (l, h, x)" using l by simp
  show ?thesis
  proof (cases "\<exists>acc. r = Some (Some acc)")
    case True
    then obtain acc where r: "r = Some (Some acc)" by blast
    show ?thesis unfolding authenticateUser_def a b d(1) r prod.case option.case l l'
      by (intro same_if) (use assms d(2) in \<open>auto intro!: failed same_replyI simp: same_world_def\<close>)
  next
    case False
    then consider "r = None" | "r = Some None" by (cases r; cases "the r") auto
    then show ?thesis by cases (simp_all add: authenticateUser_def a b d failed assms)
  qed
qed

lemma same_login:
  assumes "same_world e v w"
  shows "same_reply e (cmdLogin E tag args c v) (cmdLogin E tag args c w)"
    "same_reply e (cmdAuthenticate E tag args c v) (cmdAuthenticate E tag args c w)"
proof -
  show "same_reply e (cmdLogin E tag args c v) (cmdLogin E tag args c w)"
    using assms by (auto simp: cmdLogin_def same_authenticate intro: same_replyI split: list.split)
  have "same_reply e (case authenticateUser E tag user pass c1 v of (c2, w2, out) \<Rightarrow> (c2, w2, line_of ''+ '' @ out))
      (case authenticateUser E tag user pass c1 w of (c2, w2, out) \<Rightarrow> (c2, w2, line_of ''+ '' @ out))" for user pass c1
    using same_authenticate [OF assms, of E tag user pass c1] by (auto simp: same_reply_def split: prod.split)
  then show "same_reply e (cmdAuthenticate E tag args c v) (cmdAuthenticate E tag args c w)"
    using assms by (auto simp: cmdAuthenticate_def Let_def intro!: same_replyI same_if split: option.split list.split)
qed

lemma same_serve:
  assumes "same_world (ic_auth c) v w"
  shows "same_reply (ic_auth c) (serve_line E raw c v) (serve_line E raw c w)"
proof -
  have "same_reply (ic_auth c) (serve_command E cmd tag args c v) (serve_command E cmd tag args c w)" for cmd tag args
    using assms by (auto simp: serve_command_def same_login same_mail_command intro: same_replyI split: option.split)
  then show ?thesis using assms
    by (auto simp: serve_line_def Let_def intro!: same_replyI same_if split: list.split)
qed

lemma same_end:
  assumes "same_reply e r s"
  shows "same_reply e (end_conn r) (end_conn s)"
  using assms by (auto simp: end_conn_def same_reply_def same_world_def split: prod.split)

lemma same_conn_run:
  assumes "same_world (ic_auth c) v w"
  shows "same_reply (ic_auth c) (conn_run E ev c v) (conn_run E ev c w)"
proof -
  have line: "same_reply (ic_auth c) (serve_line E raw c1 v) (serve_line E raw c1 w)" if "conn_line c = Some (raw, c1)" for raw c1
  proof -
    have "ic_auth c1 = ic_auth c" using that by (auto simp: conn_line_def)
    with same_serve [of c1 v w E raw] assms show ?thesis by simp
  qed
  have "same_reply (ic_auth c) (conn_event E ev c v) (conn_event E ev c w)"
    using assms by (auto simp: conn_event_def idle_input_def intro!: same_replyI same_end same_push line
        split: conn_mode.split net_event.split option.split)
  then show ?thesis by (auto simp: conn_run_def same_reply_def split: prod.split)
qed

section \<open>Property\<close>



end
