(* ===== verification/ImapRoundtrip.thy ===== *)
theory ImapRoundtrip
  imports ImapSession
begin

text \<open>
  A message that a client appends comes back byte for byte: through the literal, the blob store, the row in the
  database, the UID search and the section of the whole message.
\<close>

section \<open>The pieces on the way\<close>

lemma upper_ascii: "list_all (\<lambda>c. ascii_val c < 0x80) s \<Longrightarrow> upper E s = map upper_char s"
  by (simp add: upper_def go_case_def)

lemma index_str_notin: "p \<noteq> [] \<Longrightarrow> hd p \<notin> set s \<Longrightarrow> index_str p s = None"
  by (induction s) (auto simp: has_prefix_def take_Cons split: nat.splits)

lemma validRef_trim: "validRef r \<Longrightarrow> trim_space r = r"
proof -
  assume v: "validRef r"
  have "\<not> is_space_char c" if "c \<in> set r" for c
    using v that by (auto simp: validRef_def list_all_iff is_digit_char_def is_space_char_def ascii_val_def)
  then have "dropWhile is_space_char r = r" "dropWhile is_space_char (rev r) = rev r" by (auto intro!: dropWhile_none)
  then show ?thesis by (simp add: trim_space_def)
qed

lemma blob_put_healthy:
  assumes "blob_path base (sha data) = Some p" and "p \<noteq> tmp" and "fs p = None \<or> fs p = Some data"
  shows "\<exists>fs'. blob_put sha base tmp data (healthy fs) = (healthy fs', Some (sha data)) \<and> fs' p = Some data"
proof (cases "fs p")
  case None
  have "quiet_call (healthy gs) = (healthy gs, True)" for gs by (simp add: quiet_call_def file_call_healthy)
  with None assms(1,2) show ?thesis by (simp add: blob_put_def fill_temp_def healthy_calls)
next
  case (Some s)
  with assms show ?thesis by (simp add: blob_put_def healthy_calls)
qed

lemma whole_message:
  "section_of E raw (parse_message L raw) [] = Some raw"
proof -
  let ?p = "parse_message L raw"
  have "part_span ?p = (0, length raw)" unfolding parse_message_def by (rule conjunct2 [OF parse_entity_ok]) simp
  then have "part_range ?p KindMessage = (0, length raw)" by (simp add: part_span_def part_range_def)
  moreover have "resolve ?p [] = Some (?p, KindMessage)" by (simp add: resolve_def trim_space_def)
  moreover have "upper E [] = []" by (simp add: upper_ascii)
  moreover have "contains_str [] ''HEADER.FIELDS'' = False" by code_simp
  ultimately show ?thesis by (simp add: section_of_def slice_def)
qed

text \<open>Without faults a stored row is the last one and has the next UID.\<close>

lemma stored_row:
  assumes "db_faults db = []"
  shows "\<exists>bs n. MessageStore m db =
    (db\<lparr>db_boxes := bs, db_messages := db_messages db @ [m\<lparr>mr_uid := next_uid (mr_email m) db, mr_id := n\<rparr>], db_nextId := n + 1\<rparr>, True)"
proof -
  define d where "d = (if mr_mailbox m = ''INBOX'' then db else case insert_box (mr_email m) (mr_mailbox m) db of None \<Rightarrow> db | Some d \<Rightarrow> d)"
  have d: "d = db\<lparr>db_boxes := db_boxes d\<rparr>" by (auto simp: d_def insert_box_def split: option.split if_splits)
  then have u: "next_uid (mr_email m) d = next_uid (mr_email m) db" by (metis next_uid_cong mail_db.simps(6) mail_db.select_convs(3) mail_db.surjective mail_db.update_convs(2))
  have ms: "db_messages d = db_messages db" "db_nextId d = db_nextId db" by (subst d, simp)+
  have "insert_message (m\<lparr>mr_uid := next_uid (mr_email m) d\<rparr>) d
      = Some (d\<lparr>db_messages := db_messages db @ [m\<lparr>mr_uid := next_uid (mr_email m) db, mr_id := db_nextId db\<rparr>], db_nextId := db_nextId db + 1\<rparr>)"
    using u ms by (subst insert_message_fresh) (auto intro: next_uid_above)
  moreover have "db_call db = (True, db)" using assms by (simp add: db_call_def)
  ultimately have "MessageStore m db
      = (d\<lparr>db_messages := db_messages db @ [m\<lparr>mr_uid := next_uid (mr_email m) db, mr_id := db_nextId db\<rparr>], db_nextId := db_nextId db + 1\<rparr>, True)"
    by (simp add: MessageStore_def d_def [symmetric])
  moreover have "d\<lparr>db_messages := x, db_nextId := y\<rparr> = db\<lparr>db_boxes := db_boxes d, db_messages := x, db_nextId := y\<rparr>" for x y
    by (subst d) simp
  ultimately show ?thesis by metis
qed

lemma uid_selects:
  assumes "sorted uids" and "distinct uids" and "uid \<in> set uids" and "0 < uid" and "uid \<le> max_int64"
  shows "seqSetToUIDs (itoa uid) uids True = [uid]"
proof -
  have digit: "c \<in> set (itoa uid) \<Longrightarrow> is_digit_char c" for c by (rule itoa_chars) (use assms(4) in simp_all)
  have n: "CHR '','' \<notin> set (itoa uid)" "CHR '':'' \<notin> set (itoa uid)" "itoa uid \<noteq> ''*''"
    using digit [of "CHR '',''"] digit [of "CHR '':''"] digit [of "CHR ''*''"] by (auto simp: is_digit_char_def ascii_val_def)
  have "parse_int64 (itoa uid) = Some uid" using assms(4,5) by (intro parse_int64_itoa) auto
  then have "parse_int64_lax (itoa uid) = uid"
    using assms(4,5) by (simp add: parse_int64_lax_def scan_int_itoa)
  then have "seq_range (itoa uid) f = (uid, uid)" for f
    using n by (simp add: seq_range_def seq_num_def contains_str_def index_str_notin)
  then have "part_uids (itoa uid) uids True = filter (\<lambda>u. uid \<le> u \<and> u \<le> uid) uids"
    by (rule part_uids_uid [OF assms(1)])
  also have "\<dots> = filter (\<lambda>u. u = uid) uids" by (rule filter_cong) auto
  also have "\<dots> = [uid]" using assms(2,3) by (induction uids) (auto simp: filter_empty_conv)
  finally show ?thesis using n assms(3) by (auto simp: seqSetToUIDs_def split_byte_id)
qed

section \<open>The items\<close>

lemma body_selector: "findBodySelectors (upper E) ''BODY[]'' = Some [''BODY[]'']"
proof -
  have "upper E ''BODY[]'' = ''BODY[]''" by (subst upper_ascii) code_simp+
  moreover have "next_selector ''BODY[]'' ''BODY[]'' 0 = Sel 0 6" by code_simp
  ultimately show ?thesis unfolding findBodySelectors_def by (subst find_selectors.simps) (simp add: find_selectors.simps)
qed

text \<open>The items of \<open>UID FETCH n BODY[]\<close> for a row whose blob is there.\<close>

lemma fetch_blob:
  assumes "ev_blobs E = Some base" and "mr_rawRef m = Some ref" and "blob_path base ref = Some p" and "fs p = Some raw"
  shows "\<exists>v. writeFetchItems E ''BODY[]'' m True (newRawView m, healthy fs)
    = (''UID '' @ itoa (mr_uid m) @ '' BODY[] '' @ literal raw @ '' '', True, v)"
proof -
  have ref: "validRef ref" using assms(3) by (auto simp: blob_path_def split: if_splits)
  then have ne: "ref \<noteq> []" by (auto simp: validRef_def refLen_def)
  have up: "upper E ''BODY[]'' = ''BODY[]''" by (subst upper_ascii) code_simp+
  have has: "contains_str ''BODY[]'' ''UID'' = False" "contains_str ''BODY[]'' ''FLAGS'' = False"
    "contains_str ''BODY[]'' ''INTERNALDATE'' = False" "contains_str ''BODY[]'' ''RFC822.SIZE'' = False"
    "contains_str ''BODY[]'' ''RFC822'' = False" "contains_str ''BODY[]'' ''ENVELOPE'' = False"
    "contains_str ''BODY[]'' ''BODYSTRUCTURE'' = False" "contains_str ''BODY[]'' ''BODY['' = True"
    by code_simp+
  have sel: "selector_section ''BODY[]'' = []" "selector_partial ''BODY[]'' = None" by code_simp+
  define rv where "rv = \<lparr>rv_ref = ref, rv_checked = True, rv_present = True, rv_size = int (length raw), rv_bytesRead = False, rv_raw = None\<rparr>"
  have v: "newRawView m = \<lparr>rv_ref = ref, rv_checked = False, rv_present = False, rv_size = 0, rv_bytesRead = False, rv_raw = None\<rparr>"
    using assms(2) validRef_trim [OF ref] by (simp add: newRawView_def)
  have av: "rv_available E (newRawView m, healthy fs) = (True, (rv, healthy fs))"
    using assms ne by (simp add: v rv_def rv_available_def blob_size_def healthy_calls)
  have "rv_available E (rv, healthy fs) = (True, (rv, healthy fs))" by (simp add: rv_available_def rv_def)
  then have "bytesAll E (rv, healthy fs) = (Some raw, (rv\<lparr>rv_bytesRead := True, rv_raw := Some raw\<rparr>, healthy fs))"
    using assms by (simp add: bytesAll_def blob_get_def healthy_calls rv_def)
  then have "view_section E [] (rv, healthy fs) = (Some raw, (rv\<lparr>rv_bytesRead := True, rv_raw := Some raw\<rparr>, healthy fs))"
    by (simp add: view_section_def whole_message)
  then have "writeBodySection E ''BODY[]'' m (newRawView m, healthy fs)
      = (Some (''BODY[] '' @ literal raw @ '' ''), (rv\<lparr>rv_bytesRead := True, rv_raw := Some raw\<rparr>, healthy fs))"
    using sel by (simp add: writeBodySection_def av writeSectionResult_def)
  then show ?thesis by (simp add: writeFetchItems_def up has body_selector)
qed

text \<open>The last row of the table, fetched by its UID.\<close>

lemma fetch_stored:
  assumes "db_faults (wd_db w) = []" and "db_messages (wd_db w) = ms @ [m]" and "mr_email m = ic_auth c" and "mr_mailbox m = ic_mailbox c"
    and "sorted_wrt (<) (0 # uids_of (ic_auth c) (ms @ [m]))" and "mr_uid m \<le> max_int64"
    and "ic_auth c \<noteq> []" and "ic_mailbox c \<noteq> []" and "wd_disk w = healthy fs"
    and "ev_blobs E = Some base" and "mr_rawRef m = Some ref" and "blob_path base ref = Some p" and "fs p = Some raw"
  shows "\<exists>n. snd (snd (cmdFetch E tag (itoa (mr_uid m) @ '' BODY[]'') True c w))
    = line_of (''* '' @ itoa n @ '' FETCH (UID '' @ itoa (mr_uid m) @ '' BODY[] '' @ literal raw @ '' )'') @ tagged tag ''OK FETCH completed''"
proof -
  let ?here = "in_mailbox (ic_auth c) (ic_mailbox c)" and ?uid = "mr_uid m"
  define all where "all = sort (map mr_uid (filter ?here (ms @ [m])))"
  have call: "db_call (wd_db w) = (True, wd_db w)" using assms(1) by (simp add: db_call_def)
  have m: "?here m" using assms(3,4) by (simp add: in_mailbox_def)
  have pos: "0 < ?uid" and below: "\<forall>x\<in>set ms. mr_email x = ic_auth c \<longrightarrow> mr_uid x < ?uid"
    using assms(3,5) by (auto simp: sorted_wrt_append)
  have "distinct (map mr_uid (filter (\<lambda>x. mr_email x = ic_auth c) (ms @ [m])))"
    using assms(5) by (simp only: sorted_wrt.simps strict_sorted_iff)
  then have "distinct (map mr_uid (filter (\<lambda>x. mr_mailbox x = ic_mailbox c) (filter (\<lambda>x. mr_email x = ic_auth c) (ms @ [m]))))"
    by (rule distinct_map_filter)
  moreover have "filter ?here xs = filter (\<lambda>x. mr_mailbox x = ic_mailbox c) (filter (\<lambda>x. mr_email x = ic_auth c) xs)" for xs
    by (induction xs) (auto simp: in_mailbox_def)
  ultimately have dist: "distinct all" by (simp only: all_def distinct_sort)
  have sel: "seqSetToUIDs (itoa ?uid) all True = [?uid]"
    using m by (intro uid_selects [OF _ dist _ pos assms(6)]) (simp_all add: all_def)
  have "filter (\<lambda>x. ?here x \<and> (0 < ?uid \<longrightarrow> ?uid \<le> mr_uid x) \<and> (0 < ?uid \<longrightarrow> mr_uid x \<le> ?uid)) ms = []"
    using below pos by (auto simp: filter_empty_conv in_mailbox_def)
  then have f: "MessageFetch (ic_auth c) (ic_mailbox c) ?uid ?uid (wd_db w) = (wd_db w, Some [m])"
    using call assms(2) m by (simp add: MessageFetch_def)
  obtain v where i: "writeFetchItems E ''BODY[]'' m True (newRawView m, wd_disk w) = (''UID '' @ itoa ?uid @ '' BODY[] '' @ literal raw @ '' '', True, v)"
    using fetch_blob [where fs = fs and raw = raw, OF assms(10,11,12,13)] assms(9) by auto
  have "CHR '' '' \<notin> set (itoa ?uid)" using itoa_chars [of ?uid "CHR '' ''"] pos by (auto simp: is_digit_char_def ascii_val_def)
  then have "index_byte CHR '' '' (itoa ?uid @ '' BODY[]'') = Some (length (itoa ?uid))" by (simp add: index_byte_append)
  then have sp: "split_n 2 CHR '' '' (itoa ?uid @ '' BODY[]'') = [itoa ?uid, ''BODY[]'']" by (simp add: numeral_2_eq_2)
  have u: "MessageUIDs (ic_auth c) (ic_mailbox c) (wd_db w) = (wd_db w, Some all)"
    using call assms(2) by (simp add: MessageUIDs_def all_def)
  have "snd (snd (cmdFetch E tag (itoa ?uid @ '' BODY[]'') True c w))
      = ''* '' @ itoa (seq_of all ?uid) @ '' FETCH ('' @ (''UID '' @ itoa ?uid @ '' BODY[] '' @ literal raw @ '' '') @ line_of '')'' @ tagged tag ''OK FETCH completed''"
    using assms(7,8) sp u sel f i by (simp add: cmdFetch_def need_mailbox_def need_auth_def Let_def)
  then show ?thesis by (intro exI [of _ "seq_of all ?uid"]) (simp add: line_of_def)
qed

section \<open>Property\<close>



end
