(* ===== verification/ImapRuns.thy ===== *)
theory ImapRuns
  imports ImapRoundtrip
begin

text \<open>
  What holds along a connection: nothing that came in plaintext is read after STARTTLS. And what sessions do that they
  should not.
\<close>

section \<open>What is still to be read\<close>

definition unread :: "imap_conn \<Rightarrow> string" where
  "unread c = ic_buf c @ concat (ic_net c)"

definition part_of :: "string \<Rightarrow> string \<Rightarrow> bool" where
  "part_of s t \<longleftrightarrow> (\<exists>pre post. t = pre @ s @ post)"

lemma part_ofI: "pre @ s @ post = t \<Longrightarrow> part_of s t"
  by (auto simp: part_of_def)

lemma part_of_refl [simp]: "part_of s s"
  by (rule part_ofI [of "[]" _ "[]"]) simp

lemma part_of_Nil [simp]: "part_of [] t"
  by (rule part_ofI [of "[]" _ t]) simp

lemma part_of_append [simp]: "part_of s (s @ t)"
  by (rule part_ofI [of "[]" _ t]) simp

lemma part_of_trans: "part_of r s \<Longrightarrow> part_of s t \<Longrightarrow> part_of r t"
  unfolding part_of_def by (elim exE) (metis append_assoc)

lemma read_line_tail: "read_line buf net = Some (line, buf', net') \<Longrightarrow> buf @ concat net = line @ buf' @ concat net'"
proof (induction buf net rule: read_line.induct)
  case (2 buf s ss)
  then show ?case by (cases "index_byte nl buf") auto
qed (auto split: option.splits)

lemma read_full_tail: "read_full n buf net = Some (s, buf', net') \<Longrightarrow> buf @ concat net = s @ buf' @ concat net'"
proof (induction n buf net rule: read_full.induct)
  case (2 n buf s ss)
  then show ?case by (cases "n \<le> length buf") auto
qed (auto split: if_splits)

text \<open>A step of the connection that reads on, in the same transport.\<close>

definition reads_on :: "imap_conn \<Rightarrow> imap_conn \<Rightarrow> bool" where
  "reads_on c c' \<longleftrightarrow> ic_tls c' = ic_tls c \<and> ic_tlsNet c' = ic_tlsNet c \<and> part_of (unread c') (unread c)"

lemma reads_on_refl [simp]: "reads_on c c"
  by (simp add: reads_on_def)

lemma reads_on_trans: "reads_on a b \<Longrightarrow> reads_on b c \<Longrightarrow> reads_on a c"
  by (auto simp: reads_on_def intro: part_of_trans)

lemma reads_on_fields [simp]:
  "reads_on c (c\<lparr>ic_mailbox := b\<rparr>)" "reads_on c (c\<lparr>ic_mode := m\<rparr>)" "reads_on c (c\<lparr>ic_lastExists := x, ic_lastUnseen := y\<rparr>)"
  "reads_on c (c\<lparr>ic_mailbox := b, ic_lastExists := x, ic_lastUnseen := y\<rparr>)" "reads_on c (c\<lparr>ic_handle := h, ic_auth := a\<rparr>)"
  "reads_on c (c\<lparr>ic_buf := [], ic_net := []\<rparr>)" "reads_on c (c\<lparr>ic_buf := [], ic_net := [], ic_mode := m\<rparr>)"
  "reads_on c (c\<lparr>ic_handle := h, ic_net := [], ic_shut := z\<rparr>)" "reads_on c (c\<lparr>ic_handle := h\<rparr>)"
  by (simp_all add: reads_on_def unread_def)

lemma conn_line_reads: "conn_line c = Some (raw, c1) \<Longrightarrow> reads_on c c1 \<and> ic_auth c1 = ic_auth c \<and> ic_mailbox c1 = ic_mailbox c"
  by (auto simp: conn_line_def reads_on_def unread_def dest!: read_line_tail intro: part_ofI [of _ _ "[]"])

lemma conn_bytes_reads: "conn_bytes n c = Some (raw, c1) \<Longrightarrow> reads_on c c1"
  by (auto simp: conn_bytes_def reads_on_def unread_def dest!: read_full_tail intro: part_ofI [of _ _ "[]"])

named_theorems reading "commands that read on"

lemma guards_reads [reading]:
  "reads_on c (fst r) \<Longrightarrow> reads_on c (fst (need_auth tag c w r))"
  "reads_on c (fst r) \<Longrightarrow> reads_on c (fst (need_mailbox tag c w r))"
  "reads_on c (fst r) \<Longrightarrow> reads_on c (fst (need_name tag name c w r))"
  by (simp_all add: need_auth_def need_mailbox_def need_name_def)

lemma done_reads [reading]: "reads_on c (fst (done_or_failed tag verb c w r))"
  by (cases r) (simp add: done_or_failed_def)

lemma push_reads [reading]: "reads_on c (fst (pushMailboxUpdates c w))"
  by (simp add: pushMailboxUpdates_def split: prod.split option.split)

lemma commands_read [reading]:
  "reads_on c (fst (select_box verb access tag args c w))" "reads_on c (fst (cmdList E tag args c w))"
  "reads_on c (fst (cmdLsub E tag c w))" "reads_on c (fst (cmdStatus E tag args c w))"
  "reads_on c (fst (cmdCreate tag args c w))" "reads_on c (fst (cmdDelete tag args c w))"
  "reads_on c (fst (cmdRename tag args c w))" "reads_on c (fst (cmdFetch E tag args isUID c w))"
  "reads_on c (fst (cmdStore E tag args isUID c w))" "reads_on c (fst (cmdExpunge tag c w))"
  "reads_on c (fst (cmdClose tag c w))" "reads_on c (fst (cmdSearch E tag args c w))"
  "reads_on c (fst (cmdIdle tag c w))" "reads_on c (fst (cmdCopy E tag args isUID c w))"
  unfolding select_box_def cmdList_def cmdLsub_def cmdStatus_def cmdCreate_def cmdDelete_def cmdRename_def cmdFetch_def cmdStore_def
    cmdExpunge_def cmdClose_def cmdSearch_def cmdIdle_def cmdCopy_def Let_def
  by (intro guards_reads; auto intro!: reading split: prod.split option.split list.split bool.split)+

lemma append_reads [reading]: "reads_on c (fst (cmdAppend E tag args c w))"
  unfolding cmdAppend_def Let_def
  by (intro guards_reads) (auto intro!: guards_reads dest: conn_bytes_reads split: prod.split option.split list.split)

lemma uid_reads [reading]: "reads_on c (fst (cmdUID E tag args c w))"
  by (simp add: cmdUID_def Let_def reading split: list.split)

lemma mail_command_reads: "reads_on c (fst (mail_command E cmd tag args c w))"
proof (cases "cmd = ''NOOP''")
  case True
  then show ?thesis using push_reads [of c w] by (simp add: mail_command_def split_def)
qed (simp add: mail_command_def cmdSelect_def cmdExamine_def reading)

lemma authenticate_reads: "reads_on c (fst (authenticateUser E tag user pass c w))"
  by (auto simp: authenticateUser_def auth_failed_def Let_def split: prod.split option.split)

lemma authenticate_readsD: "authenticateUser E tag user pass c w = (c2, w2, out) \<Longrightarrow> reads_on c c2"
  by (metis authenticate_reads fst_conv)

lemma login_reads: "reads_on c (fst (cmdLogin E tag args c w))"
  by (simp add: cmdLogin_def authenticate_reads split: list.split)

lemma authenticate_cmd_reads: "reads_on c (fst (cmdAuthenticate E tag args c w))"
  by (auto simp: cmdAuthenticate_def Let_def split: option.split list.split prod.split
      dest!: conn_line_reads authenticate_readsD intro: reads_on_trans)

section \<open>In plaintext\<close>

text \<open>What a connection accepted in plaintext keeps: the transport it was given, and nothing of its own.\<close>

definition tls_clean :: "string list \<Rightarrow> string list option \<Rightarrow> imap_conn \<Rightarrow> bool" where
  "tls_clean net tlsNet c \<longleftrightarrow>
     (\<not> ic_tls c \<longrightarrow> ic_auth c = [] \<and> ic_mailbox c = [] \<and> ic_tlsNet c = tlsNet \<and> part_of (unread c) (concat net))
     \<and> (ic_tls c \<longrightarrow> (\<exists>segs. tlsNet = Some segs \<and> part_of (unread c) (concat segs)))"

lemma tls_clean_on:
  assumes "tls_clean net tlsNet c" and "reads_on c c'" and "\<not> ic_tls c \<Longrightarrow> ic_auth c' = [] \<and> ic_mailbox c' = []"
  shows "tls_clean net tlsNet c'"
  using assms by (auto simp: tls_clean_def reads_on_def intro: part_of_trans)

lemma starttls_clean:
  assumes "tls_clean net tlsNet c"
  shows "tls_clean net tlsNet (fst (cmdStartTLS tag c))"
  using assms by (auto simp: cmdStartTLS_def tls_clean_def unread_def split: option.split)

lemma plaintext_command:
  assumes "ic_auth c = []" and "ic_mailbox c = []"
  shows "ic_auth (fst (mail_command E cmd tag args c w)) = [] \<and> ic_mailbox (fst (mail_command E cmd tag args c w)) = []"
proof (cases "cmd = ''NOOP''")
  case True
  with assms show ?thesis by (simp add: mail_command_def pushMailboxUpdates_def)
next
  case False
  then show ?thesis using assms
    by (simp add: mail_command_def cmdSelect_def cmdExamine_def select_box_def cmdList_def cmdLsub_def cmdStatus_def
        cmdCreate_def cmdDelete_def cmdRename_def cmdFetch_def cmdStore_def cmdExpunge_def cmdClose_def cmdSearch_def
        cmdIdle_def cmdCopy_def cmdAppend_def cmdUID_def Let_def need_auth_def need_mailbox_def split: list.split)
qed

lemma serve_clean:
  assumes "tls_clean net tlsNet c"
  shows "tls_clean net tlsNet (fst (serve_line E raw c w))"
proof -
  have plain: "\<not> ic_tls c \<Longrightarrow> ic_auth c = [] \<and> ic_mailbox c = []" using assms by (simp add: tls_clean_def)
  have "tls_clean net tlsNet (fst (serve_command E cmd tag args c w))" for cmd tag args
  proof -
    have "tls_clean net tlsNet (fst (mail_command E cmd tag args c w))"
      using assms mail_command_reads by (rule tls_clean_on) (use plain plaintext_command in blast)
    moreover have "tls_clean net tlsNet (fst (cmdLogin E tag args c w))"
      using assms login_reads by (rule tls_clean_on) (use plain in \<open>simp add: cmdLogin_def\<close>)
    moreover have "tls_clean net tlsNet (fst (cmdAuthenticate E tag args c w))"
      using assms authenticate_cmd_reads by (rule tls_clean_on) (use plain in \<open>simp add: cmdAuthenticate_def\<close>)
    moreover have "tls_clean net tlsNet c1" if "simple_command cmd tag c = Some (c1, out)" for c1 out
    proof (cases "c1 = fst (cmdStartTLS tag c)")
      case True
      then show ?thesis using starttls_clean [OF assms] by simp
    next
      case False
      then have "reads_on c c1 \<and> (ic_auth c = [] \<longrightarrow> ic_mailbox c = [] \<longrightarrow> ic_auth c1 = [] \<and> ic_mailbox c1 = [])"
        using that by (auto simp: simple_command_def split: if_splits)
      then show ?thesis using tls_clean_on [OF assms] plain by blast
    qed
    ultimately show ?thesis by (auto simp: serve_command_def split: option.split)
  qed
  moreover have "tls_clean net tlsNet (c\<lparr>ic_mode := Ended\<rparr>)"
    using assms by (rule tls_clean_on) (use plain in simp_all)
  ultimately show ?thesis using assms by (simp add: serve_line_def Let_def split: list.split)
qed

lemma end_clean: "tls_clean net tlsNet (fst r) \<Longrightarrow> tls_clean net tlsNet (fst (end_conn r))"
  by (auto simp: end_conn_def tls_clean_def unread_def split: prod.split)

lemma run_clean:
  assumes "tls_clean net tlsNet c"
  shows "tls_clean net tlsNet (fst (conn_run E ev c w))"
proof -
  have plain: "\<not> ic_tls c \<Longrightarrow> ic_auth c = [] \<and> ic_mailbox c = []" using assms by (simp add: tls_clean_def)
  have gone: "tls_clean net tlsNet (c\<lparr>ic_buf := [], ic_net := [], ic_mode := m\<rparr>)" for m
    using assms by (rule tls_clean_on) (use plain in simp_all)
  have read: "tls_clean net tlsNet c1" "tls_clean net tlsNet (c1\<lparr>ic_mode := Ready\<rparr>)" if "conn_line c = Some (raw, c1)" for raw c1
  proof -
    show t: "tls_clean net tlsNet c1" using assms by (rule tls_clean_on) (use conn_line_reads [OF that] plain in auto)
    then show "tls_clean net tlsNet (c1\<lparr>ic_mode := Ready\<rparr>)"
      by (rule tls_clean_on) (use conn_line_reads [OF that] plain in \<open>auto simp: reads_on_def [of c]\<close>)
  qed
  have push: "tls_clean net tlsNet (fst (pushMailboxUpdates c w))"
    using assms push_reads by (rule tls_clean_on) (use plain in \<open>simp add: pushMailboxUpdates_def\<close>)
  have "tls_clean net tlsNet (fst (conn_event E ev c w))"
    using assms gone read push serve_clean
    by (auto simp: conn_event_def idle_input_def intro!: end_clean split: conn_mode.split net_event.split option.split)
  then show ?thesis by (simp add: conn_run_def split_def)
qed

text \<open>What a connection may come to, whatever other sessions do to the world between its events.\<close>

inductive conn_reach :: "imap_env \<Rightarrow> imap_conn \<Rightarrow> imap_conn \<Rightarrow> 'b world \<Rightarrow> bool" for E :: imap_env and c0 :: imap_conn where
  conn_start: "conn_reach E c0 c0 w"
| conn_next: "conn_reach E c0 c v \<Longrightarrow> conn_reach E c0 (fst (conn_run E ev c v)) w"



section \<open>Properties\<close>

text \<open>
  C3. Over a connection accepted in plaintext, whatever the client and the other sessions do: before the upgrade nobody is
  authenticated and no mailbox is open, and after it everything that is still to be read came through TLS: no byte
  that was sent in plaintext is ever taken for a command of the encrypted session.
\<close>

theorem starttls_isolated:
  assumes "handleConnection ops False tlsConfig ip net tlsNet w0 = (Some c0, w1, greeting)" and "conn_reach E c0 c w"
  shows "(\<not> ic_tls c \<longrightarrow> ic_auth c = [] \<and> ic_mailbox c = [])
    \<and> (ic_tls c \<longrightarrow> (\<exists>segs pre post. tlsNet = Some segs \<and> concat segs = pre @ ic_buf c @ concat (ic_net c) @ post))"
proof -
  have "tls_clean net tlsNet c0"
    using assms(1) by (auto simp: handleConnection_def tls_clean_def unread_def Let_def split: prod.splits bool.splits if_splits)
  with assms(2) have "tls_clean net tlsNet c" by (induction rule: conn_reach.induct) (simp_all add: run_clean)
  then show ?thesis by (auto simp: tls_clean_def part_of_def unread_def)
qed

definition plain_conn :: imap_conn where
  "plain_conn = (demo_conn (line_of ''a STARTTLS''))\<lparr>ic_tls := False, ic_tlsNet := Some [line_of ''b NOOP''],
     ic_handle := Some \<lparr>hd_ip = ''10.0.0.1'', hd_user = [], hd_closed = False\<rparr>\<rparr>"

lemma plain_accepted:
  "\<exists>w1 g. handleConnection open_buckets False True ''10.0.0.1'' [line_of ''a STARTTLS''] (Some [line_of ''b NOOP'']) demo_world = (Some plain_conn, w1, g)"
  by (simp add: handleConnection_def isBlocked_def demo_world_def new_firewall_def acquire_def allowRate_def new_limiter_def IMAPProfile_def
      open_buckets_def put_rate_def cget_def Let_def plain_conn_def demo_conn_def)

theorem starttls_isolated_witness:
  "let c = fst (conn_run demo_env Input plain_conn demo_world)
   in ic_tls c \<and> (\<exists>pre post. line_of ''b NOOP'' = pre @ ic_buf c @ concat (ic_net c) @ post)"
proof -
  obtain w1 g where h: "handleConnection open_buckets False True ''10.0.0.1'' [line_of ''a STARTTLS''] (Some [line_of ''b NOOP'']) demo_world
      = (Some plain_conn, w1, g)" using plain_accepted by blast
  have r: "conn_reach demo_env plain_conn (fst (conn_run demo_env Input plain_conn demo_world)) demo_world"
    by (intro conn_reach.intros)
  have "conn_line plain_conn = Some (''a STARTTLS'' @ crlf, plain_conn\<lparr>ic_net := []\<rparr>)" by code_simp
  moreover have "trim_right (''a STARTTLS'' @ crlf) crlf = ''a STARTTLS''" by code_simp
  moreover have "split_n 3 CHR '' '' ''a STARTTLS'' = [''a'', ''STARTTLS'']" by code_simp
  moreover have "upper demo_env ''STARTTLS'' = ''STARTTLS''" by (subst upper_ascii) code_simp+
  ultimately have "ic_tls (fst (conn_run demo_env Input plain_conn demo_world))"
    by (simp add: conn_run_def conn_event_def end_conn_def serve_line_def serve_command_def simple_command_def cmdStartTLS_def
        maxLineSize_def maxCommandSize_def plain_conn_def demo_conn_def Let_def split: prod.split)
  with starttls_isolated [OF h r] show ?thesis by (simp add: Let_def)
qed

section \<open>Where sessions diverge\<close>

text \<open>
  Ten bytes that are not UTF-8 in front of a selector end the FETCH of any message in a panic; no handler of the
  server recovers from it.
\<close>

lemma upper_bad_bytes: "upper E (replicate 10 (CHR 0xFF) @ ''BODY[]'') = concat (replicate 10 replacement) @ ''BODY[]''"
proof -
  have bad: "rune_len (CHR 0xFF # t) = None" for t by (simp add: rune_len.simps ascii_val_def)
  have "runes (CHR 0xFF # t) = None # runes t" for t by (subst runes.simps) (simp add: bad)
  then have ff: "runes (replicate n (CHR 0xFF) @ t) = replicate n None @ runes t" for n t by (induction n) auto
  have body: "runes ''BODY[]'' = map (\<lambda>c. Some [c]) ''BODY[]''" by (simp add: runes_ascii ascii_val_def)
  have up: "map upper_char ''BODY[]'' = ''BODY[]''" by code_simp
  have "\<not> list_all (\<lambda>c. ascii_val c < 0x80) (replicate 10 (CHR 0xFF) @ ''BODY[]'')" by code_simp
  then have "upper E (replicate 10 (CHR 0xFF) @ ''BODY[]'') = concat (replicate 10 replacement) @ concat (map (\<lambda>c. [upper_char c]) ''BODY[]'')"
    unfolding upper_def go_case_def ff body by (simp only: if_False map_append map_replicate option.case concat_append map_map comp_def list.case)
  with up show ?thesis by simp
qed

lemma fetch_panics: "fst (snd (writeFetchItems E (replicate 10 (CHR 0xFF) @ ''BODY[]'') m isUID v)) = False"
proof -
  have "contains_str (concat (replicate 10 replacement) @ ''BODY[]'') ''BODY['' = True" by code_simp
  moreover have "findBodySelectors (upper E) (replicate 10 (CHR 0xFF) @ ''BODY[]'') = None"
    using selector_panic [of "ev_upper E"] unfolding upper_def [abs_def] .
  ultimately show ?thesis by (simp add: writeFetchItems_def upper_bad_bytes Let_def split: prod.split)
qed

text \<open>EXAMINE leaves the connection as SELECT does, so the commands that follow may write; any valid name can be selected.\<close>

lemma examine_is_select:
  "fst (cmdExamine tag args c w) = fst (cmdSelect tag args c w) \<and> fst (snd (cmdExamine tag args c w)) = fst (snd (cmdSelect tag args c w))"
  by (simp add: cmdExamine_def cmdSelect_def select_box_def need_auth_def need_name_def Let_def split: prod.split option.split)

lemma select_missing:
  assumes "ic_auth c \<noteq> []" and "validMailboxName (unquote_arg (trim_space args))" and "db_faults (wd_db w) = []"
  shows "\<exists>lines. snd (snd (cmdSelect tag args c w)) = lines @ tagged tag ''OK [READ-WRITE] SELECT completed''"
proof -
  have "db_call (wd_db w) = (True, wd_db w)" using assms(3) by (simp add: db_call_def)
  with assms(1,2) show ?thesis
    by (simp add: cmdSelect_def select_box_def need_auth_def need_name_def MailboxSelect_def Let_def)
qed

text \<open>The negated criterion finds the messages it should leave out, and a list of numbers copies the whole mailbox.\<close>

lemma undeleted_search:
  "search_match ''UNDELETED'' (Flags [''deleted'']) \<and> \<not> search_match ''UNDELETED'' (Flags [])
   \<and> search_match ''NOT DELETED'' (Flags [''deleted'']) \<and> \<not> search_match ''NOT DELETED'' (Flags [])"
  by code_simp

lemma copy_list_copies_all: "copy_range ''1,3'' = (0, max_int64)"
proof -
  have "parse_int64_lax ''1,3'' = 0" by code_simp
  moreover have "contains_str ''1,3'' '':'' = False" by code_simp
  ultimately show ?thesis by (simp add: copy_range_def)
qed

text \<open>A second LOGIN counts the user again; closing the connection gives back one.\<close>

lemma login_twice_leaks:
  assumes "u \<noteq> []" and "bindUser (Some \<lparr>hd_ip = ip, hd_user = [], hd_closed = False\<rparr>) u (new_limiter IMAPProfile) = (l1, h1, r1)"
    and "bindUser h1 u l1 = (l2, h2, r2)" and "release h2 l2 = (l3, h3)"
  shows "r2 = ReasonOK \<and> h3 = Some \<lparr>hd_ip = ip, hd_user = u, hd_closed = True\<rparr> \<and> cget (lim_perUser l3) u = 1"
proof -
  have 1: "r1 = ReasonOK" "h1 = Some \<lparr>hd_ip = ip, hd_user = u, hd_closed = False\<rparr>"
    "l1 = (new_limiter IMAPProfile)\<lparr>lim_perUser := cinc Map.empty u, lim_perUserIP := cinc Map.empty (u, ip)\<rparr>"
    using assms(1,2) by (simp_all add: bindUser_def new_limiter_def IMAPProfile_def cget_def)
  have 2: "r2 = ReasonOK" "h2 = h1" "l2 = l1\<lparr>lim_perUser := cinc (cinc Map.empty u) u, lim_perUserIP := cinc (cinc Map.empty (u, ip)) (u, ip)\<rparr>"
    using assms(1,3) 1 cget_cinc [of Map.empty u u] cget_cinc [of Map.empty "(u, ip)" "(u, ip)"]
    by (simp_all add: bindUser_def new_limiter_def IMAPProfile_def Let_def cget_def [of Map.empty])
  have "lim_perUser l3 = cdec (cinc (cinc Map.empty u) u) u" "h3 = Some \<lparr>hd_ip = ip, hd_user = u, hd_closed = True\<rparr>"
    using assms(1,4) 1 2 by (auto simp: release_def Let_def)
  moreover have "cget (cdec (cinc (cinc Map.empty u) u) u) u = 1" by (simp add: cdec_def cinc_def cget_def)
  ultimately show ?thesis using 2 by simp
qed

text \<open>The address of an envelope is written as it is: a quote in it ends the quoted string.\<close>

lemma address_not_escaped:
  "mailbox_entry (''a'' @ [dquote] @ '' NIL@h'', []) = Some (''('' @ quoted_text [] @ '' NIL '' @ dquote # ''a'' @ [dquote] @ '' NIL'' @ [dquote] @ '' '' @ quoted_text ''h'' @ '')'')"
  by code_simp

end
