(* ===== verification/SmtpServer.thy ===== *)
theory SmtpServer
  imports ImapSession GoAny
begin

text \<open>
  The SMTP sessions (\<open>internal/mail/smtp/backend.go\<close>, \<open>config/limits.go\<close>): what the callbacks that \<open>go-smtp\<close> calls do
  to the session, the mail database, the blob store, the firewall and the limiter. The library may call them in
  any order. A goroutine of \<open>Data\<close> that sends a message is pending until it runs; it reads the sender of the
  session then.
\<close>

section \<open>Limits and addresses\<close>

definition defaultMaxMessageBytes :: int where "defaultMaxMessageBytes = 35 * 1024 * 1024"
definition minMessageBytes :: int where "minMessageBytes = 64 * 1024"

text \<open>The value of the variable; read once, at the first use.\<close>

definition MaxMessageBytes :: "string \<Rightarrow> int" where
  "MaxMessageBytes raw =
     (if raw = [] then defaultMaxMessageBytes
      else (case parse_int64 raw of
              None \<Rightarrow> defaultMaxMessageBytes
            | Some v \<Rightarrow> if v < minMessageBytes then defaultMaxMessageBytes else v))"

definition extractIP_smtp :: "string \<Rightarrow> string" where
  "extractIP_smtp addr =
     (case last_index_byte CHR '':'' addr of
        Some i \<Rightarrow> if contains_str addr ''['' then trim_both (take i addr) ''[]'' else take i addr
      | None \<Rightarrow> addr)"

definition isValidEmail :: "string \<Rightarrow> bool" where
  "isValidEmail email \<longleftrightarrow>
     (if email = [] \<or> 254 < length email then False
      else (case last_index_byte CHR ''@'' email of
              None \<Rightarrow> False
            | Some i \<Rightarrow>
                if i < 1 \<or> length email - 1 \<le> i then False
                else let domain = drop (i + 1) email in 3 \<le> length domain \<and> contains_str domain ''.''))"

definition localPart :: "string \<Rightarrow> string" where
  "localPart to = (case index_byte CHR ''@'' to of Some i \<Rightarrow> take i to | None \<Rightarrow> to)"

definition is_hostmaster :: "string \<Rightarrow> bool" where
  "is_hostmaster to \<longleftrightarrow> localPart to = ''postmaster'' \<or> localPart to = ''hostmaster''"

section \<open>Sessions\<close>

text \<open>Beside the environment of the mail server, the case folding of \<open>EqualFold\<close> beyond ASCII.\<close>

record smtp_env =
  se_mail :: imap_env
  se_fold :: "string \<Rightarrow> string"

definition EqualFold :: "smtp_env \<Rightarrow> string \<Rightarrow> string \<Rightarrow> bool" where
  "EqualFold S a b \<longleftrightarrow> go_case lower_char (se_fold S) a = go_case lower_char (se_fold S) b"

text \<open>The goroutines that have not run yet, as recipient and data; what a goroutine hands to the client.\<close>

record smtp_session =
  ss_from :: string
  ss_ip :: string
  ss_limit :: "handle option"
  ss_recipients :: "string list"
  ss_user :: string
  ss_pending :: "(string \<times> string) list"

type_synonym send_call = "string \<times> string \<times> string"

datatype smtp_error =
  Blocked_ip | Too_many | Bad_credentials | Too_many_for_user | Invalid_address | Sender_mismatch | Relay_denied
  | Read_failed | Too_large

definition NewSession :: "'b bucket_ops \<Rightarrow> string \<Rightarrow> 'b world \<Rightarrow> 'b world \<times> (smtp_error + smtp_session)" where
  "NewSession ops addr w =
     (let ip = extractIP_smtp addr
      in case isBlocked (wd_now w) ip (wd_fw w) of
           (fw1, True) \<Rightarrow> (w\<lparr>wd_fw := fw1\<rparr>, Inl Blocked_ip)
         | (fw1, False) \<Rightarrow>
             (case acquire ops (wd_now w) ip (wd_lim w) of
                (l, h, r) \<Rightarrow>
                  (w\<lparr>wd_fw := fw1, wd_lim := l\<rparr>,
                   if r \<noteq> ReasonOK then Inl Too_many
                   else Inr \<lparr>ss_from = [], ss_ip = ip, ss_limit = h, ss_recipients = [], ss_user = [], ss_pending = []\<rparr>)))"

text \<open>The server that \<open>Auth\<close> returns is the one for PLAIN, whatever mechanism was asked for.\<close>

definition AuthMechanisms :: "string list" where
  "AuthMechanisms = [''PLAIN'', ''LOGIN'']"

datatype sasl_server = Plain_server

definition Auth :: "string \<Rightarrow> sasl_server" where
  "Auth mech = Plain_server"

type_synonym 'b smtp_reply = "smtp_session \<times> 'b world \<times> smtp_error option"

definition refuse_login :: "smtp_session \<Rightarrow> 'b world \<Rightarrow> 'b smtp_reply" where
  "refuse_login s w = (s, w\<lparr>wd_fw := handleFailedAuth (wd_now w) (ss_ip s) (wd_fw w)\<rparr>, Some Bad_credentials)"

definition plain_login :: "smtp_env \<Rightarrow> string \<Rightarrow> string \<Rightarrow> string \<Rightarrow> smtp_session \<Rightarrow> 'b world \<Rightarrow> 'b smtp_reply" where
  "plain_login S identity username password s w =
     (if \<not> isValidEmail username then refuse_login s w
      else
        (case AccountExists username (wd_db w) of
           (db1, None) \<Rightarrow> refuse_login s (w\<lparr>wd_db := db1\<rparr>)
         | (db1, Some None) \<Rightarrow> refuse_login s (w\<lparr>wd_db := db1\<rparr>)
         | (db1, Some (Some account)) \<Rightarrow>
             (case ComparePassword (ev_kdf (se_mail S)) password (ac_password account) of
                None \<Rightarrow> refuse_login s (w\<lparr>wd_db := db1\<rparr>)
              | Some False \<Rightarrow> refuse_login s (w\<lparr>wd_db := db1\<rparr>)
              | Some True \<Rightarrow>
                  (case bindUser (ss_limit s) username (wd_lim w) of
                     (l, h, r) \<Rightarrow>
                       if r \<noteq> ReasonOK then (s\<lparr>ss_limit := h\<rparr>, w\<lparr>wd_db := db1, wd_lim := l\<rparr>, Some Too_many_for_user)
                       else
                         (s\<lparr>ss_limit := h, ss_user := username\<rparr>,
                          w\<lparr>wd_db := db1, wd_lim := l, wd_fw := clearAttempts (ss_ip s) (wd_fw w),
                            wd_rehash := (if NeedsRehash (ac_password account) then wd_rehash w @ [(username, password)] else wd_rehash w)\<rparr>,
                          None)))))"

definition Mail :: "smtp_env \<Rightarrow> string \<Rightarrow> smtp_session \<Rightarrow> 'b world \<Rightarrow> 'b smtp_reply" where
  "Mail S from_addr s w =
     (if \<not> isValidEmail from_addr then (s, w, Some Invalid_address)
      else if ss_user s \<noteq> [] \<and> \<not> EqualFold S from_addr (ss_user s) then (s, w, Some Sender_mismatch)
      else (s\<lparr>ss_from := from_addr\<rparr>, w, None))"

definition add_recipient :: "string \<Rightarrow> smtp_session \<Rightarrow> smtp_session" where
  "add_recipient to s = s\<lparr>ss_recipients := ss_recipients s @ [to]\<rparr>"

definition Rcpt :: "string \<Rightarrow> smtp_session \<Rightarrow> 'b world \<Rightarrow> 'b smtp_reply" where
  "Rcpt to s w =
     (if \<not> isValidEmail to then (s, w, Some Invalid_address)
      else if ss_user s \<noteq> [] then (add_recipient to s, w, None)
      else if is_hostmaster to then (add_recipient to s, w, None)
      else
        (case AccountExists to (wd_db w) of
           (db1, None) \<Rightarrow> (s, w\<lparr>wd_db := db1\<rparr>, Some Relay_denied)
         | (db1, Some None) \<Rightarrow> (s, w\<lparr>wd_db := db1\<rparr>, Some Relay_denied)
         | (db1, Some (Some account)) \<Rightarrow> (add_recipient to s, w\<lparr>wd_db := db1\<rparr>, None)))"

section \<open>Data\<close>

definition smtp_storeRaw :: "imap_env \<Rightarrow> string \<Rightarrow> 'b world \<Rightarrow> 'b world \<times> string" where
  "smtp_storeRaw E body w =
     (case ev_blobs E of
        None \<Rightarrow> (w, [])
      | Some base \<Rightarrow>
          (case blob_put (ev_sha E) base (temp_name base (itoa (int (wd_fresh w)))) body (wd_disk w) of
             (d1, None) \<Rightarrow> (w\<lparr>wd_disk := d1, wd_fresh := wd_fresh w + 1\<rparr>, [])
           | (d1, Some ref) \<Rightarrow> (w\<lparr>wd_disk := d1, wd_fresh := wd_fresh w + 1\<rparr>, ref)))"

definition toNullString :: "string \<Rightarrow> string option" where
  "toNullString s = (if s = [] then None else Some s)"

definition delivered_row :: "imap_env \<Rightarrow> string \<Rightarrow> string \<Rightarrow> string list \<Rightarrow> string \<Rightarrow> string \<Rightarrow> msg_row" where
  "delivered_row E email mailbox flags rawRef body =
     \<lparr>mr_id = 0, mr_uid = 0, mr_email = email, mr_mailbox = mailbox, mr_flags = Flags flags, mr_rawRef = toNullString rawRef,
      mr_cols = ev_columns E body\<rparr>"

definition senderIsLocal :: "smtp_env \<Rightarrow> smtp_session \<Rightarrow> bool" where
  "senderIsLocal S s \<longleftrightarrow> ss_user s \<noteq> [] \<and> EqualFold S (ss_from s) (ss_user s)"

text \<open>
  The loop over the recipients: whether the copy for the folder Sent has been tried, the goroutines started so far,
  the database.
\<close>

type_synonym delivery = "bool \<times> (string \<times> string) list \<times> mail_db"

definition rcptIsLocal :: "string \<Rightarrow> account_row option option \<Rightarrow> bool" where
  "rcptIsLocal rcpt found \<longleftrightarrow> (case found of Some (Some _) \<Rightarrow> True | _ \<Rightarrow> is_hostmaster rcpt)"

definition deliver_rcpt :: "smtp_env \<Rightarrow> string \<Rightarrow> string \<Rightarrow> smtp_session \<Rightarrow> string \<Rightarrow> delivery \<Rightarrow> delivery \<times> smtp_error option" where
  "deliver_rcpt S body rawRef s rcpt st =
     (case st of
        (sentStored, started, db) \<Rightarrow>
          (case AccountExists rcpt db of
             (db1, found) \<Rightarrow>
               if \<not> senderIsLocal S s \<and> \<not> rcptIsLocal rcpt found then ((sentStored, started, db1), Some Relay_denied)
               else
                 let db2 = (if rcptIsLocal rcpt found \<and> rcpt \<noteq> ss_from s
                            then fst (MessageStore (delivered_row (se_mail S) rcpt ''INBOX'' [] rawRef body) db1) else db1);
                     started1 = (if senderIsLocal S s \<and> \<not> rcptIsLocal rcpt found then started @ [(rcpt, body)] else started);
                     db3 = (if senderIsLocal S s \<and> \<not> sentStored
                            then fst (MessageStore (delivered_row (se_mail S) (ss_from s) ''Sent'' [''seen''] rawRef body) db2) else db2)
                 in ((sentStored \<or> senderIsLocal S s, started1, db3), None)))"

fun deliver_loop :: "smtp_env \<Rightarrow> string \<Rightarrow> string \<Rightarrow> smtp_session \<Rightarrow> string list \<Rightarrow> delivery \<Rightarrow> delivery \<times> smtp_error option" where
  "deliver_loop S body rawRef s [] st = (st, None)"
| "deliver_loop S body rawRef s (rcpt # rcpts) st =
     (case deliver_rcpt S body rawRef s rcpt st of
        (st1, Some e) \<Rightarrow> (st1, Some e)
      | (st1, None) \<Rightarrow> deliver_loop S body rawRef s rcpts st1)"

text \<open>The stream of the message: what can be read of it, and whether reading fails then.\<close>

definition Data :: "smtp_env \<Rightarrow> string \<Rightarrow> bool \<Rightarrow> smtp_session \<Rightarrow> 'b world \<Rightarrow> 'b smtp_reply" where
  "Data S input broken s w =
     (let maxBody = ev_maxMessage (se_mail S); limit = wrap64 (maxBody + 1); body = take (nat limit) input
      in if broken \<and> int (length input) < limit then (s, w, Some Read_failed)
         else if maxBody < int (length body) then (s, w, Some Too_large)
         else
           (case smtp_storeRaw (se_mail S) body w of
              (w1, rawRef) \<Rightarrow>
                (case deliver_loop S body rawRef s (ss_recipients s) (False, ss_pending s, wd_db w1) of
                   ((_, started, db1), r) \<Rightarrow> (s\<lparr>ss_pending := started\<rparr>, w1\<lparr>wd_db := db1\<rparr>, r))))"

definition Reset :: "smtp_session \<Rightarrow> smtp_session" where
  "Reset s = s\<lparr>ss_from := [], ss_recipients := []\<rparr>"

definition Logout :: "smtp_session \<Rightarrow> 'b world \<Rightarrow> 'b smtp_reply" where
  "Logout s w = (case release (ss_limit s) (wd_lim w) of (l, h) \<Rightarrow> (s\<lparr>ss_limit := h\<rparr>, w\<lparr>wd_lim := l\<rparr>, None))"

section \<open>Runs of a session\<close>

datatype smtp_call =
  Call_auth string string string
| Call_mail string
| Call_rcpt string
| Call_data string bool
| Call_reset
| Call_logout
| Run_send nat

text \<open>A goroutine that runs: it calls \<open>Send\<close> with the sender that the session has then.\<close>

definition run_send :: "nat \<Rightarrow> smtp_session \<Rightarrow> smtp_session \<times> send_call list" where
  "run_send i s =
     (if i < length (ss_pending s)
      then (s\<lparr>ss_pending := take i (ss_pending s) @ drop (Suc i) (ss_pending s)\<rparr>,
            [(ss_from s, fst (ss_pending s ! i), snd (ss_pending s ! i))])
      else (s, []))"

type_synonym 'b smtp_state = "smtp_session \<times> 'b world \<times> send_call list"

definition smtp_call :: "smtp_env \<Rightarrow> smtp_call \<Rightarrow> smtp_session \<Rightarrow> 'b world \<Rightarrow> 'b smtp_reply" where
  "smtp_call S call s w =
     (case call of
        Call_auth i u p \<Rightarrow> plain_login S i u p s w
      | Call_mail f \<Rightarrow> Mail S f s w
      | Call_rcpt t \<Rightarrow> Rcpt t s w
      | Call_data b broken \<Rightarrow> Data S b broken s w
      | Call_reset \<Rightarrow> (Reset s, w, None)
      | Call_logout \<Rightarrow> Logout s w
      | Run_send i \<Rightarrow> (fst (run_send i s), w, None))"

definition smtp_step :: "smtp_env \<Rightarrow> smtp_call \<Rightarrow> 'b smtp_state \<Rightarrow> 'b smtp_state" where
  "smtp_step S call st =
     (case st of
        (s, w, sent) \<Rightarrow>
          (case smtp_call S call s w of
             (s1, w1, _) \<Rightarrow> (s1, w1, sent @ (case call of Run_send i \<Rightarrow> snd (run_send i s) | _ \<Rightarrow> []))))"

definition smtp_run :: "smtp_env \<Rightarrow> smtp_call list \<Rightarrow> 'b smtp_state \<Rightarrow> 'b smtp_state" where
  "smtp_run S calls st = fold (smtp_step S) calls st"

section \<open>What a session may store and send\<close>

definition account_match :: "smtp_env \<Rightarrow> string \<Rightarrow> string \<Rightarrow> mail_db \<Rightarrow> bool" where
  "account_match S u p db \<longleftrightarrow>
     isValidEmail u
     \<and> (case List.find (\<lambda>a. ac_email a = u) (db_accounts db) of
          None \<Rightarrow> False | Some a \<Rightarrow> ComparePassword (ev_kdf (se_mail S)) p (ac_password a) = Some True)"

text \<open>A call of the run has given the password of this account.\<close>

definition gave_password :: "smtp_env \<Rightarrow> smtp_call list \<Rightarrow> mail_db \<Rightarrow> string \<Rightarrow> bool" where
  "gave_password S calls db u \<longleftrightarrow> list_ex (\<lambda>call. case call of Call_auth i v p \<Rightarrow> v = u \<and> account_match S u p db | _ \<Rightarrow> False) calls"

definition is_account :: "mail_db \<Rightarrow> string \<Rightarrow> bool" where
  "is_account db e \<longleftrightarrow> list_ex (\<lambda>a. ac_email a = e) (db_accounts db)"

text \<open>The rows that a session may add to a database, given the users who have authenticated.\<close>

definition allowed_row :: "smtp_env \<Rightarrow> mail_db \<Rightarrow> (string \<Rightarrow> bool) \<Rightarrow> msg_row \<Rightarrow> bool" where
  "allowed_row S db known m \<longleftrightarrow>
     (mr_mailbox m = ''INBOX'' \<and> (is_account db (mr_email m) \<or> is_hostmaster (mr_email m)))
     \<or> (mr_mailbox m = ''Sent'' \<and> (\<exists>u. known u \<and> EqualFold S (mr_email m) u))"

definition grown :: "(msg_row \<Rightarrow> bool) \<Rightarrow> mail_db \<Rightarrow> mail_db \<Rightarrow> bool" where
  "grown ok db db' \<longleftrightarrow>
     db_accounts db' = db_accounts db \<and> (\<exists>new. db_messages db' = db_messages db @ new \<and> list_all ok new)"

lemma isValidEmail_Nil [simp]: "\<not> isValidEmail []"
  by (simp add: isValidEmail_def)

lemma grown_refl [simp, intro]: "grown ok db db"
  by (simp add: grown_def)

lemma grown_trans: "grown ok a b \<Longrightarrow> grown ok b c \<Longrightarrow> grown ok a c"
  by (auto simp: grown_def)

lemma grown_mono: "grown ok a b \<Longrightarrow> (\<And>m. ok m \<Longrightarrow> ok' m) \<Longrightarrow> grown ok' a b"
  by (auto simp: grown_def list_all_iff)

lemma grown_call: "db_call db = (r, db1) \<Longrightarrow> grown ok db db1"
  by (auto simp: db_call_def grown_def split: list.splits)

lemma grown_exists: "AccountExists e db = (db1, r) \<Longrightarrow> grown ok db db1"
  by (auto simp: AccountExists_def split: prod.splits bool.splits dest: grown_call)

lemma AccountExists_result:
  "AccountExists e db = (db1, Some r) \<Longrightarrow> r = List.find (\<lambda>a. ac_email a = e) (db_accounts db)"
  by (auto simp: AccountExists_def db_call_def split: list.splits prod.splits bool.splits)

lemma find_is_account: "List.find (\<lambda>a. ac_email a = e) (db_accounts db) = Some a \<Longrightarrow> is_account db e"
  by (auto simp: is_account_def find_Some_iff list_ex_iff)

lemma grown_store:
  assumes "\<And>uid n. ok (m\<lparr>mr_uid := uid, mr_id := n\<rparr>)"
  shows "grown ok db (fst (MessageStore m db))"
proof -
  obtain r db1 where c: "db_call db = (r, db1)" by fastforce
  have box: "db_accounts d = db_accounts db1 \<and> db_messages d = db_messages db1" if "insert_box e t db1 = Some d" for e t d
    using that by (auto simp: insert_box_def split: if_splits)
  show ?thesis
    using c grown_call [OF c, of ok] assms
    by (auto simp: MessageStore_def insert_message_def Let_def grown_def split: bool.split option.split dest!: box)
qed

text \<open>A session whose user has authenticated, and the goroutines of one that has a sender of its own.\<close>

definition session_ok :: "smtp_env \<Rightarrow> (string \<Rightarrow> bool) \<Rightarrow> smtp_session \<Rightarrow> bool" where
  "session_ok S known s \<longleftrightarrow>
     (ss_user s = [] \<or> known (ss_user s))
     \<and> (ss_pending s = [] \<or> (ss_user s \<noteq> [] \<and> (ss_from s = [] \<or> (\<exists>u. known u \<and> EqualFold S (ss_from s) u))))"

lemma session_ok_mono: "session_ok S known s \<Longrightarrow> (\<And>u. known u \<Longrightarrow> known' u) \<Longrightarrow> session_ok S known' s"
  by (auto simp: session_ok_def)

lemma deliver_rcpt_safe:
  assumes "ss_user s = [] \<or> known (ss_user s)"
    and "deliver_rcpt S body ref s rcpt (b, started, db) = ((b', started', db'), r)"
    and "db_accounts db = db_accounts base"
  shows "grown (allowed_row S base known) db db' \<and> (started' = started \<or> senderIsLocal S s)"
proof -
  obtain db1 found where a: "AccountExists rcpt db = (db1, found)" by fastforce
  let ?ok = "allowed_row S base known"
  have loc: "is_account base rcpt \<or> is_hostmaster rcpt" if "rcptIsLocal rcpt found"
    using that AccountExists_result [of rcpt db db1] a assms(3)
    by (auto simp: rcptIsLocal_def is_account_def split: option.splits dest: find_is_account)
  have inbox: "grown ?ok db (fst (MessageStore (delivered_row (se_mail S) rcpt ''INBOX'' [] ref body) d))"
    if "rcptIsLocal rcpt found" "grown ?ok db d" for d
    using loc [OF that(1)] by (intro grown_trans [OF that(2)] grown_store) (simp add: delivered_row_def allowed_row_def)
  have sent: "grown ?ok db (fst (MessageStore (delivered_row (se_mail S) (ss_from s) ''Sent'' [''seen''] ref body) d))"
    if "senderIsLocal S s" "grown ?ok db d" for d
    using assms(1) that(1) by (intro grown_trans [OF that(2)] grown_store) (auto simp: delivered_row_def allowed_row_def senderIsLocal_def)
  show ?thesis
    using assms(2) a grown_exists [OF a, of ?ok] inbox sent
    by (auto simp: deliver_rcpt_def Let_def split: if_splits)
qed

lemma deliver_loop_safe:
  assumes "ss_user s = [] \<or> known (ss_user s)"
    and "deliver_loop S body ref s rcpts (b, started, db) = ((b', started', db'), r)"
    and "db_accounts db = db_accounts base"
  shows "grown (allowed_row S base known) db db' \<and> (started' = started \<or> senderIsLocal S s)"
  using assms(2,3)
proof (induction rcpts arbitrary: b started db)
  case (Cons rcpt rcpts)
  obtain b1 started1 db1 q where d: "deliver_rcpt S body ref s rcpt (b, started, db) = ((b1, started1, db1), q)" by (metis prod_cases3 prod.exhaust)
  note one = deliver_rcpt_safe [where known = known, OF assms(1) d Cons.prems(2)]
  then have "db_accounts db1 = db_accounts base" using Cons.prems(2) by (simp add: grown_def)
  with Cons one d show ?case by (auto split: option.splits intro: grown_trans)
qed simp

lemma call_safe:
  assumes "session_ok S known s" and "smtp_call S call s w = (s', w', r)"
    and "\<And>i u p. call = Call_auth i u p \<Longrightarrow> account_match S u p (wd_db w) \<Longrightarrow> known u"
  shows "session_ok S known s' \<and> grown (allowed_row S (wd_db w) known) (wd_db w) (wd_db w')"
proof (cases call)
  case (Call_auth i u p)
  have fail: "session_ok S known (fst (refuse_login s v)) \<and> wd_db (fst (snd (refuse_login s v))) = wd_db v" for v :: "'a world"
    using assms(1) by (simp add: refuse_login_def)
  obtain db1 found where a: "AccountExists u (wd_db w) = (db1, found)" by fastforce
  obtain l h b where b: "bindUser (ss_limit s) u (wd_lim w) = (l, h, b)" by (metis prod_cases3)
  have "known u" if "isValidEmail u" "found = Some (Some ac)" "ComparePassword (ev_kdf (se_mail S)) p (ac_password ac) = Some True" for ac
    using assms(3) [OF Call_auth] that AccountExists_result [of u "wd_db w" db1] a by (auto simp: account_match_def)
  then show ?thesis
    using assms(1,2) a b grown_exists [OF a]
    by (auto simp: smtp_call_def Call_auth plain_login_def refuse_login_def session_ok_def split: if_splits option.splits bool.splits)
next
  case (Call_mail f)
  then show ?thesis using assms(1,2)
    by (auto simp: smtp_call_def Mail_def session_ok_def split: if_splits)
next
  case (Call_rcpt t)
  obtain db1 found where a: "AccountExists t (wd_db w) = (db1, found)" by fastforce
  then show ?thesis using assms(1,2) grown_exists [OF a]
    by (auto simp: smtp_call_def Call_rcpt Rcpt_def add_recipient_def session_ok_def split: if_splits option.splits)
next
  case (Call_data b broken)
  have raw: "wd_db (fst (smtp_storeRaw E x v)) = wd_db v" for E x and v :: "'a world"
    by (simp add: smtp_storeRaw_def split: option.split prod.split)
  obtain w1 ref where st: "smtp_storeRaw (se_mail S) (take (nat (wrap64 (ev_maxMessage (se_mail S) + 1))) b) w = (w1, ref)" by fastforce
  obtain b1 started db1 q where d: "deliver_loop S (take (nat (wrap64 (ev_maxMessage (se_mail S) + 1))) b) ref s (ss_recipients s) (False, ss_pending s, wd_db w1) = ((b1, started, db1), q)"
    by (metis prod_cases3 prod.exhaust)
  have w1: "wd_db w1 = wd_db w" using raw [of "se_mail S" _ w] st by (metis fst_conv)
  have u: "ss_user s = [] \<or> known (ss_user s)" using assms(1) by (simp add: session_ok_def)
  from deliver_loop_safe [where known = known and base = "wd_db w", OF u d] w1
  have "grown (allowed_row S (wd_db w) known) (wd_db w) db1" "started = ss_pending s \<or> senderIsLocal S s" by simp_all
  then show ?thesis
    using assms(1,2) st d unfolding smtp_call_def Call_data Data_def
    by (auto simp: Let_def session_ok_def senderIsLocal_def split: if_splits)
next
  case Call_logout
  then show ?thesis using assms(1,2) by (auto simp: smtp_call_def Logout_def session_ok_def split: prod.splits)
next
  case (Run_send i)
  then show ?thesis using assms(1,2)
    by (cases "i < length (ss_pending s)") (auto simp: smtp_call_def run_send_def session_ok_def)
qed (use assms in \<open>auto simp: smtp_call_def Reset_def session_ok_def\<close>)

definition own_send :: "smtp_env \<Rightarrow> (string \<Rightarrow> bool) \<Rightarrow> send_call \<Rightarrow> bool" where
  "own_send S known m \<longleftrightarrow> (\<exists>u. known u \<and> (fst m = [] \<or> EqualFold S (fst m) u))"

lemma account_match_accounts: "db_accounts d = db_accounts e \<Longrightarrow> account_match S u p d = account_match S u p e"
  by (simp add: account_match_def)

lemma allowed_row_accounts: "db_accounts d = db_accounts e \<Longrightarrow> allowed_row S d = allowed_row S e"
  by (simp add: allowed_row_def is_account_def fun_eq_iff)

lemma run_safe:
  assumes "session_ok S known s" and "grown (allowed_row S base known) base (wd_db w)" and "list_all (own_send S known) sent"
    and "\<And>u. gave_password S calls base u \<Longrightarrow> known u" and "smtp_run S calls (s, w, sent) = (s', w', sent')"
  shows "session_ok S known s' \<and> grown (allowed_row S base known) base (wd_db w') \<and> list_all (own_send S known) sent'"
  using assms
proof (induction calls arbitrary: s w sent)
  case Nil
  then show ?case by (simp add: smtp_run_def)
next
  case (Cons call calls)
  obtain s1 w1 r where c: "smtp_call S call s w = (s1, w1, r)" by (metis prod_cases3)
  define sent1 where "sent1 = sent @ (case call of Run_send i \<Rightarrow> snd (run_send i s) | _ \<Rightarrow> [])"
  have st: "smtp_step S call (s, w, sent) = (s1, w1, sent1)" by (simp add: smtp_step_def c sent1_def)
  have acc: "db_accounts (wd_db w) = db_accounts base" using Cons.prems(2) by (simp add: grown_def)
  have "known u" if "call = Call_auth i u p" "account_match S u p (wd_db w)" for i u p
    using Cons.prems(4) [of u] that account_match_accounts [OF acc, of S u p] by (simp add: gave_password_def)
  from call_safe [where known = known, OF Cons.prems(1) c this] allowed_row_accounts [OF acc]
  have one: "session_ok S known s1" "grown (allowed_row S base known) (wd_db w) (wd_db w1)" by simp_all
  have "own_send S known (ss_from s, ss_pending s ! i)" if "i < length (ss_pending s)" for i
    using Cons.prems(1) that by (cases "ss_pending s = []") (auto simp: session_ok_def own_send_def)
  then have "list_all (own_send S known) sent1"
    using Cons.prems(3) by (auto simp: sent1_def run_send_def split: smtp_call.split)
  moreover have "gave_password S calls base u \<Longrightarrow> known u" for u
    using Cons.prems(4) [of u] by (simp add: gave_password_def)
  ultimately show ?case
    using Cons.IH [OF one(1) grown_trans [OF Cons.prems(2) one(2)]] Cons.prems(5) st by (simp add: smtp_run_def)
qed

text \<open>
  C4. The server is no open relay, in whatever order the library calls it: a session adds rows only, for the inbox of an
  existing account or of a postmaster or hostmaster address, or for the folder Sent of a user whose password
  it gave; and every message handed to the client for another host goes out in a session that gave a
  password, with the address of that user as its sender, or with none.
\<close>

theorem no_open_relay:
  assumes "ss_user s = []" and "ss_pending s = []" and "smtp_run S calls (s, w, []) = (s', w', sent)"
  shows "grown (allowed_row S (wd_db w) (gave_password S calls (wd_db w))) (wd_db w) (wd_db w')
    \<and> list_all (own_send S (gave_password S calls (wd_db w))) sent"
  using run_safe [of S "gave_password S calls (wd_db w)" s "wd_db w" w "[]" calls s' w' sent] assms
  by (simp add: session_ok_def)

definition demo_smtp :: smtp_env where
  "demo_smtp = \<lparr>se_mail = demo_env\<lparr>ev_blobs := None\<rparr>, se_fold = (\<lambda>s. s)\<rparr>"

definition demo_session :: smtp_session where
  "demo_session = \<lparr>ss_from = [], ss_ip = ''10.0.0.1'', ss_limit = None, ss_recipients = [], ss_user = [], ss_pending = []\<rparr>"

definition smtp_world :: "unit world" where
  "smtp_world = demo_world\<lparr>wd_db := (empty_db [])
     \<lparr>db_accounts := [\<lparr>ac_email = ''a@b.c'', ac_password = ''scrypt$70$7070'', ac_domain = ''b.c'', ac_created = 0\<rparr>]\<rparr>\<rparr>"

definition demo_calls :: "smtp_call list" where
  "demo_calls = [Call_auth [] ''a@b.c'' ''p'', Call_mail ''A@b.c'', Call_rcpt ''x@y.z'', Call_data ''Hello'' False, Run_send 0]"

theorem no_open_relay_witness:
  "case smtp_run demo_smtp demo_calls (demo_session, smtp_world, []) of
     (s, w, sent) \<Rightarrow>
       sent = [(''A@b.c'', ''x@y.z'', ''Hello'')]
       \<and> list_all (own_send demo_smtp (gave_password demo_smtp demo_calls (wd_db smtp_world))) sent
       \<and> grown (allowed_row demo_smtp (wd_db smtp_world) (gave_password demo_smtp demo_calls (wd_db smtp_world))) (wd_db smtp_world) (wd_db w)"
proof -
  obtain s w sent where r: "smtp_run demo_smtp demo_calls (demo_session, smtp_world, []) = (s, w, sent)" by (metis prod_cases3)
  have "snd (snd (smtp_run demo_smtp demo_calls (demo_session, smtp_world, []))) = [(''A@b.c'', ''x@y.z'', ''Hello'')]" by code_simp
  with r no_open_relay [of demo_session demo_smtp demo_calls smtp_world s w sent] show ?thesis by (simp add: demo_session_def)
qed

section \<open>Where the code departs from its comments\<close>

text \<open>
  A goroutine that runs after the session was reset sends with an empty sender; the library resets the session as
  soon as \<open>Data\<close> returns.
\<close>

lemma sender_lost:
  "i < length (ss_pending s) \<Longrightarrow> snd (run_send i (Reset s)) = [([], fst (ss_pending s ! i), snd (ss_pending s ! i))]"
  by (simp add: run_send_def Reset_def)

text \<open>With the largest limit that the variable takes, every message is stored as an empty one.\<close>

lemma largest_limit_empties:
  assumes "ev_maxMessage (se_mail S) = max_int64"
  shows "Data S input broken s w = Data S [] False s w"
proof -
  have "wrap64 (max_int64 + 1) = - 9223372036854775808" by (simp add: wrap64_def)
  then show ?thesis using assms by (simp add: Data_def Let_def)
qed

lemma MaxMessageBytes_largest: "MaxMessageBytes (itoa max_int64) = max_int64"
  by (simp add: MaxMessageBytes_def minMessageBytes_def parse_int64_itoa)

text \<open>Both mechanisms are announced, one is served.\<close>

lemma login_not_served: "''LOGIN'' \<in> set AuthMechanisms \<and> Auth ''LOGIN'' = Auth ''PLAIN''"
  by (simp add: AuthMechanisms_def Auth_def)

text \<open>Mail of a user to the postmaster of another domain stays on this server.\<close>

lemma foreign_postmaster_kept:
  assumes "rcptIsLocal rcpt found" and "AccountExists rcpt db = (db1, found)" and "deliver_rcpt S body ref s rcpt (b, started, db) = ((b', started', db'), r)"
  shows "started' = started"
  using assms by (auto simp: deliver_rcpt_def Let_def split: if_splits)

lemma postmaster_is_local: "is_hostmaster rcpt \<Longrightarrow> rcptIsLocal rcpt found"
  by (auto simp: rcptIsLocal_def split: option.split)

text \<open>A failed store is not reported: with a broken database the server accepts the message and keeps nothing of it.\<close>

lemma failed_store_accepted:
  assumes "is_hostmaster rcpt" and "ss_recipients s = [rcpt]" and "ss_user s = []" and "rcpt \<noteq> ss_from s"
    and "db_faults (wd_db w) = True # True # fs" and "int (length input) \<le> ev_maxMessage (se_mail S)" and "ev_maxMessage (se_mail S) < max_int64"
    and "Data S input False s w = (s', w', r)"
  shows "r = None \<and> db_messages (wd_db w') = db_messages (wd_db w)"
proof -
  have limit: "wrap64 (ev_maxMessage (se_mail S) + 1) = ev_maxMessage (se_mail S) + 1"
    using assms(6,7) by (intro wrap64_id) simp_all
  have body: "take (nat (ev_maxMessage (se_mail S) + 1)) input = input" using assms(6) by simp
  have raw: "wd_db (fst (smtp_storeRaw E x v)) = wd_db v" for E x and v :: "'a world"
    by (simp add: smtp_storeRaw_def split: option.split prod.split)
  obtain w1 ref where st: "smtp_storeRaw (se_mail S) input w = (w1, ref)" by fastforce
  have w1: "wd_db w1 = wd_db w" using raw [of "se_mail S" input w] st by simp
  have "AccountExists rcpt (wd_db w) = ((wd_db w)\<lparr>db_faults := True # fs\<rparr>, None)"
    using assms(5) by (simp add: AccountExists_def db_call_def)
  moreover have "fst (MessageStore m ((wd_db w)\<lparr>db_faults := True # fs\<rparr>)) = (wd_db w)\<lparr>db_faults := fs\<rparr>" for m
    by (simp add: MessageStore_def db_call_def)
  ultimately have "deliver_rcpt S input ref s rcpt (False, ss_pending s, wd_db w) = ((False, ss_pending s, (wd_db w)\<lparr>db_faults := fs\<rparr>), None)"
    using assms(1,3,4) by (simp add: deliver_rcpt_def senderIsLocal_def rcptIsLocal_def Let_def)
  then show ?thesis
    using assms(2,6,8) st w1 body limit by (auto simp: Data_def Let_def)
qed

end
