(* ===== verification/SmtpRoundtrip.thy ===== *)
theory SmtpRoundtrip
  imports SmtpServer ImapRoundtrip
begin

text \<open>
  From SMTP to IMAP: what the SMTP session stores for a local account is what an IMAP connection of that account
  fetches, through the mail database and the blob store that both use.
\<close>

lemma smtp_storeRaw_healthy:
  assumes "wd_disk w = healthy fs" and "ev_blobs E = Some base" and "blob_path base (ev_sha E body) = Some p" and "fs p = None \<or> fs p = Some body"
  shows "\<exists>fs'. smtp_storeRaw E body w = (w\<lparr>wd_disk := healthy fs', wd_fresh := wd_fresh w + 1\<rparr>, ev_sha E body) \<and> fs' p = Some body"
  using blob_put_healthy [where fs = fs and sha = "ev_sha E" and data = body, OF assms(3) blob_path_not_temp [OF assms(3), of "itoa (int (wd_fresh w))"] assms(4)] assms(1,2)
  by (auto simp: smtp_storeRaw_def)

text \<open>One message for one local account, from another server.\<close>

lemma deliver_local:
  assumes "ss_user s = []" and "rcpt \<noteq> ss_from s" and "is_account db rcpt" and "db_faults db = []"
  shows "deliver_loop S body ref s [rcpt] (False, started, db)
    = ((False, started, fst (MessageStore (delivered_row (se_mail S) rcpt ''INBOX'' [] ref body) db)), None)"
proof -
  obtain a where "List.find (\<lambda>a. ac_email a = rcpt) (db_accounts db) = Some a"
    using assms(3) by (cases "List.find (\<lambda>a. ac_email a = rcpt) (db_accounts db)") (auto simp: find_None_iff is_account_def list_ex_iff)
  then have "AccountExists rcpt db = (db, Some (Some a))" using assms(4) by (simp add: AccountExists_def db_call_def)
  then show ?thesis using assms(1,2) by (simp add: deliver_rcpt_def senderIsLocal_def rcptIsLocal_def Let_def)
qed



end
