(* ===== verification/SmtpClient.thy ===== *)
theory SmtpClient
  imports Prelude
begin

text \<open>
  The delivery of mail to other hosts (\<open>internal/mail/smtp/client.go\<close>): the encoding of the data, the choice of the
  local address, the connections and their pool, the conversation with the other host, the retries, the cache of
  MX hosts and the rate limit. What the network does is a script: the connections that dialling yields, and for each
  of them the reads that it will answer and the writes that fail. Times are nanoseconds.
\<close>

section \<open>The data of a message\<close>

abbreviation dot :: char where "dot \<equiv> CHR 0x2E"

fun encode_loop :: "bool \<Rightarrow> string \<Rightarrow> string" where
  "encode_loop atLineStart [] = []"
| "encode_loop atLineStart (b # cs) =
     (if b = cr \<and> cs \<noteq> [] \<and> hd cs = nl then cr # nl # encode_loop True (tl cs)
      else if b = nl then cr # nl # encode_loop True cs
      else if atLineStart \<and> b = dot then dot # dot # encode_loop False cs
      else b # encode_loop False cs)"

definition encodeDataBody :: "string \<Rightarrow> string" where
  "encodeDataBody body =
     (let out = encode_loop True body in if has_suffix out [cr, nl] then out else out @ [cr, nl])"

definition sanitize :: "string \<Rightarrow> string" where
  "sanitize s = take 1000 (filter (\<lambda>c. c \<noteq> cr \<and> c \<noteq> nl) s)"

section \<open>Local addresses\<close>

record source_ip =
  ie_address :: string
  ie_ptr :: string
  ie_public :: bool

record source_ips =
  ip_v4 :: "source_ip list"
  ip_v6 :: "source_ip list"
  ip_primary :: string

record local_address =
  la_address :: string
  la_ehlo :: string

definition ptrMatchesDomain :: "string \<Rightarrow> string \<Rightarrow> string \<Rightarrow> bool" where
  "ptrMatchesDomain ptr domain rootDomain \<longleftrightarrow>
     ptr = domain \<or> has_suffix ptr (dot # rootDomain) \<or> has_suffix domain (dot # ptr)"

definition rootDomain_of :: "string \<Rightarrow> string" where
  "rootDomain_of domain =
     (let r = (case index_byte dot domain of Some i \<Rightarrow> drop (i + 1) domain | None \<Rightarrow> domain)
      in if r = [] then domain else r)"

definition ptr_matched :: "string \<Rightarrow> source_ip list \<Rightarrow> source_ip option" where
  "ptr_matched domain = List.find (\<lambda>ip. ie_public ip \<and> ie_ptr ip \<noteq> [] \<and> ptrMatchesDomain (ie_ptr ip) domain (rootDomain_of domain))"

definition getLocalAddress :: "string \<Rightarrow> bool \<Rightarrow> source_ips \<Rightarrow> local_address" where
  "getLocalAddress domain targetIPv6 ips =
     (let ptr = (\<lambda>ip. \<lparr>la_address = ie_address ip, la_ehlo = ie_ptr ip\<rparr>);
          any = (\<lambda>ip. \<lparr>la_address = ie_address ip, la_ehlo = if ie_ptr ip \<noteq> [] then ie_ptr ip else domain\<rparr>);
          v6 = (if targetIPv6 then ip_v6 ips else [])
      in case ptr_matched domain v6 of
           Some ip \<Rightarrow> ptr ip
         | None \<Rightarrow>
             (case ptr_matched domain (ip_v4 ips) of
                Some ip \<Rightarrow> ptr ip
              | None \<Rightarrow>
                  (case List.find ie_public v6 of
                     Some ip \<Rightarrow> any ip
                   | None \<Rightarrow>
                       (case List.find ie_public (ip_v4 ips) of
                          Some ip \<Rightarrow> any ip
                        | None \<Rightarrow>
                            if ip_primary ips \<noteq> [] \<and> ip_primary ips \<noteq> ''127.0.0.1''
                            then \<lparr>la_address = ip_primary ips, la_ehlo = domain\<rparr>
                            else \<lparr>la_address = [], la_ehlo = domain\<rparr>))))"

section \<open>Connections\<close>

text \<open>
  What a read meets: a segment, nothing before the deadline, or an error with its text. Every write is logged with
  whether it went through TLS. A connection that the other side has upgraded by STARTTLS expects TLS records.
\<close>

datatype net_read = Segment string | Quiet | Broken string

record smtp_conn =
  sc_tls :: bool
  sc_reads :: "net_read list"
  sc_wfails :: "string option list"
  sc_tlsReads :: "string + net_read list"
  sc_out :: "(bool \<times> string) list"
  sc_upgraded :: bool

datatype read_result = Got string | Timed_out | Gone string

definition conn_read :: "nat \<Rightarrow> smtp_conn \<Rightarrow> read_result \<times> smtp_conn" where
  "conn_read n c =
     (case sc_reads c of
        [] \<Rightarrow> (Gone ''EOF'', c)
      | Segment s # rs \<Rightarrow>
          if length s \<le> n then (Got s, c\<lparr>sc_reads := rs\<rparr>) else (Got (take n s), c\<lparr>sc_reads := Segment (drop n s) # rs\<rparr>)
      | Quiet # rs \<Rightarrow> (Timed_out, c\<lparr>sc_reads := rs\<rparr>)
      | Broken e # rs \<Rightarrow> (Gone e, c))"

text \<open>The error of a write, if it fails.\<close>

definition conn_write :: "string \<Rightarrow> smtp_conn \<Rightarrow> string option \<times> smtp_conn" where
  "conn_write s c =
     (case sc_wfails c of
        Some e # fs \<Rightarrow> (Some e, c\<lparr>sc_wfails := fs\<rparr>)
      | fs \<Rightarrow> (None, c\<lparr>sc_wfails := tl fs, sc_out := sc_out c @ [(sc_tls c, s)]\<rparr>))"

definition conn_close :: "smtp_conn \<Rightarrow> smtp_conn" where
  "conn_close c = c\<lparr>sc_reads := [Broken ''use of closed network connection''], sc_wfails := [Some ''use of closed network connection'']\<rparr>"

definition readResponse :: "smtp_conn \<Rightarrow> (string + string) \<times> smtp_conn" where
  "readResponse c =
     (case conn_read 4096 c of
        (Got s, c1) \<Rightarrow> (Inr s, c1)
      | (Timed_out, c1) \<Rightarrow> (Inl ''i/o timeout'', c1)
      | (Gone e, c1) \<Rightarrow> (Inl e, c1))"

definition command :: "string \<Rightarrow> smtp_conn \<Rightarrow> (string + string) \<times> smtp_conn" where
  "command cmd c =
     (case conn_write cmd c of
        (Some e, c1) \<Rightarrow> (Inl e, c1)
      | (None, c1) \<Rightarrow> readResponse c1)"

section \<open>The conversation\<close>

definition crlf_end :: "string \<Rightarrow> string" where
  "crlf_end s = s @ [cr, nl]"

text \<open>A command whose answer must begin with one of the digits; otherwise the error names the step.\<close>

definition checked :: "string \<Rightarrow> string \<Rightarrow> string \<Rightarrow> smtp_conn \<Rightarrow> string option \<times> smtp_conn" where
  "checked what digits cmd c =
     (case command cmd c of
        (Inl e, c1) \<Rightarrow> (Some (what @ '' rejected: ''), c1)
      | (Inr resp, c1) \<Rightarrow> (if list_ex (\<lambda>d. has_prefix resp [d]) digits then None else Some (what @ '' rejected: '' @ resp), c1))"

definition and_then :: "string option \<times> smtp_conn \<Rightarrow> (smtp_conn \<Rightarrow> string option \<times> smtp_conn) \<Rightarrow> string option \<times> smtp_conn" where
  "and_then r f = (case r of (Some e, c) \<Rightarrow> (Some e, c) | (None, c) \<Rightarrow> f c)"

definition write_body :: "string \<Rightarrow> smtp_conn \<Rightarrow> string option \<times> smtp_conn" where
  "write_body body c =
     (case conn_write (encodeDataBody body) c of
        (Some e, c1) \<Rightarrow> (Some (''body write failed: '' @ e), c1)
      | (None, c1) \<Rightarrow> (None, c1))"

definition mail_line :: "string \<Rightarrow> string" where
  "mail_line sender = crlf_end (''MAIL FROM:<'' @ sanitize sender @ ''>'')"

definition rcpt_line :: "string \<Rightarrow> string" where
  "rcpt_line to = crlf_end (''RCPT TO:<'' @ sanitize to @ ''>'')"

definition ehlo_line :: "string \<Rightarrow> string" where
  "ehlo_line ehlo = crlf_end (''EHLO '' @ sanitize ehlo)"

definition transaction :: "string \<Rightarrow> string \<Rightarrow> string \<Rightarrow> smtp_conn \<Rightarrow> string option \<times> smtp_conn" where
  "transaction sender to body c =
     and_then (checked ''MAIL FROM'' ''2'' (mail_line sender) c) (\<lambda>c1.
     and_then (checked ''RCPT TO'' ''2'' (rcpt_line to) c1) (\<lambda>c2.
     and_then (checked ''DATA'' ''23'' (crlf_end ''DATA'') c2) (\<lambda>c3.
     and_then (write_body body c3) (\<lambda>c4.
     checked ''message'' ''2'' (crlf_end [dot]) c4))))"

text \<open>The TLS connection over the one below, and what the caller holds afterwards: still the one below.\<close>

definition tls_over :: "net_read list \<Rightarrow> smtp_conn \<Rightarrow> smtp_conn" where
  "tls_over reads c = c\<lparr>sc_tls := True, sc_reads := reads\<rparr>"

definition below :: "smtp_conn \<Rightarrow> smtp_conn \<Rightarrow> smtp_conn" where
  "below c t = c\<lparr>sc_out := sc_out t, sc_wfails := sc_wfails t, sc_upgraded := True\<rparr>"

definition deliverMessage :: "string \<Rightarrow> string \<Rightarrow> string \<Rightarrow> string \<Rightarrow> string \<Rightarrow> bool \<Rightarrow> smtp_conn \<Rightarrow> string option \<times> smtp_conn" where
  "deliverMessage ehlo sender to body mxHost reused c =
     (case (if reused then (Inr [], c) else readResponse c) of
        (Inl e, c1) \<Rightarrow> (Some (''greeting failed: '' @ e), c1)
      | (Inr _, c1) \<Rightarrow>
          (case command (ehlo_line ehlo) c1 of
             (Inl e, c2) \<Rightarrow> (Some (''EHLO failed: '' @ e), c2)
           | (Inr resp, c2) \<Rightarrow>
               if \<not> sc_tls c2 \<and> contains_str resp ''STARTTLS''
               then
                 (case command (crlf_end ''STARTTLS'') c2 of
                    (Inl _, c3) \<Rightarrow> transaction sender to body c3
                  | (Inr _, c3) \<Rightarrow>
                      (case sc_tlsReads c3 of
                         Inl e \<Rightarrow> (Some (''STARTTLS handshake failed: '' @ e), c3)
                       | Inr reads \<Rightarrow>
                           (case command (ehlo_line ehlo) (tls_over reads c3) of
                              (Inl e, t) \<Rightarrow> (Some (''post-STARTTLS EHLO failed: '' @ e), below c3 t)
                            | (Inr _, t) \<Rightarrow> (case transaction sender to body t of (r, t1) \<Rightarrow> (r, below c3 t1)))))
               else transaction sender to body c2))"

section \<open>The client\<close>

record pooled =
  pc_conn :: smtp_conn
  pc_lastUsed :: int

record smtp_client =
  cl_pool :: "string \<rightharpoonup> pooled"
  cl_mx :: "string \<rightharpoonup> string \<times> int"
  cl_rate :: "string \<rightharpoonup> int list"

text \<open>The clock, what dialling, the MX lookups and the lookups of addresses will answer.\<close>

record smtp_net =
  sn_now :: int
  sn_dials :: "(string + smtp_conn) list"
  sn_mx :: "string list option list"
  sn_v6 :: "bool list"

definition second :: int where "second = 1000000000"
definition minute :: int where "minute = 60 * second"
definition hour :: int where "hour = 60 * minute"

definition pool_key :: "string \<Rightarrow> int \<Rightarrow> string" where
  "pool_key host port = host @ '':'' @ itoa port"

definition dial :: "string \<Rightarrow> int \<Rightarrow> smtp_net \<Rightarrow> (string + smtp_conn) \<times> smtp_net" where
  "dial host port n =
     (case sn_dials n of
        [] \<Rightarrow> (Inl ''connection refused'', n)
      | d # ds \<Rightarrow> (map_sum id (\<lambda>c. c\<lparr>sc_tls := (port = 465)\<rparr>) d, n\<lparr>sn_dials := ds\<rparr>))"

definition dial_error :: "string \<Rightarrow> int \<Rightarrow> string \<Rightarrow> string" where
  "dial_error host port e = (if port = 465 then ''TLS connect to '' else ''connect to '') @ pool_key host port @ '' failed: '' @ e"

definition connect_new :: "string \<Rightarrow> int \<Rightarrow> smtp_client \<Rightarrow> smtp_net \<Rightarrow> (string + smtp_conn \<times> bool) \<times> smtp_client \<times> smtp_net" where
  "connect_new host port cl n =
     (case dial host port n of
        (Inl e, n1) \<Rightarrow> (Inl (dial_error host port e), cl, n1)
      | (Inr c, n1) \<Rightarrow> (Inr (c, False), cl, n1))"

definition drop_pooled :: "string \<Rightarrow> smtp_client \<Rightarrow> smtp_client" where
  "drop_pooled key cl = cl\<lparr>cl_pool := (cl_pool cl)(key := None)\<rparr>"

text \<open>A pooled connection is probed with a read of one byte; it stays in the pool while it is used.\<close>

definition connect :: "string \<Rightarrow> int \<Rightarrow> smtp_client \<Rightarrow> smtp_net \<Rightarrow> (string + smtp_conn \<times> bool) \<times> smtp_client \<times> smtp_net" where
  "connect host port cl n =
     (let key = pool_key host port
      in case cl_pool cl key of
           None \<Rightarrow> connect_new host port cl n
         | Some pc \<Rightarrow>
             if sn_now n - pc_lastUsed pc < 5 * minute
             then
               (case conn_read 1 (pc_conn pc) of
                  (Gone _, _) \<Rightarrow> connect_new host port (drop_pooled key cl) n
                | (_, c1) \<Rightarrow> (Inr (c1, True), cl\<lparr>cl_pool := (cl_pool cl)(key \<mapsto> pc\<lparr>pc_conn := c1\<rparr>)\<rparr>, n))
             else connect_new host port (drop_pooled key cl) n)"

definition returnToPool :: "string \<Rightarrow> int \<Rightarrow> smtp_conn \<Rightarrow> int \<Rightarrow> smtp_client \<Rightarrow> smtp_client" where
  "returnToPool host port c now cl =
     cl\<lparr>cl_pool := (cl_pool cl)(pool_key host port \<mapsto> \<lparr>pc_conn = c, pc_lastUsed = now\<rparr>)\<rparr>"

text \<open>Closing a connection that is in the pool closes the one of the pool.\<close>

definition close_used :: "string \<Rightarrow> int \<Rightarrow> smtp_conn \<Rightarrow> bool \<Rightarrow> smtp_client \<Rightarrow> smtp_client" where
  "close_used host port c reused cl =
     (if reused
      then cl\<lparr>cl_pool := (cl_pool cl)(pool_key host port := map_option (\<lambda>pc. pc\<lparr>pc_conn := conn_close c\<rparr>) (cl_pool cl (pool_key host port)))\<rparr>
      else cl)"

definition client_ports :: "int list" where
  "client_ports = [25, 587, 465, 2525]"

fun try_ports ::
  "local_address \<Rightarrow> string \<Rightarrow> string \<Rightarrow> string \<Rightarrow> string \<Rightarrow> int list \<Rightarrow> string \<Rightarrow> smtp_client \<Rightarrow> smtp_net
   \<Rightarrow> string option \<times> smtp_client \<times> smtp_net" where
  "try_ports la sender to body host [] lastErr cl n = (Some (''all ports failed for '' @ host @ '': '' @ lastErr), cl, n)"
| "try_ports la sender to body host (port # ports) lastErr cl n =
     (case connect host port cl n of
        (Inl e, cl1, n1) \<Rightarrow> try_ports la sender to body host ports e cl1 n1
      | (Inr (c, reused), cl1, n1) \<Rightarrow>
          (case deliverMessage (la_ehlo la) sender to body host reused c of
             (Some e, c1) \<Rightarrow> try_ports la sender to body host ports e (close_used host port c1 reused cl1) n1
           | (None, c1) \<Rightarrow> (None, returnToPool host port c1 (sn_now n1) cl1, n1)))"

definition hostSupportsIPv6 :: "smtp_net \<Rightarrow> bool \<times> smtp_net" where
  "hostSupportsIPv6 n = (case sn_v6 n of [] \<Rightarrow> (False, n) | b # bs \<Rightarrow> (b, n\<lparr>sn_v6 := bs\<rparr>))"

definition sendToHost ::
  "source_ips \<Rightarrow> string \<Rightarrow> string \<Rightarrow> string \<Rightarrow> string \<Rightarrow> string \<Rightarrow> bool \<Rightarrow> smtp_client \<Rightarrow> smtp_net \<Rightarrow> string option \<times> smtp_client \<times> smtp_net" where
  "sendToHost ips sender to body host ehloBase forceIPv4 cl n =
     (case (if forceIPv4 then (False, n) else hostSupportsIPv6 n) of
        (targetIPv6, n1) \<Rightarrow> try_ports (getLocalAddress ehloBase targetIPv6 ips) sender to body host client_ports [] cl n1)"

definition isIPv6NetworkError :: "string \<Rightarrow> bool" where
  "isIPv6NetworkError msg \<longleftrightarrow>
     contains_str msg ''network is unreachable'' \<or> contains_str msg ''no route to host'' \<or> contains_str msg ''address not available''"

definition maxRetries :: nat where "maxRetries = 3"

definition attempt_once ::
  "source_ips \<Rightarrow> string \<Rightarrow> string \<Rightarrow> string \<Rightarrow> string \<Rightarrow> string \<Rightarrow> smtp_client \<Rightarrow> smtp_net \<Rightarrow> string option \<times> smtp_client \<times> smtp_net" where
  "attempt_once ips sender to body host ehloBase cl n =
     (case sendToHost ips sender to body host ehloBase False cl n of
        (None, cl1, n1) \<Rightarrow> (None, cl1, n1)
      | (Some e, cl1, n1) \<Rightarrow>
          if isIPv6NetworkError e then sendToHost ips sender to body host ehloBase True cl1 n1 else (Some e, cl1, n1))"

text \<open>The attempts that are left; the one with number \<open>i\<close> is preceded by a pause of \<open>i\<close> seconds.\<close>

fun attempts ::
  "nat \<Rightarrow> nat \<Rightarrow> source_ips \<Rightarrow> string \<Rightarrow> string \<Rightarrow> string \<Rightarrow> string \<Rightarrow> string \<Rightarrow> string \<Rightarrow> smtp_client \<Rightarrow> smtp_net
   \<Rightarrow> string option \<times> smtp_client \<times> smtp_net" where
  "attempts 0 i ips sender to body host ehloBase lastErr cl n =
     (Some (''delivery to '' @ to @ '' failed after '' @ itoa (int maxRetries) @ '' attempts: '' @ lastErr), cl, n)"
| "attempts (Suc k) i ips sender to body host ehloBase lastErr cl n =
     (case attempt_once ips sender to body host ehloBase cl (n\<lparr>sn_now := sn_now n + int i * second\<rparr>) of
        (None, cl1, n1) \<Rightarrow> (None, cl1, n1)
      | (Some e, cl1, n1) \<Rightarrow> attempts k (Suc i) ips sender to body host ehloBase e cl1 n1)"

definition checkRateLimit :: "int \<Rightarrow> string \<Rightarrow> smtp_client \<Rightarrow> bool \<times> smtp_client" where
  "checkRateLimit now domain cl =
     (let filtered = filter (\<lambda>ts. now - hour < ts) (case cl_rate cl domain of None \<Rightarrow> [] | Some tss \<Rightarrow> tss)
      in if 1000 \<le> length filtered then (False, cl\<lparr>cl_rate := (cl_rate cl)(domain \<mapsto> filtered)\<rparr>)
         else (True, cl\<lparr>cl_rate := (cl_rate cl)(domain \<mapsto> filtered @ [now])\<rparr>))"

definition lookupMX :: "smtp_net \<Rightarrow> string list option \<times> smtp_net" where
  "lookupMX n = (case sn_mx n of [] \<Rightarrow> (None, n) | r # rs \<Rightarrow> (r, n\<lparr>sn_mx := rs\<rparr>))"

definition resolveMX :: "string \<Rightarrow> smtp_client \<Rightarrow> smtp_net \<Rightarrow> string option \<times> smtp_client \<times> smtp_net" where
  "resolveMX domain cl n =
     (let fresh = (\<lambda>cl. case lookupMX n of
                          (Some (h # hs), n1) \<Rightarrow>
                            (Some (trim_suffix h [dot]), cl\<lparr>cl_mx := (cl_mx cl)(domain \<mapsto> (trim_suffix h [dot], sn_now n1))\<rparr>, n1)
                        | (_, n1) \<Rightarrow> (None, cl, n1))
      in case cl_mx cl domain of
           None \<Rightarrow> fresh cl
         | Some (host, t) \<Rightarrow>
             if sn_now n - t < hour then (Some host, cl, n) else fresh (cl\<lparr>cl_mx := (cl_mx cl)(domain := None)\<rparr>))"

definition after_at :: "string \<Rightarrow> string" where
  "after_at s = (case last_index_byte CHR ''@'' s of Some i \<Rightarrow> drop (i + 1) s | None \<Rightarrow> s)"

text \<open>The signer: what it makes of sender and message, if it can.\<close>

type_synonym dkim_signer = "string \<Rightarrow> string \<Rightarrow> string option"

definition signed_body :: "dkim_signer option \<Rightarrow> string \<Rightarrow> string \<Rightarrow> string" where
  "signed_body signer sender body =
     (case signer of
        None \<Rightarrow> body
      | Some sign \<Rightarrow> (case sign sender body of Some s \<Rightarrow> if s \<noteq> [] then s else body | None \<Rightarrow> body))"

definition Send :: "dkim_signer option \<Rightarrow> source_ips \<Rightarrow> string \<Rightarrow> string \<Rightarrow> string \<Rightarrow> smtp_client \<Rightarrow> smtp_net \<Rightarrow> string option \<times> smtp_client \<times> smtp_net" where
  "Send signer ips sender to body cl n =
     (let domain = after_at to
      in case checkRateLimit (sn_now n) domain cl of
           (False, cl1) \<Rightarrow> (Some (''rate limit exceeded for domain '' @ domain), cl1, n)
         | (True, cl1) \<Rightarrow>
             (case resolveMX domain cl1 n of
                (None, cl2, n1) \<Rightarrow> (Some (''MX resolution failed for '' @ domain @ '': no MX records for '' @ domain), cl2, n1)
              | (Some host, cl2, n1) \<Rightarrow>
                  attempts (Suc maxRetries) 0 ips sender to (signed_body signer sender body) host (''mail.'' @ after_at sender) [] cl2 n1))"

definition client_cleanup :: "int \<Rightarrow> smtp_client \<Rightarrow> smtp_client" where
  "client_cleanup now cl =
     cl\<lparr>cl_pool := (\<lambda>k. case cl_pool cl k of Some pc \<Rightarrow> if 5 * minute < now - pc_lastUsed pc then None else Some pc | None \<Rightarrow> None),
        cl_mx := (\<lambda>d. case cl_mx cl d of Some (h, t) \<Rightarrow> if hour < now - t then None else Some (h, t) | None \<Rightarrow> None)\<rparr>"

definition client_stop :: "smtp_client \<Rightarrow> smtp_client" where
  "client_stop cl = cl\<lparr>cl_pool := Map.empty, cl_mx := Map.empty, cl_rate := Map.empty\<rparr>"

section \<open>What the receiver makes of the data\<close>

text \<open>
  The receiver of RFC 5321 (section 4.5.2): lines end with CRLF, one that is a dot ends the data, of any other the
  leading dot is dropped. The flag says whether a line begins.
\<close>

fun receive :: "bool \<Rightarrow> string \<Rightarrow> (string \<times> string) option" where
  "receive start [] = None"
| "receive start (c # cs) =
     (if start \<and> c = dot
      then if has_prefix cs [cr, nl] then Some ([], drop 2 cs) else receive False cs
      else if c = cr \<and> cs \<noteq> [] \<and> hd cs = nl
      then map_option (\<lambda>(m, rest). (cr # nl # m, rest)) (receive True (tl cs))
      else map_option (\<lambda>(m, rest). (c # m, rest)) (receive False cs))"

fun crlf_loop :: "string \<Rightarrow> string" where
  "crlf_loop [] = []"
| "crlf_loop (b # cs) =
     (if b = cr \<and> cs \<noteq> [] \<and> hd cs = nl then cr # nl # crlf_loop (tl cs)
      else if b = nl then cr # nl # crlf_loop cs
      else b # crlf_loop cs)"

text \<open>The message with its line ends made CRLF and its last line ended.\<close>

definition crlf_lines :: "string \<Rightarrow> string" where
  "crlf_lines body = (let out = crlf_loop body in if has_suffix out [cr, nl] then out else out @ [cr, nl])"

fun line_start :: "bool \<Rightarrow> string \<Rightarrow> bool" where
  "line_start start [] = start"
| "line_start start (b # cs) =
     (if b = cr \<and> cs \<noteq> [] \<and> hd cs = nl then line_start True (tl cs) else line_start (b = nl) cs)"

lemma receive_encoded:
  "rest \<noteq> [] \<Longrightarrow> hd rest \<noteq> nl \<Longrightarrow>
   receive start (encode_loop start body @ rest)
     = map_option (\<lambda>(m, r). (crlf_loop body @ m, r)) (receive (line_start start body) rest)"
proof (induction start body rule: encode_loop.induct)
  case (1 start)
  then show ?case by (simp add: option.map_ident_strong)
next
  case (2 start b cs)
  have hd_enc: "hd (encode_loop False cs @ rest) \<noteq> nl" if "cs = [] \<or> hd cs \<noteq> nl"
    using "2.prems" that by (cases cs) auto
  have comp: "map_option (\<lambda>(m, r). (xs @ m, r)) (map_option (\<lambda>(m, r). (ys @ m, r)) q) = map_option (\<lambda>(m, r). ((xs @ ys) @ m, r)) q"
    for xs ys :: string and q :: "(string \<times> string) option"
    by (cases q) auto
  consider (crlf) "b = cr" "cs \<noteq> []" "hd cs = nl" | (lf) "b = nl" | (stuff) "start" "b = dot"
    | (other) "\<not> (b = cr \<and> cs \<noteq> [] \<and> hd cs = nl)" "b \<noteq> nl" "\<not> (start \<and> b = dot)"
    by blast
  then show ?case
  proof cases
    case other
    then have "b = cr \<Longrightarrow> hd (encode_loop False cs @ rest) \<noteq> nl" using hd_enc by blast
    then have "receive start (b # encode_loop False cs @ rest) = map_option (\<lambda>(m, r). ([b] @ m, r)) (receive False (encode_loop False cs @ rest))"
      using other by auto
    with other 2 comp [of "[b]"] show ?thesis by auto
  next
    case stuff
    then have "receive start (dot # dot # encode_loop False cs @ rest) = map_option (\<lambda>(m, r). ([dot] @ m, r)) (receive False (encode_loop False cs @ rest))"
      by (auto simp: has_prefix_iff)
    with stuff 2 comp [of "[dot]"] show ?thesis by auto
  qed (use 2 comp [of "[cr, nl]"] in auto)
qed

lemma has_suffix_end: "has_suffix s p \<longleftrightarrow> (\<exists>t. s = t @ p)"
proof
  assume "has_suffix s p"
  then have "s = take (length s - length p) s @ p" by (metis append_take_drop_id has_suffix_def)
  then show "\<exists>t. s = t @ p" by blast
qed (auto simp: has_suffix_def)

lemma encode_loop_Nil [simp]: "encode_loop st body = [] \<longleftrightarrow> body = []" "crlf_loop body = [] \<longleftrightarrow> body = []"
  by (induction st body rule: encode_loop.induct) auto

lemma ends_crlf_Cons: "has_suffix (c # xs) [cr, nl] \<longleftrightarrow> (xs = [nl] \<and> c = cr) \<or> has_suffix xs [cr, nl]"
  by (auto simp: has_suffix_end Cons_eq_append_conv)

lemma first_not_nl: "body \<noteq> [] \<Longrightarrow> hd (encode_loop start body) \<noteq> nl" "body \<noteq> [] \<Longrightarrow> hd (crlf_loop body) \<noteq> nl"
  by (cases body; simp)+

lemma not_only_nl [simp]: "encode_loop start body \<noteq> [nl]" "crlf_loop body \<noteq> [nl]"
  using first_not_nl(1) [of body start] first_not_nl(2) [of body] by (cases "body = []"; force)+

lemma not_suffix_Nil [simp]: "\<not> has_suffix [] [cr, nl]" "has_suffix [cr, nl] [cr, nl]" "\<not> has_suffix [c] [cr, nl]"
  by (auto simp: has_suffix_def)

lemma ends_with_line:
  "body \<noteq> [] \<Longrightarrow> has_suffix (encode_loop start body) [cr, nl] \<longleftrightarrow> line_start start body"
  "body \<noteq> [] \<Longrightarrow> has_suffix (crlf_loop body) [cr, nl] \<longleftrightarrow> line_start start body"
proof (induction start body rule: encode_loop.induct)
  case (2 start b cs)
  consider (crlf) ds where "b = cr" "cs = nl # ds" | (lf) "b = nl" | (other) "\<not> (b = cr \<and> cs \<noteq> [] \<and> hd cs = nl)" "b \<noteq> nl"
    by (cases cs) auto
  note lines = this
  {
    case 1
    from lines show ?case
    proof cases
      case crlf
      with 2(1) show ?thesis by (cases "ds = []") (simp_all add: ends_crlf_Cons)
    next
      case lf
      with 2(3) show ?thesis by (cases "cs = []") (simp_all add: ends_crlf_Cons)
    next
      case other
      with 2(5,7) show ?thesis by (cases "cs = []"; cases "start \<and> b = dot") (auto simp: ends_crlf_Cons)
    qed
  next
    case 2
    from lines show ?case
    proof cases
      case crlf
      with 2 show ?thesis using "2.IH"(2) by (cases "ds = []") (simp_all add: ends_crlf_Cons)
    next
      case lf
      with 2 show ?thesis using "2.IH"(4) by (cases "cs = []") (simp_all add: ends_crlf_Cons)
    next
      case other
      with 2 show ?thesis using "2.IH"(6,8) by (cases "cs = []"; cases "start \<and> b = dot") (auto simp: ends_crlf_Cons)
    qed
  }
qed simp_all

text \<open>
  C7. The data arrives: whatever the message, what the client writes after DATA, with the dot that ends it, is read by the
  receiver as exactly this message with its line ends made CRLF; nothing in it ends the data early, and what
  follows the dot is left for the next command.
\<close>

theorem data_arrives:
  "receive True (encodeDataBody body @ dot # cr # nl # rest) = Some (crlf_lines body, rest)"
proof -
  have same: "has_suffix (encode_loop True body) [cr, nl] \<longleftrightarrow> has_suffix (crlf_loop body) [cr, nl]"
    using ends_with_line [of body True] by (cases "body = []") simp_all
  have started: "line_start True body" if "has_suffix (encode_loop True body) [cr, nl]"
    using that ends_with_line(1) [of body True] by (cases "body = []") simp_all
  have final: "receive b (cr # nl # dot # cr # nl # rest) = Some ([cr, nl], rest)" for b
    by (simp add: has_prefix_iff)
  have "receive True (dot # cr # nl # rest) = Some ([], rest)" by (simp add: has_prefix_iff)
  then show ?thesis
    using same started final
      receive_encoded [of "dot # cr # nl # rest" True body] receive_encoded [of "cr # nl # dot # cr # nl # rest" True body]
    by (simp add: encodeDataBody_def crlf_lines_def Let_def)
qed

text \<open>The line ends are made CRLF once: a message that has been relayed arrives unchanged.\<close>

lemma crlf_loop_idem: "crlf_loop (crlf_loop body) = crlf_loop body"
proof (induction body rule: crlf_loop.induct)
  case (2 b cs)
  have "hd (crlf_loop cs) \<noteq> nl" if "cs \<noteq> []" using first_not_nl(2) [OF that] .
  with 2 show ?case by (cases "b = cr \<and> cs \<noteq> [] \<and> hd cs = nl"; cases "b = nl") auto
qed simp

lemma crlf_loop_line: "crlf_loop (xs @ [cr, nl]) = crlf_loop xs @ [cr, nl]"
proof (induction xs rule: crlf_loop.induct)
  case (2 b cs)
  then show ?case by (cases cs) auto
qed simp

lemma crlf_lines_idem: "crlf_lines (crlf_lines body) = crlf_lines body"
  by (simp add: crlf_lines_def Let_def crlf_loop_idem crlf_loop_line has_suffix_end)

section \<open>What the client writes\<close>

definition one_line :: "string \<Rightarrow> bool" where
  "one_line s \<longleftrightarrow> (let l = take (length s - 2) s in s = crlf_end l \<and> cr \<notin> set l \<and> nl \<notin> set l)"

text \<open>One write of a delivery: a line, or the encoded message.\<close>

definition safe_write :: "string \<Rightarrow> bool \<times> string \<Rightarrow> bool" where
  "safe_write body w \<longleftrightarrow> snd w = encodeDataBody body \<or> one_line (snd w)"

definition wrote :: "string \<Rightarrow> smtp_conn \<Rightarrow> smtp_conn \<Rightarrow> bool" where
  "wrote body c c' \<longleftrightarrow> sc_tls c' = sc_tls c \<and> (\<exists>new. sc_out c' = sc_out c @ new \<and> list_all (safe_write body) new)"

lemma one_line_end: "cr \<notin> set l \<Longrightarrow> nl \<notin> set l \<Longrightarrow> one_line (crlf_end l)"
  by (simp add: one_line_def crlf_end_def)

lemma sanitize_chars: "cr \<notin> set (sanitize s)" "nl \<notin> set (sanitize s)"
  by (auto simp: sanitize_def dest: in_set_takeD)

lemma command_lines:
  "one_line (ehlo_line e)" "one_line (mail_line f)" "one_line (rcpt_line t)" "one_line (crlf_end ''DATA'')"
  "one_line (crlf_end [dot])" "one_line (crlf_end ''STARTTLS'')"
  unfolding ehlo_line_def mail_line_def rcpt_line_def
  by (rule one_line_end; simp add: sanitize_chars)+

lemma wrote_refl [simp]: "wrote body c c"
  by (simp add: wrote_def)

lemma wrote_trans: "wrote body a b \<Longrightarrow> wrote body b c \<Longrightarrow> wrote body a c"
  by (auto simp: wrote_def)

lemma conn_read_frame: "conn_read n c = (r, c1) \<Longrightarrow> sc_out c1 = sc_out c \<and> sc_tls c1 = sc_tls c"
  by (auto simp: conn_read_def split: list.splits net_read.splits if_splits)

lemma readResponse_frame: "readResponse c = (r, c1) \<Longrightarrow> sc_out c1 = sc_out c \<and> sc_tls c1 = sc_tls c"
  by (auto simp: readResponse_def dest: conn_read_frame split: prod.splits read_result.splits)

lemma conn_write_frame:
  "conn_write s c = (r, c1) \<Longrightarrow> sc_tls c1 = sc_tls c \<and> sc_out c1 = (if r = None then sc_out c @ [(sc_tls c, s)] else sc_out c)"
  by (auto simp: conn_write_def split: list.splits option.splits)

lemma command_frame:
  "command cmd c = (r, c1) \<Longrightarrow> sc_tls c1 = sc_tls c
    \<and> (sc_out c1 = sc_out c @ [(sc_tls c, cmd)] \<or> (sc_out c1 = sc_out c \<and> (\<exists>e. r = Inl e)))"
  by (auto simp: command_def split: prod.splits option.splits dest!: conn_write_frame readResponse_frame)

lemma command_wrote: "command cmd c = (r, c1) \<Longrightarrow> one_line cmd \<Longrightarrow> wrote body c c1"
  using command_frame [of cmd c r c1] by (auto simp: wrote_def safe_write_def)

lemma checked_frame:
  "checked what ds cmd c = (r, c1) \<Longrightarrow> sc_tls c1 = sc_tls c
    \<and> (sc_out c1 = sc_out c @ [(sc_tls c, cmd)] \<or> (sc_out c1 = sc_out c \<and> r \<noteq> None))"
  by (auto simp: checked_def split: prod.splits sum.splits if_splits dest!: command_frame)

lemma checked_wrote: "checked what ds cmd c = (r, c1) \<Longrightarrow> one_line cmd \<Longrightarrow> wrote body c c1"
  using checked_frame [of what ds cmd c r c1] by (auto simp: wrote_def safe_write_def)

lemma write_body_frame:
  "write_body body c = (r, c1) \<Longrightarrow> sc_tls c1 = sc_tls c
    \<and> (sc_out c1 = sc_out c @ [(sc_tls c, encodeDataBody body)] \<or> (sc_out c1 = sc_out c \<and> r \<noteq> None))"
  by (auto simp: write_body_def split: prod.splits option.splits dest!: conn_write_frame)

lemma write_body_wrote: "write_body body c = (r, c1) \<Longrightarrow> wrote body c c1"
  using write_body_frame [of body c r c1] by (auto simp: wrote_def safe_write_def)

lemma and_then_None: "and_then q f = (None, c) \<longleftrightarrow> (\<exists>c1. q = (None, c1) \<and> f c1 = (None, c))"
  by (auto simp: and_then_def split: prod.split option.split)

lemma and_then_wrote:
  assumes "\<And>r1 c1. q = (r1, c1) \<Longrightarrow> wrote body c c1" and "\<And>c1 r2 c2. f c1 = (r2, c2) \<Longrightarrow> wrote body c1 c2"
    and "and_then q f = (r, c')"
  shows "wrote body c c'"
  using assms by (auto simp: and_then_def split: prod.splits option.splits intro: wrote_trans)

lemma transaction_wrote: "transaction sender to body c = (r, c') \<Longrightarrow> wrote body c c'"
  unfolding transaction_def
  by (erule and_then_wrote [rotated 2], erule checked_wrote, rule command_lines,
      erule and_then_wrote [rotated 2], erule checked_wrote, rule command_lines,
      erule and_then_wrote [rotated 2], erule checked_wrote, rule command_lines,
      erule and_then_wrote [rotated 2], erule write_body_wrote, erule checked_wrote, rule command_lines)

definition conversation :: "string \<Rightarrow> string \<Rightarrow> string \<Rightarrow> string list" where
  "conversation sender to body = [mail_line sender, rcpt_line to, crlf_end ''DATA'', encodeDataBody body, crlf_end [dot]]"

lemma transaction_done:
  "transaction sender to body c = (None, c') \<Longrightarrow>
    sc_out c' = sc_out c @ map (Pair (sc_tls c)) (conversation sender to body)"
  unfolding transaction_def conversation_def and_then_None
  by (elim exE conjE) (drule checked_frame write_body_frame; drule checked_frame; drule checked_frame; drule write_body_frame; drule checked_frame; simp)

lemma deliverMessage_cases:
  assumes "deliverMessage ehlo sender to body mx reused c = (r, c')"
  obtains (failed) "r \<noteq> None" "wrote body c c'"
  | (plain) d where "wrote body c d" "transaction sender to body d = (r, c')"
  | (secure) d t t1 where "wrote body c d" "wrote body (d\<lparr>sc_tls := True\<rparr>) t" "transaction sender to body t = (r, t1)" "c' = below d t1"
proof -
  obtain g c1 where 1: "(if reused then (Inr [], c) else readResponse c) = (g, c1)" by fastforce
  then have w1: "wrote body c c1" by (auto simp: wrote_def split: if_splits dest: readResponse_frame)
  obtain h c2 where 2: "command (ehlo_line ehlo) c1 = (h, c2)" by fastforce
  have w2: "wrote body c c2" using w1 command_wrote [OF 2 command_lines(1)] by (rule wrote_trans)
  obtain k c3 where 3: "command (crlf_end ''STARTTLS'') c2 = (k, c3)" by fastforce
  have w3: "wrote body c c3" using w2 command_wrote [OF 3 command_lines(6)] by (rule wrote_trans)
  have tls: "wrote body (c3\<lparr>sc_tls := True\<rparr>) t" if "command (ehlo_line ehlo) (tls_over rs c3) = (q, t)" for rs q t
    using command_wrote [OF that command_lines(1), of body] by (auto simp: wrote_def tls_over_def)
  have low: "wrote body c (below c3 t)" if "wrote body (c3\<lparr>sc_tls := True\<rparr>) t" for t
    using w3 that by (auto simp: wrote_def below_def)
  note run = assms [unfolded deliverMessage_def 1 2 3 prod.case]
  show thesis
  proof (cases g)
    case (Inl e)
    with run w1 show thesis by (intro failed) auto
  next
    case g: (Inr q)
    show thesis
    proof (cases h)
      case (Inl e)
      with run g 2 w2 show thesis by (intro failed) auto
    next
      case h: (Inr resp)
      show thesis
      proof (cases "\<not> sc_tls c2 \<and> contains_str resp ''STARTTLS''")
        case False
        with run g h 2 w2 show thesis by (intro plain [of c2]) auto
      next
        case upgrade: True
        show thesis
        proof (cases k)
          case (Inl e)
          with run g h 2 3 w3 upgrade show thesis by (intro plain [of c3]) auto
        next
          case k: (Inr x)
          show thesis
          proof (cases "sc_tlsReads c3")
            case (Inl e)
            with run g h k 2 3 w3 upgrade show thesis by (intro failed) auto
          next
            case (Inr reads)
            obtain p t where 4: "command (ehlo_line ehlo) (tls_over reads c3) = (p, t)" by fastforce
            obtain b t1 where 5: "transaction sender to body t = (b, t1)" by fastforce
            note all = run g h k 2 3 4 5 Inr upgrade
            show thesis
            proof (cases p)
              case (Inl e)
              with all low [OF tls [OF 4]] show thesis by (intro failed) auto
            next
              case (Inr y)
              with all w3 tls [OF 4] show thesis by (intro secure [of c3 t t1]) auto
            qed
          qed
        qed
      qed
    qed
  qed
qed

text \<open>
  C8. A delivery that succeeds has had the whole conversation, in order and over one channel: the sender, the recipient,
  DATA, the encoded message and the final dot, the last write of it answered with a 2. And whatever sender,
  recipient, host name and answers, nothing else than lines without a line break inside and the encoded message
  is written, so no value of them can add a command.
\<close>

theorem delivery_conversation:
  assumes "deliverMessage ehlo sender to body mx reused c = (r, c')"
  shows "(\<exists>new. sc_out c' = sc_out c @ new \<and> list_all (safe_write body) new)
    \<and> (r = None \<longrightarrow> (\<exists>pre tls. sc_out c' = sc_out c @ pre @ map (Pair tls) (conversation sender to body)))"
  using assms
proof (cases rule: deliverMessage_cases)
  case (plain d)
  with transaction_wrote [OF plain(2)] transaction_done [of sender to body d c'] show ?thesis
    by (auto simp: wrote_def)
next
  case (secure d t t1)
  from secure(1,2) obtain pre where pre: "sc_out t = sc_out c @ pre" "list_all (safe_write body) pre"
    by (auto simp: wrote_def)
  from secure(3,4) transaction_wrote [OF secure(3)] transaction_done [of sender to body t t1] pre show ?thesis
    by (auto simp: wrote_def below_def)
qed (auto simp: wrote_def)

definition demo_peer :: smtp_conn where
  "demo_peer = \<lparr>sc_tls = False, sc_reads = map Segment [''220 hi'', ''250 STARTTLS'', ''220 go'', ''??alert'', ''??closed''], sc_wfails = [],
     sc_tlsReads = Inr (map Segment [''250 ok'', ''250 ok'', ''250 ok'', ''354 go'', ''250 ok'']), sc_out = [], sc_upgraded = False\<rparr>"

theorem delivery_conversation_witness:
  "\<exists>pre tls. sc_out (snd (deliverMessage ''mail.a.b'' ''u@a.b'' ''v@c.d'' ''Hi'' ''mx'' False demo_peer)) = pre @ map (Pair tls) (conversation ''u@a.b'' ''v@c.d'' ''Hi'')"
proof -
  obtain r c' where d: "deliverMessage ''mail.a.b'' ''u@a.b'' ''v@c.d'' ''Hi'' ''mx'' False demo_peer = (r, c')" by fastforce
  have "fst (deliverMessage ''mail.a.b'' ''u@a.b'' ''v@c.d'' ''Hi'' ''mx'' False demo_peer) = None" by code_simp
  with delivery_conversation [OF d] d show ?thesis by (simp add: demo_peer_def)
qed

section \<open>The rate limit\<close>

text \<open>Calls with their times and domains; those that pass.\<close>

fun sends_passed :: "(int \<times> string) list \<Rightarrow> smtp_client \<Rightarrow> (int \<times> string) list" where
  "sends_passed [] cl = []"
| "sends_passed ((now, domain) # es) cl =
     (case checkRateLimit now domain cl of
        (ok, cl1) \<Rightarrow> (if ok then (now, domain) # sends_passed es cl1 else sends_passed es cl1))"

definition times_of :: "string \<Rightarrow> (int \<times> string) list \<Rightarrow> int list" where
  "times_of d ps = map fst (filter (\<lambda>p. snd p = d) ps)"

definition in_hour :: "int \<Rightarrow> int list \<Rightarrow> nat" where
  "in_hour T ts = length (filter (\<lambda>t. T - hour < t \<and> t \<le> T) ts)"

lemma length_filter_imp: "(\<And>x. x \<in> set xs \<Longrightarrow> P x \<Longrightarrow> Q x) \<Longrightarrow> length (filter P xs) \<le> length (filter Q xs)"
  by (induction xs) (auto simp: le_SucI)

lemma in_hour_snoc:
  assumes "length (filter (\<lambda>t. now - hour < t) ts) < 1000" and "in_hour T ts \<le> 1000"
  shows "in_hour T (ts @ [now]) \<le> 1000"
proof (cases "T - hour < now \<and> now \<le> T")
  case True
  then have "in_hour T ts \<le> length (filter (\<lambda>t. now - hour < t) ts)"
    unfolding in_hour_def by (intro length_filter_imp) simp
  with assms(1) True show ?thesis by (simp add: in_hour_def)
qed (use assms in \<open>auto simp: in_hour_def\<close>)

definition rate_times :: "smtp_client \<Rightarrow> string \<Rightarrow> int list" where
  "rate_times cl d = (case cl_rate cl d of None \<Rightarrow> [] | Some ts \<Rightarrow> ts)"

text \<open>What the client remembers of the calls that have passed: those since an hour before the last call of the domain.\<close>

definition rate_remembers :: "int \<Rightarrow> smtp_client \<Rightarrow> (int \<times> string) list \<Rightarrow> bool" where
  "rate_remembers now cl past \<longleftrightarrow>
     (\<forall>d. (\<exists>m\<le>now. rate_times cl d = filter (\<lambda>t. m - hour < t) (times_of d past)) \<and> (\<forall>T. in_hour T (times_of d past) \<le> 1000))"

lemma rate_step_remembers:
  assumes "rate_remembers now0 cl past" and "now0 \<le> now" and "checkRateLimit now d cl = (ok, cl1)"
  shows "rate_remembers now cl1 (if ok then past @ [(now, d)] else past)"
proof -
  let ?kept = "filter (\<lambda>t. now - hour < t) (times_of d past)"
  obtain m where m: "m \<le> now0" "rate_times cl d = filter (\<lambda>t. m - hour < t) (times_of d past)"
    using assms(1) by (auto simp: rate_remembers_def)
  then have kept: "filter (\<lambda>t. now - hour < t) (rate_times cl d) = ?kept"
    using assms(2) by (auto intro!: filter_cong)
  have cl1: "rate_times cl1 e = (if e = d then (if ok then ?kept @ [now] else ?kept) else rate_times cl e)"
    and ok: "ok \<longleftrightarrow> length ?kept < 1000" for e
    using assms(3) kept by (auto simp: checkRateLimit_def rate_times_def Let_def split: if_splits)
  have "\<exists>m\<le>now. rate_times cl1 e = filter (\<lambda>t. m - hour < t) (times_of e (if ok then past @ [(now, d)] else past))" for e
  proof (cases "e = d")
    case True
    then show ?thesis using cl1 [of e] by (intro exI [of _ now]) (auto simp: times_of_def hour_def minute_def second_def)
  next
    case False
    obtain k where "k \<le> now0" "rate_times cl e = filter (\<lambda>t. k - hour < t) (times_of e past)"
      using assms(1) by (auto simp: rate_remembers_def)
    with False cl1 [of e] assms(2) show ?thesis by (intro exI [of _ k]) (auto simp: times_of_def)
  qed
  moreover have "in_hour T (times_of e (if ok then past @ [(now, d)] else past)) \<le> 1000" for e T
  proof -
    have "in_hour T (times_of e past) \<le> 1000" using assms(1) by (auto simp: rate_remembers_def)
    then show ?thesis using ok in_hour_snoc [of now "times_of d past" T] by (auto simp: times_of_def)
  qed
  ultimately show ?thesis by (simp add: rate_remembers_def)
qed

lemma rate_run_remembers:
  "rate_remembers now cl past \<Longrightarrow> sorted (now # map fst es) \<Longrightarrow> in_hour T (times_of d (past @ sends_passed es cl)) \<le> 1000"
proof (induction es arbitrary: now cl past)
  case Nil
  then show ?case by (simp add: rate_remembers_def)
next
  case (Cons e es)
  obtain t b where e: "e = (t, b)" by fastforce
  obtain ok cl1 where c: "checkRateLimit t b cl = (ok, cl1)" by fastforce
  have "now \<le> t" "sorted (t # map fst es)" using Cons.prems(2) e by auto
  with Cons.IH [OF rate_step_remembers [OF Cons.prems(1) _ c]] c e show ?case by (cases ok) simp_all
qed

text \<open>
  The rate limit holds for every hour, not only for the hours of a clock: whatever messages are sent to whatever domains,
  as long as time does not go back, at most 1000 to one domain pass in any span of an hour.
\<close>

theorem rate_limit_every_hour:
  assumes "cl_rate cl = Map.empty" and "sorted (map fst es)"
  shows "in_hour T (times_of d (sends_passed es cl)) \<le> 1000"
proof (cases es)
  case (Cons e es')
  have "rate_remembers (fst e) cl []"
    using assms(1) by (auto simp: rate_remembers_def rate_times_def times_of_def in_hour_def)
  from rate_run_remembers [OF this, of es T d] assms(2) Cons show ?thesis by simp
qed (simp add: times_of_def in_hour_def)

definition new_client :: smtp_client where
  "new_client = \<lparr>cl_pool = Map.empty, cl_mx = Map.empty, cl_rate = Map.empty\<rparr>"

theorem rate_limit_every_hour_witness:
  "in_hour 5 (times_of ''c.d'' (sends_passed [(1, ''c.d''), (2, ''e.f''), (3, ''c.d'')] new_client)) \<le> 1000"
  by (rule rate_limit_every_hour) (simp_all add: new_client_def)

section \<open>Where the code departs from its comments\<close>

text \<open>A pooled connection is handed out and stays in the pool: two messages to one host can be given the same one.\<close>

lemma pooled_shared:
  "connect host port cl n = (Inr (c, True), cl1, n1) \<Longrightarrow> \<exists>pc. cl_pool cl1 (pool_key host port) = Some pc \<and> pc_conn pc = c"
  by (auto simp: connect_def connect_new_def Let_def split: option.splits if_splits prod.splits read_result.splits sum.splits)

text \<open>
  After a delivery over STARTTLS the connection below goes to the pool; the next message to the host is announced on it
  in the clear, in the middle of the TLS session.
\<close>

definition two_sends :: "smtp_client \<times> smtp_net" where
  "two_sends =
     (let ips = \<lparr>ip_v4 = [], ip_v6 = [], ip_primary = []\<rparr>;
          n = \<lparr>sn_now = 0, sn_dials = [Inr demo_peer], sn_mx = [Some [''mx.'']], sn_v6 = []\<rparr>;
          r1 = Send None ips ''u@a.b'' ''v@c.d'' ''Hi'' new_client n;
          la = getLocalAddress ''mail.a.b'' False ips
      in snd (try_ports la ''u@a.b'' ''w@c.d'' ''Ho'' ''mx'' [25] [] (fst (snd r1)) (snd (snd r1))))"

lemma starttls_then_clear:
  "case cl_pool (fst two_sends) ''mx:25'' of
     None \<Rightarrow> False
   | Some pc \<Rightarrow> sc_upgraded (pc_conn pc) \<and> (True, mail_line ''u@a.b'') \<in> set (sc_out (pc_conn pc)) \<and> (False, mail_line ''u@a.b'') \<in> set (sc_out (pc_conn pc))"
  by code_simp

text \<open>An answer that refuses STARTTLS is taken for one that accepts it.\<close>

lemma starttls_reply_unchecked:
  "fst (deliverMessage ''mail.a.b'' ''u@a.b'' ''v@c.d'' ''Hi'' ''mx'' False
      (demo_peer\<lparr>sc_reads := map Segment [''220 hi'', ''250 STARTTLS'', ''454 not now''], sc_tlsReads := Inl ''bad record''\<rparr>))
    = Some ''STARTTLS handshake failed: bad record''"
  by code_simp

end
