(* ===== verification/MailMessage.thy ===== *)
theory MailMessage
  imports SmtpServer "HOL-Library.List_Lexorder" "HOL-Library.Char_ord"
begin

text \<open>
  What is read off a message when it is stored (\<open>internal/mail/message/message.go\<close>, \<open>DecodedBody\<close> of
  \<open>mimetree/section.go\<close>): the display columns of its row and the index of its attachments, as the JSON texts that
  are stored. The quoted-printable reader and MD5 are parameters.
\<close>

section \<open>JSON texts\<close>

text \<open>\<open>json.Marshal\<close> of a string, which also escapes what HTML or JavaScript would read.\<close>

definition json_u :: "nat \<Rightarrow> string" where
  "json_u n = [backslash, CHR ''u'', CHR ''0'', CHR ''0'', hex_char (n div 16), hex_char (n mod 16)]"

definition json_byte :: "char \<Rightarrow> string" where
  "json_byte c =
     (if c = dquote \<or> c = backslash then [backslash, c]
      else if c = CHR 0x08 then [backslash, CHR ''b'']
      else if c = CHR 0x0C then [backslash, CHR ''f'']
      else if c = nl then [backslash, CHR ''n'']
      else if c = cr then [backslash, CHR ''r'']
      else if c = tab then [backslash, CHR ''t'']
      else if ascii_val c < 32 \<or> c \<in> {CHR ''<'', CHR ''>'', CHR ''&''} then json_u (ascii_val c)
      else [c])"

definition json_rune :: "string option \<Rightarrow> string" where
  "json_rune r =
     (case r of
        None \<Rightarrow> backslash # ''ufffd''
      | Some [c] \<Rightarrow> json_byte c
      | Some w \<Rightarrow>
          if w = [CHR 0xE2, CHR 0x80, CHR 0xA8] then backslash # ''u2028''
          else if w = [CHR 0xE2, CHR 0x80, CHR 0xA9] then backslash # ''u2029'' else w)"

definition json_string :: "string \<Rightarrow> string" where
  "json_string s = [dquote] @ concat (map json_rune (runes s)) @ [dquote]"

definition json_object :: "(string \<times> string) list \<Rightarrow> string" where
  "json_object fs = ''{'' @ join_str (map (\<lambda>(k, v). json_string k @ '':'' @ v) fs) '','' @ ''}''"

definition json_array :: "string list \<Rightarrow> string" where
  "json_array vs = ''['' @ join_str vs '','' @ '']''"

text \<open>A map of strings, in the order of its keys.\<close>

definition json_map :: "(string \<times> string) list \<Rightarrow> string" where
  "json_map m = json_object (map (\<lambda>(k, v). (k, json_string v)) (sort_key fst m))"

section \<open>Decoded bodies\<close>

record message_lib =
  mm_lower :: "string \<Rightarrow> string"
  mm_mime :: mime_lib
  mm_quoted :: "string \<Rightarrow> string \<times> bool"
  mm_md5 :: "string \<Rightarrow> string"

text \<open>Bytes that are no UTF-8 stay here; they fail both decoders, as their replacement would.\<close>

definition DecodedBody :: "message_lib \<Rightarrow> part \<Rightarrow> string \<Rightarrow> string" where
  "DecodedBody L p raw =
     (let body = raw_body p raw
      in if pi_encoding (pinfo p) = ''base64''
         then
           let cleaned = filter (\<lambda>c. c \<notin> {cr, nl, CHR '' '', tab}) body
           in (case base64_decode cleaned of
                 Some out \<Rightarrow> out
               | None \<Rightarrow> (case base64_unpadded (trim_right cleaned ''='') of Some out \<Rightarrow> out | None \<Rightarrow> body))
         else if pi_encoding (pinfo p) = ''quoted-printable''
         then (case mm_quoted L body of (decoded, failed) \<Rightarrow> if failed \<and> decoded = [] then body else decoded)
         else body)"

section \<open>Headers\<close>

record header_state =
  hs_lines :: "(string \<times> string) list"
  hs_headers :: "(string \<times> string) list"
  hs_subject :: string
  hs_messageID :: string
  hs_from :: string
  hs_to :: string

definition no_headers :: header_state where
  "no_headers = \<lparr>hs_lines = [], hs_headers = [], hs_subject = [], hs_messageID = [], hs_from = [], hs_to = []\<rparr>"

definition no_addresses :: string where
  "no_addresses = json_object [(''value'', json_array [])]"

text \<open>The address between the last angle bracket and the bracket that closes it, and the name before it.\<close>

definition bracketed :: "string \<Rightarrow> (string \<times> string) option" where
  "bracketed raw =
     (case last_index_byte CHR ''<'' raw of
        None \<Rightarrow> None
      | Some lt \<Rightarrow>
          (case index_byte CHR ''>'' (drop lt raw) of
             None \<Rightarrow> None
           | Some gt \<Rightarrow> Some (take (gt - 1) (drop (lt + 1) raw), trim_both (trim_space (take lt raw)) [dquote, CHR 0x27])))"

definition formatAddressJSON :: "string \<Rightarrow> string" where
  "formatAddressJSON raw0 =
     (let raw = trim_space raw0
      in if raw = [] then no_addresses
         else
           let (address0, name) = (case bracketed raw of Some an \<Rightarrow> an | None \<Rightarrow> ([], []));
               address = (if address0 = [] then trim_both raw ''<> '' else address0)
           in json_object [(''value'', json_array [json_object ((''address'', json_string address)
                # (if name \<noteq> [] then [(''name'', json_string name)] else []))])])"

fun put :: "string \<Rightarrow> string \<Rightarrow> (string \<times> string) list \<Rightarrow> (string \<times> string) list" where
  "put k v [] = [(k, v)]"
| "put k v ((a, b) # m) = (if a = k then (k, v) # m else (a, b) # put k v m)"

definition header_at :: "string \<Rightarrow> (string \<times> string) list \<Rightarrow> string" where
  "header_at k m = (case map_of m k of Some v \<Rightarrow> v | None \<Rightarrow> [])"

text \<open>A continuation line extends the last header line and its value, but not what was taken from them.\<close>

definition continue_header :: "string \<Rightarrow> header_state \<Rightarrow> header_state" where
  "continue_header line st =
     (let (key, text) = last (hs_lines st); more = '' '' @ trim_space line
      in st\<lparr>hs_lines := butlast (hs_lines st) @ [(key, text @ more)], hs_headers := put key (header_at key (hs_headers st) @ more) (hs_headers st)\<rparr>)"

definition take_header :: "string \<Rightarrow> string \<Rightarrow> string \<Rightarrow> header_state \<Rightarrow> header_state" where
  "take_header key line value st =
     (let st1 = st\<lparr>hs_lines := hs_lines st @ [(key, line)], hs_headers := put key value (hs_headers st)\<rparr>
      in if key = ''subject'' then st1\<lparr>hs_subject := value\<rparr>
         else if key = ''message-id'' then st1\<lparr>hs_messageID := value\<rparr>
         else if key = ''from'' then st1\<lparr>hs_from := formatAddressJSON value\<rparr>
         else if key = ''to'' then st1\<lparr>hs_to := formatAddressJSON value\<rparr>
         else st1)"

definition read_header :: "message_lib \<Rightarrow> string \<Rightarrow> header_state \<Rightarrow> header_state" where
  "read_header L raw_line st =
     (let line = trim_right raw_line [cr]
      in if line = [] then st
         else if (hd line = CHR '' '' \<or> hd line = tab) \<and> hs_lines st \<noteq> [] then continue_header line st
         else
           (case index_byte CHR '':'' line of
              None \<Rightarrow> st
            | Some i \<Rightarrow> take_header (go_case lower_char (mm_lower L) (trim_space (take i line))) line (trim_space (drop (i + 1) line)) st))"

definition headerSection :: "string \<Rightarrow> string" where
  "headerSection content =
     (case index_str [cr, nl, cr, nl] content of
        Some e \<Rightarrow> take e content
      | None \<Rightarrow> (case index_str [nl, nl] content of Some e \<Rightarrow> take e content | None \<Rightarrow> content))"

definition headers_of :: "message_lib \<Rightarrow> string \<Rightarrow> header_state" where
  "headers_of L content = fold (read_header L) (split_byte nl (headerSection content)) no_headers"

section \<open>Bodies and attachments\<close>

definition MediaType :: "part \<Rightarrow> string" where
  "MediaType p = pi_type (pinfo p) @ ''/'' @ pi_subtype (pinfo p)"

text \<open>The HTML and the text found so far.\<close>

fun pickBodies :: "message_lib \<Rightarrow> string \<Rightarrow> part \<Rightarrow> string \<times> string \<Rightarrow> string \<times> string" where
  "pickBodies L raw (Part i cs m) found =
     (if is_message (Part i cs m) then found
      else if pi_type i = ''multipart'' then fold (\<lambda>f. f) (map (pickBodies L raw) cs) found
      else if is_attachment (Part i cs m) then found
      else
        (case found of
           (html, text) \<Rightarrow>
             if MediaType (Part i cs m) = ''text/html''
             then (if html = [] then DecodedBody L (Part i cs m) raw else html, text)
             else if MediaType (Part i cs m) = ''text/plain''
             then (html, if text = [] then DecodedBody L (Part i cs m) raw else text)
             else found))"

record attachmentMeta =
  am_contentType :: string
  am_partID :: string
  am_disposition :: string
  am_filename :: string
  am_contentID :: string
  am_cid :: string
  am_checksum :: string
  am_size :: int
  am_encoding :: string
  am_offset :: int
  am_length :: int

definition attachment_meta :: "message_lib \<Rightarrow> string \<Rightarrow> string \<times> part \<Rightarrow> attachmentMeta" where
  "attachment_meta L raw a =
     (case a of
        (path, p) \<Rightarrow>
          let decoded = DecodedBody L p raw
          in \<lparr>am_contentType = MediaType p, am_partID = path,
              am_disposition = (if pi_disposition (pinfo p) = [] then ''attachment'' else pi_disposition (pinfo p)),
              am_filename = filename p, am_contentID = pi_contentID (pinfo p), am_cid = trim_both (pi_contentID (pinfo p)) ''<>'',
              am_checksum = hex_encode (mm_md5 L decoded), am_size = int (length decoded), am_encoding = pi_encoding (pinfo p),
              am_offset = int (pi_bodyStart (pinfo p)), am_length = body_size p\<rparr>)"

definition omitempty :: "string \<Rightarrow> string \<Rightarrow> (string \<times> string) list" where
  "omitempty k v = (if v = [] then [] else [(k, json_string v)])"

definition meta_json :: "attachmentMeta \<Rightarrow> string" where
  "meta_json m = json_object
     ([(''type'', json_string ''attachment''), (''contentType'', json_string (am_contentType m)), (''partId'', json_string (am_partID m)),
       (''contentDisposition'', json_string (am_disposition m))]
      @ omitempty ''filename'' (am_filename m) @ omitempty ''contentId'' (am_contentID m) @ omitempty ''cid'' (am_cid m)
      @ [(''headers'', json_object []), (''checksum'', json_string (am_checksum m)), (''size'', itoa (am_size m)),
         (''encoding'', json_string (am_encoding m)), (''offset'', itoa (am_offset m)), (''length'', itoa (am_length m))])"

definition attachment_index :: "message_lib \<Rightarrow> string \<Rightarrow> part \<Rightarrow> attachmentMeta list" where
  "attachment_index L raw tree = map (attachment_meta L raw) (attachments tree)"

definition buildAttachmentsJSON :: "message_lib \<Rightarrow> string \<Rightarrow> part \<Rightarrow> string" where
  "buildAttachmentsJSON L raw tree =
     (if attachments tree = [] then [] else json_array (map meta_json (attachment_index L raw tree)))"

section \<open>Parse and Apply\<close>

record Parsed =
  pm_attachments :: string
  pm_from :: string
  pm_html :: string
  pm_headerLines :: string
  pm_headers :: string
  pm_messageID :: string
  pm_subject :: string
  pm_text :: string
  pm_to :: string

definition Parse :: "message_lib \<Rightarrow> string \<Rightarrow> Parsed" where
  "Parse L raw =
     (let st = headers_of L raw; tree = parse_message (mm_mime L) raw; bodies = pickBodies L raw tree ([], [])
      in \<lparr>pm_attachments = buildAttachmentsJSON L raw tree,
          pm_from = (if hs_from st = [] then no_addresses else hs_from st),
          pm_html = fst bodies,
          pm_headerLines = (if hs_lines st = [] then ''null''
                            else json_array (map (\<lambda>(k, l). json_object [(''key'', json_string k), (''line'', json_string l)]) (hs_lines st))),
          pm_headers = json_map (hs_headers st),
          pm_messageID = hs_messageID st,
          pm_subject = hs_subject st,
          pm_text = snd bodies,
          pm_to = (if hs_to st = [] then no_addresses else hs_to st)\<rparr>)"

text \<open>The columns that \<open>Apply\<close> sets; an empty text is NULL.\<close>

definition Apply :: "Parsed \<Rightarrow> other_columns" where
  "Apply p =
     (\<lambda>k. if k = ''attachments'' then toNullString (pm_attachments p)
          else if k = ''from'' then toNullString (pm_from p)
          else if k = ''html'' then toNullString (pm_html p)
          else if k = ''headerLines'' then toNullString (pm_headerLines p)
          else if k = ''headers'' then toNullString (pm_headers p)
          else if k = ''messageId'' then toNullString (pm_messageID p)
          else if k = ''subject'' then toNullString (pm_subject p)
          else if k = ''text'' then toNullString (pm_text p)
          else if k = ''to'' then toNullString (pm_to p)
          else None)"

text \<open>The environment of a server whose rows get these columns.\<close>

definition with_parser :: "message_lib \<Rightarrow> imap_env \<Rightarrow> imap_env" where
  "with_parser L E = E\<lparr>ev_columns := (\<lambda>raw. Apply (Parse L raw))\<rparr>"

section \<open>What the columns hold\<close>

text \<open>The parts whose text may be shown, in the order of the message: no attachment and nothing of an embedded message.\<close>

fun body_parts :: "part \<Rightarrow> part list" where
  "body_parts (Part i cs m) =
     (if is_message (Part i cs m) then []
      else if pi_type i = ''multipart'' then concat (map body_parts cs)
      else if is_attachment (Part i cs m) then [] else [Part i cs m])"

definition first_text :: "message_lib \<Rightarrow> string \<Rightarrow> string \<Rightarrow> part list \<Rightarrow> string" where
  "first_text L raw media ps =
     (case List.find (\<lambda>s. s \<noteq> []) (map (\<lambda>p. DecodedBody L p raw) (filter (\<lambda>p. MediaType p = media) ps)) of
        None \<Rightarrow> [] | Some s \<Rightarrow> s)"

definition or_first :: "message_lib \<Rightarrow> string \<Rightarrow> string \<Rightarrow> part list \<Rightarrow> string \<Rightarrow> string" where
  "or_first L raw media ps found = (if found = [] then first_text L raw media ps else found)"

lemma or_first_append: "or_first L raw media (ps @ qs) found = or_first L raw media qs (or_first L raw media ps found)"
  by (induction ps) (auto simp: or_first_def first_text_def)

lemma or_first_Nil [simp]: "or_first L raw media [] found = found"
  by (simp add: or_first_def first_text_def)

lemma or_first_single: "or_first L raw media [p] found = (if found = [] \<and> MediaType p = media then DecodedBody L p raw else found)"
  by (simp add: or_first_def first_text_def)

definition shown :: "message_lib \<Rightarrow> string \<Rightarrow> part list \<Rightarrow> string \<times> string \<Rightarrow> string \<times> string" where
  "shown L raw ps found = (or_first L raw ''text/html'' ps (fst found), or_first L raw ''text/plain'' ps (snd found))"

lemma shown_fold:
  assumes "\<And>c found. c \<in> set cs \<Longrightarrow> g c found = shown L raw (f c) found"
  shows "fold (\<lambda>h. h) (map g cs) found = shown L raw (concat (map f cs)) found"
  using assms by (induction cs arbitrary: found) (simp_all add: shown_def or_first_append)

lemma pickBodies_shown: "pickBodies L raw p found = shown L raw (body_parts p) found"
proof (induction p arbitrary: found)
  case (Part i cs m)
  consider (message) "is_message (Part i cs m)" | (multi) "\<not> is_message (Part i cs m)" "pi_type i = ''multipart''"
    | (attached) "\<not> is_message (Part i cs m)" "pi_type i \<noteq> ''multipart''" "is_attachment (Part i cs m)"
    | (leaf) "\<not> is_message (Part i cs m)" "pi_type i \<noteq> ''multipart''" "\<not> is_attachment (Part i cs m)"
    by blast
  then show ?case
  proof cases
    case multi
    have "fold (\<lambda>h. h) (map (pickBodies L raw) cs) found = shown L raw (concat (map body_parts cs)) found"
      by (rule shown_fold) (rule Part.IH(1))
    with multi show ?thesis by simp
  next
    case leaf
    then have "pickBodies L raw (Part i cs m) found = shown L raw [Part i cs m] found"
      by (cases found) (simp add: shown_def or_first_single)
    moreover have "body_parts (Part i cs m) = [Part i cs m]" using leaf by simp
    ultimately show ?thesis by simp
  qed (simp_all add: shown_def)
qed

text \<open>
  The text that is shown for a message is its own: the HTML and the text of a stored row are the first decoded bodies of
  their media types, in the order of the message, among the parts that are neither attachments nor inside an
  embedded message.
\<close>

theorem stored_bodies:
  "pm_html (Parse L raw) = first_text L raw ''text/html'' (body_parts (parse_message (mm_mime L) raw))
   \<and> pm_text (Parse L raw) = first_text L raw ''text/plain'' (body_parts (parse_message (mm_mime L) raw))"
  by (simp add: Parse_def Let_def pickBodies_shown shown_def or_first_def)

text \<open>
  The index of the attachments points into the message: unless an embedded message has another one as its direct body,
  every entry names, by its part id and by offset and length, the same bytes, those that \<open>BODY[partId]\<close> serves.
\<close>

theorem attachment_index_addresses:
  assumes "no_direct (parse_message (mm_mime L) raw)"
  shows "list_all (\<lambda>m. case resolve (parse_message (mm_mime L) raw) (am_partID m) of
      None \<Rightarrow> False
    | Some (q, k) \<Rightarrow> part_range q k = (nat (am_offset m), nat (am_offset m + am_length m)) \<and> am_size m = int (length (DecodedBody L q raw)))
    (attachment_index L raw (parse_message (mm_mime L) raw))"
  using attachments_resolve [OF assms]
  by (auto simp: list_all_iff attachment_index_def attachment_meta_def part_range_def body_size_def Let_def split: prod.split)

definition demo_message_lib :: message_lib where
  "demo_message_lib = \<lparr>mm_lower = (\<lambda>s. s), mm_mime = demo_lib, mm_quoted = (\<lambda>s. (s, False)), mm_md5 = (\<lambda>s. s)\<rparr>"

theorem attachment_index_addresses_witness:
  "map am_partID (attachment_index demo_message_lib demo_message (parse_message demo_lib demo_message)) = [''1'', ''1.1'']
   \<and> list_all (\<lambda>m. case resolve (parse_message demo_lib demo_message) (am_partID m) of
         None \<Rightarrow> False
       | Some (q, k) \<Rightarrow> part_range q k = (nat (am_offset m), nat (am_offset m + am_length m))
           \<and> am_size m = int (length (DecodedBody demo_message_lib q demo_message)))
       (attachment_index demo_message_lib demo_message (parse_message demo_lib demo_message))"
proof -
  have lib: "mm_mime demo_message_lib = demo_lib" by (simp add: demo_message_lib_def)
  have d: "no_direct (parse_message (mm_mime demo_message_lib) demo_message)" unfolding lib by (rule demo_tree)
  have "map am_partID (attachment_index demo_message_lib demo_message (parse_message demo_lib demo_message)) = [''1'', ''1.1'']"
    using demo_tree(2) by (auto simp: attachment_index_def attachment_meta_def Let_def comp_def case_prod_unfold)
  with attachment_index_addresses [OF d] show ?thesis unfolding lib by simp
qed

text \<open>The subject of a row is the first line of the header field, though its continuation is unfolded for the map of headers.\<close>

lemma folded_subject_cut:
  "let st = headers_of demo_message_lib (''Subject: a'' @ [cr, nl] @ '' b'' @ [cr, nl, cr, nl])
   in hs_subject st = ''a'' \<and> header_at ''subject'' (hs_headers st) = ''a b''"
  by code_simp

text \<open>Of several addresses the last in brackets is kept, and what stands before it is its name.\<close>

lemma addresses_merged: "bracketed ''A <a@b>, C <c@d>'' = Some (''c@d'', ''A <a@b>, C'')"
  by code_simp

end
