(* ===== verification/AppTable.thy ===== *)
theory AppTable
  imports Ports GoFloat
begin

text \<open>
  The table of apps that the application manager keeps (\<open>internal/appmgr/\<close>: the working set of \<open>appmgr.go\<close>, the
  settings of \<open>ops.go\<close>, the JavaScript conversions of \<open>helpers.go\<close>; \<open>internal/netmode\<close>). The working set and the
  configuration are lists of references to maps: a reload makes them the same maps, a save puts fresh copies without
  the ephemeral fields into the configuration. The values inside a map are not shared: every operation that
  changes one saves before it gives the lock back. Everything that happens under the lock is one step.
\<close>

section \<open>JavaScript values\<close>

text \<open>\<open>strconv.FormatFloat(x, 'f', -1, 64)\<close>.\<close>

definition plain_decimal :: "string \<Rightarrow> int \<Rightarrow> string" where
  "plain_decimal ds e =
     (if 0 \<le> e then ds @ replicate (nat e) CHR ''0''
      else if nat (- e) < length ds then take (length ds - nat (- e)) ds @ CHR ''.'' # drop (length ds - nat (- e)) ds
      else ''0.'' @ replicate (nat (- e) - length ds) CHR ''0'' @ ds)"

definition format_f :: "float64 \<Rightarrow> string" where
  "format_f f =
     (case f of
        NaN \<Rightarrow> ''NaN''
      | PosInf \<Rightarrow> ''+Inf''
      | NegInf \<Rightarrow> ''-Inf''
      | Fin r \<Rightarrow>
          if r = 0 then ''0''
          else (case strip_zeros (fst (shortest \<bar>r\<bar>)) (snd (shortest \<bar>r\<bar>)) of
                  (m, e) \<Rightarrow> (if r < 0 then ''-'' else []) @ plain_decimal (nat_digits m) e))"

fun jsString :: "any \<Rightarrow> string" where
  "jsString Nil_any = ''null''"
| "jsString (Str_any s) = s"
| "jsString (Bool_any b) = (if b then ''true'' else ''false'')"
| "jsString (Float_any f) = format_f f"
| "jsString (Int_any i) = itoa i"
| "jsString (Int64_any i) = itoa i"
| "jsString (List_any vs) = join_str (map (\<lambda>v. case v of Nil_any \<Rightarrow> [] | _ \<Rightarrow> jsString v) vs) '',''"
| "jsString (Map_any m) = ''[object Object]''"

fun app_truthy :: "any \<Rightarrow> bool" where
  "app_truthy Nil_any = False"
| "app_truthy (Bool_any b) = b"
| "app_truthy (Str_any s) = (s \<noteq> [])"
| "app_truthy (Float_any f) = (f \<noteq> Fin 0)"
| "app_truthy (Int_any i) = (i \<noteq> 0)"
| "app_truthy _ = True"

fun jsNumber :: "any \<Rightarrow> float64 option" where
  "jsNumber (Float_any f) = Some f"
| "jsNumber (Int_any i) = Some (float_of_int i)"
| "jsNumber (Bool_any b) = Some (Fin (if b then 1 else 0))"
| "jsNumber Nil_any = Some (Fin 0)"
| "jsNumber (Str_any s) = (let t = trim_space s in if t = [] then Some (Fin 0) else parse_float t)"
| "jsNumber _ = None"

definition isInt :: "float64 \<Rightarrow> bool" where
  "isInt f \<longleftrightarrow> (case f of Fin r \<Rightarrow> r = of_int (float_to_int64 f) | _ \<Rightarrow> False)"

text \<open>Comparing two values of type \<open>any\<close>; maps and lists are not comparable in Go.\<close>

fun any_eq :: "any \<Rightarrow> any \<Rightarrow> bool" where
  "any_eq Nil_any Nil_any = True"
| "any_eq (Bool_any a) (Bool_any b) = (a = b)"
| "any_eq (Str_any a) (Str_any b) = (a = b)"
| "any_eq (Float_any a) (Float_any b) = (a = b \<and> a \<noteq> NaN)"
| "any_eq (Int_any a) (Int_any b) = (a = b)"
| "any_eq (Int64_any a) (Int64_any b) = (a = b)"
| "any_eq _ _ = False"

fun as_str :: "any \<Rightarrow> string" where
  "as_str (Str_any s) = s"
| "as_str _ = []"

fun as_float :: "any \<Rightarrow> float64" where
  "as_float (Float_any f) = f"
| "as_float _ = Fin 0"

fun as_list :: "any \<Rightarrow> any list option" where
  "as_list (List_any vs) = Some vs"
| "as_list _ = None"

section \<open>Network modes\<close>

definition Bridge :: string where "Bridge = ''bridge''"
definition Host :: string where "Host = ''host''"

definition mode_of :: "string \<Rightarrow> string option" where
  "mode_of s =
     (let t = to_lower (trim_space s)
      in if t = [] \<or> t = Bridge \<or> t = ''default'' then Some Bridge else if t = Host then Some Host else None)"

fun netmode_Parse :: "any \<Rightarrow> string option" where
  "netmode_Parse Nil_any = Some Bridge"
| "netmode_Parse (Str_any s) = mode_of s"
| "netmode_Parse _ = None"

definition IsHost :: "any \<Rightarrow> bool" where
  "IsHost v \<longleftrightarrow> netmode_Parse v = Some Host"

definition toNetworkMode :: "any \<Rightarrow> string" where
  "toNetworkMode v = (case netmode_Parse v of None \<Rightarrow> Bridge | Some m \<Rightarrow> m)"

section \<open>The table\<close>

record app_table =
  at_heap :: "nat \<Rightarrow> amap"
  at_next :: nat
  at_work :: "nat list"
  at_conf :: "nat list"

definition ephemeralFields :: "string list" where
  "ephemeralFields = [''_appIdentity'', ''_deleted'', ''status'', ''pid'', ''uptime'', ''build'', ''health'', ''ip'', ''started'']"

definition strip :: "amap \<Rightarrow> amap" where
  "strip m = (\<lambda>k. if k \<in> set ephemeralFields then None else m k)"

definition matches_id :: "any \<Rightarrow> amap \<Rightarrow> bool" where
  "matches_id key app \<longleftrightarrow> any_eq (aget app ''id'') key \<or> any_eq (aget app ''name'') key \<or> any_eq (aget app ''file'') key"

definition getLocked :: "any \<Rightarrow> app_table \<Rightarrow> nat option" where
  "getLocked key t = List.find (\<lambda>a. matches_id key (at_heap t a)) (at_work t)"

definition saveAppsLocked :: "app_table \<Rightarrow> app_table" where
  "saveAppsLocked t =
     (let n = at_next t; k = length (at_work t)
      in t\<lparr>at_heap := (\<lambda>a. if n \<le> a \<and> a < n + k then strip (at_heap t (at_work t ! (a - n))) else at_heap t a),
           at_next := n + k, at_conf := [n..<n + k]\<rparr>)"

text \<open>The reload normalizes the ports of the maps in place.\<close>

definition normalize_ports :: "amap \<Rightarrow> amap" where
  "normalize_ports app = (case as_list (aget app ''ports'') of None \<Rightarrow> app | Some ps \<Rightarrow> app(''ports'' \<mapsto> List_any (normalize ps)))"

definition loadAppsFromConfig :: "app_table \<Rightarrow> app_table" where
  "loadAppsFromConfig t =
     t\<lparr>at_heap := (\<lambda>a. if a \<in> set (at_conf t) then normalize_ports (at_heap t a) else at_heap t a), at_work := at_conf t\<rparr>"

definition change_app :: "nat \<Rightarrow> (amap \<Rightarrow> amap) \<Rightarrow> app_table \<Rightarrow> app_table" where
  "change_app a f t = t\<lparr>at_heap := (at_heap t)(a := f (at_heap t a))\<rparr>"

definition put_fields :: "(string \<times> any) list \<Rightarrow> amap \<Rightarrow> amap" where
  "put_fields updates app = fold (\<lambda>(k, v) m. m(k \<mapsto> v)) updates app"

definition setLocked :: "any \<Rightarrow> (string \<times> any) list \<Rightarrow> app_table \<Rightarrow> app_table \<times> bool" where
  "setLocked key updates t =
     (case getLocked key t of
        None \<Rightarrow> (t, False)
      | Some a \<Rightarrow> (saveAppsLocked (change_app a (put_fields updates) t), True))"

definition appDeleted :: "any \<Rightarrow> app_table \<Rightarrow> bool" where
  "appDeleted key t = (case getLocked key t of None \<Rightarrow> True | Some a \<Rightarrow> any_eq (aget (at_heap t a) ''_deleted'') (Bool_any True))"

section \<open>New apps\<close>

fun float_above :: "float64 \<Rightarrow> float64 \<Rightarrow> bool" where
  "float_above (Fin a) (Fin b) = (a > b)"
| "float_above PosInf (Fin b) = True"
| "float_above PosInf NegInf = True"
| "float_above (Fin a) NegInf = True"
| "float_above _ _ = False"

definition higher_id :: "amap \<Rightarrow> float64 \<Rightarrow> float64" where
  "higher_id app m = (case aget app ''id'' of Float_any f \<Rightarrow> if float_above f m then f else m | _ \<Rightarrow> m)"

definition getNextIDLocked :: "app_table \<Rightarrow> float64" where
  "getNextIDLocked t =
     (case fold (\<lambda>a. higher_id (at_heap t a)) (at_work t) (Fin (- 1)) of Fin r \<Rightarrow> round64 (r + 1) | f \<Rightarrow> f)"

text \<open>The candidates after the first; the count of the coming ones is the fuel.\<close>

fun unique_from :: "nat \<Rightarrow> nat \<Rightarrow> string \<Rightarrow> app_table \<Rightarrow> string option" where
  "unique_from 0 counter base t = None"
| "unique_from (Suc n) counter base t =
     (let name = base @ ''-'' @ itoa (int counter)
      in if getLocked (Str_any name) t = None then Some name else unique_from n (Suc counter) base t)"

definition generateUniqueNameLocked :: "string \<Rightarrow> app_table \<Rightarrow> string option" where
  "generateUniqueNameLocked base t =
     (if getLocked (Str_any base) t = None then Some base else unique_from (3 * length (at_work t)) 1 base t)"

definition scriptExts :: "string list" where
  "scriptExts = [''.js'', ''.py'', ''.php'', ''.sh'', ''.rb'']"

text \<open>\<open>filepath.Base\<close> and \<open>filepath.Ext\<close>.\<close>

definition path_base :: "string \<Rightarrow> string" where
  "path_base p =
     (if p = [] then ''.''
      else
        let q = trim_right p ''/''
        in if q = [] then ''/'' else (case last_index_byte CHR ''/'' q of None \<Rightarrow> q | Some i \<Rightarrow> drop (i + 1) q))"

definition path_ext :: "string \<Rightarrow> string" where
  "path_ext name = (case last_index_byte CHR ''.'' name of None \<Rightarrow> [] | Some i \<Rightarrow> drop i name)"

definition script_name :: "string \<Rightarrow> string" where
  "script_name name = (if path_ext name \<in> set scriptExts then take (length name - length (path_ext name)) name else name)"

text \<open>A record with the next id and a name of its own joins the working set and is saved.\<close>

definition new_app :: "string \<Rightarrow> (string \<times> any) list \<Rightarrow> app_table \<Rightarrow> app_table" where
  "new_app name rest t =
     (let a = at_next t; app = put_fields rest [''id'' \<mapsto> Float_any (getNextIDLocked t), ''name'' \<mapsto> Str_any name]
      in saveAppsLocked (t\<lparr>at_heap := (at_heap t)(a := app), at_next := a + 1, at_work := at_work t @ [a]\<rparr>))"

definition addLocked :: "string \<Rightarrow> string \<Rightarrow> int \<Rightarrow> app_table \<Rightarrow> app_table option" where
  "addLocked file typ now t =
     (let base = path_base file
      in map_option
           (\<lambda>name. new_app name
              [(''file'', Str_any file), (''type'', Str_any typ), (''active'', Bool_any True), (''created'', Float_any (float_of_int now))] t)
           (generateUniqueNameLocked (if typ = ''script'' then script_name base else base) t))"

section \<open>Deleting\<close>

text \<open>What \<open>Delete\<close> does to the table: the flag, and after the clean-up the removal with the links to the app.\<close>

definition flag_deleted :: "any \<Rightarrow> app_table \<Rightarrow> app_table" where
  "flag_deleted key t = (case getLocked key t of None \<Rightarrow> t | Some a \<Rightarrow> change_app a (\<lambda>m. m(''_deleted'' \<mapsto> Bool_any True)) t)"

definition sweep_links :: "string \<Rightarrow> amap \<Rightarrow> amap" where
  "sweep_links name app =
     (case as_map (aget app ''env'') of
        None \<Rightarrow> app
      | Some env \<Rightarrow>
          (case as_list (aget env ''linked'') of
             None \<Rightarrow> app
           | Some linked \<Rightarrow> app(''env'' \<mapsto> Map_any (env(''linked'' \<mapsto> List_any (filter (\<lambda>l. \<not> any_eq l (Str_any name)) linked))))))"

definition sweepLinkedRefsLocked :: "string \<Rightarrow> app_table \<Rightarrow> app_table" where
  "sweepLinkedRefsLocked name t =
     t\<lparr>at_heap := (\<lambda>a. if a \<in> set (at_work t) then sweep_links name (at_heap t a) else at_heap t a)\<rparr>"

definition remove_app :: "string \<Rightarrow> float64 \<Rightarrow> app_table \<Rightarrow> app_table" where
  "remove_app name idNum t =
     saveAppsLocked (sweepLinkedRefsLocked name
       (t\<lparr>at_work := filter (\<lambda>a. \<not> (any_eq (aget (at_heap t a) ''name'') (Str_any name)
           \<or> any_eq (aget (at_heap t a) ''id'') (Float_any idNum))) (at_work t)\<rparr>))"

definition stop_fields :: "(string \<times> any) list" where
  "stop_fields = [(''status'', Str_any ''stopped''), (''pid'', Nil_any), (''active'', Bool_any False)]"

text \<open>The table's part of \<open>Stop\<close>; the flag says whether a process that the app had could be signalled.\<close>

definition stop_app :: "bool \<Rightarrow> any \<Rightarrow> app_table \<Rightarrow> app_table \<times> bool" where
  "stop_app signalled key t =
     (case getLocked key t of
        None \<Rightarrow> (t, False)
      | Some a \<Rightarrow>
          let app = at_heap t a; pid = (case aget app ''pid'' of Float_any f \<Rightarrow> float_to_int64 f | _ \<Rightarrow> 0)
          in if as_str (aget app ''status'') = ''stopped'' then (t, True)
             else if 0 < pid \<and> \<not> signalled then (t, False)
             else (fst (setLocked (aget app ''id'') stop_fields t), True))"

definition delete_app :: "bool \<Rightarrow> any \<Rightarrow> app_table \<Rightarrow> app_table \<times> bool" where
  "delete_app signalled key t =
     (case getLocked key t of
        None \<Rightarrow> (t, False)
      | Some a \<Rightarrow>
          let name = as_str (aget (at_heap t a) ''name''); idNum = as_float (aget (at_heap t a) ''id'')
          in (remove_app name idNum (fst (stop_app signalled (Float_any idNum) (flag_deleted key t))), True))"

section \<open>The invariant of the table\<close>

text \<open>
  The working set refers to allocated, different maps; every app has a name and an id that is a natural number below a
  bound, no two apps share one, and up to the ephemeral fields the configuration holds what the working set holds.
\<close>

definition app_name :: "amap \<Rightarrow> string" where
  "app_name app = as_str (aget app ''name'')"

definition app_id :: "amap \<Rightarrow> float64" where
  "app_id app = as_float (aget app ''id'')"

definition app_typed :: "nat \<Rightarrow> amap \<Rightarrow> bool" where
  "app_typed bound app \<longleftrightarrow>
     (case aget app ''name'' of
        Str_any n \<Rightarrow> (case aget app ''id'' of Float_any (Fin r) \<Rightarrow> 0 \<le> r \<and> r < of_nat bound \<and> r = of_int \<lfloor>r\<rfloor> | _ \<Rightarrow> False)
      | _ \<Rightarrow> False)"

definition work_ok :: "nat \<Rightarrow> app_table \<Rightarrow> bool" where
  "work_ok bound t \<longleftrightarrow>
     distinct (at_work t) \<and> list_all (\<lambda>a. a < at_next t \<and> app_typed bound (at_heap t a)) (at_work t)
     \<and> distinct (map (\<lambda>a. app_name (at_heap t a)) (at_work t)) \<and> distinct (map (\<lambda>a. app_id (at_heap t a)) (at_work t))"

definition saved :: "app_table \<Rightarrow> bool" where
  "saved t \<longleftrightarrow> distinct (at_conf t) \<and> list_all (\<lambda>a. a < at_next t) (at_conf t)
     \<and> map (\<lambda>a. strip (at_heap t a)) (at_conf t) = map (\<lambda>a. strip (at_heap t a)) (at_work t)"

definition table_ok :: "nat \<Rightarrow> app_table \<Rightarrow> bool" where
  "table_ok bound t \<longleftrightarrow> work_ok bound t \<and> saved t"

text \<open>A change that leaves the name and the id alone.\<close>

definition keeps_key :: "(amap \<Rightarrow> amap) \<Rightarrow> bool" where
  "keeps_key f \<longleftrightarrow> (\<forall>m. aget (f m) ''name'' = aget m ''name'' \<and> aget (f m) ''id'' = aget m ''id'')"

named_theorems keeping

lemma aget_strip: "k \<notin> set ephemeralFields \<Longrightarrow> aget (strip m) k = aget m k"
  by (simp add: strip_def aget_def)

lemma keeps_strip: "keeps_key strip"
  by (simp add: keeps_key_def aget_strip ephemeralFields_def)

lemma keeps_keyD:
  assumes "keeps_key f"
  shows "app_name (f m) = app_name m" "app_id (f m) = app_id m" "app_typed b (f m) = app_typed b m"
proof -
  have n: "aget (f m) ''name'' = aget m ''name''" and i: "aget (f m) ''id'' = aget m ''id''"
    using assms by (simp_all add: keeps_key_def)
  show "app_name (f m) = app_name m" "app_id (f m) = app_id m" by (simp_all add: app_name_def app_id_def n i)
  show "app_typed b (f m) = app_typed b m" unfolding app_typed_def n i by (rule refl)
qed

lemma keeps_put [keeping]: "k \<noteq> ''name'' \<Longrightarrow> k \<noteq> ''id'' \<Longrightarrow> keeps_key (\<lambda>m. m(k \<mapsto> v m))"
  by (simp add: keeps_key_def)

lemma keeps_drop [keeping]: "k \<noteq> ''name'' \<Longrightarrow> k \<noteq> ''id'' \<Longrightarrow> keeps_key (\<lambda>m. m(k := None))"
  by (simp add: keeps_key_def aget_def)

lemma keeps_comp: "keeps_key f \<Longrightarrow> keeps_key g \<Longrightarrow> keeps_key (\<lambda>m. f (g m))"
  by (simp add: keeps_key_def)

lemma keeps_normalize: "keeps_key normalize_ports"
  by (simp add: keeps_key_def normalize_ports_def split: option.split)

lemma keeps_sweep: "keeps_key (sweep_links name)"
  by (simp add: keeps_key_def sweep_links_def split: option.split)

lemma keeps_put_fields:
  assumes "list_all (\<lambda>u. fst u \<noteq> ''name'' \<and> fst u \<noteq> ''id'') us"
  shows "keeps_key (put_fields us)"
proof -
  have "aget (fold (\<lambda>(k, v) m. m(k \<mapsto> v)) us m) ''name'' = aget m ''name''
      \<and> aget (fold (\<lambda>(k, v) m. m(k \<mapsto> v)) us m) ''id'' = aget m ''id''" for m
    using assms by (induction us arbitrary: m) auto
  then show ?thesis by (simp add: keeps_key_def put_fields_def)
qed

text \<open>The well-formed working set under a change of its maps, of its list, and with a larger bound.\<close>

lemma work_ok_heap:
  assumes "work_ok b t" and "at_work t' = at_work t" and "at_next t \<le> at_next t'"
    and "\<And>a. a \<in> set (at_work t) \<Longrightarrow> \<exists>f. keeps_key f \<and> at_heap t' a = f (at_heap t a)"
  shows "work_ok b t'"
proof -
  have *: "app_name (at_heap t' a) = app_name (at_heap t a)" "app_id (at_heap t' a) = app_id (at_heap t a)"
    "app_typed b (at_heap t' a) = app_typed b (at_heap t a)" if "a \<in> set (at_work t)" for a
    using assms(4) [OF that] by (auto simp: keeps_keyD)
  have e: "map (\<lambda>a. app_name (at_heap t' a)) (at_work t) = map (\<lambda>a. app_name (at_heap t a)) (at_work t)"
    "map (\<lambda>a. app_id (at_heap t' a)) (at_work t) = map (\<lambda>a. app_id (at_heap t a)) (at_work t)"
    using * by simp_all
  have "list_all (\<lambda>a. a < at_next t' \<and> app_typed b (at_heap t' a)) (at_work t)"
    using assms(1,3) * by (auto simp: work_ok_def list_all_iff intro: less_le_trans)
  then show ?thesis using assms(1) unfolding work_ok_def assms(2) e by simp
qed

lemma work_ok_change: "work_ok b t \<Longrightarrow> keeps_key f \<Longrightarrow> work_ok b (change_app a f t)"
  by (rule work_ok_heap [of _ t]) (auto simp: change_app_def keeps_key_def intro: exI [of _ id])

lemma work_ok_sweep: "work_ok b t \<Longrightarrow> work_ok b (sweepLinkedRefsLocked name t)"
  by (rule work_ok_heap [of _ t]) (auto simp: sweepLinkedRefsLocked_def intro: keeps_sweep)

lemma work_ok_filter: "work_ok b t \<Longrightarrow> work_ok b (t\<lparr>at_work := filter P (at_work t)\<rparr>)"
  by (auto simp: work_ok_def list_all_iff distinct_map inj_on_def)

lemma app_typed_mono: "app_typed b m \<Longrightarrow> b \<le> b' \<Longrightarrow> app_typed b' m"
  by (auto simp: app_typed_def split: any.splits float64.splits)

lemma work_ok_mono: "work_ok b t \<Longrightarrow> b \<le> b' \<Longrightarrow> work_ok b' t"
  by (auto simp: work_ok_def list_all_iff intro: app_typed_mono)

lemma strip_strip [simp]: "strip (strip m) = strip m"
  by (auto simp: strip_def)

lemma saveAppsLocked_ok:
  assumes "work_ok b t"
  shows "table_ok b (saveAppsLocked t)"
proof -
  let ?t = "saveAppsLocked t"
  have w: "at_work ?t = at_work t" and n: "at_next ?t = at_next t + length (at_work t)"
    and c: "at_conf ?t = [at_next t..<at_next t + length (at_work t)]"
    by (simp_all add: saveAppsLocked_def Let_def)
  have old: "at_heap ?t a = at_heap t a" if "a \<in> set (at_work t)" for a
    using assms that by (auto simp: saveAppsLocked_def Let_def work_ok_def list_all_iff)
  have "work_ok b ?t"
    by (rule work_ok_heap [OF assms w]) (auto simp: n old keeps_key_def intro: exI [of _ id])
  moreover have "map (\<lambda>a. strip (at_heap ?t a)) (at_conf ?t) = map (\<lambda>a. strip (at_heap ?t a)) (at_work ?t)"
  proof (rule nth_equalityI)
    fix i assume "i < length (map (\<lambda>a. strip (at_heap ?t a)) (at_conf ?t))"
    then have i: "i < length (at_work t)" by (simp add: c)
    have "at_heap ?t (at_next t + i) = strip (at_heap t (at_work t ! i))"
      using i by (simp add: saveAppsLocked_def Let_def)
    then show "map (\<lambda>a. strip (at_heap ?t a)) (at_conf ?t) ! i = map (\<lambda>a. strip (at_heap ?t a)) (at_work ?t) ! i"
      using i by (simp add: c w old)
  qed (simp add: c w)
  ultimately show ?thesis by (auto simp: table_ok_def saved_def c n list_all_iff)
qed

section \<open>New apps have new ids and names\<close>

lemma getLocked_Some: "getLocked key t = Some a \<Longrightarrow> a \<in> set (at_work t) \<and> matches_id key (at_heap t a)"
  by (auto simp: getLocked_def find_Some_iff)

lemma getLocked_None: "getLocked key t = None \<longleftrightarrow> (\<forall>a \<in> set (at_work t). \<not> matches_id key (at_heap t a))"
  by (auto simp: getLocked_def find_None_iff)

lemma app_typedE:
  assumes "app_typed b app"
  obtains n k where "aget app ''name'' = Str_any n" and "aget app ''id'' = Float_any (Fin (of_nat k))" and "k < b"
proof -
  from assms obtain n r where n: "aget app ''name'' = Str_any n" and i: "aget app ''id'' = Float_any (Fin r)"
    and r: "0 \<le> r" "r < of_nat b" "r = of_int \<lfloor>r\<rfloor>"
    by (auto simp: app_typed_def split: any.splits float64.splits)
  have "0 \<le> \<lfloor>r\<rfloor>" using r(1) by simp
  then have k: "r = of_nat (nat \<lfloor>r\<rfloor>)" using r(3) by simp
  moreover have "nat \<lfloor>r\<rfloor> < b" using r(2) k by (metis of_nat_less_iff)
  ultimately show ?thesis using that [OF n, of "nat \<lfloor>r\<rfloor>"] i by simp
qed

lemma typed_id: "app_typed b app \<Longrightarrow> \<exists>k. app_id app = Fin (of_nat k) \<and> k < b"
  by (erule app_typedE) (auto simp: app_id_def)

lemma higher_id_typed:
  "app_typed b app \<Longrightarrow> app_id app = Fin q \<Longrightarrow> higher_id app (Fin m) = Fin (max q m)"
  by (erule app_typedE) (auto simp: higher_id_def app_id_def)

lemma fold_higher:
  assumes "list_all (app_typed b) apps"
  shows "\<exists>r. fold higher_id apps (Fin m) = Fin r \<and> m \<le> r \<and> list_all (\<lambda>app. \<exists>q. app_id app = Fin q \<and> q \<le> r) apps
    \<and> (r = m \<or> (\<exists>k < b. r = of_nat k))"
  using assms
proof (induction apps arbitrary: m)
  case (Cons app apps)
  from Cons.prems obtain k where k: "app_id app = Fin (of_nat k)" "k < b" using typed_id by auto
  have h: "higher_id app (Fin m) = Fin (max (of_nat k) m)" using Cons.prems k(1) by (auto intro: higher_id_typed)
  from Cons.IH [of "max (of_nat k) m"] Cons.prems obtain r where
    r: "fold higher_id apps (Fin (max (of_nat k) m)) = Fin r" "max (of_nat k) m \<le> r"
      "list_all (\<lambda>app. \<exists>q. app_id app = Fin q \<and> q \<le> r) apps" "r = max (of_nat k) m \<or> (\<exists>k < b. r = of_nat k)" by auto
  have "r = m \<or> (\<exists>k < b. r = of_nat k)" using r(4) k(2) by (auto simp: max_def split: if_splits)
  then show ?case using r k(1) by (auto simp: h)
qed simp

lemma getNextID_typed:
  assumes "list_all (\<lambda>a. app_typed b (at_heap t a)) (at_work t)" and "b \<le> 2 ^ 53"
  shows "\<exists>k \<le> b. getNextIDLocked t = Fin (of_nat k) \<and> list_all (\<lambda>a. app_id (at_heap t a) \<noteq> Fin (of_nat k)) (at_work t)"
proof -
  let ?apps = "map (at_heap t) (at_work t)"
  have f: "fold (\<lambda>a. higher_id (at_heap t a)) (at_work t) = fold higher_id ?apps"
    by (simp add: fold_map comp_def)
  have "list_all (app_typed b) ?apps" using assms(1) by (simp add: list_all_iff)
  from fold_higher [OF this, of "- 1"] obtain r where
    r: "fold higher_id ?apps (Fin (- 1)) = Fin r" "list_all (\<lambda>app. \<exists>q. app_id app = Fin q \<and> q \<le> r) ?apps"
      "r = - 1 \<or> (\<exists>k < b. r = of_nat k)" by blast
  then obtain k where k: "r + 1 = of_nat k" "k \<le> b"
  proof (cases "r = - 1")
    case True
    then show ?thesis using that [of 0] by simp
  next
    case False
    with r(3) obtain j where "j < b" "r = of_nat j" by blast
    then show ?thesis using that [of "Suc j"] by simp
  qed
  have "representable (of_nat k)"
    using representable_of_int [of "int k"] k(2) assms(2) by simp
  then have "getNextIDLocked t = Fin (of_nat k)"
    by (simp add: getNextIDLocked_def f r(1) k(1) representable_def)
  moreover have "list_all (\<lambda>a. app_id (at_heap t a) \<noteq> Fin (of_nat k)) (at_work t)"
    using r(2) k(1) by (fastforce simp: list_all_iff)
  ultimately show ?thesis using k(2) by blast
qed

lemma getNextID_new:
  "work_ok b t \<Longrightarrow> b \<le> 2 ^ 53 \<Longrightarrow>
    \<exists>k \<le> b. getNextIDLocked t = Fin (of_nat k) \<and> list_all (\<lambda>a. app_id (at_heap t a) \<noteq> Fin (of_nat k)) (at_work t)"
  by (rule getNextID_typed) (simp_all add: work_ok_def list_all_iff)

text \<open>An app answers to three strings at most, so the search for a name ends.\<close>

definition names_of :: "amap \<Rightarrow> string set" where
  "names_of app = {s. matches_id (Str_any s) app}"

lemma any_eq_Str: "{s. any_eq v (Str_any s)} \<subseteq> {as_str v}"
  by (cases v) auto

lemma names_of_card: "finite (names_of app) \<and> card (names_of app) \<le> 3"
proof -
  have s: "names_of app \<subseteq> {as_str (aget app ''id''), as_str (aget app ''name''), as_str (aget app ''file'')}"
    using any_eq_Str [of "aget app ''id''"] any_eq_Str [of "aget app ''name''"] any_eq_Str [of "aget app ''file''"]
    by (auto simp: names_of_def matches_id_def)
  have "card {a, b, c} \<le> 3" for a b c :: string
    by (rule order_trans [OF card_insert_le_m1 [of 3]]) (auto intro: card_insert_le_m1)
  then show ?thesis using s by (meson card_mono finite.intros finite_subset order_trans)
qed

lemma unique_from_None:
  "unique_from n c base t = None \<Longrightarrow> i < n \<Longrightarrow> getLocked (Str_any (base @ ''-'' @ itoa (int (c + i)))) t \<noteq> None"
proof (induction n arbitrary: c i)
  case (Suc n)
  show ?case
  proof (cases i)
    case 0
    then show ?thesis using Suc.prems by (auto simp: Let_def split: if_splits)
  next
    case (Suc j)
    then show ?thesis using Suc.prems Suc.IH [of "Suc c" j] by (auto simp: Let_def split: if_splits)
  qed
qed simp

lemma unique_from_free:
  "unique_from n c base t = Some name \<Longrightarrow> getLocked (Str_any name) t = None"
  by (induction n arbitrary: c) (auto simp: Let_def split: if_splits)

lemma unique_name_found:
  "\<exists>name. generateUniqueNameLocked base t = Some name \<and> getLocked (Str_any name) t = None"
proof (cases "getLocked (Str_any base) t")
  case None
  then show ?thesis by (simp add: generateUniqueNameLocked_def)
next
  case (Some a)
  let ?n = "3 * length (at_work t)"
  let ?c = "\<lambda>i. base @ ''-'' @ itoa (int (1 + i))"
  let ?S = "\<Union>a \<in> set (at_work t). names_of (at_heap t a)"
  have "unique_from ?n 1 base t \<noteq> None"
  proof
    assume "unique_from ?n 1 base t = None"
    then have "insert base (?c ` {..<?n}) \<subseteq> ?S"
      using unique_from_None [of ?n 1 base t] Some
      by (auto simp: names_of_def getLocked_None dest: getLocked_Some)
    moreover have fin: "finite ?S" using names_of_card by blast
    ultimately have "card (insert base (?c ` {..<?n})) \<le> card ?S" by (simp add: card_mono)
    also have "\<dots> \<le> (\<Sum>a \<in> set (at_work t). card (names_of (at_heap t a)))" by (rule card_UN_le) simp
    also have "\<dots> \<le> (\<Sum>a \<in> set (at_work t). 3)" using names_of_card by (intro sum_mono) blast
    also have "\<dots> \<le> ?n" by (simp add: card_length)
    finally have "card (insert base (?c ` {..<?n})) \<le> ?n" .
    moreover have "card (insert base (?c ` {..<?n})) = Suc (card (?c ` {..<?n}))" by (rule card_insert_disjoint) auto
    moreover have "card (?c ` {..<?n}) = card {..<?n}" by (rule card_image) (auto simp: inj_on_def dest: itoa_inj)
    ultimately show False by (simp only: card_lessThan)
  qed
  with Some show ?thesis by (auto simp: generateUniqueNameLocked_def dest: unique_from_free)
qed

section \<open>The operations keep the invariant\<close>

lemma put_fields_key:
  assumes "list_all (\<lambda>u. fst u \<noteq> ''name'' \<and> fst u \<noteq> ''id'') us"
  shows "aget (put_fields us m) ''name'' = aget m ''name''" "aget (put_fields us m) ''id'' = aget m ''id''"
  using keeps_put_fields [OF assms] by (simp_all add: keeps_key_def)

lemma matches_name: "aget app ''name'' = Str_any s \<Longrightarrow> matches_id (Str_any s) app"
  by (simp add: matches_id_def)

lemma new_app_ok:
  assumes w: "work_ok b t" and b: "b \<le> 2 ^ 53" and new: "getLocked (Str_any name) t = None"
    and r: "list_all (\<lambda>u. fst u \<noteq> ''name'' \<and> fst u \<noteq> ''id'') rest"
  shows "table_ok (Suc b) (new_app name rest t)"
proof -
  let ?a = "at_next t"
  let ?app = "put_fields rest [''id'' \<mapsto> Float_any (getNextIDLocked t), ''name'' \<mapsto> Str_any name]"
  let ?t = "t\<lparr>at_heap := (at_heap t)(?a := ?app), at_next := ?a + 1, at_work := at_work t @ [?a]\<rparr>"
  from getNextID_new [OF w b] obtain k where
    k: "k \<le> b" "getNextIDLocked t = Fin (of_nat k)" "list_all (\<lambda>a. app_id (at_heap t a) \<noteq> Fin (of_nat k)) (at_work t)" by blast
  have n: "aget ?app ''name'' = Str_any name" and i: "aget ?app ''id'' = Float_any (Fin (of_nat k))"
    using put_fields_key [OF r] k(2) by simp_all
  have typed: "app_typed (Suc b) ?app" unfolding app_typed_def n i using k(1) by simp
  have fresh: "?a \<notin> set (at_work t)" using w by (auto simp: work_ok_def list_all_iff)
  have names: "app_name (at_heap t a) \<noteq> name" if "a \<in> set (at_work t)" for a
  proof -
    have "app_typed b (at_heap t a)" using w that by (simp add: work_ok_def list_all_iff)
    then obtain m where "aget (at_heap t a) ''name'' = Str_any m" by (rule app_typedE)
    moreover from this have "matches_id (Str_any m) (at_heap t a)" by (rule matches_name)
    ultimately show ?thesis using new that by (auto simp: getLocked_None app_name_def)
  qed
  have heap: "map (\<lambda>a. f (at_heap ?t a)) (at_work t) = map (\<lambda>a. f (at_heap t a)) (at_work t)" for f :: "amap \<Rightarrow> 'c"
    using fresh by auto
  have "distinct (map (\<lambda>a. app_name (at_heap ?t a)) (at_work t @ [?a]))"
    using w names by (simp only: map_append heap) (auto simp: work_ok_def app_name_def n)
  moreover have "distinct (map (\<lambda>a. app_id (at_heap ?t a)) (at_work t @ [?a]))"
    using w k(3) by (simp only: map_append heap) (auto simp: work_ok_def app_id_def i list_all_iff)
  moreover have "list_all (\<lambda>a. a < at_next ?t \<and> app_typed (Suc b) (at_heap ?t a)) (at_work t @ [?a])"
    using w fresh typed by (auto simp: work_ok_def list_all_iff intro: app_typed_mono)
  ultimately have "work_ok (Suc b) ?t" using w fresh by (simp add: work_ok_def)
  then show ?thesis unfolding new_app_def Let_def by (rule saveAppsLocked_ok)
qed

lemma loadAppsFromConfig_ok:
  assumes "table_ok b t"
  shows "table_ok b (loadAppsFromConfig t)"
proof -
  let ?t = "loadAppsFromConfig t"
  have m: "map (\<lambda>a. strip (at_heap t a)) (at_conf t) = map (\<lambda>a. strip (at_heap t a)) (at_work t)"
    using assms by (simp add: table_ok_def saved_def)
  have key: "app_name (at_heap ?t a) = app_name (strip (at_heap t a))" "app_id (at_heap ?t a) = app_id (strip (at_heap t a))"
    "app_typed b (at_heap ?t a) = app_typed b (strip (at_heap t a))" if "a \<in> set (at_conf t)" for a
    using that by (simp_all add: loadAppsFromConfig_def keeps_keyD [OF keeps_normalize] keeps_keyD [OF keeps_strip])
  have from_work: "map (\<lambda>a. g (strip (at_heap t a))) (at_conf t) = map (\<lambda>a. g (strip (at_heap t a))) (at_work t)" for g :: "amap \<Rightarrow> 'c"
    using arg_cong [OF m, of "map g"] by (simp add: comp_def)
  have "map (\<lambda>a. app_name (at_heap ?t a)) (at_conf t) = map (\<lambda>a. app_name (at_heap t a)) (at_work t)"
    using from_work [of app_name] by (simp add: key keeps_keyD [OF keeps_strip] cong: map_cong)
  then have n: "distinct (map (\<lambda>a. app_name (at_heap ?t a)) (at_conf t))"
    using assms by (simp only: table_ok_def work_ok_def)
  have "map (\<lambda>a. app_id (at_heap ?t a)) (at_conf t) = map (\<lambda>a. app_id (at_heap t a)) (at_work t)"
    using from_work [of app_id] by (simp add: key keeps_keyD [OF keeps_strip] cong: map_cong)
  then have i: "distinct (map (\<lambda>a. app_id (at_heap ?t a)) (at_conf t))"
    using assms by (simp only: table_ok_def work_ok_def)
  have "map (\<lambda>a. app_typed b (at_heap ?t a)) (at_conf t) = map (\<lambda>a. app_typed b (at_heap t a)) (at_work t)"
    using from_work [of "app_typed b"] by (simp add: key keeps_keyD [OF keeps_strip] cong: map_cong)
  from arg_cong [OF this, of "list_all (\<lambda>x. x)"] have ty: "list_all (\<lambda>a. app_typed b (at_heap ?t a)) (at_conf t)"
    using assms by (simp add: list.pred_map comp_def table_ok_def work_ok_def list_all_iff)
  have same: "at_work ?t = at_conf t" "at_conf ?t = at_conf t" "at_next ?t = at_next t"
    by (simp_all add: loadAppsFromConfig_def)
  show ?thesis
    unfolding table_ok_def work_ok_def saved_def same
    using assms n i ty by (auto simp: table_ok_def saved_def list_all_iff)
qed

lemma change_saved_ok:
  assumes "table_ok b t" and "keeps_key f"
  shows "table_ok b (saveAppsLocked (change_app a f t))"
  using assms by (simp add: table_ok_def [of b t] saveAppsLocked_ok work_ok_change)

lemma setLocked_ok:
  assumes "work_ok b t" and "list_all (\<lambda>u. fst u \<noteq> ''name'' \<and> fst u \<noteq> ''id'') us"
  shows "work_ok b (fst (setLocked key us t))" "saved t \<Longrightarrow> saved (fst (setLocked key us t))"
proof -
  have "table_ok b (saveAppsLocked (change_app a (put_fields us) t))" for a
    by (rule saveAppsLocked_ok [OF work_ok_change [OF assms(1) keeps_put_fields [OF assms(2)]]])
  then show "work_ok b (fst (setLocked key us t))" "saved t \<Longrightarrow> saved (fst (setLocked key us t))"
    using assms(1) by (simp_all add: setLocked_def table_ok_def split: option.split)
qed

lemma addLocked_ok:
  assumes "table_ok b t" and "b \<le> 2 ^ 53"
  shows "\<exists>t'. addLocked file typ now t = Some t' \<and> table_ok (Suc b) t'"
proof -
  obtain name where n: "generateUniqueNameLocked (if typ = ''script'' then script_name (path_base file) else path_base file) t = Some name"
    "getLocked (Str_any name) t = None" using unique_name_found by blast
  have w: "work_ok b t" using assms(1) by (simp add: table_ok_def)
  have "list_all (\<lambda>u. fst u \<noteq> ''name'' \<and> fst u \<noteq> ''id'')
      [(''file'', Str_any file), (''type'', Str_any typ), (''active'', Bool_any True), (''created'', Float_any (float_of_int now))]" by simp
  from new_app_ok [OF w assms(2) n(2) this] show ?thesis by (simp only: addLocked_def Let_def n(1) option.map) blast
qed

lemma work_ok_flag: "work_ok b t \<Longrightarrow> work_ok b (flag_deleted key t)"
  by (simp add: flag_deleted_def work_ok_change keeps_put split: option.split)

lemma stop_fields_key: "list_all (\<lambda>u. fst u \<noteq> ''name'' \<and> fst u \<noteq> ''id'') stop_fields"
  by (simp add: stop_fields_def)

lemma stop_app_ok:
  assumes "work_ok b t"
  shows "work_ok b (fst (stop_app signalled key t))" "saved t \<Longrightarrow> saved (fst (stop_app signalled key t))"
  using setLocked_ok [OF assms stop_fields_key] assms by (simp_all add: stop_app_def Let_def split: option.split)

lemma remove_app_ok: "work_ok b t \<Longrightarrow> table_ok b (remove_app name idNum t)"
  by (simp add: remove_app_def saveAppsLocked_ok work_ok_sweep work_ok_filter)

lemma delete_app_ok: "table_ok b t \<Longrightarrow> table_ok b (fst (delete_app signalled key t))"
  by (simp add: delete_app_def Let_def table_ok_def [of b t] remove_app_ok stop_app_ok work_ok_flag split: option.split)

end
