(* ===== verification/GoPath.thy ===== *)
theory GoPath
  imports Prelude
begin

text \<open>
  Packages \<open>path\<close> and \<open>path/filepath\<close> on a host with slash paths: \<open>Clean\<close>, \<open>Join\<close>, \<open>IsAbs\<close> and \<open>Dir\<close>. A path is
  rooted or not, and a list of elements; cleaning folds the elements over a stack.
\<close>

definition path_IsAbs :: "string \<Rightarrow> bool" where
  "path_IsAbs p \<longleftrightarrow> has_prefix p ''/''"

definition dot_dot :: string where "dot_dot = ''..''"

fun clean_push :: "bool \<Rightarrow> string list \<Rightarrow> string list \<Rightarrow> string list" where
  "clean_push rooted stack [] = stack"
| "clean_push rooted stack (c # cs) =
     (if c = [] \<or> c = ''.'' then clean_push rooted stack cs
      else if c = dot_dot then
        (case stack of
           [] \<Rightarrow> clean_push rooted (if rooted then [] else [dot_dot]) cs
         | s # ss \<Rightarrow> clean_push rooted (if s = dot_dot then dot_dot # stack else ss) cs)
      else clean_push rooted (c # stack) cs)"

definition path_Clean :: "string \<Rightarrow> string" where
  "path_Clean p =
     (if p = [] then ''.''
      else
        let rooted = path_IsAbs p; cs = rev (clean_push rooted [] (split_byte CHR ''/'' p))
        in if rooted then ''/'' @ join_str cs ''/'' else if cs = [] then ''.'' else join_str cs ''/'')"

definition path_Join :: "string list \<Rightarrow> string" where
  "path_Join ps = (let qs = filter (\<lambda>p. p \<noteq> []) ps in if qs = [] then [] else path_Clean (join_str qs ''/''))"

definition path_Dir :: "string \<Rightarrow> string" where
  "path_Dir p = (case last_index_byte CHR ''/'' p of None \<Rightarrow> path_Clean [] | Some i \<Rightarrow> path_Clean (take (i + 1) p))"

section \<open>Plain elements\<close>

text \<open>An element that names an entry of its directory.\<close>

definition plain_name :: "string \<Rightarrow> bool" where
  "plain_name c \<longleftrightarrow> c \<noteq> [] \<and> c \<noteq> ''.'' \<and> c \<noteq> dot_dot \<and> CHR ''/'' \<notin> set c"

text \<open>A rooted path of plain elements.\<close>

definition abs_path :: "string list \<Rightarrow> string" where
  "abs_path cs = ''/'' @ join_str cs ''/''"

lemma clean_push_plain:
  "list_all plain_name stack \<Longrightarrow> list_all (\<lambda>c. CHR ''/'' \<notin> set c) cs \<Longrightarrow> list_all plain_name (clean_push True stack cs)"
proof (induction cs arbitrary: stack)
  case (Cons c cs)
  then show ?case by (cases stack) (auto simp: plain_name_def)
qed simp

lemma clean_push_keeps:
  "list_all plain_name cs \<Longrightarrow> clean_push rooted stack (cs @ ds) = clean_push rooted (rev cs @ stack) ds"
  by (induction cs arbitrary: stack) (auto simp: plain_name_def)

lemma clean_push_Nil_elem: "clean_push rooted stack ([] # cs) = clean_push rooted stack cs"
  by simp

lemma path_Clean_abs:
  assumes "path_IsAbs p"
  shows "\<exists>cs. list_all plain_name cs \<and> path_Clean p = abs_path cs"
proof -
  have "list_all (\<lambda>c. CHR ''/'' \<notin> set c) (split_byte CHR ''/'' p)"
    using split_byte_no_sep by (fastforce simp: list_all_iff)
  then have "list_all plain_name (rev (clean_push True [] (split_byte CHR ''/'' p)))"
    using clean_push_plain [of "[]"] by (simp add: list_all_iff)
  moreover have "p \<noteq> []" using assms by (auto simp: path_IsAbs_def has_prefix_def)
  ultimately show ?thesis using assms by (intro exI conjI) (auto simp: path_Clean_def abs_path_def Let_def)
qed

lemma split_byte_join2: "split_byte c (u @ c # v) = split_byte c u @ split_byte c v"
proof (induction u)
  case (Cons x u)
  then show ?case by (cases "split_byte c u") auto
qed simp

lemma split_plain: "list_all plain_name cs \<Longrightarrow> cs \<noteq> [] \<Longrightarrow> split_byte CHR ''/'' (join_str cs ''/'') = cs"
  using split_join [of cs "CHR ''/''"] by (auto simp: list_all_iff plain_name_def)

lemma split_abs: "list_all plain_name cs \<Longrightarrow> split_byte CHR ''/'' (abs_path cs) = [] # (if cs = [] then [[]] else cs)"
  by (simp add: abs_path_def split_plain)

lemma clean_push_split_abs:
  "list_all plain_name cs \<Longrightarrow> clean_push rooted stack (split_byte CHR ''/'' (abs_path cs) @ ds) = clean_push rooted (rev cs @ stack) ds"
  using clean_push_keeps [of cs rooted stack ds] by (simp add: split_abs)

lemma abs_path_IsAbs: "path_IsAbs (abs_path cs @ x)"
  by (simp add: path_IsAbs_def abs_path_def has_prefix_def)

lemma abs_path_not_Nil [simp]: "abs_path cs \<noteq> []"
  by (simp add: abs_path_def)

lemma path_Clean_rooted:
  "path_IsAbs p \<Longrightarrow> path_Clean p = abs_path (rev (clean_push True [] (split_byte CHR ''/'' p)))"
  by (auto simp: path_Clean_def abs_path_def Let_def path_IsAbs_def has_prefix_def)

lemma path_Clean_id: "list_all plain_name cs \<Longrightarrow> path_Clean (abs_path cs) = abs_path cs"
  using clean_push_split_abs [of cs True "[]" "[]"] abs_path_IsAbs [of cs "[]"] by (simp add: path_Clean_rooted)

lemma path_Join_below:
  assumes "list_all plain_name cs" and "p \<noteq> []"
  shows "path_Join [abs_path cs, p] = abs_path (rev (clean_push True (rev cs) (split_byte CHR ''/'' p)))"
proof -
  have "path_Join [abs_path cs, p] = path_Clean (abs_path cs @ CHR ''/'' # p)" using assms(2) by (simp add: path_Join_def)
  also have "\<dots> = abs_path (rev (clean_push True [] (split_byte CHR ''/'' (abs_path cs) @ split_byte CHR ''/'' p)))"
    using abs_path_IsAbs [of cs "CHR ''/'' # p"] by (simp add: path_Clean_rooted split_byte_join2)
  also have "\<dots> = abs_path (rev (clean_push True (rev cs) (split_byte CHR ''/'' p)))"
    by (simp add: clean_push_split_abs [OF assms(1)])
  finally show ?thesis .
qed

lemma path_Join_abs:
  assumes "list_all plain_name as" and "list_all plain_name bs"
  shows "path_Join [abs_path as, abs_path bs] = abs_path (as @ bs)"
  using path_Join_below [OF assms(1), of "abs_path bs"] clean_push_split_abs [OF assms(2), of True "rev as" "[]"] by simp

lemma path_Join_name:
  assumes "list_all plain_name as" and "plain_name c"
  shows "path_Join [abs_path as, c] = abs_path (as @ [c])"
  using path_Join_below [OF assms(1), of c] assms(2) by (auto simp: plain_name_def split_byte_id)

lemma abs_path_append: "bs \<noteq> [] \<Longrightarrow> as \<noteq> [] \<Longrightarrow> abs_path (as @ bs) = abs_path as @ ''/'' @ join_str bs ''/''"
proof (induction as)
  case (Cons a as)
  then show ?case by (cases as) (auto simp: abs_path_def join_Cons)
qed simp

end
