(* ===== verification/AppSettings.thy ===== *)
theory AppSettings
  imports AppTable GoPath
begin

text \<open>
  The settings of an app (\<open>internal/appmgr/ops.go\<close>, \<open>env.go\<close>, \<open>helpers.go\<close>): ports, volumes, devices, networks,
  privileges, isolation, the grant of the API and the environment. A handler answers success or the reason for which
  it refuses; the texts of the answers are left out. A handler that first reads and then changes under two locks has
  a definition for each half.
\<close>

datatype refusal =
    App_missing
  | Bad_payload
  | Bad_entry
  | Missing_value string
  | Bad_value string any
  | Public_proxy
  | Many_proxies
  | Duplicate_host any
  | Uses_host_network
  | Is_isolated
  | Has_domains
  | Not_running
  | Docker_refused string
  | Unknown_actions "string list"
  | Denied_actions "string list"
  | No_actions
  | Self_link
  | Target_missing
  | Not_linked

text \<open>\<^const>\<open>None\<close> is success.\<close>

type_synonym outcome = "refusal option"

definition on_app :: "any \<Rightarrow> (amap \<Rightarrow> (amap \<Rightarrow> amap) option \<times> outcome) \<Rightarrow> app_table \<Rightarrow> app_table \<times> outcome" where
  "on_app key f t =
     (case getLocked key t of
        None \<Rightarrow> (t, Some App_missing)
      | Some a \<Rightarrow>
          (case f (at_heap t a) of
             (None, out) \<Rightarrow> (t, out)
           | (Some g, out) \<Rightarrow> (saveAppsLocked (change_app a g t), out)))"

section \<open>Environment\<close>

definition isNewEnvStructure :: "amap option \<Rightarrow> bool" where
  "isNewEnvStructure cfg =
     (case cfg of None \<Rightarrow> False | Some e \<Rightarrow> app_truthy (aget e ''manual'') \<or> as_list (aget e ''linked'') \<noteq> None)"

definition getManualEnv :: "amap option \<Rightarrow> amap" where
  "getManualEnv cfg =
     (case cfg of
        None \<Rightarrow> Map.empty
      | Some e \<Rightarrow> if isNewEnvStructure cfg then (case as_map (aget e ''manual'') of None \<Rightarrow> Map.empty | Some m \<Rightarrow> m) else e)"

definition sensitiveKeys :: "string list" where
  "sensitiveKeys = [''cert'', ''key'', ''salt'', ''secret'', ''token'']"

definition isSensitiveKey :: "string \<Rightarrow> bool" where
  "isSensitiveKey k = list_ex (contains_str (to_lower k)) sensitiveKeys"

definition sanitizeEnv :: "amap \<Rightarrow> amap" where
  "sanitizeEnv env = (\<lambda>k. map_option (\<lambda>v. if isSensitiveKey k then Str_any ''***'' else v) (env k))"

definition env_links :: "amap option \<Rightarrow> any list" where
  "env_links cfg =
     (if isNewEnvStructure cfg
      then (case cfg of None \<Rightarrow> [] | Some e \<Rightarrow> (case as_list (aget e ''linked'') of None \<Rightarrow> [] | Some ls \<Rightarrow> ls)) else [])"

definition app_env :: "amap \<Rightarrow> amap option" where
  "app_env app = as_map (aget app ''env'')"

definition linked_env :: "app_table \<Rightarrow> any \<Rightarrow> amap option" where
  "linked_env t l = map_option (\<lambda>a. getManualEnv (app_env (at_heap t a))) (getLocked (Str_any (as_str l)) t)"

definition resolveEnvLocked :: "app_table \<Rightarrow> amap \<Rightarrow> bool \<Rightarrow> amap" where
  "resolveEnvLocked t app includeSystem =
     (let sys = (if includeSystem then [''HOST'' \<mapsto> Str_any ''0.0.0.0'', ''ODAC_APP'' \<mapsto> Str_any ''true''] else Map.empty);
          cfg = app_env app
      in fold (\<lambda>l env. case linked_env t l of None \<Rightarrow> env | Some e \<Rightarrow> env ++ e) (env_links cfg) sys ++ getManualEnv cfg)"

definition envToStrings :: "amap \<Rightarrow> string \<Rightarrow> string option" where
  "envToStrings env = (\<lambda>k. map_option jsString (env k))"

definition GetEnv :: "any \<Rightarrow> app_table \<Rightarrow> (amap \<times> (string \<times> amap) list) option" where
  "GetEnv key t =
     map_option
       (\<lambda>a. let cfg = app_env (at_heap t a)
            in (sanitizeEnv (getManualEnv cfg),
                List.map_filter (\<lambda>l. map_option (\<lambda>e. (as_str l, sanitizeEnv e)) (linked_env t l)) (env_links cfg)))
       (getLocked key t)"

definition put_env :: "amap \<Rightarrow> amap \<Rightarrow> amap" where
  "put_env env app = app(''env'' \<mapsto> Map_any env)"

definition structured :: "amap \<Rightarrow> any list \<Rightarrow> amap" where
  "structured manual linked = [''manual'' \<mapsto> Map_any manual, ''linked'' \<mapsto> List_any linked]"

definition SetEnv :: "any \<Rightarrow> amap option \<Rightarrow> app_table \<Rightarrow> app_table \<times> outcome" where
  "SetEnv key env = on_app key (\<lambda>app.
     case env of
       None \<Rightarrow> (None, Some Bad_payload)
     | Some env \<Rightarrow>
         (case app_env app of
            None \<Rightarrow> (Some (put_env (structured env [])), None)
          | Some cfg \<Rightarrow>
              if isNewEnvStructure (Some cfg)
              then (Some (put_env (cfg(''manual'' \<mapsto>
                     Map_any ((case as_map (aget cfg ''manual'') of None \<Rightarrow> Map.empty | Some m \<Rightarrow> m) ++ env)))), None)
              else (Some (put_env (structured (cfg ++ env) [])), None)))"

definition DeleteEnv :: "any \<Rightarrow> string list \<Rightarrow> app_table \<Rightarrow> app_table \<times> outcome" where
  "DeleteEnv key ks = on_app key (\<lambda>app.
     if ks = [] then (None, Some Bad_payload)
     else
       let cfg = app_env app; manual = (\<lambda>k. if k \<in> set ks then None else getManualEnv cfg k)
       in (Some (put_env (case cfg of
               Some e \<Rightarrow> if isNewEnvStructure cfg then e(''manual'' \<mapsto> Map_any manual) else structured manual []
             | None \<Rightarrow> structured manual [])), None))"

definition LinkEnv :: "any \<Rightarrow> string \<Rightarrow> app_table \<Rightarrow> app_table \<times> outcome" where
  "LinkEnv key target t = on_app key (\<lambda>app.
     if target = [] then (None, Some (Missing_value ''target''))
     else if any_eq (aget app ''name'') (Str_any target) then (None, Some Self_link)
     else if getLocked (Str_any target) t = None then (None, Some Target_missing)
     else
       let cfg = app_env app
       in (Some (put_env (case cfg of
               None \<Rightarrow> structured Map.empty [Str_any target]
             | Some e \<Rightarrow>
                 if isNewEnvStructure cfg
                 then let ls = (case as_list (aget e ''linked'') of None \<Rightarrow> [] | Some ls \<Rightarrow> ls)
                      in e(''linked'' \<mapsto> List_any (if list_ex (\<lambda>l. any_eq l (Str_any target)) ls then ls else ls @ [Str_any target]))
                 else structured e [Str_any target])), None)) t"

definition UnlinkEnv :: "any \<Rightarrow> string \<Rightarrow> app_table \<Rightarrow> app_table \<times> outcome" where
  "UnlinkEnv key target = on_app key (\<lambda>app.
     if target = [] then (None, Some (Missing_value ''target''))
     else
       (case app_env app of
          None \<Rightarrow> (None, Some Not_linked)
        | Some e \<Rightarrow>
            (case as_list (aget e ''linked'') of
               None \<Rightarrow> (None, Some Not_linked)
             | Some ls \<Rightarrow>
                 if list_ex (\<lambda>l. any_eq l (Str_any target)) ls
                 then (Some (put_env (e(''linked'' \<mapsto> List_any (filter (\<lambda>l. \<not> any_eq l (Str_any target)) ls)))), None)
                 else (None, Some Not_linked))))"

section \<open>Ports\<close>

definition port_key :: "float64 \<Rightarrow> bool" where
  "port_key f \<longleftrightarrow> isInt f \<and> (case f of Fin r \<Rightarrow> 1 \<le> r \<and> r \<le> 65535 | _ \<Rightarrow> False)"

definition port_entry :: "any \<Rightarrow> refusal + amap" where
  "port_entry raw =
     (case as_map raw of
        None \<Rightarrow> Inl Bad_entry
      | Some e \<Rightarrow>
          let cv = aget e ''container''; hv = aget e ''host''; pub = parsePublic (aget e ''public'')
          in if any_eq cv Nil_any \<or> any_eq cv (Str_any []) then Inl (Missing_value ''container'')
             else if \<not> (case jsNumber cv of None \<Rightarrow> False | Some f \<Rightarrow> port_key f) then Inl (Bad_value ''container'' cv)
             else if any_eq hv Nil_any \<or> any_eq hv (Str_any []) then Inl (Missing_value ''host'')
             else if \<not> any_eq hv (Str_any ''auto'') \<and> \<not> any_eq hv (Str_any Proxy)
                     \<and> \<not> (case jsNumber hv of None \<Rightarrow> False | Some f \<Rightarrow> port_key f)
             then Inl (Bad_value ''host'' hv)
             else if \<not> snd pub then Inl (Bad_value ''public'' (aget e ''public''))
             else if fst pub \<and> any_eq hv (Str_any Proxy) then Inl Public_proxy
             else Inr e)"

fun port_entries :: "any list \<Rightarrow> refusal + amap list" where
  "port_entries [] = Inr []"
| "port_entries (raw # raws) =
     (case port_entry raw of
        Inl r \<Rightarrow> Inl r
      | Inr e \<Rightarrow> (case port_entries raws of Inl r \<Rightarrow> Inl r | Inr es \<Rightarrow> Inr (e # es)))"

definition number_of :: "any \<Rightarrow> float64" where
  "number_of v = (case jsNumber v of None \<Rightarrow> Fin 0 | Some f \<Rightarrow> f)"

fun port_collision :: "float64 list \<Rightarrow> nat \<Rightarrow> amap list \<Rightarrow> outcome" where
  "port_collision seen proxies [] = None"
| "port_collision seen proxies (e # es) =
     (let hv = aget e ''host''
      in if any_eq hv (Str_any Proxy) then (if 1 < Suc proxies then Some Many_proxies else port_collision seen (Suc proxies) es)
         else if any_eq hv (Str_any ''auto'') then port_collision seen proxies es
         else if number_of hv \<in> set seen then Some (Duplicate_host hv)
         else port_collision (number_of hv # seen) proxies es)"

definition findPortCollision :: "amap list \<Rightarrow> outcome" where
  "findPortCollision = port_collision [] 0"

text \<open>
  The search for a free port: \<open>net.Listen\<close> refuses a number above 65535, so the search that has reached it never
  ends, which is the value \<^const>\<open>None\<close>.
\<close>

fun available_from :: "nat \<Rightarrow> nat \<Rightarrow> float64 list \<Rightarrow> (nat \<Rightarrow> bool) \<Rightarrow> nat option" where
  "available_from 0 port assigned in_use = None"
| "available_from (Suc n) port assigned in_use =
     (if float_of_int (int port) \<in> set assigned \<or> in_use port then available_from n (Suc port) assigned in_use else Some port)"

definition findAvailablePort :: "nat \<Rightarrow> float64 list \<Rightarrow> (nat \<Rightarrow> bool) \<Rightarrow> nat option" where
  "findAvailablePort start assigned in_use = available_from (65536 - start) start assigned in_use"

definition prepared_host :: "(nat \<Rightarrow> bool) \<Rightarrow> float64 list \<Rightarrow> any \<Rightarrow> any option" where
  "prepared_host in_use assigned hv =
     (let host = (if any_eq hv Nil_any then Str_any Proxy else hv)
      in if any_eq host (Str_any ''auto'') then map_option (\<lambda>p. Float_any (float_of_int (int p))) (findAvailablePort 30000 assigned in_use)
         else if any_eq host (Str_any Proxy) then Some host
         else Some (Float_any (number_of host)))"

definition prepared_entry :: "any \<Rightarrow> amap \<Rightarrow> amap" where
  "prepared_entry host port =
     (let e = [''host'' \<mapsto> host, ''container'' \<mapsto> Float_any (number_of (aget port ''container''))]; pub = parsePublic (aget port ''public'')
      in if \<not> any_eq host (Str_any Proxy) \<and> snd pub \<and> fst pub then e(''public'' \<mapsto> Bool_any True) else e)"

fun preparePorts :: "(nat \<Rightarrow> bool) \<Rightarrow> float64 list \<Rightarrow> amap list \<Rightarrow> amap list option" where
  "preparePorts in_use assigned [] = Some []"
| "preparePorts in_use assigned (port # ports) =
     (case prepared_host in_use assigned (aget port ''host'') of
        None \<Rightarrow> None
      | Some host \<Rightarrow>
          map_option ((#) (prepared_entry host port))
            (preparePorts in_use (case host of Float_any f \<Rightarrow> f # assigned | _ \<Rightarrow> assigned) ports))"

text \<open>\<^const>\<open>None\<close>: the search for a free port never ends.\<close>

definition SetPorts :: "(nat \<Rightarrow> bool) \<Rightarrow> any \<Rightarrow> any list option \<Rightarrow> app_table \<Rightarrow> (app_table \<times> outcome) option" where
  "SetPorts in_use key payload t =
     (if getLocked key t = None then Some (t, Some App_missing)
      else case payload of
        None \<Rightarrow> Some (t, Some Bad_payload)
      | Some raws \<Rightarrow>
          (case port_entries raws of
             Inl r \<Rightarrow> Some (t, Some r)
           | Inr es \<Rightarrow>
               (case findPortCollision es of
                  Some r \<Rightarrow> Some (t, Some r)
                | None \<Rightarrow>
                    map_option
                      (\<lambda>ports. on_app key (\<lambda>app. (Some (\<lambda>m. m(''ports'' \<mapsto> List_any (map Map_any ports))), None)) t)
                      (preparePorts in_use [] es))))"

section \<open>Volumes and devices\<close>

definition prepare_volume :: "string \<Rightarrow> string \<Rightarrow> amap \<Rightarrow> any" where
  "prepare_volume hostRoot appDir vol =
     (let host = as_str (aget vol ''host'');
          host = (if host \<noteq> [] \<and> hostRoot \<noteq> [] \<and> path_IsAbs host \<and> has_prefix host hostRoot
                  then path_Join [''/app'', drop (length hostRoot) host] else host);
          host = (if host \<noteq> [] \<and> \<not> path_IsAbs host then path_Join [appDir, host] else host)
      in Map_any [''host'' \<mapsto> Str_any host, ''container'' \<mapsto> aget vol ''container''])"

definition prepareVolumes :: "string \<Rightarrow> string \<Rightarrow> amap list \<Rightarrow> any list" where
  "prepareVolumes hostRoot appDir = map (prepare_volume hostRoot appDir)"

fun volume_entries :: "any list \<Rightarrow> refusal + amap list" where
  "volume_entries [] = Inr []"
| "volume_entries (raw # raws) =
     (case as_map raw of
        None \<Rightarrow> Inl Bad_entry
      | Some e \<Rightarrow>
          if as_str (aget e ''container'') = [] then Inl (Missing_value ''container'')
          else if as_str (aget e ''host'') = [] then Inl (Missing_value ''host'')
          else (case volume_entries raws of Inl r \<Rightarrow> Inl r | Inr es \<Rightarrow> Inr (e # es)))"

definition SetVolumes :: "string \<Rightarrow> string \<Rightarrow> any \<Rightarrow> any list option \<Rightarrow> app_table \<Rightarrow> app_table \<times> outcome" where
  "SetVolumes hostRoot apps key payload t = on_app key (\<lambda>app.
     case payload of
       None \<Rightarrow> (None, Some Bad_payload)
     | Some raws \<Rightarrow>
         (case volume_entries raws of
            Inl r \<Rightarrow> (None, Some r)
          | Inr es \<Rightarrow>
              (Some (\<lambda>m. m(''volumes'' \<mapsto> List_any (prepareVolumes hostRoot (path_Join [apps, as_str (aget app ''name'')]) es))),
               None))) t"

definition dev_is :: "string \<Rightarrow> any \<Rightarrow> bool" where
  "dev_is host d = (case as_map d of None \<Rightarrow> False | Some dev \<Rightarrow> any_eq (aget dev ''host'') (Str_any host))"

fun update_device :: "string \<Rightarrow> string \<Rightarrow> any list \<Rightarrow> any list option" where
  "update_device host to [] = None"
| "update_device host to (d # ds) =
     (case as_map d of
        Some dev \<Rightarrow>
          if dev_is host d then Some (Map_any (dev(''container'' \<mapsto> Str_any to)) # ds) else map_option ((#) d) (update_device host to ds)
      | None \<Rightarrow> map_option ((#) d) (update_device host to ds))"

definition DeviceAdd :: "any \<Rightarrow> string \<Rightarrow> string \<Rightarrow> app_table \<Rightarrow> app_table \<times> outcome" where
  "DeviceAdd key hostPath containerPath = on_app key (\<lambda>app.
     if hostPath = [] then (None, Some (Missing_value ''host''))
     else
       let to = (if containerPath = [] then hostPath else containerPath);
           ds = (case as_list (aget app ''devices'') of None \<Rightarrow> [] | Some ds \<Rightarrow> ds);
           ds' = (case update_device hostPath to ds of
                    Some ds' \<Rightarrow> ds'
                  | None \<Rightarrow> ds @ [Map_any [''host'' \<mapsto> Str_any hostPath, ''container'' \<mapsto> Str_any to]])
       in (Some (\<lambda>m. m(''devices'' \<mapsto> List_any ds')), None))"

definition DeviceDelete :: "any \<Rightarrow> string \<Rightarrow> app_table \<Rightarrow> app_table \<times> outcome" where
  "DeviceDelete key hostPath = on_app key (\<lambda>app.
     case as_list (aget app ''devices'') of
       None \<Rightarrow> (None, None)
     | Some ds \<Rightarrow> (Some (\<lambda>m. m(''devices'' \<mapsto> List_any (filter (\<lambda>d. \<not> dev_is hostPath d) ds))), None))"

section \<open>Privileges and the API grant\<close>

definition SetPrivileged :: "any \<Rightarrow> string \<Rightarrow> app_table \<Rightarrow> app_table \<times> outcome" where
  "SetPrivileged key mode =
     (let mode = (if mode = [] then ''root'' else mode)
      in on_app key (\<lambda>app.
           if mode \<noteq> ''root'' \<and> mode \<noteq> ''full'' \<and> mode \<noteq> ''off'' then (None, Some (Bad_value ''mode'' (Str_any mode)))
           else if mode = ''off'' then (Some (\<lambda>m. m(''privileged'' := None)), None)
           else (Some (\<lambda>m. m(''privileged'' \<mapsto> Str_any mode)), None)))"

fun split_actions_acc :: "string \<Rightarrow> string \<Rightarrow> string list" where
  "split_actions_acc w [] = (if w = [] then [] else [rev w])"
| "split_actions_acc w (c # cs) =
     (if c \<in> set ('','' @ '' '' @ [tab, nl]) then (if w = [] then [] else [rev w]) @ split_actions_acc [] cs
      else split_actions_acc (c # w) cs)"

definition splitActions :: "string \<Rightarrow> string list" where
  "splitActions raw = split_actions_acc [] raw"

text \<open>A loop over the names: what it has seen, the unknown, the restricted and the accepted ones.\<close>

fun collect_actions :: "(string \<Rightarrow> bool) \<Rightarrow> (string \<Rightarrow> bool) \<Rightarrow> string list \<Rightarrow> string list \<Rightarrow> string list \<Rightarrow> string list \<Rightarrow> string list
    \<Rightarrow> refusal + any option" where
  "collect_actions known may seen unknown restricted acc [] =
     (if unknown \<noteq> [] then Inl (Unknown_actions unknown)
      else if restricted \<noteq> [] then Inl (Denied_actions restricted)
      else if acc = [] then Inl No_actions
      else Inr (Some (List_any (map Str_any acc))))"
| "collect_actions known may seen unknown restricted acc (item # items) =
     (let action = trim_space item
      in if action = [] \<or> action \<in> set seen then collect_actions known may seen unknown restricted acc items
         else if action = ''*'' then Inr (Some (Bool_any True))
         else if \<not> known action then collect_actions known may (action # seen) (unknown @ [action]) restricted acc items
         else if \<not> may action then collect_actions known may (action # seen) unknown (restricted @ [action]) acc items
         else collect_actions known may (action # seen) unknown restricted (acc @ [action]) items)"

definition normalizeAPIActions :: "(string \<Rightarrow> bool) \<Rightarrow> (string \<Rightarrow> bool) \<Rightarrow> string list \<Rightarrow> refusal + any option" where
  "normalizeAPIActions known may items = collect_actions known may [] [] [] [] items"

fun grant_items :: "any list \<Rightarrow> refusal + string list" where
  "grant_items [] = Inr []"
| "grant_items (Str_any s # vs) = (case grant_items vs of Inl r \<Rightarrow> Inl r | Inr is \<Rightarrow> Inr (splitActions s @ is))"
| "grant_items (v # vs) = Inl (Bad_value ''permission'' v)"

fun normalizeAPIPermissions :: "(string \<Rightarrow> bool) \<Rightarrow> (string \<Rightarrow> bool) \<Rightarrow> any \<Rightarrow> refusal + any option" where
  "normalizeAPIPermissions known may Nil_any = Inr None"
| "normalizeAPIPermissions known may (Bool_any v) = Inr (if v then Some (Bool_any True) else None)"
| "normalizeAPIPermissions known may (Str_any v) =
     (if v = [] \<or> equal_fold v ''off'' \<or> equal_fold v ''false'' then Inr None
      else normalizeAPIActions known may (splitActions v))"
| "normalizeAPIPermissions known may (List_any vs) =
     (case grant_items vs of Inl r \<Rightarrow> Inl r | Inr items \<Rightarrow> normalizeAPIActions known may items)"
| "normalizeAPIPermissions known may _ = Inl Bad_payload"

definition SetAPI :: "(string \<Rightarrow> bool) \<Rightarrow> (string \<Rightarrow> bool) \<Rightarrow> any \<Rightarrow> any \<Rightarrow> app_table \<Rightarrow> app_table \<times> outcome" where
  "SetAPI known may key permissions t =
     (case normalizeAPIPermissions known may permissions of
        Inl r \<Rightarrow> (t, Some r)
      | Inr None \<Rightarrow>
          on_app key (\<lambda>app. if app ''api'' = None then (None, None) else (Some (\<lambda>m. m(''api'' := None)), None)) t
      | Inr (Some v) \<Rightarrow> on_app key (\<lambda>app. (Some (\<lambda>m. m(''api'' \<mapsto> v)), None)) t)"

section \<open>Network mode and isolation\<close>

text \<open>The domains of the configuration, a map from names to records.\<close>

type_synonym domain_map = "(string \<times> any) list"

definition hasDomainsFor :: "string \<Rightarrow> float64 \<Rightarrow> domain_map \<Rightarrow> bool" where
  "hasDomainsFor name idNum ds =
     list_ex (\<lambda>(d, rec). case as_map rec of
        None \<Rightarrow> False
      | Some r \<Rightarrow> any_eq (aget r ''appId'') (Str_any name) \<or> any_eq (aget r ''appId'') (Float_any idNum)) ds"

definition hostNetworked :: "float64 \<Rightarrow> app_table \<Rightarrow> bool" where
  "hostNetworked idNum t = (case getLocked (Float_any idNum) t of None \<Rightarrow> False | Some a \<Rightarrow> IsHost (aget (at_heap t a) ''networkMode''))"

definition zddEligible :: "string \<Rightarrow> float64 \<Rightarrow> app_table \<Rightarrow> domain_map \<Rightarrow> bool" where
  "zddEligible name idNum t ds \<longleftrightarrow> hasDomainsFor name idNum ds \<and> \<not> hostNetworked idNum t"

definition network_check :: "any \<Rightarrow> string \<Rightarrow> app_table \<Rightarrow> domain_map \<Rightarrow> refusal + string" where
  "network_check key mode t ds =
     (case mode_of mode of
        None \<Rightarrow> Inl (Bad_value ''mode'' (Str_any mode))
      | Some parsed \<Rightarrow>
          (case getLocked key t of
             None \<Rightarrow> Inl App_missing
           | Some a \<Rightarrow>
               let app = at_heap t a
               in if parsed = Host \<and> app_truthy (aget app ''isolated'') then Inl Is_isolated
                  else if parsed = Host \<and> hasDomainsFor (as_str (aget app ''name'')) (as_float (aget app ''id'')) ds then Inl Has_domains
                  else Inr parsed))"

definition network_commit :: "any \<Rightarrow> string \<Rightarrow> app_table \<Rightarrow> app_table \<times> outcome" where
  "network_commit key parsed = on_app key (\<lambda>app.
     (Some (\<lambda>m. (if parsed = Bridge then m(''networkMode'' := None) else m(''networkMode'' \<mapsto> Str_any parsed))(''ip'' := None)), None))"

definition SetNetworkMode :: "any \<Rightarrow> string \<Rightarrow> domain_map \<Rightarrow> app_table \<Rightarrow> app_table \<times> outcome" where
  "SetNetworkMode key mode ds t =
     (case network_check key mode t ds of Inl r \<Rightarrow> (t, Some r) | Inr parsed \<Rightarrow> network_commit key parsed t)"

definition isolate_check :: "any \<Rightarrow> bool \<Rightarrow> app_table \<Rightarrow> outcome" where
  "isolate_check key isolated t =
     (case getLocked key t of
        None \<Rightarrow> Some App_missing
      | Some a \<Rightarrow> if isolated \<and> IsHost (aget (at_heap t a) ''networkMode'') then Some Uses_host_network else None)"

definition isolate_commit :: "any \<Rightarrow> bool \<Rightarrow> app_table \<Rightarrow> app_table \<times> outcome" where
  "isolate_commit key isolated = on_app key (\<lambda>app.
     (Some (\<lambda>m. (if isolated then m(''isolated'' \<mapsto> Bool_any True) else m(''isolated'' := None))(''ip'' := None)), None))"

definition SetIsolated :: "any \<Rightarrow> bool \<Rightarrow> app_table \<Rightarrow> app_table \<times> outcome" where
  "SetIsolated key isolated t =
     (case isolate_check key isolated t of Some r \<Rightarrow> (t, Some r) | None \<Rightarrow> isolate_commit key isolated t)"

text \<open>What \<open>SetNetworks\<close> asks the Docker client for, or why it does not.\<close>

definition alphanumeric :: "char \<Rightarrow> bool" where
  "alphanumeric c \<longleftrightarrow> (let n = ascii_val c in 48 \<le> n \<and> n \<le> 57 \<or> 65 \<le> n \<and> n \<le> 90 \<or> 97 \<le> n \<and> n \<le> 122)"

definition network_name :: "string \<Rightarrow> bool" where
  "network_name s = (case s of [] \<Rightarrow> False | c # cs \<Rightarrow> alphanumeric c \<and> list_all (\<lambda>d. alphanumeric d \<or> d \<in> set ''_.-'') cs)"

fun network_names :: "any list \<Rightarrow> refusal + string list" where
  "network_names [] = Inr []"
| "network_names (v # vs) =
     (if network_name (as_str v) then (case network_names vs of Inl r \<Rightarrow> Inl r | Inr ns \<Rightarrow> Inr (as_str v # ns))
      else Inl (Bad_value ''network'' v))"

definition SetNetworks :: "any \<Rightarrow> any list option \<Rightarrow> (string \<Rightarrow> bool) \<Rightarrow> app_table \<Rightarrow> refusal + (string \<times> string list)" where
  "SetNetworks key payload running t =
     (case getLocked key t of
        None \<Rightarrow> Inl App_missing
      | Some a \<Rightarrow>
          let app = at_heap t a; name = as_str (aget app ''name'')
          in if IsHost (aget app ''networkMode'') then Inl Uses_host_network
             else if app_truthy (aget app ''isolated'') then Inl Is_isolated
             else (case payload of
                     None \<Rightarrow> Inl Bad_payload
                   | Some vs \<Rightarrow>
                       (case network_names vs of
                          Inl r \<Rightarrow> Inl r
                        | Inr ns \<Rightarrow> if running name then Inr (name, ns) else Inl Not_running)))"

section \<open>Runs of operations\<close>

text \<open>
  The steps that a table can take. A creation holds the lock of its name from the test to the new record;
  \<open>Op_set\<close> is a bookkeeping update of \<open>set\<close>.
\<close>

datatype app_op =
    Op_add string string int
  | Op_create string "(string \<times> any) list"
  | Op_set any "(string \<times> any) list"
  | Op_stop bool any
  | Op_delete bool any
  | Op_reload
  | Op_set_env any "amap option"
  | Op_delete_env any "string list"
  | Op_link any string
  | Op_unlink any string
  | Op_ports "nat \<Rightarrow> bool" any "any list option"
  | Op_volumes string string any "any list option"
  | Op_device any string string
  | Op_no_device any string
  | Op_privileged any string
  | Op_api "string \<Rightarrow> bool" "string \<Rightarrow> bool" any any
  | Op_network any string domain_map
  | Op_isolate any bool

definition app_step :: "app_op \<Rightarrow> app_table \<Rightarrow> app_table" where
  "app_step p t =
     (case p of
        Op_add file typ now \<Rightarrow> (case addLocked file typ now t of None \<Rightarrow> t | Some t' \<Rightarrow> t')
      | Op_create name rest \<Rightarrow> if getLocked (Str_any name) t = None then new_app name rest t else t
      | Op_set key us \<Rightarrow> fst (setLocked key us t)
      | Op_stop signalled key \<Rightarrow> fst (stop_app signalled key t)
      | Op_delete signalled key \<Rightarrow> fst (delete_app signalled key t)
      | Op_reload \<Rightarrow> loadAppsFromConfig t
      | Op_set_env key env \<Rightarrow> fst (SetEnv key env t)
      | Op_delete_env key ks \<Rightarrow> fst (DeleteEnv key ks t)
      | Op_link key target \<Rightarrow> fst (LinkEnv key target t)
      | Op_unlink key target \<Rightarrow> fst (UnlinkEnv key target t)
      | Op_ports in_use key payload \<Rightarrow> (case SetPorts in_use key payload t of None \<Rightarrow> t | Some r \<Rightarrow> fst r)
      | Op_volumes hostRoot apps key payload \<Rightarrow> fst (SetVolumes hostRoot apps key payload t)
      | Op_device key h c \<Rightarrow> fst (DeviceAdd key h c t)
      | Op_no_device key h \<Rightarrow> fst (DeviceDelete key h t)
      | Op_privileged key mode \<Rightarrow> fst (SetPrivileged key mode t)
      | Op_api known may key v \<Rightarrow> fst (SetAPI known may key v t)
      | Op_network key mode ds \<Rightarrow> fst (SetNetworkMode key mode ds t)
      | Op_isolate key on \<Rightarrow> fst (SetIsolated key on t))"

definition plain_fields :: "(string \<times> any) list \<Rightarrow> bool" where
  "plain_fields us \<longleftrightarrow> list_all (\<lambda>u. fst u \<noteq> ''name'' \<and> fst u \<noteq> ''id'') us"

text \<open>No update carries a name or an id.\<close>

definition op_ok :: "app_op \<Rightarrow> bool" where
  "op_ok p = (case p of Op_create name rest \<Rightarrow> plain_fields rest | Op_set key us \<Rightarrow> plain_fields us | _ \<Rightarrow> True)"

lemma on_app_ok:
  assumes "table_ok b t" and "\<And>app g out. f app = (Some g, out) \<Longrightarrow> keeps_key g"
  shows "table_ok b (fst (on_app key f t))"
proof (cases "getLocked key t")
  case (Some a)
  then show ?thesis
    using assms change_saved_ok [OF assms(1)] by (auto simp: on_app_def split: prod.split option.split)
qed (simp add: on_app_def assms)

lemma keeps_put_env [keeping]: "keeps_key (put_env e)"
  unfolding put_env_def by (rule keeps_put) simp_all

lemma SetEnv_ok: "table_ok b t \<Longrightarrow> table_ok b (fst (SetEnv key env t))"
  unfolding SetEnv_def by (erule on_app_ok) (auto split: option.splits if_splits intro: keeping)

lemma DeleteEnv_ok: "table_ok b t \<Longrightarrow> table_ok b (fst (DeleteEnv key ks t))"
  unfolding DeleteEnv_def by (erule on_app_ok) (auto simp: Let_def split: if_splits intro: keeping)

lemma LinkEnv_ok: "table_ok b t \<Longrightarrow> table_ok b (fst (LinkEnv key target t))"
  unfolding LinkEnv_def by (erule on_app_ok) (auto simp: Let_def split: if_splits intro: keeping)

lemma UnlinkEnv_ok: "table_ok b t \<Longrightarrow> table_ok b (fst (UnlinkEnv key target t))"
  unfolding UnlinkEnv_def by (erule on_app_ok) (auto split: option.splits if_splits intro: keeping)

lemma SetPorts_ok: "table_ok b t \<Longrightarrow> SetPorts in_use key payload t = Some r \<Longrightarrow> table_ok b (fst r)"
  by (auto simp: SetPorts_def split: if_splits option.splits sum.splits intro!: on_app_ok keeps_put)

lemma SetVolumes_ok: "table_ok b t \<Longrightarrow> table_ok b (fst (SetVolumes hostRoot apps key payload t))"
  unfolding SetVolumes_def by (erule on_app_ok) (auto split: option.splits sum.splits intro!: keeps_put)

lemma DeviceAdd_ok: "table_ok b t \<Longrightarrow> table_ok b (fst (DeviceAdd key h c t))"
  unfolding DeviceAdd_def by (erule on_app_ok) (auto simp: Let_def split: if_splits intro!: keeps_put)

lemma DeviceDelete_ok: "table_ok b t \<Longrightarrow> table_ok b (fst (DeviceDelete key h t))"
  unfolding DeviceDelete_def by (erule on_app_ok) (auto split: option.splits intro!: keeps_put)

lemma SetPrivileged_ok: "table_ok b t \<Longrightarrow> table_ok b (fst (SetPrivileged key mode t))"
  unfolding SetPrivileged_def Let_def by (erule on_app_ok) (auto split: if_splits intro!: keeps_put keeps_drop)

lemma SetAPI_ok: "table_ok b t \<Longrightarrow> table_ok b (fst (SetAPI known may key v t))"
  unfolding SetAPI_def
  by (auto split: sum.split option.split if_splits intro!: on_app_ok keeps_put keeps_drop)

lemma SetNetworkMode_ok: "table_ok b t \<Longrightarrow> table_ok b (fst (SetNetworkMode key mode ds t))"
  unfolding SetNetworkMode_def network_commit_def
  by (auto split: sum.split intro!: on_app_ok) (auto simp: keeps_key_def aget_def)

lemma SetIsolated_ok: "table_ok b t \<Longrightarrow> table_ok b (fst (SetIsolated key on t))"
  unfolding SetIsolated_def isolate_commit_def
  by (auto split: option.split intro!: on_app_ok) (auto simp: keeps_key_def aget_def)

lemmas settings_ok = SetEnv_ok DeleteEnv_ok LinkEnv_ok UnlinkEnv_ok SetVolumes_ok DeviceAdd_ok DeviceDelete_ok SetPrivileged_ok
  SetAPI_ok SetNetworkMode_ok SetIsolated_ok

lemma table_ok_Suc: "table_ok b t \<Longrightarrow> table_ok (Suc b) t"
  by (auto simp: table_ok_def intro: work_ok_mono)

lemma app_step_ok:
  assumes "table_ok b t" and "op_ok p" and "b < 2 ^ 53"
  shows "table_ok (Suc b) (app_step p t)"
proof (cases p)
  case (Op_add path kind now)
  then show ?thesis using addLocked_ok [OF assms(1), of path kind now] assms(3) by (auto simp: app_step_def)
next
  case (Op_create name rest)
  then show ?thesis
    using new_app_ok [of b t name rest] assms by (simp add: app_step_def op_ok_def plain_fields_def table_ok_Suc table_ok_def [of b t])
next
  case (Op_set key us)
  then show ?thesis
    using setLocked_ok [of b t us key] assms table_ok_Suc
    by (simp add: app_step_def op_ok_def plain_fields_def table_ok_def)
next
  case (Op_stop signalled key)
  then show ?thesis using stop_app_ok [of b t signalled key] assms table_ok_Suc by (simp add: app_step_def table_ok_def)
next
  case (Op_delete signalled key)
  then show ?thesis using table_ok_Suc [OF delete_app_ok [OF assms(1)]] by (simp add: app_step_def)
next
  case Op_reload
  then show ?thesis using table_ok_Suc [OF loadAppsFromConfig_ok [OF assms(1)]] by (simp add: app_step_def)
next
  case (Op_ports in_use key payload)
  then show ?thesis
    using assms(1) by (auto simp: app_step_def table_ok_Suc SetPorts_ok split: option.split)
qed (simp_all add: app_step_def table_ok_Suc assms(1) settings_ok)

lemma app_steps_ok:
  "table_ok b t \<Longrightarrow> list_all op_ok ops \<Longrightarrow> b + length ops \<le> 2 ^ 53 \<Longrightarrow> table_ok (b + length ops) (fold app_step ops t)"
proof (induction ops arbitrary: b t)
  case (Cons p ops)
  then have "table_ok (Suc b) (app_step p t)" by (simp add: app_step_ok)
  then show ?case using Cons.IH [of "Suc b"] Cons.prems by simp
qed simp


definition no_apps :: app_table where
  "no_apps = \<lparr>at_heap = (\<lambda>a. Map.empty), at_next = 0, at_work = [], at_conf = []\<rparr>"

lemma no_apps_ok: "table_ok b no_apps"
  by (simp add: no_apps_def table_ok_def work_ok_def saved_def)

definition first_steps :: "app_op list" where
  "first_steps =
     [Op_add ''/srv/app.js'' ''script'' 1, Op_create ''db'' [(''type'', Str_any ''container'')], Op_link (Str_any ''app'') ''db'',
      Op_set (Str_any ''db'') [(''status'', Str_any ''running'')], Op_delete True (Str_any ''app''), Op_reload]"


section \<open>A new app is found by its name and its id\<close>

lemma put_fields_other: "list_all (\<lambda>u. fst u \<noteq> k) us \<Longrightarrow> aget (put_fields us m) k = aget m k"
  unfolding put_fields_def by (induction us arbitrary: m) auto

lemma new_app_heap:
  assumes "work_ok b t"
  shows "at_work (new_app name rest t) = at_work t @ [at_next t]"
    and "a \<in> set (at_work t) \<Longrightarrow> at_heap (new_app name rest t) a = at_heap t a"
    and "at_heap (new_app name rest t) (at_next t)
      = put_fields rest [''id'' \<mapsto> Float_any (getNextIDLocked t), ''name'' \<mapsto> Str_any name]"
  using assms by (auto simp: new_app_def saveAppsLocked_def Let_def work_ok_def list_all_iff)

lemma find_last: "(\<And>x. x \<in> set xs \<Longrightarrow> \<not> P x) \<Longrightarrow> P y \<Longrightarrow> List.find P (xs @ [y]) = Some y"
  by (induction xs) auto

lemma new_app_found:
  assumes w: "work_ok b t" and new: "getLocked (Str_any name) t = None" and r: "plain_fields rest"
  shows "getLocked (Str_any name) (new_app name rest t) = Some (at_next t)"
  unfolding getLocked_def new_app_heap(1) [OF w]
proof (rule find_last)
  show "\<not> matches_id (Str_any name) (at_heap (new_app name rest t) x)" if "x \<in> set (at_work t)" for x
    using that new by (simp add: new_app_heap(2) [OF w] getLocked_None)
  show "matches_id (Str_any name) (at_heap (new_app name rest t) (at_next t))"
    using put_fields_key [OF r [unfolded plain_fields_def]] by (intro matches_name) (simp add: new_app_heap(3) [OF w])
qed

text \<open>
  C24. Adding an app always ends, whatever names are taken, and what it adds is found again: the name it chooses
  belonged to no app before and leads to the new record afterwards, which holds the file and an id that no app had.
\<close>

theorem added_app_found:
  assumes "table_ok b t" and "b \<le> 2 ^ 53"
  shows "\<exists>t' name. addLocked path kind now t = Some t' \<and> getLocked (Str_any name) t = None
    \<and> getLocked (Str_any name) t' = Some (at_next t)
    \<and> aget (at_heap t' (at_next t)) ''name'' = Str_any name \<and> aget (at_heap t' (at_next t)) ''file'' = Str_any path
    \<and> list_all (\<lambda>a. app_id (at_heap t a) \<noteq> app_id (at_heap t' (at_next t))) (at_work t)"
proof -
  let ?rest = "[(''file'', Str_any path), (''type'', Str_any kind), (''active'', Bool_any True), (''created'', Float_any (float_of_int now))]"
  have w: "work_ok b t" using assms(1) by (simp add: table_ok_def)
  obtain name where n: "generateUniqueNameLocked (if kind = ''script'' then script_name (path_base path) else path_base path) t = Some name"
    "getLocked (Str_any name) t = None" using unique_name_found by blast
  have a: "addLocked path kind now t = Some (new_app name ?rest t)" by (simp only: addLocked_def Let_def n(1) option.map)
  have r: "plain_fields ?rest" by (simp add: plain_fields_def)
  note new = new_app_heap(3) [OF w, of name ?rest]
  have "aget (at_heap (new_app name ?rest t) (at_next t)) ''name'' = Str_any name"
    "aget (at_heap (new_app name ?rest t) (at_next t)) ''file'' = Str_any path"
    "app_id (at_heap (new_app name ?rest t) (at_next t)) = getNextIDLocked t"
    by (simp_all add: new put_fields_def app_id_def)
  moreover have "list_all (\<lambda>a. app_id (at_heap t a) \<noteq> getNextIDLocked t) (at_work t)"
    using getNextID_new [OF w assms(2)] by auto
  ultimately show ?thesis using a n(2) new_app_found [OF w n(2) r] by auto
qed

definition one_app :: app_table where
  "one_app = app_step (Op_add ''/srv/app.js'' ''script'' 1) no_apps"

lemma one_app_ok: "table_ok 1 one_app"
  using app_step_ok [OF no_apps_ok [of 0], of "Op_add ''/srv/app.js'' ''script'' 1"] by (simp add: one_app_def op_ok_def)

lemma added_app_found_witness:
  "\<exists>t' name. addLocked ''/home/app.py'' ''script'' 7 one_app = Some t' \<and> getLocked (Str_any name) one_app = None
    \<and> getLocked (Str_any name) t' = Some (at_next one_app)
    \<and> aget (at_heap t' (at_next one_app)) ''name'' = Str_any name
    \<and> aget (at_heap t' (at_next one_app)) ''file'' = Str_any ''/home/app.py''
    \<and> list_all (\<lambda>a. app_id (at_heap one_app a) \<noteq> app_id (at_heap t' (at_next one_app))) (at_work one_app)"
  by (rule added_app_found [OF one_app_ok]) simp

section \<open>A deleted app leaves nothing behind\<close>

text \<open>Two tables with the same working set, whose maps have the same names and ids.\<close>

definition same_apps :: "app_table \<Rightarrow> app_table \<Rightarrow> bool" where
  "same_apps t u \<longleftrightarrow> at_work u = at_work t
     \<and> list_all (\<lambda>a. app_name (at_heap u a) = app_name (at_heap t a) \<and> app_id (at_heap u a) = app_id (at_heap t a)) (at_work t)"

lemma same_apps_trans: "same_apps t u \<Longrightarrow> same_apps u v \<Longrightarrow> same_apps t v"
  by (auto simp: same_apps_def list_all_iff)

lemma same_apps_save: "work_ok b t \<Longrightarrow> same_apps t (saveAppsLocked t)"
  by (auto simp: same_apps_def saveAppsLocked_def Let_def work_ok_def list_all_iff)

lemma same_apps_change: "keeps_key f \<Longrightarrow> same_apps t (change_app a f t)"
  by (simp add: same_apps_def change_app_def keeps_keyD list_all_iff)

lemma same_apps_flag: "same_apps t (flag_deleted key t)"
  by (auto simp: flag_deleted_def split: option.split intro!: same_apps_change keeps_put) (simp add: same_apps_def list_all_iff)

lemma same_apps_stop:
  assumes "work_ok b t"
  shows "same_apps t (fst (stop_app signalled key t))"
proof -
  have "same_apps t t" by (simp add: same_apps_def list_all_iff)
  moreover have "same_apps t (fst (setLocked k stop_fields t))" for k
    using same_apps_trans [OF same_apps_change [OF keeps_put_fields [OF stop_fields_key]]
        same_apps_save [OF work_ok_change [OF assms keeps_put_fields [OF stop_fields_key]]]] \<open>same_apps t t\<close>
    by (simp add: setLocked_def split: option.split)
  ultimately show ?thesis by (simp add: stop_app_def Let_def split: option.split)
qed

definition links_of :: "amap \<Rightarrow> any list" where
  "links_of app = (case app_env app of None \<Rightarrow> [] | Some e \<Rightarrow> (case as_list (aget e ''linked'') of None \<Rightarrow> [] | Some ls \<Rightarrow> ls))"

lemma sweep_links_none: "list_all (\<lambda>l. \<not> any_eq l (Str_any name)) (links_of (sweep_links name app))"
  by (auto simp: sweep_links_def links_of_def app_env_def list_all_iff split: option.splits)

lemma remove_app_heap:
  assumes "work_ok b t" and "x \<in> set (at_work (remove_app name idNum t))"
  shows "at_heap (remove_app name idNum t) x = sweep_links name (at_heap t x)"
  using assms by (auto simp: remove_app_def saveAppsLocked_def sweepLinkedRefsLocked_def Let_def work_ok_def list_all_iff)

lemma remove_app_work:
  assumes "work_ok b t" and "a \<in> set (at_work t)"
  shows "at_work (remove_app (app_name (at_heap t a)) (app_id (at_heap t a)) t)
    = filter (\<lambda>x. app_name (at_heap t x) \<noteq> app_name (at_heap t a)) (at_work t)"
proof -
  have typed: "app_typed b (at_heap t x)" if "x \<in> set (at_work t)" for x
    using assms(1) that by (simp add: work_ok_def list_all_iff)
  have "any_eq (aget (at_heap t x) ''name'') (Str_any (app_name (at_heap t a)))
      \<or> any_eq (aget (at_heap t x) ''id'') (Float_any (app_id (at_heap t a)))
    \<longleftrightarrow> app_name (at_heap t x) = app_name (at_heap t a)" if x: "x \<in> set (at_work t)" for x
  proof -
    from typed [OF x] obtain n k where "aget (at_heap t x) ''name'' = Str_any n" "aget (at_heap t x) ''id'' = Float_any (Fin (of_nat k))"
      by (rule app_typedE)
    moreover have "app_id (at_heap t x) = app_id (at_heap t a) \<Longrightarrow> x = a"
      using assms x by (auto simp: work_ok_def distinct_map inj_on_def)
    ultimately show ?thesis by (auto simp: app_name_def app_id_def)
  qed
  then show ?thesis
    by (auto simp: remove_app_def saveAppsLocked_def sweepLinkedRefsLocked_def Let_def intro!: filter_cong)
qed

lemma deleted_app_gone_aux:
  assumes "table_ok b t" and "getLocked key t = Some a"
  shows "snd (delete_app signalled key t) \<and> table_ok b (fst (delete_app signalled key t))
    \<and> map (\<lambda>x. app_name (at_heap (fst (delete_app signalled key t)) x)) (at_work (fst (delete_app signalled key t)))
      = filter (\<lambda>n. n \<noteq> app_name (at_heap t a)) (map (\<lambda>x. app_name (at_heap t x)) (at_work t))
    \<and> list_all (\<lambda>x. list_all (\<lambda>l. \<not> any_eq l (Str_any (app_name (at_heap t a))))
        (links_of (at_heap (fst (delete_app signalled key t)) x))) (at_work (fst (delete_app signalled key t)))"
proof -
  let ?n = "app_name (at_heap t a)" and ?i = "app_id (at_heap t a)"
  define u where "u = fst (stop_app signalled (Float_any ?i) (flag_deleted key t))"
  have w: "work_ok b t" using assms(1) by (simp add: table_ok_def)
  have wu: "work_ok b u" unfolding u_def by (rule stop_app_ok [OF work_ok_flag [OF w]])
  have same: "same_apps t u"
    unfolding u_def by (rule same_apps_trans [OF same_apps_flag same_apps_stop [OF work_ok_flag [OF w]]])
  have a: "a \<in> set (at_work t)" using getLocked_Some [OF assms(2)] by simp
  have d: "fst (delete_app signalled key t) = remove_app ?n ?i u" "snd (delete_app signalled key t)"
    using assms(2) by (simp_all add: delete_app_def u_def app_name_def app_id_def Let_def)
  have keys: "app_name (at_heap u x) = app_name (at_heap t x)" "app_id (at_heap u x) = app_id (at_heap t x)"
    if "x \<in> set (at_work t)" for x
    using same that by (simp_all add: same_apps_def list_all_iff)
  have work: "at_work (remove_app ?n ?i u) = filter (\<lambda>x. app_name (at_heap t x) \<noteq> ?n) (at_work t)"
    using remove_app_work [OF wu, of a] same a keys by (auto simp: same_apps_def intro!: filter_cong)
  have heap: "at_heap (remove_app ?n ?i u) x = sweep_links ?n (at_heap u x)" if "x \<in> set (at_work (remove_app ?n ?i u))" for x
    by (rule remove_app_heap [OF wu that])
  have "app_name (at_heap (remove_app ?n ?i u) x) = app_name (at_heap t x)" if "x \<in> set (at_work (remove_app ?n ?i u))" for x
    using that keys by (simp add: heap keeps_keyD [OF keeps_sweep] work)
  then have "map (\<lambda>x. app_name (at_heap (remove_app ?n ?i u) x)) (at_work (remove_app ?n ?i u))
      = filter (\<lambda>n. n \<noteq> ?n) (map (\<lambda>x. app_name (at_heap t x)) (at_work t))"
    by (simp add: work filter_map comp_def)
  moreover have "list_all (\<lambda>x. list_all (\<lambda>l. \<not> any_eq l (Str_any ?n)) (links_of (at_heap (remove_app ?n ?i u) x)))
      (at_work (remove_app ?n ?i u))"
    unfolding list_all_iff [of _ "at_work (remove_app ?n ?i u)"] by (simp add: heap sweep_links_none)
  moreover have "table_ok b (remove_app ?n ?i u)" by (rule remove_app_ok [OF wu])
  ultimately show ?thesis using d by simp
qed

text \<open>
  C20. Deleting an app takes exactly this app out of the table, whatever state it is in and whether or not its process
  could be stopped: the names that remain are the others, in their order, no app is linked to the deleted name any
  more, and the configuration is saved with the same content.
\<close>

theorem deleted_app_gone:
  assumes "table_ok b t" and "getLocked key t = Some a"
  shows "snd (delete_app signalled key t) \<and> table_ok b (fst (delete_app signalled key t))
    \<and> map (\<lambda>x. app_name (at_heap (fst (delete_app signalled key t)) x)) (at_work (fst (delete_app signalled key t)))
      = filter (\<lambda>n. n \<noteq> app_name (at_heap t a)) (map (\<lambda>x. app_name (at_heap t x)) (at_work t))
    \<and> list_all (\<lambda>x. list_all (\<lambda>l. \<not> any_eq l (Str_any (app_name (at_heap t a))))
        (links_of (at_heap (fst (delete_app signalled key t)) x))) (at_work (fst (delete_app signalled key t)))"
  using assms by (rule deleted_app_gone_aux)

text \<open>Two apps, the first linked to the second; the second is deleted by its name.\<close>

definition two_apps :: app_table where
  "two_apps =
     \<lparr>at_heap = (\<lambda>a. if a \<in> {0, 2} then [''id'' \<mapsto> Float_any (Fin 0), ''name'' \<mapsto> Str_any ''web'', ''type'' \<mapsto> Str_any ''container'',
           ''env'' \<mapsto> Map_any (structured Map.empty [Str_any ''db''])]
         else [''id'' \<mapsto> Float_any (Fin 1), ''name'' \<mapsto> Str_any ''db'', ''type'' \<mapsto> Str_any ''container'', ''active'' \<mapsto> Bool_any True]),
      at_next = 4, at_work = [0, 1], at_conf = [2, 3]\<rparr>"

lemma two_apps_ok: "table_ok 2 two_apps"
  by (simp add: two_apps_def table_ok_def work_ok_def saved_def app_typed_def app_name_def app_id_def)

lemma two_apps_get: "getLocked (Str_any ''db'') two_apps = Some 1" "getLocked (Str_any ''web'') two_apps = Some 0"
  "getLocked Nil_any two_apps = Some 0"
  by (simp_all add: getLocked_def two_apps_def matches_id_def aget_def)

lemma deleted_app_gone_witness:
  "snd (delete_app True (Str_any ''db'') two_apps) \<and> table_ok 2 (fst (delete_app True (Str_any ''db'') two_apps))
    \<and> map (\<lambda>x. app_name (at_heap (fst (delete_app True (Str_any ''db'') two_apps)) x))
        (at_work (fst (delete_app True (Str_any ''db'') two_apps)))
      = filter (\<lambda>n. n \<noteq> app_name (at_heap two_apps 1)) (map (\<lambda>x. app_name (at_heap two_apps x)) (at_work two_apps))
    \<and> list_all (\<lambda>x. list_all (\<lambda>l. \<not> any_eq l (Str_any (app_name (at_heap two_apps 1))))
        (links_of (at_heap (fst (delete_app True (Str_any ''db'') two_apps)) x)))
        (at_work (fst (delete_app True (Str_any ''db'') two_apps)))"
  by (rule deleted_app_gone [OF two_apps_ok two_apps_get(1)])

section \<open>Where the code parts from its comments\<close>

text \<open>
  An app that has no \<open>file\<close> answers to the nil id: \<open>app.delete\<close> without an argument deletes the first container app.
\<close>

lemma missing_id_deletes:
  "app_name (at_heap two_apps 0) = ''web''"
  "''web'' \<notin> set (map (\<lambda>x. app_name (at_heap (fst (delete_app True Nil_any two_apps)) x))
      (at_work (fst (delete_app True Nil_any two_apps))))"
proof -
  show n: "app_name (at_heap two_apps 0) = ''web''" by (simp add: two_apps_def app_name_def)
  have "map (\<lambda>x. app_name (at_heap (fst (delete_app True Nil_any two_apps)) x)) (at_work (fst (delete_app True Nil_any two_apps)))
      = filter (\<lambda>n. n \<noteq> app_name (at_heap two_apps 0)) (map (\<lambda>x. app_name (at_heap two_apps x)) (at_work two_apps))"
    using deleted_app_gone_aux [OF two_apps_ok two_apps_get(3)] by simp
  then show "''web'' \<notin> set (map (\<lambda>x. app_name (at_heap (fst (delete_app True Nil_any two_apps)) x))
      (at_work (fst (delete_app True Nil_any two_apps))))" by (simp add: n)
qed

text \<open>The flag of a deletion does not outlive the save of its own \<open>Stop\<close> and the reload of the next \<open>Check\<close>.\<close>

lemma deletion_flag_lost:
  "appDeleted (Str_any ''db'') (flag_deleted (Str_any ''db'') two_apps)"
  "\<not> appDeleted (Str_any ''db'')
      (loadAppsFromConfig (fst (stop_app True (Str_any ''db'') (flag_deleted (Str_any ''db'') two_apps))))"
  by (simp_all add: appDeleted_def flag_deleted_def two_apps_get, simp_all add: two_apps_def change_app_def getLocked_def matches_id_def
      aget_def stop_app_def setLocked_def saveAppsLocked_def loadAppsFromConfig_def normalize_ports_def strip_def ephemeralFields_def
      Let_def put_fields_def stop_fields_def upt_rec)

text \<open>After a reload the flag is set in the very map that the configuration holds.\<close>

lemma deletion_flag_in_config:
  "map (\<lambda>a. aget (at_heap (flag_deleted (Str_any ''db'') (loadAppsFromConfig two_apps)) a) ''_deleted'')
      (at_conf (flag_deleted (Str_any ''db'') (loadAppsFromConfig two_apps))) = [Nil_any, Bool_any True]"
  by (simp add: flag_deleted_def loadAppsFromConfig_def two_apps_def change_app_def getLocked_def matches_id_def aget_def normalize_ports_def)

end
