(* ===== verification/AppPorts.thy ===== *)
theory AppPorts
  imports AppSettings
begin

text \<open>
  What \<open>SetPorts\<close> stores (\<open>internal/appmgr/ops.go\<close>, \<open>helpers.go\<close>): the bounds of the port numbers, and which host ports
  are different.
\<close>

section \<open>Bounds\<close>

definition port_number :: "float64 \<Rightarrow> bool" where
  "port_number f \<longleftrightarrow> (case f of Fin r \<Rightarrow> 1 \<le> r \<and> r \<le> 65535 \<and> r = of_int \<lfloor>r\<rfloor> | _ \<Rightarrow> False)"

definition host_ok :: "any \<Rightarrow> bool" where
  "host_ok host \<longleftrightarrow> (case host of Str_any s \<Rightarrow> s = Proxy | Float_any f \<Rightarrow> port_number f | _ \<Rightarrow> False)"

definition stored_entry_ok :: "amap \<Rightarrow> bool" where
  "stored_entry_ok e \<longleftrightarrow> host_ok (aget e ''host'') \<and> (case aget e ''container'' of Float_any f \<Rightarrow> port_number f | _ \<Rightarrow> False)
     \<and> (isPublic (Some e) \<longrightarrow> (case aget e ''host'' of Float_any f \<Rightarrow> True | _ \<Rightarrow> False))"

lemma port_key_number: "port_key f \<Longrightarrow> port_number f"
proof (cases f)
  case (Fin r)
  assume "port_key f"
  then have r: "r = of_int (float_to_int64 (Fin r))" "1 \<le> r" "r \<le> 65535"
    by (simp_all only: port_key_def isInt_def Fin float64.case)
  have "r = of_int \<lfloor>r\<rfloor>" by (subst (1 2) r(1)) (simp only: floor_of_int)
  then show ?thesis using r(2,3) by (simp add: port_number_def Fin)
qed (simp_all add: port_key_def)

lemma port_entry_Inr:
  assumes "port_entry raw = Inr e"
  shows "port_number (number_of (aget e ''container''))"
    and "any_eq (aget e ''host'') (Str_any ''auto'') \<or> any_eq (aget e ''host'') (Str_any Proxy)
      \<or> port_number (number_of (aget e ''host''))"
    and "\<not> any_eq (aget e ''host'') Nil_any"
  using assms
  by (auto simp: port_entry_def Let_def number_of_def split: option.splits if_splits intro: port_key_number)

lemma any_eq_Str_iff [simp]: "any_eq v (Str_any s) \<longleftrightarrow> v = Str_any s"
  by (cases v) auto

lemma available_from_Some:
  "available_from n port assigned in_use = Some p \<Longrightarrow>
    port \<le> p \<and> p < port + n \<and> float_of_int (int p) \<notin> set assigned \<and> \<not> in_use p"
proof (induction n arbitrary: port)
  case (Suc n)
  show ?case
  proof (cases "float_of_int (int port) \<in> set assigned \<or> in_use port")
    case True
    then have "available_from n (Suc port) assigned in_use = Some p" using Suc.prems by simp
    from Suc.IH [OF this] show ?thesis by linarith
  next
    case False
    then show ?thesis using Suc.prems by simp
  qed
qed simp

lemma float_of_port: "p < 65536 \<Longrightarrow> float_of_int (int p) = Fin (of_nat p)"
  using representable_of_int [of "int p"] by (simp add: float_of_int_def representable_def)

lemma findAvailablePort_Some:
  "findAvailablePort 30000 assigned in_use = Some p \<Longrightarrow>
    port_number (float_of_int (int p)) \<and> float_of_int (int p) \<notin> set assigned \<and> \<not> in_use p"
  unfolding findAvailablePort_def
  by (drule available_from_Some) (auto simp: float_of_port port_number_def)

lemma prepared_host_ok:
  assumes "prepared_host in_use assigned hv = Some host"
    and "hv = Str_any ''auto'' \<or> hv = Str_any Proxy \<or> port_number (number_of hv)" and "\<not> any_eq hv Nil_any"
  shows "host_ok host"
  using assms
  by (auto simp: prepared_host_def Let_def host_ok_def Proxy_def split: if_splits option.splits dest: findAvailablePort_Some)

lemma prepared_entry_get [simp]:
  "aget (prepared_entry host port) ''host'' = host"
  "aget (prepared_entry host port) ''container'' = Float_any (number_of (aget port ''container''))"
  by (simp_all add: prepared_entry_def Let_def)

lemma prepared_entry_ok:
  assumes "host_ok host" and "port_number (number_of (aget port ''container''))"
  shows "stored_entry_ok (prepared_entry host port)"
proof -
  have "\<not> isPublic (Some (prepared_entry host port))" if "host = Str_any Proxy"
    using that by (simp add: isPublic_def isPublished_def isProxy_def)
  then show ?thesis using assms by (auto simp: stored_entry_ok_def host_ok_def split: any.splits)
qed

lemma port_entries_Cons: "port_entries (raw # raws) = Inr es \<Longrightarrow>
    \<exists>e es'. port_entry raw = Inr e \<and> port_entries raws = Inr es' \<and> es = e # es'"
  by (auto split: sum.splits)

lemma preparePorts_Cons:
  "preparePorts in_use assigned (port # ports) = Some ps \<Longrightarrow>
    \<exists>host ps'. prepared_host in_use assigned (aget port ''host'') = Some host \<and> ps = prepared_entry host port # ps'
      \<and> preparePorts in_use (case host of Float_any f \<Rightarrow> f # assigned | _ \<Rightarrow> assigned) ports = Some ps'"
  by (auto split: option.splits)

lemma prepared_all_ok:
  "port_entries raws = Inr es \<Longrightarrow> preparePorts in_use assigned es = Some ps \<Longrightarrow> list_all stored_entry_ok ps"
proof (induction raws arbitrary: es assigned ps)
  case (Cons raw raws)
  from port_entries_Cons [OF Cons.prems(1)] obtain e es' where
    e: "port_entry raw = Inr e" "port_entries raws = Inr es'" "es = e # es'" by blast
  from preparePorts_Cons [OF Cons.prems(2) [unfolded e(3)]] obtain host ps' where
    p: "prepared_host in_use assigned (aget e ''host'') = Some host" "ps = prepared_entry host e # ps'"
      "preparePorts in_use (case host of Float_any f \<Rightarrow> f # assigned | _ \<Rightarrow> assigned) es' = Some ps'" by blast
  have "host_ok host" using prepared_host_ok [OF p(1)] port_entry_Inr [OF e(1)] by simp
  then show ?case using Cons.IH [OF e(2) p(3)] port_entry_Inr(1) [OF e(1)] by (simp add: p(2) prepared_entry_ok)
qed simp

section \<open>Different host ports\<close>

definition host_numbers :: "amap list \<Rightarrow> float64 list" where
  "host_numbers ps = List.map_filter (\<lambda>p. case aget p ''host'' of Float_any f \<Rightarrow> Some f | _ \<Rightarrow> None) ps"

definition proxied :: "amap \<Rightarrow> bool" where
  "proxied p \<longleftrightarrow> any_eq (aget p ''host'') (Str_any Proxy)"

definition automatic :: "amap \<Rightarrow> bool" where
  "automatic p \<longleftrightarrow> any_eq (aget p ''host'') (Str_any ''auto'')"

text \<open>No entry with a number comes after one that leaves the choice to the server.\<close>

fun numbers_first :: "amap list \<Rightarrow> bool" where
  "numbers_first [] = True"
| "numbers_first (e # es) = ((automatic e \<longrightarrow> list_all (\<lambda>e. proxied e \<or> automatic e) es) \<and> numbers_first es)"

lemma host_numbers_Cons:
  "host_numbers (p # ps) = (case aget p ''host'' of Float_any f \<Rightarrow> f # host_numbers ps | _ \<Rightarrow> host_numbers ps)"
  by (simp add: host_numbers_def List.map_filter_simps split: any.split)

lemma prepared_distinct:
  "port_collision seen n es = None \<Longrightarrow> preparePorts in_use assigned es = Some ps \<Longrightarrow> numbers_first es
    \<Longrightarrow> list_all (\<lambda>e. \<not> any_eq (aget e ''host'') Nil_any) es
    \<Longrightarrow> set assigned \<subseteq> set seen \<or> list_all (\<lambda>e. proxied e \<or> automatic e) es
    \<Longrightarrow> distinct (host_numbers ps) \<and> set (host_numbers ps) \<inter> set assigned = {}"
proof (induction es arbitrary: seen n assigned ps)
  case (Cons e es)
  from preparePorts_Cons [OF Cons.prems(2)] obtain host ps' where
    p: "prepared_host in_use assigned (aget e ''host'') = Some host" "ps = prepared_entry host e # ps'"
      "preparePorts in_use (case host of Float_any f \<Rightarrow> f # assigned | _ \<Rightarrow> assigned) es = Some ps'" by blast
  consider (prox) "proxied e" | (auto) "automatic e" "\<not> proxied e" | (num) "\<not> proxied e" "\<not> automatic e" by blast
  then show ?case
  proof cases
    case prox
    then have h: "host = Str_any Proxy" using p(1) by (simp add: prepared_host_def Let_def proxied_def Proxy_def)
    obtain m where "port_collision seen m es = None"
      using Cons.prems(1) prox by (auto simp: proxied_def Let_def split: if_splits)
    from Cons.IH [OF this] p(3) h Cons.prems show ?thesis by (auto simp: p(2) host_numbers_Cons)
  next
    case auto
    then obtain q where q: "findAvailablePort 30000 assigned in_use = Some q" "host = Float_any (float_of_int (int q))"
      using p(1) by (auto simp: prepared_host_def Let_def automatic_def)
    have rest: "list_all (\<lambda>e. proxied e \<or> automatic e) es" using Cons.prems(3) auto(1) by simp
    have c: "port_collision seen n es = None"
      using Cons.prems(1) auto by (auto simp: proxied_def automatic_def Let_def split: if_splits)
    have "preparePorts in_use (float_of_int (int q) # assigned) es = Some ps'" using p(3) q(2) by simp
    from Cons.IH [OF c this] rest Cons.prems(3,4) have
      "distinct (host_numbers ps') \<and> set (host_numbers ps') \<inter> set (float_of_int (int q) # assigned) = {}" by simp
    then show ?thesis using findAvailablePort_Some [OF q(1)] q(2) by (auto simp: p(2) host_numbers_Cons)
  next
    case num
    then have h: "host = Float_any (number_of (aget e ''host''))"
      using p(1) Cons.prems(4) by (simp add: prepared_host_def Let_def proxied_def automatic_def)
    have fresh: "number_of (aget e ''host'') \<notin> set seen" and c: "port_collision (number_of (aget e ''host'') # seen) n es = None"
      using Cons.prems(1) num by (auto simp: proxied_def automatic_def Let_def split: if_splits)
    have sub: "set assigned \<subseteq> set seen" using Cons.prems(5) num by simp
    have "preparePorts in_use (number_of (aget e ''host'') # assigned) es = Some ps'" using p(3) h by simp
    from Cons.IH [OF c this] sub Cons.prems(3,4) have
      "distinct (host_numbers ps') \<and> set (host_numbers ps') \<inter> set (number_of (aget e ''host'') # assigned) = {}" by auto
    then show ?thesis using fresh sub h by (auto simp: p(2) host_numbers_Cons)
  qed
qed (simp add: host_numbers_def List.map_filter_simps)

lemma prepared_one_proxy:
  "port_collision seen n es = None \<Longrightarrow> preparePorts in_use assigned es = Some ps
    \<Longrightarrow> list_all (\<lambda>e. \<not> any_eq (aget e ''host'') Nil_any) es \<Longrightarrow> n + length (filter proxied ps) \<le> max 1 n"
proof (induction es arbitrary: seen n assigned ps)
  case (Cons e es)
  from preparePorts_Cons [OF Cons.prems(2)] obtain host ps' where
    p: "prepared_host in_use assigned (aget e ''host'') = Some host" "ps = prepared_entry host e # ps'"
      "preparePorts in_use (case host of Float_any f \<Rightarrow> f # assigned | _ \<Rightarrow> assigned) es = Some ps'" by blast
  show ?case
  proof (cases "proxied e")
    case True
    then have "n = 0" "port_collision seen (Suc n) es = None"
      using Cons.prems(1) by (auto simp: proxied_def Let_def split: if_splits)
    with Cons.IH [OF this(2) p(3)] Cons.prems(3) show ?thesis by (simp add: p(2))
  next
    case False
    then have h: "\<not> proxied (prepared_entry host e)"
      using p(1) Cons.prems(3) by (auto simp: prepared_host_def Let_def proxied_def split: if_splits option.splits)
    obtain s where "port_collision s n es = None"
      using Cons.prems(1) False by (auto simp: proxied_def Let_def split: if_splits)
    with Cons.IH [OF this p(3)] Cons.prems(3) h show ?thesis by (simp add: p(2))
  qed
qed simp

lemma port_entries_hosts: "port_entries raws = Inr es \<Longrightarrow> list_all (\<lambda>e. \<not> any_eq (aget e ''host'') Nil_any) es"
proof (induction raws arbitrary: es)
  case (Cons raw raws)
  then show ?case using port_entries_Cons [OF Cons.prems] port_entry_Inr(3) by fastforce
qed simp

text \<open>
  C22. Ports of an app: what \<open>SetPorts\<close> stores after it has accepted a payload are the prepared entries, each with a
  container port and, unless the proxy routes it, a host port between 1 and 65535; at most one entry belongs to the
  proxy, and only an entry with a host port is public. If no explicit host port comes after an automatic one, all host
  ports are different.
\<close>

theorem stored_ports_ok:
  assumes "SetPorts in_use key (Some raws) t = Some (t', None)" and "getLocked key t = Some a"
  shows "\<exists>es ps. port_entries raws = Inr es \<and> preparePorts in_use [] es = Some ps
    \<and> t' = saveAppsLocked (change_app a (\<lambda>m. m(''ports'' \<mapsto> List_any (map Map_any ps))) t)
    \<and> list_all stored_entry_ok ps \<and> length (filter proxied ps) \<le> 1 \<and> (numbers_first es \<longrightarrow> distinct (host_numbers ps))"
proof -
  from assms(1) obtain es ps where
    es: "port_entries raws = Inr es" "findPortCollision es = None" "preparePorts in_use [] es = Some ps"
    and t': "t' = fst (on_app key (\<lambda>app. (Some (\<lambda>m. m(''ports'' \<mapsto> List_any (map Map_any ps))), None)) t)"
    by (auto simp: SetPorts_def assms(2) split: sum.splits option.splits)
  note hosts = port_entries_hosts [OF es(1)]
  note c = es(2) [unfolded findPortCollision_def]
  have "length (filter proxied ps) \<le> 1" using prepared_one_proxy [OF c es(3) hosts] by simp
  moreover have "numbers_first es \<Longrightarrow> distinct (host_numbers ps)" using prepared_distinct [OF c es(3) _ hosts] by simp
  ultimately show ?thesis
    using es t' prepared_all_ok [OF es(1,3)] assms(2) by (auto simp: on_app_def)
qed

definition payload_entry :: "any \<Rightarrow> int \<Rightarrow> any" where
  "payload_entry host container = Map_any [''host'' \<mapsto> host, ''container'' \<mapsto> Int_any container]"

definition web_ports :: "any list" where
  "web_ports = [payload_entry (Int_any 8080) 80, payload_entry (Str_any ''proxy'') 3000]"

lemma float_of_small: "\<bar>i\<bar> \<le> 2 ^ 53 \<Longrightarrow> float_of_int i = Fin (of_int i)"
  using representable_of_int [of i] by (simp add: float_of_int_def representable_def)

lemma port_key_of: "1 \<le> i \<Longrightarrow> i \<le> 65535 \<Longrightarrow> port_key (Fin (of_int i))"
  by (simp add: port_key_def isInt_def)

lemma port_entry_int:
  assumes "1 \<le> c" and "c \<le> 65535" and "host = Str_any Proxy \<or> host = Str_any ''auto'' \<or> (\<exists>h. host = Int_any h \<and> 1 \<le> h \<and> h \<le> 65535)"
  shows "port_entry (payload_entry host c) = Inr [''host'' \<mapsto> host, ''container'' \<mapsto> Int_any c]"
  using assms by (auto simp: port_entry_def payload_entry_def aget_def Let_def float_of_small port_key_of Proxy_def)

lemma web_ports_set:
  "\<exists>t'. SetPorts (\<lambda>p. False) (Str_any ''db'') (Some web_ports) two_apps = Some (t', None)"
proof -
  have e: "port_entries web_ports = Inr [[''host'' \<mapsto> Int_any 8080, ''container'' \<mapsto> Int_any 80],
      [''host'' \<mapsto> Str_any Proxy, ''container'' \<mapsto> Int_any 3000]]"
    by (simp add: web_ports_def port_entry_int Proxy_def)
  show ?thesis
    by (simp add: SetPorts_def two_apps_get e findPortCollision_def aget_def Proxy_def prepared_host_def on_app_def)
qed

lemma stored_ports_ok_witness:
  "\<exists>t' ps. SetPorts (\<lambda>p. False) (Str_any ''db'') (Some web_ports) two_apps = Some (t', None)
    \<and> t' = saveAppsLocked (change_app 1 (\<lambda>m. m(''ports'' \<mapsto> List_any (map Map_any ps))) two_apps)
    \<and> list_all stored_entry_ok ps \<and> length (filter proxied ps) \<le> 1"
proof -
  obtain t' where t': "SetPorts (\<lambda>p. False) (Str_any ''db'') (Some web_ports) two_apps = Some (t', None)"
    using web_ports_set by blast
  from stored_ports_ok [OF t' two_apps_get(1)] show ?thesis using t' by blast
qed

text \<open>
  An explicit host port after an automatic one can be the very port that the search has just found: the comment of
  \<open>findPortCollision\<close>, that \<open>auto\<close> resolves to a distinct free port per entry, does not hold.
\<close>

lemma auto_takes_explicit:
  "findPortCollision [[''host'' \<mapsto> Str_any ''auto'', ''container'' \<mapsto> Int_any 80], [''host'' \<mapsto> Int_any 30000, ''container'' \<mapsto> Int_any 81]] = None"
  "map_option host_numbers (preparePorts (\<lambda>p. False) []
     [[''host'' \<mapsto> Str_any ''auto'', ''container'' \<mapsto> Int_any 80], [''host'' \<mapsto> Int_any 30000, ''container'' \<mapsto> Int_any 81]])
   = Some [Fin 30000, Fin 30000]"
proof -
  have f: "findAvailablePort 30000 [] (\<lambda>p. False) = Some 30000"
    using available_from.simps(2) [of 35535 30000 "[]" "\<lambda>p. False"] by (simp add: findAvailablePort_def)
  show "findPortCollision [[''host'' \<mapsto> Str_any ''auto'', ''container'' \<mapsto> Int_any 80], [''host'' \<mapsto> Int_any 30000, ''container'' \<mapsto> Int_any 81]] = None"
    by (simp add: findPortCollision_def aget_def Proxy_def)
  show "map_option host_numbers (preparePorts (\<lambda>p. False) []
     [[''host'' \<mapsto> Str_any ''auto'', ''container'' \<mapsto> Int_any 80], [''host'' \<mapsto> Int_any 30000, ''container'' \<mapsto> Int_any 81]])
   = Some [Fin 30000, Fin 30000]"
    by (simp add: prepared_host_def Proxy_def f host_numbers_Cons number_of_def float_of_small)
      (simp add: host_numbers_def List.map_filter_simps)
qed

text \<open>With every port taken the search for a free one has no end.\<close>

lemma no_free_port: "(\<And>p. p < 65536 \<Longrightarrow> in_use p) \<Longrightarrow> findAvailablePort 30000 assigned in_use = None"
proof -
  assume used: "\<And>p. p < 65536 \<Longrightarrow> in_use p"
  have "findAvailablePort 30000 assigned in_use \<noteq> Some p" for p
    using used available_from_Some [of "65536 - 30000" 30000 assigned in_use p] by (auto simp: findAvailablePort_def)
  then show ?thesis by (cases "findAvailablePort 30000 assigned in_use") auto
qed

end
