(* ===== verification/Domains.thy ===== *)
theory Domains
  imports AppSettings "HOL-Library.AList" "HOL-Library.List_Lexorder" "HOL-Library.Char_ord"
begin

text \<open>
  The domains of the apps (\<open>internal/domains/domain.go\<close>, \<open>helpers.go\<close>): the table \<open>config.domains\<close> as an association
  list from names to records, and the calls that an operation makes to the DNS service, the certificate manager, the
  proxy, the mail server and the file system, in their order. The handlers read under one lock and write under a later
  one; the functions are the executions in which no other handler comes between.
\<close>

section \<open>Calls and answers\<close>

datatype domain_call =
    Dns_record amap
  | Dns_delete amap
  | Renew string
  | Sync_proxy
  | Clear_ssl_cache string
  | Remove_file string

datatype domain_answer =
    Domain_required
  | Bad_domain
  | App_required
  | Already_registered string
  | No_such_app
  | Host_networked string
  | Subdomain_exists string string
  | Subdomain_added string string
  | Domain_added string
  | Domain_deleted string
  | Subdomain_removed string string
  | Domain_unknown string

section \<open>Helpers\<close>

fun truthy :: "any \<Rightarrow> bool" where
  "truthy Nil_any = False"
| "truthy (Bool_any b) = b"
| "truthy (Str_any s) = (s \<noteq> [])"
| "truthy (Float_any f) = (f \<noteq> Fin 0)"
| "truthy _ = True"

definition listContains :: "any \<Rightarrow> string \<Rightarrow> bool" where
  "listContains v s = (case as_list v of None \<Rightarrow> False | Some vs \<Rightarrow> list_ex (\<lambda>x. any_eq x (Str_any s)) vs)"

definition digits3 :: "string \<Rightarrow> bool" where
  "digits3 s \<longleftrightarrow> 1 \<le> length s \<and> length s \<le> 3 \<and> list_all is_digit_char s"

text \<open>\<open>^\d{1,3}\.\d{1,3}\.\d{1,3}\.\d{1,3}$\<close>\<close>

definition ipv4Re :: "string \<Rightarrow> bool" where
  "ipv4Re s \<longleftrightarrow> (let ps = split_byte CHR ''.'' s in length ps = 4 \<and> list_all digits3 ps)"

definition validate :: "any \<Rightarrow> domain_answer + string" where
  "validate raw =
     (if as_str raw = [] then Inl Domain_required
      else
        let d = fold (\<lambda>prefix d. trim_prefix d prefix) [''http://'', ''https://'', ''ftp://''] (to_lower (trim_space (as_str raw)))
        in if length d < 3 \<or> (CHR ''.'' \<notin> set d \<and> d \<noteq> ''localhost'') \<or> CHR ''/'' \<in> set d \<or> backslash \<in> set d
              \<or> contains_str d ''..''
           then Inl Bad_domain else Inr d)"

definition keysByLengthDesc :: "domain_map \<Rightarrow> string list" where
  "keysByLengthDesc ds = sort_key (\<lambda>k. - int (length k)) (sort (map fst ds))"

definition is_sub :: "string \<Rightarrow> string \<Rightarrow> bool" where
  "is_sub d parent \<longleftrightarrow> has_suffix d (''.'' @ parent) \<and> d \<noteq> parent"

definition sub_of :: "string \<Rightarrow> string \<Rightarrow> string" where
  "sub_of d parent = take (length d - length parent - 1) d"

definition record_of :: "domain_map \<Rightarrow> string \<Rightarrow> amap option" where
  "record_of ds d = (case map_of ds d of None \<Rightarrow> None | Some r \<Rightarrow> as_map r)"

section \<open>Adding a domain\<close>

text \<open>\<open>apps\<close> is the list of the configuration.\<close>

definition find_app :: "any \<Rightarrow> amap list \<Rightarrow> amap option" where
  "find_app appID apps = List.find (\<lambda>app. any_eq (aget app ''id'') appID \<or> any_eq (aget app ''name'') appID) apps"

definition find_parent :: "string \<Rightarrow> string \<Rightarrow> domain_map \<Rightarrow> string option" where
  "find_parent d target ds =
     List.find
       (\<lambda>parent. (case record_of ds parent of
           None \<Rightarrow> False
         | Some r \<Rightarrow> any_eq (aget r ''appId'') (Str_any target) \<and> is_sub d parent))
       (keysByLengthDesc ds)"

definition dns_rec :: "string \<Rightarrow> string \<Rightarrow> amap" where
  "dns_rec name kind = [''name'' \<mapsto> Str_any name, ''type'' \<mapsto> Str_any kind]"

definition with_value :: "amap \<Rightarrow> string \<Rightarrow> amap" where
  "with_value r v = r(''value'' \<mapsto> Str_any v)"

definition spf :: "string \<Rightarrow> (bool \<times> string) list \<Rightarrow> string" where
  "spf main_ip v6 =
     ''v=spf1 a mx'' @ (if main_ip \<noteq> [] \<and> main_ip \<noteq> ''127.0.0.1'' then '' ip4:'' @ main_ip else [])
       @ (case List.find fst v6 of None \<Rightarrow> [] | Some e \<Rightarrow> '' ip6:'' @ snd e) @ '' ~all''"

definition isLocalOrIP :: "string \<Rightarrow> bool" where
  "isLocalOrIP d \<longleftrightarrow> d = ''localhost'' \<or> ipv4Re d"

definition isWildcard :: "string \<Rightarrow> bool" where
  "isWildcard d \<longleftrightarrow> has_prefix d ''*.''"

definition add_records :: "string \<Rightarrow> string \<Rightarrow> (bool \<times> string) list \<Rightarrow> amap list" where
  "add_records d main_ip v6 =
     (if isWildcard d then [dns_rec d ''A'', dns_rec d ''AAAA'']
      else
        [dns_rec d ''A'', dns_rec d ''AAAA'', with_value (dns_rec (''www.'' @ d) ''CNAME'') d, dns_rec (''mail.'' @ d) ''A'',
         with_value (dns_rec d ''MX'') (''mail.'' @ d),
         with_value (dns_rec (''_dmarc.'' @ d) ''TXT'') (''v=DMARC1; p=reject; rua=mailto:postmaster@'' @ d),
         with_value (dns_rec d ''TXT'') (spf main_ip v6)])"

definition new_record :: "string \<Rightarrow> string \<Rightarrow> int \<Rightarrow> amap" where
  "new_record d target now =
     (let r = [''appId'' \<mapsto> Str_any target, ''created'' \<mapsto> Float_any (float_of_int now),
               ''subdomain'' \<mapsto> List_any (if \<not> isLocalOrIP d \<and> \<not> isWildcard d then [Str_any ''www'', Str_any ''mail''] else [])]
      in if isLocalOrIP d then r else r(''cert'' \<mapsto> Map_any Map.empty))"

definition add_main :: "string \<Rightarrow> string \<Rightarrow> string \<Rightarrow> (bool \<times> string) list \<Rightarrow> int \<Rightarrow> domain_map
    \<Rightarrow> domain_map \<times> domain_call list \<times> domain_answer" where
  "add_main d target main_ip v6 now ds =
     (AList.update d (Map_any (new_record d target now)) ds,
      (if isLocalOrIP d then [] else map Dns_record (add_records d main_ip v6) @ [Renew d]) @ [Sync_proxy],
      Domain_added d)"

definition add_sub :: "string \<Rightarrow> string \<Rightarrow> domain_map \<Rightarrow> domain_map \<times> domain_call list \<times> domain_answer" where
  "add_sub d parent ds =
     (let s = sub_of d parent
      in case record_of ds parent of
           None \<Rightarrow> (ds, [], Subdomain_added s parent)
         | Some r \<Rightarrow>
             if listContains (aget r ''subdomain'') s then (ds, [], Subdomain_exists s parent)
             else
               let subs = (case as_list (aget r ''subdomain'') of None \<Rightarrow> [] | Some vs \<Rightarrow> vs)
               in (AList.update parent (Map_any (r(''subdomain'' \<mapsto> List_any (subs @ [Str_any s])))) ds,
                   [Dns_record (with_value (dns_rec d ''CNAME'') parent), Renew parent, Sync_proxy], Subdomain_added s parent))"

definition Add :: "any \<Rightarrow> any \<Rightarrow> amap list \<Rightarrow> string \<Rightarrow> (bool \<times> string) list \<Rightarrow> int \<Rightarrow> domain_map
    \<Rightarrow> domain_map \<times> domain_call list \<times> domain_answer" where
  "Add domainArg appID apps main_ip v6 now ds =
     (case validate domainArg of
        Inl e \<Rightarrow> (ds, [], e)
      | Inr d0 \<Rightarrow>
          let d = trim_prefix d0 ''www.''
          in if \<not> truthy appID then (ds, [], App_required)
             else if d \<in> set (map fst ds) then (ds, [], Already_registered d)
             else (case find_app appID apps of
                     None \<Rightarrow> (ds, [], No_such_app)
                   | Some app \<Rightarrow>
                       let target = as_str (aget app ''name'')
                       in if IsHost (aget app ''networkMode'') then (ds, [], Host_networked target)
                          else (case find_parent d target ds of
                                  Some parent \<Rightarrow> add_sub d parent ds
                                | None \<Rightarrow> add_main d target main_ip v6 now ds)))"

section \<open>Deleting\<close>

definition dkim_selector :: "amap option \<Rightarrow> string" where
  "dkim_selector r =
     (let cert = (case r of None \<Rightarrow> None | Some r \<Rightarrow> as_map (aget r ''cert''));
          dkim = (case cert of None \<Rightarrow> None | Some c \<Rightarrow> as_map (aget c ''dkim''));
          s = (case dkim of None \<Rightarrow> [] | Some d \<Rightarrow> as_str (aget d ''selector''))
      in if s = [] then ''default'' else s)"

definition delete_records :: "string \<Rightarrow> string \<Rightarrow> amap list" where
  "delete_records d selector =
     (if isWildcard d then [dns_rec d ''A'', dns_rec d ''AAAA'']
      else
        [dns_rec d ''A'', dns_rec d ''AAAA'', dns_rec (''www.'' @ d) ''CNAME'', dns_rec (''mail.'' @ d) ''A'', dns_rec d ''MX'',
         dns_rec d ''TXT'', dns_rec (''_dmarc.'' @ d) ''TXT'', dns_rec (selector @ ''._domainkey.'' @ d) ''TXT''])"

definition dkim_file :: "string \<Rightarrow> string \<Rightarrow> string \<Rightarrow> string" where
  "dkim_file baseDir d ext = path_Join [path_Join [baseDir, ''cert'', ''dkim''], d @ ext]"

definition delete_main :: "string \<Rightarrow> string \<Rightarrow> bool \<Rightarrow> domain_map \<Rightarrow> domain_map \<times> domain_call list \<times> domain_answer" where
  "delete_main baseDir d skipSync ds =
     (AList.delete d ds,
      (if isLocalOrIP d then []
       else map Dns_delete (delete_records d (dkim_selector (record_of ds d)))
         @ [Remove_file (dkim_file baseDir d ''.key''), Remove_file (dkim_file baseDir d ''.pub''), Clear_ssl_cache d])
      @ (if skipSync then [] else [Sync_proxy]),
      Domain_deleted d)"

definition find_sub_parent :: "string \<Rightarrow> domain_map \<Rightarrow> string option" where
  "find_sub_parent d ds =
     List.find
       (\<lambda>parent. is_sub d parent \<and> (case record_of ds parent of
           None \<Rightarrow> False
         | Some r \<Rightarrow> listContains (aget r ''subdomain'') (sub_of d parent)))
       (keysByLengthDesc ds)"

definition delete_sub :: "string \<Rightarrow> string \<Rightarrow> bool \<Rightarrow> domain_map \<Rightarrow> domain_map \<times> domain_call list \<times> domain_answer" where
  "delete_sub d parent skipSync ds =
     (let s = sub_of d parent;
          ds' = (case record_of ds parent of
                   None \<Rightarrow> ds
                 | Some r \<Rightarrow>
                     let subs = (case as_list (aget r ''subdomain'') of None \<Rightarrow> [] | Some vs \<Rightarrow> vs)
                     in AList.update parent
                          (Map_any (r(''subdomain'' \<mapsto> List_any (filter (\<lambda>x. \<not> any_eq x (Str_any s)) subs)))) ds)
      in (ds', [Dns_delete (dns_rec d ''CNAME''), Renew parent] @ (if skipSync then [] else [Sync_proxy]), Subdomain_removed s parent))"

definition Delete :: "string \<Rightarrow> any \<Rightarrow> bool \<Rightarrow> domain_map \<Rightarrow> domain_map \<times> domain_call list \<times> domain_answer" where
  "Delete baseDir domainArg skipSync ds =
     (case validate domainArg of
        Inl e \<Rightarrow> (ds, [], e)
      | Inr d \<Rightarrow>
          if (case map_of ds d of None \<Rightarrow> False | Some r \<Rightarrow> truthy r) then delete_main baseDir d skipSync ds
          else (case find_sub_parent d ds of
                  Some parent \<Rightarrow> delete_sub d parent skipSync ds
                | None \<Rightarrow> (ds, [], Domain_unknown d)))"

definition bound_to :: "string \<Rightarrow> any \<Rightarrow> bool" where
  "bound_to appID r = (case as_map r of None \<Rightarrow> False | Some m \<Rightarrow> any_eq (aget m ''appId'') (Str_any appID))"

definition app_domains :: "string \<Rightarrow> domain_map \<Rightarrow> string list" where
  "app_domains appID ds = sort (map fst (filter (\<lambda>e. bound_to appID (snd e)) ds))"

fun delete_all :: "string \<Rightarrow> string list \<Rightarrow> domain_map \<Rightarrow> domain_map \<times> domain_call list" where
  "delete_all baseDir [] ds = (ds, [])"
| "delete_all baseDir (d # targets) ds =
     (case Delete baseDir (Str_any d) True ds of
        (ds', calls, _) \<Rightarrow> (case delete_all baseDir targets ds' of (ds'', calls') \<Rightarrow> (ds'', calls @ calls')))"

definition DeleteByApp :: "string \<Rightarrow> string \<Rightarrow> domain_map \<Rightarrow> domain_map \<times> domain_call list" where
  "DeleteByApp baseDir appID ds =
     (let targets = app_domains appID ds
      in if appID = [] \<or> targets = [] then (ds, [])
         else (case delete_all baseDir targets ds of (ds', calls) \<Rightarrow> (ds', calls @ [Sync_proxy])))"

section \<open>Listing\<close>

text \<open>The rows that \<open>List\<close> answers with; \<^const>\<open>None\<close> is the refusal.\<close>

definition list_filter :: "any \<Rightarrow> string" where
  "list_filter arg =
     (case arg of
        Str_any s \<Rightarrow> if to_lower (trim_space s) \<noteq> ''undefined'' \<and> to_lower (trim_space s) \<noteq> ''null'' then s else []
      | _ \<Rightarrow> [])"

definition listed_record :: "domain_map \<Rightarrow> string \<Rightarrow> amap" where
  "listed_record ds d = (case record_of ds d of None \<Rightarrow> Map.empty | Some r \<Rightarrow> r)"

definition ListDomains :: "any \<Rightarrow> domain_map \<Rightarrow> (string \<times> amap) list option" where
  "ListDomains arg ds =
     (let appID = list_filter arg;
          rows = filter (\<lambda>(d, r). appID = [] \<or> any_eq (aget r ''appId'') (Str_any appID))
                   (map (\<lambda>d. (d, listed_record ds d)) (sort (map fst ds)))
      in if ds = [] then Some [] else if rows = [] then None else Some rows)"

section \<open>A deleted domain leaves no record\<close>

text \<open>A name that \<open>validate\<close> returns as it is.\<close>

definition clean_domain :: "string \<Rightarrow> bool" where
  "clean_domain d \<longleftrightarrow> validate (Str_any d) = Inr d"

definition rec_key :: "amap \<Rightarrow> string \<times> string" where
  "rec_key r = (as_str (aget r ''name''), as_str (aget r ''type''))"

definition published :: "domain_call list \<Rightarrow> (string \<times> string) list" where
  "published calls = List.map_filter (\<lambda>c. case c of Dns_record r \<Rightarrow> Some (rec_key r) | _ \<Rightarrow> None) calls"

definition withdrawn :: "domain_call list \<Rightarrow> (string \<times> string) list" where
  "withdrawn calls = List.map_filter (\<lambda>c. case c of Dns_delete r \<Rightarrow> Some (rec_key r) | _ \<Rightarrow> None) calls"

lemma published_simps [simp]:
  "published [] = []" "published (Dns_record r # cs) = rec_key r # published cs" "published (Renew d # cs) = published cs"
  "published (Sync_proxy # cs) = published cs" "published (as @ bs) = published as @ published bs"
  "published (map Dns_record rs) = map rec_key rs"
  by (simp_all add: published_def List.map_filter_def comp_def)

lemma withdrawn_simps [simp]:
  "withdrawn [] = []" "withdrawn (Dns_delete r # cs) = rec_key r # withdrawn cs" "withdrawn (Remove_file f # cs) = withdrawn cs"
  "withdrawn (Clear_ssl_cache d # cs) = withdrawn cs" "withdrawn (Sync_proxy # cs) = withdrawn cs"
  "withdrawn (as @ bs) = withdrawn as @ withdrawn bs" "withdrawn (map Dns_delete rs) = map rec_key rs"
  by (simp_all add: withdrawn_def List.map_filter_def comp_def)

lemma rec_key_simps [simp]: "rec_key (dns_rec n k) = (n, k)" "rec_key (with_value (dns_rec n k) v) = (n, k)"
  by (simp_all add: rec_key_def dns_rec_def with_value_def)

lemma validate_Inl: "validate raw = Inl e \<Longrightarrow> e = Domain_required \<or> e = Bad_domain"
  by (auto simp: validate_def Let_def split: if_splits)

lemma Add_main:
  assumes "Add arg appID apps ip v6 now ds = (ds', calls, Domain_added d)"
  shows "d \<notin> set (map fst ds)" and "\<exists>target. (ds', calls, Domain_added d) = add_main d target ip v6 now ds"
  using assms
  by (auto simp: Add_def Let_def add_sub_def add_main_def split: sum.splits option.splits if_splits dest: validate_Inl)

lemma update_delete_new: "d \<notin> set (map fst ds) \<Longrightarrow> AList.delete d (AList.update d v ds) = ds"
  by (induction ds) (auto simp: AList.delete_eq)

lemma domain_round_trip:
  assumes add: "Add arg appID apps ip v6 now ds = (ds', calls, Domain_added d)" and clean: "clean_domain d"
  shows "\<exists>calls'. Delete baseDir (Str_any d) skipSync ds' = (ds, calls', Domain_deleted d)
    \<and> set (published calls) \<subseteq> set (withdrawn calls')"
proof -
  from Add_main(2) [OF add] obtain target where
    m: "ds' = AList.update d (Map_any (new_record d target now)) ds"
      "calls = (if isLocalOrIP d then [] else map Dns_record (add_records d ip v6) @ [Renew d]) @ [Sync_proxy]"
    by (auto simp: add_main_def)
  have "map_of ds' d = Some (Map_any (new_record d target now))"
    by (simp add: m(1) update_conv)
  then have "Delete baseDir (Str_any d) skipSync ds' = delete_main baseDir d skipSync ds'"
    using clean by (simp add: Delete_def clean_domain_def)
  then show ?thesis
    using update_delete_new [OF Add_main(1) [OF add]]
    by (auto simp: delete_main_def m add_records_def delete_records_def)
qed


definition web_app :: amap where
  "web_app = [''id'' \<mapsto> Float_any (Fin 0), ''name'' \<mapsto> Str_any ''web'']"

lemma add_example_valid: "validate (Str_any '' https://www.Example.com'') = Inr ''www.example.com''"
  by code_simp

lemma add_example_plain: "trim_prefix ''www.example.com'' ''www.'' = ''example.com''" "clean_domain ''example.com''"
  "\<not> isLocalOrIP ''example.com''" "\<not> isWildcard ''example.com''"
  unfolding clean_domain_def by code_simp+

lemma add_example:
  "Add (Str_any '' https://www.Example.com'') (Str_any ''web'') [web_app] ip v6 now [] = add_main ''example.com'' ''web'' ip v6 now []"
  by (simp add: Add_def add_example_valid add_example_plain find_app_def web_app_def find_parent_def keysByLengthDesc_def IsHost_def
      aget_def Let_def Bridge_def Host_def)


section \<open>The domains of a deleted app\<close>

lemma app_domains_set: "set (app_domains appID ds) = {d. \<exists>r. (d, r) \<in> set ds \<and> bound_to appID r}"
  by (force simp: app_domains_def)

lemma delete_all_fst:
  assumes "list_all clean_domain targets" and "distinct targets" and "distinct (map fst ds)"
    and "\<And>d. d \<in> set targets \<Longrightarrow> \<exists>m. map_of ds d = Some (Map_any m)"
  shows "fst (delete_all baseDir targets ds) = filter (\<lambda>(d, r). d \<notin> set targets) ds"
  using assms
proof (induction targets arbitrary: ds)
  case Nil
  then show ?case by (simp add: case_prod_unfold)
next
  case (Cons d targets)
  from Cons.prems(4) [of d] obtain m where "map_of ds d = Some (Map_any m)" by auto
  then have del: "fst (Delete baseDir (Str_any d) True ds) = AList.delete d ds"
    using Cons.prems(1) by (simp add: Delete_def clean_domain_def delete_main_def)
  have "fst (delete_all baseDir targets (AList.delete d ds)) = filter (\<lambda>(d, r). d \<notin> set targets) (AList.delete d ds)"
  proof (rule Cons.IH)
    show "list_all clean_domain targets" "distinct targets" using Cons.prems by simp_all
    show "distinct (map fst (AList.delete d ds))" using Cons.prems(3) by (rule distinct_delete)
    show "\<exists>m. map_of (AList.delete d ds) e = Some (Map_any m)" if "e \<in> set targets" for e
    proof -
      have "e \<noteq> d" using Cons.prems(2) that by auto
      then show ?thesis using Cons.prems(4) [of e] that by simp
    qed
  qed
  then show ?case using del
    by (auto simp: case_prod_unfold AList.delete_eq filter_filter split: prod.splits intro!: filter_cong)
qed


definition domain_record :: "string \<Rightarrow> any" where
  "domain_record target = Map_any [''appId'' \<mapsto> Str_any target]"


section \<open>The most specific parent\<close>

lemma find_parent_longest:
  assumes "find_parent d target ds = Some p" and "q \<in> set (map fst ds)" and "is_sub d q"
    and "\<exists>r. record_of ds q = Some r \<and> any_eq (aget r ''appId'') (Str_any target)"
  shows "length q \<le> length p"
proof -
  let ?ks = "keysByLengthDesc ds"
  from assms(1) obtain i where i: "i < length ?ks" "?ks ! i = p"
    and before: "\<And>j. j < i \<Longrightarrow> \<not> (case record_of ds (?ks ! j) of None \<Rightarrow> False
         | Some r \<Rightarrow> any_eq (aget r ''appId'') (Str_any target) \<and> is_sub d (?ks ! j))"
    unfolding find_parent_def find_Some_iff by blast
  have "q \<in> set ?ks" using assms(2) by (simp add: keysByLengthDesc_def)
  then obtain j where j: "j < length ?ks" "?ks ! j = q" by (auto simp: in_set_conv_nth)
  have "i \<le> j" using before [of j] j assms(3,4) by (cases "j < i") auto
  have "sorted (map (\<lambda>k. - int (length k)) ?ks)" unfolding keysByLengthDesc_def by (rule sorted_sort_key)
  then have "- int (length (?ks ! i)) \<le> - int (length (?ks ! j))"
    using sorted_nth_mono [of "map (\<lambda>k. - int (length k)) ?ks" i j] \<open>i \<le> j\<close> j(1) by simp
  then show ?thesis using i j by simp
qed

section \<open>Where the code parts from its comments\<close>

text \<open>
  The length is checked before the prefix \<open>www.\<close> goes: \<open>www.a\<close> is registered as \<open>a\<close>, a name that no deletion accepts
  again, not even the one that follows the deletion of the app.
\<close>

lemma short_domain_stays:
  "Add (Str_any ''www.a'') (Str_any ''web'') [web_app] ip v6 now [] = add_main ''a'' ''web'' ip v6 now []"
  "Delete baseDir (Str_any ''a'') skipSync ds = (ds, [], Bad_domain)"
  "fst (DeleteByApp ''/app/.odac'' ''web'' [(''a'', domain_record ''web'')]) = [(''a'', domain_record ''web'')]"
proof -
  have v: "validate (Str_any ''www.a'') = Inr ''www.a''" "trim_prefix ''www.a'' ''www.'' = ''a''" "validate (Str_any ''a'') = Inl Bad_domain"
    by code_simp+
  show "Add (Str_any ''www.a'') (Str_any ''web'') [web_app] ip v6 now [] = add_main ''a'' ''web'' ip v6 now []"
    by (simp add: Add_def v find_app_def web_app_def find_parent_def keysByLengthDesc_def IsHost_def aget_def Let_def Bridge_def Host_def)
  show d: "Delete baseDir (Str_any ''a'') skipSync ds = (ds, [], Bad_domain)" for baseDir skipSync ds by (simp add: Delete_def v)
  show "fst (DeleteByApp ''/app/.odac'' ''web'' [(''a'', domain_record ''web'')]) = [(''a'', domain_record ''web'')]"
    by (simp add: DeleteByApp_def Let_def app_domains_def bound_to_def domain_record_def d)
qed

text \<open>A subdomain's own record stays in the DNS when its domain is deleted.\<close>

lemma subdomain_record_stays:
  "find_parent ''shop.example.com'' ''web'' [(''example.com'', domain_record ''web'')] = Some ''example.com''"
  "published (fst (snd (add_sub ''shop.example.com'' ''example.com'' [(''example.com'', domain_record ''web'')])))
    = [(''shop.example.com'', ''CNAME'')]"
  "(''shop.example.com'', ''CNAME'') \<notin> set (withdrawn (fst (snd (delete_main baseDir ''example.com'' True ds))))"
proof -
  have sub: "is_sub ''shop.example.com'' ''example.com''" by code_simp
  show "find_parent ''shop.example.com'' ''web'' [(''example.com'', domain_record ''web'')] = Some ''example.com''"
    by (simp add: find_parent_def keysByLengthDesc_def record_of_def domain_record_def sub)
  have s: "sub_of ''shop.example.com'' ''example.com'' = ''shop''" by code_simp
  show "published (fst (snd (add_sub ''shop.example.com'' ''example.com'' [(''example.com'', domain_record ''web'')])))
    = [(''shop.example.com'', ''CNAME'')]"
    by (simp add: add_sub_def record_of_def domain_record_def listContains_def aget_def s Let_def)
  show "(''shop.example.com'', ''CNAME'') \<notin> set (withdrawn (fst (snd (delete_main baseDir ''example.com'' True ds))))"
    by (auto simp: delete_main_def delete_records_def)
qed

end
