(* ===== verification/AppRouting.thy ===== *)
theory AppRouting
  imports Domains
begin

text \<open>
  Two rules that no single component owns: an app with host networking is neither isolated nor the target of a domain.
  \<open>SetNetworkMode\<close> and \<open>SetIsolated\<close> (\<open>internal/appmgr/ops.go\<close>) and \<open>Add\<close> (\<open>internal/domains/domain.go\<close>) guard them
  from three sides. A state is the table of apps with the table of domains.
\<close>

type_synonym routing = "app_table \<times> domain_map"

definition routable :: "domain_map \<Rightarrow> amap \<Rightarrow> bool" where
  "routable ds app \<longleftrightarrow>
     \<not> (IsHost (aget app ''networkMode'')
        \<and> (app_truthy (aget app ''isolated'') \<or> hasDomainsFor (app_name app) (app_id app) ds))"

definition routing_ok :: "routing \<Rightarrow> bool" where
  "routing_ok s \<longleftrightarrow> list_all (\<lambda>a. routable (snd s) (at_heap (fst s) a)) (at_work (fst s))"

datatype routing_op =
    R_network any string
  | R_isolate any bool
  | R_add any any string "(bool \<times> string) list" int
  | R_delete string any bool
  | R_reload

definition conf_apps :: "app_table \<Rightarrow> amap list" where
  "conf_apps t = map (at_heap t) (at_conf t)"

definition routing_step :: "routing_op \<Rightarrow> routing \<Rightarrow> routing" where
  "routing_step p s =
     (case p of
        R_network key mode \<Rightarrow> (fst (SetNetworkMode key mode (snd s) (fst s)), snd s)
      | R_isolate key on \<Rightarrow> (fst (SetIsolated key on (fst s)), snd s)
      | R_add d key ip v6 now \<Rightarrow> (fst s, fst (Add d key (conf_apps (fst s)) ip v6 now (snd s)))
      | R_delete dir d skip \<Rightarrow> (fst s, fst (Delete dir d skip (snd s)))
      | R_reload \<Rightarrow> (loadAppsFromConfig (fst s), snd s))"

section \<open>Which domains lead to an app\<close>

definition routes_to :: "string \<Rightarrow> float64 \<Rightarrow> any \<Rightarrow> bool" where
  "routes_to name idNum rec =
     (case as_map rec of
        None \<Rightarrow> False
      | Some r \<Rightarrow> any_eq (aget r ''appId'') (Str_any name) \<or> any_eq (aget r ''appId'') (Float_any idNum))"

lemma hasDomainsFor_routes: "hasDomainsFor n i ds \<longleftrightarrow> (\<exists>e \<in> set ds. routes_to n i (snd e))"
  by (force simp: hasDomainsFor_def routes_to_def list_ex_iff)

lemma update_elem: "e \<in> set (AList.update k v ds) \<Longrightarrow> e = (k, v) \<or> e \<in> set ds"
  by (induction ds) (auto split: if_splits)

lemma has_update: "hasDomainsFor n i (AList.update k v ds) \<Longrightarrow> routes_to n i v \<or> hasDomainsFor n i ds"
  by (force simp: hasDomainsFor_routes dest: update_elem)

lemma has_delete: "hasDomainsFor n i (AList.delete k ds) \<Longrightarrow> hasDomainsFor n i ds"
  by (force simp: hasDomainsFor_routes AList.delete_eq)

lemma has_record: "record_of ds k = Some r \<Longrightarrow> routes_to n i (Map_any r) \<Longrightarrow> hasDomainsFor n i ds"
  by (force simp: record_of_def hasDomainsFor_routes split: option.splits dest!: as_map_SomeD map_of_SomeD)

lemma routes_subdomain: "routes_to n i (Map_any (r(''subdomain'' \<mapsto> v))) \<longleftrightarrow> routes_to n i (Map_any r)"
  by (simp add: routes_to_def)

lemma has_Delete: "hasDomainsFor n i (fst (Delete dir d skip ds)) \<Longrightarrow> hasDomainsFor n i ds"
  by (auto simp: Delete_def delete_main_def delete_sub_def Let_def routes_subdomain
      split: sum.splits option.splits if_splits dest: has_delete dest!: has_update intro: has_record)

text \<open>Adding leads to the app that was found, and to no other.\<close>

lemma has_Add:
  assumes "hasDomainsFor n i (fst (Add d key apps ip v6 now ds))"
  shows "hasDomainsFor n i ds
    \<or> (\<exists>app. find_app key apps = Some app \<and> \<not> IsHost (aget app ''networkMode'') \<and> n = app_name app)"
  using assms
  by (auto simp: Add_def add_main_def add_sub_def Let_def routes_subdomain new_record_def routes_to_def app_name_def
      split: sum.splits option.splits if_splits dest!: has_update intro: has_record)

section \<open>The rules are kept\<close>

lemma routable_conf:
  assumes "table_ok b t" and "app \<in> set (conf_apps t)"
  shows "\<exists>a \<in> set (at_work t). strip (at_heap t a) = strip app"
proof -
  from assms(2) obtain c where c: "c \<in> set (at_conf t)" "app = at_heap t c" by (auto simp: conf_apps_def)
  have "strip app \<in> set (map (\<lambda>a. strip (at_heap t a)) (at_conf t))" using c by simp
  then have "strip app \<in> set (map (\<lambda>a. strip (at_heap t a)) (at_work t))"
    using assms(1) by (simp only: table_ok_def saved_def)
  then show ?thesis by auto
qed

lemma strip_fields:
  "aget (strip m) ''networkMode'' = aget m ''networkMode''" "aget (strip m) ''isolated'' = aget m ''isolated''"
  "app_name (strip m) = app_name m" "app_id (strip m) = app_id m"
  by (simp_all add: aget_strip ephemeralFields_def app_name_def app_id_def)

lemma strip_same:
  assumes "strip m = strip m'"
  shows "aget m ''networkMode'' = aget m' ''networkMode''" "app_name m = app_name m'" "routable ds m = routable ds m'"
  using strip_fields [of m] strip_fields [of m'] by (simp_all add: assms routable_def)

lemma Add_keeps:
  assumes "table_ok b t" and "routing_ok (t, ds)"
  shows "routing_ok (t, fst (Add d key (conf_apps t) ip v6 now ds))"
proof -
  have "routable (fst (Add d key (conf_apps t) ip v6 now ds)) (at_heap t a)" if a: "a \<in> set (at_work t)" for a
  proof (cases "IsHost (aget (at_heap t a) ''networkMode'')")
    case True
    have old: "routable ds (at_heap t a)" using assms(2) a by (simp add: routing_ok_def list_all_iff)
    have "\<not> hasDomainsFor (app_name (at_heap t a)) (app_id (at_heap t a)) (fst (Add d key (conf_apps t) ip v6 now ds))"
    proof
      assume "hasDomainsFor (app_name (at_heap t a)) (app_id (at_heap t a)) (fst (Add d key (conf_apps t) ip v6 now ds))"
      then obtain app where app: "find_app key (conf_apps t) = Some app" "\<not> IsHost (aget app ''networkMode'')"
        "app_name (at_heap t a) = app_name app"
        using has_Add [of "app_name (at_heap t a)" "app_id (at_heap t a)" d key "conf_apps t" ip v6 now ds] old True
        unfolding routable_def by blast
      have "app \<in> set (conf_apps t)" using app(1) by (auto simp: find_app_def find_Some_iff)
      from routable_conf [OF assms(1) this] obtain x where x: "x \<in> set (at_work t)" "strip (at_heap t x) = strip app" by blast
      have "x = a"
        using assms(1) a x strip_same(2) [OF x(2)] app(3) by (auto simp: table_ok_def work_ok_def distinct_map inj_on_def)
      then show False using strip_same(1) [OF x(2)] app(2) True by simp
    qed
    then show ?thesis using old True by (simp add: routable_def)
  qed (simp add: routable_def)
  then show ?thesis by (simp add: routing_ok_def list_all_iff)
qed

lemma save_heap: "at_work (saveAppsLocked t) = at_work t" "x < at_next t \<Longrightarrow> at_heap (saveAppsLocked t) x = at_heap t x"
  by (simp_all add: saveAppsLocked_def Let_def)

lemma on_app_heap:
  assumes "work_ok b t" and "getLocked key t = Some a" and "f (at_heap t a) = (Some g, out)"
  shows "at_work (fst (on_app key f t)) = at_work t"
    and "x \<in> set (at_work t) \<Longrightarrow> at_heap (fst (on_app key f t)) x = (if x = a then g (at_heap t a) else at_heap t x)"
proof -
  have e: "fst (on_app key f t) = saveAppsLocked (change_app a g t)" using assms(2,3) by (simp add: on_app_def)
  show "at_work (fst (on_app key f t)) = at_work t" by (simp add: e save_heap change_app_def)
  assume "x \<in> set (at_work t)"
  then have "x < at_next t" using assms(1) by (simp add: work_ok_def list_all_iff)
  then show "at_heap (fst (on_app key f t)) x = (if x = a then g (at_heap t a) else at_heap t x)"
    by (simp add: e save_heap change_app_def)
qed

lemma on_app_routing:
  assumes "work_ok b t" and "routing_ok (t, ds)"
    and "\<And>a g out. getLocked key t = Some a \<Longrightarrow> f (at_heap t a) = (Some g, out) \<Longrightarrow> routable ds (at_heap t a)
      \<Longrightarrow> routable ds (g (at_heap t a))"
  shows "routing_ok (fst (on_app key f t), ds)"
proof (cases "getLocked key t")
  case None
  then show ?thesis using assms(2) by (simp add: on_app_def)
next
  case (Some a)
  obtain go out where f: "f (at_heap t a) = (go, out)" by force
  show ?thesis
  proof (cases go)
    case None
    then show ?thesis using assms(2) Some f by (simp add: on_app_def)
  next
    case (Some g)
    have a: "a \<in> set (at_work t)" using getLocked_Some \<open>getLocked key t = Some a\<close> by simp
    have "routable ds (at_heap t a)" using assms(2) a by (simp add: routing_ok_def list_all_iff)
    from assms(3) [OF \<open>getLocked key t = Some a\<close> f [unfolded Some] this] have "routable ds (g (at_heap t a))" .
    then show ?thesis
      using assms(2) on_app_heap [where f = f and g = g and out = out, OF assms(1) \<open>getLocked key t = Some a\<close> f [unfolded Some]]
      by (auto simp: routing_ok_def list_all_iff)
  qed
qed

lemma SetNetworkMode_keeps:
  assumes "work_ok b t" and "routing_ok (t, ds)"
  shows "routing_ok (fst (SetNetworkMode key mode ds t), ds)"
proof (cases "network_check key mode t ds")
  case (Inl r)
  then show ?thesis using assms(2) by (simp add: SetNetworkMode_def)
next
  case (Inr parsed)
  then have p: "parsed = Bridge \<or> parsed = Host" and c: "\<And>a. getLocked key t = Some a \<Longrightarrow> parsed = Host \<Longrightarrow>
      \<not> app_truthy (aget (at_heap t a) ''isolated'') \<and> \<not> hasDomainsFor (app_name (at_heap t a)) (app_id (at_heap t a)) ds"
    by (auto simp: network_check_def mode_of_def Let_def app_name_def app_id_def split: option.splits if_splits)
  have "routing_ok (fst (network_commit key parsed t), ds)"
    unfolding network_commit_def
  proof (rule on_app_routing [OF assms])
    fix a g out
    assume a: "getLocked key t = Some a"
      and g: "(Some (\<lambda>m. (if parsed = Bridge then m(''networkMode'' := None) else m(''networkMode'' \<mapsto> Str_any parsed))(''ip'' := None)), None)
        = (Some g, out)"
    show "routable ds (g (at_heap t a))"
      using p c [OF a] g by (auto simp: routable_def aget_def IsHost_def Bridge_def Host_def app_name_def app_id_def)
  qed
  then show ?thesis using Inr by (simp add: SetNetworkMode_def)
qed

lemma SetIsolated_keeps:
  assumes "work_ok b t" and "routing_ok (t, ds)"
  shows "routing_ok (fst (SetIsolated key on t), ds)"
proof (cases "isolate_check key on t")
  case (Some r)
  then show ?thesis using assms(2) by (simp add: SetIsolated_def)
next
  case None
  then have c: "\<And>a. getLocked key t = Some a \<Longrightarrow> on \<Longrightarrow> \<not> IsHost (aget (at_heap t a) ''networkMode'')"
    by (auto simp: isolate_check_def split: option.splits if_splits)
  have "routing_ok (fst (isolate_commit key on t), ds)"
    unfolding isolate_commit_def
  proof (rule on_app_routing [OF assms])
    fix a g out
    assume a: "getLocked key t = Some a" and old: "routable ds (at_heap t a)"
      and g: "(Some (\<lambda>m. (if on then m(''isolated'' \<mapsto> Bool_any True) else m(''isolated'' := None))(''ip'' := None)), None) = (Some g, out)"
    show "routable ds (g (at_heap t a))"
      using c [OF a] g old by (auto simp: routable_def aget_def app_name_def app_id_def split: if_splits)
  qed
  then show ?thesis using None by (simp add: SetIsolated_def)
qed

lemma reload_keeps:
  assumes "table_ok b t" and "routing_ok (t, ds)"
  shows "routing_ok (loadAppsFromConfig t, ds)"
proof -
  have "routable ds (normalize_ports (at_heap t c))" if c: "c \<in> set (at_conf t)" for c
  proof -
    have "at_heap t c \<in> set (conf_apps t)" using c by (simp add: conf_apps_def)
    from routable_conf [OF assms(1) this] obtain x where x: "x \<in> set (at_work t)" "strip (at_heap t x) = strip (at_heap t c)" by blast
    have "routable ds (at_heap t x)" using assms(2) x(1) by (simp add: routing_ok_def list_all_iff)
    then have "routable ds (at_heap t c)" using strip_same(3) [OF x(2)] by simp
    moreover have "aget (normalize_ports m) k = aget m k" if "k \<noteq> ''ports''" for m k
      using that by (simp add: normalize_ports_def split: option.split)
    ultimately show ?thesis by (simp add: routable_def app_name_def app_id_def)
  qed
  then show ?thesis by (simp add: routing_ok_def loadAppsFromConfig_def list_all_iff)
qed

lemma Delete_keeps: "routing_ok (t, ds) \<Longrightarrow> routing_ok (t, fst (Delete dir d skip ds))"
  using has_Delete by (fastforce simp: routing_ok_def list_all_iff routable_def)

lemma routing_step_ok:
  assumes "table_ok b (fst s)" and "routing_ok s"
  shows "table_ok b (fst (routing_step p s)) \<and> routing_ok (routing_step p s)"
proof -
  obtain t ds where s: "s = (t, ds)" by force
  have w: "work_ok b t" using assms(1) by (simp add: s table_ok_def)
  show ?thesis
    using assms SetNetworkMode_keeps [OF w] SetIsolated_keeps [OF w] Add_keeps [of b t ds] Delete_keeps [of t ds] reload_keeps [of b t ds]
    by (cases p) (auto simp: s routing_step_def SetNetworkMode_ok SetIsolated_ok loadAppsFromConfig_ok)
qed

lemma routing_steps_ok:
  "table_ok b (fst s) \<Longrightarrow> routing_ok s \<Longrightarrow> table_ok b (fst (fold routing_step ps s)) \<and> routing_ok (fold routing_step ps s)"
proof (induction ps arbitrary: s)
  case (Cons p ps)
  show ?case using Cons.IH routing_step_ok [OF Cons.prems, of p] by simp
qed simp

text \<open>
  C17. Host networking, isolation and domains: if the changes of the network mode, of the isolation and of the domains
  run one after the other, in any order and with any arguments, no app ever has host networking while it is isolated or
  while a domain is routed to it. The three handlers refuse on different sides, from the working set and from the
  configuration.
\<close>

theorem host_apps_stay_apart:
  assumes "table_ok b t" and "routing_ok (t, ds)"
  shows "routing_ok (fold routing_step ps (t, ds))"
  using routing_steps_ok [of b "(t, ds)" ps] assms by simp

definition routing_ops :: "routing_op list" where
  "routing_ops = [R_network (Str_any ''db'') ''host'', R_add (Str_any ''a.org'') (Str_any ''db'') [] [] 0,
     R_isolate (Str_any ''db'') True, R_add (Str_any ''a.org'') (Str_any ''web'') [] [] 0, R_network (Str_any ''web'') ''host'', R_reload]"

lemma host_apps_stay_apart_witness: "routing_ok (fold routing_step routing_ops (two_apps, []))"
proof (rule host_apps_stay_apart [OF two_apps_ok])
  show "routing_ok (two_apps, [])"
    by (simp add: routing_ok_def routable_def two_apps_def aget_def IsHost_def Bridge_def Host_def)
qed

section \<open>Where the code parts from its comments\<close>

text \<open>
  The handlers check under one lock and write under the next. With another handler in between, an app ends with host
  networking and isolation, or with host networking and a domain, the states that the comments call unreachable.
\<close>

lemma mode_host: "mode_of ''host'' = Some Host" "IsHost (Str_any Host)"
  unfolding IsHost_def by code_simp+

lemma host_check: "network_check (Str_any ''db'') ''host'' two_apps [] = Inr Host"
  by (simp add: network_check_def mode_host two_apps_get) (simp add: two_apps_def aget_def hasDomainsFor_def)

lemma host_commit:
  "at_work (fst (network_commit (Str_any ''db'') Host t)) = at_work t"
  "x \<in> set (at_work t) \<Longrightarrow> at_heap (fst (network_commit (Str_any ''db'') Host t)) x
    = (if x = a then (at_heap t a)(''networkMode'' \<mapsto> Str_any Host, ''ip'' := None) else at_heap t x)"
  if "work_ok b t" and "getLocked (Str_any ''db'') t = Some a" for a
  using on_app_heap [OF that refl] by (simp_all add: network_commit_def Host_def Bridge_def)

lemma isolation_race:
  "isolate_check (Str_any ''db'') True two_apps = None"
  "\<not> routing_ok (fst (network_commit (Str_any ''db'') Host (fst (isolate_commit (Str_any ''db'') True two_apps))), [])"
proof -
  show "isolate_check (Str_any ''db'') True two_apps = None"
    by (simp add: isolate_check_def two_apps_get) (simp add: two_apps_def aget_def IsHost_def Bridge_def Host_def)
  let ?t = "fst (isolate_commit (Str_any ''db'') True two_apps)"
  have w: "work_ok 2 two_apps" using two_apps_ok by (simp add: table_ok_def)
  have t: "at_work ?t = [0, 1]" "\<And>x. x \<in> {0, 1} \<Longrightarrow> at_heap ?t x
      = (if x = 1 then (at_heap two_apps 1)(''isolated'' \<mapsto> Bool_any True, ''ip'' := None) else at_heap two_apps x)"
    using on_app_heap [OF w two_apps_get(1) refl] by (simp_all add: isolate_commit_def two_apps_def)
  have wt: "work_ok 2 ?t"
    using SetIsolated_ok [OF two_apps_ok, of "Str_any ''db''" True] \<open>isolate_check (Str_any ''db'') True two_apps = None\<close>
    by (simp add: SetIsolated_def table_ok_def)
  have g: "getLocked (Str_any ''db'') ?t = Some 1"
    by (simp add: getLocked_def t matches_id_def) (simp add: two_apps_def aget_def)
  have "at_heap (fst (network_commit (Str_any ''db'') Host ?t)) 1 = (at_heap ?t 1)(''networkMode'' \<mapsto> Str_any Host, ''ip'' := None)"
    using host_commit(2) [OF wt g, of 1] t(1) by simp
  then show "\<not> routing_ok (fst (network_commit (Str_any ''db'') Host ?t), [])"
    using host_commit(1) [OF wt g] mode_host(2) by (simp add: routing_ok_def routable_def t aget_def)
qed

lemma fst_add_main: "fst (add_main d target ip v6 now ds) = AList.update d (Map_any (new_record d target now)) ds"
  by (simp add: add_main_def)

lemma domain_race:
  "fst (Add (Str_any ''a.org'') (Str_any ''db'') (conf_apps two_apps) [] [] 0 []) = [(''a.org'', Map_any (new_record ''a.org'' ''db'' 0))]"
  "\<not> routing_ok (fst (network_commit (Str_any ''db'') Host two_apps), [(''a.org'', Map_any (new_record ''a.org'' ''db'' 0))])"
proof -
  have v: "validate (Str_any ''a.org'') = Inr ''a.org''" "trim_prefix ''a.org'' ''www.'' = ''a.org''" by code_simp+
  show "fst (Add (Str_any ''a.org'') (Str_any ''db'') (conf_apps two_apps) [] [] 0 []) = [(''a.org'', Map_any (new_record ''a.org'' ''db'' 0))]"
  proof -
    let ?db = "[''id'' \<mapsto> Float_any (Fin 1), ''name'' \<mapsto> Str_any ''db'', ''type'' \<mapsto> Str_any ''container'', ''active'' \<mapsto> Bool_any True]"
    have "find_app (Str_any ''db'') (conf_apps two_apps) = Some ?db"
      by (simp add: find_app_def conf_apps_def two_apps_def aget_def)
    moreover have "\<not> IsHost (aget ?db ''networkMode'')" "aget ?db ''name'' = Str_any ''db''"
      by (simp_all add: aget_def IsHost_def Bridge_def Host_def)
    ultimately have "Add (Str_any ''a.org'') (Str_any ''db'') (conf_apps two_apps) [] [] 0 [] = add_main ''a.org'' ''db'' [] [] 0 []"
      by (simp add: Add_def v find_parent_def keysByLengthDesc_def Let_def)
    then show ?thesis by (simp add: fst_add_main)
  qed
  have w: "work_ok 2 two_apps" using two_apps_ok by (simp add: table_ok_def)
  have w1: "at_work two_apps = [0, 1]" by (simp add: two_apps_def)
  have "at_heap (fst (network_commit (Str_any ''db'') Host two_apps)) 1 = (at_heap two_apps 1)(''networkMode'' \<mapsto> Str_any Host, ''ip'' := None)"
    using host_commit(2) [OF w two_apps_get(1), of 1] w1 by simp
  moreover have "app_name (at_heap two_apps 1) = ''db''" by (simp add: two_apps_def app_name_def aget_def)
  ultimately show "\<not> routing_ok (fst (network_commit (Str_any ''db'') Host two_apps), [(''a.org'', Map_any (new_record ''a.org'' ''db'' 0))])"
    using host_commit(1) [OF w two_apps_get(1)] mode_host(2)
    by (simp add: routing_ok_def routable_def w1 hasDomainsFor_def new_record_def Let_def app_name_def aget_def)
qed

end
