(* ===== verification/ControlApi.thy ===== *)
theory ControlApi
  imports AppTable GoBase64 "HOL-Library.AList"
begin

text \<open>
  The control API (\<open>internal/api/api.go\<close>, \<open>token.go\<close>): who a request comes from, which actions it may run, and the
  loop over the documents of a connection. HMAC-SHA256 in hexadecimal is the parameter \<open>hmac\<close>; the JSON of a token's
  body is the pair of parameters \<open>enc\<close> and \<open>dec\<close>. A request arrives decoded; what a handler does is not modelled here,
  only that it runs.
\<close>

section \<open>Actions\<close>

definition appDeniedActions :: "string list" where
  "appDeniedActions = [''auth'', ''update'', ''server.stop'', ''app.privileged'', ''app.api'']"

definition AppMayCall :: "string \<Rightarrow> bool" where
  "AppMayCall action \<longleftrightarrow> action \<notin> set appDeniedActions"

section \<open>State\<close>

text \<open>
  \<open>sv_auth\<close>, \<open>sv_apps\<close> and \<open>sv_domains\<close> are \<open>api.auth\<close>, \<open>apps\<close> and the keys of \<open>domains\<close> in the configuration.
\<close>

record api_server =
  sv_commands :: "string list"
  sv_tokens :: "(string \<times> string) list"
  sv_allowed :: "string list"
  sv_auth :: any
  sv_apps :: "any list"
  sv_domains :: "string list"

definition HasAction :: "api_server \<Rightarrow> string \<Rightarrow> bool" where
  "HasAction s action \<longleftrightarrow> action \<in> set (sv_commands s)"

definition Register :: "string \<Rightarrow> api_server \<Rightarrow> api_server" where
  "Register action s = s\<lparr>sv_commands := List.insert action (sv_commands s)\<rparr>"

definition Allow :: "string \<Rightarrow> api_server \<Rightarrow> api_server" where
  "Allow ip s = s\<lparr>sv_allowed := List.insert ip (sv_allowed s)\<rparr>"

definition Disallow :: "string \<Rightarrow> api_server \<Rightarrow> api_server" where
  "Disallow ip s = s\<lparr>sv_allowed := removeAll ip (sv_allowed s)\<rparr>"

section \<open>Tokens\<close>

definition authKey :: "api_server \<Rightarrow> string" where
  "authKey s = as_str (sv_auth s)"

definition GenerateToken :: "(string \<Rightarrow> string \<Rightarrow> string) \<Rightarrow> api_server \<Rightarrow> string \<Rightarrow> string" where
  "GenerateToken hmac s d = hmac (authKey s) d"

definition AddToken :: "(string \<Rightarrow> string \<Rightarrow> string) \<Rightarrow> string \<Rightarrow> api_server \<Rightarrow> api_server" where
  "AddToken hmac d s = (if d = [] then s else s\<lparr>sv_tokens := AList.update (GenerateToken hmac s d) d (sv_tokens s)\<rparr>)"

definition RemoveToken :: "(string \<Rightarrow> string \<Rightarrow> string) \<Rightarrow> string \<Rightarrow> api_server \<Rightarrow> api_server" where
  "RemoveToken hmac d s = (if d = [] then s else s\<lparr>sv_tokens := AList.delete (GenerateToken hmac s d) (sv_tokens s)\<rparr>)"

definition ReloadTokens :: "(string \<Rightarrow> string \<Rightarrow> string) \<Rightarrow> api_server \<Rightarrow> api_server" where
  "ReloadTokens hmac s = fold (AddToken hmac) (sv_domains s) (s\<lparr>sv_tokens := []\<rparr>)"

text \<open>\<open>Init\<close>: a first start draws the key, which is the argument.\<close>

definition api_Init :: "(string \<Rightarrow> string \<Rightarrow> string) \<Rightarrow> string \<Rightarrow> api_server \<Rightarrow> api_server" where
  "api_Init hmac fresh s = ReloadTokens hmac (if authKey s = [] then s\<lparr>sv_auth := Str_any fresh\<rparr> else s)"

definition GenerateAppToken :: "(string \<Rightarrow> string \<Rightarrow> string) \<Rightarrow> (string \<Rightarrow> any \<Rightarrow> int \<Rightarrow> string option) \<Rightarrow> api_server
    \<Rightarrow> string \<Rightarrow> any \<Rightarrow> int \<Rightarrow> string" where
  "GenerateAppToken hmac enc s appName permissions now =
     (case enc appName permissions now of
        None \<Rightarrow> []
      | Some payload \<Rightarrow> base64_encode payload @ ''.'' @ hmac (authKey s) payload)"

definition verifyAppToken :: "(string \<Rightarrow> string \<Rightarrow> string) \<Rightarrow> (string \<Rightarrow> amap option) \<Rightarrow> api_server \<Rightarrow> string \<Rightarrow> amap option" where
  "verifyAppToken hmac dec s token =
     (if CHR ''.'' \<notin> set token then None
      else
        let parts = split_byte CHR ''.'' token; b64 = parts ! 0; sig = parts ! 1
        in if b64 = [] \<or> sig = [] then None
           else (case base64_decode b64 of
                   None \<Rightarrow> None
                 | Some payload \<Rightarrow> if sig = hmac (authKey s) payload then dec payload else None))"

definition lookupToken :: "api_server \<Rightarrow> string \<Rightarrow> string option" where
  "lookupToken s auth = (if auth = [] then None else map_of (sv_tokens s) auth)"

section \<open>A request\<close>

fun api_truthy :: "any \<Rightarrow> bool" where
  "api_truthy Nil_any = False"
| "api_truthy (Bool_any b) = b"
| "api_truthy (Str_any s) = (s \<noteq> [])"
| "api_truthy (Float_any f) = (f \<noteq> Fin 0)"
| "api_truthy _ = True"

datatype identity =
    Root
  | Domain_client string
  | App_client string any

definition app_named :: "string \<Rightarrow> any \<Rightarrow> bool" where
  "app_named name a = (case as_map a of None \<Rightarrow> False | Some m \<Rightarrow> any_eq (aget m ''name'') (Str_any name))"

definition live_app :: "api_server \<Rightarrow> string \<Rightarrow> amap option" where
  "live_app s name =
     (case List.find (app_named name) (sv_apps s) of
        None \<Rightarrow> None
      | Some a \<Rightarrow> (case as_map a of None \<Rightarrow> None | Some m \<Rightarrow> if api_truthy (aget m ''active'') then Some m else None))"

definition authenticate :: "(string \<Rightarrow> string \<Rightarrow> string) \<Rightarrow> (string \<Rightarrow> amap option) \<Rightarrow> api_server \<Rightarrow> string \<Rightarrow> identity option" where
  "authenticate hmac dec s auth =
     (if authKey s \<noteq> [] \<and> auth = authKey s then Some Root
      else
        (case lookupToken s auth of
           Some d \<Rightarrow> Some (Domain_client d)
         | None \<Rightarrow>
             (case verifyAppToken hmac dec s auth of
                None \<Rightarrow> None
              | Some body \<Rightarrow>
                  let name = as_str (aget body ''n'')
                  in map_option (\<lambda>app. App_client name (aget app ''api'')) (live_app s name))))"

fun grants :: "any \<Rightarrow> string \<Rightarrow> bool" where
  "grants (Bool_any p) action = p"
| "grants (List_any p) action = list_ex (\<lambda>v. any_eq v (Str_any ''*'') \<or> any_eq v (Str_any action)) p"
| "grants _ action = False"

fun may_run :: "identity \<Rightarrow> string \<Rightarrow> bool" where
  "may_run Root action = True"
| "may_run (Domain_client d) action = (action = ''mail.send'')"
| "may_run (App_client name p) action = (AppMayCall action \<and> grants p action)"

datatype verdict =
    Unauthorized
  | Unknown_action
  | Permission_denied
  | Runs identity string

record request =
  rq_auth :: any
  rq_action :: any
  rq_data :: "any list"

definition judge :: "(string \<Rightarrow> string \<Rightarrow> string) \<Rightarrow> (string \<Rightarrow> amap option) \<Rightarrow> api_server \<Rightarrow> request \<Rightarrow> verdict" where
  "judge hmac dec s r =
     (let action = as_str (rq_action r)
      in case authenticate hmac dec s (as_str (rq_auth r)) of
           None \<Rightarrow> Unauthorized
         | Some who \<Rightarrow>
             if action = [] \<or> \<not> HasAction s action then Unknown_action
             else if may_run who action then Runs who action
             else Permission_denied)"

section \<open>A connection\<close>

text \<open>
  What the connection is told, and the handler that who_ran. A handler's progress lines and its result are the pair that
  the parameter \<open>handler\<close> yields, which may depend on the action and the arguments.
\<close>

datatype reply =
    Refused verdict
  | Invalid_json
  | Progress any
  | Final any

definition handleRequest :: "(string \<Rightarrow> string \<Rightarrow> string) \<Rightarrow> (string \<Rightarrow> amap option) \<Rightarrow> (string \<Rightarrow> any list \<Rightarrow> any list \<times> any)
    \<Rightarrow> api_server \<Rightarrow> request \<Rightarrow> bool \<times> reply list \<times> (identity \<times> string) list" where
  "handleRequest hmac dec handler s r =
     (case judge hmac dec s r of
        Runs who action \<Rightarrow>
          (case handler action (rq_data r) of (lines, result) \<Rightarrow> (True, map Progress lines @ [Final result], [(who, action)]))
      | v \<Rightarrow> (False, [Refused v], []))"

text \<open>The documents in the order of the stream; \<^const>\<open>None\<close> is text that is not JSON.\<close>

fun serve_documents :: "(string \<Rightarrow> string \<Rightarrow> string) \<Rightarrow> (string \<Rightarrow> amap option) \<Rightarrow> (string \<Rightarrow> any list \<Rightarrow> any list \<times> any)
    \<Rightarrow> api_server \<Rightarrow> request option list \<Rightarrow> reply list \<times> (identity \<times> string) list" where
  "serve_documents hmac dec handler s [] = ([], [])"
| "serve_documents hmac dec handler s (None # ds) = ([Invalid_json], [])"
| "serve_documents hmac dec handler s (Some r # ds) =
     (case handleRequest hmac dec handler s r of
        (done, out, who_ran) \<Rightarrow>
          if done then (out, who_ran)
          else (case serve_documents hmac dec handler s ds of (out', more_ran) \<Rightarrow> (out @ out', who_ran @ more_ran)))"

definition peer_ip :: "string \<Rightarrow> string" where
  "peer_ip host = (case last_index_byte CHR '':'' host of None \<Rightarrow> host | Some i \<Rightarrow> drop (i + 1) host)"

definition ip_accepted :: "api_server \<Rightarrow> string \<Rightarrow> bool" where
  "ip_accepted s host \<longleftrightarrow> (let ip = peer_ip host in ip = ''127.0.0.1'' \<or> ip = ''::1'' \<or> ip \<in> set (sv_allowed s))"

text \<open>\<open>peer\<close> is the address of a TCP client, \<^const>\<open>None\<close> for the unix socket.\<close>

definition handleConn :: "(string \<Rightarrow> string \<Rightarrow> string) \<Rightarrow> (string \<Rightarrow> amap option) \<Rightarrow> (string \<Rightarrow> any list \<Rightarrow> any list \<times> any)
    \<Rightarrow> api_server \<Rightarrow> string option \<Rightarrow> request option list \<Rightarrow> reply list \<times> (identity \<times> string) list" where
  "handleConn hmac dec handler s peer docs =
     (if (case peer of None \<Rightarrow> False | Some host \<Rightarrow> \<not> ip_accepted s host) then ([], [])
      else serve_documents hmac dec handler s docs)"

section \<open>Only granted actions run\<close>

text \<open>What a credential entitles to, independent of the order of the checks.\<close>

inductive entitled :: "(string \<Rightarrow> string \<Rightarrow> string) \<Rightarrow> (string \<Rightarrow> amap option) \<Rightarrow> api_server \<Rightarrow> string \<Rightarrow> string \<Rightarrow> bool"
  for hmac dec s where
  by_key: "authKey s \<noteq> [] \<Longrightarrow> entitled hmac dec s (authKey s) action"
| by_domain: "(token, d) \<in> set (sv_tokens s) \<Longrightarrow> token \<noteq> [] \<Longrightarrow> entitled hmac dec s token ''mail.send''"
| by_app: "split_byte CHR ''.'' token = b64 # hmac (authKey s) payload # parts \<Longrightarrow> base64_decode b64 = Some payload
    \<Longrightarrow> dec payload = Some body \<Longrightarrow> a \<in> set (sv_apps s) \<Longrightarrow> as_map a = Some app
    \<Longrightarrow> aget app ''name'' = Str_any (as_str (aget body ''n'')) \<Longrightarrow> api_truthy (aget app ''active'')
    \<Longrightarrow> grants (aget app ''api'') action \<Longrightarrow> action \<notin> set appDeniedActions \<Longrightarrow> entitled hmac dec s token action"

lemma any_eq_Str_right: "any_eq v (Str_any n) \<longleftrightarrow> v = Str_any n"
  by (cases v) auto

lemma found_elem: "List.find P xs = Some x \<Longrightarrow> x \<in> set xs \<and> P x"
  by (auto simp: find_Some_iff)

lemma live_appD:
  assumes "live_app s name = Some app"
  obtains a where "a \<in> set (sv_apps s)" and "as_map a = Some app" and "aget app ''name'' = Str_any name" and "api_truthy (aget app ''active'')"
  using assms
  by (auto simp: live_app_def app_named_def any_eq_Str_right split: option.splits if_splits dest!: found_elem)

lemma split_two: "CHR ''.'' \<in> set token \<Longrightarrow> \<exists>a b parts. split_byte CHR ''.'' token = a # b # parts"
  by (metis append_Nil2 join_split join_str.simps(2) list.exhaust split_byte_no_sep split_byte_not_Nil list.set_intros(1))

lemma verifyAppTokenD:
  assumes "verifyAppToken hmac dec s token = Some body"
  obtains b64 payload parts where "split_byte CHR ''.'' token = b64 # hmac (authKey s) payload # parts"
    and "base64_decode b64 = Some payload" and "dec payload = Some body"
proof -
  have dot: "CHR ''.'' \<in> set token" using assms by (auto simp: verifyAppToken_def split: if_splits)
  obtain a b parts where sp: "split_byte CHR ''.'' token = a # b # parts" using split_two [OF dot] by blast
  show ?thesis using assms dot that by (auto simp: verifyAppToken_def sp Let_def split: if_splits option.splits)
qed

lemma runs_entitled:
  assumes "judge hmac dec s r = Runs who action"
  shows "entitled hmac dec s (as_str (rq_auth r)) action \<and> HasAction s action \<and> action = as_str (rq_action r)"
proof -
  let ?auth = "as_str (rq_auth r)"
  from assms have who: "authenticate hmac dec s ?auth = Some who" and may: "may_run who action"
    and act: "HasAction s action" "action = as_str (rq_action r)"
    by (auto simp: judge_def Let_def split: option.splits if_splits)
  have "entitled hmac dec s ?auth action"
  proof (cases who)
    case Root
    then have "authKey s \<noteq> [] \<and> ?auth = authKey s"
      using who by (auto simp: authenticate_def Let_def split: if_splits option.splits)
    then show ?thesis by (metis by_key)
  next
    case (Domain_client d)
    then have "lookupToken s ?auth = Some d"
      using who by (auto simp: authenticate_def Let_def split: if_splits option.splits)
    then have "(?auth, d) \<in> set (sv_tokens s)" "?auth \<noteq> []"
      by (auto simp: lookupToken_def split: if_splits dest: map_of_SomeD)
    then show ?thesis using may Domain_client by (auto intro: by_domain)
  next
    case (App_client name p)
    then obtain body app where v: "verifyAppToken hmac dec s ?auth = Some body" and l: "live_app s (as_str (aget body ''n'')) = Some app"
      and p: "p = aget app ''api''"
      using who by (auto simp: authenticate_def Let_def split: if_splits option.splits)
    have g: "grants (aget app ''api'') action" "action \<notin> set appDeniedActions"
      using may App_client p by (auto simp: AppMayCall_def)
    obtain b64 payload parts where t: "split_byte CHR ''.'' ?auth = b64 # hmac (authKey s) payload # parts"
      "base64_decode b64 = Some payload" "dec payload = Some body" by (rule verifyAppTokenD [OF v])
    obtain a where "a \<in> set (sv_apps s)" "as_map a = Some app" "aget app ''name'' = Str_any (as_str (aget body ''n''))"
      "api_truthy (aget app ''active'')" by (rule live_appD [OF l])
    from by_app [where hmac = hmac and dec = dec, OF t this g] show ?thesis .
  qed
  with act show ?thesis by simp
qed

lemma serve_documents_runs:
  "list_all (\<lambda>(who, action). \<exists>r \<in> {r. Some r \<in> set docs}. entitled hmac dec s (as_str (rq_auth r)) action \<and> HasAction s action)
      (snd (serve_documents hmac dec handler s docs))
    \<and> length (snd (serve_documents hmac dec handler s docs)) \<le> 1"
proof (induction docs)
  case (Cons d docs)
  show ?case
  proof (cases d)
    case (Some r)
    show ?thesis
    proof (cases "judge hmac dec s r")
      case (Runs who action)
      then show ?thesis using runs_entitled [OF Runs] Some by (auto simp: handleRequest_def split: prod.split)
    qed (use Cons Some in \<open>auto simp: handleRequest_def case_prod_unfold list_all_iff\<close>)
  qed simp
qed simp

text \<open>
  C15. What runs on a connection of the control API: nothing at all for a TCP client that is neither local nor allowed;
  otherwise at most one handler, of a registered action, for which one of the documents carried a credential that is
  entitled to it: the root key; a token of the table, for \<open>mail.send\<close> alone; or a token whose payload is signed with the
  key and names an active app of the configuration whose grant, as it stands now, covers the action, which is none of
  those that no app may ever call.
\<close>

theorem only_granted_actions_run:
  "list_all (\<lambda>(who, action). (case peer of None \<Rightarrow> True | Some host \<Rightarrow> ip_accepted s host) \<and>
      (\<exists>r. Some r \<in> set docs \<and> entitled hmac dec s (as_str (rq_auth r)) action \<and> HasAction s action))
      (snd (handleConn hmac dec handler s peer docs))
    \<and> length (snd (handleConn hmac dec handler s peer docs)) \<le> 1"
  using serve_documents_runs [of docs hmac dec s handler]
  by (auto simp: handleConn_def list_all_iff split: option.split)

inductive_cases entitledE: "entitled hmac dec s token action"

lemma denied_never: "action \<in> set appDeniedActions \<Longrightarrow> entitled hmac dec s token action \<Longrightarrow> token = authKey s"
  by (erule entitledE) (auto simp: appDeniedActions_def)

section \<open>Tokens of apps are recognised\<close>

lemma generated_token:
  assumes "enc name p now = Some payload" and "payload \<noteq> []" and "CHR ''.'' \<notin> set (hmac (authKey s) payload)" and "hmac (authKey s) payload \<noteq> []"
  shows "verifyAppToken hmac dec s (GenerateAppToken hmac enc s name p now) = dec payload"
proof -
  have b: "CHR ''.'' \<notin> set (base64_encode payload)" using base64_encode_chars by blast
  have "split_byte CHR ''.'' (base64_encode payload @ CHR ''.'' # hmac (authKey s) payload)
      = [base64_encode payload, hmac (authKey s) payload]"
    using b assms(3) by (simp add: split_byte_append split_byte_id)
  then show ?thesis
    using assms by (simp add: GenerateAppToken_def verifyAppToken_def Let_def base64_decode_encode)
qed

text \<open>
  C23. The token that the server issues to an app is recognised when it comes back, as long as the key is the same: with
  it the app may run every registered action that its grant in the configuration covers, and no longer the moment the
  configuration has another grant or the app is not active. The body's codec must read back the name, and neither the
  key nor a domain's token may be equal to the token.
\<close>

theorem issued_token_accepted:
  assumes "enc name p now = Some payload" and "payload \<noteq> []" and "dec payload = Some body" and "aget body ''n'' = Str_any name"
    and "CHR ''.'' \<notin> set (hmac (authKey s) payload)" and "hmac (authKey s) payload \<noteq> []"
    and "GenerateAppToken hmac enc s name p now \<noteq> authKey s"
    and "lookupToken s (GenerateAppToken hmac enc s name p now) = None"
    and "HasAction s action" and "action \<noteq> []"
  shows "judge hmac dec s \<lparr>rq_auth = Str_any (GenerateAppToken hmac enc s name p now), rq_action = Str_any action, rq_data = args\<rparr>
    = (case live_app s name of
         None \<Rightarrow> Unauthorized
       | Some app \<Rightarrow> if action \<notin> set appDeniedActions \<and> grants (aget app ''api'') action
           then Runs (App_client name (aget app ''api'')) action else Permission_denied)"
  using generated_token [where enc = enc and hmac = hmac and dec = dec, OF assms(1,2,5,6)] assms(3,4,7-10)
  by (simp add: judge_def authenticate_def AppMayCall_def split: option.split)

definition sample_server :: api_server where
  "sample_server = \<lparr>sv_commands = [''app.list'', ''app.api'', ''mail.send''], sv_tokens = [(''feed'', ''a.org'')], sv_allowed = [],
     sv_auth = Str_any ''key'',
     sv_apps = [Map_any [''name'' \<mapsto> Str_any ''web'', ''active'' \<mapsto> Bool_any True, ''api'' \<mapsto> List_any [Str_any ''app.list'']]],
     sv_domains = [''a.org'']\<rparr>"

definition sample_hmac :: "string \<Rightarrow> string \<Rightarrow> string" where
  "sample_hmac k m = itoa (int (length k + 7 * length m))"

definition sample_enc :: "string \<Rightarrow> any \<Rightarrow> int \<Rightarrow> string option" where
  "sample_enc n p t = Some n"

definition sample_dec :: "string \<Rightarrow> amap option" where
  "sample_dec m = Some [''n'' \<mapsto> Str_any m]"

lemma sample_hmac_chars: "CHR ''.'' \<notin> set (sample_hmac k m)" "sample_hmac k m \<noteq> []"
  using itoa_chars [of "int (length k + 7 * length m)" "CHR ''.''"]
  by (auto simp: sample_hmac_def is_digit_char_def ascii_val_def)

lemma sample_token:
  "GenerateAppToken sample_hmac sample_enc sample_server ''web'' p now = base64_encode ''web'' @ ''.'' @ sample_hmac ''key'' ''web''"
  by (simp add: GenerateAppToken_def sample_enc_def authKey_def sample_server_def)

lemma sample_token_dot:
  "CHR ''.'' \<in> set (GenerateAppToken sample_hmac sample_enc sample_server ''web'' p now)"
  by (simp add: sample_token)

lemma sample_live:
  "live_app sample_server ''web'' = Some [''name'' \<mapsto> Str_any ''web'', ''active'' \<mapsto> Bool_any True, ''api'' \<mapsto> List_any [Str_any ''app.list'']]"
  by (simp add: live_app_def sample_server_def app_named_def aget_def)

lemma issued_token_accepted_witness:
  "judge sample_hmac sample_dec sample_server
     \<lparr>rq_auth = Str_any (GenerateAppToken sample_hmac sample_enc sample_server ''web'' (Bool_any True) 0),
      rq_action = Str_any ''app.list'', rq_data = []\<rparr>
   = Runs (App_client ''web'' (List_any [Str_any ''app.list''])) ''app.list''"
proof -
  have "judge sample_hmac sample_dec sample_server
      \<lparr>rq_auth = Str_any (GenerateAppToken sample_hmac sample_enc sample_server ''web'' (Bool_any True) 0),
       rq_action = Str_any ''app.list'', rq_data = []\<rparr>
    = (case live_app sample_server ''web'' of
         None \<Rightarrow> Unauthorized
       | Some app \<Rightarrow> if ''app.list'' \<notin> set appDeniedActions \<and> grants (aget app ''api'') ''app.list''
           then Runs (App_client ''web'' (aget app ''api'')) ''app.list'' else Permission_denied)"
  proof (rule issued_token_accepted)
    show "sample_enc ''web'' (Bool_any True) 0 = Some ''web''" "sample_dec ''web'' = Some [''n'' \<mapsto> Str_any ''web'']"
      by (simp_all add: sample_enc_def sample_dec_def)
    show "GenerateAppToken sample_hmac sample_enc sample_server ''web'' (Bool_any True) 0 \<noteq> authKey sample_server"
      using sample_token_dot [of "Bool_any True" 0] by (auto simp: authKey_def sample_server_def)
    show "lookupToken sample_server (GenerateAppToken sample_hmac sample_enc sample_server ''web'' (Bool_any True) 0) = None"
      using sample_token_dot [of "Bool_any True" 0] by (auto simp: lookupToken_def sample_server_def)
  qed (simp_all add: sample_hmac_chars aget_def HasAction_def sample_server_def)
  then show ?thesis by (simp add: sample_live appDeniedActions_def aget_def)
qed

section \<open>Where the code parts from its comments\<close>

text \<open>
  Only the start builds the table of domain tokens; neither adding nor deleting a domain touches it. The token of a
  domain that is gone goes on sending mail, and a new domain has none until the next start.
\<close>

lemma token_outlives_domain:
  assumes "authKey s \<noteq> []" and "d \<noteq> []" and "sv_domains s = [d]" and "hmac (authKey s) d \<noteq> []" and "hmac (authKey s) d \<noteq> authKey s"
    and "HasAction s ''mail.send''"
  shows "judge hmac dec ((ReloadTokens hmac s)\<lparr>sv_domains := []\<rparr>)
      \<lparr>rq_auth = Str_any (GenerateToken hmac s d), rq_action = Str_any ''mail.send'', rq_data = args\<rparr>
    = Runs (Domain_client d) ''mail.send''"
  using assms
  by (simp add: judge_def authenticate_def ReloadTokens_def AddToken_def GenerateToken_def authKey_def lookupToken_def HasAction_def)

lemma new_domain_has_no_token:
  assumes "sv_domains s = []" and "authKey s \<noteq> []" and "hmac (authKey s) d \<noteq> authKey s" and "CHR ''.'' \<notin> set (hmac (authKey s) d)"
  shows "judge hmac dec ((ReloadTokens hmac s)\<lparr>sv_domains := [d]\<rparr>)
      \<lparr>rq_auth = Str_any (GenerateToken hmac s d), rq_action = Str_any ''mail.send'', rq_data = args\<rparr> = Unauthorized"
  using assms
  by (simp add: judge_def authenticate_def ReloadTokens_def GenerateToken_def authKey_def lookupToken_def verifyAppToken_def)

text \<open>Without a key the root key is no credential, but the signature of an app token is one that anybody can compute.\<close>

lemma forged_without_key:
  assumes "authKey s = []" and "dec payload = Some body" and "payload \<noteq> []" and "CHR ''.'' \<notin> set (hmac [] payload)" and "hmac [] payload \<noteq> []"
  shows "verifyAppToken hmac dec s (base64_encode payload @ ''.'' @ hmac [] payload) = Some body"
  using generated_token [where enc = "\<lambda>n p t. Some payload" and hmac = hmac and dec = dec and s = s, OF refl assms(3)] assms
  by (simp add: GenerateAppToken_def)

text \<open>What follows a second dot is not looked at.\<close>

lemma trailing_parts_ignored:
  assumes "CHR ''.'' \<notin> set b" and "CHR ''.'' \<notin> set sig" and "verifyAppToken hmac dec s (b @ ''.'' @ sig) = Some body"
  shows "verifyAppToken hmac dec s (b @ ''.'' @ sig @ ''.'' @ junk) = Some body"
  using assms by (auto simp: verifyAppToken_def Let_def split_byte_append split_byte_id split: if_splits option.splits)

end
