(* ===== verification/SslManager.thy ===== *)
theory SslManager
  imports Domains
begin

text \<open>
  The certificate manager (\<open>internal/domains/ssl.go\<close>): which names a certificate must have, when the scan renews one,
  the backoff after failures, and the life of a run: at most one per domain, cancelled and queued again by a request that
  comes while it is under way. Times are milliseconds since 1970. The ACME client, keys and X.509 are parameters.
\<close>

section \<open>Names of a certificate\<close>

definition expectedNames :: "string \<Rightarrow> any list \<Rightarrow> string list" where
  "expectedNames d subs =
     (let wild = list_ex (\<lambda>v. any_eq v (Str_any ''*'')) subs
      in d # map (\<lambda>v. as_str v @ ''.'' @ d)
               (filter (\<lambda>v. as_str v \<noteq> [] \<and> \<not> (wild \<and> as_str v \<noteq> ''*'' \<and> CHR ''.'' \<notin> set (as_str v))) subs))"

text \<open>\<open>sans\<close>: the names on the saved certificate, \<^const>\<open>None\<close> when there is no file, \<open>Some None\<close> when it does not parse.\<close>

definition checkSanMismatch :: "string \<Rightarrow> any list \<Rightarrow> string list option option \<Rightarrow> bool" where
  "checkSanMismatch d subs sans =
     (case sans of
        None \<Rightarrow> True
      | Some None \<Rightarrow> False
      | Some (Some names) \<Rightarrow> list_ex (\<lambda>n. n \<notin> set names) (expectedNames d subs))"

definition subdomains_of :: "domain_map \<Rightarrow> string \<Rightarrow> any list" where
  "subdomains_of ds d =
     (case record_of ds d of None \<Rightarrow> [] | Some r \<Rightarrow> (case as_list (aget r ''subdomain'') of None \<Rightarrow> [] | Some vs \<Rightarrow> vs))"

text \<open>The domain whose certificate a request renews.\<close>

definition renew_target :: "string \<Rightarrow> domain_map \<Rightarrow> string option" where
  "renew_target d ds =
     (if ipv4Re d then None
      else if d \<in> set (map fst ds) then Some d
      else List.find (\<lambda>k. list_ex (\<lambda>v. as_str v \<noteq> [] \<and> as_str v @ ''.'' @ k = d) (subdomains_of ds k)) (sort (map fst ds)))"

section \<open>Orders\<close>

definition wildcard_order :: "string list \<Rightarrow> bool" where
  "wildcard_order names = list_ex (\<lambda>n. has_prefix n ''*.'') names"

text \<open>
  The outcome of the two orders (\<^const>\<open>None\<close> is an error), whether the run was cancelled after the first; the result
  says which challenge types were tried.
\<close>

definition requestCertificate :: "string list \<Rightarrow> string option \<Rightarrow> string option \<Rightarrow> bool \<Rightarrow> string option \<times> string list" where
  "requestCertificate names http dns cancelled =
     (if wildcard_order names then (dns, [''dns-01''])
      else (case http of
              Some cert \<Rightarrow> (Some cert, [''http-01''])
            | None \<Rightarrow> if cancelled then (None, [''http-01'']) else (dns, [''http-01'', ''dns-01''])))"

definition challenge_record :: "string \<Rightarrow> string \<Rightarrow> amap" where
  "challenge_record identifier authValue =
     [''name'' \<mapsto> Str_any (''_acme-challenge.'' @ trim_prefix identifier ''*.''), ''type'' \<mapsto> Str_any ''TXT'',
      ''value'' \<mapsto> Str_any authValue, ''ttl'' \<mapsto> Float_any (Fin 100), ''unique'' \<mapsto> Bool_any True]"

definition challenge_removal :: "string \<Rightarrow> string \<Rightarrow> amap" where
  "challenge_removal identifier authValue =
     [''name'' \<mapsto> Str_any (''_acme-challenge.'' @ trim_prefix identifier ''*.''), ''type'' \<mapsto> Str_any ''TXT'',
      ''value'' \<mapsto> Str_any authValue]"

text \<open>What a run comes to; the flags say whether it finds itself cancelled at its three checkpoints.\<close>

datatype generated =
    Gen_failed
  | Gen_dropped
  | Gen_certificate string

definition generate :: "string list \<Rightarrow> bool \<Rightarrow> bool \<Rightarrow> bool \<Rightarrow> bool \<Rightarrow> bool \<Rightarrow> string option \<Rightarrow> string option \<Rightarrow> bool \<Rightarrow> bool \<Rightarrow> generated" where
  "generate names client_ok before_csr key_ok csr_ok before_order http dns after_http after_order =
     (if \<not> client_ok then Gen_failed
      else if before_csr then Gen_dropped
      else if \<not> key_ok \<or> \<not> csr_ok then Gen_failed
      else if before_order then Gen_dropped
      else (case fst (requestCertificate names http dns after_http) of
              None \<Rightarrow> Gen_failed
            | Some cert \<Rightarrow> if after_order \<or> cert = [] then Gen_dropped else Gen_certificate cert))"

section \<open>The manager\<close>

text \<open>The zero of \<open>time.Time\<close> lies in year 1.\<close>

definition zero_time :: int where "zero_time = - 62135596800000"

record domain_state =
  st_san :: int
  st_errors :: nat
  st_until :: int

definition new_state :: domain_state where
  "new_state = \<lparr>st_san = zero_time, st_errors = 0, st_until = zero_time\<rparr>"

text \<open>\<open>sm_runs\<close> maps the domain of a run to its flag of cancellation.\<close>

record ssl_manager =
  sm_checking :: bool
  sm_checked :: "string \<Rightarrow> domain_state option"
  sm_runs :: "(string \<times> bool) list"
  sm_queued :: "string list"

definition backoff :: "nat \<Rightarrow> int" where
  "backoff n = (if n = 2 then 120000 else if n = 3 then 600000 else if 4 \<le> n then 1800000 else 30000)"

definition state_of :: "ssl_manager \<Rightarrow> string \<Rightarrow> domain_state" where
  "state_of m d = (case sm_checked m d of None \<Rightarrow> new_state | Some st \<Rightarrow> st)"

definition handleSSLError :: "int \<Rightarrow> string \<Rightarrow> ssl_manager \<Rightarrow> ssl_manager" where
  "handleSSLError now d m =
     (let st = state_of m d; n = Suc (st_errors st)
      in m\<lparr>sm_checked := (sm_checked m)(d \<mapsto> st\<lparr>st_errors := n, st_until := now + backoff n\<rparr>)\<rparr>)"

definition ssl_begin :: "int \<Rightarrow> string \<Rightarrow> ssl_manager \<Rightarrow> ssl_manager \<times> bool" where
  "ssl_begin now d m =
     (case map_of (sm_runs m) d of
        Some _ \<Rightarrow> (m\<lparr>sm_runs := AList.update d True (sm_runs m), sm_queued := List.insert d (sm_queued m)\<rparr>, False)
      | None \<Rightarrow>
          if (case sm_checked m d of None \<Rightarrow> False | Some st \<Rightarrow> now < st_until st) then (m, False)
          else (m\<lparr>sm_runs := AList.update d False (sm_runs m)\<rparr>, True))"

text \<open>The end of a run; the flag says whether the domain is started again.\<close>

definition ssl_end :: "string \<Rightarrow> ssl_manager \<Rightarrow> ssl_manager \<times> bool" where
  "ssl_end d m =
     (if d \<in> set (sm_queued m)
      then (m\<lparr>sm_runs := AList.delete d (sm_runs m), sm_queued := removeAll d (sm_queued m), sm_checked := (sm_checked m)(d := None)\<rparr>, True)
      else (m\<lparr>sm_runs := AList.delete d (sm_runs m)\<rparr>, False))"

text \<open>\<open>saveCertificate\<close>: the reset of the backoff, then the files, then the record.\<close>

definition ssl_record :: "string \<Rightarrow> string \<Rightarrow> int \<Rightarrow> any" where
  "ssl_record certDir d now =
     Map_any [''key'' \<mapsto> Str_any (path_Join [certDir, d @ ''.key'']), ''cert'' \<mapsto> Str_any (path_Join [certDir, d @ ''.crt'']),
       ''expiry'' \<mapsto> Float_any (float_of_int (now + 7776000000))]"

definition saveCertificate :: "string \<Rightarrow> bool \<Rightarrow> int \<Rightarrow> string \<Rightarrow> ssl_manager \<Rightarrow> domain_map
    \<Rightarrow> ssl_manager \<times> domain_map \<times> domain_call list" where
  "saveCertificate certDir files_ok now d m ds =
     (let m' = m\<lparr>sm_checked := (sm_checked m)(d := None)\<rparr>
      in if \<not> files_ok then (m', ds, [])
         else (case record_of ds d of
                 None \<Rightarrow> (m', ds, [])
               | Some r \<Rightarrow>
                   let cert = (case as_map (aget r ''cert'') of None \<Rightarrow> Map.empty | Some c \<Rightarrow> c)
                   in (m', AList.update d (Map_any (r(''cert'' \<mapsto> Map_any (cert(''ssl'' \<mapsto> ssl_record certDir d now))))) ds,
                       [Clear_ssl_cache d, Sync_proxy])))"

section \<open>The scan\<close>

datatype scan_verdict =
    Scan_skip
  | Scan_order
  | Scan_wait
  | Scan_compare

definition expiry_of :: "amap \<Rightarrow> float64 option" where
  "expiry_of r =
     (case as_map (aget r ''cert'') of
        None \<Rightarrow> None
      | Some c \<Rightarrow> map_option (\<lambda>s. as_float (aget s ''expiry'')) (as_map (aget c ''ssl'')))"

definition expires_soon :: "int \<Rightarrow> float64 \<Rightarrow> bool" where
  "expires_soon now e = (case e of Fin r \<Rightarrow> r < of_int (now + 2592000000) | NegInf \<Rightarrow> True | _ \<Rightarrow> False)"

definition scan_domain :: "int \<Rightarrow> domain_map \<Rightarrow> string \<Rightarrow> ssl_manager \<Rightarrow> ssl_manager \<times> scan_verdict" where
  "scan_domain now ds d m =
     (case record_of ds d of
        None \<Rightarrow> (m, Scan_skip)
      | Some r \<Rightarrow>
          if any_eq (aget r ''cert'') (Bool_any False) then (m, Scan_skip)
          else (case expiry_of r of
                  None \<Rightarrow> (m, Scan_order)
                | Some e \<Rightarrow>
                    if expires_soon now e then (m, Scan_order)
                    else
                      let st = state_of m d; due = (st_san st + 300000 < now)
                      in (m\<lparr>sm_checked := (sm_checked m)(d \<mapsto> (if due then st\<lparr>st_san := now\<rparr> else st))\<rparr>,
                          if due then Scan_compare else Scan_wait)))"

definition scan_may_start :: "ssl_manager \<Rightarrow> domain_map option \<Rightarrow> bool" where
  "scan_may_start m ds \<longleftrightarrow> \<not> sm_checking m \<and> sm_runs m = [] \<and> sm_queued m = [] \<and> ds \<noteq> None"

section \<open>The names cover every subdomain\<close>

text \<open>A name on a certificate covers itself; a wildcard covers one more label.\<close>

definition covers :: "string \<Rightarrow> string \<Rightarrow> bool" where
  "covers host name \<longleftrightarrow> name = host
     \<or> (case index_byte CHR ''.'' host of None \<Rightarrow> False | Some i \<Rightarrow> 0 < i \<and> name = ''*.'' @ drop (i + 1) host)"

lemma index_byte_label: "CHR ''.'' \<notin> set l \<Longrightarrow> index_byte CHR ''.'' (l @ CHR ''.'' # s) = Some (length l)"
  by (induction l) auto

text \<open>
  The names ordered for a domain cover the domain and every one of its subdomains, by themselves or by the wildcard
  of one label, and nothing else is ordered.
\<close>

theorem certificate_names_cover:
  "covers d (hd (expectedNames d subs))
    \<and> list_all (\<lambda>v. as_str v = [] \<or> list_ex (covers (as_str v @ ''.'' @ d)) (expectedNames d subs)) subs
    \<and> set (expectedNames d subs) \<subseteq> insert d ((\<lambda>v. as_str v @ ''.'' @ d) ` {v \<in> set subs. as_str v \<noteq> []})"
proof -
  have "list_ex (covers (as_str v @ ''.'' @ d)) (expectedNames d subs)" if v: "v \<in> set subs" "as_str v \<noteq> []" for v
  proof (cases "list_ex (\<lambda>v. any_eq v (Str_any ''*'')) subs \<and> as_str v \<noteq> ''*'' \<and> CHR ''.'' \<notin> set (as_str v)")
    case False
    then have "as_str v @ ''.'' @ d \<in> set (expectedNames d subs)" using v by (auto simp: expectedNames_def Let_def)
    then show ?thesis by (auto simp: list_ex_iff covers_def)
  next
    case True
    then obtain w where w: "w \<in> set subs" "w = Str_any ''*''" by (auto simp: list_ex_iff elim: any_eq.elims)
    then have "''*.'' @ d \<in> set (expectedNames d subs)" by (force simp: expectedNames_def Let_def)
    moreover have "covers (as_str v @ ''.'' @ d) (''*.'' @ d)"
      using True v(2) index_byte_label [of "as_str v" d] by (simp add: covers_def)
    ultimately show ?thesis by (auto simp: list_ex_iff)
  qed
  then have "list_all (\<lambda>v. as_str v = [] \<or> list_ex (covers (as_str v @ ''.'' @ d)) (expectedNames d subs)) subs"
    by (auto simp: list_all_iff)
  moreover have "covers d (hd (expectedNames d subs))" by (simp add: expectedNames_def covers_def Let_def)
  moreover have "set (expectedNames d subs) \<subseteq> insert d ((\<lambda>v. as_str v @ ''.'' @ d) ` {v \<in> set subs. as_str v \<noteq> []})"
    by (auto simp: expectedNames_def Let_def)
  ultimately show ?thesis by blast
qed

section \<open>Where the code does something else\<close>

text \<open>
  A certificate whose files cannot be written: the state of the backoff is gone all the same, nothing is recorded, and the
  next call orders another certificate at once, whatever the time.
\<close>

lemma failed_save_no_backoff:
  assumes "saveCertificate certDir False now d m ds = (m', ds', calls)"
  shows "ds' = ds" and "calls = []" and "snd (ssl_begin later d (fst (ssl_end d m')))"
  using assms by (auto simp: saveCertificate_def ssl_end_def ssl_begin_def Let_def delete_conv')

text \<open>
  \<open>localhost\<close> and addresses are added without a certificate, and a request for an address is refused; the scan orders
  one for them nevertheless.
\<close>

lemma local_domain_ordered:
  assumes "isLocalOrIP d"
  shows "snd (scan_domain t (fst (add_main d target ip v6 now ds)) d m) = Scan_order"
    and "Renew e \<notin> set (fst (snd (add_main d target ip v6 now ds)))"
    and "ipv4Re d \<Longrightarrow> renew_target d ds' = None"
  using assms
  by (auto simp: scan_domain_def add_main_def record_of_def update_conv' new_record_def Let_def expiry_of_def aget_def renew_target_def)

end
