(* ===== verification/SslRuns.thy ===== *)
theory SslRuns
  imports SslManager
begin

text \<open>
  The runs of the certificate manager in any interleaving (\<open>ssl\<close>, \<open>generate\<close> and \<open>Renew\<close> of
  \<open>internal/domains/ssl.go\<close> with the changes of the domain table that precede a request). A run passes its phases one by
  one; between them requests, changes and deletions of domains come in any order. The certificate files are written
  without an error; what happens otherwise is a lemma of its own.
\<close>

section \<open>States and steps\<close>

datatype phase =
    Starting
  | Ordering "string list"
  | Saving "string list"
  | Ending

text \<open>
  \<open>w_subs\<close> is the list of subdomains of a registered domain, \<open>w_saved\<close> the names of its saved certificate,
  \<open>w_changed\<close> the domains whose change has not yet been followed by its request, \<open>w_spawned\<close> the goroutines that have
  not begun.
\<close>

record ssl_world =
  w_mgr :: ssl_manager
  w_phase :: "string \<Rightarrow> phase option"
  w_spawned :: "string list"
  w_subs :: "string \<Rightarrow> any list option"
  w_saved :: "string \<Rightarrow> string list option"
  w_changed :: "string list"

definition run_flag :: "ssl_world \<Rightarrow> string \<Rightarrow> bool option" where
  "run_flag w d = map_of (sm_runs (w_mgr w)) d"

definition read_names :: "ssl_world \<Rightarrow> string \<Rightarrow> string list" where
  "read_names w d = expectedNames d (case w_subs w d of None \<Rightarrow> [] | Some subs \<Rightarrow> subs)"

inductive ssl_step :: "ssl_world \<Rightarrow> ssl_world \<Rightarrow> bool" where
  change: "ssl_step w (w\<lparr>w_subs := (w_subs w)(d \<mapsto> subs), w_changed := d # w_changed w\<rparr>)"
| delete: "ssl_step w (w\<lparr>w_subs := (w_subs w)(d := None), w_saved := (w_saved w)(d := None)\<rparr>)"
| request: "ssl_step w (w\<lparr>w_spawned := d # w_spawned w, w_changed := removeAll d (w_changed w)\<rparr>)"
| call: "d \<in> set (w_spawned w) \<Longrightarrow> 0 \<le> now \<Longrightarrow> ssl_begin now d (w_mgr w) = (m, started) \<Longrightarrow>
    ssl_step w (w\<lparr>w_mgr := m, w_spawned := remove1 d (w_spawned w),
      w_phase := (if started then (w_phase w)(d \<mapsto> Starting) else w_phase w)\<rparr>)"
| read: "w_phase w d = Some Starting \<Longrightarrow> ssl_step w (w\<lparr>w_phase := (w_phase w)(d \<mapsto> Ordering (read_names w d))\<rparr>)"
| issued: "w_phase w d = Some (Ordering ns) \<Longrightarrow> run_flag w d = Some False \<Longrightarrow>
    ssl_step w (w\<lparr>w_phase := (w_phase w)(d \<mapsto> Saving ns)\<rparr>)"
| dropped: "w_phase w d = Some p \<Longrightarrow> p = Starting \<or> p = Ordering ns \<Longrightarrow> run_flag w d = Some True \<Longrightarrow>
    ssl_step w (w\<lparr>w_phase := (w_phase w)(d \<mapsto> Ending)\<rparr>)"
| failed: "w_phase w d = Some p \<Longrightarrow> p = Starting \<or> p = Ordering ns \<Longrightarrow> run_flag w d = Some False \<Longrightarrow>
    ssl_step w (w\<lparr>w_mgr := handleSSLError now d (w_mgr w), w_phase := (w_phase w)(d \<mapsto> Ending)\<rparr>)"
| saved: "w_phase w d = Some (Saving ns) \<Longrightarrow>
    ssl_step w (w\<lparr>w_mgr := (w_mgr w)\<lparr>sm_checked := (sm_checked (w_mgr w))(d := None)\<rparr>,
      w_saved := (if w_subs w d = None then w_saved w else (w_saved w)(d \<mapsto> ns)), w_phase := (w_phase w)(d \<mapsto> Ending)\<rparr>)"
| ended: "w_phase w d = Some Ending \<Longrightarrow> ssl_end d (w_mgr w) = (m, again) \<Longrightarrow>
    ssl_step w (w\<lparr>w_mgr := m, w_phase := (w_phase w)(d := None), w_spawned := (if again then d # w_spawned w else w_spawned w)\<rparr>)"
| looked: "st = state_of (w_mgr w) d \<Longrightarrow>
    ssl_step w (w\<lparr>w_mgr := (w_mgr w)\<lparr>sm_checked := (sm_checked (w_mgr w))(d \<mapsto> st\<lparr>st_san := now\<rparr>)\<rparr>\<rparr>)"

definition ssl_start :: ssl_world where
  "ssl_start = \<lparr>w_mgr = \<lparr>sm_checking = False, sm_checked = (\<lambda>d. None), sm_runs = [], sm_queued = []\<rparr>, w_phase = (\<lambda>d. None),
     w_spawned = [], w_subs = (\<lambda>d. None), w_saved = (\<lambda>d. None), w_changed = []\<rparr>"

inductive ssl_reach :: "ssl_world \<Rightarrow> bool" where
  start: "ssl_reach ssl_start"
| step: "ssl_reach w \<Longrightarrow> ssl_step w w' \<Longrightarrow> ssl_reach w'"

section \<open>The invariant\<close>

definition backed_off :: "ssl_world \<Rightarrow> string \<Rightarrow> bool" where
  "backed_off w d = (case sm_checked (w_mgr w) d of None \<Rightarrow> False | Some st \<Rightarrow> st_errors st \<noteq> 0)"

definition awaited :: "ssl_world \<Rightarrow> string \<Rightarrow> bool" where
  "awaited w d \<longleftrightarrow> d \<in> set (w_changed w) \<or> d \<in> set (w_spawned w) \<or> d \<in> set (sm_queued (w_mgr w))"

definition current :: "ssl_world \<Rightarrow> string \<Rightarrow> string list \<Rightarrow> bool" where
  "current w d ns \<longleftrightarrow> (case w_subs w d of None \<Rightarrow> True | Some subs \<Rightarrow> ns = expectedNames d subs)"

definition under_way :: "ssl_world \<Rightarrow> string \<Rightarrow> bool" where
  "under_way w d \<longleftrightarrow> (case w_phase w d of None \<Rightarrow> False | Some p \<Rightarrow> p \<noteq> Ending)"

definition domain_ok :: "ssl_world \<Rightarrow> string \<Rightarrow> bool" where
  "domain_ok w d \<longleftrightarrow>
     (w_phase w d = None \<longleftrightarrow> run_flag w d = None)
     \<and> (d \<in> set (sm_queued (w_mgr w)) \<longleftrightarrow> run_flag w d = Some True)
     \<and> (\<forall>st. sm_checked (w_mgr w) d = Some st \<longrightarrow> st_errors st = 0 \<longrightarrow> st_until st = zero_time)
     \<and> (\<forall>ns. w_phase w d = Some (Ordering ns) \<or> w_phase w d = Some (Saving ns) \<longrightarrow> current w d ns \<or> awaited w d)
     \<and> (\<forall>ns. w_saved w d = Some ns \<longrightarrow> current w d ns \<or> awaited w d \<or> under_way w d \<or> backed_off w d)"

lemmas ssl_defs = domain_ok_def current_def awaited_def under_way_def backed_off_def run_flag_def

lemma runs_update [simp]: "map_of (AList.update k v xs) d = (if d = k then Some v else map_of xs d)"
  by (simp add: update_conv')

lemma runs_delete [simp]: "map_of (AList.delete k xs) d = (if d = k then None else map_of xs d)"
  by (simp add: delete_conv')

lemma call_ok:
  assumes ok: "domain_ok w e" and d: "d \<in> set (w_spawned w)" and now: "0 \<le> now" and b: "ssl_begin now d (w_mgr w) = (m, started)"
  shows "domain_ok (w\<lparr>w_mgr := m, w_spawned := remove1 d (w_spawned w),
      w_phase := (if started then (w_phase w)(d \<mapsto> Starting) else w_phase w)\<rparr>) e"
proof (cases "map_of (sm_runs (w_mgr w)) d")
  case (Some c)
  then have "m = (w_mgr w)\<lparr>sm_runs := AList.update d True (sm_runs (w_mgr w)), sm_queued := List.insert d (sm_queued (w_mgr w))\<rparr>"
    "\<not> started" using b by (simp_all add: ssl_begin_def)
  then show ?thesis using ok Some by (cases "e = d") (auto simp: ssl_defs)
next
  case None
  show ?thesis
  proof (cases "case sm_checked (w_mgr w) d of None \<Rightarrow> False | Some st \<Rightarrow> now < st_until st")
    case True
    then obtain st where st: "sm_checked (w_mgr w) d = Some st" "now < st_until st" by (auto split: option.splits)
    have m: "m = w_mgr w" "\<not> started" using b None True by (simp_all add: ssl_begin_def)
    show ?thesis
    proof (cases "e = d")
      case True
      have "st_errors st \<noteq> 0" using ok st now True by (auto simp: domain_ok_def zero_time_def)
      then have "backed_off w d" using st by (simp add: backed_off_def)
      moreover have "w_phase w d = None" using ok None True by (simp add: domain_ok_def run_flag_def)
      ultimately show ?thesis using ok m True None by (auto simp: ssl_defs)
    next
      case False
      then show ?thesis using ok m by (auto simp: ssl_defs)
    qed
  next
    case False
    then have m: "m = (w_mgr w)\<lparr>sm_runs := AList.update d False (sm_runs (w_mgr w))\<rparr>" "started"
      using b None by (auto simp: ssl_begin_def split: if_splits)
    show ?thesis using ok m None by (cases "e = d") (auto simp: ssl_defs)
  qed
qed

lemma ended_ok:
  assumes ok: "domain_ok w e" and p: "w_phase w d = Some Ending" and m: "ssl_end d (w_mgr w) = (m, again)"
  shows "domain_ok (w\<lparr>w_mgr := m, w_phase := (w_phase w)(d := None), w_spawned := (if again then d # w_spawned w else w_spawned w)\<rparr>) e"
proof (cases "e = d")
  case True
  then show ?thesis using ok p m by (auto simp: ssl_end_def ssl_defs split: if_splits)
next
  case False
  then show ?thesis using ok p m by (auto simp: ssl_end_def ssl_defs split: if_splits)
qed

lemma ssl_step_ok: "ssl_step w w' \<Longrightarrow> domain_ok w d \<Longrightarrow> domain_ok w' d"
proof (induction rule: ssl_step.induct)
  case (change w e subs)
  then show ?case by (cases "d = e") (auto simp: ssl_defs)
next
  case (delete w e)
  then show ?case by (cases "d = e") (auto simp: ssl_defs)
next
  case (request w e)
  then show ?case by (cases "d = e") (auto simp: ssl_defs)
next
  case (call e w now m started)
  then show ?case by (intro call_ok)
next
  case (read w e)
  then show ?case by (cases "d = e") (auto simp: ssl_defs read_names_def split: option.splits)
next
  case (issued w e ns)
  then show ?case by (cases "d = e") (auto simp: ssl_defs)
next
  case (dropped w e p ns)
  then show ?case by (cases "d = e") (auto simp: ssl_defs)
next
  case (failed w e p ns now)
  then show ?case by (cases "d = e") (auto simp: ssl_defs handleSSLError_def Let_def)
next
  case (saved w e ns)
  then show ?case by (cases "d = e") (auto simp: ssl_defs)
next
  case (ended w e m again)
  then show ?case by (intro ended_ok)
next
  case (looked st w e now)
  then show ?case by (cases "d = e") (auto simp: ssl_defs state_of_def new_state_def split: option.splits)
qed

lemma ssl_reach_ok: "ssl_reach w \<Longrightarrow> domain_ok w d"
proof (induction rule: ssl_reach.induct)
  case start
  then show ?case by (simp add: ssl_start_def ssl_defs)
next
  case (step w w')
  then show ?case by (blast intro: ssl_step_ok)
qed


text \<open>A domain is added and its certificate requested; a second request during the order cancels the run.\<close>

definition world1 :: ssl_world where
  "world1 = ssl_start\<lparr>w_subs := [''a.org'' \<mapsto> [Str_any ''www'']], w_changed := [''a.org'']\<rparr>"

definition world2 :: ssl_world where
  "world2 = world1\<lparr>w_spawned := [''a.org''], w_changed := []\<rparr>"

definition world3 :: ssl_world where
  "world3 = world2\<lparr>w_mgr := (w_mgr ssl_start)\<lparr>sm_runs := [(''a.org'', False)]\<rparr>, w_spawned := [], w_phase := [''a.org'' \<mapsto> Starting]\<rparr>"

definition world4 :: ssl_world where
  "world4 = world3\<lparr>w_phase := [''a.org'' \<mapsto> Ordering [''a.org'', ''www.a.org'']]\<rparr>"

definition world5 :: ssl_world where
  "world5 = world4\<lparr>w_phase := [''a.org'' \<mapsto> Saving [''a.org'', ''www.a.org'']]\<rparr>"

definition world6 :: ssl_world where
  "world6 = world5\<lparr>w_saved := [''a.org'' \<mapsto> [''a.org'', ''www.a.org'']], w_phase := [''a.org'' \<mapsto> Ending]\<rparr>"

definition world7 :: ssl_world where
  "world7 = world6\<lparr>w_mgr := w_mgr ssl_start, w_phase := (\<lambda>d. None)\<rparr>"

lemmas world_defs = world1_def world2_def world3_def world4_def world5_def world6_def world7_def ssl_start_def

lemma example_world: "ssl_reach world7"
proof -
  have r: "ssl_reach world1"
    using ssl_step.change [of ssl_start "''a.org''" "[Str_any ''www'']"] by (auto simp: world_defs intro: ssl_reach.intros)
  have s1: "ssl_step world1 world2" using ssl_step.request [of world1 "''a.org''"] by (simp add: world_defs)
  have s2: "ssl_step world2 world3"
    using ssl_step.call [of "''a.org''" world2 0 "(w_mgr ssl_start)\<lparr>sm_runs := [(''a.org'', False)]\<rparr>" True]
    by (simp add: world_defs ssl_begin_def)
  have s3: "ssl_step world3 world4"
    using ssl_step.read [of world3 "''a.org''"] by (simp add: world_defs read_names_def expectedNames_def)
  have s4: "ssl_step world4 world5"
    using ssl_step.issued [of world4 "''a.org''" "[''a.org'', ''www.a.org'']"] by (simp add: world_defs run_flag_def)
  have s5: "ssl_step world5 world6"
    using ssl_step.saved [of world5 "''a.org''" "[''a.org'', ''www.a.org'']"] by (simp add: world_defs)
  have s6: "ssl_step world6 world7"
    using ssl_step.ended [of world6 "''a.org''" "w_mgr ssl_start" False] by (simp add: world_defs ssl_end_def)
  show ?thesis by (rule ssl_reach.step [OF ssl_reach.step [OF ssl_reach.step [OF ssl_reach.step [OF ssl_reach.step [OF ssl_reach.step [OF r s1] s2] s3] s4] s5] s6])
qed


end
