(* ===== verification/Gpu.thy ===== *)
theory Gpu
  imports AppTable
begin

text \<open>
  The GPU request of an app (\<open>internal/gpu/gpu.go\<close>): the parser that turns an object of a payload into a checked
  specification, and the form in which it is stored.
\<close>

definition runtimeVendors :: "(string \<times> string) list" where
  "runtimeVendors = [(''nvidia'', ''nvidia''), (''rocm'', ''amd''), (''intel'', ''intel'')]"

definition vendorRuntimes :: "(string \<times> string) list" where
  "vendorRuntimes = [(''nvidia'', ''nvidia''), (''amd'', ''rocm''), (''intel'', ''intel'')]"

record gpu_spec =
  gs_vendor :: string
  gs_runtime :: string
  gs_count :: int

definition CountAll :: int where "CountAll = -1"

datatype gpu_error =
    No_object
  | No_names
  | Bad_vendor string
  | Bad_runtime string
  | Vendor_mismatch string string
  | Bad_gpu_count

definition validCount :: "int \<Rightarrow> bool \<Rightarrow> gpu_error + int" where
  "validCount n wellFormed = (if \<not> wellFormed \<or> n < 1 \<or> 64 < n then Inl Bad_gpu_count else Inr n)"

text \<open>A \<open>float64\<close> that is no integer of the machine differs from its conversion and back.\<close>

fun parseCount :: "any \<Rightarrow> gpu_error + int" where
  "parseCount Nil_any = Inr CountAll"
| "parseCount (Float_any f) = (case f of Fin r \<Rightarrow> validCount \<lfloor>r\<rfloor> (r = of_int \<lfloor>r\<rfloor>) | _ \<Rightarrow> Inl Bad_gpu_count)"
| "parseCount (Int_any i) = validCount i True"
| "parseCount (Str_any s) =
     (let t = to_lower (trim_space s)
      in if t = [] \<or> t = ''all'' then Inr CountAll
         else (case atoi t of None \<Rightarrow> Inl Bad_gpu_count | Some n \<Rightarrow> validCount n True))"
| "parseCount _ = Inl Bad_gpu_count"

definition gpu_lower :: "any \<Rightarrow> string" where
  "gpu_lower v = to_lower (trim_space (as_str v))"

definition gpu_names :: "string \<Rightarrow> string \<Rightarrow> gpu_error + string \<times> string" where
  "gpu_names vendor runtime0 =
     (if runtime0 = [] \<and> vendor = [] then Inl No_names
      else
        let runtime = (if runtime0 = [] then (case map_of vendorRuntimes vendor of None \<Rightarrow> [] | Some r \<Rightarrow> r) else runtime0)
        in if runtime = [] then Inl (Bad_vendor vendor)
           else (case map_of runtimeVendors runtime of
                   None \<Rightarrow> Inl (Bad_runtime runtime)
                 | Some want \<Rightarrow>
                     if vendor \<noteq> [] \<and> vendor \<noteq> want then Inl (Vendor_mismatch vendor runtime) else Inr (want, runtime)))"

definition gpu_Parse :: "any \<Rightarrow> gpu_error + gpu_spec option" where
  "gpu_Parse v =
     (if v = Nil_any then Inr None
      else (case as_map v of
              None \<Rightarrow> Inl No_object
            | Some raw \<Rightarrow>
                if raw = Map.empty then Inr None
                else (case gpu_names (gpu_lower (aget raw ''vendor'')) (gpu_lower (aget raw ''runtime'')) of
                        Inl e \<Rightarrow> Inl e
                      | Inr (vendor, runtime) \<Rightarrow>
                          (case parseCount (aget raw ''count'') of
                             Inl e \<Rightarrow> Inl e
                           | Inr n \<Rightarrow> Inr (Some \<lparr>gs_vendor = vendor, gs_runtime = runtime, gs_count = n\<rparr>)))))"

definition gpu_Map :: "gpu_spec \<Rightarrow> amap" where
  "gpu_Map s =
     [''vendor'' \<mapsto> Str_any (gs_vendor s), ''runtime'' \<mapsto> Str_any (gs_runtime s),
      ''count'' \<mapsto> (if gs_count s \<noteq> CountAll then Float_any (float_of_int (gs_count s)) else Str_any ''all'')]"

text \<open>\<open>parseGPURequest\<close> of \<open>internal/appmgr/create.go\<close>: the payload wins over the recipe.\<close>

definition parseGPURequest :: "any \<Rightarrow> any \<Rightarrow> gpu_error + gpu_spec option" where
  "parseGPURequest payload recipe =
     (case gpu_Parse payload of Inl e \<Rightarrow> Inl e | Inr (Some s) \<Rightarrow> Inr (Some s) | Inr None \<Rightarrow> gpu_Parse recipe)"

section \<open>What is stored reads back\<close>

definition gpu_ok :: "gpu_spec \<Rightarrow> bool" where
  "gpu_ok s \<longleftrightarrow> (gs_runtime s, gs_vendor s) \<in> set runtimeVendors \<and> (gs_count s = CountAll \<or> 1 \<le> gs_count s \<and> gs_count s \<le> 64)"

lemma gpu_names_Inr: "gpu_names v r = Inr (vendor, runtime) \<Longrightarrow> (runtime, vendor) \<in> set runtimeVendors"
  by (auto simp: gpu_names_def Let_def split: if_splits option.splits dest: map_of_SomeD)

lemma parseCount_Inr: "parseCount v = Inr n \<Longrightarrow> n = CountAll \<or> 1 \<le> n \<and> n \<le> 64"
  by (cases v) (auto simp: validCount_def Let_def split: float64.splits if_splits option.splits)

lemma gpu_Parse_ok: "gpu_Parse v = Inr (Some s) \<Longrightarrow> gpu_ok s"
proof -
  assume "gpu_Parse v = Inr (Some s)"
  then obtain raw vendor runtime n where "gpu_names (gpu_lower (aget raw ''vendor'')) (gpu_lower (aget raw ''runtime'')) = Inr (vendor, runtime)"
    "parseCount (aget raw ''count'') = Inr n" "s = \<lparr>gs_vendor = vendor, gs_runtime = runtime, gs_count = n\<rparr>"
    by (auto simp: gpu_Parse_def split: if_splits option.splits sum.splits)
  from gpu_names_Inr [OF this(1)] parseCount_Inr [OF this(2)] this(3) show ?thesis by (simp add: gpu_ok_def)
qed

lemma gpu_count_small: "1 \<le> n \<Longrightarrow> n \<le> 64 \<Longrightarrow> float_of_int n = Fin (of_int n)"
  using representable_of_int [of n] by (simp add: float_of_int_def representable_def)

lemma lower_known:
  "gpu_lower (Str_any ''nvidia'') = ''nvidia''" "gpu_lower (Str_any ''amd'') = ''amd''" "gpu_lower (Str_any ''rocm'') = ''rocm''"
  "gpu_lower (Str_any ''intel'') = ''intel''" "to_lower (trim_space ''all'') = ''all''"
  unfolding gpu_lower_def by code_simp+

lemma gpu_reads_back:
  assumes "gpu_ok s"
  shows "gpu_Parse (Map_any (gpu_Map s)) = Inr (Some s)"
proof -
  have n: "gpu_names (gpu_lower (Str_any (gs_vendor s))) (gpu_lower (Str_any (gs_runtime s))) = Inr (gs_vendor s, gs_runtime s)"
    using assms by (auto simp: gpu_ok_def runtimeVendors_def vendorRuntimes_def gpu_names_def lower_known Let_def)
  have c: "parseCount (aget (gpu_Map s) ''count'') = Inr (gs_count s)"
    using assms by (auto simp: gpu_Map_def aget_def gpu_ok_def CountAll_def lower_known gpu_count_small validCount_def)
  have "gpu_Map s \<noteq> Map.empty" by (simp add: gpu_Map_def)
  moreover have "aget (gpu_Map s) ''vendor'' = Str_any (gs_vendor s)" "aget (gpu_Map s) ''runtime'' = Str_any (gs_runtime s)"
    by (simp_all add: gpu_Map_def aget_def)
  ultimately show ?thesis by (simp add: gpu_Parse_def n c)
qed

text \<open>
  A GPU request that passes the parser names a known runtime with its vendor and all devices or between 1 and 64 of them,
  and the object that is stored for it passes the parser again as the same request.
\<close>

lemma gpu_request_stored: "gpu_Parse v = Inr (Some s) \<Longrightarrow> gpu_ok s \<and> gpu_Parse (Map_any (gpu_Map s)) = Inr (Some s)"
  using gpu_Parse_ok gpu_reads_back by blast

end
