(* ===== verification/TemplateOrder.thy ===== *)
theory TemplateOrder
  imports AppTable "HOL-Library.List_Lexorder" "HOL-Library.Char_ord"
begin

text \<open>
  The start order of the apps of a template (\<open>resolveTemplateDependencies\<close> of \<open>internal/appmgr/create.go\<close>): Kahn's
  algorithm over the \<open>linked\<close> lists. A template is an association list from keys to definitions.
\<close>

section \<open>The algorithm\<close>

type_synonym template = "(string \<times> any) list"

definition template_keys :: "template \<Rightarrow> string list" where
  "template_keys apps = sort (remdups (map fst apps))"

text \<open>The names that \<open>linked\<close> holds; what is no string counts as the empty one.\<close>

definition template_deps :: "template \<Rightarrow> string \<Rightarrow> string list" where
  "template_deps apps key =
     (case map_of apps key of
        None \<Rightarrow> []
      | Some v \<Rightarrow>
          (case as_map v of
             None \<Rightarrow> []
           | Some d \<Rightarrow> (case as_list (aget d ''linked'') of None \<Rightarrow> [] | Some ls \<Rightarrow> map as_str ls)))"

datatype template_error =
    Undefined_dependency string string
  | Circular_dependency

record kahn =
  kn_adj :: "string \<Rightarrow> string list"
  kn_deg :: "string \<Rightarrow> nat"

fun add_edges :: "string list \<Rightarrow> string \<Rightarrow> string list \<Rightarrow> kahn \<Rightarrow> template_error + kahn" where
  "add_edges keys key [] g = Inr g"
| "add_edges keys key (dep # deps) g =
     (if dep \<notin> set keys then Inl (Undefined_dependency dep key)
      else add_edges keys key deps
        (g\<lparr>kn_adj := (kn_adj g)(dep := kn_adj g dep @ [key]), kn_deg := (kn_deg g)(key := kn_deg g key + 1)\<rparr>))"

fun build_graph :: "template \<Rightarrow> string list \<Rightarrow> string list \<Rightarrow> kahn \<Rightarrow> template_error + kahn" where
  "build_graph apps keys [] g = Inr g"
| "build_graph apps keys (key # rest) g =
     (case add_edges keys key (template_deps apps key) g of Inl e \<Rightarrow> Inl e | Inr g' \<Rightarrow> build_graph apps keys rest g')"

fun relax :: "string list \<Rightarrow> (string \<Rightarrow> nat) \<Rightarrow> string list \<Rightarrow> (string \<Rightarrow> nat) \<times> string list" where
  "relax [] deg queue = (deg, queue)"
| "relax (n # ns) deg queue =
     (let d = deg n - 1 in relax ns (deg(n := d)) (if d = 0 then queue @ [n] else queue))"

text \<open>Every round takes one node; the fuel bounds their number.\<close>

fun kahn_loop :: "nat \<Rightarrow> (string \<Rightarrow> string list) \<Rightarrow> (string \<Rightarrow> nat) \<Rightarrow> string list \<Rightarrow> string list \<Rightarrow> string list option" where
  "kahn_loop fuel adj deg [] ordered = Some ordered"
| "kahn_loop 0 adj deg (node # queue) ordered = None"
| "kahn_loop (Suc fuel) adj deg (node # queue) ordered =
     (case relax (adj node) deg queue of (deg', queue') \<Rightarrow> kahn_loop fuel adj deg' queue' (ordered @ [node]))"

definition resolveTemplateDependencies :: "template \<Rightarrow> (template_error + string list) option" where
  "resolveTemplateDependencies apps =
     (let keys = template_keys apps
      in case build_graph apps keys keys \<lparr>kn_adj = (\<lambda>k. []), kn_deg = (\<lambda>k. 0)\<rparr> of
           Inl e \<Rightarrow> Some (Inl e)
         | Inr g \<Rightarrow>
             map_option (\<lambda>order. if length order \<noteq> length keys then Inl Circular_dependency else Inr order)
               (kahn_loop (length keys) (kn_adj g) (kn_deg g) (filter (\<lambda>k. kn_deg g k = 0) keys) []))"

section \<open>The graph\<close>

definition count_of :: "'a \<Rightarrow> 'a list \<Rightarrow> nat" where
  "count_of x xs = length (filter (\<lambda>y. y = x) xs)"

lemma count_of_simps [simp]: "count_of x [] = 0" "count_of x (y # ys) = (if y = x then Suc (count_of x ys) else count_of x ys)"
  "count_of x (ys @ zs) = count_of x ys + count_of x zs"
  by (simp_all add: count_of_def)

lemma count_of_pos: "0 < count_of x xs \<longleftrightarrow> x \<in> set xs"
  by (induction xs) auto

lemma count_of_replicate [simp]: "count_of x (replicate n y) = (if x = y then n else 0)"
  by (induction n) auto

lemma replicate_append_same: "replicate n x @ x # ys = replicate (Suc n) x @ ys"
  by (simp add: replicate_app_Cons_same)

lemma add_edges_Inr:
  "add_edges keys key deps g = Inr g' \<Longrightarrow> set deps \<subseteq> set keys
    \<and> (\<forall>d. kn_adj g' d = kn_adj g d @ replicate (count_of d deps) key)
    \<and> (\<forall>n. kn_deg g' n = kn_deg g n + (if n = key then length deps else 0))"
proof (induction deps arbitrary: g)
  case (Cons dep deps)
  then have "dep \<in> set keys" by (auto split: if_splits)
  with Cons.prems have "add_edges keys key deps
      (g\<lparr>kn_adj := (kn_adj g)(dep := kn_adj g dep @ [key]), kn_deg := (kn_deg g)(key := kn_deg g key + 1)\<rparr>) = Inr g'" by simp
  from Cons.IH [OF this] \<open>dep \<in> set keys\<close> show ?case by auto
qed simp

lemma add_edges_Inl:
  "add_edges keys key deps g = Inl e \<Longrightarrow> \<exists>d \<in> set deps. d \<notin> set keys \<and> e = Undefined_dependency d key"
  by (induction deps arbitrary: g) (auto split: if_splits)

lemma build_graph_Inr:
  "build_graph apps keys ks g = Inr g' \<Longrightarrow> distinct ks \<Longrightarrow> (\<forall>k \<in> set ks. set (template_deps apps k) \<subseteq> set keys)
    \<and> (\<forall>d. kn_adj g' d = kn_adj g d @ concat (map (\<lambda>k. replicate (count_of d (template_deps apps k)) k) ks))
    \<and> (\<forall>n. kn_deg g' n = kn_deg g n + (if n \<in> set ks then length (template_deps apps n) else 0))"
proof (induction ks arbitrary: g)
  case (Cons k ks)
  then obtain g1 where g1: "add_edges keys k (template_deps apps k) g = Inr g1" "build_graph apps keys ks g1 = Inr g'"
    by (auto split: sum.splits)
  note a = add_edges_Inr [OF g1(1)]
  have "distinct ks" "k \<notin> set ks" using Cons.prems(2) by simp_all
  from Cons.IH [OF g1(2) this(1)] a this(2) show ?case by auto
qed simp

lemma build_graph_Inl:
  "build_graph apps keys ks g = Inl e \<Longrightarrow> \<exists>k \<in> set ks. \<exists>d \<in> set (template_deps apps k). d \<notin> set keys \<and> e = Undefined_dependency d k"
  by (induction ks arbitrary: g) (auto split: sum.splits dest: add_edges_Inl)

section \<open>The loop\<close>

text \<open>What one node's neighbours lose, and who joins the queue.\<close>

lemma relax_spec:
  "relax ns deg queue = (deg', queue') \<Longrightarrow> (\<forall>n. count_of n ns \<le> deg n) \<Longrightarrow>
    (\<forall>n. deg' n = deg n - count_of n ns)
    \<and> (\<exists>new. queue' = queue @ new \<and> distinct new \<and> set new = {n. n \<in> set ns \<and> count_of n ns = deg n})"
proof (induction ns arbitrary: deg queue)
  case Nil
  then show ?case by simp
next
  case (Cons m ns)
  let ?deg = "deg(m := deg m - 1)"
  let ?q = "if deg m - 1 = 0 then queue @ [m] else queue"
  have r: "relax ns ?deg ?q = (deg', queue')" using Cons.prems(1) by (simp add: Let_def)
  have c: "count_of n ns \<le> ?deg n" for n using Cons.prems(2) [rule_format, of n] by (auto split: if_splits)
  from Cons.IH [OF r] c obtain new where
    d: "\<forall>n. deg' n = ?deg n - count_of n ns" and q: "queue' = ?q @ new" "distinct new" "set new = {n. n \<in> set ns \<and> count_of n ns = ?deg n}"
    by blast
  have m: "Suc (count_of m ns) \<le> deg m" using Cons.prems(2) [rule_format, of m] by simp
  have deg: "\<forall>n. deg' n = deg n - count_of n (m # ns)" using d by auto
  show ?case
  proof (cases "deg m = 1")
    case True
    then have z: "count_of m ns = 0" using m by simp
    then have "m \<notin> set ns" using count_of_pos [of m ns] by simp
    then have "m \<notin> set new" using q(3) by simp
    moreover have "n \<in> set (m # new) \<longleftrightarrow> n \<in> set (m # ns) \<and> count_of n (m # ns) = deg n" for n
      using q(3) True z \<open>m \<notin> set new\<close> by (cases "n = m") simp_all
    then have "set (m # new) = {n. n \<in> set (m # ns) \<and> count_of n (m # ns) = deg n}" by blast
    moreover have "queue' = queue @ m # new" using q(1) True by simp
    ultimately show ?thesis using deg q(2) by (intro conjI exI [of _ "m # new"]) simp_all
  next
    case False
    have "n \<in> set new \<longleftrightarrow> n \<in> set (m # ns) \<and> count_of n (m # ns) = deg n" for n
    proof (cases "n = m")
      case True
      then show ?thesis using q(3) False m count_of_pos [of m ns] by (simp add: le_eq_less_or_eq) linarith
    next
      case False
      then show ?thesis using q(3) by simp
    qed
    then have "set new = {n. n \<in> set (m # ns) \<and> count_of n (m # ns) = deg n}" by blast
    moreover have "queue' = queue @ new" using q(1) False m by simp
    ultimately show ?thesis using deg q(2) by (intro conjI exI [of _ new])
  qed
qed

lemma filter_without_count:
  "P x \<Longrightarrow> length (filter (\<lambda>y. P y \<and> y \<noteq> x) ys) = length (filter P ys) - count_of x ys \<and> count_of x ys \<le> length (filter P ys)"
  by (induction ys) (auto simp: Suc_diff_le)

locale dependency_graph =
  fixes keys :: "string list" and deps :: "string \<Rightarrow> string list" and adj :: "string \<Rightarrow> string list"
  assumes keys_distinct: "distinct keys"
    and deps_keys: "k \<in> set keys \<Longrightarrow> set (deps k) \<subseteq> set keys"
    and adj_count: "count_of n (adj d) = (if n \<in> set keys then count_of d (deps n) else 0)"
begin

definition open_deps :: "string list \<Rightarrow> string \<Rightarrow> nat" where
  "open_deps ordered n = length (filter (\<lambda>d. d \<notin> set ordered) (deps n))"

text \<open>The state of the loop: what is ordered, what waits, and the dependencies that are still open.\<close>

definition loop_ok :: "(string \<Rightarrow> nat) \<Rightarrow> string list \<Rightarrow> string list \<Rightarrow> bool" where
  "loop_ok deg queue ordered \<longleftrightarrow>
     distinct (ordered @ queue) \<and> set (ordered @ queue) = {k \<in> set keys. deg k = 0}
     \<and> (\<forall>k \<in> set keys. deg k = open_deps ordered k)
     \<and> (\<forall>i < length ordered. set (deps (ordered ! i)) \<subseteq> set (take i ordered))"

lemma open_deps_next: "node \<notin> set ordered \<Longrightarrow> open_deps (ordered @ [node]) n = open_deps ordered n - count_of node (deps n)"
  and count_open: "node \<notin> set ordered \<Longrightarrow> count_of node (deps n) \<le> open_deps ordered n"
  using filter_without_count [of "\<lambda>d. d \<notin> set ordered" node "deps n"] by (simp_all add: open_deps_def conj_commute)

lemma loop_ok_step:
  assumes ok: "loop_ok deg (node # queue) ordered" and r: "relax (adj node) deg queue = (deg', queue')"
  shows "loop_ok deg' queue' (ordered @ [node])"
proof -
  have node: "node \<in> set keys" "deg node = 0" "node \<notin> set ordered" "node \<notin> set queue"
    using ok by (auto simp: loop_ok_def)
  have od: "k \<in> set keys \<Longrightarrow> deg k = open_deps ordered k" for k using ok by (simp add: loop_ok_def)
  have le: "\<forall>n. count_of n (adj node) \<le> deg n"
    using od count_open [OF node(3)] by (auto simp: adj_count)
  from relax_spec [OF r le] obtain new where
    d: "\<And>n. deg' n = deg n - count_of n (adj node)" and q: "queue' = queue @ new" "distinct new"
      "set new = {n. n \<in> set (adj node) \<and> count_of n (adj node) = deg n}" by blast
  have new: "n \<in> set new \<longleftrightarrow> n \<in> set keys \<and> 0 < deg n \<and> deg' n = 0" for n
    using le [rule_format, of n] count_of_pos [of n "adj node"] adj_count [of n node]
    by (auto simp: q(3) d split: if_splits)
  have zero: "deg k = 0 \<Longrightarrow> deg' k = 0" for k by (simp add: d)
  have all: "k \<in> set ordered \<or> k = node \<or> k \<in> set queue \<longleftrightarrow> k \<in> set keys \<and> deg k = 0" for k
    using ok by (auto simp: loop_ok_def)
  have "x \<notin> set ordered \<and> x \<noteq> node \<and> x \<notin> set queue" if "x \<in> set new" for x
    using that all [of x] new [of x] by simp
  moreover have "distinct (ordered @ node # queue)" using ok by (simp only: loop_ok_def)
  ultimately have "distinct ((ordered @ [node]) @ queue')"
    using q(2) by (auto simp: q(1))
  moreover have "x \<in> set ((ordered @ [node]) @ queue') \<longleftrightarrow> x \<in> set keys \<and> deg' x = 0" for x
    using all [of x] new [of x] zero [of x] by (auto simp: q(1))
  then have "set ((ordered @ [node]) @ queue') = {k \<in> set keys. deg' k = 0}" by blast
  moreover have "\<forall>k \<in> set keys. deg' k = open_deps (ordered @ [node]) k"
    using od open_deps_next [OF node(3)] by (simp add: d adj_count)
  moreover have "\<forall>i < length (ordered @ [node]). set (deps ((ordered @ [node]) ! i)) \<subseteq> set (take i (ordered @ [node]))"
  proof (intro allI impI)
    fix i assume i: "i < length (ordered @ [node])"
    show "set (deps ((ordered @ [node]) ! i)) \<subseteq> set (take i (ordered @ [node]))"
    proof (cases "i < length ordered")
      case True
      then show ?thesis using ok by (auto simp: loop_ok_def nth_append)
    next
      case False
      then have "i = length ordered" using i by simp
      moreover have "filter (\<lambda>d. d \<notin> set ordered) (deps node) = []" using od [OF node(1)] node(2) by (simp add: open_deps_def)
      ultimately show ?thesis by (auto simp: filter_empty_conv)
    qed
  qed
  ultimately show ?thesis by (simp only: loop_ok_def)
qed

lemma sorted_bound:
  assumes "loop_ok deg queue ordered"
  shows "length ordered + length queue \<le> length keys"
proof -
  have d: "distinct (ordered @ queue)" and s: "set (ordered @ queue) \<subseteq> set keys" using assms unfolding loop_ok_def by blast+
  have "length (ordered @ queue) = card (set (ordered @ queue))" by (rule distinct_card [OF d, symmetric])
  also have "\<dots> \<le> card (set keys)" by (rule card_mono [OF List.finite_set s])
  also have "\<dots> = length keys" by (rule distinct_card [OF keys_distinct])
  finally show ?thesis by simp
qed

lemma kahn_loop_ok:
  "loop_ok deg queue ordered \<Longrightarrow> length keys \<le> fuel + length ordered \<Longrightarrow>
    \<exists>order deg'. kahn_loop fuel adj deg queue ordered = Some order \<and> loop_ok deg' [] order"
proof (induction fuel arbitrary: deg queue ordered)
  case 0
  then have "length queue = 0" using sorted_bound [OF 0(1)] by linarith
  then show ?case using 0 by auto
next
  case (Suc fuel)
  show ?case
  proof (cases queue)
    case Nil
    then show ?thesis using Suc.prems by auto
  next
    case (Cons node rest)
    obtain deg' queue' where r: "relax (adj node) deg rest = (deg', queue')" by fastforce
    have "loop_ok deg' queue' (ordered @ [node])" using loop_ok_step Suc.prems(1) r Cons by blast
    then show ?thesis using Suc.IH [of deg' queue' "ordered @ [node]"] Suc.prems(2) Cons r by simp
  qed
qed

text \<open>What an unfinished order leaves: every key in it waits for another one.\<close>

lemma stuck:
  assumes "loop_ok deg [] order" and "length order \<noteq> length keys"
  shows "set keys - set order \<noteq> {} \<and> (\<forall>k \<in> set keys - set order. \<exists>d \<in> set (deps k). d \<in> set keys - set order)"
proof -
  have d: "distinct order" "set order = {k \<in> set keys. deg k = 0}" using assms(1) by (auto simp: loop_ok_def)
  have "set keys - set order \<noteq> {}"
  proof
    assume "set keys - set order = {}"
    then have "set order = set keys" using d(2) by auto
    then show False using assms(2) keys_distinct d(1) distinct_card by metis
  qed
  moreover have "\<exists>e \<in> set (deps k). e \<in> set keys - set order" if k: "k \<in> set keys - set order" for k
  proof -
    have "0 < open_deps order k" using k d(2) assms(1) by (auto simp: loop_ok_def)
    then have "filter (\<lambda>e. e \<notin> set order) (deps k) \<noteq> []" by (simp add: open_deps_def)
    then obtain e where "e \<in> set (deps k)" "e \<notin> set order" by (auto simp: filter_empty_conv)
    then show ?thesis using deps_keys k by auto
  qed
  ultimately show ?thesis by blast
qed

lemma finished:
  assumes "loop_ok deg [] order" and "length order = length keys"
  shows "distinct order \<and> set order = set keys \<and> (\<forall>i < length order. set (deps (order ! i)) \<subseteq> set (take i order))"
proof -
  have d: "distinct order" "set order \<subseteq> set keys" using assms(1) by (auto simp: loop_ok_def)
  then have "card (set order) = card (set keys)" using assms(2) keys_distinct by (simp add: distinct_card)
  then show ?thesis using d assms(1) card_subset_eq [of "set keys" "set order"] by (auto simp: loop_ok_def)
qed

end

section \<open>The order of a template\<close>

lemma template_keys_set [simp]: "distinct (template_keys apps)" "set (template_keys apps) = fst ` set apps"
  by (simp_all add: template_keys_def)

text \<open>The graph of a template: the dependencies that it defines, and who waits for whom.\<close>

definition defined_deps :: "template \<Rightarrow> string \<Rightarrow> string list" where
  "defined_deps apps k = filter (\<lambda>d. d \<in> fst ` set apps) (template_deps apps k)"

definition neighbours :: "template \<Rightarrow> string \<Rightarrow> string list" where
  "neighbours apps d = concat (map (\<lambda>k. replicate (count_of d (defined_deps apps k)) k) (template_keys apps))"

lemma count_concat_replicate:
  "distinct ks \<Longrightarrow> count_of n (concat (map (\<lambda>k. replicate (f k) k) ks)) = (if n \<in> set ks then f n else 0)"
  by (induction ks) auto

interpretation kahn: dependency_graph "template_keys apps" "defined_deps apps" "neighbours apps" for apps
  by unfold_locales (auto simp: defined_deps_def neighbours_def count_concat_replicate)

definition all_defined :: "template \<Rightarrow> bool" where
  "all_defined apps \<longleftrightarrow> (\<forall>k \<in> fst ` set apps. set (template_deps apps k) \<subseteq> fst ` set apps)"

lemma all_defined_deps: "all_defined apps \<Longrightarrow> k \<in> fst ` set apps \<Longrightarrow> defined_deps apps k = template_deps apps k"
  by (auto simp: all_defined_def defined_deps_def filter_id_conv)

lemma build_graph_template:
  assumes "build_graph apps (template_keys apps) (template_keys apps) \<lparr>kn_adj = (\<lambda>k. []), kn_deg = (\<lambda>k. 0)\<rparr> = Inr g"
  shows "all_defined apps" and "kn_adj g = neighbours apps"
    and "kn_deg g = (\<lambda>n. if n \<in> fst ` set apps then length (template_deps apps n) else 0)"
proof -
  note b = build_graph_Inr [OF assms template_keys_set(1)]
  show a: "all_defined apps" using b by (auto simp: all_defined_def)
  have "concat (map (\<lambda>k. replicate (count_of d (template_deps apps k)) k) (template_keys apps)) = neighbours apps d" for d
    unfolding neighbours_def by (intro arg_cong [of _ _ concat] map_cong refl) (simp add: all_defined_deps [OF a])
  then show "kn_adj g = neighbours apps" using b by (simp add: fun_eq_iff)
  show "kn_deg g = (\<lambda>n. if n \<in> fst ` set apps then length (template_deps apps n) else 0)"
    using b by (auto simp: fun_eq_iff)
qed

lemma start_loop_ok:
  assumes "all_defined apps"
  shows "kahn.loop_ok apps (\<lambda>n. if n \<in> fst ` set apps then length (template_deps apps n) else 0)
    (filter (\<lambda>k. length (template_deps apps k) = 0) (template_keys apps)) []"
  using all_defined_deps [OF assms] by (auto simp: kahn.loop_ok_def kahn.open_deps_def)

text \<open>The dependencies of the app at \<open>i\<close> have been started before it.\<close>

definition starts_in_order :: "template \<Rightarrow> string list \<Rightarrow> bool" where
  "starts_in_order apps order \<longleftrightarrow> distinct order \<and> set order = fst ` set apps
     \<and> (\<forall>i < length order. set (template_deps apps (order ! i)) \<subseteq> set (take i order))"

text \<open>Apps that all wait for one another; no order can start any of them first.\<close>

definition waits_for_itself :: "template \<Rightarrow> string set \<Rightarrow> bool" where
  "waits_for_itself apps R \<longleftrightarrow> R \<noteq> {} \<and> R \<subseteq> fst ` set apps \<and> (\<forall>k \<in> R. \<exists>d \<in> set (template_deps apps k). d \<in> R)"

lemma waiting_no_order: "waits_for_itself apps R \<Longrightarrow> \<not> starts_in_order apps order"
proof
  assume w: "waits_for_itself apps R" and s: "starts_in_order apps order"
  have "order ! i \<notin> R" if "i < length order" for i using that
  proof (induction i rule: less_induct)
    case (less i)
    show ?case
    proof
      assume "order ! i \<in> R"
      then obtain d where d: "d \<in> set (template_deps apps (order ! i))" "d \<in> R" using w by (auto simp: waits_for_itself_def)
      then have "d \<in> set (take i order)" using s less.prems by (auto simp: starts_in_order_def)
      then obtain j where "j < i" "d = order ! j" using less.prems by (auto simp: in_set_conv_nth)
      then show False using less d(2) by simp
    qed
  qed
  moreover have "R \<noteq> {}" "R \<subseteq> set order" using w s by (simp_all add: waits_for_itself_def starts_in_order_def)
  then obtain i where "i < length order" "order ! i \<in> R" by (metis equals0I in_set_conv_nth subsetD)
  ultimately show False by simp
qed

lemma resolve_cases:
  "case resolveTemplateDependencies apps of
     None \<Rightarrow> False
   | Some (Inr order) \<Rightarrow> starts_in_order apps order
   | Some (Inl (Undefined_dependency d k)) \<Rightarrow> k \<in> fst ` set apps \<and> d \<in> set (template_deps apps k) \<and> d \<notin> fst ` set apps
   | Some (Inl Circular_dependency) \<Rightarrow> all_defined apps \<and> (\<exists>R. waits_for_itself apps R)"
proof (cases "build_graph apps (template_keys apps) (template_keys apps) \<lparr>kn_adj = (\<lambda>k. []), kn_deg = (\<lambda>k. 0)\<rparr>")
  case (Inl e)
  from build_graph_Inl [OF Inl] obtain k d where "k \<in> fst ` set apps" "d \<in> set (template_deps apps k)"
    "d \<notin> fst ` set apps" "e = Undefined_dependency d k" by (simp only: template_keys_set) blast
  then show ?thesis using Inl by (simp add: resolveTemplateDependencies_def Let_def)
next
  case (Inr g)
  note b = build_graph_template [OF Inr]
  have q: "filter (\<lambda>k. kn_deg g k = 0) (template_keys apps) = filter (\<lambda>k. length (template_deps apps k) = 0) (template_keys apps)"
    by (rule filter_cong) (auto simp: b(3))
  have "kahn.loop_ok apps (kn_deg g) (filter (\<lambda>k. kn_deg g k = 0) (template_keys apps)) []"
    unfolding q unfolding b(3) by (rule start_loop_ok [OF b(1)])
  from kahn.kahn_loop_ok [OF this, of "length (template_keys apps)"]
  obtain order deg where "kahn_loop (length (template_keys apps)) (neighbours apps) (kn_deg g)
      (filter (\<lambda>k. kn_deg g k = 0) (template_keys apps)) [] = Some order" and o2: "kahn.loop_ok apps deg [] order" by force
  then have o: "kahn_loop (length (template_keys apps)) (kn_adj g) (kn_deg g) (filter (\<lambda>k. kn_deg g k = 0) (template_keys apps)) [] = Some order"
    by (simp only: b(2))
  have dd: "k \<in> fst ` set apps \<Longrightarrow> defined_deps apps k = template_deps apps k" for k by (rule all_defined_deps [OF b(1)])
  show ?thesis
  proof (cases "length order = length (template_keys apps)")
    case True
    have f: "distinct order" "set order = fst ` set apps" "\<forall>i < length order. set (defined_deps apps (order ! i)) \<subseteq> set (take i order)"
      using kahn.finished [OF o2 True] by simp_all
    have "order ! i \<in> fst ` set apps" if "i < length order" for i using f(2) nth_mem [OF that] by simp
    then have "starts_in_order apps order" using f dd by (simp add: starts_in_order_def)
    then show ?thesis using Inr o True by (simp add: resolveTemplateDependencies_def Let_def)
  next
    case False
    have "waits_for_itself apps (fst ` set apps - set order)"
      using kahn.stuck [OF o2 False] dd by (simp add: waits_for_itself_def)
    then show ?thesis using Inr o False b(1) by (auto simp: resolveTemplateDependencies_def Let_def)
  qed
qed

text \<open>
  C27. Ordering the apps of a template always ends. The order it returns holds every app once, behind everything that the
  app links to; when it names an undefined link, some app has this link and no app of the template has this name; and when
  it reports a circle, no such order exists.
\<close>

theorem template_order_correct:
  "\<exists>r. resolveTemplateDependencies apps = Some r
    \<and> (case r of
         Inr order \<Rightarrow> starts_in_order apps order
       | Inl (Undefined_dependency d k) \<Rightarrow> k \<in> fst ` set apps \<and> d \<in> set (template_deps apps k) \<and> d \<notin> fst ` set apps
       | Inl Circular_dependency \<Rightarrow> (\<nexists>order. starts_in_order apps order))"
  using resolve_cases [of apps]
  by (auto split: option.splits sum.splits template_error.splits dest: waiting_no_order)

end
