(* ===== verification/AppRecipes.thy ===== *)
theory AppRecipes
  imports Gpu TemplateOrder AppSettings
begin

text \<open>
  What a recipe of an app is turned into (\<open>internal/appmgr/create.go\<close>): its name, its command, the environment with its
  directives and references, and the configuration files that are written for it. Random secrets, the JSON printer and the
  outcomes of file operations are parameters.
\<close>

section \<open>Names and commands\<close>

definition validAppName :: "string \<Rightarrow> bool" where
  "validAppName name =
     (case name of [] \<Rightarrow> False | c # cs \<Rightarrow> alphanumeric c \<and> length cs \<le> 62 \<and> list_all (\<lambda>d. alphanumeric d \<or> d = CHR ''-'') cs)"

fun normalizeCmd :: "any \<Rightarrow> any" where
  "normalizeCmd (List_any xs) = (if xs = [] then Nil_any else List_any xs)"
| "normalizeCmd (Str_any s) = (if str_fields s = [] then Nil_any else List_any (map Str_any (str_fields s)))"
| "normalizeCmd _ = Nil_any"

text \<open>Decoded arrays without what is no map.\<close>

definition toMapSlice :: "any \<Rightarrow> amap list" where
  "toMapSlice v = (case as_list v of None \<Rightarrow> [] | Some vs \<Rightarrow> List.map_filter as_map vs)"

section \<open>Environment\<close>

definition secret_length :: "amap \<Rightarrow> int" where
  "secret_length d =
     (case jsNumber (aget d ''length'') of Some (Fin r) \<Rightarrow> if 0 < r then \<lfloor>r\<rfloor> else 16 | _ \<Rightarrow> 16)"

text \<open>\<open>gen\<close> is the password generator's answer for this place.\<close>

definition resolveEnvDirective :: "(int \<Rightarrow> string) \<Rightarrow> amap \<Rightarrow> string \<Rightarrow> any" where
  "resolveEnvDirective gen d container =
     (let typ0 = as_str (aget d ''type'');
          typ = (if typ0 = [] \<and> d ''generate'' \<noteq> None then ''generate'' else typ0)
      in if typ = ''container'' then Str_any container
         else if typ = ''generate'' then Str_any (gen (secret_length d))
         else Map_any d)"

definition prepareEnv :: "(string \<Rightarrow> int \<Rightarrow> string) \<Rightarrow> amap \<Rightarrow> string \<Rightarrow> amap" where
  "prepareEnv gen env container =
     (\<lambda>k. map_option (\<lambda>v. case as_map v of None \<Rightarrow> v | Some d \<Rightarrow> resolveEnvDirective (gen k) d container) (env k))"

text \<open>
  The keys of a map of seen values must be comparable: with a map or a list among the links the code panics, which is
  \<^const>\<open>None\<close>.
\<close>

definition comparable :: "any \<Rightarrow> bool" where
  "comparable v \<longleftrightarrow> (case v of List_any _ \<Rightarrow> False | Map_any _ \<Rightarrow> False | _ \<Rightarrow> True)"

fun union_links :: "any list \<Rightarrow> any list \<Rightarrow> any list option" where
  "union_links seen [] = Some []"
| "union_links seen (l # ls) =
     (if \<not> comparable l then None
      else if list_ex (\<lambda>s. any_eq s l) seen then union_links seen ls
      else map_option ((#) l) (union_links (l # seen) ls))"

definition list_of :: "any \<Rightarrow> any list" where
  "list_of v = (case as_list v of None \<Rightarrow> [] | Some vs \<Rightarrow> vs)"

definition map_of_any :: "any \<Rightarrow> amap" where
  "map_of_any v = (case as_map v of None \<Rightarrow> Map.empty | Some m \<Rightarrow> m)"

definition mergeRecipeEnv :: "(bool \<Rightarrow> string \<Rightarrow> int \<Rightarrow> string) \<Rightarrow> amap \<Rightarrow> amap option \<Rightarrow> string \<Rightarrow> amap option" where
  "mergeRecipeEnv gen recipe userEnv container =
     (let default = prepareEnv (gen False) (map_of_any (aget recipe ''env'')) container;
          user = prepareEnv (gen True) (getManualEnv userEnv) container
      in map_option (\<lambda>linked. [''manual'' \<mapsto> Map_any (default ++ user), ''linked'' \<mapsto> List_any linked])
           (union_links [] (list_of (aget recipe ''linked'') @ env_links userEnv)))"

section \<open>References between the apps of a template\<close>

definition var_char :: "char \<Rightarrow> bool" where
  "var_char c \<longleftrightarrow> alphanumeric c \<or> c = CHR ''_''"

definition var_path_char :: "char \<Rightarrow> bool" where
  "var_path_char c \<longleftrightarrow> var_char c \<or> c = CHR ''.''"

text \<open>A reference at the front of a text: its app, its path and the rest.\<close>

definition templateVarRE :: "string \<Rightarrow> (string \<times> string \<times> string) option" where
  "templateVarRE s =
     (if \<not> has_prefix s ''${'' then None
      else
        let k = takeWhile var_char (drop 2 s)
        in case dropWhile var_char (drop 2 s) of
             [] \<Rightarrow> None
           | c # r \<Rightarrow>
               if k = [] \<or> c \<noteq> CHR ''.'' then None
               else
                 let p = takeWhile var_path_char r
                 in case dropWhile var_path_char r of
                      [] \<Rightarrow> None
                    | d # rest \<Rightarrow> if p = [] \<or> d \<noteq> CHR ''}'' then None else Some (k, p, rest))"

lemma templateVarRE_shorter: "templateVarRE s = Some (k, p, rest) \<Longrightarrow> length rest < length s"
proof -
  assume "templateVarRE s = Some (k, p, rest)"
  then obtain c r d where r: "dropWhile var_char (drop 2 s) = c # r" and d: "dropWhile var_path_char r = d # rest"
    by (auto simp: templateVarRE_def Let_def split: if_splits list.splits)
  have "length (d # rest) \<le> length r" using d length_dropWhile_le [of var_path_char r] by simp
  moreover have "length (c # r) \<le> length (drop 2 s)" using r length_dropWhile_le [of var_char "drop 2 s"] by simp
  ultimately show ?thesis by simp
qed

function expand :: "(string \<Rightarrow> string \<Rightarrow> string option) \<Rightarrow> string \<Rightarrow> string" where
  "expand f [] = []"
| "expand f (c # cs) =
     (case templateVarRE (c # cs) of
        None \<Rightarrow> c # expand f cs
      | Some (k, p, rest) \<Rightarrow>
          (case f k p of None \<Rightarrow> take (length (c # cs) - length rest) (c # cs) | Some v \<Rightarrow> v) @ expand f rest)"
  by pat_completeness auto
termination
  by (relation "measure (\<lambda>(f, s). length s)") (auto dest: templateVarRE_shorter)

fun walk_path :: "any \<Rightarrow> string list \<Rightarrow> any option" where
  "walk_path v [] = Some v"
| "walk_path v (p # ps) =
     (case as_map v of None \<Rightarrow> None | Some m \<Rightarrow> (case m p of None \<Rightarrow> None | Some w \<Rightarrow> walk_path w ps))"

definition resolve_var :: "amap \<Rightarrow> string \<Rightarrow> string \<Rightarrow> string option" where
  "resolve_var context k p =
     (case context k of
        None \<Rightarrow> None
      | Some v \<Rightarrow> if as_map v = None then None else map_option jsString (walk_path v (split_byte CHR ''.'' p)))"

definition interpolateTemplateVars :: "amap \<Rightarrow> amap \<Rightarrow> amap" where
  "interpolateTemplateVars env context =
     (\<lambda>k. map_option (\<lambda>v. case v of Str_any s \<Rightarrow> Str_any (expand (resolve_var context) s) | _ \<Rightarrow> v) (env k))"

section \<open>Configuration files\<close>

text \<open>The body of a file; \<^const>\<open>None\<close> is an error of the JSON printer.\<close>

definition configContent :: "(any \<Rightarrow> string option) \<Rightarrow> any \<Rightarrow> string option" where
  "configContent marshal content =
     (case content of
        Str_any s \<Rightarrow> Some s
      | List_any vs \<Rightarrow>
          if list_all (\<lambda>v. case v of Str_any _ \<Rightarrow> True | _ \<Rightarrow> False) vs
          then Some (if vs = [] then [] else join_str (map as_str vs) [nl] @ [nl])
          else marshal content
      | _ \<Rightarrow> marshal content)"

text \<open>Where the file of an entry goes on the host and in the container; \<^const>\<open>None\<close> is an entry that is skipped.\<close>

definition config_place :: "string \<Rightarrow> string \<Rightarrow> (string \<times> string) option" where
  "config_place appDir cfgPath =
     (let configBase = path_Join [appDir, ''configs'']; target = path_Clean cfgPath; hostFile = path_Join [configBase, target]
      in if \<not> path_IsAbs target then None
         else if \<not> has_prefix (path_Clean hostFile) (configBase @ ''/'') then None
         else Some (hostFile, target))"

definition config_entry :: "any \<Rightarrow> (string \<times> any) option" where
  "config_entry raw =
     (case as_map raw of
        None \<Rightarrow> None
      | Some cfg \<Rightarrow>
          if as_str (aget cfg ''path'') = [] \<or> aget cfg ''content'' = Nil_any then None
          else Some (as_str (aget cfg ''path''), aget cfg ''content''))"

definition config_volume :: "string \<Rightarrow> string \<Rightarrow> any" where
  "config_volume hostFile target = Map_any [''host'' \<mapsto> Str_any hostFile, ''container'' \<mapsto> Str_any target]"

text \<open>The files that are written, the volumes, and whether an error ended it.\<close>

fun writeConfigFiles :: "(any \<Rightarrow> string option) \<Rightarrow> (string \<Rightarrow> bool) \<Rightarrow> (string \<Rightarrow> bool) \<Rightarrow> string \<Rightarrow> any list
    \<Rightarrow> (string \<times> string) list \<times> any list \<times> bool" where
  "writeConfigFiles marshal mkdir_ok write_ok appDir [] = ([], [], False)"
| "writeConfigFiles marshal mkdir_ok write_ok appDir (raw # raws) =
     (case config_entry raw of
        None \<Rightarrow> writeConfigFiles marshal mkdir_ok write_ok appDir raws
      | Some (cfgPath, content) \<Rightarrow>
          (case config_place appDir cfgPath of
             None \<Rightarrow> writeConfigFiles marshal mkdir_ok write_ok appDir raws
           | Some (hostFile, target) \<Rightarrow>
               if \<not> mkdir_ok (path_Dir hostFile) then ([], [], True)
               else (case configContent marshal content of
                       None \<Rightarrow> ([], [], True)
                     | Some data \<Rightarrow>
                         if \<not> write_ok hostFile then ([], [], True)
                         else (case writeConfigFiles marshal mkdir_ok write_ok appDir raws of
                                 (files, volumes, failed) \<Rightarrow>
                                   ((hostFile, data) # files, config_volume hostFile target # volumes, failed)))))"

section \<open>Configuration files stay in their directory\<close>

text \<open>A path below the directory \<open>configs\<close> of the app, and the same path from the root of the container.\<close>

definition confined :: "string list \<Rightarrow> string \<Rightarrow> string \<Rightarrow> bool" where
  "confined app file target \<longleftrightarrow>
     (\<exists>cs. cs \<noteq> [] \<and> list_all plain_name cs \<and> file = abs_path (app @ ''configs'' # cs) \<and> target = abs_path cs)"

lemma plain_configs: "plain_name ''configs''"
  by (simp add: plain_name_def dot_dot_def)

lemma join_hd: "\<exists>t. join_str (c # cs) sep = c @ t"
  by (cases cs) (auto simp: join_Cons)

lemma path_Clean_IsAbs: "path_IsAbs (path_Clean p) \<Longrightarrow> path_IsAbs p"
proof (rule ccontr)
  assume c: "path_IsAbs (path_Clean p)" and p: "\<not> path_IsAbs p"
  let ?cs = "rev (clean_push False [] (split_byte CHR ''/'' p))"
  have no_sep: "list_all (\<lambda>c. CHR ''/'' \<notin> set c) (split_byte CHR ''/'' p)" using split_byte_no_sep by (fastforce simp: list_all_iff)
  have push: "list_all (\<lambda>c. c \<noteq> [] \<and> CHR ''/'' \<notin> set c) (clean_push False st cs)"
    if "list_all (\<lambda>c. c \<noteq> [] \<and> CHR ''/'' \<notin> set c) st" "list_all (\<lambda>c. CHR ''/'' \<notin> set c) cs" for st cs
    using that by (induction cs arbitrary: st) (auto simp: dot_dot_def split: list.split)
  have "list_all (\<lambda>c. c \<noteq> [] \<and> CHR ''/'' \<notin> set c) ?cs" using push [of "[]", OF _ no_sep] by (simp add: list_all_iff)
  then have "\<not> path_IsAbs (join_str ?cs ''/'')" if "?cs \<noteq> []"
  proof -
    from that obtain d ds where d: "?cs = d # ds" by (cases ?cs) auto
    then have "d \<noteq> []" "CHR ''/'' \<notin> set d" using \<open>list_all _ ?cs\<close> by simp_all
    moreover obtain t where "join_str ?cs ''/'' = d @ t" using join_hd [of d ds "''/''"] d by auto
    ultimately show ?thesis by (cases d) (auto simp: path_IsAbs_def has_prefix_def)
  qed
  then show False using c p by (auto simp: path_Clean_def Let_def path_IsAbs_def has_prefix_def split: if_splits)
qed

lemma config_place_confined:
  assumes "list_all plain_name app" and "config_place (abs_path app) p = Some (host, target)"
  shows "confined app host target"
proof -
  have base: "path_Join [abs_path app, ''configs''] = abs_path (app @ [''configs''])"
    using path_Join_name [OF assms(1) plain_configs] .
  have plain: "list_all plain_name (app @ [''configs''])" using assms(1) plain_configs by simp
  have t: "path_IsAbs (path_Clean p)" "target = path_Clean p" "host = path_Join [abs_path (app @ [''configs'']), target]"
    and pre: "has_prefix (path_Clean host) (abs_path (app @ [''configs'']) @ ''/'')"
    using assms(2) by (auto simp: config_place_def Let_def base split: if_splits)
  from path_Clean_abs [OF path_Clean_IsAbs [OF t(1)]] obtain cs where cs: "list_all plain_name cs" "target = abs_path cs"
    using t(2) by blast
  have h: "host = abs_path (app @ ''configs'' # cs)" using path_Join_abs [OF plain cs(1)] t(3) cs(2) by simp
  have "cs \<noteq> []"
  proof
    assume "cs = []"
    then have "path_Clean host = abs_path (app @ [''configs''])" using path_Clean_id [OF plain] h by simp
    then show False using pre by (auto simp: has_prefix_iff)
  qed
  then show ?thesis using cs h by (auto simp: confined_def)
qed

lemma writeConfigFiles_confined:
  assumes "list_all plain_name app"
  shows "writeConfigFiles marshal mkdir_ok write_ok (abs_path app) raws = (files, volumes, failed) \<Longrightarrow>
    list_all2 (\<lambda>f vol. \<exists>target. confined app (fst f) target \<and> vol = config_volume (fst f) target) files volumes"
proof (induction raws arbitrary: files volumes failed)
  case (Cons raw raws)
  show ?case
    using Cons.prems Cons.IH config_place_confined [OF assms]
    by (auto split: option.splits if_splits prod.splits) blast
qed simp

text \<open>
  C26. Every configuration file that a recipe writes, whatever path it asks for, lies strictly below the directory
  \<open>configs\<close> of its app, and is mounted under the very path that it has below that directory; there is one volume for
  every written file, also when an error ends the work.
\<close>

theorem config_files_confined:
  assumes "list_all plain_name app"
  shows "case writeConfigFiles marshal mkdir_ok write_ok (abs_path app) raws of
     (files, volumes, failed) \<Rightarrow>
       list_all2 (\<lambda>f vol. \<exists>target. confined app (fst f) target \<and> vol = config_volume (fst f) target) files volumes"
  using writeConfigFiles_confined [OF assms] by (auto split: prod.split)

definition sample_configs :: "any list" where
  "sample_configs =
     [Map_any [''path'' \<mapsto> Str_any ''/etc/../../app/x.yml'', ''content'' \<mapsto> List_any [Str_any ''a'', Str_any ''b'']],
      Map_any [''path'' \<mapsto> Str_any ''etc/y'', ''content'' \<mapsto> Str_any ''c''],
      Map_any [''path'' \<mapsto> Str_any ''/..'', ''content'' \<mapsto> Str_any ''d'']]"

lemma config_files_confined_witness:
  "list_all2 (\<lambda>f vol. \<exists>target. confined [''srv'', ''db''] (fst f) target \<and> vol = config_volume (fst f) target)
    [(''/srv/db/configs/app/x.yml'', [CHR ''a'', nl, CHR ''b'', nl])]
    [config_volume ''/srv/db/configs/app/x.yml'' ''/app/x.yml'']"
proof -
  have p: "config_place ''/srv/db'' ''/etc/../../app/x.yml'' = Some (''/srv/db/configs/app/x.yml'', ''/app/x.yml'')"
    "config_place ''/srv/db'' ''etc/y'' = None" "config_place ''/srv/db'' ''/..'' = None" by code_simp+
  have w: "writeConfigFiles (\<lambda>v. None) (\<lambda>d. True) (\<lambda>f. True) (abs_path [''srv'', ''db'']) sample_configs
      = ([(''/srv/db/configs/app/x.yml'', [CHR ''a'', nl, CHR ''b'', nl])],
         [config_volume ''/srv/db/configs/app/x.yml'' ''/app/x.yml''], False)"
    by (simp add: sample_configs_def config_entry_def aget_def abs_path_def p configContent_def)
  have "list_all plain_name [''srv'', ''db'']" by (simp add: plain_name_def dot_dot_def)
  from config_files_confined [OF this, of "\<lambda>v. None" "\<lambda>d. True" "\<lambda>f. True" sample_configs]
  show ?thesis by (simp only: w prod.case)
qed

section \<open>References are replaced\<close>

lemma expand_plain: "CHR ''$'' \<notin> set s \<Longrightarrow> expand f (s @ t) = s @ expand f t"
  by (induction s) (auto simp: templateVarRE_def has_prefix_def)

lemma templateVarRE_reference:
  assumes "k \<noteq> []" "list_all var_char k" "p \<noteq> []" "list_all var_path_char p"
  shows "templateVarRE (''${'' @ k @ ''.'' @ p @ ''}'' @ rest) = Some (k, p, rest)"
proof -
  have n: "\<not> var_char CHR ''.''" "\<not> var_path_char CHR ''}''" by code_simp+
  have "takeWhile var_char (k @ CHR ''.'' # p @ CHR ''}'' # rest) = k" "dropWhile var_char (k @ CHR ''.'' # p @ CHR ''}'' # rest) = CHR ''.'' # p @ CHR ''}'' # rest"
    using assms(2) n(1) by (auto simp: list_all_iff takeWhile_append2 dropWhile_append2)
  moreover have "takeWhile var_path_char (p @ CHR ''}'' # rest) = p" "dropWhile var_path_char (p @ CHR ''}'' # rest) = CHR ''}'' # rest"
    using assms(4) n(2) by (auto simp: list_all_iff takeWhile_append2 dropWhile_append2)
  ultimately show ?thesis using assms(1,3) by (simp add: templateVarRE_def has_prefix_def)
qed

lemma expand_match:
  "templateVarRE (u @ rest) = Some (k, p, rest) \<Longrightarrow> expand f (u @ rest) = (case f k p of None \<Rightarrow> u | Some v \<Rightarrow> v) @ expand f rest"
  using templateVarRE_shorter [of "u @ rest" k p rest] by (cases u) (auto split: option.split)

lemma expand_reference:
  assumes "k \<noteq> []" "list_all var_char k" "p \<noteq> []" "list_all var_path_char p" "CHR ''$'' \<notin> set pre"
  shows "expand f (pre @ ''${'' @ k @ ''.'' @ p @ ''}'' @ rest)
    = pre @ (case f k p of None \<Rightarrow> ''${'' @ k @ ''.'' @ p @ ''}'' | Some v \<Rightarrow> v) @ expand f rest"
  using templateVarRE_reference [OF assms(1-4), of rest] expand_plain [OF assms(5)]
    expand_match [of "''${'' @ k @ ''.'' @ p @ ''}''" rest k p f] by simp

text \<open>
  A reference to the variable of another app becomes the value that this app gets, a generated secret included, wherever
  it stands in the text.
\<close>

lemma reference_resolved:
  assumes "context k = Some (Map_any [''env'' \<mapsto> Map_any env, ''name'' \<mapsto> Str_any name])" and "env v = Some val"
    and "k \<noteq> []" "list_all var_char k" "v \<noteq> []" "list_all var_char v" "CHR ''$'' \<notin> set pre"
  shows "expand (resolve_var context) (pre @ ''${'' @ k @ ''.'' @ (''env.'' @ v) @ ''}'' @ rest) = pre @ jsString val @ expand (resolve_var context) rest"
proof -
  have d: "CHR ''.'' \<notin> set v" using assms(6) by (auto simp: list_all_iff var_char_def alphanumeric_def ascii_val_def)
  have "split_byte CHR ''.'' (''env.'' @ v) = [''env'', v]" using split_byte_join2 [of "CHR ''.''" "''env''" v] split_byte_id [OF d] by simp
  then have r: "resolve_var context k (''env.'' @ v) = Some (jsString val)" using assms(1,2) by (simp add: resolve_var_def)
  have "list_all var_path_char v" using assms(6) by (simp add: list_all_iff var_path_char_def)
  moreover have "list_all var_path_char ''env.''" by code_simp
  ultimately have "list_all var_path_char (''env.'' @ v)" by simp
  from expand_reference [OF assms(3,4) _ this assms(7), of "resolve_var context" rest] r show ?thesis by simp
qed

text \<open>An object among the links of the user ends the process that merges them.\<close>

lemma object_link_panics:
  "mergeRecipeEnv gen [''image'' \<mapsto> Str_any ''redis''] (Some [''linked'' \<mapsto> List_any [Map_any Map.empty]]) c = None"
  by (simp add: mergeRecipeEnv_def env_links_def isNewEnvStructure_def aget_def list_of_def comparable_def)

end
