(* ===== verification/AppTemplates.thy ===== *)
theory AppTemplates
  imports AppRecipes AppRouting
begin

text \<open>
  The creation of apps from recipes and templates (\<open>createFromRecipe\<close>, \<open>createFromTemplate\<close> of
  \<open>internal/appmgr/create.go\<close> with \<open>runHeld\<close> of \<open>run.go\<close>): the records that are added to the table, the start of each app
  and the rollback when one of them fails. What the container engine, the disk and the host answer is an input.
\<close>

section \<open>Surroundings\<close>

text \<open>
  \<open>ce_secret\<close> is the generated password for a container, of the recipe or of the user, at a variable; \<open>ce_ready\<close> says
  whether the directory, the log and the build stream of an app could be set up, \<open>ce_started\<close> whether its container came up.
\<close>

record create_env =
  ce_apps :: string
  ce_hostRoot :: string
  ce_now :: int
  ce_in_use :: "nat \<Rightarrow> bool"
  ce_secret :: "string \<Rightarrow> bool \<Rightarrow> string \<Rightarrow> int \<Rightarrow> string"
  ce_marshal :: "any \<Rightarrow> string option"
  ce_mkdir :: "string \<Rightarrow> bool"
  ce_write :: "string \<Rightarrow> bool"
  ce_ready :: "string \<Rightarrow> bool"
  ce_passthrough :: "string \<Rightarrow> bool"
  ce_started :: "string \<Rightarrow> bool"

datatype create_answer =
    Missing_app_type
  | Recipe_unknown
  | Bad_gpu gpu_error
  | No_passthrough string
  | Invalid_app_name
  | App_exists string
  | Being_created string
  | Not_prepared string
  | Start_failed string
  | App_created string
  | Template_empty
  | Missing_template_name
  | Template_error template_error
  | Template_deployed "string list"

definition checkGPUHost :: "create_env \<Rightarrow> gpu_spec option \<Rightarrow> create_answer option" where
  "checkGPUHost E spec =
     (case spec of
        None \<Rightarrow> None
      | Some s \<Rightarrow> if ce_passthrough E (gs_runtime s) then None else Some (No_passthrough (gs_runtime s)))"

text \<open>The start of a container app as the table sees it.\<close>

definition runHeld :: "int \<Rightarrow> bool \<Rightarrow> any \<Rightarrow> app_table \<Rightarrow> app_table \<times> bool" where
  "runHeld now started key t =
     (case getLocked key t of
        None \<Rightarrow> (t, False)
      | Some a \<Rightarrow>
          let n = Float_any (float_of_int now);
              t1 = fst (setLocked key [(''status'', Str_any ''starting''), (''updated'', n)] t)
          in if started then (fst (setLocked key [(''status'', Str_any ''running''), (''started'', n)] t1), True)
             else (fst (setLocked key [(''status'', Str_any ''errored''), (''updated'', n)] t1), False))"

section \<open>The record of a new app\<close>

definition gpu_field :: "gpu_spec option \<Rightarrow> (string \<times> any) list" where
  "gpu_field spec = (case spec of None \<Rightarrow> [] | Some s \<Rightarrow> [(''gpu'', Map_any (gpu_Map s))])"

definition app_fields :: "create_env \<Rightarrow> string \<Rightarrow> amap \<Rightarrow> any list \<Rightarrow> amap \<Rightarrow> (string \<times> any) list \<Rightarrow> gpu_spec option
    \<Rightarrow> (string \<times> any) list option" where
  "app_fields E name recipe configVolumes env extra spec =
     map_option
       (\<lambda>ports.
          [(''type'', Str_any ''container''), (''image'', Str_any (as_str (aget recipe ''image''))),
           (''cmd'', normalizeCmd (aget recipe ''cmd'')), (''ports'', List_any (map Map_any ports)),
           (''volumes'', List_any (prepareVolumes (ce_hostRoot E) (path_Join [ce_apps E, name]) (toMapSlice (aget recipe ''volumes''))
             @ configVolumes)),
           (''env'', Map_any env)] @ extra
          @ [(''active'', Bool_any True), (''created'', Float_any (float_of_int (ce_now E))), (''status'', Str_any ''installing'')]
          @ gpu_field spec)
       (preparePorts (ce_in_use E) [] (toMapSlice (aget recipe ''ports'')))"

text \<open>One app: its files, its record, its start. \<^const>\<open>None\<close> is the search for a port that has no end, or the panic when the
  links of its environment cannot be compared.\<close>

definition install_app :: "create_env \<Rightarrow> string \<Rightarrow> amap \<Rightarrow> amap option \<Rightarrow> (string \<times> any) list \<Rightarrow> gpu_spec option \<Rightarrow> app_table
    \<Rightarrow> (app_table \<times> create_answer option) option" where
  "install_app E name recipe env extra spec t =
     (if \<not> ce_ready E name then Some (t, Some (Not_prepared name))
      else (case writeConfigFiles (ce_marshal E) (ce_mkdir E) (ce_write E) (path_Join [ce_apps E, name]) (list_of (aget recipe ''configs'')) of
              (files, volumes, failed) \<Rightarrow>
                if failed then Some (t, Some (Not_prepared name))
                else (case env of
                        None \<Rightarrow> None
                      | Some e \<Rightarrow>
                          map_option
                            (\<lambda>fields.
                               case runHeld (ce_now E) (ce_started E name) (Float_any (getNextIDLocked t)) (new_app name fields t) of
                                 (t', ok) \<Rightarrow> (t', if ok then None else Some (Start_failed name)))
                            (app_fields E name recipe volumes e extra spec))))"

definition drop_apps :: "(amap \<Rightarrow> bool) \<Rightarrow> app_table \<Rightarrow> app_table" where
  "drop_apps P t = saveAppsLocked (t\<lparr>at_work := filter (\<lambda>a. \<not> P (at_heap t a)) (at_work t)\<rparr>)"

section \<open>Templates\<close>

definition app_def :: "template \<Rightarrow> string \<Rightarrow> amap" where
  "app_def apps key = map_of_any (case map_of apps key of None \<Rightarrow> Nil_any | Some v \<Rightarrow> v)"

fun check_gpus :: "create_env \<Rightarrow> template \<Rightarrow> string list \<Rightarrow> create_answer + (string \<Rightarrow> gpu_spec option)" where
  "check_gpus E apps [] = Inr (\<lambda>k. None)"
| "check_gpus E apps (key # keys) =
     (case parseGPURequest (aget (app_def apps key) ''gpu'') Nil_any of
        Inl e \<Rightarrow> Inl (Bad_gpu e)
      | Inr spec \<Rightarrow>
          (case checkGPUHost E spec of
             Some r \<Rightarrow> Inl r
           | None \<Rightarrow> (case check_gpus E apps keys of Inl r \<Rightarrow> Inl r | Inr specs \<Rightarrow> Inr (specs(key := spec)))))"

fun template_names :: "string \<Rightarrow> template \<Rightarrow> string list \<Rightarrow> app_table \<Rightarrow> string list
    \<Rightarrow> (create_answer + (string \<times> string) list) option" where
  "template_names base apps creating t [] = Some (Inr [])"
| "template_names base apps creating t (key # keys) =
     (let container = as_str (aget (app_def apps key) ''container'')
      in case (if container = [] then generateUniqueNameLocked (base @ ''-'' @ key) t else Some container) of
           None \<Rightarrow> None
         | Some name \<Rightarrow>
             if \<not> validAppName name then Some (Inl Invalid_app_name)
             else if getLocked (Str_any name) t \<noteq> None then Some (Inl (App_exists name))
             else if name \<in> set creating then Some (Inl (Being_created name))
             else map_option (\<lambda>r. case r of Inl e \<Rightarrow> Inl e | Inr names \<Rightarrow> Inr ((key, name) # names))
                    (template_names base apps creating t keys))"

definition name_of :: "(string \<times> string) list \<Rightarrow> string \<Rightarrow> string" where
  "name_of names key = (case map_of names key of None \<Rightarrow> [] | Some n \<Rightarrow> n)"

text \<open>The environment of the apps: prepared, interpolated with what was prepared, then overridden by the user.\<close>

definition template_env :: "create_env \<Rightarrow> template \<Rightarrow> amap \<Rightarrow> (string \<times> string) list \<Rightarrow> string \<Rightarrow> amap" where
  "template_env E apps userEnv names =
     (let prepared = (\<lambda>key. prepareEnv (ce_secret E (name_of names key) False) (map_of_any (aget (app_def apps key) ''env'')) (name_of names key));
          context = (\<lambda>key. if key \<in> fst ` set names
            then Some (Map_any [''env'' \<mapsto> Map_any (prepared key), ''name'' \<mapsto> Str_any (name_of names key)]) else None)
      in (\<lambda>key.
            let env = interpolateTemplateVars (prepared key) context
            in case as_map (aget userEnv key) of
                 None \<Rightarrow> env
               | Some override \<Rightarrow> env ++ prepareEnv (ce_secret E (name_of names key) True) override (name_of names key)))"

definition linked_names :: "template \<Rightarrow> (string \<times> string) list \<Rightarrow> string \<Rightarrow> string list" where
  "linked_names apps names key = filter (\<lambda>n. n \<noteq> []) (map (name_of names) (template_deps apps key))"

definition template_field :: "string \<Rightarrow> string \<Rightarrow> string \<Rightarrow> (string \<times> any) list" where
  "template_field base recipe key =
     [(''template'', Map_any [''group'' \<mapsto> Str_any base, ''name'' \<mapsto> Str_any recipe, ''role'' \<mapsto> Str_any key])]"

fun deploy :: "create_env \<Rightarrow> string \<Rightarrow> string \<Rightarrow> template \<Rightarrow> (string \<Rightarrow> gpu_spec option) \<Rightarrow> (string \<times> string) list \<Rightarrow> (string \<Rightarrow> amap)
    \<Rightarrow> string list \<Rightarrow> app_table \<Rightarrow> (app_table \<times> create_answer option) option" where
  "deploy E base recipe apps specs names envs [] t = Some (t, None)"
| "deploy E base recipe apps specs names envs (key # keys) t =
     (case install_app E (name_of names key) (app_def apps key)
             (Some [''manual'' \<mapsto> Map_any (envs key), ''linked'' \<mapsto> List_any (map Str_any (linked_names apps names key))])
             (template_field base recipe key) (specs key) t of
        None \<Rightarrow> None
      | Some (t', Some e) \<Rightarrow> Some (t', Some e)
      | Some (t', None) \<Rightarrow> deploy E base recipe apps specs names envs keys t')"

definition in_group :: "string \<Rightarrow> string \<Rightarrow> amap \<Rightarrow> bool" where
  "in_group base recipe app =
     (case as_map (aget app ''template'') of
        None \<Rightarrow> False
      | Some tpl \<Rightarrow> any_eq (aget tpl ''group'') (Str_any base) \<and> any_eq (aget tpl ''name'') (Str_any recipe))"

definition rollback :: "string \<Rightarrow> string \<Rightarrow> app_table \<Rightarrow> app_table" where
  "rollback base recipe t =
     (let ids = map (\<lambda>a. aget (at_heap t a) ''id'') (filter (\<lambda>a. in_group base recipe (at_heap t a)) (at_work t))
      in drop_apps (in_group base recipe) (fold (\<lambda>i u. fst (stop_app True i u)) ids t))"

definition createFromTemplate :: "create_env \<Rightarrow> string \<Rightarrow> string \<Rightarrow> template \<Rightarrow> amap \<Rightarrow> string list \<Rightarrow> app_table
    \<Rightarrow> (app_table \<times> create_answer) option" where
  "createFromTemplate E base recipe apps cfg creating t =
     (if apps = [] then Some (t, Template_empty)
      else (case resolveTemplateDependencies apps of
              None \<Rightarrow> None
            | Some (Inl e) \<Rightarrow> Some (t, Template_error e)
            | Some (Inr keys) \<Rightarrow>
                (case check_gpus E apps keys of
                   Inl r \<Rightarrow> Some (t, r)
                 | Inr specs \<Rightarrow>
                     (case template_names base apps creating t keys of
                        None \<Rightarrow> None
                      | Some (Inl r) \<Rightarrow> Some (t, r)
                      | Some (Inr names) \<Rightarrow>
                          (case deploy E base recipe apps specs names (template_env E apps (map_of_any (aget cfg ''env'')) names) keys t of
                             None \<Rightarrow> None
                           | Some (t', None) \<Rightarrow> Some (t', Template_deployed (map snd names))
                           | Some (t', Some e) \<Rightarrow> Some (rollback base recipe t', e))))))"

section \<open>Recipes\<close>

text \<open>\<open>recipes\<close> is the Hub's answer.\<close>

definition createFromRecipe :: "create_env \<Rightarrow> (string \<Rightarrow> amap option) \<Rightarrow> (amap \<Rightarrow> template) \<Rightarrow> amap \<Rightarrow> string list \<Rightarrow> app_table
    \<Rightarrow> (app_table \<times> create_answer) option" where
  "createFromRecipe E recipes entries cfg creating t =
     (let appType = as_str (aget cfg ''app''); customName = as_str (aget cfg ''name'')
      in if appType = [] then Some (t, Missing_app_type)
         else (case recipes appType of
                 None \<Rightarrow> Some (t, Recipe_unknown)
               | Some r0 \<Rightarrow>
                   let image = as_str (aget cfg ''image''); r = (if image = [] then r0 else r0(''image'' \<mapsto> Str_any image));
                       chosen = (if customName = [] then generateUniqueNameLocked (as_str (aget r ''name'')) t else Some customName)
                   in (case parseGPURequest (aget cfg ''gpu'') (aget r ''gpu'') of
                         Inl e \<Rightarrow> Some (t, Bad_gpu e)
                       | Inr spec \<Rightarrow>
                           (case (checkGPUHost E spec, chosen) of
                              (Some e, _) \<Rightarrow> Some (t, e)
                            | (None, None) \<Rightarrow> None
                            | (None, Some name) \<Rightarrow>
                                let apps = entries (map_of_any (aget r ''apps''))
                                in if apps \<noteq> [] then createFromTemplate E name (as_str (aget r ''name'')) apps cfg creating t
                                   else if \<not> validAppName name then Some (t, Invalid_app_name)
                                   else if getLocked (Str_any name) t \<noteq> None then Some (t, App_exists name)
                                   else if name \<in> set creating then Some (t, Being_created name)
                                   else (case install_app E name r (mergeRecipeEnv (ce_secret E name) r (as_map (aget cfg ''env'')) name)
                                                [] spec t of
                                           None \<Rightarrow> None
                                         | Some (t', None) \<Rightarrow> Some (t', App_created name)
                                         | Some (t', Some (Start_failed n)) \<Rightarrow>
                                             Some (drop_apps (\<lambda>app. any_eq (aget app ''id'') (Float_any (getNextIDLocked t))) t', Start_failed n)
                                         | Some (t', Some e) \<Rightarrow> Some (t', e))))))"

text \<open>A template whose apps all carry a container name of the Cloud keeps its own name for the group.\<close>

definition createFromTemplatePayload :: "create_env \<Rightarrow> (amap \<Rightarrow> template) \<Rightarrow> amap \<Rightarrow> string list \<Rightarrow> app_table
    \<Rightarrow> (app_table \<times> create_answer) option" where
  "createFromTemplatePayload E entries cfg creating t =
     (let apps = entries (map_of_any (aget cfg ''apps'')); name = as_str (aget cfg ''name'')
      in if apps = [] then Some (t, Template_empty)
         else if name = [] then Some (t, Missing_template_name)
         else (case (if list_all (\<lambda>(k, v). case as_map v of None \<Rightarrow> False | Some m \<Rightarrow> app_truthy (aget m ''container'')) apps
                     then Some name else generateUniqueNameLocked name t) of
                 None \<Rightarrow> None
               | Some base \<Rightarrow> createFromTemplate E base name apps cfg creating t))"

section \<open>A table that grows\<close>

definition plain_file :: "amap \<Rightarrow> bool" where
  "plain_file app \<longleftrightarrow> (case aget app ''file'' of Float_any f \<Rightarrow> False | _ \<Rightarrow> True)"

text \<open>The apps of \<open>t\<close> are in \<open>u\<close> as they were, and behind them apps with a property.\<close>

definition grows :: "(amap \<Rightarrow> bool) \<Rightarrow> nat \<Rightarrow> app_table \<Rightarrow> app_table \<Rightarrow> bool" where
  "grows P b t u \<longleftrightarrow>
     (\<exists>new. at_work u = at_work t @ new \<and> list_all (\<lambda>a. P (at_heap u a)) new)
     \<and> distinct (at_work u) \<and> list_all (\<lambda>a. a < at_next u \<and> app_typed b (at_heap u a) \<and> plain_file (at_heap u a)) (at_work u)
     \<and> distinct (map (\<lambda>a. app_id (at_heap u a)) (at_work u)) \<and> list_all (\<lambda>a. at_heap u a = at_heap t a) (at_work t)"

lemma typed_id_any: "app_typed b m \<Longrightarrow> aget m ''id'' = Float_any (app_id m)"
  by (erule app_typedE) (simp add: app_id_def)

lemma grows_refl: "work_ok b t \<Longrightarrow> list_all (\<lambda>a. plain_file (at_heap t a)) (at_work t) \<Longrightarrow> grows P b t t"
  by (auto simp: grows_def work_ok_def list_all_iff)

lemma grows_mono: "grows P b t u \<Longrightarrow> b \<le> c \<Longrightarrow> grows P c t u"
  by (auto simp: grows_def list_all_iff intro: app_typed_mono)

lemma matches_float:
  assumes "app_typed b m" and "plain_file m"
  shows "matches_id (Float_any f) m \<longleftrightarrow> app_id m = f"
proof -
  from assms(1) obtain n k where k: "aget m ''name'' = Str_any n" "aget m ''id'' = Float_any (Fin (of_nat k))" by (rule app_typedE)
  have "\<not> any_eq (aget m ''file'') (Float_any f)" using assms(2) by (cases "aget m ''file''") (simp_all add: plain_file_def)
  then show ?thesis by (auto simp: matches_id_def k app_id_def)
qed

text \<open>An id leads to the app that has it.\<close>

lemma grows_get:
  assumes g: "grows P b t u" and a: "a \<in> set (at_work u)"
  shows "getLocked (Float_any (app_id (at_heap u a))) u = Some a"
proof -
  have m: "matches_id (Float_any f) (at_heap u x) \<longleftrightarrow> app_id (at_heap u x) = f" if "x \<in> set (at_work u)" for x f
    using g that by (intro matches_float [of b]) (auto simp: grows_def list_all_iff)
  obtain c where c: "getLocked (Float_any (app_id (at_heap u a))) u = Some c"
    using a getLocked_None [of "Float_any (app_id (at_heap u a))" u] m [OF a] by (cases "getLocked (Float_any (app_id (at_heap u a))) u") auto
  with getLocked_Some [OF c] m have "c \<in> set (at_work u)" "app_id (at_heap u c) = app_id (at_heap u a)" by blast+
  moreover have "inj_on (\<lambda>x. app_id (at_heap u x)) (set (at_work u))" using g by (simp add: grows_def distinct_map)
  ultimately show ?thesis using c a by (simp add: inj_on_def)
qed

lemma save_apps_heap: "x < at_next u \<Longrightarrow> at_heap (saveAppsLocked u) x = at_heap u x"
  "at_work (saveAppsLocked u) = at_work u" "at_next u \<le> at_next (saveAppsLocked u)"
  by (simp_all add: saveAppsLocked_def Let_def)

text \<open>The fields that identify an app stay.\<close>

definition settled :: "(amap \<Rightarrow> bool) \<Rightarrow> (string \<times> any) list \<Rightarrow> bool" where
  "settled P us \<longleftrightarrow> plain_fields us \<and> list_all (\<lambda>u. fst u \<noteq> ''file'') us \<and> (\<forall>m. P m \<longrightarrow> P (put_fields us m))"

lemma settled_keeps: "settled P us \<Longrightarrow> keeps_key (put_fields us)"
  by (rule keeps_put_fields) (simp add: settled_def plain_fields_def)

lemma settled_file: "settled P us \<Longrightarrow> plain_file (put_fields us m) = plain_file m"
  by (simp add: settled_def plain_file_def put_fields_other)

lemma grows_change:
  assumes g: "grows P b t u" and a: "a \<in> set (at_work u)" "a \<notin> set (at_work t)" and us: "settled P us"
  shows "grows P b t (saveAppsLocked (change_app a (put_fields us) u))"
    and "x \<in> set (at_work u) \<Longrightarrow> app_id (at_heap (saveAppsLocked (change_app a (put_fields us) u)) x) = app_id (at_heap u x)"
proof -
  let ?u = "saveAppsLocked (change_app a (put_fields us) u)"
  have below: "x < at_next u" if "x \<in> set (at_work u)" for x using g that by (simp add: grows_def list_all_iff)
  have h: "at_heap ?u x = (if x = a then put_fields us (at_heap u x) else at_heap u x)" if "x \<in> set (at_work u)" for x
    using below [OF that] by (simp add: save_apps_heap change_app_def)
  show ids: "app_id (at_heap ?u x) = app_id (at_heap u x)" if "x \<in> set (at_work u)" for x
    using h [OF that] keeps_keyD(2) [OF settled_keeps [OF us]] by simp
  have w: "at_work ?u = at_work u" and n: "at_next u \<le> at_next ?u"
    using save_apps_heap(3) [of "change_app a (put_fields us) u"] by (simp_all add: save_apps_heap change_app_def)
  from g obtain new where new: "at_work u = at_work t @ new" "list_all (\<lambda>a. P (at_heap u a)) new" by (auto simp: grows_def)
  have "list_all (\<lambda>a. P (at_heap ?u a)) new" using new us h by (auto simp: list_all_iff settled_def)
  moreover have "list_all (\<lambda>x. x < at_next ?u \<and> app_typed b (at_heap ?u x) \<and> plain_file (at_heap ?u x)) (at_work u)"
    unfolding list_all_iff
  proof
    fix x assume x: "x \<in> set (at_work u)"
    then have "x < at_next u" "app_typed b (at_heap u x)" "plain_file (at_heap u x)" using g by (simp_all add: grows_def list_all_iff)
    then show "x < at_next ?u \<and> app_typed b (at_heap ?u x) \<and> plain_file (at_heap ?u x)"
      using n h [OF x] keeps_keyD(3) [OF settled_keeps [OF us]] settled_file [OF us] by (cases "x = a") simp_all
  qed
  moreover have "list_all (\<lambda>x. at_heap ?u x = at_heap t x) (at_work t)"
    unfolding list_all_iff
  proof
    fix x assume x: "x \<in> set (at_work t)"
    then have "x \<in> set (at_work u)" "at_heap u x = at_heap t x" "x \<noteq> a" using g new(1) a(2) by (auto simp: grows_def list_all_iff)
    then show "at_heap ?u x = at_heap t x" using h by simp
  qed
  moreover have "distinct (map (\<lambda>x. app_id (at_heap ?u x)) (at_work u))"
  proof -
    have m: "map (\<lambda>x. app_id (at_heap ?u x)) (at_work u) = map (\<lambda>x. app_id (at_heap u x)) (at_work u)" using ids by simp
    show ?thesis unfolding m using g by (simp add: grows_def)
  qed
  moreover have "distinct (at_work u)" using g by (simp add: grows_def)
  ultimately show "grows P b t ?u" using new(1) unfolding grows_def w by (intro conjI exI [of _ new])
qed

lemma grows_set:
  assumes "grows P b t u" and "a \<in> set (at_work u)" "a \<notin> set (at_work t)" and "settled P us"
  shows "grows P b t (fst (setLocked (Float_any (app_id (at_heap u a))) us u))"
    and "at_work (fst (setLocked (Float_any (app_id (at_heap u a))) us u)) = at_work u"
    and "x \<in> set (at_work u) \<Longrightarrow> app_id (at_heap (fst (setLocked (Float_any (app_id (at_heap u a))) us u)) x) = app_id (at_heap u x)"
  using grows_change [OF assms] by (simp_all add: setLocked_def grows_get [OF assms(1,2)] save_apps_heap change_app_def)

lemma grows_run:
  assumes g: "grows P b t u" and a: "a \<in> set (at_work u)" "a \<notin> set (at_work t)"
    and P: "\<And>us. list_all (\<lambda>u. fst u \<in> {''status'', ''updated'', ''started''}) us \<Longrightarrow> settled P us"
  shows "grows P b t (fst (runHeld now started (Float_any (app_id (at_heap u a))) u))"
proof -
  let ?k = "Float_any (app_id (at_heap u a))"
  let ?n = "Float_any (float_of_int now)"
  let ?u = "fst (setLocked ?k [(''status'', Str_any ''starting''), (''updated'', ?n)] u)"
  have "settled P [(''status'', Str_any ''starting''), (''updated'', ?n)]" by (rule P) simp
  note s = grows_set [OF g a this]
  have a': "a \<in> set (at_work ?u)" using a(1) s(2) by simp
  have k: "Float_any (app_id (at_heap ?u a)) = ?k" using s(3) [OF a(1)] by simp
  have "grows P b t (fst (setLocked ?k us ?u))" if "settled P us" for us
    using grows_set(1) [OF s(1) a' a(2) that] k by simp
  then show ?thesis using grows_get [OF g a(1)] P by (simp add: runHeld_def Let_def)
qed

lemma new_app_grows:
  assumes g: "grows P b t u" and b: "b \<le> 2 ^ 53" and fs: "plain_fields fs" "list_all (\<lambda>u. fst u \<noteq> ''file'') fs"
    and P: "P (put_fields fs [''id'' \<mapsto> Float_any (getNextIDLocked u), ''name'' \<mapsto> Str_any name])"
  shows "grows P (Suc b) t (new_app name fs u)" and "at_next u \<in> set (at_work (new_app name fs u))" "at_next u \<notin> set (at_work t)"
    and "app_id (at_heap (new_app name fs u) (at_next u)) = getNextIDLocked u"
proof -
  let ?a = "at_next u"
  let ?app = "put_fields fs [''id'' \<mapsto> Float_any (getNextIDLocked u), ''name'' \<mapsto> Str_any name]"
  let ?u = "new_app name fs u"
  have below: "x < at_next u" if "x \<in> set (at_work u)" for x using g that by (simp add: grows_def list_all_iff)
  have h: "at_heap ?u x = (if x = ?a then ?app else at_heap u x)" if "x \<le> ?a" for x
    using that by (simp add: new_app_def Let_def save_apps_heap)
  have w: "at_work ?u = at_work u @ [?a]" and n: "?a < at_next ?u"
    using save_apps_heap(3) [of "u\<lparr>at_heap := (at_heap u)(?a := ?app), at_next := ?a + 1, at_work := at_work u @ [?a]\<rparr>"]
    by (simp_all add: new_app_def Let_def save_apps_heap)
  from g obtain new where new: "at_work u = at_work t @ new" "list_all (\<lambda>a. P (at_heap u a)) new" by (auto simp: grows_def)
  show "?a \<in> set (at_work ?u)" by (simp add: w)
  show notin: "?a \<notin> set (at_work t)" using below new(1) by fastforce
  have key: "aget ?app ''name'' = Str_any name" "aget ?app ''id'' = Float_any (getNextIDLocked u)"
    using put_fields_key [OF fs(1) [unfolded plain_fields_def]] by simp_all
  show i: "app_id (at_heap ?u ?a) = getNextIDLocked u" using h [of ?a] key(2) by (simp add: app_id_def)
  have "list_all (\<lambda>a. app_typed b (at_heap u a)) (at_work u)" using g by (simp add: grows_def list_all_iff)
  from getNextID_typed [OF this b] obtain k where k: "k \<le> b" "getNextIDLocked u = Fin (of_nat k)"
    "list_all (\<lambda>a. app_id (at_heap u a) \<noteq> Fin (of_nat k)) (at_work u)" by blast
  have t: "app_typed (Suc b) ?app" using key k(1,2) by (simp add: app_typed_def)
  have f: "plain_file ?app" using put_fields_other [OF fs(2), of "[''id'' \<mapsto> Float_any (getNextIDLocked u), ''name'' \<mapsto> Str_any name]"]
    by (simp add: plain_file_def) (simp add: aget_def)
  have old: "at_heap ?u x = at_heap u x" if "x \<in> set (at_work u)" for x using below [OF that] h [of x] by simp
  have "list_all (\<lambda>a. a < at_next ?u \<and> app_typed (Suc b) (at_heap ?u a) \<and> plain_file (at_heap ?u a)) (at_work ?u)"
    unfolding list_all_iff
  proof (intro ballI)
    fix x assume x: "x \<in> set (at_work ?u)"
    show "x < at_next ?u \<and> app_typed (Suc b) (at_heap ?u x) \<and> plain_file (at_heap ?u x)"
    proof (cases "x = ?a")
      case True
      then show ?thesis using n t f h [of ?a] by simp
    next
      case False
      then have x: "x \<in> set (at_work u)" using x w by simp
      then have "app_typed b (at_heap u x)" "plain_file (at_heap u x)" using g by (simp_all add: grows_def list_all_iff)
      then show ?thesis using below [OF x] n old [OF x] by (simp add: app_typed_mono [of b])
    qed
  qed
  moreover have "distinct (at_work ?u)" using g below by (auto simp: w grows_def)
  moreover have "distinct (map (\<lambda>a. app_id (at_heap ?u a)) (at_work ?u))"
  proof -
    have m: "map (\<lambda>a. app_id (at_heap ?u a)) (at_work ?u) = map (\<lambda>a. app_id (at_heap u a)) (at_work u) @ [getNextIDLocked u]"
      using old i by (simp add: w)
    show ?thesis unfolding m using g k(2,3) by (auto simp: grows_def list_all_iff)
  qed
  moreover have "list_all (\<lambda>a. P (at_heap ?u a)) (new @ [?a])" using new old P h [of ?a] by (simp add: list_all_iff)
  moreover have "list_all (\<lambda>a. at_heap ?u a = at_heap t a) (at_work t)" using g old new(1) by (simp add: grows_def list_all_iff)
  ultimately show "grows P (Suc b) t ?u" using g new(1) unfolding grows_def by (intro conjI exI [of _ "new @ [?a]"]) (simp_all only: w append_assoc)
qed

section \<open>A failed deployment leaves nothing\<close>

text \<open>The group of an app is its field \<open>template\<close>.\<close>

lemma in_group_put: "list_all (\<lambda>u. fst u \<noteq> ''template'') us \<Longrightarrow> in_group base recipe (put_fields us m) = in_group base recipe m"
  by (simp add: in_group_def put_fields_other)

lemma in_group_settled:
  assumes "list_all (\<lambda>u. fst u \<in> {''status'', ''updated'', ''started'', ''pid'', ''active''}) us"
  shows "settled (in_group base recipe) us"
proof -
  have k: "list_all (\<lambda>u. fst u \<noteq> k) us" if "k \<notin> {''status'', ''updated'', ''started'', ''pid'', ''active''}" for k
    using assms that by (auto simp: list_all_iff)
  have "list_all (\<lambda>u. fst u \<noteq> ''name'' \<and> fst u \<noteq> ''id'') us" using k [of "''name''"] k [of "''id''"] by (simp add: list_all_iff)
  then show ?thesis using k [of "''file''"] in_group_put [OF k [of "''template''"]] by (simp add: settled_def plain_fields_def)
qed

lemma app_fields_plain:
  assumes "app_fields E name recipe vols env extra spec = Some fs" and "list_all (\<lambda>u. fst u = ''template'') extra"
  shows "plain_fields fs" and "list_all (\<lambda>u. fst u \<noteq> ''file'') fs"
proof -
  have "list_all (\<lambda>u. fst u \<noteq> k) extra" if "k \<noteq> ''template''" for k using assms(2) that by (auto simp: list_all_iff)
  note e = this [of "''name''"] this [of "''id''"] this [of "''file''"]
  show "plain_fields fs" using assms(1) e(1,2)
    by (auto simp: app_fields_def plain_fields_def gpu_field_def list_all_iff split: option.splits)
  show "list_all (\<lambda>u. fst u \<noteq> ''file'') fs" using assms(1) e(3) by (auto simp: app_fields_def gpu_field_def split: option.splits)
qed

lemma app_fields_group:
  assumes "app_fields E name r vols env (template_field base recipe key) spec = Some fs"
  shows "in_group base recipe (put_fields fs m)"
  using assms
  by (auto simp: app_fields_def put_fields_def template_field_def gpu_field_def in_group_def split: option.splits)

lemma install_grows:
  assumes g: "grows (in_group base recipe) b t u" and b: "b \<le> 2 ^ 53"
    and i: "install_app E name r env (template_field base recipe key) spec u = Some (u', e)"
  shows "grows (in_group base recipe) (Suc b) t u'"
proof (cases "u' = u")
  case True
  then show ?thesis using grows_mono [OF g, of "Suc b"] by simp
next
  case False
  from i False obtain fs vols en where fs: "app_fields E name r vols en (template_field base recipe key) spec = Some fs"
    and u': "u' = fst (runHeld (ce_now E) (ce_started E name) (Float_any (getNextIDLocked u)) (new_app name fs u))"
    by (auto simp: install_app_def case_prod_unfold split: if_splits option.splits)
  have "list_all (\<lambda>u. fst u = ''template'') (template_field base recipe key)" by (simp add: template_field_def)
  note plain = app_fields_plain [OF fs this]
  note new = new_app_grows [OF g b plain app_fields_group [OF fs]]
  have "settled (in_group base recipe) us" if "list_all (\<lambda>u. fst u \<in> {''status'', ''updated'', ''started''}) us" for us
    using that by (intro in_group_settled) (auto simp: list_all_iff)
  from grows_run [OF new(1-3) this, of "ce_now E" "ce_started E name"] show ?thesis by (simp add: u' new(4))
qed

lemma deploy_grows:
  "grows (in_group base recipe) b t u \<Longrightarrow> b + length keys \<le> 2 ^ 53 \<Longrightarrow> deploy E base recipe apps specs names envs keys u = Some (u', e)
    \<Longrightarrow> grows (in_group base recipe) (b + length keys) t u'"
proof (induction keys arbitrary: b u)
  case (Cons key keys)
  from Cons.prems(3) obtain v f where i: "install_app E (name_of names key) (app_def apps key)
      (Some [''manual'' \<mapsto> Map_any (envs key), ''linked'' \<mapsto> List_any (map Str_any (linked_names apps names key))])
      (template_field base recipe key) (specs key) u = Some (v, f)"
    and rest: "if f = None then deploy E base recipe apps specs names envs keys v = Some (u', e) else u' = v"
    by (auto split: option.splits)
  have v: "grows (in_group base recipe) (Suc b) t v" using install_grows [OF Cons.prems(1) _ i] Cons.prems(2) by simp
  show ?case
  proof (cases "f = None")
    case True
    then show ?thesis using Cons.IH [OF v] rest Cons.prems(2) by simp
  next
    case False
    then show ?thesis using grows_mono [OF v] rest by simp
  qed
qed simp

lemma stop_grows:
  assumes g: "grows (in_group base recipe) b t u" and a: "a \<in> set (at_work u)" "a \<notin> set (at_work t)"
  shows "grows (in_group base recipe) b t (fst (stop_app s (Float_any (app_id (at_heap u a))) u))"
    and "at_work (fst (stop_app s (Float_any (app_id (at_heap u a))) u)) = at_work u"
    and "x \<in> set (at_work u) \<Longrightarrow> app_id (at_heap (fst (stop_app s (Float_any (app_id (at_heap u a))) u)) x) = app_id (at_heap u x)"
proof -
  have "app_typed b (at_heap u a)" using g a(1) by (simp add: grows_def list_all_iff)
  note i = typed_id_any [OF this]
  have "settled (in_group base recipe) stop_fields" by (rule in_group_settled) (simp add: stop_fields_def)
  note s = grows_set [OF g a this]
  show "grows (in_group base recipe) b t (fst (stop_app s (Float_any (app_id (at_heap u a))) u))"
    "at_work (fst (stop_app s (Float_any (app_id (at_heap u a))) u)) = at_work u"
    "x \<in> set (at_work u) \<Longrightarrow> app_id (at_heap (fst (stop_app s (Float_any (app_id (at_heap u a))) u)) x) = app_id (at_heap u x)"
    using s g by (simp_all add: stop_app_def grows_get [OF g a(1)] Let_def i)
qed

lemma stops_grow:
  "grows (in_group base recipe) b t u \<Longrightarrow> set as \<subseteq> set (at_work u) - set (at_work t) \<Longrightarrow>
    grows (in_group base recipe) b t (fold (\<lambda>i u. fst (stop_app s i u)) (map (\<lambda>a. Float_any (app_id (at_heap u a))) as) u)"
proof (induction as arbitrary: u)
  case (Cons a as)
  let ?u = "fst (stop_app s (Float_any (app_id (at_heap u a))) u)"
  have a: "a \<in> set (at_work u)" "a \<notin> set (at_work t)" using Cons.prems(2) by auto
  note st = stop_grows [OF Cons.prems(1) a, where s = s]
  have m: "map (\<lambda>a. Float_any (app_id (at_heap u a))) as = map (\<lambda>a. Float_any (app_id (at_heap ?u a))) as"
    using Cons.prems(2) st(3) by auto
  have "grows (in_group base recipe) b t (fold (\<lambda>i u. fst (stop_app s i u)) (map (\<lambda>a. Float_any (app_id (at_heap ?u a))) as) ?u)"
    by (rule Cons.IH [OF st(1)]) (use Cons.prems(2) st(2) in simp)
  then show ?case by (simp only: list.map fold.simps comp_def m)
qed simp

definition deployed :: "create_answer \<Rightarrow> bool" where
  "deployed answer = (case answer of Template_deployed names \<Rightarrow> True | _ \<Rightarrow> False)"

lemma rollback_restores_aux:
  assumes g: "grows (in_group base recipe) b t u" and free: "list_all (\<lambda>a. \<not> in_group base recipe (at_heap t a)) (at_work t)"
    and t: "work_ok c t"
  shows "at_work (rollback base recipe u) = at_work t \<and> list_all (\<lambda>a. at_heap (rollback base recipe u) a = at_heap t a) (at_work t)
    \<and> saved (rollback base recipe u)"
proof -
  have split: "\<exists>new. at_work v = at_work t @ new \<and> filter (\<lambda>a. in_group base recipe (at_heap v a)) (at_work v) = new
      \<and> filter (\<lambda>a. \<not> in_group base recipe (at_heap v a)) (at_work v) = at_work t" if v: "grows (in_group base recipe) b t v" for v
  proof -
    from v obtain new where new: "at_work v = at_work t @ new" "list_all (\<lambda>a. in_group base recipe (at_heap v a)) new"
      and old: "list_all (\<lambda>a. at_heap v a = at_heap t a) (at_work t)" by (auto simp: grows_def)
    have "list_all (\<lambda>a. \<not> in_group base recipe (at_heap v a)) (at_work t)" using free old by (simp add: list_all_iff)
    then show ?thesis using new by (auto simp: list_all_iff filter_id_conv filter_empty_conv)
  qed
  from split [OF g] obtain new where new: "at_work u = at_work t @ new" "filter (\<lambda>a. in_group base recipe (at_heap u a)) (at_work u) = new" by blast
  have "set new \<subseteq> set (at_work u) - set (at_work t)" using g new(1) by (auto simp: grows_def)
  note st = stops_grow [OF g this, of True]
  let ?v = "fold (\<lambda>i u. fst (stop_app True i u)) (map (\<lambda>a. Float_any (app_id (at_heap u a))) new) u"
  have m: "map (\<lambda>a. aget (at_heap u a) ''id'') new = map (\<lambda>a. Float_any (app_id (at_heap u a))) new"
    using g new(1) by (auto simp: grows_def list_all_iff intro: typed_id_any)
  have r: "rollback base recipe u = drop_apps (in_group base recipe) ?v" by (simp only: rollback_def Let_def new(2) m)
  have w: "filter (\<lambda>a. \<not> in_group base recipe (at_heap ?v a)) (at_work ?v) = at_work t" using split [OF st] by blast
  have below: "a < at_next ?v" "at_heap ?v a = at_heap t a" if "a \<in> set (at_work t)" for a
    using st that by (auto simp: grows_def list_all_iff)
  have same: "map (\<lambda>a. f (at_heap ?v a)) (at_work t) = map (\<lambda>a. f (at_heap t a)) (at_work t)" for f :: "amap \<Rightarrow> 'c"
    using below(2) by simp
  have "list_all (\<lambda>a. a < at_next ?v \<and> app_typed c (at_heap ?v a)) (at_work t)"
    using t below by (simp add: work_ok_def list_all_iff)
  then have "work_ok c (?v\<lparr>at_work := at_work t\<rparr>)"
    using t same [of app_name] same [of app_id] by (simp add: work_ok_def list_all_iff del: map_eq_conv)
  from saveAppsLocked_ok [OF this] have "saved (rollback base recipe u)" by (simp add: r drop_apps_def w table_ok_def)
  then show ?thesis unfolding r drop_apps_def w
    using below by (simp add: save_apps_heap list_all_iff)
qed

text \<open>
  C25. A template whose deployment does not succeed, whichever app fails at whatever point, leaves the table of apps as it
  was: the same apps in the same order with everything they had, and this is what the configuration holds. The table is well-formed before, no app has a number for
  its file, and no app belongs to an earlier deployment under the same group and recipe.
\<close>

theorem failed_template_leaves_nothing:
  assumes "table_ok b t" and "list_all (\<lambda>a. plain_file (at_heap t a) \<and> \<not> in_group base recipe (at_heap t a)) (at_work t)"
    and "b + length apps \<le> 2 ^ 53"
    and "createFromTemplate E base recipe apps cfg creating t = Some (t', answer)" and "\<not> deployed answer"
  shows "at_work t' = at_work t \<and> list_all (\<lambda>a. at_heap t' a = at_heap t a) (at_work t) \<and> saved t'"
proof (cases "t' = t")
  case True
  then show ?thesis using assms(1) by (simp add: list_all_iff table_ok_def)
next
  case False
  from assms(4,5) False obtain keys specs names envs u e where
    keys: "resolveTemplateDependencies apps = Some (Inr keys)"
    and d: "deploy E base recipe apps specs names envs keys t = Some (u, Some e)" and t': "t' = rollback base recipe u"
    by (auto simp: createFromTemplate_def deployed_def split: if_splits option.splits sum.splits)
  have "starts_in_order apps keys" using resolve_cases [of apps] keys by simp
  then have "length keys \<le> length apps"
    using card_length [of "map fst apps"] by (simp add: starts_in_order_def flip: distinct_card)
  then have b: "b + length keys \<le> 2 ^ 53" using assms(3) by simp
  have w: "work_ok b t" using assms(1) by (simp add: table_ok_def)
  have "grows (in_group base recipe) b t t" using w assms(2) by (intro grows_refl) (simp_all add: list_all_iff)
  from deploy_grows [OF this b d] have "grows (in_group base recipe) (b + length keys) t u" .
  from rollback_restores_aux [OF this _ w] assms(2) show ?thesis by (simp add: t' list_all_iff)
qed

section \<open>Examples and divergences\<close>

definition shop :: template where
  "shop = [(''web'', Map_any [''image'' \<mapsto> Str_any ''shop'', ''linked'' \<mapsto> List_any [Str_any ''db''], ''container'' \<mapsto> Str_any ''shop-web'']),
     (''db'', Map_any [''image'' \<mapsto> Str_any ''mysql'', ''container'' \<mapsto> Str_any ''shop-db''])]"

definition no_web :: create_env where
  "no_web = \<lparr>ce_apps = ''/srv'', ce_hostRoot = [], ce_now = 7, ce_in_use = (\<lambda>p. False), ce_secret = (\<lambda>c u k n. ''s3cret''),
     ce_marshal = (\<lambda>v. None), ce_mkdir = (\<lambda>p. True), ce_write = (\<lambda>p. True), ce_ready = (\<lambda>n. n \<noteq> ''shop-web''), ce_passthrough = (\<lambda>r. False),
     ce_started = (\<lambda>n. True)\<rparr>"

lemma shop_order: "resolveTemplateDependencies shop = Some (Inr [''db'', ''web''])"
proof -
  have k: "template_keys shop = [''db'', ''web'']" by code_simp
  have d: "template_deps shop ''web'' = [''db'']" "template_deps shop ''db'' = []"
    by (simp_all add: template_deps_def shop_def aget_def)
  show ?thesis by (simp add: resolveTemplateDependencies_def Let_def k d numeral_2_eq_2)
qed

lemma shop_def_fields:
  "app_def shop ''db'' = [''image'' \<mapsto> Str_any ''mysql'', ''container'' \<mapsto> Str_any ''shop-db'']"
  "app_def shop ''web'' = [''image'' \<mapsto> Str_any ''shop'', ''linked'' \<mapsto> List_any [Str_any ''db''], ''container'' \<mapsto> Str_any ''shop-web'']"
  by (simp_all add: app_def_def shop_def map_of_any_def)

lemma shop_names: "validAppName ''shop-db''" "validAppName ''shop-web''"
  by code_simp+

lemma install_ready:
  assumes "ce_ready E name" and "aget r ''configs'' = Nil_any" and "aget r ''ports'' = Nil_any"
  shows "\<exists>u f. install_app E name r (Some env) extra spec t = Some (u, f)"
  using assms by (simp add: install_app_def list_of_def app_fields_def toMapSlice_def case_prod_unfold)

lemma shop_fails:
  "\<exists>t' e. createFromTemplate no_web ''shop'' ''shop'' shop Map.empty [] two_apps = Some (t', e) \<and> \<not> deployed e"
proof -
  have free: "getLocked (Str_any ''shop-db'') two_apps = None" "getLocked (Str_any ''shop-web'') two_apps = None"
    by (simp_all add: getLocked_def two_apps_def matches_id_def aget_def)
  have n: "template_names ''shop'' shop [] two_apps [''db'', ''web''] = Some (Inr [(''db'', ''shop-db''), (''web'', ''shop-web'')])"
    by (simp add: shop_def_fields aget_def shop_names free)
  have g: "check_gpus no_web shop [''db'', ''web''] = Inr (\<lambda>k. None)"
    by (simp add: shop_def_fields aget_def parseGPURequest_def gpu_Parse_def checkGPUHost_def)
  have d: "\<exists>u e. deploy no_web ''shop'' ''shop'' shop specs [(''db'', ''shop-db''), (''web'', ''shop-web'')] envs [''db'', ''web''] two_apps
      = Some (u, Some e) \<and> \<not> deployed e" for specs envs
  proof -
    let ?names = "[(''db'', ''shop-db''), (''web'', ''shop-web'')]"
    have "ce_ready no_web ''shop-db''" "aget (app_def shop ''db'') ''configs'' = Nil_any" "aget (app_def shop ''db'') ''ports'' = Nil_any"
      by (simp_all add: no_web_def shop_def_fields aget_def)
    from install_ready [OF this] obtain u f where i: "install_app no_web ''shop-db'' (app_def shop ''db'')
        (Some [''manual'' \<mapsto> Map_any (envs ''db''), ''linked'' \<mapsto> List_any (map Str_any (linked_names shop ?names ''db''))])
        (template_field ''shop'' ''shop'' ''db'') (specs ''db'') two_apps = Some (u, f)" by blast
    then have f: "f = None \<or> f = Some (Start_failed ''shop-db'') \<or> f = Some (Not_prepared ''shop-db'')"
      by (auto simp: install_app_def case_prod_unfold split: if_splits option.splits)
    have "install_app no_web ''shop-web'' r env extra spec v = Some (v, Some (Not_prepared ''shop-web''))" for r env extra spec v
      by (simp add: install_app_def no_web_def)
    then show ?thesis using i f by (auto simp: name_of_def deployed_def)
  qed
  from d [of "\<lambda>k. None" "template_env no_web shop Map.empty [(''db'', ''shop-db''), (''web'', ''shop-web'')]"] obtain u e where
    "deploy no_web ''shop'' ''shop'' shop (\<lambda>k. None) [(''db'', ''shop-db''), (''web'', ''shop-web'')]
      (template_env no_web shop Map.empty [(''db'', ''shop-db''), (''web'', ''shop-web'')]) [''db'', ''web''] two_apps = Some (u, Some e)"
    "\<not> deployed e" by blast
  moreover have "shop \<noteq> []" "map_of_any (aget Map.empty ''env'') = Map.empty" by (simp_all add: shop_def aget_def map_of_any_def)
  ultimately show ?thesis by (simp add: createFromTemplate_def shop_order g n del: deploy.simps template_names.simps check_gpus.simps)
qed

lemma failed_template_leaves_nothing_witness:
  "\<exists>t' e. createFromTemplate no_web ''shop'' ''shop'' shop Map.empty [] two_apps = Some (t', e)
    \<and> at_work t' = [0, 1] \<and> list_all (\<lambda>a. at_heap t' a = at_heap two_apps a) [0, 1] \<and> saved t'"
proof -
  from shop_fails obtain t' e where c: "createFromTemplate no_web ''shop'' ''shop'' shop Map.empty [] two_apps = Some (t', e)"
    "\<not> deployed e" by blast
  have w: "at_work two_apps = [0, 1]" by (simp add: two_apps_def)
  have "list_all (\<lambda>a. plain_file (at_heap two_apps a) \<and> \<not> in_group ''shop'' ''shop'' (at_heap two_apps a)) (at_work two_apps)"
    by (simp add: two_apps_def plain_file_def in_group_def aget_def)
  moreover have "2 + length shop \<le> 2 ^ 53" by (simp add: shop_def)
  ultimately show ?thesis using failed_template_leaves_nothing [OF two_apps_ok _ _ c] c(1) w by auto
qed

text \<open>
  The rollback goes by the group and the name of the recipe, not by what this deployment has added: an app of an earlier
  deployment of the same template under the same name is stopped and dropped with the rest.
\<close>

lemma save_below: "x < at_next u \<Longrightarrow> x < at_next (saveAppsLocked u)"
  by (simp add: saveAppsLocked_def Let_def)

lemma stops_group:
  "a < at_next u \<Longrightarrow> in_group base recipe (at_heap (fold (\<lambda>i u. fst (stop_app s i u)) ids u) a) = in_group base recipe (at_heap u a)"
proof (induction ids arbitrary: u)
  case (Cons i ids)
  have t: "list_all (\<lambda>u. fst u \<noteq> ''template'') stop_fields" by (simp add: stop_fields_def)
  have "a < at_next (fst (stop_app s i u))
      \<and> in_group base recipe (at_heap (fst (stop_app s i u)) a) = in_group base recipe (at_heap u a)"
    using Cons.prems
    by (auto simp: stop_app_def setLocked_def Let_def change_app_def save_apps_heap save_below in_group_put [OF t] split: option.split)
  then show ?case using Cons.IH [of "fst (stop_app s i u)"] by simp
qed simp

lemma rollback_takes_all:
  assumes "list_all (\<lambda>a. a < at_next u) (at_work u)" and "in_group base recipe (at_heap u a)"
  shows "a \<notin> set (at_work (rollback base recipe u))"
proof -
  have w: "at_work (fold (\<lambda>i u. fst (stop_app True i u)) ids v) = at_work v" for ids v
    by (induction ids arbitrary: v) (auto simp: stop_app_def setLocked_def Let_def change_app_def save_apps_heap split: option.split)
  show ?thesis
    using assms by (auto simp: rollback_def Let_def drop_apps_def save_apps_heap w stops_group list_all_iff)
qed

lemma earlier_deployment_removed:
  assumes "table_ok b t" and "list_all (\<lambda>a. plain_file (at_heap t a)) (at_work t)" and "b + length keys \<le> 2 ^ 53"
    and "deploy E base recipe apps specs names envs keys t = Some (u, Some e)"
    and "a \<in> set (at_work t)" and "in_group base recipe (at_heap t a)"
  shows "a \<notin> set (at_work (rollback base recipe u))"
proof -
  have t: "grows (\<lambda>m. True) b t t" using assms(1,2) by (intro grows_refl) (simp_all add: table_ok_def)
  have "grows (in_group base recipe) b t t" using t by (simp add: grows_def list_all_iff)
  from deploy_grows [OF this assms(3,4)] have g: "grows (in_group base recipe) (b + length keys) t u" .
  then have "list_all (\<lambda>a. a < at_next u) (at_work u)" "at_heap u a = at_heap t a" using assms(5) by (auto simp: grows_def list_all_iff)
  with rollback_takes_all assms(6) show ?thesis by metis
qed

text \<open>Two apps of a template that name the same container pass the check of names; both get a record under it.\<close>

definition twins :: template where
  "twins = [(''a'', Map_any [''container'' \<mapsto> Str_any ''x'']), (''b'', Map_any [''container'' \<mapsto> Str_any ''x''])]"

lemma same_container_twice:
  assumes "getLocked (Str_any ''x'') t = None"
  shows "template_names base twins [] t [''a'', ''b''] = Some (Inr [(''a'', ''x''), (''b'', ''x'')])"
proof -
  have "validAppName ''x''" by code_simp
  then show ?thesis using assms by (simp add: twins_def app_def_def map_of_any_def Let_def)
qed

text \<open>
  References are resolved before the user's values are put in: what another app is told is the generated value, not the
  one that the user has given the variable.
\<close>

lemma override_not_referenced:
  assumes "names = [(''db'', ''d''), (''web'', ''w'')]" and "apps =
      [(''db'', Map_any [''env'' \<mapsto> Map_any [''PASS'' \<mapsto> Map_any [''type'' \<mapsto> Str_any ''generate'']]]),
       (''web'', Map_any [''env'' \<mapsto> Map_any [''URL'' \<mapsto> Str_any ''${db.env.PASS}'']])]"
    and "user = [''db'' \<mapsto> Map_any [''PASS'' \<mapsto> Str_any ''mine'']]"
  shows "template_env E apps user names ''db'' ''PASS'' = Some (Str_any ''mine'')"
    and "template_env E apps user names ''web'' ''URL'' = Some (Str_any (ce_secret E ''d'' False ''PASS'' 16))"
proof -
  let ?prepared = "\<lambda>key. prepareEnv (ce_secret E (name_of names key) False) (map_of_any (aget (app_def apps key) ''env'')) (name_of names key)"
  let ?ctx = "\<lambda>key. if key \<in> fst ` set names
    then Some (Map_any [''env'' \<mapsto> Map_any (?prepared key), ''name'' \<mapsto> Str_any (name_of names key)]) else None"
  have p: "?prepared ''db'' ''PASS'' = Some (Str_any (ce_secret E ''d'' False ''PASS'' 16))" "?prepared ''web'' ''URL'' = Some (Str_any ''${db.env.PASS}'')"
    by (simp_all add: assms name_of_def app_def_def map_of_any_def prepareEnv_def resolveEnvDirective_def secret_length_def aget_def)
  show "template_env E apps user names ''db'' ''PASS'' = Some (Str_any ''mine'')"
    by (simp add: template_env_def Let_def assms(3) prepareEnv_def)
  have c: "list_all var_char ''db''" "list_all var_char ''PASS''" by code_simp+
  have ref: "''${db.env.PASS}'' = [] @ ''${'' @ ''db'' @ ''.'' @ (''env.'' @ ''PASS'') @ ''}'' @ []" by simp
  have "expand (resolve_var ?ctx) ''${db.env.PASS}''
      = [] @ jsString (Str_any (ce_secret E ''d'' False ''PASS'' 16)) @ expand (resolve_var ?ctx) []"
    unfolding ref by (rule reference_resolved [of ?ctx _ "?prepared ''db''" "name_of names ''db''"]) (use p(1) c in \<open>simp_all add: assms(1)\<close>)
  then have "expand (resolve_var ?ctx) ''${db.env.PASS}'' = ce_secret E ''d'' False ''PASS'' 16" by (simp only: expand.simps jsString.simps append_Nil append_Nil2)
  moreover have uw: "as_map (aget user ''web'') = None" by (simp add: assms(3) aget_def)
  ultimately show "template_env E apps user names ''web'' ''URL'' = Some (Str_any (ce_secret E ''d'' False ''PASS'' 16))"
    using p(2) uw by (simp add: template_env_def Let_def interpolateTemplateVars_def del: expand.simps)
qed

end
