(* ===== verification/Spec2Isabelle.thy ===== *)
theory Spec2Isabelle
  imports SwapLinux ConnLimits MailFirewall DnsRate HttpFirewall Dns MimeTree Ports Supervise ProxyCache Handover HubSigner Watchdog ImapAccess ImapPrivacy ImapRuns SmtpRoundtrip SmtpClient MailMessage AppPorts AppRouting ControlApi SslRuns AppTemplates
begin

text \<open>
  A verification development for ODAC, a self-hosted application platform written in Go. A server
  process manages applications, domains and the host, and keeps three detached data-plane daemons
  running beside it: a DNS server, a reverse proxy and a mail server. The server pushes their
  configuration to them; the daemons answer the outside world; a watchdog restarts the server, the
  server updates itself by handing over to a new container, and a hub in the cloud sends it signed
  commands. What is verified here is the logic that stands between the outside world and the host:
  what is let in, what is answered, what is kept, and what the server may touch.

  \<^bold>\<open>Theories and the code they model\<close> (paths under \<open>src/internal/\<close>)

  Shared ground:
  \<^item> \<open>Prelude\<close>: the functions of the packages \<open>strings\<close>, \<open>bytes\<close> and \<open>strconv\<close> that the code calls,
    and lemmas on lists and maps. \<open>GoSort\<close>: the insertion sort the code writes out in three places,
    with the contract \<open>go_less\<close> of its comparison.
  \<^item> \<open>GoAny\<close>: decoded JSON values (\<open>any\<close>) and integers of 64 bits. \<open>GoFloat\<close>: \<open>float64\<close> as the
    rational it denotes, with rounding, parsing and shortest printing. \<open>GoJson\<close>: \<open>json.Decoder\<close> and
    the string escapes. \<open>GoNet\<close>: \<open>net.SplitHostPort\<close>, \<open>net.ParseIP\<close>. \<open>GoPath\<close>: \<open>path\<close> and
    \<open>filepath\<close>. \<open>GoBase64\<close>: \<open>encoding/base64\<close>.
  \<^item> \<open>FileSys\<close>: files whose calls may fail or be the last one of the process. \<open>Runs\<close>: runs over
    inputs and the contract \<open>streak_counter\<close>. \<open>Counting\<close>: maps of counters, and the contract
    \<open>window_gate\<close> of a fixed-window rate limit.

  The host's swap manager, \<open>system/swap/\<close>: \<open>Swap\<close> (\<open>swap.go\<close>), \<open>SwapDecide\<close> (\<open>decide.go\<close>),
  \<open>SwapFstab\<close> (\<open>actuator.go\<close>), \<open>SwapManager\<close> (\<open>manager.go\<close>, over an abstract \<open>controller\<close> with the
  contract \<open>framed_controller\<close>), \<open>SwapLinux\<close> (\<open>swap_linux.go\<close>, an instance of the contract).

  The mail server, \<open>mail/\<close>:
  \<^item> \<open>ConnLimits\<close> (\<open>limits/limiter.go\<close>), \<open>MailFirewall\<close> and \<open>MailPassword\<close> (\<open>auth/\<close>): connection
    limits, brute-force blocking, password hashes.
  \<^item> \<open>MailStore\<close> (\<open>storage/sqlite.go\<close>, \<open>flags.go\<close>) and \<open>BlobStore\<close> (\<open>blob/\<close>): the tables of the
    database as lists of rows, and the store of raw messages over failing file operations.
  \<^item> \<open>MimeTree\<close> and \<open>BodyStructure\<close> (\<open>mimetree/\<close>), \<open>MailMessage\<close> (\<open>message/message.go\<close>): the tree
    of the parts of a message, its BODYSTRUCTURE and what is read off it when it is stored.
  \<^item> \<open>ImapText\<close> (\<open>imap/helpers.go\<close>, \<open>raw.go\<close>), \<open>ImapFetch\<close> (\<open>raw.go\<close>, \<open>commands.go\<close>), \<open>ImapSession\<close>
    (\<open>connection.go\<close>, \<open>commands.go\<close>, \<open>server.go\<close>): the text of the protocol, the answer of a FETCH and
    the session with every command. \<open>ImapAccess\<close>, \<open>ImapPrivacy\<close>, \<open>ImapRoundtrip\<close>, \<open>ImapRuns\<close> hold
    their theorems.
  \<^item> \<open>SmtpServer\<close> (\<open>smtp/backend.go\<close>), \<open>SmtpClient\<close> (\<open>smtp/client.go\<close>), \<open>SmtpRoundtrip\<close>: the callbacks
    of a session in any order, the delivery to other hosts, and the way of a message from SMTP to IMAP.

  The other daemons: \<open>DnsRate\<close> (\<open>dns/resolver/ratelimit.go\<close>) and \<open>Dns\<close> (\<open>resolver.go\<close>, \<open>records.go\<close>,
  \<open>dns/config/config.go\<close>); \<open>HttpFirewall\<close> (\<open>proxy/proxy/firewall.go\<close>) and \<open>ProxyCache\<close> (\<open>cache.go\<close>).

  The server:
  \<^item> \<open>ConfigStore\<close> (\<open>config/config.go\<close>): the configuration, one JSON file for each module.
  \<^item> \<open>AppTable\<close> (\<open>appmgr/appmgr.go\<close>, \<open>helpers.go\<close>, \<open>ops.go\<close>, \<open>netmode/\<close>): the working set of apps as
    addresses of a heap and its saved copy, since the code shares and copies the maps; ids, names,
    deletion. \<open>AppSettings\<close> (\<open>ops.go\<close>, \<open>env.go\<close>): every setting of an app. \<open>AppPorts\<close>: what is stored
    of ports. \<open>Ports\<close> (\<open>ports/ports.go\<close>): how a port entry is exposed.
  \<^item> \<open>Gpu\<close> (\<open>gpu/gpu.go\<close>), \<open>AppRecipes\<close>, \<open>TemplateOrder\<close>, \<open>AppTemplates\<close> (\<open>appmgr/create.go\<close>,
    \<open>run.go\<close>): apps from recipes and templates, their environment, files, start order and rollback.
  \<^item> \<open>Domains\<close> (\<open>domains/domain.go\<close>), \<open>SslManager\<close> and \<open>SslRuns\<close> (\<open>domains/ssl.go\<close>): domains with their
    DNS records, certificates and the runs that obtain them. \<open>AppRouting\<close>: the rules that apps and
    domains keep together.
  \<^item> \<open>ControlApi\<close> (\<open>api/api.go\<close>, \<open>token.go\<close>): who may run which action.
  \<^item> \<open>JsCanon\<close> (\<open>jscanon/\<close>) and \<open>HubSigner\<close> (\<open>hub/signer.go\<close>, \<open>hub.go\<close>): canonical JSON and the signed
    messages of the hub.
  \<^item> \<open>Supervise\<close> (\<open>supervise/\<close>), \<open>Watchdog\<close> (\<open>watchdog/\<close>): starting, adopting and stopping daemons, and
    the process that restarts the server.
  \<^item> \<open>Docker\<close>, \<open>Updater\<close>, \<open>Handover\<close> (\<open>updater/\<close>): the interface of the Docker daemon, the self-update
    and the message protocol of both sides.

  \<^bold>\<open>How the model corresponds to the code\<close>

  A definition carries the name of the function it models, or that name with its receiver where the
  plain name is taken; a struct is a record whose fields have a prefix, an enumeration a datatype, an
  interface a record of functions (\<open>controller\<close>, \<open>bucket_ops\<close>, \<open>mime_lib\<close>, \<open>create_env\<close>). A method is
  a function from the receiver's state (and what it reads from outside: the clock, the environment,
  the answer of a system call) to the new state and the results. A \<open>map\<close> is a HOL map, or an
  association list with distinct keys where the code iterates over it or takes its size. Fallible
  code returns \<open>option\<close>, a sum or a flag, as the caller sees it; where the code panics or does not
  return, the result is \<^const>\<open>None\<close>. Times are integers in nanoseconds or milliseconds, read once per
  call. Log lines and the wording of messages are dropped.

  Integers are \<open>int\<close> where the code cannot leave the range of \<open>int64\<close> on a plausible host (for the
  swap manager that is a lemma, \<open>decide_int64\<close>) and words where the width shows: the fields of a
  DNS record, memory sizes, ranges of a partial fetch. The scores of the proxy cache and the token
  rates are rationals in place of \<open>float64\<close>. Ids of apps are \<open>float64\<close> as in the code and counted up
  to \<open>2 ^ 53\<close>. \<open>trim_space\<close> and \<open>to_lower\<close> are those of ASCII text.

  Mutexes make a method one step. Where calls interleave inside a method the model has finer steps:
  the supervisor's exit watcher, the goroutines of the SMTP session, the phases of a certificate run,
  the sides of a handover, the check and the write of \<open>SetNetworkMode\<close>. Lemmas such as
  \<open>late_handler_race\<close>, \<open>isolation_race\<close> and \<open>domain_race\<close> show what an interleaving breaks.

  Libraries outside the repository are parameters: HMAC, SHA-256, scrypt and MD5, the token bucket of
  \<open>golang.org/x/time/rate\<close>, the case tables of \<open>x/text\<close>, the names of \<open>miekg/dns\<close>, \<open>net/textproto\<close>,
  \<open>mime\<close>, \<open>net/mail\<close>, the quoted-printable reader, date formats, the JSON codec of the configuration,
  the ACME client and X.509, SQLite (a statement is what it does to the rows), Docker and the commands
  of the operating system, each of which may fail at any time.

  \<^bold>\<open>What the theorems show\<close> (properties are numbered C1 to C40 in their theories)

  \<^item> Mail sessions (C1 to C6): a session changes only the mail of its account and learns nothing of the
    mail of others, plaintext bytes are not read as encrypted ones, an SMTP session relays only for the
    authenticated owner of the sender address, and what is appended or delivered is fetched byte for byte.
  \<^item> Delivery (C7, C8): dot-stuffed data reads back, and no line of a conversation can be injected.
  \<^item> Limits and swap (C9 to C11): live connections stay within the caps; live swap is never taken offline.
  \<^item> Update (C12, C33, C36, C37): without timeouts no two instances serve mail, API or hub, every
    handover ends, and a rollback keeps the container it runs in.
  \<^item> Configuration (C13, C14, C38): saving refines an atomic replacement, a crash leaves old or new
    values, a module that cannot be written is reported and kept.
  \<^item> Applications (C16, C20, C22, C24 to C27): the table of apps is typed and its ids and names are
    unique under every operation; a deletion leaves nothing; ports are in range and distinct; a failed
    template leaves the table as it was; configuration files stay in their directory; the start order
    of a template is right, and refused only when there is none.
  \<^item> Domains and API (C15, C17 to C19, C21, C23): a handler runs only for a credential that entitles to
    it; host networking excludes isolation and domains; a certificate follows the names of its domain
    through every interleaving; adding and deleting a domain cancel out.
  \<^item> Logs, blobs, hub (C28 to C32): log files refine what was logged, blobs are whole and collected
    exactly when nothing refers to them, signatures cover what they are said to cover.
  \<^item> Text and tables (C34, C35, C39, C40): BODYSTRUCTURE reads back, the MIME tree is a nest of ranges,
    NXDOMAIN is exact, the accounting of the cache is exact.

  Beside the properties every theory has lemmas of its own kind (refinements, bounds, termination), and
  the last section of a theory often records where the code differs from its comments or its purpose
  (\<open>Where the code parts from its comments\<close>, \<open>Examples and divergences\<close>).

  \<^bold>\<open>Bounds and fuel\<close>

  Loops are structural recursions or functions with a measure where the code's loop ends. The levels
  left to \<open>parse_entity\<close> are the code's own \<open>MaxDepth\<close>, the steps of \<open>chaseCNAME\<close> its own limit of eight.
  Fuel appears in few places: \<open>unique_from\<close> has three candidates for each app, which
  \<open>unique_name_found\<close> proves enough; \<open>available_from\<close> has the ports up to 65535, and running out is the
  code's loop that never ends; \<open>kahn_loop\<close> has one round for each app, which \<open>kahn_loop_ok\<close> proves
  enough; the client's reader of lists in \<open>BodyStructure\<close> works for every fuel from some number on; the
  search for the shortest decimal in \<open>GoFloat\<close> tries as many digits as the exact value has, so that it
  finds one (\<open>shortest_reads\<close>). Faults come as
  finite lists of outcomes, one for each call, of any length.

  \<^bold>\<open>What is not modelled\<close>

  Everything that only moves bytes or calls Docker, ACME or the kernel: HTTP handlers and clients, the
  forwarding of requests in the proxy, WebSocket and socket I/O, the terminal interface, the entry
  points under \<open>cmd/\<close>, translations, the opening of databases and listeners. In the modelled parts:
  \<open>Stats\<close> of the cache, the tickers that call the modelled operations, the container options of
  \<open>run.go\<close>, blue-green deployment, creation from git, port discovery and the HTTP scan of apps, the
  self-signed bootstrap certificate and \<open>acme.go\<close>, the commands and loops of \<open>hub.go\<close>, the zone builder
  of \<open>dataplane\<close>, application logs, the page cache and host routing of the proxy.
\<close>

end
